(* ===== verification/Kyro_Prelude.thy ===== *)
theory Kyro_Prelude
  imports Main "HOL-Library.Word" "HOL-Library.Monad_Syntax"
begin

unbundle bit_operations_syntax

section \<open>Prelude: machine types, byte order, and shared lemmas\<close>

text \<open>
  Shared by every component: the widths of the C integer types, the byte-swap builtins, the
  little-endian layout of integers in memory, and generic lemmas on lists and modular indices.

  Convention for results. A C function that may not return normally (it panics, reads or writes
  outside the memory it owns, or dereferences a null pointer) is modelled with result type
  \<open>'a option\<close>, where \<open>None\<close> stands for \<open>control does not come back to the caller in a
  defined state\<close>. Ordinary error codes of the source (\<open>-1\<close>, \<open>-EINVAL\<close>, \<open>NULL\<close>) are values of
  the result type.
\<close>

subsection \<open>Widths\<close>

type_synonym u8 = "8 word"
type_synonym u16 = "16 word"
type_synonym u32 = "32 word"
type_synonym u64 = "64 word"

named_theorems ring_simps \<open>facts about ring-buffer contents\<close>
named_theorems byte_simps \<open>byte order and byte layout\<close>

subsection \<open>Byte order\<close>

definition bswap16 :: "u16 \<Rightarrow> u16" where
  "bswap16 x = push_bit 8 x OR drop_bit 8 x"

definition bswap32 :: "u32 \<Rightarrow> u32" where
  "bswap32 x = push_bit 24 x OR push_bit 8 (x AND 0xFF00) OR drop_bit 8 (x AND 0xFF0000) OR drop_bit 24 x"

text \<open>Values stay below the bound of their width.\<close>

lemma unat_bounds:
  "unat (a :: u8) < 256" "unat (b :: u16) < 65536" "unat (c :: u32) < 4294967296" "unat (d :: u64) < 18446744073709551616"
proof -
  show "unat a < 256" proof -
    have "unat a < 2 ^ LENGTH(8)" by (rule unsigned_less)
    then show ?thesis by simp
  qed
  show "unat b < 65536" proof -
    have "unat b < 2 ^ LENGTH(16)" by (rule unsigned_less)
    then show ?thesis by simp
  qed
  show "unat c < 4294967296" proof -
    have "unat c < 2 ^ LENGTH(32)" by (rule unsigned_less)
    then show ?thesis by simp
  qed
  show "unat d < 18446744073709551616" proof -
    have "unat d < 2 ^ LENGTH(64)" by (rule unsigned_less)
    then show ?thesis by simp
  qed
qed

text \<open>The bytes of an integer as a little-endian machine stores them, lowest address first.\<close>

definition le16 :: "u16 \<Rightarrow> u8 list" where
  "le16 x = [ucast x, ucast (drop_bit 8 x)]"

definition le32 :: "u32 \<Rightarrow> u8 list" where
  "le32 x = [ucast x, ucast (drop_bit 8 x), ucast (drop_bit 16 x), ucast (drop_bit 24 x)]"

definition of_le16 :: "u8 list \<Rightarrow> u16" where
  "of_le16 bs = ucast (bs ! 0) OR push_bit 8 (ucast (bs ! 1))"

definition of_le32 :: "u8 list \<Rightarrow> u32" where
  "of_le32 bs = ucast (bs ! 0) OR push_bit 8 (ucast (bs ! 1)) OR push_bit 16 (ucast (bs ! 2))
     OR push_bit 24 (ucast (bs ! 3))"

lemma bswap32_masks:
  "(0xFF00 :: u32) = push_bit 8 (mask 8)" "(0xFF0000 :: u32) = push_bit 16 (mask 8)"
  by (simp_all add: mask_eq_exp_minus_1)

lemma bit_bswap32:
  "bit (bswap32 x) n \<longleftrightarrow>
     n < 32 \<and> bit x (if n < 8 then n + 24 else if n < 16 then n + 8 else if n < 24 then n - 8 else n - 24)"
  unfolding bswap32_def bswap32_masks
  by (auto simp: bit_simps add.commute dest: bit_imp_le_length)

lemma bswap16_bswap16 [simp, byte_simps]: "bswap16 (bswap16 x) = x"
  by (rule bit_word_eqI) (auto simp: bswap16_def bit_simps)

lemma bswap32_bswap32 [simp, byte_simps]: "bswap32 (bswap32 x) = x"
  by (rule bit_word_eqI) (auto simp: bit_bswap32)

lemma bswap16_inject [simp]: "bswap16 x = bswap16 y \<longleftrightarrow> x = y"
  by (metis bswap16_bswap16)

lemma bswap32_inject [simp]: "bswap32 x = bswap32 y \<longleftrightarrow> x = y"
  by (metis bswap32_bswap32)

lemma length_le16 [simp]: "length (le16 x) = 2"
  by (simp add: le16_def)

lemma length_le32 [simp]: "length (le32 x) = 4"
  by (simp add: le32_def)

lemma bit_of_le32:
  assumes "4 \<le> length bs"
  shows "bit (of_le32 bs) n \<longleftrightarrow> n < 32 \<and> bit (bs ! (n div 8)) (n mod 8)"
proof (cases "n < 32")
  case True
  then have "n div 8 = 0 \<and> n < 8 \<or> n div 8 = 1 \<and> 8 \<le> n \<and> n < 16
      \<or> n div 8 = 2 \<and> 16 \<le> n \<and> n < 24 \<or> n div 8 = 3 \<and> 24 \<le> n \<and> n < 32" by auto
  moreover have "n mod 8 = n - 8 * (n div 8)" by presburger
  ultimately show ?thesis using True assms
    by (auto simp: of_le32_def bit_simps dest: bit_imp_le_length)
qed (auto dest: bit_imp_le_length)

lemma bit_le32_nth:
  assumes "k < 4"
  shows "bit (le32 x ! k) m \<longleftrightarrow> m < 8 \<and> bit x (8 * k + m)"
proof -
  from assms consider "k = 0" | "k = 1" | "k = 2" | "k = 3" by linarith
  then show ?thesis by cases (auto simp: le32_def bit_simps)
qed

lemma of_le16_le16 [simp, byte_simps]: "of_le16 (le16 x @ bs) = x"
  by (rule bit_word_eqI) (auto simp: of_le16_def le16_def bit_simps)

lemma of_le32_le32 [simp, byte_simps]: "of_le32 (le32 x @ bs) = x"
proof (rule bit_word_eqI)
  fix n assume "n < LENGTH(32)"
  then have n: "n < 32" and k: "n div 8 < 4" by auto
  have "bit (of_le32 (le32 x @ bs)) n \<longleftrightarrow> bit (le32 x ! (n div 8)) (n mod 8)"
    using n k by (simp add: bit_of_le32 nth_append)
  also have "\<dots> \<longleftrightarrow> bit x (8 * (n div 8) + n mod 8)"
    using bit_le32_nth [OF k] by simp
  finally show "bit (of_le32 (le32 x @ bs)) n \<longleftrightarrow> bit x n" by simp
qed

subsection \<open>Ring-buffer contents\<close>

text \<open>
  The contents of a ring of \<open>n\<close> slots held in \<open>buf\<close>: \<open>c\<close> elements from slot \<open>h\<close> on,
  indices modulo \<open>n\<close>. Shared by the event queue, the pipe and the log history.
\<close>

definition ring_list :: "'a list \<Rightarrow> nat \<Rightarrow> nat \<Rightarrow> 'a list" where
  "ring_list buf h c = map (\<lambda>i. buf ! ((h + i) mod length buf)) [0..<c]"

lemma length_ring_list [simp, ring_simps]: "length (ring_list buf h c) = c"
  by (simp add: ring_list_def)

lemma ring_list_0 [simp, ring_simps]: "ring_list buf h 0 = []"
  by (simp add: ring_list_def)

lemma ring_slot_neq:
  assumes "i < c" "c < n" shows "(h + i) mod n \<noteq> (h + c) mod (n::nat)"
proof
  assume "(h + i) mod n = (h + c) mod n"
  then have "n dvd (h + c) - (h + i)" using assms by (intro mod_eq_dvd_iff_nat [THEN iffD1]) auto
  then have "n dvd c - i" by simp
  with assms show False using dvd_imp_le [of n "c - i"] by simp
qed

text \<open>Storing at the tail slot appends.\<close>

lemma ring_list_snoc [ring_simps]:
  assumes "c < length buf"
  shows "ring_list (buf[(h + c) mod length buf := x]) h (Suc c) = ring_list buf h c @ [x]"
proof -
  have *: "(h + c) mod length buf < length buf" using assms by (intro mod_less_divisor) auto
  have "map (\<lambda>i. buf[(h + c) mod length buf := x] ! ((h + i) mod length buf)) [0..<c]
      = map (\<lambda>i. buf ! ((h + i) mod length buf)) [0..<c]"
    by (rule map_cong [OF refl])
      (metis ring_slot_neq [OF _ assms, of _ h] atLeastLessThan_iff set_upt nth_list_update_neq)
  then show ?thesis using * by (simp add: ring_list_def)
qed

text \<open>Advancing the head by one removes the first element.\<close>

lemma ring_list_Cons [ring_simps]:
  "ring_list buf h (Suc c) = buf ! (h mod length buf) # ring_list buf (Suc h mod length buf) c"
proof -
  have "ring_list buf h (Suc c) = buf ! (h mod length buf) # map (\<lambda>i. buf ! ((Suc h + i) mod length buf)) [0..<c]"
    by (simp add: ring_list_def upt_conv_Cons map_Suc_upt [symmetric] del: upt_Suc)
  also have "map (\<lambda>i. buf ! ((Suc h + i) mod length buf)) [0..<c] = ring_list buf (Suc h mod length buf) c"
    by (simp add: ring_list_def mod_add_left_eq)
  finally show ?thesis .
qed

lemma ring_list_hd:
  "0 < c \<Longrightarrow> h < length buf \<Longrightarrow> ring_list buf h c = buf ! h # ring_list buf (Suc h mod length buf) (c - 1)"
  by (cases c) (auto simp: ring_list_Cons)

text \<open>The same facts with the size of the ring named, as the components use them.\<close>

lemma ring_push [ring_simps]:
  "length buf = n \<Longrightarrow> c < n \<Longrightarrow> ring_list (buf[(h + c) mod n := x]) h (Suc c) = ring_list buf h c @ [x]"
  using ring_list_snoc [of c buf h x] by simp

lemma ring_pop:
  "length buf = n \<Longrightarrow> 0 < c \<Longrightarrow> h < n \<Longrightarrow> ring_list buf h c = buf ! h # ring_list buf (Suc h mod n) (c - Suc 0)"
  using ring_list_hd [of c h buf] by simp

lemma ring_tail_push [ring_simps]: "Suc ((h + c) mod n) mod n = (h + Suc c) mod (n::nat)"
  by (simp add: mod_Suc_eq)

lemma ring_tail_pop [ring_simps]: "0 < c \<Longrightarrow> (Suc h mod n + c - Suc 0) mod n = (h + c) mod (n::nat)"
proof -
  assume "0 < c"
  then have "Suc h mod n + c - Suc 0 = Suc h mod n + (c - 1)" and *: "Suc h + (c - 1) = h + c" by simp_all
  then show ?thesis by (metis mod_add_left_eq)
qed

subsection \<open>Bounded access to byte blocks\<close>

text \<open>Reading \<open>n\<close> elements and storing a block at an offset; outside the object gives \<open>None\<close>.\<close>

definition read_at :: "nat \<Rightarrow> nat \<Rightarrow> 'a list \<Rightarrow> 'a list option" where
  "read_at off n m = (if off + n \<le> length m then Some (take n (drop off m)) else None)"

definition write_at :: "nat \<Rightarrow> 'a list \<Rightarrow> 'a list \<Rightarrow> 'a list option" where
  "write_at off d m =
     (if off + length d \<le> length m then Some (take off m @ d @ drop (off + length d) m) else None)"

lemma write_at_length: "write_at off d m = Some m' \<Longrightarrow> length m' = length m"
  by (auto simp: write_at_def split: if_splits)

lemma read_write_at [byte_simps]: "write_at off d m = Some m' \<Longrightarrow> read_at off (length d) m' = Some d"
  by (auto simp: write_at_def read_at_def split: if_splits)

lemma read_at_0 [byte_simps]: "read_at 0 n (xs @ ys) = Some xs" if "length xs = n"
  using that by (simp add: read_at_def)

text \<open>Fields of packed structures.\<close>

definition rd8 :: "nat \<Rightarrow> u8 list \<Rightarrow> u8 option" where
  "rd8 off m = (if off < length m then Some (m ! off) else None)"

definition rd16 :: "nat \<Rightarrow> u8 list \<Rightarrow> u16 option" where
  "rd16 off m = (if off + 2 \<le> length m then Some (of_le16 (drop off m)) else None)"

definition rd32 :: "nat \<Rightarrow> u8 list \<Rightarrow> u32 option" where
  "rd32 off m = (if off + 4 \<le> length m then Some (of_le32 (drop off m)) else None)"

text \<open>Reading a field of a structure whose bytes are given as a concatenation of its fields.\<close>

lemma rd_skip [byte_simps]:
  "length xs \<le> off \<Longrightarrow> rd8 off (xs @ ys) = rd8 (off - length xs) ys"
  "length xs \<le> off \<Longrightarrow> rd16 off (xs @ ys) = rd16 (off - length xs) ys"
  "length xs \<le> off \<Longrightarrow> rd32 off (xs @ ys) = rd32 (off - length xs) ys"
  by (auto simp: rd8_def rd16_def rd32_def nth_append)

lemma rd_skip_Cons [byte_simps]:
  "0 < off \<Longrightarrow> rd8 off (x # ys) = rd8 (off - 1) ys"
  "0 < off \<Longrightarrow> rd16 off (x # ys) = rd16 (off - 1) ys"
  "0 < off \<Longrightarrow> rd32 off (x # ys) = rd32 (off - 1) ys"
  using rd_skip [of "[x]" off ys] by simp_all

lemma rd_here [byte_simps]:
  "rd8 0 (x # ys) = Some x"
  "rd16 0 (le16 a @ ys) = Some a"
  "rd32 0 (le32 b @ ys) = Some b"
  by (simp_all add: rd8_def rd16_def rd32_def)

lemma read_at_skip [byte_simps]:
  "length xs \<le> off \<Longrightarrow> read_at off n (xs @ ys) = read_at (off - length xs) n ys"
  "0 < off \<Longrightarrow> read_at off n (x # ys) = read_at (off - 1) n ys"
  by (auto simp: read_at_def drop_Cons' )

subsection \<open>Loops over a range\<close>

text \<open>\<open>for (i = 0; i < n; i++)\<close> with a body that may not return.\<close>

fun for_each :: "('i \<Rightarrow> 's \<Rightarrow> 's option) \<Rightarrow> 'i list \<Rightarrow> 's \<Rightarrow> 's option" where
  "for_each f [] s = Some s"
| "for_each f (i # is) s = do { s' \<leftarrow> f i s; for_each f is s' }"

lemma for_each_skip: "(\<And>x. x \<in> set xs \<Longrightarrow> f x s = Some s) \<Longrightarrow> for_each f xs s = Some s"
  by (induction xs) auto

lemma for_each_append: "for_each f (xs @ ys) s = do { s' \<leftarrow> for_each f xs s; for_each f ys s' }"
proof (induction xs arbitrary: s)
  case (Cons x xs)
  show ?case by (cases "f x s") (simp_all add: Cons.IH)
qed simp

text \<open>Two loops whose bodies agree through a relation of their states.\<close>

lemma for_each_simulates:
  assumes "\<And>x s a. x \<in> set xs \<Longrightarrow> R s a \<Longrightarrow> \<exists>s'. f x s = Some s' \<and> R s' (g x a)" "R s a"
  shows "\<exists>s'. for_each f xs s = Some s' \<and> R s' (fold g xs a)"
  using assms
proof (induction xs arbitrary: s a)
  case (Cons x xs)
  obtain s1 where "f x s = Some s1" "R s1 (g x a)" using Cons.prems by (meson list.set_intros(1))
  then show ?case using Cons.IH [of s1 "g x a"] Cons.prems(1) by simp
qed simp

subsection \<open>Error numbers (errno.h)\<close>

definition ENOMEM :: int where "ENOMEM = 12"
definition EINVAL :: int where "EINVAL = 22"

end
