(* ===== verification/Bounded_Fifo.thy ===== *)
theory Bounded_Fifo
  imports Kyro_Prelude "HOL-Library.Sublist"
begin

section \<open>The contract of a bounded first-in first-out queue\<close>

text \<open>
  The interface between a producer and a consumer that share a ring buffer (the input drivers and
  \<open>tty_read\<close>, the two ends of a pipe). A provider gives \<open>push\<close>, \<open>pop\<close>, an abstraction to the
  list of waiting elements and an invariant; the client gets, for every schedule of pushes and
  pops, the order and no-loss guarantees below.
\<close>

datatype 'a qop = Push 'a | Pop

text \<open>A schedule of operations: the elements delivered by the pops, and the final queue.\<close>

fun fifo_run :: "('a \<Rightarrow> 'q \<Rightarrow> 'q) \<Rightarrow> ('q \<Rightarrow> ('a \<times> 'q) option) \<Rightarrow> 'q \<Rightarrow> 'a qop list \<Rightarrow> 'a list \<times> 'q" where
  "fifo_run push pop q [] = ([], q)"
| "fifo_run push pop q (Push x # ops) = fifo_run push pop (push x q) ops"
| "fifo_run push pop q (Pop # ops) =
     (case pop q of
        None \<Rightarrow> fifo_run push pop q ops
      | Some (x, q') \<Rightarrow> (case fifo_run push pop q' ops of (out, q'') \<Rightarrow> (x # out, q'')))"

fun pushed :: "'a qop list \<Rightarrow> 'a list" where
  "pushed [] = []"
| "pushed (Push x # ops) = x # pushed ops"
| "pushed (Pop # ops) = pushed ops"

locale bounded_fifo =
  fixes push :: "'a \<Rightarrow> 'q \<Rightarrow> 'q"
    and pop :: "'q \<Rightarrow> ('a \<times> 'q) option"
    and contents :: "'q \<Rightarrow> 'a list"
    and inv :: "'q \<Rightarrow> bool"
    and cap :: nat
  assumes inv_push: "inv q \<Longrightarrow> inv (push x q)"
    and inv_pop: "inv q \<Longrightarrow> pop q = Some (x, q') \<Longrightarrow> inv q'"
    and contents_push: "inv q \<Longrightarrow> contents (push x q) = take cap (contents q @ [x])"
    and contents_bound: "inv q \<Longrightarrow> length (contents q) \<le> cap"
    and pop_None: "inv q \<Longrightarrow> pop q = None \<longleftrightarrow> contents q = []"
    and pop_Some: "inv q \<Longrightarrow> pop q = Some (x, q') \<Longrightarrow> contents q = x # contents q'"
begin

lemma run_inv: "inv q \<Longrightarrow> inv (snd (fifo_run push pop q ops))"
proof (induction ops arbitrary: q)
  case (Cons op ops)
  then show ?case
    by (cases op) (auto split: option.splits prod.splits simp: inv_push dest: inv_pop, metis inv_pop snd_conv)
qed simp

text \<open>Whatever the schedule, elements come out in the order they went in; only rejected pushes are missing.\<close>

lemma run_order:
  "inv q \<Longrightarrow> fifo_run push pop q ops = (out, q') \<Longrightarrow> subseq (out @ contents q') (contents q @ pushed ops)"
proof (induction ops arbitrary: q out)
  case (Cons op ops)
  show ?case
  proof (cases op)
    case (Push x)
    with Cons.prems have "subseq (out @ contents q') (contents (push x q) @ pushed ops)"
      by (intro Cons.IH) (auto simp: inv_push)
    moreover have "subseq (contents (push x q)) (contents q @ [x])"
      using Cons.prems by (simp add: contents_push) (metis append_take_drop_id list_emb_append2 subseq_order.refl
          subseq_append_iff list_emb_Nil append_Nil2 list_emb_append_mono)
    ultimately have "subseq (out @ contents q') ((contents q @ [x]) @ pushed ops)"
      by (meson list_emb_append_mono subseq_order.refl subseq_order.trans)
    then show ?thesis using Push by simp
  next
    case Pop
    show ?thesis
    proof (cases "pop q")
      case None
      with Pop Cons show ?thesis by simp
    next
      case (Some r)
      obtain x q1 where r: "r = (x, q1)" by (cases r)
      obtain o1 where o1: "fifo_run push pop q1 ops = (o1, q')" "out = x # o1"
        using Cons.prems(2) Pop Some r by (auto split: prod.splits)
      have "inv q1" and c: "contents q = x # contents q1"
        using Cons.prems(1) Some r inv_pop pop_Some by blast+
      then have "subseq (o1 @ contents q') (contents q1 @ pushed ops)"
        using Cons.IH o1 by blast
      then show ?thesis using o1 c Pop by simp
    qed
  qed
qed simp

text \<open>While the pushes fit, nothing is lost.\<close>

lemma run_lossless:
  "inv q \<Longrightarrow> length (contents q) + length (pushed ops) \<le> cap \<Longrightarrow> fifo_run push pop q ops = (out, q')
   \<Longrightarrow> out @ contents q' = contents q @ pushed ops"
proof (induction ops arbitrary: q out)
  case (Cons op ops)
  show ?case
  proof (cases op)
    case (Push x)
    have c: "contents (push x q) = contents q @ [x]"
      using Cons.prems Push by (simp add: contents_push)
    have "out @ contents q' = contents (push x q) @ pushed ops"
      using Cons.prems Push c by (intro Cons.IH) (auto simp: inv_push)
    then show ?thesis using Push c by simp
  next
    case Pop
    show ?thesis
    proof (cases "pop q")
      case None
      with Pop Cons show ?thesis by simp
    next
      case (Some r)
      obtain x q1 where r: "r = (x, q1)" by (cases r)
      obtain o1 where o1: "fifo_run push pop q1 ops = (o1, q')" "out = x # o1"
        using Cons.prems(3) Pop Some r by (auto split: prod.splits)
      have "inv q1" and c: "contents q = x # contents q1"
        using Cons.prems(1) Some r inv_pop pop_Some by blast+
      moreover have "length (contents q1) + length (pushed ops) \<le> cap"
        using Cons.prems(2) c Pop by simp
      ultimately have "o1 @ contents q' = contents q1 @ pushed ops"
        using Cons.IH o1 by blast
      then show ?thesis using o1 c Pop by simp
    qed
  qed
qed simp

end

end
