(* ===== verification/Event_Queue.thy ===== *)
theory Event_Queue
  imports Bounded_Fifo
begin

section \<open>The input event queue (src/kernel/event.c)\<close>

text \<open>
  The ring of \<open>EVENT_QUEUE_SIZE\<close> events between the interrupt handlers and their readers. The
  interrupt masking around each operation makes every operation one atomic step, so an operation
  is a function on the queue state.
\<close>

datatype event_type = EVENT_NONE | EVENT_KEY_DOWN | EVENT_KEY_UP | EVENT_MOUSE_MOVE | EVENT_MOUSE_DOWN | EVENT_MOUSE_UP

record event =
  event_kind :: event_type
  data1 :: u32
  data2 :: u32
  data3 :: u32

definition EVENT_QUEUE_SIZE :: nat where
  "EVENT_QUEUE_SIZE = 256"

record event_state =
  event_queue :: "event list"
  queue_head :: nat
  queue_tail :: nat
  event_count :: nat

definition event_init :: "event_state \<Rightarrow> event_state" where
  "event_init s = s\<lparr>queue_head := 0, queue_tail := 0, event_count := 0\<rparr>"

definition event_push :: "event \<Rightarrow> event_state \<Rightarrow> event_state" where
  "event_push e s =
     (if event_count s < EVENT_QUEUE_SIZE
      then s\<lparr>event_queue := (event_queue s)[queue_tail s := e],
             queue_tail := (queue_tail s + 1) mod EVENT_QUEUE_SIZE,
             event_count := event_count s + 1\<rparr>
      else s)"

text \<open>\<open>None\<close> is the return value 0 (queue empty), \<open>Some\<close> the return value 1 with the event stored.\<close>

definition event_pop :: "event_state \<Rightarrow> (event \<times> event_state) option" where
  "event_pop s =
     (if 0 < event_count s
      then Some (event_queue s ! queue_head s,
                 s\<lparr>queue_head := (queue_head s + 1) mod EVENT_QUEUE_SIZE,
                   event_count := event_count s - 1\<rparr>)
      else None)"

text \<open>The state of the static variables at boot: every byte zero.\<close>

definition event_boot :: event_state where
  "event_boot = \<lparr>event_queue = replicate EVENT_QUEUE_SIZE \<lparr>event_kind = EVENT_NONE, data1 = 0, data2 = 0, data3 = 0\<rparr>,
     queue_head = 0, queue_tail = 0, event_count = 0\<rparr>"

subsection \<open>Invariant and abstraction\<close>

definition event_inv :: "event_state \<Rightarrow> bool" where
  "event_inv s \<longleftrightarrow> length (event_queue s) = EVENT_QUEUE_SIZE \<and> queue_head s < EVENT_QUEUE_SIZE
     \<and> event_count s \<le> EVENT_QUEUE_SIZE \<and> queue_tail s = (queue_head s + event_count s) mod EVENT_QUEUE_SIZE"

definition event_contents :: "event_state \<Rightarrow> event list" where
  "event_contents s = ring_list (event_queue s) (queue_head s) (event_count s)"

lemma EVENT_QUEUE_SIZE_pos [simp]: "0 < EVENT_QUEUE_SIZE"
  by (simp add: EVENT_QUEUE_SIZE_def)

lemma event_inv_boot: "event_inv event_boot"
  by (simp add: event_inv_def event_boot_def)

lemma event_contents_boot: "event_contents event_boot = []"
  by (simp add: event_contents_def event_boot_def)

lemma event_inv_init: "event_inv s \<Longrightarrow> event_inv (event_init s) \<and> event_contents (event_init s) = []"
  by (simp add: event_inv_def event_init_def event_contents_def)

lemma event_inv_push: "event_inv s \<Longrightarrow> event_inv (event_push e s)"
  by (auto simp: event_inv_def event_push_def ring_simps)

lemma event_inv_pop: "event_inv s \<Longrightarrow> event_pop s = Some (e, s') \<Longrightarrow> event_inv s'"
  by (auto simp: event_inv_def event_pop_def ring_simps split: if_splits)

lemma event_contents_push:
  "event_inv s \<Longrightarrow> event_contents (event_push e s) = take EVENT_QUEUE_SIZE (event_contents s @ [e])"
  by (auto simp: event_contents_def event_push_def event_inv_def ring_push)

lemma event_pop_contents:
  assumes "event_inv s" "event_pop s = Some (e, s')"
  shows "event_contents s = e # event_contents s'"
  using assms by (auto simp: event_contents_def event_pop_def event_inv_def ring_pop split: if_splits)

lemma pop_contents:
  assumes "event_inv q"
  shows "(event_contents q = [] \<and> event_pop q = None) \<or>
     (\<exists>e es q'. event_contents q = e # es \<and> event_pop q = Some (e, q') \<and> event_inv q' \<and> event_contents q' = es)"
proof (cases "event_pop q")
  case None
  then show ?thesis by (auto simp: event_pop_def event_contents_def ring_list_def split: if_splits)
next
  case (Some r)
  then show ?thesis using event_pop_contents [OF assms] event_inv_pop [OF assms] by (cases r) auto
qed

lemma fold_push_contents:
  assumes "event_inv q" "length (event_contents q) + length es \<le> EVENT_QUEUE_SIZE"
  shows "event_inv (fold event_push es q) \<and> event_contents (fold event_push es q) = event_contents q @ es"
  using assms
proof (induction es arbitrary: q)
  case (Cons e es)
  then have "event_contents (event_push e q) = event_contents q @ [e]" by (simp add: event_contents_push)
  then show ?case using Cons.IH [of "event_push e q"] Cons.prems by (simp add: event_inv_push)
qed simp

interpretation evq: bounded_fifo event_push event_pop event_contents event_inv EVENT_QUEUE_SIZE
proof unfold_locales
  fix s e s'
  assume "event_inv s"
  show "event_pop s = None \<longleftrightarrow> event_contents s = []"
    by (auto simp: event_pop_def event_contents_def ring_list_def)
  show "length (event_contents s) \<le> EVENT_QUEUE_SIZE"
    using \<open>event_inv s\<close> by (simp add: event_contents_def event_inv_def)
qed (simp_all add: event_inv_push event_inv_pop event_contents_push event_pop_contents)

subsection \<open>Properties\<close>

text \<open>C5: whatever the interleaving of interrupt handlers pushing and readers popping, events are
  delivered in the order they were pushed; when no more than \<open>EVENT_QUEUE_SIZE\<close> were pushed, none is
  lost: those delivered and those still queued are all of them.\<close>

theorem event_queue_fifo:
  assumes "fifo_run event_push event_pop event_boot ops = (out, s)"
  shows "subseq (out @ event_contents s) (pushed ops)
     \<and> (length (pushed ops) \<le> EVENT_QUEUE_SIZE \<longrightarrow> out @ event_contents s = pushed ops)"
  using evq.run_order [OF event_inv_boot assms] evq.run_lossless [OF event_inv_boot _ assms]
  by (simp add: event_contents_boot)

theorem event_queue_fifo_witness:
  "\<exists>out s. fifo_run event_push event_pop event_boot [Pop, Push \<lparr>event_kind = EVENT_KEY_DOWN, data1 = 1, data2 = 0, data3 = 0\<rparr>, Pop] = (out, s)
     \<and> out @ event_contents s = [\<lparr>event_kind = EVENT_KEY_DOWN, data1 = 1, data2 = 0, data3 = 0\<rparr>]"
proof -
  let ?ops = "[Pop, Push \<lparr>event_kind = EVENT_KEY_DOWN, data1 = 1, data2 = 0, data3 = 0\<rparr>, Pop]"
  have "pushed ?ops = [\<lparr>event_kind = EVENT_KEY_DOWN, data1 = 1, data2 = 0, data3 = 0\<rparr>]"
    "length (pushed ?ops) \<le> EVENT_QUEUE_SIZE" by (simp_all add: EVENT_QUEUE_SIZE_def)
  moreover obtain out s where "fifo_run event_push event_pop event_boot ?ops = (out, s)" by (rule prod.exhaust)
  ultimately show ?thesis using event_queue_fifo by metis
qed

end
