(* ===== verification/Page_Allocator.thy ===== *)
theory Page_Allocator
  imports Kyro_Prelude
begin

section \<open>The contract of a physical page allocator\<close>

text \<open>
  What the heap, the page tables, the ELF loader and the threads rely on when they call the
  physical memory manager: an allocation returns a page of the free set and takes it out, it fails
  only when the free set is empty, and a free puts the page back. The client lemma is that no two
  live allocations ever share a page, for every sequence of calls.
\<close>

datatype pcall = Alloc | Free nat

text \<open>Run a sequence of calls; the list holds the pages handed out and not yet given back.\<close>

fun palloc_run :: "('s \<Rightarrow> nat option \<times> 's) \<Rightarrow> (nat \<Rightarrow> 's \<Rightarrow> 's) \<Rightarrow> 's \<Rightarrow> nat list \<Rightarrow> pcall list \<Rightarrow> nat list \<times> 's" where
  "palloc_run alloc free s live [] = (live, s)"
| "palloc_run alloc free s live (Alloc # cs) =
     (case alloc s of
        (None, s') \<Rightarrow> palloc_run alloc free s' live cs
      | (Some p, s') \<Rightarrow> palloc_run alloc free s' (p # live) cs)"
| "palloc_run alloc free s live (Free p # cs) =
     (if p \<in> set live then palloc_run alloc free (free p s) (remove1 p live) cs
      else palloc_run alloc free s live cs)"

locale page_allocator =
  fixes alloc :: "'s \<Rightarrow> nat option \<times> 's"
    and free :: "nat \<Rightarrow> 's \<Rightarrow> 's"
    and free_set :: "'s \<Rightarrow> nat set"
    and valid :: "'s \<Rightarrow> nat \<Rightarrow> bool"
    and inv :: "'s \<Rightarrow> bool"
  assumes free_set_valid: "inv s \<Longrightarrow> p \<in> free_set s \<Longrightarrow> valid s p"
    and alloc_inv: "inv s \<Longrightarrow> inv (snd (alloc s))"
    and alloc_valid: "inv s \<Longrightarrow> valid (snd (alloc s)) p = valid s p"
    and alloc_None: "inv s \<Longrightarrow> fst (alloc s) = None \<longleftrightarrow> free_set s = {}"
    and alloc_None_same: "inv s \<Longrightarrow> fst (alloc s) = None \<Longrightarrow> free_set (snd (alloc s)) = {}"
    and alloc_Some: "inv s \<Longrightarrow> fst (alloc s) = Some p \<Longrightarrow>
          p \<in> free_set s \<and> free_set (snd (alloc s)) = free_set s - {p}"
    and free_inv: "inv s \<Longrightarrow> valid s p \<Longrightarrow> inv (free p s)"
    and free_valid: "inv s \<Longrightarrow> valid s p \<Longrightarrow> valid (free p s) q = valid s q"
    and free_free: "inv s \<Longrightarrow> valid s p \<Longrightarrow> free_set (free p s) = insert p (free_set s)"
begin

lemma run_exclusive:
  "inv s \<Longrightarrow> distinct live \<Longrightarrow> set live \<inter> free_set s = {} \<Longrightarrow> (\<forall>p\<in>set live. valid s p)
   \<Longrightarrow> palloc_run alloc free s live cs = (live', s') \<Longrightarrow>
   distinct live' \<and> set live' \<inter> free_set s' = {} \<and> inv s'"
proof (induction cs arbitrary: s live)
  case (Cons c cs)
  show ?case
  proof (cases c)
    case Alloc
    obtain r s1 where a: "alloc s = (r, s1)" by (cases "alloc s")
    have i1: "inv s1" and l1: "\<And>p. valid s1 p = valid s p"
      using alloc_inv [OF Cons.prems(1)] alloc_valid [OF Cons.prems(1)] a by simp_all
    show ?thesis
    proof (cases r)
      case None
      then have "free_set s1 = {}" using alloc_None_same [OF Cons.prems(1)] a by simp
      then show ?thesis using Cons.IH [of s1 live] Cons.prems i1 l1 Alloc a None by simp
    next
      case (Some p)
      then have p: "p \<in> free_set s" "free_set s1 = free_set s - {p}"
        using alloc_Some [OF Cons.prems(1), of p] a by simp_all
      moreover have "valid s p" using free_set_valid [OF Cons.prems(1) p(1)] .
      moreover have "p \<notin> set live" using p(1) Cons.prems(3) by blast
      moreover have "palloc_run alloc free s1 (p # live) cs = (live', s')"
        using Cons.prems(5) Alloc a Some by simp
      moreover have "set (p # live) \<inter> free_set s1 = {}" using p(2) Cons.prems(3) by auto
      ultimately show ?thesis
        using Cons.IH [of s1 "p # live"] Cons.prems i1 l1 by simp
    qed
  next
    case (Free p)
    show ?thesis
    proof (cases "p \<in> set live")
      case True
      then have "valid s p" using Cons.prems(4) by blast
      moreover have "set (remove1 p live) = set live - {p}"
        using Cons.prems(2) by simp
      ultimately show ?thesis
        using Cons.IH [of "free p s" "remove1 p live"] Cons.prems True Free
        by (auto simp: free_inv free_free free_valid)
    next
      case False
      then show ?thesis using Cons Free by simp
    qed
  qed
qed simp

end

end
