(* ===== verification/Pmm.thy ===== *)
theory Pmm
  imports Page_Allocator
begin

section \<open>Physical memory manager (src/kernel/pmm.c)\<close>

text \<open>
  The bitmap allocator for physical pages. The bitmap is the list of its bytes; a page index whose
  byte lies outside it is a memory access outside the bitmap and gives \<open>None\<close>. Page counts are
  \<open>nat\<close> (they are quotients of a 64-bit address by 4096, so no sum of two of them wraps), the
  counter of allocated pages is a \<open>u64\<close> because it can be decremented below zero, and the one
  subtraction that can wrap (\<open>pmm_total_pages - count\<close>) is done on \<open>u64\<close>.
\<close>

definition PAGE_SIZE :: nat where
  "PAGE_SIZE = 4096"

definition ALIGN_UP :: "u64 \<Rightarrow> u64 \<Rightarrow> u64" where
  "ALIGN_UP addr align = (addr + align - 1) AND NOT (align - 1)"

definition LIMINE_MEMMAP_USABLE :: u64 where
  "LIMINE_MEMMAP_USABLE = 0"

record memmap_entry =
  mm_base :: u64
  mm_length :: u64
  mm_type :: u64

record pmm_state =
  pmm_bitmap_addr :: u64
  pmm_bitmap :: "u8 list"
  pmm_total_pages :: nat
  pmm_usable_pages :: nat
  pmm_allocated_pages :: u64
  pmm_last_free_page :: nat
  pmm_hhdm_offset :: u64

definition p_to_v :: "pmm_state \<Rightarrow> u64 \<Rightarrow> u64" where
  "p_to_v s p = p + pmm_hhdm_offset s"

definition v_to_p :: "pmm_state \<Rightarrow> u64 \<Rightarrow> u64" where
  "v_to_p s v = v - pmm_hhdm_offset s"

definition pmm_bitmap_set :: "u8 list \<Rightarrow> nat \<Rightarrow> u8 list option" where
  "pmm_bitmap_set bmp i =
     (if i div 8 < length bmp then Some (bmp[i div 8 := bmp ! (i div 8) OR push_bit (i mod 8) 1]) else None)"

definition pmm_bitmap_unset :: "u8 list \<Rightarrow> nat \<Rightarrow> u8 list option" where
  "pmm_bitmap_unset bmp i =
     (if i div 8 < length bmp then Some (bmp[i div 8 := bmp ! (i div 8) AND NOT (push_bit (i mod 8) 1)]) else None)"

definition pmm_bitmap_test :: "u8 list \<Rightarrow> nat \<Rightarrow> bool option" where
  "pmm_bitmap_test bmp i =
     (if i div 8 < length bmp then Some (bmp ! (i div 8) AND push_bit (i mod 8) 1 \<noteq> 0) else None)"

subsection \<open>Initialisation\<close>

text \<open>The scan for the highest address; \<open>base + length\<close> is a wrapping 64-bit sum.\<close>

fun pmm_highest_addr :: "memmap_entry list \<Rightarrow> u64 \<Rightarrow> u64" where
  "pmm_highest_addr [] h = h"
| "pmm_highest_addr (e # es) h =
     pmm_highest_addr es (if mm_base e + mm_length e > h then mm_base e + mm_length e else h)"

fun pmm_find_spot :: "memmap_entry list \<Rightarrow> u64 \<Rightarrow> u64 option" where
  "pmm_find_spot [] sz = None"
| "pmm_find_spot (e # es) sz =
     (if mm_type e = LIMINE_MEMMAP_USABLE \<and> mm_length e \<ge> sz then Some (mm_base e) else pmm_find_spot es sz)"

text \<open>The two loops that unset or set a run of \<open>n\<close> page bits from page \<open>i\<close> on.\<close>

fun pmm_unset_run :: "u8 list \<Rightarrow> nat \<Rightarrow> nat \<Rightarrow> u8 list option" where
  "pmm_unset_run bmp i 0 = Some bmp"
| "pmm_unset_run bmp i (Suc n) = do { b \<leftarrow> pmm_bitmap_unset bmp i; pmm_unset_run b (Suc i) n }"

fun pmm_set_run :: "u8 list \<Rightarrow> nat \<Rightarrow> nat \<Rightarrow> u8 list option" where
  "pmm_set_run bmp i 0 = Some bmp"
| "pmm_set_run bmp i (Suc n) = do { b \<leftarrow> pmm_bitmap_set bmp i; pmm_set_run b (Suc i) n }"

fun pmm_mark_usable :: "memmap_entry list \<Rightarrow> u8 list \<Rightarrow> nat \<Rightarrow> (u8 list \<times> nat) option" where
  "pmm_mark_usable [] bmp usable = Some (bmp, usable)"
| "pmm_mark_usable (e # es) bmp usable =
     (if mm_type e = LIMINE_MEMMAP_USABLE
      then do { b \<leftarrow> pmm_unset_run bmp (unat (mm_base e) div PAGE_SIZE) (unat (mm_length e) div PAGE_SIZE);
                pmm_mark_usable es b (usable + unat (mm_length e) div PAGE_SIZE) }
      else pmm_mark_usable es bmp usable)"

definition pmm_init :: "memmap_entry list \<Rightarrow> u64 \<Rightarrow> pmm_state \<Rightarrow> pmm_state option" where
  "pmm_init entries offset s =
     (let total = unat (pmm_highest_addr entries 0) div PAGE_SIZE;
          bitmap_size = ALIGN_UP (of_nat (total div 8)) (of_nat PAGE_SIZE);
          addr = (case pmm_find_spot entries bitmap_size of None \<Rightarrow> pmm_bitmap_addr s | Some a \<Rightarrow> a)
      in if addr = 0 then None
         else do {
           (b, usable) \<leftarrow> pmm_mark_usable entries (replicate (unat bitmap_size) 0xFF) (pmm_usable_pages s);
           b' \<leftarrow> pmm_set_run b (unat addr div PAGE_SIZE) (unat bitmap_size div PAGE_SIZE);
           Some (s\<lparr>pmm_hhdm_offset := offset, pmm_total_pages := total, pmm_bitmap_addr := addr,
                   pmm_bitmap := b', pmm_usable_pages := usable\<rparr>)
         })"

subsection \<open>Allocation\<close>

text \<open>The \<open>for\<close> loop over \<open>[i, n)\<close> that looks for a clear bit.\<close>

function pmm_first_clear :: "u8 list \<Rightarrow> nat \<Rightarrow> nat \<Rightarrow> nat option option" where
  "pmm_first_clear bmp i n =
     (if i < n
      then do { used \<leftarrow> pmm_bitmap_test bmp i;
                if \<not> used then Some (Some i) else pmm_first_clear bmp (i + 1) n }
      else Some None)"
  by pat_completeness auto
termination
  by (relation "measure (\<lambda>(bmp, i, n). n - i)") auto

declare pmm_first_clear.simps [simp del]

definition pmm_take_page :: "pmm_state \<Rightarrow> nat \<Rightarrow> (u64 \<times> pmm_state) option" where
  "pmm_take_page s i = do {
     b \<leftarrow> pmm_bitmap_set (pmm_bitmap s) i;
     Some (of_nat (i * PAGE_SIZE),
           s\<lparr>pmm_bitmap := b, pmm_allocated_pages := pmm_allocated_pages s + 1, pmm_last_free_page := i + 1\<rparr>)
   }"

text \<open>Returns the physical address (0 is \<open>NULL\<close>) and the new state.\<close>

definition pmm_alloc_page :: "pmm_state \<Rightarrow> (u64 \<times> pmm_state) option" where
  "pmm_alloc_page s = do {
     r \<leftarrow> pmm_first_clear (pmm_bitmap s) (pmm_last_free_page s) (pmm_total_pages s);
     case r of
       Some i \<Rightarrow> pmm_take_page s i
     | None \<Rightarrow> do {
         r' \<leftarrow> pmm_first_clear (pmm_bitmap s) 0 (pmm_last_free_page s);
         case r' of
           Some i \<Rightarrow> pmm_take_page s i
         | None \<Rightarrow> Some (0, s)
       }
   }"

text \<open>The inner loop over \<open>j\<close>: \<open>Some (Some j)\<close> is the first used page of the run, \<open>Some None\<close> \<open>found\<close>.\<close>

function pmm_run_used :: "u8 list \<Rightarrow> nat \<Rightarrow> nat \<Rightarrow> nat \<Rightarrow> nat option option" where
  "pmm_run_used bmp i j count =
     (if j < count
      then do { used \<leftarrow> pmm_bitmap_test bmp (i + j);
                if used then Some (Some j) else pmm_run_used bmp i (j + 1) count }
      else Some None)"
  by pat_completeness auto
termination
  by (relation "measure (\<lambda>(bmp, i, j, count). count - j)") auto

declare pmm_run_used.simps [simp del]

text \<open>The outer loop: \<open>i \<le> bound\<close>, and a used page at \<open>i + j\<close> moves \<open>i\<close> to \<open>i + j + 1\<close>.\<close>

function pmm_find_run :: "u8 list \<Rightarrow> nat \<Rightarrow> nat \<Rightarrow> nat \<Rightarrow> nat option option" where
  "pmm_find_run bmp i bound count =
     (if i \<le> bound
      then do { r \<leftarrow> pmm_run_used bmp i 0 count;
                case r of None \<Rightarrow> Some (Some i) | Some j \<Rightarrow> pmm_find_run bmp (i + j + 1) bound count }
      else Some None)"
  by pat_completeness auto
termination
  by (relation "measure (\<lambda>(bmp, i, bound, count). bound + 1 - i)") auto

declare pmm_find_run.simps [simp del]

definition pmm_alloc_pages :: "u64 \<Rightarrow> pmm_state \<Rightarrow> (u64 \<times> pmm_state) option" where
  "pmm_alloc_pages count s =
     (if count = 0 then Some (0, s)
      else if count = 1 then pmm_alloc_page s
      else do {
        r \<leftarrow> pmm_find_run (pmm_bitmap s) 0 (unat (of_nat (pmm_total_pages s) - count)) (unat count);
        case r of
          None \<Rightarrow> Some (0, s)
        | Some i \<Rightarrow> do {
            b \<leftarrow> pmm_set_run (pmm_bitmap s) i (unat count);
            Some (of_nat (i * PAGE_SIZE),
                  s\<lparr>pmm_bitmap := b, pmm_allocated_pages := pmm_allocated_pages s + count\<rparr>)
          }
      })"

definition pmm_free_page :: "u64 \<Rightarrow> pmm_state \<Rightarrow> pmm_state option" where
  "pmm_free_page p s =
     (let page_index = unat p div PAGE_SIZE
      in if page_index < pmm_total_pages s
         then do {
           used \<leftarrow> pmm_bitmap_test (pmm_bitmap s) page_index;
           if used
           then do {
             b \<leftarrow> pmm_bitmap_unset (pmm_bitmap s) page_index;
             Some (s\<lparr>pmm_bitmap := b, pmm_allocated_pages := pmm_allocated_pages s - 1,
                     pmm_last_free_page := (if page_index < pmm_last_free_page s then page_index
                                            else pmm_last_free_page s)\<rparr>)
           }
           else Some s
         }
         else Some s)"

definition pmm_get_total_memory :: "pmm_state \<Rightarrow> u64" where
  "pmm_get_total_memory s = of_nat (pmm_usable_pages s * PAGE_SIZE)"

definition pmm_get_used_memory :: "pmm_state \<Rightarrow> u64" where
  "pmm_get_used_memory s = pmm_allocated_pages s * of_nat PAGE_SIZE"

subsection \<open>Invariant and abstraction to the set of free pages\<close>

definition page_used :: "u8 list \<Rightarrow> nat \<Rightarrow> bool" where
  "page_used bmp i \<longleftrightarrow> bit (bmp ! (i div 8)) (i mod 8)"

definition pmm_free_set :: "pmm_state \<Rightarrow> nat set" where
  "pmm_free_set s = {i. i < pmm_total_pages s \<and> \<not> page_used (pmm_bitmap s) i}"

definition pmm_inv :: "pmm_state \<Rightarrow> bool" where
  "pmm_inv s \<longleftrightarrow> pmm_total_pages s \<le> 8 * length (pmm_bitmap s) \<and> pmm_last_free_page s \<le> pmm_total_pages s
     \<and> pmm_total_pages s \<le> 2 ^ 52"

lemma byte_index: "i < 8 * n \<Longrightarrow> i div 8 < (n::nat)"
  by (simp add: less_mult_imp_div_less mult.commute)

lemma div_mod_8_neq: "j \<noteq> i \<Longrightarrow> j div 8 = i div 8 \<Longrightarrow> j mod 8 \<noteq> i mod (8::nat)"
  by (metis div_mult_mod_eq)

lemma test_page_used: "i < 8 * length bmp \<Longrightarrow> pmm_bitmap_test bmp i = Some (page_used bmp i)"
  by (simp add: pmm_bitmap_test_def page_used_def byte_index and_exp_eq_0_iff_not_bit push_bit_of_1)

lemma set_page_used:
  assumes "i < 8 * length bmp"
  obtains b where "pmm_bitmap_set bmp i = Some b" "length b = length bmp"
    "\<And>j. page_used b j \<longleftrightarrow> j = i \<or> page_used bmp j"
proof (rule that)
  let ?b = "bmp[i div 8 := bmp ! (i div 8) OR push_bit (i mod 8) 1]"
  show "pmm_bitmap_set bmp i = Some ?b" using assms by (simp add: pmm_bitmap_set_def byte_index)
  show "page_used ?b j \<longleftrightarrow> j = i \<or> page_used bmp j" for j
    using assms div_mod_8_neq [of j i]
    by (cases "j div 8 = i div 8") (auto simp: page_used_def bit_simps byte_index)
qed simp

lemma unset_page_used:
  assumes "i < 8 * length bmp"
  obtains b where "pmm_bitmap_unset bmp i = Some b" "length b = length bmp"
    "\<And>j. page_used b j \<longleftrightarrow> j \<noteq> i \<and> page_used bmp j"
proof (rule that)
  let ?b = "bmp[i div 8 := bmp ! (i div 8) AND NOT (push_bit (i mod 8) 1)]"
  show "pmm_bitmap_unset bmp i = Some ?b" using assms by (simp add: pmm_bitmap_unset_def byte_index)
  show "page_used ?b j \<longleftrightarrow> j \<noteq> i \<and> page_used bmp j" for j
    using assms div_mod_8_neq [of j i]
    by (cases "j div 8 = i div 8") (auto simp: page_used_def bit_simps byte_index dest: bit_imp_le_length)
qed simp

subsection \<open>The loops\<close>

lemma first_clear_spec:
  assumes "n \<le> 8 * length bmp"
  shows "(\<exists>k. pmm_first_clear bmp i n = Some (Some k) \<and> i \<le> k \<and> k < n \<and> \<not> page_used bmp k)
       \<or> (pmm_first_clear bmp i n = Some None \<and> (\<forall>k. i \<le> k \<and> k < n \<longrightarrow> page_used bmp k))"
  using assms
proof (induction bmp i n rule: pmm_first_clear.induct)
  case (1 bmp i n)
  show ?case
  proof (cases "i < n \<and> page_used bmp i")
    case True
    then have "pmm_first_clear bmp i n = pmm_first_clear bmp (i + 1) n"
      using "1.prems" by (simp add: pmm_first_clear.simps [of bmp i n] test_page_used)
    moreover have "page_used bmp k" if "i \<le> k" "k < n" "\<forall>k. i + 1 \<le> k \<and> k < n \<longrightarrow> page_used bmp k" for k
      using that True by (cases "k = i") auto
    moreover have "(\<exists>k. pmm_first_clear bmp (i + 1) n = Some (Some k) \<and> i + 1 \<le> k \<and> k < n \<and> \<not> page_used bmp k)
       \<or> (pmm_first_clear bmp (i + 1) n = Some None \<and> (\<forall>k. i + 1 \<le> k \<and> k < n \<longrightarrow> page_used bmp k))"
      using "1.IH" [of "page_used bmp i"] True "1.prems" by (simp add: test_page_used)
    ultimately show ?thesis by (metis Suc_eq_plus1 Suc_leD)
  next
    case False
    then show ?thesis
      using "1.prems" by (auto simp: pmm_first_clear.simps [of bmp i n] test_page_used)
  qed
qed

lemma take_page_spec:
  assumes "pmm_inv s" "i \<in> pmm_free_set s"
  obtains s' where "pmm_take_page s i = Some (of_nat (i * PAGE_SIZE), s')" "pmm_inv s'"
    "pmm_free_set s' = pmm_free_set s - {i}" "pmm_total_pages s' = pmm_total_pages s"
    "pmm_allocated_pages s' = pmm_allocated_pages s + 1" "pmm_last_free_page s' = i + 1"
    "pmm_usable_pages s' = pmm_usable_pages s" "pmm_hhdm_offset s' = pmm_hhdm_offset s"
proof -
  have "i < 8 * length (pmm_bitmap s)" using assms by (auto simp: pmm_inv_def pmm_free_set_def)
  then obtain b where b: "pmm_bitmap_set (pmm_bitmap s) i = Some b" "length b = length (pmm_bitmap s)"
    "\<And>j. page_used b j \<longleftrightarrow> j = i \<or> page_used (pmm_bitmap s) j" by (rule set_page_used) blast
  show thesis
    by (rule that, simp add: pmm_take_page_def b(1))
      (use assms b in \<open>auto simp: pmm_inv_def pmm_free_set_def\<close>)
qed

lemma alloc_page_cases:
  assumes "pmm_inv s"
  shows "(pmm_alloc_page s = Some (0, s) \<and> pmm_free_set s = {})
       \<or> (\<exists>i\<in>pmm_free_set s. pmm_alloc_page s = pmm_take_page s i)"
proof -
  let ?b = "pmm_bitmap s" and ?l = "pmm_last_free_page s" and ?t = "pmm_total_pages s"
  have t: "?t \<le> 8 * length ?b" and l: "?l \<le> ?t" using assms by (auto simp: pmm_inv_def)
  show ?thesis
  proof (cases "pmm_first_clear ?b ?l ?t = Some None")
    case True
    then have hi: "\<forall>k. ?l \<le> k \<and> k < ?t \<longrightarrow> page_used ?b k" using first_clear_spec [OF t, of ?l] by auto
    show ?thesis
    proof (cases "pmm_first_clear ?b 0 ?l = Some None")
      case True': True
      then have "\<forall>k. k < ?l \<longrightarrow> page_used ?b k" using first_clear_spec [of ?l ?b 0] t l by auto
      with hi have "pmm_free_set s = {}" by (auto simp: pmm_free_set_def not_less [symmetric])
      then show ?thesis using True True' by (simp add: pmm_alloc_page_def)
    next
      case False
      then obtain k where "pmm_first_clear ?b 0 ?l = Some (Some k)" "k < ?l" "\<not> page_used ?b k"
        using first_clear_spec [of ?l ?b 0] t l by auto
      then show ?thesis using True l
        by (intro disjI2 bexI [of _ k]) (auto simp: pmm_alloc_page_def pmm_free_set_def)
    qed
  next
    case False
    then obtain k where "pmm_first_clear ?b ?l ?t = Some (Some k)" "k < ?t" "\<not> page_used ?b k"
      using first_clear_spec [OF t, of ?l] by auto
    then show ?thesis
      by (intro disjI2 bexI [of _ k]) (auto simp: pmm_alloc_page_def pmm_free_set_def)
  qed
qed

text \<open>The bits a run of sets or unsets changes, and nothing else.\<close>

lemma set_run_spec:
  "i + n \<le> 8 * length bmp \<Longrightarrow>
   \<exists>b. pmm_set_run bmp i n = Some b \<and> length b = length bmp
       \<and> (\<forall>j. page_used b j \<longleftrightarrow> (i \<le> j \<and> j < i + n) \<or> page_used bmp j)"
proof (induction n arbitrary: bmp i)
  case (Suc n)
  obtain b where b: "pmm_bitmap_set bmp i = Some b" "length b = length bmp"
    "\<And>j. page_used b j \<longleftrightarrow> j = i \<or> page_used bmp j" using set_page_used [of i bmp] Suc.prems by auto
  obtain b' where b': "pmm_set_run b (Suc i) n = Some b'" "length b' = length b"
    "\<forall>j. page_used b' j \<longleftrightarrow> (Suc i \<le> j \<and> j < Suc i + n) \<or> page_used b j"
    using Suc.IH [of "Suc i" b] Suc.prems b(2) by auto
  have "i \<le> j \<and> j < i + Suc n \<longleftrightarrow> (Suc i \<le> j \<and> j < Suc i + n) \<or> j = i" for j by linarith
  then show ?case using b(1,2) b'(1,2) by (simp add: b(3) b'(3) disj_assoc del: pmm_set_run.simps(1))
qed auto

lemma unset_run_spec:
  "i + n \<le> 8 * length bmp \<Longrightarrow>
   \<exists>b. pmm_unset_run bmp i n = Some b \<and> length b = length bmp
       \<and> (\<forall>j. page_used b j \<longleftrightarrow> \<not> (i \<le> j \<and> j < i + n) \<and> page_used bmp j)"
proof (induction n arbitrary: bmp i)
  case (Suc n)
  obtain b where b: "pmm_bitmap_unset bmp i = Some b" "length b = length bmp"
    "\<And>j. page_used b j \<longleftrightarrow> j \<noteq> i \<and> page_used bmp j" using unset_page_used [of i bmp] Suc.prems by auto
  obtain b' where b': "pmm_unset_run b (Suc i) n = Some b'" "length b' = length b"
    "\<forall>j. page_used b' j \<longleftrightarrow> \<not> (Suc i \<le> j \<and> j < Suc i + n) \<and> page_used b j"
    using Suc.IH [of "Suc i" b] Suc.prems b(2) by auto
  have "i \<le> j \<and> j < i + Suc n \<longleftrightarrow> (Suc i \<le> j \<and> j < Suc i + n) \<or> j = i" for j by linarith
  then show ?case using b(1,2) b'(1,2) by (auto simp: b(3) b'(3))
qed auto

lemma run_used_spec:
  assumes "i + count \<le> 8 * length bmp"
  shows "(\<exists>k. pmm_run_used bmp i j count = Some (Some k) \<and> j \<le> k \<and> k < count \<and> page_used bmp (i + k))
       \<or> (pmm_run_used bmp i j count = Some None \<and> (\<forall>k. j \<le> k \<and> k < count \<longrightarrow> \<not> page_used bmp (i + k)))"
  using assms
proof (induction bmp i j count rule: pmm_run_used.induct)
  case (1 bmp i j count)
  show ?case
  proof (cases "j < count \<and> \<not> page_used bmp (i + j)")
    case True
    then have "pmm_run_used bmp i j count = pmm_run_used bmp i (j + 1) count"
      using "1.prems" by (simp add: pmm_run_used.simps [of bmp i j count] test_page_used)
    moreover have "\<not> page_used bmp (i + k)"
      if "j \<le> k" "k < count" "\<forall>k. j + 1 \<le> k \<and> k < count \<longrightarrow> \<not> page_used bmp (i + k)" for k
      using that True by (cases "k = j") auto
    moreover have "(\<exists>k. pmm_run_used bmp i (j + 1) count = Some (Some k) \<and> j + 1 \<le> k \<and> k < count \<and> page_used bmp (i + k))
       \<or> (pmm_run_used bmp i (j + 1) count = Some None \<and> (\<forall>k. j + 1 \<le> k \<and> k < count \<longrightarrow> \<not> page_used bmp (i + k)))"
      using "1.IH" [of "page_used bmp (i + j)"] True "1.prems" by (simp add: test_page_used)
    ultimately show ?thesis by (metis Suc_eq_plus1 Suc_leD)
  next
    case False
    then show ?thesis
      using "1.prems" by (auto simp: pmm_run_used.simps [of bmp i j count] test_page_used)
  qed
qed

text \<open>A free run at \<open>p\<close>: \<open>count\<close> consecutive clear pages.\<close>

definition free_run :: "u8 list \<Rightarrow> nat \<Rightarrow> nat \<Rightarrow> bool" where
  "free_run bmp p count \<longleftrightarrow> (\<forall>k<count. \<not> page_used bmp (p + k))"

text \<open>Skipping the checked pages loses no candidate: a run that would start there contains the used page.\<close>

lemma find_run_spec:
  assumes "bound + count \<le> 8 * length bmp"
  shows "(\<exists>p. pmm_find_run bmp i bound count = Some (Some p) \<and> i \<le> p \<and> p \<le> bound \<and> free_run bmp p count)
       \<or> (pmm_find_run bmp i bound count = Some None \<and> (\<forall>p. i \<le> p \<and> p \<le> bound \<longrightarrow> \<not> free_run bmp p count))"
  using assms
proof (induction bmp i bound count rule: pmm_find_run.induct)
  case (1 bmp i bound count)
  show ?case
  proof (cases "i \<le> bound")
    case True
    then have r: "(\<exists>k. pmm_run_used bmp i 0 count = Some (Some k) \<and> k < count \<and> page_used bmp (i + k))
       \<or> (pmm_run_used bmp i 0 count = Some None \<and> (\<forall>k<count. \<not> page_used bmp (i + k)))"
      using run_used_spec [of i count bmp 0] "1.prems" by auto
    then show ?thesis
    proof (elim disjE exE conjE)
      fix k assume k: "pmm_run_used bmp i 0 count = Some (Some k)" "k < count" "page_used bmp (i + k)"
      have skip: "\<not> free_run bmp p count" if "i \<le> p" "p < i + k + 1" for p
        using that k(2,3) by (auto simp: free_run_def intro!: exI [of _ "i + k - p"])
      have eq: "pmm_find_run bmp i bound count = pmm_find_run bmp (i + k + 1) bound count"
        using True k by (simp add: pmm_find_run.simps [of bmp i bound count])
      have "(\<exists>p. pmm_find_run bmp (i + k + 1) bound count = Some (Some p) \<and> i + k + 1 \<le> p \<and> p \<le> bound \<and> free_run bmp p count)
       \<or> (pmm_find_run bmp (i + k + 1) bound count = Some None \<and> (\<forall>p. i + k + 1 \<le> p \<and> p \<le> bound \<longrightarrow> \<not> free_run bmp p count))"
        using "1.IH" [of "Some k" k] True k "1.prems" by simp
      then show ?thesis using eq skip by (metis add.assoc add_leD1 not_less)
    next
      assume "pmm_run_used bmp i 0 count = Some None" "\<forall>k<count. \<not> page_used bmp (i + k)"
      then show ?thesis using True
        by (simp add: pmm_find_run.simps [of bmp i bound count] free_run_def)
    qed
  qed (auto simp: pmm_find_run.simps [of bmp i bound count])
qed

subsection \<open>The allocator as a client sees it\<close>

text \<open>The invariant a booted machine keeps: page 0 is never usable memory, so address 0 means failure.\<close>

definition pmm_ready :: "pmm_state \<Rightarrow> bool" where
  "pmm_ready s \<longleftrightarrow> pmm_inv s \<and> 0 \<notin> pmm_free_set s"

definition pmm_valid :: "pmm_state \<Rightarrow> nat \<Rightarrow> bool" where
  "pmm_valid s p \<longleftrightarrow> p \<noteq> 0 \<and> p < pmm_total_pages s"

definition pmm_alloc_index :: "pmm_state \<Rightarrow> nat option \<times> pmm_state" where
  "pmm_alloc_index s =
     (case pmm_alloc_page s of
        None \<Rightarrow> (None, s)
      | Some (a, s') \<Rightarrow> (if a = 0 then None else Some (unat a div PAGE_SIZE), s'))"

definition pmm_free_index :: "nat \<Rightarrow> pmm_state \<Rightarrow> pmm_state" where
  "pmm_free_index p s = (case pmm_free_page (of_nat (p * PAGE_SIZE)) s of None \<Rightarrow> s | Some s' \<Rightarrow> s')"

lemma unat_page_addr:
  assumes "p < 2 ^ 52" shows "unat (of_nat (p * PAGE_SIZE) :: u64) = p * PAGE_SIZE"
proof -
  have "p * PAGE_SIZE < 2 ^ LENGTH(64)" using assms by (simp add: PAGE_SIZE_def)
  then show ?thesis by (simp only: unat_of_nat mod_less)
qed

text \<open>Freeing works on the page an address lies in, whatever its offset in the page.\<close>

lemma free_page_at:
  assumes "pmm_inv s" "unat a div PAGE_SIZE = p" "p < pmm_total_pages s"
  obtains s' where "pmm_free_page a s = Some s'" "pmm_inv s'"
    "pmm_free_set s' = insert p (pmm_free_set s)" "pmm_total_pages s' = pmm_total_pages s"
    "pmm_usable_pages s' = pmm_usable_pages s"
    "pmm_allocated_pages s' = (if p \<in> pmm_free_set s then pmm_allocated_pages s else pmm_allocated_pages s - 1)"
proof -
  have lt: "p < 8 * length (pmm_bitmap s)" using assms by (auto simp: pmm_inv_def)
  obtain b where b: "pmm_bitmap_unset (pmm_bitmap s) p = Some b" "length b = length (pmm_bitmap s)"
    "\<And>j. page_used b j \<longleftrightarrow> j \<noteq> p \<and> page_used (pmm_bitmap s) j" using unset_page_used [OF lt] by blast
  show thesis
  proof (cases "page_used (pmm_bitmap s) p")
    case True
    let ?s = "s\<lparr>pmm_bitmap := b, pmm_allocated_pages := pmm_allocated_pages s - 1,
      pmm_last_free_page := (if p < pmm_last_free_page s then p else pmm_last_free_page s)\<rparr>"
    have "pmm_free_page a s = Some ?s"
      using assms(2,3) by (simp add: pmm_free_page_def Let_def test_page_used [OF lt] True b(1))
    moreover have "pmm_inv ?s" using assms b(2) by (simp add: pmm_inv_def)
    moreover have "pmm_free_set ?s = insert p (pmm_free_set s)"
      using assms(3) by (auto simp: pmm_free_set_def b(3))
    ultimately show thesis using True by (intro that [of ?s]) (simp_all add: pmm_free_set_def)
  next
    case False
    then have "p \<in> pmm_free_set s" using assms(3) by (simp add: pmm_free_set_def)
    moreover have "pmm_free_page a s = Some s"
      using assms(2,3) by (simp add: pmm_free_page_def Let_def test_page_used [OF lt] False)
    ultimately show thesis using assms(1) by (intro that [of s]) auto
  qed
qed

lemma free_page_spec:
  assumes "pmm_inv s" "p < pmm_total_pages s"
  obtains s' where "pmm_free_page (of_nat (p * PAGE_SIZE)) s = Some s'" "pmm_inv s'"
    "pmm_free_set s' = insert p (pmm_free_set s)" "pmm_total_pages s' = pmm_total_pages s"
proof -
  have "unat (of_nat (p * PAGE_SIZE) :: u64) div PAGE_SIZE = p"
    using assms by (subst unat_page_addr) (auto simp: pmm_inv_def PAGE_SIZE_def)
  then show thesis using free_page_at [OF assms(1) _ assms(2)] that by blast
qed

lemma alloc_index_cases:
  assumes "pmm_ready s"
  obtains (full) "pmm_alloc_index s = (None, s)" "pmm_free_set s = {}"
    | (page) i s' where "pmm_alloc_index s = (Some i, s')" "i \<in> pmm_free_set s" "pmm_ready s'"
        "pmm_free_set s' = pmm_free_set s - {i}" "pmm_total_pages s' = pmm_total_pages s"
proof -
  have inv: "pmm_inv s" and z: "0 \<notin> pmm_free_set s" using assms by (auto simp: pmm_ready_def)
  from alloc_page_cases [OF inv] show thesis
  proof (elim disjE conjE bexE)
    assume "pmm_alloc_page s = Some (0, s)" "pmm_free_set s = {}"
    then show thesis by (intro full) (simp_all add: pmm_alloc_index_def)
  next
    fix i assume i: "i \<in> pmm_free_set s" "pmm_alloc_page s = pmm_take_page s i"
    obtain s' where s': "pmm_take_page s i = Some (of_nat (i * PAGE_SIZE), s')" "pmm_inv s'"
      "pmm_free_set s' = pmm_free_set s - {i}" "pmm_total_pages s' = pmm_total_pages s"
      using take_page_spec [OF inv i(1)] by metis
    have "i < 2 ^ 52" using i(1) inv by (auto simp: pmm_free_set_def pmm_inv_def)
    then have u: "unat (of_nat (i * PAGE_SIZE) :: u64) = i * PAGE_SIZE" by (rule unat_page_addr)
    moreover have "(of_nat (i * PAGE_SIZE) :: u64) \<noteq> 0"
      using u i(1) z by (metis PAGE_SIZE_def mult_is_0 unat_0 zero_neq_numeral)
    ultimately show thesis
      using i s' z by (intro page [of i s']) (auto simp: pmm_alloc_index_def pmm_ready_def PAGE_SIZE_def)
  qed
qed

lemma free_index_spec:
  assumes "pmm_ready s" "pmm_valid s p"
  shows "pmm_ready (pmm_free_index p s) \<and> pmm_free_set (pmm_free_index p s) = insert p (pmm_free_set s)
     \<and> pmm_total_pages (pmm_free_index p s) = pmm_total_pages s"
proof -
  obtain s' where "pmm_free_page (of_nat (p * PAGE_SIZE)) s = Some s'" "pmm_inv s'"
    "pmm_free_set s' = insert p (pmm_free_set s)" "pmm_total_pages s' = pmm_total_pages s"
    using free_page_spec [of s p] assms by (metis pmm_ready_def pmm_valid_def)
  then show ?thesis using assms by (auto simp: pmm_free_index_def pmm_ready_def pmm_valid_def)
qed

interpretation pmma: page_allocator pmm_alloc_index pmm_free_index pmm_free_set pmm_valid pmm_ready
proof unfold_locales
  fix s p
  assume s: "pmm_ready s"
  show "pmm_valid s p" if "p \<in> pmm_free_set s"
    using that s by (cases p) (auto simp: pmm_valid_def pmm_ready_def pmm_free_set_def)
  show "pmm_ready (snd (pmm_alloc_index s))"
    by (rule alloc_index_cases [OF s]) (use s in simp_all)
  show "pmm_valid (snd (pmm_alloc_index s)) p = pmm_valid s p"
    by (rule alloc_index_cases [OF s]) (simp_all add: pmm_valid_def)
  show "fst (pmm_alloc_index s) = None \<longleftrightarrow> pmm_free_set s = {}"
    by (rule alloc_index_cases [OF s]) auto
  show "pmm_free_set (snd (pmm_alloc_index s)) = {}" if "fst (pmm_alloc_index s) = None"
    by (rule alloc_index_cases [OF s]) (use that in simp_all)
  show "p \<in> pmm_free_set s \<and> pmm_free_set (snd (pmm_alloc_index s)) = pmm_free_set s - {p}"
    if "fst (pmm_alloc_index s) = Some p"
    by (rule alloc_index_cases [OF s]) (use that in simp_all)
  assume v: "pmm_valid s p"
  show "pmm_ready (pmm_free_index p s)" "pmm_free_set (pmm_free_index p s) = insert p (pmm_free_set s)"
    using free_index_spec [OF s v] by simp_all
  show "pmm_valid (pmm_free_index p s) q = pmm_valid s q" for q
    using free_index_spec [OF s v] by (simp add: pmm_valid_def)
qed

subsection \<open>What initialisation establishes\<close>

lemma unat_ALIGN_UP_page:
  assumes "n < 2 ^ 60"
  shows "unat (ALIGN_UP (of_nat n) (of_nat PAGE_SIZE)) = (n + 4095) div 4096 * 4096"
proof -
  have "ALIGN_UP (of_nat n) (of_nat PAGE_SIZE) = push_bit 12 (drop_bit 12 (of_nat (n + 4095) :: u64))"
  proof (rule bit_word_eqI)
    fix k
    have m: "(of_nat PAGE_SIZE - 1 :: u64) = mask 12" by (simp add: PAGE_SIZE_def mask_eq_exp_minus_1)
    have p: "of_nat n + of_nat PAGE_SIZE - 1 = (of_nat (n + 4095) :: u64)" by (simp add: PAGE_SIZE_def)
    assume "k < LENGTH(64)"
    then show "bit (ALIGN_UP (of_nat n) (of_nat PAGE_SIZE)) k = bit (push_bit 12 (drop_bit 12 (of_nat (n + 4095) :: u64))) k"
      unfolding ALIGN_UP_def m p by (auto simp: bit_simps)
  qed
  moreover have "unat (of_nat (n + 4095) :: u64) = n + 4095"
    using assms by (simp only: unat_of_nat) simp
  ultimately show ?thesis
    using assms by (simp only: push_bit_eq_mult unat_word_ariths unat_drop_bit_eq)
      (simp add: drop_bit_eq_div)
qed

lemma highest_ge: "e \<in> set es \<Longrightarrow> mm_base e + mm_length e \<le> pmm_highest_addr es h"
  and highest_mono: "h \<le> pmm_highest_addr es h"
proof (induction es arbitrary: h)
  case (Cons a es)
  {
    case 1
    show ?case using Cons.IH(1) Cons.IH(2) [of "mm_base a + mm_length a"] Cons.IH(2) [of h] 1
      by (auto simp: not_less intro: order_trans)
  next
    case 2
    show ?case using Cons.IH(2) [of "mm_base a + mm_length a"] Cons.IH(2) [of h]
      by (auto simp: not_less intro: order_trans less_imp_le)
  }
qed simp_all

definition usable_pages :: "memmap_entry list \<Rightarrow> nat set" where
  "usable_pages es = {p. \<exists>e\<in>set es. mm_type e = LIMINE_MEMMAP_USABLE \<and> unat (mm_base e) div PAGE_SIZE \<le> p
     \<and> p < unat (mm_base e) div PAGE_SIZE + unat (mm_length e) div PAGE_SIZE}"

definition usable_count :: "memmap_entry list \<Rightarrow> nat" where
  "usable_count es = sum_list (map (\<lambda>e. unat (mm_length e) div PAGE_SIZE) (filter (\<lambda>e. mm_type e = LIMINE_MEMMAP_USABLE) es))"

lemma mark_usable_spec:
  "usable_pages es \<subseteq> {..<8 * length bmp} \<Longrightarrow>
   \<exists>b. pmm_mark_usable es bmp u = Some (b, u + usable_count es) \<and> length b = length bmp
       \<and> (\<forall>j. page_used b j \<longleftrightarrow> j \<notin> usable_pages es \<and> page_used bmp j)"
proof (induction es arbitrary: bmp u)
  case Nil
  then show ?case by (simp add: usable_pages_def usable_count_def)
next
  case (Cons e es)
  have sub: "usable_pages es \<subseteq> {..<8 * length bmp}" using Cons.prems by (auto simp: usable_pages_def)
  show ?case
  proof (cases "mm_type e = LIMINE_MEMMAP_USABLE")
    case True
    let ?i = "unat (mm_base e) div PAGE_SIZE" and ?n = "unat (mm_length e) div PAGE_SIZE"
    have e: "usable_pages (e # es) = {?i..<?i + ?n} \<union> usable_pages es"
      using True by (auto simp: usable_pages_def)
    show ?thesis
    proof (cases "?n = 0")
      case True': True
      then show ?thesis
        using Cons.IH [OF sub, of u] True e by (simp add: usable_count_def)
    next
      case False
      have "?i + ?n - 1 \<in> usable_pages (e # es)" using False e by auto
      then have "?i + ?n \<le> 8 * length bmp" using Cons.prems False by (auto simp: subset_eq)
      then obtain b where b: "pmm_unset_run bmp ?i ?n = Some b" "length b = length bmp"
        "\<forall>j. page_used b j \<longleftrightarrow> \<not> (?i \<le> j \<and> j < ?i + ?n) \<and> page_used bmp j"
        using unset_run_spec by blast
      obtain b' where b': "pmm_mark_usable es b (u + ?n) = Some (b', u + ?n + usable_count es)" "length b' = length b"
        "\<forall>j. page_used b' j \<longleftrightarrow> j \<notin> usable_pages es \<and> page_used b j"
        using Cons.IH [of b "u + ?n"] sub b(2) by auto
      show ?thesis using True b(1,2) b'(1,2) by (auto simp: usable_count_def e b(3) b'(3))
    qed
  next
    case False
    then have "usable_pages (e # es) = usable_pages es" "usable_count (e # es) = usable_count es"
      by (auto simp: usable_pages_def usable_count_def)
    then show ?thesis using Cons.IH [OF sub, of u] False by simp
  qed
qed

text \<open>Where the scan places the bitmap, and the number of bytes reserved for it.\<close>

definition pmm_bitmap_bytes :: "memmap_entry list \<Rightarrow> nat" where
  "pmm_bitmap_bytes es = (unat (pmm_highest_addr es 0) div PAGE_SIZE div 8 + 4095) div 4096 * 4096"

lemma pmm_total_bound: "unat (a :: u64) div PAGE_SIZE < 2 ^ 52"
proof -
  have "unat a < 2 ^ 52 * 4096" using unsigned_less [of a] by simp
  then show ?thesis unfolding PAGE_SIZE_def by (rule less_mult_imp_div_less)
qed

lemma unat_pmm_bitmap_bytes:
  "unat (ALIGN_UP (of_nat (unat (pmm_highest_addr es 0) div PAGE_SIZE div 8)) (of_nat PAGE_SIZE)) = pmm_bitmap_bytes es"
proof -
  have "unat (pmm_highest_addr es 0) div PAGE_SIZE div 8 < 2 ^ 60"
    using le_less_trans [OF div_le_dividend pmm_total_bound [of "pmm_highest_addr es 0"], of 8]
    by (rule less_trans) simp
  then show ?thesis by (simp add: unat_ALIGN_UP_page pmm_bitmap_bytes_def)
qed

lemma page_range_in_total:
  assumes "unat a + unat n < 2 ^ 64" "a + n \<le> h" "(m::nat) \<le> unat n"
  shows "unat (a::u64) div PAGE_SIZE + m div PAGE_SIZE \<le> unat h div PAGE_SIZE"
proof -
  have "unat a + unat n = unat (a + n)" using assms(1) by (simp add: unat_word_ariths)
  also have "\<dots> \<le> unat h" using assms(2) by (simp add: word_le_nat_alt)
  finally have "unat a + m \<le> unat h" using assms(3) by simp
  then have "(unat a + m) div PAGE_SIZE \<le> unat h div PAGE_SIZE" by (rule div_le_mono)
  moreover have "unat a div PAGE_SIZE + m div PAGE_SIZE \<le> (unat a + m) div PAGE_SIZE"
    using div_add1_eq [of "unat a" m PAGE_SIZE] by linarith
  ultimately show ?thesis by linarith
qed

text \<open>A memory map whose regions do not wrap around the end of the address space.\<close>

definition memmap_ok :: "memmap_entry list \<Rightarrow> bool" where
  "memmap_ok es \<longleftrightarrow> (\<forall>e\<in>set es. unat (mm_base e) + unat (mm_length e) < 2 ^ 64)"

lemma usable_pages_in_total:
  assumes "memmap_ok es" "p \<in> usable_pages es"
  shows "p < unat (pmm_highest_addr es 0) div PAGE_SIZE"
proof -
  obtain e where e: "e \<in> set es" "p < unat (mm_base e) div PAGE_SIZE + unat (mm_length e) div PAGE_SIZE"
    using assms(2) by (auto simp: usable_pages_def)
  then show ?thesis
    using page_range_in_total [OF _ highest_ge [OF e(1), of 0] order_refl] assms(1)
    by (auto simp: memmap_ok_def intro: less_le_trans)
qed

lemma find_spot_spec:
  "pmm_find_spot es sz = Some a \<Longrightarrow> \<exists>e\<in>set es. mm_type e = LIMINE_MEMMAP_USABLE \<and> mm_length e \<ge> sz \<and> mm_base e = a"
  by (induction es) (auto split: if_splits)

lemma bitmap_pages_in_total:
  assumes "memmap_ok es" "pmm_find_spot es (of_nat n) = Some a" "n < 2 ^ 64"
  shows "unat a div PAGE_SIZE + n div PAGE_SIZE \<le> unat (pmm_highest_addr es 0) div PAGE_SIZE"
proof -
  obtain e where e: "e \<in> set es" "mm_length e \<ge> of_nat n" "mm_base e = a"
    using find_spot_spec [OF assms(2)] by blast
  have "n \<le> unat (mm_length e)" using e(2) assms(3) by (simp add: word_le_nat_alt unat_of_nat)
  then show ?thesis
    using page_range_in_total [OF _ highest_ge [OF e(1), of 0], of n] assms(1) e by (auto simp: memmap_ok_def)
qed


lemma pmm_bitmap_size_eq:
  "ALIGN_UP (of_nat (unat (pmm_highest_addr es 0) div PAGE_SIZE div 8)) (of_nat PAGE_SIZE) = of_nat (pmm_bitmap_bytes es)"
  unfolding unat_pmm_bitmap_bytes [symmetric] by simp

lemma pmm_bitmap_bytes_lt: "pmm_bitmap_bytes es < 2 ^ 64"
proof -
  have "unat (ALIGN_UP (of_nat (unat (pmm_highest_addr es 0) div PAGE_SIZE div 8)) (of_nat PAGE_SIZE)) < 2 ^ LENGTH(64)"
    by (rule unsigned_less)
  then show ?thesis unfolding unat_pmm_bitmap_bytes by simp
qed

text \<open>The statics before \<open>pmm_init\<close>: all zero.\<close>

definition pmm_boot :: pmm_state where
  "pmm_boot = \<lparr>pmm_bitmap_addr = 0, pmm_bitmap = [], pmm_total_pages = 0, pmm_usable_pages = 0,
     pmm_allocated_pages = 0, pmm_last_free_page = 0, pmm_hhdm_offset = 0\<rparr>"

lemma pmm_init_run:
  assumes ok: "memmap_ok es" and spot: "pmm_find_spot es (of_nat (pmm_bitmap_bytes es)) = Some a" and "a \<noteq> 0"
    and cover: "usable_pages es \<subseteq> {..<8 * pmm_bitmap_bytes es}"
      "unat a div PAGE_SIZE + pmm_bitmap_bytes es div PAGE_SIZE \<le> 8 * pmm_bitmap_bytes es"
  obtains s where "pmm_init es off pmm_boot = Some s"
    "pmm_total_pages s = unat (pmm_highest_addr es 0) div PAGE_SIZE" "pmm_usable_pages s = usable_count es"
    "length (pmm_bitmap s) = pmm_bitmap_bytes es" "pmm_last_free_page s = 0" "pmm_allocated_pages s = 0"
    "\<And>p. p < 8 * pmm_bitmap_bytes es \<Longrightarrow> page_used (pmm_bitmap s) p \<longleftrightarrow>
       p \<notin> usable_pages es \<or> (unat a div PAGE_SIZE \<le> p \<and> p < unat a div PAGE_SIZE + pmm_bitmap_bytes es div PAGE_SIZE)"
proof -
  let ?n = "pmm_bitmap_bytes es" and ?ones = "replicate (pmm_bitmap_bytes es) (0xFF :: u8)"
  have n: "unat (of_nat ?n :: u64) = ?n" using pmm_bitmap_bytes_lt [of es] by (simp add: unat_of_nat)
  have ones: "page_used ?ones p" if "p < 8 * ?n" for p
  proof -
    have "(0xFF :: u8) = mask 8" by (simp add: mask_eq_exp_minus_1)
    moreover have "bit (mask 8 :: u8) (p mod 8)" by (simp only: bit_mask_iff) simp
    ultimately show ?thesis using that by (simp add: page_used_def byte_index)
  qed
  obtain b where b: "pmm_mark_usable es ?ones 0 = Some (b, usable_count es)" "length b = ?n"
    "\<forall>j. page_used b j \<longleftrightarrow> j \<notin> usable_pages es \<and> page_used ?ones j"
    using mark_usable_spec [of es ?ones 0] cover(1) by auto
  obtain b' where b': "pmm_set_run b (unat a div PAGE_SIZE) (?n div PAGE_SIZE) = Some b'" "length b' = ?n"
    "\<forall>j. page_used b' j \<longleftrightarrow> (unat a div PAGE_SIZE \<le> j \<and> j < unat a div PAGE_SIZE + ?n div PAGE_SIZE) \<or> page_used b j"
    using set_run_spec [of "unat a div PAGE_SIZE" "?n div PAGE_SIZE" b] cover(2) b(2) by auto
  let ?s = "pmm_boot\<lparr>pmm_hhdm_offset := off, pmm_total_pages := unat (pmm_highest_addr es 0) div PAGE_SIZE,
    pmm_bitmap_addr := a, pmm_bitmap := b', pmm_usable_pages := usable_count es\<rparr>"
  have "pmm_init es off pmm_boot = Some ?s"
    unfolding pmm_init_def Let_def pmm_bitmap_size_eq n
    using spot \<open>a \<noteq> 0\<close> b(1) b'(1) by (simp add: pmm_boot_def)
  then show thesis
    by (rule that) (auto simp: b'(2,3) b(3) ones pmm_boot_def)
qed

subsection \<open>Properties\<close>

text \<open>C1: no page is ever handed out twice. Run any sequence of \<open>pmm_alloc_page\<close> and \<open>pmm_free_page\<close>
  calls (frees of pages the caller holds) from a booted allocator: the pages held are pairwise
  different, none of them is marked free, and the allocator is still in a good state.\<close>

theorem pmm_allocations_exclusive:
  assumes "pmm_ready s" "palloc_run pmm_alloc_index pmm_free_index s [] cs = (live, s')"
  shows "distinct live \<and> set live \<inter> pmm_free_set s' = {} \<and> pmm_ready s'"
  using pmma.run_exclusive [of s "[]" cs live s'] assms by simp

definition pmm_demo :: pmm_state where
  "pmm_demo = \<lparr>pmm_bitmap_addr = 0x1000, pmm_bitmap = [0xE7, 0xFE], pmm_total_pages = 10, pmm_usable_pages = 4,
     pmm_allocated_pages = 0, pmm_last_free_page = 0, pmm_hhdm_offset = 0\<rparr>"

lemma pmm_demo_used: "page_used (pmm_bitmap pmm_demo) p \<longleftrightarrow> \<not> (p \<in> {3, 4, 8} )" if "p < 10"
proof -
  have "\<forall>p<10. page_used [0xE7, 0xFE] p \<longleftrightarrow> \<not> (p \<in> {3, 4, 8})" unfolding page_used_def by code_simp
  then show ?thesis using that by (simp add: pmm_demo_def)
qed

lemma pmm_demo_free_set: "pmm_free_set pmm_demo = {3, 4, 8}"
  using pmm_demo_used by (auto simp: pmm_free_set_def pmm_demo_def)

lemma pmm_demo_ready: "pmm_ready pmm_demo"
  by (simp add: pmm_ready_def pmm_demo_free_set) (simp add: pmm_inv_def pmm_demo_def)

theorem pmm_allocations_exclusive_witness:
  "\<exists>live s'. palloc_run pmm_alloc_index pmm_free_index pmm_demo [] [Alloc, Alloc, Free 3, Alloc] = (live, s')
     \<and> distinct live"
  using pmm_allocations_exclusive [OF pmm_demo_ready] by (metis surj_pair)

text \<open>\<open>pmm_alloc_page\<close> returns the address of a free page and takes exactly that page, counting it;
  it returns \<open>NULL\<close> and changes nothing exactly when no page is free. Giving the page back with
  \<open>pmm_free_page\<close>, at any address inside it, restores the free set and the usage counter.\<close>

lemma pmm_alloc_free_page:
  assumes "pmm_inv s"
  shows "(pmm_free_set s = {} \<and> pmm_alloc_page s = Some (0, s)) \<or>
    (\<exists>i s'. i \<in> pmm_free_set s \<and> pmm_alloc_page s = Some (of_nat (i * PAGE_SIZE), s') \<and> pmm_inv s'
       \<and> pmm_free_set s' = pmm_free_set s - {i}
       \<and> pmm_get_used_memory s' = pmm_get_used_memory s + of_nat PAGE_SIZE
       \<and> (\<forall>a. unat a div PAGE_SIZE = i \<longrightarrow>
            (\<exists>s''. pmm_free_page a s' = Some s'' \<and> pmm_inv s'' \<and> pmm_free_set s'' = pmm_free_set s
               \<and> pmm_get_used_memory s'' = pmm_get_used_memory s)))"
  using alloc_page_cases [OF assms]
proof (elim disjE bexE conjE)
  fix i assume i: "i \<in> pmm_free_set s" "pmm_alloc_page s = pmm_take_page s i"
  obtain s' where s': "pmm_take_page s i = Some (of_nat (i * PAGE_SIZE), s')" "pmm_inv s'"
    "pmm_free_set s' = pmm_free_set s - {i}" "pmm_total_pages s' = pmm_total_pages s"
    "pmm_allocated_pages s' = pmm_allocated_pages s + 1"
    using take_page_spec [OF assms i(1)] by metis
  have "\<exists>s''. pmm_free_page a s' = Some s'' \<and> pmm_inv s'' \<and> pmm_free_set s'' = pmm_free_set s
               \<and> pmm_get_used_memory s'' = pmm_get_used_memory s" if "unat a div PAGE_SIZE = i" for a
  proof -
    have "i < pmm_total_pages s'" using i(1) s'(4) by (simp add: pmm_free_set_def)
    from free_page_at [OF s'(2) that this] obtain s'' where "pmm_free_page a s' = Some s''" "pmm_inv s''"
      "pmm_free_set s'' = insert i (pmm_free_set s')"
      "pmm_allocated_pages s'' = (if i \<in> pmm_free_set s' then pmm_allocated_pages s' else pmm_allocated_pages s' - 1)"
      by blast
    then show ?thesis using i(1) s'(3,5) by (auto simp: pmm_get_used_memory_def)
  qed
  then show ?thesis using i s' by (intro disjI2 exI [of _ i] exI [of _ s']) (simp add: pmm_get_used_memory_def algebra_simps)
qed simp

lemma pmm_alloc_free_page_witness:
  "\<exists>i s'. i \<in> {3, 4, 8} \<and> pmm_alloc_page pmm_demo = Some (of_nat (i * PAGE_SIZE), s') \<and> pmm_free_set s' = {3, 4, 8} - {i}"
  using pmm_alloc_free_page [of pmm_demo] pmm_demo_ready
  by (auto simp: pmm_demo_free_set pmm_ready_def)

lemma alloc_pages_cases:
  assumes "pmm_inv s" "2 \<le> unat count" "unat count \<le> pmm_total_pages s"
  shows "(\<exists>p s'. pmm_alloc_pages count s = Some (of_nat (p * PAGE_SIZE), s') \<and> {p..<p + unat count} \<subseteq> pmm_free_set s
            \<and> pmm_free_set s' = pmm_free_set s - {p..<p + unat count} \<and> pmm_inv s'
            \<and> pmm_total_pages s' = pmm_total_pages s \<and> pmm_hhdm_offset s' = pmm_hhdm_offset s)
       \<or> (pmm_alloc_pages count s = Some (0, s) \<and> (\<forall>p. \<not> {p..<p + unat count} \<subseteq> pmm_free_set s))"
proof -
  let ?b = "pmm_bitmap s" and ?t = "pmm_total_pages s" and ?n = "unat count"
  have t: "?t \<le> 8 * length ?b" "?t < 2 ^ 64" using assms(1) by (auto simp: pmm_inv_def)
  have t': "unat (of_nat ?t :: u64) = ?t" using t(2) by (simp add: unat_of_nat)
  then have bound: "unat (of_nat ?t - count) = ?t - ?n"
    using assms(3) by (subst unat_sub) (auto simp: word_le_nat_alt)
  have gen: "count \<noteq> 0" "count \<noteq> 1" using assms(2) by auto
  have run: "{p..<p + ?n} \<subseteq> pmm_free_set s \<longleftrightarrow> p \<le> ?t - ?n \<and> free_run ?b p ?n" for p
  proof
    assume *: "{p..<p + ?n} \<subseteq> pmm_free_set s"
    moreover have "p + ?n - 1 \<in> {p..<p + ?n}" using assms(2) by auto
    ultimately have "p + ?n - 1 < ?t" by (auto simp: pmm_free_set_def)
    then have "p \<le> ?t - ?n" by linarith
    moreover have "\<not> page_used ?b (p + k)" if "k < ?n" for k
    proof -
      have "p + k \<in> {p..<p + ?n}" using that by simp
      with * have "p + k \<in> pmm_free_set s" by (rule subsetD)
      then show ?thesis by (simp add: pmm_free_set_def)
    qed
    ultimately show "p \<le> ?t - ?n \<and> free_run ?b p ?n" by (simp add: free_run_def)
  next
    assume *: "p \<le> ?t - ?n \<and> free_run ?b p ?n"
    show "{p..<p + ?n} \<subseteq> pmm_free_set s"
    proof
      fix x assume "x \<in> {p..<p + ?n}"
      then have "x = p + (x - p)" "x - p < ?n" "x < ?t" using * assms(3) by auto
      then show "x \<in> pmm_free_set s" using * by (metis (no_types, lifting) free_run_def mem_Collect_eq pmm_free_set_def)
    qed
  qed
  have "?t - ?n + ?n \<le> 8 * length ?b" using t(1) assms(3) by simp
  from find_run_spec [OF this, of 0] show ?thesis
  proof (elim disjE exE conjE)
    fix p assume p: "pmm_find_run ?b 0 (?t - ?n) ?n = Some (Some p)" "p \<le> ?t - ?n" "free_run ?b p ?n"
    then have "p + ?n \<le> 8 * length ?b" using t(1) assms(3) by linarith
    from set_run_spec [OF this] obtain b where b: "pmm_set_run ?b p ?n = Some b" "length b = length ?b"
      "\<forall>j. page_used b j \<longleftrightarrow> (p \<le> j \<and> j < p + ?n) \<or> page_used ?b j" by blast
    let ?s = "s\<lparr>pmm_bitmap := b, pmm_allocated_pages := pmm_allocated_pages s + count\<rparr>"
    have "pmm_alloc_pages count s = Some (of_nat (p * PAGE_SIZE), ?s)"
      using p(1) b(1) gen by (simp add: pmm_alloc_pages_def bound)
    moreover have "pmm_free_set ?s = pmm_free_set s - {p..<p + ?n}" by (auto simp: pmm_free_set_def b(3))
    moreover have "pmm_inv ?s" using assms(1) b(2) by (simp add: pmm_inv_def)
    moreover have "pmm_total_pages ?s = pmm_total_pages s" "pmm_hhdm_offset ?s = pmm_hhdm_offset s" by simp_all
    ultimately show ?thesis using p(2,3) run by blast
  next
    assume "pmm_find_run ?b 0 (?t - ?n) ?n = Some None" "\<forall>p. 0 \<le> p \<and> p \<le> ?t - ?n \<longrightarrow> \<not> free_run ?b p ?n"
    then show ?thesis using gen run by (simp add: pmm_alloc_pages_def bound)
  qed
qed

text \<open>C2: \<open>pmm_alloc_pages count\<close> for \<open>2 \<le> count \<le> total\<close> returns a run of \<open>count\<close> consecutive free pages
  and takes exactly those, or returns \<open>NULL\<close> when no such run exists: the \<open>i += j\<close> skip of the scan
  misses none.\<close>

theorem pmm_alloc_pages_correct:
  assumes "pmm_inv s" "2 \<le> unat count" "unat count \<le> pmm_total_pages s"
  shows "(\<exists>p s'. pmm_alloc_pages count s = Some (of_nat (p * PAGE_SIZE), s') \<and> {p..<p + unat count} \<subseteq> pmm_free_set s
            \<and> pmm_free_set s' = pmm_free_set s - {p..<p + unat count} \<and> pmm_inv s')
       \<or> (pmm_alloc_pages count s = Some (0, s) \<and> (\<forall>p. \<not> {p..<p + unat count} \<subseteq> pmm_free_set s))"
  using alloc_pages_cases [OF assms] by blast

theorem pmm_alloc_pages_correct_witness:
  "\<exists>s'. pmm_alloc_pages 2 pmm_demo = Some (of_nat (3 * PAGE_SIZE), s') \<and> pmm_free_set s' = {8}"
proof -
  have two: "unat (2::u64) = 2" "{p..<p + 2} = {p, Suc p}" for p :: nat by auto
  have run: "{p, Suc p} \<subseteq> {3, 4, 8} \<longleftrightarrow> p = 3" for p by auto
  have "pmm_total_pages pmm_demo = 10" by (simp add: pmm_demo_def)
  moreover have "{3, 4, 8} - {3, Suc 3} = {8::nat}" by auto
  ultimately show ?thesis
    using pmm_alloc_pages_correct [of pmm_demo 2] pmm_demo_ready
    unfolding pmm_demo_free_set two run by (auto simp: pmm_ready_def)
qed

text \<open>C3: \<open>pmm_init\<close> on a firmware memory map whose bitmap covers the memory leaves free exactly the
  usable pages less those of the bitmap itself, starts with nothing allocated, and establishes the
  invariant the other operations need.\<close>

theorem pmm_init_free_pages:
  assumes "memmap_ok es" "pmm_find_spot es (of_nat (pmm_bitmap_bytes es)) = Some a" "a \<noteq> 0"
    and "unat (pmm_highest_addr es 0) div PAGE_SIZE \<le> 8 * pmm_bitmap_bytes es"
  shows "\<exists>s. pmm_init es off pmm_boot = Some s \<and> pmm_inv s
     \<and> pmm_free_set s = usable_pages es - {unat a div PAGE_SIZE ..< unat a div PAGE_SIZE + pmm_bitmap_bytes es div PAGE_SIZE}
     \<and> pmm_get_total_memory s = of_nat (usable_count es * PAGE_SIZE) \<and> pmm_get_used_memory s = 0"
proof -
  have u: "usable_pages es \<subseteq> {..<8 * pmm_bitmap_bytes es}"
    using usable_pages_in_total [OF assms(1)] assms(4) by fastforce
  have l: "unat a div PAGE_SIZE + pmm_bitmap_bytes es div PAGE_SIZE \<le> 8 * pmm_bitmap_bytes es"
    using bitmap_pages_in_total [OF assms(1,2) pmm_bitmap_bytes_lt] assms(4) by simp
  obtain s where s: "pmm_init es off pmm_boot = Some s"
    "pmm_total_pages s = unat (pmm_highest_addr es 0) div PAGE_SIZE" "pmm_usable_pages s = usable_count es"
    "length (pmm_bitmap s) = pmm_bitmap_bytes es" "pmm_last_free_page s = 0" "pmm_allocated_pages s = 0"
    "\<And>p. p < 8 * pmm_bitmap_bytes es \<Longrightarrow> page_used (pmm_bitmap s) p \<longleftrightarrow>
       p \<notin> usable_pages es \<or> (unat a div PAGE_SIZE \<le> p \<and> p < unat a div PAGE_SIZE + pmm_bitmap_bytes es div PAGE_SIZE)"
    using pmm_init_run [OF assms(1-3) u l] by blast
  have "pmm_inv s"
    using s(2,4,5) assms(4) pmm_total_bound [of "pmm_highest_addr es 0"] by (simp add: pmm_inv_def)
  moreover have "pmm_free_set s = usable_pages es - {unat a div PAGE_SIZE ..< unat a div PAGE_SIZE + pmm_bitmap_bytes es div PAGE_SIZE}"
    using s(2) usable_pages_in_total [OF assms(1)] by (auto simp: pmm_free_set_def less_le_trans [OF _ assms(4)] s(7))
  ultimately show ?thesis
    using s(1,3,6) by (auto simp: pmm_get_total_memory_def pmm_get_used_memory_def)
qed

definition memmap_demo :: "memmap_entry list" where
  "memmap_demo = [\<lparr>mm_base = 0, mm_length = 0x1000, mm_type = 1\<rparr>, \<lparr>mm_base = 0x1000, mm_length = 0x8000, mm_type = 0\<rparr>]"

lemma memmap_demo_facts:
  "memmap_ok memmap_demo" "pmm_highest_addr memmap_demo 0 = 0x9000" "pmm_bitmap_bytes memmap_demo = 4096"
  "pmm_find_spot memmap_demo (of_nat (pmm_bitmap_bytes memmap_demo)) = Some 0x1000"
proof -
  show h: "pmm_highest_addr memmap_demo 0 = 0x9000" by (simp add: memmap_demo_def)
  show b: "pmm_bitmap_bytes memmap_demo = 4096" by (simp add: pmm_bitmap_bytes_def h PAGE_SIZE_def)
  show "memmap_ok memmap_demo" by (simp add: memmap_ok_def memmap_demo_def)
  show "pmm_find_spot memmap_demo (of_nat (pmm_bitmap_bytes memmap_demo)) = Some 0x1000"
    unfolding b by (simp add: memmap_demo_def LIMINE_MEMMAP_USABLE_def)
qed

theorem pmm_init_free_pages_witness:
  "\<exists>s. pmm_init memmap_demo 0 pmm_boot = Some s \<and> pmm_free_set s = {2..<9}"
proof -
  have "usable_pages memmap_demo - {1} = {2..<9}" "{1..<2} = {1::nat}"
    by (auto simp: usable_pages_def memmap_demo_def PAGE_SIZE_def LIMINE_MEMMAP_USABLE_def)
  then show ?thesis
    using pmm_init_free_pages [OF memmap_demo_facts(1,4), of 0] memmap_demo_facts(2,3)
    by (auto simp: PAGE_SIZE_def simp del: atLeastLessThan_iff)
qed

lemma pmm_unset_run_length: "pmm_unset_run b i n = Some b' \<Longrightarrow> length b' = length b"
  by (induction b i n rule: pmm_unset_run.induct)
    (auto simp: pmm_bitmap_unset_def split: if_splits Option.bind_splits)

lemma pmm_set_run_length: "pmm_set_run b i n = Some b' \<Longrightarrow> length b' = length b"
  by (induction b i n rule: pmm_set_run.induct)
    (auto simp: pmm_bitmap_set_def split: if_splits Option.bind_splits)

lemma pmm_mark_usable_length: "pmm_mark_usable es b u = Some (b', u') \<Longrightarrow> length b' = length b"
  by (induction es b u rule: pmm_mark_usable.induct)
    (auto dest: pmm_unset_run_length split: if_splits Option.bind_splits)

lemma pmm_init_length:
  assumes "pmm_init es off s = Some s'"
  shows "length (pmm_bitmap s') = (pmm_total_pages s' div 8 + 4095) div 4096 * 4096"
proof -
  have n: "unat (of_nat (pmm_bitmap_bytes es) :: u64) = pmm_bitmap_bytes es"
    using pmm_bitmap_bytes_lt [of es] by (simp add: unat_of_nat)
  show ?thesis
    using assms unfolding pmm_init_def Let_def pmm_bitmap_size_eq n
    by (auto simp: pmm_bitmap_bytes_def dest!: pmm_mark_usable_length pmm_set_run_length split: if_splits Option.bind_splits)
qed

lemma bitmap_rounding:
  assumes "0 < (t::nat)"
  shows "(t div 8 + 4095) div 4096 * 4096 \<le> (t - 1) div 8 \<longleftrightarrow> t mod 8 \<noteq> 0 \<and> t div 8 mod 4096 = 0"
proof -
  define q r where "q = t div 8" and "r = t mod 8"
  have t: "t = 8 * q + r" "r < 8" by (simp_all add: q_def r_def)
  have last: "(t - 1) div 8 = (if r = 0 then q - 1 else q)" using t assms by (auto simp: div_nat_eqI)
  have ge: "q \<le> (q + 4095) div 4096 * 4096" using div_mult_mod_eq [of "q + 4095" 4096] mod_less_divisor [of 4096 "q + 4095"] by linarith
  have "(q + 4095) div 4096 * 4096 \<le> q \<longleftrightarrow> q mod 4096 = 0"
  proof
    assume "(q + 4095) div 4096 * 4096 \<le> q"
    with ge show "q mod 4096 = 0" by (metis le_antisym mod_mult_self2_is_0)
  next
    assume "q mod 4096 = 0"
    then obtain k where "q = 4096 * k" by (auto simp: mod_eq_0_iff_dvd)
    then show "(q + 4095) div 4096 * 4096 \<le> q" by simp
  qed
  moreover have "0 < q" if "r = 0" using that t assms by simp
  ultimately show ?thesis using ge last unfolding q_def [symmetric] r_def [symmetric] by (auto simp: not_le)
qed

text \<open>C4: the size computed for the bitmap, \<open>ALIGN_UP(total / 8, PAGE_SIZE)\<close>, covers every page except
  when the page count is not a multiple of 8 and \<open>total / 8\<close> is a multiple of 4096: then the division
  has dropped the last partial byte, and testing the last page reads past the bitmap.\<close>

theorem pmm_init_bitmap_bound:
  assumes "pmm_init es off s = Some s'" "0 < pmm_total_pages s'"
  shows "pmm_bitmap_test (pmm_bitmap s') (pmm_total_pages s' - 1) = None \<longleftrightarrow>
     pmm_total_pages s' mod 8 \<noteq> 0 \<and> pmm_total_pages s' div 8 mod PAGE_SIZE = 0"
  using bitmap_rounding [OF assms(2)]
  unfolding pmm_bitmap_test_def pmm_init_length [OF assms(1)] PAGE_SIZE_def by (auto simp: not_less)

definition memmap_short :: "memmap_entry list" where
  "memmap_short = [\<lparr>mm_base = 0x1000, mm_length = 0x2000, mm_type = 0\<rparr>, \<lparr>mm_base = 0x7FFF000, mm_length = 0x2000, mm_type = 1\<rparr>]"

theorem pmm_init_bitmap_bound_witness:
  "\<exists>s. pmm_init memmap_short 0 pmm_boot = Some s \<and> pmm_total_pages s = 8 * 4096 + 1
     \<and> pmm_bitmap_test (pmm_bitmap s) (pmm_total_pages s - 1) = None"
proof -
  have h: "pmm_highest_addr memmap_short 0 = 0x8001000" by (simp add: memmap_short_def)
  have n: "pmm_bitmap_bytes memmap_short = 4096" by (simp add: pmm_bitmap_bytes_def h PAGE_SIZE_def)
  have spot: "pmm_find_spot memmap_short (of_nat (pmm_bitmap_bytes memmap_short)) = Some 0x1000"
    unfolding n by (simp add: memmap_short_def LIMINE_MEMMAP_USABLE_def)
  have ok: "memmap_ok memmap_short" by (simp add: memmap_ok_def memmap_short_def)
  have u: "usable_pages memmap_short \<subseteq> {..<8 * pmm_bitmap_bytes memmap_short}"
    unfolding n by (auto simp: usable_pages_def memmap_short_def PAGE_SIZE_def LIMINE_MEMMAP_USABLE_def)
  have l: "unat (0x1000 :: u64) div PAGE_SIZE + pmm_bitmap_bytes memmap_short div PAGE_SIZE \<le> 8 * pmm_bitmap_bytes memmap_short"
    unfolding n by (simp add: PAGE_SIZE_def)
  obtain s where s: "pmm_init memmap_short 0 pmm_boot = Some s"
    "pmm_total_pages s = unat (pmm_highest_addr memmap_short 0) div PAGE_SIZE"
    by (rule pmm_init_run [OF ok spot _ u l]) auto
  then have "pmm_total_pages s = 8 * 4096 + 1" by (simp add: h PAGE_SIZE_def)
  then show ?thesis using s(1) pmm_init_bitmap_bound [OF s(1)] by (auto simp: PAGE_SIZE_def)
qed

end
