(* ===== verification/Klog.thy ===== *)
theory Klog
  imports Kyro_Prelude
begin

section \<open>The kernel log (src/kernel/log.c)\<close>

text \<open>
  The ring of the last \<open>LOG_HISTORY_SIZE\<close> messages, the level filters, the serial output and the
  text console. The bytes sent to the serial port and the calls made to the framebuffer driver are
  kept as traces; the wait for the transmitter in \<open>serial_putchar\<close> is taken to end. A message is
  the text \<open>vksprintf\<close> left in \<open>log_buffer\<close> (see theory \<open>Kstring\<close>); one that does not fit the buffer
  of \<open>2 * LOG_MESSAGE_MAX_LEN\<close> bytes has overwritten the stack and gives \<open>None\<close>.
\<close>

datatype log_level_t = LOG_DEBUG | LOG_INFO | LOG_WARN | LOG_ERROR | LOG_PANIC

fun level_num :: "log_level_t \<Rightarrow> nat" where
  "level_num LOG_DEBUG = 0"
| "level_num LOG_INFO = 1"
| "level_num LOG_WARN = 2"
| "level_num LOG_ERROR = 3"
| "level_num LOG_PANIC = 4"

text \<open>The enumerators compare by their numbers.\<close>

instantiation log_level_t :: linorder
begin

definition less_eq_log_level_t :: "log_level_t \<Rightarrow> log_level_t \<Rightarrow> bool" where
  "less_eq_log_level_t a b \<longleftrightarrow> level_num a \<le> level_num b"

definition less_log_level_t :: "log_level_t \<Rightarrow> log_level_t \<Rightarrow> bool" where
  "less_log_level_t a b \<longleftrightarrow> level_num a < level_num b"

instance
proof
  fix a b :: log_level_t
  show "a \<le> b \<Longrightarrow> b \<le> a \<Longrightarrow> a = b"
    by (cases a; cases b) (simp_all add: less_eq_log_level_t_def)
qed (auto simp: less_eq_log_level_t_def less_log_level_t_def)

end

definition LOG_HISTORY_SIZE :: nat where
  "LOG_HISTORY_SIZE = 10"

definition LOG_MESSAGE_MAX_LEN :: nat where
  "LOG_MESSAGE_MAX_LEN = 256"

text \<open>The calls to the framebuffer driver (src/kernel/fb.c).\<close>

datatype fb_call =
    Fb_draw_char char u32 u32
  | Fb_copy_region u32 u32 u32
  | Fb_draw_rect u32 u32 u32 u32
  | Fb_clear

record fb_info =
  fb_width :: u32
  fb_height :: u32

definition FONT_WIDTH :: u32 where
  "FONT_WIDTH = 8"

definition FONT_HEIGHT :: u32 where
  "FONT_HEIGHT = 16"

record log_state =
  log_history :: "string list"
  log_history_idx :: nat
  log_history_full :: bool
  console_x :: u32
  console_y :: u32
  console_log_level :: log_level_t
  serial_log_level :: log_level_t
  serial_out :: string
  fb_calls :: "fb_call list"
  fb_inf :: "fb_info option"

text \<open>The statics at boot, before the framebuffer is found.\<close>

definition log_boot :: log_state where
  "log_boot = \<lparr>log_history = replicate LOG_HISTORY_SIZE [], log_history_idx = 0, log_history_full = False,
     console_x = 0, console_y = 0, console_log_level = LOG_WARN, serial_log_level = LOG_DEBUG,
     serial_out = [], fb_calls = [], fb_inf = None\<rparr>"

text \<open>A C string is read up to its terminator.\<close>

definition cstr :: "string \<Rightarrow> string" where
  "cstr s = takeWhile (\<lambda>c. c \<noteq> CHR 0x00) s"

subsection \<open>Serial port\<close>

definition serial_putchar :: "char \<Rightarrow> log_state \<Rightarrow> log_state" where
  "serial_putchar c s = s\<lparr>serial_out := serial_out s @ [c]\<rparr>"

fun serial_print :: "string \<Rightarrow> log_state \<Rightarrow> log_state" where
  "serial_print [] s = s"
| "serial_print (c # cs) s = (if c = CHR 0x00 then s else serial_print cs (serial_putchar c s))"

definition hex_digit :: "nat \<Rightarrow> char" where
  "hex_digit d = ''0123456789abcdef'' ! d"

definition serial_print_hex :: "u64 \<Rightarrow> log_state \<Rightarrow> log_state" where
  "serial_print_hex n s =
     foldl (\<lambda>s i. serial_putchar (hex_digit (unat (drop_bit i n AND 0xf))) s) (serial_print ''0x'' s)
       [60, 56, 52, 48, 44, 40, 36, 32, 28, 24, 20, 16, 12, 8, 4, 0]"

subsection \<open>Text console\<close>

definition fb_emit :: "fb_call \<Rightarrow> log_state \<Rightarrow> log_state" where
  "fb_emit f s = s\<lparr>fb_calls := fb_calls s @ [f]\<rparr>"

definition klog_putchar :: "char \<Rightarrow> log_state \<Rightarrow> log_state" where
  "klog_putchar c s =
     (case fb_inf s of None \<Rightarrow> s
      | Some fb \<Rightarrow>
          let max_x = fb_width fb div FONT_WIDTH;
              max_y = fb_height fb div FONT_HEIGHT;
              s1 = (if c = CHR 0x0A then s\<lparr>console_x := 0, console_y := console_y s + 1\<rparr>
                    else if c = CHR 0x08 then
                      (if console_x s > 0
                       then fb_emit (Fb_draw_char (CHR '' '') ((console_x s - 1) * FONT_WIDTH) (console_y s * FONT_HEIGHT))
                              (s\<lparr>console_x := console_x s - 1\<rparr>)
                       else s)
                    else (fb_emit (Fb_draw_char c (console_x s * FONT_WIDTH) (console_y s * FONT_HEIGHT)) s)
                           \<lparr>console_x := console_x s + 1\<rparr>);
              s2 = (if console_x s1 \<ge> max_x then s1\<lparr>console_x := 0, console_y := console_y s1 + 1\<rparr> else s1)
          in if console_y s2 \<ge> max_y
             then (fb_emit (Fb_draw_rect 0 ((max_y - 1) * FONT_HEIGHT) (fb_width fb) FONT_HEIGHT)
                    (fb_emit (Fb_copy_region FONT_HEIGHT 0 ((max_y - 1) * FONT_HEIGHT)) s2))\<lparr>console_y := max_y - 1\<rparr>
             else s2)"

fun klog_print_str :: "string \<Rightarrow> log_state \<Rightarrow> log_state" where
  "klog_print_str [] s = s"
| "klog_print_str (c # cs) s = (if c = CHR 0x00 then s else klog_print_str cs (klog_putchar c s))"

definition console_clear :: "log_state \<Rightarrow> log_state" where
  "console_clear s = (fb_emit Fb_clear s)\<lparr>console_x := 0, console_y := 0\<rparr>"

subsection \<open>Logging\<close>

fun level_name :: "log_level_t \<Rightarrow> string" where
  "level_name LOG_INFO = ''INFO''"
| "level_name LOG_WARN = ''WARN''"
| "level_name LOG_ERROR = ''ERROR''"
| "level_name LOG_DEBUG = ''DEBUG''"
| "level_name LOG_PANIC = ''UNKNOWN''"

definition log_store :: "string \<Rightarrow> log_state \<Rightarrow> log_state" where
  "log_store buf s =
     (let h = (log_history s)[log_history_idx s := take (LOG_MESSAGE_MAX_LEN - 1) (cstr buf)];
          i = log_history_idx s + 1
      in if i \<ge> LOG_HISTORY_SIZE
         then s\<lparr>log_history := h, log_history_idx := 0, log_history_full := True\<rparr>
         else s\<lparr>log_history := h, log_history_idx := i\<rparr>)"

definition klog :: "log_level_t \<Rightarrow> string \<Rightarrow> log_state \<Rightarrow> log_state option" where
  "klog level msg s =
     (if length msg \<ge> 2 * LOG_MESSAGE_MAX_LEN then None
      else
        let s1 = log_store msg s;
            s2 = (if level \<ge> serial_log_level s1 \<or> level = LOG_PANIC
                  then serial_print [CHR 0x0A] (serial_print msg (serial_print ''] ''
                         (serial_print (level_name level) (serial_print ''['' s1))))
                  else s1);
            s3 = (if level \<ge> console_log_level s2 \<or> level = LOG_PANIC
                  then klog_print_str [CHR 0x0A] (klog_print_str msg (klog_print_str ''] ''
                         (klog_print_str (level_name level) (klog_print_str ''['' s2))))
                  else s2)
        in Some s3)"

text \<open>The count stored in \<open>*count\<close> and the messages stored in \<open>entries\<close>; \<open>entries = NULL\<close> is \<open>False\<close>.\<close>

definition log_get_entries :: "bool \<Rightarrow> int \<Rightarrow> log_state \<Rightarrow> nat \<times> string list" where
  "log_get_entries entries num_to_get s =
     (if \<not> entries \<or> num_to_get \<le> 0 then (0, [])
      else
        let num_available = (if log_history_full s then LOG_HISTORY_SIZE else log_history_idx s);
            num_to_copy = (if nat num_to_get > num_available then num_available else nat num_to_get);
            start_index = (log_history_idx s + LOG_HISTORY_SIZE - num_to_copy) mod LOG_HISTORY_SIZE
        in (num_to_copy,
            map (\<lambda>i. take (LOG_MESSAGE_MAX_LEN - 1) (log_history s ! ((start_index + i) mod LOG_HISTORY_SIZE))) [0..<num_to_copy]))"

definition panic_log :: "string \<Rightarrow> log_state \<Rightarrow> log_state" where
  "panic_log message s =
     serial_print [CHR 0x0A] (serial_print message (serial_print ''Message: ''
       (serial_print ([CHR 0x0A] @ ''--- KERNEL PANIC ---'' @ [CHR 0x0A]) s)))"

subsection \<open>The history as a list\<close>

definition lastn :: "nat \<Rightarrow> 'a list \<Rightarrow> 'a list" where
  "lastn n xs = drop (length xs - n) xs"

definition log_contents :: "log_state \<Rightarrow> string list" where
  "log_contents s = (if log_history_full s then ring_list (log_history s) (log_history_idx s) LOG_HISTORY_SIZE
                     else ring_list (log_history s) 0 (log_history_idx s))"

definition log_inv :: "log_state \<Rightarrow> bool" where
  "log_inv s \<longleftrightarrow> length (log_history s) = LOG_HISTORY_SIZE \<and> log_history_idx s < LOG_HISTORY_SIZE
     \<and> (\<forall>m\<in>set (log_history s). length m < LOG_MESSAGE_MAX_LEN)"

definition log_text :: "string \<Rightarrow> string" where
  "log_text msg = take (LOG_MESSAGE_MAX_LEN - 1) (cstr msg)"

lemma log_inv_boot: "log_inv log_boot" "log_contents log_boot = []"
  by (simp_all add: log_inv_def log_boot_def log_contents_def LOG_HISTORY_SIZE_def LOG_MESSAGE_MAX_LEN_def)

text \<open>Output leaves the history alone.\<close>

definition same_history :: "log_state \<Rightarrow> log_state \<Rightarrow> bool" where
  "same_history s t \<longleftrightarrow> log_history s = log_history t \<and> log_history_idx s = log_history_idx t
     \<and> log_history_full s = log_history_full t"

lemma same_history_serial_print: "same_history (serial_print m s) s"
  by (induction m s rule: serial_print.induct) (auto simp: same_history_def serial_putchar_def)

lemma same_history_serial_putchar: "same_history (serial_putchar c s) s"
  by (simp add: same_history_def serial_putchar_def)

lemma same_history_putchar: "same_history (klog_putchar c s) s"
  by (auto simp: same_history_def klog_putchar_def fb_emit_def Let_def split: option.splits)

lemma same_history_print_str: "same_history (klog_print_str m s) s"
  using same_history_putchar
  by (induction m s rule: klog_print_str.induct) (auto simp: same_history_def)

lemma same_history_trans: "same_history s t \<Longrightarrow> same_history t u \<Longrightarrow> same_history s u"
  by (simp add: same_history_def)

lemma same_history_refl: "same_history s s"
  by (simp add: same_history_def)

lemma same_history_contents: "same_history s t \<Longrightarrow> log_contents s = log_contents t \<and> log_inv s = log_inv t"
  by (simp add: same_history_def log_contents_def log_inv_def)

lemmas same_history_intros = same_history_refl
  same_history_trans [OF same_history_serial_print] same_history_trans [OF same_history_print_str]
  same_history_trans [OF same_history_serial_putchar] same_history_trans [OF same_history_putchar]

lemma klog_history:
  assumes "klog level msg s = Some s'" shows "same_history s' (log_store msg s)"
  using assms unfolding klog_def Let_def
  by (auto split: if_splits intro!: same_history_intros)

lemma log_inv_store: "log_inv s \<Longrightarrow> log_inv (log_store msg s)"
  by (auto simp: log_inv_def log_store_def Let_def LOG_MESSAGE_MAX_LEN_def dest: set_update_subset_insert [THEN subsetD])

lemma log_contents_store:
  assumes "log_inv s"
  shows "log_contents (log_store msg s) = lastn LOG_HISTORY_SIZE (log_contents s @ [log_text msg])"
proof -
  let ?h = "log_history s" and ?i = "log_history_idx s" and ?N = LOG_HISTORY_SIZE
  let ?h' = "?h[?i := log_text msg]"
  have len: "length ?h = ?N" "?i < ?N" and N: "?N = 10" using assms by (auto simp: log_inv_def LOG_HISTORY_SIZE_def)
  have store: "log_store msg s = s\<lparr>log_history := ?h', log_history_idx := (?i + 1) mod ?N,
      log_history_full := (log_history_full s \<or> ?i + 1 \<ge> ?N)\<rparr>"
  proof (cases "?i + 1 \<ge> ?N")
    case True
    then have "?i + 1 = ?N" using len by simp
    then show ?thesis by (simp add: log_store_def log_text_def Let_def)
  qed (simp add: log_store_def log_text_def Let_def)
  show ?thesis
  proof (cases "log_history_full s")
    case True
    have "ring_list ?h' (Suc ?i mod ?N) ?N = tl (ring_list ?h ?i ?N @ [log_text msg])"
    proof -
      have "ring_list ?h ?i ?N = ?h ! ?i # ring_list ?h (Suc ?i mod ?N) (?N - 1)"
        using ring_pop [of ?h ?N ?N ?i] len by simp
      moreover have "(Suc ?i mod ?N + (?N - 1)) mod ?N = ?i"
        using ring_tail_pop [of ?N ?i ?N] len N by simp
      then have "ring_list ?h' (Suc ?i mod ?N) (Suc (?N - 1)) = ring_list ?h (Suc ?i mod ?N) (?N - 1) @ [log_text msg]"
        using ring_push [of ?h ?N "?N - 1" "Suc ?i mod ?N" "log_text msg"] len N by simp
      ultimately show ?thesis using N by simp
    qed
    moreover have "tl (ring_list ?h ?i ?N @ [log_text msg]) = drop 1 (ring_list ?h ?i ?N @ [log_text msg])"
      by (simp only: drop_Suc One_nat_def drop_0)
    ultimately show ?thesis using True
      by (simp only: log_contents_def store lastn_def) (simp add: lastn_def)
  next
    case False
    have "ring_list ?h' 0 (Suc ?i) = ring_list ?h 0 ?i @ [log_text msg]"
      using ring_push [of ?h ?N ?i 0 "log_text msg"] len by simp
    moreover have "ring_list ?h' (Suc ?i mod ?N) ?N = ring_list ?h' 0 (Suc ?i)" if "?N \<le> Suc ?i"
    proof -
      have "Suc ?i = ?N" using that len by linarith
      then show ?thesis by (simp only:) simp
    qed
    ultimately show ?thesis using False len
      by (auto simp: log_contents_def store lastn_def)
  qed
qed

lemma log_contents_length: "log_inv s \<Longrightarrow> length (log_contents s) \<le> LOG_HISTORY_SIZE
    \<and> length (log_contents s) = (if log_history_full s then LOG_HISTORY_SIZE else log_history_idx s)"
  by (simp add: log_contents_def log_inv_def)

lemma log_get_entries_contents:
  assumes "log_inv s" "0 < n"
  shows "log_get_entries True n s = (min (nat n) (length (log_contents s)), lastn (nat n) (log_contents s))"
proof -
  let ?h = "log_history s" and ?i = "log_history_idx s" and ?N = LOG_HISTORY_SIZE
  define m where "m = min (nat n) (length (log_contents s))"
  have len: "length ?h = ?N" "?i < ?N" and N: "?N = 10" and sm: "\<forall>e\<in>set ?h. length e < LOG_MESSAGE_MAX_LEN"
    using assms by (auto simp: log_inv_def LOG_HISTORY_SIZE_def)
  have m: "(if nat n > length (log_contents s) then length (log_contents s) else nat n) = m"
    by (simp add: m_def)
  have "log_get_entries True n s =
      (m, map (\<lambda>i. take (LOG_MESSAGE_MAX_LEN - 1) (?h ! (((?i + ?N - m) mod ?N + i) mod ?N))) [0..<m])"
    using assms(2) log_contents_length [OF assms(1)] m by (auto simp: log_get_entries_def Let_def)
  also have "\<dots> = (m, map (\<lambda>i. ?h ! ((?i + ?N - m + i) mod ?N)) [0..<m])"
  proof -
    have "take (LOG_MESSAGE_MAX_LEN - 1) (?h ! ((?i + ?N - m + i) mod ?N)) = ?h ! ((?i + ?N - m + i) mod ?N)" for i
    proof -
      have "(?i + ?N - m + i) mod ?N < length ?h" using len N by simp
      then have "length (?h ! ((?i + ?N - m + i) mod ?N)) < LOG_MESSAGE_MAX_LEN" using sm nth_mem by blast
      then show ?thesis by simp
    qed
    then show ?thesis by (simp add: mod_add_left_eq)
  qed
  also have "map (\<lambda>i. ?h ! ((?i + ?N - m + i) mod ?N)) [0..<m] = lastn (nat n) (log_contents s)"
  proof (rule nth_equalityI)
    show "length (map (\<lambda>i. ?h ! ((?i + ?N - m + i) mod ?N)) [0..<m]) = length (lastn (nat n) (log_contents s))"
      by (simp add: lastn_def m_def)
  next
    fix k assume "k < length (map (\<lambda>i. ?h ! ((?i + ?N - m + i) mod ?N)) [0..<m])"
    then have k: "k < m" by simp
    have c: "length (log_contents s) - nat n = length (log_contents s) - m" by (simp add: m_def)
    have L: "length (log_contents s) \<le> ?N" "m \<le> length (log_contents s)"
      using log_contents_length [OF assms(1)] by (auto simp: m_def)
    have r: "lastn (nat n) (log_contents s) ! k = log_contents s ! (length (log_contents s) - m + k)"
      using k L by (simp add: lastn_def c)
    show "map (\<lambda>i. ?h ! ((?i + ?N - m + i) mod ?N)) [0..<m] ! k = lastn (nat n) (log_contents s) ! k"
    proof (cases "log_history_full s")
      case True
      then show ?thesis using k L len r by (simp add: log_contents_def ring_list_def add.assoc)
    next
      case False
      then have "(?i + ?N - m + k) mod ?N = ?i - m + k"
        using k L len N by (simp add: log_contents_def mod_if)
      then show ?thesis using False k L len r by (simp add: log_contents_def ring_list_def)
    qed
  qed
  finally show ?thesis by (simp add: m_def)
qed

fun klog_all :: "(log_level_t \<times> string) list \<Rightarrow> log_state \<Rightarrow> log_state option" where
  "klog_all [] s = Some s"
| "klog_all ((l, m) # ms) s = do { s' \<leftarrow> klog l m s; klog_all ms s' }"

lemma lastn_append_lastn: "lastn n (lastn n xs @ ys) = lastn n (xs @ ys)"
  by (cases "n \<le> length xs") (simp_all add: lastn_def add.commute)

lemma klog_all_contents:
  "log_inv s \<Longrightarrow> klog_all ms s = Some s' \<Longrightarrow> log_inv s' \<and>
   log_contents s' = lastn LOG_HISTORY_SIZE (log_contents s @ map (log_text \<circ> snd) ms)"
proof (induction ms arbitrary: s)
  case Nil
  then show ?case using log_contents_length [of s] by (simp add: lastn_def)
next
  case (Cons x ms)
  obtain l m where x: "x = (l, m)" by (cases x)
  obtain s1 where s1: "klog l m s = Some s1" "klog_all ms s1 = Some s'"
    using Cons.prems(2) x by (auto split: Option.bind_splits)
  have "same_history s1 (log_store m s)" using klog_history [OF s1(1)] .
  then have "log_inv s1" "log_contents s1 = lastn LOG_HISTORY_SIZE (log_contents s @ [log_text m])"
    using same_history_contents log_inv_store log_contents_store Cons.prems(1) by metis+
  then show ?case using Cons.IH [OF _ s1(2)] x by (simp add: lastn_append_lastn)
qed

subsection \<open>The console stays on the screen\<close>

fun draws_inside :: "fb_info \<Rightarrow> fb_call \<Rightarrow> bool" where
  "draws_inside fb (Fb_draw_char c x y) \<longleftrightarrow> unat x + unat FONT_WIDTH \<le> unat (fb_width fb) \<and> unat y + unat FONT_HEIGHT \<le> unat (fb_height fb)"
| "draws_inside fb (Fb_copy_region src dst rows) \<longleftrightarrow> unat src + unat rows \<le> unat (fb_height fb) \<and> unat dst + unat rows \<le> unat (fb_height fb)"
| "draws_inside fb (Fb_draw_rect x y w h) \<longleftrightarrow> unat x + unat w \<le> unat (fb_width fb) \<and> unat y + unat h \<le> unat (fb_height fb)"
| "draws_inside fb Fb_clear \<longleftrightarrow> True"

definition cursor_inside :: "fb_info \<Rightarrow> log_state \<Rightarrow> bool" where
  "cursor_inside fb s \<longleftrightarrow> fb_inf s = Some fb \<and> console_x s < fb_width fb div FONT_WIDTH
     \<and> console_y s < fb_height fb div FONT_HEIGHT \<and> (\<forall>f\<in>set (fb_calls s). draws_inside fb f)"

lemma cell_inside:
  fixes x w :: u32
  assumes "x < w div k" "0 < k"
  shows "unat (x * k) + unat k \<le> unat w" "unat (x * k) = unat x * unat k"
proof -
  have "unat x < unat w div unat k" using assms(1) by (simp add: word_less_nat_alt unat_div)
  then have "Suc (unat x) * unat k \<le> unat w div unat k * unat k" by (intro mult_le_mono1) simp
  also have "\<dots> \<le> unat w" by simp
  finally have le: "unat x * unat k + unat k \<le> unat w" by simp
  moreover have "unat w < 2 ^ 32" using unsigned_less [of w] by simp
  ultimately show *: "unat (x * k) = unat x * unat k" by (simp add: unat_word_ariths)
  show "unat (x * k) + unat k \<le> unat w" using le by (simp add: *)
qed

lemma pred_less: "0 < m \<Longrightarrow> m - 1 < (m :: u32)"
proof -
  assume "0 < m"
  then have "m \<noteq> 0" "0 < unat m" by (auto simp: unat_gt_0 word_gt_0)
  then show ?thesis by (simp add: word_less_nat_alt unat_minus_one)
qed

lemma inc_le_word: "x < (m :: u32) \<Longrightarrow> x + 1 \<le> m"
  by (rule inc_le)

lemma cursor_inside_putchar:
  assumes "cursor_inside fb s"
  shows "cursor_inside fb (klog_putchar c s)"
proof -
  let ?w = "fb_width fb div FONT_WIDTH" and ?h = "fb_height fb div FONT_HEIGHT"
  have font: "0 < FONT_WIDTH" "0 < FONT_HEIGHT" by (simp_all add: FONT_WIDTH_def FONT_HEIGHT_def)
  have inside: "fb_inf s = Some fb" "console_x s < ?w" "console_y s < ?h" "\<forall>f\<in>set (fb_calls s). draws_inside fb f"
    using assms by (simp_all add: cursor_inside_def)
  define s1 where "s1 = (if c = CHR 0x0A then s\<lparr>console_x := 0, console_y := console_y s + 1\<rparr>
      else if c = CHR 0x08 then
        (if console_x s > 0
         then fb_emit (Fb_draw_char (CHR '' '') ((console_x s - 1) * FONT_WIDTH) (console_y s * FONT_HEIGHT))
                (s\<lparr>console_x := console_x s - 1\<rparr>)
         else s)
      else (fb_emit (Fb_draw_char c (console_x s * FONT_WIDTH) (console_y s * FONT_HEIGHT)) s)
             \<lparr>console_x := console_x s + 1\<rparr>)"
  define s2 where "s2 = (if console_x s1 \<ge> ?w then s1\<lparr>console_x := 0, console_y := console_y s1 + 1\<rparr> else s1)"
  have put: "klog_putchar c s = (if console_y s2 \<ge> ?h
             then (fb_emit (Fb_draw_rect 0 ((?h - 1) * FONT_HEIGHT) (fb_width fb) FONT_HEIGHT)
                    (fb_emit (Fb_copy_region FONT_HEIGHT 0 ((?h - 1) * FONT_HEIGHT)) s2))\<lparr>console_y := ?h - 1\<rparr>
             else s2)"
    by (simp add: klog_putchar_def inside(1) Let_def s1_def s2_def)
  have left: "console_x s - 1 < ?w" if "console_x s > 0"
    using pred_less [OF that] inside(2) by (rule less_trans)
  have y1: "console_y s1 \<le> ?h \<and> (console_x s1 < ?w \<or> console_y s1 < ?h)"
    using inside font left by (auto simp: s1_def fb_emit_def inc_le_word less_imp_le word_gt_0)
  have d1: "fb_inf s1 = Some fb" "\<forall>f\<in>set (fb_calls s1). draws_inside fb f"
    using inside cell_inside(1) [OF _ font(1)] cell_inside(1) [OF _ font(2)] left by (auto simp: s1_def fb_emit_def)
  have y2: "console_x s2 < ?w" "console_y s2 \<le> ?h" "fb_inf s2 = Some fb" "\<forall>f\<in>set (fb_calls s2). draws_inside fb f"
    using y1 d1 inside(2) by (auto simp: s2_def inc_le_word not_le word_gt_0 dest: less_le_trans)
  have h: "?h - 1 < ?h" using inside(3) by (intro pred_less) (auto simp: word_gt_0)
  show ?thesis
    using y2 h cell_inside(1) [OF h font(2)]
    unfolding put cursor_inside_def by (auto simp: fb_emit_def add.commute)
qed

lemma cursor_inside_print_str: "cursor_inside fb s \<Longrightarrow> cursor_inside fb (klog_print_str m s)"
  by (induction m s rule: klog_print_str.induct) (auto simp: cursor_inside_putchar)

lemma cursor_inside_serial_print: "cursor_inside fb s \<Longrightarrow> cursor_inside fb (serial_print m s)"
  by (induction m s rule: serial_print.induct) (auto simp: cursor_inside_def serial_putchar_def)

lemma cursor_inside_store: "cursor_inside fb s \<Longrightarrow> cursor_inside fb (log_store m s)"
  by (simp add: cursor_inside_def log_store_def Let_def)

lemma cursor_inside_serial_putchar: "cursor_inside fb s \<Longrightarrow> cursor_inside fb (serial_putchar c s)"
  by (simp add: cursor_inside_def serial_putchar_def)

lemma cursor_inside_klog: "cursor_inside fb s \<Longrightarrow> klog l m s = Some s' \<Longrightarrow> cursor_inside fb s'"
  unfolding klog_def Let_def
  by (auto split: if_splits intro!: cursor_inside_print_str cursor_inside_serial_print cursor_inside_store cursor_inside_putchar
      cursor_inside_serial_putchar)

subsection \<open>Properties\<close>

text \<open>After any sequence of \<open>klog\<close> calls from boot, \<open>log_get_entries\<close> asked for \<open>n\<close> entries returns
  the last \<open>min n 10\<close> messages logged (all of them when fewer were), oldest first, each cut to 255
  characters, and reports their number.\<close>

lemma log_history_last:
  assumes "klog_all ms log_boot = Some s" "0 < n"
  shows "log_get_entries True n s = (min (nat n) (min LOG_HISTORY_SIZE (length ms)),
           lastn (min (nat n) LOG_HISTORY_SIZE) (map (log_text \<circ> snd) ms))"
proof -
  have "log_inv s" "log_contents s = lastn LOG_HISTORY_SIZE (map (log_text \<circ> snd) ms)"
    using klog_all_contents [OF log_inv_boot(1) assms(1)] by (simp_all add: log_inv_boot(2))
  then show ?thesis using assms(2) by (simp add: log_get_entries_contents) (simp add: lastn_def min_def)
qed

lemma log_history_last_witness:
  "\<exists>s. klog_all [(LOG_INFO, ''a''), (LOG_WARN, ''b''), (LOG_DEBUG, ''c'')] log_boot = Some s
     \<and> log_get_entries True 2 s = (2, [''b'', ''c''])"
proof -
  obtain s where s: "klog_all [(LOG_INFO, ''a''), (LOG_WARN, ''b''), (LOG_DEBUG, ''c'')] log_boot = Some s"
    by (simp add: klog_def LOG_MESSAGE_MAX_LEN_def Let_def)
  then show ?thesis
    using log_history_last [OF s, of 2]
    by (simp add: lastn_def LOG_HISTORY_SIZE_def log_text_def cstr_def LOG_MESSAGE_MAX_LEN_def)
qed

text \<open>The console cursor stays inside the text grid of the framebuffer and every character cell,
  scroll and clear that \<open>klog\<close> asks for lies inside the framebuffer, whatever is printed.\<close>

lemma klog_draws_inside:
  assumes "cursor_inside fb s" "klog level msg s = Some s'"
  shows "console_x s' < fb_width fb div FONT_WIDTH \<and> console_y s' < fb_height fb div FONT_HEIGHT
     \<and> (\<forall>f\<in>set (fb_calls s'). draws_inside fb f)"
  using cursor_inside_klog [OF assms] by (simp add: cursor_inside_def)

lemma klog_draws_inside_witness:
  "\<exists>s'. klog LOG_ERROR ''disk'' (log_boot\<lparr>fb_inf := Some \<lparr>fb_width = 80, fb_height = 32\<rparr>\<rparr>) = Some s'
     \<and> (\<forall>f\<in>set (fb_calls s'). draws_inside \<lparr>fb_width = 80, fb_height = 32\<rparr> f)"
proof -
  let ?fb = "\<lparr>fb_width = 80, fb_height = 32\<rparr>"
  have "cursor_inside ?fb (log_boot\<lparr>fb_inf := Some ?fb\<rparr>)"
    by (simp add: cursor_inside_def log_boot_def FONT_WIDTH_def FONT_HEIGHT_def)
  moreover obtain s' where "klog LOG_ERROR ''disk'' (log_boot\<lparr>fb_inf := Some ?fb\<rparr>) = Some s'"
    by (simp add: klog_def LOG_MESSAGE_MAX_LEN_def Let_def)
  ultimately show ?thesis using klog_draws_inside by blast
qed

end
