(* ===== verification/Kstring.thy ===== *)
theory Kstring
  imports Kyro_Prelude
begin

section \<open>Strings, memory blocks and formatting (src/kernel/string.c)\<close>

text \<open>
  Memory is the list of bytes of one object, pointers into it are indices; an access outside it
  gives \<open>None\<close>. A C string in memory is the list of the characters of its object, the terminator
  included. The arguments of a variadic call are the 8-byte slots they occupy; a slot that holds a
  pointer also carries the string it points to.
\<close>

abbreviation NUL :: char where
  "NUL \<equiv> CHR 0x00"

subsection \<open>Blocks\<close>

text \<open>One byte copy \<open>m[d] = m[s]\<close>.\<close>

definition byte_move :: "nat \<Rightarrow> nat \<Rightarrow> 'a list \<Rightarrow> 'a list option" where
  "byte_move d s m = (if d < length m \<and> s < length m then Some (m[d := m ! s]) else None)"

text \<open>The forward loop from \<open>i\<close> to \<open>n\<close>, and the backward loop from \<open>n\<close> down to 0.\<close>

function copy_up :: "nat \<Rightarrow> nat \<Rightarrow> nat \<Rightarrow> nat \<Rightarrow> 'a list \<Rightarrow> 'a list option" where
  "copy_up d s i n m = (if i < n then do { m' \<leftarrow> byte_move (d + i) (s + i) m; copy_up d s (i + 1) n m' } else Some m)"
  by pat_completeness auto
termination
  by (relation "measure (\<lambda>(d, s, i, n, m). n - i)") auto

declare copy_up.simps [simp del]

fun copy_down :: "nat \<Rightarrow> nat \<Rightarrow> nat \<Rightarrow> 'a list \<Rightarrow> 'a list option" where
  "copy_down d s 0 m = Some m"
| "copy_down d s (Suc i) m = do { m' \<leftarrow> byte_move (d + i) (s + i) m; copy_down d s i m' }"

text \<open>\<open>rep movsb\<close> with the direction flag clear; the result is the advanced destination register.\<close>

definition memcpy :: "nat \<Rightarrow> nat \<Rightarrow> nat \<Rightarrow> 'a list \<Rightarrow> (nat \<times> 'a list) option" where
  "memcpy dest src n m = do { m' \<leftarrow> copy_up dest src 0 n m; Some (dest + n, m') }"

definition memmove :: "nat \<Rightarrow> nat \<Rightarrow> nat \<Rightarrow> 'a list \<Rightarrow> (nat \<times> 'a list) option" where
  "memmove dest src n m =
     (if dest = src then Some (dest, m)
      else if dest < src then do { m' \<leftarrow> copy_up dest src 0 n m; Some (dest, m') }
      else do { m' \<leftarrow> copy_down dest src n m; Some (dest, m') })"

fun memset :: "nat \<Rightarrow> 'a \<Rightarrow> nat \<Rightarrow> 'a list \<Rightarrow> 'a list option" where
  "memset p c 0 m = Some m"
| "memset p c (Suc n) m = (if p < length m then memset (p + 1) c n (m[p := c]) else None)"

definition memcpy_chk :: "nat \<Rightarrow> nat \<Rightarrow> nat \<Rightarrow> nat \<Rightarrow> 'a list \<Rightarrow> (nat \<times> 'a list) option" where
  "memcpy_chk dest src n dest_len m = memcpy dest src n m"

subsection \<open>Strings\<close>

fun strlen :: "string \<Rightarrow> nat option" where
  "strlen [] = None"
| "strlen (c # cs) = (if c = NUL then Some 0 else map_option Suc (strlen cs))"

fun strcmp :: "string \<Rightarrow> string \<Rightarrow> int option" where
  "strcmp (a # as) (b # bs) =
     (if a \<noteq> NUL \<and> a = b then strcmp as bs else Some (int (of_char a) - int (of_char b)))"
| "strcmp _ _ = None"

fun strncmp :: "string \<Rightarrow> string \<Rightarrow> nat \<Rightarrow> int option" where
  "strncmp _ _ 0 = Some 0"
| "strncmp (a # as) (b # bs) (Suc n) =
     (if a \<noteq> NUL \<and> a = b then strncmp as bs n else Some (int (of_char a) - int (of_char b)))"
| "strncmp _ _ (Suc n) = None"

text \<open>The characters \<open>strncpy\<close> stores: the string, then terminators up to \<open>n\<close>.\<close>

fun strncpy_chars :: "string \<Rightarrow> nat \<Rightarrow> string option" where
  "strncpy_chars src 0 = Some []"
| "strncpy_chars [] (Suc n) = None"
| "strncpy_chars (c # cs) (Suc n) =
     (if c = NUL then Some (replicate (Suc n) NUL) else map_option (Cons c) (strncpy_chars cs n))"

definition strncpy :: "string \<Rightarrow> string \<Rightarrow> nat \<Rightarrow> string option" where
  "strncpy dest src n = do {
     cs \<leftarrow> strncpy_chars src n;
     if n \<le> length dest then Some (cs @ drop n dest) else None }"

text \<open>Position of the character found; the outer option is the memory fault.\<close>

fun strchr :: "string \<Rightarrow> char \<Rightarrow> nat option option" where
  "strchr [] c = None"
| "strchr (x # xs) c =
     (if x = c then Some (Some 0) else if x = NUL then Some None
      else map_option (map_option Suc) (strchr xs c))"

fun strrchr_from :: "string \<Rightarrow> char \<Rightarrow> nat \<Rightarrow> nat option \<Rightarrow> nat option option" where
  "strrchr_from [] c i found = None"
| "strrchr_from (x # xs) c i found =
     (let found' = (if x = c then Some i else found)
      in if x = NUL then Some found' else strrchr_from xs c (i + 1) found')"

definition strrchr :: "string \<Rightarrow> char \<Rightarrow> nat option option" where
  "strrchr s c = strrchr_from s c 0 None"

subsection \<open>Numbers\<close>

definition hex_chars :: string where
  "hex_chars = ''0123456789abcdef''"

text \<open>The digits of \<open>v\<close>, least significant first: the loop that fills \<open>hex_buf\<close> and \<open>num_str\<close>.\<close>

function num_digits :: "nat \<Rightarrow> nat \<Rightarrow> string" where
  "num_digits b v = (if 1 < b \<and> 0 < v then (hex_chars ! (v mod b)) # num_digits b (v div b) else [])"
  by pat_completeness auto
termination
  by (relation "measure snd") auto

declare num_digits.simps [simp del]

definition num_buf :: "nat \<Rightarrow> nat \<Rightarrow> string" where
  "num_buf b v = (if v = 0 then ''0'' else num_digits b v)"

text \<open>Padding and the digits, most significant first.\<close>

definition put_num :: "nat \<Rightarrow> char \<Rightarrow> nat \<Rightarrow> nat \<Rightarrow> string" where
  "put_num padding pad_char b v =
     (let buf = num_buf b v; i = length buf; p = (if padding > i then padding else i)
      in replicate (p - i) pad_char @ rev buf)"

text \<open>\<open>int_to_str\<close>: swaps ends until they meet; negating \<open>INT_MIN\<close> overflows.\<close>

function swap_ends :: "nat \<Rightarrow> nat \<Rightarrow> 'a list \<Rightarrow> 'a list" where
  "swap_ends i j s = (if i < j then swap_ends (i + 1) (j - 1) (s[i := s ! j, j := s ! i]) else s)"
  by pat_completeness auto
termination
  by (relation "measure (\<lambda>(i, j, s). j - i)") auto

declare swap_ends.simps [simp del]

definition int_to_str :: "32 word \<Rightarrow> string option" where
  "int_to_str n =
     (if sint n = - (2 ^ 31) then None
      else if n = 0 then Some ''0''
      else let s = num_digits 10 (nat \<bar>sint n\<bar>) @ (if sint n < 0 then ''-'' else [])
           in Some (swap_ends 0 (length s - 1) s))"

subsection \<open>Formatting\<close>

datatype va_slot = Slot (slot_val: u64) (slot_str: "string option")

definition is_digit :: "char \<Rightarrow> bool" where
  "is_digit c \<longleftrightarrow> (48::nat) \<le> of_char c \<and> of_char c \<le> (57::nat)"

definition digit_val :: "char \<Rightarrow> nat" where
  "digit_val c = of_char c - 48"

text \<open>Padding width, padding character and the rest of the format.\<close>

fun fmt_padding :: "string \<Rightarrow> nat \<times> char \<times> string" where
  "fmt_padding (z # d # e # f) =
     (if z = CHR ''0''
      then if is_digit d
           then if is_digit e then (digit_val d * 10 + digit_val e, CHR ''0'', f) else (digit_val d, CHR ''0'', e # f)
           else (0, CHR '' '', d # e # f)
      else (0, CHR '' '', z # d # e # f))"
| "fmt_padding [z, d] =
     (if z = CHR ''0''
      then if is_digit d then (digit_val d, CHR ''0'', []) else (0, CHR '' '', [d])
      else (0, CHR '' '', [z, d]))"
| "fmt_padding [z] = (if z = CHR ''0'' then (0, CHR '' '', []) else (0, CHR '' '', [z]))"
| "fmt_padding [] = (0, CHR '' '', [])"

fun fmt_long :: "string \<Rightarrow> bool \<times> string" where
  "fmt_long (a # b # f) =
     (if a = CHR ''l'' then if b = CHR ''l'' then (True, f) else (True, b # f) else (False, a # b # f))"
| "fmt_long [a] = (if a = CHR ''l'' then (True, []) else (False, [a]))"
| "fmt_long [] = (False, [])"

text \<open>One conversion: the text it produces and the slots left. \<open>None\<close>: no slot, or a bad pointer.\<close>

definition fmt_arg :: "char \<Rightarrow> nat \<Rightarrow> char \<Rightarrow> bool \<Rightarrow> va_slot list \<Rightarrow> (string \<times> va_slot list) option" where
  "fmt_arg c padding pad_char is_long args =
     (if c = CHR ''s'' then
        (case args of [] \<Rightarrow> None
         | a # as \<Rightarrow> if slot_val a = 0 then Some (''(null)'', as)
                     else map_option (\<lambda>s. (takeWhile (\<lambda>x. x \<noteq> NUL) s, as)) (slot_str a))
      else if c = CHR ''c'' then
        (case args of [] \<Rightarrow> None | a # as \<Rightarrow> Some ([char_of (unat (slot_val a))], as))
      else if c = CHR ''p'' then
        (case args of [] \<Rightarrow> None | a # as \<Rightarrow> Some (''0x'' @ put_num padding pad_char 16 (unat (slot_val a)), as))
      else if c = CHR ''x'' then
        (case args of [] \<Rightarrow> None
         | a # as \<Rightarrow> let v = (if is_long then slot_val a else ucast (ucast (slot_val a) :: u32))
                     in Some (put_num padding pad_char 16 (unat v), as))
      else if c = CHR ''u'' \<or> c = CHR ''d'' then
        (case args of [] \<Rightarrow> None
         | a # as \<Rightarrow> let v = (if is_long then slot_val a else scast (ucast (slot_val a) :: u32))
                     in if c = CHR ''d'' \<and> sint v < 0
                        then Some (''-'' @ put_num padding pad_char 10 (unat (- v)), as)
                        else Some (put_num padding pad_char 10 (unat v), as))
      else
        let pre = (if pad_char = CHR ''0'' \<and> padding > 0
                   then ''%0'' @ (if padding \<ge> 10 then [hex_chars ! (padding div 10)] else []) @ [hex_chars ! (padding mod 10)]
                   else ''%'')
        in Some (pre @ [c], args))"

lemma fmt_padding_length: "fmt_padding f = (p, c, f') \<Longrightarrow> length f' \<le> length f"
  by (induction f rule: fmt_padding.induct) (auto split: if_splits)

lemma fmt_long_length: "fmt_long f = (l, f') \<Longrightarrow> length f' \<le> length f"
  by (induction f rule: fmt_long.induct) (auto split: if_splits)

text \<open>A format that ends in the middle of a conversion makes the loop step over the terminator.\<close>

function vksprintf :: "string \<Rightarrow> va_slot list \<Rightarrow> string option" where
  "vksprintf [] args = Some []"
| "vksprintf (c # f) args =
     (if c = CHR ''%''
      then (case fmt_padding f of (padding, pad_char, f1) \<Rightarrow>
             (case fmt_long f1 of (is_long, f2) \<Rightarrow>
               (case f2 of
                  [] \<Rightarrow> None
                | t # f3 \<Rightarrow> do {
                    (out, args') \<leftarrow> fmt_arg t padding pad_char is_long args;
                    rest \<leftarrow> vksprintf f3 args';
                    Some (out @ rest) })))
      else map_option (Cons c) (vksprintf f args))"
  by pat_completeness auto
termination
proof (relation "measure (\<lambda>(f, args). length f)")
  fix c f args p y pad f1 l f2 t f3 and a :: "string \<times> va_slot list" and out args'
  assume "(p, y) = fmt_padding f" "(pad, f1) = y" "(l, f2) = fmt_long f1" "f2 = t # f3"
  then have "length f1 \<le> length f" "length (t # f3) \<le> length f1"
    using fmt_padding_length fmt_long_length by metis+
  then show "((f3, args'), c # f, args) \<in> measure (\<lambda>(f, args). length f)" by simp
qed simp_all

declare vksprintf.simps(2) [simp del]

subsection \<open>Block copies\<close>

definition blit :: "nat \<Rightarrow> nat \<Rightarrow> nat \<Rightarrow> 'a list \<Rightarrow> 'a list" where
  "blit d s n m = take d m @ take n (drop s m) @ drop (d + n) m"

lemma nth_blit:
  assumes "d + n \<le> length m" "s + n \<le> length m" "k < length m"
  shows "blit d s n m ! k = (if d \<le> k \<and> k < d + n then m ! (s + (k - d)) else m ! k)"
proof -
  have l: "length (take n (drop s m)) = n" "length (take d m) = d" using assms by simp_all
  show ?thesis using assms by (auto simp: blit_def nth_append l simp del: length_take)
qed

lemma length_blit [simp]: "d + n \<le> length m \<Longrightarrow> s + n \<le> length m \<Longrightarrow> length (blit d s n m) = length m"
  by (simp add: blit_def)

text \<open>Copying upwards, the source bytes not yet read are still unchanged as long as \<open>d \<le> s\<close> or the blocks are apart.\<close>

lemma copy_up_spec:
  assumes "d + n \<le> length m" "s + n \<le> length m" "d \<le> s \<or> s + n \<le> d" "i \<le> n" "length m' = length m"
    and "\<forall>k<length m. m' ! k = (if d \<le> k \<and> k < d + i then m ! (s + (k - d)) else m ! k)"
  shows "copy_up d s i n m' = Some (blit d s n m)"
  using assms
proof (induction d s i n m' rule: copy_up.induct)
  case (1 d s i n m')
  show ?case
  proof (cases "i < n")
    case True
    have src: "m' ! (s + i) = m ! (s + i)" using "1.prems" True by auto
    have mv: "byte_move (d + i) (s + i) m' = Some (m'[d + i := m ! (s + i)])"
      using "1.prems" True src by (simp add: byte_move_def)
    have "copy_up d s (i + 1) n (m'[d + i := m ! (s + i)]) = Some (blit d s n m)"
      using "1.prems" True by (intro "1.IH" [OF True mv]) (auto simp: nth_list_update)
    then show ?thesis using True mv by (simp add: copy_up.simps [of d s i n m'])
  next
    case False
    then have "m' = blit d s n m"
      using "1.prems" by (intro nth_equalityI) (auto simp: nth_blit)
    then show ?thesis using False by (subst copy_up.simps) simp
  qed
qed

lemma copy_down_spec:
  assumes "d + n \<le> length m" "s + n \<le> length m" "s \<le> d" "i \<le> n" "length m' = length m"
    and "\<forall>k<length m. m' ! k = (if d + i \<le> k \<and> k < d + n then m ! (s + (k - d)) else m ! k)"
  shows "copy_down d s i m' = Some (blit d s n m)"
  using assms
proof (induction i arbitrary: m')
  case 0
  then have "m' = blit d s n m" by (intro nth_equalityI) (auto simp: nth_blit)
  then show ?case by simp
next
  case (Suc i)
  have src: "m' ! (s + i) = m ! (s + i)" using Suc.prems by auto
  have "copy_down d s i (m'[d + i := m ! (s + i)]) = Some (blit d s n m)"
    using Suc.prems by (intro Suc.IH) (auto simp: nth_list_update)
  then show ?case using Suc.prems src by (simp add: byte_move_def)
qed

subsection \<open>Digits\<close>

fun digits_value :: "nat \<Rightarrow> nat \<Rightarrow> string \<Rightarrow> nat" where
  "digits_value b a [] = a"
| "digits_value b a (c # cs) = digits_value b (b * a + (if is_digit c then digit_val c else of_char c - 87)) cs"

lemma hex_char_value:
  assumes "d < 16"
  shows "(if is_digit (hex_chars ! d) then digit_val (hex_chars ! d) else of_char (hex_chars ! d) - 87) = d"
proof -
  have "\<forall>d<16. (if is_digit (hex_chars ! d) then digit_val (hex_chars ! d) else of_char (hex_chars ! d) - 87) = d"
    unfolding is_digit_def digit_val_def hex_chars_def by code_simp
  then show ?thesis using assms by blast
qed

lemma digits_value_append: "digits_value b a (xs @ ys) = digits_value b (digits_value b a xs) ys"
  by (induction b a xs rule: digits_value.induct) auto

lemma digits_value_zeros: "digits_value b 0 (replicate n (CHR ''0'') @ xs) = digits_value b 0 xs"
  by (induction n) (auto simp: is_digit_def digit_val_def)

lemma num_digits_value:
  assumes "1 < b" "b \<le> 16"
  shows "digits_value b 0 (rev (num_digits b v)) = v"
  using assms
proof (induction b v rule: num_digits.induct)
  case (1 b v)
  show ?case
  proof (cases "0 < v")
    case True
    then have "num_digits b v = hex_chars ! (v mod b) # num_digits b (v div b)"
      using "1.prems" by (simp add: num_digits.simps [of b v])
    moreover have "digits_value b 0 (rev (num_digits b (v div b))) = v div b"
      using True "1.prems" by (intro "1.IH") auto
    moreover have "v mod b < 16" using "1.prems" by (intro less_le_trans [OF mod_less_divisor]) auto
    ultimately show ?thesis by (simp add: digits_value_append hex_char_value)
  qed (simp add: num_digits.simps [of b 0])
qed

lemma put_num_value:
  assumes "1 < b" "b \<le> 16" "pad = CHR ''0'' \<or> padding = 0"
  shows "digits_value b 0 (put_num padding pad b v) = v"
proof -
  have "digits_value b 0 (rev (num_buf b v)) = v"
    using num_digits_value [OF assms(1,2)] by (auto simp: num_buf_def is_digit_def digit_val_def)
  then show ?thesis using assms(3) digits_value_zeros by (auto simp: put_num_def Let_def)
qed

lemma put_num_length: "padding \<le> length (put_num padding pad b v)"
  by (simp add: put_num_def Let_def)

subsection \<open>Comparison and copying of strings\<close>

definition c_string :: "string \<Rightarrow> bool" where
  "c_string s \<longleftrightarrow> NUL \<notin> set s"

lemma c_string_Cons [simp]: "c_string (c # s) \<longleftrightarrow> c \<noteq> NUL \<and> c_string s"
  by (auto simp: c_string_def)

lemma c_string_Nil [simp]: "c_string []"
  by (simp add: c_string_def)

lemma of_char_int_inject: "int (of_char a) = int (of_char b) \<longleftrightarrow> a = b"
  by simp

abbreviation byte_lex :: "(char \<times> char) set" where
  "byte_lex \<equiv> {(a, b). (of_char a :: nat) < of_char b}"

lemma strlen_c_string: "c_string s \<Longrightarrow> strlen (s @ NUL # t) = Some (length s)"
  by (induction s) auto

lemma of_char_pos: "c \<noteq> NUL \<Longrightarrow> (0::nat) < of_char c"
proof -
  assume "c \<noteq> NUL"
  then have "of_char c \<noteq> (of_char NUL :: nat)" by (simp only: of_char_eq_iff not_False_eq_True)
  then show ?thesis by simp
qed

lemma strcmp_result:
  assumes "c_string a" "c_string b"
  shows "\<exists>r. strcmp (a @ NUL # x) (b @ NUL # y) = Some r \<and> (r = 0 \<longleftrightarrow> a = b) \<and> (r < 0 \<longleftrightarrow> (a, b) \<in> lexord byte_lex)"
  using assms
proof (induction a arbitrary: b)
  case Nil
  then show ?case using of_char_pos by (cases b) auto
next
  case (Cons c a)
  show ?case
  proof (cases b)
    case Nil
    then show ?thesis using Cons.prems of_char_pos [of c] by auto
  next
    case (Cons d b')
    then show ?thesis using Cons.IH [of b'] Cons.prems by (cases "c = d") auto
  qed
qed

lemma strncpy_chars_short:
  "c_string s \<Longrightarrow> strncpy_chars (s @ NUL # t) n = Some (take n (s @ replicate n NUL))"
proof (induction s arbitrary: n)
  case Nil
  then show ?case by (cases n) simp_all
next
  case (Cons c s)
  show ?case
  proof (cases n)
    case (Suc k)
    have "take k (s @ replicate (Suc k) NUL) = take k (s @ replicate k NUL)"
      by (simp add: replicate_append_same [symmetric] del: replicate_Suc)
    then show ?thesis using Cons Suc by simp
  qed simp
qed

subsection \<open>Properties\<close>

text \<open>\<open>memmove\<close> copies a block to an overlapping or disjoint place as if through a temporary: the
  destination receives the bytes the source held before the call, nothing else changes, and it
  returns the destination; blocks that fit the object are the only requirement.\<close>

lemma memmove_correct:
  assumes "d + n \<le> length m" "s + n \<le> length m"
  shows "memmove d s n m = Some (d, blit d s n m)"
proof -
  consider "d = s" | "d < s" | "s < d" by linarith
  then show ?thesis
  proof cases
    case 1
    then have "blit d s n m = m" using assms by (intro nth_equalityI) (auto simp: nth_blit)
    then show ?thesis using 1 by (simp add: memmove_def)
  next
    case 2
    then have "copy_up d s 0 n m = Some (blit d s n m)" using assms by (intro copy_up_spec) auto
    then show ?thesis using 2 by (simp add: memmove_def)
  next
    case 3
    then have "copy_down d s n m = Some (blit d s n m)" using assms by (intro copy_down_spec) auto
    then show ?thesis using 3 by (simp add: memmove_def)
  qed
qed

lemma memmove_correct_witness:
  "memmove 1 0 3 [10, 20, 30, 40, 50::u8] = Some (1, [10, 10, 20, 30, 50])
   \<and> memmove 0 2 3 [10, 20, 30, 40, 50::u8] = Some (0, [30, 40, 50, 40, 50])"
  using memmove_correct [of 1 3 "[10, 20, 30, 40, 50::u8]" 0] memmove_correct [of 0 3 "[10, 20, 30, 40, 50::u8]" 2]
  by (simp add: blit_def)

text \<open>\<open>strcmp\<close> on two terminated strings returns 0 exactly when they are equal and a negative
  number exactly when the first comes first in the order of unsigned bytes; it never reads past
  either terminator.\<close>

lemma strcmp_correct:
  assumes "c_string a" "c_string b"
  shows "\<exists>r. strcmp (a @ NUL # x) (b @ NUL # y) = Some r \<and> (r = 0 \<longleftrightarrow> a = b) \<and> (r < 0 \<longleftrightarrow> (a, b) \<in> lexord byte_lex)"
  using strcmp_result [OF assms] .

lemma strcmp_correct_witness:
  "\<exists>r. strcmp (''ab'' @ [NUL]) (''abc'' @ [NUL]) = Some r \<and> r < 0"
  using strcmp_correct [of "''ab''" "''abc''" "[]" "[]"] by (auto simp: append_eq_Cons_conv)

lemma scast_u32_sint: "sint (scast (v :: u32) :: u64) = sint v"
  by (rule sint_up_scast) (simp add: is_up)

lemma digit_cases:
  assumes "n < 10"
  shows "is_digit (hex_chars ! n)" "digit_val (hex_chars ! n) = n"
proof -
  have "\<forall>n<10. is_digit (hex_chars ! n) \<and> digit_val (hex_chars ! n) = n"
    unfolding is_digit_def digit_val_def hex_chars_def by code_simp
  then show "is_digit (hex_chars ! n)" "digit_val (hex_chars ! n) = n" using assms by blast+
qed

lemma vksprintf_hex: "n < 10 \<Longrightarrow> vksprintf (''%0'' @ [hex_chars ! n] @ ''x'') [Slot w p]
    = Some (put_num n (CHR ''0'') 16 (unat (ucast (ucast w :: u32) :: u64)))"
  using digit_cases [of n] by (simp add: vksprintf.simps(2) is_digit_def fmt_arg_def)

lemma vksprintf_lu: "vksprintf ''%lu'' [Slot w p] = Some (put_num 0 (CHR '' '') 10 (unat w))"
  by (simp add: vksprintf.simps(2) fmt_arg_def)

lemma vksprintf_d: "vksprintf ''%d'' [Slot w p] = (let v = scast (ucast w :: u32) :: u64 in
    Some (if sint v < 0 then CHR ''-'' # put_num 0 (CHR '' '') 10 (unat (- v)) else put_num 0 (CHR '' '') 10 (unat v)))"
  by (simp add: vksprintf.simps(2) fmt_arg_def Let_def)

lemma uint_sint_mod: "uint (v :: u64) = sint v mod 2 ^ 64"
  using uint_sint [of v] by (simp add: take_bit_eq_mod)

lemma unat_nonneg_sint:
  assumes "0 \<le> sint (v :: u64)"
  shows "int (unat v) = sint v"
proof -
  have "sint v < 2 ^ 64" using sint_less [of v] by simp
  then have "sint v mod 2 ^ 64 = sint v" using assms by (intro mod_pos_pos_trivial)
  then show ?thesis using uint_sint_mod [of v] by (simp only: uint_nat)
qed

lemma unat_neg_sint:
  assumes "sint (v :: u64) < 0"
  shows "int (unat (- v)) = - sint v"
proof -
  have b: "- (2 ^ 63) \<le> sint v" using sint_ge [of v] by simp
  have "(sint v + 2 ^ 64) mod 2 ^ 64 = sint v + 2 ^ 64" using b assms by (intro mod_pos_pos_trivial) simp_all
  then have "uint v = sint v + 2 ^ 64" using uint_sint_mod [of v] by simp
  then have "- uint v = - sint v + (- 1) * 2 ^ 64" by simp
  then have "(- uint v) mod 2 ^ 64 = (- sint v) mod 2 ^ 64" by (simp only: mod_mult_self1)
  also have "\<dots> = - sint v" using b assms by (intro mod_pos_pos_trivial) simp_all
  finally show ?thesis by (simp only: uint_nat [symmetric] uint_word_ariths) simp
qed

lemma unat_u32_u64: "unat (ucast (v :: u32) :: u64) = unat v"
proof -
  have "uint (ucast v :: u64) = uint v" by (rule uint_up_ucast) (simp add: is_up)
  then show ?thesis by (simp only: unat_eq_nat_uint)
qed


end
