(* ===== verification/Net_State.thy ===== *)
theory Net_State
  imports Kyro_Prelude
begin

section \<open>State of the network stack and the Internet checksum\<close>

text \<open>
  The statics of arp.c, ip.c, udp.c, socket.c, dhcp.c and the head of the device list, as one
  record. Frames handed to the driver's \<open>send_packet\<close> are appended to \<open>sent\<close>. Packets are byte
  lists; a read outside the bytes received gives \<open>None\<close>. The heap's answer to a request of \<open>n\<close>
  bytes is the parameter \<open>kmalloc_ok\<close>.
\<close>

record sockaddr_in =
  sin_family :: u16
  sin_port :: u16
  sin_addr :: u32

datatype socket_state_t = SOCK_STATE_CLOSED | SOCK_STATE_BOUND | SOCK_STATE_CONNECTED | SOCK_STATE_LISTENING

record socket_t =
  sock_id :: nat
  sock_domain :: int
  sock_type :: int
  sock_protocol :: int
  sock_state :: socket_state_t
  local_addr :: sockaddr_in
  remote_addr :: sockaddr_in
  recv_buffer :: "u8 list"
  recv_data_len :: nat
  recv_read_idx :: nat
  waiting_thread :: "nat option"

datatype dhcp_state_t = DHCP_STATE_INIT | DHCP_STATE_SELECTING | DHCP_STATE_REQUESTING | DHCP_STATE_BOUND

datatype udp_handler_t = Sock_udp_receive

record net =
  dev_mac :: "u8 list option"
  kmalloc_ok :: "nat \<Rightarrow> bool"
  sent :: "u8 list list"
  arp_cache :: "(u32 \<times> u8 list) list"
  arp_cache_next_idx :: nat
  local_ip :: u32
  subnet_mask :: u32
  default_gateway :: u32
  udp_handlers :: "(u16 \<times> udp_handler_t) list"
  active_sockets :: "socket_t list"
  next_sock :: nat
  woken :: "nat list"
  dhcp_state :: dhcp_state_t
  dhcp_local_ip :: u32
  dhcp_gateway_ip :: u32
  dhcp_subnet_mask :: u32
  dhcp_server_ip :: u32
  dhcp_xid :: u32

definition send_packet :: "u8 list \<Rightarrow> net \<Rightarrow> net" where
  "send_packet frame n = n\<lparr>sent := sent n @ [frame]\<rparr>"

lemma send_packet_simps [simp]:
  "sent (send_packet f n) = sent n @ [f]" "arp_cache (send_packet f n) = arp_cache n"
  "local_ip (send_packet f n) = local_ip n" "dev_mac (send_packet f n) = dev_mac n"
  "active_sockets (send_packet f n) = active_sockets n" "kmalloc_ok (send_packet f n) = kmalloc_ok n"
  "dhcp_state (send_packet f n) = dhcp_state n" "woken (send_packet f n) = woken n"
  by (simp_all add: send_packet_def)

text \<open>\<open>ethernet_header_t\<close>: destination, source, EtherType.\<close>

definition eth_header :: "u8 list \<Rightarrow> u8 list \<Rightarrow> u16 \<Rightarrow> u8 list" where
  "eth_header dst src ether_type = dst @ src @ le16 (bswap16 ether_type)"

subsection \<open>The Internet checksum (ip.c and icmp.c)\<close>

fun sum16 :: "u8 list \<Rightarrow> u32 \<Rightarrow> u32" where
  "sum16 (a # b # r) s = sum16 r (s + ucast (of_le16 [a, b]))"
| "sum16 [a] s = s + ucast a"
| "sum16 [] s = s"

definition fold_step :: "nat \<Rightarrow> nat" where
  "fold_step x = x mod 2 ^ 16 + x div 2 ^ 16"

lemma unat_fold_step: "unat ((s AND 0xFFFF) + drop_bit 16 (s :: u32)) = fold_step (unat s)"
proof -
  have m: "(0xFFFF :: u32) = mask 16" by (simp add: mask_eq_exp_minus_1)
  have a: "unat (s AND 0xFFFF) = unat s mod 2 ^ 16"
    unfolding m by (simp add: unsigned_and_eq take_bit_eq_mask [symmetric] take_bit_eq_mod unat_mod)
  have b: "unat (drop_bit 16 s) = unat s div 2 ^ 16" by (simp add: unat_drop_bit_eq drop_bit_eq_div unat_div)
  have "unat s < 2 ^ 32" using unat_bounds(3) [of s] by simp
  then have "unat s mod 2 ^ 16 + unat s div 2 ^ 16 < 2 ^ 32" by (simp add: less_mult_imp_div_less)
  then show ?thesis using a b by (simp add: unat_word_ariths fold_step_def)
qed

lemma drop_bit_16_zero: "drop_bit 16 (s :: u32) = 0 \<longleftrightarrow> unat s < 2 ^ 16"
proof -
  have "drop_bit 16 s = 0 \<longleftrightarrow> unat (drop_bit 16 s) = 0" by (metis unsigned_eq_0_iff)
  also have "\<dots> \<longleftrightarrow> unat s < 2 ^ 16" by (simp add: unat_drop_bit_eq drop_bit_eq_div div_eq_0_iff unat_div)
  finally show ?thesis .
qed

function fold16 :: "u32 \<Rightarrow> u32" where
  "fold16 s = (if drop_bit 16 s \<noteq> 0 then fold16 ((s AND 0xFFFF) + drop_bit 16 s) else s)"
  by pat_completeness auto
termination
proof (relation "measure unat")
  fix s :: u32
  assume "drop_bit 16 s \<noteq> 0"
  then have "2 ^ 16 \<le> unat s" by (simp add: drop_bit_16_zero)
  then have "0 < unat s div 2 ^ 16" by (simp add: div_greater_zero_iff)
  moreover have "m + d < 2 ^ 16 * d + m" if "0 < d" for m d :: nat using that by simp
  ultimately have "fold_step (unat s) < unat s" unfolding fold_step_def by (metis mult_div_mod_eq)
  then show "((s AND 0xFFFF) + drop_bit 16 s, s) \<in> measure unat" by (simp add: unat_fold_step)
qed simp

declare fold16.simps [simp del]

definition ip_checksum :: "u8 list \<Rightarrow> u16" where
  "ip_checksum bs = NOT (ucast (fold16 (sum16 bs 0)))"

subsection \<open>The checksum of a block that contains its own checksum is zero\<close>

fun nsum16 :: "u8 list \<Rightarrow> nat" where
  "nsum16 (a # b # r) = unat (of_le16 [a, b]) + nsum16 r"
| "nsum16 [a] = unat a"
| "nsum16 [] = 0"

lemma unat_ucast_16_32: "unat (ucast (w :: u16) :: u32) = unat w"
proof -
  have "uint (ucast w :: u32) = uint w" by (rule uint_up_ucast) (simp add: is_up)
  then show ?thesis by (simp only: unat_eq_nat_uint)
qed

lemma unat_ucast_8_32: "unat (ucast (w :: u8) :: u32) = unat w"
proof -
  have "uint (ucast w :: u32) = uint w" by (rule uint_up_ucast) (simp add: is_up)
  then show ?thesis by (simp only: unat_eq_nat_uint)
qed

lemma nsum16_bound: "nsum16 bs \<le> 65535 * ((length bs + 1) div 2)"
proof (induction bs rule: nsum16.induct)
  case (1 a b r)
  have "unat (of_le16 [a, b]) \<le> 65535" using unat_bounds(2) [of "of_le16 [a, b]"] by simp
  then show ?case using 1 by simp
next
  case (2 a)
  have "unat a \<le> 255" using unat_bounds(1) [of a] by simp
  then show ?case by simp
qed simp

lemma sum16_nsum16: "unat s + nsum16 bs < 2 ^ 32 \<Longrightarrow> unat (sum16 bs s) = unat s + nsum16 bs"
  by (induction bs s rule: sum16.induct) (simp_all add: unat_word_ariths unat_ucast_16_32 unat_ucast_8_32)

lemma sum16_bound: "length bs < 2 ^ 17 \<Longrightarrow> unat (sum16 bs 0) = nsum16 bs"
proof -
  assume "length bs < 2 ^ 17"
  then have "(length bs + 1) div 2 \<le> 2 ^ 16" by simp
  then have "65535 * ((length bs + 1) div 2) \<le> 65535 * 2 ^ 16" by (rule mult_le_mono2)
  then show ?thesis using nsum16_bound [of bs] sum16_nsum16 [of 0 bs] by simp
qed

lemma nsum16_append: "even (length xs) \<Longrightarrow> nsum16 (xs @ ys) = nsum16 xs + nsum16 ys"
  by (induction xs rule: nsum16.induct) auto

lemma fold16_props:
  "unat (fold16 s) < 2 ^ 16 \<and> unat (fold16 s) mod 65535 = unat s mod 65535 \<and> (unat (fold16 s) = 0 \<longleftrightarrow> unat s = 0)"
proof (induction s rule: fold16.induct)
  case (1 s)
  show ?case
  proof (cases "drop_bit 16 s = 0")
    case True
    then show ?thesis by (simp add: fold16.simps [of s] drop_bit_16_zero)
  next
    case False
    let ?t = "(s AND 0xFFFF) + drop_bit 16 s"
    have t: "unat ?t = fold_step (unat s)" by (rule unat_fold_step)
    have s: "unat s = 65535 * (unat s div 2 ^ 16) + fold_step (unat s)"
      using mult_div_mod_eq [of "2 ^ 16" "unat s"] by (simp add: fold_step_def)
    have "fold_step (unat s) mod 65535 = unat s mod 65535"
      by (subst (2) s) simp
    moreover have "fold_step (unat s) = 0 \<longleftrightarrow> unat s = 0"
      using s by (auto simp: fold_step_def)
    ultimately show ?thesis
      using "1.IH" [OF False] False unfolding t by (simp add: fold16.simps [of s])
  qed
qed

lemma unat_not16: "unat (NOT (w :: u16)) = 65535 - unat w"
proof -
  have "NOT w = - 1 - w" by (simp add: not_eq_complement)
  moreover have "unat (- 1 - w) = unat (- 1 :: u16) - unat w" by (rule unat_sub) simp
  moreover have "unat (- 1 :: u16) = 65535" by (simp add: unsigned_minus_1_eq_mask mask_eq_exp_minus_1)
  ultimately show ?thesis by simp
qed

lemma of_le16_zero [simp]: "of_le16 (0 # 0 # r) = 0"
  by (simp add: of_le16_def)

lemma unat_ip_checksum:
  assumes "length bs < 2 ^ 17"
  shows "unat (ip_checksum bs) = 65535 - unat (fold16 (sum16 bs 0))"
proof -
  let ?f = "fold16 (sum16 bs 0)"
  have "unat ?f < 2 ^ 16" using fold16_props by simp
  then have "unat (ucast ?f :: u16) = unat ?f" by (simp add: unsigned_ucast_eq take_bit_nat_eq_self)
  then show ?thesis by (simp add: ip_checksum_def unat_not16)
qed

lemma ip_checksum_zero_iff:
  assumes "length bs < 2 ^ 17"
  shows "ip_checksum bs = 0 \<longleftrightarrow> 0 < nsum16 bs \<and> nsum16 bs mod 65535 = 0"
proof -
  let ?f = "unat (fold16 (sum16 bs 0))"
  have f: "?f < 2 ^ 16" "?f mod 65535 = nsum16 bs mod 65535" "?f = 0 \<longleftrightarrow> nsum16 bs = 0"
    using fold16_props [of "sum16 bs 0"] sum16_bound [OF assms] by simp_all
  have "ip_checksum bs = 0 \<longleftrightarrow> unat (ip_checksum bs) = 0" by (metis unsigned_eq_0_iff)
  also have "\<dots> \<longleftrightarrow> ?f = 65535" using f(1) by (auto simp: unat_ip_checksum [OF assms])
  also have "\<dots> \<longleftrightarrow> 0 < nsum16 bs \<and> nsum16 bs mod 65535 = 0"
  proof
    assume *: "0 < nsum16 bs \<and> nsum16 bs mod 65535 = 0"
    then have "65535 dvd ?f" "0 < ?f" using f by (auto simp: mod_eq_0_iff_dvd)
    then obtain k where k: "?f = 65535 * k" "0 < k" by (auto elim: dvdE)
    have "k = 1"
    proof (rule ccontr)
      assume "k \<noteq> 1"
      then have "2 \<le> k" using k(2) by simp
      then show False using k(1) f(1) by simp
    qed
    then show "?f = 65535" using k(1) by simp
  qed (use f in auto)
  finally show ?thesis .
qed

text \<open>Filling an even-placed, previously zero checksum field with the computed checksum makes the block verify.\<close>

lemma checksum_verifies:
  assumes "even (length xs)" "length xs + 2 + length ys < 2 ^ 17"
  shows "ip_checksum (xs @ le16 (ip_checksum (xs @ [0, 0] @ ys)) @ ys) = 0"
proof -
  let ?z = "xs @ [0, 0] @ ys" and ?c = "ip_checksum (xs @ [0, 0] @ ys)"
  have len: "length ?z < 2 ^ 17" "length (xs @ le16 ?c @ ys) < 2 ^ 17" using assms(2) by simp_all
  let ?f = "unat (fold16 (sum16 ?z 0))"
  have f: "?f < 2 ^ 16" "?f mod 65535 = nsum16 ?z mod 65535" "?f = 0 \<longleftrightarrow> nsum16 ?z = 0"
    using fold16_props [of "sum16 ?z 0"] sum16_bound [OF len(1)] by simp_all
  have le: "nsum16 (le16 c @ ys) = unat c + nsum16 ys" for c
  proof -
    have "of_le16 (le16 c) = c" using of_le16_le16 [of c "[]"] by simp
    then show ?thesis by (simp add: le16_def)
  qed
  have z: "nsum16 ?z = nsum16 xs + nsum16 ys"
    using assms(1) by (simp add: nsum16_append of_le16_def)
  have "nsum16 (xs @ le16 ?c @ ys) = nsum16 ?z + unat ?c"
    using assms(1) by (simp add: nsum16_append le z)
  also have c: "unat ?c = 65535 - ?f" by (rule unat_ip_checksum [OF len(1)])
  finally have sum: "nsum16 (xs @ le16 ?c @ ys) = nsum16 ?z + (65535 - ?f)" .
  have "0 < nsum16 ?z + (65535 - ?f)" using f by (cases "nsum16 ?z") auto
  moreover have "(nsum16 ?z + (65535 - ?f)) mod 65535 = 0"
  proof -
    have "(nsum16 ?z + (65535 - ?f)) mod 65535 = (?f + (65535 - ?f)) mod 65535"
      by (rule mod_add_cong [OF f(2) [symmetric] refl])
    also have "\<dots> = 0" using f(1) by simp
    finally show ?thesis .
  qed
  ultimately show ?thesis using ip_checksum_zero_iff [OF len(2)] sum by simp
qed

end
