(* ===== verification/Arp.thy ===== *)
theory Arp
  imports Net_State
begin

section \<open>Address resolution (src/kernel/arp.c)\<close>

text \<open>
  The ARP cache of 16 entries, replaced in rotation, the request and reply frames, and the handler
  of received ARP packets. A packet is the payload of the Ethernet frame.
\<close>

definition ARP_CACHE_SIZE :: nat where
  "ARP_CACHE_SIZE = 16"

definition arp_init :: "net \<Rightarrow> net" where
  "arp_init n = n\<lparr>arp_cache := replicate ARP_CACHE_SIZE (0, [0, 0, 0, 0, 0, 0])\<rparr>"

text \<open>Both loops stop at the first entry with the address.\<close>

fun arp_replace :: "u32 \<Rightarrow> u8 list \<Rightarrow> (u32 \<times> u8 list) list \<Rightarrow> (u32 \<times> u8 list) list option" where
  "arp_replace ip mac [] = None"
| "arp_replace ip mac ((i, m) # es) =
     (if i = ip then Some ((i, mac) # es) else map_option (Cons (i, m)) (arp_replace ip mac es))"

definition arp_update_cache :: "u32 \<Rightarrow> u8 list \<Rightarrow> net \<Rightarrow> net" where
  "arp_update_cache ip mac n =
     (case arp_replace ip mac (arp_cache n) of
        Some c \<Rightarrow> n\<lparr>arp_cache := c\<rparr>
      | None \<Rightarrow> n\<lparr>arp_cache := (arp_cache n)[arp_cache_next_idx n := (ip, mac)],
                 arp_cache_next_idx := (arp_cache_next_idx n + 1) mod ARP_CACHE_SIZE\<rparr>)"

fun arp_find :: "u32 \<Rightarrow> (u32 \<times> u8 list) list \<Rightarrow> u8 list option" where
  "arp_find ip [] = None"
| "arp_find ip ((i, m) # es) = (if i = ip then Some m else arp_find ip es)"

definition arp_lookup_mac :: "u32 \<Rightarrow> net \<Rightarrow> u8 list option" where
  "arp_lookup_mac ip n = arp_find ip (arp_cache n)"

text \<open>\<open>arp_packet_t\<close> for Ethernet and IPv4, with the byte swaps of its fields.\<close>

definition arp_packet :: "u16 \<Rightarrow> u8 list \<Rightarrow> u32 \<Rightarrow> u8 list \<Rightarrow> u32 \<Rightarrow> u8 list" where
  "arp_packet opcode sender_mac sender_ip target_mac target_ip =
     le16 (bswap16 1) @ le16 (bswap16 0x0800) @ [6, 4] @ le16 (bswap16 opcode)
       @ sender_mac @ le32 (bswap32 sender_ip) @ target_mac @ le32 (bswap32 target_ip)"

definition ARP_PACKET_SIZE :: nat where
  "ARP_PACKET_SIZE = 28"

definition arp_send_request :: "u32 \<Rightarrow> net \<Rightarrow> net" where
  "arp_send_request target_ip n =
     (case dev_mac n of
        None \<Rightarrow> n
      | Some mac \<Rightarrow>
          if \<not> kmalloc_ok n (14 + ARP_PACKET_SIZE) then n
          else send_packet (eth_header [0xFF, 0xFF, 0xFF, 0xFF, 0xFF, 0xFF] mac 0x0806
                 @ arp_packet 1 mac (local_ip n) [0, 0, 0, 0, 0, 0] target_ip) n)"

definition arp_handle_packet :: "u8 list \<Rightarrow> net \<Rightarrow> net option" where
  "arp_handle_packet packet n =
     (if length packet < ARP_PACKET_SIZE then Some n
      else do {
        hardware_type \<leftarrow> rd16 0 packet;
        protocol_type \<leftarrow> rd16 2 packet;
        hw_addr_len \<leftarrow> rd8 4 packet;
        pr_addr_len \<leftarrow> rd8 5 packet;
        if bswap16 hardware_type \<noteq> 1 \<or> bswap16 protocol_type \<noteq> 0x0800 \<or> hw_addr_len \<noteq> 6 \<or> pr_addr_len \<noteq> 4
        then Some n
        else do {
          opcode_be \<leftarrow> rd16 6 packet;
          sender_mac \<leftarrow> read_at 8 6 packet;
          sender_ip_be \<leftarrow> rd32 14 packet;
          target_ip_be \<leftarrow> rd32 24 packet;
          let sender_ip = bswap32 sender_ip_be;
              n1 = arp_update_cache sender_ip sender_mac n
          in if bswap16 opcode_be = 1 \<and> bswap32 target_ip_be = local_ip n1
             then (case dev_mac n1 of
                     None \<Rightarrow> Some n1
                   | Some mac \<Rightarrow>
                       if \<not> kmalloc_ok n1 (14 + ARP_PACKET_SIZE) then Some n1
                       else Some (send_packet (eth_header sender_mac mac 0x0806
                              @ arp_packet 2 mac (local_ip n1) sender_mac sender_ip) n1))
             else Some n1
        }
      })"

subsection \<open>The cache\<close>

lemma arp_replace_find:
  "arp_replace ip mac c = Some c' \<Longrightarrow> length c' = length c \<and> arp_find ip c' = Some mac
     \<and> (\<forall>j. j \<noteq> ip \<longrightarrow> arp_find j c' = arp_find j c)"
  by (induction c arbitrary: c') (auto split: if_splits)

lemma arp_replace_None: "arp_replace ip mac c = None \<longleftrightarrow> arp_find ip c = None"
  by (induction c) (auto split: if_splits)

lemma arp_find_None: "arp_find ip c = None \<longleftrightarrow> ip \<notin> fst ` set c"
  by (induction c) (force split: if_splits)+

lemma arp_find_update:
  "i < length c \<Longrightarrow> arp_find ip c = None \<Longrightarrow> arp_find ip (c[i := (ip, mac)]) = Some mac"
proof (induction c arbitrary: i)
  case (Cons e c)
  then show ?case by (cases e; cases i) (auto split: if_splits)
qed simp

definition arp_inv :: "net \<Rightarrow> bool" where
  "arp_inv n \<longleftrightarrow> length (arp_cache n) = ARP_CACHE_SIZE \<and> arp_cache_next_idx n < ARP_CACHE_SIZE"

lemma arp_update_cache_spec:
  assumes "arp_inv n"
  shows "arp_inv (arp_update_cache ip mac n) \<and> arp_lookup_mac ip (arp_update_cache ip mac n) = Some mac"
proof (cases "arp_replace ip mac (arp_cache n)")
  case None
  then have "arp_find ip (arp_cache n) = None" by (simp only: arp_replace_None)
  then show ?thesis using None assms arp_find_update [of "arp_cache_next_idx n" "arp_cache n" ip mac]
    by (simp add: arp_update_cache_def arp_inv_def arp_lookup_mac_def ARP_CACHE_SIZE_def)
next
  case (Some c)
  then show ?thesis using assms arp_replace_find [OF Some]
    by (simp add: arp_update_cache_def arp_inv_def arp_lookup_mac_def)
qed

lemma arp_update_cache_frame [simp]:
  "sent (arp_update_cache ip mac n) = sent n" "local_ip (arp_update_cache ip mac n) = local_ip n"
  "dev_mac (arp_update_cache ip mac n) = dev_mac n" "kmalloc_ok (arp_update_cache ip mac n) = kmalloc_ok n"
  by (simp_all add: arp_update_cache_def split: option.splits)

lemma arp_lookup_send_packet [simp]: "arp_lookup_mac ip (send_packet f n) = arp_lookup_mac ip n"
  by (simp add: arp_lookup_mac_def)

lemma arp_inv_init: "arp_cache_next_idx n < ARP_CACHE_SIZE \<Longrightarrow> arp_inv (arp_init n)"
  by (simp add: arp_inv_def arp_init_def)

subsection \<open>Handling a packet built by the sender\<close>

lemma length_arp_packet: "length sm = 6 \<Longrightarrow> length tm = 6 \<Longrightarrow> length (arp_packet op sm si tm ti) = 28"
  by (simp add: arp_packet_def)

lemma arp_handle_built:
  assumes "length sm = 6" "length tm = 6"
  shows "arp_handle_packet (arp_packet op sm si tm ti) n =
     (let n1 = arp_update_cache si sm n
      in if op = 1 \<and> ti = local_ip n
         then (case dev_mac n of
                 None \<Rightarrow> Some n1
               | Some mac \<Rightarrow>
                   if \<not> kmalloc_ok n (14 + ARP_PACKET_SIZE) then Some n1
                   else Some (send_packet (eth_header sm mac 0x0806 @ arp_packet 2 mac (local_ip n) sm si) n1))
         else Some n1)"
proof -
  let ?p = "arp_packet op sm si tm ti"
  have f: "rd16 0 ?p = Some (bswap16 1)" "rd16 2 ?p = Some (bswap16 0x0800)" "rd8 4 ?p = Some 6" "rd8 5 ?p = Some 4"
    "rd16 6 ?p = Some (bswap16 op)" "read_at 8 6 ?p = Some sm" "rd32 14 ?p = Some (bswap32 si)"
    using assms by (simp_all add: arp_packet_def byte_simps)
  have t: "rd32 24 ?p = Some (bswap32 ti)"
    using assms rd_here(3) [of "bswap32 ti" "[]"] by (simp add: arp_packet_def byte_simps)
  show ?thesis
    by (cases "dev_mac n") (simp_all add: arp_handle_packet_def length_arp_packet [OF assms] ARP_PACKET_SIZE_def f t Let_def)
qed

subsection \<open>Properties\<close>

text \<open>C7: one exchange resolves both ways. Host A asks for B's address; when B handles the request it
  answers A alone, and when A handles that answer each host's cache maps the other's IP address to
  the other's MAC address, and A sends nothing more.\<close>

theorem arp_resolution:
  assumes "dev_mac a = Some ma" "dev_mac b = Some mb" "length ma = 6" "length mb = 6"
    and "kmalloc_ok a (14 + ARP_PACKET_SIZE)" "kmalloc_ok b (14 + ARP_PACKET_SIZE)" "arp_inv a" "arp_inv b"
  shows "\<exists>q r b' a'.
     sent (arp_send_request (local_ip b) a) = sent a @ [eth_header [0xFF, 0xFF, 0xFF, 0xFF, 0xFF, 0xFF] ma 0x0806 @ q]
   \<and> arp_handle_packet q b = Some b' \<and> sent b' = sent b @ [eth_header ma mb 0x0806 @ r]
   \<and> arp_handle_packet r (arp_send_request (local_ip b) a) = Some a'
   \<and> arp_lookup_mac (local_ip a) b' = Some ma \<and> arp_lookup_mac (local_ip b) a' = Some mb
   \<and> sent a' = sent (arp_send_request (local_ip b) a)"
proof -
  let ?q = "arp_packet 1 ma (local_ip a) [0, 0, 0, 0, 0, 0] (local_ip b)"
  let ?r = "arp_packet 2 mb (local_ip b) ma (local_ip a)"
  let ?a1 = "arp_send_request (local_ip b) a"
  let ?b' = "send_packet (eth_header ma mb 0x0806 @ ?r) (arp_update_cache (local_ip a) ma b)"
  let ?a' = "arp_update_cache (local_ip b) mb ?a1"
  have a1: "?a1 = send_packet (eth_header [0xFF, 0xFF, 0xFF, 0xFF, 0xFF, 0xFF] ma 0x0806 @ ?q) a"
    using assms by (simp add: arp_send_request_def)
  have "arp_inv ?a1" using assms(7) unfolding a1 by (simp add: arp_inv_def send_packet_def)
  then have "arp_lookup_mac (local_ip b) ?a' = Some mb" using arp_update_cache_spec by blast
  moreover have "arp_lookup_mac (local_ip a) ?b' = Some ma" using arp_update_cache_spec [OF assms(8)] by simp
  moreover have "arp_handle_packet ?q b = Some ?b'"
    using arp_handle_built [of ma "[0, 0, 0, 0, 0, 0]" 1 "local_ip a" "local_ip b" b] assms by (simp add: Let_def)
  moreover have "arp_handle_packet ?r ?a1 = Some ?a'"
    using arp_handle_built [of mb ma 2 "local_ip b" "local_ip a" ?a1] assms by (simp add: Let_def)
  moreover have "sent ?a1 = sent a @ [eth_header [0xFF, 0xFF, 0xFF, 0xFF, 0xFF, 0xFF] ma 0x0806 @ ?q]"
    "sent ?a' = sent ?a1" "sent ?b' = sent b @ [eth_header ma mb 0x0806 @ ?r]" by (simp_all add: a1)
  ultimately show ?thesis by blast
qed

definition net_demo :: "u8 \<Rightarrow> u32 \<Rightarrow> net" where
  "net_demo m ip = \<lparr>dev_mac = Some [2, 0, 0, 0, 0, m], kmalloc_ok = (\<lambda>_. True), sent = [],
     arp_cache = replicate 16 (0, [0, 0, 0, 0, 0, 0]), arp_cache_next_idx = 0, local_ip = ip, subnet_mask = 0,
     default_gateway = 0, udp_handlers = [], active_sockets = [], next_sock = 0, woken = [],
     dhcp_state = DHCP_STATE_INIT, dhcp_local_ip = 0, dhcp_gateway_ip = 0, dhcp_subnet_mask = 0,
     dhcp_server_ip = 0, dhcp_xid = 0x12345678\<rparr>"

lemma arp_inv_demo: "arp_inv (net_demo m ip)"
  by (simp add: arp_inv_def net_demo_def ARP_CACHE_SIZE_def)

theorem arp_resolution_witness:
  "\<exists>q b'. arp_handle_packet q (net_demo 2 0x0A000002) = Some b'
     \<and> arp_lookup_mac 0x0A000001 b' = Some [2, 0, 0, 0, 0, 1]"
  using arp_resolution [of "net_demo 1 0x0A000001" "[2, 0, 0, 0, 0, 1]" "net_demo 2 0x0A000002" "[2, 0, 0, 0, 0, 2]",
      OF _ _ _ _ _ _ arp_inv_demo arp_inv_demo]
  by (auto simp: net_demo_def)

end
