(* ===== verification/Ip_Output.thy ===== *)
theory Ip_Output
  imports Arp
begin

section \<open>Sending: IP, ICMP and UDP output (src/kernel/ip.c, icmp.c, udp.c)\<close>

text \<open>
  Building and sending of IPv4 packets, ICMP echo requests and UDP datagrams. \<open>None\<close> is the null
  dereference of \<open>net_dev\<close> when no device is registered.
\<close>

definition ip_set_local_ip :: "u32 \<Rightarrow> net \<Rightarrow> net" where
  "ip_set_local_ip ip n = n\<lparr>local_ip := ip\<rparr>"

definition ip_set_subnet_mask :: "u32 \<Rightarrow> net \<Rightarrow> net" where
  "ip_set_subnet_mask m n = n\<lparr>subnet_mask := m\<rparr>"

definition ip_set_default_gateway :: "u32 \<Rightarrow> net \<Rightarrow> net" where
  "ip_set_default_gateway g n = n\<lparr>default_gateway := g\<rparr>"

definition ip_get_local_ip :: "net \<Rightarrow> u32" where
  "ip_get_local_ip n = local_ip n"

definition IPV4_HEADER_SIZE :: nat where
  "IPV4_HEADER_SIZE = 20"

text \<open>\<open>ipv4_header_t\<close> as \<open>ip_send_packet\<close> fills it; the 4-bit fields share the first byte.\<close>

definition ip_header :: "u16 \<Rightarrow> u8 \<Rightarrow> u16 \<Rightarrow> u32 \<Rightarrow> u32 \<Rightarrow> u8 list" where
  "ip_header total_length protocol checksum src dst =
     [0x45, 0] @ le16 (bswap16 total_length) @ le16 (bswap16 1) @ [0, 0] @ [64, protocol]
       @ le16 checksum @ le32 (bswap32 src) @ le32 (bswap32 dst)"

definition ip_packet :: "u32 \<Rightarrow> u32 \<Rightarrow> u8 \<Rightarrow> u8 list \<Rightarrow> u8 list" where
  "ip_packet src dst protocol payload =
     (let total = of_nat (IPV4_HEADER_SIZE + length payload);
          c = ip_checksum (ip_header total protocol 0 src dst)
      in ip_header total protocol c src dst @ payload)"

definition ip_send_packet :: "u32 \<Rightarrow> u8 \<Rightarrow> u8 list \<Rightarrow> net \<Rightarrow> net option" where
  "ip_send_packet dest_ip protocol payload n =
     (case (if dest_ip = 0xFFFFFFFF then Some [0xFF, 0xFF, 0xFF, 0xFF, 0xFF, 0xFF] else arp_lookup_mac dest_ip n) of
        None \<Rightarrow> Some (arp_send_request dest_ip n)
      | Some dest_mac \<Rightarrow>
          if \<not> kmalloc_ok n (14 + (IPV4_HEADER_SIZE + length payload)) then Some n
          else (case dev_mac n of
                  None \<Rightarrow> None
                | Some mac \<Rightarrow>
                    Some (send_packet (eth_header dest_mac mac 0x0800 @ ip_packet (local_ip n) dest_ip protocol payload) n)))"

subsection \<open>ICMP output\<close>

definition ICMP_ECHO_REPLY :: u8 where
  "ICMP_ECHO_REPLY = 0"

definition ICMP_ECHO_REQUEST :: u8 where
  "ICMP_ECHO_REQUEST = 8"

definition IP_PROTOCOL_ICMP :: u8 where
  "IP_PROTOCOL_ICMP = 1"

definition IP_PROTOCOL_TCP :: u8 where
  "IP_PROTOCOL_TCP = 6"

definition IP_PROTOCOL_UDP :: u8 where
  "IP_PROTOCOL_UDP = 17"

definition icmp_echo :: "u8 \<Rightarrow> u16 \<Rightarrow> u8 list \<Rightarrow> u8 list" where
  "icmp_echo t checksum rest = [t, 0] @ le16 checksum @ rest"

definition icmp_send_echo_request :: "u32 \<Rightarrow> u16 \<Rightarrow> u16 \<Rightarrow> u8 list \<Rightarrow> net \<Rightarrow> net option" where
  "icmp_send_echo_request dest_ip echo_id sequence data n =
     (if \<not> kmalloc_ok n (8 + length data) then Some n
      else let rest = le16 (bswap16 echo_id) @ le16 (bswap16 sequence) @ data;
               c = ip_checksum (icmp_echo ICMP_ECHO_REQUEST 0 rest)
           in ip_send_packet dest_ip IP_PROTOCOL_ICMP (icmp_echo ICMP_ECHO_REQUEST c rest) n)"

subsection \<open>UDP output\<close>

definition udp_packet :: "u16 \<Rightarrow> u16 \<Rightarrow> u8 list \<Rightarrow> u8 list" where
  "udp_packet src_port dest_port data =
     le16 (bswap16 src_port) @ le16 (bswap16 dest_port) @ le16 (bswap16 (of_nat (8 + length data))) @ le16 0 @ data"

definition udp_send_packet :: "u32 \<Rightarrow> u16 \<Rightarrow> u16 \<Rightarrow> u8 list \<Rightarrow> net \<Rightarrow> net option" where
  "udp_send_packet dest_ip src_port dest_port data n =
     (if \<not> kmalloc_ok n (8 + length data) then Some n
      else ip_send_packet dest_ip IP_PROTOCOL_UDP (udp_packet src_port dest_port data) n)"

subsection \<open>Fields of the packets built\<close>

lemma length_ip_header [simp]: "length (ip_header t p c s d) = 20"
  by (simp add: ip_header_def)

lemma ip_header_fields:
  "rd8 0 (ip_header t p c s d @ xs) = Some 0x45"
  "rd16 2 (ip_header t p c s d @ xs) = Some (bswap16 t)"
  "rd8 9 (ip_header t p c s d @ xs) = Some p"
  "rd32 12 (ip_header t p c s d @ xs) = Some (bswap32 s)"
  "rd32 16 (ip_header t p c s d @ xs) = Some (bswap32 d)"
  by (simp_all add: ip_header_def byte_simps)

lemma ip_header_checksum: "ip_checksum (ip_header t p (ip_checksum (ip_header t p 0 s d)) s d) = 0"
proof -
  let ?xs = "[0x45, 0] @ le16 (bswap16 t) @ le16 (bswap16 1) @ [0, 0] @ [64, p]"
  have "le16 0 = [0, 0]" by (simp add: le16_def)
  then show ?thesis
    using checksum_verifies [of ?xs "le32 (bswap32 s) @ le32 (bswap32 d)"] by (simp add: ip_header_def)
qed

lemma icmp_echo_checksum:
  "length rest < 2 ^ 16 \<Longrightarrow> ip_checksum (icmp_echo t (ip_checksum (icmp_echo t 0 rest)) rest) = 0"
proof -
  assume "length rest < 2 ^ 16"
  moreover have "le16 0 = [0, 0]" by (simp add: le16_def)
  ultimately show ?thesis using checksum_verifies [of "[t, 0]" rest] by (simp add: icmp_echo_def)
qed

lemma udp_packet_fields:
  "rd16 0 (udp_packet s d data) = Some (bswap16 s)"
  "rd16 2 (udp_packet s d data) = Some (bswap16 d)"
  "rd16 4 (udp_packet s d data) = Some (bswap16 (of_nat (8 + length data)))"
  "drop 8 (udp_packet s d data) = data" "length (udp_packet s d data) = 8 + length data"
  by (simp_all add: udp_packet_def byte_simps)

end
