(* ===== verification/Dhcp.thy ===== *)
theory Dhcp
  imports Ip_Output
begin

section \<open>DHCP client (src/kernel/dhcp.c)\<close>

text \<open>
  The client state machine INIT, SELECTING, REQUESTING, BOUND, its two messages, and the handler of
  server messages with its option scans. Addresses are kept as the packet stores them (the model's
  \<open>dhcp_local_ip\<close> is the value read from \<open>yiaddr\<close> without a byte swap, as in the code).
\<close>

definition DHCP_PACKET_SIZE :: nat where
  "DHCP_PACKET_SIZE = 552"

text \<open>\<open>dhcp_packet_t\<close> of a client message: the fields the code sets, every other byte zero.\<close>

definition dhcp_packet :: "u32 \<Rightarrow> u8 list \<Rightarrow> u8 list \<Rightarrow> u8 list" where
  "dhcp_packet xid mac options =
     [1, 1, 6, 0] @ le32 (bswap32 xid) @ le16 0 @ le16 (bswap16 0x8000)
       @ le32 0 @ le32 0 @ le32 0 @ le32 0 @ (mac @ replicate 10 0) @ replicate 64 0 @ replicate 128 0
       @ le32 (bswap32 0x63825363) @ options @ replicate (312 - length options) 0"

definition dhcp_send_discover :: "net \<Rightarrow> net option" where
  "dhcp_send_discover n =
     (case dev_mac n of
        None \<Rightarrow> None
      | Some mac \<Rightarrow> udp_send_packet 0xFFFFFFFF 68 67
          (dhcp_packet (dhcp_xid n) mac [53, 1, 1, 55, 3, 1, 3, 6, 255]) n)"

definition dhcp_client_start :: "net \<Rightarrow> net option" where
  "dhcp_client_start n =
     (if dhcp_state n = DHCP_STATE_INIT
      then do { n' \<leftarrow> dhcp_send_discover n; Some (n'\<lparr>dhcp_state := DHCP_STATE_SELECTING\<rparr>) }
      else Some n)"

definition dhcp_request_options :: "u32 \<Rightarrow> u32 \<Rightarrow> u8 list" where
  "dhcp_request_options ip server =
     [53, 1, 3] @ [50, 4] @ le32 ip @ (if server \<noteq> 0 then [54, 4] @ le32 server else []) @ [255]"

definition dhcp_send_request :: "net \<Rightarrow> net option" where
  "dhcp_send_request n =
     (case dev_mac n of
        None \<Rightarrow> None
      | Some mac \<Rightarrow> udp_send_packet 0xFFFFFFFF 68 67
          (dhcp_packet (dhcp_xid n) mac (dhcp_request_options (dhcp_local_ip n) (dhcp_server_ip n))) n)"

text \<open>
  One scan of the options from byte \<open>i\<close> of \<open>data\<close> on: \<open>f\<close> is applied to the state at each option until
  it says to stop. The loop ends at \<open>data + len\<close> or at the end option; the option's length byte is
  read before it is checked to lie inside.
\<close>

function dhcp_scan :: "(u8 \<Rightarrow> nat \<Rightarrow> 's \<Rightarrow> (bool \<times> 's) option) \<Rightarrow> u8 list \<Rightarrow> u64 \<Rightarrow> nat \<Rightarrow> 's \<Rightarrow> 's option" where
  "dhcp_scan f data len i s =
     (if i < unat len
      then (if i < length data
            then if data ! i = 255 then Some s
                 else do {
                   (stop, s') \<leftarrow> f (data ! i) i s;
                   if stop then Some s'
                   else do { l \<leftarrow> rd8 (i + 1) data; dhcp_scan f data len (i + (unat l + 2)) s' } }
            else None)
      else Some s)"
  by pat_completeness auto
termination
  by (relation "measure (\<lambda>(f, data, len, i, s). length data - i)") auto

declare dhcp_scan.simps [simp del]

definition dhcp_msg_type :: "u8 list \<Rightarrow> u64 \<Rightarrow> u8 option" where
  "dhcp_msg_type data len =
     dhcp_scan (\<lambda>opt i t. if opt = 53 then do { v \<leftarrow> rd8 (i + 2) data; Some (True, v) } else Some (False, t))
       data len 240 0"

definition dhcp_find_server :: "u8 list \<Rightarrow> u64 \<Rightarrow> u32 \<Rightarrow> u32 option" where
  "dhcp_find_server data len server =
     dhcp_scan (\<lambda>opt i s. if opt = 54 then do { v \<leftarrow> rd32 (i + 2) data; Some (True, v) } else Some (False, s))
       data len 240 server"

definition dhcp_config :: "u8 list \<Rightarrow> u64 \<Rightarrow> net \<Rightarrow> net option" where
  "dhcp_config data len n =
     dhcp_scan (\<lambda>opt i n.
         if opt = 1 then do { v \<leftarrow> rd32 (i + 2) data; Some (False, ip_set_subnet_mask v (n\<lparr>dhcp_subnet_mask := v\<rparr>)) }
         else if opt = 3 then do { v \<leftarrow> rd32 (i + 2) data; Some (False, ip_set_default_gateway v (n\<lparr>dhcp_gateway_ip := v\<rparr>)) }
         else Some (False, n))
       data len 240 n"

definition dhcp_handle_packet :: "u8 list \<Rightarrow> u64 \<Rightarrow> net \<Rightarrow> net option" where
  "dhcp_handle_packet data len n =
     (if len < 240 then Some n
      else do {
        op \<leftarrow> rd8 0 data;
        xid \<leftarrow> rd32 4 data;
        if op \<noteq> 2 \<or> xid \<noteq> bswap32 (dhcp_xid n) then Some n
        else do {
          msg_type \<leftarrow> dhcp_msg_type data len;
          if dhcp_state n = DHCP_STATE_SELECTING \<and> msg_type = 2
          then do {
            yiaddr \<leftarrow> rd32 16 data;
            server \<leftarrow> dhcp_find_server data len (dhcp_server_ip n);
            dhcp_send_request (n\<lparr>dhcp_local_ip := yiaddr, dhcp_server_ip := server, dhcp_state := DHCP_STATE_REQUESTING\<rparr>) }
          else if dhcp_state n = DHCP_STATE_REQUESTING \<and> msg_type = 5
          then do {
            yiaddr \<leftarrow> rd32 16 data;
            n' \<leftarrow> dhcp_config data len (ip_set_local_ip yiaddr (n\<lparr>dhcp_local_ip := yiaddr\<rparr>));
            Some (n'\<lparr>dhcp_state := DHCP_STATE_BOUND\<rparr>) }
          else Some n } })"

definition dhcp_get_local_ip :: "net \<Rightarrow> u32" where
  "dhcp_get_local_ip n = dhcp_local_ip n"

definition dhcp_get_gateway_ip :: "net \<Rightarrow> u32" where
  "dhcp_get_gateway_ip n = dhcp_gateway_ip n"

definition dhcp_get_subnet_mask :: "net \<Rightarrow> u32" where
  "dhcp_get_subnet_mask n = dhcp_subnet_mask n"

subsection \<open>Scanning options\<close>

text \<open>A server message: the fields the client reads, then the options.\<close>

definition dhcp_reply :: "u32 \<Rightarrow> u32 \<Rightarrow> u8 list \<Rightarrow> u8 list" where
  "dhcp_reply xid yiaddr options =
     ([2, 1, 6, 0] @ le32 (bswap32 xid) @ replicate 8 0 @ le32 yiaddr @ replicate 220 0) @ options"

lemma dhcp_reply_fields:
  "rd8 0 (dhcp_reply x y opts) = Some 2" "rd32 4 (dhcp_reply x y opts) = Some (bswap32 x)"
  "rd32 16 (dhcp_reply x y opts) = Some y" "length (dhcp_reply x y opts) = 240 + length opts"
  by (simp_all add: dhcp_reply_def byte_simps)

lemma dhcp_reply_opts:
  "dhcp_reply x y opts ! (240 + k) = opts ! k"
  "rd8 (240 + k) (dhcp_reply x y opts) = rd8 k opts"
  "rd32 (240 + k) (dhcp_reply x y opts) = rd32 k opts"
proof -
  let ?h = "[2, 1, 6, 0] @ le32 (bswap32 x) @ replicate 8 0 @ le32 y @ replicate 220 0"
  have h: "length ?h = 240" by simp
  show "dhcp_reply x y opts ! (240 + k) = opts ! k"
    unfolding dhcp_reply_def by (subst nth_append) (simp add: h del: append_assoc)
  show "rd8 (240 + k) (dhcp_reply x y opts) = rd8 k opts" "rd32 (240 + k) (dhcp_reply x y opts) = rd32 k opts"
    unfolding dhcp_reply_def using rd_skip(1,3) [of ?h "240 + k" opts] h by simp_all
qed

lemma scan_end:
  "i < unat len \<Longrightarrow> i < length data \<Longrightarrow> data ! i = 255 \<Longrightarrow> dhcp_scan f data len i s = Some s"
  by (simp add: dhcp_scan.simps [of f data len i s])

lemma scan_stop:
  "i < unat len \<Longrightarrow> i < length data \<Longrightarrow> data ! i \<noteq> 255 \<Longrightarrow> f (data ! i) i s = Some (True, s')
   \<Longrightarrow> dhcp_scan f data len i s = Some s'"
  by (simp add: dhcp_scan.simps [of f data len i s])

lemma scan_next:
  "i < unat len \<Longrightarrow> i < length data \<Longrightarrow> data ! i \<noteq> 255 \<Longrightarrow> f (data ! i) i s = Some (False, s')
   \<Longrightarrow> rd8 (i + 1) data = Some l \<Longrightarrow> dhcp_scan f data len i s = dhcp_scan f data len (i + (unat l + 2)) s'"
  by (simp add: dhcp_scan.simps [of f data len i s])

lemma rd32_le32: "rd32 0 (le32 x) = Some x"
  using rd_here(3) [of x "[]"] by simp

definition offer_options :: "u32 \<Rightarrow> u8 list" where
  "offer_options server = [53, 1, 2, 54, 4] @ le32 server @ [255]"

definition ack_options :: "u32 \<Rightarrow> u32 \<Rightarrow> u8 list" where
  "ack_options msk gw = [53, 1, 5, 1, 4] @ le32 msk @ [3, 4] @ le32 gw @ [255]"

lemma offer_scan:
  assumes "data = dhcp_reply x y (offer_options server)" "len = of_nat (length data)"
  shows "dhcp_msg_type data len = Some 2" "dhcp_find_server data len s0 = Some server"
proof -
  have len: "length data = 250" "unat len = 250" using assms by (simp_all add: dhcp_reply_fields offer_options_def)
  have o: "data ! 240 = 53" "rd8 241 data = Some 1" "rd8 242 data = Some 2" "data ! 243 = 54" "rd32 245 data = Some server"
    using dhcp_reply_opts(1) [of x y "offer_options server" 0] dhcp_reply_opts(1) [of x y "offer_options server" 3]
      dhcp_reply_opts(2) [of 1 x y "offer_options server"] dhcp_reply_opts(2) [of 2 x y "offer_options server"]
      dhcp_reply_opts(3) [of 5 x y "offer_options server"]
    by (simp_all add: assms(1) offer_options_def byte_simps)
  show "dhcp_msg_type data len = Some 2"
    unfolding dhcp_msg_type_def by (rule scan_stop) (simp_all add: len o)
  show "dhcp_find_server data len s0 = Some server"
    unfolding dhcp_find_server_def
    by (subst scan_next [where l = 1 and s' = s0], simp_all add: len o, rule scan_stop, simp_all add: len o)
qed

lemma ack_scan:
  assumes "data = dhcp_reply x y (ack_options msk gw)" "len = of_nat (length data)"
  shows "dhcp_msg_type data len = Some 5"
    "dhcp_config data len n = Some (ip_set_default_gateway gw ((ip_set_subnet_mask msk (n\<lparr>dhcp_subnet_mask := msk\<rparr>))\<lparr>dhcp_gateway_ip := gw\<rparr>))"
proof -
  have len: "length data = 256" "unat len = 256" using assms by (simp_all add: dhcp_reply_fields ack_options_def)
  have o: "data ! 240 = 53" "rd8 241 data = Some 1" "rd8 242 data = Some 5" "data ! 243 = 1" "rd8 244 data = Some 4"
      "rd32 245 data = Some msk" "data ! 249 = 3" "rd8 250 data = Some 4" "rd32 251 data = Some gw" "data ! 255 = 255"
    using dhcp_reply_opts(1) [of x y "ack_options msk gw" 0] dhcp_reply_opts(1) [of x y "ack_options msk gw" 3]
      dhcp_reply_opts(1) [of x y "ack_options msk gw" 9] dhcp_reply_opts(1) [of x y "ack_options msk gw" 15]
      dhcp_reply_opts(2) [of 1 x y "ack_options msk gw"] dhcp_reply_opts(2) [of 2 x y "ack_options msk gw"]
      dhcp_reply_opts(2) [of 4 x y "ack_options msk gw"] dhcp_reply_opts(2) [of 10 x y "ack_options msk gw"]
      dhcp_reply_opts(3) [of 5 x y "ack_options msk gw"] dhcp_reply_opts(3) [of 11 x y "ack_options msk gw"]
    by (simp_all add: assms(1) ack_options_def byte_simps nth_append)
  show "dhcp_msg_type data len = Some 5"
    unfolding dhcp_msg_type_def by (rule scan_stop) (simp_all add: len o)
  show "dhcp_config data len n = Some (ip_set_default_gateway gw ((ip_set_subnet_mask msk (n\<lparr>dhcp_subnet_mask := msk\<rparr>))\<lparr>dhcp_gateway_ip := gw\<rparr>))"
    unfolding dhcp_config_def
    by (subst scan_next [where l = 1 and s' = n], simp_all add: len o,
        subst scan_next [where l = 4], simp_all add: len o,
        subst scan_next [where l = 4], simp_all add: len o, rule scan_end, simp_all add: len o)
qed

lemma dhcp_handle_reply:
  assumes "data = dhcp_reply (dhcp_xid n) yi opts" "len = of_nat (length data)" "length opts < 1000"
    "dhcp_msg_type data len = Some t"
  shows "dhcp_handle_packet data len n =
     (if dhcp_state n = DHCP_STATE_SELECTING \<and> t = 2
      then do { server \<leftarrow> dhcp_find_server data len (dhcp_server_ip n);
                dhcp_send_request (n\<lparr>dhcp_local_ip := yi, dhcp_server_ip := server, dhcp_state := DHCP_STATE_REQUESTING\<rparr>) }
      else if dhcp_state n = DHCP_STATE_REQUESTING \<and> t = 5
      then do { n' \<leftarrow> dhcp_config data len (ip_set_local_ip yi (n\<lparr>dhcp_local_ip := yi\<rparr>));
                Some (n'\<lparr>dhcp_state := DHCP_STATE_BOUND\<rparr>) }
      else Some n)"
proof -
  have "unat len = 240 + length opts"
    using assms(1-3) by (simp only: dhcp_reply_fields unat_of_nat) simp
  then have "\<not> len < 240" by (simp add: word_less_nat_alt)
  then show ?thesis using assms(4) unfolding assms(1) by (simp add: dhcp_handle_packet_def dhcp_reply_fields)
qed

lemma dhcp_send_ok:
  assumes "dev_mac n = Some mac" "\<forall>k. kmalloc_ok n k"
  shows "udp_send_packet 0xFFFFFFFF 68 67 d n = Some (send_packet (eth_header [0xFF, 0xFF, 0xFF, 0xFF, 0xFF, 0xFF] mac 0x0800
           @ ip_packet (local_ip n) 0xFFFFFFFF IP_PROTOCOL_UDP (udp_packet 68 67 d)) n)"
  using assms by (simp add: udp_send_packet_def ip_send_packet_def)

definition dhcp_frame :: "net \<Rightarrow> u8 list \<Rightarrow> u8 list \<Rightarrow> u8 list" where
  "dhcp_frame n mac options = eth_header [0xFF, 0xFF, 0xFF, 0xFF, 0xFF, 0xFF] mac 0x0800
     @ ip_packet (local_ip n) 0xFFFFFFFF IP_PROTOCOL_UDP (udp_packet 68 67 (dhcp_packet (dhcp_xid n) mac options))"

subsection \<open>Properties\<close>



end
