(* ===== verification/Socket.thy ===== *)
theory Socket
  imports Dhcp
begin

section \<open>Sockets and the UDP handler table (src/kernel/socket.c, udp.c)\<close>

text \<open>
  The list of active sockets, newest first, with the receive buffer of each UDP socket, and the
  handler table of the UDP layer. A socket pointer is the socket's identity. \<open>sock_recv\<close> is modelled
  up to the point where it blocks; \<open>sock_recv_wake\<close> is what it does when it is scheduled again.
\<close>

definition AF_INET :: int where
  "AF_INET = 2"

definition IPPROTO_UDP :: int where
  "IPPROTO_UDP = 17"

definition IPPROTO_TCP :: int where
  "IPPROTO_TCP = 6"

definition UDP_MAX_HANDLERS :: nat where
  "UDP_MAX_HANDLERS = 64"

definition udp_init :: "net \<Rightarrow> net" where
  "udp_init n = n\<lparr>udp_handlers := []\<rparr>"

definition udp_register_handler :: "u16 \<Rightarrow> udp_handler_t \<Rightarrow> net \<Rightarrow> net" where
  "udp_register_handler port h n =
     (if length (udp_handlers n) < UDP_MAX_HANDLERS then n\<lparr>udp_handlers := udp_handlers n @ [(port, h)]\<rparr> else n)"

fun find_sock :: "nat \<Rightarrow> socket_t list \<Rightarrow> socket_t option" where
  "find_sock i [] = None"
| "find_sock i (s # ss) = (if sock_id s = i then Some s else find_sock i ss)"

definition set_sock :: "socket_t \<Rightarrow> net \<Rightarrow> net" where
  "set_sock s n = n\<lparr>active_sockets := map (\<lambda>t. if sock_id t = sock_id s then s else t) (active_sockets n)\<rparr>"

subsection \<open>Receiving a datagram\<close>

fun sock_for_port :: "u16 \<Rightarrow> socket_t list \<Rightarrow> socket_t option" where
  "sock_for_port port [] = None"
| "sock_for_port port (s # ss) =
     (if sock_protocol s = IPPROTO_UDP \<and> sin_port (local_addr s) = port then Some s else sock_for_port port ss)"

text \<open>\<open>port\<close> is \<open>udp_hdr->dest_port\<close> as stored (network order); \<open>data\<close> the bytes after the UDP header.\<close>

definition sock_udp_receive_packet_handler :: "u16 \<Rightarrow> u8 list \<Rightarrow> u64 \<Rightarrow> net \<Rightarrow> net option" where
  "sock_udp_receive_packet_handler port data len n =
     (if bswap16 port = 68 \<or> bswap16 port = 67 then dhcp_handle_packet data len n
      else (case sock_for_port port (active_sockets n) of
              None \<Rightarrow> Some n
            | Some s \<Rightarrow>
                if unat len > length (recv_buffer s) - recv_data_len s then Some n
                else do {
                  bytes \<leftarrow> read_at 0 (unat len) data;
                  b \<leftarrow> write_at (recv_data_len s) bytes (recv_buffer s);
                  let n1 = set_sock (s\<lparr>recv_buffer := b, recv_data_len := recv_data_len s + unat len,
                                      waiting_thread := None\<rparr>) n
                  in Some (case waiting_thread s of None \<Rightarrow> n1 | Some t \<Rightarrow> n1\<lparr>woken := t # woken n1\<rparr>) }))"

text \<open>\<open>payload_size\<close> comes from the IP header; subtracting the header size can wrap.\<close>

definition sock_handle_incoming_packet :: "u8 list \<Rightarrow> u64 \<Rightarrow> u8 \<Rightarrow> net \<Rightarrow> net option" where
  "sock_handle_incoming_packet payload payload_size protocol n =
     (if protocol = IP_PROTOCOL_UDP
      then do {
        port \<leftarrow> rd16 2 payload;
        sock_udp_receive_packet_handler port (drop 8 payload) (payload_size - 8) n }
      else Some n)"

text \<open>The UDP layer's own dispatch (reached only through the IP handler table).\<close>

definition udp_handle_packet :: "u8 list \<Rightarrow> net \<Rightarrow> net option" where
  "udp_handle_packet packet n =
     (if length packet < 8 then Some n
      else do {
        dport \<leftarrow> rd16 2 packet;
        l \<leftarrow> rd16 4 packet;
        if unat (bswap16 l) > length packet then Some n
        else if bswap16 dport \<in> fst ` set (udp_handlers n)
             then sock_udp_receive_packet_handler dport (drop 8 packet) (ucast (bswap16 l) - 8) n
             else Some n })"

subsection \<open>System call interface\<close>

text \<open>\<open>sizeof(socket_t)\<close>.\<close>

definition SOCKET_SIZE :: nat where
  "SOCKET_SIZE = 136"

definition no_addr :: sockaddr_in where
  "no_addr = \<lparr>sin_family = 0, sin_port = 0, sin_addr = 0\<rparr>"

definition sock_create :: "int \<Rightarrow> int \<Rightarrow> int \<Rightarrow> net \<Rightarrow> nat option \<times> net" where
  "sock_create domain type protocol n =
     (if domain \<noteq> AF_INET then (None, n)
      else if type \<noteq> 1 \<and> type \<noteq> 2 then (None, n)
      else if protocol \<noteq> IPPROTO_UDP \<and> protocol \<noteq> IPPROTO_TCP then (None, n)
      else if \<not> kmalloc_ok n SOCKET_SIZE then (None, n)
      else if protocol = IPPROTO_UDP \<and> \<not> kmalloc_ok n 4096 then (None, n)
      else let s = \<lparr>sock_id = next_sock n, sock_domain = domain, sock_type = type, sock_protocol = protocol,
                    sock_state = SOCK_STATE_CLOSED, local_addr = no_addr, remote_addr = no_addr,
                    recv_buffer = (if protocol = IPPROTO_UDP then replicate 4096 0 else []),
                    recv_data_len = 0, recv_read_idx = 0, waiting_thread = None\<rparr>
           in (Some (next_sock n), n\<lparr>active_sockets := s # active_sockets n, next_sock := next_sock n + 1\<rparr>))"

definition sock_connect :: "socket_t option \<Rightarrow> sockaddr_in option \<Rightarrow> net \<Rightarrow> int \<times> net" where
  "sock_connect sock addr n =
     (case (sock, addr) of
        (Some s, Some a) \<Rightarrow>
          if sock_domain s \<noteq> AF_INET \<or> sin_family a \<noteq> 2 then (-1, n)
          else if sock_protocol s = IPPROTO_UDP
               then (0, set_sock (s\<lparr>remote_addr := a, sock_state := SOCK_STATE_CONNECTED\<rparr>) n)
               else (-1, n)
      | _ \<Rightarrow> (-1, n))"

text \<open>The port and address of \<open>sockaddr_in\<close> are in network order, but \<open>udp_send_packet\<close> expects host order.\<close>

definition sock_send :: "socket_t option \<Rightarrow> u8 list option \<Rightarrow> net \<Rightarrow> (int \<times> net) option" where
  "sock_send sock buf n =
     (case (sock, buf) of
        (Some s, Some b) \<Rightarrow>
          if b = [] then Some (-1, n)
          else if sock_protocol s = IPPROTO_UDP
               then if sock_state s \<noteq> SOCK_STATE_CONNECTED then Some (-1, n)
                    else if dev_mac n = None then Some (-1, n)
                    else do {
                      n' \<leftarrow> udp_send_packet (sin_addr (remote_addr s)) (sin_port (local_addr s)) (sin_port (remote_addr s)) b n;
                      Some (int (length b), n') }
               else Some (-1, n)
      | _ \<Rightarrow> Some (-1, n))"

datatype recv_result = Recv_error | Recv_blocked | Recv_data "u8 list"

definition sock_recv :: "nat \<Rightarrow> socket_t option \<Rightarrow> nat \<Rightarrow> net \<Rightarrow> (recv_result \<times> net) option" where
  "sock_recv thread sock len n =
     (case sock of
        None \<Rightarrow> Some (Recv_error, n)
      | Some s \<Rightarrow>
          if len = 0 then Some (Recv_error, n)
          else if sock_protocol s = IPPROTO_UDP
          then if sock_state s = SOCK_STATE_CLOSED then Some (Recv_error, n)
               else if recv_data_len s = 0 then Some (Recv_blocked, set_sock (s\<lparr>waiting_thread := Some thread\<rparr>) n)
               else let c = (if len > recv_data_len s then recv_data_len s else len)
                    in do {
                      out \<leftarrow> read_at (recv_read_idx s) c (recv_buffer s);
                      let left = recv_data_len s - c
                      in Some (Recv_data out,
                               set_sock (s\<lparr>recv_data_len := left,
                                          recv_read_idx := (if left = 0 then 0 else recv_read_idx s + c)\<rparr>) n) }
          else Some (Recv_error, n))"

definition sock_recv_wake :: "nat \<Rightarrow> socket_t \<Rightarrow> nat \<Rightarrow> net \<Rightarrow> (recv_result \<times> net) option" where
  "sock_recv_wake thread s len n =
     (let s' = s\<lparr>waiting_thread := None\<rparr> in sock_recv thread (Some s') len (set_sock s' n))"

fun remove_sock :: "nat \<Rightarrow> socket_t list \<Rightarrow> socket_t list" where
  "remove_sock i [] = []"
| "remove_sock i (s # ss) = (if sock_id s = i then ss else s # remove_sock i ss)"

definition sock_close :: "socket_t option \<Rightarrow> net \<Rightarrow> int \<times> net" where
  "sock_close sock n =
     (case sock of None \<Rightarrow> (-1, n)
      | Some s \<Rightarrow> (0, n\<lparr>active_sockets := remove_sock (sock_id s) (active_sockets n)\<rparr>))"

definition sock_bind :: "socket_t option \<Rightarrow> sockaddr_in option \<Rightarrow> net \<Rightarrow> int \<times> net" where
  "sock_bind sock addr n =
     (case (sock, addr) of
        (Some s, Some a) \<Rightarrow>
          if sock_protocol s = IPPROTO_UDP
          then if \<exists>t\<in>set (active_sockets n). sock_id t \<noteq> sock_id s \<and> sock_protocol t = IPPROTO_UDP
                     \<and> sin_port (local_addr t) = sin_port a
               then (-1, n)
               else (0, udp_register_handler (bswap16 (sin_port a)) Sock_udp_receive
                          (set_sock (s\<lparr>local_addr := a, sock_state := SOCK_STATE_BOUND\<rparr>) n))
          else (-1, n)
      | _ \<Rightarrow> (-1, n))"

definition sock_listen :: "socket_t option \<Rightarrow> int \<Rightarrow> int" where
  "sock_listen sock backlog = -1"

definition sock_accept :: "socket_t option \<Rightarrow> nat option" where
  "sock_accept sock = None"

end
