(* ===== verification/Ip_Input.thy ===== *)
theory Ip_Input
  imports Socket
begin

section \<open>Receiving: Ethernet, IP and ICMP input (src/kernel/e1000.c, ip.c, icmp.c)\<close>

text \<open>
  From a received frame to the protocol handlers: the EtherType switch of the driver's interrupt
  handler, \<open>ip_handle_packet\<close> with its drop rules, and \<open>icmp_handle_packet\<close>.
\<close>

text \<open>\<open>src_ip\<close> is the field of the IP header as stored.\<close>

definition icmp_handle_packet :: "u32 \<Rightarrow> u8 list \<Rightarrow> u64 \<Rightarrow> net \<Rightarrow> net option" where
  "icmp_handle_packet src_ip payload payload_size n =
     (if payload_size < 8 then Some n
      else do {
        p \<leftarrow> read_at 0 (unat payload_size) payload;
        if ip_checksum p \<noteq> 0 then Some n
        else do {
          t \<leftarrow> rd8 0 p;
          if t = ICMP_ECHO_REQUEST
          then if \<not> kmalloc_ok n (unat payload_size) then Some n
               else do {
                 r0 \<leftarrow> write_at 0 [ICMP_ECHO_REPLY] p;
                 r1 \<leftarrow> write_at 2 (le16 0) r0;
                 r2 \<leftarrow> write_at 2 (le16 (ip_checksum r1)) r1;
                 ip_send_packet (bswap32 src_ip) IP_PROTOCOL_ICMP r2 n }
          else Some n } })"

definition ip_handle_packet :: "u8 list \<Rightarrow> net \<Rightarrow> net option" where
  "ip_handle_packet packet n =
     (if length packet < IPV4_HEADER_SIZE then Some n
      else do {
        b0 \<leftarrow> rd8 0 packet;
        let ihl = b0 AND 0xF; version = drop_bit 4 b0; ip_hdr_len = unat ihl * 4
        in if version \<noteq> 4 then Some n
           else if ihl < 5 then Some n
           else do {
             hdr \<leftarrow> read_at 0 ip_hdr_len packet;
             if ip_checksum hdr \<noteq> 0 then Some n
             else do {
               dest_be \<leftarrow> rd32 16 packet;
               if bswap32 dest_be \<noteq> local_ip n \<and> bswap32 dest_be \<noteq> 0xFFFFFFFF then Some n
               else do {
                 protocol \<leftarrow> rd8 9 packet;
                 total_be \<leftarrow> rd16 2 packet;
                 src_be \<leftarrow> rd32 12 packet;
                 let payload = drop ip_hdr_len packet;
                     payload_size = ucast (bswap16 total_be) - of_nat ip_hdr_len
                 in if protocol = IP_PROTOCOL_ICMP then icmp_handle_packet src_be payload payload_size n
                    else if protocol = IP_PROTOCOL_UDP \<or> protocol = IP_PROTOCOL_TCP
                    then sock_handle_incoming_packet payload payload_size protocol n
                    else Some n } } } })"

definition net_receive :: "u8 list \<Rightarrow> net \<Rightarrow> net option" where
  "net_receive frame n =
     (if length frame > 14
      then do {
        t \<leftarrow> rd16 12 frame;
        if bswap16 t = 0x0806 then arp_handle_packet (drop 14 frame) n
        else if bswap16 t = 0x0800 then ip_handle_packet (drop 14 frame) n
        else Some n }
      else Some n)"

subsection \<open>A packet built by \<open>ip_send_packet\<close> at its destination\<close>

lemma eth_header_type: "length d = 6 \<Longrightarrow> length s = 6 \<Longrightarrow> rd16 12 (eth_header d s t @ xs) = Some (bswap16 t)"
  by (simp add: eth_header_def byte_simps)

lemma length_eth_header: "length d = 6 \<Longrightarrow> length s = 6 \<Longrightarrow> length (eth_header d s t) = 14"
  by (simp add: eth_header_def)

lemma ihl_version: "(0x45 :: u8) AND 0xF = 5" "drop_bit 4 (0x45 :: u8) = 4"
  by code_simp+

text \<open>What the receiver's IP layer does with it: the handler of the protocol gets exactly the payload sent.\<close>

lemma ip_handle_built:
  assumes "length payload < 2 ^ 16 - 20" "dst = local_ip n \<or> dst = 0xFFFFFFFF"
  shows "ip_handle_packet (ip_packet src dst protocol payload) n =
     (if protocol = IP_PROTOCOL_ICMP then icmp_handle_packet (bswap32 src) payload (of_nat (length payload)) n
      else if protocol = IP_PROTOCOL_UDP \<or> protocol = IP_PROTOCOL_TCP
      then sock_handle_incoming_packet payload (of_nat (length payload)) protocol n else Some n)"
proof -
  define t where "t = (of_nat (20 + length payload) :: u16)"
  define c where "c = ip_checksum (ip_header t protocol 0 src dst)"
  let ?h = "ip_header t protocol c src dst" and ?p = "ip_packet src dst protocol payload"
  have p: "?p = ?h @ payload" by (simp add: ip_packet_def t_def c_def IPV4_HEADER_SIZE_def Let_def)
  have len: "length ?p = 20 + length payload" by (simp add: p)
  have hdr: "read_at 0 20 ?p = Some ?h" unfolding p by (rule read_at_0) simp
  have sum: "ip_checksum ?h = 0" unfolding c_def by (rule ip_header_checksum)
  have "unat t = 20 + length payload" using assms(1) unfolding t_def by (simp only: unat_of_nat) simp
  then have "(ucast t :: u64) = of_nat (20 + length payload)" by (metis of_nat_unat)
  then have size: "(ucast t :: u64) - 20 = of_nat (length payload)" by simp
  have f: "rd8 0 ?p = Some 0x45" "rd16 2 ?p = Some (bswap16 t)" "rd8 9 ?p = Some protocol"
    "rd32 12 ?p = Some (bswap32 src)" "rd32 16 ?p = Some (bswap32 dst)"
    unfolding p by (simp_all only: ip_header_fields)
  have d: "drop 20 ?p = payload" by (simp add: p)
  have ours: "\<not> (dst \<noteq> local_ip n \<and> dst \<noteq> 0xFFFFFFFF)" using assms(2) by simp
  have "ip_handle_packet ?p n =
     (if protocol = IP_PROTOCOL_ICMP
      then icmp_handle_packet (bswap32 src) (drop 20 ?p) (ucast (bswap16 (bswap16 t)) - 20) n
      else if protocol = IP_PROTOCOL_UDP \<or> protocol = IP_PROTOCOL_TCP
      then sock_handle_incoming_packet (drop 20 ?p) (ucast (bswap16 (bswap16 t)) - 20) protocol n else Some n)"
    by (simp add: ip_handle_packet_def IPV4_HEADER_SIZE_def len f Let_def ihl_version hdr sum ours
        split del: if_split)
  then show ?thesis unfolding d bswap16_bswap16 size .
qed

text \<open>A valid packet for another host is dropped without any effect.\<close>

lemma ip_handle_not_ours:
  assumes "length payload < 2 ^ 16 - 20" "dst \<noteq> local_ip n" "dst \<noteq> 0xFFFFFFFF"
  shows "ip_handle_packet (ip_packet src dst protocol payload) n = Some n"
proof -
  define t where "t = (of_nat (20 + length payload) :: u16)"
  define c where "c = ip_checksum (ip_header t protocol 0 src dst)"
  let ?h = "ip_header t protocol c src dst" and ?p = "ip_packet src dst protocol payload"
  have p: "?p = ?h @ payload" by (simp add: ip_packet_def t_def c_def IPV4_HEADER_SIZE_def Let_def)
  have hdr: "read_at 0 20 ?p = Some ?h" unfolding p by (rule read_at_0) simp
  have sum: "ip_checksum ?h = 0" unfolding c_def by (rule ip_header_checksum)
  have f: "rd8 0 ?p = Some 0x45" "rd32 16 ?p = Some (bswap32 dst)" "length ?p = 20 + length payload"
    unfolding p by (simp_all only: ip_header_fields) simp
  show ?thesis
    using assms(2,3) by (simp add: ip_handle_packet_def IPV4_HEADER_SIZE_def f Let_def ihl_version hdr sum)
qed

lemma icmp_echo_writes:
  "write_at 0 [t] (icmp_echo t' c rest) = Some (icmp_echo t c rest)"
  "write_at 2 (le16 c') (icmp_echo t c rest) = Some (icmp_echo t c' rest)"
  "length (icmp_echo t c rest) = 4 + length rest" "rd8 0 (icmp_echo t c rest) = Some t"
  by (simp_all add: icmp_echo_def write_at_def rd8_def)

lemma icmp_handle_built:
  assumes "4 \<le> length rest" "length rest < 2 ^ 16" "c = ip_checksum (icmp_echo t 0 rest)"
  shows "icmp_handle_packet src (icmp_echo t c rest) (of_nat (4 + length rest)) n =
     (if t = ICMP_ECHO_REQUEST \<and> kmalloc_ok n (4 + length rest)
      then ip_send_packet (bswap32 src) IP_PROTOCOL_ICMP
             (icmp_echo ICMP_ECHO_REPLY (ip_checksum (icmp_echo ICMP_ECHO_REPLY 0 rest)) rest) n
      else Some n)"
proof -
  have u: "unat (of_nat (4 + length rest) :: u64) = 4 + length rest"
    using assms(2) by (simp only: unat_of_nat) simp
  then have big: "\<not> (of_nat (4 + length rest) :: u64) < 8" using assms(1) by (simp only: word_less_nat_alt) simp
  have r: "read_at 0 (4 + length rest) (icmp_echo t c rest) = Some (icmp_echo t c rest)"
    by (simp add: read_at_def icmp_echo_writes)
  have s: "ip_checksum (icmp_echo t c rest) = 0" unfolding assms(3) by (rule icmp_echo_checksum [OF assms(2)])
  show ?thesis
    unfolding icmp_handle_packet_def u using big by (simp add: r s icmp_echo_writes del: of_nat_add)
qed

subsection \<open>Properties\<close>


definition net_pair :: "u8 \<Rightarrow> u32 \<Rightarrow> u8 \<Rightarrow> u32 \<Rightarrow> net" where
  "net_pair m ip m' ip' = (net_demo m ip)\<lparr>arp_cache := [(ip', [2, 0, 0, 0, 0, m'])]\<rparr>"


subsection \<open>Datagrams and sockets\<close>

text \<open>The bytes of a socket waiting to be read.\<close>

definition sock_pending :: "socket_t \<Rightarrow> u8 list" where
  "sock_pending s = take (recv_data_len s) (drop (recv_read_idx s) (recv_buffer s))"

lemma udp_handle_built:
  assumes "length data < 2 ^ 16 - 28" "dport \<noteq> 67" "dport \<noteq> 68"
    and "sock_for_port (bswap16 dport) (active_sockets n) = Some s"
    and "recv_read_idx s = 0" "recv_data_len s + length data \<le> length (recv_buffer s)"
  shows "\<exists>n' s'. sock_handle_incoming_packet (udp_packet sport dport data) (of_nat (8 + length data)) IP_PROTOCOL_UDP n = Some n'
     \<and> active_sockets n' = map (\<lambda>t. if sock_id t = sock_id s then s' else t) (active_sockets n)
     \<and> sock_id s' = sock_id s \<and> sock_pending s' = sock_pending s @ data \<and> recv_read_idx s' = 0
     \<and> waiting_thread s' = None \<and> (\<forall>t. waiting_thread s = Some t \<longrightarrow> t \<in> set (woken n'))"
proof -
  have u: "unat (of_nat (length data) :: u64) = length data" using assms(1) by (simp only: unat_of_nat) simp
  have sub: "(of_nat (8 + length data) :: u64) - 8 = of_nat (length data)" by simp
  let ?b = "take (recv_data_len s) (recv_buffer s) @ data @ drop (recv_data_len s + length data) (recv_buffer s)"
  let ?s = "s\<lparr>recv_buffer := ?b, recv_data_len := recv_data_len s + length data, waiting_thread := None\<rparr>"
  have "sock_handle_incoming_packet (udp_packet sport dport data) (of_nat (8 + length data)) IP_PROTOCOL_UDP n
      = Some (case waiting_thread s of None \<Rightarrow> set_sock ?s n | Some t \<Rightarrow> (set_sock ?s n)\<lparr>woken := t # woken (set_sock ?s n)\<rparr>)"
    unfolding sock_handle_incoming_packet_def sub
    using assms by (simp add: udp_packet_fields sock_udp_receive_packet_handler_def u Let_def read_at_def write_at_def)
  moreover have "sock_pending ?s = sock_pending s @ data" using assms(5,6) by (simp add: sock_pending_def)
  ultimately show ?thesis
    using assms(5) by (intro exI [of _ "case waiting_thread s of None \<Rightarrow> set_sock ?s n
        | Some t \<Rightarrow> (set_sock ?s n)\<lparr>woken := t # woken (set_sock ?s n)\<rparr>"] exI [of _ ?s])
      (auto simp: set_sock_def split: option.splits)
qed

text \<open>C9: a datagram that host A sends with \<open>udp_send_packet\<close> to a port host B has bound reaches that
  socket: when the frame arrives at B and the buffer has room and is not partly read, its data is
  appended to the bytes waiting in the socket, no other socket changes, and the thread blocked in
  \<open>sock_recv\<close> is made ready.\<close>

theorem udp_datagram_delivery:
  assumes "dev_mac a = Some ma" "length ma = 6" "length mb = 6" "arp_lookup_mac (local_ip b) a = Some mb"
    and "\<forall>k. kmalloc_ok a k" "local_ip b \<noteq> 0xFFFFFFFF" "length data \<le> 65000" "dport \<noteq> 67" "dport \<noteq> 68"
    and "sock_for_port (bswap16 dport) (active_sockets b) = Some s"
    and "recv_read_idx s = 0" "recv_data_len s + length data \<le> length (recv_buffer s)"
  shows "\<exists>a' f b' s'. udp_send_packet (local_ip b) sport dport data a = Some a' \<and> sent a' = sent a @ [f]
     \<and> net_receive f b = Some b'
     \<and> active_sockets b' = map (\<lambda>t. if sock_id t = sock_id s then s' else t) (active_sockets b)
     \<and> sock_id s' = sock_id s \<and> sock_pending s' = sock_pending s @ data
     \<and> (\<forall>t. waiting_thread s = Some t \<longrightarrow> t \<in> set (woken b'))"
proof -
  let ?f = "eth_header mb ma 0x0800 @ ip_packet (local_ip a) (local_ip b) IP_PROTOCOL_UDP (udp_packet sport dport data)"
  have send: "udp_send_packet (local_ip b) sport dport data a = Some (send_packet ?f a)"
    using assms by (simp add: udp_send_packet_def ip_send_packet_def)
  have ne: "ip_packet s d p x \<noteq> []" for s d p x by (simp add: ip_packet_def ip_header_def Let_def)
  have small: "length (udp_packet sport dport data) < 2 ^ 16 - 20" "length data < 2 ^ 16 - 28"
    using assms(7) by (simp_all add: udp_packet_fields)
  have "IP_PROTOCOL_UDP \<noteq> IP_PROTOCOL_ICMP" by (simp add: IP_PROTOCOL_UDP_def IP_PROTOCOL_ICMP_def)
  then have "net_receive ?f b = sock_handle_incoming_packet (udp_packet sport dport data) (of_nat (8 + length data)) IP_PROTOCOL_UDP b"
    using ip_handle_built [OF small(1), of "local_ip b" b] assms(2,3) ne
    by (simp add: net_receive_def eth_header_type length_eth_header udp_packet_fields)
  moreover obtain n' s' where
    "sock_handle_incoming_packet (udp_packet sport dport data) (of_nat (8 + length data)) IP_PROTOCOL_UDP b = Some n'"
    "active_sockets n' = map (\<lambda>t. if sock_id t = sock_id s then s' else t) (active_sockets b)"
    "sock_id s' = sock_id s" "sock_pending s' = sock_pending s @ data"
    "\<forall>t. waiting_thread s = Some t \<longrightarrow> t \<in> set (woken n')"
    using udp_handle_built [OF small(2) assms(8-12), of sport] by blast
  ultimately show ?thesis using send
    by (intro exI [of _ "send_packet ?f a"] exI [of _ ?f] exI [of _ n'] exI [of _ s']) simp
qed

definition sock_demo :: socket_t where
  "sock_demo = \<lparr>sock_id = 0, sock_domain = 2, sock_type = 2, sock_protocol = 17, sock_state = SOCK_STATE_BOUND,
     local_addr = \<lparr>sin_family = 2, sin_port = bswap16 9000, sin_addr = 0\<rparr>, remote_addr = no_addr,
     recv_buffer = replicate 8 0, recv_data_len = 0, recv_read_idx = 0, waiting_thread = Some 5\<rparr>"

theorem udp_datagram_delivery_witness:
  "\<exists>a' f b' s'. udp_send_packet 0x0A000002 1234 9000 [1, 2, 3] (net_pair 1 0x0A000001 2 0x0A000002) = Some a'
     \<and> sent a' = [f] \<and> net_receive f ((net_pair 2 0x0A000002 1 0x0A000001)\<lparr>active_sockets := [sock_demo]\<rparr>) = Some b'
     \<and> active_sockets b' = [s'] \<and> sock_pending s' = [1, 2, 3] \<and> 5 \<in> set (woken b')"
  using udp_datagram_delivery [of "net_pair 1 0x0A000001 2 0x0A000002" "[2, 0, 0, 0, 0, 1]" "[2, 0, 0, 0, 0, 2]"
      "(net_pair 2 0x0A000002 1 0x0A000001)\<lparr>active_sockets := [sock_demo]\<rparr>" "[1, 2, 3]" 9000 sock_demo 1234]
  by (simp add: net_pair_def net_demo_def arp_lookup_mac_def sock_demo_def IPPROTO_UDP_def sock_pending_def) blast

text \<open>After a partial read the receive buffer is corrupted. A reader that took the first byte of a
  two-byte datagram leaves \<open>recv_read_idx = 1\<close>; the next datagram is stored at \<open>recv_data_len\<close> rather
  than behind the unread byte, so the next read misses that byte and ends in a stale one.\<close>

lemma udp_partial_read_corrupts:
  fixes n :: net
  assumes "active_sockets n = [s]" "sock_protocol s = IPPROTO_UDP" "sock_state s = SOCK_STATE_BOUND"
    and "sin_port (local_addr s) = port" "bswap16 port \<noteq> 67" "bswap16 port \<noteq> 68"
    and "recv_buffer s = x # y # z # u # rest" "recv_data_len s = 2" "recv_read_idx s = 0" "waiting_thread s = None"
  shows "\<exists>n1 s1 n2 s2 n3.
     sock_recv 0 (Some s) 1 n = Some (Recv_data [x], n1) \<and> active_sockets n1 = [s1] \<and> sock_pending s1 = [y]
   \<and> sock_udp_receive_packet_handler port [c, d] 2 n1 = Some n2 \<and> active_sockets n2 = [s2]
   \<and> sock_recv 0 (Some s2) 3 n2 = Some (Recv_data [c, d, u], n3)"
proof -
  let ?s1 = "s\<lparr>recv_data_len := 1, recv_read_idx := 1\<rparr>"
  let ?s2 = "?s1\<lparr>recv_buffer := x # c # d # u # rest, recv_data_len := 3, waiting_thread := None\<rparr>"
  have 1: "sock_recv 0 (Some s) 1 n = Some (Recv_data [x], set_sock ?s1 n)"
    using assms by (simp add: sock_recv_def Let_def read_at_def)
  have s1: "active_sockets (set_sock ?s1 n) = [?s1]" using assms(1) by (simp add: set_sock_def)
  have 2: "sock_udp_receive_packet_handler port [c, d] 2 (set_sock ?s1 n) = Some (set_sock ?s2 (set_sock ?s1 n))"
    using assms s1 by (simp add: sock_udp_receive_packet_handler_def write_at_def read_at_def numeral_3_eq_3)
  have s2: "active_sockets (set_sock ?s2 (set_sock ?s1 n)) = [?s2]" using assms(1) by (simp add: set_sock_def)
  have 3: "sock_recv 0 (Some ?s2) 3 (set_sock ?s2 (set_sock ?s1 n))
      = Some (Recv_data [c, d, u], set_sock (?s2\<lparr>recv_data_len := 0, recv_read_idx := 0\<rparr>) (set_sock ?s2 (set_sock ?s1 n)))"
    using assms by (simp add: sock_recv_def Let_def read_at_def numeral_3_eq_3)
  have "sock_pending ?s1 = [y]" using assms by (simp add: sock_pending_def)
  then show ?thesis using 1 2 3 s1 s2 by blast
qed

lemma udp_partial_read_corrupts_witness:
  "\<exists>n1 s1 n2 s2 n3. sock_recv 0 (Some (sock_demo\<lparr>recv_buffer := [1, 2, 0, 9], recv_data_len := 2, waiting_thread := None\<rparr>)) 1
       ((net_demo 2 1)\<lparr>active_sockets := [sock_demo\<lparr>recv_buffer := [1, 2, 0, 9], recv_data_len := 2, waiting_thread := None\<rparr>]\<rparr>)
       = Some (Recv_data [1], n1) \<and> active_sockets n1 = [s1] \<and> sock_pending s1 = [2]
   \<and> sock_udp_receive_packet_handler (bswap16 9000) [7, 8] 2 n1 = Some n2 \<and> active_sockets n2 = [s2]
   \<and> sock_recv 0 (Some s2) 3 n2 = Some (Recv_data [7, 8, 9], n3)"
  by (rule udp_partial_read_corrupts) (simp_all add: sock_demo_def IPPROTO_UDP_def)

text \<open>The DHCP client hands the leased address to the IP layer in network byte order, while the IP
  layer compares addresses in host order: after the ACK for an address whose bytes are not a
  palindrome, every valid packet sent to that address is silently dropped.\<close>

lemma dhcp_lease_drops_own_traffic:
  assumes "dhcp_state n = DHCP_STATE_REQUESTING" "ack = dhcp_reply (dhcp_xid n) (bswap32 ip) (ack_options msk gw)"
    and "bswap32 ip \<noteq> ip" "ip \<noteq> 0xFFFFFFFF" "length payload < 2 ^ 16 - 20"
  shows "\<exists>n'. dhcp_handle_packet ack (of_nat (length ack)) n = Some n' \<and> dhcp_state n' = DHCP_STATE_BOUND
     \<and> ip_handle_packet (ip_packet src ip protocol payload) n' = Some n'"
proof -
  let ?n' = "(ip_set_default_gateway gw ((ip_set_subnet_mask msk ((ip_set_local_ip (bswap32 ip) (n\<lparr>dhcp_local_ip := bswap32 ip\<rparr>))\<lparr>dhcp_subnet_mask := msk\<rparr>))\<lparr>dhcp_gateway_ip := gw\<rparr>))
      \<lparr>dhcp_state := DHCP_STATE_BOUND\<rparr>"
  have "length (ack_options msk gw) < 1000" by (simp add: ack_options_def)
  then have "dhcp_handle_packet ack (of_nat (length ack)) n = Some ?n'"
    using dhcp_handle_reply [OF assms(2) refl _ ack_scan(1) [OF assms(2) refl]] ack_scan(2) [OF assms(2) refl] assms(1) by simp
  moreover have "local_ip ?n' = bswap32 ip"
    by (simp add: ip_set_default_gateway_def ip_set_subnet_mask_def ip_set_local_ip_def)
  then have "ip_handle_packet (ip_packet src ip protocol payload) ?n' = Some ?n'"
    using ip_handle_not_ours [of payload ip ?n'] assms(3-5) by simp
  ultimately show ?thesis by (intro exI [of _ ?n']) simp
qed

lemma dhcp_lease_drops_own_traffic_witness:
  "\<exists>n'. dhcp_handle_packet (dhcp_reply 0x12345678 (bswap32 0x0A000005) (ack_options 0 0)) 256
        ((net_demo 1 0)\<lparr>dhcp_state := DHCP_STATE_REQUESTING\<rparr>) = Some n'
     \<and> ip_handle_packet (ip_packet 0x0A000001 0x0A000005 IP_PROTOCOL_UDP (udp_packet 1 2 [])) n' = Some n'"
proof -
  have "bswap32 0x0A000005 \<noteq> (0x0A000005 :: u32)" by (simp add: bswap32_def)
  moreover have "length (udp_packet 1 2 []) < 2 ^ 16 - 20" by (simp add: udp_packet_fields)
  ultimately show ?thesis
    using dhcp_lease_drops_own_traffic [of "(net_demo 1 0)\<lparr>dhcp_state := DHCP_STATE_REQUESTING\<rparr>"
        "dhcp_reply 0x12345678 (bswap32 0x0A000005) (ack_options 0 0)" "0x0A000005" 0 0 "udp_packet 1 2 []"]
    by (simp add: net_demo_def dhcp_reply_fields) (simp add: ack_options_def, blast)
qed

end
