(* ===== verification/Sha256.thy ===== *)
theory Sha256
  imports Kyro_Prelude
begin

section \<open>Hashing and signature check (src/kernel/crypto.c)\<close>

text \<open>
  The streaming hash: context, block transform, update and final padding. The round constants are
  the table of the source. The context is on the stack and its buffer starts with whatever is there,
  the argument \<open>junk\<close>. Storing past the 64 bytes of the buffer gives \<open>None\<close>.
\<close>

definition K_SHA256 :: "u32 list" where
  "K_SHA256 = concat
    [[0x428a2f98, 0x71374491, 0xb5c0fbcf, 0xe9b5dba5], [0x3956c25b, 0x59f111f1, 0x923f82a4, 0xab1c5ed5],
     [0xd807aa98, 0x12835b01, 0x243185be, 0x550c7dc3], [0x72be5d74, 0x80deb1fe, 0x9bdc06a7, 0xc19bf174],
     [0xe49b69c1, 0xefbe4786, 0x0fc19dc6, 0x240ca1cc], [0x2de92c6f, 0x4a7484aa, 0x5cb0a9dc, 0x76f988da],
     [0x983e5152, 0xa831c66d, 0xb00327c8, 0xbf597fc7], [0xc6e00bf3, 0xd5a79147, 0x06ca6351, 0x14292967],
     [0x27b70a85, 0x2e1b2138, 0x4d2c6dfc, 0x53380d13], [0x650a7354, 0x766a0abb, 0x81c2c92e, 0x92722c85],
     [0xa2bfe8a1, 0xa81a664b, 0xc24b8b70, 0xc76c51a3], [0xd192e819, 0xd6990624, 0xf40e3585, 0x106aa070],
     [0x19a4c116, 0x1db71064, 0x2c61692f, 0x4a74a4b8], [0x5c60f198, 0x76a980bb, 0x81c2c92e, 0x92722c85],
     [0xa2bfe8a1, 0xa81a664b, 0xc24b8b70, 0xc76c51a3], [0xd192e819, 0xd6990624, 0xf40e3585, 0x106aa070]]"

definition H_SHA256 :: "u32 list" where
  "H_SHA256 =
    [0x6a09e667, 0xbb67ae85, 0x3c6ef372, 0xa54ff53a, 0x510e527f, 0x9b05688c, 0x1f83d9ab, 0x5be0cd19]"

definition ROTR :: "u32 \<Rightarrow> nat \<Rightarrow> u32" where
  "ROTR x n = drop_bit n x OR push_bit (32 - n) x"

definition SHR :: "u32 \<Rightarrow> nat \<Rightarrow> u32" where
  "SHR x n = drop_bit n x"

definition CH :: "u32 \<Rightarrow> u32 \<Rightarrow> u32 \<Rightarrow> u32" where
  "CH x y z = (x AND y) XOR (NOT x AND z)"

definition MAJ :: "u32 \<Rightarrow> u32 \<Rightarrow> u32 \<Rightarrow> u32" where
  "MAJ x y z = (x AND y) XOR (x AND z) XOR (y AND z)"

definition SIGMA0 :: "u32 \<Rightarrow> u32" where
  "SIGMA0 x = ROTR x 2 XOR ROTR x 13 XOR ROTR x 22"

definition SIGMA1 :: "u32 \<Rightarrow> u32" where
  "SIGMA1 x = ROTR x 6 XOR ROTR x 11 XOR ROTR x 25"

definition sigma0 :: "u32 \<Rightarrow> u32" where
  "sigma0 x = ROTR x 7 XOR ROTR x 18 XOR SHR x 3"

definition sigma1 :: "u32 \<Rightarrow> u32" where
  "sigma1 x = ROTR x 17 XOR ROTR x 19 XOR SHR x 10"

text \<open>The message schedule: 16 big-endian words of the block, then the recurrence.\<close>

definition block_word :: "u8 list \<Rightarrow> nat \<Rightarrow> u32" where
  "block_word b i = push_bit 24 (ucast (b ! (i * 4))) OR push_bit 16 (ucast (b ! (i * 4 + 1)))
     OR push_bit 8 (ucast (b ! (i * 4 + 2))) OR ucast (b ! (i * 4 + 3))"

fun schedule_extend :: "nat \<Rightarrow> u32 list \<Rightarrow> u32 list" where
  "schedule_extend 0 w = w"
| "schedule_extend (Suc k) w =
     (let i = length w
      in schedule_extend k (w @ [sigma1 (w ! (i - 2)) + w ! (i - 7) + sigma0 (w ! (i - 15)) + w ! (i - 16)]))"

definition msg_schedule :: "u8 list \<Rightarrow> u32 list" where
  "msg_schedule b = schedule_extend 48 (map (block_word b) [0..<16])"

text \<open>One round on the eight working variables \<open>a\<close> to \<open>h\<close>.\<close>

definition sha_round :: "u32 list \<Rightarrow> u32 \<times> u32 \<Rightarrow> u32 list" where
  "sha_round v kw =
     (let T1 = v ! 7 + SIGMA1 (v ! 4) + CH (v ! 4) (v ! 5) (v ! 6) + fst kw + snd kw;
          T2 = SIGMA0 (v ! 0) + MAJ (v ! 0) (v ! 1) (v ! 2)
      in [T1 + T2, v ! 0, v ! 1, v ! 2, v ! 3 + T1, v ! 4, v ! 5, v ! 6])"

definition sha_compress :: "u32 list \<Rightarrow> u8 list \<Rightarrow> u32 list" where
  "sha_compress h block = map2 (+) h (foldl sha_round h (zip K_SHA256 (msg_schedule block)))"

record sha256_context =
  sha_buffer :: "u8 list"
  buffer_len :: nat
  bit_len :: u64
  sha_hash :: "u32 list"

definition sha256_transform :: "sha256_context \<Rightarrow> u8 list \<Rightarrow> sha256_context" where
  "sha256_transform ctx block = ctx\<lparr>sha_hash := sha_compress (sha_hash ctx) block\<rparr>"

definition sha256_init_ctx :: "sha256_context \<Rightarrow> sha256_context" where
  "sha256_init_ctx ctx = ctx\<lparr>sha_hash := H_SHA256, buffer_len := 0, bit_len := 0\<rparr>"

text \<open>The loop of the update: flush a full buffer, then copy as much as fits.\<close>

definition sha_flush :: "sha256_context \<Rightarrow> sha256_context" where
  "sha_flush ctx = (if buffer_len ctx = 64 then (sha256_transform ctx (sha_buffer ctx))\<lparr>buffer_len := 0\<rparr> else ctx)"

function sha_fill :: "sha256_context \<Rightarrow> u8 list \<Rightarrow> sha256_context option" where
  "sha_fill ctx data =
     (if data = [] then Some ctx
      else let c = sha_flush ctx;
               i = (if 64 - buffer_len c > length data then length data else 64 - buffer_len c)
           in do {
             b \<leftarrow> write_at (buffer_len c) (take i data) (sha_buffer c);
             if i = 0 then None else sha_fill (c\<lparr>sha_buffer := b, buffer_len := buffer_len c + i\<rparr>) (drop i data) })"
  by pat_completeness auto
termination
  by (relation "measure (\<lambda>(ctx, data). length data)") auto

declare sha_fill.simps [simp del]

definition sha256_update_ctx :: "sha256_context \<Rightarrow> u8 list \<Rightarrow> sha256_context option" where
  "sha256_update_ctx ctx data = sha_fill (ctx\<lparr>bit_len := bit_len ctx + of_nat (length data) * 8\<rparr>) data"

text \<open>The end of the final step, once the 0x80 byte is in and at most 56 bytes are used.\<close>

definition sha_finish :: "sha256_context \<Rightarrow> u8 list option" where
  "sha_finish ctx = do {
     b3 \<leftarrow> write_at (buffer_len ctx) (replicate (56 - buffer_len ctx) 0) (sha_buffer ctx);
     b4 \<leftarrow> write_at 56 (le32 (bswap32 (ucast (drop_bit 32 (bit_len ctx))))) b3;
     b5 \<leftarrow> write_at 60 (le32 (bswap32 (ucast (bit_len ctx)))) b4;
     Some (concat (map (\<lambda>w. le32 (bswap32 w)) (sha_hash (sha256_transform ctx b5)))) }"

definition sha256_final_ctx :: "sha256_context \<Rightarrow> u8 list option" where
  "sha256_final_ctx ctx = do {
     b1 \<leftarrow> write_at (buffer_len ctx) [0x80] (sha_buffer ctx);
     if buffer_len ctx + 1 > 56
     then do {
       b2 \<leftarrow> write_at (buffer_len ctx + 1) (replicate (64 - (buffer_len ctx + 1)) 0) b1;
       sha_finish ((sha256_transform (ctx\<lparr>sha_buffer := b2\<rparr>) b2)\<lparr>buffer_len := 0\<rparr>) }
     else sha_finish (ctx\<lparr>sha_buffer := b1, buffer_len := buffer_len ctx + 1\<rparr>) }"

definition sha256_hash :: "u8 list \<Rightarrow> u8 list \<Rightarrow> u8 list option" where
  "sha256_hash junk data = do {
     ctx \<leftarrow> sha256_update_ctx (sha256_init_ctx \<lparr>sha_buffer = junk, buffer_len = 0, bit_len = 0, sha_hash = []\<rparr>) data;
     sha256_final_ctx ctx }"

text \<open>The signature check is a stub that ignores its arguments.\<close>

definition rsa_verify_signature :: "u8 list \<Rightarrow> u8 list \<Rightarrow> int" where
  "rsa_verify_signature signature hash = 0"

subsection \<open>The specification: pad, cut into blocks, fold\<close>

function chunks64 :: "'a list \<Rightarrow> 'a list list" where
  "chunks64 xs = (if length xs < 64 then [] else take 64 xs # chunks64 (drop 64 xs))"
  by pat_completeness auto
termination
  by (relation "measure length") auto

declare chunks64.simps [simp del]

definition sha_pad :: "u8 list \<Rightarrow> u8 list" where
  "sha_pad m = m @ [0x80] @ replicate ((119 - length m mod 64) mod 64) 0
     @ le32 (bswap32 (ucast (drop_bit 32 (of_nat (length m) * 8 :: u64)))) @ le32 (bswap32 (ucast (of_nat (length m) * 8 :: u64)))"

definition sha_spec :: "u8 list \<Rightarrow> u8 list" where
  "sha_spec m = concat (map (\<lambda>w. le32 (bswap32 w)) (foldl sha_compress H_SHA256 (chunks64 (sha_pad m))))"

lemma chunks64_short: "length xs < 64 \<Longrightarrow> chunks64 xs = []"
  by (simp add: chunks64.simps [of xs])

lemma chunks64_append: "64 dvd length xs \<Longrightarrow> chunks64 (xs @ ys) = chunks64 xs @ chunks64 ys"
proof (induction xs rule: chunks64.induct)
  case (1 xs)
  show ?case
  proof (cases "length xs < 64")
    case True
    then have "xs = []" using "1.prems" by (auto dest: dvd_imp_le)
    then show ?thesis by (simp add: chunks64_short)
  next
    case False
    then have "64 dvd length (drop 64 xs)" using "1.prems" by (simp add: dvd_diff_nat)
    then show ?thesis using "1.IH" [OF False] False
      by (simp add: chunks64.simps [of "xs @ ys"] chunks64.simps [of xs])
  qed
qed

lemma chunks64_one: "length xs = 64 \<Longrightarrow> chunks64 xs = [xs]"
  by (simp add: chunks64.simps [of xs] chunks64_short)

text \<open>The context represents the message \<open>m\<close>: whole blocks are in the hash, the rest is in the buffer.\<close>

definition sha_rep :: "sha256_context \<Rightarrow> u8 list \<Rightarrow> bool" where
  "sha_rep ctx m \<longleftrightarrow> length (sha_buffer ctx) = 64 \<and> buffer_len ctx \<le> 64 \<and> (buffer_len ctx = 0 \<longrightarrow> m = [])
     \<and> (\<exists>q. 64 dvd length q \<and> m = q @ take (buffer_len ctx) (sha_buffer ctx)
            \<and> sha_hash ctx = foldl sha_compress H_SHA256 (chunks64 q))"

lemma sha_rep_len: "sha_rep ctx m \<Longrightarrow> m \<noteq> [] \<Longrightarrow> length m mod 64 = buffer_len ctx mod 64 \<and> 0 < buffer_len ctx"
  by (auto simp: sha_rep_def dvd_def)

lemma sha_fill_rep:
  "sha_rep ctx m \<Longrightarrow> \<exists>c. sha_fill ctx data = Some c \<and> sha_rep c (m @ data) \<and> bit_len c = bit_len ctx"
proof (induction ctx data arbitrary: m rule: sha_fill.induct)
  case (1 ctx data)
  show ?case
  proof (cases "data = []")
    case True
    then show ?thesis using "1.prems" by (simp add: sha_fill.simps [of ctx])
  next
    case False
    let ?c = "sha_flush ctx"
    define i where "i = (if 64 - buffer_len ?c > length data then length data else 64 - buffer_len ?c)"
    obtain q where q: "64 dvd length q" "m = q @ take (buffer_len ctx) (sha_buffer ctx)"
        "sha_hash ctx = foldl sha_compress H_SHA256 (chunks64 q)"
      and ctx: "length (sha_buffer ctx) = 64" "buffer_len ctx \<le> 64"
      using "1.prems" by (auto simp: sha_rep_def)
    have c: "length (sha_buffer ?c) = 64" "buffer_len ?c < 64" "bit_len ?c = bit_len ctx"
      using ctx by (auto simp: sha_flush_def sha256_transform_def)
    obtain q' where q': "64 dvd length q'" "m = q' @ take (buffer_len ?c) (sha_buffer ?c)"
        "sha_hash ?c = foldl sha_compress H_SHA256 (chunks64 q')"
    proof (cases "buffer_len ctx = 64")
      case True
      have "chunks64 (q @ sha_buffer ctx) = chunks64 q @ [sha_buffer ctx]"
        using chunks64_append [OF q(1)] chunks64_one [OF ctx(1)] by simp
      then show thesis using q True ctx by (intro that [of "q @ sha_buffer ctx"]) (simp_all add: sha_flush_def sha256_transform_def)
    next
      case f: False
      then show thesis using q by (intro that [of q]) (simp_all add: sha_flush_def)
    qed
    have i: "0 < i" "i \<le> length data" "buffer_len ?c + i \<le> 64"
      using False c(2) by (auto simp: i_def)
    let ?b = "take (buffer_len ?c) (sha_buffer ?c) @ take i data @ drop (buffer_len ?c + i) (sha_buffer ?c)"
    have w: "write_at (buffer_len ?c) (take i data) (sha_buffer ?c) = Some ?b"
      using i c(1) by (simp add: write_at_def min_def)
    let ?n = "?c\<lparr>sha_buffer := ?b, buffer_len := buffer_len ?c + i\<rparr>"
    have t: "take (buffer_len ?c + i) ?b = take (buffer_len ?c) (sha_buffer ?c) @ take i data"
      using i c by simp
    have "sha_rep ?n (m @ take i data)"
      unfolding sha_rep_def by (intro conjI exI [of _ q']) (use i c q' t in \<open>simp_all add: min_def\<close>)
    then have "\<exists>r. sha_fill ?n (drop i data) = Some r \<and> sha_rep r ((m @ take i data) @ drop i data) \<and> bit_len r = bit_len ?n"
      using i by (intro "1.IH" [OF False refl i_def w]) auto
    moreover have "sha_fill ctx data = sha_fill ?n (drop i data)"
      using False w i(1) by (simp add: sha_fill.simps [of ctx] Let_def i_def [symmetric])
    ultimately show ?thesis using c(3) by simp
  qed
qed

lemma write_length_hi:
  "length P = 56 \<Longrightarrow> length x = 4 \<Longrightarrow> length T = 8 \<Longrightarrow> write_at 56 x (P @ T) = Some (P @ x @ drop 4 T)"
  by (simp add: write_at_def)

lemma write_length_lo:
  "length P = 56 \<Longrightarrow> length x = 4 \<Longrightarrow> length y = 4 \<Longrightarrow> length T = 4 \<Longrightarrow> write_at 60 y (P @ x @ T) = Some (P @ x @ y)"
  by (simp add: write_at_def)

lemma sha_finish_spec:
  assumes "length (sha_buffer ctx) = 64" "buffer_len ctx \<le> 56"
  shows "sha_finish ctx = Some (concat (map (\<lambda>w. le32 (bswap32 w)) (sha_compress (sha_hash ctx)
     (take (buffer_len ctx) (sha_buffer ctx) @ replicate (56 - buffer_len ctx) 0
       @ le32 (bswap32 (ucast (drop_bit 32 (bit_len ctx)))) @ le32 (bswap32 (ucast (bit_len ctx)))))))"
proof -
  let ?P = "take (buffer_len ctx) (sha_buffer ctx) @ replicate (56 - buffer_len ctx) 0"
  have P: "length ?P = 56" using assms by simp
  have w3: "write_at (buffer_len ctx) (replicate (56 - buffer_len ctx) 0) (sha_buffer ctx) = Some (?P @ drop 56 (sha_buffer ctx))"
    using assms by (simp add: write_at_def)
  have T: "length (drop 56 (sha_buffer ctx)) = 8" "length (drop 4 (drop 56 (sha_buffer ctx))) = 4"
    using assms by simp_all
  show ?thesis
    unfolding sha_finish_def w3 Option.bind.bind_lunit write_length_hi [OF P length_le32 T(1)]
      write_length_lo [OF P length_le32 length_le32 T(2)]
    by (simp add: sha256_transform_def)
qed

lemma sha_final_rep:
  assumes "sha_rep ctx m" "buffer_len ctx < 64" "bit_len ctx = of_nat (length m) * 8"
  shows "sha256_final_ctx ctx = Some (sha_spec m)"
proof -
  let ?b = "buffer_len ctx" and ?B = "sha_buffer ctx"
  let ?L = "le32 (bswap32 (ucast (drop_bit 32 (bit_len ctx)))) @ le32 (bswap32 (ucast (bit_len ctx)))"
  obtain q where q: "64 dvd length q" "m = q @ take ?b ?B" "sha_hash ctx = foldl sha_compress H_SHA256 (chunks64 q)"
    and len: "length ?B = 64" using assms(1) by (auto simp: sha_rep_def)
  let ?p = "take ?b ?B"
  have p: "length ?p = ?b" using len assms(2) by simp
  have mod: "length m mod 64 = ?b" using q(1,2) p assms(2) by (auto simp: dvd_def)
  have w1: "write_at ?b [0x80] ?B = Some (?p @ [0x80] @ drop (?b + 1) ?B)"
    using len assms(2) by (simp add: write_at_def)
  have pad: "sha_pad m = q @ (?p @ [0x80] @ replicate ((119 - ?b) mod 64) 0 @ ?L)"
    unfolding sha_pad_def mod assms(3) [symmetric] using q(2) by simp
  have out: "sha_spec m = concat (map (\<lambda>w. le32 (bswap32 w))
      (foldl sha_compress (sha_hash ctx) (chunks64 (?p @ [0x80] @ replicate ((119 - ?b) mod 64) 0 @ ?L))))"
    unfolding sha_spec_def pad chunks64_append [OF q(1)] foldl_append q(3) ..
  show ?thesis
  proof (cases "?b + 1 > 56")
    case True
    let ?b2 = "?p @ [0x80] @ replicate (63 - ?b) 0" and ?b5 = "replicate 56 0 @ ?L"
    have "(119 - ?b) mod 64 = (63 - ?b) + 56" using True assms(2) by simp
    then have "replicate ((119 - ?b) mod 64) (0 :: u8) = replicate (63 - ?b) 0 @ replicate 56 0"
      by (simp only: replicate_add)
    then have "?p @ [0x80] @ replicate ((119 - ?b) mod 64) 0 @ ?L = ?b2 @ ?b5" by simp
    moreover have b2: "length ?b2 = 64" and b5: "length ?b5 = 64" using p assms(2) by simp_all
    then have "chunks64 (?b2 @ ?b5) = [?b2, ?b5]"
      using chunks64_append [of ?b2 ?b5] chunks64_one [OF b2] chunks64_one [OF b5] by simp
    ultimately have spec: "sha_spec m = concat (map (\<lambda>w. le32 (bswap32 w)) (sha_compress (sha_compress (sha_hash ctx) ?b2) ?b5))"
      using out by simp
    have w2: "write_at (?b + 1) (replicate (64 - (?b + 1)) 0) (?p @ [0x80] @ drop (?b + 1) ?B) = Some ?b2"
      using p len assms(2) by (simp add: write_at_def)
    let ?c = "(sha256_transform (ctx\<lparr>sha_buffer := ?b2\<rparr>) ?b2)\<lparr>buffer_len := 0\<rparr>"
    have "sha256_final_ctx ctx = sha_finish ?c"
      unfolding sha256_final_ctx_def w1 Option.bind.bind_lunit if_P [OF True] w2 ..
    then show ?thesis using sha_finish_spec [of ?c] b2 spec by (simp add: sha256_transform_def)
  next
    case False
    let ?c = "ctx\<lparr>sha_buffer := ?p @ [0x80] @ drop (?b + 1) ?B, buffer_len := ?b + 1\<rparr>"
    have "(119 - ?b) mod 64 = 56 - (?b + 1)" using False by (simp add: mod_if)
    moreover have b5: "length (?p @ [0x80] @ replicate (56 - (?b + 1)) 0 @ ?L) = 64" using p False by simp
    ultimately have spec: "sha_spec m = concat (map (\<lambda>w. le32 (bswap32 w))
        (sha_compress (sha_hash ctx) (?p @ [0x80] @ replicate (56 - (?b + 1)) 0 @ ?L)))"
      using out chunks64_one [OF b5] by simp
    have "length (sha_buffer ?c) = 64" using p len False by simp
    moreover have "take (?b + 1) (?p @ [0x80] @ drop (?b + 1) ?B) = ?p @ [0x80]" using p by simp
    moreover have "sha256_final_ctx ctx = sha_finish ?c"
      unfolding sha256_final_ctx_def w1 Option.bind.bind_lunit if_not_P [OF False] ..
    ultimately show ?thesis using sha_finish_spec [of ?c] False spec by simp
  qed
qed

subsection \<open>Properties\<close>

text \<open>C11: the streaming hash computes the padded-and-folded specification for every message whose length
  is not a positive multiple of 64; for those lengths the lazy flush leaves the buffer full, and the
  padding byte is stored past its end.\<close>

theorem sha256_hash_spec:
  assumes "length junk = 64"
  shows "sha256_hash junk data = (if data \<noteq> [] \<and> length data mod 64 = 0 then None else Some (sha_spec data))"
proof -
  let ?c0 = "(sha256_init_ctx \<lparr>sha_buffer = junk, buffer_len = 0, bit_len = 0, sha_hash = []\<rparr>)\<lparr>bit_len := of_nat (length data) * 8\<rparr>"
  have "sha_rep ?c0 []" using assms
    by (simp add: sha_rep_def sha256_init_ctx_def chunks64_short)
  then obtain c where c: "sha_fill ?c0 data = Some c" "sha_rep c data" "bit_len c = of_nat (length data) * 8"
    using sha_fill_rep [of ?c0 "[]" data] by auto
  have up: "sha256_update_ctx (sha256_init_ctx \<lparr>sha_buffer = junk, buffer_len = 0, bit_len = 0, sha_hash = []\<rparr>) data = Some c"
    using c(1) by (simp add: sha256_update_ctx_def sha256_init_ctx_def)
  have b: "buffer_len c \<le> 64" "length (sha_buffer c) = 64" "buffer_len c = 0 \<longrightarrow> data = []" using c(2) by (auto simp: sha_rep_def)
  show ?thesis
  proof (cases "buffer_len c = 64")
    case True
    then have "data \<noteq> []" using c(2) b(2) by (auto simp: sha_rep_def)
    moreover have "sha256_final_ctx c = None" using True b(2) by (simp add: sha256_final_ctx_def write_at_def)
    ultimately show ?thesis using sha_rep_len [OF c(2)] True up by (simp add: sha256_hash_def)
  next
    case False
    then have lt: "buffer_len c < 64" using b(1) by simp
    have "\<not> (data \<noteq> [] \<and> length data mod 64 = 0)"
      using sha_rep_len [OF c(2)] mod_less [OF lt] by linarith
    then show ?thesis using sha_final_rep [OF c(2) lt c(3)] up by (simp add: sha256_hash_def)
  qed
qed

theorem sha256_hash_spec_witness:
  "sha256_hash (replicate 64 0) [97, 98, 99] = Some (sha_spec [97, 98, 99]) \<and> sha256_hash (replicate 64 0) (replicate 64 1) = None"
  using sha256_hash_spec [of "replicate 64 0" "[97, 98, 99]"] sha256_hash_spec [of "replicate 64 0" "replicate 64 1"] by simp

end
