(* ===== verification/Kernel_Random.thy ===== *)
theory Kernel_Random
  imports Kyro_Prelude
begin

section \<open>Random numbers (src/kernel/random.c)\<close>

text \<open>
  The xorshift128+ generator and its seeding. The readings of the timer are arguments.
\<close>

record rng =
  s0 :: u64
  s1 :: u64
  initialized :: bool

definition xorshift128p :: "rng \<Rightarrow> u64 \<times> rng" where
  "xorshift128p r =
     (let a = s0 r; b = s1 r; x = a XOR push_bit 23 a;
          y = x XOR b XOR drop_bit 17 x XOR drop_bit 26 b
      in (y + b, r\<lparr>s0 := b, s1 := y\<rparr>))"

definition random_add_entropy :: "u64 \<Rightarrow> rng \<Rightarrow> rng" where
  "random_add_entropy e r =
     (let r1 = r\<lparr>s0 := s0 r XOR e, s1 := s1 r XOR (drop_bit 32 e OR push_bit 32 e)\<rparr>
      in if initialized r then snd (xorshift128p (snd (xorshift128p (snd (xorshift128p r1))))) else r1)"

definition random_init :: "u64 \<Rightarrow> u64 \<Rightarrow> u64 \<Rightarrow> rng \<Rightarrow> rng" where
  "random_init t0 t1 t2 r =
     (random_add_entropy (t2 XOR 0x123456789ABCDEF0) (r\<lparr>s0 := t0, s1 := t1 XOR 0xDEADBEEFCAFE\<rparr>))\<lparr>initialized := True\<rparr>"

definition random_get_uint64 :: "u64 \<Rightarrow> u64 \<Rightarrow> u64 \<Rightarrow> rng \<Rightarrow> u64 \<times> rng" where
  "random_get_uint64 t0 t1 t2 r = xorshift128p (if initialized r then r else random_init t0 t1 t2 r)"

fun random_get_bytes :: "u64 \<Rightarrow> u64 \<Rightarrow> u64 \<Rightarrow> nat \<Rightarrow> rng \<Rightarrow> u8 list \<times> rng" where
  "random_get_bytes t0 t1 t2 0 r = ([], r)"
| "random_get_bytes t0 t1 t2 (Suc n) r =
     (let (v, r1) = random_get_uint64 t0 t1 t2 r; (bs, r2) = random_get_bytes t0 t1 t2 n r1 in (ucast v # bs, r2))"

subsection \<open>The step has no fixed point at zero to fall into\<close>

lemma xor_zero_bits: "a XOR b = 0 \<Longrightarrow> bit a n \<longleftrightarrow> bit (b :: u64) n"
proof -
  assume "a XOR b = 0"
  then have "bit (a XOR b) n = bit (0 :: u64) n" by (simp only:)
  then show ?thesis by (simp add: bit_xor_iff)
qed

lemma xor_shift_right_zero:
  assumes "x XOR drop_bit k x = 0" "0 < k" shows "x = (0 :: u64)"
proof (rule bit_word_eqI)
  fix n
  have "\<not> bit x (64 - m)" if "m \<le> 64" for m
    using that
  proof (induction m rule: less_induct)
    case (less m)
    have "bit x (64 - m) \<longleftrightarrow> bit x (64 - m + k)" using xor_zero_bits [OF assms(1), of "64 - m"] by (simp add: bit_simps add.commute)
    moreover have "\<not> bit x (64 - m + k)"
    proof (cases "64 - m + k < 64")
      case True
      then show ?thesis using less.IH [of "m - k"] less.prems assms(2) by auto
    qed (auto dest: bit_imp_le_length)
    ultimately show ?case by simp
  qed
  from this [of "64 - n"] show "n < LENGTH(64) \<Longrightarrow> bit x n = bit 0 n" by simp
qed

lemma xor_shift_left_zero:
  assumes "x XOR push_bit k x = 0" "0 < k" shows "x = (0 :: u64)"
proof (rule bit_word_eqI)
  fix n
  show "bit x n = bit 0 n" if "n < LENGTH(64)"
  proof (induction n rule: less_induct)
    case (less n)
    have "bit x n \<longleftrightarrow> k \<le> n \<and> n < 64 \<and> bit x (n - k)" using xor_zero_bits [OF assms(1), of n] by (auto simp: bit_simps)
    then show ?case using less.IH [of "n - k"] assms(2) by auto
  qed
qed

lemma xorshift128p_state:
  "s0 (snd (xorshift128p r)) = s1 r"
  "s1 (snd (xorshift128p r)) = (s0 r XOR push_bit 23 (s0 r)) XOR s1 r
     XOR drop_bit 17 (s0 r XOR push_bit 23 (s0 r)) XOR drop_bit 26 (s1 r)"
  "initialized (snd (xorshift128p r)) = initialized r"
  unfolding xorshift128p_def Let_def snd_conv by (cases r; simp only: rng.simps)+

lemma xorshift_nonzero:
  assumes "(s0 r, s1 r) \<noteq> (0, 0)"
  shows "(s0 (snd (xorshift128p r)), s1 (snd (xorshift128p r))) \<noteq> (0, 0)"
proof
  define x where "x = s0 r XOR push_bit 23 (s0 r)"
  assume z: "(s0 (snd (xorshift128p r)), s1 (snd (xorshift128p r))) = (0, 0)"
  then have b: "s1 r = 0" and y: "x XOR s1 r XOR drop_bit 17 x XOR drop_bit 26 (s1 r) = 0"
    unfolding xorshift128p_state x_def prod.inject by blast+
  have "x XOR drop_bit 17 x = 0" using y unfolding b by simp
  then have "x = 0" by (rule xor_shift_right_zero) simp
  then have "s0 r = 0" unfolding x_def by (rule xor_shift_left_zero) simp
  then show False using b assms by simp
qed

lemma random_get_bytes_nonzero:
  "(s0 r, s1 r) \<noteq> (0, 0) \<Longrightarrow> initialized r \<Longrightarrow>
   (s0 (snd (random_get_bytes t0 t1 t2 n r)), s1 (snd (random_get_bytes t0 t1 t2 n r))) \<noteq> (0, 0)
   \<and> length (fst (random_get_bytes t0 t1 t2 n r)) = n"
proof (induction n arbitrary: r)
  case (Suc n)
  let ?r = "snd (xorshift128p r)"
  have "initialized ?r" using Suc.prems(2) by (simp only: xorshift128p_state)
  then show ?case
    using Suc.IH [OF xorshift_nonzero [OF Suc.prems(1)]] Suc.prems(2)
    by (simp add: random_get_uint64_def split: prod.splits) (metis fst_conv snd_conv)
qed simp

subsection \<open>Properties\<close>

text \<open>Seeding from a timer that reads the same tick three times sets the first half of the state to
  the constant 0x123456789ABCDEF0 whatever the tick is (the readings cancel), and from then on the
  generator never reaches the all-zero state, in which it would return zeros forever.\<close>

lemma random_init_seed:
  assumes "\<not> initialized r"
  shows "s0 (random_init t t t r) = 0x123456789ABCDEF0
     \<and> (\<forall>n. (s0 (snd (random_get_bytes a b c n (random_init t t t r))), s1 (snd (random_get_bytes a b c n (random_init t t t r)))) \<noteq> (0, 0))"
proof -
  have "s0 (random_init t t t r) = t XOR (t XOR 0x123456789ABCDEF0)"
    using assms by (simp add: random_init_def random_add_entropy_def Let_def)
  also have "\<dots> = 0x123456789ABCDEF0" by (simp only: xor.assoc [symmetric] bit.xor_self xor.left_neutral)
  finally have "s0 (random_init t t t r) = 0x123456789ABCDEF0" .
  moreover have "initialized (random_init t t t r)" by (simp add: random_init_def)
  ultimately show ?thesis using random_get_bytes_nonzero [of "random_init t t t r"] by simp
qed

lemma random_init_seed_witness:
  "s0 (random_init 7 7 7 \<lparr>s0 = 0, s1 = 0, initialized = False\<rparr>) = 0x123456789ABCDEF0"
  using random_init_seed [of "\<lparr>s0 = 0, s1 = 0, initialized = False\<rparr>" 7] by simp

end
