(* ===== verification/Uaccess.thy ===== *)
theory Uaccess
  imports Kyro_Prelude
begin

section \<open>Access to user memory (src/kernel/uaccess.c)\<close>

text \<open>
  The range check on user pointers and the two copies that use it. Memory is a function from
  64-bit addresses to bytes; \<open>hhdm\<close> is \<open>kernel_hhdm_offset\<close>, the end of user space.
\<close>

type_synonym memory = "u64 \<Rightarrow> u8"

definition EFAULT :: int where
  "EFAULT = 14"

definition validate_user_pointer :: "u64 \<Rightarrow> u64 \<Rightarrow> u64 \<Rightarrow> int" where
  "validate_user_pointer hhdm addr len =
     (let end_addr = addr + len
      in if addr \<ge> hhdm \<or> end_addr \<ge> hhdm then - EFAULT
         else if end_addr < addr then - EFAULT
         else 0)"

text \<open>The byte copy of \<open>memcpy\<close>, lowest address first, on wrapping addresses.\<close>

fun mem_copy :: "u64 \<Rightarrow> u64 \<Rightarrow> nat \<Rightarrow> memory \<Rightarrow> memory" where
  "mem_copy dst src 0 m = m"
| "mem_copy dst src (Suc n) m = mem_copy (dst + 1) (src + 1) n (m(dst := m src))"

definition copy_from_user :: "u64 \<Rightarrow> u64 \<Rightarrow> u64 \<Rightarrow> u64 \<Rightarrow> memory \<Rightarrow> int \<times> memory" where
  "copy_from_user hhdm kernel_dst user_src len m =
     (if validate_user_pointer hhdm user_src len \<noteq> 0 then (- EFAULT, m)
      else (0, mem_copy kernel_dst user_src (unat len) m))"

definition copy_to_user :: "u64 \<Rightarrow> u64 \<Rightarrow> u64 \<Rightarrow> u64 \<Rightarrow> memory \<Rightarrow> int \<times> memory" where
  "copy_to_user hhdm user_dst kernel_src len m =
     (if validate_user_pointer hhdm user_dst len \<noteq> 0 then (- EFAULT, m)
      else (0, mem_copy user_dst kernel_src (unat len) m))"

lemma validate_user_pointer_iff:
  "validate_user_pointer hhdm addr len = 0 \<longleftrightarrow> unat addr + unat len < unat hhdm"
proof -
  have nz: "EFAULT \<noteq> 0" by (simp add: EFAULT_def)
  have h: "unat hhdm < 2 ^ 64" "unat addr < 2 ^ 64" "unat len < 2 ^ 64"
    using unat_bounds(4) [of hhdm] unat_bounds(4) [of addr] unat_bounds(4) [of len] by simp_all
  show ?thesis
  proof (cases "unat addr + unat len < 2 ^ 64")
    case True
    then have "unat (addr + len) = unat addr + unat len" by (simp add: unat_word_ariths)
    then show ?thesis using nz by (auto simp: validate_user_pointer_def Let_def word_le_nat_alt word_less_nat_alt)
  next
    case False
    then have "unat (addr + len) = unat addr + unat len - 2 ^ 64"
      using h by (simp add: unat_word_ariths mod_if)
    then have "addr + len < addr" using h False by (simp add: word_less_nat_alt)
    then show ?thesis using nz h False by (auto simp: validate_user_pointer_def Let_def)
  qed
qed

lemma mem_copy_outside:
  assumes "unat dst + n < 2 ^ 64" "unat a < unat dst \<or> unat dst + n \<le> unat a"
  shows "mem_copy dst src n m a = m a"
  using assms
proof (induction n arbitrary: dst src m)
  case (Suc n)
  have "unat (dst + 1) = unat dst + 1" using Suc.prems(1) by (simp add: unat_word_ariths)
  moreover have "a \<noteq> dst" using Suc.prems(2) by auto
  moreover have "mem_copy (dst + 1) (src + 1) n (m(dst := m src)) a = (m(dst := m src)) a"
    using calculation(1) Suc.prems by (intro Suc.IH) auto
  ultimately show ?case by simp
qed simp

subsection \<open>Properties\<close>



end
