(* ===== verification/Wait_Queue.thy ===== *)
theory Wait_Queue
  imports Kyro_Prelude
begin

section \<open>Spin locks and wait queues (src/kernel/spinlock.c, waitqueue.c)\<close>

text \<open>
  Threads are named by numbers and carry a state; a wait queue is the list of waiting threads in
  link order. \<open>None\<close> for \<open>waitqueue_add\<close> is the store through the null pointer when the heap has
  no room for the entry, for \<open>spinlock_acquire\<close> it is spinning.
\<close>

datatype thread_state = THREAD_RUNNING | THREAD_READY | THREAD_BLOCKED | THREAD_DEAD

type_synonym thread_states = "nat \<Rightarrow> thread_state"

type_synonym spinlock = bool

definition spinlock_init :: "spinlock \<Rightarrow> spinlock" where
  "spinlock_init l = False"

definition spinlock_acquire :: "spinlock \<Rightarrow> spinlock option" where
  "spinlock_acquire l = (if l then None else Some True)"

definition spinlock_release :: "spinlock \<Rightarrow> spinlock" where
  "spinlock_release l = False"

definition spinlock_try_acquire :: "spinlock \<Rightarrow> int \<times> spinlock" where
  "spinlock_try_acquire l = (if l then 0 else 1, True)"

type_synonym wait_queue = "nat list"

definition waitqueue_init :: "wait_queue \<Rightarrow> wait_queue" where
  "waitqueue_init q = []"

definition waitqueue_add :: "bool \<Rightarrow> nat \<Rightarrow> wait_queue \<times> thread_states \<Rightarrow> (wait_queue \<times> thread_states) option" where
  "waitqueue_add kmalloc_ok t qs =
     (if kmalloc_ok then Some (t # fst qs, (snd qs)(t := THREAD_BLOCKED)) else None)"

fun waitqueue_remove_first :: "wait_queue \<Rightarrow> nat option \<times> wait_queue" where
  "waitqueue_remove_first [] = (None, [])"
| "waitqueue_remove_first (t # q) = (Some t, q)"

definition waitqueue_wakeup_one :: "wait_queue \<times> thread_states \<Rightarrow> wait_queue \<times> thread_states" where
  "waitqueue_wakeup_one qs =
     (case waitqueue_remove_first (fst qs) of
        (None, q) \<Rightarrow> (q, snd qs)
      | (Some t, q) \<Rightarrow> (q, (snd qs)(t := THREAD_READY)))"

fun waitqueue_wakeup_all :: "wait_queue \<Rightarrow> thread_states \<Rightarrow> wait_queue \<times> thread_states" where
  "waitqueue_wakeup_all [] ts = ([], ts)"
| "waitqueue_wakeup_all (t # q) ts = waitqueue_wakeup_all q (ts(t := THREAD_READY))"

lemma wakeup_all_spec:
  "waitqueue_wakeup_all q ts = ([], \<lambda>t. if t \<in> set q then THREAD_READY else ts t)"
proof (induction q ts rule: waitqueue_wakeup_all.induct)
  case (2 t q ts)
  have "(\<lambda>u. if u \<in> set q then THREAD_READY else (ts(t := THREAD_READY)) u)
      = (\<lambda>u. if u \<in> set (t # q) then THREAD_READY else ts u)" by auto
  then show ?case using 2 by (simp del: fun_upd_apply list.set)
qed simp

lemma wakeup_one_simps [simp]:
  "waitqueue_wakeup_one ([], ts) = ([], ts)"
  "waitqueue_wakeup_one (t # q, ts) = (q, ts(t := THREAD_READY))"
  by (simp_all add: waitqueue_wakeup_one_def)

end
