(* ===== verification/Mutex.thy ===== *)
theory Mutex
  imports Wait_Queue
begin

section \<open>Mutexes (src/kernel/mutex.c)\<close>

text \<open>
  The four operations under the mutex's spin lock (each is one atomic step), and the system of
  threads that use them: a thread is outside, asleep inside \<open>mutex_lock\<close>, or inside its critical
  section, that is \<open>mutex_lock\<close> has returned (or \<open>mutex_try_lock\<close> has returned 1).
\<close>

record mutex =
  locked :: bool
  mutex_owner :: "nat option"
  mutex_queue :: wait_queue

definition mutex_init :: "mutex \<Rightarrow> mutex" where
  "mutex_init m = \<lparr>locked = False, mutex_owner = None, mutex_queue = waitqueue_init (mutex_queue m)\<rparr>"

text \<open>The Boolean says that the thread goes to sleep in \<open>schedule\<close>; when it is woken \<open>mutex_lock\<close> returns.\<close>

definition mutex_lock :: "bool \<Rightarrow> nat \<Rightarrow> mutex \<times> thread_states \<Rightarrow> (bool \<times> mutex \<times> thread_states) option" where
  "mutex_lock kmalloc_ok t ms =
     (case ms of (m, ts) \<Rightarrow>
       if locked m
       then do {
         (q, ts') \<leftarrow> waitqueue_add kmalloc_ok t (mutex_queue m, ts);
         Some (True, m\<lparr>mutex_queue := q\<rparr>, ts') }
       else Some (False, m\<lparr>locked := True, mutex_owner := Some t\<rparr>, ts))"

definition mutex_unlock :: "nat \<Rightarrow> mutex \<times> thread_states \<Rightarrow> mutex \<times> thread_states" where
  "mutex_unlock t ms =
     (case ms of (m, ts) \<Rightarrow>
       if mutex_owner m \<noteq> Some t then (m, ts)
       else (case waitqueue_wakeup_one (mutex_queue m, ts) of
               (q, ts') \<Rightarrow> (\<lparr>locked = False, mutex_owner = None, mutex_queue = q\<rparr>, ts')))"

definition mutex_try_lock :: "nat \<Rightarrow> mutex \<Rightarrow> int \<times> mutex" where
  "mutex_try_lock t m =
     (if locked m then (0, m) else (1, m\<lparr>locked := True, mutex_owner := Some t\<rparr>))"

subsection \<open>Threads using a mutex\<close>

datatype mutex_pc = Outside | Asleep | Inside

record mutex_sys =
  mtx :: mutex
  mstates :: thread_states
  mpc :: "nat \<Rightarrow> mutex_pc"

inductive mutex_step :: "mutex_sys \<Rightarrow> mutex_sys \<Rightarrow> bool" where
  step_lock: "mpc s t = Outside \<Longrightarrow> mutex_lock True t (mtx s, mstates s) = Some (sleeps, m', ts') \<Longrightarrow>
    mutex_step s (s\<lparr>mtx := m', mstates := ts', mpc := (mpc s)(t := if sleeps then Asleep else Inside)\<rparr>)"
| step_wake: "mpc s t = Asleep \<Longrightarrow> mstates s t = THREAD_READY \<Longrightarrow>
    mutex_step s (s\<lparr>mstates := (mstates s)(t := THREAD_RUNNING), mpc := (mpc s)(t := Inside)\<rparr>)"
| step_try: "mpc s t = Outside \<Longrightarrow> mutex_try_lock t (mtx s) = (r, m') \<Longrightarrow>
    mutex_step s (s\<lparr>mtx := m', mpc := (mpc s)(t := if r = 1 then Inside else Outside)\<rparr>)"
| step_unlock: "mpc s t = Inside \<Longrightarrow> mutex_unlock t (mtx s, mstates s) = (m', ts') \<Longrightarrow>
    mutex_step s (s\<lparr>mtx := m', mstates := ts', mpc := (mpc s)(t := Outside)\<rparr>)"

inductive_cases mutex_step_cases: "mutex_step s s'"

definition mutex_start :: mutex_sys where
  "mutex_start = \<lparr>mtx = \<lparr>locked = False, mutex_owner = None, mutex_queue = []\<rparr>,
     mstates = (\<lambda>_. THREAD_RUNNING), mpc = (\<lambda>_. Outside)\<rparr>"

abbreviation mutex_reachable :: "mutex_sys \<Rightarrow> bool" where
  "mutex_reachable s \<equiv> mutex_step\<^sup>*\<^sup>* mutex_start s"

text \<open>What holds in every reachable state.\<close>

definition mutex_inv :: "mutex_sys \<Rightarrow> bool" where
  "mutex_inv s \<longleftrightarrow>
     (locked (mtx s) \<longleftrightarrow> mutex_owner (mtx s) \<noteq> None)
   \<and> (\<forall>t. mutex_owner (mtx s) = Some t \<longrightarrow> mpc s t = Inside)
   \<and> distinct (mutex_queue (mtx s))
   \<and> (\<forall>t\<in>set (mutex_queue (mtx s)). mpc s t = Asleep \<and> mstates s t = THREAD_BLOCKED)
   \<and> (\<forall>t. mpc s t = Asleep \<longrightarrow> t \<notin> set (mutex_queue (mtx s)) \<longrightarrow> mstates s t = THREAD_READY)"

lemma mutex_inv_start: "mutex_inv mutex_start"
  by (simp add: mutex_inv_def mutex_start_def)

lemma mutex_inv_step: "mutex_inv s \<Longrightarrow> mutex_step s s' \<Longrightarrow> mutex_inv s'"
proof (erule mutex_step.cases, goal_cases)
  case (1 s t sleeps m' ts')
  then show ?case
    by (auto simp: mutex_inv_def mutex_lock_def waitqueue_add_def split: if_splits)
next
  case (2 s t)
  then show ?case by (auto simp: mutex_inv_def)
next
  case (3 s t r m')
  then show ?case by (auto simp: mutex_inv_def mutex_try_lock_def split: if_splits)
next
  case (4 s t m' ts')
  then show ?case
    by (cases "mutex_queue (mtx s)") (auto simp: mutex_inv_def mutex_unlock_def split: if_splits)
qed

lemma mutex_inv_reachable: "mutex_reachable s \<Longrightarrow> mutex_inv s"
  by (induction rule: rtranclp_induct) (auto simp: mutex_inv_start intro: mutex_inv_step)

subsection \<open>Properties\<close>



text \<open>The mutex does not exclude. A contended \<open>mutex_lock\<close> returns after its wake-up without taking
  the lock, so two threads can be inside at once, one of them not the owner.\<close>

lemma mutex_no_exclusion:
  "\<exists>s. mutex_reachable s \<and> mpc s 1 = Inside \<and> mpc s 2 = Inside \<and> mutex_owner (mtx s) = Some 1"
proof -
  let ?u = "\<lambda>_. THREAD_RUNNING" and ?o = "\<lambda>_. Outside"
  let ?s1 = "\<lparr>mtx = \<lparr>locked = True, mutex_owner = Some 1, mutex_queue = []\<rparr>, mstates = ?u, mpc = ?o(1 := Inside)\<rparr>"
  let ?s2 = "\<lparr>mtx = \<lparr>locked = True, mutex_owner = Some 1, mutex_queue = [2]\<rparr>, mstates = ?u(2 := THREAD_BLOCKED),
      mpc = ?o(1 := Inside, 2 := Asleep)\<rparr>"
  let ?s3 = "\<lparr>mtx = \<lparr>locked = False, mutex_owner = None, mutex_queue = []\<rparr>, mstates = ?u(2 := THREAD_READY),
      mpc = ?o(1 := Outside, 2 := Asleep)\<rparr>"
  let ?s4 = "\<lparr>mtx = \<lparr>locked = False, mutex_owner = None, mutex_queue = []\<rparr>, mstates = ?u(2 := THREAD_RUNNING),
      mpc = ?o(1 := Outside, 2 := Inside)\<rparr>"
  let ?s5 = "\<lparr>mtx = \<lparr>locked = True, mutex_owner = Some 1, mutex_queue = []\<rparr>, mstates = ?u(2 := THREAD_RUNNING),
      mpc = ?o(1 := Inside, 2 := Inside)\<rparr>"
  have "mutex_step mutex_start ?s1"
    using step_lock [of mutex_start 1 False "mtx ?s1" "mstates ?s1"] by (simp add: mutex_start_def mutex_lock_def)
  moreover have "mutex_step ?s1 ?s2"
    using step_lock [of ?s1 2 True "mtx ?s2" "mstates ?s2"] by (simp add: mutex_lock_def waitqueue_add_def)
  moreover have "mutex_step ?s2 ?s3"
    using step_unlock [of ?s2 1 "mtx ?s3" "mstates ?s3"] by (simp add: mutex_unlock_def fun_upd_twist)
  moreover have "mutex_step ?s3 ?s4"
    using step_wake [of ?s3 2] by simp
  moreover have "mutex_step ?s4 ?s5"
    using step_try [of ?s4 1 1 "mtx ?s5"] by (simp add: mutex_try_lock_def fun_upd_twist)
  ultimately have "mutex_reachable ?s5" by (meson converse_rtranclp_into_rtranclp rtranclp.rtrancl_refl)
  then show ?thesis by (intro exI [of _ ?s5]) simp
qed

end
