(* ===== verification/Pipe.thy ===== *)
theory Pipe
  imports Wait_Queue Bounded_Fifo
begin

section \<open>Pipes (src/kernel/pipe.c)\<close>

text \<open>
  The byte ring of a pipe with its two wait queues. \<open>pipe_read\<close> and \<open>pipe_write\<close> are modelled up to
  the point where the calling thread goes to sleep in \<open>schedule\<close>; \<open>Sleep\<close> carries what the call has
  left to do, and waking up runs the loop again from there. Every part between two sleeps runs under
  the pipe's lock and is one step.
\<close>

definition PIPE_BUF_SIZE :: nat where
  "PIPE_BUF_SIZE = 4096"

definition EPIPE :: int where
  "EPIPE = 32"

record pipe =
  pipe_buffer :: "u8 list"
  read_pos :: nat
  write_pos :: nat
  data_size :: nat
  read_queue :: wait_queue
  write_queue :: wait_queue
  read_closed :: bool
  write_closed :: bool

text \<open>The new pipe holds whatever the heap block held: \<open>junk\<close>.\<close>

definition pipe_create :: "bool \<Rightarrow> u8 list \<Rightarrow> pipe option" where
  "pipe_create kmalloc_ok junk =
     (if \<not> kmalloc_ok then None
      else Some \<lparr>pipe_buffer = junk, read_pos = 0, write_pos = 0, data_size = 0, read_queue = [], write_queue = [],
                 read_closed = False, write_closed = False\<rparr>)"

definition pipe_destroy :: "pipe \<Rightarrow> thread_states \<Rightarrow> thread_states" where
  "pipe_destroy p ts = snd (waitqueue_wakeup_all (write_queue p) (snd (waitqueue_wakeup_all (read_queue p) ts)))"

text \<open>One byte out, one byte in.\<close>

definition pipe_get_byte :: "pipe \<Rightarrow> (u8 \<times> pipe) option" where
  "pipe_get_byte p =
     (if data_size p > 0
      then Some (pipe_buffer p ! read_pos p,
                 p\<lparr>read_pos := (read_pos p + 1) mod PIPE_BUF_SIZE, data_size := data_size p - 1\<rparr>)
      else None)"

definition pipe_put_byte :: "u8 \<Rightarrow> pipe \<Rightarrow> pipe" where
  "pipe_put_byte b p =
     (if data_size p \<ge> PIPE_BUF_SIZE then p
      else p\<lparr>pipe_buffer := (pipe_buffer p)[write_pos p := b],
             write_pos := (write_pos p + 1) mod PIPE_BUF_SIZE, data_size := data_size p + 1\<rparr>)"

text \<open>The copy loop of the reader.\<close>

fun pipe_take :: "nat \<Rightarrow> pipe \<Rightarrow> u8 list \<times> pipe" where
  "pipe_take 0 p = ([], p)"
| "pipe_take (Suc n) p =
     (case pipe_get_byte p of
        None \<Rightarrow> ([], p)
      | Some (b, p') \<Rightarrow> (case pipe_take n p' of (bs, p'') \<Rightarrow> (b # bs, p'')))"

datatype read_result = Read_error int | Read_sleep | Read_data "u8 list"

text \<open>\<open>buf_ok\<close>: neither pointer is null. \<open>t\<close> is the current thread.\<close>

definition pipe_read :: "bool \<Rightarrow> nat \<Rightarrow> nat \<Rightarrow> pipe \<times> thread_states \<Rightarrow> (read_result \<times> pipe \<times> thread_states) option" where
  "pipe_read buf_ok t count ps =
     (case ps of (p, ts) \<Rightarrow>
       if \<not> buf_ok then Some (Read_error (- EINVAL), p, ts)
       else if data_size p = 0 \<and> \<not> write_closed p
       then do {
         (q, ts') \<leftarrow> waitqueue_add True t (read_queue p, ts);
         Some (Read_sleep, p\<lparr>read_queue := q\<rparr>, ts') }
       else if data_size p = 0 \<and> write_closed p then Some (Read_data [], p, ts)
       else
         let (bs, p1) = pipe_take count p;
             (q, ts') = waitqueue_wakeup_one (write_queue p1, ts)
         in Some (Read_data bs, p1\<lparr>write_queue := q\<rparr>, ts'))"

datatype write_result = Write_ret int | Write_sleep "u8 list" nat

text \<open>The writer's loop, from the bytes left and the number already written.\<close>

fun pipe_write_loop :: "nat \<Rightarrow> u8 list \<Rightarrow> nat \<Rightarrow> pipe \<times> thread_states \<Rightarrow> (write_result \<times> pipe \<times> thread_states) option" where
  "pipe_write_loop t [] written (p, ts) =
     (let (q, ts') = waitqueue_wakeup_one (read_queue p, ts)
      in Some (Write_ret (int written), p\<lparr>read_queue := q\<rparr>, ts'))"
| "pipe_write_loop t (b # bs) written (p, ts) =
     (if data_size p \<ge> PIPE_BUF_SIZE \<and> \<not> read_closed p
      then do {
        (q, ts') \<leftarrow> waitqueue_add True t (write_queue p, ts);
        Some (Write_sleep (b # bs) written, p\<lparr>write_queue := q\<rparr>, ts') }
      else if read_closed p then Some (Write_ret (if written > 0 then int written else - EPIPE), p, ts)
      else pipe_write_loop t bs (written + 1) (pipe_put_byte b p, ts))"

definition pipe_write :: "bool \<Rightarrow> nat \<Rightarrow> u8 list \<Rightarrow> pipe \<times> thread_states \<Rightarrow> (write_result \<times> pipe \<times> thread_states) option" where
  "pipe_write buf_ok t buf ps =
     (if \<not> buf_ok then Some (Write_ret (- EINVAL), ps)
      else if read_closed (fst ps) then Some (Write_ret (- EPIPE), ps)
      else pipe_write_loop t buf 0 ps)"

definition pipe_close_read :: "pipe \<times> thread_states \<Rightarrow> pipe \<times> thread_states" where
  "pipe_close_read ps =
     (case ps of (p, ts) \<Rightarrow>
       case waitqueue_wakeup_all (write_queue p) ts of (q, ts') \<Rightarrow> (p\<lparr>read_closed := True, write_queue := q\<rparr>, ts'))"

definition pipe_close_write :: "pipe \<times> thread_states \<Rightarrow> pipe \<times> thread_states" where
  "pipe_close_write ps =
     (case ps of (p, ts) \<Rightarrow>
       case waitqueue_wakeup_all (read_queue p) ts of (q, ts') \<Rightarrow> (p\<lparr>write_closed := True, read_queue := q\<rparr>, ts'))"

subsection \<open>The ring as a queue\<close>

definition pipe_inv :: "pipe \<Rightarrow> bool" where
  "pipe_inv p \<longleftrightarrow> length (pipe_buffer p) = PIPE_BUF_SIZE \<and> read_pos p < PIPE_BUF_SIZE \<and> data_size p \<le> PIPE_BUF_SIZE
     \<and> write_pos p = (read_pos p + data_size p) mod PIPE_BUF_SIZE"

definition pipe_contents :: "pipe \<Rightarrow> u8 list" where
  "pipe_contents p = ring_list (pipe_buffer p) (read_pos p) (data_size p)"

lemma PIPE_BUF_SIZE_pos [simp]: "0 < PIPE_BUF_SIZE"
  by (simp add: PIPE_BUF_SIZE_def)

lemma length_pipe_contents [simp]: "length (pipe_contents p) = data_size p"
  by (simp add: pipe_contents_def)

lemma pipe_put_spec:
  "pipe_inv p \<Longrightarrow> pipe_inv (pipe_put_byte b p) \<and> pipe_contents (pipe_put_byte b p) = take PIPE_BUF_SIZE (pipe_contents p @ [b])"
  by (auto simp: pipe_inv_def pipe_put_byte_def pipe_contents_def ring_push ring_tail_push)

lemma pipe_get_spec:
  "pipe_inv p \<Longrightarrow> pipe_get_byte p = Some (b, p') \<Longrightarrow> pipe_inv p' \<and> pipe_contents p = b # pipe_contents p'"
  by (auto simp: pipe_inv_def pipe_get_byte_def pipe_contents_def ring_simps ring_pop split: if_splits)

interpretation pipeq: bounded_fifo pipe_put_byte pipe_get_byte pipe_contents pipe_inv PIPE_BUF_SIZE
proof unfold_locales
  fix p
  show "pipe_get_byte p = None \<longleftrightarrow> pipe_contents p = []"
    by (auto simp: pipe_get_byte_def pipe_contents_def ring_list_def)
  show "pipe_inv p \<Longrightarrow> length (pipe_contents p) \<le> PIPE_BUF_SIZE" by (simp add: pipe_inv_def)
qed (simp_all add: pipe_put_spec pipe_get_spec)

lemma pipe_create_inv:
  "length junk = PIPE_BUF_SIZE \<Longrightarrow> pipe_create True junk = Some p \<Longrightarrow> pipe_inv p \<and> pipe_contents p = []"
  by (auto simp: pipe_create_def pipe_inv_def pipe_contents_def)

lemma pipe_put_frame [simp]:
  "read_closed (pipe_put_byte b p) = read_closed p" "write_closed (pipe_put_byte b p) = write_closed p"
  "read_queue (pipe_put_byte b p) = read_queue p" "write_queue (pipe_put_byte b p) = write_queue p"
  by (simp_all add: pipe_put_byte_def)

lemma pipe_contents_queues [simp]:
  "pipe_contents (p\<lparr>read_queue := q\<rparr>) = pipe_contents p" "pipe_contents (p\<lparr>write_queue := q\<rparr>) = pipe_contents p"
  "pipe_inv (p\<lparr>read_queue := q\<rparr>) = pipe_inv p" "pipe_inv (p\<lparr>write_queue := q\<rparr>) = pipe_inv p"
  by (simp_all add: pipe_contents_def pipe_inv_def)

lemma pipe_take_spec:
  "pipe_inv p \<Longrightarrow> pipe_take n p = (bs, p') \<Longrightarrow>
   pipe_inv p' \<and> bs = take n (pipe_contents p) \<and> pipe_contents p' = drop n (pipe_contents p)
   \<and> read_queue p' = read_queue p \<and> write_queue p' = write_queue p"
proof (induction n p arbitrary: bs rule: pipe_take.induct)
  case (2 n p)
  show ?case
  proof (cases "pipe_get_byte p")
    case None
    then show ?thesis using 2 pipeq.pop_None [of p] by auto
  next
    case (Some r)
    obtain b p1 where r: "r = (b, p1)" by (cases r)
    have g: "pipe_inv p1" "pipe_contents p = b # pipe_contents p1" "read_queue p1 = read_queue p" "write_queue p1 = write_queue p"
      using pipe_get_spec [OF "2.prems"(1)] Some r by (auto simp: pipe_get_byte_def split: if_splits)
    obtain cs where cs: "pipe_take n p1 = (cs, p')" "bs = b # cs"
      using "2.prems"(2) Some r by (auto split: prod.splits)
    show ?thesis using "2.IH" [OF Some r [symmetric] g(1) cs(1)] g cs(2) r Some by auto
  qed
qed auto

text \<open>What a write stores before it returns or sleeps.\<close>

lemma pipe_put_step:
  assumes "pipe_inv p" "data_size p < PIPE_BUF_SIZE"
  shows "pipe_contents (pipe_put_byte b p) = pipe_contents p @ [b]" "pipe_inv (pipe_put_byte b p)"
    "data_size (pipe_put_byte b p) = Suc (data_size p)"
  using pipe_put_spec [OF assms(1), of b] assms(2) by (simp_all add: pipe_put_byte_def)

lemma pipe_write_loop_fits:
  "pipe_inv p \<Longrightarrow> \<not> read_closed p \<Longrightarrow> data_size p + length bs \<le> PIPE_BUF_SIZE \<Longrightarrow>
   \<exists>p'. pipe_write_loop t bs w (p, ts) =
      (case waitqueue_wakeup_one (read_queue p, ts) of (q, ts') \<Rightarrow>
         Some (Write_ret (int (w + length bs)), p'\<lparr>read_queue := q\<rparr>, ts'))
     \<and> pipe_inv p' \<and> pipe_contents p' = pipe_contents p @ bs \<and> write_queue p' = write_queue p"
proof (induction bs arbitrary: p w)
  case Nil
  then show ?case by (intro exI [of _ p]) (simp split: prod.splits)
next
  case (Cons b bs)
  have lt: "data_size p < PIPE_BUF_SIZE" using Cons.prems(3) by simp
  note put = pipe_put_step [OF Cons.prems(1) lt, of b]
  have pre: "\<not> read_closed (pipe_put_byte b p)" "data_size (pipe_put_byte b p) + length bs \<le> PIPE_BUF_SIZE"
    using Cons.prems put(3) by simp_all
  have step: "pipe_write_loop t (b # bs) w (p, ts) = pipe_write_loop t bs (w + 1) (pipe_put_byte b p, ts)"
    using Cons.prems(2) lt by simp
  have w: "w + length (b # bs) = w + 1 + length bs" "pipe_contents p @ b # bs = pipe_contents (pipe_put_byte b p) @ bs"
    by (simp_all add: put(1))
  show ?case unfolding step w using Cons.IH [OF put(2) pre, of "w + 1"] unfolding pipe_put_frame .
qed

lemma pipe_write_loop_full:
  "pipe_inv p \<Longrightarrow> \<not> read_closed p \<Longrightarrow> data_size p + length bs > PIPE_BUF_SIZE \<Longrightarrow>
   \<exists>p'. pipe_write_loop t bs w (p, ts) =
      Some (Write_sleep (drop (PIPE_BUF_SIZE - data_size p) bs) (w + (PIPE_BUF_SIZE - data_size p)),
            p'\<lparr>write_queue := t # write_queue p\<rparr>, ts(t := THREAD_BLOCKED))
     \<and> pipe_inv p' \<and> pipe_contents p' = pipe_contents p @ take (PIPE_BUF_SIZE - data_size p) bs
     \<and> read_queue p' = read_queue p"
proof (induction bs arbitrary: p w)
  case Nil
  then show ?case by (simp add: pipe_inv_def)
next
  case (Cons b bs)
  show ?case
  proof (cases "data_size p \<ge> PIPE_BUF_SIZE")
    case True
    then have "PIPE_BUF_SIZE - data_size p = 0" by simp
    then show ?thesis using True Cons.prems
      by (intro exI [of _ p]) (simp add: waitqueue_add_def del: fun_upd_apply)
  next
    case False
    then have lt: "data_size p < PIPE_BUF_SIZE" by simp
    note put = pipe_put_step [OF Cons.prems(1) lt, of b]
    have pre: "\<not> read_closed (pipe_put_byte b p)" "data_size (pipe_put_byte b p) + length bs > PIPE_BUF_SIZE"
      using Cons.prems put(3) by simp_all
    have step: "pipe_write_loop t (b # bs) w (p, ts) = pipe_write_loop t bs (w + 1) (pipe_put_byte b p, ts)"
      using Cons.prems(2) lt by simp
    define k where "k = PIPE_BUF_SIZE - Suc (data_size p)"
    have n: "PIPE_BUF_SIZE - data_size p = Suc k" using lt by (simp add: k_def)
    have w: "w + Suc k = w + 1 + k" "pipe_contents p @ take (Suc k) (b # bs) = pipe_contents (pipe_put_byte b p) @ take k bs"
      "drop (Suc k) (b # bs) = drop k bs"
      by (simp_all add: put(1))
    show ?thesis unfolding step n w using Cons.IH [OF put(2) pre, of "w + 1"] unfolding pipe_put_frame put(3) k_def .
  qed
qed

subsection \<open>Properties\<close>

text \<open>C14: what is written to a pipe is read back in order: a write that fits returns its length and a
  following read of at most \<open>n\<close> bytes returns the first \<open>n\<close> of the bytes pending before plus those
  written, leaving the others. After \<open>pipe_close_write\<close> a read drains what is left and then returns
  end of file; after \<open>pipe_close_read\<close> a write fails with \<open>-EPIPE\<close>; both wake every sleeper.\<close>

theorem pipe_transfer:
  assumes "pipe_inv p" "\<not> read_closed p" "data_size p + length bs \<le> PIPE_BUF_SIZE" "bs \<noteq> []"
  shows "(\<exists>p1 ts1 p2 ts2.
       pipe_write True t bs (p, ts) = Some (Write_ret (int (length bs)), p1, ts1)
     \<and> pipe_read True u n (p1, ts1) = Some (Read_data (take n (pipe_contents p @ bs)), p2, ts2)
     \<and> pipe_inv p2 \<and> pipe_contents p2 = drop n (pipe_contents p @ bs))
   \<and> (\<exists>p1 ts1 r p2 ts2. pipe_close_write (p, ts) = (p1, ts1) \<and> pipe_read True u n (p1, ts1) = Some (Read_data r, p2, ts2)
        \<and> r = take n (pipe_contents p) \<and> (\<forall>v\<in>set (read_queue p). ts1 v = THREAD_READY))
   \<and> (\<exists>p1 ts1. pipe_close_read (p, ts) = (p1, ts1) \<and> pipe_write True t bs (p1, ts1) = Some (Write_ret (- EPIPE), p1, ts1)
        \<and> (\<forall>v\<in>set (write_queue p). ts1 v = THREAD_READY))"
proof (intro conjI)
  obtain q ts' where q: "waitqueue_wakeup_one (read_queue p, ts) = (q, ts')" by (rule prod.exhaust)
  obtain p' where p': "pipe_write_loop t bs 0 (p, ts) = Some (Write_ret (int (length bs)), p'\<lparr>read_queue := q\<rparr>, ts')"
    "pipe_inv p'" "pipe_contents p' = pipe_contents p @ bs"
    using pipe_write_loop_fits [OF assms(1-3), of t 0 ts] q by auto
  let ?p1 = "p'\<lparr>read_queue := q\<rparr>"
  have w: "pipe_write True t bs (p, ts) = Some (Write_ret (int (length bs)), ?p1, ts')"
    using p'(1) assms(2) by (simp add: pipe_write_def)
  have ne: "data_size ?p1 \<noteq> 0" using assms(4) p'(3) length_pipe_contents [of p'] by (cases bs) auto
  obtain out p2 where take: "pipe_take n ?p1 = (out, p2)" by (rule prod.exhaust)
  have p2: "pipe_inv p2" "out = take n (pipe_contents p @ bs)" "pipe_contents p2 = drop n (pipe_contents p @ bs)"
    using pipe_take_spec [OF _ take] p' by simp_all
  then show "\<exists>p1 ts1 p2 ts2. pipe_write True t bs (p, ts) = Some (Write_ret (int (length bs)), p1, ts1)
     \<and> pipe_read True u n (p1, ts1) = Some (Read_data (take n (pipe_contents p @ bs)), p2, ts2)
     \<and> pipe_inv p2 \<and> pipe_contents p2 = drop n (pipe_contents p @ bs)"
    using w ne take by (cases "waitqueue_wakeup_one (write_queue p2, ts')") (simp add: pipe_read_def)
next
  let ?p1 = "p\<lparr>write_closed := True, read_queue := []\<rparr>"
  obtain out p2 where take: "pipe_take n ?p1 = (out, p2)" by (rule prod.exhaust)
  have c: "pipe_inv ?p1" "pipe_contents ?p1 = pipe_contents p" using assms(1) by (simp_all add: pipe_inv_def pipe_contents_def)
  then have "out = take n (pipe_contents p)" using pipe_take_spec [OF c(1) take] by simp
  moreover have "pipe_contents p = []" if "data_size p = 0" using that by (simp add: pipe_contents_def)
  ultimately show "\<exists>p1 ts1 r p2 ts2. pipe_close_write (p, ts) = (p1, ts1) \<and> pipe_read True u n (p1, ts1) = Some (Read_data r, p2, ts2)
        \<and> r = take n (pipe_contents p) \<and> (\<forall>v\<in>set (read_queue p). ts1 v = THREAD_READY)"
    using take by (cases "data_size p = 0")
      (auto simp: pipe_close_write_def wakeup_all_spec pipe_read_def split: prod.splits)
next
  show "\<exists>p1 ts1. pipe_close_read (p, ts) = (p1, ts1) \<and> pipe_write True t bs (p1, ts1) = Some (Write_ret (- EPIPE), p1, ts1)
        \<and> (\<forall>v\<in>set (write_queue p). ts1 v = THREAD_READY)"
    by (simp add: pipe_close_read_def wakeup_all_spec pipe_write_def)
qed

definition pipe_demo :: pipe where
  "pipe_demo = \<lparr>pipe_buffer = replicate PIPE_BUF_SIZE 0, read_pos = 0, write_pos = 0, data_size = 0, read_queue = [7],
     write_queue = [], read_closed = False, write_closed = False\<rparr>"

lemma pipe_demo_inv: "pipe_inv pipe_demo" "pipe_contents pipe_demo = []"
  by (simp_all add: pipe_inv_def pipe_demo_def pipe_contents_def)

theorem pipe_transfer_witness:
  "\<exists>p1 ts1 p2 ts2. pipe_write True 1 [65, 66, 67] (pipe_demo, \<lambda>_. THREAD_RUNNING) = Some (Write_ret 3, p1, ts1)
     \<and> pipe_read True 2 2 (p1, ts1) = Some (Read_data [65, 66], p2, ts2) \<and> pipe_contents p2 = [67]"
proof -
  have "\<not> read_closed pipe_demo" "data_size pipe_demo + length [65, 66, 67 :: u8] \<le> PIPE_BUF_SIZE"
    by (simp_all add: pipe_demo_def PIPE_BUF_SIZE_def)
  from conjunct1 [OF pipe_transfer [OF pipe_demo_inv(1) this, of 1 "\<lambda>_. THREAD_RUNNING" 2 2]]
  show ?thesis by (simp add: pipe_demo_inv(2)) blast
qed

text \<open>C15: a write larger than the buffer into a pipe whose reader already sleeps blocks both for good:
  the writer fills the buffer and goes to sleep without waking the reader, which it only does at its
  end, so the pipe is full and reader and writer are both blocked.\<close>

theorem pipe_large_write_deadlock:
  assumes "pipe_inv p" "\<not> read_closed p" "pipe_contents p = []" "read_queue p = [r]" "ts r = THREAD_BLOCKED"
    and "r \<noteq> t" "PIPE_BUF_SIZE < length bs"
  shows "\<exists>p' ts'. pipe_write True t bs (p, ts) = Some (Write_sleep (drop PIPE_BUF_SIZE bs) PIPE_BUF_SIZE, p', ts')
     \<and> data_size p' = PIPE_BUF_SIZE \<and> read_queue p' = [r] \<and> t \<in> set (write_queue p')
     \<and> ts' r = THREAD_BLOCKED \<and> ts' t = THREAD_BLOCKED"
proof -
  have d: "data_size p = 0" using assms(3) length_pipe_contents [of p] by simp
  obtain p' where p': "pipe_write_loop t bs 0 (p, ts) = Some (Write_sleep (drop PIPE_BUF_SIZE bs) PIPE_BUF_SIZE,
      p'\<lparr>write_queue := t # write_queue p\<rparr>, ts(t := THREAD_BLOCKED))"
    "pipe_contents p' = take PIPE_BUF_SIZE bs" "read_queue p' = read_queue p"
    using pipe_write_loop_full [OF assms(1,2), of bs t 0 ts] assms(3,7) d by auto
  then have "data_size p' = PIPE_BUF_SIZE" using length_pipe_contents [of p'] assms(7) by simp
  then show ?thesis using p' assms by (simp add: pipe_write_def)
qed

theorem pipe_large_write_deadlock_witness:
  "\<exists>p' ts'. pipe_write True 1 (replicate 5000 0) (pipe_demo, (\<lambda>_. THREAD_RUNNING)(7 := THREAD_BLOCKED))
      = Some (Write_sleep (drop PIPE_BUF_SIZE (replicate 5000 0)) PIPE_BUF_SIZE, p', ts')
     \<and> ts' 7 = THREAD_BLOCKED \<and> ts' 1 = THREAD_BLOCKED"
proof -
  have "\<not> read_closed pipe_demo" "read_queue pipe_demo = [7]" by (simp_all add: pipe_demo_def)
  then show ?thesis
    using pipe_large_write_deadlock [OF pipe_demo_inv(1) _ pipe_demo_inv(2), of 7 "(\<lambda>_. THREAD_RUNNING)(7 := THREAD_BLOCKED)" 1 "replicate 5000 0"]
    by (simp add: PIPE_BUF_SIZE_def) blast
qed

end
