(* ===== verification/Scheduler.thy ===== *)
theory Scheduler
  imports Wait_Queue
begin

section \<open>The scheduler (src/kernel/scheduler.c)\<close>

text \<open>
  The circular ready queue as the code has it: \<open>ready_queue\<close> points at the last thread, each thread
  has a \<open>next\<close> pointer, and the blocks of dead threads are freed. Threads are named by their id, 0 is
  the kernel thread. Following a pointer into a freed block gives \<open>None\<close>, as do the panic \<open>No runnable
  threads\<close> and a search that never ends. The release of a dead thread's memory is its entry in
  \<open>freed\<close>; the register switch is in \<open>Thread\<close>.
\<close>

record sched =
  ready_queue :: "nat option"
  current_thread :: "nat option"
  nxt :: "nat \<Rightarrow> nat"
  tstate :: thread_states
  freed :: "nat list"

definition scheduler_init :: "sched \<Rightarrow> sched" where
  "scheduler_init s = s\<lparr>ready_queue := None\<rparr>"

definition scheduler_add_thread :: "nat \<Rightarrow> sched \<Rightarrow> sched" where
  "scheduler_add_thread t s =
     (case ready_queue s of
        None \<Rightarrow> s\<lparr>ready_queue := Some t, nxt := (nxt s)(t := t)\<rparr>
      | Some r \<Rightarrow> s\<lparr>nxt := (nxt s)(t := nxt s r, r := t), ready_queue := Some t\<rparr>)"

definition get_current_thread :: "sched \<Rightarrow> nat option" where
  "get_current_thread s = current_thread s"

text \<open>
  The search: drop dead threads other than \<open>old\<close>, stop at the first ready one, give up when the walk
  is back at \<open>start\<close>. The result is \<open>next_thread\<close> and the queue.
\<close>

partial_function (option) sched_loop :: "nat \<Rightarrow> nat \<Rightarrow> nat \<Rightarrow> nat \<Rightarrow> sched \<Rightarrow> (nat \<times> sched) option" where
  "sched_loop start old prev cur s =
     (if cur \<in> set (freed s) then None
      else if tstate s cur = THREAD_DEAD \<and> cur \<noteq> 0
      then if cur = old
           then (if nxt s cur = start then Some (start, s) else sched_loop start old cur (nxt s cur) s)
           else if prev \<in> set (freed s) then None
           else (let c = nxt s cur;
                     s1 = s\<lparr>nxt := (nxt s)(prev := c),
                            ready_queue := (if ready_queue s = Some cur then Some prev else ready_queue s),
                            freed := cur # freed s\<rparr>
                 in if c = start then Some (start, s1) else sched_loop start old prev c s1)
      else if tstate s cur = THREAD_READY then Some (cur, s)
      else if nxt s cur = start then Some (start, s)
      else sched_loop start old cur (nxt s cur) s)"

definition schedule :: "sched \<Rightarrow> sched option" where
  "schedule s =
     (case (current_thread s, ready_queue s) of
        (Some old, Some r) \<Rightarrow> do {
          (next_thread, s1) \<leftarrow> sched_loop (nxt s r) old r (nxt s r) s;
          if next_thread \<in> set (freed s1) then None
          else if tstate s1 next_thread \<noteq> THREAD_READY
          then (if tstate s1 old = THREAD_RUNNING then Some s1 else None)
          else let ts = (if tstate s1 old = THREAD_RUNNING then (tstate s1)(old := THREAD_READY) else tstate s1)
               in Some (s1\<lparr>ready_queue := Some next_thread, tstate := ts(next_thread := THREAD_RUNNING),
                          current_thread := Some next_thread\<rparr>) }
      | _ \<Rightarrow> Some s)"

subsection \<open>The queue as a list\<close>

text \<open>The pointers form the ring \<open>ts\<close>, first to run first; the queue pointer is at its last element.\<close>

definition sched_ring :: "sched \<Rightarrow> nat list \<Rightarrow> bool" where
  "sched_ring s ts \<longleftrightarrow> ts \<noteq> [] \<and> distinct ts \<and> ready_queue s = Some (last ts)
     \<and> (\<forall>i<length ts. nxt s (ts ! i) = ts ! (Suc i mod length ts)) \<and> set ts \<inter> set (freed s) = {}"

lemma sched_ring_next_last: "sched_ring s ts \<Longrightarrow> nxt s (last ts) = hd ts"
  by (auto simp: sched_ring_def last_conv_nth hd_conv_nth dest: spec [of _ "length ts - 1"])

lemma add_thread_empty:
  "ready_queue s = None \<Longrightarrow> t \<notin> set (freed s) \<Longrightarrow> sched_ring (scheduler_add_thread t s) [t]"
  by (simp add: sched_ring_def scheduler_add_thread_def)

lemma add_thread_ring:
  assumes "sched_ring s ts" "t \<notin> set ts" "t \<notin> set (freed s)"
  shows "sched_ring (scheduler_add_thread t s) (ts @ [t])"
proof -
  let ?n = "(nxt s)(t := hd ts, last ts := t)" and ?k = "length ts"
  have ne: "ts \<noteq> []" "distinct ts" and nx: "\<And>i. i < ?k \<Longrightarrow> nxt s (ts ! i) = ts ! (Suc i mod ?k)"
    using assms(1) by (auto simp: sched_ring_def)
  have add: "scheduler_add_thread t s = s\<lparr>nxt := ?n, ready_queue := Some t\<rparr>"
    using assms(1) sched_ring_next_last [OF assms(1)] by (simp add: scheduler_add_thread_def sched_ring_def)
  have "?n ((ts @ [t]) ! i) = (ts @ [t]) ! (Suc i mod Suc ?k)" if "i < Suc ?k" for i
  proof -
    consider "i = ?k" | "i = ?k - 1" "i < ?k" | "Suc i < ?k" using \<open>i < Suc ?k\<close> by linarith
    then show ?thesis
    proof cases
      case 1
      moreover have "t \<noteq> last ts" using ne assms(2) last_in_set by metis
      ultimately show ?thesis using ne by (simp add: hd_conv_nth nth_append)
    next
      case 2
      then show ?thesis using ne by (simp add: last_conv_nth nth_append)
    next
      case 3
      then have "ts ! i \<noteq> last ts" "ts ! i \<noteq> t"
        using ne assms(2) by (auto simp: last_conv_nth nth_eq_iff_index_eq)
      then show ?thesis using 3 nx [of i] by (simp add: nth_append)
    qed
  qed
  then show ?thesis using assms ne by (simp add: add sched_ring_def)
qed

text \<open>With no dead thread in the ring the search finds the first ready thread in ring order.\<close>

definition first_ready :: "sched \<Rightarrow> nat list \<Rightarrow> nat option" where
  "first_ready s ts = List.find (\<lambda>t. tstate s t = THREAD_READY) ts"

lemma sched_loop_alive:
  assumes "sched_ring s ts" "\<forall>t\<in>set ts. tstate s t \<noteq> THREAD_DEAD" "i < length ts"
  shows "sched_loop (hd ts) old prev (ts ! i) s =
     Some (case first_ready s (drop i ts) of None \<Rightarrow> hd ts | Some t \<Rightarrow> t, s)"
  using assms(3)
proof (induction "length ts - i" arbitrary: i prev rule: less_induct)
  case less
  have c: "ts ! i \<in> set ts" using less.prems by simp
  then have alive: "ts ! i \<notin> set (freed s)" "tstate s (ts ! i) \<noteq> THREAD_DEAD"
    using assms(1,2) by (auto simp: sched_ring_def)
  have nx: "nxt s (ts ! i) = ts ! (Suc i mod length ts)" using assms(1) less.prems by (simp add: sched_ring_def)
  have d: "drop i ts = ts ! i # drop (Suc i) ts" using less.prems by (rule Cons_nth_drop_Suc [symmetric])
  show ?case
  proof (cases "tstate s (ts ! i) = THREAD_READY")
    case True
    then show ?thesis using alive by (subst sched_loop.simps) (simp add: d first_ready_def)
  next
    case False
    have step: "sched_loop (hd ts) old prev (ts ! i) s =
        (if nxt s (ts ! i) = hd ts then Some (hd ts, s) else sched_loop (hd ts) old (ts ! i) (nxt s (ts ! i)) s)"
      using alive False by (subst sched_loop.simps) simp
    show ?thesis
    proof (cases "Suc i < length ts")
      case True
      have "ts ! Suc i \<noteq> hd ts"
        using True assms(1) by (simp add: sched_ring_def hd_conv_nth nth_eq_iff_index_eq)
      then show ?thesis
        using step True nx less.hyps [of "Suc i" "ts ! i"] less.prems False d
        by (simp add: first_ready_def)
    next
      case last: False
      then have "Suc i = length ts" using less.prems by simp
      then show ?thesis using step nx False d assms(1) by (simp add: first_ready_def hd_conv_nth sched_ring_def)
    qed
  qed
qed

lemma schedule_alive:
  assumes "sched_ring s ts" "\<forall>t\<in>set ts. tstate s t \<noteq> THREAD_DEAD" "current_thread s = Some old" "first_ready s ts = Some t"
  shows "schedule s = Some (s\<lparr>ready_queue := Some t,
     tstate := (if tstate s old = THREAD_RUNNING then (tstate s)(old := THREAD_READY) else tstate s)(t := THREAD_RUNNING),
     current_thread := Some t\<rparr>)"
proof -
  have ne: "ts \<noteq> []" "ready_queue s = Some (last ts)" using assms(1) by (auto simp: sched_ring_def)
  have "sched_loop (hd ts) old (last ts) (hd ts) s = Some (t, s)"
    using sched_loop_alive [OF assms(1,2), of 0 old "last ts"] ne assms(4) by (simp add: hd_conv_nth)
  moreover have "t \<in> set ts" "tstate s t = THREAD_READY"
    using assms(4) by (auto simp: first_ready_def find_Some_iff)
  moreover have "t \<notin> set (freed s)" using assms(1) \<open>t \<in> set ts\<close> by (auto simp: sched_ring_def)
  ultimately show ?thesis
    using ne assms(3) sched_ring_next_last [OF assms(1)] by (simp add: schedule_def Let_def)
qed

lemma sched_ring_rotate:
  assumes "sched_ring s ts" "ready_queue s' = Some (hd ts)" "nxt s' = nxt s" "freed s' = freed s"
  shows "sched_ring s' (rotate1 ts)"
proof -
  let ?n = "length ts"
  have "nxt s' (rotate1 ts ! i) = rotate1 ts ! (Suc i mod ?n)" if "i < ?n" for i
  proof -
    have m: "Suc i mod ?n < ?n" using that by (intro mod_less_divisor) linarith
    have "rotate1 ts ! i = ts ! (Suc i mod ?n)" "rotate1 ts ! (Suc i mod ?n) = ts ! (Suc (Suc i mod ?n) mod ?n)"
      using that m nth_rotate1 [of i ts] nth_rotate1 [of "Suc i mod ?n" ts] by simp_all
    moreover have "nxt s (ts ! (Suc i mod ?n)) = ts ! (Suc (Suc i mod ?n) mod ?n)"
      using assms(1) that unfolding sched_ring_def by (metis gr_implies_not0 length_greater_0_conv mod_less_divisor)
    ultimately show ?thesis using assms(3) by simp
  qed
  moreover have "last (rotate1 ts) = hd ts" using assms(1) by (cases ts) (auto simp: sched_ring_def)
  ultimately show ?thesis using assms by (auto simp: sched_ring_def)
qed

text \<open>All threads of the ring can run and the last one is running.\<close>

definition sched_fair :: "sched \<Rightarrow> nat list \<Rightarrow> bool" where
  "sched_fair s ts \<longleftrightarrow> sched_ring s ts \<and> current_thread s = Some (last ts) \<and> tstate s (last ts) = THREAD_RUNNING
     \<and> (\<forall>t\<in>set (butlast ts). tstate s t = THREAD_READY)"

lemma schedule_fair:
  assumes "sched_fair s ts"
  shows "\<exists>s'. schedule s = Some s' \<and> sched_fair s' (rotate1 ts)"
proof -
  have ring: "sched_ring s ts" and ne: "ts \<noteq> []" "distinct ts"
    and st: "tstate s (last ts) = THREAD_RUNNING" "\<And>t. t \<in> set (butlast ts) \<Longrightarrow> tstate s t = THREAD_READY"
    and cur: "current_thread s = Some (last ts)" using assms by (auto simp: sched_fair_def sched_ring_def)
  have set: "set ts = insert (last ts) (set (butlast ts))"
    using ne by (metis append_butlast_last_id list.simps(15) rotate1.simps(2) set_rotate1 append_Cons append_Nil)
  have alive: "\<forall>t\<in>set ts. tstate s t \<noteq> THREAD_DEAD" using st set by auto
  obtain x xs where ts: "ts = x # xs" using ne by (cases ts) auto
  show ?thesis
  proof (cases "xs = []")
    case True
    then have "sched_loop (hd ts) x x (hd ts) s = Some (x, s)"
      using sched_loop_alive [OF ring alive, of 0 x x] ts st by (simp add: first_ready_def)
    moreover have "x \<notin> set (freed s)" using ring ts by (auto simp: sched_ring_def)
    ultimately have "schedule s = Some s"
      using True ts cur st ring sched_ring_next_last [OF ring] by (simp add: schedule_def sched_ring_def)
    then show ?thesis using assms True ts by simp
  next
    case False
    then have x: "tstate s x = THREAD_READY" "x \<noteq> last ts" using st(2) [of x] ts ne by auto
    then have fr: "first_ready s ts = Some x" by (simp add: ts first_ready_def)
    let ?s = "s\<lparr>ready_queue := Some x, tstate := (tstate s)(last ts := THREAD_READY, x := THREAD_RUNNING), current_thread := Some x\<rparr>"
    have "schedule s = Some ?s" using schedule_alive [OF ring alive cur fr] st(1) by simp
    moreover have "sched_ring ?s (rotate1 ts)" using sched_ring_rotate [OF ring] ts by simp
    moreover have "tstate ?s t = THREAD_READY" if "t \<in> set (butlast (rotate1 ts))" for t
    proof -
      have "t \<in> set xs" using that ts by simp
      then have "t \<noteq> x" "t = last ts \<or> t \<in> set (butlast ts)" using ne ts set by auto
      then show ?thesis using st(2) by auto
    qed
    ultimately show ?thesis using ts by (auto simp: sched_fair_def)
  qed
qed

fun schedule_n :: "nat \<Rightarrow> sched \<Rightarrow> sched option" where
  "schedule_n 0 s = Some s"
| "schedule_n (Suc k) s = do { s' \<leftarrow> schedule_n k s; schedule s' }"

lemma schedule_n_fair: "sched_fair s ts \<Longrightarrow> \<exists>s'. schedule_n k s = Some s' \<and> sched_fair s' (rotate k ts)"
proof (induction k)
  case (Suc k)
  then obtain s' where "schedule_n k s = Some s'" "sched_fair s' (rotate k ts)" by blast
  then show ?case using schedule_fair [of s' "rotate k ts"] by (auto simp: rotate_Suc)
qed auto

subsection \<open>Properties\<close>


definition sched_demo :: sched where
  "sched_demo = \<lparr>ready_queue = Some 3, current_thread = Some 3, nxt = (\<lambda>_. 0)(1 := 2, 2 := 3, 3 := 1),
     tstate = (\<lambda>_. THREAD_READY)(3 := THREAD_RUNNING), freed = []\<rparr>"


text \<open>When the only thread of the queue has died and the kernel thread runs, \<open>schedule\<close> frees it and
  leaves the queue pointing at the freed block, which it then reads: the call does not return
  normally.\<close>

lemma schedule_last_dead_thread:
  assumes "sched_ring s [t]" "tstate s t = THREAD_DEAD" "t \<noteq> 0" "current_thread s = Some 0"
  shows "sched_loop t 0 t t s = Some (t, s\<lparr>nxt := (nxt s)(t := t), freed := t # freed s\<rparr>) \<and> schedule s = None"
proof -
  have r: "ready_queue s = Some t" "nxt s t = t" "t \<notin> set (freed s)" using assms(1) by (auto simp: sched_ring_def)
  have "sched_loop t 0 t t s = Some (t, s\<lparr>nxt := (nxt s)(t := t), freed := t # freed s\<rparr>)"
    using r assms(2,3) by (subst sched_loop.simps) (simp add: Let_def)
  then show ?thesis using r assms(4) by (simp add: schedule_def)
qed

lemma schedule_last_dead_thread_witness:
  "schedule \<lparr>ready_queue = Some 5, current_thread = Some 0, nxt = (\<lambda>_. 5), tstate = (\<lambda>_. THREAD_DEAD), freed = []\<rparr> = None"
  using schedule_last_dead_thread [of "\<lparr>ready_queue = Some 5, current_thread = Some 0, nxt = (\<lambda>_. 5), tstate = (\<lambda>_. THREAD_DEAD), freed = []\<rparr>" 5]
  by (simp add: sched_ring_def)

end
