(* ===== verification/Vfs.thy ===== *)
theory Vfs
  imports Kyro_Prelude
begin

section \<open>The virtual file system layer (vfs.c, vfs.h)\<close>

text \<open>
  A node of the tree is a value of type \<open>'n\<close>, the file systems' state is \<open>'s\<close>. The function
  pointers a \<open>vfs_node_t\<close> holds are the fields of \<open>vfs_ops\<close>, read in the current state: the
  outer option is \<open>None\<close> for a NULL pointer, the option of the result is \<open>None\<close> when the call does
  not return (a panic, or an access outside an object). The four operations that act on the parent
  of a path have the same body in vfs.c, written here once as \<open>vfs_at_parent\<close>. A buffer byte is
  \<open>None\<close> where the heap returned memory that was never written.
\<close>

definition MAX_FILENAME_LEN :: nat where "MAX_FILENAME_LEN = 256"

definition VFS_FILE :: u32 where "VFS_FILE = 0x01"
definition VFS_DIRECTORY :: u32 where "VFS_DIRECTORY = 0x02"
definition VFS_MOUNTPOINT :: u32 where "VFS_MOUNTPOINT = 0x04"
definition VFS_CHARDEVICE :: u32 where "VFS_CHARDEVICE = 0x08"
definition S_IFDIR :: u32 where "S_IFDIR = 0x4000"
definition S_IFREG :: u32 where "S_IFREG = 0x8000"

lemmas vfs_flag_defs = VFS_FILE_def VFS_DIRECTORY_def VFS_MOUNTPOINT_def VFS_CHARDEVICE_def

record stat =
  st_size :: u32
  st_mode :: u32
  st_ino :: u32

record dirent =
  d_name :: string
  d_ino :: u32

type_synonym cell = "u8 option"

record ('s, 'n) vfs_ops =
  op_flags :: "'s \<Rightarrow> 'n \<Rightarrow> u32"
  op_read :: "'s \<Rightarrow> 'n \<Rightarrow> (u64 \<Rightarrow> u32 \<Rightarrow> (u32 \<times> cell list \<times> 's) option) option"
  op_write :: "'s \<Rightarrow> 'n \<Rightarrow> (u64 \<Rightarrow> u32 \<Rightarrow> u8 list \<Rightarrow> (u32 \<times> 's) option) option"
  op_open :: "'s \<Rightarrow> 'n \<Rightarrow> (u32 \<Rightarrow> 's option) option"
  op_finddir :: "'s \<Rightarrow> 'n \<Rightarrow> (string \<Rightarrow> ('n option \<times> 's) option) option"
  op_readdir :: "'s \<Rightarrow> 'n \<Rightarrow> (u32 \<Rightarrow> (dirent option \<times> 's) option) option"
  op_mkdir :: "'s \<Rightarrow> 'n \<Rightarrow> (string \<Rightarrow> u16 \<Rightarrow> (int \<times> 's) option) option"
  op_create :: "'s \<Rightarrow> 'n \<Rightarrow> (string \<Rightarrow> u16 \<Rightarrow> (int \<times> 's) option) option"
  op_remove :: "'s \<Rightarrow> 'n \<Rightarrow> (string \<Rightarrow> (int \<times> 's) option) option"
  op_rmdir :: "'s \<Rightarrow> 'n \<Rightarrow> (string \<Rightarrow> u16 \<Rightarrow> (int \<times> 's) option) option"
  op_stat :: "'s \<Rightarrow> 'n \<Rightarrow> ((int \<times> stat \<times> 's) option) option"

subsection \<open>Calls on a node\<close>

definition is_directory :: "('s, 'n) vfs_ops \<Rightarrow> 's \<Rightarrow> 'n \<Rightarrow> bool" where
  "is_directory ops s n \<longleftrightarrow> op_flags ops s n AND VFS_DIRECTORY \<noteq> 0"

definition vfs_open :: "('s, 'n) vfs_ops \<Rightarrow> 'n option \<Rightarrow> u32 \<Rightarrow> 's \<Rightarrow> 's option" where
  "vfs_open ops node flags s =
     (case node of None \<Rightarrow> Some s
      | Some n \<Rightarrow> (case op_open ops s n of None \<Rightarrow> Some s | Some f \<Rightarrow> f flags))"

definition vfs_read :: "('s, 'n) vfs_ops \<Rightarrow> 'n option \<Rightarrow> u64 \<Rightarrow> u32 \<Rightarrow> 's \<Rightarrow> (u32 \<times> cell list \<times> 's) option" where
  "vfs_read ops node offset count s =
     (case node of None \<Rightarrow> Some (0, [], s)
      | Some n \<Rightarrow> (case op_read ops s n of None \<Rightarrow> Some (0, [], s) | Some f \<Rightarrow> f offset count))"

definition vfs_write :: "('s, 'n) vfs_ops \<Rightarrow> 'n option \<Rightarrow> u64 \<Rightarrow> u32 \<Rightarrow> u8 list \<Rightarrow> 's \<Rightarrow> (u32 \<times> 's) option" where
  "vfs_write ops node offset count buf s =
     (case node of None \<Rightarrow> Some (0, s)
      | Some n \<Rightarrow> (case op_write ops s n of None \<Rightarrow> Some (0, s) | Some f \<Rightarrow> f offset count buf))"

definition vfs_finddir :: "('s, 'n) vfs_ops \<Rightarrow> 'n option \<Rightarrow> string \<Rightarrow> 's \<Rightarrow> ('n option \<times> 's) option" where
  "vfs_finddir ops node name s =
     (case node of None \<Rightarrow> Some (None, s)
      | Some n \<Rightarrow> if is_directory ops s n
                  then (case op_finddir ops s n of None \<Rightarrow> Some (None, s) | Some f \<Rightarrow> f name)
                  else Some (None, s))"

definition vfs_readdir :: "('s, 'n) vfs_ops \<Rightarrow> 'n option \<Rightarrow> u32 \<Rightarrow> 's \<Rightarrow> (dirent option \<times> 's) option" where
  "vfs_readdir ops node index s =
     (case node of None \<Rightarrow> Some (None, s)
      | Some n \<Rightarrow> if is_directory ops s n
                  then (case op_readdir ops s n of None \<Rightarrow> Some (None, s) | Some f \<Rightarrow> f index)
                  else Some (None, s))"

subsection \<open>Path resolution\<close>

text \<open>
  One turn of the loop of \<open>vfs_resolve_path\<close>: the component up to the next slash is copied into a
  buffer of 256 bytes (a longer one runs past it), an empty component is skipped.
\<close>

function resolve_loop :: "('s, 'n) vfs_ops \<Rightarrow> 'n \<Rightarrow> string \<Rightarrow> 's \<Rightarrow> ('n option \<times> 's) option" where
  "resolve_loop ops current start s =
     (if start = [] then Some (Some current, s)
      else let comp = takeWhile (\<lambda>c. c \<noteq> CHR ''/'') start;
               endp = dropWhile (\<lambda>c. c \<noteq> CHR ''/'') start
           in if comp = [] then resolve_loop ops current (tl endp) s
              else if MAX_FILENAME_LEN \<le> length comp then None
              else (case vfs_finddir ops (Some current) comp s of
                      None \<Rightarrow> None
                    | Some (None, s') \<Rightarrow> Some (None, s')
                    | Some (Some n, s') \<Rightarrow>
                        if endp = [] then Some (Some n, s') else resolve_loop ops n (tl endp) s'))"
  by pat_completeness auto

lemma length_tl_dropWhile: "xs \<noteq> [] \<Longrightarrow> length (dropWhile P xs) - Suc 0 < length xs"
  using length_dropWhile_le [of P xs] by (cases xs; cases "dropWhile P xs") auto

termination resolve_loop
  by (relation "measure (\<lambda>(_, _, start, _). length start)") (auto intro: length_tl_dropWhile)

declare resolve_loop.simps [simp del]

definition vfs_resolve_path ::
  "('s, 'n) vfs_ops \<Rightarrow> 'n option \<Rightarrow> string option \<Rightarrow> 's \<Rightarrow> ('n option \<times> 's) option" where
  "vfs_resolve_path ops root path s =
     (case path of None \<Rightarrow> Some (None, s)
      | Some p \<Rightarrow> (case root of None \<Rightarrow> Some (None, s)
         | Some r \<Rightarrow>
             if p \<noteq> [] \<and> p ! 0 = CHR ''/''
             then if tl p = [] then Some (Some r, s) else resolve_loop ops r (tl p) s
             else resolve_loop ops r p s))"

definition vfs_stat :: "('s, 'n) vfs_ops \<Rightarrow> 'n option \<Rightarrow> string option \<Rightarrow> 's \<Rightarrow> (int \<times> stat option \<times> 's) option" where
  "vfs_stat ops root path s =
     (case vfs_resolve_path ops root path s of
        None \<Rightarrow> None
      | Some (None, s') \<Rightarrow> Some (-1, None, s')
      | Some (Some n, s') \<Rightarrow>
          (case op_stat ops s' n of
             None \<Rightarrow> Some (-1, None, s')
           | Some r \<Rightarrow> (case r of None \<Rightarrow> None | Some (rc, st, s'') \<Rightarrow> Some (rc, Some st, s''))))"

subsection \<open>Operations on the parent of a path\<close>

fun last_slash_loop :: "string \<Rightarrow> int \<Rightarrow> int \<Rightarrow> int" where
  "last_slash_loop [] i last_slash = last_slash"
| "last_slash_loop (c # cs) i last_slash =
     last_slash_loop cs (i + 1) (if c = CHR ''/'' then i else last_slash)"

definition last_slash :: "string \<Rightarrow> int" where
  "last_slash path = last_slash_loop path 0 (- 1)"

definition vfs_at_parent ::
  "('s, 'n) vfs_ops \<Rightarrow> ('s \<Rightarrow> 'n \<Rightarrow> (string \<Rightarrow> (int \<times> 's) option) option) \<Rightarrow>
   'n option \<Rightarrow> string option \<Rightarrow> 's \<Rightarrow> (int \<times> 's) option" where
  "vfs_at_parent ops op root path s =
     (case path of None \<Rightarrow> Some (-1, s)
      | Some p \<Rightarrow> (case root of None \<Rightarrow> Some (-1, s)
         | Some r \<Rightarrow>
             let ls = last_slash p
             in if ls = -1 then (case op s r of None \<Rightarrow> Some (-1, s) | Some f \<Rightarrow> f p)
                else if ls = 0 then (case op s r of None \<Rightarrow> Some (-1, s) | Some f \<Rightarrow> f (drop 1 p))
                else if int MAX_FILENAME_LEN \<le> ls then None
                else (case vfs_resolve_path ops root (Some (take (nat ls) p)) s of
                        None \<Rightarrow> None
                      | Some (None, s') \<Rightarrow> Some (-1, s')
                      | Some (Some d, s') \<Rightarrow>
                          if is_directory ops s' d
                          then (case op s' d of None \<Rightarrow> Some (-1, s') | Some f \<Rightarrow> f (drop (nat ls + 1) p))
                          else Some (-1, s'))))"

definition vfs_mkdir :: "('s, 'n) vfs_ops \<Rightarrow> 'n option \<Rightarrow> string option \<Rightarrow> u16 \<Rightarrow> 's \<Rightarrow> (int \<times> 's) option" where
  "vfs_mkdir ops root path mode s =
     vfs_at_parent ops (\<lambda>t n. map_option (\<lambda>f name. f name mode) (op_mkdir ops t n)) root path s"

definition vfs_create :: "('s, 'n) vfs_ops \<Rightarrow> 'n option \<Rightarrow> string option \<Rightarrow> u16 \<Rightarrow> 's \<Rightarrow> (int \<times> 's) option" where
  "vfs_create ops root path mode s =
     vfs_at_parent ops (\<lambda>t n. map_option (\<lambda>f name. f name mode) (op_create ops t n)) root path s"

definition vfs_remove :: "('s, 'n) vfs_ops \<Rightarrow> 'n option \<Rightarrow> string option \<Rightarrow> 's \<Rightarrow> (int \<times> 's) option" where
  "vfs_remove ops root path s = vfs_at_parent ops (op_remove ops) root path s"

definition vfs_rmdir :: "('s, 'n) vfs_ops \<Rightarrow> 'n option \<Rightarrow> string option \<Rightarrow> u16 \<Rightarrow> 's \<Rightarrow> (int \<times> 's) option" where
  "vfs_rmdir ops root path mode s =
     vfs_at_parent ops (\<lambda>t n. map_option (\<lambda>f name. f name mode) (op_rmdir ops t n)) root path s"

subsection \<open>Paths as component lists\<close>

text \<open>The components of a path: the non-empty pieces between slashes.\<close>

function components :: "string \<Rightarrow> string list" where
  "components p =
     (if p = [] then []
      else let c = takeWhile (\<lambda>c. c \<noteq> CHR ''/'') p; r = tl (dropWhile (\<lambda>c. c \<noteq> CHR ''/'') p)
           in (if c = [] then [] else [c]) @ components r)"
  by pat_completeness auto

termination components
  by (relation "measure length") (auto intro: length_tl_dropWhile)

declare components.simps [simp del]

lemma components_Nil [simp]: "components [] = []"
  by (simp add: components.simps)

lemma components_slash [simp]: "components (CHR ''/'' # p) = components p"
  by (simp add: components.simps [of "CHR ''/'' # p"])

lemma components_comp:
  assumes "CHR ''/'' \<notin> set c" "c \<noteq> []"
  shows "components c = [c]"
proof -
  have t: "takeWhile (\<lambda>x. x \<noteq> CHR ''/'') c = c" "dropWhile (\<lambda>x. x \<noteq> CHR ''/'') c = []"
    using assms(1) by (auto simp: takeWhile_eq_all_conv dropWhile_eq_Nil_conv)
  show ?thesis
    using assms(2) by (simp add: components.simps [of c] t)
qed

lemma components_append_slash:
  "components (p @ CHR ''/'' # q) = components p @ components q"
proof (induction p rule: components.induct)
  case (1 p)
  show ?case
  proof (cases "p = []")
    case True
    then show ?thesis by simp
  next
    case False
    let ?P = "\<lambda>c. c \<noteq> CHR ''/''"
    show ?thesis
    proof (cases "\<exists>c \<in> set p. \<not> ?P c")
      case True
      then have ne: "dropWhile ?P p \<noteq> []" by (auto simp: dropWhile_eq_Nil_conv)
      have t: "takeWhile ?P (p @ CHR ''/'' # q) = takeWhile ?P p"
        "dropWhile ?P (p @ CHR ''/'' # q) = dropWhile ?P p @ CHR ''/'' # q"
        using True by (auto simp: takeWhile_append1 dropWhile_append1)
      show ?thesis
        using False ne "1.IH" [OF False refl refl]
        by (simp add: components.simps [of "p @ CHR ''/'' # q"] components.simps [of p] t Let_def)
    next
      case f: False
      then have s: "CHR ''/'' \<notin> set p" by auto
      have t: "takeWhile ?P (p @ CHR ''/'' # q) = p"
        "dropWhile ?P (p @ CHR ''/'' # q) = CHR ''/'' # q"
        using f by (auto simp: takeWhile_append dropWhile_append takeWhile_eq_all_conv)
      show ?thesis
        using False by (simp add: components.simps [of "p @ CHR ''/'' # q"] t components_comp [OF s False])
    qed
  qed
qed

lemma last_slash_loop_append:
  "last_slash_loop (p @ q) i l = last_slash_loop q (i + int (length p)) (last_slash_loop p i l)"
  by (induction p arbitrary: i l) (auto simp: algebra_simps)

lemma last_slash_loop_none: "CHR ''/'' \<notin> set q \<Longrightarrow> last_slash_loop q i l = l"
  by (induction q arbitrary: i l) auto

lemma last_slash_append:
  "CHR ''/'' \<notin> set name \<Longrightarrow> last_slash (p @ CHR ''/'' # name) = int (length p)"
  by (simp add: last_slash_def last_slash_loop_append last_slash_loop_none)

lemma last_slash_none: "CHR ''/'' \<notin> set name \<Longrightarrow> last_slash name = -1"
  by (simp add: last_slash_def last_slash_loop_none)

text \<open>A component every buffer of the layer can hold, and that means a directory entry.\<close>

definition entry_name :: "string \<Rightarrow> bool" where
  "entry_name name \<longleftrightarrow> name \<noteq> [] \<and> CHR ''/'' \<notin> set name \<and> length name < MAX_FILENAME_LEN
     \<and> name \<noteq> ''.'' \<and> name \<noteq> ''..''"

definition short_path :: "string \<Rightarrow> bool" where
  "short_path p \<longleftrightarrow> list_all (\<lambda>c. length c < MAX_FILENAME_LEN) (components p)"

subsection \<open>The contract of a directory tree\<close>

text \<open>The node reached from a directory by a list of names, for a given directory lookup.\<close>

primrec walk ::
  "('s, 'n) vfs_ops \<Rightarrow> ('s \<Rightarrow> 'n \<Rightarrow> string \<Rightarrow> 'n option) \<Rightarrow> 's \<Rightarrow> 'n \<Rightarrow> string list \<Rightarrow> 'n option" where
  "walk ops look s d [] = Some d"
| "walk ops look s d (c # cs) =
     (if is_directory ops s d
      then (case look s d c of None \<Rightarrow> None | Some n \<Rightarrow> walk ops look s n cs) else None)"

lemma walk_append:
  "walk ops look s d (cs @ ds) =
     (case walk ops look s d cs of None \<Rightarrow> None | Some e \<Rightarrow> walk ops look s e ds)"
  by (induction cs arbitrary: d) (auto split: option.splits)

lemma walk_frame:
  assumes "walk ops look s e cs = Some m"
    and "\<And>d' name'. is_directory ops s d' \<Longrightarrow> look s d' name' \<noteq> None \<Longrightarrow>
            is_directory ops s' d' \<and> look s' d' name' = look s d' name'"
  shows "walk ops look s' e cs = Some m"
  using assms(1)
proof (induction cs arbitrary: e)
  case (Cons c cs)
  obtain n where n: "is_directory ops s e" "look s e c = Some n" "walk ops look s n cs = Some m"
    using Cons.prems by (auto split: if_splits option.splits)
  then have "is_directory ops s' e" "look s' e c = Some n" using assms(2) [of e c] by auto
  then show ?case using Cons.IH [OF n(3)] by simp
qed simp

text \<open>
  A file system whose \<open>finddir\<close> is a lookup that does not change the state: path resolution is
  the walk along the components.
\<close>

locale file_tree =
  fixes ops :: "('s, 'n) vfs_ops" and tree_inv :: "'s \<Rightarrow> bool"
    and look :: "'s \<Rightarrow> 'n \<Rightarrow> string \<Rightarrow> 'n option"
  assumes finddir: "\<lbrakk>tree_inv s; is_directory ops s d\<rbrakk> \<Longrightarrow>
      \<exists>f. op_finddir ops s d = Some f
        \<and> (\<forall>name. length name < MAX_FILENAME_LEN \<longrightarrow> f name = Some (look s d name, s))"
begin

lemma vfs_finddir_look:
  assumes "tree_inv s" "length name < MAX_FILENAME_LEN"
  shows "vfs_finddir ops (Some d) name s =
    Some (if is_directory ops s d then look s d name else None, s)"
  using finddir [OF assms(1), of d] assms(2) by (auto simp: vfs_finddir_def)

lemma resolve_loop_walk:
  assumes "tree_inv s" "short_path p"
  shows "resolve_loop ops d p s = Some (walk ops look s d (components p), s)"
  using assms(2)
proof (induction "length p" arbitrary: p d rule: less_induct)
  case less
  let ?P = "\<lambda>c. c \<noteq> CHR ''/''"
  let ?c = "takeWhile ?P p" and ?e = "dropWhile ?P p"
  show ?case
  proof (cases "p = []")
    case True
    then show ?thesis by (simp add: resolve_loop.simps)
  next
    case ne: False
    have comps: "components p = (if ?c = [] then [] else [?c]) @ components (tl ?e)"
      using ne by (subst components.simps) (simp add: Let_def)
    have short: "short_path (tl ?e)" "?c \<noteq> [] \<Longrightarrow> length ?c < MAX_FILENAME_LEN"
      using less.prems comps by (auto simp: short_path_def)
    have lt: "length (tl ?e) < length p" using length_tl_dropWhile [OF ne, of ?P] by simp
    note IH = less.hyps [OF lt short(1)]
    show ?thesis
    proof (cases "?c = []")
      case True
      show ?thesis
        using ne by (simp add: resolve_loop.simps [of ops d p] comps True IH Let_def)
    next
      case c: False
      have fd: "vfs_finddir ops (Some d) ?c s =
          Some (if is_directory ops s d then look s d ?c else None, s)"
        by (rule vfs_finddir_look [OF assms(1) short(2) [OF c]])
      have nil: "components (tl ?e) = []" if "\<forall>x \<in> set p. ?P x"
      proof -
        have e: "?e = []" using that by (simp only: dropWhile_eq_Nil_conv)
        show ?thesis unfolding e by (simp only: list.sel components_Nil)
      qed
      show ?thesis
        using ne c short(2) [OF c] IH nil
        by (auto simp add: resolve_loop.simps [of ops d p] comps fd Let_def not_le split: option.splits)
    qed
  qed
qed

lemma resolve_path_walk:
  assumes "tree_inv s" "short_path p"
  shows "vfs_resolve_path ops (Some r) (Some p) s = Some (walk ops look s r (components p), s)"
proof (cases "p \<noteq> [] \<and> p ! 0 = CHR ''/''")
  case True
  then obtain q where q: "p = CHR ''/'' # q" by (cases p) auto
  have "short_path q" using assms(2) by (simp add: q short_path_def)
  from resolve_loop_walk [OF assms(1) this] show ?thesis
    by (simp add: vfs_resolve_path_def q)
next
  case False
  with resolve_loop_walk [OF assms] show ?thesis
    by (auto simp: vfs_resolve_path_def)
qed

end

text \<open>
  A file system with an operation that adds an entry: the new entry is found under its name, and
  every other lookup and every directory is as before.
\<close>

locale growing_tree = file_tree ops tree_inv look
  for ops :: "('s, 'n) vfs_ops" and tree_inv :: "'s \<Rightarrow> bool"
    and look :: "'s \<Rightarrow> 'n \<Rightarrow> string \<Rightarrow> 'n option" +
  fixes add :: "'s \<Rightarrow> 'n \<Rightarrow> (string \<Rightarrow> (int \<times> 's) option) option"
    and del :: "'s \<Rightarrow> 'n \<Rightarrow> (string \<Rightarrow> (int \<times> 's) option) option"
    and room :: "'s \<Rightarrow> bool" and made :: "'s \<Rightarrow> 's \<Rightarrow> 'n \<Rightarrow> bool" and same :: "'s \<Rightarrow> 's \<Rightarrow> bool"
  assumes add: "\<lbrakk>tree_inv s; room s; is_directory ops s d; entry_name name\<rbrakk> \<Longrightarrow>
      \<exists>f s' n. add s d = Some f \<and> f name = Some (0, s') \<and> tree_inv s' \<and> made s s' n
        \<and> look s' d name = Some n
        \<and> (\<forall>d' name'. is_directory ops s d' \<longrightarrow> is_directory ops s' d'
             \<and> ((d', name') \<noteq> (d, name) \<longrightarrow> look s' d' name' = look s d' name'))
        \<and> (\<exists>g s''. del s' d = Some g \<and> g name = Some (0, s'') \<and> same s s'')"
begin

lemma at_parent_direct:
  assumes "tree_inv s" "entry_name name" "short_path dir" "length dir < MAX_FILENAME_LEN"
    and "walk ops look s r (components dir) = Some d" "is_directory ops s d" "op s d = Some f"
  shows "vfs_at_parent ops op (Some r) (Some (dir @ CHR ''/'' # name)) s = f name"
proof -
  have ls: "last_slash (dir @ CHR ''/'' # name) = int (length dir)"
    using assms(2) by (intro last_slash_append) (auto simp: entry_name_def)
  show ?thesis
  proof (cases "dir = []")
    case True
    then have "d = r" using assms(5) by simp
    then show ?thesis
      using ls assms(6,7) by (simp add: vfs_at_parent_def True)
  next
    case False
    then show ?thesis
      using ls assms(4,6,7) resolve_path_walk [OF assms(1,3), of r] assms(5)
      by (simp add: vfs_at_parent_def)
  qed
qed

lemma components_dir_name:
  "entry_name name \<Longrightarrow> components (dir @ CHR ''/'' # name) = components dir @ [name]"
  by (simp add: components_append_slash components_comp entry_name_def)

lemma add_resolves:
  assumes inv: "tree_inv s" and rm: "room s" and name: "entry_name name"
    and dir: "short_path dir" "length dir < MAX_FILENAME_LEN"
    and d: "vfs_resolve_path ops (Some r) (Some dir) s = Some (Some d, s)" "is_directory ops s d"
    and new: "look s d name = None"
  shows "\<exists>s' n. vfs_at_parent ops add (Some r) (Some (dir @ CHR ''/'' # name)) s = Some (0, s')
    \<and> tree_inv s' \<and> made s s' n
    \<and> vfs_resolve_path ops (Some r) (Some (dir @ CHR ''/'' # name)) s' = Some (Some n, s')
    \<and> (\<forall>q m. short_path q \<and> vfs_resolve_path ops (Some r) (Some q) s = Some (Some m, s)
         \<longrightarrow> vfs_resolve_path ops (Some r) (Some q) s' = Some (Some m, s'))
    \<and> (\<exists>s''. vfs_at_parent ops del (Some r) (Some (dir @ CHR ''/'' # name)) s' = Some (0, s'')
         \<and> same s s'')"
proof -
  have w: "walk ops look s r (components dir) = Some d"
    using d(1) by (simp add: resolve_path_walk [OF inv dir(1)])
  obtain f s' n g s'' where f: "add s d = Some f" "f name = Some (0, s')"
    and s': "tree_inv s'" "made s s' n" "look s' d name = Some n"
    and fr: "\<And>d' name'. is_directory ops s d' \<Longrightarrow> is_directory ops s' d'
             \<and> ((d', name') \<noteq> (d, name) \<longrightarrow> look s' d' name' = look s d' name')"
    and g: "del s' d = Some g" "g name = Some (0, s'')" "same s s''"
    using add [OF inv rm d(2) name] by blast
  have frame: "walk ops look s' e cs = Some m" if "walk ops look s e cs = Some m" for e cs m
    using that
  proof (rule walk_frame)
    fix d' name'
    assume "is_directory ops s d'" "look s d' name' \<noteq> None"
    then show "is_directory ops s' d' \<and> look s' d' name' = look s d' name'"
      using fr [of d' name'] new by auto
  qed
  have w': "walk ops look s' r (components dir) = Some d" by (rule frame [OF w])
  have d': "is_directory ops s' d" using fr [OF d(2)] by blast
  have sp: "short_path (dir @ CHR ''/'' # name)"
    using dir(1) name by (simp add: short_path_def components_dir_name) (simp add: entry_name_def)
  have "vfs_resolve_path ops (Some r) (Some (dir @ CHR ''/'' # name)) s' = Some (Some n, s')"
    using d' s'(3)
    by (simp add: resolve_path_walk [OF s'(1) sp] components_dir_name [OF name] walk_append w')
  moreover have "vfs_at_parent ops add (Some r) (Some (dir @ CHR ''/'' # name)) s = Some (0, s')"
    using at_parent_direct [where op = add, OF inv name dir w d(2) f(1)] f(2) by simp
  moreover have "vfs_at_parent ops del (Some r) (Some (dir @ CHR ''/'' # name)) s' = Some (0, s'')"
    using at_parent_direct [where op = del, OF s'(1) name dir w' d' g(1)] g(2) by simp
  moreover have "vfs_resolve_path ops (Some r) (Some q) s' = Some (Some m, s')"
    if "short_path q" "vfs_resolve_path ops (Some r) (Some q) s = Some (Some m, s)" for q m
    using that(2) frame by (simp add: resolve_path_walk [OF inv that(1)] resolve_path_walk [OF s'(1) that(1)])
  ultimately show ?thesis using s'(1,2) g(3) by blast
qed

end

end
