(* ===== verification/Kyrofs.thy ===== *)
theory Kyrofs
  imports Vfs
begin

section \<open>The in-memory file system (kyrofs.c)\<close>

text \<open>
  Nodes are numbered objects of a store; a pointer to a node is its number, and \<open>kfree\<close> removes it
  from the store. \<open>ptr\<close> of a directory is the list of its entries, newest first; \<open>ptr\<close> of a file
  is its content record. A buffer is a list of cells of the length that was allocated. Following a
  pointer that is NULL or freed, leaving a buffer, and \<open>panic\<close> give \<open>None\<close>. The heap's answer to a
  request is the field \<open>heap_ok\<close>. A name that fills its buffer is left without a terminator, and a
  file taken for a directory has its content read as an entry: both are \<open>None\<close> too.
\<close>

record kyrofs_file_content =
  fc_content :: "cell list option"
  fc_size :: u32
  fc_capacity :: u32

datatype rw_fun = Rw_null | Rw_kyrofs | Rw_tty

record kyrofs_dirent =
  node_name :: string
  node_flags :: u32
  node_length :: u32
  node_inode :: u32
  node_dirents :: "nat list"
  node_content :: "kyrofs_file_content option"
  node_rw :: rw_fun
  node_open :: bool
  node_dir_ops :: bool
  node_parent :: "nat option"

record kyrofs =
  nodes :: "nat \<Rightarrow> kyrofs_dirent option"
  next_node :: nat
  heap_ok :: "nat \<Rightarrow> bool"
  vfs_root :: "nat option"

definition DIRENT_SIZE :: nat where "DIRENT_SIZE = 400"
definition CONTENT_SIZE :: nat where "CONTENT_SIZE = 16"

definition O_TRUNC :: u32 where "O_TRUNC = 0x0200"

definition set_node :: "nat \<Rightarrow> kyrofs_dirent \<Rightarrow> kyrofs \<Rightarrow> kyrofs" where
  "set_node n x fs = fs\<lparr>nodes := (nodes fs)(n \<mapsto> x)\<rparr>"

subsection \<open>File contents\<close>

definition kyrofs_open :: "nat \<Rightarrow> u32 \<Rightarrow> kyrofs \<Rightarrow> kyrofs option" where
  "kyrofs_open n flags fs =
     (case nodes fs n of None \<Rightarrow> None
      | Some x \<Rightarrow>
          if node_flags x AND VFS_FILE \<noteq> 0 \<and> flags AND O_TRUNC \<noteq> 0
          then (case node_content x of None \<Rightarrow> None
                | Some c \<Rightarrow> Some (set_node n (x\<lparr>node_content := Some (c\<lparr>fc_content := None, fc_size := 0\<rparr>),
                                              node_length := 0\<rparr>) fs))
          else Some fs)"

definition kyrofs_read :: "kyrofs \<Rightarrow> nat \<Rightarrow> u64 \<Rightarrow> u32 \<Rightarrow> (u32 \<times> cell list \<times> kyrofs) option" where
  "kyrofs_read fs n offset count =
     (case nodes fs n of None \<Rightarrow> None
      | Some x \<Rightarrow>
          (case node_content x of None \<Rightarrow> Some (0, [], fs)
           | Some c \<Rightarrow> (case fc_content c of None \<Rightarrow> Some (0, [], fs)
              | Some buf \<Rightarrow>
                  if offset \<ge> ucast (fc_size c) then Some (0, [], fs)
                  else let k = (if offset + ucast count > ucast (fc_size c)
                                then fc_size c - ucast offset else count)
                       in (case read_at (unat offset) (unat k) buf of
                             None \<Rightarrow> None | Some bytes \<Rightarrow> Some (k, bytes, fs)))))"

text \<open>
  The buffer is replaced by one of twice the needed size, computed in 64 bits and truncated to 32,
  when the write does not fit the capacity.
\<close>

definition content_grow :: "(nat \<Rightarrow> bool) \<Rightarrow> u64 \<Rightarrow> kyrofs_file_content \<Rightarrow> kyrofs_file_content option" where
  "content_grow ok end_pos c =
     (if end_pos > ucast (fc_capacity c)
      then let new_cap = (ucast (end_pos * 2) :: u32); fresh = replicate (unat new_cap) None
           in if \<not> ok (unat new_cap) then None
              else (case fc_content c of
                      None \<Rightarrow> Some (c\<lparr>fc_content := Some fresh, fc_capacity := new_cap\<rparr>)
                    | Some buf \<Rightarrow> do {
                        old \<leftarrow> read_at 0 (unat (fc_size c)) buf;
                        new_cont \<leftarrow> write_at 0 old fresh;
                        Some (c\<lparr>fc_content := Some new_cont, fc_capacity := new_cap\<rparr>) })
      else Some c)"

definition content_store :: "u64 \<Rightarrow> u8 list \<Rightarrow> kyrofs_file_content \<Rightarrow> kyrofs_file_content option" where
  "content_store offset bytes c =
     (case fc_content c of
        None \<Rightarrow> if bytes = [] then Some c else None
      | Some buf \<Rightarrow> map_option (\<lambda>b. c\<lparr>fc_content := Some b\<rparr>) (write_at (unat offset) (map Some bytes) buf))"

definition kyrofs_write ::
  "kyrofs \<Rightarrow> nat \<Rightarrow> u64 \<Rightarrow> u32 \<Rightarrow> u8 list \<Rightarrow> (u32 \<times> kyrofs) option" where
  "kyrofs_write fs n offset count buffer = do {
     x \<leftarrow> nodes fs n;
     c0 \<leftarrow> node_content x;
     let end_pos = offset + ucast count;
     c1 \<leftarrow> content_grow (heap_ok fs) end_pos c0;
     bytes \<leftarrow> read_at 0 (unat count) buffer;
     c2 \<leftarrow> content_store offset bytes c1;
     let c3 = (if end_pos > ucast (fc_size c2) then c2\<lparr>fc_size := ucast end_pos\<rparr> else c2);
     Some (count, set_node n (x\<lparr>node_content := Some c3, node_length := fc_size c3\<rparr>) fs) }"

subsection \<open>Directories\<close>

text \<open>The entry of the given name, and the entries after it are not looked at.\<close>

fun find_child :: "(nat \<Rightarrow> kyrofs_dirent option) \<Rightarrow> string \<Rightarrow> nat list \<Rightarrow> nat option option" where
  "find_child st name [] = Some None"
| "find_child st name (c # cs) =
     (case st c of None \<Rightarrow> None
      | Some x \<Rightarrow> if node_name x = name then Some (Some c) else find_child st name cs)"

definition kyrofs_finddir :: "kyrofs \<Rightarrow> nat \<Rightarrow> string \<Rightarrow> (nat option \<times> kyrofs) option" where
  "kyrofs_finddir fs d name =
     (if name = ''.'' then Some (Some d, fs)
      else (case nodes fs d of None \<Rightarrow> None
        | Some x \<Rightarrow>
            if name = ''..''
            then Some (Some (case node_parent x of Some p \<Rightarrow> p | None \<Rightarrow> d), fs)
            else map_option (\<lambda>r. (r, fs)) (find_child (nodes fs) name (node_dirents x))))"

fun nth_child :: "(nat \<Rightarrow> kyrofs_dirent option) \<Rightarrow> nat \<Rightarrow> nat list \<Rightarrow> dirent option option" where
  "nth_child st i [] = Some None"
| "nth_child st i (c # cs) =
     (case st c of None \<Rightarrow> None
      | Some x \<Rightarrow> if i = 0 then Some (Some \<lparr>d_name = node_name x, d_ino = node_inode x\<rparr>)
                 else nth_child st (i - 1) cs)"

definition kyrofs_readdir :: "kyrofs \<Rightarrow> nat \<Rightarrow> u32 \<Rightarrow> (dirent option \<times> kyrofs) option" where
  "kyrofs_readdir fs d index =
     (case nodes fs d of None \<Rightarrow> None
      | Some x \<Rightarrow> map_option (\<lambda>r. (r, fs)) (nth_child (nodes fs) (unat index) (node_dirents x)))"

definition new_content :: kyrofs_file_content where
  "new_content = \<lparr>fc_content = Some (replicate 128 None), fc_size = 0, fc_capacity = 128\<rparr>"

definition new_dirent :: "nat \<Rightarrow> string \<Rightarrow> u32 \<Rightarrow> kyrofs_dirent" where
  "new_dirent par name flags =
     (let file = (flags AND VFS_FILE \<noteq> 0)
      in \<lparr>node_name = name, node_flags = flags, node_length = 0, node_inode = 0, node_dirents = [],
          node_content = (if file then Some new_content else None),
          node_rw = (if file then Rw_kyrofs else Rw_null), node_open = file,
          node_dir_ops = \<not> file, node_parent = Some par\<rparr>)"

definition kyrofs_create_node :: "nat \<Rightarrow> string \<Rightarrow> u32 \<Rightarrow> kyrofs \<Rightarrow> (int \<times> kyrofs) option" where
  "kyrofs_create_node par name flags fs =
     (if \<not> heap_ok fs DIRENT_SIZE \<or> MAX_FILENAME_LEN \<le> length name then None
      else if flags AND VFS_FILE \<noteq> 0 \<and> \<not> (heap_ok fs CONTENT_SIZE \<and> heap_ok fs 128) then None
      else (case nodes fs par of None \<Rightarrow> None
        | Some p \<Rightarrow>
            let n = next_node fs
            in if node_content p \<noteq> None then None
               else Some (0, fs\<lparr>nodes := (nodes fs)(n \<mapsto> new_dirent par name flags,
                                              par \<mapsto> p\<lparr>node_dirents := n # node_dirents p\<rparr>),
                           next_node := Suc n\<rparr>)))"

definition kyrofs_mkdir :: "kyrofs \<Rightarrow> nat \<Rightarrow> string \<Rightarrow> u16 \<Rightarrow> (int \<times> kyrofs) option" where
  "kyrofs_mkdir fs d name mode = kyrofs_create_node d name VFS_DIRECTORY fs"

definition kyrofs_create :: "kyrofs \<Rightarrow> nat \<Rightarrow> string \<Rightarrow> u16 \<Rightarrow> (int \<times> kyrofs) option" where
  "kyrofs_create fs d name mode = kyrofs_create_node d name VFS_FILE fs"

text \<open>Unlinking the entry and freeing it: the tail of both remove operations.\<close>

definition unlink_node :: "nat \<Rightarrow> nat \<Rightarrow> kyrofs \<Rightarrow> kyrofs option" where
  "unlink_node d c fs =
     (case nodes fs d of None \<Rightarrow> None
      | Some p \<Rightarrow> Some (fs\<lparr>nodes := (nodes fs)(d \<mapsto> p\<lparr>node_dirents := remove1 c (node_dirents p)\<rparr>, c := None)\<rparr>))"

definition kyrofs_remove :: "kyrofs \<Rightarrow> nat \<Rightarrow> string \<Rightarrow> (int \<times> kyrofs) option" where
  "kyrofs_remove fs d name = do {
     p \<leftarrow> nodes fs d;
     r \<leftarrow> find_child (nodes fs) name (node_dirents p);
     (case r of
        None \<Rightarrow> Some (-1, fs)
      | Some c \<Rightarrow> do {
          x \<leftarrow> nodes fs c;
          (if node_flags x AND VFS_DIRECTORY \<noteq> 0 \<and> node_dirents x \<noteq> [] then Some (-1, fs)
           else if node_flags x AND VFS_FILE \<noteq> 0 \<and> node_content x = None then None
           else map_option (\<lambda>fs'. (0, fs')) (unlink_node d c fs)) }) }"

definition kyrofs_rmdir :: "kyrofs \<Rightarrow> nat \<Rightarrow> string \<Rightarrow> u16 \<Rightarrow> (int \<times> kyrofs) option" where
  "kyrofs_rmdir fs d name mode = do {
     p \<leftarrow> nodes fs d;
     r \<leftarrow> find_child (nodes fs) name (node_dirents p);
     (case r of
        None \<Rightarrow> Some (-1, fs)
      | Some c \<Rightarrow> do {
          x \<leftarrow> nodes fs c;
          (if node_flags x AND VFS_DIRECTORY = 0 then Some (-1, fs)
           else if node_dirents x \<noteq> [] then Some (-1, fs)
           else map_option (\<lambda>fs'. (0, fs')) (unlink_node d c fs)) }) }"

definition kyrofs_stat :: "kyrofs \<Rightarrow> nat \<Rightarrow> (int \<times> stat \<times> kyrofs) option" where
  "kyrofs_stat fs n =
     (case nodes fs n of None \<Rightarrow> None
      | Some x \<Rightarrow> Some (0,
          \<lparr>st_size = node_length x,
           st_mode = (if node_flags x AND VFS_FILE \<noteq> 0 then S_IFREG
                      else if node_flags x AND VFS_DIRECTORY \<noteq> 0 then S_IFDIR
                      else if node_flags x AND VFS_CHARDEVICE \<noteq> 0 then S_IFREG else 0) OR 0x1ED,
           st_ino = node_inode x\<rparr>, fs))"

subsection \<open>The operations a node carries\<close>

definition dir_op :: "kyrofs \<Rightarrow> nat \<Rightarrow> 'f \<Rightarrow> 'f option" where
  "dir_op fs n f = (case nodes fs n of None \<Rightarrow> None | Some x \<Rightarrow> if node_dir_ops x then Some f else None)"

text \<open>The read and write functions of the terminal (tty.c) are the arguments \<open>tr\<close> and \<open>tw\<close>.\<close>

definition kyrofs_ops ::
  "(u64 \<Rightarrow> u32 \<Rightarrow> kyrofs \<Rightarrow> (u32 \<times> cell list \<times> kyrofs) option) \<Rightarrow>
   (u64 \<Rightarrow> u32 \<Rightarrow> u8 list \<Rightarrow> kyrofs \<Rightarrow> (u32 \<times> kyrofs) option) \<Rightarrow> (kyrofs, nat) vfs_ops" where
  "kyrofs_ops tr tw =
     \<lparr>op_flags = (\<lambda>fs n. case nodes fs n of None \<Rightarrow> 0 | Some x \<Rightarrow> node_flags x),
      op_read = (\<lambda>fs n. case nodes fs n of None \<Rightarrow> None
                  | Some x \<Rightarrow> (case node_rw x of Rw_null \<Rightarrow> None | Rw_kyrofs \<Rightarrow> Some (kyrofs_read fs n)
                              | Rw_tty \<Rightarrow> Some (\<lambda>off k. tr off k fs))),
      op_write = (\<lambda>fs n. case nodes fs n of None \<Rightarrow> None
                  | Some x \<Rightarrow> (case node_rw x of Rw_null \<Rightarrow> None | Rw_kyrofs \<Rightarrow> Some (kyrofs_write fs n)
                              | Rw_tty \<Rightarrow> Some (\<lambda>off k buf. tw off k buf fs))),
      op_open = (\<lambda>fs n. case nodes fs n of None \<Rightarrow> None
                  | Some x \<Rightarrow> if node_open x then Some (\<lambda>flags. kyrofs_open n flags fs) else None),
      op_finddir = (\<lambda>fs n. dir_op fs n (kyrofs_finddir fs n)),
      op_readdir = (\<lambda>fs n. dir_op fs n (kyrofs_readdir fs n)),
      op_mkdir = (\<lambda>fs n. dir_op fs n (kyrofs_mkdir fs n)),
      op_create = (\<lambda>fs n. dir_op fs n (kyrofs_create fs n)),
      op_remove = (\<lambda>fs n. dir_op fs n (kyrofs_remove fs n)),
      op_rmdir = (\<lambda>fs n. dir_op fs n (kyrofs_rmdir fs n)),
      op_stat = (\<lambda>fs n. dir_op fs n (kyrofs_stat fs n))\<rparr>"

text \<open>Before the file system exists the terminal cannot be reached; these stand for its functions there.\<close>

definition no_tty_read :: "u64 \<Rightarrow> u32 \<Rightarrow> kyrofs \<Rightarrow> (u32 \<times> cell list \<times> kyrofs) option" where
  "no_tty_read off k fs = None"

definition no_tty_write :: "u64 \<Rightarrow> u32 \<Rightarrow> u8 list \<Rightarrow> kyrofs \<Rightarrow> (u32 \<times> kyrofs) option" where
  "no_tty_write off k buf fs = None"

definition boot_ops :: "(kyrofs, nat) vfs_ops" where
  "boot_ops = kyrofs_ops no_tty_read no_tty_write"

subsection \<open>Adding a file by path, and initialisation\<close>

definition kyrofs_add_file :: "string \<Rightarrow> u8 list \<Rightarrow> u32 \<Rightarrow> kyrofs \<Rightarrow> (int \<times> kyrofs) option" where
  "kyrofs_add_file path0 data count fs =
     (let path = (if path0 \<noteq> [] \<and> path0 ! 0 = CHR ''/'' then tl path0 else path0);
          ls = last_slash path;
          file_name = drop (nat (ls + 1)) path
      in if int MAX_FILENAME_LEN \<le> ls \<or> MAX_FILENAME_LEN \<le> length file_name then None
         else do {
           par \<leftarrow> (if ls \<noteq> -1 then map_option fst (vfs_finddir boot_ops (vfs_root fs) (take (nat ls) path) fs)
                   else Some (vfs_root fs));
           (case par of
              None \<Rightarrow> Some (-1, fs)
            | Some p \<Rightarrow> do {
                (_, fs1) \<leftarrow> kyrofs_create fs p file_name 0;
                (r, _) \<leftarrow> vfs_finddir boot_ops (Some p) file_name fs1;
                (case r of
                   None \<Rightarrow> Some (-1, fs1)
                 | Some n \<Rightarrow> do { (_, fs2) \<leftarrow> kyrofs_write fs1 n 0 count data; Some (0, fs2) }) }) })"

definition mkdir_in :: "nat option \<Rightarrow> string \<Rightarrow> kyrofs \<Rightarrow> kyrofs option" where
  "mkdir_in d name fs = (case d of None \<Rightarrow> None | Some n \<Rightarrow> map_option snd (kyrofs_mkdir fs n name 0))"

definition find_in :: "nat option \<Rightarrow> string \<Rightarrow> kyrofs \<Rightarrow> nat option option" where
  "find_in d name fs = map_option fst (vfs_finddir boot_ops d name fs)"

definition root_dirent :: "nat \<Rightarrow> kyrofs_dirent" where
  "root_dirent r =
     \<lparr>node_name = ''/'', node_flags = VFS_DIRECTORY, node_length = 0, node_inode = 0,
      node_dirents = [], node_content = None, node_rw = Rw_null, node_open = True,
      node_dir_ops = True, node_parent = Some r\<rparr>"

definition kyrofs_init :: "kyrofs \<Rightarrow> kyrofs option" where
  "kyrofs_init fs0 =
     (if \<not> heap_ok fs0 DIRENT_SIZE then None
      else let r = next_node fs0;
               fs1 = fs0\<lparr>nodes := (nodes fs0)(r \<mapsto> root_dirent r), next_node := Suc r, vfs_root := Some r\<rparr>
      in do {
        fs2 \<leftarrow> mkdir_in (Some r) ''bin'' fs1;
        fs3 \<leftarrow> mkdir_in (Some r) ''etc'' fs2;
        fs4 \<leftarrow> mkdir_in (Some r) ''var'' fs3;
        fs5 \<leftarrow> mkdir_in (Some r) ''mnt'' fs4;
        fs6 \<leftarrow> mkdir_in (Some r) ''dev'' fs5;
        var_node \<leftarrow> find_in (Some r) ''var'' fs6;
        fs7 \<leftarrow> mkdir_in var_node ''lib'' fs6;
        lib_node \<leftarrow> find_in var_node ''lib'' fs7;
        fs8 \<leftarrow> mkdir_in lib_node ''kpm'' fs7;
        dev_dir \<leftarrow> find_in (Some r) ''dev'' fs8;
        (case dev_dir of
           None \<Rightarrow> Some fs8
         | Some d \<Rightarrow> do {
             (_, fs9) \<leftarrow> kyrofs_create_node d ''tty'' VFS_CHARDEVICE fs8;
             tty \<leftarrow> find_in dev_dir ''tty'' fs9;
             (case tty of
                None \<Rightarrow> Some fs9
              | Some t \<Rightarrow> do { x \<leftarrow> nodes fs9 t; Some (set_node t (x\<lparr>node_rw := Rw_tty\<rparr>) fs9) }) }) })"

definition boot_fs :: kyrofs where
  "boot_fs = \<lparr>nodes = (\<lambda>_. None), next_node = 1, heap_ok = (\<lambda>_. True), vfs_root = None\<rparr>"

subsection \<open>Well-formed stores\<close>

definition content_wf :: "kyrofs_file_content \<Rightarrow> bool" where
  "content_wf c \<longleftrightarrow> fc_size c \<le> fc_capacity c
     \<and> (case fc_content c of None \<Rightarrow> True | Some buf \<Rightarrow> length buf = unat (fc_capacity c))"

definition node_wf :: "kyrofs \<Rightarrow> nat \<Rightarrow> kyrofs_dirent \<Rightarrow> bool" where
  "node_wf fs d x \<longleftrightarrow> d < next_node fs \<and> distinct (node_dirents x)
     \<and> (\<forall>c \<in> set (node_dirents x). Some c \<noteq> vfs_root fs
          \<and> (\<exists>y. nodes fs c = Some y \<and> node_parent y = Some d))
     \<and> (\<exists>p px. node_parent x = Some p \<and> nodes fs p = Some px
          \<and> (Some d = vfs_root fs \<and> p = d \<or> d \<in> set (node_dirents px)))
     \<and> (node_flags x AND VFS_DIRECTORY \<noteq> 0 \<longrightarrow> node_dir_ops x \<and> node_content x = None)
     \<and> (node_dirents x \<noteq> [] \<longrightarrow> node_flags x AND VFS_DIRECTORY \<noteq> 0)
     \<and> (case node_content x of None \<Rightarrow> node_flags x AND VFS_FILE = 0
        | Some c \<Rightarrow> content_wf c \<and> node_flags x AND VFS_FILE \<noteq> 0)"

definition kyro_wf :: "kyrofs \<Rightarrow> bool" where
  "kyro_wf fs \<longleftrightarrow> (\<forall>d x. nodes fs d = Some x \<longrightarrow> node_wf fs d x)"

definition child_named :: "(nat \<Rightarrow> kyrofs_dirent option) \<Rightarrow> string \<Rightarrow> nat list \<Rightarrow> nat option" where
  "child_named st name cs =
     List.find (\<lambda>c. case st c of None \<Rightarrow> False | Some x \<Rightarrow> node_name x = name) cs"

definition kyro_lookup :: "kyrofs \<Rightarrow> nat \<Rightarrow> string \<Rightarrow> nat option" where
  "kyro_lookup fs d name =
     (if name = ''.'' then Some d
      else (case nodes fs d of None \<Rightarrow> None
        | Some x \<Rightarrow> if name = ''..'' then Some (case node_parent x of Some p \<Rightarrow> p | None \<Rightarrow> d)
                   else child_named (nodes fs) name (node_dirents x)))"

lemma find_child_eq:
  "\<forall>c \<in> set cs. st c \<noteq> None \<Longrightarrow> find_child st name cs = Some (child_named st name cs)"
  by (induction cs) (auto simp: child_named_def)

lemma child_named_cong:
  "\<forall>c \<in> set cs. map_option node_name (st c) = map_option node_name (st' c) \<Longrightarrow>
   child_named st name cs = child_named st' name cs"
  unfolding child_named_def by (induction cs) (auto split: option.splits)

lemma kyro_wfD: "kyro_wf fs \<Longrightarrow> nodes fs d = Some x \<Longrightarrow> node_wf fs d x"
  by (simp add: kyro_wf_def)

lemma node_wf_children: "node_wf fs d x \<Longrightarrow> c \<in> set (node_dirents x) \<Longrightarrow> nodes fs c \<noteq> None"
  by (auto simp: node_wf_def)

lemma node_wf_child_named:
  "node_wf fs d x \<Longrightarrow> find_child (nodes fs) name (node_dirents x)
     = Some (child_named (nodes fs) name (node_dirents x))"
  by (rule find_child_eq) (auto dest: node_wf_children)

lemma node_wf_less: "node_wf fs d x \<Longrightarrow> d < next_node fs"
  by (simp add: node_wf_def)

lemma kyro_fresh: "kyro_wf fs \<Longrightarrow> next_node fs \<le> n \<Longrightarrow> nodes fs n = None"
  using kyro_wfD [of fs n] node_wf_less [of fs n] by (cases "nodes fs n") fastforce+

lemma is_directory_kyrofs:
  "is_directory (kyrofs_ops tr tw) fs d \<longleftrightarrow> (\<exists>x. nodes fs d = Some x \<and> node_flags x AND VFS_DIRECTORY \<noteq> 0)"
  by (auto simp: is_directory_def kyrofs_ops_def split: option.splits)

lemma kyrofs_finddir_lookup:
  "kyro_wf fs \<Longrightarrow> nodes fs d = Some x \<Longrightarrow> kyrofs_finddir fs d name = Some (kyro_lookup fs d name, fs)"
  by (auto simp: kyrofs_finddir_def kyro_lookup_def dest!: kyro_wfD node_wf_child_named)

text \<open>Creating a node: the new store, its lookups, and that the store stays well formed.\<close>

definition room_for_node :: "kyrofs \<Rightarrow> bool" where
  "room_for_node fs \<longleftrightarrow> heap_ok fs DIRENT_SIZE \<and> heap_ok fs CONTENT_SIZE \<and> heap_ok fs 128"

definition created :: "nat \<Rightarrow> string \<Rightarrow> u32 \<Rightarrow> kyrofs_dirent \<Rightarrow> kyrofs \<Rightarrow> kyrofs" where
  "created d name flags p fs =
     fs\<lparr>nodes := (nodes fs)(next_node fs \<mapsto> new_dirent d name flags,
                            d \<mapsto> p\<lparr>node_dirents := next_node fs # node_dirents p\<rparr>),
        next_node := Suc (next_node fs)\<rparr>"

lemma kyrofs_create_node_eq:
  assumes "kyro_wf fs" "nodes fs d = Some p" "node_flags p AND VFS_DIRECTORY \<noteq> 0" "room_for_node fs"
    "length name < MAX_FILENAME_LEN"
  shows "kyrofs_create_node d name flags fs = Some (0, created d name flags p fs)"
  using assms kyro_wfD [OF assms(1,2)]
  by (auto simp: kyrofs_create_node_def created_def room_for_node_def node_wf_def Let_def not_le)

lemma new_content_wf: "content_wf new_content"
  by (simp add: content_wf_def new_content_def)

text \<open>A node stays well formed when the store is extended and its own entries grow.\<close>

lemma node_wf_extend:
  assumes zw: "node_wf fs e z0"
    and old: "\<And>k y. nodes fs k = Some y \<Longrightarrow> \<exists>y'. nodes fs' k = Some y' \<and> node_parent y' = node_parent y
        \<and> set (node_dirents y) \<subseteq> set (node_dirents y')"
    and fs': "vfs_root fs' = vfs_root fs" "next_node fs \<le> next_node fs'"
    and kids: "distinct (node_dirents z)" "node_dirents z \<noteq> [] \<Longrightarrow> node_flags z AND VFS_DIRECTORY \<noteq> 0"
      "\<And>c. c \<in> set (node_dirents z) \<Longrightarrow> c \<notin> set (node_dirents z0) \<Longrightarrow>
         Some c \<noteq> vfs_root fs \<and> (\<exists>y. nodes fs' c = Some y \<and> node_parent y = Some e)"
    and eqs: "node_flags z = node_flags z0" "node_dir_ops z = node_dir_ops z0" "node_parent z = node_parent z0"
      "case node_content z of None \<Rightarrow> node_content z0 = None | Some c \<Rightarrow> node_content z0 \<noteq> None \<and> content_wf c"
  shows "node_wf fs' e z"
  unfolding node_wf_def fs'(1)
proof (intro conjI)
  show "e < next_node fs'" using zw fs'(2) by (simp add: node_wf_def)
  show "distinct (node_dirents z)" by (rule kids(1))
  show "\<forall>c \<in> set (node_dirents z). Some c \<noteq> vfs_root fs \<and> (\<exists>y. nodes fs' c = Some y \<and> node_parent y = Some e)"
  proof
    fix c
    assume c: "c \<in> set (node_dirents z)"
    show "Some c \<noteq> vfs_root fs \<and> (\<exists>y. nodes fs' c = Some y \<and> node_parent y = Some e)"
    proof (cases "c \<in> set (node_dirents z0)")
      case True
      then obtain y where "nodes fs c = Some y" "node_parent y = Some e" "Some c \<noteq> vfs_root fs"
        using zw unfolding node_wf_def by blast
      then show ?thesis using old [of c y] by auto
    qed (rule kids(3) [OF c])
  qed
  obtain q qx where q: "node_parent z0 = Some q" "nodes fs q = Some qx"
      "Some e = vfs_root fs \<and> q = e \<or> e \<in> set (node_dirents qx)"
    using zw unfolding node_wf_def by blast
  then show "\<exists>p px. node_parent z = Some p \<and> nodes fs' p = Some px
      \<and> (Some e = vfs_root fs \<and> p = e \<or> e \<in> set (node_dirents px))"
    using old [OF q(2)] eqs(3) by auto
  show "node_dirents z \<noteq> [] \<longrightarrow> node_flags z AND VFS_DIRECTORY \<noteq> 0" using kids(2) by blast
  show "node_flags z AND VFS_DIRECTORY \<noteq> 0 \<longrightarrow> node_dir_ops z \<and> node_content z = None"
    using zw eqs by (auto simp: node_wf_def split: option.splits)
  show "case node_content z of None \<Rightarrow> node_flags z AND VFS_FILE = 0
      | Some c \<Rightarrow> content_wf c \<and> node_flags z AND VFS_FILE \<noteq> 0"
    using zw eqs by (auto simp: node_wf_def split: option.splits)
qed

lemma created_wf:
  assumes wf: "kyro_wf fs" and p: "nodes fs d = Some p" "node_flags p AND VFS_DIRECTORY \<noteq> 0"
    and fl: "flags AND VFS_DIRECTORY = 0 \<or> flags AND VFS_FILE = 0" and r: "vfs_root fs \<noteq> Some (next_node fs)"
  shows "kyro_wf (created d name flags p fs)"
  unfolding kyro_wf_def
proof (intro allI impI)
  fix e x
  assume e: "nodes (created d name flags p fs) e = Some x"
  let ?n = "next_node fs"
  have pw: "node_wf fs d p" by (rule kyro_wfD [OF wf p(1)])
  then have dn: "d < ?n" by (simp add: node_wf_def)
  have lt: "c < ?n" if "nodes fs c \<noteq> None" for c
    using kyro_fresh [OF wf, of c] that by (meson not_le)
  have old: "\<exists>y'. nodes (created d name flags p fs) k = Some y' \<and> node_parent y' = node_parent y
      \<and> set (node_dirents y) \<subseteq> set (node_dirents y')" if "nodes fs k = Some y" for k y
    using that p(1) lt [of k] by (auto simp: created_def)
  show "node_wf (created d name flags p fs) e x"
  proof (cases "e = ?n")
    case True
    then have "x = new_dirent d name flags" using e dn by (simp add: created_def)
    then show ?thesis
      using True dn fl new_content_wf
      by (auto simp: node_wf_def new_dirent_def created_def Let_def)
  next
    case ne: False
    show ?thesis
    proof (cases "e = d")
      case True
      then have x: "x = p\<lparr>node_dirents := ?n # node_dirents p\<rparr>" using e by (simp add: created_def)
      have "?n \<notin> set (node_dirents p)"
        using node_wf_children [OF pw] lt by blast
      then show ?thesis
        using pw p(2) r dn unfolding x True
        by (intro node_wf_extend [OF pw old]) (auto simp: node_wf_def created_def new_dirent_def Let_def split: option.splits)
    next
      case False
      then have x: "nodes fs e = Some x" using e ne by (simp add: created_def)
      from kyro_wfD [OF wf x] show ?thesis
        by (intro node_wf_extend [OF kyro_wfD [OF wf x] old]) (auto simp: node_wf_def created_def split: option.splits)
    qed
  qed
qed

text \<open>The contract of the interface: \<open>kyrofs\<close> provides a growing tree.\<close>

definition made_node :: "u32 \<Rightarrow> kyrofs \<Rightarrow> kyrofs \<Rightarrow> nat \<Rightarrow> bool" where
  "made_node flags fs fs' n \<longleftrightarrow> nodes fs n = None
     \<and> (\<exists>x. nodes fs' n = Some x \<and> node_flags x = flags \<and> node_length x = 0 \<and> node_dirents x = [])"

definition same_store :: "kyrofs \<Rightarrow> kyrofs \<Rightarrow> bool" where
  "same_store fs fs' \<longleftrightarrow> fs' = fs\<lparr>next_node := Suc (next_node fs)\<rparr>"

definition kyro_inv :: "kyrofs \<Rightarrow> bool" where
  "kyro_inv fs \<longleftrightarrow> kyro_wf fs \<and> (\<exists>r. vfs_root fs = Some r \<and> nodes fs r \<noteq> None)"

lemma kyro_inv_root: "kyro_inv fs \<Longrightarrow> vfs_root fs \<noteq> Some (next_node fs)"
  using kyro_fresh by (auto simp: kyro_inv_def)

lemma created_inv:
  assumes "kyro_inv fs" "nodes fs d = Some p" "node_flags p AND VFS_DIRECTORY \<noteq> 0"
    "flags AND VFS_DIRECTORY = 0 \<or> flags AND VFS_FILE = 0"
  shows "kyro_inv (created d name flags p fs)"
  using created_wf [of fs d p flags name] kyro_inv_root [OF assms(1)] assms
  by (auto simp: kyro_inv_def created_def)

lemma created_lookup:
  assumes wf: "kyro_wf fs" and p: "nodes fs d = Some p" and name: "entry_name name"
  shows "kyro_lookup (created d name flags p fs) d name = Some (next_node fs)"
    and "nodes fs d' \<noteq> None \<Longrightarrow> (d', name') \<noteq> (d, name) \<Longrightarrow>
      kyro_lookup (created d name flags p fs) d' name' = kyro_lookup fs d' name'"
proof -
  let ?fs = "created d name flags p fs"
  have dn: "d < next_node fs" using kyro_wfD [OF wf p] by (rule node_wf_less)
  show "kyro_lookup ?fs d name = Some (next_node fs)"
    using name dn by (simp add: kyro_lookup_def entry_name_def created_def child_named_def new_dirent_def Let_def)
  assume d': "nodes fs d' \<noteq> None" and ne: "(d', name') \<noteq> (d, name)"
  then obtain x where x: "nodes fs d' = Some x" by auto
  have d'n: "d' < next_node fs" using kyro_wfD [OF wf x] by (rule node_wf_less)
  have cong: "child_named (nodes ?fs) name' (node_dirents x) = child_named (nodes fs) name' (node_dirents x)"
  proof (rule child_named_cong, intro ballI)
    fix c
    assume c: "c \<in> set (node_dirents x)"
    have "nodes fs c \<noteq> None" by (rule node_wf_children [OF kyro_wfD [OF wf x] c])
    then have "c < next_node fs" using kyro_fresh [OF wf, of c] by (meson not_le)
    then show "map_option node_name (nodes ?fs c) = map_option node_name (nodes fs c)"
      using p by (simp add: created_def)
  qed
  show "kyro_lookup ?fs d' name' = kyro_lookup fs d' name'"
  proof (cases "d' = d")
    case True
    then have "name' \<noteq> name" "x = p" using ne x p by auto
    then have "child_named (nodes ?fs) name' (next_node fs # node_dirents x)
        = child_named (nodes fs) name' (node_dirents x)"
      using cong dn by (simp add: child_named_def created_def new_dirent_def Let_def)
    then show ?thesis
      using True x p dn by (simp add: kyro_lookup_def created_def)
  next
    case False
    then show ?thesis
      using x d'n cong by (simp add: kyro_lookup_def created_def)
  qed
qed

lemma unlink_created:
  assumes wf: "kyro_wf fs" and p: "nodes fs d = Some p"
  shows "unlink_node d (next_node fs) (created d name flags p fs) = Some (fs\<lparr>next_node := Suc (next_node fs)\<rparr>)"
proof -
  have dn: "d < next_node fs" using kyro_wfD [OF wf p] by (rule node_wf_less)
  have "(nodes (created d name flags p fs))(d \<mapsto> p, next_node fs := None) = nodes fs"
    using p dn kyro_fresh [OF wf order_refl] by (auto simp: created_def fun_eq_iff)
  then show ?thesis
    using dn by (simp add: unlink_node_def created_def)
qed

lemma remove_created:
  assumes wf: "kyro_wf fs" and p: "nodes fs d = Some p"
  shows "flags AND VFS_DIRECTORY = 0 \<or> flags AND VFS_FILE = 0 \<Longrightarrow>
      kyrofs_remove (created d name flags p fs) d name = Some (0, fs\<lparr>next_node := Suc (next_node fs)\<rparr>)"
    and "flags AND VFS_DIRECTORY \<noteq> 0 \<Longrightarrow>
      kyrofs_rmdir (created d name flags p fs) d name mode = Some (0, fs\<lparr>next_node := Suc (next_node fs)\<rparr>)"
proof -
  let ?fs = "created d name flags p fs" and ?n = "next_node fs"
  have dn: "d < ?n" using kyro_wfD [OF wf p] by (rule node_wf_less)
  have nd: "nodes ?fs d = Some (p\<lparr>node_dirents := ?n # node_dirents p\<rparr>)"
    "nodes ?fs ?n = Some (new_dirent d name flags)"
    using dn by (simp_all add: created_def)
  have fc: "find_child (nodes ?fs) name (?n # node_dirents p) = Some (Some ?n)"
    by (simp add: nd) (simp add: new_dirent_def Let_def)
  show "kyrofs_remove ?fs d name = Some (0, fs\<lparr>next_node := Suc (next_node fs)\<rparr>)"
    if "flags AND VFS_DIRECTORY = 0 \<or> flags AND VFS_FILE = 0"
    unfolding kyrofs_remove_def
    by (simp add: nd fc unlink_created [OF wf p] del: find_child.simps)
      (simp add: new_dirent_def Let_def)
  show "kyrofs_rmdir ?fs d name mode = Some (0, fs\<lparr>next_node := Suc (next_node fs)\<rparr>)"
    if "flags AND VFS_DIRECTORY \<noteq> 0"
    unfolding kyrofs_rmdir_def using that
    by (simp add: nd fc unlink_created [OF wf p] del: find_child.simps)
      (simp add: new_dirent_def Let_def)
qed

lemma dir_op_directory:
  "kyro_wf fs \<Longrightarrow> nodes fs d = Some x \<Longrightarrow> node_flags x AND VFS_DIRECTORY \<noteq> 0 \<Longrightarrow> dir_op fs d f = Some f"
  by (auto simp: dir_op_def dest!: kyro_wfD simp: node_wf_def)

lemma dir_op_created:
  assumes "kyro_wf fs" "nodes fs d = Some p" "node_flags p AND VFS_DIRECTORY \<noteq> 0"
  shows "dir_op (created d name flags p fs) d f = Some f"
proof -
  have "d < next_node fs" "node_dir_ops p"
    using kyro_wfD [OF assms(1,2)] assms(3) by (auto simp: node_wf_def)
  then show ?thesis by (simp add: dir_op_def created_def)
qed

lemma created_contract:
  assumes inv: "kyro_inv fs" and room: "room_for_node fs" and d: "is_directory (kyrofs_ops tr tw) fs d"
    and name: "entry_name name"
    and fl: "flags AND VFS_DIRECTORY = 0 \<or> flags AND VFS_FILE = 0"
  obtains p where "nodes fs d = Some p" "node_flags p AND VFS_DIRECTORY \<noteq> 0"
    "kyrofs_create_node d name flags fs = Some (0, created d name flags p fs)"
    "kyro_inv (created d name flags p fs)"
    "made_node flags fs (created d name flags p fs) (next_node fs)"
    "kyro_lookup (created d name flags p fs) d name = Some (next_node fs)"
    "\<And>d' name'. is_directory (kyrofs_ops tr tw) fs d' \<Longrightarrow>
       is_directory (kyrofs_ops tr tw) (created d name flags p fs) d'
       \<and> ((d', name') \<noteq> (d, name) \<longrightarrow>
            kyro_lookup (created d name flags p fs) d' name' = kyro_lookup fs d' name')"
proof -
  obtain p where p: "nodes fs d = Some p" "node_flags p AND VFS_DIRECTORY \<noteq> 0"
    using d by (auto simp: is_directory_kyrofs)
  have wf: "kyro_wf fs" using inv by (simp add: kyro_inv_def)
  let ?fs = "created d name flags p fs"
  have len: "length name < MAX_FILENAME_LEN" using name by (simp add: entry_name_def)
  have dn: "d < next_node fs" using kyro_wfD [OF wf p(1)] by (rule node_wf_less)
  have inv': "kyro_inv ?fs" by (rule created_inv [OF inv p fl])
  have dir: "is_directory (kyrofs_ops tr tw) ?fs d'" if dd: "is_directory (kyrofs_ops tr tw) fs d'" for d'
  proof -
    obtain x where "nodes fs d' = Some x" using dd by (auto simp: is_directory_kyrofs)
    from node_wf_less [OF kyro_wfD [OF wf this]] have "d' < next_node fs" .
    then show ?thesis using dd p by (auto simp: is_directory_kyrofs created_def)
  qed
  show thesis
  proof (rule that [OF p kyrofs_create_node_eq [OF wf p room len] inv'])
    show "made_node flags fs ?fs (next_node fs)"
      using kyro_fresh [OF wf order_refl] dn
      by (simp add: made_node_def created_def new_dirent_def Let_def)
    show "kyro_lookup ?fs d name = Some (next_node fs)"
      by (rule created_lookup(1) [OF wf p(1) name])
    show "is_directory (kyrofs_ops tr tw) ?fs d'
       \<and> ((d', name') \<noteq> (d, name) \<longrightarrow> kyro_lookup ?fs d' name' = kyro_lookup fs d' name')"
      if "is_directory (kyrofs_ops tr tw) fs d'" for d' name'
      using that dir created_lookup(2) [OF wf p(1) name, of d' name' flags] by (auto simp: is_directory_kyrofs)
  qed
qed

interpretation kyro: file_tree "kyrofs_ops tr tw" kyro_inv kyro_lookup for tr tw
proof unfold_locales
  fix fs d
  assume inv: "kyro_inv fs" and d: "is_directory (kyrofs_ops tr tw) fs d"
  then obtain x where x: "nodes fs d = Some x" "node_flags x AND VFS_DIRECTORY \<noteq> 0"
    by (auto simp: is_directory_kyrofs)
  have wf: "kyro_wf fs" using inv by (simp add: kyro_inv_def)
  show "\<exists>f. op_finddir (kyrofs_ops tr tw) fs d = Some f
    \<and> (\<forall>name. length name < MAX_FILENAME_LEN \<longrightarrow> f name = Some (kyro_lookup fs d name, fs))"
    using dir_op_directory [OF wf x] kyrofs_finddir_lookup [OF wf x(1)]
    by (intro exI [of _ "kyrofs_finddir fs d"]) (simp add: kyrofs_ops_def)
qed

definition kyro_create_op :: "kyrofs \<Rightarrow> nat \<Rightarrow> (string \<Rightarrow> (int \<times> kyrofs) option) option" where
  "kyro_create_op fs d = map_option (\<lambda>f name. f name 0) (dir_op fs d (kyrofs_create fs d))"

definition kyro_mkdir_op :: "kyrofs \<Rightarrow> nat \<Rightarrow> (string \<Rightarrow> (int \<times> kyrofs) option) option" where
  "kyro_mkdir_op fs d = map_option (\<lambda>f name. f name 0) (dir_op fs d (kyrofs_mkdir fs d))"

definition kyro_remove_op :: "kyrofs \<Rightarrow> nat \<Rightarrow> (string \<Rightarrow> (int \<times> kyrofs) option) option" where
  "kyro_remove_op fs d = dir_op fs d (kyrofs_remove fs d)"

definition kyro_rmdir_op :: "kyrofs \<Rightarrow> nat \<Rightarrow> (string \<Rightarrow> (int \<times> kyrofs) option) option" where
  "kyro_rmdir_op fs d = map_option (\<lambda>f name. f name 0) (dir_op fs d (kyrofs_rmdir fs d))"

lemma kyro_vfs_ops:
  "vfs_create (kyrofs_ops tr tw) r p m fs = vfs_at_parent (kyrofs_ops tr tw) kyro_create_op r p fs"
  "vfs_mkdir (kyrofs_ops tr tw) r p m fs = vfs_at_parent (kyrofs_ops tr tw) kyro_mkdir_op r p fs"
  "vfs_remove (kyrofs_ops tr tw) r p fs = vfs_at_parent (kyrofs_ops tr tw) kyro_remove_op r p fs"
  "vfs_rmdir (kyrofs_ops tr tw) r p m fs = vfs_at_parent (kyrofs_ops tr tw) kyro_rmdir_op r p fs"
proof -
  have "(\<lambda>t n. map_option (\<lambda>f name. f name m) (op_create (kyrofs_ops tr tw) t n)) = kyro_create_op"
    "(\<lambda>t n. map_option (\<lambda>f name. f name m) (op_mkdir (kyrofs_ops tr tw) t n)) = kyro_mkdir_op"
    "op_remove (kyrofs_ops tr tw) = kyro_remove_op"
    "(\<lambda>t n. map_option (\<lambda>f name. f name m) (op_rmdir (kyrofs_ops tr tw) t n)) = kyro_rmdir_op"
    by (simp_all add: fun_eq_iff kyrofs_ops_def kyro_create_op_def kyro_mkdir_op_def kyro_remove_op_def
        kyro_rmdir_op_def kyrofs_create_def kyrofs_mkdir_def kyrofs_rmdir_def dir_op_def split: option.split)
  then show "vfs_create (kyrofs_ops tr tw) r p m fs = vfs_at_parent (kyrofs_ops tr tw) kyro_create_op r p fs"
    "vfs_mkdir (kyrofs_ops tr tw) r p m fs = vfs_at_parent (kyrofs_ops tr tw) kyro_mkdir_op r p fs"
    "vfs_remove (kyrofs_ops tr tw) r p fs = vfs_at_parent (kyrofs_ops tr tw) kyro_remove_op r p fs"
    "vfs_rmdir (kyrofs_ops tr tw) r p m fs = vfs_at_parent (kyrofs_ops tr tw) kyro_rmdir_op r p fs"
    by (simp_all only: vfs_create_def vfs_mkdir_def vfs_remove_def vfs_rmdir_def)
qed

lemma kyro_ops_directory:
  assumes "kyro_wf fs" "nodes fs d = Some p" "node_flags p AND VFS_DIRECTORY \<noteq> 0"
  shows "kyro_create_op fs d = Some (\<lambda>name. kyrofs_create fs d name 0)"
    and "kyro_mkdir_op fs d = Some (\<lambda>name. kyrofs_mkdir fs d name 0)"
  by (simp_all only: kyro_create_op_def kyro_mkdir_op_def dir_op_directory [OF assms] option.map)

lemma vfs_flag_bits [simp]:
  "VFS_FILE AND VFS_DIRECTORY = 0" "VFS_DIRECTORY AND VFS_FILE = 0"
  "VFS_DIRECTORY \<noteq> 0" "VFS_FILE \<noteq> 0"
  "VFS_CHARDEVICE AND VFS_FILE = 0" "VFS_CHARDEVICE AND VFS_DIRECTORY = 0"
  by (simp_all add: vfs_flag_defs)

interpretation kyro_files: growing_tree "kyrofs_ops tr tw" kyro_inv kyro_lookup kyro_create_op
  kyro_remove_op room_for_node "made_node VFS_FILE" same_store for tr tw
proof unfold_locales
  fix fs d name
  assume inv: "kyro_inv fs" and hyp: "room_for_node fs" "is_directory (kyrofs_ops tr tw) fs d" "entry_name name"
  then have wf: "kyro_wf fs" by (simp add: kyro_inv_def)
  have fl: "VFS_FILE AND VFS_DIRECTORY = 0 \<or> VFS_FILE AND VFS_FILE = 0" by simp
  from created_contract [OF inv hyp fl]
  obtain p where p: "nodes fs d = Some p" "node_flags p AND VFS_DIRECTORY \<noteq> 0"
    and c: "kyrofs_create_node d name VFS_FILE fs = Some (0, created d name VFS_FILE p fs)"
      "kyro_inv (created d name VFS_FILE p fs)"
      "made_node VFS_FILE fs (created d name VFS_FILE p fs) (next_node fs)"
      "kyro_lookup (created d name VFS_FILE p fs) d name = Some (next_node fs)"
    and fr: "\<And>d' name'. is_directory (kyrofs_ops tr tw) fs d' \<Longrightarrow>
         is_directory (kyrofs_ops tr tw) (created d name VFS_FILE p fs) d'
       \<and> ((d', name') \<noteq> (d, name) \<longrightarrow>
            kyro_lookup (created d name VFS_FILE p fs) d' name' = kyro_lookup fs d' name')"
    by blast
  show "\<exists>f fs' n. kyro_create_op fs d = Some f \<and> f name = Some (0, fs') \<and> kyro_inv fs' \<and> made_node VFS_FILE fs fs' n
      \<and> kyro_lookup fs' d name = Some n
      \<and> (\<forall>d' name'. is_directory (kyrofs_ops tr tw) fs d' \<longrightarrow> is_directory (kyrofs_ops tr tw) fs' d'
          \<and> ((d', name') \<noteq> (d, name) \<longrightarrow> kyro_lookup fs' d' name' = kyro_lookup fs d' name'))
      \<and> (\<exists>g fs''. kyro_remove_op fs' d = Some g \<and> g name = Some (0, fs'') \<and> same_store fs fs'')"
    using c fr remove_created(1) [OF wf p(1) fl, of name]
    by (intro exI [of _ "\<lambda>name. kyrofs_create fs d name 0"] exI [of _ "created d name VFS_FILE p fs"]
          exI [of _ "next_node fs"])
      (simp add: kyro_ops_directory(1) [OF wf p] kyro_remove_op_def dir_op_created [OF wf p]
        kyrofs_create_def same_store_def)
qed

interpretation kyro_dirs: growing_tree "kyrofs_ops tr tw" kyro_inv kyro_lookup kyro_mkdir_op
  kyro_rmdir_op room_for_node "made_node VFS_DIRECTORY" same_store for tr tw
proof unfold_locales
  fix fs d name
  assume inv: "kyro_inv fs" and hyp: "room_for_node fs" "is_directory (kyrofs_ops tr tw) fs d" "entry_name name"
  then have wf: "kyro_wf fs" by (simp add: kyro_inv_def)
  have fl: "VFS_DIRECTORY AND VFS_DIRECTORY = 0 \<or> VFS_DIRECTORY AND VFS_FILE = 0" by simp
  from created_contract [OF inv hyp fl]
  obtain p where p: "nodes fs d = Some p" "node_flags p AND VFS_DIRECTORY \<noteq> 0"
    and c: "kyrofs_create_node d name VFS_DIRECTORY fs = Some (0, created d name VFS_DIRECTORY p fs)"
      "kyro_inv (created d name VFS_DIRECTORY p fs)"
      "made_node VFS_DIRECTORY fs (created d name VFS_DIRECTORY p fs) (next_node fs)"
      "kyro_lookup (created d name VFS_DIRECTORY p fs) d name = Some (next_node fs)"
    and fr: "\<And>d' name'. is_directory (kyrofs_ops tr tw) fs d' \<Longrightarrow>
         is_directory (kyrofs_ops tr tw) (created d name VFS_DIRECTORY p fs) d'
       \<and> ((d', name') \<noteq> (d, name) \<longrightarrow>
            kyro_lookup (created d name VFS_DIRECTORY p fs) d' name' = kyro_lookup fs d' name')"
    by blast
  show "\<exists>f fs' n. kyro_mkdir_op fs d = Some f \<and> f name = Some (0, fs') \<and> kyro_inv fs' \<and> made_node VFS_DIRECTORY fs fs' n
      \<and> kyro_lookup fs' d name = Some n
      \<and> (\<forall>d' name'. is_directory (kyrofs_ops tr tw) fs d' \<longrightarrow> is_directory (kyrofs_ops tr tw) fs' d'
          \<and> ((d', name') \<noteq> (d, name) \<longrightarrow> kyro_lookup fs' d' name' = kyro_lookup fs d' name'))
      \<and> (\<exists>g fs''. kyro_rmdir_op fs' d = Some g \<and> g name = Some (0, fs'') \<and> same_store fs fs'')"
    using c fr remove_created(2) [OF wf p(1), of VFS_DIRECTORY name 0]
    by (intro exI [of _ "\<lambda>name. kyrofs_mkdir fs d name 0"] exI [of _ "created d name VFS_DIRECTORY p fs"]
          exI [of _ "next_node fs"])
      (simp add: kyro_ops_directory(2) [OF wf p] kyro_rmdir_op_def dir_op_created [OF wf p]
        kyrofs_mkdir_def same_store_def)
qed

subsection \<open>File data\<close>

lemma unat_ucast_32_64 [simp]: "unat (ucast (x :: u32) :: u64) = unat x"
  using unat_bounds(3) [of x] by (simp add: unsigned_ucast_eq take_bit_eq_mod)

lemma unat_ucast_64_32: "unat (x :: u64) < 2 ^ 32 \<Longrightarrow> unat (ucast x :: u32) = unat x"
  by (simp add: unsigned_ucast_eq take_bit_eq_mod)

lemma content_grow_some:
  assumes wf: "content_wf c" "fc_content c = Some buf" and lt: "unat (e :: u64) < 2 ^ 31" and ok: "\<forall>k. ok k"
  obtains c' buf' where "content_grow ok e c = Some c'" "fc_content c' = Some buf'" "content_wf c'"
    "fc_size c' = fc_size c" "unat e \<le> unat (fc_capacity c')"
    "\<forall>i < unat (fc_size c). buf' ! i = buf ! i"
proof (cases "e > ucast (fc_capacity c)")
  case False
  then have "unat e \<le> unat (fc_capacity c)"
    by (simp add: word_less_nat_alt)
  with False assms that show thesis by (auto simp: content_grow_def)
next
  case True
  let ?cap = "ucast (e * 2) :: u32"
  let ?fresh = "replicate (unat ?cap) (None :: cell)"
  have e2: "unat (e * 2) = unat e * 2"
    using lt by (simp add: unat_word_ariths)
  then have cap: "unat ?cap = unat e * 2"
    using lt by (subst unat_ucast_64_32) simp_all
  have "unat (fc_capacity c) < unat e"
    using True by (simp add: word_less_nat_alt)
  moreover have sz: "unat (fc_size c) \<le> unat (fc_capacity c)" "length buf = unat (fc_capacity c)"
    using wf by (simp_all add: content_wf_def word_le_nat_alt)
  ultimately have le: "unat (fc_size c) \<le> unat ?cap" "unat e \<le> unat ?cap" using cap by simp_all
  let ?new = "take (unat (fc_size c)) buf @ drop (unat (fc_size c)) ?fresh"
  have eq: "content_grow ok e c = Some (c\<lparr>fc_content := Some ?new, fc_capacity := ?cap\<rparr>)"
    using True ok wf(2) sz le by (simp add: content_grow_def read_at_def write_at_def Let_def)
  show thesis
  proof (rule that [OF eq])
    show "content_wf (c\<lparr>fc_content := Some ?new, fc_capacity := ?cap\<rparr>)"
      using sz le by (simp add: content_wf_def word_le_nat_alt)
    show "\<forall>i < unat (fc_size c). ?new ! i = buf ! i"
      using sz by (auto simp: nth_append)
  qed (use le in simp_all)
qed

lemma content_store_some:
  assumes "content_wf c" "fc_content c = Some buf" "unat off + length bytes \<le> unat (fc_capacity c)"
  defines "buf' \<equiv> take (unat off) buf @ map Some bytes @ drop (unat off + length bytes) buf"
  shows "content_store off bytes c = Some (c\<lparr>fc_content := Some buf'\<rparr>)"
    and "content_wf (c\<lparr>fc_content := Some buf'\<rparr>)"
    and "take (length bytes) (drop (unat off) buf') = map Some bytes"
    and "i < length buf \<Longrightarrow> i < unat off \<or> unat off + length bytes \<le> i \<Longrightarrow> buf' ! i = buf ! i"
  using assms by (auto simp: content_store_def content_wf_def write_at_def nth_append)

lemma set_node_wf:
  assumes wf: "kyro_wf fs" and x: "nodes fs n = Some x"
    and y: "node_flags y = node_flags x" "node_dirents y = node_dirents x" "node_dir_ops y = node_dir_ops x"
      "node_parent y = node_parent x"
      "(case node_content y of None \<Rightarrow> node_content x = None | Some c \<Rightarrow> node_content x \<noteq> None \<and> content_wf c)"
  shows "kyro_wf (set_node n y fs)"
  unfolding kyro_wf_def
proof (intro allI impI)
  fix e z
  assume e: "nodes (set_node n y fs) e = Some z"
  have old: "\<exists>y'. nodes (set_node n y fs) k = Some y' \<and> node_parent y' = node_parent w
      \<and> set (node_dirents w) \<subseteq> set (node_dirents y')" if "nodes fs k = Some w" for k w
    using that x y by (auto simp: set_node_def)
  obtain z0 where z0: "nodes fs e = Some z0" "z = (if e = n then y else z0)"
    using e x by (auto simp: set_node_def split: if_splits)
  have zw: "node_wf fs e z0" by (rule kyro_wfD [OF wf z0(1)])
  have cont: "case node_content z of None \<Rightarrow> node_content z0 = None
      | Some c \<Rightarrow> node_content z0 \<noteq> None \<and> content_wf c"
    using z0 x y(5) zw by (auto simp: node_wf_def split: option.splits if_splits)
  have "e = n \<Longrightarrow> z0 = x" using z0(1) x by simp
  then have eqs: "node_flags z = node_flags z0" "node_dirents z = node_dirents z0"
      "node_dir_ops z = node_dir_ops z0" "node_parent z = node_parent z0"
    using z0(2) y by auto
  show "node_wf (set_node n y fs) e z"
  proof (rule node_wf_extend [OF zw old])
    show "distinct (node_dirents z)" "node_dirents z \<noteq> [] \<Longrightarrow> node_flags z AND VFS_DIRECTORY \<noteq> 0"
      using zw eqs by (simp_all add: node_wf_def)
    show "Some c \<noteq> vfs_root fs \<and> (\<exists>y'. nodes (set_node n y fs) c = Some y' \<and> node_parent y' = Some e)"
      if "c \<in> set (node_dirents z)" "c \<notin> set (node_dirents z0)" for c
      using that eqs(2) by simp
  qed (simp_all add: set_node_def eqs cont)
qed

lemma node_wf_content:
  "node_wf fs n x \<Longrightarrow> node_content x = Some c \<Longrightarrow> content_wf c"
  by (simp add: node_wf_def)

lemma word_u32_of_nat: "k < 2 ^ 31 \<Longrightarrow> unat (of_nat k :: u32) = k"
  by (simp add: unat_of_nat)

lemma end_pos_unat:
  "unat (off :: u64) + k < 2 ^ 31 \<Longrightarrow> unat (off + ucast (of_nat k :: u32)) = unat off + k"
  by (simp add: unat_word_ariths word_u32_of_nat)

text \<open>What a write leaves in the file, and that the store stays well formed.\<close>

lemma kyrofs_write_effect:
  assumes wf: "kyro_wf fs" and x: "nodes fs n = Some x" and c: "node_content x = Some c"
    and buf: "fc_content c = Some buf" and room: "\<forall>k. heap_ok fs k"
    and lt: "unat offset + length data < 2 ^ 31"
  obtains c' buf' where
    "kyrofs_write fs n offset (of_nat (length data)) data
       = Some (of_nat (length data), set_node n (x\<lparr>node_content := Some c', node_length := fc_size c'\<rparr>) fs)"
    "fc_content c' = Some buf'" "content_wf c'"
    "unat (fc_size c') = max (unat (fc_size c)) (unat offset + length data)"
    "take (length data) (drop (unat offset) buf') = map Some data"
    "\<forall>i < unat (fc_size c). i < unat offset \<or> unat offset + length data \<le> i \<longrightarrow> buf' ! i = buf ! i"
proof -
  let ?e = "offset + ucast (of_nat (length data) :: u32)"
  have e: "unat ?e = unat offset + length data" by (rule end_pos_unat [OF lt])
  have wfc: "content_wf c" by (rule node_wf_content [OF kyro_wfD [OF wf x] c])
  have elt: "unat ?e < 2 ^ 31" using e lt by simp
  from content_grow_some [OF wfc buf elt room]
  obtain c1 buf1 where c1: "content_grow (heap_ok fs) ?e c = Some c1" "fc_content c1 = Some buf1" "content_wf c1"
    "fc_size c1 = fc_size c" "unat ?e \<le> unat (fc_capacity c1)"
    "\<forall>i < unat (fc_size c). buf1 ! i = buf ! i" .
  have fits: "unat offset + length data \<le> unat (fc_capacity c1)" using c1(5) e by simp
  let ?buf' = "take (unat offset) buf1 @ map Some data @ drop (unat offset + length data) buf1"
  let ?c2 = "c1\<lparr>fc_content := Some ?buf'\<rparr>"
  let ?c3 = "if ?e > ucast (fc_size ?c2) then ?c2\<lparr>fc_size := ucast ?e\<rparr> else ?c2"
  note st = content_store_some [OF c1(3) c1(2) fits]
  have len1: "length buf1 = unat (fc_capacity c1)" "unat (fc_size c1) \<le> unat (fc_capacity c1)"
    using c1(2,3) by (simp_all add: content_wf_def word_le_nat_alt)
  have sz: "unat (ucast ?e :: u32) = unat ?e"
    using elt by (intro unat_ucast_64_32) simp
  have gt: "?e > ucast (fc_size ?c2) \<longleftrightarrow> unat (fc_size c) < unat offset + length data"
    using e c1(4) by (simp add: word_less_nat_alt)
  have size': "unat (fc_size ?c3) = max (unat (fc_size c)) (unat offset + length data)"
    using gt sz e c1(4) by (simp add: max_def)
  have count: "unat (of_nat (length data) :: u32) = length data"
    using lt by (intro word_u32_of_nat) simp
  have wf3: "content_wf ?c3"
    using st(2) sz e fits gt by (simp add: content_wf_def word_le_nat_alt)
  have eq: "kyrofs_write fs n offset (of_nat (length data)) data
       = Some (of_nat (length data), set_node n (x\<lparr>node_content := Some ?c3, node_length := fc_size ?c3\<rparr>) fs)"
    unfolding kyrofs_write_def Let_def x c Option.bind.bind_lunit c1(1) count
    by (simp add: read_at_def st(1) if_distrib cong: if_cong)
  show thesis
  proof (rule that [OF eq _ wf3 size' st(3)])
    show "fc_content ?c3 = Some ?buf'" by simp
    show "\<forall>i < unat (fc_size c). i < unat offset \<or> unat offset + length data \<le> i \<longrightarrow> ?buf' ! i = buf ! i"
      using st(4) c1(4,6) len1 by auto
  qed
qed

text \<open>Every operation keeps the store well formed.\<close>

lemma content_grow_wf:
  assumes "content_wf c" "content_grow ok e c = Some c1" "unat (e :: u64) < 2 ^ 31"
  shows "content_wf c1" "fc_size c1 = fc_size c" "unat e \<le> unat (fc_capacity c1)"
proof -
  have e2: "unat (ucast (e * 2) :: u32) = unat e * 2"
  proof -
    have "unat (e * 2) = unat e * 2" using assms(3) by (simp add: unat_word_ariths)
    then show ?thesis using assms(3) by (subst unat_ucast_64_32) simp_all
  qed
  have big: "unat (fc_capacity c) < unat e \<longleftrightarrow> e > ucast (fc_capacity c)"
    by (simp add: word_less_nat_alt)
  have sz: "unat (fc_size c) \<le> unat (fc_capacity c)"
    using assms(1) by (simp add: content_wf_def word_le_nat_alt)
  have "content_wf c1 \<and> fc_size c1 = fc_size c \<and> unat e \<le> unat (fc_capacity c1)"
  proof (cases "e > ucast (fc_capacity c)")
    case True
    show ?thesis
      using assms(1,2) True e2 sz big
      by (auto simp: content_grow_def content_wf_def Let_def word_le_nat_alt bind_eq_Some_conv
          dest: write_at_length split: if_splits option.splits)
  next
    case False
    then show ?thesis using assms(1,2) big by (auto simp: content_grow_def)
  qed
  then show "content_wf c1" "fc_size c1 = fc_size c" "unat e \<le> unat (fc_capacity c1)" by auto
qed

lemma content_store_wf:
  "content_wf c \<Longrightarrow> content_store off bytes c = Some c' \<Longrightarrow>
     content_wf c' \<and> fc_size c' = fc_size c \<and> fc_capacity c' = fc_capacity c"
  by (auto simp: content_store_def content_wf_def dest: write_at_length split: option.splits if_splits)

lemma kyrofs_write_wf:
  assumes wf: "kyro_wf fs" and lt: "unat (offset + ucast count) < 2 ^ 31"
    and w: "kyrofs_write fs n offset count data = Some (k, fs')"
  shows "kyro_wf fs'"
proof -
  let ?e = "offset + ucast count"
  obtain x c0 c1 bytes c2 where x: "nodes fs n = Some x" and c0: "node_content x = Some c0"
    and c1: "content_grow (heap_ok fs) ?e c0 = Some c1" and c2: "content_store offset bytes c1 = Some c2"
    and fs': "fs' = (let c3 = (if ?e > ucast (fc_size c2) then c2\<lparr>fc_size := ucast ?e\<rparr> else c2)
                     in set_node n (x\<lparr>node_content := Some c3, node_length := fc_size c3\<rparr>) fs)"
    using w by (auto simp: kyrofs_write_def Let_def bind_eq_Some_conv)
  have "content_wf c0" by (rule node_wf_content [OF kyro_wfD [OF wf x] c0])
  note g = content_grow_wf [OF this c1 lt]
  note s = content_store_wf [OF g(1) c2]
  have "unat (ucast ?e :: u32) = unat ?e" using lt by (intro unat_ucast_64_32) simp
  then have "content_wf (if ?e > ucast (fc_size c2) then c2\<lparr>fc_size := ucast ?e\<rparr> else c2)"
    using s g(3) by (auto simp: content_wf_def word_le_nat_alt split: option.splits)
  then show ?thesis
    unfolding fs' Let_def using c0 by (intro set_node_wf [OF wf x]) auto
qed

lemma kyrofs_open_wf:
  assumes wf: "kyro_wf fs" and o: "kyrofs_open n flags fs = Some fs'"
  shows "kyro_wf fs'"
proof (cases "fs' = fs")
  case False
  then obtain x c where x: "nodes fs n = Some x" and c: "node_content x = Some c"
    and fs': "fs' = set_node n (x\<lparr>node_content := Some (c\<lparr>fc_content := None, fc_size := 0\<rparr>), node_length := 0\<rparr>) fs"
    using o by (auto simp: kyrofs_open_def split: option.splits if_splits)
  show ?thesis
    unfolding fs' using c by (intro set_node_wf [OF wf x]) (auto simp: content_wf_def)
qed (use wf in simp)

lemma unlink_wf:
  assumes wf: "kyro_wf fs" and p: "nodes fs d = Some p" and c: "c \<in> set (node_dirents p)"
    and x: "nodes fs c = Some x" "node_dirents x = []" and u: "unlink_node d c fs = Some fs'"
  shows "kyro_wf fs'" "vfs_root fs' = vfs_root fs" "vfs_root fs = Some r \<Longrightarrow> nodes fs r \<noteq> None \<Longrightarrow> nodes fs' r \<noteq> None"
proof -
  let ?p = "p\<lparr>node_dirents := remove1 c (node_dirents p)\<rparr>"
  have fs': "fs' = fs\<lparr>nodes := (nodes fs)(d \<mapsto> ?p, c := None)\<rparr>"
    using u p by (simp add: unlink_node_def)
  have pw: "node_wf fs d p" by (rule kyro_wfD [OF wf p])
  have cd: "node_parent x = Some d" "Some c \<noteq> vfs_root fs"
    using pw c x(1) by (auto simp: node_wf_def)
  have dc: "d \<noteq> c"
    using c x p by auto
  show "vfs_root fs' = vfs_root fs" by (simp add: fs')
  show "nodes fs' r \<noteq> None" if "vfs_root fs = Some r" "nodes fs r \<noteq> None"
    using that cd(2) by (auto simp: fs')
  show "kyro_wf fs'"
    unfolding kyro_wf_def
  proof (intro allI impI)
    fix e z
    assume e: "nodes fs' e = Some z"
    then have ec: "e \<noteq> c" by (auto simp: fs' split: if_splits)
    obtain z0 where z0: "nodes fs e = Some z0" "z = (if e = d then ?p else z0)"
      using e ec p by (auto simp: fs' split: if_splits)
    have zw: "node_wf fs e z0" by (rule kyro_wfD [OF wf z0(1)])
    have kids: "set (node_dirents z) \<subseteq> set (node_dirents z0) - {c}" "distinct (node_dirents z)"
    proof -
      have "c \<notin> set (node_dirents z0)" if "e \<noteq> d"
      proof
        assume "c \<in> set (node_dirents z0)"
        then obtain y where "nodes fs c = Some y" "node_parent y = Some e"
          using zw unfolding node_wf_def by blast
        with cd(1) x(1) that show False by simp
      qed
      moreover have "z0 = p" if "e = d" using that z0(1) p by simp
      ultimately show "set (node_dirents z) \<subseteq> set (node_dirents z0) - {c}" "distinct (node_dirents z)"
        using zw pw z0(2) by (auto simp: node_wf_def set_remove1_eq)
    qed
    have eqs: "node_flags z = node_flags z0" "node_content z = node_content z0"
      "node_dir_ops z = node_dir_ops z0" "node_parent z = node_parent z0"
      using z0 p by auto
    have old: "\<exists>y'. nodes fs' k = Some y' \<and> node_parent y' = node_parent y
        \<and> (\<forall>j. j \<noteq> c \<longrightarrow> j \<in> set (node_dirents y) \<longrightarrow> j \<in> set (node_dirents y'))"
      if "nodes fs k = Some y" "k \<noteq> c" for k y
      using that p by (auto simp: fs')
    obtain q qx where q: "node_parent z0 = Some q" "nodes fs q = Some qx"
        "Some e = vfs_root fs \<and> q = e \<or> e \<in> set (node_dirents qx)"
      using zw unfolding node_wf_def by blast
    have qc: "q \<noteq> c"
      using q(2,3) x ec by auto
    show "node_wf fs' e z"
      unfolding node_wf_def eqs
    proof (intro conjI)
      show "\<forall>k \<in> set (node_dirents z). Some k \<noteq> vfs_root fs'
          \<and> (\<exists>y. nodes fs' k = Some y \<and> node_parent y = Some e)"
      proof
        fix k
        assume k: "k \<in> set (node_dirents z)"
        then have kc: "k \<noteq> c" "k \<in> set (node_dirents z0)" using kids by auto
        then obtain y where "nodes fs k = Some y" "node_parent y = Some e" "Some k \<noteq> vfs_root fs"
          using zw by (auto simp: node_wf_def)
        with old [of k y] kc(1) show "Some k \<noteq> vfs_root fs' \<and> (\<exists>y. nodes fs' k = Some y \<and> node_parent y = Some e)"
          by (auto simp: fs')
      qed
      show "\<exists>p px. node_parent z0 = Some p \<and> nodes fs' p = Some px
          \<and> (Some e = vfs_root fs' \<and> p = e \<or> e \<in> set (node_dirents px))"
        using old [OF q(2) qc] q(1,3) ec by (auto simp: fs')
      show "e < next_node fs'" using node_wf_less [OF zw] by (simp add: fs')
      show "distinct (node_dirents z)" by (rule kids(2))
      have "node_dirents z \<noteq> [] \<Longrightarrow> node_dirents z0 \<noteq> []" using kids(1) by auto
      then show "node_dirents z \<noteq> [] \<longrightarrow> node_flags z0 AND VFS_DIRECTORY \<noteq> 0"
        using zw by (simp add: node_wf_def)
    qed (use zw in \<open>simp_all add: node_wf_def\<close>)
  qed
qed

lemma find_child_in: "find_child st name cs = Some (Some c) \<Longrightarrow> c \<in> set cs"
  by (induction cs) (auto split: option.splits if_splits)

lemma kyrofs_remove_unlink:
  assumes "kyrofs_remove fs d name = Some (rc, fs') \<or> kyrofs_rmdir fs d name mode = Some (rc, fs')"
    and wf: "kyro_wf fs" and "fs' \<noteq> fs"
  obtains p c x where "nodes fs d = Some p" "c \<in> set (node_dirents p)" "nodes fs c = Some x"
    "node_dirents x = []" "unlink_node d c fs = Some fs'"
proof -
  have "\<exists>p c x. nodes fs d = Some p \<and> c \<in> set (node_dirents p) \<and> nodes fs c = Some x
      \<and> (node_flags x AND VFS_DIRECTORY = 0 \<or> node_dirents x = []) \<and> unlink_node d c fs = Some fs'"
    using assms(1,3)
    by (auto simp: kyrofs_remove_def kyrofs_rmdir_def bind_eq_Some_conv dest!: find_child_in
        split: option.splits if_splits)
  then show thesis
    using that kyro_wfD [OF wf] by (metis node_wf_def)
qed

lemma kyrofs_remove_inv:
  assumes "kyrofs_remove fs d name = Some (rc, fs') \<or> kyrofs_rmdir fs d name mode = Some (rc, fs')"
    and inv: "kyro_inv fs"
  shows "kyro_inv fs'"
proof (cases "fs' = fs")
  case False
  have wf: "kyro_wf fs" using inv by (simp add: kyro_inv_def)
  from kyrofs_remove_unlink [OF assms(1) wf False]
  obtain p c x where u: "nodes fs d = Some p" "c \<in> set (node_dirents p)" "nodes fs c = Some x"
    "node_dirents x = []" "unlink_node d c fs = Some fs'" .
  show ?thesis
    using inv unlink_wf [OF wf u] by (auto simp: kyro_inv_def)
qed (use inv in simp)

lemma create_node_inv:
  assumes inv: "kyro_inv fs" and c: "kyrofs_create_node d name flags fs = Some (rc, fs')"
    and d: "\<exists>p. nodes fs d = Some p \<and> node_flags p AND VFS_DIRECTORY \<noteq> 0"
    and fl: "flags AND VFS_DIRECTORY = 0 \<or> flags AND VFS_FILE = 0"
  shows "kyro_inv fs'" "fs' = created d name flags (the (nodes fs d)) fs"
proof -
  obtain p where p: "nodes fs d = Some p" "node_flags p AND VFS_DIRECTORY \<noteq> 0" using d by auto
  have "fs' = created d name flags p fs"
    using c p(1) by (auto simp: kyrofs_create_node_def created_def Let_def split: if_splits)
  then show "kyro_inv fs'" "fs' = created d name flags (the (nodes fs d)) fs"
    using created_inv [OF inv p fl] p(1) by simp_all
qed

text \<open>The calls a kernel makes on the store, each on a directory or a node of the right kind.\<close>

inductive kyro_step :: "kyrofs \<Rightarrow> kyrofs \<Rightarrow> bool" where
  create: "is_directory boot_ops fs d \<Longrightarrow> kyrofs_create fs d name mode = Some (rc, fs') \<Longrightarrow> kyro_step fs fs'"
| mkdir: "is_directory boot_ops fs d \<Longrightarrow> kyrofs_mkdir fs d name mode = Some (rc, fs') \<Longrightarrow> kyro_step fs fs'"
| remove: "kyrofs_remove fs d name = Some (rc, fs') \<Longrightarrow> kyro_step fs fs'"
| rmdir: "kyrofs_rmdir fs d name mode = Some (rc, fs') \<Longrightarrow> kyro_step fs fs'"
| open_node: "kyrofs_open n flags fs = Some fs' \<Longrightarrow> kyro_step fs fs'"
| write_file: "unat (offset + ucast count) < 2 ^ 31 \<Longrightarrow>
    kyrofs_write fs n offset count data = Some (k, fs') \<Longrightarrow> kyro_step fs fs'"



lemma root_kept:
  "kyrofs_open n flags fs = Some fs' \<or> kyrofs_write fs n offset count data = Some (k, fs') \<Longrightarrow>
   vfs_root fs' = vfs_root fs \<and> (nodes fs r \<noteq> None \<longrightarrow> nodes fs' r \<noteq> None)"
  by (auto simp: kyrofs_open_def kyrofs_write_def Let_def set_node_def bind_eq_Some_conv
      split: option.splits if_splits)

lemma kyro_step_inv:
  assumes "kyro_step fs fs'" and inv: "kyro_inv fs"
  shows "kyro_inv fs'"
  using assms(1)
proof cases
  case (create d name mode rc)
  then show ?thesis
    using create_node_inv(1) [OF inv] by (auto simp: kyrofs_create_def boot_ops_def is_directory_kyrofs)
next
  case (mkdir d name mode rc)
  then show ?thesis
    using create_node_inv(1) [OF inv] by (auto simp: kyrofs_mkdir_def boot_ops_def is_directory_kyrofs)
next
  case (remove d name rc)
  then show ?thesis using kyrofs_remove_inv inv by blast
next
  case (rmdir d name mode rc)
  then show ?thesis using kyrofs_remove_inv inv by blast
next
  case (open_node n flags)
  then have "kyro_wf fs'" using kyrofs_open_wf inv by (auto simp: kyro_inv_def)
  then show ?thesis using root_kept open_node inv unfolding kyro_inv_def by metis
next
  case (write_file offset count n data k)
  then have "kyro_wf fs'" using kyrofs_write_wf inv by (auto simp: kyro_inv_def)
  then show ?thesis using root_kept write_file(2) inv unfolding kyro_inv_def by metis
qed

subsection \<open>Initialisation\<close>

definition all_dirs :: "kyrofs \<Rightarrow> bool" where
  "all_dirs fs \<longleftrightarrow> kyro_inv fs \<and> (\<forall>n x. nodes fs n = Some x \<longrightarrow> node_flags x = VFS_DIRECTORY)"

lemma mkdir_in_all_dirs:
  assumes "all_dirs fs" "mkdir_in d name fs = Some fs'"
  shows "all_dirs fs'"
proof -
  obtain n rc where c: "kyrofs_create_node n name VFS_DIRECTORY fs = Some (rc, fs')"
    using assms(2) by (auto simp: mkdir_in_def kyrofs_mkdir_def split: option.splits)
  then obtain p where p: "nodes fs n = Some p"
    by (auto simp: kyrofs_create_node_def split: if_splits option.splits)
  then have fl: "node_flags p = VFS_DIRECTORY" using assms(1) by (simp add: all_dirs_def)
  have inv: "kyro_inv fs" using assms(1) by (simp add: all_dirs_def)
  note cr = create_node_inv [OF inv c]
  have "kyro_inv fs'" "fs' = created n name VFS_DIRECTORY p fs"
    using cr p fl by simp_all
  then show ?thesis
    using assms(1) p fl by (auto simp: all_dirs_def created_def new_dirent_def Let_def)
qed

lemma kyrofs_init_inv:
  assumes "kyrofs_init fs0 = Some fs" "nodes fs0 = (\<lambda>_. None)"
  shows "kyro_inv fs"
proof -
  let ?r = "next_node fs0"
  let ?fs1 = "fs0\<lparr>nodes := (nodes fs0)(?r \<mapsto> root_dirent ?r), next_node := Suc ?r, vfs_root := Some ?r\<rparr>"
  have d1: "all_dirs ?fs1"
    using assms(2)
    by (auto simp: all_dirs_def kyro_inv_def kyro_wf_def node_wf_def root_dirent_def split: if_splits)
  obtain fs2 fs3 fs4 fs5 fs6 fs7 fs8 var_node lib_node dev_dir
    where m: "mkdir_in (Some ?r) ''bin'' ?fs1 = Some fs2" "mkdir_in (Some ?r) ''etc'' fs2 = Some fs3"
      "mkdir_in (Some ?r) ''var'' fs3 = Some fs4" "mkdir_in (Some ?r) ''mnt'' fs4 = Some fs5"
      "mkdir_in (Some ?r) ''dev'' fs5 = Some fs6" "mkdir_in var_node ''lib'' fs6 = Some fs7"
      "mkdir_in lib_node ''kpm'' fs7 = Some fs8"
    and dev: "find_in (Some ?r) ''dev'' fs8 = Some dev_dir"
    and last: "(case dev_dir of
           None \<Rightarrow> Some fs8
         | Some d \<Rightarrow> do {
             (_, fs9) \<leftarrow> kyrofs_create_node d ''tty'' VFS_CHARDEVICE fs8;
             tty \<leftarrow> find_in dev_dir ''tty'' fs9;
             (case tty of
                None \<Rightarrow> Some fs9
              | Some t \<Rightarrow> do { x \<leftarrow> nodes fs9 t; Some (set_node t (x\<lparr>node_rw := Rw_tty\<rparr>) fs9) }) }) = Some fs"
    using assms(1) unfolding kyrofs_init_def Let_def
    by (auto simp only: bind_eq_Some_conv split: if_splits)
  have d8: "all_dirs fs8"
    using d1 m by (meson mkdir_in_all_dirs)
  show ?thesis
  proof (cases dev_dir)
    case None
    then show ?thesis using last d8 by (simp add: all_dirs_def)
  next
    case (Some d)
    then obtain rc fs9 tty where c: "kyrofs_create_node d ''tty'' VFS_CHARDEVICE fs8 = Some (rc, fs9)"
      and t: "find_in dev_dir ''tty'' fs9 = Some tty"
      and l: "(case tty of None \<Rightarrow> Some fs9
              | Some t \<Rightarrow> do { x \<leftarrow> nodes fs9 t; Some (set_node t (x\<lparr>node_rw := Rw_tty\<rparr>) fs9) }) = Some fs"
      using last by (auto simp: bind_eq_Some_conv)
    obtain p where "nodes fs8 d = Some p"
      using c by (auto simp: kyrofs_create_node_def split: if_splits option.splits)
    then have "\<exists>p. nodes fs8 d = Some p \<and> node_flags p AND VFS_DIRECTORY \<noteq> 0"
      using d8 by (auto simp: all_dirs_def)
    then have inv9: "kyro_inv fs9"
      using d8 by (intro create_node_inv(1) [OF _ c]) (simp_all add: all_dirs_def)
    show ?thesis
    proof (cases "fs = fs9")
      case False
      then obtain t x where x: "nodes fs9 t = Some x" "fs = set_node t (x\<lparr>node_rw := Rw_tty\<rparr>) fs9"
        using l by (auto simp: bind_eq_Some_conv split: option.splits)
      have xw: "node_wf fs9 t x" using inv9 x(1) by (auto simp: kyro_inv_def kyro_wf_def)
      have "kyro_wf fs"
        unfolding x(2) using inv9 xw
        by (intro set_node_wf [OF _ x(1)]) (auto simp: kyro_inv_def node_wf_def split: option.splits)
      then show ?thesis using inv9 x by (auto simp: kyro_inv_def set_node_def)
    qed (use inv9 in simp)
  qed
qed

subsection \<open>Correctness\<close>

text \<open>C17: Creating a file by path: when the parent resolves to a directory that has no entry of that
  name, \<open>vfs_create\<close> succeeds, the path then resolves to a fresh empty file, every path that resolved
  before still resolves to the same node, and \<open>vfs_remove\<close> of the path gives the store back exactly
  (up to the supply of new nodes).\<close>

theorem vfs_create_resolves:
  assumes "kyro_inv fs" "room_for_node fs" "entry_name name" "short_path dir" "length dir < MAX_FILENAME_LEN"
    and "vfs_resolve_path (kyrofs_ops tr tw) (Some r) (Some dir) fs = Some (Some d, fs)"
    and "is_directory (kyrofs_ops tr tw) fs d" "kyro_lookup fs d name = None"
  shows "\<exists>fs' n. vfs_create (kyrofs_ops tr tw) (Some r) (Some (dir @ CHR ''/'' # name)) mode fs = Some (0, fs')
    \<and> kyro_inv fs' \<and> made_node VFS_FILE fs fs' n
    \<and> vfs_resolve_path (kyrofs_ops tr tw) (Some r) (Some (dir @ CHR ''/'' # name)) fs' = Some (Some n, fs')
    \<and> (\<forall>q m. short_path q \<and> vfs_resolve_path (kyrofs_ops tr tw) (Some r) (Some q) fs = Some (Some m, fs)
         \<longrightarrow> vfs_resolve_path (kyrofs_ops tr tw) (Some r) (Some q) fs' = Some (Some m, fs'))
    \<and> (\<exists>fs''. vfs_remove (kyrofs_ops tr tw) (Some r) (Some (dir @ CHR ''/'' # name)) fs' = Some (0, fs'')
         \<and> same_store fs fs'')"
  unfolding kyro_vfs_ops by (rule kyro_files.add_resolves [OF assms])

text \<open>A store with a root directory only.\<close>

definition root_fs :: kyrofs where
  "root_fs = \<lparr>nodes = [1 \<mapsto> root_dirent 1], next_node = 2, heap_ok = (\<lambda>_. True), vfs_root = Some 1\<rparr>"

lemma root_fs_inv: "kyro_inv root_fs"
  by (auto simp: kyro_inv_def kyro_wf_def node_wf_def root_fs_def root_dirent_def split: if_splits)

lemma root_fs_facts:
  "room_for_node root_fs" "is_directory boot_ops root_fs 1" "kyro_lookup root_fs 1 ''notes'' = None"
  by (simp_all add: room_for_node_def root_fs_def boot_ops_def is_directory_kyrofs root_dirent_def
      kyro_lookup_def child_named_def)

lemma resolve_root: "vfs_resolve_path ops (Some r) (Some []) fs = Some (Some r, fs)"
  by (simp add: vfs_resolve_path_def resolve_loop.simps)

theorem vfs_create_resolves_witness:
  "\<exists>fs' n. vfs_create boot_ops (Some 1) (Some (''/notes'')) 0 root_fs = Some (0, fs')
    \<and> vfs_resolve_path boot_ops (Some 1) (Some (''/notes'')) fs' = Some (Some n, fs')"
proof -
  have n: "entry_name ''notes''" by (simp add: entry_name_def MAX_FILENAME_LEN_def)
  have d: "short_path []" "length ([] :: string) < MAX_FILENAME_LEN"
    by (simp_all add: short_path_def MAX_FILENAME_LEN_def)
  note f = root_fs_facts [unfolded boot_ops_def]
  show ?thesis
    using vfs_create_resolves [OF root_fs_inv f(1) n d resolve_root f(2,3), of 0]
    unfolding boot_ops_def append_Nil by blast
qed

text \<open>C18: Writing a file and reading it back: for a write that ends below 2 GiB on a file that has a
  buffer, the count returned is the length, the bytes read back at the offset are the bytes written,
  the size is the larger of the old size and the end of the write, bytes outside the range keep their
  value, no other node changes, and the store stays well formed.\<close>

theorem kyrofs_write_read:
  assumes "kyro_wf fs" "nodes fs n = Some x" "node_content x = Some c" "fc_content c = Some buf"
    and "\<forall>k. heap_ok fs k" "unat offset + length data < 2 ^ 31"
  shows "\<exists>fs' x' c' buf'. kyrofs_write fs n offset (of_nat (length data)) data = Some (of_nat (length data), fs')
    \<and> kyro_wf fs' \<and> nodes fs' n = Some x' \<and> node_content x' = Some c' \<and> fc_content c' = Some buf'
    \<and> node_length x' = fc_size c'
    \<and> unat (fc_size c') = max (unat (fc_size c)) (unat offset + length data)
    \<and> kyrofs_read fs' n offset (of_nat (length data)) = Some (of_nat (length data), map Some data, fs')
    \<and> (\<forall>i < unat (fc_size c). i < unat offset \<or> unat offset + length data \<le> i \<longrightarrow> buf' ! i = buf ! i)
    \<and> (\<forall>m. m \<noteq> n \<longrightarrow> nodes fs' m = nodes fs m)"
proof -
  from kyrofs_write_effect [OF assms]
  obtain c' buf' where w: "kyrofs_write fs n offset (of_nat (length data)) data
       = Some (of_nat (length data), set_node n (x\<lparr>node_content := Some c', node_length := fc_size c'\<rparr>) fs)"
    and c': "fc_content c' = Some buf'" "content_wf c'"
      "unat (fc_size c') = max (unat (fc_size c)) (unat offset + length data)"
      "take (length data) (drop (unat offset) buf') = map Some data"
      "\<forall>i < unat (fc_size c). i < unat offset \<or> unat offset + length data \<le> i \<longrightarrow> buf' ! i = buf ! i" .
  let ?x = "x\<lparr>node_content := Some c', node_length := fc_size c'\<rparr>"
  let ?fs = "set_node n ?x fs"
  have "kyro_wf ?fs"
    using assms(3) c'(2) by (intro set_node_wf [OF assms(1,2)]) auto
  moreover have n: "nodes ?fs n = Some ?x" by (simp add: set_node_def)
  moreover have "kyrofs_read ?fs n offset (of_nat (length data)) = Some (of_nat (length data), map Some data, ?fs)"
  proof -
    have e: "unat (offset + ucast (of_nat (length data) :: u32)) = unat offset + length data"
      by (rule end_pos_unat [OF assms(6)])
    have k: "unat (of_nat (length data) :: u32) = length data"
      using assms(6) by (intro word_u32_of_nat) simp
    have len: "length buf' = unat (fc_capacity c')" "unat (fc_size c') \<le> unat (fc_capacity c')"
      using c'(1,2) by (simp_all add: content_wf_def word_le_nat_alt)
    show ?thesis
    proof (cases "data = []")
      case True
      then show ?thesis
        using n c'(1,3) len by (auto simp: kyrofs_read_def read_at_def word_le_nat_alt word_less_nat_alt)
    next
      case False
      then have "\<not> ucast (fc_size c') \<le> offset" "\<not> offset + ucast (of_nat (length data) :: u32) > ucast (fc_size c')"
        using c'(3) e by (simp_all add: word_le_nat_alt word_less_nat_alt)
      then show ?thesis
        using n c'(1,3,4) k len by (simp add: kyrofs_read_def read_at_def)
    qed
  qed
  moreover have "\<forall>m. m \<noteq> n \<longrightarrow> nodes ?fs m = nodes fs m" by (simp add: set_node_def)
  ultimately show ?thesis
    using w c'(1,3,5) by (intro exI [of _ ?fs] exI [of _ ?x] exI [of _ c'] exI [of _ buf']) simp
qed

definition one_file_fs :: kyrofs where
  "one_file_fs = created 1 ''a'' VFS_FILE (root_dirent 1) root_fs"

lemma one_file_fs_facts:
  "kyro_wf one_file_fs" "nodes one_file_fs 2 = Some (new_dirent 1 ''a'' VFS_FILE)" "\<forall>k. heap_ok one_file_fs k"
proof -
  have "kyro_inv one_file_fs"
    unfolding one_file_fs_def
    by (rule created_inv [OF root_fs_inv]) (simp_all add: root_fs_def root_dirent_def)
  then show "kyro_wf one_file_fs" by (simp add: kyro_inv_def)
qed (simp_all add: one_file_fs_def created_def root_fs_def)

theorem kyrofs_write_read_witness:
  "\<exists>fs'. kyrofs_write one_file_fs 2 3 2 [7, 8] = Some (2, fs')
     \<and> kyrofs_read fs' 2 3 2 = Some (2, [Some 7, Some 8], fs')"
proof -
  have c: "node_content (new_dirent 1 ''a'' VFS_FILE) = Some new_content"
    by (simp add: new_dirent_def)
  have b: "fc_content new_content = Some (replicate 128 None)" by (simp add: new_content_def)
  from kyrofs_write_read [OF one_file_fs_facts(1,2) c b one_file_fs_facts(3), of 3 "[7, 8]"]
  show ?thesis by auto
qed

text \<open>After an open with \<open>O_TRUNC\<close> the buffer is gone but the capacity is not: the file reads as
  empty, and any non-empty write that ends within the old capacity goes through a NULL pointer.\<close>

lemma kyrofs_truncate_then_write:
  assumes "nodes fs n = Some x" "node_content x = Some c" "node_flags x AND VFS_FILE \<noteq> 0" "flags AND O_TRUNC \<noteq> 0"
  shows "\<exists>fs'. kyrofs_open n flags fs = Some fs'
    \<and> (\<forall>offset count. kyrofs_read fs' n offset count = Some (0, [], fs'))
    \<and> (\<forall>offset count data. offset + ucast count \<le> ucast (fc_capacity c) \<and> 0 < count
         \<longrightarrow> kyrofs_write fs' n offset count data = None)"
proof -
  let ?c = "c\<lparr>fc_content := None, fc_size := 0\<rparr>"
  let ?x = "x\<lparr>node_content := Some ?c, node_length := 0\<rparr>"
  have o: "kyrofs_open n flags fs = Some (set_node n ?x fs)"
    using assms by (simp add: kyrofs_open_def)
  have n: "nodes (set_node n ?x fs) n = Some ?x" by (simp add: set_node_def)
  have "kyrofs_write (set_node n ?x fs) n offset count data = None"
    if "offset + ucast count \<le> ucast (fc_capacity c)" "0 < count" for offset count data
  proof -
    have g: "content_grow ok (offset + ucast count) ?c = Some ?c" for ok
    proof -
      have "\<not> ucast (fc_capacity ?c) < offset + ucast count" using that(1) by (simp add: not_less)
      then show ?thesis unfolding content_grow_def by (rule if_not_P)
    qed
    have "0 < unat count" using that(2) by (simp add: word_less_nat_alt)
    then have "read_at 0 (unat count) data = Some bytes \<Longrightarrow> bytes \<noteq> []" for bytes
      by (auto simp: read_at_def split: if_splits)
    then show ?thesis
      by (cases "read_at 0 (unat count) data") (simp_all add: kyrofs_write_def n g content_store_def)
  qed
  then show ?thesis using o n by (auto simp: kyrofs_read_def)
qed

lemma kyrofs_truncate_then_write_witness:
  "\<exists>fs'. kyrofs_open 2 O_TRUNC one_file_fs = Some fs' \<and> kyrofs_write fs' 2 0 1 [65] = None"
proof -
  have "node_content (new_dirent 1 ''a'' VFS_FILE) = Some new_content"
    "node_flags (new_dirent 1 ''a'' VFS_FILE) AND VFS_FILE \<noteq> 0" "O_TRUNC AND O_TRUNC \<noteq> 0"
    by (simp_all add: new_dirent_def O_TRUNC_def)
  from kyrofs_truncate_then_write [OF one_file_fs_facts(2) this]
  show ?thesis by (auto simp: new_content_def)
qed

text \<open>C19: The tree built at boot and every store reached from it by creating, removing, truncating
  and writing (below 2 GiB) is well formed: every entry exists and points back to its directory,
  no node has two entries, every node but the root is an entry of its parent, only directories have
  entries, and a file's size fits its buffer.\<close>

theorem kyro_reachable_inv:
  assumes "kyrofs_init fs0 = Some fs1" "nodes fs0 = (\<lambda>_. None)" "kyro_step\<^sup>*\<^sup>* fs1 fs"
  shows "kyro_inv fs"
  using assms(3) kyrofs_init_inv [OF assms(1,2)]
  by (induction rule: rtranclp_induct) (auto intro: kyro_step_inv)

lemma boot_fs_init: "kyrofs_init boot_fs \<noteq> None"
  by code_simp

theorem kyro_reachable_inv_witness: "\<exists>fs. kyrofs_init boot_fs = Some fs \<and> kyro_inv fs"
proof -
  obtain fs where fs: "kyrofs_init boot_fs = Some fs" using boot_fs_init by auto
  have "nodes boot_fs = (\<lambda>_. None)" by (simp add: boot_fs_def)
  from kyro_reachable_inv [OF fs this rtranclp.rtrancl_refl] fs show ?thesis by blast
qed

end
