(* ===== verification/Ide.thy ===== *)
theory Ide
  imports Kyro_Prelude
begin

section \<open>The IDE disk driver (ide.c)\<close>

text \<open>
  The drive is the state: its 512-byte sectors and, for each, whether the drive answers a transfer
  of it without a timeout or an error bit (\<open>sect_ok\<close>, a fact of the hardware and a parameter of
  every statement). The register writes of a command select the 28-bit sector address. A buffer too
  short for the sectors asked for gives \<open>None\<close>. A device node is the whole disk or a partition with
  the data its \<open>ptr\<close> refers to; \<open>part_ptr\<close> is the low half of that pointer itself.
\<close>

record disk =
  primary_master_present :: bool
  sect :: "nat \<Rightarrow> u8 list"
  sect_ok :: "nat \<Rightarrow> bool"

definition lba28 :: "u32 \<Rightarrow> nat" where
  "lba28 lba = unat (lba AND 0x0FFFFFFF)"

fun read_loop :: "disk \<Rightarrow> nat \<Rightarrow> nat \<Rightarrow> u32 \<times> u8 list" where
  "read_loop d a 0 = (0, [])"
| "read_loop d a (Suc n) =
     (if \<not> sect_ok d a then (-1, [])
      else let (rc, rest) = read_loop d (Suc a) n in (rc, sect d a @ rest))"

definition ide_read_sectors :: "disk \<Rightarrow> u8 \<Rightarrow> u32 \<Rightarrow> u8 \<Rightarrow> u32 \<times> u8 list" where
  "ide_read_sectors d drive lba num_sectors =
     (if drive \<noteq> 0 \<or> \<not> primary_master_present d then (-1, [])
      else read_loop d (lba28 lba) (unat num_sectors))"

fun write_loop :: "disk \<Rightarrow> nat \<Rightarrow> nat \<Rightarrow> u8 list \<Rightarrow> u32 \<times> disk" where
  "write_loop d a 0 bytes = (0, d)"
| "write_loop d a (Suc n) bytes =
     (if \<not> sect_ok d a then (-1, d)
      else write_loop (d\<lparr>sect := (sect d)(a := take 512 bytes)\<rparr>) (Suc a) n (drop 512 bytes))"

definition ide_write_sectors :: "disk \<Rightarrow> u8 \<Rightarrow> u32 \<Rightarrow> u8 \<Rightarrow> u8 list \<Rightarrow> (u32 \<times> disk) option" where
  "ide_write_sectors d drive lba num_sectors bytes =
     (if drive \<noteq> 0 \<or> \<not> primary_master_present d then Some (-1, d)
      else if length bytes < 512 * unat num_sectors then None
      else Some (write_loop d (lba28 lba) (unat num_sectors) bytes))"

subsection \<open>The nodes of the disk and its partitions\<close>

datatype blockdev =
  Whole_disk
| Partition (part_start: u32) (part_size: u32) (part_drive: u8) (part_ptr: u32)

text \<open>\<open>/dev/sda\<close>: offsets are bytes, partial sectors are read through a temporary buffer.\<close>

definition ide_read_wrapper :: "disk \<Rightarrow> u64 \<Rightarrow> u32 \<Rightarrow> (nat \<Rightarrow> bool) \<Rightarrow> (u32 \<times> u8 list) option" where
  "ide_read_wrapper d offset count ok =
     (let lba = (ucast (offset div 512) :: u32);
          num_sectors = (ucast ((count + 511) div 512) :: u8);
          partial = (count mod 512 \<noteq> 0)
      in if partial \<and> \<not> ok (unat num_sectors * 512) then Some (-1, [])
         else let (rc, bytes) = ide_read_sectors d 0 lba num_sectors
              in if partial \<and> rc = 0
                 then (if length bytes < unat count then None else Some (rc, take (unat count) bytes))
                 else Some (rc, if partial then [] else bytes))"

definition ide_write_wrapper :: "disk \<Rightarrow> u64 \<Rightarrow> u32 \<Rightarrow> u8 list \<Rightarrow> (u32 \<times> disk) option" where
  "ide_write_wrapper d offset count bytes =
     (let lba = (ucast (offset div 512) :: u32);
          num_sectors = (ucast ((count + 511) div 512) :: u8)
      in if count mod 512 \<noteq> 0 then Some (-1, d) else ide_write_sectors d 0 lba num_sectors bytes)"

definition ide_partition_read_sectors :: "disk \<Rightarrow> blockdev \<Rightarrow> u64 \<Rightarrow> u32 \<Rightarrow> u32 \<times> u8 list" where
  "ide_partition_read_sectors d part offset count =
     (let start = (ucast (offset div 512) :: u32);
          num_sectors = (ucast (count div 512) :: u8)
      in if count mod 512 \<noteq> 0 then (-1, [])
         else if start + ucast num_sectors > part_size part then (-1, [])
         else ide_read_sectors d (part_drive part) (part_start part + start) num_sectors)"

definition ide_partition_write_sectors ::
  "disk \<Rightarrow> blockdev \<Rightarrow> u64 \<Rightarrow> u32 \<Rightarrow> u8 list \<Rightarrow> (u32 \<times> disk) option" where
  "ide_partition_write_sectors d part offset count bytes =
     (let start = (ucast (offset div 512) :: u32);
          num_sectors = (ucast (count div 512) :: u8)
      in if count mod 512 \<noteq> 0 then Some (-1, d)
         else if start + ucast num_sectors > part_size part then Some (-1, d)
         else ide_write_sectors d (part_drive part) (part_start part + start) num_sectors bytes)"

text \<open>The block requests of the two \<open>ioctl\<close> functions; a partition adds its start and checks its size.\<close>

fun ioctl_read_blocks :: "disk \<Rightarrow> blockdev \<Rightarrow> u32 \<Rightarrow> u32 \<Rightarrow> u32 \<times> u8 list" where
  "ioctl_read_blocks d Whole_disk lba count = ide_read_sectors d 0 lba (ucast count)"
| "ioctl_read_blocks d (Partition start len drive ptr) lba count =
     (if lba + count > len then (-1, [])
      else ide_read_sectors d drive (start + lba) (ucast count))"

fun ioctl_write_blocks :: "disk \<Rightarrow> blockdev \<Rightarrow> u32 \<Rightarrow> u32 \<Rightarrow> u8 list \<Rightarrow> (u32 \<times> disk) option" where
  "ioctl_write_blocks d Whole_disk lba count bytes = ide_write_sectors d 0 lba (ucast count) bytes"
| "ioctl_write_blocks d (Partition start len drive ptr) lba count bytes =
     (if lba + count > len then Some (-1, d)
      else ide_write_sectors d drive (start + lba) (ucast count) bytes)"

fun ioctl_disk_info :: "blockdev \<Rightarrow> u64 \<times> u32" where
  "ioctl_disk_info Whole_disk = (0x0FFFFFFF, 512)"
| "ioctl_disk_info (Partition start len drive ptr) = (ucast len, 512)"

subsection \<open>Partition table\<close>

record MBR_PartitionEntry =
  mbr_type :: u8
  lba_first_sector :: u32
  sector_count :: u32

definition mbr_partition :: "u8 list \<Rightarrow> nat \<Rightarrow> MBR_PartitionEntry option" where
  "mbr_partition mbr i =
     (case (rd8 (446 + 16 * i + 4) mbr, rd32 (446 + 16 * i + 8) mbr, rd32 (446 + 16 * i + 12) mbr) of
        (Some t, Some l, Some c) \<Rightarrow> Some \<lparr>mbr_type = t, lba_first_sector = l, sector_count = c\<rparr>
      | _ \<Rightarrow> None)"

definition part_entries :: "u8 list \<Rightarrow> (nat \<times> u32 \<times> u32) list" where
  "part_entries mbr =
     List.map_filter (\<lambda>i. case mbr_partition mbr i of
        None \<Rightarrow> None
      | Some p \<Rightarrow> if mbr_type p = 0 \<or> sector_count p = 0 then None
                 else Some (i + 1, lba_first_sector p, sector_count p)) [0..<4]"

text \<open>
  The partition nodes \<open>ide_init_partitions\<close> registers, as number, first sector and size; \<open>node_read\<close>
  is the read function of the disk node.
\<close>

definition ide_init_partitions ::
  "(u64 \<Rightarrow> u32 \<Rightarrow> (u32 \<times> u8 list) option) \<Rightarrow> bool \<Rightarrow> (nat \<times> u32 \<times> u32) list option" where
  "ide_init_partitions node_read alloc =
     (if \<not> alloc then Some []
      else (case node_read 0 512 of
              None \<Rightarrow> None
            | Some (rc, bytes) \<Rightarrow>
                if rc \<noteq> 512 then Some []
                else if rd16 510 bytes \<noteq> Some 0xAA55 then Some []
                else Some (part_entries bytes)))"

subsection \<open>Transfers\<close>

definition disk_wf :: "disk \<Rightarrow> bool" where
  "disk_wf d \<longleftrightarrow> primary_master_present d \<and> (\<forall>a. sect_ok d a) \<and> (\<forall>a. length (sect d a) = 512)"

lemma read_loop_one [simp]: "sect_ok d a \<Longrightarrow> read_loop d a (Suc 0) = (0, sect d a)"
  by simp

lemma read_loop_many:
  "\<forall>i < n. sect_ok d (a + i) \<Longrightarrow> read_loop d a n = (0, concat (map (sect d) [a..<a + n]))"
proof (induction n arbitrary: a)
  case (Suc n)
  have "sect_ok d a" using Suc.prems by (metis add.right_neutral zero_less_Suc)
  moreover have "read_loop d (Suc a) n = (0, concat (map (sect d) [Suc a..<Suc a + n]))"
    using Suc.prems by (intro Suc.IH) (metis add_Suc_right add_Suc_shift Suc_less_eq)
  moreover have "[a..<a + Suc n] = a # [Suc a..<Suc a + n]" by (simp add: upt_conv_Cons del: upt_Suc)
  ultimately show ?case by (simp del: upt_Suc)
qed simp

lemma read_loop_rc: "fst (read_loop d a n) = 0 \<or> fst (read_loop d a n) = -1"
  by (induction d a n rule: read_loop.induct) (auto simp: case_prod_beta)

lemma disk_wf_write [simp]: "disk_wf d \<Longrightarrow> length b = 512 \<Longrightarrow> disk_wf (d\<lparr>sect := (sect d)(a := b)\<rparr>)"
  by (simp add: disk_wf_def)

lemma lba28_small: "unat lba < 2 ^ 28 \<Longrightarrow> lba28 lba = unat lba"
proof -
  assume "unat lba < 2 ^ 28"
  have m: "(0x0FFFFFFF :: u32) = mask 28" by (simp add: mask_eq_exp_minus_1)
  have "unat (lba AND 0x0FFFFFFF) = unat lba mod 2 ^ 28"
    unfolding m take_bit_eq_mask [symmetric] unsigned_take_bit_eq by (simp add: take_bit_eq_mod)
  with \<open>unat lba < 2 ^ 28\<close> show ?thesis by (simp add: lba28_def)
qed

text \<open>The partition scan never registers a partition: \<open>ide_read_wrapper\<close> reports success as 0,
  and \<open>ide_init_partitions\<close> takes anything but 512 for a failed read, whatever is on the disk.\<close>

lemma ide_partitions_never_found:
  "\<exists>r. ide_init_partitions (\<lambda>offset count. ide_read_wrapper d offset count ok) alloc = Some r \<and> r = []"
proof -
  have "fst (ide_read_sectors d 0 0 1) \<noteq> 512"
    using read_loop_rc [of d "lba28 0" 1] by (auto simp: ide_read_sectors_def)
  then show ?thesis
    by (simp add: ide_init_partitions_def ide_read_wrapper_def Let_def case_prod_beta)
qed

end
