(* ===== verification/Fs_Disk.thy ===== *)
theory Fs_Disk
  imports Ide
begin

section \<open>The disk file system (fs_disk.c, fs_disk.h)\<close>

text \<open>
  The statics of fs_disk.c with the disk below them, as one record. On-disk structures are records
  with their byte layout; a file name keeps its 60 bytes. Paths are the bytes of a terminated string.
  \<open>None\<close> stands for an access outside an object: the cached table read past its end, or used where
  the disk never filled it.
\<close>

definition FS_SIGNATURE :: u32 where "FS_SIGNATURE = 0x4B59524F"
definition FS_BLOCK_SIZE :: nat where "FS_BLOCK_SIZE = 512"
definition FS_MAX_FILES :: nat where "FS_MAX_FILES = 32"
definition FS_MAX_FILENAME_LEN :: nat where "FS_MAX_FILENAME_LEN = 60"
definition FS_FILE_FLAG_FILE :: u32 where "FS_FILE_FLAG_FILE = 1"
definition FS_FILE_FLAG_DIRECTORY :: u32 where "FS_FILE_FLAG_DIRECTORY = 2"

record fs_superblock =
  sb_signature :: u32
  sb_version :: u32
  total_blocks :: u32
  free_blocks :: u32
  next_free_block :: u32
  file_table_start_block :: u32
  file_table_num_blocks :: u32
  sb_padding :: "u8 list"

record fs_file_entry =
  filename :: "u8 list"
  start_block :: u32
  size_bytes :: u32
  e_flags :: u32
  e_padding :: "u8 list"

definition sb_bytes :: "fs_superblock \<Rightarrow> u8 list" where
  "sb_bytes sb = le32 (sb_signature sb) @ le32 (sb_version sb) @ le32 (total_blocks sb) @ le32 (free_blocks sb)
     @ le32 (next_free_block sb) @ le32 (file_table_start_block sb) @ le32 (file_table_num_blocks sb) @ sb_padding sb"

definition sb_of_bytes :: "u8 list \<Rightarrow> fs_superblock" where
  "sb_of_bytes b =
     \<lparr>sb_signature = of_le32 b, sb_version = of_le32 (drop 4 b), total_blocks = of_le32 (drop 8 b),
      free_blocks = of_le32 (drop 12 b), next_free_block = of_le32 (drop 16 b),
      file_table_start_block = of_le32 (drop 20 b), file_table_num_blocks = of_le32 (drop 24 b),
      sb_padding = drop 28 b\<rparr>"

definition entry_bytes :: "fs_file_entry \<Rightarrow> u8 list" where
  "entry_bytes e = filename e @ le32 (start_block e) @ le32 (size_bytes e) @ le32 (e_flags e) @ e_padding e"

definition entry_of_bytes :: "u8 list \<Rightarrow> fs_file_entry" where
  "entry_of_bytes b =
     \<lparr>filename = take 60 b, start_block = of_le32 (drop 60 b), size_bytes = of_le32 (drop 64 b),
      e_flags = of_le32 (drop 68 b), e_padding = drop 72 b\<rparr>"

definition empty_entry :: fs_file_entry where
  "empty_entry = \<lparr>filename = replicate 60 0, start_block = 0, size_bytes = 0, e_flags = 0, e_padding = replicate 440 0\<rparr>"

record fsd =
  disk_of :: disk
  mounted_disk_node :: "blockdev option"
  mounted_partition_lba :: u32
  current_superblock :: fs_superblock
  file_table_cache :: "fs_file_entry list option"
  fs_heap_ok :: "nat \<Rightarrow> bool"

subsection \<open>Blocks\<close>

definition read_block :: "fsd \<Rightarrow> u32 \<Rightarrow> int \<times> u8 list" where
  "read_block s lba =
     (case mounted_disk_node s of
        None \<Rightarrow> (-1, [])
      | Some dev \<Rightarrow>
          let (rc, b) = ioctl_read_blocks (disk_of s) dev (mounted_partition_lba s + lba) 1
          in if rc \<noteq> 0 then (-1, b) else (0, b))"

definition write_block :: "u32 \<Rightarrow> u8 list \<Rightarrow> fsd \<Rightarrow> (int \<times> fsd) option" where
  "write_block lba b s =
     (case mounted_disk_node s of
        None \<Rightarrow> Some (-1, s)
      | Some dev \<Rightarrow>
          (case ioctl_write_blocks (disk_of s) dev (mounted_partition_lba s + lba) 1 b of
             None \<Rightarrow> None
           | Some (rc, d) \<Rightarrow> Some (if rc \<noteq> 0 then -1 else 0, s\<lparr>disk_of := d\<rparr>)))"

definition update_superblock :: "fsd \<Rightarrow> (int \<times> fsd) option" where
  "update_superblock s = write_block 0 (sb_bytes (current_superblock s)) s"

fun write_table_blocks :: "u32 \<Rightarrow> nat \<Rightarrow> fs_file_entry list \<Rightarrow> fsd \<Rightarrow> (int \<times> fsd) option" where
  "write_table_blocks lba 0 t s = Some (0, s)"
| "write_table_blocks lba (Suc n) [] s = None"
| "write_table_blocks lba (Suc n) (e # t) s =
     (case write_block lba (entry_bytes e) s of
        None \<Rightarrow> None
      | Some (rc, s') \<Rightarrow> if rc \<noteq> 0 then Some (-1, s') else write_table_blocks (lba + 1) n t s')"

definition update_file_table :: "fsd \<Rightarrow> (int \<times> fsd) option" where
  "update_file_table s =
     (case file_table_cache s of
        None \<Rightarrow> Some (-1, s)
      | Some t \<Rightarrow> write_table_blocks (file_table_start_block (current_superblock s))
                    (unat (file_table_num_blocks (current_superblock s))) t s)"

subsection \<open>Format, mount and unmount\<close>

definition new_superblock :: "u32 \<Rightarrow> fs_superblock" where
  "new_superblock partition_size =
     (let num = (of_nat ((512 * FS_MAX_FILES + FS_BLOCK_SIZE - 1) div FS_BLOCK_SIZE) :: u32)
      in \<lparr>sb_signature = FS_SIGNATURE, sb_version = 1, total_blocks = partition_size,
          free_blocks = partition_size - (1 + num), next_free_block = 1 + num,
          file_table_start_block = 1, file_table_num_blocks = num, sb_padding = replicate 484 0\<rparr>)"

fun zero_blocks :: "blockdev \<Rightarrow> u32 \<Rightarrow> nat \<Rightarrow> disk \<Rightarrow> (int \<times> disk) option" where
  "zero_blocks dev lba 0 d = Some (0, d)"
| "zero_blocks dev lba (Suc n) d =
     (case ioctl_write_blocks d dev lba 1 (replicate 512 0) of
        None \<Rightarrow> None
      | Some (rc, d') \<Rightarrow> if rc \<noteq> 0 then Some (-1, d') else zero_blocks dev (lba + 1) n d')"

definition fs_format :: "blockdev \<Rightarrow> u32 \<Rightarrow> u32 \<Rightarrow> disk \<Rightarrow> (int \<times> disk) option" where
  "fs_format dev partition_lba partition_size d =
     (let sb = new_superblock partition_size
      in case ioctl_write_blocks d dev partition_lba 1 (sb_bytes sb) of
           None \<Rightarrow> None
         | Some (rc, d') \<Rightarrow>
             if rc \<noteq> 0 then Some (-1, d')
             else zero_blocks dev (partition_lba + file_table_start_block sb)
                    (unat (file_table_num_blocks sb)) d')"

text \<open>The format request of a device: a partition passes its own start along with the address.\<close>

fun ioctl_format :: "blockdev \<Rightarrow> u32 \<Rightarrow> u32 \<Rightarrow> disk \<Rightarrow> (int \<times> disk) option" where
  "ioctl_format Whole_disk lba len d = fs_format Whole_disk lba len d"
| "ioctl_format (Partition start n drive ptr) lba len d =
     fs_format (Partition start n drive ptr) (start + lba) len d"

fun parse_table :: "nat \<Rightarrow> u8 list \<Rightarrow> fs_file_entry list" where
  "parse_table 0 b = []"
| "parse_table (Suc n) b = entry_of_bytes (take 512 b) # parse_table n (drop 512 b)"

definition fs_mount :: "blockdev \<Rightarrow> u32 \<Rightarrow> fsd \<Rightarrow> (int \<times> fsd) option" where
  "fs_mount dev partition_lba s =
     (let (rc, b) = ioctl_read_blocks (disk_of s) dev partition_lba 1
      in if rc \<noteq> 0 then Some (-1, s)
         else let sb = sb_of_bytes b; n = file_table_num_blocks sb
              in if sb_signature sb \<noteq> FS_SIGNATURE then Some (-1, s)
                 else if \<not> fs_heap_ok s (unat (n * 512)) then Some (-1, s\<lparr>file_table_cache := None\<rparr>)
                 else let (rc2, tb) = ioctl_read_blocks (disk_of s) dev (partition_lba + file_table_start_block sb) n
                      in if rc2 \<noteq> 0 then Some (-1, s\<lparr>file_table_cache := None\<rparr>)
                         else if length tb \<noteq> unat n * 512 then None
                         else Some (0, s\<lparr>file_table_cache := Some (parse_table (unat n) tb),
                                        mounted_disk_node := Some dev, mounted_partition_lba := partition_lba,
                                        current_superblock := sb\<rparr>))"

definition fs_unmount :: "fsd \<Rightarrow> (int \<times> fsd) option" where
  "fs_unmount s =
     (case mounted_disk_node s of
        None \<Rightarrow> Some (0, s)
      | Some _ \<Rightarrow> do {
          (_, s1) \<leftarrow> update_superblock s;
          (_, s2) \<leftarrow> update_file_table s1;
          Some (0, s2\<lparr>file_table_cache := None, mounted_disk_node := None, mounted_partition_lba := 0\<rparr>) })"

subsection \<open>The file table\<close>

fun scan_table :: "(fs_file_entry \<Rightarrow> bool) \<Rightarrow> fs_file_entry list \<Rightarrow> nat \<Rightarrow> nat \<Rightarrow> nat option option" where
  "scan_table p t 0 i = Some None"
| "scan_table p [] (Suc n) i = None"
| "scan_table p (e # t) (Suc n) i = (if p e then Some (Some i) else scan_table p t n (i + 1))"

definition entry_used :: "fs_file_entry \<Rightarrow> bool" where
  "entry_used e \<longleftrightarrow> entry_bytes e ! 0 \<noteq> 0"

definition entry_name_is :: "u8 list \<Rightarrow> fs_file_entry \<Rightarrow> bool" where
  "entry_name_is path e \<longleftrightarrow> takeWhile (\<lambda>b. b \<noteq> 0) (entry_bytes e) = path"

definition find_free_file_entry :: "fsd \<Rightarrow> nat option option" where
  "find_free_file_entry s =
     (case file_table_cache s of None \<Rightarrow> Some None
      | Some t \<Rightarrow> scan_table (\<lambda>e. \<not> entry_used e) t FS_MAX_FILES 0)"

definition find_file_entry :: "u8 list \<Rightarrow> fsd \<Rightarrow> nat option option" where
  "find_file_entry path s =
     (case file_table_cache s of None \<Rightarrow> Some None
      | Some t \<Rightarrow> scan_table (\<lambda>e. entry_used e \<and> entry_name_is path e) t FS_MAX_FILES 0)"

definition set_entry :: "nat \<Rightarrow> (fs_file_entry \<Rightarrow> fs_file_entry) \<Rightarrow> fsd \<Rightarrow> fsd" where
  "set_entry i f s = s\<lparr>file_table_cache := map_option (\<lambda>t. t[i := f (t ! i)]) (file_table_cache s)\<rparr>"

definition table_entry :: "fsd \<Rightarrow> nat \<Rightarrow> fs_file_entry" where
  "table_entry s i = (case file_table_cache s of None \<Rightarrow> empty_entry | Some t \<Rightarrow> t ! i)"

subsection \<open>File data\<close>

definition allocate_block :: "fsd \<Rightarrow> (u32 \<times> fsd) option" where
  "allocate_block s =
     (let sb = current_superblock s
      in if free_blocks sb = 0 then Some (0, s)
         else case update_superblock (s\<lparr>current_superblock :=
                     sb\<lparr>next_free_block := next_free_block sb + 1, free_blocks := free_blocks sb - 1\<rparr>\<rparr>) of
                None \<Rightarrow> None
              | Some (_, s') \<Rightarrow> Some (next_free_block sb, s'))"

text \<open>The number of bytes of block \<open>i\<close> of a transfer of \<open>count\<close> bytes.\<close>

definition chunk_len :: "u64 \<Rightarrow> nat \<Rightarrow> nat" where
  "chunk_len count i =
     (let rest = count - of_nat (i * FS_BLOCK_SIZE) in if rest > 512 then 512 else unat rest)"

text \<open>
  The write and read loops, over the functions that transfer one block. The write loop's index is a
  32-bit integer: the model is exact for the sizes the callers have, below 4 GiB.
\<close>

fun write_data_blocks ::
  "(u32 \<Rightarrow> u8 list \<Rightarrow> 's \<Rightarrow> (int \<times> 's) option) \<Rightarrow> nat \<Rightarrow> nat \<Rightarrow> u32 \<Rightarrow> u8 list \<Rightarrow> u64 \<Rightarrow> 's \<Rightarrow> (int \<times> 's) option" where
  "write_data_blocks wr 0 i lba data count s = Some (0, s)"
| "write_data_blocks wr (Suc k) i lba data count s =
     (case read_at (i * FS_BLOCK_SIZE) (chunk_len count i) data of
        None \<Rightarrow> None
      | Some chunk \<Rightarrow>
          (case wr (lba + of_nat i) (chunk @ replicate (FS_BLOCK_SIZE - chunk_len count i) 0) s of
             None \<Rightarrow> None
           | Some (rc, s') \<Rightarrow> if rc \<noteq> 0 then Some (-1, s') else write_data_blocks wr k (i + 1) lba data count s'))"

fun read_data_blocks ::
  "('s \<Rightarrow> u32 \<Rightarrow> int \<times> u8 list) \<Rightarrow> nat \<Rightarrow> nat \<Rightarrow> u32 \<Rightarrow> u64 \<Rightarrow> 's \<Rightarrow> int \<times> u8 list" where
  "read_data_blocks rd 0 i lba count s = (0, [])"
| "read_data_blocks rd (Suc k) i lba count s =
     (let (rc, b) = rd s (lba + of_nat i)
      in if rc \<noteq> 0 then (-1, [])
         else let (rc', rest) = read_data_blocks rd k (i + 1) lba count s
              in (rc', take (chunk_len count i) b @ rest))"

definition fs_write_file :: "u8 list \<Rightarrow> u8 list \<Rightarrow> u64 \<Rightarrow> fsd \<Rightarrow> (int \<times> fsd) option" where
  "fs_write_file path data count s =
     (case find_file_entry path s of
        None \<Rightarrow> None
      | Some None \<Rightarrow> Some (-1, s)
      | Some (Some i) \<Rightarrow>
          if e_flags (table_entry s i) AND FS_FILE_FLAG_FILE = 0 then Some (-1, s)
          else let needed = (ucast ((count + 511) div 512) :: u32)
               in if needed > free_blocks (current_superblock s) then Some (-1, s)
                  else do {
                    (lba, s1) \<leftarrow> allocate_block s;
                    let s2 = set_entry i (\<lambda>e. e\<lparr>start_block := lba\<rparr>) s1;
                    (rc, s3) \<leftarrow> write_data_blocks write_block (unat needed) 0 lba data count s2;
                    (if rc \<noteq> 0 then Some (-1, s3)
                     else do {
                       (_, s4) \<leftarrow> update_file_table (set_entry i (\<lambda>e. e\<lparr>size_bytes := ucast count\<rparr>) s3);
                       Some (sint (ucast count :: u32), s4) }) })"

definition fs_read_file :: "u8 list \<Rightarrow> u64 \<Rightarrow> fsd \<Rightarrow> (int \<times> u8 list) option" where
  "fs_read_file path count s =
     (case mounted_disk_node s of
        None \<Rightarrow> Some (-1, [])
      | Some _ \<Rightarrow>
          (case find_file_entry path s of
             None \<Rightarrow> None
           | Some None \<Rightarrow> Some (-1, [])
           | Some (Some i) \<Rightarrow>
               let e = table_entry s i
               in if e_flags e AND FS_FILE_FLAG_FILE = 0 then Some (-1, [])
                  else let n = (if count > ucast (size_bytes e) then ucast (size_bytes e) else count);
                           (rc, bytes) = read_data_blocks read_block (unat ((n + 511) div 512)) 0 (start_block e) n s
                       in if rc \<noteq> 0 then Some (-1, []) else Some (sint (ucast n :: u32), bytes)))"

subsection \<open>Entries\<close>

definition fs_get_file_info :: "u8 list \<Rightarrow> fsd \<Rightarrow> fs_file_entry option option" where
  "fs_get_file_info path s =
     (case mounted_disk_node s of
        None \<Rightarrow> Some None
      | Some _ \<Rightarrow> map_option (map_option (table_entry s)) (find_file_entry path s))"

definition fs_get_file_info_by_index :: "int \<Rightarrow> fsd \<Rightarrow> fs_file_entry option option" where
  "fs_get_file_info_by_index index s =
     (if mounted_disk_node s = None \<or> index < 0 \<or> int FS_MAX_FILES \<le> index then Some None
      else case file_table_cache s of
             None \<Rightarrow> Some None
           | Some t \<Rightarrow> if length t \<le> nat index then None
                      else Some (if entry_used (t ! nat index) then Some (t ! nat index) else None))"

definition name_field :: "u8 list \<Rightarrow> u8 list" where
  "name_field path = take 59 path @ replicate (60 - length (take 59 path)) 0"

definition fs_create_file :: "u8 list \<Rightarrow> u32 \<Rightarrow> fsd \<Rightarrow> (int \<times> fsd) option" where
  "fs_create_file path flags s =
     (if mounted_disk_node s = None then Some (-1, s)
      else case find_file_entry path s of
             None \<Rightarrow> None
           | Some (Some _) \<Rightarrow> Some (-1, s)
           | Some None \<Rightarrow>
               (case find_free_file_entry s of
                  None \<Rightarrow> None
                | Some None \<Rightarrow> Some (-1, s)
                | Some (Some i) \<Rightarrow>
                    map_option (\<lambda>(_, s'). (0, s'))
                      (update_file_table (set_entry i
                         (\<lambda>_. empty_entry\<lparr>filename := name_field path, e_flags := flags\<rparr>) s))))"

definition fs_delete_file :: "u8 list \<Rightarrow> fsd \<Rightarrow> (int \<times> fsd) option" where
  "fs_delete_file path s =
     (if mounted_disk_node s = None then Some (-1, s)
      else case find_file_entry path s of
             None \<Rightarrow> None
           | Some None \<Rightarrow> Some (-1, s)
           | Some (Some i) \<Rightarrow>
               map_option (\<lambda>(_, s'). (0, s')) (update_file_table (set_entry i (\<lambda>_. empty_entry) s)))"

text \<open>The lines \<open>fs_list_dir\<close> logs: name bytes, size and first block of each used entry.\<close>

definition fs_list_dir :: "fsd \<Rightarrow> (u8 list \<times> u32 \<times> u32) list option" where
  "fs_list_dir s =
     (case file_table_cache s of
        None \<Rightarrow> None
      | Some t \<Rightarrow>
          if length t < FS_MAX_FILES then None
          else Some (map (\<lambda>e. (takeWhile (\<lambda>b. b \<noteq> 0) (entry_bytes e), size_bytes e, start_block e))
                      (filter entry_used (take FS_MAX_FILES t))))"

subsection \<open>The contract of a block device\<close>

text \<open>One block of a transfer, as it is written: the piece of the data, filled up with zeros.\<close>

definition block_of :: "u8 list \<Rightarrow> nat \<Rightarrow> u8 list" where
  "block_of data m = (let c = take 512 (drop (m * 512) data) in c @ replicate (512 - length c) 0)"

lemma length_block_of [simp]: "length (block_of data m) = 512"
  by (simp add: block_of_def Let_def)

lemma chunk_len_of_nat:
  assumes "n < 2 ^ 32" "m * 512 \<le> n"
  shows "chunk_len (of_nat n) m = min 512 (n - m * 512)"
proof -
  have eq: "of_nat n - of_nat (m * 512) = (of_nat (n - m * 512) :: u64)"
    using assms(2) by (simp add: of_nat_diff)
  have u: "unat (of_nat (n - m * 512) :: u64) = n - m * 512"
    using assms unfolding unat_of_nat by simp
  show ?thesis
    unfolding chunk_len_def FS_BLOCK_SIZE_def Let_def eq word_less_nat_alt u by simp
qed

lemma concat_chunks:
  "length data \<le> k * n \<Longrightarrow> concat (map (\<lambda>m. take n (drop (m * n) data)) [0..<k]) = data"
proof (induction k arbitrary: data)
  case (Suc k)
  have "concat (map (\<lambda>m. take n (drop (m * n) (drop n data))) [0..<k]) = drop n data"
    using Suc.prems by (intro Suc.IH) simp
  moreover have "[0..<Suc k] = 0 # map Suc [0..<k]" by (simp add: map_Suc_upt upt_conv_Cons del: upt_Suc)
  ultimately have "concat (map (\<lambda>m. take n (drop (m * n) data)) [0..<Suc k]) = take n data @ drop n data"
    by (simp add: comp_def add.commute del: upt_Suc)
  then show ?case by simp
qed simp

lemma word_add_of_nat_eq:
  assumes "a < 2 ^ 32" "b < 2 ^ 32"
  shows "(x :: u32) + of_nat a = x + of_nat b \<longleftrightarrow> a = b"
proof -
  have "(of_nat a :: u32) = of_nat b \<longleftrightarrow> unat (of_nat a :: u32) = unat (of_nat b :: u32)"
    by (rule word_unat_eq_iff)
  also have "\<dots> \<longleftrightarrow> a = b" using assms by (simp add: unat_of_nat)
  finally show ?thesis by simp
qed

locale block_device =
  fixes rd :: "'s \<Rightarrow> u32 \<Rightarrow> int \<times> u8 list" and wr :: "u32 \<Rightarrow> u8 list \<Rightarrow> 's \<Rightarrow> (int \<times> 's) option"
    and ok :: "'s \<Rightarrow> u32 \<Rightarrow> bool" and blk :: "'s \<Rightarrow> u32 \<Rightarrow> u8 list" and frame :: "'s \<Rightarrow> 'r"
  assumes rd: "ok s a \<Longrightarrow> rd s a = (0, blk s a)"
    and wr: "ok s a \<Longrightarrow> length b = 512 \<Longrightarrow> \<exists>s'. wr a b s = Some (0, s') \<and> frame s' = frame s
        \<and> (\<forall>c. ok s' c = ok s c) \<and> (\<forall>c. ok s c \<longrightarrow> blk s' c = (if c = a then b else blk s c))"
begin

lemma write_data_blocks_effect:
  assumes "length data < 2 ^ 31" "\<forall>j < k. ok s (lba + of_nat (i + j))" "(i + k) * 512 < length data + 512 \<or> k = 0"
  shows "\<exists>s'. write_data_blocks wr k i lba data (of_nat (length data)) s = Some (0, s') \<and> frame s' = frame s
     \<and> (\<forall>c. ok s' c = ok s c)
     \<and> (\<forall>c. ok s c \<longrightarrow> (\<forall>j < k. c = lba + of_nat (i + j) \<longrightarrow> blk s' c = block_of data (i + j))
          \<and> ((\<forall>j < k. c \<noteq> lba + of_nat (i + j)) \<longrightarrow> blk s' c = blk s c))"
  using assms(2,3)
proof (induction k arbitrary: i s)
  case (Suc k)
  let ?n = "length data"
  have i: "i * 512 \<le> ?n" "(i + Suc k) * 512 < ?n + 512" using Suc.prems(2) by simp_all
  have cl: "chunk_len (of_nat ?n) i = min 512 (?n - i * 512)"
    using assms(1) i(1) by (intro chunk_len_of_nat) simp_all
  let ?c = "take (min 512 (?n - i * 512)) (drop (i * 512) data)"
  have ra: "read_at (i * FS_BLOCK_SIZE) (chunk_len (of_nat ?n) i) data = Some ?c"
  proof -
    have "i * 512 + min 512 (?n - i * 512) \<le> ?n" using i(1) by arith
    then show ?thesis by (simp only: read_at_def cl FS_BLOCK_SIZE_def if_True)
  qed
  have pad: "?c @ replicate (FS_BLOCK_SIZE - chunk_len (of_nat ?n) i) 0 = block_of data i"
    by (simp add: block_of_def Let_def cl FS_BLOCK_SIZE_def min_def)
  have "ok s (lba + of_nat i)" using Suc.prems(1) by (auto dest: spec [of _ 0])
  from wr [OF this length_block_of [of data i]]
  obtain s1 where s1: "wr (lba + of_nat i) (block_of data i) s = Some (0, s1)" "frame s1 = frame s"
    "\<And>c. ok s1 c = ok s c"
    "\<And>c. ok s c \<Longrightarrow> blk s1 c = (if c = lba + of_nat i then block_of data i else blk s c)"
    by blast
  have "\<forall>j < k. ok s1 (lba + of_nat (Suc i + j))"
    using Suc.prems(1) s1(3) by (metis add_Suc_right add_Suc Suc_less_eq)
  from Suc.IH [OF this] i(2)
  obtain s2 where s2: "write_data_blocks wr k (Suc i) lba data (of_nat ?n) s1 = Some (0, s2)" "frame s2 = frame s1"
    "\<And>c. ok s2 c = ok s1 c"
    "\<And>c j. ok s1 c \<Longrightarrow> j < k \<Longrightarrow> c = lba + of_nat (Suc i + j) \<Longrightarrow> blk s2 c = block_of data (Suc i + j)"
    "\<And>c. ok s1 c \<Longrightarrow> \<forall>j < k. c \<noteq> lba + of_nat (Suc i + j) \<Longrightarrow> blk s2 c = blk s1 c"
    by auto
  have bound: "i + Suc k < 2 ^ 32" using i(2) assms(1) by simp
  have "write_data_blocks wr (Suc k) i lba data (of_nat ?n) s = Some (0, s2)"
    using s1(1) s2(1) by (simp add: ra pad)
  moreover have "frame s2 = frame s" "\<forall>c. ok s2 c = ok s c" using s1 s2 by simp_all
  moreover have "blk s2 c = block_of data (i + j)" if c: "ok s c" "j < Suc k" "c = lba + of_nat (i + j)" for c j
  proof (cases j)
    case 0
    have "\<forall>j < k. c \<noteq> lba + of_nat (Suc i + j)"
      using c 0 bound word_add_of_nat_eq [of i _ lba] by (auto simp del: of_nat_add of_nat_Suc)
    then show ?thesis using s2(5) s1(3,4) c 0 by simp
  next
    case (Suc j')
    then show ?thesis using s2(4) [of c j'] s1(3) c by simp
  qed
  moreover have "blk s2 c = blk s c" if c: "ok s c" "\<forall>j < Suc k. c \<noteq> lba + of_nat (i + j)" for c
  proof -
    have "c \<noteq> lba + of_nat i" using c(2) by (auto dest: spec [of _ 0])
    moreover have "\<forall>j < k. c \<noteq> lba + of_nat (Suc i + j)"
      using c(2) by (metis add_Suc_right add_Suc Suc_less_eq)
    ultimately show ?thesis using s2(5) s1(3,4) c(1) by simp
  qed
  ultimately show ?case by blast
qed simp

lemma read_data_blocks_eq:
  assumes "n < 2 ^ 32" "\<forall>j < k. ok s (lba + of_nat (i + j))" "(i + k) * 512 < n + 512 \<or> k = 0"
  shows "read_data_blocks rd k i lba (of_nat n) s
    = (0, concat (map (\<lambda>m. take (min 512 (n - m * 512)) (blk s (lba + of_nat m))) [i..<i + k]))"
  using assms(2,3)
proof (induction k arbitrary: i)
  case (Suc k)
  have "ok s (lba + of_nat i)" using Suc.prems(1) by (auto dest: spec [of _ 0])
  moreover have "\<forall>j < k. ok s (lba + of_nat (Suc i + j))"
    using Suc.prems(1) by (metis add_Suc_right add_Suc Suc_less_eq)
  moreover have "chunk_len (of_nat n) i = min 512 (n - i * 512)"
    using assms(1) Suc.prems(2) by (intro chunk_len_of_nat) simp_all
  moreover have "[i..<i + Suc k] = i # [Suc i..<Suc i + k]" by (simp add: upt_conv_Cons del: upt_Suc)
  ultimately show ?case
    using Suc.IH [of "Suc i"] Suc.prems(2) rd by (simp del: upt_Suc)
qed simp

lemma read_back:
  assumes "length data < 2 ^ 31" "k = (length data + 511) div 512"
    and "\<forall>j < k. ok s (lba + of_nat j)" "\<forall>j < k. blk s (lba + of_nat j) = block_of data j"
  shows "read_data_blocks rd k 0 lba (of_nat (length data)) s = (0, data)"
proof -
  let ?n = "length data"
  have k: "k * 512 < ?n + 512" "?n \<le> k * 512" using assms(2) by auto
  have eq: "take (min 512 (?n - m * 512)) (block_of data m) = take 512 (drop (m * 512) data)" if "m < k" for m
    by (simp add: block_of_def Let_def min_def)
  have "read_data_blocks rd k 0 lba (of_nat ?n) s
    = (0, concat (map (\<lambda>m. take (min 512 (?n - m * 512)) (blk s (lba + of_nat m))) [0..<k]))"
    using read_data_blocks_eq [of ?n k s lba 0] assms(1,3) k(1) by simp
  also have "map (\<lambda>m. take (min 512 (?n - m * 512)) (blk s (lba + of_nat m))) [0..<k]
      = map (\<lambda>m. take 512 (drop (m * 512) data)) [0..<k]"
    using assms(4) eq by simp
  finally show ?thesis using concat_chunks [OF k(2)] by simp
qed

end

subsection \<open>The mounted device is a block device\<close>

definition dev_addr :: "blockdev \<Rightarrow> u32 \<Rightarrow> u32" where
  "dev_addr dev lba = (case dev of Whole_disk \<Rightarrow> lba | Partition start len drive ptr \<Rightarrow> start + lba)"

definition dev_ok :: "blockdev \<Rightarrow> u32 \<Rightarrow> bool" where
  "dev_ok dev lba \<longleftrightarrow> (case dev of Whole_disk \<Rightarrow> unat lba < 2 ^ 28
     | Partition start len drive ptr \<Rightarrow> drive = 0 \<and> unat lba < unat len \<and> unat start + unat len \<le> 2 ^ 28)"

definition blk_ok :: "fsd \<Rightarrow> u32 \<Rightarrow> bool" where
  "blk_ok s a \<longleftrightarrow> disk_wf (disk_of s)
     \<and> (case mounted_disk_node s of None \<Rightarrow> False | Some dev \<Rightarrow> dev_ok dev (mounted_partition_lba s + a))"

definition blk_at :: "fsd \<Rightarrow> u32 \<Rightarrow> u8 list" where
  "blk_at s a = (case mounted_disk_node s of None \<Rightarrow> []
     | Some dev \<Rightarrow> sect (disk_of s) (lba28 (dev_addr dev (mounted_partition_lba s + a))))"

definition no_disk :: disk where
  "no_disk = \<lparr>primary_master_present = False, sect = (\<lambda>_. []), sect_ok = (\<lambda>_. False)\<rparr>"

definition fs_memory :: "fsd \<Rightarrow> fsd" where
  "fs_memory s = s\<lparr>disk_of := no_disk\<rparr>"

lemma dev_ok_addr:
  assumes "dev_ok dev lba"
  shows "unat (dev_addr dev lba) < 2 ^ 28" "lba28 (dev_addr dev lba) = unat (dev_addr dev lba)"
proof -
  have "unat (dev_addr dev lba) < 2 ^ 28"
    using assms by (cases dev) (simp_all add: dev_ok_def dev_addr_def unat_word_ariths)
  then show "unat (dev_addr dev lba) < 2 ^ 28" "lba28 (dev_addr dev lba) = unat (dev_addr dev lba)"
    by (simp_all add: lba28_small)
qed

lemma dev_addr_eq: "dev_addr dev a = dev_addr dev b \<longleftrightarrow> a = b"
  by (cases dev) (simp_all add: dev_addr_def)

lemma less_len_no_wrap: "unat (lba :: u32) < unat (len :: u32) \<Longrightarrow> \<not> lba + 1 > len"
  using unat_bounds(3) [of len] by (simp add: word_less_nat_alt unat_word_ariths)

lemma ioctl_read_one:
  assumes "disk_wf d" "dev_ok dev lba"
  shows "ioctl_read_blocks d dev lba 1 = (0, sect d (lba28 (dev_addr dev lba)))"
  using assms less_len_no_wrap
  by (cases dev) (auto simp: dev_ok_def dev_addr_def ide_read_sectors_def disk_wf_def)

lemma ioctl_write_one:
  assumes "disk_wf d" "dev_ok dev lba" "length b = 512"
  shows "ioctl_write_blocks d dev lba 1 b
    = Some (0, d\<lparr>sect := (sect d)(lba28 (dev_addr dev lba) := b)\<rparr>)"
proof -
  have w: "write_loop d a (unat (ucast (1 :: u32) :: u8)) b = (0, d\<lparr>sect := (sect d)(a := b)\<rparr>)" for a
    using assms(1,3) by (simp add: disk_wf_def)
  show ?thesis
    using assms less_len_no_wrap w
    by (cases dev) (auto simp: dev_ok_def dev_addr_def ide_write_sectors_def disk_wf_def)
qed

lemma read_block_eq: "blk_ok s a \<Longrightarrow> read_block s a = (0, blk_at s a)"
  by (auto simp: blk_ok_def blk_at_def read_block_def ioctl_read_one split: option.splits)

lemma blk_at_length: "blk_ok s a \<Longrightarrow> length (blk_at s a) = 512"
  by (auto simp: blk_ok_def blk_at_def disk_wf_def split: option.splits)

lemma write_block_eq:
  assumes "blk_ok s a" "length b = 512"
  shows "\<exists>s'. write_block a b s = Some (0, s') \<and> fs_memory s' = fs_memory s
    \<and> (\<forall>c. blk_ok s' c = blk_ok s c) \<and> (\<forall>c. blk_ok s c \<longrightarrow> blk_at s' c = (if c = a then b else blk_at s c))"
proof -
  obtain dev where dev: "mounted_disk_node s = Some dev" and wf: "disk_wf (disk_of s)"
    and ok: "dev_ok dev (mounted_partition_lba s + a)"
    using assms(1) by (auto simp: blk_ok_def split: option.splits)
  let ?x = "lba28 (dev_addr dev (mounted_partition_lba s + a))"
  let ?s = "s\<lparr>disk_of := disk_of s\<lparr>sect := (sect (disk_of s))(?x := b)\<rparr>\<rparr>"
  have "write_block a b s = Some (0, ?s)"
    using dev ok wf assms(2) by (simp add: write_block_def ioctl_write_one)
  moreover have "blk_at ?s c = (if c = a then b else blk_at s c)" if "blk_ok s c" for c
  proof -
    have c: "dev_ok dev (mounted_partition_lba s + c)" using that dev by (simp add: blk_ok_def)
    have "lba28 (dev_addr dev (mounted_partition_lba s + c)) = ?x \<longleftrightarrow> c = a"
      using dev_ok_addr(2) [OF c] dev_ok_addr(2) [OF ok]
      by (simp add: dev_addr_eq flip: word_unat_eq_iff)
    then show ?thesis using dev by (auto simp: blk_at_def)
  qed
  moreover have "blk_ok ?s c = blk_ok s c" for c
    using wf assms(2) dev by (simp add: blk_ok_def)
  ultimately show ?thesis by (intro exI [of _ ?s]) (simp add: fs_memory_def)
qed

interpretation fsb: block_device read_block write_block blk_ok blk_at fs_memory
  by unfold_locales (fact read_block_eq, fact write_block_eq)

subsection \<open>Byte layout\<close>

definition entry_wf :: "fs_file_entry \<Rightarrow> bool" where
  "entry_wf e \<longleftrightarrow> length (filename e) = 60 \<and> 0 \<in> set (filename e) \<and> length (e_padding e) = 440"

lemma sb_round_trip: "length (sb_padding sb) = 484 \<Longrightarrow> sb_of_bytes (sb_bytes sb) = sb"
  by (simp add: sb_of_bytes_def sb_bytes_def drop_append)

lemma entry_round_trip: "entry_wf e \<Longrightarrow> entry_of_bytes (entry_bytes e) = e"
  by (simp add: entry_of_bytes_def entry_bytes_def entry_wf_def drop_append)

lemma length_sb_bytes: "length (sb_padding sb) = 484 \<Longrightarrow> length (sb_bytes sb) = 512"
  by (simp add: sb_bytes_def)

lemma length_entry_bytes: "entry_wf e \<Longrightarrow> length (entry_bytes e) = 512"
  by (simp add: entry_bytes_def entry_wf_def)

lemma parse_table_round_trip:
  "\<forall>e \<in> set t. entry_wf e \<Longrightarrow> parse_table (length t) (concat (map entry_bytes t)) = t"
  by (induction t) (simp_all add: length_entry_bytes entry_round_trip)

lemma entry_name_field:
  "entry_wf e \<Longrightarrow> entry_name_is path e \<longleftrightarrow> takeWhile (\<lambda>b. b \<noteq> 0) (filename e) = path"
  by (auto simp: entry_name_is_def entry_bytes_def entry_wf_def takeWhile_append1)

lemma entry_used_field: "entry_wf e \<Longrightarrow> entry_used e \<longleftrightarrow> filename e ! 0 \<noteq> 0"
  by (simp add: entry_used_def entry_bytes_def entry_wf_def nth_append)

subsection \<open>The invariant of a mounted file system\<close>

definition fs_inv :: "fsd \<Rightarrow> bool" where
  "fs_inv s \<longleftrightarrow> (let sb = current_superblock s; num = unat (file_table_num_blocks sb) in
     (case file_table_cache s of None \<Rightarrow> False | Some t \<Rightarrow> length t = num \<and> (\<forall>e \<in> set t. entry_wf e))
     \<and> sb_signature sb = FS_SIGNATURE \<and> length (sb_padding sb) = 484
     \<and> FS_MAX_FILES \<le> num \<and> num < 256 \<and> 1 \<le> unat (file_table_start_block sb)
     \<and> unat (file_table_start_block sb) + num \<le> unat (next_free_block sb)
     \<and> unat (next_free_block sb) + unat (free_blocks sb) \<le> unat (total_blocks sb)
     \<and> (\<forall>a. unat a < unat (total_blocks sb) \<longrightarrow> blk_ok s a))"

lemma fs_invD:
  assumes "fs_inv s"
  obtains t where "file_table_cache s = Some t" "length t = unat (file_table_num_blocks (current_superblock s))"
    "\<forall>e \<in> set t. entry_wf e"
  using assms by (auto simp: fs_inv_def Let_def split: option.splits)

lemma memory_fields:
  assumes "fs_memory s' = fs_memory s"
  shows "mounted_disk_node s' = mounted_disk_node s" "mounted_partition_lba s' = mounted_partition_lba s"
    "current_superblock s' = current_superblock s" "file_table_cache s' = file_table_cache s"
    "fs_heap_ok s' = fs_heap_ok s"
  using assms by (auto simp: fs_memory_def dest: arg_cong [of _ _ mounted_disk_node]
      arg_cong [of _ _ mounted_partition_lba] arg_cong [of _ _ current_superblock]
      arg_cong [of _ _ file_table_cache] arg_cong [of _ _ fs_heap_ok])

lemma fs_inv_frame:
  "fs_inv s \<Longrightarrow> fs_memory s' = fs_memory s \<Longrightarrow> \<forall>c. blk_ok s' c = blk_ok s c \<Longrightarrow> fs_inv s'"
  using memory_fields [of s' s] by (simp add: fs_inv_def)

lemma write_table_blocks_effect:
  assumes "length t = n" "\<forall>e \<in> set t. entry_wf e" "\<forall>i < n. blk_ok s (lba + of_nat i)" "n < 256"
  shows "\<exists>s'. write_table_blocks lba n t s = Some (0, s') \<and> fs_memory s' = fs_memory s
    \<and> (\<forall>c. blk_ok s' c = blk_ok s c)
    \<and> (\<forall>c. blk_ok s c \<longrightarrow> (\<forall>i < n. c = lba + of_nat i \<longrightarrow> blk_at s' c = entry_bytes (t ! i))
         \<and> ((\<forall>i < n. c \<noteq> lba + of_nat i) \<longrightarrow> blk_at s' c = blk_at s c))"
  using assms
proof (induction n arbitrary: t lba s)
  case (Suc n)
  obtain e u where t: "t = e # u" using Suc.prems(1) by (cases t) auto
  have ok: "blk_ok s lba" using Suc.prems(3) by (auto dest: spec [of _ 0])
  from fsb.wr [OF ok length_entry_bytes [of e]] Suc.prems(2) t
  obtain s1 where s1: "write_block lba (entry_bytes e) s = Some (0, s1)" "fs_memory s1 = fs_memory s"
    "\<And>c. blk_ok s1 c = blk_ok s c"
    "\<And>c. blk_ok s c \<Longrightarrow> blk_at s1 c = (if c = lba then entry_bytes e else blk_at s c)"
    by auto
  have shift: "lba + of_nat (Suc i) = lba + 1 + of_nat i" for i by simp
  have "\<forall>i < n. blk_ok s1 (lba + 1 + of_nat i)"
    using Suc.prems(3) s1(3) shift by (metis Suc_less_eq)
  from Suc.IH [OF _ _ this, of u] Suc.prems(1,2,4) t
  obtain s2 where s2: "write_table_blocks (lba + 1) n u s1 = Some (0, s2)" "fs_memory s2 = fs_memory s1"
    "\<And>c. blk_ok s2 c = blk_ok s1 c"
    "\<And>c i. blk_ok s1 c \<Longrightarrow> i < n \<Longrightarrow> c = lba + 1 + of_nat i \<Longrightarrow> blk_at s2 c = entry_bytes (u ! i)"
    "\<And>c. blk_ok s1 c \<Longrightarrow> \<forall>i < n. c \<noteq> lba + 1 + of_nat i \<Longrightarrow> blk_at s2 c = blk_at s1 c"
    by auto
  have "write_table_blocks lba (Suc n) t s = Some (0, s2)" using s1(1) s2(1) t by simp
  moreover have "fs_memory s2 = fs_memory s" "\<forall>c. blk_ok s2 c = blk_ok s c" using s1 s2 by simp_all
  moreover have "blk_at s2 c = entry_bytes (t ! i)" if c: "blk_ok s c" "i < Suc n" "c = lba + of_nat i" for c i
  proof (cases i)
    case 0
    have "\<forall>j < n. c \<noteq> lba + 1 + of_nat j"
    proof (intro allI impI)
      fix j
      assume "j < n"
      then show "c \<noteq> lba + 1 + of_nat j"
        unfolding shift [symmetric] c(3) 0 using Suc.prems(4)
        by (subst word_add_of_nat_eq) simp_all
    qed
    then show ?thesis using s2(5) s1(3,4) c 0 t by simp
  next
    case (Suc j)
    then show ?thesis using s2(4) [of c j] s1(3) c shift t by simp
  qed
  moreover have "blk_at s2 c = blk_at s c" if c: "blk_ok s c" "\<forall>i < Suc n. c \<noteq> lba + of_nat i" for c
  proof -
    have "c \<noteq> lba" using c(2) by (auto dest: spec [of _ 0])
    moreover have "\<forall>i < n. c \<noteq> lba + 1 + of_nat i" using c(2) shift by (metis Suc_less_eq)
    ultimately show ?thesis using s2(5) s1(3,4) c(1) by simp
  qed
  ultimately show ?case by blast
qed simp

lemma start_plus_unat:
  "unat (x :: u32) + i < 2 ^ 32 \<Longrightarrow> unat (x + of_nat i) = unat x + i"
  by (simp add: unat_word_ariths unat_of_nat)

lemma update_file_table_effect:
  assumes inv: "fs_inv s" and t: "file_table_cache s = Some t"
  defines "st \<equiv> file_table_start_block (current_superblock s)"
  shows "\<exists>s'. update_file_table s = Some (0, s') \<and> fs_memory s' = fs_memory s
    \<and> (\<forall>c. blk_ok s' c = blk_ok s c)
    \<and> (\<forall>i < length t. blk_at s' (st + of_nat i) = entry_bytes (t ! i))
    \<and> (\<forall>c. blk_ok s c \<longrightarrow> unat c < unat st \<or> unat st + length t \<le> unat c \<longrightarrow> blk_at s' c = blk_at s c)"
proof -
  let ?n = "unat (file_table_num_blocks (current_superblock s))"
  have n: "length t = ?n" "\<forall>e \<in> set t. entry_wf e" "?n < 256"
    and le: "unat st + ?n \<le> unat (total_blocks (current_superblock s))"
    and ok: "\<And>a. unat a < unat (total_blocks (current_superblock s)) \<Longrightarrow> blk_ok s a"
    using inv t by (auto simp: fs_inv_def Let_def st_def)
  have sum: "unat (st + of_nat i) = unat st + i" if "i < ?n" for i
    using that le unat_bounds(3) [of "total_blocks (current_superblock s)"] by (intro start_plus_unat) simp
  have oki: "\<forall>i < ?n. blk_ok s (st + of_nat i)"
    using ok sum le by simp
  from write_table_blocks_effect [OF n(1,2) oki n(3)]
  obtain s' where s': "write_table_blocks st ?n t s = Some (0, s')" "fs_memory s' = fs_memory s"
    "\<forall>c. blk_ok s' c = blk_ok s c"
    "\<And>c i. blk_ok s c \<Longrightarrow> i < ?n \<Longrightarrow> c = st + of_nat i \<Longrightarrow> blk_at s' c = entry_bytes (t ! i)"
    "\<And>c. blk_ok s c \<Longrightarrow> \<forall>i < ?n. c \<noteq> st + of_nat i \<Longrightarrow> blk_at s' c = blk_at s c"
    by blast
  have "update_file_table s = Some (0, s')"
    using s'(1) t by (simp add: update_file_table_def st_def)
  moreover have "\<forall>i < length t. blk_at s' (st + of_nat i) = entry_bytes (t ! i)"
    using s'(4) oki n(1) by simp
  moreover have "blk_at s' c = blk_at s c" if "blk_ok s c" "unat c < unat st \<or> unat st + length t \<le> unat c" for c
    using that s'(5) [of c] sum n(1) by fastforce
  ultimately show ?thesis using s'(2,3) by blast
qed

lemma update_superblock_effect:
  assumes ok: "blk_ok s 0" and pad: "length (sb_padding (current_superblock s)) = 484"
  shows "\<exists>s'. update_superblock s = Some (0, s') \<and> fs_memory s' = fs_memory s
    \<and> (\<forall>c. blk_ok s' c = blk_ok s c)
    \<and> (\<forall>c. blk_ok s c \<longrightarrow> blk_at s' c = (if c = 0 then sb_bytes (current_superblock s) else blk_at s c))"
  unfolding update_superblock_def using fsb.wr [OF ok length_sb_bytes [OF pad]] by blast

subsection \<open>Writing a file\<close>

lemma scan_table_index:
  "scan_table p t n i0 = Some (Some i) \<Longrightarrow> i0 \<le> i \<and> i - i0 < n \<and> i - i0 < length t \<and> p (t ! (i - i0))"
  by (induction p t n i0 rule: scan_table.induct) (auto simp: Suc_diff_le split: if_splits)

lemma scan_table_cong:
  "length t = length u \<Longrightarrow> \<forall>i < length t. p (t ! i) = q (u ! i) \<Longrightarrow> scan_table p t n i0 = scan_table q u n i0"
proof (induction p t n i0 arbitrary: u rule: scan_table.induct)
  case (3 p e t n i)
  then obtain e' u' where "u = e' # u'" by (cases u) auto
  with 3 show ?case by (simp add: All_less_Suc2)
qed auto

lemma block_fields [simp]:
  "blk_ok (s\<lparr>current_superblock := x\<rparr>) = blk_ok s" "blk_at (s\<lparr>current_superblock := x\<rparr>) = blk_at s"
  "blk_ok (set_entry i f s) = blk_ok s" "blk_at (set_entry i f s) = blk_at s"
  "current_superblock (set_entry i f s) = current_superblock s"
  "mounted_disk_node (set_entry i f s) = mounted_disk_node s"
  "mounted_partition_lba (set_entry i f s) = mounted_partition_lba s"
  "file_table_cache (set_entry i f s) = map_option (\<lambda>t. t[i := f (t ! i)]) (file_table_cache s)"
  by (simp_all add: fun_eq_iff blk_ok_def blk_at_def set_entry_def split: option.split)

lemma fs_inv_set_entry:
  assumes "fs_inv s" "file_table_cache s = Some t" "i < length t" "entry_wf (f (t ! i))"
  shows "fs_inv (set_entry i f s)"
  using assms by (auto simp: fs_inv_def Let_def dest: set_update_subset_insert [THEN subsetD])

lemma unat_dec: "0 < unat (x :: u32) \<Longrightarrow> unat (x - 1) = unat x - 1"
  by (subst unat_sub) (simp_all add: word_le_nat_alt)

lemma unat_plus_one: "unat (x :: u32) + 1 < 2 ^ 32 \<Longrightarrow> unat (x + 1) = unat x + 1"
  using start_plus_unat [of x 1] by simp

lemma allocate_block_effect:
  assumes inv: "fs_inv s" and free: "free_blocks (current_superblock s) \<noteq> 0"
  defines "sb' \<equiv> (current_superblock s)\<lparr>next_free_block := next_free_block (current_superblock s) + 1,
      free_blocks := free_blocks (current_superblock s) - 1\<rparr>"
  shows "\<exists>s'. allocate_block s = Some (next_free_block (current_superblock s), s')
    \<and> fs_memory s' = fs_memory (s\<lparr>current_superblock := sb'\<rparr>) \<and> fs_inv s'
    \<and> (\<forall>c. blk_ok s' c = blk_ok s c) \<and> (\<forall>c. blk_ok s c \<and> c \<noteq> 0 \<longrightarrow> blk_at s' c = blk_at s c)"
proof -
  let ?sb = "current_superblock s" and ?s0 = "s\<lparr>current_superblock := sb'\<rparr>"
  have pos: "0 < unat (free_blocks ?sb)" using free by (simp add: unat_gt_0)
  have le: "unat (next_free_block ?sb) + unat (free_blocks ?sb) \<le> unat (total_blocks ?sb)"
    using inv by (simp add: fs_inv_def Let_def)
  then have n: "unat (next_free_block ?sb + 1) = unat (next_free_block ?sb) + 1"
    using pos unat_bounds(3) [of "total_blocks ?sb"] by (intro unat_plus_one) simp
  have f: "unat (free_blocks ?sb - 1) = unat (free_blocks ?sb) - 1"
    using pos by (rule unat_dec)
  have inv0: "fs_inv ?s0"
    using inv pos le n f by (simp add: fs_inv_def Let_def sb'_def split: option.splits)
  have ok: "blk_ok ?s0 0" "length (sb_padding (current_superblock ?s0)) = 484"
    using inv0 pos le by (simp_all add: fs_inv_def Let_def sb'_def)
  from update_superblock_effect [OF ok]
  obtain s' where s': "update_superblock ?s0 = Some (0, s')" "fs_memory s' = fs_memory ?s0"
    "\<forall>c. blk_ok s' c = blk_ok ?s0 c"
    "\<forall>c. blk_ok ?s0 c \<longrightarrow> blk_at s' c = (if c = 0 then sb_bytes (current_superblock ?s0) else blk_at ?s0 c)"
    by blast
  have "allocate_block s = Some (next_free_block ?sb, s')"
    using free s'(1) by (simp add: allocate_block_def sb'_def)
  then show ?thesis
    using s' fs_inv_frame [OF inv0 s'(2,3)] by (intro exI [of _ s']) simp
qed

lemma count_word:
  assumes "n < 2 ^ 31"
  shows "(ucast (of_nat n :: u64) :: u32) = of_nat n" "sint (of_nat n :: u32) = int n"
    "unat (of_nat n :: u64) = n" "unat (of_nat n :: u32) = n"
proof -
  show u: "unat (of_nat n :: u64) = n" "unat (of_nat n :: u32) = n" using assms by (simp_all add: unat_of_nat)
  have "unat (ucast (of_nat n :: u64) :: u32) = unat (of_nat n :: u32)"
    using assms u by (simp add: unsigned_ucast_eq take_bit_eq_mod)
  then show "(ucast (of_nat n :: u64) :: u32) = of_nat n" by (simp only: word_unat_eq_iff)
  have "uint (of_nat n :: u32) = int n" using u(2) by (simp add: uint_nat)
  then show "sint (of_nat n :: u32) = int n"
    using assms by (simp add: sint_uint signed_take_bit_int_eq_self)
qed

lemma needed_blocks_word:
  assumes "n < 2 ^ 31"
  shows "(ucast ((of_nat n + 511) div 512 :: u64) :: u32) = of_nat ((n + 511) div 512)"
proof -
  let ?k = "(n + 511) div 512"
  have k: "?k < 2 ^ 31" using assms by simp
  have "unat (of_nat n + 511 :: u64) = n + 511"
    using assms by (simp add: unat_word_ariths count_word(3))
  then have "unat ((of_nat n + 511) div 512 :: u64) = unat (of_nat ?k :: u64)"
    using k by (simp add: unat_div_distrib count_word(3))
  then have "((of_nat n + 511) div 512 :: u64) = of_nat ?k" by (simp only: word_unat_eq_iff)
  then show ?thesis using count_word(1) [OF k] by simp
qed

text \<open>What \<open>fs_write_file\<close> leaves, on every branch that finds a file and enough free blocks.\<close>

definition first_block :: "fsd \<Rightarrow> u32" where
  "first_block s = (if free_blocks (current_superblock s) = 0 then 0 else next_free_block (current_superblock s))"

lemma allocate_block_cases:
  assumes inv: "fs_inv s"
  obtains s' where "allocate_block s = Some (first_block s, s')" "fs_inv s'"
    "file_table_cache s' = file_table_cache s" "mounted_disk_node s' = mounted_disk_node s"
    "mounted_partition_lba s' = mounted_partition_lba s" "\<forall>c. blk_ok s' c = blk_ok s c"
    "\<forall>c. blk_ok s c \<and> c \<noteq> 0 \<longrightarrow> blk_at s' c = blk_at s c"
    "file_table_start_block (current_superblock s') = file_table_start_block (current_superblock s)"
    "file_table_num_blocks (current_superblock s') = file_table_num_blocks (current_superblock s)"
    "0 < free_blocks (current_superblock s) \<longrightarrow> next_free_block (current_superblock s') = next_free_block (current_superblock s) + 1
       \<and> free_blocks (current_superblock s') = free_blocks (current_superblock s) - 1"
proof (cases "free_blocks (current_superblock s) = 0")
  case True
  then show thesis
    using that [of s] inv by (simp add: allocate_block_def first_block_def)
next
  case False
  from allocate_block_effect [OF inv False]
  obtain s' where s': "allocate_block s = Some (next_free_block (current_superblock s), s')"
    "fs_memory s' = fs_memory (s\<lparr>current_superblock := (current_superblock s)\<lparr>
      next_free_block := next_free_block (current_superblock s) + 1,
      free_blocks := free_blocks (current_superblock s) - 1\<rparr>\<rparr>)" "fs_inv s'"
    "\<forall>c. blk_ok s' c = blk_ok s c" "\<forall>c. blk_ok s c \<and> c \<noteq> 0 \<longrightarrow> blk_at s' c = blk_at s c"
    by blast
  note m = memory_fields [OF s'(2)]
  show thesis
    by (rule that [of s']) (use False s' m in \<open>simp_all add: first_block_def\<close>)
qed

lemma fs_write_file_effect:
  assumes inv: "fs_inv s" and t: "file_table_cache s = Some t"
    and find: "find_file_entry path s = Some (Some i)" and isfile: "e_flags (t ! i) AND FS_FILE_FLAG_FILE \<noteq> 0"
    and len: "length data < 2 ^ 31"
    and room: "(length data + 511) div 512 \<le> unat (free_blocks (current_superblock s))"
  defines "k \<equiv> (length data + 511) div 512" and "lba \<equiv> first_block s"
  obtains s' where
    "fs_write_file path data (of_nat (length data)) s = Some (int (length data), s')" "fs_inv s'"
    "mounted_disk_node s' = mounted_disk_node s"
    "file_table_cache s' = Some (t[i := (t ! i)\<lparr>start_block := lba, size_bytes := of_nat (length data)\<rparr>])"
    "\<forall>c. blk_ok s' c = blk_ok s c"
    "\<forall>j < k. blk_ok s (lba + of_nat j) \<and> blk_at s' (lba + of_nat j) = block_of data j"
    "\<forall>c. blk_ok s c \<and> unat (file_table_start_block (current_superblock s)) + length t \<le> unat c
        \<and> (\<forall>j < k. c \<noteq> lba + of_nat j) \<longrightarrow> blk_at s' c = blk_at s c"
    "0 < free_blocks (current_superblock s) \<longrightarrow> next_free_block (current_superblock s') = next_free_block (current_superblock s) + 1
       \<and> free_blocks (current_superblock s') = free_blocks (current_superblock s) - 1"
    "file_table_start_block (current_superblock s') = file_table_start_block (current_superblock s)"
    "i < length t"
proof -
  let ?sb = "current_superblock s" and ?n = "length data"
  from inv have invs: "length t = unat (file_table_num_blocks ?sb)" "\<forall>e \<in> set t. entry_wf e"
    "32 \<le> length t" "length t < 256" "1 \<le> unat (file_table_start_block ?sb)"
    "unat (file_table_start_block ?sb) + length t \<le> unat (next_free_block ?sb)"
    "unat (next_free_block ?sb) + unat (free_blocks ?sb) \<le> unat (total_blocks ?sb)"
    "\<And>a. unat a < unat (total_blocks ?sb) \<Longrightarrow> blk_ok s a"
    using t by (auto simp: fs_inv_def Let_def FS_MAX_FILES_def)
  have i: "i < length t"
    using find t by (auto simp: find_file_entry_def dest: scan_table_index)
  have wfi: "entry_wf (t ! i)" using invs(2) i by simp
  have cnt: "unat (of_nat ?n :: u64) = ?n" "unat (of_nat ?n :: u32) = ?n" using len by (simp_all add: unat_of_nat)
  have needed: "(ucast ((of_nat ?n + 511) div 512 :: u64) :: u32) = of_nat k"
    unfolding k_def by (rule needed_blocks_word [OF len])
  have kk: "unat (of_nat k :: u32) = k" "k * 512 < ?n + 512"
    using len by (simp_all add: unat_of_nat k_def)
  have fits: "\<not> (of_nat k :: u32) > free_blocks ?sb"
    using room kk(1) by (simp add: word_less_nat_alt k_def)
  from allocate_block_cases [OF inv]
  obtain s1 where a: "allocate_block s = Some (lba, s1)" "fs_inv s1" "file_table_cache s1 = file_table_cache s"
    "mounted_disk_node s1 = mounted_disk_node s"  "mounted_partition_lba s1 = mounted_partition_lba s"
    "\<forall>c. blk_ok s1 c = blk_ok s c"
    "\<forall>c. blk_ok s c \<and> c \<noteq> 0 \<longrightarrow> blk_at s1 c = blk_at s c"
    "file_table_start_block (current_superblock s1) = file_table_start_block ?sb"
    "file_table_num_blocks (current_superblock s1) = file_table_num_blocks ?sb"
    "0 < free_blocks ?sb \<longrightarrow> next_free_block (current_superblock s1) = next_free_block ?sb + 1
       \<and> free_blocks (current_superblock s1) = free_blocks ?sb - 1"
    unfolding lba_def .
  have a3: "file_table_cache s1 = Some t" using a(3) t by simp
  let ?s2 = "set_entry i (\<lambda>e. e\<lparr>start_block := lba\<rparr>) s1"
  have inv2: "fs_inv ?s2"
    using wfi by (intro fs_inv_set_entry [OF a(2) a3 i]) (simp add: entry_wf_def)
  have lbaj: "unat (lba + of_nat j) = unat (next_free_block ?sb) + j"
    "unat (lba + of_nat j) < unat (total_blocks ?sb)" if "j < k" for j
  proof -
    have "free_blocks ?sb \<noteq> 0" using room that by (auto simp: k_def)
    then have "lba = next_free_block ?sb" by (simp add: lba_def first_block_def)
    moreover have "unat (next_free_block ?sb) + j < unat (total_blocks ?sb)"
      using invs(7) room that by (simp add: k_def)
    moreover have "unat (next_free_block ?sb + of_nat j) = unat (next_free_block ?sb) + j"
      using calculation(2) unat_bounds(3) [of "total_blocks ?sb"] by (intro start_plus_unat) simp
    ultimately show "unat (lba + of_nat j) = unat (next_free_block ?sb) + j"
      "unat (lba + of_nat j) < unat (total_blocks ?sb)" by simp_all
  qed
  have okj: "\<forall>j < k. blk_ok s (lba + of_nat j)" using lbaj(2) invs(8) by blast
  then have "\<forall>j < k. blk_ok ?s2 (lba + of_nat (0 + j))" using a(6) by simp
  from fsb.write_data_blocks_effect [OF len this] kk(2)
  obtain s3 where s3: "write_data_blocks write_block k 0 lba data (of_nat ?n) ?s2 = Some (0, s3)"
    "fs_memory s3 = fs_memory ?s2" "\<forall>c. blk_ok s3 c = blk_ok ?s2 c"
    "\<forall>c. blk_ok ?s2 c \<longrightarrow> (\<forall>j < k. c = lba + of_nat (0 + j) \<longrightarrow> blk_at s3 c = block_of data (0 + j))
          \<and> ((\<forall>j < k. c \<noteq> lba + of_nat (0 + j)) \<longrightarrow> blk_at s3 c = blk_at ?s2 c)"
    by auto
  have s3j: "blk_at s3 c = block_of data j" if "blk_ok s c" "j < k" "c = lba + of_nat j" for c j
    using s3(4) that a(6) by simp
  have s3c: "blk_at s3 c = blk_at s1 c" if "blk_ok s c" "\<forall>j < k. c \<noteq> lba + of_nat j" for c
    using s3(4) that a(6) by simp
  note m3 = memory_fields [OF s3(2)]
  let ?e = "(t ! i)\<lparr>start_block := lba, size_bytes := of_nat ?n\<rparr>"
  let ?s3 = "set_entry i (\<lambda>e. e\<lparr>size_bytes := ucast (of_nat ?n :: u64)\<rparr>) s3"
  have un: "(ucast (of_nat ?n :: u64) :: u32) = of_nat ?n" by (rule count_word(1) [OF len])
  have t3: "file_table_cache s3 = Some (t[i := (t ! i)\<lparr>start_block := lba\<rparr>])"
    using m3(4) a3 by simp
  have t3': "file_table_cache ?s3 = Some (t[i := ?e])"
    using t3 i un by simp
  have inv3: "fs_inv s3" by (rule fs_inv_frame [OF inv2 s3(2,3)])
  have inv3': "fs_inv ?s3"
    using wfi i by (intro fs_inv_set_entry [OF inv3 t3]) (simp_all add: entry_wf_def)
  from update_file_table_effect [OF inv3' t3']
  obtain s4 where s4: "update_file_table ?s3 = Some (0, s4)" "fs_memory s4 = fs_memory ?s3"
    "\<forall>c. blk_ok s4 c = blk_ok ?s3 c"
    "\<forall>c. blk_ok ?s3 c \<longrightarrow> unat c < unat (file_table_start_block (current_superblock ?s3))
       \<or> unat (file_table_start_block (current_superblock ?s3)) + length (t[i := ?e]) \<le> unat c
       \<longrightarrow> blk_at s4 c = blk_at ?s3 c"
    by blast
  note m4 = memory_fields [OF s4(2)]
  have st: "file_table_start_block (current_superblock ?s3) = file_table_start_block ?sb"
    using m3(3) a(8) by simp
  have keep: "blk_at s4 c = blk_at s3 c" if "blk_ok s c" "unat (file_table_start_block ?sb) + length t \<le> unat c" for c
    using s4(4) that st s3(3) a(6) by simp
  show thesis
  proof (rule that)
    have "sint (ucast (of_nat ?n :: u64) :: u32) = int ?n" unfolding un by (rule count_word(2) [OF len])
    then show "fs_write_file path data (of_nat ?n) s = Some (int ?n, s4)"
      unfolding fs_write_file_def find option.case needed Let_def
      using fits isfile a(1) s3(1) s4(1) kk(1) t by (simp add: table_entry_def)
    show "fs_inv s4" by (rule fs_inv_frame [OF inv3' s4(2,3)])
    show "mounted_disk_node s4 = mounted_disk_node s" using m4(1) m3(1) a(4) by simp
    show "file_table_cache s4 = Some (t[i := ?e])" using m4(4) t3' by simp
    show "\<forall>c. blk_ok s4 c = blk_ok s c" using s4(3) s3(3) a(6) by simp
    show "\<forall>j < k. blk_ok s (lba + of_nat j) \<and> blk_at s4 (lba + of_nat j) = block_of data j"
      using okj keep s3j lbaj(1) invs(6) by simp
    show "\<forall>c. blk_ok s c \<and> unat (file_table_start_block ?sb) + length t \<le> unat c
        \<and> (\<forall>j < k. c \<noteq> lba + of_nat j) \<longrightarrow> blk_at s4 c = blk_at s c"
    proof (intro allI impI, elim conjE)
      fix c
      assume c: "blk_ok s c" "unat (file_table_start_block ?sb) + length t \<le> unat c" "\<forall>j < k. c \<noteq> lba + of_nat j"
      have "c \<noteq> 0" using c(2) invs(5) by auto
      then show "blk_at s4 c = blk_at s c" using keep [OF c(1,2)] s3c [OF c(1,3)] a(7) c(1) by simp
    qed
    show "0 < free_blocks ?sb \<longrightarrow> next_free_block (current_superblock s4) = next_free_block ?sb + 1
       \<and> free_blocks (current_superblock s4) = free_blocks ?sb - 1"
      using a(10) m4(3) m3(3) by simp
    show "file_table_start_block (current_superblock s4) = file_table_start_block ?sb"
      using m4(3) st by simp
    show "i < length t" by (rule i)
  qed
qed

subsection \<open>Reading a file, and mounting again\<close>

lemma fs_read_file_blocks:
  assumes "mounted_disk_node s = Some dev" "file_table_cache s = Some t" "find_file_entry path s = Some (Some i)"
    and "e_flags (t ! i) AND FS_FILE_FLAG_FILE \<noteq> 0" "size_bytes (t ! i) = of_nat n" "start_block (t ! i) = lba"
    and n: "n < 2 ^ 31" and ok: "\<forall>j < (n + 511) div 512. blk_ok s (lba + of_nat j)"
  shows "fs_read_file path (of_nat n) s
    = Some (int n, concat (map (\<lambda>m. take (min 512 (n - m * 512)) (blk_at s (lba + of_nat m))) [0..<(n + 511) div 512]))"
proof -
  let ?k = "(n + 511) div 512"
  have sz: "(ucast (of_nat n :: u32) :: u64) = of_nat n"
  proof -
    have "unat (ucast (of_nat n :: u32) :: u64) = unat (of_nat n :: u64)"
      using n by (simp add: unsigned_ucast_eq take_bit_eq_mod count_word)
    then show ?thesis by (simp only: word_unat_eq_iff)
  qed
  have k: "unat ((of_nat n + 511) div 512 :: u64) = ?k"
  proof -
    have "unat (of_nat n + 511 :: u64) = n + 511" using n by (simp add: unat_word_ariths count_word(3))
    then show ?thesis by (simp add: unat_div_distrib)
  qed
  have "read_data_blocks read_block ?k 0 lba (of_nat n) s
    = (0, concat (map (\<lambda>m. take (min 512 (n - m * 512)) (blk_at s (lba + of_nat m))) [0..<0 + ?k]))"
  proof (rule fsb.read_data_blocks_eq)
    show "n < 2 ^ 32" using n by simp
    show "\<forall>j < ?k. blk_ok s (lba + of_nat (0 + j))" using ok by simp
    have "?k * 512 < n + 512" by arith
    then show "(0 + ?k) * 512 < n + 512 \<or> ?k = 0" by simp
  qed
  then show ?thesis
    unfolding fs_read_file_def assms(1,3) option.case Let_def
    using assms(2,4,5,6) count_word [OF n] by (simp add: table_entry_def sz k)
qed

lemma find_file_entry_update:
  assumes t: "file_table_cache s = Some t" "file_table_cache s' = Some (t[i := e])"
    and wf: "\<forall>x \<in> set t. entry_wf x" "entry_wf e" "filename e = filename (t ! i)"
  shows "find_file_entry path s' = find_file_entry path s"
proof -
  have "entry_used (t[i := e] ! m) = entry_used (t ! m)
      \<and> entry_name_is path (t[i := e] ! m) = entry_name_is path (t ! m)" if "m < length t" for m
    using wf that by (cases "m = i") (simp_all add: entry_name_field entry_used_field)
  then have "scan_table (\<lambda>e. entry_used e \<and> entry_name_is path e) (t[i := e]) FS_MAX_FILES 0
      = scan_table (\<lambda>e. entry_used e \<and> entry_name_is path e) t FS_MAX_FILES 0"
    by (intro scan_table_cong) simp_all
  then show ?thesis using t by (simp add: find_file_entry_def)
qed

subsection \<open>A file system with two empty files\<close>

definition demo_entry :: "u8 list \<Rightarrow> fs_file_entry" where
  "demo_entry name = empty_entry\<lparr>filename := name_field name, e_flags := FS_FILE_FLAG_FILE\<rparr>"

definition demo_fsd :: fsd where
  "demo_fsd =
     \<lparr>disk_of = \<lparr>primary_master_present = True, sect = (\<lambda>_. replicate 512 0), sect_ok = (\<lambda>_. True)\<rparr>,
      mounted_disk_node = Some Whole_disk, mounted_partition_lba = 0,
      current_superblock = new_superblock 1000,
      file_table_cache = Some (demo_entry [97] # demo_entry [98] # replicate 30 empty_entry),
      fs_heap_ok = (\<lambda>_. True)\<rparr>"

lemma demo_entry_wf: "entry_wf empty_entry" "length name < 60 \<Longrightarrow> entry_wf (demo_entry name)"
  by (auto simp: entry_wf_def empty_entry_def demo_entry_def name_field_def)

lemma demo_fsd_fields:
  "mounted_disk_node demo_fsd = Some Whole_disk" "fs_heap_ok demo_fsd = (\<lambda>_. True)"
  "file_table_cache demo_fsd = Some (demo_entry [97] # demo_entry [98] # replicate 30 empty_entry)"
  "unat (free_blocks (current_superblock demo_fsd)) = 967"
  by (simp_all add: demo_fsd_def new_superblock_def FS_MAX_FILES_def FS_BLOCK_SIZE_def Let_def)

lemma demo_fsd_inv: "fs_inv demo_fsd"
proof -
  have ok: "blk_ok demo_fsd a" if "unat a < 1000" for a
    using that by (simp add: blk_ok_def demo_fsd_def disk_wf_def dev_ok_def)
  show ?thesis
    using ok demo_entry_wf
    by (simp add: fs_inv_def Let_def demo_fsd_fields(3))
      (simp add: demo_fsd_def new_superblock_def FS_MAX_FILES_def FS_BLOCK_SIZE_def Let_def)
qed

lemma demo_fsd_find:
  "find_file_entry [97] demo_fsd = Some (Some 0)" "find_file_entry [98] demo_fsd = Some (Some 1)"
proof -
  have n: "FS_MAX_FILES = Suc (Suc 30)" by (simp add: FS_MAX_FILES_def)
  have f: "filename (demo_entry [x]) = x # replicate 59 0" for x
    by (simp add: demo_entry_def name_field_def)
  have u: "entry_used (demo_entry [x]) \<longleftrightarrow> x \<noteq> 0"
    "x \<noteq> 0 \<Longrightarrow> entry_name_is path (demo_entry [x]) \<longleftrightarrow> [x] = path" for x path
    using demo_entry_wf(2) [of "[x]"] by (simp_all add: entry_used_field entry_name_field f)
  show "find_file_entry [97] demo_fsd = Some (Some 0)" "find_file_entry [98] demo_fsd = Some (Some 1)"
    unfolding find_file_entry_def demo_fsd_fields(3) n option.case scan_table.simps by (simp_all add: u)
qed

lemma demo_fsd_flags:
  "e_flags ((demo_entry [97] # demo_entry [98] # replicate 30 empty_entry) ! 0) AND FS_FILE_FLAG_FILE \<noteq> 0"
  "e_flags ((demo_entry [97] # demo_entry [98] # replicate 30 empty_entry) ! 1) AND FS_FILE_FLAG_FILE \<noteq> 0"
  by (simp_all add: demo_entry_def FS_FILE_FLAG_FILE_def)

text \<open>C21: Writing a file and reading it back: on a mounted file system in its invariant, with a
  drive that answers, writing fewer than 2 GiB that fit the free blocks to a regular file succeeds,
  reading the same length gives the bytes written, the invariant is kept, and every block of the data
  area other than those written keeps its content.\<close>

theorem fs_write_file_read_back:
  assumes "fs_inv s" "file_table_cache s = Some t" "mounted_disk_node s = Some dev"
    and "find_file_entry path s = Some (Some i)" "e_flags (t ! i) AND FS_FILE_FLAG_FILE \<noteq> 0"
    and "length data < 2 ^ 31" "(length data + 511) div 512 \<le> unat (free_blocks (current_superblock s))"
  shows "\<exists>s'. fs_write_file path data (of_nat (length data)) s = Some (int (length data), s')
    \<and> fs_read_file path (of_nat (length data)) s' = Some (int (length data), data) \<and> fs_inv s'
    \<and> (\<forall>c. blk_ok s c \<and> unat (file_table_start_block (current_superblock s)) + length t \<le> unat c
          \<and> (\<forall>j < (length data + 511) div 512. c \<noteq> first_block s + of_nat j) \<longrightarrow> blk_at s' c = blk_at s c)"
proof -
  let ?k = "(length data + 511) div 512" and ?lba = "first_block s"
  let ?e = "(t ! i)\<lparr>start_block := ?lba, size_bytes := of_nat (length data)\<rparr>"
  from fs_write_file_effect [OF assms(1,2,4-7)]
  obtain s' where s': "fs_write_file path data (of_nat (length data)) s = Some (int (length data), s')" "fs_inv s'"
    "mounted_disk_node s' = mounted_disk_node s" "file_table_cache s' = Some (t[i := ?e])"
    "\<forall>c. blk_ok s' c = blk_ok s c"
    "\<forall>j < ?k. blk_ok s (?lba + of_nat j) \<and> blk_at s' (?lba + of_nat j) = block_of data j"
    "\<forall>c. blk_ok s c \<and> unat (file_table_start_block (current_superblock s)) + length t \<le> unat c
        \<and> (\<forall>j < ?k. c \<noteq> ?lba + of_nat j) \<longrightarrow> blk_at s' c = blk_at s c"
    "0 < free_blocks (current_superblock s) \<longrightarrow> next_free_block (current_superblock s') = next_free_block (current_superblock s) + 1
       \<and> free_blocks (current_superblock s') = free_blocks (current_superblock s) - 1"
    "file_table_start_block (current_superblock s') = file_table_start_block (current_superblock s)"
    and i: "i < length t" .
  have wf: "\<forall>x \<in> set t. entry_wf x" using assms(1,2) by (auto elim: fs_invD)
  have e: "t[i := ?e] ! i = ?e" using i by (rule nth_list_update_eq)
  have "find_file_entry path s' = Some (Some i)"
    using find_file_entry_update [OF assms(2) s'(4) wf, of path] wf i assms(4) by (simp add: entry_wf_def)
  moreover have "fs_read_file path (of_nat (length data)) s' = Some (int (length data),
      concat (map (\<lambda>m. take (min 512 (length data - m * 512)) (blk_at s' (?lba + of_nat m))) [0..<?k]))"
    if "find_file_entry path s' = Some (Some i)"
  proof (rule fs_read_file_blocks [OF _ s'(4) that])
    show "mounted_disk_node s' = Some dev" using s'(3) assms(3) by simp
    show "e_flags (t[i := ?e] ! i) AND FS_FILE_FLAG_FILE \<noteq> 0" using assms(5) unfolding e by simp
    show "size_bytes (t[i := ?e] ! i) = of_nat (length data)" "start_block (t[i := ?e] ! i) = ?lba"
      unfolding e by simp_all
    show "\<forall>j < ?k. blk_ok s' (?lba + of_nat j)" using s'(5,6) by simp
  qed (rule assms(6))
  moreover have "concat (map (\<lambda>m. take (min 512 (length data - m * 512)) (blk_at s' (?lba + of_nat m))) [0..<?k]) = data"
  proof -
    have m: "map (\<lambda>m. take (min 512 (length data - m * 512)) (blk_at s' (?lba + of_nat m))) [0..<?k]
        = map (\<lambda>m. take 512 (drop (m * 512) data)) [0..<?k]"
      using s'(6) by (auto simp: block_of_def Let_def min_def)
    have le: "length data \<le> ?k * 512" by arith
    show ?thesis unfolding m by (rule concat_chunks [OF le])
  qed
  ultimately show ?thesis using s'(1,2,7) by (intro exI [of _ s']) simp
qed

text \<open>The state after writing to a file that exists, with room for one block or more.\<close>

lemma write_then:
  assumes "fs_inv s" "file_table_cache s = Some t" "find_file_entry path s = Some (Some i)"
    and "e_flags (t ! i) AND FS_FILE_FLAG_FILE \<noteq> 0" "data \<noteq> []" "length data < 2 ^ 31"
    and "(length data + 511) div 512 \<le> unat (free_blocks (current_superblock s))"
  defines "b \<equiv> next_free_block (current_superblock s)" and "k \<equiv> (length data + 511) div 512"
  defines "e \<equiv> (t ! i)\<lparr>start_block := b, size_bytes := of_nat (length data)\<rparr>"
  obtains s' where
    "fs_write_file path data (of_nat (length data)) s = Some (int (length data), s')" "fs_inv s'"
    "mounted_disk_node s' = mounted_disk_node s" "file_table_cache s' = Some (t[i := e])"
    "\<forall>c. blk_ok s' c = blk_ok s c"
    "\<forall>j < k. blk_ok s (b + of_nat j) \<and> blk_at s' (b + of_nat j) = block_of data j"
    "\<forall>c. blk_ok s c \<and> unat (file_table_start_block (current_superblock s)) + length t \<le> unat c
        \<and> (\<forall>j < k. c \<noteq> b + of_nat j) \<longrightarrow> blk_at s' c = blk_at s c"
    "next_free_block (current_superblock s') = b + 1" "unat (b + 1) = unat b + 1"
    "unat (free_blocks (current_superblock s')) = unat (free_blocks (current_superblock s)) - 1"
    "unat (file_table_start_block (current_superblock s)) + length t \<le> unat b"
    "file_table_start_block (current_superblock s') = file_table_start_block (current_superblock s)"
    "\<forall>p. find_file_entry p s' = find_file_entry p s" "i < length t"
proof -
  have "1 \<le> k" using assms(5) by (cases data) (auto simp: k_def)
  then have free: "0 < unat (free_blocks (current_superblock s))" "0 < free_blocks (current_superblock s)"
    using assms(7) by (auto simp: k_def word_less_nat_alt)
  have fb: "first_block s = b" using free(1) by (simp add: first_block_def b_def unat_gt_0)
  from fs_write_file_effect [OF assms(1-4,6,7), folded k_def, unfolded fb, folded e_def]
  obtain s' where s': "fs_write_file path data (of_nat (length data)) s = Some (int (length data), s')" "fs_inv s'"
    "mounted_disk_node s' = mounted_disk_node s" "file_table_cache s' = Some (t[i := e])"
    "\<forall>c. blk_ok s' c = blk_ok s c"
    "\<forall>j < k. blk_ok s (b + of_nat j) \<and> blk_at s' (b + of_nat j) = block_of data j"
    "\<forall>c. blk_ok s c \<and> unat (file_table_start_block (current_superblock s)) + length t \<le> unat c
        \<and> (\<forall>j < k. c \<noteq> b + of_nat j) \<longrightarrow> blk_at s' c = blk_at s c"
    "0 < free_blocks (current_superblock s) \<longrightarrow> next_free_block (current_superblock s') = next_free_block (current_superblock s) + 1
       \<and> free_blocks (current_superblock s') = free_blocks (current_superblock s) - 1"
    "file_table_start_block (current_superblock s') = file_table_start_block (current_superblock s)"
    and i: "i < length t" .
  have wf: "\<forall>x \<in> set t. entry_wf x" using assms(1,2) by (auto elim: fs_invD)
  have wfe: "entry_wf e" using wf i by (simp add: entry_wf_def e_def)
  have "unat b + unat (free_blocks (current_superblock s)) \<le> unat (total_blocks (current_superblock s))"
    using assms(1) by (simp add: fs_inv_def Let_def b_def)
  then have b1: "unat (b + 1) = unat b + 1"
    using free(1) unat_bounds(3) [of "total_blocks (current_superblock s)"] by (intro unat_plus_one) simp
  show thesis
  proof (rule that [OF s'(1-7)])
    show "next_free_block (current_superblock s') = b + 1" using s'(8) free(2) by (simp add: b_def)
    show "unat (b + 1) = unat b + 1" by (rule b1)
    show "unat (free_blocks (current_superblock s')) = unat (free_blocks (current_superblock s)) - 1"
      using s'(8) free unat_dec [OF free(1)] by simp
    show "unat (file_table_start_block (current_superblock s)) + length t \<le> unat b"
      using assms(1,2) by (simp add: fs_inv_def Let_def b_def)
    show "\<forall>p. find_file_entry p s' = find_file_entry p s"
      using find_file_entry_update [OF assms(2) s'(4) wf wfe] by (simp add: e_def)
  qed (rule s'(9), rule i)
qed

theorem fs_write_file_read_back_witness:
  "\<exists>s'. fs_write_file [97] [1, 2, 3] 3 demo_fsd = Some (3, s') \<and> fs_read_file [97] 3 s' = Some (3, [1, 2, 3])"
  using fs_write_file_read_back [OF demo_fsd_inv demo_fsd_fields(3,1) demo_fsd_find(1) demo_fsd_flags(1), of "[1, 2, 3]"]
  by (auto simp: demo_fsd_fields(4))

text \<open>Only the first block of a file is ever allocated: after writing a file of more than one
  block, writing any non-empty second file puts its first block over the first file's second block,
  and reading the first file back returns the second file's bytes there.\<close>

lemma fs_second_file_overwrites_first:
  assumes "fs_inv s" "file_table_cache s = Some t" "mounted_disk_node s = Some dev" "p \<noteq> q"
    and "find_file_entry p s = Some (Some i)" "e_flags (t ! i) AND FS_FILE_FLAG_FILE \<noteq> 0"
    and "find_file_entry q s = Some (Some j)" "e_flags (t ! j) AND FS_FILE_FLAG_FILE \<noteq> 0"
    and "512 < length dp" "length dp < 2 ^ 31" "(length dp + 511) div 512 \<le> unat (free_blocks (current_superblock s))"
    and "dq \<noteq> []" "length dq < 2 ^ 31" "(length dq + 511) div 512 < unat (free_blocks (current_superblock s))"
  shows "\<exists>s1 s2 d. fs_write_file p dp (of_nat (length dp)) s = Some (int (length dp), s1)
    \<and> fs_write_file q dq (of_nat (length dq)) s1 = Some (int (length dq), s2)
    \<and> fs_read_file p (of_nat (length dp)) s2
        = Some (int (length dp), take 512 dp @ take (min 512 (length dp - 512)) (block_of dq 0) @ d)"
proof -
  let ?k = "(length dp + 511) div 512" and ?b = "next_free_block (current_superblock s)"
  let ?kq = "(length dq + 511) div 512" and ?st = "unat (file_table_start_block (current_superblock s)) + length t"
  have k2: "2 \<le> ?k" and kq: "1 \<le> ?kq" using assms(9,12) by (cases dq; simp)+
  let ?e = "(t ! i)\<lparr>start_block := ?b, size_bytes := of_nat (length dp)\<rparr>"
  have dp: "dp \<noteq> []" using assms(9) by auto
  from write_then [OF assms(1,2,5,6) dp assms(10,11)]
  obtain s1 where s1: "fs_write_file p dp (of_nat (length dp)) s = Some (int (length dp), s1)" "fs_inv s1"
    "mounted_disk_node s1 = mounted_disk_node s" "file_table_cache s1 = Some (t[i := ?e])"
    "\<forall>c. blk_ok s1 c = blk_ok s c"
    "\<forall>j < ?k. blk_ok s (?b + of_nat j) \<and> blk_at s1 (?b + of_nat j) = block_of dp j"
    "\<forall>c. blk_ok s c \<and> ?st \<le> unat c \<and> (\<forall>j < ?k. c \<noteq> ?b + of_nat j) \<longrightarrow> blk_at s1 c = blk_at s c"
    "next_free_block (current_superblock s1) = ?b + 1" "unat (?b + 1) = unat ?b + 1"
    "unat (free_blocks (current_superblock s1)) = unat (free_blocks (current_superblock s)) - 1"
    "?st \<le> unat ?b"
    "file_table_start_block (current_superblock s1) = file_table_start_block (current_superblock s)"
    "\<forall>p. find_file_entry p s1 = find_file_entry p s" and i: "i < length t" .
  have wf: "\<forall>x \<in> set t. entry_wf x" using assms(1,2) by (auto elim: fs_invD)
  have ij: "i \<noteq> j"
    using assms(2,4,5,7) wf by (auto simp: find_file_entry_def entry_name_field dest!: scan_table_index)
  let ?f = "(t[i := ?e] ! j)\<lparr>start_block := ?b + 1, size_bytes := of_nat (length dq)\<rparr>"
  have fq: "find_file_entry q s1 = Some (Some j)" "find_file_entry p s1 = Some (Some i)"
    using s1(13) assms(5,7) by simp_all
  have flj: "e_flags (t[i := ?e] ! j) AND FS_FILE_FLAG_FILE \<noteq> 0" using assms(8) ij by simp
  have room1: "?kq \<le> unat (free_blocks (current_superblock s1))" using assms(14) s1(10) by simp
  from write_then [OF s1(2,4) fq(1) flj assms(12,13) room1, unfolded s1(8)]
  obtain s2 where s2: "fs_write_file q dq (of_nat (length dq)) s1 = Some (int (length dq), s2)" "fs_inv s2"
    "mounted_disk_node s2 = mounted_disk_node s1" "file_table_cache s2 = Some (t[i := ?e, j := ?f])"
    "\<forall>c. blk_ok s2 c = blk_ok s1 c"
    "\<forall>m < ?kq. blk_ok s1 (?b + 1 + of_nat m) \<and> blk_at s2 (?b + 1 + of_nat m) = block_of dq m"
    "\<forall>c. blk_ok s1 c \<and> unat (file_table_start_block (current_superblock s1)) + length (t[i := ?e]) \<le> unat c
        \<and> (\<forall>m < ?kq. c \<noteq> ?b + 1 + of_nat m) \<longrightarrow> blk_at s2 c = blk_at s1 c"
    "\<forall>p. find_file_entry p s2 = find_file_entry p s1" .
  have e2: "t[i := ?e, j := ?f] ! i = ?e" using i ij by simp
  let ?g = "\<lambda>m. take (min 512 (length dp - m * 512)) (blk_at s2 (?b + of_nat m))"
  have "fs_read_file p (of_nat (length dp)) s2 = Some (int (length dp), concat (map ?g [0..<?k]))"
  proof (rule fs_read_file_blocks [OF _ s2(4)])
    show "mounted_disk_node s2 = Some dev" using s2(3) s1(3) assms(3) by simp
    show "find_file_entry p s2 = Some (Some i)" using s2(8) fq(2) by simp
    show "e_flags (t[i := ?e, j := ?f] ! i) AND FS_FILE_FLAG_FILE \<noteq> 0"
      "size_bytes (t[i := ?e, j := ?f] ! i) = of_nat (length dp)" "start_block (t[i := ?e, j := ?f] ! i) = ?b"
      unfolding e2 using assms(6) by simp_all
    show "\<forall>j < ?k. blk_ok s2 (?b + of_nat j)" using s2(5) s1(5,6) by simp
  qed (rule assms(10))
  moreover have "?g 0 = take 512 dp"
  proof -
    have "?b \<noteq> ?b + 1 + of_nat m" if "m < ?kq" for m
    proof -
      have "m + 1 < 2 ^ 32" using that assms(13) by simp
      then show ?thesis using word_add_of_nat_eq [of 0 "m + 1" ?b] by (simp add: add.assoc)
    qed
    moreover have "blk_ok s ?b \<and> blk_at s1 ?b = block_of dp 0"
      using s1(6) k2 by (auto dest: spec [of _ 0])
    ultimately have "blk_at s2 ?b = block_of dp 0"
      using s2(7) s1(5,11,12) by simp
    then show ?thesis using assms(9) by (simp add: block_of_def Let_def)
  qed
  moreover have "?g 1 = take (min 512 (length dp - 512)) (block_of dq 0)"
  proof -
    have "blk_at s2 (?b + 1) = block_of dq 0" using s2(6) kq by (auto dest: spec [of _ 0])
    then show ?thesis by simp
  qed
  moreover have "[0..<?k] = 0 # 1 # [2..<?k]" using k2 by (simp add: upt_conv_Cons numeral_2_eq_2)
  ultimately show ?thesis using s1(1) s2(1) by (intro exI [of _ s1] exI [of _ s2]) auto
qed

lemma fs_second_file_overwrites_first_witness:
  "\<exists>s1 s2 d. fs_write_file [97] (replicate 600 1) 600 demo_fsd = Some (600, s1)
     \<and> fs_write_file [98] [2] 1 s1 = Some (1, s2)
     \<and> fs_read_file [97] 600 s2 = Some (600, replicate 512 1 @ [2] @ d)"
proof -
  have n: "[97 :: u8] \<noteq> [98]" "512 < length (replicate 600 (1 :: u8))" "[2 :: u8] \<noteq> []" by simp_all
  have l: "length (replicate 600 (1 :: u8)) < 2 ^ 31" "length [2 :: u8] < 2 ^ 31"
    "(length (replicate 600 (1 :: u8)) + 511) div 512 \<le> unat (free_blocks (current_superblock demo_fsd))"
    "(length [2 :: u8] + 511) div 512 < unat (free_blocks (current_superblock demo_fsd))"
    by (simp_all add: demo_fsd_fields(4))
  from fs_second_file_overwrites_first [OF demo_fsd_inv demo_fsd_fields(3,1) n(1) demo_fsd_find(1) demo_fsd_flags(1)
      demo_fsd_find(2) demo_fsd_flags(2) n(2) l(1,3) n(3) l(2,4)]
  obtain s1 s2 d where w: "fs_write_file [97] (replicate 600 1) 600 demo_fsd = Some (600, s1)"
    "fs_write_file [98] [2] 1 s1 = Some (1, s2)"
    "fs_read_file [97] 600 s2 = Some (600, replicate 512 1 @ take 88 (block_of [2] 0) @ d)"
    by auto
  moreover have "take 88 (block_of [2] 0) = [2] @ replicate 87 0"
    by (simp add: block_of_def)
  ultimately show ?thesis by (metis append.assoc)
qed

subsection \<open>Unmounting and mounting again\<close>

lemma dev_ok_small: "dev_ok dev lba \<Longrightarrow> unat lba < 2 ^ 28"
  by (cases dev) (simp_all add: dev_ok_def)

lemma dev_addr_add: "dev_addr dev (lba + x) = dev_addr dev lba + x"
  by (cases dev) (simp_all add: dev_addr_def)

lemma ioctl_read_many:
  assumes wf: "disk_wf d" and ok: "\<forall>i < n. dev_ok dev (lba + of_nat i)" and n: "0 < n" "n < 256"
  shows "ioctl_read_blocks d dev lba (of_nat n)
    = (0, concat (map (\<lambda>i. sect d (lba28 (dev_addr dev (lba + of_nat i)))) [0..<n]))"
proof -
  have ok0: "dev_ok dev lba" using ok n(1) by (auto dest: spec [of _ 0])
  let ?a = "dev_addr dev lba"
  have a: "unat ?a < 2 ^ 28" "lba28 ?a = unat ?a" using dev_ok_addr [OF ok0] by simp_all
  have addr: "lba28 (dev_addr dev (lba + of_nat i)) = unat ?a + i" if "i < n" for i
    using dev_ok_addr(2) [OF ok [rule_format, OF that]] start_plus_unat [of ?a i] a(1) that n(2)
    by (simp add: dev_addr_add)
  have cnt: "unat (of_nat n :: u32) = n" "unat (ucast (of_nat n :: u32) :: u8) = n"
    using n(2) by (simp_all add: unat_of_nat unsigned_ucast_eq take_bit_eq_mod)
  have lim: "\<not> lba + of_nat n > len" if "dev = Partition start len drive ptr" for start len drive ptr
  proof -
    have "dev_ok dev (lba + of_nat (n - 1))" using n(1) by (intro ok [rule_format]) simp
    then have "unat (lba + of_nat (n - 1)) < unat len" using that by (simp add: dev_ok_def)
    moreover have "unat (lba + of_nat (n - 1)) = unat lba + (n - 1)"
      using dev_ok_small [OF ok0] n(2) by (intro start_plus_unat) simp
    moreover have "unat (lba + of_nat n) = unat lba + n"
      using dev_ok_small [OF ok0] n(2) by (intro start_plus_unat) simp
    ultimately show ?thesis using n(1) by (simp add: word_less_nat_alt)
  qed
  have "read_loop d (unat ?a) n = (0, concat (map (sect d) [unat ?a..<unat ?a + n]))"
    using wf by (intro read_loop_many) (simp add: disk_wf_def)
  moreover have "map (sect d) [unat ?a..<unat ?a + n]
      = map (\<lambda>i. sect d (lba28 (dev_addr dev (lba + of_nat i)))) [0..<n]"
    using addr by (intro nth_equalityI) simp_all
  ultimately have rd: "ide_read_sectors d 0 ?a (ucast (of_nat n :: u32))
      = (0, concat (map (\<lambda>i. sect d (lba28 (dev_addr dev (lba + of_nat i)))) [0..<n]))"
    using wf a(2) cnt(2) by (simp add: ide_read_sectors_def disk_wf_def)
  show ?thesis
  proof (cases dev)
    case Whole_disk
    then show ?thesis using rd by (simp add: dev_addr_def)
  next
    case (Partition start len drive ptr)
    then have "drive = 0" using ok0 by (simp add: dev_ok_def)
    then show ?thesis using Partition rd lim [OF Partition] by (simp add: dev_addr_def)
  qed
qed

lemma fs_remount_state:
  assumes "fs_inv s" "mounted_disk_node s = Some dev" "\<forall>k. fs_heap_ok s k"
  shows "\<exists>s1 s2. fs_unmount s = Some (0, s1) \<and> file_table_cache s1 = None
    \<and> fs_mount dev (mounted_partition_lba s) s1 = Some (0, s2) \<and> fs_inv s2
    \<and> mounted_disk_node s2 = Some dev \<and> (\<forall>k. fs_heap_ok s2 k)
    \<and> file_table_cache s2 = file_table_cache s \<and> current_superblock s2 = current_superblock s
    \<and> (\<forall>c. blk_ok s c \<and> unat (next_free_block (current_superblock s)) - 1 < unat c \<longrightarrow> blk_at s2 c = blk_at s c)"
proof -
  let ?sb = "current_superblock s" and ?p = "mounted_partition_lba s"
  let ?st = "file_table_start_block ?sb" and ?n = "unat (file_table_num_blocks ?sb)"
  obtain t where t: "file_table_cache s = Some t" "length t = ?n" "\<forall>e \<in> set t. entry_wf e"
    using assms(1) by (rule fs_invD)
  have i: "sb_signature ?sb = FS_SIGNATURE" "length (sb_padding ?sb) = 484" "0 < ?n" "?n < 256"
    "1 \<le> unat ?st" "unat ?st + ?n \<le> unat (next_free_block ?sb)" "unat (next_free_block ?sb) \<le> unat (total_blocks ?sb)"
    "\<And>a. unat a < unat (total_blocks ?sb) \<Longrightarrow> blk_ok s a"
    using assms(1) by (auto simp: fs_inv_def Let_def FS_MAX_FILES_def)
  have ok0: "blk_ok s 0" using i by simp
  from update_superblock_effect [OF ok0 i(2)]
  obtain s1 where s1: "update_superblock s = Some (0, s1)" "fs_memory s1 = fs_memory s"
    "\<forall>c. blk_ok s1 c = blk_ok s c" "\<forall>c. blk_ok s c \<longrightarrow> blk_at s1 c = (if c = 0 then sb_bytes ?sb else blk_at s c)"
    by blast
  note m1 = memory_fields [OF s1(2)]
  have inv1: "fs_inv s1" by (rule fs_inv_frame [OF assms(1) s1(2,3)])
  have t1: "file_table_cache s1 = Some t" using m1(4) t(1) by simp
  from update_file_table_effect [OF inv1 t1] m1(3)
  obtain s2 where s2: "update_file_table s1 = Some (0, s2)" "fs_memory s2 = fs_memory s1"
    "\<forall>c. blk_ok s2 c = blk_ok s1 c" "\<forall>j < length t. blk_at s2 (?st + of_nat j) = entry_bytes (t ! j)"
    "\<forall>c. blk_ok s1 c \<longrightarrow> unat c < unat ?st \<or> unat ?st + length t \<le> unat c \<longrightarrow> blk_at s2 c = blk_at s1 c"
    by auto
  note m2 = memory_fields [OF s2(2)]
  let ?s3 = "s2\<lparr>file_table_cache := None, mounted_disk_node := None, mounted_partition_lba := 0\<rparr>"
  have un: "fs_unmount s = Some (0, ?s3)"
    using assms(2) s1(1) s2(1) by (simp add: fs_unmount_def)
  have okd: "disk_wf (disk_of s2)" "dev_ok dev (?p + a)" if "blk_ok s a" for a
  proof -
    have "blk_ok s2 a" using that s2(3) s1(3) by simp
    then show "disk_wf (disk_of s2)" "dev_ok dev (?p + a)"
      using m2(1,2) m1(1,2) assms(2) by (simp_all add: blk_ok_def)
  qed
  have at: "blk_at s2 a = sect (disk_of s2) (lba28 (dev_addr dev (?p + a)))" for a
    using m2(1,2) m1(1,2) assms(2) by (simp add: blk_at_def)
  have b0: "ioctl_read_blocks (disk_of s2) dev ?p 1 = (0, sb_bytes ?sb)"
    using ioctl_read_one [OF okd [OF ok0]] at [of 0] s2(5) s1(3,4) ok0 i(5) by simp
  have unst: "unat (?st + of_nat j) = unat ?st + j" if "j < ?n" for j
    using that i(6,7) unat_bounds(3) [of "total_blocks ?sb"] by (intro start_plus_unat) simp
  have okj: "\<forall>j < ?n. blk_ok s (?st + of_nat j)" using unst i(6,7,8) by simp
  have tb: "ioctl_read_blocks (disk_of s2) dev (?p + ?st) (file_table_num_blocks ?sb) = (0, concat (map entry_bytes t))"
  proof -
    have "\<forall>j < ?n. dev_ok dev (?p + ?st + of_nat j)" using okj okd(2) by (simp add: add.assoc)
    from ioctl_read_many [OF okd(1) [OF ok0] this i(3,4)]
    have "ioctl_read_blocks (disk_of s2) dev (?p + ?st) (file_table_num_blocks ?sb)
      = (0, concat (map (\<lambda>j. blk_at s2 (?st + of_nat j)) [0..<?n]))"
      by (simp add: at add.assoc)
    also have "map (\<lambda>j. blk_at s2 (?st + of_nat j)) [0..<?n] = map entry_bytes t"
      using s2(4) t(2) by (intro nth_equalityI) simp_all
    finally show ?thesis .
  qed
  have lent: "length (concat (map entry_bytes t)) = ?n * 512"
    using t(3) unfolding t(2) [symmetric] by (induction t) (simp_all add: length_entry_bytes)
  let ?s4 = "?s3\<lparr>file_table_cache := Some t, mounted_disk_node := Some dev, mounted_partition_lba := ?p,
      current_superblock := ?sb\<rparr>"
  have heap: "fs_heap_ok ?s3 k" for k using m2(5) m1(5) assms(3) by simp
  have mt: "fs_mount dev ?p ?s3 = Some (0, ?s4)"
    using b0 tb heap i(1) lent parse_table_round_trip [OF t(3)] t(2)
    by (simp add: fs_mount_def Let_def sb_round_trip [OF i(2)])
  have mem: "fs_memory ?s4 = fs_memory s"
    using s2(2) s1(2) assms(2) t(1) m1 m2 by (simp add: fs_memory_def)
  have blk: "blk_ok ?s4 c = blk_ok s c" "blk_at ?s4 c = blk_at s2 c" for c
  proof -
    have "?s4 = s2" using m1 m2 assms(2) t(1) by simp
    then show "blk_ok ?s4 c = blk_ok s c" "blk_at ?s4 c = blk_at s2 c" using s2(3) s1(3) by simp_all
  qed
  have "blk_at s2 c = blk_at s c" if "blk_ok s c" "unat (next_free_block ?sb) - 1 < unat c" for c
  proof -
    have "unat ?st + length t \<le> unat c" "c \<noteq> 0" using that(2) i(5,6) t(2) by auto
    then show ?thesis using s2(5) s1(3,4) that(1) by simp
  qed
  moreover have "fs_inv ?s4" by (rule fs_inv_frame [OF assms(1) mem]) (use blk(1) in blast)
  ultimately show ?thesis
    using un mt blk(2) t(1) heap by (intro exI [of _ ?s3] exI [of _ ?s4]) simp
qed

text \<open>C22: Nothing is lost over an unmount: unmounting and mounting the same device again succeeds and
  gives back the same file table, the same superblock and the same data blocks.\<close>

theorem fs_remount:
  assumes "fs_inv s" "mounted_disk_node s = Some dev" "\<forall>k. fs_heap_ok s k"
  shows "\<exists>s1 s2. fs_unmount s = Some (0, s1) \<and> file_table_cache s1 = None
    \<and> fs_mount dev (mounted_partition_lba s) s1 = Some (0, s2) \<and> fs_inv s2
    \<and> file_table_cache s2 = file_table_cache s \<and> current_superblock s2 = current_superblock s
    \<and> (\<forall>c. blk_ok s c \<and> unat (next_free_block (current_superblock s)) - 1 < unat c \<longrightarrow> blk_at s2 c = blk_at s c)"
  using fs_remount_state [OF assms] by blast

theorem fs_remount_witness:
  "\<exists>s1 s2. fs_unmount demo_fsd = Some (0, s1) \<and> fs_mount Whole_disk 0 s1 = Some (0, s2)
     \<and> file_table_cache s2 = file_table_cache demo_fsd"
proof -
  have "\<forall>k. fs_heap_ok demo_fsd k" by (simp add: demo_fsd_fields(2))
  from fs_remount [OF demo_fsd_inv demo_fsd_fields(1) this]
  show ?thesis by (auto simp: demo_fsd_def)
qed

end
