(* ===== verification/Fs_Disk_Vfs.thy ===== *)
theory Fs_Disk_Vfs
  imports Kyrofs Fs_Disk
begin

section \<open>Mounting the disk file system (fs_disk_vfs.c and the mount functions of kyrofs.c)\<close>

text \<open>
  The node store of the in-memory file system, the disk file system, the file system types that were
  registered, and for each node of the store whether its function pointers were replaced by those of
  fs_disk_vfs.c. A node that \<open>fs_disk_vfs_finddir\<close> allocates is the value \<open>Disk_file\<close>: it is never
  changed after its creation (and never freed). The descriptor table of the calling thread, which
  the mount function searches, is the list \<open>open_nodes\<close> of the nodes of its file descriptors; a
  block device is known by its node (\<open>block_devices\<close>).
\<close>

record disk_node =
  dn_name :: "u8 list"
  dn_length :: u32
  dn_flags :: u32

datatype vnode = Kyro nat | Disk_file disk_node

record vfs_world =
  w_kyro :: kyrofs
  w_fsd :: fsd
  w_disk_ops :: "nat set"
  block_devices :: "nat \<Rightarrow> blockdev option"
  open_nodes :: "nat option list"

definition path_bytes :: "string \<Rightarrow> u8 list" where
  "path_bytes = map of_char"

subsection \<open>The operations of fs_disk_vfs.c\<close>

definition fs_disk_vfs_read :: "fsd \<Rightarrow> disk_node \<Rightarrow> u64 \<Rightarrow> u32 \<Rightarrow> (u32 \<times> u8 list) option" where
  "fs_disk_vfs_read s n offset count =
     (if dn_flags n AND VFS_DIRECTORY \<noteq> 0 then Some (-1, [])
      else if offset \<noteq> 0 then Some (-1, [])
      else map_option (\<lambda>(rc, b). (of_int rc, b)) (fs_read_file (dn_name n) (ucast count) s))"

definition fs_disk_vfs_write :: "fsd \<Rightarrow> disk_node \<Rightarrow> u64 \<Rightarrow> u32 \<Rightarrow> u8 list \<Rightarrow> (u32 \<times> fsd) option" where
  "fs_disk_vfs_write s n offset count buf =
     (if dn_flags n AND VFS_DIRECTORY \<noteq> 0 then Some (-1, s)
      else if offset \<noteq> 0 then Some (-1, s)
      else map_option (\<lambda>(rc, s'). (of_int rc, s')) (fs_write_file (dn_name n) buf (ucast count) s))"

definition fs_disk_vfs_finddir :: "fsd \<Rightarrow> u32 \<Rightarrow> (nat \<Rightarrow> bool) \<Rightarrow> u8 list \<Rightarrow> disk_node option option" where
  "fs_disk_vfs_finddir s flags ok name =
     (if flags AND VFS_MOUNTPOINT \<noteq> 0
      then (case fs_get_file_info name s of
              None \<Rightarrow> None
            | Some None \<Rightarrow> Some None
            | Some (Some info) \<Rightarrow>
                if \<not> ok 384 then Some None
                else Some (Some \<lparr>dn_name = take 255 name, dn_length = size_bytes info,
                   dn_flags = (if e_flags info AND FS_FILE_FLAG_FILE \<noteq> 0 then VFS_FILE else 0)
                     OR (if e_flags info AND FS_FILE_FLAG_DIRECTORY \<noteq> 0 then VFS_DIRECTORY else 0)\<rparr>))
      else Some None)"

text \<open>The loop over the file table: the entry whose rank among the used entries is \<open>index\<close>.\<close>

fun readdir_scan :: "fsd \<Rightarrow> nat \<Rightarrow> nat \<Rightarrow> nat \<Rightarrow> nat \<Rightarrow> (u8 list \<times> nat) option option" where
  "readdir_scan s index 0 i count = Some None"
| "readdir_scan s index (Suc k) i count =
     (case fs_get_file_info_by_index (int i) s of
        None \<Rightarrow> None
      | Some None \<Rightarrow> readdir_scan s index k (i + 1) count
      | Some (Some info) \<Rightarrow>
          if count = index then Some (Some (takeWhile (\<lambda>b. b \<noteq> 0) (entry_bytes info), i))
          else readdir_scan s index k (i + 1) (count + 1))"

definition fs_disk_vfs_readdir :: "fsd \<Rightarrow> u32 \<Rightarrow> u32 \<Rightarrow> (u8 list \<times> nat) option option" where
  "fs_disk_vfs_readdir s flags index =
     (if flags AND VFS_MOUNTPOINT = 0 then Some None else readdir_scan s (unat index) FS_MAX_FILES 0 0)"

definition fs_disk_vfs_mkdir :: "fsd \<Rightarrow> u8 list \<Rightarrow> u16 \<Rightarrow> (int \<times> fsd) option" where
  "fs_disk_vfs_mkdir s name mode = fs_create_file name FS_FILE_FLAG_DIRECTORY s"

definition fs_disk_vfs_create :: "fsd \<Rightarrow> u8 list \<Rightarrow> u16 \<Rightarrow> (int \<times> fsd) option" where
  "fs_disk_vfs_create s name mode = fs_create_file name FS_FILE_FLAG_FILE s"

definition fs_disk_vfs_remove :: "fsd \<Rightarrow> u8 list \<Rightarrow> (int \<times> fsd) option" where
  "fs_disk_vfs_remove s name = fs_delete_file name s"

definition fs_disk_vfs_rmdir :: "fsd \<Rightarrow> u8 list \<Rightarrow> u16 \<Rightarrow> (int \<times> fsd) option" where
  "fs_disk_vfs_rmdir s name mode = fs_delete_file name s"

definition fs_disk_vfs_stat :: "fsd \<Rightarrow> u8 list \<Rightarrow> (int \<times> stat) option" where
  "fs_disk_vfs_stat s name =
     (case fs_get_file_info name s of
        None \<Rightarrow> None
      | Some None \<Rightarrow> Some (-1, \<lparr>st_size = 0, st_mode = 0, st_ino = 0\<rparr>)
      | Some (Some info) \<Rightarrow> Some (0,
          \<lparr>st_size = size_bytes info,
           st_mode = (if e_flags info AND FS_FILE_FLAG_FILE \<noteq> 0 then S_IFREG else 0)
             OR (if e_flags info AND FS_FILE_FLAG_DIRECTORY \<noteq> 0 then S_IFDIR else 0) OR 0x1ED,
           st_ino = 0\<rparr>))"

subsection \<open>Mount and unmount\<close>

definition node_flags_of :: "kyrofs \<Rightarrow> nat \<Rightarrow> u32" where
  "node_flags_of fs n = (case nodes fs n of None \<Rightarrow> 0 | Some x \<Rightarrow> node_flags x)"

definition clear_ptr :: "kyrofs_dirent \<Rightarrow> kyrofs_dirent" where
  "clear_ptr x = x\<lparr>node_dirents := [], node_content := None\<rparr>"

definition update_node :: "nat \<Rightarrow> (kyrofs_dirent \<Rightarrow> kyrofs_dirent) \<Rightarrow> kyrofs \<Rightarrow> kyrofs" where
  "update_node n f fs = fs\<lparr>nodes := (nodes fs)(n := map_option f (nodes fs n))\<rparr>"

text \<open>
  \<open>dev_ptr\<close> is the number the mount function reads out of the device node's \<open>ptr\<close>: the drive number of
  the whole disk, the low half of an address for a partition.
\<close>

fun dev_ptr :: "blockdev \<Rightarrow> u32" where
  "dev_ptr Whole_disk = 0"
| "dev_ptr (Partition start len drive ptr) = ptr"

definition fs_disk_mount_func :: "nat \<Rightarrow> nat \<Rightarrow> vfs_world \<Rightarrow> (int \<times> vfs_world) option" where
  "fs_disk_mount_func mp device w =
     (case block_devices w device of
        None \<Rightarrow> Some (-1, w)
      | Some dev \<Rightarrow>
          if Some device \<notin> set (open_nodes w) then Some (-1, w)
          else (case fs_mount dev (dev_ptr dev) (w_fsd w) of
                  None \<Rightarrow> None
                | Some (rc, s') \<Rightarrow>
                    if rc \<noteq> 0 then Some (-1, w\<lparr>w_fsd := s'\<rparr>)
                    else Some (0, w\<lparr>w_fsd := s', w_disk_ops := insert mp (w_disk_ops w),
                       w_kyro := update_node mp (\<lambda>x. clear_ptr
                         (x\<lparr>node_flags := node_flags x OR (VFS_MOUNTPOINT OR VFS_DIRECTORY), node_rw := Rw_null\<rparr>))
                         (w_kyro w)\<rparr>)))"

record filesystem_type =
  fs_type_name :: string
  mount_func :: "nat \<Rightarrow> nat \<Rightarrow> vfs_world \<Rightarrow> (int \<times> vfs_world) option"

definition fs_disk_filesystem :: filesystem_type where
  "fs_disk_filesystem = \<lparr>fs_type_name = ''fs_disk'', mount_func = fs_disk_mount_func\<rparr>"

definition register_filesystem :: "filesystem_type \<Rightarrow> filesystem_type list \<Rightarrow> filesystem_type list" where
  "register_filesystem t registered = t # registered"

definition fs_disk_vfs_init :: "filesystem_type list \<Rightarrow> filesystem_type list" where
  "fs_disk_vfs_init registered = register_filesystem fs_disk_filesystem registered"

definition vfs_mount ::
  "filesystem_type list \<Rightarrow> nat option \<Rightarrow> nat option \<Rightarrow> string \<Rightarrow> vfs_world \<Rightarrow> (int \<times> vfs_world) option" where
  "vfs_mount registered mount_point device_node name w =
     (case mount_point of
        None \<Rightarrow> Some (-1, w)
      | Some mp \<Rightarrow>
          if node_flags_of (w_kyro w) mp AND VFS_DIRECTORY = 0 then Some (-1, w)
          else if node_flags_of (w_kyro w) mp AND VFS_MOUNTPOINT \<noteq> 0 then Some (-1, w)
          else (case device_node of
                  None \<Rightarrow> Some (-1, w)
                | Some device \<Rightarrow>
                    (case List.find (\<lambda>t. fs_type_name t = name) registered of
                       None \<Rightarrow> Some (-1, w)
                     | Some t \<Rightarrow> mount_func t mp device w)))"

definition vfs_unmount :: "nat option \<Rightarrow> vfs_world \<Rightarrow> (int \<times> vfs_world) option" where
  "vfs_unmount mount_point w =
     (case mount_point of
        None \<Rightarrow> Some (-1, w)
      | Some mp \<Rightarrow>
          if node_flags_of (w_kyro w) mp AND VFS_MOUNTPOINT = 0 then Some (-1, w)
          else (case fs_unmount (w_fsd w) of
                  None \<Rightarrow> None
                | Some (rc, s') \<Rightarrow>
                    if rc \<noteq> 0 then Some (-1, w\<lparr>w_fsd := s'\<rparr>)
                    else Some (0, w\<lparr>w_fsd := s', w_kyro := update_node mp
                       (\<lambda>x. clear_ptr (x\<lparr>node_flags := node_flags x AND NOT VFS_MOUNTPOINT\<rparr>)) (w_kyro w)\<rparr>)))"

subsection \<open>The operations of a node in the combined tree\<close>

definition on_fsd :: "vfs_world \<Rightarrow> ('a \<times> fsd) option \<Rightarrow> ('a \<times> vfs_world) option" where
  "on_fsd w r = map_option (\<lambda>(x, s). (x, w\<lparr>w_fsd := s\<rparr>)) r"

definition on_kyro :: "vfs_world \<Rightarrow> ('a \<times> kyrofs) option \<Rightarrow> ('a \<times> vfs_world) option" where
  "on_kyro w r = map_option (\<lambda>(x, k). (x, w\<lparr>w_kyro := k\<rparr>)) r"

fun world_flags :: "vfs_world \<Rightarrow> vnode \<Rightarrow> u32" where
  "world_flags w (Kyro n) = node_flags_of (w_kyro w) n"
| "world_flags w (Disk_file d) = dn_flags d"

definition world_find_disk :: "vfs_world \<Rightarrow> u32 \<Rightarrow> string \<Rightarrow> (vnode option \<times> vfs_world) option" where
  "world_find_disk w flags name =
     map_option (\<lambda>r. (map_option Disk_file r, w))
       (fs_disk_vfs_finddir (w_fsd w) flags (heap_ok (w_kyro w)) (path_bytes name))"

fun world_finddir :: "vfs_world \<Rightarrow> vnode \<Rightarrow> (string \<Rightarrow> (vnode option \<times> vfs_world) option) option" where
  "world_finddir w (Kyro n) =
     (if n \<in> w_disk_ops w then Some (world_find_disk w (node_flags_of (w_kyro w) n))
      else map_option (\<lambda>f name. map_option (\<lambda>(r, k). (map_option Kyro r, w)) (f name))
             (op_finddir boot_ops (w_kyro w) n))"
| "world_finddir w (Disk_file d) =
     (if dn_flags d AND VFS_DIRECTORY = 0 then None else Some (world_find_disk w (dn_flags d)))"

fun world_create :: "vfs_world \<Rightarrow> vnode \<Rightarrow> (string \<Rightarrow> u16 \<Rightarrow> (int \<times> vfs_world) option) option" where
  "world_create w (Kyro n) =
     (if n \<in> w_disk_ops w then Some (\<lambda>name mode. on_fsd w (fs_disk_vfs_create (w_fsd w) (path_bytes name) mode))
      else map_option (\<lambda>f name mode. on_kyro w (f name mode)) (op_create boot_ops (w_kyro w) n))"
| "world_create w (Disk_file d) = None"

fun world_mkdir :: "vfs_world \<Rightarrow> vnode \<Rightarrow> (string \<Rightarrow> u16 \<Rightarrow> (int \<times> vfs_world) option) option" where
  "world_mkdir w (Kyro n) =
     (if n \<in> w_disk_ops w then Some (\<lambda>name mode. on_fsd w (fs_disk_vfs_mkdir (w_fsd w) (path_bytes name) mode))
      else map_option (\<lambda>f name mode. on_kyro w (f name mode)) (op_mkdir boot_ops (w_kyro w) n))"
| "world_mkdir w (Disk_file d) = None"

fun world_remove :: "vfs_world \<Rightarrow> vnode \<Rightarrow> (string \<Rightarrow> (int \<times> vfs_world) option) option" where
  "world_remove w (Kyro n) =
     (if n \<in> w_disk_ops w then Some (\<lambda>name. on_fsd w (fs_disk_vfs_remove (w_fsd w) (path_bytes name)))
      else map_option (\<lambda>f name. on_kyro w (f name)) (op_remove boot_ops (w_kyro w) n))"
| "world_remove w (Disk_file d) = None"

fun world_rmdir :: "vfs_world \<Rightarrow> vnode \<Rightarrow> (string \<Rightarrow> u16 \<Rightarrow> (int \<times> vfs_world) option) option" where
  "world_rmdir w (Kyro n) =
     (if n \<in> w_disk_ops w then Some (\<lambda>name mode. on_fsd w (fs_disk_vfs_rmdir (w_fsd w) (path_bytes name) mode))
      else map_option (\<lambda>f name mode. on_kyro w (f name mode)) (op_rmdir boot_ops (w_kyro w) n))"
| "world_rmdir w (Disk_file d) = None"

fun world_read :: "vfs_world \<Rightarrow> vnode \<Rightarrow> (u64 \<Rightarrow> u32 \<Rightarrow> (u32 \<times> cell list \<times> vfs_world) option) option" where
  "world_read w (Kyro n) =
     map_option (\<lambda>f off k. map_option (\<lambda>(c, b, fs). (c, b, w\<lparr>w_kyro := fs\<rparr>)) (f off k)) (op_read boot_ops (w_kyro w) n)"
| "world_read w (Disk_file d) =
     Some (\<lambda>off k. map_option (\<lambda>(c, b). (c, map Some b, w)) (fs_disk_vfs_read (w_fsd w) d off k))"

fun world_write :: "vfs_world \<Rightarrow> vnode \<Rightarrow> (u64 \<Rightarrow> u32 \<Rightarrow> u8 list \<Rightarrow> (u32 \<times> vfs_world) option) option" where
  "world_write w (Kyro n) =
     map_option (\<lambda>f off k b. on_kyro w (f off k b)) (op_write boot_ops (w_kyro w) n)"
| "world_write w (Disk_file d) = Some (\<lambda>off k b. on_fsd w (fs_disk_vfs_write (w_fsd w) d off k b))"

fun world_open :: "vfs_world \<Rightarrow> vnode \<Rightarrow> (u32 \<Rightarrow> vfs_world option) option" where
  "world_open w (Kyro n) =
     (if n \<in> w_disk_ops w then Some (\<lambda>flags. Some w)
      else map_option (\<lambda>f flags. map_option (\<lambda>k. w\<lparr>w_kyro := k\<rparr>) (f flags)) (op_open boot_ops (w_kyro w) n))"
| "world_open w (Disk_file d) = Some (\<lambda>flags. Some w)"

definition disk_dirent :: "u8 list \<times> nat \<Rightarrow> dirent" where
  "disk_dirent e = \<lparr>d_name = map (\<lambda>b. char_of (unat b)) (take 255 (fst e)), d_ino = of_nat (snd e)\<rparr>"

definition world_readdir_disk :: "vfs_world \<Rightarrow> u32 \<Rightarrow> u32 \<Rightarrow> (dirent option \<times> vfs_world) option" where
  "world_readdir_disk w flags index =
     map_option (\<lambda>r. (map_option disk_dirent r, w)) (fs_disk_vfs_readdir (w_fsd w) flags index)"

fun world_readdir :: "vfs_world \<Rightarrow> vnode \<Rightarrow> (u32 \<Rightarrow> (dirent option \<times> vfs_world) option) option" where
  "world_readdir w (Kyro n) =
     (if n \<in> w_disk_ops w then Some (world_readdir_disk w (node_flags_of (w_kyro w) n))
      else map_option (\<lambda>f i. on_kyro w (f i)) (op_readdir boot_ops (w_kyro w) n))"
| "world_readdir w (Disk_file d) =
     (if dn_flags d AND VFS_DIRECTORY = 0 then None else Some (world_readdir_disk w (dn_flags d)))"

definition node_name_bytes :: "kyrofs \<Rightarrow> nat \<Rightarrow> u8 list" where
  "node_name_bytes fs n = (case nodes fs n of None \<Rightarrow> [] | Some x \<Rightarrow> path_bytes (node_name x))"

fun world_stat :: "vfs_world \<Rightarrow> vnode \<Rightarrow> ((int \<times> stat \<times> vfs_world) option) option" where
  "world_stat w (Kyro n) =
     (if n \<in> w_disk_ops w
      then Some (map_option (\<lambda>(rc, st). (rc, st, w)) (fs_disk_vfs_stat (w_fsd w) (node_name_bytes (w_kyro w) n)))
      else map_option (map_option (\<lambda>(rc, st, k). (rc, st, w))) (op_stat boot_ops (w_kyro w) n))"
| "world_stat w (Disk_file d) =
     Some (map_option (\<lambda>(rc, st). (rc, st, w)) (fs_disk_vfs_stat (w_fsd w) (dn_name d)))"

definition world_ops :: "(vfs_world, vnode) vfs_ops" where
  "world_ops =
     \<lparr>op_flags = world_flags, op_read = world_read, op_write = world_write, op_open = world_open,
      op_finddir = world_finddir, op_readdir = world_readdir, op_mkdir = world_mkdir,
      op_create = world_create, op_remove = world_remove, op_rmdir = world_rmdir, op_stat = world_stat\<rparr>"

subsection \<open>Correctness\<close>

lemma mount_flag_cleared: "(x AND NOT VFS_MOUNTPOINT) AND VFS_MOUNTPOINT = 0"
  by (simp add: and.assoc)

lemma fs_unmount_unmounts: "fs_unmount s = Some (rc, s') \<Longrightarrow> rc = 0 \<and> mounted_disk_node s' = None"
  by (auto simp: fs_unmount_def bind_eq_Some_conv split: option.splits)

lemma vfs_mount_disk_ops:
  assumes "vfs_mount registered (Some mp) (Some device) name w = Some (0, w')"
    and "List.find (\<lambda>t. fs_type_name t = name) registered = Some fs_disk_filesystem"
  shows "mp \<in> w_disk_ops w'"
  using assms
  by (auto simp: vfs_mount_def fs_disk_filesystem_def fs_disk_mount_func_def split: option.splits if_splits)

text \<open>Mounting over a directory is not undone by unmounting: after a mount of the disk file system
  and an unmount that both succeed, the directory's function pointers are still those of the disk
  file system, so no name is found in it and nothing can be created in it, whatever it held before.\<close>

lemma unmount_leaves_directory_dead:
  assumes "List.find (\<lambda>t. fs_type_name t = name) registered = Some fs_disk_filesystem"
    and "vfs_mount registered (Some mp) (Some device) name w = Some (0, w1)"
    and "vfs_unmount (Some mp) w1 = Some (0, w2)"
  shows "vfs_finddir world_ops (Some (Kyro mp)) entry w2 = Some (None, w2)
    \<and> (\<exists>f. op_create world_ops w2 (Kyro mp) = Some f \<and> (\<forall>n mode. f n mode = Some (-1, w2)))"
proof -
  have mp1: "mp \<in> w_disk_ops w1" by (rule vfs_mount_disk_ops [OF assms(2,1)])
  obtain rc s' where u: "fs_unmount (w_fsd w1) = Some (rc, s')" and w2: "w_disk_ops w2 = w_disk_ops w1"
    "w_fsd w2 = s'" "node_flags_of (w_kyro w2) mp AND VFS_MOUNTPOINT = 0"
    using assms(3)
    by (auto simp: vfs_unmount_def node_flags_of_def update_node_def clear_ptr_def mount_flag_cleared
        split: option.splits if_splits prod.splits)
  have none: "mounted_disk_node (w_fsd w2) = None" using fs_unmount_unmounts [OF u] w2(2) by simp
  have mp2: "mp \<in> w_disk_ops w2" using mp1 w2(1) by simp
  have "vfs_finddir world_ops (Some (Kyro mp)) entry w2 = Some (None, w2)"
    using mp2 w2(3)
    by (simp add: vfs_finddir_def world_ops_def world_find_disk_def fs_disk_vfs_finddir_def)
  moreover have "op_create world_ops w2 (Kyro mp)
      = Some (\<lambda>n mode. on_fsd w2 (fs_disk_vfs_create (w_fsd w2) (path_bytes n) mode))"
    using mp2 by (simp add: world_ops_def)
  moreover have "on_fsd w2 (fs_disk_vfs_create (w_fsd w2) (path_bytes n) mode) = Some (-1, w2)" for n mode
    using none by (simp add: on_fsd_def fs_disk_vfs_create_def fs_create_file_def)
  ultimately show ?thesis by blast
qed

text \<open>The tree with one directory \<open>mnt\<close> (node 2), and the disk of \<open>demo_fsd\<close> as node 3 on descriptor 0.\<close>

definition demo_world :: vfs_world where
  "demo_world =
     \<lparr>w_kyro = created 1 ''mnt'' VFS_DIRECTORY (root_dirent 1) root_fs,
      w_fsd = the (map_option snd (fs_unmount demo_fsd)), w_disk_ops = {},
      block_devices = [3 \<mapsto> Whole_disk], open_nodes = [Some 3]\<rparr>"

lemma demo_world_mount:
  "\<exists>w1 w2. vfs_mount [fs_disk_filesystem] (Some 2) (Some 3) ''fs_disk'' demo_world = Some (0, w1)
     \<and> vfs_unmount (Some 2) w1 = Some (0, w2)"
proof -
  have heap: "\<forall>k. fs_heap_ok demo_fsd k" by (simp add: demo_fsd_fields(2))
  from fs_remount_state [OF demo_fsd_inv demo_fsd_fields(1) heap]
  obtain s1 s2 where s: "fs_unmount demo_fsd = Some (0, s1)" "fs_mount Whole_disk 0 s1 = Some (0, s2)"
    "fs_inv s2" "mounted_disk_node s2 = Some Whole_disk" "\<forall>k. fs_heap_ok s2 k"
    by (auto simp: demo_fsd_def)
  from fs_remount_state [OF s(3,4,5)]
  obtain s3 where s3: "fs_unmount s2 = Some (0, s3)" by blast
  have k: "nodes (w_kyro demo_world) 2 = Some (new_dirent 1 ''mnt'' VFS_DIRECTORY)"
    by (simp add: demo_world_def created_def root_fs_def)
  have fl: "VFS_DIRECTORY AND VFS_MOUNTPOINT = 0" "(VFS_DIRECTORY OR (VFS_MOUNTPOINT OR VFS_DIRECTORY)) AND VFS_MOUNTPOINT \<noteq> 0"
    by (simp_all add: vfs_flag_defs)
  let ?w1 = "demo_world\<lparr>w_fsd := s2, w_disk_ops := insert 2 {},
      w_kyro := update_node 2 (\<lambda>x. clear_ptr
        (x\<lparr>node_flags := node_flags x OR (VFS_MOUNTPOINT OR VFS_DIRECTORY), node_rw := Rw_null\<rparr>)) (w_kyro demo_world)\<rparr>"
  have flags: "node_flags_of (w_kyro demo_world) 2 = VFS_DIRECTORY"
    using k by (simp add: node_flags_of_def new_dirent_def Let_def)
  have d: "block_devices demo_world = [3 \<mapsto> Whole_disk]" "open_nodes demo_world = [Some 3]"
    "w_fsd demo_world = s1" "w_disk_ops demo_world = {}"
    using s(1) by (simp_all add: demo_world_def)
  have m: "vfs_mount [fs_disk_filesystem] (Some 2) (Some 3) ''fs_disk'' demo_world = Some (0, ?w1)"
    using flags fl(1) s(2) by (simp add: vfs_mount_def fs_disk_filesystem_def fs_disk_mount_func_def d)
  have "node_flags_of (w_kyro ?w1) 2 = VFS_DIRECTORY OR (VFS_MOUNTPOINT OR VFS_DIRECTORY)"
    using k by (simp add: node_flags_of_def update_node_def clear_ptr_def new_dirent_def Let_def)
  then have "\<exists>w2. vfs_unmount (Some 2) ?w1 = Some (0, w2)"
    using fl(2) s3 by (simp add: vfs_unmount_def)
  with m show ?thesis by blast
qed

lemma unmount_leaves_directory_dead_witness:
  "\<exists>w1 w2. vfs_mount [fs_disk_filesystem] (Some 2) (Some 3) ''fs_disk'' demo_world = Some (0, w1)
     \<and> vfs_unmount (Some 2) w1 = Some (0, w2)
     \<and> vfs_finddir world_ops (Some (Kyro 2)) ''a'' w2 = Some (None, w2)"
proof -
  obtain w1 w2 where m: "vfs_mount [fs_disk_filesystem] (Some 2) (Some 3) ''fs_disk'' demo_world = Some (0, w1)"
    and u: "vfs_unmount (Some 2) w1 = Some (0, w2)"
    using demo_world_mount by blast
  have "List.find (\<lambda>t. fs_type_name t = ''fs_disk'') [fs_disk_filesystem] = Some fs_disk_filesystem"
    by (simp add: fs_disk_filesystem_def)
  from unmount_leaves_directory_dead [OF this m u] m u show ?thesis by blast
qed

end
