(* ===== verification/Block_Allocator.thy ===== *)
theory Block_Allocator
  imports Kyro_Prelude
begin

section \<open>The contract of a heap\<close>

text \<open>
  What a client of \<open>kmalloc\<close> and \<open>kfree\<close> relies on: every call returns; an allocation fails with
  \<open>NULL\<close> or gives a new address whose bytes belong to no other live allocation; a call moves no live
  allocation. The client lemma is that all this holds after any sequence of calls.
\<close>

datatype mcall = Malloc u64 | Release nat

text \<open>The list holds the live addresses with the sizes asked for; only live addresses are released.\<close>

fun malloc_run ::
  "(u64 \<Rightarrow> 's \<Rightarrow> (nat \<times> 's) option) \<Rightarrow> (nat \<Rightarrow> 's \<Rightarrow> 's option) \<Rightarrow> mcall list \<Rightarrow> (nat \<times> u64) list \<Rightarrow> 's
   \<Rightarrow> ((nat \<times> u64) list \<times> 's) option" where
  "malloc_run malloc free [] live s = Some (live, s)"
| "malloc_run malloc free (Malloc n # cs) live s =
     do { (r, s') \<leftarrow> malloc n s; malloc_run malloc free cs (if r = 0 then live else (r, n) # live) s' }"
| "malloc_run malloc free (Release p # cs) live s =
     (if p \<in> fst ` set live
      then do { s' \<leftarrow> free p s; malloc_run malloc free cs (filter (\<lambda>e. fst e \<noteq> p) live) s' }
      else malloc_run malloc free cs live s)"

locale block_allocator =
  fixes malloc :: "u64 \<Rightarrow> 's \<Rightarrow> (nat \<times> 's) option"
    and free :: "nat \<Rightarrow> 's \<Rightarrow> 's option"
    and inv :: "nat set \<Rightarrow> 's \<Rightarrow> bool"
    and extent :: "'s \<Rightarrow> nat \<Rightarrow> nat set"
    and request_ok :: "'s \<Rightarrow> u64 \<Rightarrow> bool"
  assumes malloc_law: "inv L s \<Longrightarrow> request_ok s n \<Longrightarrow>
      \<exists>r s'. malloc n s = Some (r, s') \<and> (\<forall>m. request_ok s' m = request_ok s m)
        \<and> (\<forall>a\<in>L. extent s' a = extent s a)
        \<and> (if r = 0 then inv L s' else r \<notin> L \<and> inv (insert r L) s' \<and> {r..<r + unat n} \<subseteq> extent s' r)"
    and free_law: "inv L s \<Longrightarrow> p \<in> L \<Longrightarrow>
      \<exists>s'. free p s = Some s' \<and> inv (L - {p}) s' \<and> (\<forall>m. request_ok s' m = request_ok s m)
        \<and> (\<forall>a\<in>L - {p}. extent s' a = extent s a)"
    and extents_disjoint: "inv L s \<Longrightarrow> a \<in> L \<Longrightarrow> c \<in> L \<Longrightarrow> a \<noteq> c \<Longrightarrow> extent s a \<inter> extent s c = {}"
begin

definition sound :: "(nat \<times> u64) list \<Rightarrow> 's \<Rightarrow> bool" where
  "sound live s \<longleftrightarrow> inv (fst ` set live) s \<and> distinct (map fst live)
     \<and> (\<forall>e\<in>set live. {fst e..<fst e + unat (snd e)} \<subseteq> extent s (fst e))"

lemma run_sound:
  "sound live s \<Longrightarrow> (\<And>n. Malloc n \<in> set cs \<Longrightarrow> request_ok s n) \<Longrightarrow>
   \<exists>live' s'. malloc_run malloc free cs live s = Some (live', s') \<and> sound live' s'"
proof (induction cs arbitrary: live s)
  case (Cons c cs)
  have i: "inv (fst ` set live) s" and d: "distinct (map fst live)"
    and e: "\<forall>e\<in>set live. {fst e..<fst e + unat (snd e)} \<subseteq> extent s (fst e)"
    using Cons.prems(1) by (simp_all add: sound_def)
  show ?case
  proof (cases c)
    case (Malloc n)
    then have "request_ok s n" using Cons.prems(2) by simp
    from malloc_law [OF i this] obtain r s' where m: "malloc n s = Some (r, s')"
      "\<forall>m. request_ok s' m = request_ok s m" "\<forall>a\<in>fst ` set live. extent s' a = extent s a"
      "if r = 0 then inv (fst ` set live) s'
       else r \<notin> fst ` set live \<and> inv (insert r (fst ` set live)) s' \<and> {r..<r + unat n} \<subseteq> extent s' r" by blast
    have "sound (if r = 0 then live else (r, n) # live) s'"
      using m(3,4) d e by (cases "r = 0") (auto simp: sound_def)
    then show ?thesis using Cons.IH [of _ s'] Cons.prems(2) m(1,2) Malloc by simp
  next
    case (Release p)
    show ?thesis
    proof (cases "p \<in> fst ` set live")
      case True
      from free_law [OF i this] obtain s' where f: "free p s = Some s'" "inv (fst ` set live - {p}) s'"
        "\<forall>m. request_ok s' m = request_ok s m" "\<forall>a\<in>fst ` set live - {p}. extent s' a = extent s a" by blast
      have "fst ` set (filter (\<lambda>e. fst e \<noteq> p) live) = fst ` set live - {p}" by auto
      then have "sound (filter (\<lambda>e. fst e \<noteq> p) live) s'"
        using f(2,4) d e by (auto simp: sound_def distinct_map_filter)
      then show ?thesis using Cons.IH [of _ s'] Cons.prems(2) f(1,3) Release True by simp
    next
      case False
      then show ?thesis using Cons Release by simp
    qed
  qed
qed simp

lemma sound_disjoint:
  assumes "sound live s" "(p, n) \<in> set live" "(q, m) \<in> set live" "p \<noteq> q"
  shows "{p..<p + unat n} \<inter> {q..<q + unat m} = {}"
proof -
  have "extent s p \<inter> extent s q = {}"
    using assms by (intro extents_disjoint [of "fst ` set live"]) (force simp: sound_def)+
  moreover have "{p..<p + unat n} \<subseteq> extent s p" "{q..<q + unat m} \<subseteq> extent s q"
    using assms by (force simp: sound_def)+
  ultimately show ?thesis by blast
qed

end

end
