(* ===== verification/Kernel_Heap.thy ===== *)
theory Kernel_Heap
  imports Pmm Block_Allocator
begin

section \<open>The kernel heap (src/kernel/heap.c)\<close>

text \<open>
  A circular, address-ordered list of free blocks with a header in front of each block, as in the
  source. A header pointer is its byte address, a \<open>nat\<close>; the two fields of the header at an address
  are \<open>h_next\<close> and \<open>h_size\<close> (in units of \<open>sizeof(header_t) = 16\<close> bytes), and \<open>h_data\<close> holds the bytes
  outside headers. The static header \<open>base\<close> lies at \<open>h_base\<close>, in the kernel image and so above the
  direct map that all other blocks come from. The searches of \<open>kmalloc\<close> and \<open>kfree\<close> are loops over
  the list: they are partial functions, so that a call which never returns is \<open>None\<close>.
  The request sizes are 64-bit words with the wrap of the source.
\<close>

definition HEADER_SIZE :: nat where
  "HEADER_SIZE = 16"

record kheap =
  h_next :: "nat \<Rightarrow> nat"
  h_size :: "nat \<Rightarrow> nat"
  h_data :: "nat \<Rightarrow> u8"
  freelist :: nat
  h_base :: nat
  h_pmm :: pmm_state

subsection \<open>Operations\<close>

definition heap_init :: "kheap \<Rightarrow> kheap" where
  "heap_init s = s\<lparr>h_next := (h_next s)(h_base s := h_base s), h_size := (h_size s)(h_base s := 0),
                   freelist := h_base s\<rparr>"

partial_function (option) kfree_find :: "nat \<Rightarrow> (nat \<Rightarrow> nat) \<Rightarrow> nat \<Rightarrow> nat option" where
  "kfree_find bp nx p =
     (if p < bp \<and> bp < nx p then Some p
      else if nx p \<le> p \<and> (p < bp \<or> bp < nx p) then Some p
      else kfree_find bp nx (nx p))"

text \<open>Insertion of the block \<open>bp\<close> after \<open>p\<close>, merging it with the neighbours it touches.\<close>

definition kfree_link :: "nat \<Rightarrow> nat \<Rightarrow> kheap \<Rightarrow> kheap" where
  "kfree_link bp p s =
     (let s1 = (if bp + h_size s bp * HEADER_SIZE = h_next s p
                then s\<lparr>h_size := (h_size s)(bp := h_size s bp + h_size s (h_next s p)),
                       h_next := (h_next s)(bp := h_next s (h_next s p))\<rparr>
                else s\<lparr>h_next := (h_next s)(bp := h_next s p)\<rparr>);
          s2 = (if p + h_size s1 p * HEADER_SIZE = bp
                then s1\<lparr>h_size := (h_size s1)(p := h_size s1 p + h_size s1 bp),
                        h_next := (h_next s1)(p := h_next s1 bp)\<rparr>
                else s1\<lparr>h_next := (h_next s1)(p := bp)\<rparr>)
      in s2\<lparr>freelist := p\<rparr>)"

definition kfree :: "nat \<Rightarrow> kheap \<Rightarrow> kheap option" where
  "kfree ap s =
     (if ap = 0 then Some s
      else let bp = ap - HEADER_SIZE
           in do { p \<leftarrow> kfree_find bp (h_next s) (freelist s); Some (kfree_link bp p s) })"

text \<open>The result 0 is \<open>NULL\<close>.\<close>

definition morecore :: "nat \<Rightarrow> kheap \<Rightarrow> (nat \<times> kheap) option" where
  "morecore nunits s =
     (let n = (if nunits < 1024 then 1024 else nunits);
          nbytes = of_nat n * of_nat HEADER_SIZE :: u64;
          npages = (nbytes + of_nat PAGE_SIZE - 1) div of_nat PAGE_SIZE
      in do {
        (page, pm) \<leftarrow> pmm_alloc_pages npages (h_pmm s);
        let s1 = s\<lparr>h_pmm := pm\<rparr>;
        if page = 0 then Some (0, s1)
        else do {
          let up = unat (p_to_v pm page);
          s2 \<leftarrow> kfree (up + HEADER_SIZE)
                 (s1\<lparr>h_size := (h_size s1)(up := unat (npages * of_nat PAGE_SIZE div of_nat HEADER_SIZE))\<rparr>);
          Some (freelist s2, s2) } })"

definition kmalloc_take :: "nat \<Rightarrow> nat \<Rightarrow> nat \<Rightarrow> kheap \<Rightarrow> nat \<times> kheap" where
  "kmalloc_take nunits prevp p s =
     (if h_size s p = nunits
      then (p + HEADER_SIZE, s\<lparr>h_next := (h_next s)(prevp := h_next s p), freelist := prevp\<rparr>)
      else let rest = h_size s p - nunits;
               q = p + rest * HEADER_SIZE
           in (q + HEADER_SIZE, s\<lparr>h_size := (h_size s)(p := rest, q := nunits), freelist := prevp\<rparr>))"

partial_function (option) kmalloc_loop :: "nat \<Rightarrow> nat \<Rightarrow> nat \<Rightarrow> kheap \<Rightarrow> (nat \<times> kheap) option" where
  "kmalloc_loop nunits prevp p s =
     (if nunits \<le> h_size s p then Some (kmalloc_take nunits prevp p s)
      else if p = freelist s
      then Option.bind (morecore nunits s)
             (\<lambda>r. if fst r = 0 then Some (0, snd r)
                  else kmalloc_loop nunits (fst r) (h_next (snd r) (fst r)) (snd r))
      else kmalloc_loop nunits p (h_next s p) s)"

definition units_of :: "u64 \<Rightarrow> nat" where
  "units_of nbytes = unat ((nbytes + of_nat HEADER_SIZE - 1) div of_nat HEADER_SIZE + 1)"

definition kmalloc :: "u64 \<Rightarrow> kheap \<Rightarrow> (nat \<times> kheap) option" where
  "kmalloc nbytes s =
     (if nbytes = 0 then Some (0, s)
      else kmalloc_loop (units_of nbytes) (freelist s) (h_next s (freelist s)) s)"

text \<open>The byte loop of \<open>krealloc\<close>.\<close>

definition copy_bytes :: "nat \<Rightarrow> nat \<Rightarrow> nat \<Rightarrow> kheap \<Rightarrow> kheap" where
  "copy_bytes dst src n s = s\<lparr>h_data := fold (\<lambda>i d. d(dst + i := d (src + i))) [0..<n] (h_data s)\<rparr>"

definition krealloc :: "nat \<Rightarrow> u64 \<Rightarrow> kheap \<Rightarrow> (nat \<times> kheap) option" where
  "krealloc ptr new_size s =
     (if ptr = 0 then kmalloc new_size s
      else if new_size = 0 then do { s' \<leftarrow> kfree ptr s; Some (0, s') }
      else let old_size = (h_size s (ptr - HEADER_SIZE) - 1) * HEADER_SIZE
           in if unat new_size \<le> old_size then Some (ptr, s)
              else do {
                (new_ptr, s1) \<leftarrow> kmalloc new_size s;
                if new_ptr = 0 then Some (0, s1)
                else do { s2 \<leftarrow> kfree ptr (copy_bytes new_ptr ptr old_size s1); Some (new_ptr, s2) } })"

subsection \<open>The free list as a sorted list of blocks\<close>

definition block :: "(nat \<Rightarrow> nat) \<Rightarrow> nat \<Rightarrow> nat set" where
  "block sz b = {b..<b + sz b * HEADER_SIZE}"

definition before :: "(nat \<Rightarrow> nat) \<Rightarrow> nat \<Rightarrow> nat \<Rightarrow> bool" where
  "before sz x y \<longleftrightarrow> x + sz x * HEADER_SIZE < y"

text \<open>
  The list holds the blocks in address order, none touching the next (they would have been merged),
  and \<open>base\<close> closes the ring after the last.
\<close>

definition linked :: "(nat \<Rightarrow> nat) \<Rightarrow> nat list \<Rightarrow> bool" where
  "linked nx = successively (\<lambda>x y. nx x = y)"

definition ring :: "kheap \<Rightarrow> nat list \<Rightarrow> bool" where
  "ring s bs \<longleftrightarrow> linked (h_next s) (h_base s # bs @ [h_base s])
     \<and> sorted_wrt (before (h_size s)) (bs @ [h_base s]) \<and> (\<forall>b\<in>set bs. 0 < h_size s b)
     \<and> h_size s (h_base s) = 0 \<and> freelist s \<in> insert (h_base s) (set bs)"

definition free_bytes :: "kheap \<Rightarrow> nat list \<Rightarrow> nat set" where
  "free_bytes s bs = (\<Union>b\<in>set bs. block (h_size s) b)"

lemma linked_simps [simp]:
  "linked nx []" "linked nx [x]" "linked nx (x # y # zs) \<longleftrightarrow> nx x = y \<and> linked nx (y # zs)"
  by (simp_all add: linked_def)

lemma linked_append:
  "linked nx (xs @ y # zs) \<longleftrightarrow> linked nx (xs @ [y]) \<and> linked nx (y # zs)"
  unfolding linked_def by (auto simp: successively_append_iff successively_Cons)

lemmas linked_left = linked_append [THEN iffD1, THEN conjunct1]
lemmas linked_right = linked_append [THEN iffD1, THEN conjunct2]

lemma linked_next: "linked nx (xs @ y # z # zs) \<Longrightarrow> nx y = z"
  by (drule linked_right) simp

lemma linked_hd: "linked nx (x # ys @ [z]) \<Longrightarrow> nx x = hd (ys @ [z])"
  by (cases ys) auto

lemma linked_cong: "linked nx xs \<Longrightarrow> (\<forall>x\<in>set (butlast xs). nx' x = nx x) \<Longrightarrow> linked nx' xs"
  by (induction xs rule: induct_list012) auto

lemma before_trans: "before sz x y \<Longrightarrow> before sz y z \<Longrightarrow> before sz x z"
  by (simp add: before_def)

lemma before_less: "before sz x y \<Longrightarrow> x < y"
  by (simp add: before_def)

lemma before_distinct: "sorted_wrt (before sz) xs \<Longrightarrow> distinct xs"
  by (induction xs) (auto dest: before_less)

lemma block_iff: "a \<in> block sz b \<longleftrightarrow> b \<le> a \<and> a < b + sz b * HEADER_SIZE"
  by (auto simp: block_def)

lemma self_in_block: "0 < sz b \<Longrightarrow> b \<in> block sz b"
  by (simp add: block_def HEADER_SIZE_def)

lemma before_disjoint: "before sz x y \<Longrightarrow> block sz x \<inter> block sz y = {}"
  by (auto simp: before_def block_def)

text \<open>Walking the list from any of its members comes back to it after passing every other member once.\<close>

lemma ring_from:
  assumes "linked nx (b # bs @ [b])" "distinct (b # bs)" "f \<in> set (b # bs)"
  shows "\<exists>r. linked nx (f # r @ [f]) \<and> distinct (f # r) \<and> set (f # r) = set (b # bs)"
proof (cases "f = b")
  case True
  then show ?thesis using assms by blast
next
  case False
  then obtain ys zs where bs: "bs = ys @ f # zs" using assms(3) by (auto dest: split_list)
  have "linked nx ((b # ys) @ f # zs @ [b])" using assms(1) bs by simp
  then have l: "linked nx ((b # ys) @ [f])" "linked nx (f # zs @ [b])"
    by (rule linked_left, rule linked_right)
  then have "linked nx (f # (zs @ b # ys) @ [f])"
    using linked_append [of nx "f # zs" b "ys @ [f]"] by simp
  moreover have "distinct (f # zs @ b # ys)" "set (f # zs @ b # ys) = set (b # bs)" using assms(2) bs by auto
  ultimately show ?thesis by blast
qed

subsection \<open>Freeing a block\<close>

lemma ring_next:
  assumes "linked nx (b # (a @ x # c) @ [b])" "sorted_wrt (<) ((a @ x # c) @ [b])"
  shows "nx x = hd (c @ [b])" "x < nx x"
proof -
  have "linked nx ((b # a) @ x # c @ [b])" using assms(1) by simp
  then have "linked nx (x # c @ [b])" by (rule linked_right)
  then show n: "nx x = hd (c @ [b])" by (rule linked_hd)
  have "\<forall>y\<in>set (c @ [b]). x < y" using assms(2) by (simp add: sorted_wrt_append)
  moreover have "hd (c @ [b]) \<in> set (c @ [b])" by (rule hd_in_set) simp
  ultimately show "x < nx x" using n by metis
qed

text \<open>The loop stops exactly at the member after which the block belongs.\<close>

definition kfree_stop :: "nat \<Rightarrow> (nat \<Rightarrow> nat) \<Rightarrow> nat \<Rightarrow> bool" where
  "kfree_stop bp nx x \<longleftrightarrow> (x < bp \<and> bp < nx x) \<or> (nx x \<le> x \<and> (x < bp \<or> bp < nx x))"

lemma ring_stop:
  assumes r: "linked nx (b # (ys @ zs) @ [b])" "sorted_wrt (<) ((ys @ zs) @ [b])"
    and split: "\<forall>y\<in>set ys. y < bp" "\<forall>z\<in>set zs. bp < z" "bp < b" and x: "x \<in> set (b # ys @ zs)"
  shows "kfree_stop bp nx x \<longleftrightarrow> x = last (b # ys)"
proof -
  have d: "distinct (ys @ zs @ [b])" using r(2) strict_sorted_iff [of "(ys @ zs) @ [b]"] by simp
  have zb: "bp < hd (zs @ [b])" using split(2,3) by (cases zs) simp_all
  have lt: "last (b # ys) \<in> set ys" if "ys \<noteq> []" using that by simp
  consider "x = b" | "x \<in> set ys" | "x \<in> set zs" using x by auto
  then show ?thesis
  proof cases
    case 1
    have n: "nx b = hd ((ys @ zs) @ [b])" using linked_hd [OF r(1)] .
    show ?thesis
    proof (cases "ys = []")
      case True
      have "hd (zs @ [b]) \<le> b" using r(2) True by (cases zs) (simp_all add: less_imp_le)
      then show ?thesis using 1 True n zb split(3) by (simp add: kfree_stop_def)
    next
      case False
      then have "nx b < bp" using n split(1) by simp
      moreover have "b \<noteq> last (b # ys)" using lt [OF False] d by auto
      ultimately show ?thesis using 1 split(3) by (simp add: kfree_stop_def)
    qed
  next
    case 2
    then obtain a c where ys: "ys = a @ x # c" by (meson split_list)
    have n: "nx x = hd (c @ zs @ [b])" "x < nx x"
      using ring_next [of nx b a x "c @ zs"] r ys by simp_all
    have xb: "x < bp" using 2 split(1) by simp
    show ?thesis
    proof (cases "c = []")
      case True then show ?thesis using n(1) zb xb ys by (simp add: kfree_stop_def)
    next
      case False
      then have "nx x < bp" using n(1) split(1) ys by simp
      moreover have "last (b # ys) = last c" using ys False by simp
      moreover have "x \<notin> set c" using d ys by simp
      ultimately show ?thesis using n(2) last_in_set [OF False] by (auto simp: kfree_stop_def)
    qed
  next
    case 3
    then obtain a c where zs: "zs = a @ x # c" by (meson split_list)
    have n: "x < nx x" using ring_next [of nx b "ys @ a" x c] r zs by simp
    have "bp < x" using 3 split(2) by simp
    moreover have "x \<noteq> last (b # ys)"
    proof (cases "ys = []")
      case True then show ?thesis using d 3 by auto
    next
      case False
      have "set ys \<inter> set zs = {}" using d by auto
      then show ?thesis using lt [OF False] 3 by blast
    qed
    ultimately show ?thesis using n by (simp add: kfree_stop_def)
  qed
qed

lemma kfree_find_step: "kfree_find bp nx p = (if kfree_stop bp nx p then Some p else kfree_find bp nx (nx p))"
  by (subst kfree_find.simps) (auto simp: kfree_stop_def)

lemma kfree_find_skip:
  "linked nx (p # pre @ [q]) \<Longrightarrow> (\<forall>x\<in>set (p # pre). \<not> kfree_stop bp nx x)
   \<Longrightarrow> kfree_find bp nx p = kfree_find bp nx q"
proof (induction pre arbitrary: p)
  case Nil
  then show ?case by (simp add: kfree_find_step [of bp nx p])
next
  case (Cons x pre)
  then have "kfree_find bp nx x = kfree_find bp nx q" by simp
  then show ?case using Cons.prems by (simp add: kfree_find_step [of bp nx p])
qed

lemma kfree_find_ring:
  assumes r: "linked nx (b # (ys @ zs) @ [b])" "sorted_wrt (<) ((ys @ zs) @ [b])"
    and split: "\<forall>y\<in>set ys. y < bp" "\<forall>z\<in>set zs. bp < z" "bp < b" and f: "f \<in> set (b # ys @ zs)"
  shows "kfree_find bp nx f = Some (last (b # ys))"
proof -
  let ?p = "last (b # ys)"
  have d: "distinct (b # ys @ zs)" using r(2) strict_sorted_iff [of "(ys @ zs) @ [b]"] by auto
  obtain rest where rest: "linked nx (f # rest @ [f])" "distinct (f # rest)" "set (f # rest) = set (b # ys @ zs)"
    using ring_from [OF r(1) d f] by blast
  have pm: "?p \<in> set (b # ys @ zs)" using last_in_set [of "b # ys"] by auto
  have stop: "kfree_find bp nx ?p = Some ?p"
    using ring_stop [OF r split pm] unfolding kfree_find_step [of bp nx ?p] by argo
  show ?thesis
  proof (cases "f = ?p")
    case True then show ?thesis using stop by simp
  next
    case False
    then have "?p \<in> set rest" using rest(3) pm by auto
    then obtain pre post where pre: "rest = pre @ ?p # post" "?p \<notin> set pre" by (meson split_list_first)
    have "linked nx ((f # pre) @ ?p # post @ [f])" using rest(1) pre(1) by simp
    then have "linked nx ((f # pre) @ [?p])" by (rule linked_left)
    moreover have "\<not> kfree_stop bp nx x" if x: "x \<in> set (f # pre)" for x
    proof -
      have "x \<noteq> ?p" using x False pre(2) by auto
      moreover have "x \<in> set (b # ys @ zs)" using x rest(3) pre(1) by auto
      ultimately show ?thesis using ring_stop [OF r split] by blast
    qed
    ultimately have "kfree_find bp nx f = kfree_find bp nx ?p" using kfree_find_skip [of nx f pre ?p bp] by simp
    then show ?thesis using stop by simp
  qed
qed

lemma linked_join:
  "linked nx (pre @ [l]) \<Longrightarrow> linked nx ws \<Longrightarrow> ws \<noteq> [] \<Longrightarrow> nx l = hd ws \<Longrightarrow> linked nx (pre @ [l] @ ws)"
  using linked_append [of nx pre l ws] by (cases ws) simp_all

lemma linked_suffix: "linked nx (xs @ ys) \<Longrightarrow> linked nx ys"
  by (auto simp: linked_def successively_append_iff)

lemma linked_prefix: "linked nx (xs @ ys) \<Longrightarrow> linked nx xs"
  by (auto simp: linked_def successively_append_iff)

text \<open>Changing the successor of the last of \<open>ys\<close>: to skip \<open>us\<close>, or to put a block in its place.\<close>

lemma linked_skip:
  assumes l: "linked nx (b # (ys @ us @ zs) @ [b])"
    and nx: "\<forall>x\<in>set (butlast (b # ys)) \<union> set zs. nx' x = nx x" "nx' (last (b # ys)) = hd (zs @ [b])"
  shows "linked nx' (b # (ys @ zs) @ [b])"
proof -
  have e: "b # ys = butlast (b # ys) @ [last (b # ys)]" by (simp only: append_butlast_last_id list.distinct not_False_eq_True)
  have "linked nx (b # ys)" using linked_prefix [of nx "b # ys" "us @ zs @ [b]"] l by simp
  then have "linked nx' (b # ys)" using linked_cong nx(1) by blast
  then have 1: "linked nx' (butlast (b # ys) @ [last (b # ys)])" using e by metis
  have "linked nx (zs @ [b])" using linked_suffix [of nx "b # ys @ us" "zs @ [b]"] l by simp
  then have "linked nx' (zs @ [b])" using linked_cong [of nx "zs @ [b]" nx'] nx(1) by simp
  from linked_join [OF 1 this _ nx(2)] have "linked nx' ((butlast (b # ys) @ [last (b # ys)]) @ zs @ [b])" by simp
  then have "linked nx' ((b # ys) @ zs @ [b])" using e by metis
  then show ?thesis by simp
qed

lemma linked_put:
  assumes l: "linked nx (b # (ys @ us @ zs) @ [b])"
    and nx: "\<forall>x\<in>set (butlast (b # ys)) \<union> set zs. nx' x = nx x" "nx' (last (b # ys)) = c" "nx' c = hd (zs @ [b])"
  shows "linked nx' (b # (ys @ c # zs) @ [b])"
proof -
  have e: "b # ys = butlast (b # ys) @ [last (b # ys)]" by (simp only: append_butlast_last_id list.distinct not_False_eq_True)
  have "linked nx (b # ys)" using linked_prefix [of nx "b # ys" "us @ zs @ [b]"] l by simp
  then have "linked nx' (b # ys)" using linked_cong nx(1) by blast
  then have 1: "linked nx' (butlast (b # ys) @ [last (b # ys)])" using e by metis
  have "linked nx (zs @ [b])" using linked_suffix [of nx "b # ys @ us" "zs @ [b]"] l by simp
  then have "linked nx' (zs @ [b])" using linked_cong [of nx "zs @ [b]" nx'] nx(1) by simp
  then have "linked nx' (c # zs @ [b])" using nx(3) by (cases zs) simp_all
  from linked_join [OF 1 this] nx(2) have "linked nx' ((butlast (b # ys) @ [last (b # ys)]) @ c # zs @ [b])" by simp
  then have "linked nx' ((b # ys) @ c # zs @ [b])" using e by metis
  then show ?thesis by simp
qed

text \<open>A block that is not free and lies below \<open>base\<close>.\<close>

definition apart :: "kheap \<Rightarrow> nat list \<Rightarrow> nat \<Rightarrow> bool" where
  "apart s bs a \<longleftrightarrow> 0 < h_size s a \<and> before (h_size s) a (h_base s) \<and> block (h_size s) a \<inter> free_bytes s bs = {}"

lemma interval_disjoint:
  "{a..<a + n} \<inter> {b..<b + k} = {} \<Longrightarrow> 0 < n \<Longrightarrow> 0 < k \<Longrightarrow> a < b \<Longrightarrow> a + n \<le> (b::nat)"
  by (metis disjoint_iff atLeastLessThan_iff le_add1 less_add_same_cancel1 less_imp_le_nat not_less order_refl)

lemma apart_split:
  assumes r: "ring s bs" and a: "apart s bs a"
  obtains ys zs where "bs = ys @ zs" "\<forall>y\<in>set ys. y + h_size s y * HEADER_SIZE \<le> a"
    "\<forall>z\<in>set zs. a + h_size s a * HEADER_SIZE \<le> z"
proof -
  define ys zs where "ys = takeWhile (\<lambda>b. b < a) bs" and "zs = dropWhile (\<lambda>b. b < a) bs"
  have bs: "bs = ys @ zs" by (simp add: ys_def zs_def)
  have dis: "b \<in> set bs \<Longrightarrow> block (h_size s) a \<inter> block (h_size s) b = {}" for b
    using a by (auto simp: apart_def free_bytes_def)
  have pos: "b \<in> set bs \<Longrightarrow> 0 < h_size s b * HEADER_SIZE" for b using r by (simp add: ring_def HEADER_SIZE_def)
  have posa: "0 < h_size s a * HEADER_SIZE" using a by (simp add: apart_def HEADER_SIZE_def)
  have y: "y + h_size s y * HEADER_SIZE \<le> a" if "y \<in> set ys" for y
  proof -
    have "y < a" "y \<in> set bs" using that set_takeWhileD by (fastforce simp: ys_def)+
    then show ?thesis using interval_disjoint dis [of y] pos [of y] posa by (simp add: block_def Int_commute)
  qed
  have z: "a + h_size s a * HEADER_SIZE \<le> z" if "z \<in> set zs" for z
  proof -
    have ne: "zs \<noteq> []" using that by auto
    then have "\<not> hd zs < a" unfolding zs_def by (rule hd_dropWhile)
    moreover have "hd zs \<le> z"
    proof -
      have "sorted_wrt (before (h_size s)) zs" using r bs by (simp add: ring_def sorted_wrt_append)
      then show ?thesis using that ne by (cases zs) (auto dest!: bspec [of _ _ z] before_less)
    qed
    moreover have zb: "z \<in> set bs" using that bs by simp
    moreover have "a \<noteq> z"
    proof
      assume "a = z"
      then have "z \<in> block (h_size s) a" using posa by (simp add: block_def)
      moreover have "z \<in> block (h_size s) z" using pos [OF zb] by (simp add: block_def)
      ultimately show False using dis [OF zb] by blast
    qed
    ultimately have "a < z" by simp
    then show ?thesis using interval_disjoint dis [OF zb] pos [OF zb] posa by (simp add: block_def)
  qed
  show ?thesis by (rule that [OF bs]) (use y z in blast)+
qed

definition merge_up :: "kheap \<Rightarrow> nat \<Rightarrow> nat list \<Rightarrow> bool" where
  "merge_up s a zs \<longleftrightarrow> zs \<noteq> [] \<and> a + h_size s a * HEADER_SIZE = hd zs"

definition grown :: "kheap \<Rightarrow> nat \<Rightarrow> nat list \<Rightarrow> nat" where
  "grown s a zs = h_size s a + (if merge_up s a zs then h_size s (hd zs) else 0)"

definition above :: "kheap \<Rightarrow> nat \<Rightarrow> nat list \<Rightarrow> nat list" where
  "above s a zs = (if merge_up s a zs then tl zs else zs)"

definition merge_low :: "kheap \<Rightarrow> nat \<Rightarrow> nat list \<Rightarrow> bool" where
  "merge_low s a ys \<longleftrightarrow> ys \<noteq> [] \<and> last ys + h_size s (last ys) * HEADER_SIZE = a"

lemma ring_parts:
  assumes "ring s (ys @ zs)"
  shows "linked (h_next s) (h_base s # (ys @ zs) @ [h_base s])"
    and "sorted_wrt (before (h_size s)) ((ys @ zs) @ [h_base s])"
    and "sorted_wrt (<) ((ys @ zs) @ [h_base s])"
    and "\<And>x. x \<in> set ys \<union> set zs \<Longrightarrow> 0 < h_size s x"
    and "h_size s (h_base s) = 0" and "freelist s \<in> set (h_base s # ys @ zs)"
    and "distinct (h_base s # ys @ zs)"
proof -
  show l: "linked (h_next s) (h_base s # (ys @ zs) @ [h_base s])" and 1: "sorted_wrt (before (h_size s)) ((ys @ zs) @ [h_base s])"
    and "h_size s (h_base s) = 0" and "freelist s \<in> set (h_base s # ys @ zs)"
    and "\<And>x. x \<in> set ys \<union> set zs \<Longrightarrow> 0 < h_size s x"
    using assms by (auto simp: ring_def)
  show 2: "sorted_wrt (<) ((ys @ zs) @ [h_base s])" by (rule sorted_wrt_mono_rel [OF _ 1]) (rule before_less)
  show "distinct (h_base s # ys @ zs)" using before_distinct [OF 1] by auto
qed

lemma kfree_link_fields:
  assumes r: "ring s (ys @ zs)" and a: "a \<notin> set (h_base s # ys @ zs)" "before (h_size s) a (h_base s)"
  defines "p \<equiv> last (h_base s # ys)"
  defines "s' \<equiv> kfree_link a p s"
  shows "h_next s' = (h_next s)(a := hd (above s a zs @ [h_base s]),
            p := (if merge_low s a ys then hd (above s a zs @ [h_base s]) else a))"
    and "h_size s' = (if merge_low s a ys then (h_size s)(a := grown s a zs, p := h_size s p + grown s a zs)
            else (h_size s)(a := grown s a zs))"
    and "freelist s' = p" "h_base s' = h_base s" "h_pmm s' = h_pmm s" "h_data s' = h_data s"
proof -
  note R = ring_parts [OF r]
  have pa: "p \<noteq> a" using a(1) last_in_set [of "h_base s # ys"] unfolding p_def by (metis UnCI append_Cons list.distinct(1) set_append)
  have np: "h_next s p = hd (zs @ [h_base s])"
  proof -
    have e: "h_base s # ys = butlast (h_base s # ys) @ [p]" unfolding p_def by (simp only: append_butlast_last_id list.distinct not_False_eq_True)
    have "linked (h_next s) ((h_base s # ys) @ zs @ [h_base s])" using R(1) by simp
    then have "linked (h_next s) (butlast (h_base s # ys) @ p # zs @ [h_base s])" using e by (metis append.assoc append_Cons append_Nil)
    then have "linked (h_next s) (p # zs @ [h_base s])" by (rule linked_right)
    then show ?thesis by (rule linked_hd)
  qed
  have up: "a + h_size s a * HEADER_SIZE = h_next s p \<longleftrightarrow> merge_up s a zs"
    using a(2) by (cases zs) (auto simp: np merge_up_def before_def)
  have nq: "h_next s (h_next s p) = hd (tl zs @ [h_base s])" "h_next s p = hd zs" if mu: "merge_up s a zs"
  proof -
    obtain q qs where q: "zs = q # qs" using mu by (cases zs) (auto simp: merge_up_def)
    then have "linked (h_next s) ((h_base s # ys) @ q # qs @ [h_base s])" using R(1) by simp
    then have "linked (h_next s) (q # qs @ [h_base s])" by (rule linked_right)
    then show "h_next s (h_next s p) = hd (tl zs @ [h_base s])" "h_next s p = hd zs" using q np by (auto dest: linked_hd)
  qed
  have low: "p + h_size s p * HEADER_SIZE = a \<longleftrightarrow> merge_low s a ys"
    using a(2) R(5) unfolding p_def by (auto simp: merge_low_def before_def)
  show "h_next s' = (h_next s)(a := hd (above s a zs @ [h_base s]),
            p := (if merge_low s a ys then hd (above s a zs @ [h_base s]) else a))"
    and "h_size s' = (if merge_low s a ys then (h_size s)(a := grown s a zs, p := h_size s p + grown s a zs)
            else (h_size s)(a := grown s a zs))"
    using pa low np nq unfolding s'_def kfree_link_def Let_def up above_def grown_def
    by (cases "merge_up s a zs"; cases "merge_low s a ys"; simp)+
  show "freelist s' = p" "h_base s' = h_base s" "h_pmm s' = h_pmm s" "h_data s' = h_data s"
    by (simp_all add: s'_def kfree_link_def Let_def)
qed

lemma grown_end:
  assumes r: "ring s (ys @ zs)" and Z: "\<forall>z\<in>set zs. a + h_size s a * HEADER_SIZE \<le> z"
    and below: "before (h_size s) a (h_base s)" and x: "x \<in> set (above s a zs @ [h_base s])"
  shows "a + grown s a zs * HEADER_SIZE < x"
proof (cases "merge_up s a zs")
  case True
  then obtain q qs where q: "zs = q # qs" "a + h_size s a * HEADER_SIZE = q" by (cases zs) (auto simp: merge_up_def)
  have "before (h_size s) q x" using ring_parts(2) [OF r] x True q(1) by (auto simp: above_def sorted_wrt_append)
  then show ?thesis using True q by (simp add: grown_def before_def algebra_simps)
next
  case False
  then have g: "grown s a zs = h_size s a" by (simp add: grown_def)
  show ?thesis
  proof (cases "x = h_base s")
    case True then show ?thesis using below g by (simp add: before_def)
  next
    case ne: False
    then obtain q qs where q: "zs = q # qs" using x False by (cases zs) (auto simp: above_def)
    have "a + h_size s a * HEADER_SIZE < q" using False Z q by (auto simp: merge_up_def order_le_less)
    moreover have "q \<le> x" using ring_parts(3) [OF r] x q ne False by (auto simp: above_def sorted_wrt_append)
    ultimately show ?thesis using g by simp
  qed
qed

lemma before_cong: "sz x = sz' x \<Longrightarrow> before sz x y = before sz' x y"
  by (simp add: before_def)

lemma sorted_before_cong:
  "sorted_wrt (before sz) xs \<Longrightarrow> (\<And>x. x \<in> set xs \<Longrightarrow> sz' x = sz x) \<Longrightarrow> sorted_wrt (before sz') xs"
  by (erule sorted_wrt_mono_rel [rotated]) (simp add: before_def)

lemma above_set: "set (above s a zs) \<subseteq> set zs"
  by (cases zs) (auto simp: above_def)

lemma above_suffix: "\<exists>ws. zs = ws @ above s a zs"
  by (cases zs) (auto simp: above_def intro: exI [of _ "[hd zs]"])

text \<open>The list after linking a block in.\<close>

lemma kfree_link_low:
  assumes r: "ring s ((us @ [p]) @ zs)" and low: "merge_low s a (us @ [p])"
    and Z: "\<forall>z\<in>set zs. a + h_size s a * HEADER_SIZE \<le> z"
    and below: "before (h_size s) a (h_base s)" and a: "a \<notin> set (h_base s # (us @ [p]) @ zs)"
  shows "ring (kfree_link a p s) ((us @ [p]) @ above s a zs)"
    and "\<forall>x\<in>set us \<union> set (above s a zs) \<union> {h_base s}. h_size (kfree_link a p s) x = h_size s x"
    and "h_size (kfree_link a p s) p = h_size s p + grown s a zs"
proof -
  let ?s = "kfree_link a p s" and ?zs = "above s a zs" and ?b = "h_base s"
  note R = ring_parts [OF r] and E = grown_end [OF r Z below]
  have l: "last (?b # us @ [p]) = p" by simp
  note F = kfree_link_fields [OF r a below, unfolded l]
  have pe: "p + h_size s p * HEADER_SIZE = a" using low by (simp add: merge_low_def)
  have S: "h_size ?s = (h_size s)(a := grown s a zs, p := h_size s p + grown s a zs)" using F(2) low by simp
  have ne: "x \<noteq> a \<and> x \<noteq> p" if "x \<in> set us \<union> set ?zs \<union> {?b}" for x
    using that a R(7) above_set [of s a zs] by auto
  then show same: "\<forall>x\<in>set us \<union> set ?zs \<union> {?b}. h_size ?s x = h_size s x" using S by simp
  show sp: "h_size ?s p = h_size s p + grown s a zs" using S by simp
  obtain ws where ws: "zs = ws @ ?zs" using above_suffix by blast
  have nx: "\<forall>x\<in>set (butlast (?b # us @ [p])) \<union> set ?zs. h_next ?s x = h_next s x"
    "h_next ?s (last (?b # us @ [p])) = hd (?zs @ [?b])"
    using F(1) low ne by (auto simp: butlast_append)
  have "linked (h_next s) (?b # ((us @ [p]) @ ws @ ?zs) @ [?b])" using R(1) ws by metis
  from linked_skip [OF this nx] have L: "linked (h_next ?s) (?b # ((us @ [p]) @ ?zs) @ [?b])" .
  have srt: "sorted_wrt (before (h_size s)) (us @ p # ws @ ?zs @ [?b])" using R(2) ws by (metis append.assoc append_Cons append_Nil)
  have "sorted_wrt (before (h_size ?s)) (us @ ?zs @ [?b])"
    by (rule sorted_before_cong [of "h_size s"]) (use srt same in \<open>auto simp: sorted_wrt_append\<close>)
  moreover have "\<forall>x\<in>set us. before (h_size ?s) x p"
    using srt same by (auto simp: sorted_wrt_append before_def)
  moreover have "\<forall>x\<in>set (?zs @ [?b]). before (h_size ?s) p x"
  proof
    fix x assume "x \<in> set (?zs @ [?b])"
    then show "before (h_size ?s) p x" using E [of x] pe sp by (simp add: before_def algebra_simps)
  qed
  ultimately have "sorted_wrt (before (h_size ?s)) (((us @ [p]) @ ?zs) @ [?b])" by (simp add: sorted_wrt_append)
  moreover have "\<forall>x\<in>set ((us @ [p]) @ ?zs). 0 < h_size ?s x"
    using same sp R(4) above_set [of s a zs] by auto
  ultimately show "ring ?s ((us @ [p]) @ ?zs)" using L F(3,4) same R(5) by (simp add: ring_def)
qed

lemma kfree_link_new:
  assumes r: "ring s (ys @ zs)" and low: "\<not> merge_low s a ys"
    and Y: "\<forall>y\<in>set ys. y + h_size s y * HEADER_SIZE \<le> a"
    and Z: "\<forall>z\<in>set zs. a + h_size s a * HEADER_SIZE \<le> z" and pos: "0 < h_size s a"
    and below: "before (h_size s) a (h_base s)" and a: "a \<notin> set (h_base s # ys @ zs)"
  shows "ring (kfree_link a (last (h_base s # ys)) s) (ys @ a # above s a zs)"
    and "h_size (kfree_link a (last (h_base s # ys)) s) = (h_size s)(a := grown s a zs)"
proof -
  let ?s = "kfree_link a (last (h_base s # ys)) s" and ?zs = "above s a zs" and ?b = "h_base s"
  note R = ring_parts [OF r] and E = grown_end [OF r Z below] and F = kfree_link_fields [OF r a below]
  show S: "h_size ?s = (h_size s)(a := grown s a zs)" using F(2) low by simp
  obtain ws where ws: "zs = ws @ ?zs" using above_suffix by blast
  have pm: "last (?b # ys) \<in> set (?b # ys)" by (rule last_in_set) simp
  have d: "distinct (?b # ys)" using R(7) by simp
  have nb: "last (?b # ys) \<notin> set (butlast (?b # ys))"
    using d by (metis append_butlast_last_id distinct_append distinct.simps(2) disjoint_iff list.distinct(1) list.set_intros(1))
  have "set (?b # ys) \<inter> set zs = {}" using R(7) by auto
  then have nz: "last (?b # ys) \<notin> set ?zs" using pm above_set [of s a zs] by blast
  have na: "a \<notin> set (butlast (?b # ys))" "a \<notin> set ?zs" "a \<noteq> last (?b # ys)"
    using a above_set [of s a zs] pm by (auto dest: in_set_butlastD simp del: butlast.simps)
  have nx: "\<forall>x\<in>set (butlast (?b # ys)) \<union> set ?zs. h_next ?s x = h_next s x"
    "h_next ?s (last (?b # ys)) = a" "h_next ?s a = hd (?zs @ [?b])"
    unfolding F(1) using low nb nz na by (auto simp del: butlast.simps last.simps)
  have "linked (h_next s) (?b # (ys @ ws @ ?zs) @ [?b])" using R(1) ws by metis
  from linked_put [OF this nx] have L: "linked (h_next ?s) (?b # (ys @ a # ?zs) @ [?b])" .
  have srt: "sorted_wrt (before (h_size s)) (ys @ ws @ ?zs @ [?b])" using R(2) ws by (metis append.assoc)
  have "sorted_wrt (before (h_size ?s)) (ys @ ?zs @ [?b])"
    by (rule sorted_before_cong [of "h_size s"]) (use srt S a above_set [of s a zs] in \<open>auto simp: sorted_wrt_append\<close>)
  moreover have "before (h_size ?s) y a" if y: "y \<in> set ys" for y
  proof -
    have "y + h_size s y * HEADER_SIZE \<noteq> a"
    proof
      assume e: "y + h_size s y * HEADER_SIZE = a"
      have "y \<noteq> last ys" using low e y by (auto simp: merge_low_def)
      then obtain us where us: "ys = us @ [last ys]" "y \<in> set us"
        using y by (metis append_butlast_last_id empty_iff in_set_conv_decomp_last list.set(1) rotate1.simps(2) set_ConsD set_rotate1 Un_iff set_append)
      then have "before (h_size s) y (last ys)" using srt by (metis sorted_wrt_append list.set_intros(1))
      moreover have "last ys \<in> set ys" using us(1) by (metis in_set_conv_decomp)
      ultimately show False using e Y by (auto simp: before_def)
    qed
    then show ?thesis using Y y S a by (auto simp: before_def order_le_less)
  qed
  moreover have "\<forall>x\<in>set (?zs @ [?b]). before (h_size ?s) a x" using E S by (simp add: before_def)
  ultimately have "sorted_wrt (before (h_size ?s)) ((ys @ a # ?zs) @ [?b])" by (simp add: sorted_wrt_append)
  moreover have "\<forall>x\<in>set (ys @ a # ?zs). 0 < h_size ?s x"
    using S R(4) pos above_set [of s a zs] by (auto simp: grown_def)
  moreover have "h_size ?s ?b = 0" using S a R(5) by simp
  moreover have "freelist ?s \<in> set (?b # ys)" using F(3) pm by simp
  ultimately show "ring ?s (ys @ a # ?zs)" using L F(4) by (auto simp: ring_def)
qed

lemma grown_bytes:
  "{a..<a + grown s a zs * HEADER_SIZE} \<union> (\<Union>z\<in>set (above s a zs). block (h_size s) z)
   = block (h_size s) a \<union> (\<Union>z\<in>set zs. block (h_size s) z)"
proof (cases "merge_up s a zs")
  case True
  then obtain q qs where q: "zs = q # qs" "q = a + h_size s a * HEADER_SIZE" by (cases zs) (auto simp: merge_up_def)
  have "{a..<a + grown s a zs * HEADER_SIZE} = block (h_size s) a \<union> block (h_size s) q"
    using True q by (auto simp: grown_def block_def algebra_simps)
  then show ?thesis using True q(1) by (auto simp: above_def)
qed (simp add: grown_def above_def block_def)

lemma un_regroup:
  "G \<union> W = B \<union> Z \<Longrightarrow> A \<union> (P \<union> G) \<union> W = A \<union> P \<union> Z \<union> B"
  "G \<union> W = B \<union> Z \<Longrightarrow> A \<union> (G \<union> W) = A \<union> Z \<union> B"
  by blast+

lemma apart_notin:
  assumes "ring s bs" "apart s bs a" shows "a \<notin> set (h_base s # bs)"
proof -
  have "a \<in> block (h_size s) a" using assms(2) by (simp add: apart_def self_in_block)
  moreover have "a \<noteq> h_base s" using assms(2) by (auto simp: apart_def before_def)
  ultimately show ?thesis using assms(2) by (auto simp: apart_def free_bytes_def)
qed

lemma kfree_ring:
  assumes r: "ring s bs" and a: "apart s bs a"
  obtains s' bs' where "kfree (a + HEADER_SIZE) s = Some s'" "ring s' bs'"
    "free_bytes s' bs' = free_bytes s bs \<union> block (h_size s) a"
    "\<exists>x\<in>set bs'. h_size s a \<le> h_size s' x"
    "\<forall>x. x \<notin> free_bytes s bs \<union> block (h_size s) a \<longrightarrow> h_size s' x = h_size s x"
    "h_base s' = h_base s" "h_pmm s' = h_pmm s" "h_data s' = h_data s"
proof -
  obtain ys zs where bs: "bs = ys @ zs" and Y: "\<forall>y\<in>set ys. y + h_size s y * HEADER_SIZE \<le> a"
    and Z: "\<forall>z\<in>set zs. a + h_size s a * HEADER_SIZE \<le> z" by (rule apart_split [OF r a])
  have r': "ring s (ys @ zs)" using r bs by simp
  note R = ring_parts [OF r']
  have pos: "0 < h_size s a" and below: "before (h_size s) a (h_base s)" using a by (simp_all add: apart_def)
  have na: "a \<notin> set (h_base s # ys @ zs)" using apart_notin [OF r a] bs by simp
  define p where "p = last (h_base s # ys)"
  let ?b = "h_base s" and ?s = "kfree_link a p s"
  have "\<forall>y\<in>set ys. y < a"
  proof
    fix y assume "y \<in> set ys"
    then have "0 < h_size s y" "y + h_size s y * HEADER_SIZE \<le> a" using R(4) Y by auto
    then show "y < a" by (simp add: HEADER_SIZE_def)
  qed
  moreover have "\<forall>z\<in>set zs. a < z" using Z pos by (auto simp: HEADER_SIZE_def)
  moreover have "a < ?b" using before_less [OF below] .
  ultimately have find: "kfree_find a (h_next s) (freelist s) = Some p"
    unfolding p_def using kfree_find_ring [OF R(1,3)] R(6) by blast
  have k: "kfree (a + HEADER_SIZE) s = Some ?s" using find by (simp add: kfree_def HEADER_SIZE_def)
  note F = kfree_link_fields [OF r' na below, folded p_def]
  have frees: "free_bytes s bs = (\<Union>y\<in>set ys. block (h_size s) y) \<union> (\<Union>z\<in>set zs. block (h_size s) z)"
    using bs by (simp add: free_bytes_def)
  show thesis
  proof (cases "merge_low s a ys")
    case True
    then obtain us where us: "ys = us @ [p]" by (cases ys rule: rev_cases) (auto simp: merge_low_def p_def)
    have lo: "merge_low s a (us @ [p])" and na': "a \<notin> set (?b # (us @ [p]) @ zs)" and ru: "ring s ((us @ [p]) @ zs)"
      using True na r' us by metis+
    note L = kfree_link_low [OF ru lo Z below na']
    have pe: "p + h_size s p * HEADER_SIZE = a" using lo by (simp add: merge_low_def)
    have bp: "block (h_size ?s) p = block (h_size s) p \<union> {a..<a + grown s a zs * HEADER_SIZE}"
    proof -
      have "p + h_size ?s p * HEADER_SIZE = a + grown s a zs * HEADER_SIZE" "p \<le> a" using L(3) pe by (simp_all add: algebra_simps)
      then show ?thesis unfolding block_def pe by auto
    qed
    have same: "block (h_size ?s) x = block (h_size s) x" if "x \<in> set us \<union> set (above s a zs)" for x
      using L(2) that by (simp add: block_def)
    have fr: "free_bytes s bs = (\<Union>y\<in>set us. block (h_size s) y) \<union> block (h_size s) p \<union> (\<Union>z\<in>set zs. block (h_size s) z)"
      using frees us by (metis UN_insert UN_empty UN_Un Un_empty_right list.set(1) list.set(2) set_append)
    have "free_bytes ?s ((us @ [p]) @ above s a zs)
        = (\<Union>y\<in>set us. block (h_size s) y) \<union> block (h_size ?s) p \<union> (\<Union>z\<in>set (above s a zs). block (h_size s) z)"
      using same by (simp add: free_bytes_def Un_ac)
    then have fb: "free_bytes ?s ((us @ [p]) @ above s a zs) = free_bytes s bs \<union> block (h_size s) a"
      unfolding bp fr using un_regroup(1) [OF grown_bytes] by simp
    have "p \<in> set ys" using us by (metis in_set_conv_decomp)
    then have "p \<in> free_bytes s bs" using R(4) bs by (auto simp: free_bytes_def intro!: bexI [of _ p] self_in_block)
    moreover have "a \<in> block (h_size s) a" by (rule self_in_block [of "h_size s", OF pos])
    ultimately have "\<forall>x. x \<notin> free_bytes s bs \<union> block (h_size s) a \<longrightarrow> h_size ?s x = h_size s x"
      using F(2) True by auto
    moreover have "h_size s a \<le> h_size ?s p" using L(3) by (simp add: grown_def)
    then have "\<exists>x\<in>set ((us @ [p]) @ above s a zs). h_size s a \<le> h_size ?s x" by auto
    ultimately show thesis using that [OF k L(1) fb] F(4,5,6) by blast
  next
    case False
    note L = kfree_link_new [OF r' False Y Z pos below na, folded p_def]
    have ba: "block (h_size ?s) a = {a..<a + grown s a zs * HEADER_SIZE}" by (simp add: block_def L(2))
    have same: "block (h_size ?s) x = block (h_size s) x" if "x \<in> set ys \<union> set (above s a zs)" for x
    proof -
      have "x \<noteq> a" using that na above_set [of s a zs] by auto
      then show ?thesis using L(2) by (simp add: block_def)
    qed
    have "free_bytes ?s (ys @ a # above s a zs)
        = (\<Union>y\<in>set ys. block (h_size s) y) \<union> (block (h_size ?s) a \<union> (\<Union>z\<in>set (above s a zs). block (h_size s) z))"
      using same by (simp add: free_bytes_def Un_ac)
    then have fb: "free_bytes ?s (ys @ a # above s a zs) = free_bytes s bs \<union> block (h_size s) a"
      unfolding ba frees using un_regroup(2) [OF grown_bytes] by simp
    have "a \<in> block (h_size s) a" by (rule self_in_block [of "h_size s", OF pos])
    then have "\<forall>x. x \<notin> free_bytes s bs \<union> block (h_size s) a \<longrightarrow> h_size ?s x = h_size s x" using L(2) by auto
    moreover have "h_size s a \<le> h_size ?s a" using L(2) by (simp add: grown_def)
    then have "\<exists>x\<in>set (ys @ a # above s a zs). h_size s a \<le> h_size ?s x" by auto
    ultimately show thesis using that [OF k L(1) fb] F(4,5,6) by blast
  qed
qed

subsection \<open>Taking a block\<close>

lemma ring_pred:
  assumes r: "linked nx (b # (ys @ p # zs) @ [b])" "sorted_wrt (<) ((ys @ p # zs) @ [b])" "distinct (b # ys @ p # zs)"
    and prev: "x \<in> set (b # ys @ p # zs)" "nx x = p"
  shows "x = last (b # ys)"
proof -
  consider "x = b" | "x \<in> set ys" | "x \<in> set (p # zs)" using prev(1) by auto
  then show ?thesis
  proof cases
    case 1
    then have "hd ((ys @ p # zs) @ [b]) = p" using linked_hd [OF r(1)] prev(2) by simp
    then show ?thesis using 1 r(3) by (cases ys) auto
  next
    case 2
    then obtain a c where ys: "ys = a @ x # c" by (meson split_list)
    then have "hd ((c @ p # zs) @ [b]) = p" using ring_next(1) [of nx b a x "c @ p # zs"] r prev(2) by simp
    then have "c = []" using r(3) ys by (cases c) auto
    then show ?thesis using ys by simp
  next
    case 3
    then obtain a c where zs: "p # zs = a @ x # c" by (meson split_list)
    then have "hd (c @ [b]) = p" using ring_next(1) [of nx b "ys @ a" x c] r prev(2) by simp
    moreover have "hd (c @ [b]) \<in> set zs \<union> {b}" using zs by (cases a; cases c) auto
    ultimately show ?thesis using r(3) by auto
  qed
qed

lemma free_bytes_split:
  assumes "ring s (ys @ p # zs)"
  shows "free_bytes s (ys @ zs) = free_bytes s (ys @ p # zs) - block (h_size s) p"
proof -
  have "block (h_size s) x \<inter> block (h_size s) p = {}" if "x \<in> set (ys @ zs)" for x
  proof -
    have "before (h_size s) x p \<or> before (h_size s) p x" using that ring_parts(2) [OF assms] by (auto simp: sorted_wrt_append)
    then show ?thesis using before_disjoint [of "h_size s"] by (metis Int_commute)
  qed
  then show ?thesis by (auto simp: free_bytes_def)
qed

definition taken :: "nat \<Rightarrow> kheap \<Rightarrow> nat list \<Rightarrow> nat \<Rightarrow> kheap \<Rightarrow> nat list \<Rightarrow> bool" where
  "taken n s bs q s' bs' \<longleftrightarrow> ring s' bs' \<and> h_size s' q = n \<and> block (h_size s') q \<subseteq> free_bytes s bs
     \<and> free_bytes s' bs' = free_bytes s bs - block (h_size s') q \<and> apart s' bs' q
     \<and> (\<forall>x. x \<notin> free_bytes s bs \<longrightarrow> h_size s' x = h_size s x)
     \<and> h_base s' = h_base s \<and> h_pmm s' = h_pmm s \<and> h_data s' = h_data s"

lemma kmalloc_take_exact:
  assumes r: "ring s (ys @ p # zs)" and n: "h_size s p = n"
  shows "\<exists>s'. kmalloc_take n (last (h_base s # ys)) p s = (p + HEADER_SIZE, s') \<and> taken n s (ys @ p # zs) p s' (ys @ zs)"
proof -
  let ?b = "h_base s" and ?v = "last (h_base s # ys)"
  let ?s = "s\<lparr>h_next := (h_next s)(?v := h_next s p), freelist := ?v\<rparr>"
  note R = ring_parts [OF r]
  have k: "kmalloc_take n ?v p s = (p + HEADER_SIZE, ?s)" using n by (simp add: kmalloc_take_def)
  have vm: "?v \<in> set (?b # ys)" by (rule last_in_set) simp
  have nb: "?v \<notin> set (butlast (?b # ys))"
    using R(7) by (metis append_Cons append_butlast_last_id distinct_append distinct.simps(2) disjoint_iff list.distinct(1) list.set_intros(1))
  have "set (?b # ys) \<inter> set zs = {}" using R(7) by auto
  then have nz: "?v \<notin> set zs" using vm by blast
  have np: "h_next s p = hd (zs @ [?b])" using ring_next(1) R(1,3) by blast
  have "linked (h_next s) (?b # (ys @ [p] @ zs) @ [?b])" using R(1) by simp
  from linked_skip [OF this, of "h_next ?s"] nb nz np
  have L: "linked (h_next ?s) (?b # (ys @ zs) @ [?b])" by (auto simp del: butlast.simps last.simps)
  have ring': "ring ?s (ys @ zs)"
    using L R(2,4,5) vm by (auto simp: ring_def sorted_wrt_append)
  have fb: "free_bytes ?s (ys @ zs) = free_bytes s (ys @ p # zs) - block (h_size s) p"
    using free_bytes_split [OF r] by (simp add: free_bytes_def)
  have "before (h_size s) p ?b" using R(2) by (simp add: sorted_wrt_append)
  then have "apart ?s (ys @ zs) p" using fb R(4) by (auto simp: apart_def)
  then have "taken n s (ys @ p # zs) p ?s (ys @ zs)"
    using ring' fb n by (auto simp: taken_def free_bytes_def)
  then show ?thesis using k by blast
qed

lemma kmalloc_take_tail:
  assumes r: "ring s (ys @ p # zs)" and m: "h_size s p = m + n" "0 < m" "0 < n" and v: "v \<in> set (h_base s # ys @ p # zs)"
  defines "q \<equiv> p + m * HEADER_SIZE"
  shows "\<exists>s'. kmalloc_take n v p s = (q + HEADER_SIZE, s') \<and> taken n s (ys @ p # zs) q s' (ys @ p # zs)"
proof -
  let ?b = "h_base s" and ?bs = "ys @ p # zs"
  let ?S = "(h_size s)(p := m, q := n)"
  let ?s = "s\<lparr>h_size := ?S, freelist := v\<rparr>"
  note R = ring_parts [OF r]
  have k: "kmalloc_take n v p s = (q + HEADER_SIZE, ?s)" using m by (simp add: kmalloc_take_def q_def Let_def)
  have pq: "p < q" and qe: "q + n * HEADER_SIZE = p + h_size s p * HEADER_SIZE"
    using m by (simp_all add: q_def HEADER_SIZE_def algebra_simps)
  have pb: "before (h_size s) p ?b" using R(2) by (simp add: sorted_wrt_append)
  then have qb: "q + n * HEADER_SIZE < ?b" using qe by (simp add: before_def)
  have qin: "q \<in> block (h_size s) p" using pq qe m(3) by (auto simp: block_def HEADER_SIZE_def)
  have blocks: "block ?S p \<union> block ?S q = block (h_size s) p" "block ?S p \<inter> block ?S q = {}"
    using pq qe by (auto simp: block_def q_def)
  have rest: "free_bytes s ?bs = free_bytes s (ys @ zs) \<union> block (h_size s) p" by (auto simp: free_bytes_def)
  have dis: "free_bytes s (ys @ zs) \<inter> block (h_size s) p = {}" using free_bytes_split [OF r] by auto
  have other: "?S x = h_size s x" if x: "x \<in> set (ys @ zs)" for x
  proof -
    have "0 < h_size s x" using R(4) x by simp
    then have "x \<in> free_bytes s (ys @ zs)" using x self_in_block [of "h_size s" x] by (auto simp: free_bytes_def)
    moreover have "p \<in> block (h_size s) p" using m by (simp add: self_in_block)
    ultimately have "x \<noteq> p" "x \<noteq> q" using dis qin by auto
    then show ?thesis by simp
  qed
  have base0: "?S ?b = 0" using R(5) qb pb by (auto simp: before_def)
  have sp: "?S p = m" "?S q = n" using pq by simp_all
  have "sorted_wrt (before ?S) (?bs @ [?b])"
  proof (rule sorted_wrt_mono_rel [OF _ R(2)])
    fix x y assume x: "x \<in> set (?bs @ [?b])" and b: "before (h_size s) x y"
    consider "x \<in> set (ys @ zs)" | "x = p" | "x = ?b" using x by auto
    then show "before ?S x y"
    proof cases
      case 1 then show ?thesis using b other [OF 1] by (simp only: before_def)
    next
      case 2 then show ?thesis using b m sp by (simp add: before_def algebra_simps)
    next
      case 3 then show ?thesis using b R(5) base0 by (simp only: before_def)
    qed
  qed
  moreover have "\<forall>x\<in>set ?bs. 0 < ?S x" using other R(4) sp(1) m(2) by auto
  ultimately have ring': "ring ?s ?bs" using R(1) base0 v by (auto simp: ring_def)
  have others: "(\<Union>x\<in>set (ys @ zs). block ?S x) = free_bytes s (ys @ zs)"
    unfolding free_bytes_def by (rule SUP_cong) (simp_all only: other block_def)
  have "free_bytes ?s ?bs = (\<Union>x\<in>set (ys @ zs). block ?S x) \<union> block ?S p" by (auto simp: free_bytes_def)
  then have fb: "free_bytes ?s ?bs = free_bytes s ?bs - block ?S q" unfolding others rest using blocks dis by blast
  have "apart ?s ?bs q" using fb m(3) sp qb by (auto simp: apart_def before_def)
  moreover have "p \<in> free_bytes s ?bs" "q \<in> free_bytes s ?bs" using rest qin m by (auto simp: self_in_block)
  ultimately have "taken n s ?bs q ?s ?bs"
    using ring' fb sp blocks(1) rest by (auto simp: taken_def)
  then show ?thesis using k by blast
qed

subsection \<open>The search loop of \<open>kmalloc\<close>\<close>

lemma kmalloc_loop_skip:
  "linked (h_next s) (v # pre @ [q]) \<Longrightarrow> (\<forall>x\<in>set pre. h_size s x < n \<and> x \<noteq> freelist s)
   \<Longrightarrow> kmalloc_loop n v (hd (pre @ [q])) s = kmalloc_loop n (last (v # pre)) q s"
proof (induction pre arbitrary: v)
  case (Cons x pre)
  have l: "linked (h_next s) (x # pre @ [q])" using Cons.prems(1) by simp
  then have "h_next s x = hd (pre @ [q])" by (rule linked_hd)
  then have "kmalloc_loop n v x s = kmalloc_loop n x (hd (pre @ [q])) s"
    using Cons.prems(2) by (subst kmalloc_loop.simps) (simp add: not_le)
  also have "\<dots> = kmalloc_loop n (last (x # pre)) q s" using Cons.IH [OF l] Cons.prems(2) by simp
  finally show ?case by simp
qed simp

lemma ring_circle:
  assumes "ring s bs"
  obtains rest where "linked (h_next s) (freelist s # rest @ [freelist s])" "distinct (freelist s # rest)"
    "set (freelist s # rest) = set (h_base s # bs)"
proof -
  have r: "ring s (bs @ [])" using assms by simp
  note R = ring_parts [OF r]
  show thesis using ring_from [of "h_next s" "h_base s" bs "freelist s"] R(1,6,7) that by auto
qed

lemma kmalloc_loop_found:
  assumes r: "ring s bs" and x: "x \<in> set bs" "n \<le> h_size s x" and n: "0 < n"
  shows "\<exists>q s' bs'. kmalloc_loop n (freelist s) (h_next s (freelist s)) s = Some (q + HEADER_SIZE, s')
           \<and> taken n s bs q s' bs'"
proof -
  let ?f = "freelist s" and ?fit = "\<lambda>x. n \<le> h_size s x"
  obtain rest where rest: "linked (h_next s) (?f # rest @ [?f])" "distinct (?f # rest)"
    "set (?f # rest) = set (h_base s # bs)" by (rule ring_circle [OF r])
  have all: "set (rest @ [?f]) = set (h_base s # bs)" using rest(3) by auto
  then have "\<exists>x\<in>set (rest @ [?f]). ?fit x" using x by auto
  from split_list_first_prop [OF this] obtain pre q post where q: "rest @ [?f] = pre @ q # post" "?fit q" "\<forall>x\<in>set pre. \<not> ?fit x"
    by blast
  have pre: "\<forall>x\<in>set pre. x \<noteq> ?f"
  proof (cases post rule: rev_cases)
    case Nil then show ?thesis using q(1) rest(2) by auto
  next
    case (snoc us u) then show ?thesis using q(1) rest(2) by auto
  qed
  define v where "v = last (?f # pre)"
  have l: "linked (h_next s) ((?f # pre) @ q # post)" using rest(1) q(1) by simp
  have lv: "linked (h_next s) (?f # pre @ [q])" using linked_left [OF l] by simp
  have vm: "v \<in> set (?f # pre)" unfolding v_def by (rule last_in_set) simp
  have vm': "v \<in> set (h_base s # bs)"
  proof -
    have "set pre \<subseteq> set (rest @ [?f])" using q(1) by auto
    moreover have "?f \<in> set (rest @ [?f])" by simp
    ultimately show ?thesis using vm all by auto
  qed
  have nv: "h_next s v = q"
  proof -
    have "(?f # pre) @ q # post = (butlast (?f # pre) @ [v]) @ q # post"
      unfolding v_def by (simp only: append_butlast_last_id list.distinct not_False_eq_True)
    then have "(?f # pre) @ q # post = butlast (?f # pre) @ v # q # post" by (simp del: butlast.simps)
    then show ?thesis using l linked_next by metis
  qed
  have "h_next s ?f = hd (pre @ [q])" using lv by (rule linked_hd)
  then have "kmalloc_loop n ?f (h_next s ?f) s = kmalloc_loop n v q s"
    using kmalloc_loop_skip [OF lv, of n] q(3) pre unfolding v_def by (simp add: not_le)
  also have "\<dots> = Some (kmalloc_take n v q s)" using q(2) by (subst kmalloc_loop.simps) simp
  finally have k: "kmalloc_loop n ?f (h_next s ?f) s = Some (kmalloc_take n v q s)" .
  have "q \<noteq> h_base s" using q(2) n r by (auto simp: ring_def)
  moreover have "q \<in> set (h_base s # bs)" using all q(1) by auto
  ultimately have "q \<in> set bs" by simp
  then obtain ys zs where bs: "bs = ys @ q # zs" by (meson split_list)
  note R = ring_parts [OF r [unfolded bs]]
  have vl: "v = last (h_base s # ys)"
    by (rule ring_pred [OF R(1,3,7) _ nv]) (use vm' bs in simp)
  show ?thesis
  proof (cases "h_size s q = n")
    case True
    then show ?thesis using kmalloc_take_exact [OF r [unfolded bs] True] k vl bs by auto
  next
    case False
    obtain m where m: "h_size s q = m + n" using q(2) by (metis le_add_diff_inverse2)
    then have "0 < m" using False by simp
    from kmalloc_take_tail [OF r [unfolded bs] m this n, of v] show ?thesis using k vm' bs by auto
  qed
qed

lemma kmalloc_loop_none:
  assumes r: "ring s bs" and small: "\<forall>x\<in>set bs. h_size s x < n" and n: "0 < n"
  shows "kmalloc_loop n (freelist s) (h_next s (freelist s)) s
    = Option.bind (morecore n s) (\<lambda>r. if fst r = 0 then Some (0, snd r)
        else kmalloc_loop n (fst r) (h_next (snd r) (fst r)) (snd r))"
proof -
  let ?f = "freelist s"
  obtain rest where rest: "linked (h_next s) (?f # rest @ [?f])" "distinct (?f # rest)"
    "set (?f # rest) = set (h_base s # bs)" by (rule ring_circle [OF r])
  have all: "h_size s x < n" if "x \<in> set (?f # rest)" for x
    using that small n r unfolding rest(3) by (auto simp: ring_def)
  have "h_next s ?f = hd (rest @ [?f])" using rest(1) by (rule linked_hd)
  moreover have "\<forall>x\<in>set rest. h_size s x < n \<and> x \<noteq> ?f" using all rest(2) by auto
  ultimately have "kmalloc_loop n ?f (h_next s ?f) s = kmalloc_loop n (last (?f # rest)) ?f s"
    using kmalloc_loop_skip [OF rest(1)] by metis
  then show ?thesis using all [of ?f] by (subst (asm) (2) kmalloc_loop.simps) simp
qed

subsection \<open>The heap invariant\<close>

text \<open>
  The memory layout: the direct map of all physical pages lies below \<open>base\<close>, and no byte of page 0 is
  handed out. A byte is owned when it lies in the direct map of a page that is not free.
\<close>

definition heap_layout :: "kheap \<Rightarrow> bool" where
  "heap_layout s \<longleftrightarrow> pmm_ready (h_pmm s) \<and> PAGE_SIZE \<le> unat (pmm_hhdm_offset (h_pmm s))
     \<and> unat (pmm_hhdm_offset (h_pmm s)) + pmm_total_pages (h_pmm s) * PAGE_SIZE < h_base s \<and> h_base s < 2 ^ 64"

definition page_at :: "kheap \<Rightarrow> nat \<Rightarrow> nat" where
  "page_at s x = (x - unat (pmm_hhdm_offset (h_pmm s))) div PAGE_SIZE"

definition owned :: "kheap \<Rightarrow> nat \<Rightarrow> bool" where
  "owned s x \<longleftrightarrow> unat (pmm_hhdm_offset (h_pmm s)) \<le> x \<and> page_at s x \<notin> pmm_free_set (h_pmm s)"

definition live_bytes :: "kheap \<Rightarrow> nat set \<Rightarrow> nat set" where
  "live_bytes s L = (\<Union>a\<in>L. block (h_size s) a)"

definition heap_inv :: "kheap \<Rightarrow> nat list \<Rightarrow> nat set \<Rightarrow> bool" where
  "heap_inv s bs L \<longleftrightarrow> ring s bs \<and> heap_layout s \<and> (\<forall>a\<in>L. apart s bs a)
     \<and> (\<forall>a\<in>L. \<forall>c\<in>L. a \<noteq> c \<longrightarrow> block (h_size s) a \<inter> block (h_size s) c = {})
     \<and> (\<forall>x\<in>free_bytes s bs \<union> live_bytes s L. owned s x)"

definition pages_for :: "nat \<Rightarrow> nat" where
  "pages_for n = (max 1024 n * HEADER_SIZE + PAGE_SIZE - 1) div PAGE_SIZE"

lemma ring_cong:
  assumes "ring s bs" "h_next s' = h_next s" "\<forall>x\<in>set (h_base s # bs). h_size s' x = h_size s x"
    and "freelist s' = freelist s" "h_base s' = h_base s"
  shows "ring s' bs"
proof -
  have "sorted_wrt (before (h_size s)) (bs @ [h_base s])" using assms(1) by (simp add: ring_def)
  then have "sorted_wrt (before (h_size s')) (bs @ [h_base s])"
    by (rule sorted_before_cong) (use assms(3) in auto)
  then show ?thesis using assms by (simp add: ring_def)
qed

lemma free_bytes_cong: "(\<forall>x\<in>set bs. h_size s' x = h_size s x) \<Longrightarrow> free_bytes s' bs = free_bytes s bs"
  unfolding free_bytes_def by (rule SUP_cong) (simp_all add: block_def)

lemma ring_member_free: "ring s bs \<Longrightarrow> x \<in> set bs \<Longrightarrow> x \<in> free_bytes s bs"
  using self_in_block [of "h_size s" x] by (auto simp: ring_def free_bytes_def)

lemma pages_for_pos: "4 \<le> pages_for n"
proof -
  have "4 * PAGE_SIZE \<le> max 1024 n * HEADER_SIZE + PAGE_SIZE - 1" by (simp add: HEADER_SIZE_def PAGE_SIZE_def)
  then have "4 * PAGE_SIZE div PAGE_SIZE \<le> pages_for n" unfolding pages_for_def by (rule div_le_mono)
  then show ?thesis by (simp add: PAGE_SIZE_def)
qed

text \<open>The 64-bit arithmetic of \<open>morecore\<close> does not wrap for requests within the memory.\<close>

lemma morecore_npages:
  assumes "pages_for n * PAGE_SIZE + PAGE_SIZE \<le> 2 ^ 64"
  defines "m \<equiv> (if n < 1024 then 1024 else n)"
  defines "np \<equiv> (of_nat m * of_nat HEADER_SIZE + of_nat PAGE_SIZE - 1) div of_nat PAGE_SIZE :: u64"
  shows "unat np = pages_for n"
    and "unat (np * of_nat PAGE_SIZE div of_nat HEADER_SIZE) * HEADER_SIZE = pages_for n * PAGE_SIZE"
    and "n \<le> unat (np * of_nat PAGE_SIZE div of_nat HEADER_SIZE)"
proof -
  have mm: "m = max 1024 n" by (simp add: m_def)
  have bound: "m * HEADER_SIZE + PAGE_SIZE - 1 < pages_for n * PAGE_SIZE + PAGE_SIZE"
    unfolding pages_for_def mm [symmetric]
    using dividend_less_div_times [of PAGE_SIZE "m * HEADER_SIZE + PAGE_SIZE - 1"] by (simp add: PAGE_SIZE_def)
  have e: "of_nat m * of_nat HEADER_SIZE + of_nat PAGE_SIZE - 1 = (of_nat (m * HEADER_SIZE + PAGE_SIZE - 1) :: u64)"
    by (simp add: PAGE_SIZE_def of_nat_diff)
  have "m * HEADER_SIZE + PAGE_SIZE - 1 < 2 ^ 64" using bound assms(1) by linarith
  then have u: "unat (of_nat (m * HEADER_SIZE + PAGE_SIZE - 1) :: u64) = m * HEADER_SIZE + PAGE_SIZE - 1"
    by (simp add: unat_of_nat)
  have p: "unat (of_nat PAGE_SIZE :: u64) = PAGE_SIZE" "unat (of_nat HEADER_SIZE :: u64) = HEADER_SIZE"
    by (simp_all add: PAGE_SIZE_def HEADER_SIZE_def)
  have "unat np = (m * HEADER_SIZE + PAGE_SIZE - 1) div PAGE_SIZE" unfolding np_def e unat_div p u ..
  then show np: "unat np = pages_for n" by (simp only: pages_for_def mm)
  have prod: "unat (np * of_nat PAGE_SIZE) = pages_for n * PAGE_SIZE"
  proof -
    have "unat np * unat (of_nat PAGE_SIZE :: u64) < 2 ^ LENGTH(64)" using assms(1) unfolding np p by (simp add: PAGE_SIZE_def)
    then show ?thesis unfolding unat_word_ariths by (simp add: np p)
  qed
  have q: "unat (np * of_nat PAGE_SIZE div of_nat HEADER_SIZE) = pages_for n * 256"
    unfolding unat_div prod p by (simp add: PAGE_SIZE_def HEADER_SIZE_def)
  then show "unat (np * of_nat PAGE_SIZE div of_nat HEADER_SIZE) * HEADER_SIZE = pages_for n * PAGE_SIZE"
    by (simp add: PAGE_SIZE_def HEADER_SIZE_def)
  have "m * HEADER_SIZE < (pages_for n * 256 + 1) * HEADER_SIZE" using bound by (simp add: PAGE_SIZE_def HEADER_SIZE_def)
  then have "m \<le> pages_for n * 256" by (simp add: HEADER_SIZE_def)
  then show "n \<le> unat (np * of_nat PAGE_SIZE div of_nat HEADER_SIZE)" using q mm by simp
qed

lemma page_in_run:
  assumes "h + p * PAGE_SIZE \<le> x" "x < h + p * PAGE_SIZE + k * PAGE_SIZE"
  shows "(x - h) div PAGE_SIZE \<in> {p..<p + k}" and "h \<le> (x::nat)"
proof -
  have "p * PAGE_SIZE \<le> x - h" "x - h < (p + k) * PAGE_SIZE" using assms by (auto simp: algebra_simps)
  then show "(x - h) div PAGE_SIZE \<in> {p..<p + k}"
    by (simp add: less_mult_imp_div_less div_le_mono [of "p * PAGE_SIZE" "x - h" PAGE_SIZE, simplified] less_eq_div_iff_mult_less_eq PAGE_SIZE_def)
  show "h \<le> x" using assms by simp
qed

lemma live_notin_free:
  assumes "heap_inv s bs L" "a \<in> L"
  shows "a \<notin> free_bytes s bs" "owned s a" "block (h_size s) a \<inter> free_bytes s bs = {}"
    "\<And>x. x \<in> block (h_size s) a \<Longrightarrow> owned s x"
proof -
  have ap: "apart s bs a" using assms by (simp add: heap_inv_def)
  have self: "a \<in> block (h_size s) a" using ap by (simp add: apart_def self_in_block)
  show d: "block (h_size s) a \<inter> free_bytes s bs = {}" using ap by (simp add: apart_def)
  show own: "\<And>x. x \<in> block (h_size s) a \<Longrightarrow> owned s x" using assms by (auto simp: heap_inv_def live_bytes_def)
  show "a \<notin> free_bytes s bs" "owned s a" using self d own by auto
qed

text \<open>Two states whose live blocks have the same sizes have the same live bytes.\<close>

lemma live_same:
  assumes "\<forall>a\<in>L. h_size s' a = h_size s a"
  shows "live_bytes s' L = live_bytes s L" "a \<in> L \<Longrightarrow> block (h_size s') a = block (h_size s) a"
    "a \<in> L \<Longrightarrow> before (h_size s') a b = before (h_size s) a b"
  using assms by (simp_all add: live_bytes_def block_def before_def)

lemma morecore_spec:
  assumes inv: "heap_inv s bs L" and fit: "pages_for n \<le> pmm_total_pages (h_pmm s)"
  shows "morecore n s = Some (0, s) \<or>
    (\<exists>s' bs'. morecore n s = Some (freelist s', s') \<and> freelist s' \<noteq> 0 \<and> heap_inv s' bs' L
       \<and> (\<exists>x\<in>set bs'. n \<le> h_size s' x) \<and> (\<forall>a\<in>L. h_size s' a = h_size s a) \<and> h_data s' = h_data s
       \<and> pmm_total_pages (h_pmm s') = pmm_total_pages (h_pmm s)
       \<and> free_bytes s bs \<subseteq> free_bytes s' bs' \<and> (free_bytes s' bs' - free_bytes s bs) \<inter> live_bytes s L = {})"
proof -
  define m where "m = (if n < 1024 then 1024 else n)"
  define np :: u64 where "np = (of_nat m * of_nat HEADER_SIZE + of_nat PAGE_SIZE - 1) div of_nat PAGE_SIZE"
  let ?pm = "h_pmm s" and ?k = "pages_for n" and ?hh = "unat (pmm_hhdm_offset (h_pmm s))"
  have r: "ring s bs" and lay: "heap_layout s" and live: "\<forall>a\<in>L. apart s bs a"
    and own: "\<forall>x\<in>free_bytes s bs \<union> live_bytes s L. owned s x" using inv by (auto simp: heap_inv_def)
  have pi: "pmm_inv ?pm" "0 \<notin> pmm_free_set ?pm" using lay by (auto simp: heap_layout_def pmm_ready_def)
  have top: "?hh + pmm_total_pages ?pm * PAGE_SIZE < h_base s" "h_base s < 2 ^ 64" "PAGE_SIZE \<le> ?hh"
    using lay by (auto simp: heap_layout_def)
  have "?k * PAGE_SIZE \<le> pmm_total_pages ?pm * PAGE_SIZE" using fit by simp
  then have kb: "?k * PAGE_SIZE + PAGE_SIZE \<le> 2 ^ 64" using top by linarith
  note N = morecore_npages [OF kb, folded m_def, folded np_def]
  have k4: "4 \<le> ?k" by (rule pages_for_pos)
  have run: "morecore n s = do { (page, pm) \<leftarrow> pmm_alloc_pages np ?pm;
        let s1 = s\<lparr>h_pmm := pm\<rparr>;
        if page = 0 then Some (0, s1)
        else do { let up = unat (p_to_v pm page);
          s2 \<leftarrow> kfree (up + HEADER_SIZE)
                 (s1\<lparr>h_size := (h_size s1)(up := unat (np * of_nat PAGE_SIZE div of_nat HEADER_SIZE))\<rparr>);
          Some (freelist s2, s2) } }"
    unfolding morecore_def Let_def m_def [symmetric] np_def [symmetric] ..
  have "2 \<le> unat np" "unat np \<le> pmm_total_pages ?pm" using N(1) k4 fit by simp_all
  from alloc_pages_cases [OF pi(1) this, unfolded N(1)] consider
      (got) p pm where "pmm_alloc_pages np ?pm = Some (of_nat (p * PAGE_SIZE), pm)" "{p..<p + ?k} \<subseteq> pmm_free_set ?pm"
        "pmm_free_set pm = pmm_free_set ?pm - {p..<p + ?k}" "pmm_inv pm"
        "pmm_total_pages pm = pmm_total_pages ?pm" "pmm_hhdm_offset pm = pmm_hhdm_offset ?pm"
    | (none) "pmm_alloc_pages np ?pm = Some (0, ?pm)" by blast
  then show ?thesis
  proof cases
    case none
    then show ?thesis by (simp add: run)
  next
    case got
    have "p \<in> {p..<p + ?k}" using k4 by auto
    then have "p \<in> pmm_free_set ?pm" using got(2) by blast
    then have p0: "p \<noteq> 0" using pi(2) by metis
    have "p + ?k - 1 \<in> {p..<p + ?k}" using k4 by auto
    then have "p + ?k - 1 < pmm_total_pages ?pm" using got(2) by (auto simp: pmm_free_set_def)
    then have pk: "p + ?k \<le> pmm_total_pages ?pm" using k4 by linarith
    then have "(p + ?k) * PAGE_SIZE \<le> pmm_total_pages ?pm * PAGE_SIZE" by simp
    then have end_le: "?hh + p * PAGE_SIZE + ?k * PAGE_SIZE < h_base s" using top(1) by (simp add: algebra_simps)
    have p52: "p < 2 ^ 52" using pk k4 pi(1) by (auto simp: pmm_inv_def)
    have pg: "unat (of_nat (p * PAGE_SIZE) :: u64) = p * PAGE_SIZE" by (rule unat_page_addr [OF p52])
    then have page0: "(of_nat (p * PAGE_SIZE) :: u64) \<noteq> 0" using p0 by (metis PAGE_SIZE_def mult_is_0 unat_0 zero_neq_numeral)
    define up where "up = ?hh + p * PAGE_SIZE"
    have up: "unat (p_to_v pm (of_nat (p * PAGE_SIZE))) = up"
    proof -
      have "p * PAGE_SIZE + ?hh < 2 ^ LENGTH(64)" using end_le top(2) by simp
      then show ?thesis unfolding p_to_v_def got(6) unat_word_ariths pg by (simp add: up_def)
    qed
    define s1 where "s1 = s\<lparr>h_pmm := pm, h_size := (h_size s)(up := unat (np * of_nat PAGE_SIZE div of_nat HEADER_SIZE))\<rparr>"
    have mc: "morecore n s = Option.bind (kfree (up + HEADER_SIZE) s1) (\<lambda>s2. Some (freelist s2, s2))"
      unfolding run got(1) using page0 by (simp add: up s1_def Let_def del: of_nat_mult)
    have blk: "block (h_size s1) up = {up..<up + ?k * PAGE_SIZE}" unfolding block_def s1_def using N(2) by simp
    have newpage: "page_at s x \<in> {p..<p + ?k} \<and> ?hh \<le> x" if "x \<in> block (h_size s1) up" for x
    proof -
      have "?hh + p * PAGE_SIZE \<le> x" "x < ?hh + p * PAGE_SIZE + ?k * PAGE_SIZE"
        using that unfolding blk by (simp_all add: up_def)
      from page_in_run [OF this] show ?thesis by (simp add: page_at_def)
    qed
    then have notown: "\<not> owned s x" if "x \<in> block (h_size s1) up" for x
      using that got(2) by (auto simp: owned_def)
    have sz: "0 < h_size s1 up" "n \<le> h_size s1 up"
      using N(2,3) k4 by (auto simp: s1_def PAGE_SIZE_def intro: gr0I)
    have upself: "up \<in> block (h_size s1) up" by (rule self_in_block [of "h_size s1", OF sz(1)])
    have upn: "\<not> owned s up" using notown upself by blast
    have upr: "up \<notin> set (h_base s # bs)"
    proof -
      have "up \<noteq> h_base s" using end_le by (simp add: up_def)
      moreover have "up \<notin> set bs" using ring_member_free [OF r] own upn by blast
      ultimately show ?thesis by simp
    qed
    have up_live: "up \<notin> L" using live_notin_free(2) [OF inv] upn by blast
    have same1: "\<forall>x\<in>set (h_base s # bs) \<union> L. h_size s1 x = h_size s x" using upr up_live by (auto simp: s1_def)
    have r1: "ring s1 bs" by (rule ring_cong [OF r]) (use same1 in \<open>auto simp: s1_def\<close>)
    have fb1: "free_bytes s1 bs = free_bytes s bs" by (rule free_bytes_cong) (use same1 in auto)
    have dis: "block (h_size s1) up \<inter> (free_bytes s bs \<union> live_bytes s L) = {}" using notown own by blast
    have "before (h_size s1) up (h_base s1)" using end_le N(2) by (simp add: before_def s1_def up_def)
    then have ap1: "apart s1 bs up" using sz(1) dis by (auto simp: apart_def fb1)
    obtain s2 bs2 where k2: "kfree (up + HEADER_SIZE) s1 = Some s2" "ring s2 bs2"
      "free_bytes s2 bs2 = free_bytes s1 bs \<union> block (h_size s1) up" "\<exists>x\<in>set bs2. h_size s1 up \<le> h_size s2 x"
      "\<forall>x. x \<notin> free_bytes s1 bs \<union> block (h_size s1) up \<longrightarrow> h_size s2 x = h_size s1 x"
      "h_base s2 = h_base s1" "h_pmm s2 = h_pmm s1" "h_data s2 = h_data s1" by (rule kfree_ring [OF r1 ap1])
    have base: "h_base s2 = h_base s" "h_pmm s2 = pm" "h_data s2 = h_data s" using k2(6-8) by (simp_all add: s1_def)
    have sL: "\<forall>a\<in>L. h_size s2 a = h_size s a"
    proof
      fix a assume a: "a \<in> L"
      have "a \<notin> free_bytes s1 bs \<union> block (h_size s1) up"
        using live_notin_free(1,2) [OF inv a] notown fb1 by auto
      then show "h_size s2 a = h_size s a" using k2(5) same1 a by simp
    qed
    note LS = live_same [OF sL]
    have lay2: "heap_layout s2"
      using lay got(3-6) by (auto simp: heap_layout_def base pmm_ready_def)
    have own2: "owned s2 x" if "owned s x" for x
      using that got(3,6) by (simp add: owned_def page_at_def base)
    have own2': "owned s2 x" if "x \<in> block (h_size s1) up" for x
      using newpage [OF that] got(3,6) by (auto simp: owned_def page_at_def base)
    have apL: "apart s2 bs2 a" if a: "a \<in> L" for a
    proof -
      have "apart s bs a" using live a by simp
      moreover have "block (h_size s) a \<inter> block (h_size s1) up = {}" using live_notin_free(4) [OF inv a] notown by blast
      ultimately show ?thesis using LS(2,3) [OF a] sL a base(1) k2(3) fb1 by (auto simp: apart_def)
    qed
    have "heap_inv s2 bs2 L"
      using k2(2) lay2 apL inv LS own own2 own2' k2(3) fb1 by (auto simp: heap_inv_def)
    moreover have "freelist s2 \<noteq> 0"
    proof -
      have ob: "owned s2 x" if "x \<in> set bs2" for x
        using ring_member_free [OF k2(2) that] k2(3) fb1 own own2 own2' by blast
      have "\<not> owned s2 0" using top(3) got(6) by (simp add: owned_def base PAGE_SIZE_def)
      then have "0 \<notin> set bs2" using ob by blast
      moreover have "h_base s2 \<noteq> 0" using end_le base(1) by simp
      moreover have "freelist s2 \<in> insert (h_base s2) (set bs2)" using k2(2) by (simp add: ring_def)
      ultimately show ?thesis by (metis insert_iff)
    qed
    moreover have "\<exists>x\<in>set bs2. n \<le> h_size s2 x" using k2(4) sz(2) by (meson le_trans)
    moreover have "morecore n s = Some (freelist s2, s2)" using mc k2(1) by simp
    moreover have "free_bytes s bs \<subseteq> free_bytes s2 bs2" "(free_bytes s2 bs2 - free_bytes s bs) \<inter> live_bytes s L = {}"
      using k2(3) fb1 dis by auto
    moreover have "pmm_total_pages (h_pmm s2) = pmm_total_pages (h_pmm s)" using base(2) got(5) by simp
    ultimately show ?thesis using sL base(3) by blast
  qed
qed

lemma taken_inv:
  assumes inv: "heap_inv s bs L" and t: "taken n s bs q s' bs'" and n: "0 < n"
  shows "q \<notin> L" and "heap_inv s' bs' (insert q L)" and "\<forall>a\<in>L. h_size s' a = h_size s a"
proof -
  have T: "ring s' bs'" "h_size s' q = n" "block (h_size s') q \<subseteq> free_bytes s bs"
    "free_bytes s' bs' = free_bytes s bs - block (h_size s') q" "apart s' bs' q"
    "\<forall>x. x \<notin> free_bytes s bs \<longrightarrow> h_size s' x = h_size s x" "h_base s' = h_base s" "h_pmm s' = h_pmm s"
    using t by (simp_all add: taken_def)
  have q: "q \<in> free_bytes s bs" using T(2,3) n self_in_block [of "h_size s'" q] by auto
  then show qL: "q \<notin> L" using live_notin_free(1) [OF inv] by blast
  show sL: "\<forall>a\<in>L. h_size s' a = h_size s a" using T(6) live_notin_free(1) [OF inv] by blast
  note LS = live_same [OF sL]
  have own: "owned s' x \<longleftrightarrow> owned s x" for x by (simp add: owned_def page_at_def T(8))
  have "apart s' bs' a" if a: "a \<in> L" for a
  proof -
    have "apart s bs a" using inv a by (simp add: heap_inv_def)
    then show ?thesis using LS(2,3) [OF a] sL a T(4,7) by (auto simp: apart_def)
  qed
  moreover have "block (h_size s') a \<inter> block (h_size s') q = {}" if a: "a \<in> L" for a
    using live_notin_free(3) [OF inv a] LS(2) [OF a] T(3) by blast
  moreover have "live_bytes s' (insert q L) = block (h_size s') q \<union> live_bytes s L"
    using LS(1) by (simp add: live_bytes_def)
  moreover have "heap_layout s'" using inv by (simp add: heap_inv_def heap_layout_def T(7,8))
  ultimately show "heap_inv s' bs' (insert q L)"
    using inv T(1,3,4,5) LS(2) own by (auto simp: heap_inv_def)
qed

lemma units_of_eq:
  assumes "unat nb + 15 < 2 ^ 64" shows "units_of nb = (unat nb + 15) div HEADER_SIZE + 1"
proof -
  have e: "nb + of_nat HEADER_SIZE - 1 = nb + 15" by (simp add: HEADER_SIZE_def)
  have s: "unat (nb + 15) = unat nb + 15" using assms unfolding unat_word_ariths by simp
  have d: "unat ((nb + 15) div of_nat HEADER_SIZE) = (unat nb + 15) div HEADER_SIZE"
    unfolding unat_div s by (simp add: HEADER_SIZE_def)
  have "(unat nb + 15) div HEADER_SIZE + 1 < 2 ^ LENGTH(64)" using assms by (simp add: HEADER_SIZE_def)
  moreover have "unat ((nb + 15) div of_nat HEADER_SIZE + 1)
      = (unat ((nb + 15) div of_nat HEADER_SIZE) + 1) mod 2 ^ LENGTH(64)" by (simp add: unat_word_ariths(1))
  ultimately show ?thesis unfolding units_of_def e d by simp
qed

text \<open>A block big enough for the request.\<close>

lemma units_of_room:
  assumes "unat nb + 15 < 2 ^ 64" shows "unat nb \<le> (units_of nb - 1) * HEADER_SIZE" "0 < units_of nb"
  unfolding units_of_eq [OF assms] by (simp_all add: HEADER_SIZE_def)

definition fits :: "kheap \<Rightarrow> u64 \<Rightarrow> bool" where
  "fits s nb \<longleftrightarrow> unat nb + 15 < 2 ^ 64 \<and> pages_for (units_of nb) \<le> pmm_total_pages (h_pmm s)"

lemma kmalloc_spec:
  assumes inv: "heap_inv s bs L" and fit: "fits s nb" and nz: "nb \<noteq> 0"
  shows "kmalloc nb s = Some (0, s) \<or>
    (\<exists>q s' bs' F. kmalloc nb s = Some (q + HEADER_SIZE, s') \<and> q \<notin> L \<and> heap_inv s' bs' (insert q L)
       \<and> h_size s' q = units_of nb \<and> (\<forall>a\<in>L. h_size s' a = h_size s a) \<and> h_data s' = h_data s
       \<and> pmm_total_pages (h_pmm s') = pmm_total_pages (h_pmm s)
       \<and> free_bytes s bs \<subseteq> F \<and> (F - free_bytes s bs) \<inter> live_bytes s L = {} \<and> block (h_size s') q \<subseteq> F
       \<and> free_bytes s' bs' = F - block (h_size s') q)"
proof -
  let ?n = "units_of nb"
  have n: "0 < ?n" using fit units_of_room by (auto simp: fits_def)
  have k: "kmalloc nb s = kmalloc_loop ?n (freelist s) (h_next s (freelist s)) s" using nz by (simp add: kmalloc_def)
  have r: "ring s bs" using inv by (simp add: heap_inv_def)
  show ?thesis
  proof (cases "\<exists>x\<in>set bs. ?n \<le> h_size s x")
    case True
    then obtain q s' bs' where q: "kmalloc_loop ?n (freelist s) (h_next s (freelist s)) s = Some (q + HEADER_SIZE, s')"
      "taken ?n s bs q s' bs'" using kmalloc_loop_found [OF r _ _ n] by blast
    note T = taken_inv [OF inv q(2) n]
    have "h_size s' q = ?n" "h_data s' = h_data s" "h_pmm s' = h_pmm s" "block (h_size s') q \<subseteq> free_bytes s bs"
      "free_bytes s' bs' = free_bytes s bs - block (h_size s') q" using q(2) by (simp_all add: taken_def)
    then show ?thesis using T q(1) k
      by (intro disjI2 exI [of _ q] exI [of _ s'] exI [of _ bs'] exI [of _ "free_bytes s bs"]) simp
  next
    case False
    then have "\<forall>x\<in>set bs. h_size s x < ?n" by (auto simp: not_le)
    note none = kmalloc_loop_none [OF r this n]
    have fit': "pages_for ?n \<le> pmm_total_pages (h_pmm s)" using fit by (simp add: fits_def)
    from morecore_spec [OF inv this] consider
        (oom) "morecore ?n s = Some (0, s)"
      | (got) s1 bs1 where "morecore ?n s = Some (freelist s1, s1)" "freelist s1 \<noteq> 0" "heap_inv s1 bs1 L"
          "\<exists>x\<in>set bs1. ?n \<le> h_size s1 x" "\<forall>a\<in>L. h_size s1 a = h_size s a" "h_data s1 = h_data s"
          "pmm_total_pages (h_pmm s1) = pmm_total_pages (h_pmm s)"
          "free_bytes s bs \<subseteq> free_bytes s1 bs1" "(free_bytes s1 bs1 - free_bytes s bs) \<inter> live_bytes s L = {}"
      by blast
    then show ?thesis
    proof cases
      case oom then show ?thesis using k none by simp
    next
      case got
      have r1: "ring s1 bs1" using got(3) by (simp add: heap_inv_def)
      obtain q s' bs' where q: "kmalloc_loop ?n (freelist s1) (h_next s1 (freelist s1)) s1 = Some (q + HEADER_SIZE, s')"
        "taken ?n s1 bs1 q s' bs'" using kmalloc_loop_found [OF r1 _ _ n] got(4) by blast
      note T = taken_inv [OF got(3) q(2) n]
      have "h_size s' q = ?n" "h_data s' = h_data s1" "h_pmm s' = h_pmm s1" "block (h_size s') q \<subseteq> free_bytes s1 bs1"
        "free_bytes s' bs' = free_bytes s1 bs1 - block (h_size s') q" using q(2) by (simp_all add: taken_def)
      moreover have "kmalloc nb s = Some (q + HEADER_SIZE, s')" using k none got(1,2) q(1) by simp
      ultimately show ?thesis using T got(5-9)
        by (intro disjI2 exI [of _ q] exI [of _ s'] exI [of _ bs'] exI [of _ "free_bytes s1 bs1"]) simp
    qed
  qed
qed

lemma kfree_spec:
  assumes inv: "heap_inv s bs L" and a: "a \<in> L"
  obtains s' bs' where "kfree (a + HEADER_SIZE) s = Some s'" "heap_inv s' bs' (L - {a})"
    "\<forall>c\<in>L - {a}. h_size s' c = h_size s c" "h_data s' = h_data s" "h_pmm s' = h_pmm s"
    "free_bytes s' bs' = free_bytes s bs \<union> block (h_size s) a"
proof -
  have r: "ring s bs" and ap: "apart s bs a" using inv a by (simp_all add: heap_inv_def)
  obtain s' bs' where k: "kfree (a + HEADER_SIZE) s = Some s'" "ring s' bs'"
    "free_bytes s' bs' = free_bytes s bs \<union> block (h_size s) a"
    "\<forall>x. x \<notin> free_bytes s bs \<union> block (h_size s) a \<longrightarrow> h_size s' x = h_size s x"
    "h_base s' = h_base s" "h_pmm s' = h_pmm s" "h_data s' = h_data s" by (rule kfree_ring [OF r ap])
  have dis: "block (h_size s) a \<inter> block (h_size s) c = {}" if "c \<in> L - {a}" for c
    using inv a that by (auto simp: heap_inv_def)
  have sL: "\<forall>c\<in>L - {a}. h_size s' c = h_size s c"
  proof
    fix c assume c: "c \<in> L - {a}"
    then have "apart s bs c" using inv by (simp add: heap_inv_def)
    then have "c \<in> block (h_size s) c" by (simp add: apart_def self_in_block)
    then have "c \<notin> free_bytes s bs \<union> block (h_size s) a" using live_notin_free(1) [OF inv] c dis [OF c] by blast
    then show "h_size s' c = h_size s c" using k(4) by blast
  qed
  note LS = live_same [OF sL]
  have "apart s' bs' c" if c: "c \<in> L - {a}" for c
  proof -
    have "apart s bs c" using inv c by (simp add: heap_inv_def)
    then show ?thesis using LS(2,3) [OF c] sL c k(3,5) dis [OF c] by (auto simp: apart_def)
  qed
  moreover have "heap_layout s'" using inv by (simp add: heap_inv_def heap_layout_def k(5,6))
  moreover have "owned s' x \<longleftrightarrow> owned s x" for x by (simp add: owned_def page_at_def k(6))
  moreover have "live_bytes s' (L - {a}) \<subseteq> live_bytes s L" using LS(1) by (auto simp: live_bytes_def)
  moreover have "block (h_size s) a \<subseteq> live_bytes s L" using a by (auto simp: live_bytes_def)
  ultimately have "heap_inv s' bs' (L - {a})" using k(2,3) inv LS(2) by (auto simp: heap_inv_def)
  from that [OF k(1) this sL k(7,6,3)] show thesis .
qed

lemma heap_inv_init: "heap_layout s \<Longrightarrow> heap_inv (heap_init s) [] {}"
  by (simp add: heap_inv_def heap_init_def ring_def heap_layout_def free_bytes_def live_bytes_def)

subsection \<open>The heap as a block allocator\<close>

definition heap_ok :: "nat set \<Rightarrow> kheap \<Rightarrow> bool" where
  "heap_ok P s \<longleftrightarrow> (\<exists>bs L. heap_inv s bs L \<and> P = (\<lambda>a. a + HEADER_SIZE) ` L)"

definition extent_of :: "kheap \<Rightarrow> nat \<Rightarrow> nat set" where
  "extent_of s p = block (h_size s) (p - HEADER_SIZE)"

lemma block_room: "0 < sz b \<Longrightarrow> {b + HEADER_SIZE..<b + HEADER_SIZE + (sz b - 1) * HEADER_SIZE} \<subseteq> block sz b"
  by (cases "sz b") (auto simp: block_def)

lemma heap_malloc_law:
  assumes ok: "heap_ok P s" and fit: "fits s n"
  shows "\<exists>r s'. kmalloc n s = Some (r, s') \<and> (\<forall>m. fits s' m = fits s m)
    \<and> (\<forall>p\<in>P. extent_of s' p = extent_of s p)
    \<and> (if r = 0 then heap_ok P s' else r \<notin> P \<and> heap_ok (insert r P) s' \<and> {r..<r + unat n} \<subseteq> extent_of s' r)"
proof -
  obtain bs L where inv: "heap_inv s bs L" and P: "P = (\<lambda>a. a + HEADER_SIZE) ` L" using ok by (auto simp: heap_ok_def)
  show ?thesis
  proof (cases "kmalloc n s = Some (0, s)")
    case True
    then show ?thesis using ok by simp
  next
    case False
    then have nz: "n \<noteq> 0" by (auto simp: kmalloc_def)
    from kmalloc_spec [OF inv fit nz] False obtain q s' bs' where
      q: "kmalloc n s = Some (q + HEADER_SIZE, s')" "q \<notin> L" "heap_inv s' bs' (insert q L)" "h_size s' q = units_of n"
        "\<forall>a\<in>L. h_size s' a = h_size s a" "pmm_total_pages (h_pmm s') = pmm_total_pages (h_pmm s)" by blast
    have room: "unat n \<le> (units_of n - 1) * HEADER_SIZE" "0 < units_of n" using fit units_of_room by (auto simp: fits_def)
    have "{q + HEADER_SIZE..<q + HEADER_SIZE + unat n} \<subseteq> block (h_size s') q"
    proof -
      have "{q + HEADER_SIZE..<q + HEADER_SIZE + unat n} \<subseteq> {q + HEADER_SIZE..<q + HEADER_SIZE + (units_of n - 1) * HEADER_SIZE}"
        using room(1) by auto
      also have "\<dots> \<subseteq> block (h_size s') q" using block_room [of "h_size s'" q] q(4) room(2) by simp
      finally show ?thesis .
    qed
    moreover have "heap_ok (insert (q + HEADER_SIZE) P) s'" using q(3) P by (auto simp: heap_ok_def)
    moreover have "\<forall>p\<in>P. extent_of s' p = extent_of s p" using P q(5) by (auto simp: extent_of_def block_def)
    moreover have "q + HEADER_SIZE \<notin> P" using P q(2) by auto
    moreover have "HEADER_SIZE \<noteq> 0" by (simp add: HEADER_SIZE_def)
    moreover have "\<forall>m. fits s' m = fits s m" using q(6) by (simp add: fits_def)
    ultimately show ?thesis using q(1) by (intro exI [of _ "q + HEADER_SIZE"] exI [of _ s']) (simp add: extent_of_def)
  qed
qed

lemma heap_free_law:
  assumes ok: "heap_ok P s" and p: "p \<in> P"
  shows "\<exists>s'. kfree p s = Some s' \<and> heap_ok (P - {p}) s' \<and> (\<forall>m. fits s' m = fits s m)
    \<and> (\<forall>a\<in>P - {p}. extent_of s' a = extent_of s a)"
proof -
  obtain bs L where inv: "heap_inv s bs L" and P: "P = (\<lambda>a. a + HEADER_SIZE) ` L" using ok by (auto simp: heap_ok_def)
  then obtain a where a: "a \<in> L" "p = a + HEADER_SIZE" using p by auto
  obtain s' bs' where k: "kfree (a + HEADER_SIZE) s = Some s'" "heap_inv s' bs' (L - {a})"
    "\<forall>c\<in>L - {a}. h_size s' c = h_size s c" "h_pmm s' = h_pmm s"
    by (rule kfree_spec [OF inv a(1)]) blast
  have "P - {p} = (\<lambda>a. a + HEADER_SIZE) ` (L - {a})" using P a(2) by auto
  then have "heap_ok (P - {p}) s'" using k(2) by (auto simp: heap_ok_def)
  moreover have "\<forall>c\<in>P - {p}. extent_of s' c = extent_of s c" using P a(2) k(3) by (auto simp: extent_of_def block_def)
  ultimately show ?thesis using k(1,4) a(2) by (simp add: fits_def)
qed

lemma heap_extents_disjoint:
  assumes "heap_ok P s" "p \<in> P" "q \<in> P" "p \<noteq> q"
  shows "extent_of s p \<inter> extent_of s q = {}"
proof -
  obtain bs L where inv: "heap_inv s bs L" and P: "P = (\<lambda>a. a + HEADER_SIZE) ` L" using assms(1) by (auto simp: heap_ok_def)
  obtain a c where "a \<in> L" "c \<in> L" "p = a + HEADER_SIZE" "q = c + HEADER_SIZE" using assms(2,3) P by auto
  then show ?thesis using inv assms(4) by (simp add: heap_inv_def extent_of_def)
qed

interpretation kheap: block_allocator kmalloc kfree heap_ok extent_of fits
  by unfold_locales (rule heap_malloc_law heap_free_law heap_extents_disjoint; assumption)+

subsection \<open>Refinement of an abstract heap\<close>

text \<open>
  The abstract heap: a set of unused bytes, and for each address lent to a client the number of bytes
  lent. It has no list, no headers to search and no merging.
\<close>

record abstract_heap =
  unused :: "nat set"
  lent :: "nat \<Rightarrow> nat option"

definition lent_block :: "nat \<Rightarrow> nat \<Rightarrow> nat set" where
  "lent_block r m = {r - HEADER_SIZE..<r + m}"

definition lent_bytes :: "abstract_heap \<Rightarrow> nat set" where
  "lent_bytes g = (\<Union>r\<in>dom (lent g). lent_block r (the (lent g r)))"

text \<open>Memory may be added first, none of it lent.\<close>

definition lends :: "nat \<Rightarrow> abstract_heap \<Rightarrow> nat \<Rightarrow> abstract_heap \<Rightarrow> bool" where
  "lends n g r g' \<longleftrightarrow> (\<exists>F m. n \<le> m \<and> unused g \<subseteq> F \<and> (F - unused g) \<inter> lent_bytes g = {}
     \<and> lent_block r m \<subseteq> F \<and> lent g r = None
     \<and> g' = \<lparr>unused = F - lent_block r m, lent = (lent g)(r \<mapsto> m)\<rparr>)"

definition takes_back :: "nat \<Rightarrow> abstract_heap \<Rightarrow> abstract_heap \<Rightarrow> bool" where
  "takes_back r g g' \<longleftrightarrow> (\<exists>m. lent g r = Some m
     \<and> g' = \<lparr>unused = unused g \<union> lent_block r m, lent = (lent g)(r := None)\<rparr>)"

definition heap_abs :: "kheap \<Rightarrow> nat list \<Rightarrow> nat set \<Rightarrow> abstract_heap" where
  "heap_abs s bs L = \<lparr>unused = free_bytes s bs,
     lent = (\<lambda>r. if HEADER_SIZE \<le> r \<and> r - HEADER_SIZE \<in> L
                 then Some ((h_size s (r - HEADER_SIZE) - 1) * HEADER_SIZE) else None)\<rparr>"

lemma lent_block_eq: "0 < sz a \<Longrightarrow> lent_block (a + HEADER_SIZE) ((sz a - 1) * HEADER_SIZE) = block sz a"
  by (cases "sz a") (simp_all add: lent_block_def block_def algebra_simps)

lemma lent_heap_abs:
  assumes "heap_inv s bs L"
  shows "lent_bytes (heap_abs s bs L) = live_bytes s L"
proof -
  have d: "dom (lent (heap_abs s bs L)) = (\<lambda>a. a + HEADER_SIZE) ` L"
    by (auto simp: heap_abs_def dom_def image_iff intro!: exI) (metis le_add_diff_inverse2)
  have "lent_block (a + HEADER_SIZE) (the (lent (heap_abs s bs L) (a + HEADER_SIZE))) = block (h_size s) a" if "a \<in> L" for a
  proof -
    have "0 < h_size s a" using that assms by (simp add: heap_inv_def apart_def)
    then show ?thesis using that lent_block_eq [of "h_size s" a] by (simp add: heap_abs_def)
  qed
  then show ?thesis unfolding lent_bytes_def live_bytes_def d by simp
qed

lemma kmalloc_lends:
  assumes inv: "heap_inv s bs L" and fit: "fits s nb" and nz: "nb \<noteq> 0"
  shows "kmalloc nb s = Some (0, s) \<or> (\<exists>r s' bs' L'. kmalloc nb s = Some (r, s') \<and> r \<noteq> 0
     \<and> heap_inv s' bs' L' \<and> lends (unat nb) (heap_abs s bs L) r (heap_abs s' bs' L'))"
  using kmalloc_spec [OF assms]
proof (elim disjE exE conjE)
  fix q s' bs' F
  assume q: "kmalloc nb s = Some (q + HEADER_SIZE, s')" "q \<notin> L" "heap_inv s' bs' (insert q L)" "h_size s' q = units_of nb"
    "\<forall>a\<in>L. h_size s' a = h_size s a" "free_bytes s bs \<subseteq> F" "(F - free_bytes s bs) \<inter> live_bytes s L = {}"
    "block (h_size s') q \<subseteq> F" "free_bytes s' bs' = F - block (h_size s') q"
  have room: "unat nb \<le> (units_of nb - 1) * HEADER_SIZE" "0 < units_of nb" using fit units_of_room by (auto simp: fits_def)
  let ?m = "(units_of nb - 1) * HEADER_SIZE" and ?r = "q + HEADER_SIZE"
  have blk: "lent_block ?r ?m = block (h_size s') q" using lent_block_eq [of "h_size s'" q] q(4) room(2) by simp
  have "lent (heap_abs s' bs' (insert q L)) = (lent (heap_abs s bs L))(?r \<mapsto> ?m)"
  proof
    fix x
    have "x - HEADER_SIZE \<noteq> q" if "x \<noteq> ?r" "HEADER_SIZE \<le> x" using that by auto
    then show "lent (heap_abs s' bs' (insert q L)) x = ((lent (heap_abs s bs L))(?r \<mapsto> ?m)) x"
      using q(4,5) by (cases "x = ?r") (auto simp: heap_abs_def)
  qed
  then have "heap_abs s' bs' (insert q L) = \<lparr>unused = F - lent_block ?r ?m, lent = (lent (heap_abs s bs L))(?r \<mapsto> ?m)\<rparr>"
    using q(9) blk by (simp add: heap_abs_def)
  moreover have "lent (heap_abs s bs L) ?r = None" using q(2) by (simp add: heap_abs_def)
  moreover have "unused (heap_abs s bs L) = free_bytes s bs" by (simp add: heap_abs_def)
  ultimately have "lends (unat nb) (heap_abs s bs L) ?r (heap_abs s' bs' (insert q L))"
    unfolding lends_def lent_heap_abs [OF inv] using room(1) q(6-8) blk
    by (intro exI [of _ F] exI [of _ ?m] conjI) simp_all
  moreover have "?r \<noteq> 0" by (simp add: HEADER_SIZE_def)
  ultimately show ?thesis using q(1,3) by blast
qed simp

lemma kfree_takes_back:
  assumes inv: "heap_inv s bs L" and r: "lent (heap_abs s bs L) r \<noteq> None"
  shows "\<exists>s' bs' L'. kfree r s = Some s' \<and> heap_inv s' bs' L' \<and> takes_back r (heap_abs s bs L) (heap_abs s' bs' L')"
proof -
  obtain a where a: "r = a + HEADER_SIZE" "a \<in> L"
    using r by (auto simp: heap_abs_def split: if_splits) (metis le_add_diff_inverse2)
  obtain s' bs' where k: "kfree (a + HEADER_SIZE) s = Some s'" "heap_inv s' bs' (L - {a})"
    "\<forall>c\<in>L - {a}. h_size s' c = h_size s c" "free_bytes s' bs' = free_bytes s bs \<union> block (h_size s) a"
    by (rule kfree_spec [OF inv a(2)]) blast
  have pos: "0 < h_size s a" using inv a(2) by (simp add: heap_inv_def apart_def)
  have "lent (heap_abs s' bs' (L - {a})) = (lent (heap_abs s bs L))(r := None)"
  proof
    fix x
    have "x - HEADER_SIZE \<noteq> a" if "x \<noteq> r" "HEADER_SIZE \<le> x" using that a(1) by auto
    then show "lent (heap_abs s' bs' (L - {a})) x = ((lent (heap_abs s bs L))(r := None)) x"
      using k(3) a(1) by (cases "x = r") (auto simp: heap_abs_def)
  qed
  moreover have "unused (heap_abs s' bs' (L - {a})) = unused (heap_abs s bs L) \<union> lent_block r ((h_size s a - 1) * HEADER_SIZE)"
    using k(4) lent_block_eq [of "h_size s" a] pos a(1) by (simp add: heap_abs_def)
  moreover have "lent (heap_abs s bs L) r = Some ((h_size s a - 1) * HEADER_SIZE)" using a by (simp add: heap_abs_def)
  ultimately have "takes_back r (heap_abs s bs L) (heap_abs s' bs' (L - {a}))"
    by (auto simp: takes_back_def heap_abs_def)
  then show ?thesis using k(1,2) a(1) by blast
qed

subsection \<open>Reallocation\<close>

text \<open>The byte loop copies, when the two ranges do not overlap.\<close>

lemma copy_loop:
  assumes "{dst..<dst + n} \<inter> {src..<src + n} = {}"
  shows "fold (\<lambda>i d. d(dst + i := d (src + i))) [0..<n] (f :: nat \<Rightarrow> u8) a
    = (if a \<in> {dst..<dst + n} then f (src + (a - dst)) else f a)"
  using assms
proof (induction n arbitrary: a)
  case (Suc n)
  have d: "{dst..<dst + n} \<inter> {src..<src + n} = {}" using Suc.prems by auto
  have "src + n \<notin> {dst..<dst + n}"
  proof
    assume "src + n \<in> {dst..<dst + n}"
    then have "src + n \<in> {dst..<dst + Suc n} \<inter> {src..<src + Suc n}" by auto
    then show False using Suc.prems by simp
  qed
  then show ?case using Suc.IH [OF d] by (auto simp: less_Suc_eq)
qed simp

lemma krealloc_spec:
  assumes inv: "heap_inv s bs L" and a: "a \<in> L" and fit: "fits s nb" and nz: "nb \<noteq> 0"
  shows "\<exists>r s' bs' L'. krealloc (a + HEADER_SIZE) nb s = Some (r, s') \<and> heap_inv s' bs' L' \<and>
    (r = 0 \<and> s' = s \<or> r - HEADER_SIZE \<in> L' \<and> unat nb \<le> (h_size s' (r - HEADER_SIZE) - 1) * HEADER_SIZE
       \<and> (\<forall>i < (h_size s a - 1) * HEADER_SIZE. h_data s' (r + i) = h_data s (a + HEADER_SIZE + i)))"
proof (cases "unat nb \<le> (h_size s a - 1) * HEADER_SIZE")
  case True
  then have "krealloc (a + HEADER_SIZE) nb s = Some (a + HEADER_SIZE, s)" using nz by (simp add: krealloc_def HEADER_SIZE_def)
  then show ?thesis using inv a True
    by (intro exI [of _ "a + HEADER_SIZE"] exI [of _ s] exI [of _ bs] exI [of _ L]) simp
next
  case False
  let ?n = "(h_size s a - 1) * HEADER_SIZE"
  have k: "krealloc (a + HEADER_SIZE) nb s = Option.bind (kmalloc nb s) (\<lambda>(new_ptr, s1).
      if new_ptr = 0 then Some (0, s1)
      else Option.bind (kfree (a + HEADER_SIZE) (copy_bytes new_ptr (a + HEADER_SIZE) ?n s1)) (\<lambda>s2. Some (new_ptr, s2)))"
  proof -
    have "a + HEADER_SIZE \<noteq> 0" by (simp add: HEADER_SIZE_def)
    then show ?thesis using False nz unfolding krealloc_def Let_def add_diff_cancel_right' by (simp only: if_False)
  qed
  from kmalloc_spec [OF inv fit nz] show ?thesis
  proof (elim disjE exE conjE)
    assume "kmalloc nb s = Some (0, s)"
    then show ?thesis using k inv by auto
  next
    fix q s1 bs1 F
    assume q: "kmalloc nb s = Some (q + HEADER_SIZE, s1)" "q \<notin> L" "heap_inv s1 bs1 (insert q L)"
      "h_size s1 q = units_of nb" "\<forall>a\<in>L. h_size s1 a = h_size s a" "h_data s1 = h_data s"
    let ?c = "copy_bytes (q + HEADER_SIZE) (a + HEADER_SIZE) ?n s1"
    have room: "unat nb \<le> (units_of nb - 1) * HEADER_SIZE" "0 < units_of nb" using fit units_of_room by (auto simp: fits_def)
    have qa: "q \<noteq> a" using q(2) a by auto
    have "ring ?c bs1 = ring s1 bs1" "free_bytes ?c bs1 = free_bytes s1 bs1" "live_bytes ?c M = live_bytes s1 M"
      "apart ?c bs1 x = apart s1 bs1 x" "owned ?c x = owned s1 x" "heap_layout ?c = heap_layout s1" for M x
      by (simp_all add: copy_bytes_def ring_def free_bytes_def live_bytes_def apart_def owned_def page_at_def heap_layout_def)
    then have inv_c: "heap_inv ?c bs1 (insert q L)" using q(3) by (simp add: heap_inv_def copy_bytes_def)
    obtain s2 bs2 where f: "kfree (a + HEADER_SIZE) ?c = Some s2" "heap_inv s2 bs2 (insert q L - {a})"
      "\<forall>c\<in>insert q L - {a}. h_size s2 c = h_size ?c c" "h_data s2 = h_data ?c"
      by (rule kfree_spec [OF inv_c, of a]) (use a in auto)
    have sa: "0 < h_size s1 a" "h_size s1 a = h_size s a" using q(3,5) a by (auto simp: heap_inv_def apart_def)
    have "block (h_size s1) q \<inter> block (h_size s1) a = {}" using q(3) a qa by (simp add: heap_inv_def)
    moreover have "{a + HEADER_SIZE..<a + HEADER_SIZE + ?n} \<subseteq> block (h_size s1) a"
      using block_room [of "h_size s1" a] sa by simp
    moreover have "{q + HEADER_SIZE..<q + HEADER_SIZE + ?n} \<subseteq> block (h_size s1) q"
    proof -
      have "{q + HEADER_SIZE..<q + HEADER_SIZE + ?n} \<subseteq> {q + HEADER_SIZE..<q + HEADER_SIZE + (units_of nb - 1) * HEADER_SIZE}"
        using le_trans [OF less_imp_le [OF not_le_imp_less [OF False]] room(1)] by auto
      also have "\<dots> \<subseteq> block (h_size s1) q" using block_room [of "h_size s1" q] q(4) room(2) by simp
      finally show ?thesis .
    qed
    ultimately have dis: "{q + HEADER_SIZE..<q + HEADER_SIZE + ?n} \<inter> {a + HEADER_SIZE..<a + HEADER_SIZE + ?n} = {}" by blast
    have data: "h_data s2 (q + HEADER_SIZE + i) = h_data s (a + HEADER_SIZE + i)" if "i < ?n" for i
      using that copy_loop [OF dis, of "h_data s1" "q + HEADER_SIZE + i"] f(4) q(6) by (simp add: copy_bytes_def)
    have "h_size s2 q = units_of nb" using f(3) qa q(4) by (simp add: copy_bytes_def)
    moreover have "krealloc (a + HEADER_SIZE) nb s = Some (q + HEADER_SIZE, s2)"
      using k q(1) f(1) by (simp add: HEADER_SIZE_def)
    ultimately show ?thesis using f(2) data room(1) qa
      by (intro exI [of _ "q + HEADER_SIZE"] exI [of _ s2] exI [of _ bs2] exI [of _ "insert q L - {a}"]) simp
  qed
qed

subsection \<open>Correctness\<close>

text \<open>A machine with sixteen pages of memory of which page 0 is in use, and the direct map at 1 MiB.\<close>

definition heap_demo :: kheap where
  "heap_demo = \<lparr>h_next = (\<lambda>_. 0), h_size = (\<lambda>_. 0), h_data = (\<lambda>_. 0), freelist = 0, h_base = 0x200000,
     h_pmm = \<lparr>pmm_bitmap_addr = 0, pmm_bitmap = [1, 0], pmm_total_pages = 16, pmm_usable_pages = 16,
              pmm_allocated_pages = 1, pmm_last_free_page = 0, pmm_hhdm_offset = 0x100000\<rparr>\<rparr>"

lemma heap_demo_layout: "heap_layout heap_demo"
  by (simp add: heap_layout_def heap_demo_def pmm_ready_def pmm_inv_def pmm_free_set_def page_used_def PAGE_SIZE_def)

lemma heap_demo_fits: "fits (heap_init heap_demo) 100"
proof -
  have u: "units_of 100 = 8" by (subst units_of_eq) (simp_all add: HEADER_SIZE_def)
  show ?thesis unfolding fits_def u
    by (simp add: heap_init_def heap_demo_def pages_for_def HEADER_SIZE_def PAGE_SIZE_def)
qed

text \<open>C23: From a freshly initialised heap, every sequence of \<open>kmalloc\<close> and \<open>kfree\<close> calls (freeing only
  what was allocated) returns: the circular searches of both functions terminate, and no header outside
  the heap's memory is followed. The allocations alive at the end occupy disjoint byte ranges.\<close>

theorem kheap_calls_return:
  assumes "heap_layout s" and "\<And>n. Malloc n \<in> set calls \<Longrightarrow> fits (heap_init s) n"
  shows "\<exists>live s'. malloc_run kmalloc kfree calls [] (heap_init s) = Some (live, s') \<and> distinct (map fst live)
    \<and> (\<forall>(p, n)\<in>set live. \<forall>(q, m)\<in>set live. p \<noteq> q \<longrightarrow> {p..<p + unat n} \<inter> {q..<q + unat m} = {})"
proof -
  have "heap_ok {} (heap_init s)" using heap_inv_init [OF assms(1)] by (auto simp: heap_ok_def)
  then have "kheap.sound [] (heap_init s)" by (simp add: kheap.sound_def)
  from kheap.run_sound [OF this assms(2)] obtain live s' where
    run: "malloc_run kmalloc kfree calls [] (heap_init s) = Some (live, s')" and ok: "kheap.sound live s'" by blast
  have "distinct (map fst live)" using ok by (simp add: kheap.sound_def)
  then show ?thesis using run kheap.sound_disjoint [OF ok] by fast
qed

theorem kheap_calls_return_witness:
  "\<exists>live s'. malloc_run kmalloc kfree [Malloc 100, Malloc 100, Release 7] [] (heap_init heap_demo) = Some (live, s')"
  using kheap_calls_return [OF heap_demo_layout, of "[Malloc 100, Malloc 100, Release 7]"] heap_demo_fits by auto

text \<open>C24: The free-list heap refines the abstract heap. A \<open>kmalloc\<close> that does not fail lends at least the
  bytes asked for, out of unused memory and memory lent to nobody, at an address not lent before; a
  \<open>kfree\<close> of a lent address takes exactly that block back. Splitting, merging and the search order do
  not show.\<close>

theorem kheap_refines:
  assumes "heap_inv s bs L"
  shows "(fits s nb \<and> nb \<noteq> 0 \<longrightarrow> kmalloc nb s = Some (0, s) \<or>
      (\<exists>r s' bs' L'. kmalloc nb s = Some (r, s') \<and> r \<noteq> 0 \<and> heap_inv s' bs' L'
         \<and> lends (unat nb) (heap_abs s bs L) r (heap_abs s' bs' L')))
    \<and> (lent (heap_abs s bs L) p \<noteq> None \<longrightarrow>
      (\<exists>s' bs' L'. kfree p s = Some s' \<and> heap_inv s' bs' L' \<and> takes_back p (heap_abs s bs L) (heap_abs s' bs' L')))"
  using kmalloc_lends [OF assms] kfree_takes_back [OF assms] by blast

theorem kheap_refines_witness:
  "kmalloc 100 (heap_init heap_demo) = Some (0, heap_init heap_demo) \<or>
   (\<exists>r s' bs' L'. kmalloc 100 (heap_init heap_demo) = Some (r, s') \<and> r \<noteq> 0 \<and> heap_inv s' bs' L'
      \<and> lends 100 (heap_abs (heap_init heap_demo) [] {}) r (heap_abs s' bs' L'))"
  using kheap_refines [OF heap_inv_init [OF heap_demo_layout], of 100] heap_demo_fits by simp

end
