(* ===== verification/Vmm.thy ===== *)
theory Vmm
  imports Pmm Uaccess
begin

section \<open>Virtual memory (src/kernel/vmm.c)\<close>

text \<open>
  The four-level page tables of x86-64. A table is known by its pointer, a kernel virtual address in the
  direct map; \<open>tbl\<close> gives its 512 entries. Pages that hold tables are not pages that hold data (the
  page allocator gives each page out once), so the bytes of data pages are a separate map \<open>ram\<close>, by
  kernel virtual address. \<open>cr3\<close> is the register. Running out of physical pages inside
  \<open>vmm_map_page\<close> is a panic of the source and gives \<open>None\<close>; flushing the TLB has no effect here.
\<close>

definition PAGE_PRESENT :: u64 where "PAGE_PRESENT = 1"
definition PAGE_WRITE :: u64 where "PAGE_WRITE = 2"
definition PAGE_USER :: u64 where "PAGE_USER = 4"
definition PAGE_NO_EXEC :: u64 where "PAGE_NO_EXEC = 0x8000000000000000"
definition PHYSICAL_ADDR_MASK :: u64 where "PHYSICAL_ADDR_MASK = 0x000FFFFFFFFFF000"

record vmm =
  tbl :: "u64 \<Rightarrow> nat \<Rightarrow> u64"
  ram :: memory
  v_pmm :: pmm_state
  kernel_pml4 :: u64
  cr3 :: u64

definition vmm_phys_to_virt :: "vmm \<Rightarrow> u64 \<Rightarrow> u64" where
  "vmm_phys_to_virt s p = p + pmm_hhdm_offset (v_pmm s)"

definition vmm_virt_to_phys :: "vmm \<Rightarrow> u64 \<Rightarrow> u64" where
  "vmm_virt_to_phys s v = v - pmm_hhdm_offset (v_pmm s)"

definition vmm_get_current_pml4 :: "vmm \<Rightarrow> u64" where
  "vmm_get_current_pml4 s = vmm_phys_to_virt s (cr3 s)"

definition vmm_init :: "vmm \<Rightarrow> vmm" where
  "vmm_init s = s\<lparr>kernel_pml4 := vmm_phys_to_virt s (cr3 s)\<rparr>"

definition vmm_switch_address_space :: "u64 \<Rightarrow> vmm \<Rightarrow> vmm" where
  "vmm_switch_address_space pml4 s = s\<lparr>cr3 := vmm_virt_to_phys s pml4\<rparr>"

text \<open>Entries 0 to 255 are cleared, 256 to 511 copied from the kernel's table.\<close>

definition vmm_create_address_space :: "vmm \<Rightarrow> (u64 \<times> vmm) option" where
  "vmm_create_address_space s = do {
     (page, pm) \<leftarrow> pmm_alloc_page (v_pmm s);
     let s1 = s\<lparr>v_pmm := pm\<rparr>;
     let new = vmm_phys_to_virt s1 page;
     if new = 0 then Some (0, s1)
     else let t1 = (tbl s1)(new := \<lambda>i. if i < 256 then 0 else tbl s1 new i);
              t2 = t1(new := \<lambda>i. if 256 \<le> i \<and> i < 512 then t1 (kernel_pml4 s1) i else t1 new i)
          in Some (new, s1\<lparr>tbl := t2\<rparr>) }"

definition present :: "u64 \<Rightarrow> bool" where
  "present e \<longleftrightarrow> e AND PAGE_PRESENT \<noteq> 0"

definition table_index :: "nat \<Rightarrow> u64 \<Rightarrow> nat" where
  "table_index shift v = unat (drop_bit shift v AND 0x1FF)"

definition entry_table :: "vmm \<Rightarrow> u64 \<Rightarrow> u64" where
  "entry_table s e = vmm_phys_to_virt s (e AND PHYSICAL_ADDR_MASK)"

definition set_table_entry :: "u64 \<Rightarrow> nat \<Rightarrow> u64 \<Rightarrow> vmm \<Rightarrow> vmm" where
  "set_table_entry t i e s = s\<lparr>tbl := (tbl s)(t := (tbl s t)(i := e))\<rparr>"

text \<open>One level of \<open>vmm_map_page\<close>: the table an entry points at, made first when the entry is empty.\<close>

definition next_table :: "u64 \<Rightarrow> nat \<Rightarrow> vmm \<Rightarrow> (u64 \<times> vmm) option" where
  "next_table t i s =
     (if \<not> present (tbl s t i)
      then do {
        (page, pm) \<leftarrow> pmm_alloc_page (v_pmm s);
        if page = 0 then None
        else let s1 = s\<lparr>v_pmm := pm\<rparr>;
                 new = vmm_phys_to_virt s1 page;
                 s2 = s1\<lparr>tbl := (tbl s1)(new := \<lambda>_. 0)\<rparr>
             in Some (new, set_table_entry t i (page OR PAGE_PRESENT OR PAGE_WRITE OR PAGE_USER) s2) }
      else Some (entry_table s (tbl s t i), s))"

definition vmm_map_page :: "u64 \<Rightarrow> u64 \<Rightarrow> u64 \<Rightarrow> u64 \<Rightarrow> vmm \<Rightarrow> vmm option" where
  "vmm_map_page pml4 virt phys flags s = do {
     (pdpt, s1) \<leftarrow> next_table pml4 (table_index 39 virt) s;
     (pd, s2) \<leftarrow> next_table pdpt (table_index 30 virt) s1;
     (pt, s3) \<leftarrow> next_table pd (table_index 21 virt) s2;
     Some (set_table_entry pt (table_index 12 virt) (phys OR flags) s3) }"

definition vmm_map_page_current :: "u64 \<Rightarrow> u64 \<Rightarrow> u64 \<Rightarrow> vmm \<Rightarrow> vmm option" where
  "vmm_map_page_current virt phys flags s = vmm_map_page (vmm_get_current_pml4 s) virt phys flags s"

definition vmm_unmap_page :: "u64 \<Rightarrow> u64 \<Rightarrow> vmm \<Rightarrow> u64 \<times> vmm" where
  "vmm_unmap_page pml4 virt s =
     (let e4 = tbl s pml4 (table_index 39 virt)
      in if \<not> present e4 then (0, s)
         else let e3 = tbl s (entry_table s e4) (table_index 30 virt)
              in if \<not> present e3 then (0, s)
                 else let e2 = tbl s (entry_table s e3) (table_index 21 virt)
                      in if \<not> present e2 then (0, s)
                         else let pt = entry_table s e2; e1 = tbl s pt (table_index 12 virt)
                              in if \<not> present e1 then (0, s)
                                 else (e1 AND PHYSICAL_ADDR_MASK, set_table_entry pt (table_index 12 virt) 0 s))"

definition vmm_unmap_page_current :: "u64 \<Rightarrow> vmm \<Rightarrow> u64 \<times> vmm" where
  "vmm_unmap_page_current virt s = vmm_unmap_page (vmm_get_current_pml4 s) virt s"

definition vmm_get_phys_addr :: "vmm \<Rightarrow> u64 \<Rightarrow> u64 \<Rightarrow> u64" where
  "vmm_get_phys_addr s pml4 virt =
     (let e4 = tbl s pml4 (table_index 39 virt)
      in if \<not> present e4 then 0
         else let e3 = tbl s (entry_table s e4) (table_index 30 virt)
              in if \<not> present e3 then 0
                 else let e2 = tbl s (entry_table s e3) (table_index 21 virt)
                      in if \<not> present e2 then 0
                         else let e1 = tbl s (entry_table s e2) (table_index 12 virt)
                              in if \<not> present e1 then 0
                                 else (e1 AND PHYSICAL_ADDR_MASK) + (virt AND 0xFFF))"

fun store_bytes :: "u64 \<Rightarrow> u8 list \<Rightarrow> memory \<Rightarrow> memory" where
  "store_bytes a [] m = m"
| "store_bytes a (b # bs) m = store_bytes (a + 1) bs (m(a := b))"

text \<open>
  The copy loop, page by page; \<open>src\<close> is what is left to copy. An unmapped page ends it without a
  report to the caller.
\<close>

function vmm_memcpy_to_userspace :: "u64 \<Rightarrow> u64 \<Rightarrow> u8 list \<Rightarrow> vmm \<Rightarrow> vmm" where
  "vmm_memcpy_to_userspace pml4 virt src s =
     (if src = [] then s
      else let copy_size = min (PAGE_SIZE - unat virt mod PAGE_SIZE) (length src);
               phys = vmm_get_phys_addr s pml4 virt
           in if phys = 0 then s
              else vmm_memcpy_to_userspace pml4 (virt + of_nat copy_size) (drop copy_size src)
                     (s\<lparr>ram := store_bytes (vmm_phys_to_virt s phys) (take copy_size src) (ram s)\<rparr>))"
  by pat_completeness auto
termination
  by (relation "measure (\<lambda>(_, _, src, _). length src)") (auto simp: PAGE_SIZE_def)

declare vmm_memcpy_to_userspace.simps [simp del]

definition free_table :: "u64 \<Rightarrow> vmm \<Rightarrow> vmm option" where
  "free_table t s = do { pm \<leftarrow> pmm_free_page (vmm_virt_to_phys s t) (v_pmm s); Some (s\<lparr>v_pmm := pm\<rparr>) }"

definition destroy_pd :: "u64 \<Rightarrow> vmm \<Rightarrow> vmm option" where
  "destroy_pd pd s = do {
     s' \<leftarrow> for_each (\<lambda>k s. if present (tbl s pd k) then free_table (entry_table s (tbl s pd k)) s else Some s)
            [0..<512] s;
     free_table pd s' }"

definition destroy_pdpt :: "u64 \<Rightarrow> vmm \<Rightarrow> vmm option" where
  "destroy_pdpt pdpt s = do {
     s' \<leftarrow> for_each (\<lambda>j s. if present (tbl s pdpt j) then destroy_pd (entry_table s (tbl s pdpt j)) s else Some s)
            [0..<512] s;
     free_table pdpt s' }"

definition vmm_destroy_address_space :: "u64 \<Rightarrow> vmm \<Rightarrow> vmm option" where
  "vmm_destroy_address_space pml4 s =
     (if pml4 = 0 then Some s
      else do {
        s' \<leftarrow> for_each (\<lambda>i s. if present (tbl s pml4 i) then destroy_pdpt (entry_table s (tbl s pml4 i)) s else Some s)
               [0..<256] s;
        free_table pml4 s' })"

subsection \<open>Entries\<close>

lemma present_iff: "present e \<longleftrightarrow> bit e 0"
  by (simp add: present_def PAGE_PRESENT_def and_one_eq bit_0 odd_iff_mod_2_eq_one)

lemma mask_is: "PHYSICAL_ADDR_MASK = push_bit 12 (mask 40)"
  by (simp add: PHYSICAL_ADDR_MASK_def push_bit_eq_mult mask_eq_exp_minus_1)

lemma table_flags: "PAGE_PRESENT OR PAGE_WRITE OR PAGE_USER = (mask 3 :: u64)"
  by (simp add: PAGE_PRESENT_def PAGE_WRITE_def PAGE_USER_def mask_eq_exp_minus_1)

lemma page_addr_push: "(of_nat (f * PAGE_SIZE) :: u64) = push_bit 12 (of_nat f)"
  by (simp add: PAGE_SIZE_def push_bit_eq_mult)

lemma page_entry:
  assumes "f < 2 ^ 40"
  shows "(of_nat (f * PAGE_SIZE) OR PAGE_PRESENT OR PAGE_WRITE OR PAGE_USER) AND PHYSICAL_ADDR_MASK
       = (of_nat (f * PAGE_SIZE) :: u64)"
    and "present (of_nat (f * PAGE_SIZE) OR PAGE_PRESENT OR PAGE_WRITE OR PAGE_USER)"
proof -
  have t: "take_bit 40 (of_nat f :: u64) = of_nat f"
    using assms by (simp only: take_bit_of_nat take_bit_nat_eq_self)
  have b: "bit (of_nat f :: u64) n \<longrightarrow> n < 40" for n
    using t by (metis bit_take_bit_iff)
  show "(of_nat (f * PAGE_SIZE) OR PAGE_PRESENT OR PAGE_WRITE OR PAGE_USER) AND PHYSICAL_ADDR_MASK
       = (of_nat (f * PAGE_SIZE) :: u64)"
    unfolding table_flags mask_is page_addr_push
    by (rule bit_word_eqI) (use b in \<open>auto simp: bit_simps\<close>)
  show "present (of_nat (f * PAGE_SIZE) OR PAGE_PRESENT OR PAGE_WRITE OR PAGE_USER)"
    unfolding present_iff table_flags by (simp add: bit_simps)
qed

subsection \<open>The tables of an address space form a tree\<close>

fun walk :: "vmm \<Rightarrow> u64 \<Rightarrow> nat list \<Rightarrow> u64 option" where
  "walk s t [] = Some t"
| "walk s t (i # is) = (if present (tbl s t i) then walk s (entry_table s (tbl s t i)) is else None)"

definition table_path :: "nat list \<Rightarrow> bool" where
  "table_path p \<longleftrightarrow> length p \<le> 3 \<and> (\<forall>i\<in>set p. i < 512)"

definition backed :: "vmm \<Rightarrow> u64 \<Rightarrow> bool" where
  "backed s t \<longleftrightarrow> (\<exists>f. f < pmm_total_pages (v_pmm s) \<and> f \<notin> pmm_free_set (v_pmm s)
     \<and> t = vmm_phys_to_virt s (of_nat (f * PAGE_SIZE)))"

text \<open>
  Every table reachable from the root \<open>r\<close> is a page of memory that is not free, and no table is reached
  by two paths. Physical addresses have 52 bits.
\<close>

definition vmm_tree :: "vmm \<Rightarrow> u64 \<Rightarrow> bool" where
  "vmm_tree s r \<longleftrightarrow> pmm_ready (v_pmm s) \<and> pmm_total_pages (v_pmm s) \<le> 2 ^ 40
     \<and> (\<forall>p t. table_path p \<longrightarrow> walk s r p = Some t \<longrightarrow> backed s t)
     \<and> (\<forall>p q t. table_path p \<longrightarrow> table_path q \<longrightarrow> walk s r p = Some t \<longrightarrow> walk s r q = Some t \<longrightarrow> p = q)"

text \<open>The address space a root stands for: the entry of each mapped page, by its four table indices.\<close>

definition vpn :: "u64 \<Rightarrow> nat list" where
  "vpn v = [table_index 39 v, table_index 30 v, table_index 21 v, table_index 12 v]"

definition page_path :: "nat list \<Rightarrow> bool" where
  "page_path p \<longleftrightarrow> length p = 4 \<and> (\<forall>i\<in>set p. i < 512)"

definition space :: "vmm \<Rightarrow> u64 \<Rightarrow> nat list \<Rightarrow> u64 option" where
  "space s r p =
     (if page_path p
      then (case walk s r (butlast p) of
              None \<Rightarrow> None
            | Some t \<Rightarrow> if present (tbl s t (last p)) then Some (tbl s t (last p)) else None)
      else None)"

lemma table_index_less: "table_index n v < 512"
proof -
  have m: "(0x1FF :: u64) = mask 9" by (simp add: mask_eq_exp_minus_1)
  have "unat (drop_bit n v AND 0x1FF) = unat (drop_bit n v) mod 512"
    unfolding m by (simp add: unsigned_and_eq take_bit_eq_mask [symmetric] take_bit_eq_mod unat_mod)
  then show ?thesis by (simp add: table_index_def)
qed

lemma page_path_vpn [simp]: "page_path (vpn v)"
  by (simp add: page_path_def vpn_def table_index_less)

lemma walk_snoc:
  "walk s t (p @ [i]) = (case walk s t p of None \<Rightarrow> None
     | Some u \<Rightarrow> if present (tbl s u i) then Some (entry_table s (tbl s u i)) else None)"
  by (induction p arbitrary: t) auto

lemma table_path_snoc: "table_path (p @ [i]) \<Longrightarrow> table_path p" "table_path (p @ [i]) \<Longrightarrow> i < 512"
  by (auto simp: table_path_def)

lemma table_path_pre: "table_path p \<Longrightarrow> length p \<le> 2 \<Longrightarrow> i < 512 \<Longrightarrow> table_path (p @ [i])"
  by (simp add: table_path_def)

lemma vmm_treeD:
  assumes "vmm_tree s r"
  shows "pmm_ready (v_pmm s)" "pmm_total_pages (v_pmm s) \<le> 2 ^ 40"
    "\<And>p t. table_path p \<Longrightarrow> walk s r p = Some t \<Longrightarrow> backed s t"
    "\<And>p q t. table_path p \<Longrightarrow> table_path q \<Longrightarrow> walk s r p = Some t \<Longrightarrow> walk s r q = Some t \<Longrightarrow> p = q"
  using assms by (auto simp: vmm_tree_def)

lemma finite_free: "finite (pmm_free_set s)"
  by (simp add: pmm_free_set_def)

text \<open>What a call that makes at most one table leaves alone.\<close>

definition same_machine :: "vmm \<Rightarrow> vmm \<Rightarrow> bool" where
  "same_machine s s' \<longleftrightarrow> ram s' = ram s \<and> kernel_pml4 s' = kernel_pml4 s \<and> cr3 s' = cr3 s
     \<and> pmm_hhdm_offset (v_pmm s') = pmm_hhdm_offset (v_pmm s)
     \<and> pmm_total_pages (v_pmm s') = pmm_total_pages (v_pmm s)"

lemma phys_to_virt_inj: "vmm_phys_to_virt s a = vmm_phys_to_virt s b \<longleftrightarrow> a = b"
  by (simp add: vmm_phys_to_virt_def)

lemma next_table_step:
  assumes tree: "vmm_tree s r" and p: "walk s r p = Some t" "length p \<le> 2" "table_path p" and i: "i < 512"
    and free: "pmm_free_set (v_pmm s) \<noteq> {}"
  shows "\<exists>t' s'. next_table t i s = Some (t', s') \<and> vmm_tree s' r \<and> walk s' r (p @ [i]) = Some t' \<and> same_machine s s'
    \<and> card (pmm_free_set (v_pmm s)) \<le> card (pmm_free_set (v_pmm s')) + 1 \<and> space s' r = space s r
    \<and> pmm_free_set (v_pmm s') \<subseteq> pmm_free_set (v_pmm s)"
proof (cases "present (tbl s t i)")
  case True
  then have "next_table t i s = Some (entry_table s (tbl s t i), s)" by (simp add: next_table_def)
  then show ?thesis using tree True p(1) by (simp add: walk_snoc same_machine_def)
next
  case False
  note T = vmm_treeD [OF tree]
  have pi: "pmm_inv (v_pmm s)" "0 \<notin> pmm_free_set (v_pmm s)" using T(1) by (auto simp: pmm_ready_def)
  from alloc_page_cases [OF pi(1)] free obtain f where f: "f \<in> pmm_free_set (v_pmm s)" "pmm_alloc_page (v_pmm s) = pmm_take_page (v_pmm s) f"
    by auto
  obtain pm where pm: "pmm_take_page (v_pmm s) f = Some (of_nat (f * PAGE_SIZE), pm)" "pmm_inv pm"
    "pmm_free_set pm = pmm_free_set (v_pmm s) - {f}" "pmm_total_pages pm = pmm_total_pages (v_pmm s)"
    "pmm_hhdm_offset pm = pmm_hhdm_offset (v_pmm s)" by (rule take_page_spec [OF pi(1) f(1)]) blast
  have ft: "f < pmm_total_pages (v_pmm s)" "f \<noteq> 0" using f(1) pi(2) by (auto simp: pmm_free_set_def intro: gr0I)
  have f40: "f < 2 ^ 40" using ft(1) T(2) by linarith
  have "unat (of_nat (f * PAGE_SIZE) :: u64) = f * PAGE_SIZE" by (rule unat_page_addr) (use f40 in simp)
  then have page0: "(of_nat (f * PAGE_SIZE) :: u64) \<noteq> 0" using ft(2) by (metis PAGE_SIZE_def mult_is_0 unat_0 zero_neq_numeral)
  define page :: u64 where "page = of_nat (f * PAGE_SIZE)"
  define new where "new = vmm_phys_to_virt s page"
  define e where "e = page OR PAGE_PRESENT OR PAGE_WRITE OR PAGE_USER"
  define s' where "s' = set_table_entry t i e (s\<lparr>v_pmm := pm, tbl := (tbl s)(new := \<lambda>_. 0)\<rparr>)"
  have E: "present e" "e AND PHYSICAL_ADDR_MASK = page" using page_entry [OF f40] by (simp_all add: e_def page_def)
  have virt: "vmm_phys_to_virt s' x = vmm_phys_to_virt s x" for x
    by (simp add: s'_def set_table_entry_def vmm_phys_to_virt_def pm(5))
  then have ent: "entry_table s' x = entry_table s x" for x by (simp add: entry_table_def)
  have run: "next_table t i s = Some (new, s')"
    using False f(2) pm(1) page0
    by (simp add: next_table_def Let_def s'_def e_def new_def page_def vmm_phys_to_virt_def pm(5) del: of_nat_mult)
  have fresh: "walk s r q = Some u \<Longrightarrow> table_path q \<Longrightarrow> u \<noteq> new" for q u
  proof
    assume "walk s r q = Some u" "table_path q" "u = new"
    from T(3) [OF this(2,1)] this(3) obtain g where "g \<notin> pmm_free_set (v_pmm s)" "g < pmm_total_pages (v_pmm s)"
      "of_nat (g * PAGE_SIZE) = (of_nat (f * PAGE_SIZE) :: u64)"
      by (auto simp: backed_def new_def page_def phys_to_virt_inj)
    moreover have "g < 2 ^ 52" "f < 2 ^ 52" using \<open>g < pmm_total_pages (v_pmm s)\<close> T(2) f40 by auto
    ultimately have "g * PAGE_SIZE = f * PAGE_SIZE" using unat_page_addr [of g] unat_page_addr [of f] by argo
    then show False using f(1) \<open>g \<notin> pmm_free_set (v_pmm s)\<close> by (simp add: PAGE_SIZE_def)
  qed
  have tn: "t \<noteq> new" using fresh p(1,3) by blast
  have t1: "tbl s' new j = 0" for j using tn by (simp add: s'_def set_table_entry_def)
  have t2: "tbl s' t i = e" by (simp add: s'_def set_table_entry_def)
  have t3: "u \<noteq> new \<Longrightarrow> u \<noteq> t \<or> j \<noteq> i \<Longrightarrow> tbl s' u j = tbl s u j" for u j by (auto simp: s'_def set_table_entry_def)
  have none: "walk s r (p @ [i]) = None" using False p(1) by (simp add: walk_snoc)
  have np0: "\<not> present 0" by (simp add: present_def)
  have walks: "walk s' r q = (if q = p @ [i] then Some new else walk s r q)" if "table_path q" for q
    using that
  proof (induction q rule: rev_induct)
    case (snoc y ys)
    note pth = table_path_snoc [OF snoc.prems]
    show ?case
    proof (cases "ys = p @ [i]")
      case True
      then have "walk s' r ys = Some new" "walk s r ys = None" using snoc.IH pth none by auto
      then have "walk s' r (ys @ [y]) = None" "walk s r (ys @ [y]) = None"
        unfolding walk_snoc [of _ _ ys y] using t1 np0 by simp_all
      moreover have "ys @ [y] \<noteq> p @ [i]" using True by auto
      ultimately show ?thesis by simp
    next
      case ne: False
      then have w: "walk s' r ys = walk s r ys" using snoc.IH pth by simp
      show ?thesis
      proof (cases "walk s r ys")
        case None
        then show ?thesis using w p(1) by (auto simp: walk_snoc)
      next
        case (Some u)
        have un: "u \<noteq> new" using fresh [OF Some pth(1)] .
        show ?thesis
        proof (cases "u = t \<and> y = i")
          case True
          then have "ys = p" using T(4) [OF pth(1) p(3) Some] p(1) by simp
          then show ?thesis using True w Some t2 E virt by (simp add: walk_snoc ent entry_table_def new_def)
        next
          case False
          then have "tbl s' u y = tbl s u y" using t3 un by blast
          moreover have "ys @ [y] \<noteq> p @ [i]" using False Some p(1) by auto
          ultimately show ?thesis using w Some by (auto simp: walk_snoc ent)
        qed
      qed
    qed
  qed simp
  have bk: "backed s' u" if "backed s u \<or> u = new" for u
    using that pm(3,4) ft f(1) virt
    by (auto simp: backed_def s'_def set_table_entry_def new_def page_def)
  have tree': "vmm_tree s' r" unfolding vmm_tree_def
  proof (intro conjI allI impI)
    show "pmm_ready (v_pmm s')" "pmm_total_pages (v_pmm s') \<le> 2 ^ 40"
      using pm T(1,2) by (simp_all add: s'_def set_table_entry_def pmm_ready_def)
  next
    fix q u assume "table_path q" "walk s' r q = Some u"
    then show "backed s' u" using walks bk T(3) by (metis option.inject)
  next
    fix q q' u assume q: "table_path q" "table_path q'" "walk s' r q = Some u" "walk s' r q' = Some u"
    then show "q = q'" using walks [OF q(1)] walks [OF q(2)] fresh T(4) by (metis option.inject)
  qed
  have sp: "space s' r q = space s r q" for q
  proof (cases "page_path q")
    case True
    then have tp: "table_path (butlast q)" and l3: "length (butlast q) = 3"
      by (auto simp: page_path_def table_path_def dest: in_set_butlastD)
    show ?thesis
    proof (cases "butlast q = p @ [i]")
      case True
      then show ?thesis using walks [OF tp] none t1 np0 by (simp add: space_def)
    next
      case False
      then have w: "walk s' r (butlast q) = walk s r (butlast q)" using walks [OF tp] by simp
      have "tbl s' u (last q) = tbl s u (last q)" if u: "walk s r (butlast q) = Some u" for u
      proof -
        have "u \<noteq> t" using T(4) [OF tp p(3) u] p(1,2) l3 by auto
        then show ?thesis using t3 fresh [OF u tp] by blast
      qed
      then show ?thesis using w by (auto simp: space_def split: option.split)
    qed
  qed (simp add: space_def)
  have fs: "pmm_free_set (v_pmm s') = pmm_free_set (v_pmm s) - {f}" by (simp add: s'_def set_table_entry_def pm(3))
  then have "card (pmm_free_set (v_pmm s)) \<le> card (pmm_free_set (v_pmm s')) + 1"
    using f(1) finite_free by (simp add: card_Diff_singleton)
  moreover have "walk s' r (p @ [i]) = Some new" using walks [OF table_path_pre [OF p(3,2) i]] by simp
  moreover have "same_machine s s'" by (simp add: same_machine_def s'_def set_table_entry_def pm(4,5))
  ultimately show ?thesis using run tree' sp fs by blast
qed

text \<open>Writing an entry of a last-level table: only the mapping of that page changes.\<close>

lemma set_leaf:
  fixes e :: u64
  assumes tree: "vmm_tree s r" and v: "walk s r (butlast q) = Some pt" "page_path q"
  defines "s' \<equiv> set_table_entry pt (last q) e s"
  shows "vmm_tree s' r" and "space s' r = (space s r)(q := if present e then Some e else None)"
    and "walk s' r (butlast q) = Some pt" and "same_machine s s'" and "v_pmm s' = v_pmm s"
proof -
  note T = vmm_treeD [OF tree]
  have qp: "table_path (butlast q)" "length (butlast q) = 3" "q = butlast q @ [last q]"
    using v(2) by (cases q rule: rev_cases; auto simp: page_path_def table_path_def)+
  have same: "v_pmm s' = v_pmm s" "ram s' = ram s" "kernel_pml4 s' = kernel_pml4 s" "cr3 s' = cr3 s"
    by (simp_all add: s'_def set_table_entry_def)
  show "v_pmm s' = v_pmm s" "same_machine s s'" by (simp_all add: same same_machine_def)
  have ent: "entry_table s' x = entry_table s x" for x by (simp add: entry_table_def vmm_phys_to_virt_def same)
  have t: "tbl s' u j = (if u = pt \<and> j = last q then e else tbl s u j)" for u j
    by (simp add: s'_def set_table_entry_def)
  have walks: "walk s' r p = walk s r p" if "table_path p" for p
    using that
  proof (induction p rule: rev_induct)
    case (snoc y ys)
    have pth: "table_path ys" "length ys \<le> 2" using snoc.prems by (auto simp: table_path_def)
    have "u \<noteq> pt" if "walk s r ys = Some u" for u
    proof
      assume "u = pt"
      then have "ys = butlast q" using T(4) [OF pth(1) qp(1) that] v(1) by simp
      then show False using pth(2) qp(2) by simp
    qed
    then show ?case using snoc.IH [OF pth(1)] t by (simp add: walk_snoc ent split: option.split)
  qed simp
  then show "walk s' r (butlast q) = Some pt" using qp(1) v(1) by simp
  have "backed s' u = backed s u" for u by (simp add: backed_def vmm_phys_to_virt_def same)
  then show "vmm_tree s' r" using tree walks by (simp add: vmm_tree_def same)
  show "space s' r = (space s r)(q := if present e then Some e else None)"
  proof
    fix p
    show "space s' r p = ((space s r)(q := if present e then Some e else None)) p"
    proof (cases "page_path p")
      case True
      then have pp: "table_path (butlast p)" "p = butlast p @ [last p]"
        by (cases p rule: rev_cases; auto simp: page_path_def table_path_def)+
      note w = walks [OF pp(1)]
      show ?thesis
      proof (cases "p = q")
        case True
        then show ?thesis using v w t by (simp add: space_def)
      next
        case ne: False
        have "tbl s' u (last p) = tbl s u (last p)" if "walk s r (butlast p) = Some u" for u
        proof -
          have "\<not> (u = pt \<and> last p = last q)"
          proof
            assume a: "u = pt \<and> last p = last q"
            then have "butlast p = butlast q" using T(4) [OF pp(1) qp(1) that] v(1) by simp
            then have "p = q" using a pp(2) qp(3) by metis
            then show False using ne by simp
          qed
          then show ?thesis using t [of u "last p"] by auto
        qed
        then show ?thesis using w ne by (simp add: space_def split: option.split)
      qed
    next
      case False
      then show ?thesis using v(2) by (auto simp: space_def)
    qed
  qed
qed

text \<open>The lookups of the source are a walk followed by reading the last entry.\<close>

lemma get_phys_addr_space:
  "vmm_get_phys_addr s r v = (case space s r (vpn v) of None \<Rightarrow> 0
     | Some e \<Rightarrow> (e AND PHYSICAL_ADDR_MASK) + (v AND 0xFFF))"
  by (simp add: vmm_get_phys_addr_def space_def Let_def vpn_def page_path_def table_index_less)

lemma unmap_page_some:
  assumes "walk s r (butlast (vpn v)) = Some pt" "space s r (vpn v) = Some e"
  shows "vmm_unmap_page r v s = (e AND PHYSICAL_ADDR_MASK, set_table_entry pt (last (vpn v)) 0 s)"
proof -
  have p: "tbl s pt (last (vpn v)) = e" "present e" using assms by (auto simp: space_def split: if_splits)
  show ?thesis using assms(1) p
    by (auto simp: vmm_unmap_page_def Let_def vpn_def split: if_splits)
qed

lemma unmap_page_none: "space s r (vpn v) = None \<Longrightarrow> vmm_unmap_page r v s = (0, s)"
  by (auto simp: vmm_unmap_page_def space_def Let_def vpn_def page_path_def table_index_less split: if_splits)

lemma same_machine_trans: "same_machine a b \<Longrightarrow> same_machine b c \<Longrightarrow> same_machine a c"
  by (simp add: same_machine_def)

lemma map_page_spec:
  assumes tree: "vmm_tree s r" and free: "3 \<le> card (pmm_free_set (v_pmm s))"
  obtains s3 pt where "vmm_map_page r v phys flags s = Some (set_table_entry pt (last (vpn v)) (phys OR flags) s3)"
    "vmm_tree s3 r" "walk s3 r (butlast (vpn v)) = Some pt" "space s3 r = space s r" "same_machine s s3"
    "card (pmm_free_set (v_pmm s)) \<le> card (pmm_free_set (v_pmm s3)) + 3"
    "pmm_free_set (v_pmm s3) \<subseteq> pmm_free_set (v_pmm s)"
proof -
  let ?i4 = "table_index 39 v" and ?i3 = "table_index 30 v" and ?i2 = "table_index 21 v"
  have ne: "pmm_free_set (v_pmm s) \<noteq> {}" using free by auto
  from next_table_step [OF tree, of "[]" r ?i4] ne obtain t3 s1 where
    s1: "next_table r ?i4 s = Some (t3, s1)" "vmm_tree s1 r" "walk s1 r [?i4] = Some t3" "same_machine s s1"
      "card (pmm_free_set (v_pmm s)) \<le> card (pmm_free_set (v_pmm s1)) + 1" "space s1 r = space s r"
      "pmm_free_set (v_pmm s1) \<subseteq> pmm_free_set (v_pmm s)"
    by (auto simp: table_path_def table_index_less)
  have ne1: "pmm_free_set (v_pmm s1) \<noteq> {}" using free s1(5) by auto
  from next_table_step [OF s1(2,3), of ?i3] ne1 obtain t2 s2 where
    s2: "next_table t3 ?i3 s1 = Some (t2, s2)" "vmm_tree s2 r" "walk s2 r [?i4, ?i3] = Some t2" "same_machine s1 s2"
      "card (pmm_free_set (v_pmm s1)) \<le> card (pmm_free_set (v_pmm s2)) + 1" "space s2 r = space s1 r"
      "pmm_free_set (v_pmm s2) \<subseteq> pmm_free_set (v_pmm s1)"
    by (auto simp: table_path_def table_index_less)
  have ne2: "pmm_free_set (v_pmm s2) \<noteq> {}" using free s1(5) s2(5) by auto
  from next_table_step [OF s2(2,3), of ?i2] ne2 obtain pt s3 where
    s3: "next_table t2 ?i2 s2 = Some (pt, s3)" "vmm_tree s3 r" "walk s3 r [?i4, ?i3, ?i2] = Some pt" "same_machine s2 s3"
      "card (pmm_free_set (v_pmm s2)) \<le> card (pmm_free_set (v_pmm s3)) + 1" "space s3 r = space s2 r"
      "pmm_free_set (v_pmm s3) \<subseteq> pmm_free_set (v_pmm s2)"
    by (auto simp: table_path_def table_index_less)
  have run: "vmm_map_page r v phys flags s = Some (set_table_entry pt (last (vpn v)) (phys OR flags) s3)"
    by (simp add: vmm_map_page_def s1(1) s2(1) s3(1) vpn_def)
  have w: "walk s3 r (butlast (vpn v)) = Some pt" using s3(3) by (simp add: vpn_def)
  have sp: "space s3 r = space s r" using s1(6) s2(6) s3(6) by simp
  have sm: "same_machine s s3" using same_machine_trans s1(4) s2(4) s3(4) by blast
  have "card (pmm_free_set (v_pmm s)) \<le> card (pmm_free_set (v_pmm s3)) + 3" using s1(5) s2(5) s3(5) by linarith
  moreover have "pmm_free_set (v_pmm s3) \<subseteq> pmm_free_set (v_pmm s)" using s1(7) s2(7) s3(7) by blast
  ultimately show thesis using that [OF run s3(2) w sp sm] by blast
qed

subsection \<open>Correctness\<close>

text \<open>C25: The page tables refine a map from virtual pages to entries. With three free pages \<open>vmm_map_page\<close>
  returns and is exactly an update of the map at the page of the address, so translation gives the new
  physical page there and is unchanged elsewhere; \<open>vmm_unmap_page\<close> then hands back that physical page
  and is exactly the removal. Both keep the tables a tree of pages that are not free.\<close>

theorem vmm_map_refines:
  assumes "vmm_tree s r" "3 \<le> card (pmm_free_set (v_pmm s))" "present (phys OR flags)"
  shows "\<exists>s'. vmm_map_page r v phys flags s = Some s' \<and> vmm_tree s' r
    \<and> space s' r = (space s r)(vpn v \<mapsto> phys OR flags)
    \<and> (\<forall>a. vmm_get_phys_addr s' r a =
         (if vpn a = vpn v then ((phys OR flags) AND PHYSICAL_ADDR_MASK) + (a AND 0xFFF) else vmm_get_phys_addr s r a))
    \<and> (\<exists>s''. vmm_unmap_page r v s' = ((phys OR flags) AND PHYSICAL_ADDR_MASK, s'') \<and> vmm_tree s'' r
         \<and> space s'' r = (space s r)(vpn v := None))"
proof -
  obtain s3 pt where m: "vmm_map_page r v phys flags s = Some (set_table_entry pt (last (vpn v)) (phys OR flags) s3)"
    "vmm_tree s3 r" "walk s3 r (butlast (vpn v)) = Some pt" "space s3 r = space s r"
    by (rule map_page_spec [OF assms(1,2)]) blast
  let ?s = "set_table_entry pt (last (vpn v)) (phys OR flags) s3"
  note L = set_leaf [OF m(2,3) page_path_vpn, of "phys OR flags"]
  have sp: "space ?s r = (space s r)(vpn v \<mapsto> phys OR flags)" using L(2) m(4) assms(3) by simp
  have phys: "\<forall>a. vmm_get_phys_addr ?s r a =
      (if vpn a = vpn v then ((phys OR flags) AND PHYSICAL_ADDR_MASK) + (a AND 0xFFF) else vmm_get_phys_addr s r a)"
    by (simp add: get_phys_addr_space sp)
  have "space ?s r (vpn v) = Some (phys OR flags)" using sp by simp
  note U = unmap_page_some [OF L(3) this] and L2 = set_leaf [OF L(1,3) page_path_vpn, of 0]
  have "\<not> present 0" by (simp add: present_def)
  then have "space (set_table_entry pt (last (vpn v)) 0 ?s) r = (space s r)(vpn v := None)" using L2(2) sp by simp
  then show ?thesis using m(1) L(1) sp phys U L2(1) by blast
qed

text \<open>An empty address space rooted in page 1 of a machine whose pages 2 to 7 are free.\<close>

definition vmm_demo :: vmm where
  "vmm_demo = \<lparr>tbl = (\<lambda>_ _. 0), ram = (\<lambda>_. 0),
     v_pmm = \<lparr>pmm_bitmap_addr = 0, pmm_bitmap = [3], pmm_total_pages = 8, pmm_usable_pages = 6,
              pmm_allocated_pages = 0, pmm_last_free_page = 2, pmm_hhdm_offset = 0x100000\<rparr>,
     kernel_pml4 = 0x101000, cr3 = 0x1000\<rparr>"

lemma vmm_demo_tree: "vmm_tree vmm_demo 0x101000"
proof -
  have w: "walk vmm_demo t p = Some u \<longleftrightarrow> p = [] \<and> u = t" for t p u
    by (cases p) (auto simp: vmm_demo_def present_def)
  have b: "backed vmm_demo 0x101000"
    by (auto simp: backed_def vmm_demo_def vmm_phys_to_virt_def pmm_free_set_def page_used_def PAGE_SIZE_def intro!: exI [of _ 1])
  have f: "pmm_ready (v_pmm vmm_demo)"
    by (simp add: vmm_demo_def pmm_ready_def pmm_inv_def pmm_free_set_def page_used_def)
  show ?thesis using w b f by (auto simp: vmm_tree_def) (simp add: vmm_demo_def)
qed

lemma vmm_demo_free: "pmm_free_set (v_pmm vmm_demo) = {2, 3, 4, 5, 6, 7}"
proof -
  have "page_used [3] i \<longleftrightarrow> i < 2" if "i < 8" for i
  proof -
    have m: "(3 :: u8) = mask 2" by (simp add: mask_eq_exp_minus_1)
    show ?thesis using that unfolding page_used_def by (simp add: m bit_mask_iff)
  qed
  then show ?thesis by (auto simp: vmm_demo_def pmm_free_set_def)
qed

theorem vmm_map_refines_witness:
  "\<exists>s'. vmm_map_page 0x101000 0x400000 0x5000 3 vmm_demo = Some s'
     \<and> vmm_get_phys_addr s' 0x101000 0x400123 = 0x5123 \<and> vmm_get_phys_addr s' 0x101000 0x800000 = 0"
proof -
  have "3 \<le> card (pmm_free_set (v_pmm vmm_demo))" by (simp add: vmm_demo_free)
  from vmm_map_refines [OF vmm_demo_tree this, where phys = "0x5000" and flags = 3 and v = "0x400000"]
  obtain s' where s': "vmm_map_page 0x101000 0x400000 0x5000 3 vmm_demo = Some s'"
    "\<forall>a. vmm_get_phys_addr s' 0x101000 a =
         (if vpn a = vpn 0x400000 then ((0x5000 OR 3) AND PHYSICAL_ADDR_MASK) + (a AND 0xFFF)
          else vmm_get_phys_addr vmm_demo 0x101000 a)"
    by (auto simp: present_def PAGE_PRESENT_def)
  have "vpn 0x400123 = vpn 0x400000" "vpn 0x800000 \<noteq> vpn 0x400000" by (simp_all add: vpn_def table_index_def)
  moreover have "vmm_get_phys_addr vmm_demo 0x101000 0x800000 = 0"
    by (simp add: vmm_get_phys_addr_def vmm_demo_def present_def)
  ultimately show ?thesis using s' by (simp add: PHYSICAL_ADDR_MASK_def)
qed

end
