(* ===== verification/Elf.thy ===== *)
theory Elf
  imports Vmm
begin

section \<open>The ELF loader (elf_load of src/kernel/elf.c)\<close>

text \<open>
  The file is the list of its bytes, as read into the kernel buffer; a read past its end is a read
  outside the buffer and gives \<open>None\<close>, as does the panic when physical memory runs out. The offset
  \<open>j\<close> of a page in its segment is a \<open>nat\<close>: it could wrap in 64 bits only after more pages than
  there are. \<open>ram\<close> is addressed through the direct map, as the source does with \<open>P_TO_V\<close>.
\<close>

definition ELFMAG :: "u8 list" where "ELFMAG = [0x7F, 0x45, 0x4C, 0x46]"
definition ELFCLASS64 :: u8 where "ELFCLASS64 = 2"
definition ET_EXEC :: u16 where "ET_EXEC = 2"
definition PT_LOAD :: u32 where "PT_LOAD = 1"
definition PF_X :: u32 where "PF_X = 1"
definition PF_W :: u32 where "PF_W = 2"

definition rd64 :: "nat \<Rightarrow> u8 list \<Rightarrow> u64 option" where
  "rd64 off m = do { lo \<leftarrow> rd32 off m; hi \<leftarrow> rd32 (off + 4) m; Some (ucast lo OR push_bit 32 (ucast hi)) }"

text \<open>The fields of \<open>Elf64_Phdr\<close> the loader reads.\<close>

record Elf64_Phdr =
  p_flags :: u32
  p_offset :: u64
  p_vaddr :: u64
  p_filesz :: u64
  p_memsz :: u64

definition program_header :: "u8 list \<Rightarrow> nat \<Rightarrow> Elf64_Phdr option" where
  "program_header elf at = do {
     fl \<leftarrow> rd32 (at + 4) elf; off \<leftarrow> rd64 (at + 8) elf; va \<leftarrow> rd64 (at + 16) elf;
     fs \<leftarrow> rd64 (at + 32) elf; ms \<leftarrow> rd64 (at + 40) elf;
     Some \<lparr>p_flags = fl, p_offset = off, p_vaddr = va, p_filesz = fs, p_memsz = ms\<rparr> }"

definition segment_flags :: "Elf64_Phdr \<Rightarrow> u64" where
  "segment_flags ph =
     (let f = PAGE_PRESENT OR PAGE_USER;
          f1 = (if p_flags ph AND PF_W \<noteq> 0 then f OR PAGE_WRITE else f)
      in if p_flags ph AND PF_X = 0 then f1 OR PAGE_NO_EXEC else f1)"

text \<open>What is copied into the page at offset \<open>j\<close>: nothing, or up to a page of the file.\<close>

definition page_bytes :: "u8 list \<Rightarrow> Elf64_Phdr \<Rightarrow> nat \<Rightarrow> u8 list option" where
  "page_bytes elf ph j =
     (let offset_in_file = p_offset ph + of_nat j; file_end = p_offset ph + p_filesz ph
      in if offset_in_file < file_end
         then let left = file_end - offset_in_file;
                  to_copy = (if left < of_nat PAGE_SIZE then unat left else PAGE_SIZE)
              in read_at (unat offset_in_file) to_copy elf
         else Some [])"

definition load_page :: "u64 \<Rightarrow> u8 list \<Rightarrow> Elf64_Phdr \<Rightarrow> nat \<Rightarrow> vmm \<Rightarrow> vmm option" where
  "load_page pml4 elf ph j s = do {
     (page, pm) \<leftarrow> pmm_alloc_page (v_pmm s);
     if page = 0 then None
     else do {
       let s1 = s\<lparr>v_pmm := pm\<rparr>;
       let at = vmm_phys_to_virt s1 page;
       s2 \<leftarrow> vmm_map_page pml4 (p_vaddr ph + of_nat j) page (segment_flags ph)
               (s1\<lparr>ram := store_bytes at (replicate PAGE_SIZE 0) (ram s1)\<rparr>);
       bytes \<leftarrow> page_bytes elf ph j;
       Some (s2\<lparr>ram := store_bytes at bytes (ram s2)\<rparr>) } }"

function load_pages :: "u64 \<Rightarrow> u8 list \<Rightarrow> Elf64_Phdr \<Rightarrow> nat \<Rightarrow> vmm \<Rightarrow> vmm option" where
  "load_pages pml4 elf ph j s =
     (if j < unat (p_memsz ph)
      then do { s' \<leftarrow> load_page pml4 elf ph j s; load_pages pml4 elf ph (j + PAGE_SIZE) s' }
      else Some s)"
  by pat_completeness auto
termination
  by (relation "measure (\<lambda>(_, _, ph, j, _). unat (p_memsz ph) - j)") (auto simp: PAGE_SIZE_def)

declare load_pages.simps [simp del]

definition load_segment :: "u64 \<Rightarrow> u8 list \<Rightarrow> nat \<Rightarrow> u64 \<times> vmm \<Rightarrow> (u64 \<times> vmm) option" where
  "load_segment pml4 elf at ms =
     (case ms of (max_vaddr, s) \<Rightarrow> do {
       ty \<leftarrow> rd32 at elf;
       if ty \<noteq> PT_LOAD then Some (max_vaddr, s)
       else do {
         ph \<leftarrow> program_header elf at;
         s' \<leftarrow> load_pages pml4 elf ph 0 s;
         let seg_end = p_vaddr ph + p_memsz ph;
         Some (if seg_end > max_vaddr then seg_end else max_vaddr, s') } })"

text \<open>The magic bytes, compared one after the other up to the first difference.\<close>

fun magic_ok :: "u8 list \<Rightarrow> nat \<Rightarrow> u8 list \<Rightarrow> bool option" where
  "magic_ok [] i elf = Some True"
| "magic_ok (c # cs) i elf = do { b \<leftarrow> rd8 i elf; if b \<noteq> c then Some False else magic_ok cs (i + 1) elf }"

text \<open>The result is the entry point and the program break; \<open>(0, 0)\<close> is failure.\<close>

definition elf_load :: "u64 \<Rightarrow> u8 list option \<Rightarrow> vmm \<Rightarrow> ((u64 \<times> u64) \<times> vmm) option" where
  "elf_load pml4 elf_data s =
     (case elf_data of
        None \<Rightarrow> Some ((0, 0), s)
      | Some elf \<Rightarrow> do {
          magic \<leftarrow> magic_ok ELFMAG 0 elf;
          if \<not> magic then Some ((0, 0), s)
          else do {
            class \<leftarrow> rd8 4 elf;
            if class \<noteq> ELFCLASS64 then Some ((0, 0), s)
            else do {
              e_type \<leftarrow> rd16 16 elf;
              if e_type \<noteq> ET_EXEC then Some ((0, 0), s)
              else do {
                e_phnum \<leftarrow> rd16 56 elf;
                (max_vaddr, s') \<leftarrow> for_each
                   (\<lambda>i ms. do { phoff \<leftarrow> rd64 32 elf; phentsize \<leftarrow> rd16 54 elf;
                                load_segment pml4 elf (unat phoff + i * unat phentsize) ms })
                   [0..<unat e_phnum] (0, s);
                e_entry \<leftarrow> rd64 24 elf;
                Some ((e_entry, max_vaddr), s') } } } })"

subsection \<open>Page numbers and page addresses\<close>

lemma unat_lt_64: "unat (v :: u64) < 2 ^ 64"
  using unsigned_less [of v] by simp

lemma table_index_div: "table_index n v = unat v div 2 ^ n mod 512"
proof -
  have m: "(0x1FF :: u64) = mask 9" by (simp add: mask_eq_exp_minus_1)
  have "unat (drop_bit n v) = unat v div 2 ^ n"
    unfolding unsigned_drop_bit_eq
    using take_bit_nat_eq_self [OF unat_lt_64 [of v]] by (simp add: drop_bit_eq_div)
  then show ?thesis unfolding table_index_def m
    by (simp add: unsigned_and_eq take_bit_eq_mask [symmetric] take_bit_eq_mod unat_mod)
qed

lemma vpn_page: "unat a div PAGE_SIZE = unat b div PAGE_SIZE \<Longrightarrow> vpn a = vpn b"
proof -
  assume e: "unat a div PAGE_SIZE = unat b div PAGE_SIZE"
  have "unat a div 2 ^ (12 + k) = unat b div 2 ^ (12 + k)" for k
    using e by (simp only: power_add div_mult2_eq) (simp add: PAGE_SIZE_def)
  from this [of 27] this [of 18] this [of 9] this [of 0] show ?thesis
    by (simp add: vpn_def table_index_div)
qed

lemma digits:
  "(x :: nat) mod 2 ^ 36 = x mod 512 + 512 * (x div 512 mod 512) + 512 * 512 * (x div 512 div 512 mod 512)
     + 512 * 512 * 512 * (x div 512 div 512 div 512 mod 512)"
proof -
  have "(2 :: nat) ^ 36 = 512 * (512 * (512 * 512))" by simp
  then show ?thesis by (simp only: mod_mult2_eq div_mult2_eq) (simp add: algebra_simps)
qed

lemma vpn_mod: "vpn a = vpn b \<Longrightarrow> unat a div PAGE_SIZE mod 2 ^ 36 = unat b div PAGE_SIZE mod 2 ^ 36"
  unfolding digits
  by (simp add: vpn_def table_index_div PAGE_SIZE_def flip: div_mult2_eq)

lemma unat_add_pages: "unat (v + of_nat (n * PAGE_SIZE) :: u64) div PAGE_SIZE = (unat v div PAGE_SIZE + n) mod 2 ^ 52"
proof -
  have "unat (v + of_nat (n * PAGE_SIZE)) = (unat v + n * PAGE_SIZE) mod (PAGE_SIZE * 2 ^ 52)"
    by (simp add: unat_word_ariths unat_of_nat PAGE_SIZE_def mod_simps)
  then show ?thesis by (simp only: mod_mult2_eq) (simp add: PAGE_SIZE_def add.commute)
qed

lemma add_mod_inj: "n \<le> m \<Longrightarrow> m < q \<Longrightarrow> (x + n) mod q = (x + m) mod q \<Longrightarrow> n = (m :: nat)"
proof -
  assume le: "n \<le> m" "m < q" and e: "(x + n) mod q = (x + m) mod q"
  have "q dvd (x + m) - (x + n)" using mod_eq_dvd_iff_nat [of "x + n" "x + m" q] le(1) e by auto
  then have "q dvd m - n" by simp
  then show "n = m" using dvd_imp_le [of q "m - n"] le by (cases "n = m") auto
qed

lemma vpn_distinct:
  assumes "vpn (v + of_nat (n * PAGE_SIZE)) = vpn (v + of_nat (m * PAGE_SIZE))" "n < 2 ^ 36" "m < 2 ^ 36"
  shows "n = m"
proof -
  let ?x = "unat v div PAGE_SIZE"
  have d: "(2::nat) ^ 36 dvd 2 ^ 52" by (rule le_imp_power_dvd) simp
  from vpn_mod [OF assms(1)] have "(?x + n) mod 2 ^ 36 = (?x + m) mod 2 ^ 36"
    unfolding unat_add_pages mod_mod_cancel [OF d] .
  then show ?thesis
    using add_mod_inj [OF _ assms(3), of n ?x] add_mod_inj [OF _ assms(2), of m ?x] by (metis nat_le_linear)
qed

text \<open>Byte \<open>k\<close> of physical page \<open>f\<close>, as the kernel addresses it.\<close>

definition frame_addr :: "vmm \<Rightarrow> nat \<Rightarrow> nat \<Rightarrow> u64" where
  "frame_addr s f k = vmm_phys_to_virt s (of_nat (f * PAGE_SIZE + k))"

lemma store_bytes_at:
  "length bs < 2 ^ 64 \<Longrightarrow> store_bytes a bs m x = (if unat (x - a) < length bs then bs ! unat (x - a) else m x)"
proof (induction bs arbitrary: a m)
  case (Cons b bs)
  show ?case
  proof (cases "x = a")
    case True
    have "unat (- 1 :: u64) = 2 ^ 64 - 1" by (simp add: unsigned_minus_1_eq_mask mask_eq_exp_minus_1)
    then show ?thesis using Cons True by simp
  next
    case False
    then have "x - a \<noteq> 0" by simp
    then have "unat (x - (a + 1)) = unat (x - a) - 1" "0 < unat (x - a)"
      by (simp_all add: unat_minus_one unat_gt_0 flip: diff_diff_eq)
    then show ?thesis using Cons False by (auto simp: nth_Cons')
  qed
qed simp

lemma frame_addr_diff:
  assumes "f < 2 ^ 40" "g < 2 ^ 40" "k < PAGE_SIZE"
  shows "unat (frame_addr s g k - frame_addr s f 0) < PAGE_SIZE \<longleftrightarrow> g = f"
    and "unat (frame_addr s f k - frame_addr s f 0) = k"
proof -
  have d: "frame_addr s g k - frame_addr s f 0 = of_nat (g * PAGE_SIZE + k) - of_nat (f * PAGE_SIZE)" for g
    by (simp add: frame_addr_def vmm_phys_to_virt_def)
  have b: "h * PAGE_SIZE + k < 2 ^ 64" if "h < 2 ^ 40" for h
  proof -
    have "h * PAGE_SIZE \<le> 2 ^ 40 * PAGE_SIZE" using that by simp
    then show ?thesis using assms(3) by (simp add: PAGE_SIZE_def)
  qed
  show self: "unat (frame_addr s f k - frame_addr s f 0) = k"
  proof -
    have "of_nat (f * PAGE_SIZE + k) - of_nat (f * PAGE_SIZE) = (of_nat k :: u64)" by simp
    then show ?thesis unfolding d using assms(3) by (simp add: unat_of_nat PAGE_SIZE_def)
  qed
  show "unat (frame_addr s g k - frame_addr s f 0) < PAGE_SIZE \<longleftrightarrow> g = f"
  proof (cases g f rule: linorder_cases)
    case equal
    then show ?thesis using self assms(3) by simp
  next
    case greater
    then have "of_nat (g * PAGE_SIZE + k) - of_nat (f * PAGE_SIZE) = (of_nat ((g - f) * PAGE_SIZE + k) :: u64)"
    proof -
      have "g * PAGE_SIZE + k = ((g - f) * PAGE_SIZE + k) + f * PAGE_SIZE"
        using greater by (simp flip: add_mult_distrib)
      then show ?thesis by (metis add_diff_cancel_right' of_nat_add)
    qed
    moreover have "(g - f) * PAGE_SIZE + k < 2 ^ 64" using b [of "g - f"] assms(2) by simp
    moreover have "PAGE_SIZE \<le> (g - f) * PAGE_SIZE + k" using greater by (simp add: PAGE_SIZE_def)
    ultimately show ?thesis unfolding d using greater by (simp only: unat_of_nat) (simp add: not_less)
  next
    case less
    let ?e = "f * PAGE_SIZE - (g * PAGE_SIZE + k)"
    have "(g + 1) * PAGE_SIZE \<le> f * PAGE_SIZE" using less by (intro mult_le_mono1) simp
    then have le: "g * PAGE_SIZE + k < f * PAGE_SIZE" using assms(3) by simp
    then have e: "of_nat (g * PAGE_SIZE + k) - of_nat (f * PAGE_SIZE) = - (of_nat ?e :: u64)"
    proof -
      have "f * PAGE_SIZE = ?e + (g * PAGE_SIZE + k)" using le by simp
      then have "(of_nat (f * PAGE_SIZE) :: u64) = of_nat ?e + of_nat (g * PAGE_SIZE + k)" by (metis of_nat_add)
      then show ?thesis by (simp only: diff_add_eq_diff_diff_swap) simp
    qed
    have eb: "0 < ?e" "?e \<le> 2 ^ 52" using le assms(1) by (auto simp: PAGE_SIZE_def)
    have "(of_nat (2 ^ 64 - ?e) :: u64) = of_nat (2 ^ 64) - of_nat ?e" using eb(2) by (intro of_nat_diff) simp
    then have m: "- (of_nat ?e :: u64) = of_nat (2 ^ 64 - ?e)" by simp
    have "unat (- (of_nat ?e :: u64)) = 2 ^ 64 - ?e" unfolding m unat_of_nat by (rule mod_less) (use eb in simp)
    then show ?thesis unfolding d e using eb less by (simp add: PAGE_SIZE_def)
  qed
qed

subsection \<open>One page of a segment\<close>

definition file_byte :: "u8 list \<Rightarrow> Elf64_Phdr \<Rightarrow> nat \<Rightarrow> u8" where
  "file_byte elf ph m = (if m < unat (p_filesz ph) then elf ! (unat (p_offset ph) + m) else 0)"

text \<open>The file part of the segment lies in the file, and no sum of offsets wraps.\<close>

definition segment_in_file :: "u8 list \<Rightarrow> Elf64_Phdr \<Rightarrow> bool" where
  "segment_in_file elf ph \<longleftrightarrow> unat (p_offset ph) + unat (p_filesz ph) \<le> length elf
     \<and> unat (p_offset ph) + unat (p_memsz ph) < 2 ^ 63 \<and> unat (p_offset ph) + unat (p_filesz ph) < 2 ^ 63"

lemma page_bytes_spec:
  assumes "segment_in_file elf ph" "j < unat (p_memsz ph)"
  obtains bs where "page_bytes elf ph j = Some bs" "length bs \<le> PAGE_SIZE"
    "\<And>k. k < PAGE_SIZE \<Longrightarrow> (if k < length bs then bs ! k else 0) = file_byte elf ph (j + k)"
proof -
  let ?o = "unat (p_offset ph)" and ?fs = "unat (p_filesz ph)"
  have b: "?o + ?fs \<le> length elf" "?o + j < 2 ^ 63" "?o + ?fs < 2 ^ 63" using assms by (auto simp: segment_in_file_def)
  have u1: "unat (p_offset ph + of_nat j) = ?o + j"
    using b(2) by (simp add: unat_word_ariths unat_of_nat mod_simps)
  have u2: "unat (p_offset ph + p_filesz ph) = ?o + ?fs" using b(3) by (simp add: unat_word_ariths)
  show thesis
  proof (cases "j < ?fs")
    case False
    then have "page_bytes elf ph j = Some []" by (simp add: page_bytes_def Let_def word_less_nat_alt u1 u2)
    then show thesis using False by (intro that [of "[]"]) (auto simp: file_byte_def)
  next
    case True
    let ?left = "(p_offset ph + p_filesz ph) - (p_offset ph + of_nat j)"
    have "unat ?left = (?o + ?fs) - (?o + j)"
      using True by (subst unat_sub) (simp_all only: word_le_nat_alt u1 u2)
    then have l: "unat ?left = ?fs - j" using True by simp
    let ?n = "min PAGE_SIZE (?fs - j)"
    have p: "unat (of_nat PAGE_SIZE :: u64) = PAGE_SIZE" by (simp add: PAGE_SIZE_def)
    have "page_bytes elf ph j = read_at (?o + j) ?n elf"
      using True unfolding page_bytes_def Let_def word_less_nat_alt u1 u2 l p by (simp add: min_def)
    moreover have "?o + j + ?n \<le> length elf" using b(1) True by linarith
    ultimately have "page_bytes elf ph j = Some (take ?n (drop (?o + j) elf))" by (simp add: read_at_def)
    moreover have "length (take ?n (drop (?o + j) elf)) = ?n" using \<open>?o + j + ?n \<le> length elf\<close> by simp
    ultimately show thesis using True \<open>?o + j + ?n \<le> length elf\<close>
      by (intro that) (auto simp: file_byte_def add.assoc)
  qed
qed

definition segment_pages :: "Elf64_Phdr \<Rightarrow> nat" where
  "segment_pages ph = (unat (p_memsz ph) + PAGE_SIZE - 1) div PAGE_SIZE"

definition free_pages :: "vmm \<Rightarrow> nat set" where "free_pages s = pmm_free_set (v_pmm s)"

definition keeps_frame :: "vmm \<Rightarrow> vmm \<Rightarrow> nat \<Rightarrow> bool" where
  "keeps_frame s s' g \<longleftrightarrow> (\<forall>k<PAGE_SIZE. ram s' (frame_addr s' g k) = ram s (frame_addr s g k))"

definition holds_page :: "u8 list \<Rightarrow> Elf64_Phdr \<Rightarrow> nat \<Rightarrow> vmm \<Rightarrow> nat \<Rightarrow> bool" where
  "holds_page elf ph j s f \<longleftrightarrow> (\<forall>k<PAGE_SIZE. ram s (frame_addr s f k) = file_byte elf ph (j + k))"

lemma store_frame:
  assumes "length bs \<le> PAGE_SIZE" "f < 2 ^ 40" "g < 2 ^ 40" "k < PAGE_SIZE"
  shows "store_bytes (frame_addr s f 0) bs m (frame_addr s g k) =
    (if g = f \<and> k < length bs then bs ! k else m (frame_addr s g k))"
proof -
  have l: "length bs < 2 ^ 64" using assms(1) by (simp add: PAGE_SIZE_def)
  note D = frame_addr_diff [OF assms(2,3,4), of s]
  show ?thesis
  proof (cases "g = f")
    case True
    then show ?thesis using D(2) by (simp add: store_bytes_at [OF l])
  next
    case False
    then have "\<not> unat (frame_addr s g k - frame_addr s f 0) < length bs" using D(1) assms(1) by simp
    then show ?thesis using False by (simp add: store_bytes_at [OF l])
  qed
qed

lemma segment_flags_bits: "segment_flags ph AND PHYSICAL_ADDR_MASK = 0" "present (segment_flags ph)"
  by (simp_all add: segment_flags_def Let_def present_def PAGE_PRESENT_def PAGE_USER_def PAGE_WRITE_def PAGE_NO_EXEC_def
      PHYSICAL_ADDR_MASK_def)

lemma segment_entry:
  "f < 2 ^ 40 \<Longrightarrow> (of_nat (f * PAGE_SIZE) OR segment_flags ph) AND PHYSICAL_ADDR_MASK = of_nat (f * PAGE_SIZE)"
  "present (of_nat g OR segment_flags ph)"
proof -
  assume f: "f < 2 ^ 40"
  have "(PAGE_PRESENT OR PAGE_WRITE OR PAGE_USER) AND PHYSICAL_ADDR_MASK = 0"
    by (simp add: PAGE_PRESENT_def PAGE_USER_def PAGE_WRITE_def PHYSICAL_ADDR_MASK_def)
  then show "(of_nat (f * PAGE_SIZE) OR segment_flags ph) AND PHYSICAL_ADDR_MASK = of_nat (f * PAGE_SIZE)"
    using page_entry(1) [OF f] by (simp add: bit.conj_disj_distrib2 segment_flags_bits del: of_nat_mult)
next
  show "present (of_nat g OR segment_flags ph)"
    using segment_flags_bits(2) unfolding present_iff by (simp add: bit_simps)
qed

lemma load_page_spec:
  assumes tree: "vmm_tree s r" and free: "4 \<le> card (free_pages s)"
    and seg: "segment_in_file elf ph" "j < unat (p_memsz ph)"
  obtains f s' where "load_page r elf ph j s = Some s'" "vmm_tree s' r" "f \<in> free_pages s" "f \<notin> free_pages s'"
    "free_pages s' \<subseteq> free_pages s" "card (free_pages s) \<le> card (free_pages s') + 4"
    "space s' r = (space s r)(vpn (p_vaddr ph + of_nat j) \<mapsto> of_nat (f * PAGE_SIZE) OR segment_flags ph)"
    "holds_page elf ph j s' f" "\<And>g. g < 2 ^ 40 \<Longrightarrow> g \<noteq> f \<Longrightarrow> keeps_frame s s' g"
    "pmm_total_pages (v_pmm s') = pmm_total_pages (v_pmm s)"
    "pmm_hhdm_offset (v_pmm s') = pmm_hhdm_offset (v_pmm s)"
proof -
  let ?va = "p_vaddr ph + of_nat j" and ?fl = "segment_flags ph"
  note T = vmm_treeD [OF tree]
  have pi: "pmm_inv (v_pmm s)" "0 \<notin> free_pages s" using T(1) by (auto simp: pmm_ready_def free_pages_def)
  have ne: "pmm_free_set (v_pmm s) \<noteq> {}" using free by (auto simp: free_pages_def)
  from alloc_page_cases [OF pi(1)] ne obtain f where
    f: "f \<in> pmm_free_set (v_pmm s)" "pmm_alloc_page (v_pmm s) = pmm_take_page (v_pmm s) f" by auto
  obtain pm where pm: "pmm_take_page (v_pmm s) f = Some (of_nat (f * PAGE_SIZE), pm)" "pmm_inv pm"
    "pmm_free_set pm = pmm_free_set (v_pmm s) - {f}" "pmm_total_pages pm = pmm_total_pages (v_pmm s)"
    "pmm_hhdm_offset pm = pmm_hhdm_offset (v_pmm s)" by (rule take_page_spec [OF pi(1) f(1)]) blast
  have ft: "f < pmm_total_pages (v_pmm s)" "f \<noteq> 0" using f(1) pi(2) by (auto simp: free_pages_def pmm_free_set_def intro: gr0I)
  have f40: "f < 2 ^ 40" using ft(1) T(2) by linarith
  have "unat (of_nat (f * PAGE_SIZE) :: u64) = f * PAGE_SIZE" by (rule unat_page_addr) (use f40 in simp)
  then have page0: "(of_nat (f * PAGE_SIZE) :: u64) \<noteq> 0" using ft(2) by (metis PAGE_SIZE_def mult_is_0 unat_0 zero_neq_numeral)
  define s1 where "s1 = s\<lparr>v_pmm := pm\<rparr>"
  define s2 where "s2 = s1\<lparr>ram := store_bytes (frame_addr s f 0) (replicate PAGE_SIZE 0) (ram s)\<rparr>"
  have tbl2: "tbl s2 = tbl s" and pm2: "v_pmm s2 = pm" by (simp_all add: s1_def s2_def)
  have virt2: "vmm_phys_to_virt s2 x = vmm_phys_to_virt s x" for x by (simp add: vmm_phys_to_virt_def pm2 pm(5))
  then have walk2: "walk s2 t p = walk s t p" for t p by (induction p arbitrary: t) (simp_all add: tbl2 entry_table_def)
  have tree2: "vmm_tree s2 r" unfolding vmm_tree_def
  proof (intro conjI allI impI)
    show "pmm_ready (v_pmm s2)" "pmm_total_pages (v_pmm s2) \<le> 2 ^ 40"
      using pm T(1,2) by (simp_all add: pm2 pmm_ready_def)
    show "backed s2 t" if "table_path p" "walk s2 r p = Some t" for p t
      using T(3) that unfolding walk2 backed_def virt2 pm2 pm(3,4) by auto
    show "p = q" if "table_path p" "table_path q" "walk s2 r p = Some t" "walk s2 r q = Some t" for p q t
      using T(4) that unfolding walk2 by blast
  qed
  have fin: "finite (pmm_free_set (v_pmm s))" by (rule finite_free)
  have c2: "card (free_pages s) = card (free_pages s2) + 1" 
    unfolding free_pages_def pm2 pm(3) using card.remove [OF fin f(1)] by linarith
  have sp2: "space s2 r = space s r" by (rule ext) (simp only: space_def walk2 tbl2)
  obtain s3 pt where m: "vmm_map_page r ?va (of_nat (f * PAGE_SIZE)) ?fl s2 = Some (set_table_entry pt (last (vpn ?va)) (of_nat (f * PAGE_SIZE) OR ?fl) s3)"
    "vmm_tree s3 r" "walk s3 r (butlast (vpn ?va)) = Some pt" "space s3 r = space s2 r" "same_machine s2 s3"
    "card (pmm_free_set (v_pmm s2)) \<le> card (pmm_free_set (v_pmm s3)) + 3"
    "pmm_free_set (v_pmm s3) \<subseteq> pmm_free_set (v_pmm s2)"
    by (rule map_page_spec [OF tree2]) (use free c2 in \<open>auto simp: free_pages_def\<close>)
  let ?s4 = "set_table_entry pt (last (vpn ?va)) (of_nat (f * PAGE_SIZE) OR ?fl) s3"
  note L = set_leaf [OF m(2,3) page_path_vpn, of "of_nat (f * PAGE_SIZE) OR ?fl"]
  obtain bs where bs: "page_bytes elf ph j = Some bs" "length bs \<le> PAGE_SIZE"
    "\<And>k. k < PAGE_SIZE \<Longrightarrow> (if k < length bs then bs ! k else 0) = file_byte elf ph (j + k)"
    by (rule page_bytes_spec [OF seg]) blast
  define s' where "s' = ?s4\<lparr>ram := store_bytes (frame_addr s f 0) bs (ram ?s4)\<rparr>"
  have at: "vmm_phys_to_virt s1 (of_nat (f * PAGE_SIZE)) = frame_addr s f 0"
    by (simp add: frame_addr_def vmm_phys_to_virt_def s1_def pm(5))
  have run: "load_page r elf ph j s = Some s'"
    using m(1) bs(1) page0 f(2) pm(1)
    by (simp add: load_page_def Let_def s1_def [symmetric] at s2_def [unfolded s1_def] s'_def flip: s1_def del: of_nat_mult)
  have same': "v_pmm s' = v_pmm s3" "tbl s' = tbl ?s4" using L(5) by (simp_all add: s'_def)
  have hh: "pmm_hhdm_offset (v_pmm s') = pmm_hhdm_offset (v_pmm s)" "pmm_total_pages (v_pmm s') = pmm_total_pages (v_pmm s)"
    using m(5) by (simp_all add: same' same_machine_def pm2 pm(4,5))
  have fa: "frame_addr s' g k = frame_addr s g k" for g k by (simp add: frame_addr_def vmm_phys_to_virt_def hh)
  have walk': "walk s' t p = walk ?s4 t p" for t p
    using L(5) by (induction p arbitrary: t) (simp_all add: s'_def entry_table_def vmm_phys_to_virt_def)
  have sp': "space s' r = space ?s4 r" by (rule ext) (simp only: space_def walk' same'(2))
  have tree': "vmm_tree s' r"
    using L(1,5) unfolding vmm_tree_def walk' backed_def vmm_phys_to_virt_def same'(1) by simp
  have ram3: "ram s3 = ram s2" using m(5) by (simp add: same_machine_def)
  have ram': "ram s' = store_bytes (frame_addr s f 0) bs (store_bytes (frame_addr s f 0) (replicate PAGE_SIZE 0) (ram s))"
    using ram3 by (simp add: s'_def s2_def s1_def set_table_entry_def)
  have byte: "ram s' (frame_addr s' g k) = (if g = f then file_byte elf ph (j + k) else ram s (frame_addr s g k))"
    if "g < 2 ^ 40" "k < PAGE_SIZE" for g k
    unfolding ram' fa store_frame [OF bs(2) f40 that] using store_frame [OF _ f40 that, of "replicate PAGE_SIZE 0" s "ram s"] bs(3) [OF that(2)] that(2)
    by (auto split: if_splits)
  have sub: "free_pages s' \<subseteq> free_pages s - {f}" using m(7) by (simp add: free_pages_def same' pm2 pm(3))
  have card': "card (free_pages s) \<le> card (free_pages s') + 4" using m(6) c2 by (simp add: free_pages_def same')
  have space': "space s' r = (space s r)(vpn ?va \<mapsto> of_nat (f * PAGE_SIZE) OR ?fl)"
  proof -
    have "present (of_nat (f * PAGE_SIZE) OR ?fl)" by (rule segment_entry(2))
    then show ?thesis unfolding sp' L(2) m(4) sp2 by (simp only: if_True)
  qed
  show thesis
  proof (rule that [OF run tree' _ _ _ card' space'])
    show "f \<in> free_pages s" using f(1) by (simp add: free_pages_def)
    show "f \<notin> free_pages s'" "free_pages s' \<subseteq> free_pages s" using sub by blast+
    show "holds_page elf ph j s' f" using byte [OF f40] by (simp add: holds_page_def)
    show "keeps_frame s s' g" if "g < 2 ^ 40" "g \<noteq> f" for g using byte [OF that(1)] that(2) by (simp add: keeps_frame_def)
  qed (rule hh)+
qed


subsection \<open>The pages of a segment\<close>

definition page_vpn :: "Elf64_Phdr \<Rightarrow> nat \<Rightarrow> nat list" where
  "page_vpn ph i = vpn (p_vaddr ph + of_nat (i * PAGE_SIZE))"

text \<open>Pages \<open>n\<close> to the last of the segment have been loaded into the free pages of \<open>s\<close>, in \<open>s'\<close>.\<close>

definition pages_loaded :: "u64 \<Rightarrow> u8 list \<Rightarrow> Elf64_Phdr \<Rightarrow> nat \<Rightarrow> vmm \<Rightarrow> vmm \<Rightarrow> bool" where
  "pages_loaded r elf ph n s s' \<longleftrightarrow>
     (\<forall>i\<in>{n..<segment_pages ph}. \<exists>f. f \<in> free_pages s \<and> f \<notin> free_pages s' \<and> f < 2 ^ 40
        \<and> space s' r (page_vpn ph i) = Some (of_nat (f * PAGE_SIZE) OR segment_flags ph)
        \<and> holds_page elf ph (i * PAGE_SIZE) s' f)
     \<and> (\<forall>q. (\<forall>i\<in>{n..<segment_pages ph}. q \<noteq> page_vpn ph i) \<longrightarrow> space s' r q = space s r q)
     \<and> (\<forall>g<2 ^ 40. g \<notin> free_pages s \<longrightarrow> keeps_frame s s' g)"

lemma pages_loadedE:
  assumes "pages_loaded r elf ph 0 s s'" "i < segment_pages ph"
  obtains f where "f < 2 ^ 40" "space s' r (page_vpn ph i) = Some (of_nat (f * PAGE_SIZE) OR segment_flags ph)"
    "holds_page elf ph (i * PAGE_SIZE) s' f"
proof -
  have "i \<in> {0..<segment_pages ph}" using assms(2) by simp
  with assms(1) show thesis using that unfolding pages_loaded_def by blast
qed

lemma less_segment_pages: "n < segment_pages ph \<longleftrightarrow> n * PAGE_SIZE < unat (p_memsz ph)"
proof -
  have "n < (m + 4096 - 1) div 4096 \<longleftrightarrow> Suc n * 4096 \<le> m + 4096 - 1" for m :: nat
    unfolding Suc_le_eq [symmetric] by (rule less_eq_div_iff_mult_less_eq) simp
  also have "(Suc n * 4096 \<le> m + 4096 - 1) = (n * 4096 < m)" for m :: nat by (simp add: Suc_le_eq less_Suc_eq_le)
  finally show ?thesis by (simp only: segment_pages_def PAGE_SIZE_def)
qed

lemma pages_loaded_step:
  assumes fresh: "free_pages s1 \<subseteq> free_pages s" "free_pages s' \<subseteq> free_pages s1"
    and f: "f \<in> free_pages s" "f \<notin> free_pages s1" "f < 2 ^ 40"
    and sp: "space s1 r = (space s r)(page_vpn ph n \<mapsto> of_nat (f * PAGE_SIZE) OR segment_flags ph)"
    and held: "holds_page elf ph (n * PAGE_SIZE) s1 f"
    and kept: "\<And>g. g < 2 ^ 40 \<Longrightarrow> g \<noteq> f \<Longrightarrow> keeps_frame s s1 g"
    and rest: "pages_loaded r elf ph (n + 1) s1 s'"
    and n: "n < segment_pages ph" and small: "segment_pages ph < 2 ^ 36"
  shows "pages_loaded r elf ph n s s'"
proof -
  have apart: "page_vpn ph n \<noteq> page_vpn ph i" if "i \<in> {n + 1..<segment_pages ph}" for i
    using vpn_distinct [of "p_vaddr ph" n i] that n small by (auto simp: page_vpn_def)
  have R: "\<And>i. i \<in> {n + 1..<segment_pages ph} \<Longrightarrow> \<exists>f. f \<in> free_pages s1 \<and> f \<notin> free_pages s' \<and> f < 2 ^ 40
        \<and> space s' r (page_vpn ph i) = Some (of_nat (f * PAGE_SIZE) OR segment_flags ph)
        \<and> holds_page elf ph (i * PAGE_SIZE) s' f"
    "\<And>q. (\<And>i. i \<in> {n + 1..<segment_pages ph} \<Longrightarrow> q \<noteq> page_vpn ph i) \<Longrightarrow> space s' r q = space s1 r q"
    "\<And>g. g < 2 ^ 40 \<Longrightarrow> g \<notin> free_pages s1 \<Longrightarrow> keeps_frame s1 s' g"
    using rest by (auto simp: pages_loaded_def)
  have first: "space s' r (page_vpn ph n) = Some (of_nat (f * PAGE_SIZE) OR segment_flags ph)"
    using R(2) [OF apart] sp by simp
  have byte: "holds_page elf ph (n * PAGE_SIZE) s' f"
    using held R(3) [OF f(3,2)] by (simp add: holds_page_def keeps_frame_def)
  show ?thesis unfolding pages_loaded_def
  proof (intro conjI ballI allI impI)
    fix i assume i: "i \<in> {n..<segment_pages ph}"
    show "\<exists>f. f \<in> free_pages s \<and> f \<notin> free_pages s' \<and> f < 2 ^ 40
        \<and> space s' r (page_vpn ph i) = Some (of_nat (f * PAGE_SIZE) OR segment_flags ph)
        \<and> holds_page elf ph (i * PAGE_SIZE) s' f"
    proof (cases "i = n")
      case True
      then show ?thesis using f fresh first byte by blast
    next
      case False
      then have "i \<in> {n + 1..<segment_pages ph}" using i by simp
      from R(1) [OF this] show ?thesis using fresh(1) by blast
    qed
  next
    fix q assume q: "\<forall>i\<in>{n..<segment_pages ph}. q \<noteq> page_vpn ph i"
    then have "q \<noteq> page_vpn ph n" using n by simp
    moreover have "space s' r q = space s1 r q" using q by (intro R(2)) simp
    ultimately show "space s' r q = space s r q" using sp by simp
  next
    fix g :: nat assume g: "g < 2 ^ 40" "g \<notin> free_pages s"
    then have "keeps_frame s s1 g" "keeps_frame s1 s' g" using kept f(1) fresh(1) R(3) by blast+
    then show "keeps_frame s s' g" by (simp add: keeps_frame_def)
  qed
qed

lemma load_pages_spec:
  assumes tree: "vmm_tree s r" and seg: "segment_in_file elf ph" and small: "segment_pages ph < 2 ^ 36"
    and n: "n \<le> segment_pages ph" and free: "4 * (segment_pages ph - n) \<le> card (free_pages s)"
  shows "\<exists>s'. load_pages r elf ph (n * PAGE_SIZE) s = Some s' \<and> vmm_tree s' r \<and> free_pages s' \<subseteq> free_pages s
    \<and> pages_loaded r elf ph n s s'
    \<and> card (free_pages s) \<le> card (free_pages s') + 4 * (segment_pages ph - n)"
  using assms
proof (induction "segment_pages ph - n" arbitrary: n s)
  case 0
  then have "\<not> n < segment_pages ph" by simp
  then have "\<not> n * PAGE_SIZE < unat (p_memsz ph)" by (simp add: less_segment_pages)
  then have "load_pages r elf ph (n * PAGE_SIZE) s = Some s" by (simp add: load_pages.simps)
  then show ?case using 0 by (auto simp: pages_loaded_def keeps_frame_def)
next
  case (Suc m)
  then have ns: "n < segment_pages ph" by simp
  then have nj: "n * PAGE_SIZE < unat (p_memsz ph)" by (simp add: less_segment_pages)
  have f4: "4 \<le> card (free_pages s)" using Suc.prems(5) Suc.hyps(2) by simp
  obtain f s1 where l: "load_page r elf ph (n * PAGE_SIZE) s = Some s1" "vmm_tree s1 r" "f \<in> free_pages s" "f \<notin> free_pages s1"
    "free_pages s1 \<subseteq> free_pages s" "card (free_pages s) \<le> card (free_pages s1) + 4"
    "space s1 r = (space s r)(vpn (p_vaddr ph + of_nat (n * PAGE_SIZE)) \<mapsto> of_nat (f * PAGE_SIZE) OR segment_flags ph)"
    "holds_page elf ph (n * PAGE_SIZE) s1 f" "\<And>g. g < 2 ^ 40 \<Longrightarrow> g \<noteq> f \<Longrightarrow> keeps_frame s s1 g"
    by (rule load_page_spec [OF Suc.prems(1) f4 Suc.prems(2) nj]) blast
  have f40: "f < 2 ^ 40" using l(3) vmm_treeD(2) [OF Suc.prems(1)] by (auto simp: free_pages_def pmm_free_set_def)
  have m: "m = segment_pages ph - (n + 1)" "n + 1 \<le> segment_pages ph" using Suc.hyps(2) ns by simp_all
  have enough: "4 * (segment_pages ph - (n + 1)) \<le> card (free_pages s1)" using Suc.prems(5) Suc.hyps(2) l(6) m by linarith
  from Suc.hyps(1) [OF m(1) l(2) Suc.prems(2,3) m(2) enough] obtain s' where
    s': "load_pages r elf ph ((n + 1) * PAGE_SIZE) s1 = Some s'" "vmm_tree s' r" "free_pages s' \<subseteq> free_pages s1"
    "pages_loaded r elf ph (n + 1) s1 s'" "card (free_pages s1) \<le> card (free_pages s') + 4 * (segment_pages ph - (n + 1))"
    by blast
  have run: "load_pages r elf ph (n * PAGE_SIZE) s = Some s'"
    unfolding load_pages.simps [of r elf ph "n * PAGE_SIZE" s] using nj l(1) s'(1) by (simp add: add.commute)
  have "pages_loaded r elf ph n s s'"
    using pages_loaded_step [OF l(5) s'(3) l(3,4) f40 l(7) [folded page_vpn_def] l(8,9) s'(4) ns Suc.prems(3)] .
  then show ?case using run s'(2,3,5) l(5,6) m Suc.hyps(2) by (intro exI [of _ s']) auto
qed


subsection \<open>Correctness\<close>

text \<open>The byte a user program reads at virtual address \<open>a\<close> through the page tables of root \<open>r\<close>.\<close>

definition user_byte :: "vmm \<Rightarrow> u64 \<Rightarrow> u64 \<Rightarrow> u8" where
  "user_byte s r a = ram s (vmm_phys_to_virt s (vmm_get_phys_addr s r a))"

lemma of_nat_unat_id: "of_nat (unat (v :: u64)) = v"
  by simp

lemma page_offset:
  assumes "v AND 0xFFF = (0 :: u64)"
  shows "vpn (v + of_nat m) = vpn (v + of_nat (m div PAGE_SIZE * PAGE_SIZE))"
    and "(v + of_nat m) AND 0xFFF = of_nat (m mod PAGE_SIZE)"
proof -
  have mk: "(0xFFF :: u64) = mask 12" by (simp add: mask_eq_exp_minus_1)
  have "unat v mod PAGE_SIZE = unat (v AND 0xFFF)"
    unfolding mk by (simp add: unsigned_and_eq take_bit_eq_mask [symmetric] take_bit_eq_mod unat_mod PAGE_SIZE_def)
  then obtain q where q: "unat v = PAGE_SIZE * q" using assms by (metis mod_0_imp_dvd dvd_def unat_0)
  have u: "unat (v + of_nat k) = (PAGE_SIZE * q + k) mod (PAGE_SIZE * 2 ^ 52)" for k
    by (simp add: unat_word_ariths unat_of_nat q PAGE_SIZE_def mod_simps)
  have d: "unat (v + of_nat k) div PAGE_SIZE = (q + k div PAGE_SIZE) mod 2 ^ 52" for k
    unfolding u by (simp only: mod_mult2_eq) (simp add: PAGE_SIZE_def)
  show "vpn (v + of_nat m) = vpn (v + of_nat (m div PAGE_SIZE * PAGE_SIZE))"
    by (rule vpn_page) (simp only: d, simp add: PAGE_SIZE_def)
  have "unat ((v + of_nat m) AND 0xFFF) = unat (v + of_nat m) mod PAGE_SIZE"
    unfolding mk by (simp add: unsigned_and_eq take_bit_eq_mask [symmetric] take_bit_eq_mod unat_mod PAGE_SIZE_def)
  also have "\<dots> = m mod PAGE_SIZE" unfolding u by (simp add: mod_mod_cancel)
  finally have "unat ((v + of_nat m) AND 0xFFF) = m mod PAGE_SIZE" .
  then show "(v + of_nat m) AND 0xFFF = of_nat (m mod PAGE_SIZE)" by (metis of_nat_unat_id)
qed

text \<open>C26: A loadable segment whose address is page aligned, whose file part lies in the file and for whose
  pages there is memory, is loaded: through the page tables of the new address space the program reads
  its file bytes and zeros after them, the entry of every other virtual page is unchanged, and physical
  pages that were in use keep their contents.\<close>

theorem load_segment_contents:
  assumes "vmm_tree s r" "rd32 at elf = Some PT_LOAD" "program_header elf at = Some ph"
    and "segment_in_file elf ph" "segment_pages ph < 2 ^ 36" "4 * segment_pages ph \<le> card (free_pages s)"
    and "p_vaddr ph AND 0xFFF = 0"
  shows "\<exists>s'. load_segment r elf at (brk, s) = Some (max brk (p_vaddr ph + p_memsz ph), s') \<and> vmm_tree s' r
    \<and> (\<forall>m < unat (p_memsz ph). user_byte s' r (p_vaddr ph + of_nat m) = file_byte elf ph m)
    \<and> (\<forall>q. (\<forall>i < segment_pages ph. q \<noteq> page_vpn ph i) \<longrightarrow> space s' r q = space s r q)
    \<and> (\<forall>g < 2 ^ 40. g \<notin> free_pages s \<longrightarrow> keeps_frame s s' g)"
proof -
  obtain s' where s': "load_pages r elf ph 0 s = Some s'" "vmm_tree s' r" "pages_loaded r elf ph 0 s s'"
    using load_pages_spec [OF assms(1,4,5), of 0] assms(6) by auto
  have byte: "user_byte s' r (p_vaddr ph + of_nat m) = file_byte elf ph m" if m: "m < unat (p_memsz ph)" for m
  proof -
    let ?i = "m div PAGE_SIZE" and ?k = "m mod PAGE_SIZE"
    have k: "?k < PAGE_SIZE" "?i * PAGE_SIZE + ?k = m" by (simp add: PAGE_SIZE_def, rule div_mult_mod_eq)
    have "?i < segment_pages ph" unfolding less_segment_pages using m k(2) by linarith
    then obtain f where f: "f < 2 ^ 40" "space s' r (page_vpn ph ?i) = Some (of_nat (f * PAGE_SIZE) OR segment_flags ph)"
      "holds_page elf ph (?i * PAGE_SIZE) s' f"
      by (rule pages_loadedE [OF s'(3)])
    have v: "vpn (p_vaddr ph + of_nat m) = page_vpn ph ?i" by (simp only: page_vpn_def page_offset(1) [OF assms(7), of m])
    have "vmm_get_phys_addr s' r (p_vaddr ph + of_nat m) = of_nat (f * PAGE_SIZE + ?k)"
      by (simp only: get_phys_addr_space v f(2) option.case segment_entry(1) [OF f(1)] page_offset(2) [OF assms(7), of m] of_nat_add)
    then have "user_byte s' r (p_vaddr ph + of_nat m) = ram s' (frame_addr s' f ?k)"
      by (simp only: user_byte_def frame_addr_def)
    then show ?thesis using f(3) k unfolding holds_page_def by simp
  qed
  have "load_segment r elf at (brk, s) = Some (max brk (p_vaddr ph + p_memsz ph), s')"
    using assms(2,3) s'(1)
    by (cases "brk < p_vaddr ph + p_memsz ph") (simp_all add: load_segment_def Let_def max_absorb1 max_absorb2 leD)
  moreover have "\<forall>q. (\<forall>i < segment_pages ph. q \<noteq> page_vpn ph i) \<longrightarrow> space s' r q = space s r q"
    "\<forall>g < 2 ^ 40. g \<notin> free_pages s \<longrightarrow> keeps_frame s s' g"
    using s'(3) by (simp_all only: pages_loaded_def atLeastLessThan_iff zero_le simp_thms Ball_def) blast+
  ultimately show ?thesis using s'(2) byte by blast
qed

text \<open>A program header for four bytes of code at \<open>0x400000\<close>, with the code behind it.\<close>

definition elf_demo :: "u8 list" where
  "elf_demo = [1, 0, 0, 0, 5, 0, 0, 0, 56, 0, 0, 0, 0, 0, 0, 0, 0, 0, 0x40, 0, 0, 0, 0, 0, 0, 0, 0x40, 0, 0, 0, 0, 0,
     4, 0, 0, 0, 0, 0, 0, 0, 6, 0, 0, 0, 0, 0, 0, 0, 0, 0x10, 0, 0, 0, 0, 0, 0, 0xB8, 0x2A, 0xCD, 0x80]"

lemma elf_demo_header:
  "rd32 0 elf_demo = Some PT_LOAD"
  "program_header elf_demo 0 = Some \<lparr>p_flags = 5, p_offset = 56, p_vaddr = 0x400000, p_filesz = 4, p_memsz = 6\<rparr>"
  by (simp_all add: elf_demo_def program_header_def PT_LOAD_def rd64_def rd32_def of_le32_def of_le16_def)

theorem load_segment_contents_witness:
  "\<exists>s'. load_segment 0x101000 elf_demo 0 (0, vmm_demo) = Some (0x400006, s')
     \<and> user_byte s' 0x101000 0x400001 = 0x2A \<and> user_byte s' 0x101000 0x400005 = 0"
proof -
  let ?ph = "\<lparr>p_flags = 5, p_offset = 56, p_vaddr = 0x400000, p_filesz = 4, p_memsz = 6\<rparr>"
  have pages: "segment_pages ?ph = 1" by (simp add: segment_pages_def PAGE_SIZE_def)
  have "segment_in_file elf_demo ?ph" by (simp add: segment_in_file_def elf_demo_def)
  moreover have "4 * segment_pages ?ph \<le> card (free_pages vmm_demo)" by (simp add: pages free_pages_def vmm_demo_free)
  ultimately obtain s' where s': "load_segment 0x101000 elf_demo 0 (0, vmm_demo) = Some (max 0 (0x400000 + 6), s')"
    "\<forall>m < unat (p_memsz ?ph). user_byte s' 0x101000 (p_vaddr ?ph + of_nat m) = file_byte elf_demo ?ph m"
    using load_segment_contents [OF vmm_demo_tree elf_demo_header, where brk = 0] by (auto simp: pages)
  have "user_byte s' 0x101000 (0x400000 + of_nat m) = file_byte elf_demo ?ph m" if "m < 6" for m
    using s'(2) that by simp
  from this [of 1] this [of 5] s'(1) show ?thesis by (simp add: file_byte_def elf_demo_def max_def)
qed

text \<open>A file that is not a 64-bit executable ELF file is refused with the result \<open>(0, 0)\<close> before
  anything is allocated or mapped: the whole state is unchanged.\<close>

lemma elf_load_refuses:
  assumes "length elf \<ge> 64"
    and "take 4 elf \<noteq> ELFMAG \<or> elf ! 4 \<noteq> ELFCLASS64 \<or> rd16 16 elf \<noteq> Some ET_EXEC"
  shows "elf_load r (Some elf) s = Some ((0, 0), s)"
proof -
  have rd: "rd8 i elf = Some (elf ! i)" if "i < 64" for i using assms(1) that by (simp add: rd8_def)
  obtain t where t: "rd16 16 elf = Some t" using assms(1) rd by (auto simp: rd16_def)
  have m: "magic_ok cs i elf = Some (take (length cs) (drop i elf) = cs)" if "i + length cs \<le> 4" for cs i
    using that
  proof (induction cs arbitrary: i)
    case (Cons c cs)
    have "drop i elf = elf ! i # drop (i + 1) elf" using assms(1) Cons.prems by (simp add: Cons_nth_drop_Suc)
    then show ?case using Cons rd [of i] by simp
  qed simp
  have "length ELFMAG = 4" by (simp add: ELFMAG_def)
  then have "magic_ok ELFMAG 0 elf = Some (take 4 elf = ELFMAG)" using m [of 0 ELFMAG] by simp
  then show ?thesis using assms(2) rd [of 4] t by (auto simp: elf_load_def)
qed

lemma elf_load_refuses_witness: "elf_load 0x101000 (Some (replicate 64 0)) vmm_demo = Some ((0, 0), vmm_demo)"
  by (rule elf_load_refuses) (simp_all add: ELFCLASS64_def)

end
