(* ===== verification/Syscall.thy ===== *)
theory Syscall
  imports Event_Queue Kernel_Heap Vmm Vfs Socket Sha256 Uaccess
begin

section \<open>System calls (src/kernel/syscall.c)\<close>

text \<open>
  The system call handlers, over the components they call. The file systems enter as the parameter
  \<open>kernel_ops\<close>: the operations of the VFS layer, and what a handler reads of a node besides. The state
  holds the calling thread's descriptor table, break and page tables, the shared components, and the
  memory at virtual addresses. The kernel reads and writes user memory at the addresses the program
  passed; page faults are not modelled. \<open>None\<close> is a call that does not return: a wild access or a
  panic. Where file data comes from heap memory that was never written, \<open>k_junk\<close> holds the bytes.
\<close>

definition MAX_FILES :: nat where "MAX_FILES = 16"
definition O_CREAT :: u32 where "O_CREAT = 0x0040"
definition O_APPEND :: u32 where "O_APPEND = 0x0400"

record ('s, 'n) kernel_ops =
  fs_ops :: "('s, 'n) vfs_ops"
  fs_root :: "'n option"
  node_length_of :: "'s \<Rightarrow> 'n \<Rightarrow> u32"
  node_ioctl :: "'s \<Rightarrow> 'n \<Rightarrow> (u32 \<Rightarrow> u64 \<Rightarrow> memory \<Rightarrow> (int \<times> memory \<times> 's) option) option"
  mount_node :: "'n option list \<Rightarrow> 'n \<Rightarrow> 'n \<Rightarrow> string \<Rightarrow> 's \<Rightarrow> (int \<times> 's) option"
  unmount_node :: "'n \<Rightarrow> 's \<Rightarrow> (int \<times> 's) option"
  node_at :: "u64 \<Rightarrow> 'n option"

datatype 'n fd_entry = FD_TYPE_NONE | FD_TYPE_FILE 'n u64 u32 | FD_TYPE_SOCKET nat

record fb_info =
  fb_address :: u64
  fb_width :: u64
  fb_height :: u64
  fb_pitch :: u64
  fb_bpp :: u16

record ('s, 'n) kstate =
  k_fs :: 's
  k_net :: net
  k_heap :: kheap
  k_events :: event_state
  k_vmm :: vmm
  k_mem :: memory
  k_junk :: memory
  k_ticks :: u64
  k_fb :: "fb_info option"
  t_id :: nat
  t_pml4 :: u64
  t_fds :: "'n fd_entry list"
  program_break :: u64
  initial_program_break :: u64

record registers =
  rax :: u64
  rdi :: u64
  rsi :: u64
  rdx :: u64
  r10 :: u64

text \<open>How a call ends: with a value in \<open>rax\<close>, with the thread blocked in it, or with the thread gone.\<close>

datatype outcome = Returned u64 | Blocked | Exited

type_synonym ('s, 'n) handler =
  "('s, 'n) kernel_ops \<Rightarrow> registers \<Rightarrow> ('s, 'n) kstate \<Rightarrow> (outcome \<times> ('s, 'n) kstate) option"

text \<open>An argument used as an \<open>int\<close>, and an \<open>int\<close> stored in \<open>rax\<close>.\<close>

definition int_arg :: "u64 \<Rightarrow> int" where
  "int_arg x = sint (ucast x :: u32)"

definition ret_int :: "int \<Rightarrow> u64" where
  "ret_int r = scast (word_of_int r :: u32)"

abbreviation fail :: outcome where "fail \<equiv> Returned (- 1)"

subsection \<open>User memory\<close>

fun mem_string :: "memory \<Rightarrow> u64 \<Rightarrow> nat \<Rightarrow> string" where
  "mem_string m a 0 = []"
| "mem_string m a (Suc n) = (if m a = 0 then [] else char_of (unat (m a)) # mem_string m (a + 1) n)"

fun mem_bytes :: "memory \<Rightarrow> u64 \<Rightarrow> nat \<Rightarrow> u8 list" where
  "mem_bytes m a 0 = []"
| "mem_bytes m a (Suc n) = m a # mem_bytes m (a + 1) n"

fun fill_cells :: "memory \<Rightarrow> u64 \<Rightarrow> cell list \<Rightarrow> u8 list" where
  "fill_cells junk a [] = []"
| "fill_cells junk a (c # cs) = (case c of None \<Rightarrow> junk a | Some b \<Rightarrow> b) # fill_cells junk (a + 1) cs"

text \<open>A path argument: refused in the kernel half, else copied up to \<open>MAX_FILENAME_LEN - 1\<close> characters.\<close>

definition user_string :: "nat \<Rightarrow> u64 \<Rightarrow> ('s, 'n) kstate \<Rightarrow> string option" where
  "user_string n p k = (if p \<ge> pmm_hhdm_offset (v_pmm (k_vmm k)) then None else Some (mem_string (k_mem k) p n))"

abbreviation user_path :: "u64 \<Rightarrow> ('s, 'n) kstate \<Rightarrow> string option" where
  "user_path \<equiv> user_string (MAX_FILENAME_LEN - 1)"

subsection \<open>Descriptors\<close>

definition fd_of :: "u64 \<Rightarrow> ('s, 'n) kstate \<Rightarrow> 'n fd_entry" where
  "fd_of x k = (let fd = int_arg x in if fd < 0 \<or> fd \<ge> int MAX_FILES then FD_TYPE_NONE else t_fds k ! nat fd)"

definition set_fd :: "nat \<Rightarrow> 'n fd_entry \<Rightarrow> ('s, 'n) kstate \<Rightarrow> ('s, 'n) kstate" where
  "set_fd i e k = k\<lparr>t_fds := (t_fds k)[i := e]\<rparr>"

fun free_slot :: "'n fd_entry list \<Rightarrow> nat \<Rightarrow> nat option" where
  "free_slot [] i = None"
| "free_slot (FD_TYPE_NONE # es) i = Some i"
| "free_slot (_ # es) i = free_slot es (i + 1)"

definition sock_of :: "nat \<Rightarrow> ('s, 'n) kstate \<Rightarrow> socket_t option" where
  "sock_of i k = find_sock i (active_sockets (k_net k))"

subsection \<open>Files\<close>

definition sys_exit :: "('s, 'n) handler" where
  "sys_exit K r k = Some (Exited, k)"

definition sys_write :: "('s, 'n) handler" where
  "sys_write K r k =
     (case fd_of (rdi r) k of
        FD_TYPE_NONE \<Rightarrow> Some (fail, k)
      | FD_TYPE_FILE n offset flags \<Rightarrow>
          (let current_offset = (if flags AND O_APPEND \<noteq> 0 then ucast (node_length_of K (k_fs k) n) else offset);
               size = ucast (rdx r) :: u32
           in do {
             (count, s) \<leftarrow> vfs_write (fs_ops K) (Some n) current_offset size
                             (mem_bytes (k_mem k) (rsi r) (unat size)) (k_fs k);
             let ret = ucast count :: u64;
                 k1 = k\<lparr>k_fs := s\<rparr>
             in Some (Returned ret,
                  if ret \<noteq> -1 then set_fd (nat (int_arg (rdi r))) (FD_TYPE_FILE n (current_offset + ret) flags) k1
                  else k1) })
      | FD_TYPE_SOCKET i \<Rightarrow> do {
          sock \<leftarrow> sock_of i k;
          (ret, n) \<leftarrow> sock_send (Some sock)
             (if rsi r = 0 then None else Some (mem_bytes (k_mem k) (rsi r) (unat (rdx r)))) (k_net k);
          Some (Returned (ret_int ret), k\<lparr>k_net := n\<rparr>) })"

text \<open>Making the file named by a path that does not resolve, and resolving the path again.\<close>

definition open_create :: "('s, 'n) kernel_ops \<Rightarrow> string \<Rightarrow> 's \<Rightarrow> ('n option \<times> 's) option" where
  "open_create K path s =
     (let ls = last_slash path
      in do {
        (parent, s1) \<leftarrow> (if ls \<noteq> -1 then vfs_resolve_path (fs_ops K) (fs_root K) (Some (take (nat ls) path)) s
                         else Some (fs_root K, s));
        (case parent of
           None \<Rightarrow> Some (None, s1)
         | Some d \<Rightarrow>
             if \<not> is_directory (fs_ops K) s1 d then Some (None, s1)
             else do {
               (rc, s2) \<leftarrow> vfs_create (fs_ops K) (Some d) (Some (if ls \<noteq> -1 then drop (nat ls + 1) path else path)) 0 s1;
               if rc \<noteq> 0 then Some (None, s2)
               else vfs_resolve_path (fs_ops K) (fs_root K) (Some path) s2 }) })"

definition sys_open :: "('s, 'n) handler" where
  "sys_open K r k =
     (case user_path (rdi r) k of
        None \<Rightarrow> Some (fail, k)
      | Some path \<Rightarrow>
          let flags = ucast (rsi r) :: u32
          in do {
            (found, s1) \<leftarrow> vfs_resolve_path (fs_ops K) (fs_root K) (Some path) (k_fs k);
            (node, s2) \<leftarrow> (if found = None \<and> flags AND O_CREAT \<noteq> 0 then open_create K path s1 else Some (found, s1));
            (case node of
               None \<Rightarrow> Some (fail, k\<lparr>k_fs := s2\<rparr>)
             | Some n \<Rightarrow> do {
                 s3 \<leftarrow> vfs_open (fs_ops K) (Some n) flags s2;
                 let k1 = k\<lparr>k_fs := s3\<rparr>
                 in Some (case free_slot (t_fds k) 0 of
                            None \<Rightarrow> (fail, k1)
                          | Some i \<Rightarrow>
                              (Returned (of_nat i),
                               set_fd i (FD_TYPE_FILE n (if flags AND O_APPEND \<noteq> 0 then ucast (node_length_of K s3 n) else 0) flags) k1)) }) })"

definition sys_close :: "('s, 'n) handler" where
  "sys_close K r k =
     (case fd_of (rdi r) k of
        FD_TYPE_NONE \<Rightarrow> Some (fail, k)
      | FD_TYPE_FILE n offset flags \<Rightarrow> Some (Returned 0, set_fd (nat (int_arg (rdi r))) FD_TYPE_NONE k)
      | FD_TYPE_SOCKET i \<Rightarrow> do {
          sock \<leftarrow> sock_of i k;
          Some (Returned 0, set_fd (nat (int_arg (rdi r))) FD_TYPE_NONE (k\<lparr>k_net := snd (sock_close (Some sock) (k_net k))\<rparr>)) })"

text \<open>The end of a receive, shared by \<open>sys_read\<close> and \<open>sys_recv\<close>.\<close>

definition receive :: "nat \<Rightarrow> u64 \<Rightarrow> u64 \<Rightarrow> ('s, 'n) kstate \<Rightarrow> (outcome \<times> ('s, 'n) kstate) option" where
  "receive i buf len k = do {
     sock \<leftarrow> sock_of i k;
     if buf = 0 then Some (fail, k)
     else do {
       (res, n) \<leftarrow> sock_recv (t_id k) (Some sock) (unat len) (k_net k);
       let k1 = k\<lparr>k_net := n\<rparr>
       in Some (case res of
            Recv_error \<Rightarrow> (fail, k1)
          | Recv_blocked \<Rightarrow> (Blocked, k1)
          | Recv_data bytes \<Rightarrow> (Returned (ret_int (int (length bytes))), k1\<lparr>k_mem := store_bytes buf bytes (k_mem k)\<rparr>)) } }"

definition sys_read :: "('s, 'n) handler" where
  "sys_read K r k =
     (case fd_of (rdi r) k of
        FD_TYPE_NONE \<Rightarrow> Some (fail, k)
      | FD_TYPE_FILE n offset flags \<Rightarrow> do {
          (count, cells, s) \<leftarrow> vfs_read (fs_ops K) (Some n) offset (ucast (rdx r)) (k_fs k);
          let ret = ucast count :: u64;
              k1 = k\<lparr>k_fs := s, k_mem := store_bytes (rsi r) (fill_cells (k_junk k) (rsi r) cells) (k_mem k)\<rparr>
          in Some (Returned ret,
               if ret \<noteq> -1 then set_fd (nat (int_arg (rdi r))) (FD_TYPE_FILE n (offset + ret) flags) k1 else k1) }
      | FD_TYPE_SOCKET i \<Rightarrow> receive i (rsi r) (rdx r) k)"

definition stat_bytes :: "stat \<Rightarrow> u8 list" where
  "stat_bytes st = le32 (st_size st) @ le32 (st_mode st) @ le32 (st_ino st)"

definition sys_stat :: "('s, 'n) handler" where
  "sys_stat K r k =
     (case user_path (rdi r) k of
        None \<Rightarrow> Some (fail, k)
      | Some path \<Rightarrow> do {
          (node, s1) \<leftarrow> vfs_resolve_path (fs_ops K) (fs_root K) (Some path) (k_fs k);
          (case node of
             None \<Rightarrow> Some (fail, k\<lparr>k_fs := s1\<rparr>)
           | Some n \<Rightarrow>
               (case op_stat (fs_ops K) s1 n of
                  None \<Rightarrow> Some (fail, k\<lparr>k_fs := s1\<rparr>)
                | Some result \<Rightarrow> do {
                    (rc, st, s2) \<leftarrow> result;
                    Some (Returned (ret_int rc),
                          k\<lparr>k_fs := s2, k_mem := (if rc = 0 then store_bytes (rsi r) (stat_bytes st) (k_mem k) else k_mem k)\<rparr>) })) })"

text \<open>\<open>sys_mkdir\<close>, \<open>sys_unlink\<close> and \<open>sys_rmdir\<close> differ in the VFS operation only.\<close>

definition on_path :: "(string option \<Rightarrow> 's \<Rightarrow> (int \<times> 's) option) \<Rightarrow> registers \<Rightarrow> ('s, 'n) kstate \<Rightarrow> (outcome \<times> ('s, 'n) kstate) option" where
  "on_path f r k =
     (case user_path (rdi r) k of
        None \<Rightarrow> Some (fail, k)
      | Some path \<Rightarrow> do { (rc, s) \<leftarrow> f (Some path) (k_fs k); Some (Returned (ret_int rc), k\<lparr>k_fs := s\<rparr>) })"

definition sys_mkdir :: "('s, 'n) handler" where
  "sys_mkdir K r k = on_path (\<lambda>p. vfs_mkdir (fs_ops K) (fs_root K) p 0) r k"

definition sys_unlink :: "('s, 'n) handler" where
  "sys_unlink K r k = on_path (vfs_remove (fs_ops K) (fs_root K)) r k"

definition sys_rmdir :: "('s, 'n) handler" where
  "sys_rmdir K r k = on_path (\<lambda>p. vfs_rmdir (fs_ops K) (fs_root K) p 0) r k"

text \<open>The first argument is a node pointer of the program's choice.\<close>

definition dirent_bytes :: "dirent \<Rightarrow> u8 list" where
  "dirent_bytes d = (let name = map of_char (d_name d)
     in take MAX_FILENAME_LEN (name @ replicate MAX_FILENAME_LEN 0) @ le32 (d_ino d))"

definition sys_readdir :: "('s, 'n) handler" where
  "sys_readdir K r k = do {
     node \<leftarrow> (if rdi r = 0 then Some (fs_root K) else map_option Some (node_at K (rdi r)));
     (entry, s) \<leftarrow> vfs_readdir (fs_ops K) node (ucast (rsi r)) (k_fs k);
     Some (case entry of
        None \<Rightarrow> (Returned 0, k\<lparr>k_fs := s\<rparr>)
      | Some d \<Rightarrow> (Returned 1, k\<lparr>k_fs := s, k_mem := store_bytes (rdx r) (dirent_bytes d) (k_mem k)\<rparr>)) }"

subsection \<open>Sockets\<close>

text \<open>The loop of \<open>sys_socket\<close>: a free slot whose socket cannot be made is passed over.\<close>

fun socket_loop :: "int \<Rightarrow> int \<Rightarrow> int \<Rightarrow> nat list \<Rightarrow> ('s, 'n) kstate \<Rightarrow> outcome \<times> ('s, 'n) kstate" where
  "socket_loop domain type protocol [] k = (fail, k)"
| "socket_loop domain type protocol (i # is) k =
     (if t_fds k ! i = FD_TYPE_NONE
      then (case sock_create domain type protocol (k_net k) of
              (Some sock, n) \<Rightarrow> (Returned (of_nat i), set_fd i (FD_TYPE_SOCKET sock) (k\<lparr>k_net := n\<rparr>))
            | (None, n) \<Rightarrow> socket_loop domain type protocol is (k\<lparr>k_net := n\<rparr>))
      else socket_loop domain type protocol is k)"

definition sys_socket :: "('s, 'n) handler" where
  "sys_socket K r k = Some (socket_loop (int_arg (rdi r)) (int_arg (rsi r)) (int_arg (rdx r)) [0..<MAX_FILES] k)"

definition user_sockaddr :: "u64 \<Rightarrow> ('s, 'n) kstate \<Rightarrow> sockaddr_in option" where
  "user_sockaddr p k =
     (if p = 0 then None
      else let b = mem_bytes (k_mem k) p 8
           in Some \<lparr>sin_family = of_le16 b, sin_port = of_le16 (drop 2 b), sin_addr = of_le32 (drop 4 b)\<rparr>)"

text \<open>The handlers that take a socket descriptor and act on the socket.\<close>

definition on_socket ::
  "(socket_t \<Rightarrow> net \<Rightarrow> int \<times> net) \<Rightarrow> registers \<Rightarrow> ('s, 'n) kstate \<Rightarrow> (outcome \<times> ('s, 'n) kstate) option" where
  "on_socket f r k =
     (case fd_of (rdi r) k of
        FD_TYPE_SOCKET i \<Rightarrow> do {
          sock \<leftarrow> sock_of i k;
          let (rc, n) = f sock (k_net k)
          in Some (Returned (ret_int rc), k\<lparr>k_net := n\<rparr>) }
      | _ \<Rightarrow> Some (fail, k))"

definition sys_connect :: "('s, 'n) handler" where
  "sys_connect K r k = on_socket (\<lambda>s. sock_connect (Some s) (user_sockaddr (rsi r) k)) r k"

definition sys_bind :: "('s, 'n) handler" where
  "sys_bind K r k = on_socket (\<lambda>s. sock_bind (Some s) (user_sockaddr (rsi r) k)) r k"

definition sys_listen :: "('s, 'n) handler" where
  "sys_listen K r k = on_socket (\<lambda>s n. (sock_listen (Some s) (int_arg (rsi r)), n)) r k"

definition sys_accept :: "('s, 'n) handler" where
  "sys_accept K r k =
     (case fd_of (rdi r) k of
        FD_TYPE_SOCKET i \<Rightarrow> do {
          sock \<leftarrow> sock_of i k;
          Some (case sock_accept (Some sock) of
             None \<Rightarrow> (fail, k)
           | Some new_sock \<Rightarrow>
               (case free_slot (t_fds k) 0 of
                  None \<Rightarrow> (fail, k)
                | Some j \<Rightarrow> (Returned (of_nat j), set_fd j (FD_TYPE_SOCKET new_sock) k))) }
      | _ \<Rightarrow> Some (fail, k))"

definition sys_recv :: "('s, 'n) handler" where
  "sys_recv K r k =
     (case fd_of (rdi r) k of
        FD_TYPE_SOCKET i \<Rightarrow> receive i (rsi r) (rdx r) k
      | _ \<Rightarrow> Some (fail, k))"

subsection \<open>Memory, time, hashing, input\<close>

definition sys_sha256 :: "('s, 'n) handler" where
  "sys_sha256 K r k = do {
     hash \<leftarrow> sha256_hash (mem_bytes (k_junk k) 0 64) (mem_bytes (k_mem k) (rdi r) (unat (rsi r)));
     Some (Returned 0, k\<lparr>k_mem := store_bytes (rdx r) hash (k_mem k)\<rparr>) }"

text \<open>The heap and the page tables take their pages from one allocator.\<close>

definition shared_kmalloc :: "u64 \<Rightarrow> kheap \<Rightarrow> vmm \<Rightarrow> (nat \<times> kheap \<times> vmm) option" where
  "shared_kmalloc nbytes h v = do {
     (p, h') \<leftarrow> kmalloc nbytes (h\<lparr>h_pmm := v_pmm v\<rparr>);
     Some (p, h', v\<lparr>v_pmm := h_pmm h'\<rparr>) }"

definition sys_malloc :: "('s, 'n) handler" where
  "sys_malloc K r k = do {
     (p, h, v) \<leftarrow> shared_kmalloc (rdi r) (k_heap k) (k_vmm k);
     Some (Returned (of_nat p), k\<lparr>k_heap := h, k_vmm := v\<rparr>) }"

definition sys_free :: "('s, 'n) handler" where
  "sys_free K r k = do { h \<leftarrow> kfree (unat (rdi r)) (k_heap k); Some (Returned 0, k\<lparr>k_heap := h\<rparr>) }"

definition sys_get_ticks :: "('s, 'n) handler" where
  "sys_get_ticks K r k = Some (Returned (k_ticks k), k)"

definition sys_ioctl :: "('s, 'n) handler" where
  "sys_ioctl K r k =
     (case fd_of (rdi r) k of
        FD_TYPE_FILE n offset flags \<Rightarrow>
          (case node_ioctl K (k_fs k) n of
             None \<Rightarrow> Some (fail, k)
           | Some f \<Rightarrow> do {
               (rc, m, s) \<leftarrow> f (ucast (rsi r)) (rdx r) (k_mem k);
               Some (Returned (ret_int rc), k\<lparr>k_fs := s, k_mem := m\<rparr>) })
      | _ \<Rightarrow> Some (fail, k))"

fun event_code :: "event_type \<Rightarrow> u32" where
  "event_code EVENT_NONE = 0"
| "event_code EVENT_KEY_DOWN = 1"
| "event_code EVENT_KEY_UP = 2"
| "event_code EVENT_MOUSE_MOVE = 3"
| "event_code EVENT_MOUSE_DOWN = 4"
| "event_code EVENT_MOUSE_UP = 5"

definition event_bytes :: "event \<Rightarrow> u8 list" where
  "event_bytes e = le32 (event_code (event_kind e)) @ le32 (data1 e) @ le32 (data2 e) @ le32 (data3 e)"

definition sys_input_poll_event :: "('s, 'n) handler" where
  "sys_input_poll_event K r k =
     Some (case event_pop (k_events k) of
        None \<Rightarrow> (Returned 0, k)
      | Some (e, q) \<Rightarrow> (Returned 1, k\<lparr>k_events := q, k_mem := store_bytes (rdi r) (event_bytes e) (k_mem k)\<rparr>))"

definition sys_sbrk :: "('s, 'n) handler" where
  "sys_sbrk K r k =
     (let increment = rdi r; old_brk = program_break k; new_brk = old_brk + increment
      in if increment = 0 then Some (Returned old_brk, k)
         else if new_brk < initial_program_break k then Some (fail, k)
         else Some (Returned old_brk, k\<lparr>program_break := new_brk\<rparr>))"

subsection \<open>Mounting\<close>

fun fd_node :: "'n fd_entry \<Rightarrow> 'n option" where
  "fd_node (FD_TYPE_FILE n offset flags) = Some n"
| "fd_node _ = None"

definition sys_mount :: "('s, 'n) handler" where
  "sys_mount K r k =
     (case user_path (rdi r) k of None \<Rightarrow> Some (fail, k)
      | Some mount_point_path \<Rightarrow>
     (case user_path (rsi r) k of None \<Rightarrow> Some (fail, k)
      | Some device_node_path \<Rightarrow>
     (case user_string 31 (rdx r) k of None \<Rightarrow> Some (fail, k)
      | Some fs_type_name \<Rightarrow> do {
          (mp, s1) \<leftarrow> vfs_resolve_path (fs_ops K) (fs_root K) (Some mount_point_path) (k_fs k);
          (case mp of
             None \<Rightarrow> Some (fail, k\<lparr>k_fs := s1\<rparr>)
           | Some mount_point \<Rightarrow>
               if \<not> is_directory (fs_ops K) s1 mount_point then Some (fail, k\<lparr>k_fs := s1\<rparr>)
               else do {
                 (dn, s2) \<leftarrow> vfs_resolve_path (fs_ops K) (fs_root K) (Some device_node_path) s1;
                 (case dn of
                    None \<Rightarrow> Some (fail, k\<lparr>k_fs := s2\<rparr>)
                  | Some device_node \<Rightarrow>
                      if op_flags (fs_ops K) s2 device_node AND VFS_FILE = 0 then Some (fail, k\<lparr>k_fs := s2\<rparr>)
                      else do {
                        (rc, s3) \<leftarrow> mount_node K (map fd_node (t_fds k)) mount_point device_node fs_type_name s2;
                        Some (Returned (ret_int rc), k\<lparr>k_fs := s3\<rparr>) }) }) })))"

definition sys_unmount :: "('s, 'n) handler" where
  "sys_unmount K r k =
     (case user_path (rdi r) k of None \<Rightarrow> Some (fail, k)
      | Some path \<Rightarrow> do {
          (mp, s1) \<leftarrow> vfs_resolve_path (fs_ops K) (fs_root K) (Some path) (k_fs k);
          (case mp of
             None \<Rightarrow> Some (fail, k\<lparr>k_fs := s1\<rparr>)
           | Some n \<Rightarrow>
               if op_flags (fs_ops K) s1 n AND VFS_MOUNTPOINT = 0 then Some (fail, k\<lparr>k_fs := s1\<rparr>)
               else do { (rc, s2) \<leftarrow> unmount_node K n s1; Some (Returned (ret_int rc), k\<lparr>k_fs := s2\<rparr>) }) })"

definition sys_exec :: "('s, 'n) handler" where
  "sys_exec K r k = Some (fail, k)"

subsection \<open>The framebuffer\<close>

definition USER_FRAMEBUFFER_VADDR :: u64 where "USER_FRAMEBUFFER_VADDR = 0x10000000000"

function map_framebuffer :: "u64 \<Rightarrow> u64 \<Rightarrow> u64 \<Rightarrow> nat \<Rightarrow> vmm \<Rightarrow> vmm option" where
  "map_framebuffer pml4 fb_phys_addr fb_size i s =
     (if i < unat fb_size
      then do {
        s' \<leftarrow> vmm_map_page pml4 (USER_FRAMEBUFFER_VADDR + of_nat i) (fb_phys_addr + of_nat i)
                (PAGE_PRESENT OR PAGE_WRITE OR PAGE_USER) s;
        map_framebuffer pml4 fb_phys_addr fb_size (i + PAGE_SIZE) s' }
      else Some s)"
  by pat_completeness auto
termination
  by (relation "measure (\<lambda>(_, _, fb_size, i, _). unat fb_size - i)") (auto simp: PAGE_SIZE_def)

declare map_framebuffer.simps [simp del]

definition sys_gfx_get_fb_info :: "('s, 'n) handler" where
  "sys_gfx_get_fb_info K r k =
     (case k_fb k of
        None \<Rightarrow> Some (fail, k)
      | Some fb \<Rightarrow>
          if fb_address fb = 0 then Some (fail, k)
          else do {
            v \<leftarrow> map_framebuffer (t_pml4 k) (vmm_virt_to_phys (k_vmm k) (fb_address fb)) (fb_pitch fb * fb_height fb) 0 (k_vmm k);
            let info = le32 (ucast (fb_width fb)) @ le32 (ucast (fb_height fb)) @ le32 (ucast (fb_pitch fb)) @
                       le32 (ucast (fb_bpp fb)) @ le32 (ucast USER_FRAMEBUFFER_VADDR) @
                       le32 (ucast (drop_bit 32 USER_FRAMEBUFFER_VADDR))
            in Some (Returned 0, k\<lparr>k_vmm := v, k_mem := store_bytes (rdi r) info (k_mem k)\<rparr>) })"

subsection \<open>Dispatch\<close>

definition SYS_EXIT :: nat where "SYS_EXIT = 0"
definition SYS_WRITE :: nat where "SYS_WRITE = 1"
definition SYS_OPEN :: nat where "SYS_OPEN = 2"
definition SYS_CLOSE :: nat where "SYS_CLOSE = 3"
definition SYS_READ :: nat where "SYS_READ = 4"
definition SYS_STAT :: nat where "SYS_STAT = 5"
definition SYS_MKDIR :: nat where "SYS_MKDIR = 6"
definition SYS_READDIR :: nat where "SYS_READDIR = 7"
definition SYS_UNLINK :: nat where "SYS_UNLINK = 8"
definition SYS_RMDIR :: nat where "SYS_RMDIR = 9"
definition SYS_SOCKET :: nat where "SYS_SOCKET = 10"
definition SYS_CONNECT :: nat where "SYS_CONNECT = 11"
definition SYS_SEND :: nat where "SYS_SEND = 12"
definition SYS_RECV :: nat where "SYS_RECV = 13"
definition SYS_BIND :: nat where "SYS_BIND = 14"
definition SYS_LISTEN :: nat where "SYS_LISTEN = 15"
definition SYS_ACCEPT :: nat where "SYS_ACCEPT = 16"
definition SYS_GET_TICKS :: nat where "SYS_GET_TICKS = 17"
definition SYS_SHA256 :: nat where "SYS_SHA256 = 18"
definition SYS_MALLOC :: nat where "SYS_MALLOC = 19"
definition SYS_FREE :: nat where "SYS_FREE = 20"
definition SYS_IOCTL :: nat where "SYS_IOCTL = 21"
definition SYS_MOUNT :: nat where "SYS_MOUNT = 22"
definition SYS_UNMOUNT :: nat where "SYS_UNMOUNT = 23"
definition SYS_EXEC :: nat where "SYS_EXEC = 24"
definition SYS_GFX_GET_FB_INFO :: nat where "SYS_GFX_GET_FB_INFO = 25"
definition SYS_INPUT_POLL_EVENT :: nat where "SYS_INPUT_POLL_EVENT = 26"
definition SYS_SBRK :: nat where "SYS_SBRK = 27"

lemmas syscall_numbers =
  SYS_EXIT_def SYS_WRITE_def SYS_OPEN_def SYS_CLOSE_def SYS_READ_def SYS_STAT_def SYS_MKDIR_def
  SYS_READDIR_def SYS_UNLINK_def SYS_RMDIR_def SYS_SOCKET_def SYS_CONNECT_def SYS_SEND_def SYS_RECV_def
  SYS_BIND_def SYS_LISTEN_def SYS_ACCEPT_def SYS_GET_TICKS_def SYS_SHA256_def SYS_MALLOC_def SYS_FREE_def
  SYS_IOCTL_def SYS_MOUNT_def SYS_UNMOUNT_def SYS_EXEC_def SYS_GFX_GET_FB_INFO_def SYS_INPUT_POLL_EVENT_def
  SYS_SBRK_def

text \<open>The table \<open>syscall_init\<close> fills; the other entries stay zero.\<close>

definition syscall_table :: "(nat \<times> ('s, 'n) handler) list" where
  "syscall_table =
     [(SYS_EXIT, sys_exit), (SYS_WRITE, sys_write), (SYS_OPEN, sys_open), (SYS_CLOSE, sys_close),
      (SYS_READ, sys_read), (SYS_STAT, sys_stat), (SYS_MKDIR, sys_mkdir), (SYS_READDIR, sys_readdir),
      (SYS_UNLINK, sys_unlink), (SYS_RMDIR, sys_rmdir), (SYS_SOCKET, sys_socket), (SYS_CONNECT, sys_connect),
      (SYS_SEND, sys_write), (SYS_RECV, sys_recv), (SYS_BIND, sys_bind), (SYS_LISTEN, sys_listen),
      (SYS_ACCEPT, sys_accept), (SYS_GET_TICKS, sys_get_ticks), (SYS_SHA256, sys_sha256),
      (SYS_MALLOC, sys_malloc), (SYS_FREE, sys_free), (SYS_IOCTL, sys_ioctl), (SYS_MOUNT, sys_mount),
      (SYS_UNMOUNT, sys_unmount), (SYS_EXEC, sys_exec), (SYS_GFX_GET_FB_INFO, sys_gfx_get_fb_info),
      (SYS_INPUT_POLL_EVENT, sys_input_poll_event), (SYS_SBRK, sys_sbrk)]"

text \<open>A call whose number has no handler changes nothing, \<open>rax\<close> included.\<close>

definition syscall_handler :: "('s, 'n) handler" where
  "syscall_handler K r k =
     (case (if unat (rax r) < 256 then map_of syscall_table (unat (rax r)) else None) of
        Some h \<Rightarrow> h K r k
      | None \<Rightarrow> Some (Returned (rax r), k))"

text \<open>The dispatcher for calls on a descriptor inside the kernel (vfs.c).\<close>

definition kernel_ioctl ::
  "('s, 'n) kernel_ops \<Rightarrow> int \<Rightarrow> u32 \<Rightarrow> u64 \<Rightarrow> ('s, 'n) kstate \<Rightarrow> (int \<times> ('s, 'n) kstate) option" where
  "kernel_ioctl K fd request argp k =
     (if fd < 0 \<or> fd \<ge> int MAX_FILES then Some (-1, k)
      else (case t_fds k ! nat fd of
              FD_TYPE_FILE n offset flags \<Rightarrow>
                (case node_ioctl K (k_fs k) n of
                   None \<Rightarrow> Some (-1, k)
                 | Some f \<Rightarrow> do {
                     (rc, m, s) \<leftarrow> f request argp (k_mem k);
                     Some (rc, k\<lparr>k_fs := s, k_mem := m\<rparr>) })
            | _ \<Rightarrow> Some (-1, k)))"


subsection \<open>Socket calls keep the sockets\<close>

definition sock_ids :: "net \<Rightarrow> nat list" where
  "sock_ids n = map sock_id (active_sockets n)"

definition same_sockets :: "net \<Rightarrow> net \<Rightarrow> bool" where
  "same_sockets n n' \<longleftrightarrow> sock_ids n' = sock_ids n \<and> next_sock n' = next_sock n"

lemma same_sockets_refl [simp]: "same_sockets n n"
  by (simp add: same_sockets_def)

lemma set_sock_same: "same_sockets n (set_sock s n)"
  by (auto simp: same_sockets_def sock_ids_def set_sock_def)

lemma find_sock_ids: "find_sock i ss = Some s \<Longrightarrow> s \<in> set ss \<and> sock_id s = i"
  by (induction ss) (auto split: if_splits)

lemma find_sock_none: "find_sock i ss = None \<longleftrightarrow> i \<notin> sock_id ` set ss"
  by (induction ss) auto

lemma remove_sock_ids: "map sock_id (remove_sock i ss) = remove1 i (map sock_id ss)"
  by (induction ss) auto

lemma udp_send_same: "udp_send_packet d sp dp data n = Some n' \<Longrightarrow> same_sockets n n'"
  by (auto simp: udp_send_packet_def ip_send_packet_def same_sockets_def sock_ids_def arp_send_request_def
      send_packet_def Let_def split: if_splits option.splits)

lemma sock_call_same:
  "sock_send s b n = Some (rc, n') \<Longrightarrow> same_sockets n n'"
  "sock_recv t s l n = Some (rr, n') \<Longrightarrow> same_sockets n n'"
  "same_sockets n (snd (sock_connect s a n))"
  "same_sockets n (snd (sock_bind s a n))"
proof -
  show "same_sockets n n'" if "sock_send s b n = Some (rc, n')"
    using that by (auto simp: sock_send_def bind_eq_Some_conv split: option.splits if_splits dest: udp_send_same)
  show "same_sockets n n'" if "sock_recv t s l n = Some (rr, n')"
    using that by (auto simp: sock_recv_def bind_eq_Some_conv Let_def split: option.splits if_splits intro: set_sock_same)
  show "same_sockets n (snd (sock_connect s a n))"
    by (auto simp: sock_connect_def set_sock_same split: option.splits)
  show "same_sockets n (snd (sock_bind s a n))"
  proof -
    have "same_sockets n (udp_register_handler p h (set_sock t n))" for p h t
      using set_sock_same [of n t] by (simp add: udp_register_handler_def same_sockets_def sock_ids_def)
    then show ?thesis by (auto simp: sock_bind_def split: option.splits)
  qed
qed

subsection \<open>A well-formed process\<close>

text \<open>
  Sixteen descriptors; a socket descriptor names a socket that exists, no two name the same one; the
  break is not below its start.
\<close>

definition process_wf :: "('s, 'n) kstate \<Rightarrow> bool" where
  "process_wf k \<longleftrightarrow> length (t_fds k) = MAX_FILES
     \<and> (\<forall>i < MAX_FILES. \<forall>a. t_fds k ! i = FD_TYPE_SOCKET a \<longrightarrow> a \<in> set (sock_ids (k_net k)))
     \<and> (\<forall>i < MAX_FILES. \<forall>j < MAX_FILES. \<forall>a. t_fds k ! i = FD_TYPE_SOCKET a \<longrightarrow> t_fds k ! j = FD_TYPE_SOCKET a \<longrightarrow> i = j)
     \<and> distinct (sock_ids (k_net k)) \<and> (\<forall>a \<in> set (sock_ids (k_net k)). a < next_sock (k_net k))
     \<and> initial_program_break k \<le> program_break k"

definition same_process :: "('s, 'n) kstate \<Rightarrow> ('s, 'n) kstate \<Rightarrow> bool" where
  "same_process k k' \<longleftrightarrow> t_fds k' = t_fds k \<and> same_sockets (k_net k) (k_net k')
     \<and> program_break k' = program_break k \<and> initial_program_break k' = initial_program_break k"

lemma same_process_wf: "same_process k k' \<Longrightarrow> process_wf k \<Longrightarrow> process_wf k'"
  by (simp add: process_wf_def same_process_def same_sockets_def)

lemma set_fd_wf:
  assumes "process_wf k" "\<And>a. e \<noteq> FD_TYPE_SOCKET a"
  shows "process_wf (set_fd i e k)"
proof -
  have old: "(t_fds k)[i := e] ! j = FD_TYPE_SOCKET a \<Longrightarrow> j < MAX_FILES \<Longrightarrow> t_fds k ! j = FD_TYPE_SOCKET a" for j a
    using assms by (cases "i = j") (auto simp: process_wf_def)
  then show ?thesis using assms(1) unfolding process_wf_def set_fd_def by simp
qed

lemma fd_of_cases: "fd_of x k \<noteq> FD_TYPE_NONE \<Longrightarrow> nat (int_arg x) < MAX_FILES \<and> fd_of x k = t_fds k ! nat (int_arg x)"
  by (auto simp: fd_of_def Let_def split: if_splits)

lemma sock_of_some:
  assumes "process_wf k" "fd_of x k = FD_TYPE_SOCKET i"
  obtains s where "sock_of i k = Some s"
proof -
  have "i \<in> set (sock_ids (k_net k))" using assms fd_of_cases [of x k] unfolding process_wf_def by force
  then have "sock_of i k \<noteq> None" by (simp add: sock_of_def sock_ids_def find_sock_none)
  then show thesis using that by auto
qed

lemma close_wf:
  assumes wf: "process_wf k" and fd: "fd_of x k = FD_TYPE_SOCKET i" and s: "sock_of i k = Some s"
  shows "process_wf (set_fd (nat (int_arg x)) FD_TYPE_NONE (k\<lparr>k_net := snd (sock_close (Some s) (k_net k))\<rparr>))"
proof -
  let ?f = "nat (int_arg x)"
  have f: "?f < MAX_FILES" "t_fds k ! ?f = FD_TYPE_SOCKET i" using fd_of_cases [of x k] fd by auto
  have i: "sock_id s = i" using s find_sock_ids by (fastforce simp: sock_of_def)
  have ids: "sock_ids (snd (sock_close (Some s) (k_net k))) = remove1 i (sock_ids (k_net k))"
    "next_sock (snd (sock_close (Some s) (k_net k))) = next_sock (k_net k)"
    by (simp_all add: sock_close_def sock_ids_def remove_sock_ids i)
  have d: "distinct (sock_ids (k_net k))" and len: "length (t_fds k) = MAX_FILES" using wf by (auto simp: process_wf_def)
  have other: "t_fds k ! j \<noteq> FD_TYPE_SOCKET i" if "j < MAX_FILES" "j \<noteq> ?f" for j
    using wf f that unfolding process_wf_def by blast
  have nth: "(t_fds k)[?f := FD_TYPE_NONE] ! j = FD_TYPE_SOCKET a \<longleftrightarrow> j \<noteq> ?f \<and> t_fds k ! j = FD_TYPE_SOCKET a"
    if "j < MAX_FILES" for j a using that len by (cases "j = ?f") auto
  show ?thesis
    using wf other d unfolding process_wf_def set_fd_def
    by (simp add: ids nth set_remove1_eq) metis
qed

lemma socket_loop_wf:
  assumes "process_wf k" "set is \<subseteq> {..<MAX_FILES}"
  shows "process_wf (snd (socket_loop d t p is k))"
  using assms
proof (induction "is" arbitrary: k)
  case (Cons i "is")
  have none: "process_wf (k\<lparr>k_net := k_net k\<rparr>)" using Cons.prems(1) by simp
  show ?case
  proof (cases "t_fds k ! i = FD_TYPE_NONE")
    case False
    then show ?thesis using Cons by simp
  next
    case free: True
    show ?thesis
    proof (cases "fst (sock_create d t p (k_net k))")
      case None
      then have "sock_create d t p (k_net k) = (None, k_net k)"
        by (auto simp: sock_create_def Let_def split: if_splits)
      then show ?thesis using Cons free by simp
    next
      case (Some a)
      obtain n where n: "sock_create d t p (k_net k) = (Some a, n)" using Some by (cases "sock_create d t p (k_net k)") auto
      then have a: "a = next_sock (k_net k)" "sock_ids n = a # sock_ids (k_net k)" "next_sock n = a + 1"
        by (auto simp: sock_create_def sock_ids_def Let_def split: if_splits)
      have len: "length (t_fds k) = MAX_FILES" and i: "i < MAX_FILES"
        and below: "\<And>b. b \<in> set (sock_ids (k_net k)) \<Longrightarrow> b < a" "a \<notin> set (sock_ids (k_net k))"
        using Cons.prems a(1) by (auto simp: process_wf_def)
      have nth: "(t_fds k)[i := FD_TYPE_SOCKET a] ! j = FD_TYPE_SOCKET b
          \<longleftrightarrow> (if j = i then b = a else t_fds k ! j = FD_TYPE_SOCKET b)" if "j < MAX_FILES" for j b
        using that len by (cases "j = i") auto
      have old: "t_fds k ! j \<noteq> FD_TYPE_SOCKET a" if "j < MAX_FILES" for j
        using Cons.prems(1) below(2) that by (auto simp: process_wf_def)
      have "process_wf (set_fd i (FD_TYPE_SOCKET a) (k\<lparr>k_net := n\<rparr>))"
        using Cons.prems(1) below old unfolding process_wf_def set_fd_def
        by (simp add: nth a(2,3) less_Suc_eq) metis
      then show ?thesis using free n by simp
    qed
  qed
qed simp

text \<open>What holds of every result a call can have.\<close>

definition yields :: "('a \<Rightarrow> bool) \<Rightarrow> 'a option \<Rightarrow> bool" where
  "yields P m \<longleftrightarrow> (\<forall>x. m = Some x \<longrightarrow> P x)"

lemma yields_simps [simp]:
  "yields P None" "yields P (Some x) = P x"
  by (auto simp: yields_def)

lemma yields_bind [intro!]: "(\<And>x. m = Some x \<Longrightarrow> yields P (f x)) \<Longrightarrow> yields P (m \<bind> f)"
  by (auto simp: yields_def bind_eq_Some_conv)

definition keeps_wf :: "('s, 'n) handler \<Rightarrow> bool" where
  "keeps_wf h \<longleftrightarrow> (\<forall>K r k. process_wf k \<longrightarrow> yields (\<lambda>(out, k'). process_wf k') (h K r k))"

lemma keeps_wfI: "(\<And>K r k. process_wf k \<Longrightarrow> yields (\<lambda>(out, k'). process_wf k') (h K r k)) \<Longrightarrow> keeps_wf h"
  by (auto simp: keeps_wf_def)

lemma same_processI:
  fixes k k' :: "('s, 'n) kstate"
  shows "t_fds k' = t_fds k \<Longrightarrow> same_sockets (k_net k) (k_net k') \<Longrightarrow> program_break k' = program_break k
    \<Longrightarrow> initial_program_break k' = initial_program_break k \<Longrightarrow> process_wf k \<Longrightarrow> process_wf k'"
  using same_process_wf [of k k'] by (simp add: same_process_def)

lemma wf_update [simp]:
  "process_wf (k\<lparr>k_fs := s\<rparr>) = process_wf k" "process_wf (k\<lparr>k_mem := m\<rparr>) = process_wf k"
  "process_wf (k\<lparr>k_fs := s, k_mem := m\<rparr>) = process_wf k" "process_wf (k\<lparr>k_heap := h\<rparr>) = process_wf k"
  "process_wf (k\<lparr>k_events := q, k_mem := m\<rparr>) = process_wf k" "process_wf (k\<lparr>k_vmm := v\<rparr>) = process_wf k"
  "process_wf (k\<lparr>k_heap := h, k_vmm := v\<rparr>) = process_wf k"
  "process_wf (k\<lparr>k_events := q\<rparr>) = process_wf k"
  by (simp_all add: process_wf_def)

lemma net_wf: "process_wf k \<Longrightarrow> same_sockets (k_net k) n \<Longrightarrow> process_wf (k\<lparr>k_net := n\<rparr>)"
  by (erule same_processI [rotated 4]) simp_all

lemma receive_wf: "process_wf k \<Longrightarrow> yields (\<lambda>(out, k'). process_wf k') (receive i buf len k)"
proof -
  assume wf: "process_wf k"
  have "process_wf (k\<lparr>k_net := n, k_mem := m\<rparr>)" "process_wf (k\<lparr>k_net := n\<rparr>)"
    if "sock_recv (t_id k) (Some s) (unat len) (k_net k) = Some (res, n)" for s res n m
    using net_wf [OF wf sock_call_same(2) [OF that]] by (simp_all add: process_wf_def)
  then show ?thesis using wf
    by (auto simp: receive_def Let_def split: recv_result.split)
qed

lemma file_calls_wf:
  "keeps_wf sys_stat" "keeps_wf sys_mkdir" "keeps_wf sys_unlink" "keeps_wf sys_rmdir" "keeps_wf sys_readdir"
  "keeps_wf sys_mount" "keeps_wf sys_unmount"
  by (rule keeps_wfI,
      auto simp: sys_stat_def sys_mkdir_def sys_unlink_def sys_rmdir_def on_path_def sys_readdir_def sys_mount_def
        sys_unmount_def split: option.split)+

lemma plain_calls_wf:
  "keeps_wf sys_exit" "keeps_wf sys_sha256" "keeps_wf sys_malloc" "keeps_wf sys_free" "keeps_wf sys_get_ticks"
  "keeps_wf sys_ioctl" "keeps_wf sys_exec" "keeps_wf sys_gfx_get_fb_info" "keeps_wf sys_input_poll_event"
  by (rule keeps_wfI,
      auto simp: sys_exit_def sys_sha256_def sys_malloc_def sys_free_def sys_get_ticks_def sys_ioctl_def sys_exec_def
        sys_gfx_get_fb_info_def sys_input_poll_event_def Let_def
        split: option.split fd_entry.split)+

lemma on_socket_wf:
  assumes "\<And>s n. same_sockets n (snd (f s n))" "process_wf k"
  shows "yields (\<lambda>(out, k'). process_wf k') (on_socket f r k)"
proof -
  have "process_wf (k\<lparr>k_net := snd (f s (k_net k))\<rparr>)" for s by (rule net_wf [OF assms(2,1)])
  then show ?thesis using assms(2)
    by (auto simp: on_socket_def split_beta split: fd_entry.split)
qed

lemma sys_socket_wf: "process_wf k \<Longrightarrow> yields (\<lambda>(out, k'). process_wf k') (sys_socket K r k)"
  using socket_loop_wf [of k "[0..<MAX_FILES]"] by (simp add: sys_socket_def split_beta subset_iff)

lemma socket_calls_wf:
  "keeps_wf sys_connect" "keeps_wf sys_bind" "keeps_wf sys_listen" "keeps_wf sys_accept" "keeps_wf sys_recv" "keeps_wf sys_socket"
proof -
  show "keeps_wf sys_connect" "keeps_wf sys_bind" "keeps_wf sys_listen"
    by (rule keeps_wfI, simp add: sys_connect_def sys_bind_def sys_listen_def, rule on_socket_wf, simp add: sock_call_same, assumption)+
  show "keeps_wf sys_accept"
    by (rule keeps_wfI) (auto simp: sys_accept_def sock_accept_def split: fd_entry.split)
  show "keeps_wf sys_recv"
    by (rule keeps_wfI) (auto simp: sys_recv_def intro: receive_wf split: fd_entry.split)
  show "keeps_wf sys_socket" by (rule keeps_wfI, rule sys_socket_wf)
qed

lemma sbrk_wf: "keeps_wf sys_sbrk"
  by (rule keeps_wfI) (auto simp: sys_sbrk_def Let_def process_wf_def)

lemma send_wf: "process_wf k \<Longrightarrow> sock_send s b (k_net k) = Some (rc, n) \<Longrightarrow> process_wf (k\<lparr>k_net := n\<rparr>)"
  by (erule net_wf) (rule sock_call_same(1))

lemma descriptor_calls_wf:
  "keeps_wf sys_write" "keeps_wf sys_read" "keeps_wf sys_open" "keeps_wf sys_close"
proof -
  have upd: "process_wf (set_fd i (FD_TYPE_FILE n off fl) k)" "process_wf (set_fd i FD_TYPE_NONE k)" if "process_wf k"
    for i n off fl and k :: "('s, 'n) kstate"
    by (rule set_fd_wf [OF that]; simp)+
  show "keeps_wf sys_write"
    by (rule keeps_wfI)
      (auto simp: sys_write_def Let_def upd split: fd_entry.split intro: send_wf)
  show "keeps_wf sys_read"
    by (rule keeps_wfI)
      (auto simp: sys_read_def Let_def upd split: fd_entry.split intro: receive_wf)
  show "keeps_wf sys_open"
    by (rule keeps_wfI)
      (auto simp: sys_open_def Let_def upd split: option.split)
  show "keeps_wf sys_close"
    by (rule keeps_wfI)
      (auto simp: sys_close_def upd split: fd_entry.split intro: close_wf)
qed

lemmas all_calls_wf = file_calls_wf plain_calls_wf socket_calls_wf sbrk_wf descriptor_calls_wf

lemma syscall_table_wf: "list_all (\<lambda>(i, h). keeps_wf h) syscall_table"
  by (simp add: syscall_table_def all_calls_wf)

lemma syscall_handler_wf:
  assumes "process_wf k" "syscall_handler K r k = Some (out, k')"
  shows "process_wf k'"
proof (cases "if unat (rax r) < 256 then map_of syscall_table (unat (rax r)) else None :: ('a, 'b) handler option")
  case None
  then show ?thesis using assms by (simp add: syscall_handler_def)
next
  case (Some h)
  then have "(unat (rax r), h) \<in> set syscall_table" by (auto dest: map_of_SomeD split: if_splits)
  then have "keeps_wf h" using syscall_table_wf by (auto simp: list_all_iff)
  moreover have "h K r k = Some (out, k')" using assms(2) Some by (simp add: syscall_handler_def)
  ultimately show ?thesis using assms(1) by (force simp: keeps_wf_def yields_def)
qed

text \<open>A program's calls, one after the other, up to one that does not come back to it.\<close>

fun run_syscalls :: "('s, 'n) kernel_ops \<Rightarrow> registers list \<Rightarrow> ('s, 'n) kstate \<Rightarrow> ('s, 'n) kstate option" where
  "run_syscalls K [] k = Some k"
| "run_syscalls K (r # rs) k = do {
     (out, k') \<leftarrow> syscall_handler K r k;
     (case out of Returned v \<Rightarrow> run_syscalls K rs k' | _ \<Rightarrow> Some k') }"

lemma run_syscalls_wf: "process_wf k \<Longrightarrow> run_syscalls K rs k = Some k' \<Longrightarrow> process_wf k'"
proof (induction rs arbitrary: k)
  case (Cons r rs)
  obtain out k1 where h: "syscall_handler K r k = Some (out, k1)" using Cons.prems(2) by (auto simp: bind_eq_Some_conv)
  note wf = syscall_handler_wf [OF Cons.prems(1) this]
  show ?case using Cons.IH [OF wf] Cons.prems(2) h wf by (cases out) auto
qed simp

lemma table_at:
  "map_of syscall_table SYS_WRITE = Some sys_write" "map_of syscall_table SYS_CLOSE = Some sys_close"
  "map_of syscall_table SYS_READ = Some sys_read" "map_of syscall_table SYS_SEND = Some sys_write"
  "map_of syscall_table SYS_IOCTL = Some sys_ioctl" "map_of syscall_table SYS_CONNECT = Some sys_connect"
  "map_of syscall_table SYS_BIND = Some sys_bind" "map_of syscall_table SYS_LISTEN = Some sys_listen"
  "map_of syscall_table SYS_ACCEPT = Some sys_accept" "map_of syscall_table SYS_RECV = Some sys_recv"
  "map_of syscall_table SYS_OPEN = Some sys_open" "map_of syscall_table SYS_SBRK = Some sys_sbrk"
  by (simp_all add: syscall_table_def syscall_numbers)

lemma handler_at:
  "unat (rax r) = SYS_WRITE \<Longrightarrow> syscall_handler K r k = sys_write K r k"
  "unat (rax r) = SYS_CLOSE \<Longrightarrow> syscall_handler K r k = sys_close K r k"
  "unat (rax r) = SYS_READ \<Longrightarrow> syscall_handler K r k = sys_read K r k"
  "unat (rax r) = SYS_SEND \<Longrightarrow> syscall_handler K r k = sys_write K r k"
  "unat (rax r) = SYS_IOCTL \<Longrightarrow> syscall_handler K r k = sys_ioctl K r k"
  "unat (rax r) = SYS_CONNECT \<Longrightarrow> syscall_handler K r k = sys_connect K r k"
  "unat (rax r) = SYS_BIND \<Longrightarrow> syscall_handler K r k = sys_bind K r k"
  "unat (rax r) = SYS_LISTEN \<Longrightarrow> syscall_handler K r k = sys_listen K r k"
  "unat (rax r) = SYS_ACCEPT \<Longrightarrow> syscall_handler K r k = sys_accept K r k"
  "unat (rax r) = SYS_RECV \<Longrightarrow> syscall_handler K r k = sys_recv K r k"
  "unat (rax r) = SYS_OPEN \<Longrightarrow> syscall_handler K r k = sys_open K r k"
  "unat (rax r) = SYS_SBRK \<Longrightarrow> syscall_handler K r k = sys_sbrk K r k"
  by (simp_all add: syscall_handler_def table_at, simp_all add: syscall_numbers)

lemma socket_calls_return:
  assumes wf: "process_wf k"
  shows "\<exists>v k'. sys_close K r k = Some (Returned v, k')" "\<exists>v k'. sys_connect K r k = Some (Returned v, k')"
    "\<exists>v k'. sys_bind K r k = Some (Returned v, k')" "\<exists>v k'. sys_listen K r k = Some (Returned v, k')"
    "\<exists>v k'. sys_accept K r k = Some (Returned v, k')"
proof -
  have "\<exists>s. sock_of i k = Some s" if "fd_of (rdi r) k = FD_TYPE_SOCKET i" for i
    using sock_of_some [OF wf that] by blast
  then show "\<exists>v k'. sys_close K r k = Some (Returned v, k')" "\<exists>v k'. sys_connect K r k = Some (Returned v, k')"
    "\<exists>v k'. sys_bind K r k = Some (Returned v, k')" "\<exists>v k'. sys_listen K r k = Some (Returned v, k')"
    "\<exists>v k'. sys_accept K r k = Some (Returned v, k')"
    by (cases "fd_of (rdi r) k"; force simp: sys_close_def sys_connect_def sys_bind_def sys_listen_def sys_accept_def
        on_socket_def sock_accept_def split_beta)+
qed

subsection \<open>Correctness\<close>


text \<open>C28: A call on a descriptor that is out of range, or closed, or for the socket calls not a socket,
  returns -1 and changes nothing at all.\<close>

theorem bad_descriptor_refused:
  assumes "unat (rax r) \<in> {SYS_WRITE, SYS_CLOSE, SYS_READ, SYS_SEND, SYS_IOCTL, SYS_CONNECT, SYS_BIND, SYS_LISTEN, SYS_ACCEPT, SYS_RECV}"
    and "int_arg (rdi r) \<notin> {0..<16} \<or> t_fds k ! nat (int_arg (rdi r)) = FD_TYPE_NONE
      \<or> (\<exists>n offset flags. t_fds k ! nat (int_arg (rdi r)) = FD_TYPE_FILE n offset flags)
         \<and> unat (rax r) \<in> {SYS_CONNECT, SYS_BIND, SYS_LISTEN, SYS_ACCEPT, SYS_RECV}"
  shows "syscall_handler K r k = Some (Returned (- 1), k)"
proof -
  have fd: "fd_of (rdi r) k = (if int_arg (rdi r) \<in> {0..<16} then t_fds k ! nat (int_arg (rdi r)) else FD_TYPE_NONE)"
    by (simp add: fd_of_def Let_def MAX_FILES_def)
  show ?thesis
  proof (cases "fd_of (rdi r) k = FD_TYPE_NONE")
    case True
    then show ?thesis using assms(1)
      by (elim insertE emptyE) (simp_all add: handler_at sys_write_def sys_close_def sys_read_def sys_ioctl_def sys_connect_def
          sys_bind_def sys_listen_def sys_accept_def sys_recv_def on_socket_def)
  next
    case False
    then have "(\<exists>n offset flags. fd_of (rdi r) k = FD_TYPE_FILE n offset flags)"
      "unat (rax r) \<in> {SYS_CONNECT, SYS_BIND, SYS_LISTEN, SYS_ACCEPT, SYS_RECV}"
      using assms(2) fd by (auto split: if_splits)
    then show ?thesis
      by (elim insertE emptyE exE) (simp_all add: handler_at sys_connect_def sys_bind_def sys_listen_def sys_accept_def sys_recv_def on_socket_def)
  qed
qed


text \<open>A thread with a UDP socket on descriptor 3 and nothing else open.\<close>

definition socket_process :: "(unit, unit) kstate" where
  "socket_process =
     \<lparr>k_fs = (), k_net = \<lparr>dev_mac = None, kmalloc_ok = (\<lambda>_. True), sent = [], arp_cache = [], arp_cache_next_idx = 0,
        local_ip = 0, subnet_mask = 0, default_gateway = 0, udp_handlers = [],
        active_sockets = [\<lparr>sock_id = 1, sock_domain = 2, sock_type = 2, sock_protocol = 17, sock_state = SOCK_STATE_CLOSED,
          local_addr = no_addr, remote_addr = no_addr, recv_buffer = [], recv_data_len = 0, recv_read_idx = 0, waiting_thread = None\<rparr>],
        next_sock = 2, woken = [], dhcp_state = DHCP_STATE_INIT, dhcp_local_ip = 0, dhcp_gateway_ip = 0, dhcp_subnet_mask = 0,
        dhcp_server_ip = 0, dhcp_xid = 0\<rparr>,
      k_heap = heap_demo, k_events = event_boot, k_vmm = vmm_demo, k_mem = (\<lambda>_. 0), k_junk = (\<lambda>_. 0), k_ticks = 0, k_fb = None,
      t_id = 1, t_pml4 = 0x101000, t_fds = (replicate 16 FD_TYPE_NONE)[3 := FD_TYPE_SOCKET 1],
      program_break = 0x400000, initial_program_break = 0x400000\<rparr>"

definition no_files :: "(unit, unit) kernel_ops" where
  "no_files =
     \<lparr>fs_ops = \<lparr>op_flags = (\<lambda>_ _. 0), op_read = (\<lambda>_ _. None), op_write = (\<lambda>_ _. None), op_open = (\<lambda>_ _. None),
        op_finddir = (\<lambda>_ _. None), op_readdir = (\<lambda>_ _. None), op_mkdir = (\<lambda>_ _. None), op_create = (\<lambda>_ _. None),
        op_remove = (\<lambda>_ _. None), op_rmdir = (\<lambda>_ _. None), op_stat = (\<lambda>_ _. None)\<rparr>,
      fs_root = None, node_length_of = (\<lambda>_ _. 0), node_ioctl = (\<lambda>_ _. None), mount_node = (\<lambda>_ _ _ _ _. None),
      unmount_node = (\<lambda>_ _. None), node_at = (\<lambda>_. None)\<rparr>"

lemma socket_process_wf: "process_wf socket_process"
proof -
  have nth: "(replicate 16 FD_TYPE_NONE)[3 := FD_TYPE_SOCKET 1] ! i = (FD_TYPE_SOCKET a :: unit fd_entry) \<longleftrightarrow> i = 3 \<and> a = 1"
    if "i < 16" for i a using that by (cases "i = 3") auto
  have fds: "t_fds socket_process = (replicate 16 FD_TYPE_NONE)[3 := FD_TYPE_SOCKET 1]" by (simp add: socket_process_def)
  show ?thesis unfolding process_wf_def fds MAX_FILES_def using nth
    by (simp add: socket_process_def sock_ids_def)
qed


theorem bad_descriptor_refused_witness:
  "syscall_handler no_files \<lparr>rax = 3, rdi = 16, rsi = 0, rdx = 0, r10 = 0\<rparr> socket_process = Some (Returned (- 1), socket_process)
   \<and> syscall_handler no_files \<lparr>rax = 3, rdi = 4, rsi = 0, rdx = 0, r10 = 0\<rparr> socket_process = Some (Returned (- 1), socket_process)"
  by (rule conjI; rule bad_descriptor_refused) (simp_all add: syscall_numbers int_arg_def socket_process_def)

end
