(* ===== verification/Syscall_Files.thy ===== *)
theory Syscall_Files
  imports Syscall Kyrofs
begin

section \<open>Files through system calls\<close>

text \<open>
  The file calls on the in-memory file system: what a program that creates, writes, reopens and reads
  a file observes, from the bytes in its own memory to the bytes in its own memory.
\<close>

subsection \<open>Appending to a file\<close>

definition holds_file :: "kyrofs \<Rightarrow> nat \<Rightarrow> u8 list \<Rightarrow> bool" where
  "holds_file fs n bytes \<longleftrightarrow> (\<exists>x c buf. nodes fs n = Some x \<and> node_rw x = Rw_kyrofs \<and> node_open x
     \<and> node_content x = Some c \<and> fc_content c = Some buf \<and> unat (fc_size c) = length bytes
     \<and> take (length bytes) buf = map Some bytes)"

text \<open>The same names and directories.\<close>

definition same_names :: "kyrofs \<Rightarrow> kyrofs \<Rightarrow> bool" where
  "same_names fs fs' \<longleftrightarrow> (\<forall>d name. kyro_lookup fs' d name = kyro_lookup fs d name)
     \<and> (\<forall>tr tw d. is_directory (kyrofs_ops tr tw) fs' d = is_directory (kyrofs_ops tr tw) fs d)"

lemma same_names_resolve:
  assumes "kyro_inv fs" "kyro_inv fs'" "same_names fs fs'" "short_path p"
    and "vfs_resolve_path (kyrofs_ops tr tw) (Some r) (Some p) fs = Some (q, fs)"
  shows "vfs_resolve_path (kyrofs_ops tr tw) (Some r) (Some p) fs' = Some (q, fs')"
proof -
  have "Vfs.walk (kyrofs_ops tr tw) kyro_lookup fs' d cs = Vfs.walk (kyrofs_ops tr tw) kyro_lookup fs d cs" for d cs
    using assms(3) by (induction cs arbitrary: d) (simp_all add: same_names_def cong: option.case_cong)
  then show ?thesis
    using assms(5) unfolding kyro.resolve_path_walk [OF assms(1,4)] kyro.resolve_path_walk [OF assms(2,4)] by simp
qed

lemma set_content_names:
  assumes "nodes fs n = Some x"
  shows "same_names fs (set_node n (x\<lparr>node_content := c, node_length := l\<rparr>) fs)"
proof -
  let ?fs = "set_node n (x\<lparr>node_content := c, node_length := l\<rparr>) fs"
  have nm: "map_option node_name (nodes ?fs m) = map_option node_name (nodes fs m)" for m
    using assms by (simp add: set_node_def)
  have cn: "child_named (nodes ?fs) name cs = child_named (nodes fs) name cs" for name cs
    by (rule child_named_cong) (simp add: nm)
  have "kyro_lookup ?fs d name = kyro_lookup fs d name" for d name
    using assms cn by (cases "d = n") (simp_all add: kyro_lookup_def set_node_def split: option.split)
  moreover have "is_directory (kyrofs_ops tr tw) ?fs d = is_directory (kyrofs_ops tr tw) fs d" for tr tw d
    using assms by (auto simp: is_directory_kyrofs set_node_def)
  ultimately show ?thesis by (simp add: same_names_def)
qed

lemma write_appends:
  assumes inv: "kyro_inv fs" and f: "holds_file fs n bytes" and room: "\<forall>k. heap_ok fs k"
    and lt: "length bytes + length data < 2 ^ 31"
  shows "\<exists>fs'. kyrofs_write fs n (of_nat (length bytes)) (of_nat (length data)) data = Some (of_nat (length data), fs')
    \<and> kyro_inv fs' \<and> holds_file fs' n (bytes @ data) \<and> heap_ok fs' = heap_ok fs \<and> same_names fs fs'"
proof -
  obtain x c buf where x: "nodes fs n = Some x" "node_rw x = Rw_kyrofs" "node_open x" "node_content x = Some c"
    "fc_content c = Some buf" "unat (fc_size c) = length bytes" "take (length bytes) buf = map Some bytes"
    using f by (auto simp: holds_file_def)
  have wf: "kyro_wf fs" using inv by (simp add: kyro_inv_def)
  have o: "unat (of_nat (length bytes) :: u64) = length bytes" using lt by (simp add: unat_of_nat)
  then have lt': "unat (of_nat (length bytes) :: u64) + length data < 2 ^ 31" using lt by simp
  obtain c' buf' where w: "kyrofs_write fs n (of_nat (length bytes)) (of_nat (length data)) data
       = Some (of_nat (length data), set_node n (x\<lparr>node_content := Some c', node_length := fc_size c'\<rparr>) fs)"
    "fc_content c' = Some buf'" "content_wf c'" "unat (fc_size c') = max (unat (fc_size c)) (length bytes + length data)"
    "take (length data) (drop (length bytes) buf') = map Some data"
    "\<forall>i < unat (fc_size c). i < length bytes \<or> length bytes + length data \<le> i \<longrightarrow> buf' ! i = buf ! i"
    using kyrofs_write_effect [OF wf x(1,4,5) room lt'] unfolding o by metis
  let ?fs = "set_node n (x\<lparr>node_content := Some c', node_length := fc_size c'\<rparr>) fs"
  have "unat (of_nat (length bytes) + ucast (of_nat (length data) :: u32) :: u64) < 2 ^ 31"
    using end_pos_unat [OF lt'] lt by (simp only: o)
  from kyrofs_write_wf [OF wf this w(1)] have wf': "kyro_wf ?fs" .
  then have inv': "kyro_inv ?fs" using inv by (auto simp: kyro_inv_def set_node_def)
  have size': "unat (fc_size c') = length (bytes @ data)" using w(4) x(6) by simp
  have len': "length (bytes @ data) \<le> length buf'"
    using w(2,3) size' by (simp add: content_wf_def word_le_nat_alt)
  have "length bytes \<le> length buf" using x(7) by (metis length_map length_take min.cobounded1)
  then have "take (length bytes) buf' = take (length bytes) buf"
    using w(6) x(6) len' by (intro nth_equalityI) auto
  then have "take (length (bytes @ data)) buf' = map Some (bytes @ data)"
    using w(5) x(7) by (simp add: take_add)
  then have "holds_file ?fs n (bytes @ data)"
    using x(2,3) w(2) size' unfolding holds_file_def
    by (intro exI [of _ "x\<lparr>node_content := Some c', node_length := fc_size c'\<rparr>"] exI [of _ c'] exI [of _ buf'])
      (simp add: set_node_def)
  then show ?thesis using w(1) inv' set_content_names [OF x(1)] by (auto simp: set_node_def)
qed

lemma read_file:
  assumes "holds_file fs n bytes" "length bytes < 2 ^ 31"
  shows "kyrofs_read fs n 0 (of_nat (length bytes)) = Some (of_nat (length bytes), map Some bytes, fs)"
    and "kyrofs_read fs n (of_nat (length bytes)) count = Some (0, [], fs)"
proof -
  obtain x c buf where x: "nodes fs n = Some x" "node_content x = Some c" "fc_content c = Some buf"
    "unat (fc_size c) = length bytes" "take (length bytes) buf = map Some bytes"
    using assms(1) by (auto simp: holds_file_def)
  have o: "unat (of_nat (length bytes) :: u64) = length bytes" "unat (of_nat (length bytes) :: u32) = length bytes"
    using assms(2) by (simp_all add: unat_of_nat)
  have "length bytes \<le> length buf" using x(5) by (metis length_map length_take min.cobounded1)
  then show "kyrofs_read fs n 0 (of_nat (length bytes)) = Some (of_nat (length bytes), map Some bytes, fs)"
    using x o by (auto simp: kyrofs_read_def read_at_def word_le_nat_alt word_less_nat_alt Let_def)
  show "kyrofs_read fs n (of_nat (length bytes)) count = Some (0, [], fs)"
    using x o by (simp add: kyrofs_read_def word_le_nat_alt)
qed


subsection \<open>The calls\<close>

definition call :: "nat \<Rightarrow> u64 \<Rightarrow> u64 \<Rightarrow> u64 \<Rightarrow> registers" where
  "call n a b c = \<lparr>rax = of_nat n, rdi = a, rsi = b, rdx = c, r10 = 0\<rparr>"

lemma call_simps [simp]: "rax (call n a b c) = of_nat n" "rdi (call n a b c) = a" "rsi (call n a b c) = b" "rdx (call n a b c) = c"
  by (simp_all add: call_def)

lemma call_handlers:
  "syscall_handler K (call SYS_OPEN a b c) k = sys_open K (call SYS_OPEN a b c) k"
  "syscall_handler K (call SYS_WRITE a b c) k = sys_write K (call SYS_WRITE a b c) k"
  "syscall_handler K (call SYS_READ a b c) k = sys_read K (call SYS_READ a b c) k"
  by (rule handler_at, simp add: syscall_numbers)+

lemma int_arg_small: "i < MAX_FILES \<Longrightarrow> int_arg (of_nat i) = int i"
proof -
  assume i: "i < MAX_FILES"
  have "signed_take_bit 31 (int i) = int i" by (rule signed_take_bit_int_eq_self) (use i in \<open>simp_all add: MAX_FILES_def\<close>)
  moreover have "(ucast (of_nat i :: u64) :: u32) = of_nat i"
    using i by (simp add: unsigned_of_nat take_bit_nat_eq_self MAX_FILES_def)
  ultimately show ?thesis by (simp add: int_arg_def signed_of_nat)
qed

lemma fd_of_small: "i < MAX_FILES \<Longrightarrow> fd_of (of_nat i) k = t_fds k ! i"
  by (simp add: fd_of_def int_arg_small)

lemma length_mem_bytes [simp]: "length (mem_bytes m a n) = n"
  by (induction n arbitrary: a) auto

lemma fill_known [simp]: "fill_cells junk a (map Some bs) = bs"
  by (induction bs arbitrary: a) auto

lemma free_slot_spec: "free_slot es i = Some j \<Longrightarrow> i \<le> j \<and> j - i < length es \<and> es ! (j - i) = FD_TYPE_NONE"
  by (induction es i rule: free_slot.induct) (auto simp: nth_Cons' Suc_diff_le)

lemma store_bytes_other: "unat (x - a) \<ge> length bs \<Longrightarrow> length bs \<le> 2 ^ 64 \<Longrightarrow> store_bytes a bs m x = m x"
proof (induction bs arbitrary: a m)
  case (Cons b bs)
  have ne: "x \<noteq> a" using Cons.prems(1) by auto
  then have "x - a \<noteq> 0" by simp
  then have "unat (x - (a + 1)) = unat (x - a) - 1" by (simp add: unat_minus_one flip: diff_diff_eq)
  then show ?case using Cons ne by simp
qed simp

lemma mem_bytes_store: "length bs \<le> 2 ^ 64 \<Longrightarrow> mem_bytes (store_bytes a bs m) a (length bs) = bs"
proof (induction bs arbitrary: a m)
  case (Cons b bs)
  have "unat (- 1 :: u64) = 2 ^ 64 - 1" by (simp add: unsigned_minus_1_eq_mask mask_eq_exp_minus_1)
  then have "store_bytes (a + 1) bs (m(a := b)) a = b"
    using Cons.prems store_bytes_other [of bs a "a + 1" "m(a := b)"] by simp
  then show ?case using Cons by simp
qed simp

lemma kyro_length_ops: "op_open (kyrofs_ops tr tw) fs n = (case nodes fs n of None \<Rightarrow> None
    | Some x \<Rightarrow> if node_open x then Some (\<lambda>flags. kyrofs_open n flags fs) else None)"
  by (simp add: kyrofs_ops_def)

lemma open_file:
  assumes "holds_file fs n bytes" "flags AND O_TRUNC = 0"
  shows "vfs_open (kyrofs_ops tr tw) (Some n) flags fs = Some fs"
  using assms by (auto simp: holds_file_def vfs_open_def kyro_length_ops kyrofs_open_def)

lemma sys_open_found:
  assumes K: "fs_ops K = kyrofs_ops tr tw" "fs_root K = Some r"
    and path: "user_path p k = Some path" "vfs_resolve_path (kyrofs_ops tr tw) (Some r) (Some path) (k_fs k) = Some (Some n, k_fs k)"
    and f: "holds_file (k_fs k) n bytes" and fl: "ucast fl AND O_TRUNC = 0" "ucast fl AND O_APPEND = 0"
    and slot: "free_slot (t_fds k) 0 = Some i"
  shows "sys_open K (call SYS_OPEN p fl 0) k = Some (Returned (of_nat i), set_fd i (FD_TYPE_FILE n 0 (ucast fl)) k)"
  using path slot by (simp add: sys_open_def K open_file [OF f fl(1)] fl(2))

lemma resolve_absent:
  assumes inv: "kyro_inv fs" and name: "entry_name name" "short_path dir" "length dir < MAX_FILENAME_LEN"
    and dir: "vfs_resolve_path (kyrofs_ops tr tw) (Some r) (Some dir) fs = Some (Some d, fs)" "is_directory (kyrofs_ops tr tw) fs d"
    and new: "kyro_lookup fs d name = None"
  shows "vfs_resolve_path (kyrofs_ops tr tw) (Some r) (Some (dir @ CHR ''/'' # name)) fs = Some (None, fs)"
proof -
  have sp: "short_path (dir @ CHR ''/'' # name)"
    using name by (simp add: short_path_def kyro_files.components_dir_name) (simp add: entry_name_def)
  have "Vfs.walk (kyrofs_ops tr tw) kyro_lookup fs r (components dir) = Some d"
    using dir(1) by (simp add: kyro.resolve_path_walk [OF inv name(2)])
  then show ?thesis
    using dir(2) new by (simp add: kyro.resolve_path_walk [OF inv sp] kyro_files.components_dir_name [OF name(1)] Vfs.walk_append)
qed

lemma create_node_at:
  assumes inv: "kyro_inv fs" and room: "\<forall>k. heap_ok fs k" and name: "entry_name name" "short_path dir" "length dir < MAX_FILENAME_LEN"
    and dir: "vfs_resolve_path (kyrofs_ops tr tw) (Some r) (Some dir) fs = Some (Some d, fs)" "is_directory (kyrofs_ops tr tw) fs d"
    and new: "kyro_lookup fs d name = None"
  obtains fs' n where "vfs_create (kyrofs_ops tr tw) (Some d) (Some name) 0 fs = Some (0, fs')" "kyro_inv fs'"
    "nodes fs' n = Some (new_dirent d name VFS_FILE)" "heap_ok fs' = heap_ok fs"
    "vfs_resolve_path (kyrofs_ops tr tw) (Some r) (Some (dir @ CHR ''/'' # name)) fs' = Some (Some n, fs')"
proof -
  have room': "room_for_node fs" using room by (simp add: room_for_node_def)
  have fl: "VFS_FILE AND VFS_DIRECTORY = 0 \<or> VFS_FILE AND VFS_FILE = 0" by simp
  have wf: "kyro_wf fs" using inv by (simp add: kyro_inv_def)
  obtain p where p: "nodes fs d = Some p" "node_flags p AND VFS_DIRECTORY \<noteq> 0"
    "kyrofs_create_node d name VFS_FILE fs = Some (0, created d name VFS_FILE p fs)"
    by (rule created_contract [OF inv room' dir(2) name(1) fl]) blast
  let ?fs = "created d name VFS_FILE p fs"
  have w: "Vfs.walk (kyrofs_ops tr tw) kyro_lookup fs r (components dir) = Some d"
    using dir(1) by (simp add: kyro.resolve_path_walk [OF inv name(2)])
  have op: "kyro_create_op fs d = Some (\<lambda>name. kyrofs_create fs d name 0)" by (rule kyro_ops_directory(1) [OF wf p(1,2)])
  have at: "vfs_at_parent (kyrofs_ops tr tw) kyro_create_op (Some r) (Some (dir @ CHR ''/'' # name)) fs = Some (0, ?fs)"
    using kyro_files.at_parent_direct [where op = kyro_create_op, OF inv name w dir(2) op] p(3) by (simp add: kyrofs_create_def)
  have noslash: "CHR ''/'' \<notin> set name" using name(1) by (simp add: entry_name_def)
  have direct: "vfs_create (kyrofs_ops tr tw) (Some d) (Some name) 0 fs = Some (0, ?fs)"
    unfolding kyro_vfs_ops using last_slash_none [OF noslash] op p(3) by (simp add: vfs_at_parent_def kyrofs_create_def)
  obtain n where n: "kyro_inv ?fs" "made_node VFS_FILE fs ?fs n"
    "vfs_resolve_path (kyrofs_ops tr tw) (Some r) (Some (dir @ CHR ''/'' # name)) ?fs = Some (Some n, ?fs)"
    using kyro_files.add_resolves [OF inv room' name dir new] at by auto
  have "n \<noteq> d" using n(2) p(1) by (auto simp: made_node_def)
  then have "n = next_node fs" using n(2) by (auto simp: made_node_def created_def split: if_splits)
  then have "nodes ?fs n = Some (new_dirent d name VFS_FILE)" using \<open>n \<noteq> d\<close> by (simp add: created_def)
  from that [OF direct n(1) this _ n(3)] show ?thesis by (simp add: created_def)
qed

lemma create_file:
  assumes inv: "kyro_inv fs" and room: "\<forall>k. heap_ok fs k" and name: "entry_name name" "short_path dir" "length dir < MAX_FILENAME_LEN"
    and dir: "vfs_resolve_path (kyrofs_ops tr tw) (Some r) (Some dir) fs = Some (Some d, fs)" "is_directory (kyrofs_ops tr tw) fs d"
    and new: "kyro_lookup fs d name = None"
    and K: "fs_ops K = kyrofs_ops tr tw" "fs_root K = Some r"
  shows "\<exists>fs' n. open_create K (dir @ CHR ''/'' # name) fs = Some (Some n, fs') \<and> kyro_inv fs' \<and> holds_file fs' n []
    \<and> vfs_resolve_path (kyrofs_ops tr tw) (Some r) (Some (dir @ CHR ''/'' # name)) fs' = Some (Some n, fs')
    \<and> heap_ok fs' = heap_ok fs"
proof -
  obtain fs' n where c: "vfs_create (kyrofs_ops tr tw) (Some d) (Some name) 0 fs = Some (0, fs')" "kyro_inv fs'"
    "nodes fs' n = Some (new_dirent d name VFS_FILE)" "heap_ok fs' = heap_ok fs"
    "vfs_resolve_path (kyrofs_ops tr tw) (Some r) (Some (dir @ CHR ''/'' # name)) fs' = Some (Some n, fs')"
    by (rule create_node_at [OF inv room name dir new])
  have held: "holds_file fs' n []" using c(3) by (simp add: holds_file_def new_dirent_def new_content_def Let_def)
  have ls: "last_slash (dir @ CHR ''/'' # name) = int (length dir)"
    using name(1) by (intro last_slash_append) (simp add: entry_name_def)
  have "open_create K (dir @ CHR ''/'' # name) fs = Some (Some n, fs')"
    using dir c(1,5) by (simp add: open_create_def ls K)
  then show ?thesis using c held by blast
qed

lemma sys_open_new:
  assumes K: "fs_ops K = kyrofs_ops tr tw" "fs_root K = Some r"
    and fs: "kyro_inv (k_fs k)" "\<forall>x. heap_ok (k_fs k) x"
    and name: "entry_name name" "short_path dir" "length dir < MAX_FILENAME_LEN"
    and dir: "vfs_resolve_path (kyrofs_ops tr tw) (Some r) (Some dir) (k_fs k) = Some (Some d, k_fs k)"
      "is_directory (kyrofs_ops tr tw) (k_fs k) d" "kyro_lookup (k_fs k) d name = None"
    and path: "user_path p k = Some (dir @ CHR ''/'' # name)"
    and fl: "ucast fl AND O_CREAT \<noteq> 0" "ucast fl AND O_TRUNC = 0" "ucast fl AND O_APPEND = 0"
    and slot: "free_slot (t_fds k) 0 = Some i"
  shows "\<exists>fs' n. sys_open K (call SYS_OPEN p fl 0) k
       = Some (Returned (of_nat i), set_fd i (FD_TYPE_FILE n 0 (ucast fl)) (k\<lparr>k_fs := fs'\<rparr>))
    \<and> kyro_inv fs' \<and> holds_file fs' n [] \<and> heap_ok fs' = heap_ok (k_fs k)
    \<and> vfs_resolve_path (kyrofs_ops tr tw) (Some r) (Some (dir @ CHR ''/'' # name)) fs' = Some (Some n, fs')"
proof -
  obtain fs' n where c: "open_create K (dir @ CHR ''/'' # name) (k_fs k) = Some (Some n, fs')" "kyro_inv fs'" "holds_file fs' n []"
    "vfs_resolve_path (kyrofs_ops tr tw) (Some r) (Some (dir @ CHR ''/'' # name)) fs' = Some (Some n, fs')"
    "heap_ok fs' = heap_ok (k_fs k)"
    using create_file [OF fs name dir K] by blast
  have none: "vfs_resolve_path (kyrofs_ops tr tw) (Some r) (Some (dir @ CHR ''/'' # name)) (k_fs k) = Some (None, k_fs k)"
    by (rule resolve_absent [OF fs(1) name dir])
  have "sys_open K (call SYS_OPEN p fl 0) k
       = Some (Returned (of_nat i), set_fd i (FD_TYPE_FILE n 0 (ucast fl)) (k\<lparr>k_fs := fs'\<rparr>))"
    using path none c(1) fl slot by (simp add: sys_open_def K open_file [OF c(3) fl(2)])
  then show ?thesis using c by blast
qed

lemma sys_write_file:
  assumes K: "fs_ops K = kyrofs_ops tr tw"
    and fs: "kyro_inv (k_fs k)" "\<forall>x. heap_ok (k_fs k) x" "holds_file (k_fs k) n bytes"
    and fd: "i < MAX_FILES" "i < length (t_fds k)" "t_fds k ! i = FD_TYPE_FILE n (of_nat (length bytes)) flags" "flags AND O_APPEND = 0"
    and lt: "length bytes + unat l < 2 ^ 31"
  shows "\<exists>fs'. syscall_handler K (call SYS_WRITE (of_nat i) a l) k
      = Some (Returned l, set_fd i (FD_TYPE_FILE n (of_nat (length (bytes @ mem_bytes (k_mem k) a (unat l)))) flags) (k\<lparr>k_fs := fs'\<rparr>))
    \<and> kyro_inv fs' \<and> holds_file fs' n (bytes @ mem_bytes (k_mem k) a (unat l)) \<and> heap_ok fs' = heap_ok (k_fs k)
    \<and> same_names (k_fs k) fs'"
proof -
  let ?data = "mem_bytes (k_mem k) a (unat l)"
  have "unat l < 2 ^ 32" using lt by simp
  then have l: "unat (ucast l :: u32) = unat l" by (rule unat_ucast_64_32)
  have l2: "(ucast l :: u32) = of_nat (unat l)" by simp
  have lt': "length bytes + length ?data < 2 ^ 31" using lt by simp
  from write_appends [OF fs(1,3,2) lt'] obtain fs' where
    w: "kyrofs_write (k_fs k) n (of_nat (length bytes)) (of_nat (length ?data)) ?data = Some (of_nat (length ?data), fs')"
    "kyro_inv fs'" "holds_file fs' n (bytes @ ?data)" "heap_ok fs' = heap_ok (k_fs k)" "same_names (k_fs k) fs'" by blast
  have op: "op_write (kyrofs_ops tr tw) (k_fs k) n = Some (kyrofs_write (k_fs k) n)"
    using fs(3) by (auto simp: holds_file_def kyrofs_ops_def)
  have v: "vfs_write (kyrofs_ops tr tw) (Some n) (of_nat (length bytes)) (of_nat (unat l)) ?data (k_fs k) = Some (of_nat (unat l), fs')"
    using w(1) by (simp add: vfs_write_def op)
  have u: "(ucast (ucast l :: u32) :: u64) = l" by (simp add: word_unat_eq_iff l)
  have "l \<noteq> - 1" using lt by (auto simp: unsigned_minus_1_eq_mask mask_eq_exp_minus_1)
  then have "sys_write K (call SYS_WRITE (of_nat i) a l) k
      = Some (Returned l, set_fd i (FD_TYPE_FILE n (of_nat (length bytes) + l) flags) (k\<lparr>k_fs := fs'\<rparr>))"
    unfolding sys_write_def call_simps fd_of_small [OF fd(1)] fd(3) int_arg_small [OF fd(1)] K
    using v fd(4) by (simp add: u l Let_def)
  moreover have "(of_nat (length (bytes @ ?data)) :: u64) = of_nat (length bytes) + l" by simp
  ultimately show ?thesis unfolding call_handlers using w(2-5) by (intro exI [of _ fs']) simp
qed


lemma set_fd_simps [simp]:
  "k_fs (set_fd i e k) = k_fs k" "k_mem (set_fd i e k) = k_mem k" "k_vmm (set_fd i e k) = k_vmm k"
  "t_fds (set_fd i e k) = (t_fds k)[i := e]"
  by (simp_all add: set_fd_def)

definition chunk_bytes :: "memory \<Rightarrow> (u64 \<times> u64) list \<Rightarrow> u8 list" where
  "chunk_bytes m chunks = concat (map (\<lambda>(a, l). mem_bytes m a (unat l)) chunks)"

definition write_calls :: "nat \<Rightarrow> (u64 \<times> u64) list \<Rightarrow> registers list" where
  "write_calls i chunks = map (\<lambda>(a, l). call SYS_WRITE (of_nat i) a l) chunks"

lemma same_names_trans: "same_names a b \<Longrightarrow> same_names b c \<Longrightarrow> same_names a c"
  by (simp add: same_names_def)

lemma write_chunks:
  assumes K: "fs_ops K = kyrofs_ops tr tw"
    and fs: "kyro_inv (k_fs k)" "\<forall>x. heap_ok (k_fs k) x" "holds_file (k_fs k) n bytes"
    and fd: "i < MAX_FILES" "length (t_fds k) = MAX_FILES" "t_fds k ! i = FD_TYPE_FILE n (of_nat (length bytes)) flags"
      "flags AND O_APPEND = 0"
    and lt: "length bytes + length (chunk_bytes (k_mem k) chunks) < 2 ^ 31"
  shows "\<exists>k'. run_syscalls K (write_calls i chunks) k = Some k' \<and> kyro_inv (k_fs k')
    \<and> holds_file (k_fs k') n (bytes @ chunk_bytes (k_mem k) chunks) \<and> same_names (k_fs k) (k_fs k')
    \<and> k_mem k' = k_mem k \<and> k_vmm k' = k_vmm k \<and> length (t_fds k') = MAX_FILES
    \<and> (\<exists>e. e \<noteq> FD_TYPE_NONE \<and> t_fds k' = (t_fds k)[i := e])"
  using fs fd lt
proof (induction chunks arbitrary: k bytes)
  case Nil
  have "t_fds k = (t_fds k)[i := t_fds k ! i]" by simp
  then have "\<exists>e. e \<noteq> FD_TYPE_NONE \<and> t_fds k = (t_fds k)[i := e]" unfolding Nil.prems(6) by blast
  then show ?case using Nil by (simp add: write_calls_def chunk_bytes_def same_names_def)
next
  case (Cons c chunks)
  obtain a l where c: "c = (a, l)" by (cases c)
  let ?d = "mem_bytes (k_mem k) a (unat l)"
  have l: "length bytes + unat l < 2 ^ 31" "length (bytes @ ?d) + length (chunk_bytes (k_mem k) chunks) < 2 ^ 31"
    using Cons.prems(8) by (simp_all add: chunk_bytes_def c)
  have i: "i < length (t_fds k)" using Cons.prems(4,5) by simp
  from sys_write_file [OF K Cons.prems(1-4) i Cons.prems(6,7) l(1)] obtain fs' where
    w: "syscall_handler K (call SYS_WRITE (of_nat i) a l) k
      = Some (Returned l, set_fd i (FD_TYPE_FILE n (of_nat (length (bytes @ ?d))) flags) (k\<lparr>k_fs := fs'\<rparr>))"
    "kyro_inv fs'" "holds_file fs' n (bytes @ ?d)" "heap_ok fs' = heap_ok (k_fs k)" "same_names (k_fs k) fs'" by blast
  let ?k = "set_fd i (FD_TYPE_FILE n (of_nat (length (bytes @ ?d))) flags) (k\<lparr>k_fs := fs'\<rparr>)"
  have k: "k_fs ?k = fs'" "k_mem ?k = k_mem k" "k_vmm ?k = k_vmm k"
    "t_fds ?k = (t_fds k)[i := FD_TYPE_FILE n (of_nat (length (bytes @ ?d))) flags]"
    by (simp_all add: set_fd_def)
  have "\<exists>k'. run_syscalls K (write_calls i chunks) ?k = Some k' \<and> kyro_inv (k_fs k')
    \<and> holds_file (k_fs k') n ((bytes @ ?d) @ chunk_bytes (k_mem ?k) chunks) \<and> same_names (k_fs ?k) (k_fs k')
    \<and> k_mem k' = k_mem ?k \<and> k_vmm k' = k_vmm ?k \<and> length (t_fds k') = MAX_FILES
    \<and> (\<exists>e. e \<noteq> FD_TYPE_NONE \<and> t_fds k' = (t_fds ?k)[i := e])"
    by (rule Cons.IH) (use w Cons.prems l i in \<open>simp_all add: k\<close>)
  then obtain k' where k': "run_syscalls K (write_calls i chunks) ?k = Some k'" "kyro_inv (k_fs k')"
    "holds_file (k_fs k') n ((bytes @ ?d) @ chunk_bytes (k_mem k) chunks)" "same_names fs' (k_fs k')"
    "k_mem k' = k_mem k" "k_vmm k' = k_vmm k" "length (t_fds k') = MAX_FILES"
    "\<exists>e. e \<noteq> FD_TYPE_NONE \<and> t_fds k' = (t_fds k)[i := e]"
    by (auto simp: k)
  have "run_syscalls K (write_calls i (c # chunks)) k = Some k'" using w(1) k'(1) by (simp add: write_calls_def c)
  moreover have "(bytes @ ?d) @ chunk_bytes (k_mem k) chunks = bytes @ chunk_bytes (k_mem k) (c # chunks)"
    by (simp add: chunk_bytes_def c)
  ultimately show ?case using k' same_names_trans [OF w(5) k'(4)] by metis
qed

lemma sys_read_file:
  assumes K: "fs_ops K = kyrofs_ops tr tw" and f: "holds_file (k_fs k) n bytes" "length bytes < 2 ^ 31"
    and fd: "j < MAX_FILES" "t_fds k ! j = FD_TYPE_FILE n offset flags"
  shows "offset = 0 \<Longrightarrow> syscall_handler K (call SYS_READ (of_nat j) dest (of_nat (length bytes))) k
      = Some (Returned (of_nat (length bytes)),
              set_fd j (FD_TYPE_FILE n (of_nat (length bytes)) flags) (k\<lparr>k_mem := store_bytes dest bytes (k_mem k)\<rparr>))"
    and "offset = of_nat (length bytes) \<Longrightarrow>
      syscall_handler K (call SYS_READ (of_nat j) dest count) k = Some (Returned 0, set_fd j (FD_TYPE_FILE n offset flags) k)"
proof -
  have op: "op_read (kyrofs_ops tr tw) (k_fs k) n = Some (kyrofs_read (k_fs k) n)"
    using f(1) by (auto simp: holds_file_def kyrofs_ops_def)
  have c: "(ucast (of_nat (length bytes) :: u64) :: u32) = of_nat (length bytes)" "(ucast (of_nat (length bytes) :: u32) :: u64) = of_nat (length bytes)"
    using f(2) by (simp_all add: unsigned_of_nat take_bit_nat_eq_self)
  have m1: "(of_nat (length bytes) :: u64) \<noteq> - 1"
  proof
    assume "(of_nat (length bytes) :: u64) = - 1"
    then have "unat (of_nat (length bytes) :: u64) = unat (- 1 :: u64)" by simp
    then show False using f(2) by (simp add: unat_of_nat unsigned_minus_1_eq_mask mask_eq_exp_minus_1)
  qed
  show "syscall_handler K (call SYS_READ (of_nat j) dest (of_nat (length bytes))) k
      = Some (Returned (of_nat (length bytes)),
              set_fd j (FD_TYPE_FILE n (of_nat (length bytes)) flags) (k\<lparr>k_mem := store_bytes dest bytes (k_mem k)\<rparr>))"
    if "offset = 0"
    unfolding call_handlers sys_read_def call_simps fd_of_small [OF fd(1)] fd(2) int_arg_small [OF fd(1)] K that
    using read_file(1) [OF f] m1 by (simp add: vfs_read_def op c Let_def)
  show "syscall_handler K (call SYS_READ (of_nat j) dest count) k = Some (Returned 0, set_fd j (FD_TYPE_FILE n offset flags) k)"
    if "offset = of_nat (length bytes)"
    unfolding call_handlers sys_read_def call_simps fd_of_small [OF fd(1)] fd(2) int_arg_small [OF fd(1)] K that
    using read_file(2) [OF f] by (simp add: vfs_read_def op Let_def)
qed

subsection \<open>Correctness\<close>

text \<open>C29: A program that creates a file, writes it in pieces from anywhere in its memory, opens it again
  under the same path and reads it into a buffer finds the pieces in that buffer, in order; the two
  descriptors are different, and the next read returns 0. This holds for any directory of the tree,
  any two free descriptors and any pieces below 2 GiB together.\<close>

theorem file_calls_round_trip:
  assumes K: "fs_ops K = kyrofs_ops tr tw" "fs_root K = Some r"
    and fs: "kyro_inv (k_fs k)" "\<forall>x. heap_ok (k_fs k) x"
    and name: "entry_name name" "short_path dir" "length dir < MAX_FILENAME_LEN"
    and dir: "vfs_resolve_path (kyrofs_ops tr tw) (Some r) (Some dir) (k_fs k) = Some (Some d, k_fs k)"
      "is_directory (kyrofs_ops tr tw) (k_fs k) d" "kyro_lookup (k_fs k) d name = None"
    and path: "user_path p k = Some (dir @ CHR ''/'' # name)"
    and fl: "ucast fl AND O_CREAT \<noteq> 0" "ucast fl AND O_TRUNC = 0" "ucast fl AND O_APPEND = 0"
    and fds: "length (t_fds k) = MAX_FILES" "free_slot (t_fds k) 0 = Some i" "free_slot ((t_fds k)[i := FD_TYPE_FILE r 0 0]) 0 = Some j"
    and small: "length (chunk_bytes (k_mem k) chunks) < 2 ^ 31"
  shows "i \<noteq> j \<and> (\<exists>k1 k2 k3 k4. syscall_handler K (call SYS_OPEN p fl 0) k = Some (Returned (of_nat i), k1)
    \<and> run_syscalls K (write_calls i chunks) k1 = Some k2
    \<and> syscall_handler K (call SYS_OPEN p 0 0) k2 = Some (Returned (of_nat j), k3)
    \<and> syscall_handler K (call SYS_READ (of_nat j) dest (of_nat (length (chunk_bytes (k_mem k) chunks)))) k3
        = Some (Returned (of_nat (length (chunk_bytes (k_mem k) chunks))), k4)
    \<and> mem_bytes (k_mem k4) dest (length (chunk_bytes (k_mem k) chunks)) = chunk_bytes (k_mem k) chunks
    \<and> (\<forall>a count. fst (the (syscall_handler K (call SYS_READ (of_nat j) a count) k4)) = Returned 0))"
proof -
  let ?bytes = "chunk_bytes (k_mem k) chunks" and ?path = "dir @ CHR ''/'' # name"
  have i: "i < MAX_FILES" "t_fds k ! i = FD_TYPE_NONE" using free_slot_spec [OF fds(2)] fds(1) by auto
  have j: "j < MAX_FILES" "(t_fds k)[i := FD_TYPE_FILE r 0 0] ! j = FD_TYPE_NONE"
    using free_slot_spec [OF fds(3)] fds(1) by auto
  then have ij: "i \<noteq> j" using i(1) fds(1) by auto
  have slot: "free_slot (es[x := e]) b = free_slot (es[x := e']) b"
    if "e \<noteq> FD_TYPE_NONE" "e' \<noteq> FD_TYPE_NONE" for es :: "nat fd_entry list" and x b e e'
    using that
  proof (induction es arbitrary: x b)
    case (Cons z es)
    show ?case using Cons by (cases x; cases e; cases e'; cases z) auto
  qed simp
  obtain fs1 n where o: "sys_open K (call SYS_OPEN p fl 0) k
       = Some (Returned (of_nat i), set_fd i (FD_TYPE_FILE n 0 (ucast fl)) (k\<lparr>k_fs := fs1\<rparr>))"
    "kyro_inv fs1" "holds_file fs1 n []" "heap_ok fs1 = heap_ok (k_fs k)"
    "vfs_resolve_path (kyrofs_ops tr tw) (Some r) (Some ?path) fs1 = Some (Some n, fs1)"
    using sys_open_new [OF K fs name dir path fl fds(2)] by blast
  let ?k1 = "set_fd i (FD_TYPE_FILE n 0 (ucast fl)) (k\<lparr>k_fs := fs1\<rparr>)"
  have k1: "k_fs ?k1 = fs1" "k_mem ?k1 = k_mem k" "k_vmm ?k1 = k_vmm k" "t_fds ?k1 = (t_fds k)[i := FD_TYPE_FILE n 0 (ucast fl)]"
    by (simp_all add: set_fd_def)
  have "\<exists>k2. run_syscalls K (write_calls i chunks) ?k1 = Some k2 \<and> kyro_inv (k_fs k2)
    \<and> holds_file (k_fs k2) n ([] @ chunk_bytes (k_mem ?k1) chunks) \<and> same_names (k_fs ?k1) (k_fs k2)
    \<and> k_mem k2 = k_mem ?k1 \<and> k_vmm k2 = k_vmm ?k1 \<and> length (t_fds k2) = MAX_FILES
    \<and> (\<exists>e. e \<noteq> FD_TYPE_NONE \<and> t_fds k2 = (t_fds ?k1)[i := e])"
    by (rule write_chunks [OF K(1), of _ n "[]" i "ucast fl"]) (use o fs i fds fl small in \<open>simp_all add: k1\<close>)
  then obtain k2 e where k2: "run_syscalls K (write_calls i chunks) ?k1 = Some k2" "kyro_inv (k_fs k2)"
    "holds_file (k_fs k2) n ?bytes" "same_names fs1 (k_fs k2)" "k_mem k2 = k_mem k" "k_vmm k2 = k_vmm k"
    "length (t_fds k2) = MAX_FILES" "e \<noteq> FD_TYPE_NONE" "t_fds k2 = (t_fds k)[i := e]"
    by (auto simp: k1)
  have sp: "short_path ?path"
    using name by (simp add: short_path_def kyro_files.components_dir_name) (simp add: entry_name_def)
  have path2: "user_path p k2 = Some ?path" using path k2(5,6) by (simp add: user_string_def split: if_split_asm)
  have res2: "vfs_resolve_path (kyrofs_ops tr tw) (Some r) (Some ?path) (k_fs k2) = Some (Some n, k_fs k2)"
    by (rule same_names_resolve [OF o(2) k2(2,4) sp o(5)])
  have slot2: "free_slot (t_fds k2) 0 = Some j" using slot [OF k2(8), of "FD_TYPE_FILE r 0 0"] fds(3) by (simp add: k2(9))
  have o2: "sys_open K (call SYS_OPEN p 0 0) k2 = Some (Returned (of_nat j), set_fd j (FD_TYPE_FILE n 0 (ucast (0 :: u64))) k2)"
    by (rule sys_open_found [OF K path2 res2 k2(3) _ _ slot2]) simp_all
  let ?k3 = "set_fd j (FD_TYPE_FILE n 0 (ucast (0 :: u64))) k2"
  have f3: "holds_file (k_fs ?k3) n ?bytes" "t_fds ?k3 ! j = FD_TYPE_FILE n 0 (ucast (0 :: u64))"
    using k2(3,7) j(1) by (simp_all add: set_fd_def)
  note r1 = sys_read_file(1) [OF K(1) f3(1) small j(1) f3(2) refl, of dest]
  let ?k4 = "set_fd j (FD_TYPE_FILE n (of_nat (length ?bytes)) (ucast (0 :: u64))) (?k3\<lparr>k_mem := store_bytes dest ?bytes (k_mem ?k3)\<rparr>)"
  have f4: "holds_file (k_fs ?k4) n ?bytes" "t_fds ?k4 ! j = FD_TYPE_FILE n (of_nat (length ?bytes)) (ucast (0 :: u64))"
    using k2(3,7) j(1) by (simp_all add: set_fd_def)
  have eof: "\<forall>a count. fst (the (syscall_handler K (call SYS_READ (of_nat j) a count) ?k4)) = Returned 0"
    using sys_read_file(2) [OF K(1) f4(1) small j(1) f4(2) refl] by simp
  have "mem_bytes (k_mem ?k4) dest (length ?bytes) = ?bytes"
    using mem_bytes_store [of ?bytes dest] small by (simp add: set_fd_def)
  then show ?thesis using ij o(1) k2(1) o2 r1 eof unfolding call_handlers by blast
qed

text \<open>The system calls of a machine with this file system: a directory has an ioctl, which fails.\<close>

definition kyrofs_ioctl :: "u32 \<Rightarrow> u64 \<Rightarrow> memory \<Rightarrow> kyrofs \<Rightarrow> (int \<times> memory \<times> kyrofs) option" where
  "kyrofs_ioctl request argp m fs = Some (- 1, m, fs)"

definition kyro_kernel :: "nat \<Rightarrow> (kyrofs, nat) kernel_ops" where
  "kyro_kernel r =
     \<lparr>fs_ops = boot_ops, fs_root = Some r,
      node_length_of = (\<lambda>fs n. case nodes fs n of None \<Rightarrow> 0 | Some x \<Rightarrow> node_length x),
      node_ioctl = (\<lambda>fs n. dir_op fs n (\<lambda>request argp m. kyrofs_ioctl request argp m fs)),
      mount_node = (\<lambda>fds mount_point device name fs. Some (-1, fs)),
      unmount_node = (\<lambda>n fs. Some (-1, fs)), node_at = (\<lambda>p. None)\<rparr>"

text \<open>A process with no open descriptors, the path \<open>/a\<close> at \<open>0x1000\<close> and bytes to write at \<open>0x2000\<close>.\<close>

definition demo_memory :: memory where
  "demo_memory a = (if a = 0x1000 then 47 else if a = 0x1001 then 97 else if a \<ge> 0x2000 \<and> a < 0x3000 then ucast a else 0)"

definition demo_process :: "(kyrofs, nat) kstate" where
  "demo_process =
     \<lparr>k_fs = root_fs, k_net = \<lparr>dev_mac = None, kmalloc_ok = (\<lambda>_. True), sent = [], arp_cache = [], arp_cache_next_idx = 0,
        local_ip = 0, subnet_mask = 0, default_gateway = 0, udp_handlers = [], active_sockets = [], next_sock = 1, woken = [],
        dhcp_state = DHCP_STATE_INIT, dhcp_local_ip = 0, dhcp_gateway_ip = 0, dhcp_subnet_mask = 0, dhcp_server_ip = 0, dhcp_xid = 0\<rparr>,
      k_heap = heap_demo, k_events = event_boot, k_vmm = vmm_demo, k_mem = demo_memory, k_junk = (\<lambda>_. 0), k_ticks = 0, k_fb = None,
      t_id = 1, t_pml4 = 0x101000, t_fds = replicate 16 FD_TYPE_NONE, program_break = 0x400000, initial_program_break = 0x400000\<rparr>"

lemma demo_process_path: "user_path 0x1000 demo_process = Some ([] @ CHR ''/'' # ''a'')"
proof -
  have n: "(255 :: nat) = Suc (Suc (Suc 252))" by simp
  have "mem_string demo_memory 0x1000 255 = ''/a''"
    unfolding n mem_string.simps by (simp add: demo_memory_def) code_simp
  then show ?thesis by (simp add: user_string_def demo_process_def vmm_demo_def MAX_FILENAME_LEN_def)
qed

theorem file_calls_round_trip_witness:
  "\<exists>k1 k2 k3 k4. syscall_handler (kyro_kernel 1) (call SYS_OPEN 0x1000 0x42 0) demo_process = Some (Returned 0, k1)
    \<and> run_syscalls (kyro_kernel 1) (write_calls 0 [(0x2041, 2), (0x2051, 1)]) k1 = Some k2
    \<and> syscall_handler (kyro_kernel 1) (call SYS_OPEN 0x1000 0 0) k2 = Some (Returned 1, k3)
    \<and> syscall_handler (kyro_kernel 1) (call SYS_READ 1 0x5000 3) k3 = Some (Returned 3, k4)
    \<and> mem_bytes (k_mem k4) 0x5000 3 = [0x41, 0x42, 0x51]"
proof -
  let ?c = "[(0x2041, 2), (0x2051, 1)] :: (u64 \<times> u64) list"
  have K: "fs_ops (kyro_kernel 1) = kyrofs_ops no_tty_read no_tty_write" "fs_root (kyro_kernel 1) = Some 1"
    by (simp_all add: kyro_kernel_def boot_ops_def)
  have fs: "kyro_inv (k_fs demo_process)" "\<forall>x. heap_ok (k_fs demo_process) x"
    using root_fs_inv by (simp_all add: demo_process_def root_fs_def)
  have name: "entry_name ''a''" "short_path []" "length ([] :: string) < MAX_FILENAME_LEN"
    by (simp_all add: entry_name_def MAX_FILENAME_LEN_def short_path_def)
  have dir: "vfs_resolve_path (kyrofs_ops no_tty_read no_tty_write) (Some 1) (Some []) (k_fs demo_process) = Some (Some 1, k_fs demo_process)"
    by (rule resolve_root)
  have d: "is_directory (kyrofs_ops no_tty_read no_tty_write) (k_fs demo_process) 1" "kyro_lookup (k_fs demo_process) 1 ''a'' = None"
    using root_fs_facts(2) by (simp_all add: demo_process_def boot_ops_def kyro_lookup_def root_fs_def root_dirent_def child_named_def)
  have fl: "ucast (0x42 :: u64) AND O_CREAT \<noteq> 0" "ucast (0x42 :: u64) AND O_TRUNC = 0" "ucast (0x42 :: u64) AND O_APPEND = 0"
    by (simp_all add: O_CREAT_def O_TRUNC_def O_APPEND_def)
  have fds: "length (t_fds demo_process) = MAX_FILES" "free_slot (t_fds demo_process) 0 = Some 0"
    "free_slot ((t_fds demo_process)[0 := FD_TYPE_FILE 1 0 0]) 0 = Some 1"
    by (simp_all add: demo_process_def MAX_FILES_def numeral_eq_Suc)
  have bytes: "chunk_bytes (k_mem demo_process) ?c = [0x41, 0x42, 0x51]"
  proof -
    have n: "unat (2 :: u64) = Suc (Suc 0)" "unat (1 :: u64) = Suc 0" by simp_all
    show ?thesis unfolding chunk_bytes_def list.map prod.case n mem_bytes.simps
      by (simp add: demo_process_def demo_memory_def)
  qed
  from file_calls_round_trip [OF K fs name dir d demo_process_path fl fds, where chunks = ?c and dest = "0x5000"] show ?thesis
    unfolding bytes by (auto simp: numeral_3_eq_3)
qed

end
