(* ===== verification/Thread.thy ===== *)
theory Thread
  imports Syscall Scheduler
begin

section \<open>Threads and context switches (thread.c, the clean-up of scheduler.c, switch.asm)\<close>

text \<open>
  The machine: the heap and the page tables, the ready queue of \<open>Scheduler\<close>, the thread blocks by
  thread id, the 8-byte words of the kernel stacks by address, and the registers a switch saves.
  \<open>m_junk\<close> is what a fresh thread block holds before its fields are set: a field the code does not set
  keeps that value. The addresses of the assembly routines are the record \<open>symbols\<close>. The direct-map
  offset is that of the page allocator. \<open>None\<close> is a panic, a wild access or an endless search.
\<close>

definition KERNEL_STACK_SIZE :: nat where "KERNEL_STACK_SIZE = 8192"
definition USER_STACK_TOP :: u64 where "USER_STACK_TOP = 0x00007FFFFFFFF000"
definition USER_STACK_PAGES :: nat where "USER_STACK_PAGES = 256"
definition THREAD_SIZE :: nat where "THREAD_SIZE = 584"
definition O_RDONLY :: u32 where "O_RDONLY = 1"
definition O_WRONLY :: u32 where "O_WRONLY = 2"

record 'n thread =
  th_block :: nat
  th_stack :: nat
  th_user_stack_base :: u64
  th_rsp :: u64
  th_pml4 :: u64
  th_break :: u64
  th_initial_break :: u64
  th_fds :: "'n fd_entry list"

record cpu =
  c_rsp :: u64
  c_rbp :: u64
  c_rbx :: u64
  c_r12 :: u64
  c_r13 :: u64
  c_r14 :: u64
  c_r15 :: u64
  c_rdi :: u64
  c_rsi :: u64
  c_rip :: u64

record symbols =
  sym_thread_starter :: u64
  sym_thread_entry :: u64
  sym_userspace_thread_starter :: u64

record 'n machine =
  m_heap :: kheap
  m_vmm :: vmm
  m_sched :: sched
  m_threads :: "nat \<Rightarrow> 'n thread"
  next_thread_id :: nat
  m_words :: "u64 \<Rightarrow> u64"
  m_cpu :: cpu
  tss_rsp0 :: u64
  m_junk :: "'n thread"

definition m_kmalloc :: "nat \<Rightarrow> 'n machine \<Rightarrow> (nat \<times> 'n machine) option" where
  "m_kmalloc nbytes m = do {
     (p, h, v) \<leftarrow> shared_kmalloc (of_nat nbytes) (m_heap m) (m_vmm m);
     Some (p, m\<lparr>m_heap := h, m_vmm := v\<rparr>) }"

definition m_kfree :: "nat \<Rightarrow> 'n machine \<Rightarrow> 'n machine option" where
  "m_kfree p m = do { h \<leftarrow> kfree p (m_heap m); Some (m\<lparr>m_heap := h\<rparr>) }"

subsection \<open>Building stacks\<close>

fun pushes :: "u64 list \<Rightarrow> u64 \<times> (u64 \<Rightarrow> u64) \<Rightarrow> u64 \<times> (u64 \<Rightarrow> u64)" where
  "pushes [] st = st"
| "pushes (v # vs) st = pushes vs (fst st - 8, (snd st)(fst st - 8 := v))"

definition add_ready :: "'n thread \<Rightarrow> 'n machine \<Rightarrow> nat option \<times> 'n machine" where
  "add_ready t m =
     (let i = next_thread_id m; s = m_sched m
      in (Some i, m\<lparr>m_threads := (m_threads m)(i := t), next_thread_id := i + 1,
                    m_sched := scheduler_add_thread i (s\<lparr>tstate := (tstate s)(i := THREAD_READY)\<rparr>)\<rparr>))"

text \<open>The frame of a kernel thread, in push order; \<open>thread_switch\<close> pops it from the other end.\<close>

definition thread_frame :: "symbols \<Rightarrow> u64 \<Rightarrow> u64 \<Rightarrow> u64 list" where
  "thread_frame S func arg = [arg, func, sym_thread_starter S, 0, 0, 0, 0, 0, 0]"

definition thread_init :: "'n machine \<Rightarrow> 'n machine option" where
  "thread_init m = do {
     (p, m1) \<leftarrow> m_kmalloc THREAD_SIZE m;
     if p = 0 then None
     else let i = next_thread_id m1;
              t = (m_junk m1)\<lparr>th_block := p, th_stack := 0, th_user_stack_base := 0, th_rsp := c_rsp (m_cpu m1),
                              th_pml4 := vmm_get_current_pml4 (m_vmm m1), th_fds := replicate MAX_FILES FD_TYPE_NONE\<rparr>;
              s = m_sched m1
          in Some (m1\<lparr>m_threads := (m_threads m1)(i := t), next_thread_id := i + 1,
                      m_sched := scheduler_init (s\<lparr>current_thread := Some i, tstate := (tstate s)(i := THREAD_RUNNING)\<rparr>)\<rparr>) }"

definition thread_create :: "symbols \<Rightarrow> u64 \<Rightarrow> u64 \<Rightarrow> 'n machine \<Rightarrow> (nat option \<times> 'n machine) option" where
  "thread_create S func arg m = do {
     (p, m1) \<leftarrow> m_kmalloc THREAD_SIZE m;
     if p = 0 then Some (None, m1)
     else do {
       (stack, m2) \<leftarrow> m_kmalloc KERNEL_STACK_SIZE m1;
       if stack = 0 then do { m3 \<leftarrow> m_kfree p m2; Some (None, m3) }
       else let (sp, words) = pushes (thread_frame S func arg) (of_nat (stack + KERNEL_STACK_SIZE), m_words m2);
                t = (m_junk m2)\<lparr>th_block := p, th_stack := stack, th_user_stack_base := 0, th_rsp := sp,
                                th_pml4 := vmm_get_current_pml4 (m_vmm m2), th_fds := replicate MAX_FILES FD_TYPE_NONE\<rparr>
            in Some (add_ready t (m2\<lparr>m_words := words\<rparr>)) } }"

subsection \<open>Threads of user programs\<close>

text \<open>The pages of the user stack; \<open>False\<close> when there is no page left.\<close>

fun map_user_stack :: "u64 \<Rightarrow> nat list \<Rightarrow> vmm \<Rightarrow> (bool \<times> vmm) option" where
  "map_user_stack pml4 [] v = Some (True, v)"
| "map_user_stack pml4 (i # is) v = do {
     (page, pm) \<leftarrow> pmm_alloc_page (v_pmm v);
     if page = 0 then Some (False, v\<lparr>v_pmm := pm\<rparr>)
     else do {
       v' \<leftarrow> vmm_map_page pml4 (USER_STACK_TOP - of_nat (USER_STACK_PAGES * PAGE_SIZE) + of_nat (i * PAGE_SIZE)) page
               (PAGE_PRESENT OR PAGE_WRITE OR PAGE_USER) (v\<lparr>v_pmm := pm\<rparr>);
       map_user_stack pml4 is v' } }"

text \<open>Unmapping and freeing a user stack: the same loop in thread.c and scheduler.c.\<close>

definition free_user_stack :: "u64 \<Rightarrow> u64 \<Rightarrow> vmm \<Rightarrow> vmm option" where
  "free_user_stack pml4 base =
     for_each (\<lambda>i v. let (phys, v1) = vmm_unmap_page pml4 (base + of_nat (i * PAGE_SIZE)) v
                     in if phys = 0 then Some v1
                        else do { pm \<leftarrow> pmm_free_page phys (v_pmm v1); Some (v1\<lparr>v_pmm := pm\<rparr>) })
       [0..<USER_STACK_PAGES]"

text \<open>Each argument string goes below the previous one, aligned down to 16.\<close>

fun push_strings :: "u64 \<Rightarrow> u8 list list \<Rightarrow> u64 \<Rightarrow> vmm \<Rightarrow> u64 list \<times> u64 \<times> vmm" where
  "push_strings pml4 [] cur v = ([], cur, v)"
| "push_strings pml4 (s # ss) cur v =
     (let at = (cur - of_nat (length s + 1)) AND NOT 0xF;
          (ps, cur', v') = push_strings pml4 ss at (vmm_memcpy_to_userspace pml4 at (s @ [0]) v)
      in (at # ps, cur', v'))"

definition le64 :: "u64 \<Rightarrow> u8 list" where
  "le64 x = le32 (ucast x) @ le32 (ucast (drop_bit 32 x))"

definition push_argv :: "u64 \<Rightarrow> u8 list list \<Rightarrow> vmm \<Rightarrow> u64 \<times> vmm" where
  "push_argv pml4 argv v =
     (let (ps, cur, v1) = push_strings pml4 argv USER_STACK_TOP v;
          at = (cur - of_nat ((length argv + 1) * 8)) AND NOT 0xF
      in (at, vmm_memcpy_to_userspace pml4 at (concat (map le64 (ps @ [0]))) v1))"

definition user_frame :: "symbols \<Rightarrow> u64 \<Rightarrow> u64 \<Rightarrow> nat \<Rightarrow> u64 list" where
  "user_frame S entry_point argv_ptr argc =
     [0x23, argv_ptr, 0x202, 0x1B, entry_point, sym_userspace_thread_starter S, 0, of_nat argc, argv_ptr, 0, 0, 0]"

definition console_node :: "('s, 'n) kernel_ops \<Rightarrow> 's \<Rightarrow> ('n option \<times> 's) option" where
  "console_node K s = do {
     (n, s1) \<leftarrow> vfs_resolve_path (fs_ops K) (fs_root K) (Some ''/dev/console'') s;
     (case n of None \<Rightarrow> vfs_resolve_path (fs_ops K) (fs_root K) (Some ''/dev/tty'') s1 | Some c \<Rightarrow> Some (Some c, s1)) }"

definition standard_fds :: "'n option \<Rightarrow> 'n fd_entry list" where
  "standard_fds console =
     (case console of
        Some n \<Rightarrow> [FD_TYPE_FILE n 0 O_RDONLY, FD_TYPE_FILE n 0 O_WRONLY, FD_TYPE_FILE n 0 O_WRONLY]
      | None \<Rightarrow> replicate 3 FD_TYPE_NONE) @ replicate (MAX_FILES - 3) FD_TYPE_NONE"

text \<open>The block keeps what it held in \<open>th_rsp\<close>: the stack pointer of the frame is not stored.\<close>

definition thread_create_userspace ::
  "('s, 'n) kernel_ops \<Rightarrow> symbols \<Rightarrow> u64 \<Rightarrow> u64 \<Rightarrow> u64 \<Rightarrow> u8 list list \<Rightarrow> 's \<times> 'n machine \<Rightarrow> (nat option \<times> 's \<times> 'n machine) option" where
  "thread_create_userspace K S entry_point pml4 brk argv sm = do {
     let (s, m) = sm;
     (p, m1) \<leftarrow> m_kmalloc THREAD_SIZE m;
     if p = 0 then Some (None, s, m1)
     else do {
       (mapped, v2) \<leftarrow> map_user_stack pml4 [0..<USER_STACK_PAGES] (m_vmm m1);
       let base = USER_STACK_TOP - of_nat (USER_STACK_PAGES * PAGE_SIZE);
       if \<not> mapped
       then do {
         v3 \<leftarrow> vmm_destroy_address_space pml4 v2;
         m3 \<leftarrow> m_kfree p (m1\<lparr>m_vmm := v3\<rparr>);
         Some (None, s, m3) }
       else do {
         (stack, m3) \<leftarrow> m_kmalloc KERNEL_STACK_SIZE (m1\<lparr>m_vmm := v2\<rparr>);
         if stack = 0
         then do {
           v4 \<leftarrow> free_user_stack pml4 base (m_vmm m3);
           v5 \<leftarrow> vmm_destroy_address_space pml4 v4;
           m4 \<leftarrow> m_kfree p (m3\<lparr>m_vmm := v5\<rparr>);
           Some (None, s, m4) }
         else do {
           (console, s1) \<leftarrow> console_node K s;
           let (argv_ptr, v4) = push_argv pml4 argv (m_vmm m3);
               (sp, words) = pushes (user_frame S entry_point argv_ptr (length argv))
                               (of_nat (stack + KERNEL_STACK_SIZE), m_words m3);
               t = (m_junk m3)\<lparr>th_block := p, th_stack := stack, th_user_stack_base := base, th_pml4 := pml4,
                               th_break := brk, th_initial_break := brk, th_fds := standard_fds console\<rparr>;
               (i, m4) = add_ready t (m3\<lparr>m_vmm := v4, m_words := words\<rparr>)
           in Some (i, s1, m4) } } } }"

subsection \<open>Switching\<close>

text \<open>\<open>thread_switch\<close> of switch.asm, from its entry (return address on the stack) to its \<open>ret\<close>.\<close>

definition thread_switch :: "nat \<Rightarrow> nat \<Rightarrow> 'n machine \<Rightarrow> 'n machine" where
  "thread_switch old new m =
     (let c = m_cpu m;
          (sp, words) = pushes [c_rbp c, c_rbx c, c_r12 c, c_r13 c, c_r14 c, c_r15 c] (c_rsp c, m_words m);
          ts = (m_threads m)(old := (m_threads m old)\<lparr>th_rsp := sp\<rparr>);
          v = (if th_pml4 (ts old) = th_pml4 (ts new) then m_vmm m
               else (m_vmm m)\<lparr>cr3 := th_pml4 (ts new) - pmm_hhdm_offset (v_pmm (m_vmm m))\<rparr>);
          sp' = th_rsp (ts new)
      in m\<lparr>m_threads := ts, m_words := words, m_vmm := v,
           m_cpu := c\<lparr>c_r15 := words sp', c_r14 := words (sp' + 8), c_r13 := words (sp' + 16), c_r12 := words (sp' + 24),
                      c_rbx := words (sp' + 32), c_rbp := words (sp' + 40), c_rip := words (sp' + 48), c_rsp := sp' + 56\<rparr>\<rparr>)"

text \<open>\<open>thread_starter\<close> up to its call of \<open>thread_entry\<close>.\<close>

definition thread_starter :: "symbols \<Rightarrow> 'n machine \<Rightarrow> 'n machine" where
  "thread_starter S m =
     (let c = m_cpu m
      in m\<lparr>m_cpu := c\<lparr>c_rdi := m_words m (c_rsp c), c_rsi := m_words m (c_rsp c + 8), c_rsp := c_rsp c + 16,
                      c_rip := sym_thread_entry S\<rparr>\<rparr>)"

subsection \<open>Exit and clean-up\<close>

text \<open>What \<open>schedule\<close> does with a dead thread it has taken out of the queue.\<close>

definition reap_thread :: "nat \<Rightarrow> 'n machine \<Rightarrow> 'n machine option" where
  "reap_thread i m =
     (let t = m_threads m i
      in do {
        v1 \<leftarrow> (if th_user_stack_base t \<noteq> 0 then free_user_stack (th_pml4 t) (th_user_stack_base t) (m_vmm m) else Some (m_vmm m));
        v2 \<leftarrow> (if th_pml4 t \<noteq> 0 \<and> i \<noteq> 0 then vmm_destroy_address_space (th_pml4 t) v1 else Some v1);
        m3 \<leftarrow> (if th_stack t \<noteq> 0 then m_kfree (th_stack t) (m\<lparr>m_vmm := v2\<rparr>) else Some (m\<lparr>m_vmm := v2\<rparr>));
        m_kfree (th_block t) m3 })"

text \<open>The scheduler on the machine: the queue as in \<open>Scheduler\<close>, the threads it freed, and the switch.\<close>

definition m_schedule :: "'n machine \<Rightarrow> 'n machine option" where
  "m_schedule m = do {
     s \<leftarrow> schedule (m_sched m);
     m1 \<leftarrow> for_each reap_thread (rev (take (length (freed s) - length (freed (m_sched m))) (freed s))) m;
     let m2 = m1\<lparr>m_sched := s\<rparr>
     in Some (case (current_thread (m_sched m), current_thread s) of
          (Some old, Some new) \<Rightarrow>
            if old = new then m2
            else let stack = th_stack (m_threads m2 new);
                     m3 = (if stack \<noteq> 0 then m2\<lparr>tss_rsp0 := of_nat (stack + KERNEL_STACK_SIZE)\<rparr> else m2)
                 in thread_switch old new m3
        | _ \<Rightarrow> m2) }"

text \<open>Coming back to a dead thread is a panic.\<close>

definition thread_exit :: "'n machine \<Rightarrow> 'n machine option" where
  "thread_exit m = do {
     i \<leftarrow> get_current_thread (m_sched m);
     m' \<leftarrow> m_schedule (m\<lparr>m_sched := (m_sched m)\<lparr>tstate := (tstate (m_sched m))(i := THREAD_DEAD)\<rparr>\<rparr>);
     if current_thread (m_sched m') = Some i then None else Some m' }"

subsection \<open>Switching away and back\<close>

text \<open>\<open>words_at\<close>: a run of words in memory. \<open>on_thread\<close>: the page tables in use are those of the thread.\<close>

fun words_at :: "u64 \<Rightarrow> u64 list \<Rightarrow> (u64 \<Rightarrow> u64) \<Rightarrow> bool" where
  "words_at sp [] w \<longleftrightarrow> True"
| "words_at sp (v # vs) w \<longleftrightarrow> w sp = v \<and> words_at (sp + 8) vs w"

definition on_thread :: "nat \<Rightarrow> 'n machine \<Rightarrow> bool" where
  "on_thread i m \<longleftrightarrow> cr3 (m_vmm m) = th_pml4 (m_threads m i) - pmm_hhdm_offset (v_pmm (m_vmm m))"

text \<open>What a switch away leaves for the thread: six registers and, above them, its return address.\<close>

definition saved_context :: "cpu \<Rightarrow> u64 \<Rightarrow> u64 list" where
  "saved_context c ret = [c_r15 c, c_r14 c, c_r13 c, c_r12 c, c_rbx c, c_rbp c, ret]"

definition stack_slots :: "u64 \<Rightarrow> u64 set" where
  "stack_slots sp = {sp - 8, sp - 16, sp - 24, sp - 32, sp - 40, sp - 48}"

definition slots_of :: "u64 \<Rightarrow> u64 set" where
  "slots_of sp = {sp, sp + 8, sp + 16, sp + 24, sp + 32, sp + 40, sp + 48}"

definition restored :: "cpu \<Rightarrow> u64 \<Rightarrow> u64 \<Rightarrow> cpu \<Rightarrow> bool" where
  "restored c sp ret c' \<longleftrightarrow> c_rsp c' = sp \<and> c_rip c' = ret \<and> c_rbp c' = c_rbp c \<and> c_rbx c' = c_rbx c
     \<and> c_r12 c' = c_r12 c \<and> c_r13 c' = c_r13 c \<and> c_r14 c' = c_r14 c \<and> c_r15 c' = c_r15 c"

lemma words_at_pushes:
  assumes "words_at sp [a, b, c, d, e, f, g] w" "stack_slots sp' \<inter> slots_of sp = {}" "length vs = 6"
  shows "words_at sp [a, b, c, d, e, f, g] (snd (pushes vs (sp', w)))"
proof -
  obtain p q r s t u where "vs = [p, q, r, s, t, u]" using assms(3) by (auto simp: length_Suc_conv numeral_eq_Suc)
  then show ?thesis using assms(1,2) by (auto simp: stack_slots_def slots_of_def add.assoc)
qed

lemma thread_switch_to:
  assumes "old \<noteq> new" "words_at (th_rsp (m_threads m new)) (saved_context c ret) (m_words m)"
    "stack_slots (c_rsp (m_cpu m)) \<inter> slots_of (th_rsp (m_threads m new)) = {}"
  shows "restored c (th_rsp (m_threads m new) + 56) ret (m_cpu (thread_switch old new m))"
proof -
  let ?c = "m_cpu m" and ?sp = "th_rsp (m_threads m new)"
  have "words_at ?sp (saved_context c ret)
          (snd (pushes [c_rbp ?c, c_rbx ?c, c_r12 ?c, c_r13 ?c, c_r14 ?c, c_r15 ?c] (c_rsp ?c, m_words m)))"
    unfolding saved_context_def by (rule words_at_pushes) (use assms in \<open>simp_all add: saved_context_def\<close>)
  then show ?thesis using assms(1)
    by (simp add: thread_switch_def Let_def restored_def saved_context_def add.assoc split_beta del: pushes.simps)
qed

lemma thread_switch_saves:
  "words_at (th_rsp (m_threads (thread_switch old new m) old)) (saved_context (m_cpu m) (m_words m (c_rsp (m_cpu m))))
     (m_words (thread_switch old new m))"
  "th_rsp (m_threads (thread_switch old new m) old) = c_rsp (m_cpu m) - 48"
  by (simp_all add: thread_switch_def Let_def saved_context_def)

lemma thread_switch_space: "on_thread old m \<Longrightarrow> on_thread new (thread_switch old new m)"
  by (simp add: on_thread_def thread_switch_def Let_def split_beta)

text \<open>C30: A thread that is switched away from and later switched back to continues where it was: its six
  callee-saved registers, its stack pointer (behind the return address) and its return address are those it
  had, and the page tables in use are its own, whatever ran in between, as long as nobody wrote the seven
  words on its stack or its block.\<close>

theorem thread_switch_round_trip:
  fixes m m2 :: "'n machine" and old new :: nat
  defines "m1 \<equiv> thread_switch old new m" and "c \<equiv> m_cpu m"
  assumes "other \<noteq> old" "on_thread other m2"
    and "th_rsp (m_threads m2 old) = th_rsp (m_threads m1 old)"
    and "\<forall>a\<in>slots_of (c_rsp c - 48). m_words m2 a = m_words m1 a"
    and "stack_slots (c_rsp (m_cpu m2)) \<inter> slots_of (c_rsp c - 48) = {}"
  shows "restored c (c_rsp c + 8) (m_words m (c_rsp c)) (m_cpu (thread_switch other old m2))
     \<and> on_thread old (thread_switch other old m2)"
proof -
  have sp: "th_rsp (m_threads m2 old) = c_rsp c - 48" using assms(5) by (simp add: m1_def c_def thread_switch_saves)
  have "words_at (c_rsp c - 48) (saved_context c (m_words m (c_rsp c))) (m_words m1)"
    using thread_switch_saves [of old new m] by (simp add: m1_def c_def)
  then have "words_at (c_rsp c - 48) (saved_context c (m_words m (c_rsp c))) (m_words m2)"
    using assms(6) by (simp add: saved_context_def slots_of_def)
  then show ?thesis
    using thread_switch_to [of other old m2 c "m_words m (c_rsp c)"] assms(3,7) thread_switch_space [OF assms(4)]
    by (simp add: sp add.commute [of 8])
qed


text \<open>A new kernel thread: the block names the stack, the frame is on it, the thread is at the tail of the queue.\<close>

lemma thread_create_frame:
  assumes "thread_create S func arg m = Some (Some i, m1)"
  obtains sp where "th_rsp (m_threads m1 i) = sp - 72" "sp = of_nat (th_stack (m_threads m1 i) + KERNEL_STACK_SIZE)"
    "words_at (sp - 72) [0, 0, 0, 0, 0, 0, sym_thread_starter S, func, arg] (m_words m1)"
    "i = next_thread_id m" "tstate (m_sched m1) i = THREAD_READY"
    "m_sched m1 = scheduler_add_thread i ((m_sched m)\<lparr>tstate := (tstate (m_sched m))(i := THREAD_READY)\<rparr>)"
    "th_pml4 (m_threads m1 i) = vmm_get_current_pml4 (m_vmm m1)"
proof -
  obtain p m0 stack m2 where k: "m_kmalloc THREAD_SIZE m = Some (p, m0)" "m_kmalloc KERNEL_STACK_SIZE m0 = Some (stack, m2)"
    "p \<noteq> 0" "stack \<noteq> 0"
    using assms by (auto simp: thread_create_def bind_eq_Some_conv split: if_splits)
  have same: "m_sched m2 = m_sched m" "next_thread_id m2 = next_thread_id m"
    using k by (auto simp: m_kmalloc_def bind_eq_Some_conv)
  show thesis
    using assms k same
    by (intro that [of "of_nat (stack + KERNEL_STACK_SIZE)"])
       (auto simp: thread_create_def add_ready_def Let_def thread_frame_def scheduler_add_thread_def split: option.splits)
qed

definition starts_func :: "symbols \<Rightarrow> u64 \<Rightarrow> u64 \<Rightarrow> u64 \<Rightarrow> 'n machine \<Rightarrow> bool" where
  "starts_func S func arg sp m \<longleftrightarrow> c_rip (m_cpu m) = sym_thread_starter S
     \<and> (let c = m_cpu (thread_starter S m)
        in c_rip c = sym_thread_entry S \<and> c_rdi c = func \<and> c_rsi c = arg \<and> c_rsp c = sp)"

text \<open>The first switch to a thread made by \<open>thread_create\<close> enters \<open>thread_starter\<close>, which calls
  \<open>thread_entry\<close> with the function and the argument given, on the whole of the new stack.\<close>

lemma thread_create_starts_func:
  fixes m m1 m2 :: "'n machine"
  assumes "thread_create S func arg m = Some (Some i, m1)" "old \<noteq> i"
    and "m_threads m2 i = m_threads m1 i"
    and "\<forall>a\<in>slots_of (th_rsp (m_threads m1 i)) \<union> slots_of (th_rsp (m_threads m1 i) + 16). m_words m2 a = m_words m1 a"
    and "stack_slots (c_rsp (m_cpu m2)) \<inter> (slots_of (th_rsp (m_threads m1 i)) \<union> slots_of (th_rsp (m_threads m1 i) + 16)) = {}"
  shows "starts_func S func arg (of_nat (th_stack (m_threads m1 i) + KERNEL_STACK_SIZE)) (thread_switch old i m2)"
proof -
  obtain sp where sp: "th_rsp (m_threads m1 i) = sp - 72" "sp = of_nat (th_stack (m_threads m1 i) + KERNEL_STACK_SIZE)"
    "words_at (sp - 72) [0, 0, 0, 0, 0, 0, sym_thread_starter S, func, arg] (m_words m1)"
    using thread_create_frame [OF assms(1)] by metis
  define w where "w = snd (pushes [c_rbp (m_cpu m2), c_rbx (m_cpu m2), c_r12 (m_cpu m2), c_r13 (m_cpu m2), c_r14 (m_cpu m2),
     c_r15 (m_cpu m2)] (c_rsp (m_cpu m2), m_words m2))"
  have "w a = m_words m1 a" if "a \<in> slots_of (sp - 72) \<union> slots_of (sp - 56)" for a
    using that assms(4,5) sp(1) by (auto simp: w_def stack_slots_def)
  then have f: "w (sp - 24) = sym_thread_starter S" "w (sp - 16) = func" "w (sp - 8) = arg"
    using sp(3) by (simp_all add: slots_of_def)
  have "starts_func S func arg sp (thread_switch old i m2)"
    using sp(1) assms(2,3) f
    by (simp add: starts_func_def thread_starter_def thread_switch_def Let_def split_beta flip: w_def del: pushes.simps)
  then show ?thesis using sp(2) by simp
qed



subsection \<open>Cleaning up after a thread\<close>

text \<open>From a machine to one with more free pages, everything else in place.\<close>

definition freeing :: "vmm \<Rightarrow> vmm \<Rightarrow> bool" where
  "freeing s s' \<longleftrightarrow> pmm_inv (v_pmm s') \<and> pmm_free_set (v_pmm s) \<subseteq> pmm_free_set (v_pmm s')
     \<and> pmm_total_pages (v_pmm s') = pmm_total_pages (v_pmm s) \<and> pmm_hhdm_offset (v_pmm s') = pmm_hhdm_offset (v_pmm s)
     \<and> cr3 s' = cr3 s"

lemma freeing_trans: "freeing s s' \<Longrightarrow> freeing s' s'' \<Longrightarrow> freeing s s''"
  by (auto simp: freeing_def)

lemma freeing_refl: "pmm_inv (v_pmm s) \<Longrightarrow> freeing s s"
  by (simp add: freeing_def)

lemma freeing_inv: "freeing s s' \<Longrightarrow> pmm_inv (v_pmm s')"
  by (simp add: freeing_def)

lemma free_table_freeing:
  assumes "free_table t s = Some s'" "pmm_inv (v_pmm s)"
  shows "freeing s s'"
    and "unat (vmm_virt_to_phys s t) div PAGE_SIZE < pmm_total_pages (v_pmm s) \<Longrightarrow>
           unat (vmm_virt_to_phys s t) div PAGE_SIZE \<in> pmm_free_set (v_pmm s')"
proof -
  let ?a = "vmm_virt_to_phys s t"
  obtain pm where pm: "pmm_free_page ?a (v_pmm s) = Some pm" "s' = s\<lparr>v_pmm := pm\<rparr>"
    using assms(1) by (auto simp: free_table_def bind_eq_Some_conv)
  have h: "pmm_hhdm_offset pm = pmm_hhdm_offset (v_pmm s)"
    using pm(1) by (auto simp: pmm_free_page_def Let_def bind_eq_Some_conv split: if_splits)
  show "freeing s s'"
  proof (cases "unat ?a div PAGE_SIZE < pmm_total_pages (v_pmm s)")
    case True
    then obtain pm' where "pmm_free_page ?a (v_pmm s) = Some pm'" "pmm_inv pm'"
      "pmm_free_set pm' = insert (unat ?a div PAGE_SIZE) (pmm_free_set (v_pmm s))" "pmm_total_pages pm' = pmm_total_pages (v_pmm s)"
      using free_page_at [OF assms(2) refl True] by metis
    then show ?thesis using pm h by (auto simp: freeing_def)
  next
    case False
    then show ?thesis using pm assms(2) by (simp add: freeing_def pmm_free_page_def Let_def)
  qed
  show "unat ?a div PAGE_SIZE \<in> pmm_free_set (v_pmm s')" if lt: "unat ?a div PAGE_SIZE < pmm_total_pages (v_pmm s)"
  proof -
    obtain pm' where "pmm_free_page ?a (v_pmm s) = Some pm'"
      "pmm_free_set pm' = insert (unat ?a div PAGE_SIZE) (pmm_free_set (v_pmm s))"
      using free_page_at [OF assms(2) refl lt] by metis
    then show ?thesis using pm by simp
  qed
qed

lemma for_each_freeing:
  assumes "for_each f xs s = Some s'" "pmm_inv (v_pmm s)"
    "\<And>x s s'. f x s = Some s' \<Longrightarrow> pmm_inv (v_pmm s) \<Longrightarrow> freeing s s'"
  shows "freeing s s'"
  using assms(1,2)
proof (induction xs arbitrary: s)
  case (Cons x xs)
  then obtain s1 where "f x s = Some s1" "for_each f xs s1 = Some s'" by (auto simp: bind_eq_Some_conv)
  then show ?case using Cons assms(3) freeing_trans freeing_inv by metis
qed (simp add: freeing_refl)

lemma destroy_pd_freeing:
  assumes "destroy_pd pd s = Some s'" "pmm_inv (v_pmm s)" shows "freeing s s'"
proof -
  obtain s1 where s1: "for_each (\<lambda>k s. if present (tbl s pd k) then free_table (entry_table s (tbl s pd k)) s else Some s)
      [0..<512] s = Some s1" "free_table pd s1 = Some s'"
    using assms(1) by (auto simp only: destroy_pd_def bind_eq_Some_conv)
  have "freeing s s1" by (rule for_each_freeing [OF s1(1) assms(2)]) (auto split: if_splits intro: freeing_refl free_table_freeing)
  then show ?thesis using s1(2) free_table_freeing(1) freeing_trans freeing_inv by metis
qed

lemma destroy_pdpt_freeing:
  assumes "destroy_pdpt pd s = Some s'" "pmm_inv (v_pmm s)" shows "freeing s s'"
proof -
  obtain s1 where s1: "for_each (\<lambda>k s. if present (tbl s pd k) then destroy_pd (entry_table s (tbl s pd k)) s else Some s)
      [0..<512] s = Some s1" "free_table pd s1 = Some s'"
    using assms(1) by (auto simp only: destroy_pdpt_def bind_eq_Some_conv)
  have "freeing s s1" by (rule for_each_freeing [OF s1(1) assms(2)]) (auto split: if_splits intro: freeing_refl destroy_pd_freeing)
  then show ?thesis using s1(2) free_table_freeing(1) freeing_trans freeing_inv by metis
qed

lemma destroy_space_freeing:
  assumes "vmm_destroy_address_space r s = Some s'" "pmm_inv (v_pmm s)"
  shows "freeing s s'"
    and "r \<noteq> 0 \<Longrightarrow> unat (vmm_virt_to_phys s r) div PAGE_SIZE < pmm_total_pages (v_pmm s) \<Longrightarrow>
           unat (vmm_virt_to_phys s r) div PAGE_SIZE \<in> pmm_free_set (v_pmm s')"
proof -
  have ex: "\<exists>s1. freeing s s1 \<and> free_table r s1 = Some s'" if r: "r \<noteq> 0"
  proof -
    obtain s1 where s1: "for_each (\<lambda>k s. if present (tbl s r k) then destroy_pdpt (entry_table s (tbl s r k)) s else Some s)
        [0..<256] s = Some s1" "free_table r s1 = Some s'"
      using assms(1) unfolding vmm_destroy_address_space_def if_not_P [OF r] by (auto simp only: bind_eq_Some_conv)
    have "freeing s s1" by (rule for_each_freeing [OF s1(1) assms(2)]) (auto split: if_splits intro: freeing_refl destroy_pdpt_freeing)
    then show ?thesis using s1(2) by blast
  qed
  show "freeing s s'"
  proof (cases "r = 0")
    case True
    then show ?thesis using assms by (simp add: vmm_destroy_address_space_def freeing_refl)
  next
    case False
    then show ?thesis using ex free_table_freeing(1) freeing_trans freeing_inv by metis
  qed
  show "unat (vmm_virt_to_phys s r) div PAGE_SIZE \<in> pmm_free_set (v_pmm s')"
    if r: "r \<noteq> 0" "unat (vmm_virt_to_phys s r) div PAGE_SIZE < pmm_total_pages (v_pmm s)"
  proof -
    obtain s1 where s1: "freeing s s1" "free_table r s1 = Some s'" using ex [OF r(1)] by blast
    then have "vmm_virt_to_phys s1 r = vmm_virt_to_phys s r" by (simp add: freeing_def vmm_virt_to_phys_def)
    then show ?thesis using free_table_freeing(2) [OF s1(2) freeing_inv [OF s1(1)]] s1(1) r(2) by (simp add: freeing_def)
  qed
qed

text \<open>When a dead kernel thread is cleaned up, the root of the page tables the processor is using (the kernel
  threads share it) is given back to the page allocator, while the register still points to it.\<close>

lemma reaped_kernel_thread_frees_live_tables:
  fixes m m' :: "'n machine"
  assumes "reap_thread i m = Some m'" "i \<noteq> 0" "th_user_stack_base (m_threads m i) = 0"
    and "th_pml4 (m_threads m i) = vmm_get_current_pml4 (m_vmm m)" "vmm_get_current_pml4 (m_vmm m) \<noteq> 0"
    and "pmm_inv (v_pmm (m_vmm m))" "unat (cr3 (m_vmm m)) div PAGE_SIZE < pmm_total_pages (v_pmm (m_vmm m))"
  shows "cr3 (m_vmm m') = cr3 (m_vmm m) \<and> unat (cr3 (m_vmm m')) div PAGE_SIZE \<in> pmm_free_set (v_pmm (m_vmm m'))"
proof -
  let ?r = "vmm_get_current_pml4 (m_vmm m)"
  obtain v where v: "vmm_destroy_address_space ?r (m_vmm m) = Some v" "m_vmm m' = v"
    using assms by (auto simp: reap_thread_def Let_def bind_eq_Some_conv m_kfree_def split: if_splits)
  have "vmm_virt_to_phys (m_vmm m) ?r = cr3 (m_vmm m)"
    by (simp add: vmm_get_current_pml4_def vmm_virt_to_phys_def vmm_phys_to_virt_def)
  then show ?thesis using destroy_space_freeing [OF v(1) assms(6)] assms(5,7) v(2) by (simp add: freeing_def)
qed


subsection \<open>A machine with one running thread\<close>

definition heap_filled :: kheap where
  "heap_filled = \<lparr>h_next = (\<lambda>_. 0)(0x200000 := 0x110000, 0x110000 := 0x200000), h_size = (\<lambda>_. 0)(0x110000 := 1024),
     h_data = (\<lambda>_. 0), freelist = 0x200000, h_base = 0x200000, h_pmm = v_pmm vmm_demo\<rparr>"

definition blank_thread :: "nat thread" where
  "blank_thread = \<lparr>th_block = 0, th_stack = 0, th_user_stack_base = 0, th_rsp = 0xAA, th_pml4 = 0, th_break = 0,
     th_initial_break = 0, th_fds = []\<rparr>"

definition machine_demo :: "nat machine" where
  "machine_demo = \<lparr>m_heap = heap_filled, m_vmm = vmm_demo,
     m_sched = \<lparr>ready_queue = None, current_thread = Some 0, nxt = (\<lambda>_. 0), tstate = (\<lambda>_. THREAD_RUNNING), freed = []\<rparr>,
     m_threads = (\<lambda>_. blank_thread\<lparr>th_block := 0x150010, th_pml4 := 0x101000\<rparr>), next_thread_id = 1, m_words = (\<lambda>a. a),
     m_cpu = \<lparr>c_rsp = 0x5000, c_rbp = 1, c_rbx = 2, c_r12 = 3, c_r13 = 4, c_r14 = 5, c_r15 = 6, c_rdi = 7, c_rsi = 8, c_rip = 9\<rparr>,
     tss_rsp0 = 0, m_junk = blank_thread\<rparr>"

definition symbols_demo :: symbols where
  "symbols_demo = \<lparr>sym_thread_starter = 0x10, sym_thread_entry = 0x20, sym_userspace_thread_starter = 0x30\<rparr>"

theorem thread_switch_round_trip_witness:
  "let m1 = thread_switch 0 1 machine_demo; m2 = m1\<lparr>m_cpu := (m_cpu m1)\<lparr>c_rsp := 0x9000, c_rbp := 0x77\<rparr>\<rparr>
   in restored (m_cpu machine_demo) 0x5008 0x5000 (m_cpu (thread_switch 1 0 m2))"
proof -
  have o: "on_thread 1 (thread_switch 0 1 machine_demo)"
    by (rule thread_switch_space) (simp add: on_thread_def machine_demo_def vmm_demo_def)
  show ?thesis unfolding Let_def
    using thread_switch_round_trip [of 1 0 "(thread_switch 0 1 machine_demo)\<lparr>m_cpu :=
        (m_cpu (thread_switch 0 1 machine_demo))\<lparr>c_rsp := 0x9000, c_rbp := 0x77\<rparr>\<rparr>" 1 machine_demo] o
    by (simp add: on_thread_def stack_slots_def slots_of_def) (simp add: machine_demo_def)
qed

definition heap_filled1 :: kheap where
  "heap_filled1 = heap_filled\<lparr>h_size := (h_size heap_filled)(0x110000 := 986, 0x113DA0 := 38)\<rparr>"

lemma kmalloc_demo: "kmalloc 584 heap_filled = Some (0x113DB0, heap_filled1)"
  by (simp add: kmalloc_def units_of_def HEADER_SIZE_def heap_filled_def heap_filled1_def)
    (subst kmalloc_loop.simps, simp add: kmalloc_take_def HEADER_SIZE_def)

lemma kmalloc_demo1: "\<exists>h. kmalloc 8192 heap_filled1 = Some (0x111DA0, h)"
  by (simp add: kmalloc_def units_of_def HEADER_SIZE_def heap_filled_def heap_filled1_def)
    (subst kmalloc_loop.simps, simp add: kmalloc_take_def HEADER_SIZE_def)

lemma thread_create_demo:
  "\<exists>m1. thread_create symbols_demo 0x400 0x2A machine_demo = Some (Some 1, m1) \<and> th_stack (m_threads m1 1) = 0x111DA0
     \<and> m_cpu m1 = m_cpu machine_demo"
proof -
  obtain h where h: "kmalloc 8192 heap_filled1 = Some (0x111DA0, h)" using kmalloc_demo1 by blast
  have p: "heap_filled\<lparr>h_pmm := v_pmm vmm_demo\<rparr> = heap_filled" "heap_filled1\<lparr>h_pmm := v_pmm vmm_demo\<rparr> = heap_filled1"
    "h_pmm heap_filled1 = v_pmm vmm_demo" "vmm_demo\<lparr>v_pmm := v_pmm vmm_demo\<rparr> = vmm_demo"
    by (simp_all add: heap_filled_def heap_filled1_def)
  show ?thesis
    by (simp add: thread_create_def m_kmalloc_def shared_kmalloc_def THREAD_SIZE_def KERNEL_STACK_SIZE_def
        machine_demo_def p kmalloc_demo h thread_frame_def add_ready_def Let_def)
qed

lemma thread_create_starts_func_witness:
  "\<exists>m1. thread_create symbols_demo 0x400 0x2A machine_demo = Some (Some 1, m1)
     \<and> starts_func symbols_demo 0x400 0x2A 0x113DA0 (thread_switch 0 1 m1)"
proof -
  obtain m1 where m1: "thread_create symbols_demo 0x400 0x2A machine_demo = Some (Some 1, m1)"
    "th_stack (m_threads m1 1) = 0x111DA0" "m_cpu m1 = m_cpu machine_demo" using thread_create_demo by blast
  then have "th_rsp (m_threads m1 1) = 0x113D58" by (auto elim: thread_create_frame simp: KERNEL_STACK_SIZE_def)
  then show ?thesis using thread_create_starts_func [OF m1(1), of 0 m1] m1(1,2)
    by (simp add: m1(3) stack_slots_def slots_of_def KERNEL_STACK_SIZE_def) (simp add: machine_demo_def)
qed

lemma reaped_kernel_thread_frees_live_tables_witness:
  "\<exists>m'. reap_thread 1 machine_demo = Some m' \<and> cr3 (m_vmm m') = 0x1000 \<and> 1 \<in> pmm_free_set (v_pmm (m_vmm m'))"
proof -
  have "for_each (\<lambda>i s. if present (tbl s 0x101000 i) then destroy_pdpt (entry_table s (tbl s 0x101000 i)) s else Some s)
    [0..<256] vmm_demo = Some vmm_demo"
    by (rule for_each_skip) (simp add: vmm_demo_def present_def)
  moreover have "\<exists>v. free_table 0x101000 vmm_demo = Some v"
    by (simp add: free_table_def vmm_demo_def vmm_virt_to_phys_def pmm_free_page_def pmm_bitmap_test_def pmm_bitmap_unset_def PAGE_SIZE_def Let_def)
  ultimately obtain v where v: "vmm_destroy_address_space 0x101000 vmm_demo = Some v"
    by (auto simp: vmm_destroy_address_space_def)
  have "\<exists>h. kfree 0x150010 heap_filled = Some h"
    by (simp add: kfree_def heap_filled_def HEADER_SIZE_def) (subst kfree_find.simps, simp, subst kfree_find.simps, simp)
  then obtain m' where m': "reap_thread 1 machine_demo = Some m'"
    using v by (auto simp: reap_thread_def machine_demo_def blank_thread_def m_kfree_def Let_def)
  have "pmm_inv (v_pmm vmm_demo)" using vmm_demo_tree by (simp add: vmm_tree_def pmm_ready_def)
  moreover have "m_vmm machine_demo = vmm_demo" "m_threads machine_demo 1 = blank_thread\<lparr>th_block := 0x150010, th_pml4 := 0x101000\<rparr>"
    by (simp_all add: machine_demo_def)
  moreover have "vmm_get_current_pml4 vmm_demo = 0x101000" "cr3 vmm_demo = 0x1000" "pmm_total_pages (v_pmm vmm_demo) = 8"
    by (simp_all add: vmm_demo_def vmm_get_current_pml4_def vmm_phys_to_virt_def)
  ultimately show ?thesis
    using reaped_kernel_thread_frees_live_tables [OF m'] m' by (auto simp: blank_thread_def PAGE_SIZE_def)
qed

end
