(* ===== verification/Ps2.thy ===== *)
theory Ps2
  imports Event_Queue
begin

section \<open>Keyboard and mouse (src/kernel/keyboard.c, src/kernel/mouse.c)\<close>

text \<open>
  The interrupt handlers of the two PS/2 devices. What a handler reads from the ports is its argument.
  The fields of an event the source does not set keep what was on the stack, the argument \<open>junk\<close>.
  The waits for the controller, which read a status port until it is ready, take the readings one after
  the other from a list.
\<close>

subsection \<open>Keyboard\<close>

text \<open>The scan-code tables, filled up with zeros as C does.\<close>

definition kbd_us :: "u8 list" where
  "kbd_us =
    [0, 27, 49, 50, 51, 52, 53, 54, 55, 56, 57, 48, 45, 61,
     8, 9, 113, 119, 101, 114, 116, 121, 117, 105, 111, 112, 91, 93,
     10, 0, 97, 115, 100, 102, 103, 104, 106, 107, 108, 59, 39, 96,
     0, 92, 122, 120, 99, 118, 98, 110, 109, 44, 46, 47, 0, 42,
     0, 32, 0, 0, 0, 0, 0, 0, 0, 0, 0, 0, 0, 0,
     0, 0, 0, 0, 0, 0, 0, 45, 0, 0, 0, 43, 0, 0,
     0, 0, 0, 0, 0, 0, 0, 0, 0, 0, 0] @ replicate 33 0"

definition kbd_us_shift :: "u8 list" where
  "kbd_us_shift =
    [0, 0, 33, 64, 35, 36, 37, 94, 38, 42, 40, 41, 95, 43,
     8, 9, 81, 87, 69, 82, 84, 89, 85, 73, 79, 80, 123, 125,
     10, 0, 65, 83, 68, 70, 71, 72, 74, 75, 76, 58, 34, 126,
     0, 124, 90, 88, 67, 86, 66, 78, 77, 60, 62, 63, 0, 42,
     0, 32, 0, 0, 0, 0, 0, 0, 0, 0, 0, 0, 0, 0,
     0, 0, 0, 0, 0, 0, 0, 95, 0, 0, 0, 43, 0, 0,
     0, 0, 0, 0, 0, 0, 0, 0, 0, 0, 0] @ replicate 33 0"

record kbd =
  ctrl_pressed :: bool
  shift_pressed :: bool
  caps_lock_on :: bool
  kbd_events :: event_state

definition keyboard_is_ctrl_pressed :: "kbd \<Rightarrow> bool" where
  "keyboard_is_ctrl_pressed s = ctrl_pressed s"

definition keyboard_is_shift_pressed :: "kbd \<Rightarrow> bool" where
  "keyboard_is_shift_pressed s = shift_pressed s"

text \<open>The character a key gives when it goes down.\<close>

definition key_char :: "bool \<Rightarrow> bool \<Rightarrow> u8 \<Rightarrow> u8" where
  "key_char shift caps scancode =
     (let c = kbd_us ! unat scancode
      in if 97 \<le> c \<and> c \<le> 122
         then (if shift \<noteq> caps then kbd_us_shift ! unat scancode else c)
         else if shift then kbd_us_shift ! unat scancode else c)"

definition keyboard_handler :: "u32 \<Rightarrow> u8 \<Rightarrow> kbd \<Rightarrow> kbd" where
  "keyboard_handler junk scancode s =
     (if scancode = 0x1D then s\<lparr>ctrl_pressed := True\<rparr>
      else if scancode = 0x9D then s\<lparr>ctrl_pressed := False\<rparr>
      else if scancode = 0x2A \<or> scancode = 0x36 then s\<lparr>shift_pressed := True\<rparr>
      else if scancode = 0xAA \<or> scancode = 0xB6 then s\<lparr>shift_pressed := False\<rparr>
      else if scancode = 0x3A then s\<lparr>caps_lock_on := \<not> caps_lock_on s\<rparr>
      else let (kind, c) = (if scancode AND 0x80 \<noteq> 0
                            then (EVENT_KEY_UP, kbd_us ! unat (scancode AND 0x7F))
                            else (EVENT_KEY_DOWN, key_char (shift_pressed s) (caps_lock_on s) scancode));
               e = \<lparr>event_kind = kind, data1 = ucast c, data2 = ucast scancode, data3 = junk\<rparr>
           in s\<lparr>kbd_events := event_push e (kbd_events s)\<rparr>)"

text \<open>The loop ends: every round takes an event out of the queue. The result 0 is an empty queue.\<close>

function keyboard_get_char :: "event_state \<Rightarrow> u8 \<times> event_state" where
  "keyboard_get_char q =
     (case event_pop q of
        None \<Rightarrow> (0, q)
      | Some (e, q') \<Rightarrow> (if event_kind e = EVENT_KEY_DOWN then (ucast (data1 e), q') else keyboard_get_char q'))"
  by pat_completeness auto
termination
  by (relation "measure event_count") (auto simp: event_pop_def split: if_splits)

declare keyboard_get_char.simps [simp del]

subsection \<open>Mouse\<close>

record mouse =
  mouse_x :: int
  mouse_y :: int
  mouse_cycle :: nat
  mouse_byte :: "u8 list"
  last_button_state :: u8
  mouse_events :: event_state

definition mouse_push :: "event_type \<Rightarrow> u32 \<Rightarrow> u32 \<Rightarrow> u32 \<Rightarrow> mouse \<Rightarrow> mouse" where
  "mouse_push kind d1 d2 d3 m =
     m\<lparr>mouse_events := event_push \<lparr>event_kind = kind, data1 = d1, data2 = d2, data3 = d3\<rparr> (mouse_events m)\<rparr>"

text \<open>Negation of an 8-bit signed number: the negation of -128 is stored back as -128.\<close>

definition mouse_delta :: "bool \<Rightarrow> u8 \<Rightarrow> int" where
  "mouse_delta sign b = sint (if sign then - b else b)"

definition clamp :: "int option \<Rightarrow> int \<Rightarrow> int" where
  "clamp bound v =
     (let v' = (if v < 0 then 0 else v)
      in case bound of None \<Rightarrow> v' | Some w \<Rightarrow> (if w \<le> v' then w - 1 else v'))"

definition mouse_buttons :: "u32 \<times> u32 \<Rightarrow> u8 \<Rightarrow> mouse \<Rightarrow> mouse" where
  "mouse_buttons junk now m =
     (let was = last_button_state m
      in if now = was then m
         else let m' = (if now AND 1 \<noteq> 0 \<and> was AND 1 = 0 then mouse_push EVENT_MOUSE_DOWN 1 (fst junk) (snd junk) m
                        else if now AND 1 = 0 \<and> was AND 1 \<noteq> 0 then mouse_push EVENT_MOUSE_UP 1 (fst junk) (snd junk) m
                        else m)
              in m'\<lparr>last_button_state := now\<rparr>)"

text \<open>The size of the screen is \<open>None\<close> when there is no framebuffer.\<close>

definition mouse_packet :: "u32 \<times> u32 \<times> u32 \<Rightarrow> (int \<times> int) option \<Rightarrow> mouse \<Rightarrow> mouse" where
  "mouse_packet junk screen m =
     (let b0 = mouse_byte m ! 0;
          dx = mouse_delta (b0 AND 0x10 \<noteq> 0) (mouse_byte m ! 1);
          dy = mouse_delta (b0 AND 0x20 \<noteq> 0) (mouse_byte m ! 2);
          m1 = m\<lparr>mouse_x := clamp (map_option fst screen) (mouse_x m + dx),
                 mouse_y := clamp (map_option snd screen) (mouse_y m - dy)\<rparr>;
          m2 = mouse_push EVENT_MOUSE_MOVE (word_of_int (mouse_x m1)) (word_of_int (mouse_y m1)) (fst junk) m1
      in mouse_buttons (snd junk) (b0 AND 0x07) m2)"

definition mouse_handler :: "u32 \<times> u32 \<times> u32 \<Rightarrow> (int \<times> int) option \<Rightarrow> u8 \<Rightarrow> u8 \<Rightarrow> mouse \<Rightarrow> mouse" where
  "mouse_handler junk screen status data m =
     (if status AND 0x20 = 0 then m
      else if mouse_cycle m = 0
      then let m' = m\<lparr>mouse_byte := (mouse_byte m)[0 := data]\<rparr>
           in if data AND 0x08 \<noteq> 0 then m'\<lparr>mouse_cycle := 1\<rparr> else m'
      else if mouse_cycle m = 1 then m\<lparr>mouse_byte := (mouse_byte m)[1 := data], mouse_cycle := 2\<rparr>
      else if mouse_cycle m = 2 then mouse_packet junk screen (m\<lparr>mouse_byte := (mouse_byte m)[2 := data], mouse_cycle := 0\<rparr>)
      else m)"

definition mouse_get_position :: "mouse \<Rightarrow> int \<times> int" where
  "mouse_get_position m = (mouse_x m, mouse_y m)"

subsection \<open>Setting the mouse up\<close>

text \<open>Port accesses in order: \<open>Inb\<close> with what was read, \<open>Outb\<close> with what was written.\<close>

datatype port_op = Inb u16 u8 | Outb u16 u8

type_synonym 'a port_prog = "u8 list \<Rightarrow> ('a \<times> port_op list \<times> u8 list) option"

definition inb :: "u16 \<Rightarrow> u8 port_prog" where
  "inb p rs = (case rs of [] \<Rightarrow> None | r # rs' \<Rightarrow> Some (r, [Inb p r], rs'))"

definition outb :: "u16 \<Rightarrow> u8 \<Rightarrow> unit port_prog" where
  "outb p v rs = Some ((), [Outb p v], rs)"

definition ret :: "'a \<Rightarrow> 'a port_prog" where
  "ret x rs = Some (x, [], rs)"

definition seq :: "'a port_prog \<Rightarrow> ('a \<Rightarrow> 'b port_prog) \<Rightarrow> 'b port_prog" where
  "seq c f rs = do { (x, t, rs1) \<leftarrow> c rs; (y, u, rs2) \<leftarrow> f x rs1; Some (y, t @ u, rs2) }"

text \<open>At most \<open>timeout\<close> readings of the status port.\<close>

fun mouse_wait :: "nat \<Rightarrow> bool \<Rightarrow> unit port_prog" where
  "mouse_wait 0 output rs = Some ((), [], rs)"
| "mouse_wait (Suc timeout) output rs =
     seq (inb 0x64) (\<lambda>st. if (if output then st AND 1 = 0 else st AND 2 \<noteq> 0) then mouse_wait timeout output else ret ()) rs"

definition MOUSE_TIMEOUT :: nat where "MOUSE_TIMEOUT = 100000"

definition mouse_command :: "u16 \<Rightarrow> u8 \<Rightarrow> unit port_prog" where
  "mouse_command port v = seq (mouse_wait MOUSE_TIMEOUT False) (\<lambda>_. outb port v)"

definition mouse_write :: "u8 \<Rightarrow> unit port_prog" where
  "mouse_write data = seq (mouse_command 0x64 0xD4) (\<lambda>_. mouse_command 0x60 data)"

definition mouse_read :: "u8 port_prog" where
  "mouse_read = seq (mouse_wait MOUSE_TIMEOUT True) (\<lambda>_. inb 0x60)"

definition mouse_init :: "unit port_prog" where
  "mouse_init =
     seq (mouse_command 0x64 0xA8) (\<lambda>_. seq (mouse_command 0x64 0x20) (\<lambda>_. seq mouse_read (\<lambda>status.
     seq (mouse_command 0x64 0x60) (\<lambda>_. seq (mouse_command 0x60 ((status OR 2) AND NOT 0x20)) (\<lambda>_.
     seq (mouse_write 0xF6) (\<lambda>_. seq mouse_read (\<lambda>_. seq (mouse_write 0xF4) (\<lambda>_. seq mouse_read (\<lambda>_. ret ())))))))))"

subsection \<open>Typing\<close>

text \<open>The scan codes of the strokes that type a character, with shift when the plain table lacks it.\<close>

definition key_index :: "u8 list \<Rightarrow> u8 \<Rightarrow> nat option" where
  "key_index t c = List.find (\<lambda>i. t ! i = c) [0..<128]"

definition strokes :: "u8 \<Rightarrow> u8 list" where
  "strokes c =
     (case key_index kbd_us c of
        Some i \<Rightarrow> [of_nat i, of_nat i OR 0x80]
      | None \<Rightarrow> (case key_index kbd_us_shift c of
                   Some i \<Rightarrow> [0x2A, of_nat i, of_nat i OR 0x80, 0xAA]
                 | None \<Rightarrow> []))"

definition typeable :: "u8 \<Rightarrow> bool" where
  "typeable c \<longleftrightarrow> c \<noteq> 0 \<and> (key_index kbd_us c \<noteq> None \<or> key_index kbd_us_shift c \<noteq> None)"

fun read_chars :: "nat \<Rightarrow> event_state \<Rightarrow> u8 list" where
  "read_chars 0 q = []"
| "read_chars (Suc n) q = (let (c, q') = keyboard_get_char q in c # read_chars n q')"

definition idle_keys :: "kbd \<Rightarrow> bool" where
  "idle_keys s \<longleftrightarrow> event_inv (kbd_events s) \<and> \<not> shift_pressed s \<and> \<not> caps_lock_on s"

lemma key_indexD: "key_index t c = Some i \<Longrightarrow> i < 128 \<and> t ! i = c"
  by (auto simp: key_index_def find_Some_iff)

lemma code_bits:
  assumes "i < 128"
  shows "(of_nat i :: u8) AND 0x80 = 0" "unat (of_nat i :: u8) = i" "((of_nat i :: u8) OR 0x80) AND 0x80 \<noteq> 0"
    "((of_nat i :: u8) OR 0x80) AND 0x7F = of_nat i"
proof -
  have e: "(0x80 :: u8) = push_bit 7 1" "(0x7F :: u8) = mask 7" by (simp_all add: mask_eq_exp_minus_1)
  have b: "bit (of_nat i :: u8) n \<longleftrightarrow> n < 7 \<and> bit i n" for n
  proof -
    have "n < 7" if "bit i n"
    proof (rule ccontr)
      assume "\<not> n < 7"
      then have "(2::nat) ^ 7 \<le> 2 ^ n" by (intro power_increasing) auto
      then have "i div 2 ^ n = 0" using assms by simp
      then show False using that by (simp add: bit_iff_odd)
    qed
    then show ?thesis by (auto simp: bit_simps)
  qed
  have b7: "bit (0x80 :: u8) n \<longleftrightarrow> n = 7" for n
    unfolding e(1) bit_push_bit_iff bit_1_iff by auto
  have b8: "bit (0x7F :: u8) n \<longleftrightarrow> n < 7" for n unfolding e(2) bit_mask_iff by auto
  show "(of_nat i :: u8) AND 0x80 = 0" by (rule bit_word_eqI) (simp only: bit_and_iff b b7, simp)
  show "unat (of_nat i :: u8) = i" using assms by (simp add: unat_of_nat)
  have "bit (((of_nat i :: u8) OR 0x80) AND 0x80) 7" unfolding bit_or_iff bit_and_iff b7 by simp
  then show "((of_nat i :: u8) OR 0x80) AND 0x80 \<noteq> 0" by force
  show "((of_nat i :: u8) OR 0x80) AND 0x7F = of_nat i" by (rule bit_word_eqI) (simp only: bit_and_iff bit_or_iff b b7 b8, auto)
qed

lemma modifiers_zero:
  "kbd_us ! 0x1D = 0" "kbd_us ! 0x2A = 0" "kbd_us ! 0x36 = 0" "kbd_us ! 0x3A = 0"
  "kbd_us_shift ! 0x1D = 0" "kbd_us_shift ! 0x2A = 0" "kbd_us_shift ! 0x36 = 0" "kbd_us_shift ! 0x3A = 0"
  by (simp_all add: kbd_us_def kbd_us_shift_def nth_append)

definition key_event :: "u32 \<Rightarrow> event_type \<Rightarrow> u8 \<Rightarrow> u8 \<Rightarrow> event" where
  "key_event junk kind c code = \<lparr>event_kind = kind, data1 = ucast c, data2 = ucast code, data3 = junk\<rparr>"

lemma handler_down:
  assumes "i < 128" "i \<notin> {0x1D, 0x2A, 0x36, 0x3A}"
  shows "keyboard_handler junk (of_nat i) s =
    s\<lparr>kbd_events := event_push (key_event junk EVENT_KEY_DOWN (key_char (shift_pressed s) (caps_lock_on s) (of_nat i)) (of_nat i)) (kbd_events s)\<rparr>"
proof -
  have "(of_nat i :: u8) \<noteq> of_nat k" if "k < 256" "i \<noteq> k" for k
    using that assms(1) by (simp add: word_of_nat_eq_iff take_bit_eq_mod)
  from this [of "0x1D"] this [of "0x9D"] this [of "0x2A"] this [of "0x36"] this [of "0xAA"] this [of "0xB6"] this [of "0x3A"]
  show ?thesis using assms code_bits [OF assms(1)] by (simp add: keyboard_handler_def key_event_def)
qed

lemma handler_up:
  assumes "i < 128" "i \<notin> {0x1D, 0x2A, 0x36, 0x3A}"
  shows "keyboard_handler junk (of_nat i OR 0x80) s =
    s\<lparr>kbd_events := event_push (key_event junk EVENT_KEY_UP (kbd_us ! i) (of_nat i OR 0x80)) (kbd_events s)\<rparr>"
proof -
  note B = code_bits [OF assms(1)]
  have n: "(of_nat i OR 0x80 :: u8) \<noteq> k" if "k AND 0x80 = 0" for k using B(3) that by auto
  have m: "(of_nat i OR 0x80 :: u8) \<noteq> k" if "k AND 0x7F = of_nat j" "j < 128" "i \<noteq> j" for k j
  proof
    assume "of_nat i OR 0x80 = k"
    then have "(of_nat i :: u8) = of_nat j" using that(1) B(4) by simp
    then show False using code_bits(2) [OF that(2)] B(2) that(3) by metis
  qed
  show ?thesis
    using assms(2) B n [of "0x1D"] n [of "0x2A"] n [of "0x36"] n [of "0x3A"]
      m [of "0x9D" "0x1D"] m [of "0xAA" "0x2A"] m [of "0xB6" "0x36"]
    by (simp add: keyboard_handler_def key_event_def)
qed

text \<open>Reading skips what is not a key press.\<close>

lemma get_char_contents:
  assumes "event_inv q"
  shows "event_inv (snd (keyboard_get_char q)) \<and>
    (case dropWhile (\<lambda>e. event_kind e \<noteq> EVENT_KEY_DOWN) (event_contents q) of
       [] \<Rightarrow> fst (keyboard_get_char q) = 0 \<and> event_contents (snd (keyboard_get_char q)) = []
     | e # es \<Rightarrow> fst (keyboard_get_char q) = ucast (data1 e) \<and> event_contents (snd (keyboard_get_char q)) = es)"
  using assms
proof (induction q rule: keyboard_get_char.induct)
  case (1 q)
  from pop_contents [OF 1(2)] show ?case
  proof (elim disjE exE conjE)
    assume "event_contents q = []" "event_pop q = None"
    then show ?thesis using 1(2) by (subst (1 2 3) keyboard_get_char.simps) simp
  next
    fix e es q' assume e: "event_contents q = e # es" "event_pop q = Some (e, q')" "event_inv q'" "event_contents q' = es"
    show ?thesis
    proof (cases "event_kind e = EVENT_KEY_DOWN")
      case True
      then have "keyboard_get_char q = (ucast (data1 e), q')" using e(2) by (subst keyboard_get_char.simps) simp
      then show ?thesis using e True by simp
    next
      case False
      then have eq: "keyboard_get_char q = keyboard_get_char q'" using e(2) by (subst keyboard_get_char.simps) simp
      have "dropWhile (\<lambda>e. event_kind e \<noteq> EVENT_KEY_DOWN) (event_contents q) = dropWhile (\<lambda>e. event_kind e \<noteq> EVENT_KEY_DOWN) (event_contents q')"
        using e(1,4) False by simp
      then show ?thesis using 1(1) [OF e(2) refl False e(3)] unfolding eq by simp
    qed
  qed
qed

definition typed :: "u32 \<Rightarrow> u8 \<Rightarrow> event list" where
  "typed junk c =
     (case key_index kbd_us c of
        Some i \<Rightarrow> [key_event junk EVENT_KEY_DOWN c (of_nat i), key_event junk EVENT_KEY_UP (kbd_us ! i) (of_nat i OR 0x80)]
      | None \<Rightarrow> (case key_index kbd_us_shift c of
                   Some i \<Rightarrow> [key_event junk EVENT_KEY_DOWN c (of_nat i), key_event junk EVENT_KEY_UP (kbd_us ! i) (of_nat i OR 0x80)]
                 | None \<Rightarrow> []))"

lemma fold_strokes:
  assumes "typeable c" "idle_keys s"
  shows "fold (keyboard_handler junk) (strokes c) s = s\<lparr>kbd_events := fold event_push (typed junk c) (kbd_events s)\<rparr>"
proof -
  have shift: "keyboard_handler junk 0x2A t = t\<lparr>shift_pressed := True\<rparr>" "keyboard_handler junk 0xAA t = t\<lparr>shift_pressed := False\<rparr>" for t
    by (simp_all add: keyboard_handler_def)
  have idle: "\<not> shift_pressed s" "\<not> caps_lock_on s" using assms(2) by (simp_all add: idle_keys_def)
  have nz: "c \<noteq> 0" using assms(1) by (simp add: typeable_def)
  show ?thesis
  proof (cases "key_index kbd_us c")
    case (Some i)
    then have i: "i < 128" "kbd_us ! i = c" by (auto dest: key_indexD)
    then have "i \<notin> {0x1D, 0x2A, 0x36, 0x3A}" using nz modifiers_zero by auto
    moreover have "key_char False False (of_nat i) = c" using i by (simp add: key_char_def code_bits)
    ultimately show ?thesis
      by (simp add: strokes_def typed_def Some handler_down [OF i(1)] handler_up [OF i(1)] idle)
  next
    case None
    then obtain i where Some: "key_index kbd_us_shift c = Some i" using assms(1) by (auto simp: typeable_def)
    then have i: "i < 128" "kbd_us_shift ! i = c" by (auto dest: key_indexD)
    then have "i \<notin> {0x1D, 0x2A, 0x36, 0x3A}" using nz modifiers_zero by auto
    moreover have "key_char True False (of_nat i) = c" using i by (simp add: key_char_def code_bits Let_def)
    ultimately show ?thesis
      by (simp add: strokes_def typed_def None Some shift handler_down [OF i(1)] handler_up [OF i(1)] idle)
  qed
qed

lemma typed_reads:
  assumes "typeable c"
  shows "\<exists>code b up. typed junk c = [key_event junk EVENT_KEY_DOWN c code, key_event junk EVENT_KEY_UP b up]"
  using assms by (cases "key_index kbd_us c"; cases "key_index kbd_us_shift c") (simp_all add: typed_def typeable_def, blast+)

lemma fold_text:
  assumes "\<forall>c\<in>set cs. typeable c" "idle_keys s" "length (event_contents (kbd_events s)) + 2 * length cs \<le> EVENT_QUEUE_SIZE"
  shows "idle_keys (fold (keyboard_handler junk) (concat (map strokes cs)) s) \<and>
    event_contents (kbd_events (fold (keyboard_handler junk) (concat (map strokes cs)) s)) =
    event_contents (kbd_events s) @ concat (map (typed junk) cs)"
  using assms
proof (induction cs arbitrary: s)
  case (Cons c cs)
  let ?s = "s\<lparr>kbd_events := fold event_push (typed junk c) (kbd_events s)\<rparr>"
  have "typeable c" using Cons.prems(1) by simp
  then obtain code b up where "typed junk c = [key_event junk EVENT_KEY_DOWN c code, key_event junk EVENT_KEY_UP b up]"
    using typed_reads by blast
  then have l: "length (typed junk c) = 2" by simp
  have p: "event_inv (kbd_events ?s) \<and> event_contents (kbd_events ?s) = event_contents (kbd_events s) @ typed junk c"
    using fold_push_contents [of "kbd_events s" "typed junk c"] Cons.prems(2,3) l by (simp add: idle_keys_def)
  have "fold (keyboard_handler junk) (strokes c) s = ?s" using Cons.prems by (intro fold_strokes) auto
  moreover have "idle_keys ?s" using p Cons.prems(2) by (simp add: idle_keys_def)
  ultimately show ?case using Cons.IH [of ?s] Cons.prems(1,3) p l by simp
qed simp

lemma event_char [simp]: "ucast (ucast c :: u32) = (c :: u8)"
  by (rule bit_word_eqI) (auto simp: bit_simps dest: bit_imp_le_length)

lemma read_typed:
  assumes "event_inv q" "event_contents q = us @ concat (map (typed junk) cs)" "\<forall>c\<in>set cs. typeable c"
    "\<forall>e\<in>set us. event_kind e \<noteq> EVENT_KEY_DOWN"
  shows "read_chars (length cs) q = cs"
  using assms
proof (induction cs arbitrary: q us)
  case (Cons c cs)
  have "typeable c" using Cons.prems(3) by simp
  then obtain code b up where x: "typed junk c = [key_event junk EVENT_KEY_DOWN c code, key_event junk EVENT_KEY_UP b up]"
    using typed_reads by blast
  let ?u = "key_event junk EVENT_KEY_UP b up"
  have d: "dropWhile (\<lambda>e. event_kind e \<noteq> EVENT_KEY_DOWN) (event_contents q) =
      key_event junk EVENT_KEY_DOWN c code # ([?u] @ concat (map (typed junk) cs))"
    using Cons.prems(2,4) x by (simp add: dropWhile_append3 key_event_def)
  obtain ch q' where g: "keyboard_get_char q = (ch, q')" by fastforce
  have "event_inv q'" "ch = c" "event_contents q' = [?u] @ concat (map (typed junk) cs)"
    using get_char_contents [OF Cons.prems(1)] d g by (simp_all add: key_event_def)
  then show ?case using Cons.IH [of q' "[?u]"] Cons.prems(3) g by (simp add: key_event_def)
qed simp



subsection \<open>Moving the mouse\<close>

text \<open>The packet a mouse sends for a displacement: the low bytes in two's complement, the signs in the first byte.\<close>

definition ps2_packet :: "int \<Rightarrow> int \<Rightarrow> u8 list" where
  "ps2_packet dx dy = [0x08 OR (if dx < 0 then 0x10 else 0) OR (if dy < 0 then 0x20 else 0), word_of_int dx, word_of_int dy]"

definition mouse_inside :: "int \<Rightarrow> int \<Rightarrow> mouse \<Rightarrow> bool" where
  "mouse_inside w h m \<longleftrightarrow> 0 \<le> mouse_x m \<and> mouse_x m < w \<and> 0 \<le> mouse_y m \<and> mouse_y m < h"

lemma clamp_inside: "0 < w \<Longrightarrow> 0 \<le> clamp (Some w) v \<and> clamp (Some w) v < w"
  by (simp add: clamp_def Let_def)

lemma mouse_push_same [simp]:
  "mouse_x (mouse_push k a b c m) = mouse_x m" "mouse_y (mouse_push k a b c m) = mouse_y m"
  "mouse_cycle (mouse_push k a b c m) = mouse_cycle m" "mouse_byte (mouse_push k a b c m) = mouse_byte m"
  "last_button_state (mouse_push k a b c m) = last_button_state m"
  by (simp_all add: mouse_push_def)

lemma mouse_buttons_same [simp]:
  "mouse_x (mouse_buttons j n m) = mouse_x m" "mouse_y (mouse_buttons j n m) = mouse_y m"
  "mouse_cycle (mouse_buttons j n m) = mouse_cycle m" "mouse_byte (mouse_buttons j n m) = mouse_byte m"
  by (simp_all add: mouse_buttons_def Let_def)

lemma mouse_handler_inside:
  "0 < w \<Longrightarrow> 0 < h \<Longrightarrow> mouse_inside w h m \<Longrightarrow> mouse_inside w h (mouse_handler junk (Some (w, h)) st d m)"
  by (simp add: mouse_handler_def mouse_packet_def mouse_inside_def Let_def clamp_inside)

lemma mouse_small_delta:
  assumes "- 127 \<le> d" "d \<le> 127"
  shows "mouse_delta (d < 0) (word_of_int d) = \<bar>d\<bar>"
  using assms by (auto simp: mouse_delta_def sint_word_ariths signed_take_bit_int_eq_self sint_sbintrunc' simp flip: wi_hom_neg)

text \<open>The handler negates displacements that already are in two's complement: whatever the direction of a small
  move, the cursor goes right and up by its size, up to the edge of the screen.\<close>

lemma mouse_moves_one_way:
  assumes "- 127 \<le> dx" "dx \<le> 127" "- 127 \<le> dy" "dy \<le> 127" "mouse_cycle m = 0" "length (mouse_byte m) = 3"
  shows "mouse_get_position (fold (mouse_handler junk (Some (w, h)) 0x20) (ps2_packet dx dy) m) =
    (clamp (Some w) (mouse_x m + \<bar>dx\<bar>), clamp (Some h) (mouse_y m - \<bar>dy\<bar>))"
proof -
  let ?b = "hd (ps2_packet dx dy)" and ?h = "mouse_handler junk (Some (w, h)) 0x20"
  have b: "?b AND 8 \<noteq> 0" "?b AND 0x10 \<noteq> 0 \<longleftrightarrow> dx < 0" "?b AND 0x20 \<noteq> 0 \<longleftrightarrow> dy < 0"
    by (simp_all add: ps2_packet_def)
  obtain x y z where l: "mouse_byte m = [x, y, z]" using assms(6) by (auto simp: length_Suc_conv numeral_eq_Suc)
  have p: "fold ?h (ps2_packet dx dy) m = ?h (word_of_int dy) (?h (word_of_int dx) (?h ?b m))" by (simp add: ps2_packet_def)
  have "?h ?b m = m\<lparr>mouse_byte := [?b, y, z], mouse_cycle := 1\<rparr>"
    using assms(5) b(1) by (simp add: mouse_handler_def l)
  moreover have "?h (word_of_int dx) (m\<lparr>mouse_byte := [?b, y, z], mouse_cycle := 1\<rparr>)
      = m\<lparr>mouse_byte := [?b, word_of_int dx, z], mouse_cycle := 2\<rparr>"
    by (simp add: mouse_handler_def)
  moreover have "?h (word_of_int dy) (m\<lparr>mouse_byte := [?b, word_of_int dx, z], mouse_cycle := 2\<rparr>)
      = mouse_packet junk (Some (w, h)) (m\<lparr>mouse_byte := [?b, word_of_int dx, word_of_int dy], mouse_cycle := 0\<rparr>)"
    by (simp add: mouse_handler_def)
  ultimately have "fold ?h (ps2_packet dx dy) m =
      mouse_packet junk (Some (w, h)) (m\<lparr>mouse_byte := [?b, word_of_int dx, word_of_int dy], mouse_cycle := 0\<rparr>)"
    by (simp only: p)
  then show ?thesis
    using assms(1-4) by (simp add: mouse_packet_def Let_def mouse_get_position_def mouse_small_delta b)
qed

definition mouse_boot :: mouse where
  "mouse_boot = \<lparr>mouse_x = 0, mouse_y = 0, mouse_cycle = 0, mouse_byte = [0, 0, 0], last_button_state = 0, mouse_events = event_boot\<rparr>"

lemma mouse_moves_one_way_witness:
  "mouse_get_position (fold (mouse_handler (0, 0, 0) (Some (640, 480)) 0x20) (ps2_packet (- 5) 0) mouse_boot) = (5, 0)"
  using mouse_moves_one_way [of "- 5" 0 mouse_boot "(0, 0, 0)" 640 480] by (simp add: mouse_boot_def clamp_def)

text \<open>Whatever bytes the mouse sends, in or out of step, the position stays inside the screen.\<close>

lemma mouse_stays_inside:
  assumes "0 < w" "0 < h" "mouse_inside w h m"
  shows "mouse_inside w h (fold (\<lambda>(st, d). mouse_handler junk (Some (w, h)) st d) inputs m)"
  using assms by (induction inputs arbitrary: m) (auto simp: mouse_handler_inside)

lemma mouse_stays_inside_witness:
  "mouse_inside 640 480 (fold (\<lambda>(st, d). mouse_handler (0, 0, 0) (Some (640, 480)) st d) [(0x20, 0x08), (0x20, 0x7F), (0x20, 0x7F)] mouse_boot)"
  by (rule mouse_stays_inside) (simp_all add: mouse_inside_def mouse_boot_def)


end
