(* ===== verification/Font.thy ===== *)
theory Font
  imports Kyro_Prelude
begin

section \<open>The console font (src/kernel/font.c)\<close>

text \<open>
  The 8 by 16 glyphs, one byte a row with the leftmost pixel in the highest bit, by character code, in the
  order of the source. Codes without an entry have an empty glyph.
\<close>

definition font_symbols :: "(nat \<times> u8 list) list" where
  "font_symbols =
    [(32, [0, 0, 0, 0, 0, 0, 0, 0, 0, 0, 0, 0, 0, 0, 0, 0]),
     (33, [0, 0, 0x18, 0x3C, 0x3C, 0x3C, 0x18, 0x18, 0, 0x18, 0, 0, 0, 0, 0, 0]),
     (34, [0, 0x66, 0x66, 0x24, 0, 0, 0, 0, 0, 0, 0, 0, 0, 0, 0, 0]),
     (35, [0, 0, 0x6C, 0x6C, 0xFE, 0x6C, 0x6C, 0x6C, 0xFE, 0x6C, 0x6C, 0, 0, 0, 0, 0]),
     (36, [0x18, 0x3C, 0x60, 0x60, 0x58, 0x3C, 0x18, 0x38, 0x1C, 6, 6, 0x3C, 0x18, 0, 0, 0]),
     (37, [0, 0, 0x60, 0x66, 0x0C, 0x18, 0x30, 0x60, 0x30, 0x18, 0x0C, 0x66, 6, 0, 0, 0]),
     (38, [0, 0, 0x38, 0x6C, 0x6C, 0x38, 0x60, 0x6E, 0x63, 0x63, 0x7F, 0, 0, 0, 0, 0]),
     (39, [0, 0x18, 0x38, 0x18, 0, 0, 0, 0, 0, 0, 0, 0, 0, 0, 0, 0]),
     (40, [0, 0, 0x0E, 0x1C, 0x30, 0x30, 0x30, 0x30, 0x30, 0x30, 0x30, 0x1C, 0x0E, 0, 0, 0]),
     (41, [0, 0, 0x70, 0x38, 0x0C, 0x0C, 0x0C, 0x0C, 0x0C, 0x0C, 0x0C, 0x38, 0x70, 0, 0, 0]),
     (42, [0, 0, 0, 0, 0x66, 0x3C, 0xFF, 0x3C, 0x66, 0, 0, 0, 0, 0, 0, 0]),
     (43, [0, 0, 0, 0x18, 0x18, 0x18, 0x7E, 0x18, 0x18, 0x18, 0, 0, 0, 0, 0, 0]),
     (44, [0, 0, 0, 0, 0, 0, 0, 0, 0, 0, 0, 0x1C, 0x0C, 0x0E, 0, 0]),
     (45, [0, 0, 0, 0, 0, 0, 0x7E, 0, 0, 0, 0, 0, 0, 0, 0, 0]),
     (46, [0, 0, 0, 0, 0, 0, 0, 0, 0, 0, 0, 0x18, 0x18, 0, 0, 0]),
     (47, [0, 0, 2, 6, 0x0C, 0x18, 0x30, 0x60, 0xC0, 0x80, 0, 0, 0, 0, 0, 0]),
     (48, [0, 0, 0x3C, 0x42, 0x42, 0x42, 0x42, 0x42, 0x42, 0x42, 0x3C, 0, 0, 0, 0, 0]),
     (49, [0, 0, 0x10, 0x30, 0x50, 0x10, 0x10, 0x10, 0x10, 0x10, 0x7C, 0, 0, 0, 0, 0]),
     (50, [0, 0, 0x3C, 0x42, 2, 4, 8, 0x10, 0x20, 0x40, 0x7E, 0, 0, 0, 0, 0]),
     (51, [0, 0, 0x3C, 0x42, 2, 0x1C, 2, 2, 2, 0x42, 0x3C, 0, 0, 0, 0, 0]),
     (52, [0, 0, 8, 0x18, 0x28, 0x48, 0x7E, 8, 8, 8, 8, 0, 0, 0, 0, 0]),
     (53, [0, 0, 0x7E, 0x40, 0x40, 0x7C, 2, 2, 2, 0x42, 0x3C, 0, 0, 0, 0, 0]),
     (54, [0, 0, 0x3C, 0x40, 0x40, 0x7C, 0x42, 0x42, 0x42, 0x42, 0x3C, 0, 0, 0, 0, 0]),
     (55, [0, 0, 0x7E, 2, 4, 8, 0x10, 0x20, 0x20, 0x20, 0x20, 0, 0, 0, 0, 0]),
     (56, [0, 0, 0x3C, 0x42, 0x42, 0x3C, 0x42, 0x42, 0x42, 0x42, 0x3C, 0, 0, 0, 0, 0]),
     (57, [0, 0, 0x3C, 0x42, 0x42, 0x42, 0x42, 0x3E, 2, 2, 0x3C, 0, 0, 0, 0, 0]),
     (58, [0, 0, 0, 0, 0x18, 0x18, 0, 0, 0, 0x18, 0x18, 0, 0, 0, 0, 0]),
     (59, [0, 0, 0, 0, 0x18, 0x18, 0, 0, 0, 0x18, 0x18, 8, 0x10, 0, 0, 0]),
     (60, [0, 0, 6, 0x18, 0x60, 0xC0, 0xC0, 0x60, 0x18, 6, 0, 0, 0, 0, 0, 0]),
     (61, [0, 0, 0, 0, 0x7E, 0, 0, 0x7E, 0, 0, 0, 0, 0, 0, 0, 0]),
     (62, [0, 0, 0x60, 0x18, 6, 3, 3, 6, 0x18, 0x60, 0, 0, 0, 0, 0, 0]),
     (63, [0, 0, 0x3C, 0x66, 0x66, 0x0C, 0x18, 0x18, 0, 0x18, 0x18, 0, 0, 0, 0, 0]),
     (64, [0, 0, 0x3C, 0x66, 0x6E, 0x6E, 0x6E, 0x60, 0x60, 0x3E, 0, 0, 0, 0, 0, 0]),
     (65, [0, 0, 0x3C, 0x66, 0x66, 0x66, 0x7E, 0x66, 0x66, 0x66, 0x66, 0, 0, 0, 0, 0]),
     (66, [0, 0, 0x7C, 0x42, 0x42, 0x7C, 0x42, 0x42, 0x42, 0x7C, 0, 0, 0, 0, 0, 0]),
     (67, [0, 0, 0x3C, 0x42, 0x40, 0x40, 0x40, 0x40, 0x42, 0x3C, 0, 0, 0, 0, 0, 0]),
     (68, [0, 0, 0x78, 0x44, 0x42, 0x42, 0x42, 0x42, 0x44, 0x78, 0, 0, 0, 0, 0, 0]),
     (69, [0, 0, 0x7E, 0x40, 0x40, 0x7C, 0x40, 0x40, 0x40, 0x7E, 0, 0, 0, 0, 0, 0]),
     (70, [0, 0, 0x7E, 0x40, 0x40, 0x7C, 0x40, 0x40, 0x40, 0x40, 0, 0, 0, 0, 0, 0]),
     (71, [0, 0, 0x3C, 0x42, 0x40, 0x40, 0x4E, 0x42, 0x42, 0x3C, 0, 0, 0, 0, 0, 0]),
     (72, [0, 0, 0x66, 0x66, 0x66, 0x7E, 0x66, 0x66, 0x66, 0x66, 0, 0, 0, 0, 0, 0]),
     (73, [0, 0, 0x3C, 0x18, 0x18, 0x18, 0x18, 0x18, 0x18, 0x3C, 0, 0, 0, 0, 0, 0]),
     (74, [0, 0, 0x1E, 0x0C, 0x0C, 0x0C, 0x0C, 0x0C, 0xCC, 0x78, 0, 0, 0, 0, 0, 0])]"

definition font_letters :: "(nat \<times> u8 list) list" where
  "font_letters =
    [(75, [0, 0, 0xE6, 0x66, 0x6C, 0x78, 0x6C, 0x66, 0x66, 0xE6, 0, 0, 0, 0, 0, 0]),
     (76, [0, 0, 0xF0, 0x60, 0x60, 0x60, 0x62, 0x66, 0x66, 0xFE, 0, 0, 0, 0, 0, 0]),
     (77, [0, 0, 0xC6, 0xEE, 0xFE, 0xD6, 0xC6, 0xC6, 0xC6, 0xC6, 0, 0, 0, 0, 0, 0]),
     (78, [0, 0, 0xC6, 0xE6, 0xF6, 0xDE, 0xCE, 0xC6, 0xC6, 0xC6, 0, 0, 0, 0, 0, 0]),
     (79, [0, 0, 0x3C, 0x66, 0x66, 0x66, 0x66, 0x66, 0x66, 0x3C, 0, 0, 0, 0, 0, 0]),
     (80, [0, 0, 0xFC, 0x66, 0x66, 0x7C, 0x60, 0x60, 0x60, 0xF0, 0, 0, 0, 0, 0, 0]),
     (81, [0, 0, 0x3C, 0x66, 0x66, 0x66, 0x66, 0x6C, 0x36, 0x3E, 0, 0, 0, 0, 0, 0]),
     (82, [0, 0, 0xFC, 0x66, 0x66, 0x7C, 0x6C, 0x66, 0x66, 0xE6, 0, 0, 0, 0, 0, 0]),
     (83, [0, 0, 0x7C, 0x66, 0x60, 0x38, 0x0C, 6, 0x66, 0x3C, 0, 0, 0, 0, 0, 0]),
     (84, [0, 0, 0x7E, 0x18, 0x18, 0x18, 0x18, 0x18, 0x18, 0x18, 0, 0, 0, 0, 0, 0]),
     (85, [0, 0, 0x66, 0x66, 0x66, 0x66, 0x66, 0x66, 0x66, 0x3C, 0, 0, 0, 0, 0, 0]),
     (86, [0, 0, 0x66, 0x66, 0x66, 0x66, 0x66, 0x3C, 0x18, 0x18, 0, 0, 0, 0, 0, 0]),
     (87, [0, 0, 0xC6, 0xC6, 0xC6, 0xD6, 0xFE, 0xEE, 0xC6, 0xC6, 0, 0, 0, 0, 0, 0]),
     (88, [0, 0, 0xC6, 0xC6, 0x6C, 0x38, 0x38, 0x6C, 0xC6, 0xC6, 0, 0, 0, 0, 0, 0]),
     (89, [0, 0, 0xC6, 0xC6, 0xC6, 0x6C, 0x38, 0x18, 0x18, 0x18, 0, 0, 0, 0, 0, 0]),
     (90, [0, 0, 0xFE, 0xC6, 0x8C, 0x18, 0x32, 0x66, 0xC6, 0xFE, 0, 0, 0, 0, 0, 0]),
     (91, [0, 0, 0x7E, 0x60, 0x60, 0x60, 0x60, 0x60, 0x60, 0x60, 0x60, 0x60, 0x60, 0x7E, 0, 0]),
     (92, [0, 0, 0x80, 0xC0, 0x60, 0x30, 0x18, 0x0C, 6, 2, 0, 0, 0, 0, 0, 0]),
     (93, [0, 0, 0x7E, 6, 6, 6, 6, 6, 6, 6, 6, 6, 6, 0x7E, 0, 0]),
     (94, [0, 0x10, 0x38, 0x6C, 0xC6, 0, 0, 0, 0, 0, 0, 0, 0, 0, 0, 0]),
     (95, [0, 0, 0, 0, 0, 0, 0, 0, 0, 0, 0, 0, 0xFF, 0, 0, 0]),
     (96, [0, 0x30, 0x18, 0x0C, 0, 0, 0, 0, 0, 0, 0, 0, 0, 0, 0, 0]),
     (97, [0, 0, 0, 0, 0, 0x78, 0x0C, 0x7C, 0xCC, 0xCC, 0xCC, 0x76, 0, 0, 0, 0]),
     (98, [0, 0, 0xE0, 0x60, 0x60, 0x7C, 0x66, 0x66, 0x66, 0x66, 0x66, 0x7C, 0, 0, 0, 0]),
     (99, [0, 0, 0, 0, 0, 0x7C, 0x66, 0x60, 0x60, 0x60, 0x66, 0x7C, 0, 0, 0, 0]),
     (100, [0, 0, 0x0E, 6, 6, 0x3E, 0x66, 0x66, 0x66, 0x66, 0x66, 0x3E, 0, 0, 0, 0]),
     (101, [0, 0, 0, 0, 0, 0x7C, 0x66, 0x66, 0x7E, 0x60, 0x66, 0x7C, 0, 0, 0, 0]),
     (102, [0, 0, 0x0E, 0x18, 0x3E, 0x18, 0x18, 0x18, 0x18, 0x18, 0x18, 0x18, 0, 0, 0, 0]),
     (103, [0, 0, 0, 0, 0, 0x7E, 0x66, 0x66, 0x66, 0x66, 0x3E, 6, 0x7C, 0, 0, 0]),
     (104, [0, 0, 0xE0, 0x60, 0x60, 0x6C, 0x76, 0x66, 0x66, 0x66, 0x66, 0x66, 0, 0, 0, 0]),
     (105, [0, 0, 0x18, 0x18, 0, 0x38, 0x18, 0x18, 0x18, 0x18, 0x18, 0x3C, 0, 0, 0, 0]),
     (106, [0, 0, 6, 6, 0, 0x0E, 6, 6, 6, 6, 6, 6, 0x66, 0x3C, 0, 0]),
     (107, [0, 0, 0xE0, 0x60, 0x60, 0x66, 0x6C, 0x78, 0x78, 0x6C, 0x66, 0xE6, 0, 0, 0, 0]),
     (108, [0, 0, 0x38, 0x18, 0x18, 0x18, 0x18, 0x18, 0x18, 0x18, 0x18, 0x3C, 0, 0, 0, 0]),
     (109, [0, 0, 0, 0, 0, 0xEC, 0xFE, 0xD6, 0xD6, 0xD6, 0xD6, 0xC6, 0, 0, 0, 0]),
     (110, [0, 0, 0, 0, 0, 0xDC, 0x66, 0x66, 0x66, 0x66, 0x66, 0x66, 0, 0, 0, 0]),
     (111, [0, 0, 0, 0, 0, 0x3C, 0x66, 0x66, 0x66, 0x66, 0x66, 0x3C, 0, 0, 0, 0]),
     (112, [0, 0, 0, 0, 0, 0xDC, 0x66, 0x66, 0x66, 0x66, 0x66, 0x7C, 0x60, 0x60, 0xF0, 0]),
     (113, [0, 0, 0, 0, 0, 0x76, 0xCC, 0xCC, 0xCC, 0xCC, 0xCC, 0x7C, 0x0C, 0x0C, 0x1E, 0]),
     (114, [0, 0, 0, 0, 0, 0xDC, 0x66, 0x62, 0x60, 0x60, 0x60, 0xF0, 0, 0, 0, 0]),
     (115, [0, 0, 0, 0, 0, 0x7C, 0xC6, 0x60, 0x3C, 6, 0xC6, 0x7C, 0, 0, 0, 0]),
     (116, [0, 0, 0x10, 0x30, 0x7E, 0x30, 0x30, 0x30, 0x30, 0x30, 0x30, 0x1E, 0, 0, 0, 0]),
     (117, [0, 0, 0, 0, 0, 0x66, 0x66, 0x66, 0x66, 0x66, 0x66, 0x3E, 0, 0, 0, 0])]"

definition font_extra :: "(nat \<times> u8 list) list" where
  "font_extra =
    [(118, [0, 0, 0, 0, 0, 0x66, 0x66, 0x66, 0x66, 0x66, 0x3C, 0x18, 0, 0, 0, 0]),
     (119, [0, 0, 0, 0, 0, 0xC6, 0xC6, 0xD6, 0xFE, 0xEE, 0xC6, 0xC6, 0, 0, 0, 0]),
     (120, [0, 0, 0, 0, 0, 0xC6, 0x6C, 0x38, 0x38, 0x6C, 0xC6, 0xC6, 0, 0, 0, 0]),
     (121, [0, 0, 0, 0, 0, 0xC6, 0xC6, 0xC6, 0xC6, 0xC6, 0xC6, 0x7E, 6, 0x0C, 0xF8, 0]),
     (122, [0, 0, 0, 0, 0, 0xFE, 0xCC, 0x18, 0x30, 0x60, 0xC6, 0xFE, 0, 0, 0, 0]),
     (123, [0, 0, 0x0E, 0x18, 0x18, 0x18, 0x70, 0x18, 0x18, 0x18, 0x18, 0x0E, 0, 0, 0, 0]),
     (124, [0, 0, 0x18, 0x18, 0x18, 0x18, 0x18, 0x18, 0x18, 0x18, 0x18, 0x18, 0, 0, 0, 0]),
     (125, [0, 0, 0x70, 0x18, 0x18, 0x18, 0x0E, 0x18, 0x18, 0x18, 0x18, 0x70, 0, 0, 0, 0]),
     (126, [0, 0, 0x76, 0xDC, 0, 0, 0, 0, 0, 0, 0, 0, 0, 0, 0, 0]),
     (127, [0, 0, 0, 0, 0, 0xFE, 0xFE, 0xFE, 0xFE, 0xFE, 0, 0, 0, 0, 0, 0]),
     (192, [0, 0, 0x3C, 0x66, 0x66, 0x66, 0x7E, 0x66, 0x66, 0x66, 0x66, 0, 0, 0, 0, 0]),
     (193, [0, 0, 0x7E, 0x42, 0x42, 0x7E, 0x40, 0x40, 0x40, 0x40, 0, 0, 0, 0, 0, 0]),
     (194, [0, 0, 0x7C, 0x42, 0x42, 0x7C, 0x42, 0x42, 0x42, 0x7C, 0, 0, 0, 0, 0, 0]),
     (195, [0, 0, 0x7C, 0x40, 0x40, 0x40, 0x40, 0x40, 0x40, 0x40, 0, 0, 0, 0, 0, 0]),
     (196, [0, 0, 0x18, 0x3C, 0x66, 0x66, 0x66, 0x66, 0x66, 0x66, 0, 0, 0, 0, 0, 0]),
     (197, [0, 0, 0x7E, 0x40, 0x40, 0x7C, 0x40, 0x40, 0x40, 0x7E, 0, 0, 0, 0, 0, 0]),
     (198, [0, 0, 0xC6, 0xC6, 0x6C, 0x38, 0x7E, 0x38, 0x6C, 0xC6, 0xC6, 0, 0, 0, 0, 0]),
     (199, [0, 0, 0x7C, 0x66, 6, 0x0C, 0x18, 0x30, 0x60, 0x66, 0x7C, 0, 0, 0, 0, 0]),
     (200, [0, 0, 0x66, 0x66, 0x66, 0x66, 0x66, 0x66, 0x66, 0x66, 0, 0, 0, 0, 0, 0]),
     (201, [0, 0, 0, 0x18, 0, 0x66, 0x66, 0x66, 0x66, 0x66, 0x66, 0x66, 0, 0, 0, 0]),
     (202, [0, 0, 0xE6, 0x66, 0x6C, 0x78, 0x6C, 0x66, 0x66, 0xE6, 0, 0, 0, 0, 0, 0]),
     (203, [0, 0, 0x18, 0x18, 0x3C, 0x3C, 0x66, 0x66, 0x66, 0x66, 0, 0, 0, 0, 0, 0]),
     (204, [0, 0, 0xC6, 0xEE, 0xFE, 0xD6, 0xC6, 0xC6, 0xC6, 0xC6, 0, 0, 0, 0, 0, 0]),
     (205, [0, 0, 0x66, 0x66, 0x66, 0x7E, 0x66, 0x66, 0x66, 0x66, 0, 0, 0, 0, 0, 0]),
     (206, [0, 0, 0x3C, 0x66, 0x66, 0x66, 0x66, 0x66, 0x66, 0x3C, 0, 0, 0, 0, 0, 0]),
     (207, [0, 0, 0x7E, 0x60, 0x60, 0x60, 0x60, 0x60, 0x60, 0x60, 0, 0, 0, 0, 0, 0]),
     (208, [0, 0, 0xFC, 0x66, 0x66, 0x7C, 0x60, 0x60, 0x60, 0xF0, 0, 0, 0, 0, 0, 0]),
     (209, [0, 0, 0x3C, 0x42, 0x40, 0x40, 0x40, 0x40, 0x42, 0x3C, 0, 0, 0, 0, 0, 0]),
     (210, [0, 0, 0x7E, 0x18, 0x18, 0x18, 0x18, 0x18, 0x18, 0x18, 0, 0, 0, 0, 0, 0]),
     (211, [0, 0, 0x66, 0x66, 0x66, 0x66, 0x66, 0x3C, 0x18, 0x18, 0, 0, 0, 0, 0, 0]),
     (212, [0, 0, 0x18, 0x7E, 0x18, 0x18, 0x7E, 0x18, 0x18, 0x18, 0, 0, 0, 0, 0, 0]),
     (213, [0, 0, 0xC6, 0xC6, 0x6C, 0x38, 0x18, 0x38, 0x6C, 0xC6, 0xC6, 0, 0, 0, 0, 0]),
     (214, [0, 0, 0x66, 0x66, 0x66, 0x66, 0x66, 0x66, 0x66, 0x3E, 6, 6, 0, 0, 0, 0]),
     (215, [0, 0, 0xE0, 0x60, 0x60, 0x60, 0x60, 0x60, 0x60, 0x60, 0, 0, 0, 0, 0, 0]),
     (216, [0, 0, 0xEE, 0xEE, 0xEE, 0xEE, 0xEE, 0xEE, 0xEE, 0xEE, 0, 0, 0, 0, 0, 0]),
     (217, [0, 0, 0xEE, 0xEE, 0xEE, 0xEE, 0xEE, 0xEE, 0xEE, 0xEE, 6, 6, 0, 0, 0, 0]),
     (218, [0, 0, 0x7E, 0x40, 0x40, 0x40, 0x40, 0x40, 0x7C, 0x40, 0x40, 0x40, 0, 0, 0, 0]),
     (219, [0, 0, 0x66, 0x66, 0x66, 0x66, 0x7E, 0x18, 0x18, 0x18, 0, 0, 0, 0, 0, 0]),
     (220, [0, 0, 0xE0, 0x60, 0x60, 0x60, 0x60, 0x60, 0x60, 0x7C, 0, 0, 0, 0, 0, 0]),
     (221, [0, 0, 0x3C, 0x42, 0x40, 0x40, 0x40, 0x40, 0x42, 0x3C, 0, 0, 0, 0, 0, 0]),
     (222, [0, 0, 0x66, 0x66, 0x66, 0x66, 0x66, 0x66, 0x66, 0x3C, 0, 0, 0, 0, 0, 0]),
     (223, [0, 0, 0x7C, 0x66, 0x66, 0x66, 0x66, 0x66, 0x66, 0xFC, 0, 0, 0, 0, 0, 0])]"

definition default_font :: "nat \<Rightarrow> u8 list" where
  "default_font c =
     (case map_of (font_symbols @ font_letters @ font_extra) c of None \<Rightarrow> replicate 16 0 | Some rows \<Rightarrow> rows)"

lemma default_font_rows: "length (default_font c) = 16"
proof -
  have "\<forall>(k, rows)\<in>set (font_symbols @ font_letters @ font_extra). length rows = 16"
    by (simp add: font_symbols_def font_letters_def font_extra_def)
  then show ?thesis by (auto simp: default_font_def split: option.splits dest!: map_of_SomeD)
qed

end
