(* ===== verification/Framebuffer.thy ===== *)
theory Framebuffer
  imports Klog Font
begin

section \<open>The framebuffer driver (src/kernel/fb.c)\<close>

text \<open>
  Pixels are 32-bit words, in the order of memory: \<open>fb_mem\<close> is the memory of the display and
  \<open>backbuffer\<close> the copy all drawing goes to. A store or a copy that leaves the backbuffer is \<open>None\<close>, as
  is the use of the missing description of the display. Coordinates are C ints; a sum of coordinates
  beyond the range of int is undefined in C and taken at its exact value here. The description holds
  64-bit sizes that the code casts to int, and the row offset is computed with 64-bit wrap-around.
\<close>

record framebuffer =
  f_address :: u64
  f_width :: u64
  f_height :: u64
  f_pitch :: u64
  f_bpp :: u16

record fb_state =
  fb_tag :: "framebuffer option"
  backbuffer :: "u32 list option"
  fb_mem :: "u32 list"

definition c_int :: "u64 \<Rightarrow> int" where
  "c_int v = sint (ucast v :: u32)"

definition fb_init :: "framebuffer option \<Rightarrow> fb_state \<Rightarrow> fb_state" where
  "fb_init tag s = s\<lparr>fb_tag := tag\<rparr>"

definition fb_get_info :: "fb_state \<Rightarrow> framebuffer option" where
  "fb_get_info s = fb_tag s"

definition fb_is_backbuffer_initialized :: "fb_state \<Rightarrow> bool" where
  "fb_is_backbuffer_initialized s \<longleftrightarrow> backbuffer s \<noteq> None"

text \<open>The argument tells whether the heap has the memory. The size in pixels is that of the copy.\<close>

definition backbuffer_pixels :: "framebuffer \<Rightarrow> nat" where
  "backbuffer_pixels f = unat (f_height f * f_pitch f) div 4"

definition fb_init_backbuffer :: "bool \<Rightarrow> fb_state \<Rightarrow> fb_state option" where
  "fb_init_backbuffer has_memory s =
     (case fb_tag s of
        None \<Rightarrow> Some s
      | Some f \<Rightarrow>
          if \<not> has_memory then Some (s\<lparr>backbuffer := None\<rparr>)
          else if backbuffer_pixels f \<le> length (fb_mem s)
          then Some (s\<lparr>backbuffer := Some (take (backbuffer_pixels f) (fb_mem s))\<rparr>)
          else None)"

definition fb_flush :: "fb_state \<Rightarrow> fb_state option" where
  "fb_flush s =
     (case (backbuffer s, fb_tag s) of
        (Some b, Some f) \<Rightarrow>
          if f_address f = 0 then Some s
          else if length b \<le> length (fb_mem s) then Some (s\<lparr>fb_mem := b @ drop (length b) (fb_mem s)\<rparr>)
          else None
      | _ \<Rightarrow> Some s)"

subsection \<open>Drawing\<close>

text \<open>The pixel \<open>x\<close> of the line \<open>y\<close>; the offset is a 64-bit number.\<close>

definition line_offset :: "framebuffer \<Rightarrow> int \<Rightarrow> int \<Rightarrow> nat" where
  "line_offset f y x = unat (word_of_int y * (f_pitch f div 4) + word_of_int x :: u64)"

definition poke :: "nat \<Rightarrow> u32 \<Rightarrow> fb_state \<Rightarrow> fb_state option" where
  "poke i color s =
     (case backbuffer s of
        None \<Rightarrow> None
      | Some b \<Rightarrow> if i < length b then Some (s\<lparr>backbuffer := Some (b[i := color])\<rparr>) else None)"

definition on_backbuffer :: "(framebuffer \<Rightarrow> fb_state \<Rightarrow> fb_state option) \<Rightarrow> fb_state \<Rightarrow> fb_state option" where
  "on_backbuffer draw s =
     (if backbuffer s = None then Some s
      else case fb_get_info s of None \<Rightarrow> None | Some f \<Rightarrow> draw f s)"

definition fb_put_pixel :: "int \<Rightarrow> int \<Rightarrow> u32 \<Rightarrow> fb_state \<Rightarrow> fb_state option" where
  "fb_put_pixel x y color =
     on_backbuffer (\<lambda>f s.
       if 0 \<le> x \<and> x < c_int (f_width f) \<and> 0 \<le> y \<and> y < c_int (f_height f)
       then poke (line_offset f y x) color s else Some s)"

definition fb_draw_pixel :: "u32 \<Rightarrow> u32 \<Rightarrow> u32 \<Rightarrow> fb_state \<Rightarrow> fb_state option" where
  "fb_draw_pixel x y color = fb_put_pixel (sint x) (sint y) color"

definition fb_draw_rect :: "int \<Rightarrow> int \<Rightarrow> int \<Rightarrow> int \<Rightarrow> u32 \<Rightarrow> fb_state \<Rightarrow> fb_state option" where
  "fb_draw_rect x y w h color =
     on_backbuffer (\<lambda>f. for_each (\<lambda>curr_y s.
       if curr_y < 0 \<or> c_int (f_height f) \<le> curr_y then Some s
       else let start_x = (if x < 0 then 0 else x);
                end_x = (if x + w > c_int (f_width f) then c_int (f_width f) else x + w)
            in for_each (\<lambda>curr_x. poke (line_offset f curr_y curr_x) color) [start_x..end_x - 1] s)
       [y..y + h - 1])"

definition fb_clear :: "u32 \<Rightarrow> fb_state \<Rightarrow> fb_state option" where
  "fb_clear color s =
     (case fb_get_info s of
        None \<Rightarrow> Some s
      | Some f \<Rightarrow> fb_draw_rect 0 0 (c_int (f_width f)) (c_int (f_height f)) color s)"

definition glyph_bit :: "u8 \<Rightarrow> nat \<Rightarrow> nat \<Rightarrow> bool" where
  "glyph_bit c cy cx = bit (default_font (unat c) ! cy) (7 - cx)"

definition fb_draw_char :: "u8 \<Rightarrow> int \<Rightarrow> int \<Rightarrow> u32 \<Rightarrow> u32 \<Rightarrow> fb_state \<Rightarrow> fb_state option" where
  "fb_draw_char c x y fg bg =
     on_backbuffer (\<lambda>f. for_each (\<lambda>cy s.
       if y + int cy < 0 \<or> c_int (f_height f) \<le> y + int cy then Some s
       else for_each (\<lambda>cx s.
              if x + int cx < 0 \<or> c_int (f_width f) \<le> x + int cx then Some s
              else poke (line_offset f (y + int cy) (x + int cx)) (if glyph_bit c cy cx then fg else bg) s)
            [0..<8] s)
       [0..<16])"

text \<open>The overlapping copy is \<open>memmove\<close>, so the source is read before it is overwritten.\<close>

definition fb_copy_region :: "int \<Rightarrow> int \<Rightarrow> int \<Rightarrow> fb_state \<Rightarrow> fb_state option" where
  "fb_copy_region src_y dest_y rows =
     on_backbuffer (\<lambda>f s.
       let n = unat (word_of_int rows * (f_pitch f div 4) :: u64);
           dst = line_offset f dest_y 0;
           src = line_offset f src_y 0;
           b = the (backbuffer s)
       in if src + n \<le> length b \<and> dst + n \<le> length b
          then Some (s\<lparr>backbuffer := Some (take dst b @ take n (drop src b) @ drop (dst + n) b)\<rparr>)
          else None)"

text \<open>The index into the image and the place on the screen are 32-bit sums.\<close>

definition fb_draw_image :: "u32 list option \<Rightarrow> u32 \<Rightarrow> u32 \<Rightarrow> u32 \<Rightarrow> u32 \<Rightarrow> fb_state \<Rightarrow> fb_state option" where
  "fb_draw_image pixels width height x y s =
     (case (fb_get_info s, pixels) of
        (Some f, Some ps) \<Rightarrow>
          if f_address f = 0 then Some s
          else for_each (\<lambda>img_y. for_each (\<lambda>img_x s.
                 let i = unat (of_nat img_y * width + of_nat img_x);
                     screen_x = sint (x + of_nat img_x);
                     screen_y = sint (y + of_nat img_y)
                 in if length ps \<le> i then None
                    else if 0 \<le> screen_x \<and> screen_x < c_int (f_width f) \<and> 0 \<le> screen_y \<and> screen_y < c_int (f_height f)
                    then fb_put_pixel screen_x screen_y (ps ! i) s
                    else Some s) [0..<unat width]) [0..<unat height] s
      | _ \<Rightarrow> Some s)"

subsection \<open>Pictures\<close>

text \<open>
  What a display is for: a picture is a colour for every point of the plane, and the screen shows its
  part inside the bounds. A drawing routine is correct when it does on the screen what a picture
  transformer does on the plane.
\<close>

type_synonym picture = "int \<Rightarrow> int \<Rightarrow> u32"

definition paint_where :: "(int \<Rightarrow> int \<Rightarrow> bool) \<Rightarrow> picture \<Rightarrow> picture \<Rightarrow> picture" where
  "paint_where area color p = (\<lambda>x y. if area x y then color x y else p x y)"

definition in_rect :: "int \<Rightarrow> int \<Rightarrow> int \<Rightarrow> int \<Rightarrow> int \<Rightarrow> int \<Rightarrow> bool" where
  "in_rect x y w h px py \<longleftrightarrow> x \<le> px \<and> px < x + w \<and> y \<le> py \<and> py < y + h"

definition paint_rect :: "int \<Rightarrow> int \<Rightarrow> int \<Rightarrow> int \<Rightarrow> u32 \<Rightarrow> picture \<Rightarrow> picture" where
  "paint_rect x y w h color = paint_where (in_rect x y w h) (\<lambda>_ _. color)"

definition paint_char :: "u8 \<Rightarrow> int \<Rightarrow> int \<Rightarrow> u32 \<Rightarrow> u32 \<Rightarrow> picture \<Rightarrow> picture" where
  "paint_char c x y fg bg =
     paint_where (in_rect x y 8 16) (\<lambda>px py. if glyph_bit c (nat (py - y)) (nat (px - x)) then fg else bg)"

text \<open>A display that is set up: the sizes fit in ints, a row holds the width, the buffer holds all rows.\<close>

definition screen_ok :: "framebuffer \<Rightarrow> bool" where
  "screen_ok f \<longleftrightarrow> f_address f \<noteq> 0 \<and> f_width f < 2 ^ 31 \<and> f_height f < 2 ^ 31 \<and> f_width f \<le> f_pitch f div 4 \<and> f_pitch f < 2 ^ 32"

definition fb_ready :: "framebuffer \<Rightarrow> fb_state \<Rightarrow> bool" where
  "fb_ready f s \<longleftrightarrow> screen_ok f \<and> fb_tag s = Some f \<and>
     (\<exists>b. backbuffer s = Some b \<and> length b = unat (f_height f) * unat (f_pitch f div 4))"

definition visible :: "framebuffer \<Rightarrow> int \<Rightarrow> int \<Rightarrow> bool" where
  "visible f x y \<longleftrightarrow> 0 \<le> x \<and> x < uint (f_width f) \<and> 0 \<le> y \<and> y < uint (f_height f)"

definition displays :: "framebuffer \<Rightarrow> fb_state \<Rightarrow> picture \<Rightarrow> bool" where
  "displays f s p \<longleftrightarrow> fb_ready f s \<and>
     (\<forall>x y. visible f x y \<longrightarrow> the (backbuffer s) ! nat (y * uint (f_pitch f div 4) + x) = p x y)"

definition draws :: "framebuffer \<Rightarrow> (fb_state \<Rightarrow> fb_state option) \<Rightarrow> (picture \<Rightarrow> picture) \<Rightarrow> bool" where
  "draws f op paint_op \<longleftrightarrow> (\<forall>s p. displays f s p \<longrightarrow> (\<exists>s'. op s = Some s' \<and> displays f s' (paint_op p)))"


subsection \<open>The drawing routines draw\<close>

lemma sint_nonneg: "uint (w :: u32) < 2 ^ 31 \<Longrightarrow> sint w = uint w"
proof -
  assume "uint w < 2 ^ 31"
  moreover have "- (2 ^ 31) \<le> uint w" by (rule order_trans [OF _ unsigned_greater_eq]) simp
  ultimately show ?thesis by (simp add: sint_uint signed_take_bit_int_eq_self)
qed

lemma c_int_small: "v < 2 ^ 31 \<Longrightarrow> c_int v = uint v"
proof -
  assume "v < 2 ^ 31"
  then have u: "uint v < 2 ^ 31" by (simp add: word_less_def)
  then have "uint (ucast v :: u32) = uint v" by (simp add: unsigned_ucast_eq take_bit_int_eq_self)
  then show ?thesis using u sint_nonneg by (simp add: c_int_def)
qed

lemma screen_ints:
  assumes "screen_ok f" shows "c_int (f_width f) = uint (f_width f)" "c_int (f_height f) = uint (f_height f)"
  using assms by (simp_all add: screen_ok_def c_int_small)

definition stride :: "framebuffer \<Rightarrow> int" where "stride f = uint (f_pitch f div 4)"

lemma line_offset_visible:
  assumes "screen_ok f" "visible f x y"
  shows "line_offset f y x = nat (y * stride f + x)" "nat (y * stride f + x) < unat (f_height f) * unat (f_pitch f div 4)"
    "0 \<le> y * stride f + x"
proof -
  let ?s = "stride f"
  have s: "uint (f_width f) \<le> ?s" "?s < 2 ^ 32"
  proof -
    show "uint (f_width f) \<le> ?s" using assms(1) by (simp add: screen_ok_def stride_def word_le_def)
    have "uint (f_pitch f) < 2 ^ 32" using assms(1) by (simp add: screen_ok_def word_less_def)
    then show "?s < 2 ^ 32" by (simp add: stride_def uint_div)
  qed
  have h: "uint (f_height f) < 2 ^ 31" using assms(1) by (simp add: screen_ok_def word_less_def)
  have v: "0 \<le> x" "x < ?s" "0 \<le> y" "y + 1 \<le> uint (f_height f)" using assms(2) s(1) unfolding visible_def by linarith+
  have "(y + 1) * ?s \<le> uint (f_height f) * ?s" using v by (intro mult_right_mono) linarith+
  then have lt: "y * ?s + x < uint (f_height f) * ?s" using v(2) unfolding distrib_right by linarith
  also have "\<dots> \<le> 2 ^ 31 * 2 ^ 32"
  proof (rule mult_mono)
    show "uint (f_height f) \<le> 2 ^ 31" "?s \<le> 2 ^ 32" using h s(2) by linarith+
    show "0 \<le> ?s" using v(1,2) by linarith
  qed simp
  finally have b: "y * ?s + x < 2 ^ 64" by simp
  show nn: "0 \<le> y * ?s + x" using v by simp
  have "word_of_int y * (f_pitch f div 4) + word_of_int x = (word_of_int (y * ?s + x) :: u64)"
    unfolding of_int_add of_int_mult stride_def word_of_int_uint ..
  then have "line_offset f y x = nat (uint (word_of_int (y * ?s + x) :: u64))"
    by (simp only: line_offset_def unat_eq_nat_uint)
  then show "line_offset f y x = nat (y * ?s + x)"
    using b nn by (simp only: uint_word_of_int take_bit_int_eq_self) (simp add: take_bit_int_eq_self)
  have "nat (uint (f_height f) * ?s) = unat (f_height f) * unat (f_pitch f div 4)"
    unfolding stride_def by (subst nat_mult_distrib) simp_all
  then show "nat (y * ?s + x) < unat (f_height f) * unat (f_pitch f div 4)" using lt nn by linarith
qed

lemma same_place:
  assumes "visible f x y" "visible f x' y'" "screen_ok f" "y * stride f + x = y' * stride f + x'"
  shows "x = x' \<and> y = y'"
proof -
  have s: "uint (f_width f) \<le> stride f" using assms(3) by (simp add: screen_ok_def stride_def word_le_def)
  then have "0 \<le> x" "x < stride f" "0 \<le> x'" "x' < stride f" using assms(1,2) by (auto simp: visible_def)
  then have "(y * stride f + x) div stride f = y" "(y' * stride f + x') div stride f = y'" by auto
  then show ?thesis using assms(4) by simp
qed

lemma draws_poke:
  assumes "screen_ok f" "visible f x y"
  shows "draws f (poke (line_offset f y x) c) (paint_where (\<lambda>px py. px = x \<and> py = y) (\<lambda>_ _. c))"
  unfolding draws_def
proof (intro allI impI)
  fix s p assume d: "displays f s p"
  then obtain b where b: "backbuffer s = Some b" "length b = unat (f_height f) * unat (f_pitch f div 4)" "fb_tag s = Some f"
    by (auto simp: displays_def fb_ready_def)
  note L = line_offset_visible [OF assms]
  let ?i = "nat (y * stride f + x)" and ?s = "s\<lparr>backbuffer := Some (b[nat (y * stride f + x) := c])\<rparr>"
  have "poke (line_offset f y x) c s = Some ?s" using L b by (simp add: poke_def)
  moreover have "displays f ?s (paint_where (\<lambda>px py. px = x \<and> py = y) (\<lambda>_ _. c) p)"
    unfolding displays_def
  proof (intro conjI allI impI)
    show "fb_ready f ?s" using b assms(1) by (simp add: fb_ready_def)
    fix px py assume v: "visible f px py"
    note M = line_offset_visible [OF assms(1) v]
    have "?i = nat (py * stride f + px) \<longleftrightarrow> px = x \<and> py = y"
      using same_place [OF assms(2) v assms(1)] eq_nat_nat_iff [OF L(3) M(3)] by blast
    moreover have "b ! nat (py * stride f + px) = p px py" using d v b by (simp add: displays_def stride_def)
    ultimately show "the (backbuffer ?s) ! nat (py * uint (f_pitch f div 4) + px)
        = paint_where (\<lambda>px py. px = x \<and> py = y) (\<lambda>_ _. c) p px py"
      using L(2) b by (simp add: paint_where_def nth_list_update flip: stride_def)
  qed
  ultimately show "\<exists>s'. poke (line_offset f y x) c s = Some s' \<and> displays f s' (paint_where (\<lambda>px py. px = x \<and> py = y) (\<lambda>_ _. c) p)"
    by blast
qed

lemma draws_nothing: "draws f Some id"
  by (simp add: draws_def)

lemma draws_on_backbuffer: "draws f (op f) g \<Longrightarrow> draws f (on_backbuffer op) g"
  by (auto simp: draws_def on_backbuffer_def displays_def fb_ready_def fb_get_info_def)

lemma draws_for_each: "(\<And>x. x \<in> set xs \<Longrightarrow> draws f (F x) (G x)) \<Longrightarrow> draws f (for_each F xs) (fold G xs)"
  unfolding draws_def using for_each_simulates [where R = "displays f" and f = F and g = G] by blast

lemma draws_screen: "(screen_ok f \<Longrightarrow> draws f op g) \<Longrightarrow> draws f op g"
  by (auto simp: draws_def displays_def fb_ready_def)

text \<open>What is painted outside the screen does not matter.\<close>

lemma draws_clip:
  assumes "draws f op (paint_where P c)" "\<And>x y. visible f x y \<Longrightarrow> P x y = Q x y" "\<And>x y. visible f x y \<Longrightarrow> P x y \<Longrightarrow> c x y = d x y"
  shows "draws f op (paint_where Q d)"
  using assms unfolding draws_def displays_def paint_where_def by metis

lemma fold_paint: "fold (\<lambda>i. paint_where (P i) c) xs = paint_where (\<lambda>x y. \<exists>i\<in>set xs. P i x y) c"
  by (induction xs) (auto simp: paint_where_def fun_eq_iff)

lemma draws_parts:
  "(\<And>x. x \<in> set xs \<Longrightarrow> draws f (F x) (paint_where (P x) c)) \<Longrightarrow> draws f (for_each F xs) (paint_where (\<lambda>x y. \<exists>i\<in>set xs. P i x y) c)"
  using draws_for_each [of xs f F "\<lambda>i. paint_where (P i) c"] by (simp add: fold_paint)

lemma draws_none: "draws f Some (paint_where (\<lambda>_ _. False) c)"
  by (simp add: draws_def paint_where_def)

lemma draws_put_pixel: "draws f (fb_put_pixel x y color) (paint_where (\<lambda>px py. px = x \<and> py = y) (\<lambda>_ _. color))"
proof (rule draws_screen)
  assume ok: "screen_ok f"
  show ?thesis unfolding fb_put_pixel_def
  proof (rule draws_on_backbuffer, cases "visible f x y")
    case True
    then have "0 \<le> x \<and> x < c_int (f_width f) \<and> 0 \<le> y \<and> y < c_int (f_height f)"
      by (simp add: visible_def screen_ints [OF ok])
    then show "draws f (\<lambda>s. if 0 \<le> x \<and> x < c_int (f_width f) \<and> 0 \<le> y \<and> y < c_int (f_height f)
        then poke (line_offset f y x) color s else Some s) (paint_where (\<lambda>px py. px = x \<and> py = y) (\<lambda>_ _. color))"
      using draws_poke [OF ok True] by simp
  next
    case False
    then have "\<not> (0 \<le> x \<and> x < c_int (f_width f) \<and> 0 \<le> y \<and> y < c_int (f_height f))"
      by (simp add: visible_def screen_ints [OF ok])
    moreover have "draws f Some (paint_where (\<lambda>px py. px = x \<and> py = y) (\<lambda>_ _. color))"
      by (rule draws_clip [OF draws_none]) (use False in auto)
    ultimately show "draws f (\<lambda>s. if 0 \<le> x \<and> x < c_int (f_width f) \<and> 0 \<le> y \<and> y < c_int (f_height f)
        then poke (line_offset f y x) color s else Some s) (paint_where (\<lambda>px py. px = x \<and> py = y) (\<lambda>_ _. color))"
      by (simp only: if_False)
  qed
qed

lemma draws_rect: "draws f (fb_draw_rect x y w h color) (paint_rect x y w h color)"
proof (rule draws_screen)
  assume ok: "screen_ok f"
  let ?W = "uint (f_width f)" and ?H = "uint (f_height f)"
  let ?xs = "[(if x < 0 then 0 else x)..(if x + w > ?W then ?W else x + w) - 1]"
  let ?row = "\<lambda>cy px py. visible f px cy \<and> x \<le> px \<and> px < x + w \<and> py = cy"
  show ?thesis unfolding fb_draw_rect_def
  proof (rule draws_on_backbuffer, unfold screen_ints [OF ok] Let_def)
    have row: "draws f (\<lambda>s. if cy < 0 \<or> ?H \<le> cy then Some s
        else for_each (\<lambda>cx. poke (line_offset f cy cx) color) ?xs s) (paint_where (?row cy) (\<lambda>_ _. color))" for cy
    proof (cases "cy < 0 \<or> ?H \<le> cy")
      case True
      then have "draws f Some (paint_where (?row cy) (\<lambda>_ _. color))" by (intro draws_clip [OF draws_none]) (auto simp: visible_def)
      then show ?thesis using True by simp
    next
      case False
      have "draws f (for_each (\<lambda>cx. poke (line_offset f cy cx) color) ?xs)
          (paint_where (\<lambda>px py. \<exists>cx\<in>set ?xs. px = cx \<and> py = cy) (\<lambda>_ _. color))"
        by (rule draws_parts, rule draws_poke [OF ok]) (use False in \<open>auto simp: visible_def split: if_splits\<close>)
      then have "draws f (for_each (\<lambda>cx. poke (line_offset f cy cx) color) ?xs) (paint_where (?row cy) (\<lambda>_ _. color))"
        by (rule draws_clip) (use False in \<open>auto simp: visible_def\<close>)
      then show ?thesis using False by simp
    qed
    have "draws f (for_each (\<lambda>cy s. if cy < 0 \<or> ?H \<le> cy then Some s
        else for_each (\<lambda>cx. poke (line_offset f cy cx) color) ?xs s) [y..y + h - 1])
        (paint_where (\<lambda>px py. \<exists>cy\<in>set [y..y + h - 1]. ?row cy px py) (\<lambda>_ _. color))"
      by (rule draws_parts, rule row)
    then show "draws f (for_each (\<lambda>cy s. if cy < 0 \<or> ?H \<le> cy then Some s
        else for_each (\<lambda>cx. poke (line_offset f cy cx) color) ?xs s) [y..y + h - 1]) (paint_rect x y w h color)"
      unfolding paint_rect_def by (rule draws_clip) (auto simp: in_rect_def)
  qed
qed

lemma draws_clear: "draws f (fb_clear color) (\<lambda>_ _ _. color)"
proof (rule draws_screen)
  assume ok: "screen_ok f"
  have "draws f (fb_draw_rect 0 0 (c_int (f_width f)) (c_int (f_height f)) color) (paint_where (\<lambda>_ _. True) (\<lambda>_ _. color))"
    using draws_rect [of f 0 0 "c_int (f_width f)" "c_int (f_height f)" color]
    unfolding paint_rect_def by (rule draws_clip) (auto simp: in_rect_def visible_def screen_ints [OF ok])
  then show ?thesis
    by (auto simp: draws_def fb_clear_def displays_def fb_ready_def fb_get_info_def paint_where_def)
qed

lemma draws_char: "draws f (fb_draw_char c x y fg bg) (paint_char c x y fg bg)"
proof (rule draws_screen)
  assume ok: "screen_ok f"
  let ?W = "uint (f_width f)" and ?H = "uint (f_height f)"
  let ?ink = "\<lambda>px py. if glyph_bit c (nat (py - y)) (nat (px - x)) then fg else bg"
  let ?cell = "\<lambda>cy cx px py. visible f px py \<and> px = x + int cx \<and> py = y + int cy"
  show ?thesis unfolding fb_draw_char_def
  proof (rule draws_on_backbuffer, unfold screen_ints [OF ok])
    have cell: "draws f (\<lambda>s. if x + int cx < 0 \<or> ?W \<le> x + int cx then Some s
        else poke (line_offset f (y + int cy) (x + int cx)) (if glyph_bit c cy cx then fg else bg) s)
        (paint_where (?cell cy cx) ?ink)" if "0 \<le> y + int cy" "y + int cy < ?H" for cy cx
    proof (cases "x + int cx < 0 \<or> ?W \<le> x + int cx")
      case True
      then have "draws f Some (paint_where (?cell cy cx) ?ink)" by (intro draws_clip [OF draws_none]) (auto simp: visible_def)
      then show ?thesis using True by simp
    next
      case False
      then have v: "visible f (x + int cx) (y + int cy)" using that by (simp add: visible_def)
      have "draws f (poke (line_offset f (y + int cy) (x + int cx)) (if glyph_bit c cy cx then fg else bg)) (paint_where (?cell cy cx) ?ink)"
        by (rule draws_clip [OF draws_poke [OF ok v]]) auto
      then show ?thesis using False by simp
    qed
    have line: "draws f (\<lambda>s. if y + int cy < 0 \<or> ?H \<le> y + int cy then Some s
        else for_each (\<lambda>cx s. if x + int cx < 0 \<or> ?W \<le> x + int cx then Some s
          else poke (line_offset f (y + int cy) (x + int cx)) (if glyph_bit c cy cx then fg else bg) s) [0..<8] s)
        (paint_where (\<lambda>px py. \<exists>cx\<in>set [0..<8]. ?cell cy cx px py) ?ink)" for cy
    proof (cases "y + int cy < 0 \<or> ?H \<le> y + int cy")
      case True
      then have "draws f Some (paint_where (\<lambda>px py. \<exists>cx\<in>set [0..<8]. ?cell cy cx px py) ?ink)"
        by (intro draws_clip [OF draws_none]) (auto simp: visible_def)
      then show ?thesis using True by simp
    next
      case False
      then have "draws f (for_each (\<lambda>cx s. if x + int cx < 0 \<or> ?W \<le> x + int cx then Some s
          else poke (line_offset f (y + int cy) (x + int cx)) (if glyph_bit c cy cx then fg else bg) s) [0..<8])
        (paint_where (\<lambda>px py. \<exists>cx\<in>set [0..<8]. ?cell cy cx px py) ?ink)"
        by (intro draws_parts cell) auto
      then show ?thesis using False by simp
    qed
    have "draws f (for_each (\<lambda>cy s. if y + int cy < 0 \<or> ?H \<le> y + int cy then Some s
        else for_each (\<lambda>cx s. if x + int cx < 0 \<or> ?W \<le> x + int cx then Some s
          else poke (line_offset f (y + int cy) (x + int cx)) (if glyph_bit c cy cx then fg else bg) s) [0..<8] s) [0..<16])
        (paint_where (\<lambda>px py. \<exists>cy\<in>set [0..<16]. \<exists>cx\<in>set [0..<8]. ?cell cy cx px py) ?ink)"
      by (rule draws_parts, rule line)
    moreover have "(\<exists>cy\<in>set [0..<16]. \<exists>cx\<in>set [0..<8]. ?cell cy cx px py) \<longleftrightarrow> in_rect x y 8 16 px py" if "visible f px py" for px py
    proof
      assume "in_rect x y 8 16 px py"
      then have "nat (py - y) \<in> set [0..<16]" "nat (px - x) \<in> set [0..<8]" "?cell (nat (py - y)) (nat (px - x)) px py"
        using that by (auto simp: in_rect_def)
      then show "\<exists>cy\<in>set [0..<16]. \<exists>cx\<in>set [0..<8]. ?cell cy cx px py" by blast
    qed (auto simp: in_rect_def)
    ultimately show "draws f (for_each (\<lambda>cy s. if y + int cy < 0 \<or> ?H \<le> y + int cy then Some s
        else for_each (\<lambda>cx s. if x + int cx < 0 \<or> ?W \<le> x + int cx then Some s
          else poke (line_offset f (y + int cy) (x + int cx)) (if glyph_bit c cy cx then fg else bg) s) [0..<8] s) [0..<16])
        (paint_char c x y fg bg)"
      unfolding paint_char_def by (rule draws_clip) auto
  qed
qed

text \<open>The place of a row, and the rows a copy moves.\<close>

lemma row_offset:
  assumes "screen_ok f" "0 \<le> y" "y \<le> uint (f_height f)"
  shows "line_offset f y 0 = nat y * unat (f_pitch f div 4)"
    "unat (word_of_int y * (f_pitch f div 4) :: u64) = nat y * unat (f_pitch f div 4)"
proof -
  let ?s = "unat (f_pitch f div 4)"
  have p: "unat (f_pitch f) < 2 ^ 32" using assms(1) by (simp add: screen_ok_def word_less_nat_alt)
  have "?s \<le> unat (f_pitch f)" by (simp add: unat_div)
  then have s: "?s < 2 ^ 32" using p by linarith
  have "uint (f_height f) < 2 ^ 31" using assms(1) by (simp add: screen_ok_def word_less_def)
  then have y: "y < 2 ^ 31" using assms(3) by linarith
  have "nat y * ?s \<le> 2 ^ 31 * 2 ^ 32" by (rule mult_le_mono) (use s y in \<open>simp_all add: nat_le_iff\<close>)
  then have b: "nat y * ?s < 2 ^ 64" by simp
  have "uint (word_of_int y :: u64) = y" unfolding uint_word_of_int by (rule mod_pos_pos_trivial) (use assms(2) y in simp_all)
  then have "unat (word_of_int y :: u64) = nat y" by (simp only: unat_eq_nat_uint)
  then show *: "unat (word_of_int y * (f_pitch f div 4) :: u64) = nat y * ?s"
    using b unat_mult_lem [of "word_of_int y" "f_pitch f div 4"] by simp
  then show "line_offset f y 0 = nat y * ?s" by (simp add: line_offset_def)
qed

lemma splice_nth:
  assumes "d + n \<le> length b" "r + n \<le> length b" "i < length b"
  shows "(take d b @ take n (drop r b) @ drop (d + n) b) ! i = (if d \<le> i \<and> i < d + n then b ! (r + (i - d)) else b ! i)"
proof -
  have l: "length (take d b) = d" "length (take n (drop r b)) = n" using assms by simp_all
  consider "i < d" | "d \<le> i" "i < d + n" | "d + n \<le> i" by linarith
  then show ?thesis
  proof cases
    case 1
    then show ?thesis using l(1) by (simp add: nth_append)
  next
    case 2
    then have "i - d < n" "\<not> i < d" by linarith+
    then show ?thesis using l assms 2 by (simp only: nth_append if_True if_False) simp
  next
    case 3
    then have "\<not> i - d < n" "\<not> i < d" by simp_all
    then show ?thesis using l assms 3 by (simp only: nth_append if_False) simp
  qed
qed

lemma row_less: "j < w \<Longrightarrow> k * w + j < m * w \<longleftrightarrow> k < (m :: nat)"
proof
  assume "j < w" "k < m"
  then have "(k + 1) * w \<le> m * w" by (intro mult_le_mono1) simp
  then show "k * w + j < m * w" using \<open>j < w\<close> by simp
next
  assume "k * w + j < m * w"
  then have "k * w < m * w" by (rule le_less_trans [OF le_add1])
  then show "k < m" by (rule mult_less_cancel2 [THEN iffD1, THEN conjunct2])
qed

lemma pixel_index:
  assumes "screen_ok f" "visible f x y"
  shows "nat (y * uint (f_pitch f div 4) + x) = nat y * unat (f_pitch f div 4) + nat x" "nat x < unat (f_pitch f div 4)"
proof -
  have v: "0 \<le> x" "0 \<le> y" "x < uint (f_width f)" using assms(2) by (simp_all add: visible_def)
  have "0 \<le> y * uint (f_pitch f div 4)" using v(2) by simp
  then have "nat (y * uint (f_pitch f div 4) + x) = nat (y * uint (f_pitch f div 4)) + nat x" using v(1) by (rule nat_add_distrib)
  also have "nat (y * uint (f_pitch f div 4)) = nat y * nat (uint (f_pitch f div 4))" using v(2) by (rule nat_mult_distrib)
  finally show "nat (y * uint (f_pitch f div 4) + x) = nat y * unat (f_pitch f div 4) + nat x" by (simp only: unat_eq_nat_uint)
  have "uint (f_width f) \<le> uint (f_pitch f div 4)" using assms(1) unfolding screen_ok_def word_le_def by simp
  then have "x < uint (f_pitch f div 4)" using v(3) by linarith
  then show "nat x < unat (f_pitch f div 4)" using v(1) unfolding unat_eq_nat_uint by linarith
qed

lemma copy_rows:
  fixes b :: "'a list"
  assumes "length b = h * w" "j < w" "k < h" "s + r \<le> h" "d + r \<le> h"
  shows "(take (d * w) b @ take (r * w) (drop (s * w) b) @ drop (d * w + r * w) b) ! (k * w + j) =
    (if d \<le> k \<and> k < d + r then b ! ((k - d + s) * w + j) else b ! (k * w + j))"
proof -
  have "(s + r) * w \<le> h * w" "(d + r) * w \<le> h * w" by (rule mult_le_mono1, rule assms)+
  then have l: "s * w + r * w \<le> length b" "d * w + r * w \<le> length b" unfolding assms(1) add_mult_distrib .
  have "k * w + j < length b" using row_less [OF assms(2), of k h] assms(3) unfolding assms(1) by simp
  note N = splice_nth [OF l(2,1) this]
  have c: "(d * w \<le> k * w + j \<and> k * w + j < d * w + r * w) = (d \<le> k \<and> k < d + r)"
    using row_less [OF assms(2), of k d] row_less [OF assms(2), of k "d + r"] unfolding add_mult_distrib not_less [symmetric] by blast
  have shift: "s * w + (k * w + j - d * w) = (k - d + s) * w + j" if dk: "d \<le> k"
  proof -
    obtain e where e: "k = d + e" using le_Suc_ex [OF dk] by blast
    have "k * w + j - d * w = e * w + j" unfolding e add_mult_distrib add.assoc by (rule diff_add_inverse)
    then show ?thesis unfolding e by (simp add: add_mult_distrib)
  qed
  show ?thesis
  proof (cases "d \<le> k \<and> k < d + r")
    case True
    then show ?thesis using shift by (simp only: N c simp_thms if_True)
  next
    case False
    then show ?thesis by (simp only: N c if_False)
  qed
qed

lemma copy_region_result:
  assumes "screen_ok f" "fb_tag st = Some f" "backbuffer st = Some b" "length b = unat (f_height f) * unat (f_pitch f div 4)"
    "s + r \<le> unat (f_height f)" "d + r \<le> unat (f_height f)"
  defines "w \<equiv> unat (f_pitch f div 4)"
  shows "fb_copy_region (int s) (int d) (int r) st =
    Some (st\<lparr>backbuffer := Some (take (d * w) b @ take (r * w) (drop (s * w) b) @ drop (d * w + r * w) b)\<rparr>)"
proof -
  have le: "int k \<le> uint (f_height f)" if "k \<le> unat (f_height f)" for k
    using that by (simp only: uint_nat of_nat_le_iff)
  have o: "line_offset f (int k) 0 = k * w" "unat (word_of_nat k * (f_pitch f div 4) :: u64) = k * w" if "k \<le> unat (f_height f)" for k
    using row_offset [OF assms(1) _ le [OF that]] unfolding w_def by simp_all
  have k: "s \<le> unat (f_height f)" "r \<le> unat (f_height f)" "d \<le> unat (f_height f)" using assms(5,6) by simp_all
  have "(s + r) * w \<le> length b" "(d + r) * w \<le> length b"
    unfolding assms(4) w_def [symmetric] using assms(5,6) by (simp_all only: mult_le_mono1)
  then have "s * w + r * w \<le> length b" "d * w + r * w \<le> length b" unfolding add_mult_distrib .
  then show ?thesis unfolding fb_copy_region_def on_backbuffer_def fb_get_info_def Let_def
    using assms(2,3) by (simp add: o [OF k(1)] o [OF k(2)] o [OF k(3)])
qed

lemma copy_region_draws:
  assumes "s + r \<le> unat (f_height f)" "d + r \<le> unat (f_height f)"
  shows "draws f (fb_copy_region (int s) (int d) (int r))
    (\<lambda>p. paint_where (\<lambda>_ y. int d \<le> y \<and> y < int d + int r) (\<lambda>x y. p x (y - int d + int s)) p)"
  unfolding draws_def
proof (intro allI impI)
  fix st p assume D: "displays f st p"
  then obtain b where ok: "screen_ok f" and b: "fb_tag st = Some f" "backbuffer st = Some b"
    "length b = unat (f_height f) * unat (f_pitch f div 4)" by (auto simp: displays_def fb_ready_def)
  let ?w = "unat (f_pitch f div 4)" and ?h = "unat (f_height f)"
  let ?b = "take (d * ?w) b @ take (r * ?w) (drop (s * ?w) b) @ drop (d * ?w + r * ?w) b"
  let ?p = "paint_where (\<lambda>_ y. int d \<le> y \<and> y < int d + int r) (\<lambda>x y. p x (y - int d + int s)) p"
  note R = copy_region_result [OF ok b assms]
  have "(s + r) * ?w \<le> ?h * ?w" "(d + r) * ?w \<le> ?h * ?w" using assms by (simp_all only: mult_le_mono1)
  then have "length ?b = length b" unfolding b(3) add_mult_distrib using b(3) by simp
  then have ready: "fb_ready f (st\<lparr>backbuffer := Some ?b\<rparr>)" using ok b by (simp add: fb_ready_def)
  have at: "b ! (k * ?w + j) = p (int j) (int k)" if "visible f (int j) (int k)" for j k
  proof -
    have "the (backbuffer st) ! nat (int k * uint (f_pitch f div 4) + int j) = p (int j) (int k)"
      using D that unfolding displays_def by blast
    then show ?thesis using pixel_index(1) [OF ok that] b(2) by (simp only: option.sel nat_int)
  qed
  have "?b ! (k * ?w + j) = ?p (int j) (int k)" if v: "visible f (int j) (int k)" for j k
  proof -
    have k: "k < ?h" using v unfolding visible_def unat_eq_nat_uint by linarith
    have j: "j < ?w" using pixel_index(2) [OF ok v] by simp
    have "visible f (int j) (int (k - d + s))" if "d \<le> k" "k < d + r"
      using v that assms(1) unfolding visible_def unat_eq_nat_uint by linarith
    then have "b ! ((k - d + s) * ?w + j) = p (int j) (int k - int d + int s)" if "d \<le> k" "k < d + r"
      using that at [of j "k - d + s"] by (simp add: algebra_simps)
    then show ?thesis using copy_rows [OF b(3) j k assms] at [OF v] by (simp add: paint_where_def)
  qed
  moreover have "nat (y * uint (f_pitch f div 4) + x) = nat y * ?w + nat x \<and> int (nat x) = x \<and> int (nat y) = y" if "visible f x y" for x y
    using pixel_index(1) [OF ok that] that unfolding visible_def by simp
  ultimately have "displays f (st\<lparr>backbuffer := Some ?b\<rparr>) ?p"
    using ready unfolding displays_def by simp
  then show "\<exists>s'. fb_copy_region (int s) (int d) (int r) st = Some s' \<and> displays f s' ?p" using R by blast
qed

lemma draws_image:
  assumes "unat width * unat height \<le> length ps" "unat width * unat height < 2 ^ 32"
  shows "draws f (fb_draw_image (Some ps) width height x y)
    (\<lambda>p. fold (\<lambda>iy. fold (\<lambda>ix. paint_where (\<lambda>px py. px = sint (x + of_nat ix) \<and> py = sint (y + of_nat iy))
            (\<lambda>_ _. ps ! (iy * unat width + ix))) [0..<unat width]) [0..<unat height] p)"
proof (rule draws_screen)
  assume ok: "screen_ok f"
  let ?w = "unat width" and ?h = "unat height"
  let ?dot = "\<lambda>iy ix. paint_where (\<lambda>px py. px = sint (x + of_nat ix) \<and> py = sint (y + of_nat iy)) (\<lambda>_ _. ps ! (iy * ?w + ix))"
  let ?body = "\<lambda>img_y img_x s. let i = unat (of_nat img_y * width + of_nat img_x);
        screen_x = sint (x + of_nat img_x); screen_y = sint (y + of_nat img_y)
    in if length ps \<le> i then None
       else if 0 \<le> screen_x \<and> screen_x < c_int (f_width f) \<and> 0 \<le> screen_y \<and> screen_y < c_int (f_height f)
       then fb_put_pixel screen_x screen_y (ps ! i) s else Some s"
  have body: "draws f (?body iy ix) (?dot iy ix)" if i: "iy < ?h" "ix < ?w" for iy ix
  proof -
    have lt: "iy * ?w + ix < ?h * ?w" using row_less [OF i(2)] i(1) by blast
    then have "iy * ?w + ix < 2 ^ 32" "iy * ?w + ix < length ps" using assms by (simp_all add: mult.commute)
    have "of_nat iy * width + of_nat ix = (of_nat (iy * ?w + ix) :: u32)" by simp
    then have u: "unat (of_nat iy * width + of_nat ix) = iy * ?w + ix"
      using \<open>iy * ?w + ix < 2 ^ 32\<close> by (simp only: unat_of_nat) simp
    let ?in = "visible f (sint (x + of_nat ix)) (sint (y + of_nat iy))"
    have v: "?in \<longleftrightarrow> 0 \<le> sint (x + of_nat ix) \<and> sint (x + of_nat ix) < c_int (f_width f) \<and> 0 \<le> sint (y + of_nat iy) \<and> sint (y + of_nat iy) < c_int (f_height f)"
      by (simp add: visible_def screen_ints [OF ok])
    have "draws f (\<lambda>s. if ?in then fb_put_pixel (sint (x + of_nat ix)) (sint (y + of_nat iy)) (ps ! (iy * ?w + ix)) s else Some s) (?dot iy ix)"
    proof (cases ?in)
      case True
      then show ?thesis using draws_put_pixel by simp
    next
      case False
      then have "draws f Some (?dot iy ix)" by (intro draws_clip [OF draws_none]) auto
      then show ?thesis using False by simp
    qed
    then show ?thesis using \<open>iy * ?w + ix < length ps\<close> unfolding v by (simp add: Let_def u)
  qed
  have "draws f (for_each (\<lambda>iy. for_each (?body iy) [0..<?w]) [0..<?h]) (fold (\<lambda>iy. fold (?dot iy) [0..<?w]) [0..<?h])"
    by (intro draws_for_each body) auto
  then show ?thesis
    unfolding draws_def fb_draw_image_def
    by (auto simp: displays_def fb_ready_def fb_get_info_def screen_ok_def)
qed

subsection \<open>The log on the screen\<close>

text \<open>The calls of log.c with the colours they pass; 32-bit arguments become ints.\<close>

definition FB_DEFAULT_FG_COLOR :: u32 where "FB_DEFAULT_FG_COLOR = 0xFFFFFFFF"
definition FB_DEFAULT_BG_COLOR :: u32 where "FB_DEFAULT_BG_COLOR = 0xFF00004A"

fun run_fb_call :: "fb_call \<Rightarrow> fb_state \<Rightarrow> fb_state option" where
  "run_fb_call (Fb_draw_char c x y) = fb_draw_char (of_char c) (sint x) (sint y) FB_DEFAULT_FG_COLOR FB_DEFAULT_BG_COLOR"
| "run_fb_call (Fb_copy_region src dst rows) = fb_copy_region (sint src) (sint dst) (sint rows)"
| "run_fb_call (Fb_draw_rect x y w h) = fb_draw_rect (sint x) (sint y) (sint w) (sint h) FB_DEFAULT_BG_COLOR"
| "run_fb_call Fb_clear = fb_clear FB_DEFAULT_BG_COLOR"

fun paint_call :: "fb_call \<Rightarrow> picture \<Rightarrow> picture" where
  "paint_call (Fb_draw_char c x y) = paint_char (of_char c) (sint x) (sint y) FB_DEFAULT_FG_COLOR FB_DEFAULT_BG_COLOR"
| "paint_call (Fb_copy_region src dst rows) =
     (\<lambda>p. paint_where (\<lambda>_ y. sint dst \<le> y \<and> y < sint dst + sint rows) (\<lambda>x y. p x (y - sint dst + sint src)) p)"
| "paint_call (Fb_draw_rect x y w h) = paint_rect (sint x) (sint y) (sint w) (sint h) FB_DEFAULT_BG_COLOR"
| "paint_call Fb_clear = (\<lambda>_ _ _. FB_DEFAULT_BG_COLOR)"

lemma sint_small: "unat (v :: u32) < 2 ^ 31 \<Longrightarrow> sint v = int (unat v)"
proof -
  assume "unat v < 2 ^ 31"
  then have "int (unat v) < int (2 ^ 31)" by (simp only: of_nat_less_iff)
  then show ?thesis using sint_nonneg [of v] by (simp add: uint_nat [symmetric])
qed

lemma draws_call:
  assumes "draws_inside fb c" "unat (fb_height fb) = unat (f_height f)"
  shows "draws f (run_fb_call c) (paint_call c)"
proof (cases c)
  case (Fb_copy_region src dst rows)
  have in_h: "unat src + unat rows \<le> unat (f_height f)" "unat dst + unat rows \<le> unat (f_height f)"
    using assms Fb_copy_region by simp_all
  show ?thesis
  proof (rule draws_screen)
    assume "screen_ok f"
    then have "unat (f_height f) < 2 ^ 31" by (simp add: screen_ok_def word_less_nat_alt)
    then have "sint src = int (unat src)" "sint dst = int (unat dst)" "sint rows = int (unat rows)"
      using in_h by (intro sint_small; linarith)+
    then show ?thesis using copy_region_draws [OF in_h] Fb_copy_region by simp
  qed
qed (simp_all add: draws_char draws_rect draws_clear)


definition fb_demo :: framebuffer where
  "fb_demo = \<lparr>f_address = 0x1000, f_width = 80, f_height = 32, f_pitch = 320, f_bpp = 32\<rparr>"

definition blank_screen :: fb_state where
  "blank_screen = \<lparr>fb_tag = Some fb_demo, backbuffer = Some (replicate 2560 0), fb_mem = replicate 2560 0\<rparr>"

lemma blank_displays: "displays fb_demo blank_screen (\<lambda>_ _. 0)"
proof -
  have ok: "screen_ok fb_demo" by (simp add: screen_ok_def fb_demo_def)
  have s: "unat (f_height fb_demo) * unat (f_pitch fb_demo div 4) = 2560" by (simp add: fb_demo_def)
  then have "fb_ready fb_demo blank_screen" using ok by (simp add: fb_ready_def blank_screen_def)
  moreover have "replicate 2560 (0 :: u32) ! nat (y * uint (f_pitch fb_demo div 4) + x) = 0" if "visible fb_demo x y" for x y
    using line_offset_visible(2) [OF ok that] unfolding s stride_def by (rule nth_replicate)
  ultimately show ?thesis by (simp add: displays_def blank_screen_def)
qed


end
