(* ===== verification/Gui.thy ===== *)
theory Gui
  imports Framebuffer Ps2
begin

section \<open>Windows and the mouse cursor (src/kernel/gui.c)\<close>

text \<open>The window list, the drawing of one window, and the redraw of the whole screen.\<close>

record window =
  w_x :: int
  w_y :: int
  w_width :: int
  w_height :: int
  w_title :: string

definition MAX_WINDOWS :: nat where "MAX_WINDOWS = 10"

definition cursor_bitmap :: "nat list list" where
  "cursor_bitmap =
    [[1, 1, 0, 0, 0, 0, 0, 0, 0, 0, 0],
     [1, 2, 1, 0, 0, 0, 0, 0, 0, 0, 0],
     [1, 2, 2, 1, 0, 0, 0, 0, 0, 0, 0],
     [1, 2, 2, 2, 1, 0, 0, 0, 0, 0, 0],
     [1, 2, 2, 2, 2, 1, 0, 0, 0, 0, 0],
     [1, 2, 2, 2, 2, 2, 1, 0, 0, 0, 0],
     [1, 2, 2, 2, 1, 1, 1, 0, 0, 0, 0],
     [1, 2, 2, 1, 0, 0, 0, 0, 0, 0, 0],
     [1, 2, 1, 0, 0, 0, 0, 0, 0, 0, 0],
     [1, 1, 0, 0, 0, 0, 0, 0, 0, 0, 0],
     [0, 0, 0, 0, 0, 0, 0, 0, 0, 0, 0]]"

definition CURSOR_COLOR_1 :: u32 where "CURSOR_COLOR_1 = 0xFF000000"
definition CURSOR_COLOR_2 :: u32 where "CURSOR_COLOR_2 = 0xFFFFFFFF"

definition gui_init :: "window list \<Rightarrow> window list" where
  "gui_init ws = []"

definition gui_create_window :: "string \<Rightarrow> int \<Rightarrow> int \<Rightarrow> int \<Rightarrow> int \<Rightarrow> window list \<Rightarrow> window list" where
  "gui_create_window title x y width height ws =
     (if length ws < MAX_WINDOWS
      then ws @ [\<lparr>w_x = x, w_y = y, w_width = width, w_height = height, w_title = title\<rparr>] else ws)"

definition gui_draw_rect :: "int \<Rightarrow> int \<Rightarrow> int \<Rightarrow> int \<Rightarrow> u32 \<Rightarrow> fb_state \<Rightarrow> fb_state option" where
  "gui_draw_rect x y width height color =
     for_each (\<lambda>i. for_each (\<lambda>j. fb_put_pixel (x + i) (y + j) color) [0..height - 1]) [0..width - 1]"

text \<open>The title ends at its terminator; the drawing steps run one after the other.\<close>

definition draw_title :: "string \<Rightarrow> int \<Rightarrow> int \<Rightarrow> fb_state \<Rightarrow> fb_state option" where
  "draw_title title x y =
     for_each (\<lambda>i. fb_draw_char (of_char (title ! i)) (x + 5 + int i * 8) (y + 4) 0xFFFFFFFF 0xFF000080)
       [0..<length (cstr title)]"

fun in_order :: "(fb_state \<Rightarrow> fb_state option) list \<Rightarrow> fb_state \<Rightarrow> fb_state option" where
  "in_order [] s = Some s"
| "in_order (op # ops) s = do { s' \<leftarrow> op s; in_order ops s' }"

definition gui_draw_window :: "window \<Rightarrow> fb_state \<Rightarrow> fb_state option" where
  "gui_draw_window wd =
     (let x = w_x wd; y = w_y wd; width = w_width wd; height = w_height wd
      in in_order
       [gui_draw_rect x y width height 0xFFC0C0C0,
        gui_draw_rect x y width 20 0xFF000080,
        gui_draw_rect x y width 1 0xFFFFFFFF,
        gui_draw_rect x (y + height - 1) width 1 0xFF808080,
        gui_draw_rect x y 1 height 0xFFFFFFFF,
        gui_draw_rect (x + width - 1) y 1 height 0xFF808080,
        draw_title (w_title wd) x y])"

definition gui_draw_cursor :: "mouse \<Rightarrow> fb_state \<Rightarrow> fb_state option" where
  "gui_draw_cursor m =
     (let (mx, my) = mouse_get_position m
      in for_each (\<lambda>y. for_each (\<lambda>x s.
           if cursor_bitmap ! y ! x = 1 then fb_put_pixel (mx + int x) (my + int y) CURSOR_COLOR_1 s
           else if cursor_bitmap ! y ! x = 2 then fb_put_pixel (mx + int x) (my + int y) CURSOR_COLOR_2 s
           else Some s) [0..<11]) [0..<11])"

definition gui_update :: "window list \<Rightarrow> mouse \<Rightarrow> fb_state \<Rightarrow> fb_state option" where
  "gui_update ws m s = do {
     s1 \<leftarrow> fb_clear 0xFF303080 s;
     s2 \<leftarrow> for_each gui_draw_window ws s1;
     gui_draw_cursor m s2 }"

subsection \<open>The desktop as a picture\<close>

definition paint_title :: "string \<Rightarrow> int \<Rightarrow> int \<Rightarrow> picture \<Rightarrow> picture" where
  "paint_title title x y =
     fold (\<lambda>i. paint_char (of_char (title ! i)) (x + 5 + int i * 8) (y + 4) 0xFFFFFFFF 0xFF000080) [0..<length (cstr title)]"

text \<open>A window from the frame inwards: the last stroke drawn wins.\<close>

definition window_color :: "window \<Rightarrow> int \<Rightarrow> int \<Rightarrow> u32" where
  "window_color wd px py =
     (if px = w_x wd + w_width wd - 1 then 0xFF808080
      else if px = w_x wd then 0xFFFFFFFF
      else if py = w_y wd + w_height wd - 1 then 0xFF808080
      else if py = w_y wd then 0xFFFFFFFF
      else if py < w_y wd + 20 then 0xFF000080
      else 0xFFC0C0C0)"

definition paint_window :: "window \<Rightarrow> picture \<Rightarrow> picture" where
  "paint_window wd p = paint_title (w_title wd) (w_x wd) (w_y wd)
     (paint_where (in_rect (w_x wd) (w_y wd) (w_width wd) (w_height wd)) (window_color wd) p)"

definition cursor_at :: "int \<Rightarrow> int \<Rightarrow> nat" where
  "cursor_at x y = (if in_rect 0 0 11 11 x y then cursor_bitmap ! nat y ! nat x else 0)"

definition paint_cursor :: "int \<Rightarrow> int \<Rightarrow> picture \<Rightarrow> picture" where
  "paint_cursor mx my =
     paint_where (\<lambda>px py. cursor_at (px - mx) (py - my) \<noteq> 0)
       (\<lambda>px py. if cursor_at (px - mx) (py - my) = 1 then CURSOR_COLOR_1 else CURSOR_COLOR_2)"

definition desktop :: "window list \<Rightarrow> mouse \<Rightarrow> picture" where
  "desktop ws m = paint_cursor (mouse_x m) (mouse_y m) (fold paint_window ws (\<lambda>_ _. 0xFF303080))"

lemma draws_gui_rect: "draws f (gui_draw_rect x y w h color) (paint_rect x y w h color)"
proof -
  have "draws f (gui_draw_rect x y w h color)
      (paint_where (\<lambda>px py. \<exists>i\<in>set [0..w - 1]. \<exists>j\<in>set [0..h - 1]. px = x + i \<and> py = y + j) (\<lambda>_ _. color))"
    unfolding gui_draw_rect_def by (intro draws_parts draws_put_pixel)
  moreover have "(\<exists>i\<in>set [0..w - 1]. \<exists>j\<in>set [0..h - 1]. px = x + i \<and> py = y + j) \<longleftrightarrow> in_rect x y w h px py" for px py
  proof
    assume "in_rect x y w h px py"
    then have "px - x \<in> set [0..w - 1]" "py - y \<in> set [0..h - 1]" "px = x + (px - x)" "py = y + (py - y)" by (auto simp: in_rect_def)
    then show "\<exists>i\<in>set [0..w - 1]. \<exists>j\<in>set [0..h - 1]. px = x + i \<and> py = y + j" by blast
  qed (auto simp: in_rect_def)
  ultimately show ?thesis by (simp add: paint_rect_def)
qed

lemma draws_title: "draws f (draw_title t x y) (paint_title t x y)"
  unfolding draw_title_def paint_title_def by (intro draws_for_each draws_char)

lemma draws_steps:
  "draws f (in_order []) id"
  "draws f op g \<Longrightarrow> draws f (in_order ops) h \<Longrightarrow> draws f (in_order (op # ops)) (h \<circ> g)"
  by (force simp: draws_def)+

definition window_ok :: "window \<Rightarrow> bool" where
  "window_ok wd \<longleftrightarrow> 1 \<le> w_width wd \<and> 20 \<le> w_height wd"

lemma draws_window:
  assumes "window_ok wd" shows "draws f (gui_draw_window wd) (paint_window wd)"
proof -
  let ?x = "w_x wd" and ?y = "w_y wd" and ?w = "w_width wd" and ?h = "w_height wd"
  let ?frame = "paint_rect (?x + ?w - 1) ?y 1 ?h 0xFF808080 \<circ> (paint_rect ?x ?y 1 ?h 0xFFFFFFFF \<circ> (paint_rect ?x (?y + ?h - 1) ?w 1 0xFF808080 \<circ>
    (paint_rect ?x ?y ?w 1 0xFFFFFFFF \<circ> (paint_rect ?x ?y ?w 20 0xFF000080 \<circ> paint_rect ?x ?y ?w ?h 0xFFC0C0C0))))"
  have "?frame p = paint_where (in_rect ?x ?y ?w ?h) (window_color wd) p" for p
    using assms by (auto simp: fun_eq_iff window_ok_def paint_rect_def paint_where_def in_rect_def window_color_def)
  moreover have "draws f (gui_draw_window wd) (paint_title (w_title wd) ?x ?y \<circ> ?frame)"
    using draws_steps(2) [OF draws_gui_rect draws_steps(2) [OF draws_gui_rect draws_steps(2) [OF draws_gui_rect
      draws_steps(2) [OF draws_gui_rect draws_steps(2) [OF draws_gui_rect draws_steps(2) [OF draws_gui_rect
      draws_steps(2) [OF draws_title draws_steps(1)]]]]]]]
    by (simp add: gui_draw_window_def Let_def comp_assoc)
  moreover have "paint_title (w_title wd) ?x ?y \<circ> ?frame = paint_window wd"
  proof
    fix p
    show "(paint_title (w_title wd) ?x ?y \<circ> ?frame) p = paint_window wd p"
      unfolding paint_window_def calculation(1) [of p, symmetric] by (simp only: comp_apply)
  qed
  ultimately show ?thesis by metis
qed

lemma draws_cursor: "draws f (gui_draw_cursor m) (paint_cursor (mouse_x m) (mouse_y m))"
proof -
  let ?mx = "mouse_x m" and ?my = "mouse_y m"
  let ?ink = "\<lambda>px py. if cursor_at (px - ?mx) (py - ?my) = 1 then CURSOR_COLOR_1 else CURSOR_COLOR_2"
  let ?dot = "\<lambda>y x px py. cursor_bitmap ! y ! x \<noteq> 0 \<and> px = ?mx + int x \<and> py = ?my + int y"
  have bits: "\<forall>y\<in>set [0..<11]. \<forall>x\<in>set [0..<11]. cursor_bitmap ! y ! x \<in> {0, 1, 2}"
    by (simp add: cursor_bitmap_def upt_conv_Cons)
  have dot: "draws f (\<lambda>s. if cursor_bitmap ! y ! x = 1 then fb_put_pixel (?mx + int x) (?my + int y) CURSOR_COLOR_1 s
      else if cursor_bitmap ! y ! x = 2 then fb_put_pixel (?mx + int x) (?my + int y) CURSOR_COLOR_2 s else Some s)
      (paint_where (?dot y x) ?ink)" if yx: "y \<in> set [0..<11]" "x \<in> set [0..<11]" for y x
  proof -
    have at: "cursor_at (int x) (int y) = cursor_bitmap ! y ! x" using yx by (auto simp: cursor_at_def in_rect_def)
    consider "cursor_bitmap ! y ! x = 0" | "cursor_bitmap ! y ! x = 1" | "cursor_bitmap ! y ! x = 2" 
      using bits [THEN bspec, OF yx(1), THEN bspec, OF yx(2)] by auto
    then show ?thesis
    proof cases
      case 1
      then show ?thesis using draws_clip [OF draws_none [of f ?ink], of "?dot y x" ?ink] by simp
    next
      case 2
      have "draws f (fb_put_pixel (?mx + int x) (?my + int y) CURSOR_COLOR_1) (paint_where (?dot y x) ?ink)"
        by (rule draws_clip [OF draws_put_pixel]) (auto simp: 2 at)
      then show ?thesis using 2 by simp
    next
      case 3
      have "draws f (fb_put_pixel (?mx + int x) (?my + int y) CURSOR_COLOR_2) (paint_where (?dot y x) ?ink)"
        by (rule draws_clip [OF draws_put_pixel]) (auto simp: 3 at)
      then show ?thesis using 3 by simp
    qed
  qed
  have "draws f (gui_draw_cursor m) (paint_where (\<lambda>px py. \<exists>y\<in>set [0..<11]. \<exists>x\<in>set [0..<11]. ?dot y x px py) ?ink)"
    unfolding gui_draw_cursor_def mouse_get_position_def by (simp only: Let_def prod.case) (intro draws_parts dot)
  moreover have "(\<exists>y\<in>set [0..<11]. \<exists>x\<in>set [0..<11]. ?dot y x px py) \<longleftrightarrow> cursor_at (px - ?mx) (py - ?my) \<noteq> 0" for px py
  proof
    assume "cursor_at (px - ?mx) (py - ?my) \<noteq> 0"
    then have "nat (py - ?my) \<in> set [0..<11]" "nat (px - ?mx) \<in> set [0..<11]" "?dot (nat (py - ?my)) (nat (px - ?mx)) px py"
      by (auto simp: cursor_at_def in_rect_def split: if_splits)
    then show "\<exists>y\<in>set [0..<11]. \<exists>x\<in>set [0..<11]. ?dot y x px py" by blast
  qed (auto simp: cursor_at_def in_rect_def)
  ultimately show ?thesis by (simp add: paint_cursor_def)
qed

text \<open>C33: Redrawing the screen shows the desktop: over the background colour the windows in the order they were
  created, each with its frame and title bar and its title, and on top of them the cursor at the position of
  the mouse, all cut off at the edges of the screen. Nothing is drawn outside the backbuffer.\<close>

theorem gui_update_shows_desktop:
  assumes "displays f s p" "\<forall>wd\<in>set ws. window_ok wd"
  shows "\<exists>s'. gui_update ws m s = Some s' \<and> displays f s' (desktop ws m)"
proof -
  obtain s1 where s1: "fb_clear 0xFF303080 s = Some s1" "displays f s1 (\<lambda>_ _. 0xFF303080)"
    using draws_clear assms(1) unfolding draws_def by blast
  have "draws f (for_each gui_draw_window ws) (fold paint_window ws)"
    using assms(2) by (intro draws_for_each draws_window) blast
  then obtain s2 where s2: "for_each gui_draw_window ws s1 = Some s2" "displays f s2 (fold paint_window ws (\<lambda>_ _. 0xFF303080))"
    using s1(2) unfolding draws_def by blast
  obtain s3 where "gui_draw_cursor m s2 = Some s3" "displays f s3 (desktop ws m)"
    using draws_cursor s2(2) unfolding draws_def desktop_def by blast
  then show ?thesis using s1(1) s2(1) by (simp add: gui_update_def)
qed

theorem gui_update_shows_desktop_witness:
  "\<exists>s'. gui_update (gui_create_window ''A'' 2 3 40 25 []) mouse_boot blank_screen = Some s'
     \<and> displays fb_demo s' (desktop (gui_create_window ''A'' 2 3 40 25 []) mouse_boot)"
  by (rule gui_update_shows_desktop [OF blank_displays]) (simp add: gui_create_window_def MAX_WINDOWS_def window_ok_def)

end
