(* ===== verification/Interrupts.thy ===== *)
theory Interrupts
  imports Kyro_Prelude
begin

section \<open>Descriptor tables and interrupts (gdt.c, tss.c, idt.c, isr.c)\<close>

text \<open>
  The tables the processor reads and the interrupt dispatcher. Descriptors are the words and bytes the
  code stores; what they mean is read back with the field positions of the processor's manual
  (\<open>descriptor_base\<close> and its companions, \<open>gate_offset\<close>). Loading a table into the processor is the record of
  its address and size. Writes to ports are a trace. A panic is \<open>None\<close>.
\<close>

subsection \<open>Global descriptor table\<close>

definition GDT_ENTRIES :: nat where "GDT_ENTRIES = 7"
definition KERNEL_CODE_SELECTOR :: u16 where "KERNEL_CODE_SELECTOR = 0x08"
definition KERNEL_DATA_SELECTOR :: u16 where "KERNEL_DATA_SELECTOR = 0x10"
definition USER_CODE_SELECTOR :: u16 where "USER_CODE_SELECTOR = 0x18"
definition USER_DATA_SELECTOR :: u16 where "USER_DATA_SELECTOR = 0x20"
definition TSS_SELECTOR :: u16 where "TSS_SELECTOR = 0x28"

definition gdt_entry :: "u32 \<Rightarrow> u32 \<Rightarrow> u8 \<Rightarrow> u8 \<Rightarrow> u64" where
  "gdt_entry base limit access gran =
     ucast (limit AND 0xFFFF) OR push_bit 16 (ucast base AND 0xFFFFFF) OR push_bit 40 (ucast access)
       OR push_bit 48 (ucast (drop_bit 16 limit) AND 0x0F) OR push_bit 48 (ucast (gran AND 0xF0))
       OR push_bit 56 (ucast (drop_bit 24 base) AND 0xFF)"

definition gdt_set_entry :: "nat \<Rightarrow> u32 \<Rightarrow> u32 \<Rightarrow> u8 \<Rightarrow> u8 \<Rightarrow> u64 list \<Rightarrow> u64 list" where
  "gdt_set_entry i base limit access gran gdt = gdt[i := gdt_entry base limit access gran]"

text \<open>The fields of the 16-byte system descriptor, packed into the two words it overlays.\<close>

definition tss_words :: "u64 \<Rightarrow> u32 \<Rightarrow> u64 \<times> u64" where
  "tss_words base limit =
     (ucast (ucast (limit AND 0xFFFF) :: u16) OR push_bit 16 (ucast (ucast (base AND 0xFFFF) :: u16))
        OR push_bit 32 (ucast (ucast (drop_bit 16 base AND 0xFF) :: u8)) OR push_bit 40 0x89
        OR push_bit 48 (ucast (ucast (drop_bit 16 limit AND 0x0F) :: u8))
        OR push_bit 56 (ucast (ucast (drop_bit 24 base AND 0xFF) :: u8)),
      ucast (ucast (drop_bit 32 base) :: u32))"

definition TSS_SIZE :: u32 where "TSS_SIZE = 104"

definition gdt_set_tss :: "u64 \<Rightarrow> u64 list \<Rightarrow> u64 list" where
  "gdt_set_tss base gdt = (let (lo, hi) = tss_words base TSS_SIZE in gdt[5 := lo, 6 := hi])"

definition gdt_init :: "u64 list \<Rightarrow> u64 list" where
  "gdt_init gdt =
     gdt_set_entry 4 0 0xFFFFFFFF 0xF2 0x80 (gdt_set_entry 3 0 0xFFFFFFFF 0xFA 0xA0
       (gdt_set_entry 2 0 0xFFFFFFFF 0x92 0x80 (gdt_set_entry 1 0 0xFFFFFFFF 0x9A 0xA0 (gdt_set_entry 0 0 0 0 0 gdt))))"

definition gdt_limit :: nat where "gdt_limit = 8 * GDT_ENTRIES - 1"

subsection \<open>Task state segment\<close>

record tss =
  rsp0 :: u64
  rsp1 :: u64
  rsp2 :: u64
  ist1 :: u64
  iomap_base :: u16

definition tss_zero :: tss where "tss_zero = \<lparr>rsp0 = 0, rsp1 = 0, rsp2 = 0, ist1 = 0, iomap_base = 0\<rparr>"

definition KERNEL_TSS_STACK_SIZE :: u64 where "KERNEL_TSS_STACK_SIZE = 8192"

definition tss_init :: "u64 \<Rightarrow> u64 \<Rightarrow> u64 list \<Rightarrow> tss \<times> u64 list" where
  "tss_init tss_entry tss_stack gdt =
     (tss_zero\<lparr>rsp0 := tss_stack + KERNEL_TSS_STACK_SIZE\<rparr>, gdt_set_tss tss_entry gdt)"

definition tss_set_stack :: "u64 \<Rightarrow> tss \<Rightarrow> tss" where
  "tss_set_stack stack t = t\<lparr>rsp0 := stack\<rparr>"

subsection \<open>Interrupt descriptor table\<close>

record idt_entry =
  base_low :: u16
  selector :: u16
  ist :: u8
  gate_flags :: u8
  base_mid :: u16
  base_high :: u32
  gate_reserved :: u32

definition idt_gate :: "u64 \<Rightarrow> u16 \<Rightarrow> u8 \<Rightarrow> idt_entry" where
  "idt_gate base sel flags =
     \<lparr>base_low = ucast (base AND 0xFFFF), selector = sel, ist = 0, gate_flags = flags,
      base_mid = ucast (drop_bit 16 base AND 0xFFFF), base_high = ucast (drop_bit 32 base AND 0xFFFFFFFF), gate_reserved = 0\<rparr>"

definition idt_set_gate :: "nat \<Rightarrow> u64 \<Rightarrow> u16 \<Rightarrow> u8 \<Rightarrow> idt_entry list \<Rightarrow> idt_entry list" where
  "idt_set_gate num base sel flags idt = idt[num := idt_gate base sel flags]"

definition KERNEL_GATE_FLAGS :: u8 where "KERNEL_GATE_FLAGS = 0x8E"
definition USER_GATE_FLAGS :: u8 where "USER_GATE_FLAGS = 0xEE"

definition pic_remap :: "(u16 \<times> u8) list" where
  "pic_remap = [(0x20, 0x11), (0xA0, 0x11), (0x21, 0x20), (0xA1, 0x28), (0x21, 0x04), (0xA1, 0x02), (0x21, 0x01),
     (0xA1, 0x01), (0x21, 0), (0xA1, 0)]"

text \<open>
  \<open>stub v\<close> is the address of the assembly entry of vector \<open>v\<close>: \<open>isr0\<close> to \<open>isr31\<close>, \<open>irq0\<close> to \<open>irq15\<close> from
  vector 32, and \<open>isr128\<close>. The result is the table and the writes to the interrupt controllers.
\<close>

definition idt_init :: "(nat \<Rightarrow> u64) \<Rightarrow> idt_entry list \<Rightarrow> idt_entry list \<times> (u16 \<times> u8) list" where
  "idt_init stub idt =
     (let cleared = fold (\<lambda>i. idt_set_gate i 0 0 0) [0..<256] idt;
          exceptions = fold (\<lambda>v. idt_set_gate v (stub v) KERNEL_CODE_SELECTOR KERNEL_GATE_FLAGS) [0..<32] cleared;
          irqs = fold (\<lambda>v. idt_set_gate v (stub v) KERNEL_CODE_SELECTOR KERNEL_GATE_FLAGS) [32..<48] exceptions
      in (idt_set_gate 128 (stub 128) KERNEL_CODE_SELECTOR USER_GATE_FLAGS irqs, pic_remap))"

subsection \<open>Dispatch\<close>

text \<open>\<open>'m\<close> is the rest of the machine: what the handlers, the system calls and the scheduler act on.\<close>

type_synonym 'm routine = "'m \<Rightarrow> 'm option"

record 'm isr_state =
  ticks :: u64
  irq_handlers :: "'m routine option list"
  port_writes :: "(u16 \<times> u8) list"
  rest :: 'm

definition timer_get_ticks :: "'m isr_state \<Rightarrow> u64" where
  "timer_get_ticks s = ticks s"

definition port_out :: "u16 \<Rightarrow> u8 \<Rightarrow> 'm isr_state \<Rightarrow> 'm isr_state" where
  "port_out p v s = s\<lparr>port_writes := port_writes s @ [(p, v)]\<rparr>"

text \<open>The division by a zero frequency traps.\<close>

definition timer_init :: "u32 \<Rightarrow> 'm isr_state \<Rightarrow> 'm isr_state option" where
  "timer_init frequency s =
     (if frequency = 0 then None
      else let divisor = 1193180 div frequency
           in Some (port_out 0x40 (ucast (drop_bit 8 divisor AND 0xFF)) (port_out 0x40 (ucast (divisor AND 0xFF)) (port_out 0x43 0x36 s))))"

definition register_irq_handler :: "nat \<Rightarrow> 'm routine \<Rightarrow> 'm isr_state \<Rightarrow> 'm isr_state" where
  "register_irq_handler irq handler s =
     (if irq < 16 then s\<lparr>irq_handlers := (irq_handlers s)[irq := Some handler]\<rparr> else s)"

definition run_routine :: "'m routine \<Rightarrow> 'm isr_state \<Rightarrow> 'm isr_state option" where
  "run_routine f s = do { r \<leftarrow> f (rest s); Some (s\<lparr>rest := r\<rparr>) }"

definition isr_handler :: "'m routine \<Rightarrow> 'm routine \<Rightarrow> nat \<Rightarrow> 'm isr_state \<Rightarrow> 'm isr_state option" where
  "isr_handler schedule syscall_handler int_no s =
     (if int_no < 32 then None
      else if int_no \<le> 47
      then let irq_num = int_no - 32;
               s1 = (if irq_num = 0 then s\<lparr>ticks := ticks s + 1\<rparr> else s)
           in do {
             s2 \<leftarrow> (case irq_handlers s1 ! irq_num of None \<Rightarrow> Some s1 | Some h \<Rightarrow> run_routine h s1);
             let s3 = (if 8 \<le> irq_num then port_out 0xA0 0x20 s2 else s2);
                 s4 = port_out 0x20 0x20 s3
             in if irq_num = 0 then run_routine schedule s4 else Some s4 }
      else if int_no = 128 then run_routine syscall_handler s
      else Some s)"

subsection \<open>What the descriptors say\<close>

definition descriptor_base :: "u64 \<Rightarrow> u32" where
  "descriptor_base d = ucast (drop_bit 16 d AND 0xFFFFFF) OR push_bit 24 (ucast (drop_bit 56 d AND 0xFF))"

definition descriptor_limit :: "u64 \<Rightarrow> u32" where
  "descriptor_limit d = ucast (d AND 0xFFFF) OR push_bit 16 (ucast (drop_bit 48 d AND 0x0F))"

definition descriptor_access :: "u64 \<Rightarrow> u8" where
  "descriptor_access d = ucast (drop_bit 40 d AND 0xFF)"

definition descriptor_flags :: "u64 \<Rightarrow> u8" where
  "descriptor_flags d = ucast (drop_bit 52 d AND 0x0F)"

text \<open>Numerals as masks, so that the bits of a packed word can be read off.\<close>

lemma mask_words:
  "(0xFFFF :: u32) = mask 16" "(0xFFFFFF :: u64) = mask 24" "(0xFF :: u64) = mask 8" "(0x0F :: u64) = mask 4"
  "(0xFFFF :: u64) = mask 16" "(0xFFFFFFFF :: u64) = mask 32" "(0xF0 :: u8) = push_bit 4 (mask 4)" "(0xFFFFF :: u32) = mask 20"
  by (simp_all add: mask_eq_exp_minus_1)

lemma bit_high: "\<not> n < 32 \<Longrightarrow> \<not> bit (v :: u32) n" "\<not> n < 8 \<Longrightarrow> \<not> bit (b :: u8) n" "\<not> n < 16 \<Longrightarrow> \<not> bit (h :: u16) n" "\<not> n < 64 \<Longrightarrow> \<not> bit (d :: u64) n"
  by (auto dest: bit_imp_le_length)

lemma bit_gdt_entry:
  "bit (gdt_entry base limit access gran) n \<longleftrightarrow>
     (if n < 16 then bit limit n else if n < 40 then bit base (n - 16) else if n < 48 then bit access (n - 40)
      else if n < 52 then bit limit (n - 32) else if n < 56 then bit gran (n - 48) else n < 64 \<and> bit base (n - 32))"
  unfolding gdt_entry_def mask_words
  by (auto simp: bit_simps bit_high not_less)

lemma gdt_entry_fields:
  "descriptor_base (gdt_entry base limit access gran) = base"
  "descriptor_limit (gdt_entry base limit access gran) = limit AND 0xFFFFF"
  "descriptor_access (gdt_entry base limit access gran) = access"
  "descriptor_flags (gdt_entry base limit access gran) = drop_bit 4 gran"
proof -
  show "descriptor_base (gdt_entry base limit access gran) = base"
    by (rule bit_word_eqI) (unfold descriptor_base_def mask_words, auto simp: bit_simps bit_gdt_entry bit_high)
  show "descriptor_limit (gdt_entry base limit access gran) = limit AND 0xFFFFF"
    by (rule bit_word_eqI) (unfold descriptor_limit_def mask_words, auto simp: bit_simps bit_gdt_entry bit_high)
  show "descriptor_access (gdt_entry base limit access gran) = access"
    by (rule bit_word_eqI) (unfold descriptor_access_def mask_words, auto simp: bit_simps bit_gdt_entry bit_high)
  show "descriptor_flags (gdt_entry base limit access gran) = drop_bit 4 gran"
    by (rule bit_word_eqI) (unfold descriptor_flags_def mask_words, auto simp: bit_simps bit_gdt_entry bit_high)
qed

definition gate_offset :: "idt_entry \<Rightarrow> u64" where
  "gate_offset g = ucast (base_low g) OR push_bit 16 (ucast (base_mid g)) OR push_bit 32 (ucast (base_high g))"

lemma gate_offset_gate: "gate_offset (idt_gate base sel flags) = base"
proof (rule bit_word_eqI)
  fix n assume "n < LENGTH(64)"
  then have "n < 64" by simp
  then show "bit (gate_offset (idt_gate base sel flags)) n = bit base n"
    unfolding gate_offset_def idt_gate_def mask_words by (cases "n < 32") (auto simp: bit_simps bit_high)
qed

text \<open>The address the system descriptor of the task state segment holds, and its limit.\<close>

definition tss_base :: "u64 \<times> u64 \<Rightarrow> u64" where
  "tss_base w = ucast (descriptor_base (fst w)) OR push_bit 32 (snd w)"

lemma tss_words_fields:
  "tss_base (tss_words base limit) = base" "descriptor_limit (fst (tss_words base limit)) = limit AND 0xFFFFF"
  "descriptor_access (fst (tss_words base limit)) = 0x89"
proof -
  define acc :: u64 where "acc = 0x89"
  have acc: "\<not> bit acc n" if "8 \<le> n" for n
  proof -
    obtain b :: u8 where "b = 0x89" by blast
    then have "acc = ucast b" by (simp add: acc_def)
    then show ?thesis using that by (simp only: bit_ucast_iff) (simp add: bit_high)
  qed
  have lo: "bit (fst (tss_words base limit)) n \<longleftrightarrow>
     (if n < 16 then bit limit n else if n < 40 then bit base (n - 16) else if n < 48 then bit acc (n - 40)
      else if n < 52 then bit limit (n - 32) else 56 \<le> n \<and> n < 64 \<and> bit base (n - 32))" for n
  proof -
    have m4: "(0x0F :: u32) = mask 4" by (simp add: mask_eq_exp_minus_1)
    have p1: "bit (ucast (ucast (limit AND mask 16) :: u16) :: u64) n \<longleftrightarrow> n < 16 \<and> bit limit n"
      by (auto simp: bit_simps bit_high)
    have p2: "bit (push_bit 16 (ucast (ucast (base AND mask 16) :: u16)) :: u64) n \<longleftrightarrow> 16 \<le> n \<and> n < 32 \<and> bit base (n - 16)"
      by (cases "16 \<le> n") (auto simp: bit_simps bit_high)
    have p3: "bit (push_bit 32 (ucast (ucast (drop_bit 16 base AND mask 8) :: u8)) :: u64) n \<longleftrightarrow> 32 \<le> n \<and> n < 40 \<and> bit base (n - 16)"
    proof (cases "32 \<le> n")
      case True
      then have "16 + (n - 32) = n - 16" by simp
      then show ?thesis using True by (auto simp: bit_simps bit_high)
    qed (simp add: bit_push_bit_iff)
    have p4: "bit (push_bit 40 acc) n \<longleftrightarrow> 40 \<le> n \<and> n < 48 \<and> bit acc (n - 40)"
    proof (cases "48 \<le> n")
      case True
      then show ?thesis using acc [of "n - 40"] by (auto simp: bit_simps)
    qed (auto simp: bit_simps)
    have p5: "bit (push_bit 48 (ucast (ucast (drop_bit 16 limit AND 0x0F) :: u8)) :: u64) n \<longleftrightarrow> 48 \<le> n \<and> n < 52 \<and> bit limit (n - 32)"
    proof (cases "48 \<le> n")
      case True
      then have "16 + (n - 48) = n - 32" by simp
      then show ?thesis using True unfolding m4 by (auto simp: bit_simps bit_high)
    qed (simp add: bit_push_bit_iff)
    have p6: "bit (push_bit 56 (ucast (ucast (drop_bit 24 base AND mask 8) :: u8)) :: u64) n \<longleftrightarrow> 56 \<le> n \<and> n < 64 \<and> bit base (n - 32)"
    proof (cases "56 \<le> n")
      case True
      then have "24 + (n - 56) = n - 32" by simp
      then show ?thesis using True by (auto simp: bit_simps bit_high)
    qed (simp add: bit_push_bit_iff)
    note parts = p1 p2 p3 p4 p5 p6
    show ?thesis
      unfolding tss_words_def mask_words fst_conv acc_def [symmetric] bit_or_iff parts by auto
  qed
  have hi: "bit (snd (tss_words base limit)) n \<longleftrightarrow> n < 32 \<and> bit base (n + 32)" for n
    unfolding tss_words_def snd_conv by (auto simp: bit_simps add.commute dest: bit_imp_le_length)
  show "tss_base (tss_words base limit) = base"
  proof (rule bit_word_eqI)
    fix n assume "n < LENGTH(64)"
    then show "bit (tss_base (tss_words base limit)) n = bit base n"
      unfolding tss_base_def descriptor_base_def mask_words by (cases "n < 32") (auto simp: bit_simps lo hi)
  qed
  show "descriptor_limit (fst (tss_words base limit)) = limit AND 0xFFFFF"
    by (rule bit_word_eqI) (unfold descriptor_limit_def mask_words, auto simp: bit_simps lo bit_high)
  have "descriptor_access (fst (tss_words base limit)) = ucast acc"
    by (rule bit_word_eqI) (unfold descriptor_access_def mask_words, auto simp: bit_simps lo)
  then show "descriptor_access (fst (tss_words base limit)) = 0x89" by (simp add: acc_def)
qed

subsection \<open>The tables after boot\<close>

definition ring_of :: "u8 \<Rightarrow> nat" where
  "ring_of access = unat (drop_bit 5 access AND 3)"

lemma fold_set_gates:
  assumes "distinct vs" "\<forall>v\<in>set vs. v < length idt"
  shows "length (fold (\<lambda>v. idt_set_gate v (b v) sel fl) vs idt) = length idt \<and>
    (\<forall>i<length idt. fold (\<lambda>v. idt_set_gate v (b v) sel fl) vs idt ! i = (if i \<in> set vs then idt_gate (b i) sel fl else idt ! i))"
  using assms
proof (induction vs arbitrary: idt)
  case (Cons v vs)
  then show ?case using Cons.IH [of "idt_set_gate v (b v) sel fl idt"] by (auto simp: idt_set_gate_def)
qed simp

lemma idt_init_gate:
  assumes "length idt = 256" "v < 256"
  shows "fst (idt_init stub idt) ! v =
    (if v = 128 then idt_gate (stub v) KERNEL_CODE_SELECTOR USER_GATE_FLAGS
     else if v < 48 then idt_gate (stub v) KERNEL_CODE_SELECTOR KERNEL_GATE_FLAGS else idt_gate 0 0 0)"
proof -
  define cleared where "cleared = fold (\<lambda>i. idt_set_gate i 0 0 0) [0..<256] idt"
  define exceptions where "exceptions = fold (\<lambda>v. idt_set_gate v (stub v) KERNEL_CODE_SELECTOR KERNEL_GATE_FLAGS) [0..<32] cleared"
  define irqs where "irqs = fold (\<lambda>v. idt_set_gate v (stub v) KERNEL_CODE_SELECTOR KERNEL_GATE_FLAGS) [32..<48] exceptions"
  have c: "length cleared = 256" "\<forall>i<256. cleared ! i = idt_gate 0 0 0"
    using fold_set_gates [of "[0..<256]" idt "\<lambda>_. 0" 0 0] assms(1) by (auto simp: cleared_def)
  have e: "length exceptions = 256"
    "\<forall>i<256. exceptions ! i = (if i \<in> {0..<32} then idt_gate (stub i) KERNEL_CODE_SELECTOR KERNEL_GATE_FLAGS else cleared ! i)"
    using fold_set_gates [of "[0..<32]" cleared stub KERNEL_CODE_SELECTOR KERNEL_GATE_FLAGS] c(1) unfolding exceptions_def set_upt by auto
  have i: "length irqs = 256"
    "\<forall>i<256. irqs ! i = (if i \<in> {32..<48} then idt_gate (stub i) KERNEL_CODE_SELECTOR KERNEL_GATE_FLAGS else exceptions ! i)"
    using fold_set_gates [of "[32..<48]" exceptions stub KERNEL_CODE_SELECTOR KERNEL_GATE_FLAGS] e(1) unfolding irqs_def set_upt by auto
  have "fst (idt_init stub idt) = irqs[128 := idt_gate (stub 128) KERNEL_CODE_SELECTOR USER_GATE_FLAGS]"
    by (simp add: idt_init_def Let_def idt_set_gate_def irqs_def exceptions_def cleared_def)
  then show ?thesis using assms(2) c e i by (auto simp: nth_list_update)
qed

text \<open>After \<open>idt_init\<close> exactly the vectors of the exceptions, of the sixteen interrupt lines and of the system
  call are present; each enters its own assembly stub, whose whole 64-bit address survives the split over
  three fields, in the kernel code segment; and only the system call may be raised by a user program.\<close>

lemma idt_gates_after_init:
  fixes stub :: "nat \<Rightarrow> u64"
  assumes "length idt = 256" "v < 256"
  defines "g \<equiv> fst (idt_init stub idt) ! v"
  shows "(bit (gate_flags g) 7 \<longleftrightarrow> v < 48 \<or> v = 128)
     \<and> (v < 48 \<or> v = 128 \<longrightarrow> gate_offset g = stub v \<and> selector g = KERNEL_CODE_SELECTOR)
     \<and> (bit (gate_flags g) 7 \<and> ring_of (gate_flags g) = 3 \<longleftrightarrow> v = 128)"
proof -
  have b: "bit KERNEL_GATE_FLAGS 7" "bit USER_GATE_FLAGS 7" "\<not> bit (0 :: u8) 7" "ring_of KERNEL_GATE_FLAGS = 0" "ring_of USER_GATE_FLAGS = 3"
    by (simp_all add: KERNEL_GATE_FLAGS_def USER_GATE_FLAGS_def ring_of_def)
  show ?thesis unfolding g_def idt_init_gate [OF assms(1,2)]
    using b gate_offset_gate by (auto simp: idt_gate_def)
qed

lemma idt_gates_after_init_witness:
  "let g = fst (idt_init (\<lambda>v. 0xFFFFFFFF80001000 + of_nat v) (replicate 256 (idt_gate 0 0 0))) ! 33
   in gate_offset g = 0xFFFFFFFF80001021 \<and> selector g = KERNEL_CODE_SELECTOR"
  using idt_gates_after_init [of "replicate 256 (idt_gate 0 0 0)" 33 "\<lambda>v. 0xFFFFFFFF80001000 + of_nat v"] by (simp add: Let_def)



text \<open>The selectors that \<open>thread_create_userspace\<close> puts on the stack name ring-3 code and data segments.\<close>

definition selected :: "u64 list \<Rightarrow> u16 \<Rightarrow> u64" where
  "selected gdt sel = gdt ! (unat sel div 8)"

lemma user_selectors:
  assumes "length gdt = GDT_ENTRIES"
  shows "descriptor_access (selected (gdt_init gdt) 0x1B) = 0xFA" "ring_of (descriptor_access (selected (gdt_init gdt) 0x1B)) = 3"
    "descriptor_access (selected (gdt_init gdt) 0x23) = 0xF2" "ring_of (descriptor_access (selected (gdt_init gdt) 0x23)) = 3"
    "descriptor_flags (selected (gdt_init gdt) 0x1B) = 0xA" "descriptor_flags (selected (gdt_init gdt) 0x23) = 0x8"
  using assms by (simp_all add: selected_def gdt_init_def gdt_set_entry_def GDT_ENTRIES_def gdt_entry_fields ring_of_def nth_list_update)

text \<open>The segment table after \<open>gdt_init\<close> and \<open>tss_init\<close>: the task descriptor in slots 5 and 6 gives back the
  full 64-bit address of the task state segment and is an available 64-bit TSS, the four code and data
  descriptors cover 4 GiB in 4 KiB units, and their rings are those their selectors are used with; setting
  the task descriptor leaves them in place.\<close>

lemma gdt_after_boot:
  fixes tss stack :: u64
  assumes "length gdt = GDT_ENTRIES"
  defines "g \<equiv> snd (tss_init tss stack (gdt_init gdt))"
  shows "tss_base (g ! 5, g ! 6) = tss \<and> descriptor_access (g ! 5) = 0x89 \<and> descriptor_limit (g ! 5) = TSS_SIZE
     \<and> (\<forall>sel\<in>{KERNEL_CODE_SELECTOR, KERNEL_DATA_SELECTOR, USER_CODE_SELECTOR, USER_DATA_SELECTOR}.
          descriptor_base (selected g sel) = 0 \<and> descriptor_limit (selected g sel) = 0xFFFFF \<and> bit (descriptor_flags (selected g sel)) 3)
     \<and> map (\<lambda>sel. ring_of (descriptor_access (selected g sel))) [KERNEL_CODE_SELECTOR, KERNEL_DATA_SELECTOR, USER_CODE_SELECTOR, USER_DATA_SELECTOR]
         = [0, 0, 3, 3]"
proof -
  note T = tss_words_fields [of tss TSS_SIZE]
  have g: "g ! 5 = fst (tss_words tss TSS_SIZE)" "g ! 6 = snd (tss_words tss TSS_SIZE)"
    using assms(1) by (simp_all add: g_def tss_init_def gdt_set_tss_def split_beta gdt_init_def gdt_set_entry_def GDT_ENTRIES_def nth_list_update)
  have lim: "TSS_SIZE AND 0xFFFFF = TSS_SIZE" by (simp add: TSS_SIZE_def)
  have d: "selected g KERNEL_CODE_SELECTOR = gdt_entry 0 0xFFFFFFFF 0x9A 0xA0" "selected g KERNEL_DATA_SELECTOR = gdt_entry 0 0xFFFFFFFF 0x92 0x80"
    "selected g USER_CODE_SELECTOR = gdt_entry 0 0xFFFFFFFF 0xFA 0xA0" "selected g USER_DATA_SELECTOR = gdt_entry 0 0xFFFFFFFF 0xF2 0x80"
    using assms(1) by (simp_all add: selected_def g_def tss_init_def gdt_set_tss_def split_beta gdt_init_def gdt_set_entry_def GDT_ENTRIES_def nth_list_update
        KERNEL_CODE_SELECTOR_def KERNEL_DATA_SELECTOR_def USER_CODE_SELECTOR_def USER_DATA_SELECTOR_def)
  have "tss_base (g ! 5, g ! 6) = tss" "descriptor_access (g ! 5) = 0x89" "descriptor_limit (g ! 5) = TSS_SIZE"
    using T lim by (simp_all add: g)
  moreover have "(0xFFFFFFFF :: u32) AND 0xFFFFF = 0xFFFFF" by simp
  moreover have "bit (drop_bit 4 (0xA0 :: u8)) 3" "bit (drop_bit 4 (0x80 :: u8)) 3" by simp_all
  ultimately show ?thesis by (simp add: d gdt_entry_fields ring_of_def)
qed

lemma gdt_after_boot_witness:
  "tss_base (snd (tss_init 0xFFFFFFFF80201040 0x9000 (gdt_init (replicate 7 0))) ! 5, snd (tss_init 0xFFFFFFFF80201040 0x9000 (gdt_init (replicate 7 0))) ! 6)
     = 0xFFFFFFFF80201040"
  using gdt_after_boot [where gdt = "replicate 7 0" and tss = "0xFFFFFFFF80201040" and stack = "0x9000"] by (simp add: GDT_ENTRIES_def)

subsection \<open>Port access of user programs\<close>

text \<open>
  What the processor's manual says of the I/O permission map: the map starts at \<open>iomap_base\<close> in the task state
  segment; a program whose privilege does not suffice may access the byte port \<open>p\<close> when the bit of the port is
  clear, provided that the byte of its bit and the byte after it lie inside the segment.
\<close>

definition port_allowed :: "(nat \<Rightarrow> u8) \<Rightarrow> nat \<Rightarrow> nat \<Rightarrow> nat \<Rightarrow> bool" where
  "port_allowed bytes iomap limit p \<longleftrightarrow> iomap + p div 8 + 1 \<le> limit \<and> \<not> bit (bytes (iomap + p div 8)) (p mod 8)"

text \<open>The bytes of the segment: the ring-0 stack pointer is the only field that is not zero.\<close>

definition tss_bytes :: "tss \<Rightarrow> nat \<Rightarrow> u8" where
  "tss_bytes t i = (if 4 \<le> i \<and> i < 12 then ucast (drop_bit (8 * (i - 4)) (rsp0 t)) else 0)"

lemma user_may_use_keyboard_port:
  assumes "(t, g) = tss_init entry stack gdt"
  shows "port_allowed (tss_bytes (tss_set_stack sp t)) (unat (iomap_base (tss_set_stack sp t))) (unat TSS_SIZE) 0x60"
    "port_allowed (tss_bytes (tss_set_stack sp t)) (unat (iomap_base (tss_set_stack sp t))) (unat TSS_SIZE) 0x1F0"
  using assms by (simp_all add: tss_init_def tss_zero_def tss_set_stack_def port_allowed_def tss_bytes_def TSS_SIZE_def)

end
