(* ===== verification/Pci.thy ===== *)
theory Pci
  imports Kyro_Prelude
begin

section \<open>The PCI bus and the device manager (pci.c, deviceman.c, null_pci_driver.c)\<close>

text \<open>
  The configuration space is a map from the addresses the code puts on the address port to 32-bit
  registers; a register keeps what is written to it. The device and driver lists are lists with the newest
  entry first. \<open>device_room\<close> is the number of device blocks the heap still gives out.
\<close>

definition PCI_VENDOR_ID :: u8 where "PCI_VENDOR_ID = 0x00"
definition PCI_DEVICE_ID :: u8 where "PCI_DEVICE_ID = 0x02"
definition PCI_SUBCLASS :: u8 where "PCI_SUBCLASS = 0x0A"
definition PCI_CLASS :: u8 where "PCI_CLASS = 0x0B"
definition PCI_HEADER_TYPE :: u8 where "PCI_HEADER_TYPE = 0x0E"

type_synonym config_space = "u32 \<Rightarrow> u32"

definition pci_get_addr :: "u8 \<Rightarrow> u8 \<Rightarrow> u8 \<Rightarrow> u8 \<Rightarrow> u32" where
  "pci_get_addr bus device func offset =
     push_bit 16 (ucast bus) OR push_bit 11 (ucast device) OR push_bit 8 (ucast func)
       OR ucast (offset AND 0xFC) OR 0x80000000"

definition byte_shift :: "u8 \<Rightarrow> nat" where
  "byte_shift offset = unat (offset mod 4) * 8"

definition pci_read_config_dword :: "u8 \<Rightarrow> u8 \<Rightarrow> u8 \<Rightarrow> u8 \<Rightarrow> config_space \<Rightarrow> u32" where
  "pci_read_config_dword bus device func offset cfg = cfg (pci_get_addr bus device func offset)"

definition pci_read_config_word :: "u8 \<Rightarrow> u8 \<Rightarrow> u8 \<Rightarrow> u8 \<Rightarrow> config_space \<Rightarrow> u16" where
  "pci_read_config_word bus device func offset cfg =
     ucast (drop_bit (byte_shift offset) (cfg (pci_get_addr bus device func offset)) AND 0xFFFF)"

definition pci_read_config_byte :: "u8 \<Rightarrow> u8 \<Rightarrow> u8 \<Rightarrow> u8 \<Rightarrow> config_space \<Rightarrow> u8" where
  "pci_read_config_byte bus device func offset cfg =
     ucast (drop_bit (byte_shift offset) (cfg (pci_get_addr bus device func offset)) AND 0xFF)"

definition pci_write_config_dword :: "u8 \<Rightarrow> u8 \<Rightarrow> u8 \<Rightarrow> u8 \<Rightarrow> u32 \<Rightarrow> config_space \<Rightarrow> config_space" where
  "pci_write_config_dword bus device func offset val cfg = cfg(pci_get_addr bus device func offset := val)"

definition pci_write_config_word :: "u8 \<Rightarrow> u8 \<Rightarrow> u8 \<Rightarrow> u8 \<Rightarrow> u16 \<Rightarrow> config_space \<Rightarrow> config_space" where
  "pci_write_config_word bus device func offset val cfg =
     (let current = pci_read_config_dword bus device func (offset AND NOT 3) cfg;
          mask = push_bit (byte_shift offset) 0xFFFF
      in pci_write_config_dword bus device func (offset AND NOT 3)
           ((current AND NOT mask) OR push_bit (byte_shift offset) (ucast val)) cfg)"

definition pci_write_config_byte :: "u8 \<Rightarrow> u8 \<Rightarrow> u8 \<Rightarrow> u8 \<Rightarrow> u8 \<Rightarrow> config_space \<Rightarrow> config_space" where
  "pci_write_config_byte bus device func offset val cfg =
     (let current = pci_read_config_dword bus device func (offset AND NOT 3) cfg;
          mask = push_bit (byte_shift offset) 0xFF
      in pci_write_config_dword bus device func (offset AND NOT 3)
           ((current AND NOT mask) OR push_bit (byte_shift offset) (ucast val)) cfg)"

definition pci_get_vendor_id :: "u8 \<Rightarrow> u8 \<Rightarrow> u8 \<Rightarrow> config_space \<Rightarrow> u16" where
  "pci_get_vendor_id bus device func = pci_read_config_word bus device func PCI_VENDOR_ID"

definition pci_get_device_id :: "u8 \<Rightarrow> u8 \<Rightarrow> u8 \<Rightarrow> config_space \<Rightarrow> u16" where
  "pci_get_device_id bus device func = pci_read_config_word bus device func PCI_DEVICE_ID"

definition pci_get_class :: "u8 \<Rightarrow> u8 \<Rightarrow> u8 \<Rightarrow> config_space \<Rightarrow> u8" where
  "pci_get_class bus device func = pci_read_config_byte bus device func PCI_CLASS"

definition pci_get_subclass :: "u8 \<Rightarrow> u8 \<Rightarrow> u8 \<Rightarrow> config_space \<Rightarrow> u8" where
  "pci_get_subclass bus device func = pci_read_config_byte bus device func PCI_SUBCLASS"

subsection \<open>Devices and drivers\<close>

record pci_device =
  d_bus :: u8
  d_device :: u8
  d_func :: u8
  d_vendor :: u16
  d_id :: u16
  d_driver :: "string option"
  d_private :: "nat option"

text \<open>A driver's \<open>attach\<close> gives its status and the device as it leaves it.\<close>

record driver =
  drv_name :: string
  drv_probe :: "pci_device \<Rightarrow> int"
  drv_attach :: "pci_device \<Rightarrow> int \<times> pci_device"

record device_lists =
  registered_drivers :: "driver list"
  discovered_devices :: "pci_device list"
  device_room :: nat

definition deviceman_init :: "device_lists \<Rightarrow> device_lists" where
  "deviceman_init s = s\<lparr>registered_drivers := [], discovered_devices := []\<rparr>"

definition deviceman_register_driver :: "driver option \<Rightarrow> device_lists \<Rightarrow> device_lists" where
  "deviceman_register_driver driver s =
     (case driver of None \<Rightarrow> s | Some d \<Rightarrow> s\<lparr>registered_drivers := d # registered_drivers s\<rparr>)"

definition deviceman_register_device :: "pci_device option \<Rightarrow> device_lists \<Rightarrow> device_lists" where
  "deviceman_register_device device s =
     (case device of None \<Rightarrow> s | Some d \<Rightarrow> s\<lparr>discovered_devices := d # discovered_devices s\<rparr>)"

fun probe_drivers :: "driver list \<Rightarrow> pci_device \<Rightarrow> pci_device" where
  "probe_drivers [] dev = dev"
| "probe_drivers (drv # drvs) dev =
     (if drv_probe drv dev \<noteq> 0
      then let (status, dev') = drv_attach drv dev
           in if status = 0 then dev'\<lparr>d_driver := Some (drv_name drv)\<rparr> else probe_drivers drvs dev'
      else probe_drivers drvs dev)"

definition deviceman_probe_devices :: "device_lists \<Rightarrow> device_lists" where
  "deviceman_probe_devices s = s\<lparr>discovered_devices := map (probe_drivers (registered_drivers s)) (discovered_devices s)\<rparr>"

definition null_pci_probe :: "pci_device \<Rightarrow> int" where
  "null_pci_probe dev =
     (if d_vendor dev = 0x1234 \<and> d_id dev = 0x1111 then 1
      else if d_vendor dev = 0x1af4 \<and> 0x1000 \<le> d_id dev \<and> d_id dev \<le> 0x103F then 1 else 0)"

definition null_pci_attach :: "pci_device \<Rightarrow> int \<times> pci_device" where
  "null_pci_attach dev = (0, dev\<lparr>d_private := None\<rparr>)"

definition null_pci_driver :: driver where
  "null_pci_driver = \<lparr>drv_name = ''null_pci_driver'', drv_probe = null_pci_probe, drv_attach = null_pci_attach\<rparr>"

definition null_pci_driver_init :: "device_lists \<Rightarrow> device_lists" where
  "null_pci_driver_init = deviceman_register_driver (Some null_pci_driver)"

subsection \<open>The scan\<close>

definition pci_check_function :: "config_space \<Rightarrow> u8 \<Rightarrow> u8 \<Rightarrow> u8 \<Rightarrow> device_lists \<Rightarrow> device_lists" where
  "pci_check_function cfg bus device func s =
     (let vendor = pci_get_vendor_id bus device func cfg
      in if vendor = 0xFFFF then s
         else if device_room s = 0 then s
         else deviceman_register_device (Some \<lparr>d_bus = bus, d_device = device, d_func = func, d_vendor = vendor,
                d_id = pci_get_device_id bus device func cfg, d_driver = None, d_private = None\<rparr>)
                (s\<lparr>device_room := device_room s - 1\<rparr>))"

definition pci_check_device :: "config_space \<Rightarrow> u8 \<Rightarrow> u8 \<Rightarrow> device_lists \<Rightarrow> device_lists" where
  "pci_check_device cfg bus device s =
     (let header_type = pci_read_config_byte bus device 0 PCI_HEADER_TYPE cfg
      in if pci_get_vendor_id bus device 0 cfg = 0xFFFF then s
         else if header_type AND 0x80 \<noteq> 0
         then fold (\<lambda>func s. if pci_get_vendor_id bus device (of_nat func) cfg \<noteq> 0xFFFF
                              then pci_check_function cfg bus device (of_nat func) s else s) [0..<8] s
         else pci_check_function cfg bus device 0 s)"

definition pci_check_all_buses :: "config_space \<Rightarrow> device_lists \<Rightarrow> device_lists" where
  "pci_check_all_buses cfg =
     fold (\<lambda>bus. fold (\<lambda>device. pci_check_device cfg (of_nat bus) (of_nat device)) [0..<32]) [0..<256]"

subsection \<open>What a scan finds\<close>

text \<open>The functions that answer: function 0 of a device, and the others of a multi-function device.\<close>

definition answers :: "config_space \<Rightarrow> u8 \<Rightarrow> u8 \<Rightarrow> u8 \<Rightarrow> bool" where
  "answers cfg bus device func \<longleftrightarrow> pci_get_vendor_id bus device 0 cfg \<noteq> 0xFFFF \<and> pci_get_vendor_id bus device func cfg \<noteq> 0xFFFF
     \<and> (func = 0 \<or> pci_read_config_byte bus device 0 PCI_HEADER_TYPE cfg AND 0x80 \<noteq> 0)"

definition all_places :: "(nat \<times> nat \<times> nat) list" where
  "all_places = List.product [0..<256] (List.product [0..<32] [0..<8])"

definition described :: "config_space \<Rightarrow> nat \<times> nat \<times> nat \<Rightarrow> pci_device" where
  "described cfg p = (case p of (b, d, f) \<Rightarrow>
     \<lparr>d_bus = of_nat b, d_device = of_nat d, d_func = of_nat f, d_vendor = pci_get_vendor_id (of_nat b) (of_nat d) (of_nat f) cfg,
      d_id = pci_get_device_id (of_nat b) (of_nat d) (of_nat f) cfg, d_driver = None, d_private = None\<rparr>)"

definition answers_at :: "config_space \<Rightarrow> nat \<times> nat \<times> nat \<Rightarrow> bool" where
  "answers_at cfg p = (case p of (b, d, f) \<Rightarrow> answers cfg (of_nat b) (of_nat d) (of_nat f))"

definition register_all :: "pci_device list \<Rightarrow> device_lists \<Rightarrow> device_lists" where
  "register_all ds s = s\<lparr>discovered_devices := rev ds @ discovered_devices s, device_room := device_room s - length ds\<rparr>"

lemma register_all_append: "register_all (ds @ es) s = register_all es (register_all ds s)"
  by (simp add: register_all_def diff_diff_left)

lemma check_function:
  assumes "answers cfg (of_nat b) (of_nat d) (of_nat f)" "0 < device_room s"
  shows "pci_check_function cfg (of_nat b) (of_nat d) (of_nat f) s = register_all [described cfg (b, d, f)] s"
  using assms by (simp add: pci_check_function_def answers_def register_all_def described_def deviceman_register_device_def Let_def)

lemma fold_register:
  assumes "\<And>x s. x \<in> set xs \<Longrightarrow> length (ds x) \<le> device_room s \<Longrightarrow> step x s = register_all (ds x) s"
    "length (concat (map ds xs)) \<le> device_room s"
  shows "fold step xs s = register_all (concat (map ds xs)) s"
  using assms
proof (induction xs arbitrary: s)
  case (Cons x xs)
  have "step x s = register_all (ds x) s" using Cons.prems by simp
  moreover have "length (concat (map ds xs)) \<le> device_room (register_all (ds x) s)" using Cons.prems(2) by (simp add: register_all_def)
  ultimately show ?case using Cons.IH [of "register_all (ds x) s"] Cons.prems(1) by (simp add: register_all_append)
qed (simp add: register_all_def)

definition found_in :: "config_space \<Rightarrow> nat \<Rightarrow> nat \<Rightarrow> pci_device list" where
  "found_in cfg b d = map (described cfg) (filter (answers_at cfg) (map (\<lambda>f. (b, d, f)) [0..<8]))"

lemma found_in_parts: "found_in cfg b d = concat (map (\<lambda>f. if answers_at cfg (b, d, f) then [described cfg (b, d, f)] else []) [0..<8])"
proof -
  have "map g (filter P (map h xs)) = concat (map (\<lambda>x. if P (h x) then [g (h x)] else []) xs)" for g :: "nat \<times> nat \<times> nat \<Rightarrow> pci_device" and P h and xs :: "nat list"
    by (induction xs) auto
  then show ?thesis unfolding found_in_def by blast
qed

lemma register_none [simp]: "register_all [] s = s"
  by (simp add: register_all_def)

lemma check_device:
  assumes "length (found_in cfg b d) \<le> device_room s"
  shows "pci_check_device cfg (of_nat b) (of_nat d) s = register_all (found_in cfg b d) s"
proof -
  let ?v = "\<lambda>f. pci_get_vendor_id (of_nat b) (of_nat d) (of_nat f) cfg"
  let ?multi = "pci_read_config_byte (of_nat b) (of_nat d) 0 PCI_HEADER_TYPE cfg AND 0x80 \<noteq> 0"
  have zero: "(of_nat f :: u8) = 0 \<longleftrightarrow> f = 0" if "f < 8" for f
    using that by (simp add: word_of_nat_eq_0_iff) (auto simp: dvd_def)
  consider "?v 0 = 0xFFFF" | "?v 0 \<noteq> 0xFFFF" "?multi" | "?v 0 \<noteq> 0xFFFF" "\<not> ?multi" by blast
  then show ?thesis
  proof cases
    case 1
    then have "found_in cfg b d = []" by (simp add: found_in_parts answers_at_def answers_def)
    then show ?thesis using 1 by (simp add: pci_check_device_def Let_def)
  next
    case 2
    let ?ds = "\<lambda>f. if answers_at cfg (b, d, f) then [described cfg (b, d, f)] else []"
    have "fold (\<lambda>func s. if ?v func \<noteq> 0xFFFF then pci_check_function cfg (of_nat b) (of_nat d) (of_nat func) s else s) [0..<8] s
        = register_all (concat (map ?ds [0..<8])) s"
    proof (rule fold_register)
      fix f and t :: device_lists assume "length (?ds f) \<le> device_room t"
      then show "(if ?v f \<noteq> 0xFFFF then pci_check_function cfg (of_nat b) (of_nat d) (of_nat f) t else t) = register_all (?ds f) t"
        using 2 check_function [of cfg b d f t] by (auto simp: answers_at_def answers_def)
    qed (use assms in \<open>simp only: found_in_parts\<close>)
    then show ?thesis using 2 by (simp only: pci_check_device_def Let_def found_in_parts of_nat_0) simp
  next
    case 3
    have no: "\<not> answers_at cfg (b, d, f)" if "f \<noteq> 0" "f < 8" for f
      using 3 zero that by (simp add: answers_at_def answers_def)
    have yes: "answers_at cfg (b, d, 0)" using 3 by (simp add: answers_at_def answers_def)
    have "[0..<8] = 0 # [1..<8]" by (simp add: upt_conv_Cons)
    moreover have "concat (map (\<lambda>f. if answers_at cfg (b, d, f) then [described cfg (b, d, f)] else []) [1..<8]) = []"
      using no by (intro concat_eq_Nil_conv [THEN iffD2]) auto
    ultimately have f: "found_in cfg b d = [described cfg (b, d, 0)]" unfolding found_in_parts using yes by simp
    then have "0 < device_room s" using assms by simp
    then show ?thesis using 3 check_function [of cfg b d 0 s] yes by (simp add: f pci_check_device_def Let_def answers_at_def)
  qed
qed

lemma found_everywhere:
  "map (described cfg) (filter (answers_at cfg) all_places) = concat (map (\<lambda>b. concat (map (found_in cfg b) [0..<32])) [0..<256])"
proof -
  have "found_in cfg b = (\<lambda>d. map (described cfg) (filter (answers_at cfg) (map (\<lambda>f. (b, d, f)) [0..<8])))" for b
    by (simp add: fun_eq_iff found_in_def)
  then show ?thesis by (simp add: all_places_def product_concat_map filter_concat map_concat comp_def)
qed

text \<open>C35: The scan of the bus registers every function that answers exactly once, and nothing else, with its
  place and its identity, the last one found first in the list, provided that the heap has room for their
  blocks: function 0 of every device that is present, and of a multi-function device also the others.\<close>

theorem pci_scan_finds_all:
  assumes "length (filter (answers_at cfg) all_places) \<le> device_room s"
  shows "discovered_devices (pci_check_all_buses cfg s) =
    rev (map (described cfg) (filter (answers_at cfg) all_places)) @ discovered_devices s"
proof -
  let ?bus = "\<lambda>b. concat (map (found_in cfg b) [0..<32])"
  have bus: "fold (\<lambda>d. pci_check_device cfg (of_nat b) (of_nat d)) [0..<32] t = register_all (?bus b) t"
    if "length (?bus b) \<le> device_room t" for b t
    by (rule fold_register [OF check_device that])
  have "fold (\<lambda>b. fold (\<lambda>d. pci_check_device cfg (of_nat b) (of_nat d)) [0..<32]) [0..<256] s = register_all (concat (map ?bus [0..<256])) s"
  proof (rule fold_register [OF bus])
    have "length (concat (map ?bus [0..<256])) = length (filter (answers_at cfg) all_places)"
      unfolding found_everywhere [symmetric] by (rule length_map)
    then show "length (concat (map ?bus [0..<256])) \<le> device_room s" using assms by (simp only:)
  qed
  then show ?thesis unfolding pci_check_all_buses_def found_everywhere by (simp add: register_all_def)
qed

subsection \<open>Addresses do not overlap\<close>

lemma bit_small:
  assumes "unat (x :: u8) < 2 ^ k" "bit x n" shows "n < k"
proof (rule ccontr)
  assume "\<not> n < k"
  then have "(2 :: nat) ^ k \<le> 2 ^ n" by (intro power_increasing) auto
  then have "unat x div 2 ^ n = 0" using assms(1) by (intro div_less) linarith
  moreover have "bit (unat x) n" using assms(2) by (simp add: bit_unsigned_iff)
  ultimately show False by (simp add: bit_iff_odd)
qed

lemma bit_addr:
  assumes "d < 32" "f < 8"
  shows "bit (pci_get_addr b d f o') n \<longleftrightarrow>
    (if n < 8 then 2 \<le> n \<and> bit o' n else if n < 11 then bit f (n - 8) else if n < 16 then bit d (n - 11)
     else if n < 24 then bit b (n - 16) else n = 31)"
proof -
  have c: "(0xFC :: u8) = push_bit 2 (mask 6)" "(0x80000000 :: u32) = push_bit 31 1" by (simp_all add: mask_eq_exp_minus_1)
  have d: "bit d n \<Longrightarrow> n < 5" for n by (rule bit_small [of d 5]) (use assms(1) in \<open>simp_all add: word_less_nat_alt\<close>)
  have f: "bit f n \<Longrightarrow> n < 3" for n by (rule bit_small [of f 3]) (use assms(2) in \<open>simp_all add: word_less_nat_alt\<close>)
  have b: "bit b n \<Longrightarrow> n < 8" "bit o' n \<Longrightarrow> n < 8" for n by (auto dest: bit_imp_le_length)
  have p1: "bit (push_bit 16 (ucast b) :: u32) n \<longleftrightarrow> 16 \<le> n \<and> n < 24 \<and> bit b (n - 16)"
    using b(1) [of "n - 16"] by (auto simp: bit_simps)
  have p2: "bit (push_bit 11 (ucast d) :: u32) n \<longleftrightarrow> 11 \<le> n \<and> n < 16 \<and> bit d (n - 11)"
    using d [of "n - 11"] by (auto simp: bit_simps)
  have p3: "bit (push_bit 8 (ucast f) :: u32) n \<longleftrightarrow> 8 \<le> n \<and> n < 11 \<and> bit f (n - 8)"
    using f [of "n - 8"] by (auto simp: bit_simps)
  have p4: "bit (ucast (o' AND 0xFC) :: u32) n \<longleftrightarrow> 2 \<le> n \<and> n < 8 \<and> bit o' n"
    unfolding c(1) bit_ucast_iff bit_and_iff bit_push_bit_iff bit_mask_iff using b(2) [of n] by auto
  have p5: "bit (0x80000000 :: u32) n \<longleftrightarrow> n = 31" unfolding c(2) bit_push_bit_iff bit_1_iff by auto
  show ?thesis unfolding pci_get_addr_def bit_or_iff p1 p2 p3 p4 p5 by auto
qed

lemma addr_inject:
  assumes "pci_get_addr b d f o1 = pci_get_addr b' d' f' o2" "d < 32" "f < 8" "d' < 32" "f' < 8"
  shows "b = b' \<and> d = d' \<and> f = f' \<and> o1 AND 0xFC = o2 AND 0xFC"
proof -
  have e: "bit (pci_get_addr b d f o1) n = bit (pci_get_addr b' d' f' o2) n" for n using assms(1) by simp
  note E = e [unfolded bit_addr [OF assms(2,3)] bit_addr [OF assms(4,5)]]
  have c: "(0xFC :: u8) = push_bit 2 (mask 6)" by (simp add: mask_eq_exp_minus_1)
  have d: "bit x n \<Longrightarrow> n < 5" if "x < 32" for x :: u8 and n by (rule bit_small [of x 5]) (use that in \<open>simp_all add: word_less_nat_alt\<close>)
  have f: "bit x n \<Longrightarrow> n < 3" if "x < 8" for x :: u8 and n by (rule bit_small [of x 3]) (use that in \<open>simp_all add: word_less_nat_alt\<close>)
  have "bit b n = bit b' n" if "n < 8" for n using E [of "n + 16"] that by simp
  moreover have "bit d n = bit d' n" for n using E [of "n + 11"] d [OF assms(2), of n] d [OF assms(4), of n] by (cases "n < 5") auto
  moreover have "bit f n = bit f' n" for n using E [of "n + 8"] f [OF assms(3), of n] f [OF assms(5), of n] by (cases "n < 3") auto
  moreover have "bit (o1 AND 0xFC) n = bit (o2 AND 0xFC) n" if "n < 8" for n
    unfolding c bit_and_iff bit_push_bit_iff bit_mask_iff using E [of n] that by auto
  ultimately show ?thesis by (auto intro!: bit_word_eqI)
qed

text \<open>Writing a byte of the configuration space changes that byte and no other: reading it back gives the
  value written, and any other byte, of the same register, of another register, function, device or bus,
  reads as before.\<close>

lemma pci_write_byte_reads:
  assumes "d < 32" "f < 8" "d' < 32" "f' < 8"
  shows "pci_read_config_byte b' d' f' o2 (pci_write_config_byte b d f o1 v cfg) =
    (if (b', d', f', o2) = (b, d, f, o1) then v else pci_read_config_byte b' d' f' o2 cfg)"
proof -
  have c: "(0xFC :: u8) = NOT 3" "(0xFF :: u32) = mask 8" by (simp_all add: mask_eq_exp_minus_1)
  have m: "o' mod 4 = take_bit 2 o'" for o' :: u8 by (simp add: take_bit_eq_mod)
  have al: "pci_get_addr b d f (o1 AND NOT 3) = pci_get_addr b d f o1"
    unfolding pci_get_addr_def c by (simp add: and.assoc)
  let ?a = "pci_get_addr b d f o1" and ?a' = "pci_get_addr b' d' f' o2"
  let ?s1 = "byte_shift o1" and ?s2 = "byte_shift o2"
  have w: "pci_write_config_byte b d f o1 v cfg = cfg(?a := (cfg ?a AND NOT (push_bit ?s1 0xFF)) OR push_bit ?s1 (ucast v))"
    unfolding pci_write_config_byte_def pci_write_config_dword_def pci_read_config_dword_def Let_def al ..
  show ?thesis
  proof (cases "?a' = ?a")
    case False
    then have "(b', d', f', o2) \<noteq> (b, d, f, o1)" by auto
    then show ?thesis using False by (auto simp: w pci_read_config_byte_def)
  next
    case True
    then have p: "b' = b" "d' = d" "f' = f" "o2 AND 0xFC = o1 AND 0xFC" using addr_inject [OF True assms(3,4,1,2)] by auto
    have k: "\<exists>k<4. byte_shift o' = 8 * k \<and> k = unat (o' mod 4)" for o' by (simp add: byte_shift_def unat_mod)
    obtain k1 where k1: "k1 < 4" "?s1 = 8 * k1" "k1 = unat (o1 mod 4)" using k by blast
    obtain k2 where k2: "k2 < 4" "?s2 = 8 * k2" "k2 = unat (o2 mod 4)" using k by blast
    have sh: "?s1 = ?s2 \<or> ?s1 + 8 \<le> ?s2 \<or> ?s2 + 8 \<le> ?s1" using k1(2) k2(2) by presburger
    have eq: "?s1 = ?s2 \<longleftrightarrow> o1 = o2"
    proof
      assume "?s1 = ?s2"
      then have "unat (o1 mod 4) = unat (o2 mod 4)" using k1(2,3) k2(2,3) by linarith
      then have "o1 mod 4 = o2 mod 4" by (simp only: word_unat_eq_iff)
      then have "take_bit 2 o1 = take_bit 2 o2" by (simp only: m)
      moreover have "o' = (o' AND 0xFC) OR take_bit 2 o'" for o' :: u8
      proof (rule bit_word_eqI)
        fix n
        have b: "bit (0xFC :: u8) n \<longleftrightarrow> 2 \<le> n \<and> n < 8"
        proof -
          have f: "(0xFC :: u8) = push_bit 2 (mask 6)" by (simp add: mask_eq_exp_minus_1)
          show ?thesis unfolding f bit_push_bit_iff bit_mask_iff by auto
        qed
        show "n < LENGTH(8) \<Longrightarrow> bit o' n = bit ((o' AND 0xFC) OR take_bit 2 o') n"
          unfolding bit_or_iff bit_and_iff bit_take_bit_iff b by auto
      qed
      ultimately show "o1 = o2" using p(4) by metis
    qed simp
    let ?x = "(cfg ?a AND NOT (push_bit ?s1 0xFF)) OR push_bit ?s1 (ucast v)"
    have x: "bit ?x j \<longleftrightarrow> (if ?s1 \<le> j \<and> j < ?s1 + 8 then bit v (j - ?s1) else bit (cfg ?a) j)" if "j < 32" for j
      unfolding c bit_or_iff bit_and_iff bit_not_iff bit_push_bit_iff bit_mask_iff bit_ucast_iff
      using that k1 by (auto dest: bit_imp_le_length)
    have bits: "bit (pci_read_config_byte b' d' f' o2 (pci_write_config_byte b d f o1 v cfg)) n =
        (if ?s1 = ?s2 then bit v n else bit (cfg ?a) (?s2 + n))" if "n < 8" for n
    proof -
      have "?s2 + n < 32" using k2 that by linarith
      moreover have "bit (pci_read_config_byte b' d' f' o2 (pci_write_config_byte b d f o1 v cfg)) n = bit ?x (?s2 + n)"
        unfolding pci_read_config_byte_def w True fun_upd_same c(2) by (use that in \<open>simp add: bit_simps add.commute\<close>)
      ultimately show ?thesis using x [of "?s2 + n"] sh that by auto
    qed
    show ?thesis
    proof (rule bit_word_eqI)
      fix n assume "n < LENGTH(8)"
      then have n: "n < 8" by simp
      have "bit (pci_read_config_byte b' d' f' o2 cfg) n = bit (cfg ?a) (?s2 + n)"
        unfolding pci_read_config_byte_def True c by (use n in \<open>simp add: bit_simps add.commute\<close>)
      then show "bit (pci_read_config_byte b' d' f' o2 (pci_write_config_byte b d f o1 v cfg)) n =
        bit (if (b', d', f', o2) = (b, d, f, o1) then v else pci_read_config_byte b' d' f' o2 cfg) n"
        using bits [OF n] eq p by auto
    qed
  qed
qed

lemma pci_write_byte_reads_witness:
  "pci_read_config_byte 0 2 0 0x3D (pci_write_config_byte 0 2 0 0x3C 11 (\<lambda>_. 0x01020304)) = pci_read_config_byte 0 2 0 0x3D (\<lambda>_. 0x01020304)
   \<and> pci_read_config_byte 0 2 0 0x3C (pci_write_config_byte 0 2 0 0x3C 11 (\<lambda>_. 0x01020304)) = 11"
  by (rule conjI; subst pci_write_byte_reads; simp)

text \<open>One network card in an otherwise empty machine.\<close>

definition one_card :: config_space where
  "one_card a = (if a = pci_get_addr 0 2 0 0 then 0x100E8086 else if a = pci_get_addr 0 2 0 12 then 0 else 0xFFFFFFFF)"

lemma one_card_answers:
  assumes "b < 256" "d < 32" "f < 8"
  shows "answers_at one_card (b, d, f) \<longleftrightarrow> (b, d, f) = (0, 2, 0)"
proof -
  have small: "(of_nat d :: u8) < 32" "(of_nat f :: u8) < 8" using assms by (simp_all add: word_less_nat_alt unat_of_nat)
  have z: "(of_nat b :: u8) = 0 \<longleftrightarrow> b = 0" "(of_nat d :: u8) = 2 \<longleftrightarrow> d = 2" "(of_nat f :: u8) = 0 \<longleftrightarrow> f = 0"
    using assms by (simp_all flip: unat_eq_nat_uint add: word_unat_eq_iff unat_of_nat)
  have off: "pci_get_addr 0 2 0 0 \<noteq> pci_get_addr 0 2 0 12" by (simp add: pci_get_addr_def)
  have v: "pci_get_vendor_id b' d' f' one_card = (if pci_get_addr b' d' f' 0 = pci_get_addr 0 2 0 0 then 0x8086 else
      if pci_get_addr b' d' f' 0 = pci_get_addr 0 2 0 12 then 0 else 0xFFFF)" for b' d' f'
    by (simp add: pci_get_vendor_id_def pci_read_config_word_def PCI_VENDOR_ID_def byte_shift_def one_card_def)
  have at: "pci_get_vendor_id b' d' f' one_card \<noteq> 0xFFFF \<longleftrightarrow> b' = 0 \<and> d' = 2 \<and> f' = 0" if "d' < 32" "f' < 8" for b' d' f'
    using addr_inject [of b' d' f' 0 0 2 0 0] addr_inject [of b' d' f' 0 0 2 0 12] that by (auto simp: v)
  have "pci_read_config_byte 0 2 0 PCI_HEADER_TYPE one_card AND 0x80 = 0"
    using off by (simp add: pci_read_config_byte_def PCI_HEADER_TYPE_def byte_shift_def one_card_def pci_get_addr_def)
  then show ?thesis using at [OF small] at [OF small(1), of 0 "of_nat b"] z by (auto simp: answers_at_def answers_def)
qed

theorem pci_scan_finds_all_witness:
  "map d_vendor (discovered_devices (pci_check_all_buses one_card \<lparr>registered_drivers = [], discovered_devices = [], device_room = 1\<rparr>)) = [0x8086]"
proof -
  have "filter (answers_at one_card) all_places = filter (\<lambda>p. p = (0, 2, 0)) all_places"
    by (rule filter_cong [OF refl]) (auto simp: all_places_def one_card_answers simp del: upt_conv_Cons)
  also have "\<dots> = [(0, 2, 0)]"
  proof -
    have one: "distinct xs \<Longrightarrow> x \<in> set xs \<Longrightarrow> filter (\<lambda>p. p = x) xs = [x]" for x :: "nat \<times> nat \<times> nat" and xs
      by (induction xs) (auto intro!: filter_False)
    show ?thesis by (rule one) (simp_all add: all_places_def distinct_product del: upt_conv_Cons)
  qed
  finally have f: "filter (answers_at one_card) all_places = [(0, 2, 0)]" .
  show ?thesis
    by (subst pci_scan_finds_all) (simp_all add: f described_def pci_get_vendor_id_def pci_read_config_word_def PCI_VENDOR_ID_def byte_shift_def one_card_def)
qed

text \<open>Probing binds a device to the first driver in the list that accepts it, provided that its attach
  succeeds and leaves the device otherwise as the scan described it; a device no driver accepts is left
  as it was.\<close>

lemma probe_binds_first_driver:
  assumes "\<forall>drv\<in>set (registered_drivers s). \<forall>d. drv_attach drv d = (0, d)" "dev \<in> set (discovered_devices s)"
  shows "dev\<lparr>d_driver := (case List.find (\<lambda>drv. drv_probe drv dev \<noteq> 0) (registered_drivers s) of
           None \<Rightarrow> d_driver dev | Some drv \<Rightarrow> Some (drv_name drv))\<rparr> \<in> set (discovered_devices (deviceman_probe_devices s))"
proof -
  have p: "probe_drivers drvs dev = dev\<lparr>d_driver := (case List.find (\<lambda>drv. drv_probe drv dev \<noteq> 0) drvs of
      None \<Rightarrow> d_driver dev | Some drv \<Rightarrow> Some (drv_name drv))\<rparr>" if "\<forall>drv\<in>set drvs. \<forall>d. drv_attach drv d = (0, d)" for drvs
    using that by (induction drvs) simp_all
  show ?thesis using assms unfolding deviceman_probe_devices_def
    by (simp flip: p)
qed

end
