(* ===== verification/E1000.thy ===== *)
theory E1000
  imports Pci Dhcp Ip_Input Pmm
begin

section \<open>The network card (src/kernel/e1000.c)\<close>

text \<open>
  The driver of the Intel 8254x cards: attaching, the receive interrupt and sending. The descriptor rings
  are lists of the descriptors' fields, the data buffers are pages of \<open>nic_mem\<close>, which gives the bytes of the
  page at a virtual address. The registers are a map that answers a read with the value last written or set
  by the card, and \<open>nic_writes\<close> keeps the writes in order. Where the code polls, the values the card shows
  from reading to reading are an argument; \<open>None\<close> is a wait that does not end with them, or an access outside a
  ring or a page. There is one card, the one \<open>network_devices\<close> points to when the network has a device.
\<close>

subsection \<open>Registers and descriptors\<close>

definition E1000_VENDOR_ID :: u16 where "E1000_VENDOR_ID = 0x8086"
definition E1000_DEVICE_ID_82540EM :: u16 where "E1000_DEVICE_ID_82540EM = 0x100e"
definition E1000_DEVICE_ID_82545EM :: u16 where "E1000_DEVICE_ID_82545EM = 0x100f"
definition E1000_DEVICE_ID_82543GC :: u16 where "E1000_DEVICE_ID_82543GC = 0x107b"

definition E1000_REG_CTRL :: u32 where "E1000_REG_CTRL = 0x00000"
definition E1000_REG_IMC :: u32 where "E1000_REG_IMC = 0x00028"
definition E1000_REG_IMS :: u32 where "E1000_REG_IMS = 0x000D0"
definition E1000_REG_ICR :: u32 where "E1000_REG_ICR = 0x000C0"
definition E1000_REG_RCTL :: u32 where "E1000_REG_RCTL = 0x00100"
definition E1000_REG_TCTL :: u32 where "E1000_REG_TCTL = 0x00400"
definition E1000_REG_RDBAL :: u32 where "E1000_REG_RDBAL = 0x02800"
definition E1000_REG_RDLEN :: u32 where "E1000_REG_RDLEN = 0x02808"
definition E1000_REG_RDH :: u32 where "E1000_REG_RDH = 0x02810"
definition E1000_REG_RDT :: u32 where "E1000_REG_RDT = 0x02818"
definition E1000_REG_TDBAL :: u32 where "E1000_REG_TDBAL = 0x03800"
definition E1000_REG_TDLEN :: u32 where "E1000_REG_TDLEN = 0x03808"
definition E1000_REG_TDH :: u32 where "E1000_REG_TDH = 0x03810"
definition E1000_REG_TDT :: u32 where "E1000_REG_TDT = 0x03818"
definition E1000_REG_RA :: u32 where "E1000_REG_RA = 0x05400"

definition RCTL_VALUE :: u32 where
  "RCTL_VALUE = push_bit 1 1 OR push_bit 15 1 OR push_bit 2 1 OR push_bit 12 0"

definition TCTL_VALUE :: u32 where
  "TCTL_VALUE = push_bit 1 1 OR push_bit 3 1 OR push_bit 4 0x10 OR push_bit 12 0x40"

definition TXD_CMD :: u8 where "TXD_CMD = push_bit 0 1 OR push_bit 3 1"

definition E1000_NUM_RX_DESC :: nat where "E1000_NUM_RX_DESC = 32"
definition E1000_NUM_TX_DESC :: nat where "E1000_NUM_TX_DESC = 8"

record e1000_rx_desc =
  rx_addr :: u64
  rx_length :: u16
  rx_status :: u8

record e1000_tx_desc =
  tx_addr :: u64
  tx_length :: u16
  tx_cmd :: u8
  tx_status :: u8

record e1000_device =
  mac_addr :: "u8 list"
  mmio_base :: u64
  pci_command_reg :: u16
  irq :: u32
  rx_descs :: "e1000_rx_desc list"
  rx_descs_phys :: u64
  rx_buffers :: "u64 list"
  rx_cur :: u16
  tx_descs :: "e1000_tx_desc list"
  tx_descs_phys :: u64
  tx_buffers :: "u64 list"
  tx_cur :: u16

record nic =
  nic_dev :: e1000_device
  nic_regs :: "u32 \<Rightarrow> u32"
  nic_writes :: "(u32 \<times> u32) list"
  nic_mem :: "u64 \<Rightarrow> u8 list"
  nic_net :: net
  nic_config :: config_space
  nic_pmm :: pmm_state
  nic_heap_ok :: bool
  nic_irq_line :: "nat option"

definition e1000_read_reg :: "u32 \<Rightarrow> nic \<Rightarrow> u32" where
  "e1000_read_reg offset s = nic_regs s offset"

definition e1000_write_reg :: "u32 \<Rightarrow> u32 \<Rightarrow> nic \<Rightarrow> nic" where
  "e1000_write_reg offset v s = s\<lparr>nic_regs := (nic_regs s)(offset := v), nic_writes := nic_writes s @ [(offset, v)]\<rparr>"

definition net_init :: "nic \<Rightarrow> nic" where
  "net_init s = s\<lparr>nic_net := (nic_net s)\<lparr>dev_mac := None\<rparr>\<rparr>"

definition net_register_device :: "nic \<Rightarrow> nic" where
  "net_register_device s = s\<lparr>nic_net := (nic_net s)\<lparr>dev_mac := Some (mac_addr (nic_dev s))\<rparr>\<rparr>"

subsection \<open>Receiving\<close>

text \<open>One turn of the loop of the interrupt handler: the frame of the current descriptor goes to its protocol,
  the descriptor back to the card.\<close>

definition rx_dd :: "e1000_device \<Rightarrow> nat \<Rightarrow> bool" where
  "rx_dd d i \<longleftrightarrow> rx_status (rx_descs d ! i) AND 1 \<noteq> 0"

definition rx_give_back :: "e1000_device \<Rightarrow> e1000_device" where
  "rx_give_back d =
     (let cur = unat (rx_cur d)
      in d\<lparr>rx_descs := (rx_descs d)[cur := (rx_descs d ! cur)\<lparr>rx_status := 0\<rparr>], rx_cur := of_nat ((cur + 1) mod E1000_NUM_RX_DESC)\<rparr>)"

definition frame_at :: "nic \<Rightarrow> nat \<Rightarrow> u8 list option" where
  "frame_at s i = read_at 0 (unat (rx_length (rx_descs (nic_dev s) ! i))) (nic_mem s (rx_buffers (nic_dev s) ! i))"

definition rx_step :: "nic \<Rightarrow> nic option" where
  "rx_step s =
     (let d = nic_dev s; cur = unat (rx_cur d)
      in do {
        frame \<leftarrow> frame_at s cur;
        n \<leftarrow> net_receive frame (nic_net s);
        let d' = rx_give_back d
        in Some (e1000_write_reg E1000_REG_RDT (ucast (rx_cur d') - 1) (s\<lparr>nic_dev := d', nic_net := n\<rparr>)) })"

lemma rx_step_dev: "rx_step s = Some s' \<Longrightarrow> nic_dev s' = rx_give_back (nic_dev s)"
  by (auto simp: rx_step_def Let_def e1000_write_reg_def bind_eq_Some_conv)

lemma filter_update_less: "i < length xs \<Longrightarrow> P (xs ! i) \<Longrightarrow> \<not> P x \<Longrightarrow> length (filter P (xs[i := x])) < length (filter P xs)"
proof (induction xs arbitrary: i)
  case (Cons a xs)
  then show ?case by (cases i) (auto simp: le_imp_less_Suc length_filter_le)
qed simp

function rx_loop :: "nic \<Rightarrow> nic option" where
  "rx_loop s =
     (if length (rx_descs (nic_dev s)) \<le> unat (rx_cur (nic_dev s)) then None
      else if rx_dd (nic_dev s) (unat (rx_cur (nic_dev s))) then do { s' \<leftarrow> rx_step s; rx_loop s' }
      else Some s)"
  by pat_completeness auto
termination
proof (relation "measure (\<lambda>s. length (filter (\<lambda>r. rx_status r AND 1 \<noteq> 0) (rx_descs (nic_dev s))))")
  fix s s' :: nic
  assume "\<not> length (rx_descs (nic_dev s)) \<le> unat (rx_cur (nic_dev s))" "rx_dd (nic_dev s) (unat (rx_cur (nic_dev s)))" "rx_step s = Some s'"
  then show "(s', s) \<in> measure (\<lambda>s. length (filter (\<lambda>r. rx_status r AND 1 \<noteq> 0) (rx_descs (nic_dev s))))"
    by (auto simp: rx_step_dev rx_give_back_def rx_dd_def Let_def intro!: filter_update_less)
qed simp

declare rx_loop.simps [simp del]

definition e1000_interrupt_handler :: "nic \<Rightarrow> nic option" where
  "e1000_interrupt_handler s =
     (if dev_mac (nic_net s) = None then None
      else if e1000_read_reg E1000_REG_ICR s = 0 then Some s
      else rx_loop s)"

subsection \<open>Sending\<close>

text \<open>The wait for a descriptor, which lets other threads run between two readings: the number of turns.\<close>

fun tx_wait :: "u8 list \<Rightarrow> nat option" where
  "tx_wait [] = None"
| "tx_wait (status # later) = (if status AND 1 \<noteq> 0 then Some 0 else map_option Suc (tx_wait later))"

definition tx_fill :: "nat \<Rightarrow> u8 list \<Rightarrow> nic \<Rightarrow> nic" where
  "tx_fill cur frame s =
     (let d = nic_dev s; buf = tx_buffers d ! cur;
          desc = (tx_descs d ! cur)\<lparr>tx_length := of_nat (length frame), tx_cmd := TXD_CMD, tx_status := 0\<rparr>
      in e1000_write_reg E1000_REG_TDT (of_nat ((cur + 1) mod E1000_NUM_TX_DESC))
           (s\<lparr>nic_mem := (nic_mem s)(buf := frame @ drop (length frame) (nic_mem s buf)), nic_dev := d\<lparr>tx_descs := (tx_descs d)[cur := desc]\<rparr>\<rparr>))"

definition e1000_send_packet :: "u8 list \<Rightarrow> u8 list \<Rightarrow> nic \<Rightarrow> nic option" where
  "e1000_send_packet polls frame s =
     (if 2048 < length frame then Some s
      else let current_tdt = unat (ucast (e1000_read_reg E1000_REG_TDT s) :: u16)
           in if length (tx_descs (nic_dev s)) \<le> current_tdt then None
              else do {
                _ \<leftarrow> tx_wait (tx_status (tx_descs (nic_dev s) ! current_tdt) # polls);
                Some (tx_fill current_tdt frame s) })"

subsection \<open>Attaching\<close>

definition e1000_probe :: "pci_device \<Rightarrow> int" where
  "e1000_probe dev =
     (if d_vendor dev = E1000_VENDOR_ID \<and> (d_id dev = E1000_DEVICE_ID_82540EM \<or> d_id dev = E1000_DEVICE_ID_82545EM \<or> d_id dev = E1000_DEVICE_ID_82543GC)
      then 1 else 0)"

definition e1000_zero :: e1000_device where
  "e1000_zero = \<lparr>mac_addr = replicate 6 0, mmio_base = 0, pci_command_reg = 0, irq = 0, rx_descs = [], rx_descs_phys = 0,
     rx_buffers = replicate E1000_NUM_RX_DESC 0, rx_cur = 0, tx_descs = [], tx_descs_phys = 0,
     tx_buffers = replicate E1000_NUM_TX_DESC 0, tx_cur = 0\<rparr>"

definition PCI_COMMAND :: u8 where "PCI_COMMAND = 0x04"
definition PCI_INTERRUPT_LINE :: u8 where "PCI_INTERRUPT_LINE = 0x3C"

definition enable_bus_master :: "pci_device \<Rightarrow> nic \<Rightarrow> nic" where
  "enable_bus_master dev s =
     (let cmd = pci_read_config_word (d_bus dev) (d_device dev) (d_func dev) PCI_COMMAND (nic_config s)
      in s\<lparr>nic_dev := (nic_dev s)\<lparr>pci_command_reg := cmd\<rparr>,
           nic_config := pci_write_config_word (d_bus dev) (d_device dev) (d_func dev) PCI_COMMAND (cmd OR push_bit 2 1) (nic_config s)\<rparr>)"

definition map_registers :: "pci_device \<Rightarrow> nic \<Rightarrow> nic" where
  "map_registers dev s =
     (let bar0 = pci_read_config_dword (d_bus dev) (d_device dev) (d_func dev) 0x10 (nic_config s);
          mmio_phys_base = bar0 AND 0xFFFFFFF0
      in s\<lparr>nic_dev := (nic_dev s)\<lparr>mmio_base := ucast mmio_phys_base + pmm_hhdm_offset (nic_pmm s)\<rparr>\<rparr>)"

definition read_mac :: "nic \<Rightarrow> nic" where
  "read_mac s =
     (let lo = e1000_read_reg E1000_REG_RA s; hi = e1000_read_reg (E1000_REG_RA + 4) s
      in s\<lparr>nic_dev := (nic_dev s)\<lparr>mac_addr := [ucast (lo AND 0xFF), ucast (drop_bit 8 lo AND 0xFF), ucast (drop_bit 16 lo AND 0xFF),
             ucast (drop_bit 24 lo AND 0xFF), ucast (hi AND 0xFF), ucast (drop_bit 8 hi AND 0xFF)]\<rparr>\<rparr>)"

text \<open>The readings of the control register after the reset bit was set; the loop ends at the first one without it.\<close>

definition reset_device :: "u32 list \<Rightarrow> nic \<Rightarrow> nic option" where
  "reset_device readings s =
     (let s1 = e1000_write_reg E1000_REG_CTRL (e1000_read_reg E1000_REG_CTRL s OR push_bit 26 1) (e1000_write_reg E1000_REG_IMC 0xFFFFFFFF s)
      in case List.find (\<lambda>v. v AND push_bit 26 1 = 0) readings of
           None \<Rightarrow> None
         | Some v \<Rightarrow> Some (s1\<lparr>nic_regs := (nic_regs s1)(E1000_REG_CTRL := v)\<rparr>))"

text \<open>The allocations return whether they succeeded.\<close>

definition alloc_rx_ring :: "nic \<Rightarrow> (bool \<times> nic) option" where
  "alloc_rx_ring s = do {
     (rx_phys, pm) \<leftarrow> pmm_alloc_page (nic_pmm s);
     Some (if rx_phys = 0 then (False, s\<lparr>nic_pmm := pm\<rparr>)
           else (True, s\<lparr>nic_pmm := pm, nic_dev := (nic_dev s)\<lparr>rx_descs_phys := rx_phys,
                           rx_descs := replicate E1000_NUM_RX_DESC \<lparr>rx_addr = 0, rx_length = 0, rx_status = 0\<rparr>\<rparr>\<rparr>)) }"

text \<open>The loop that gives each descriptor a page; \<open>setup i phys virt\<close> stores it in the device.\<close>

fun alloc_buffers :: "(nat \<Rightarrow> u64 \<Rightarrow> u64 \<Rightarrow> e1000_device \<Rightarrow> e1000_device) \<Rightarrow> nat list \<Rightarrow> nic \<Rightarrow> (bool \<times> nic) option" where
  "alloc_buffers setup [] s = Some (True, s)"
| "alloc_buffers setup (i # is) s = do {
     (buf_phys, pm) \<leftarrow> pmm_alloc_page (nic_pmm s);
     if buf_phys = 0 then Some (False, s\<lparr>nic_pmm := pm\<rparr>)
     else alloc_buffers setup is (s\<lparr>nic_pmm := pm, nic_dev := setup i buf_phys (p_to_v pm buf_phys) (nic_dev s)\<rparr>) }"

definition setup_rx :: "nat \<Rightarrow> u64 \<Rightarrow> u64 \<Rightarrow> e1000_device \<Rightarrow> e1000_device" where
  "setup_rx i phys virt d =
     d\<lparr>rx_buffers := (rx_buffers d)[i := virt], rx_descs := (rx_descs d)[i := (rx_descs d ! i)\<lparr>rx_addr := phys, rx_status := 0\<rparr>]\<rparr>"

definition alloc_tx_ring :: "nic \<Rightarrow> (bool \<times> nic) option" where
  "alloc_tx_ring s = do {
     (tx_phys, pm) \<leftarrow> pmm_alloc_page (nic_pmm s);
     Some (if tx_phys = 0 then (False, s\<lparr>nic_pmm := pm\<rparr>)
           else (True, s\<lparr>nic_pmm := pm, nic_dev := (nic_dev s)\<lparr>tx_descs_phys := tx_phys,
                           tx_descs := replicate E1000_NUM_TX_DESC \<lparr>tx_addr = 0, tx_length = 0, tx_cmd = 0, tx_status = 0\<rparr>\<rparr>\<rparr>)) }"

definition setup_tx :: "nat \<Rightarrow> u64 \<Rightarrow> u64 \<Rightarrow> e1000_device \<Rightarrow> e1000_device" where
  "setup_tx i phys virt d =
     d\<lparr>tx_buffers := (tx_buffers d)[i := virt],
       tx_descs := (tx_descs d)[i := (tx_descs d ! i)\<lparr>tx_addr := phys, tx_cmd := TXD_CMD, tx_status := 1\<rparr>]\<rparr>"

definition RX_DESC_SIZE :: nat where "RX_DESC_SIZE = 16"
definition TX_DESC_SIZE :: nat where "TX_DESC_SIZE = 16"

definition ring_writes :: "e1000_device \<Rightarrow> (u32 \<times> u32) list" where
  "ring_writes d =
     [(E1000_REG_RDBAL, ucast (rx_descs_phys d)), (E1000_REG_RDBAL + 4, ucast (drop_bit 32 (rx_descs_phys d))),
      (E1000_REG_RDLEN, of_nat (E1000_NUM_RX_DESC * RX_DESC_SIZE)), (E1000_REG_RDH, 0), (E1000_REG_RDT, of_nat E1000_NUM_RX_DESC - 1),
      (E1000_REG_TDBAL, ucast (tx_descs_phys d)), (E1000_REG_TDBAL + 4, ucast (drop_bit 32 (tx_descs_phys d))),
      (E1000_REG_TDLEN, of_nat (E1000_NUM_TX_DESC * TX_DESC_SIZE)), (E1000_REG_TDH, 0), (E1000_REG_TDT, 0),
      (E1000_REG_RCTL, RCTL_VALUE), (E1000_REG_TCTL, TCTL_VALUE)]"

definition write_regs :: "(u32 \<times> u32) list \<Rightarrow> nic \<Rightarrow> nic" where
  "write_regs ws s = fold (\<lambda>(offset, v). e1000_write_reg offset v) ws s"

definition install_handler :: "pci_device \<Rightarrow> nic \<Rightarrow> nic" where
  "install_handler dev s =
     (let line = pci_read_config_byte (d_bus dev) (d_device dev) (d_func dev) PCI_INTERRUPT_LINE (nic_config s)
      in s\<lparr>nic_dev := (nic_dev s)\<lparr>irq := ucast line\<rparr>,
           nic_irq_line := (if unat line < 16 then Some (unat line) else nic_irq_line s)\<rparr>)"

text \<open>The status returned and the state; the steps in the order of the code.\<close>

definition e1000_attach :: "pci_device \<Rightarrow> u32 list \<Rightarrow> nic \<Rightarrow> (int \<times> nic) option" where
  "e1000_attach dev readings s =
     (if \<not> nic_heap_ok s then Some (-1, s)
      else do {
        s1 \<leftarrow> reset_device readings (read_mac (map_registers dev (enable_bus_master dev (s\<lparr>nic_dev := e1000_zero\<rparr>))));
        (ok1, s2) \<leftarrow> alloc_rx_ring s1;
        if \<not> ok1 then Some (-1, s2) else do {
        (ok2, s3) \<leftarrow> alloc_buffers setup_rx [0..<E1000_NUM_RX_DESC] s2;
        if \<not> ok2 then Some (-1, s3) else do {
        (ok3, s4) \<leftarrow> alloc_tx_ring (s3\<lparr>nic_dev := (nic_dev s3)\<lparr>rx_cur := 0\<rparr>\<rparr>);
        if \<not> ok3 then Some (-1, s4) else do {
        (ok4, s5) \<leftarrow> alloc_buffers setup_tx [0..<E1000_NUM_TX_DESC] s4;
        if \<not> ok4 then Some (-1, s5) else
        let s6 = write_regs (ring_writes (nic_dev s5)) (s5\<lparr>nic_dev := (nic_dev s5)\<lparr>tx_cur := 0\<rparr>\<rparr>);
            s7 = net_register_device (e1000_write_reg E1000_REG_IMS 0x1F6DC (install_handler dev s6))
        in do { n \<leftarrow> dhcp_client_start (nic_net s7); Some (0, s7\<lparr>nic_net := n\<rparr>) } } } } })"


subsection \<open>An interrupt delivers what the card has received\<close>

definition rx_ring_ok :: "e1000_device \<Rightarrow> bool" where
  "rx_ring_ok d \<longleftrightarrow> length (rx_descs d) = E1000_NUM_RX_DESC \<and> unat (rx_cur d) < E1000_NUM_RX_DESC"

lemma rx_give_back_ring:
  assumes "rx_ring_ok d"
  shows "rx_ring_ok (rx_give_back d)" "unat (rx_cur (rx_give_back d)) = (unat (rx_cur d) + 1) mod E1000_NUM_RX_DESC"
    "rx_buffers (rx_give_back d) = rx_buffers d" "i < E1000_NUM_RX_DESC \<Longrightarrow> rx_dd (rx_give_back d) i \<longleftrightarrow> i \<noteq> unat (rx_cur d) \<and> rx_dd d i"
    "i < E1000_NUM_RX_DESC \<Longrightarrow> rx_length (rx_descs (rx_give_back d) ! i) = rx_length (rx_descs d ! i)"
proof -
  have "(unat (rx_cur d) + 1) mod 32 < 2 ^ 16" by (rule order_less_trans [OF mod_less_divisor]) simp_all
  then show u: "unat (rx_cur (rx_give_back d)) = (unat (rx_cur d) + 1) mod E1000_NUM_RX_DESC"
    by (simp add: rx_give_back_def Let_def E1000_NUM_RX_DESC_def unat_of_nat)
  show "rx_ring_ok (rx_give_back d)" using assms unfolding rx_ring_ok_def u by (simp add: rx_give_back_def Let_def E1000_NUM_RX_DESC_def)
qed (use assms in \<open>auto simp: rx_give_back_def Let_def rx_dd_def rx_ring_ok_def nth_list_update\<close>)

lemma rx_step_run:
  assumes "rx_ring_ok (nic_dev s)" "frame_at s (unat (rx_cur (nic_dev s))) = Some f" "net_receive f (nic_net s) = Some n"
  obtains s' where "rx_step s = Some s'" "nic_net s' = n" "nic_dev s' = rx_give_back (nic_dev s)" "nic_mem s' = nic_mem s"
    "nic_regs s' E1000_REG_RDT = of_nat ((unat (rx_cur (nic_dev s)) + 1) mod E1000_NUM_RX_DESC) - 1"
proof -
  let ?d = "rx_give_back (nic_dev s)"
  have u: "(ucast (rx_cur ?d) :: u32) = of_nat ((unat (rx_cur (nic_dev s)) + 1) mod E1000_NUM_RX_DESC)"
    unfolding rx_give_back_ring(2) [OF assms(1), symmetric] by simp
  show thesis
    by (rule that [of "e1000_write_reg E1000_REG_RDT (ucast (rx_cur ?d) - 1) (s\<lparr>nic_dev := ?d, nic_net := n\<rparr>)"])
      (simp_all only: u, simp_all add: rx_step_def Let_def e1000_write_reg_def assms u)
qed

lemma frame_at_step:
  assumes "rx_ring_ok (nic_dev s)" "nic_dev s' = rx_give_back (nic_dev s)" "nic_mem s' = nic_mem s" "i < E1000_NUM_RX_DESC"
  shows "frame_at s' i = frame_at s i"
  using rx_give_back_ring [OF assms(1)] assms by (simp add: frame_at_def)

text \<open>The position \<open>k\<close> places on in the ring.\<close>

definition rx_pos :: "nic \<Rightarrow> nat \<Rightarrow> nat" where
  "rx_pos s k = (unat (rx_cur (nic_dev s)) + k) mod E1000_NUM_RX_DESC"

lemma rx_pos_lt: "rx_pos s k < E1000_NUM_RX_DESC"
  by (simp add: rx_pos_def E1000_NUM_RX_DESC_def)

lemma rx_pos_step: "rx_ring_ok (nic_dev s) \<Longrightarrow> nic_dev s' = rx_give_back (nic_dev s) \<Longrightarrow> rx_pos s' k = rx_pos s (Suc k)"
  by (simp add: rx_pos_def rx_give_back_ring(2) mod_simps)

lemma rx_pos_0: "rx_ring_ok (nic_dev s) \<Longrightarrow> rx_pos s 0 = unat (rx_cur (nic_dev s))"
  by (simp add: rx_pos_def rx_ring_ok_def)

lemma rx_pos_full: "rx_pos s E1000_NUM_RX_DESC = rx_pos s 0"
  by (simp add: rx_pos_def)

lemma rx_pos_other:
  assumes "rx_ring_ok (nic_dev s)" "0 < k" "k < E1000_NUM_RX_DESC" shows "rx_pos s k \<noteq> unat (rx_cur (nic_dev s))"
proof -
  have "c < 32 \<Longrightarrow> 0 < k \<Longrightarrow> k < 32 \<Longrightarrow> (c + k) mod 32 \<noteq> (c :: nat)" for c
    by (cases "c + k < 32") (simp_all add: not_less le_mod_geq)
  then show ?thesis using assms by (simp add: rx_pos_def rx_ring_ok_def E1000_NUM_RX_DESC_def)
qed

lemma rx_loop_run:
  assumes "rx_ring_ok (nic_dev s)" "length fs \<le> E1000_NUM_RX_DESC"
    "\<forall>i<length fs. rx_dd (nic_dev s) (rx_pos s i) \<and> frame_at s (rx_pos s i) = Some (fs ! i)"
    "length fs = E1000_NUM_RX_DESC \<or> \<not> rx_dd (nic_dev s) (rx_pos s (length fs))"
    "for_each net_receive fs (nic_net s) = Some n"
  shows "\<exists>s'. rx_loop s = Some s' \<and> nic_net s' = n \<and> rx_ring_ok (nic_dev s') \<and> rx_pos s' 0 = rx_pos s (length fs)
     \<and> (\<forall>j<E1000_NUM_RX_DESC. rx_dd (nic_dev s') j \<longleftrightarrow> rx_dd (nic_dev s) j \<and> j \<notin> rx_pos s ` {..<length fs})
     \<and> (fs \<noteq> [] \<longrightarrow> nic_regs s' E1000_REG_RDT = of_nat (rx_pos s (length fs)) - 1)"
  using assms
proof (induction fs arbitrary: s)
  case Nil
  then have "\<not> rx_dd (nic_dev s) (unat (rx_cur (nic_dev s)))" by (simp add: rx_pos_0 E1000_NUM_RX_DESC_def)
  then show ?case using Nil.prems by (simp add: rx_loop.simps [of s] rx_ring_ok_def)
next
  case (Cons f fs)
  let ?c = "unat (rx_cur (nic_dev s))"
  have f: "rx_dd (nic_dev s) ?c" "frame_at s ?c = Some f"
    using Cons.prems(3) rx_pos_0 [OF Cons.prems(1)] by (force, force)
  obtain n1 where n1: "net_receive f (nic_net s) = Some n1" "for_each net_receive fs n1 = Some n"
    using Cons.prems(5) by (auto simp: bind_eq_Some_conv)
  obtain s1 where s1: "rx_step s = Some s1" "nic_net s1 = n1" "nic_dev s1 = rx_give_back (nic_dev s)" "nic_mem s1 = nic_mem s"
    "nic_regs s1 E1000_REG_RDT = of_nat ((?c + 1) mod E1000_NUM_RX_DESC) - 1"
    by (rule rx_step_run [OF Cons.prems(1) f(2) n1(1)])
  note ring = rx_give_back_ring [OF Cons.prems(1), folded s1(3)]
  note pos = rx_pos_step [OF Cons.prems(1) s1(3)]
  have dd: "rx_dd (nic_dev s1) (rx_pos s1 i) \<longleftrightarrow> rx_pos s (Suc i) \<noteq> ?c \<and> rx_dd (nic_dev s) (rx_pos s (Suc i))" for i
    unfolding pos by (rule ring(4)) (rule rx_pos_lt)
  have len: "length fs < E1000_NUM_RX_DESC" using Cons.prems(2) by simp
  have here: "\<forall>i<length fs. rx_dd (nic_dev s1) (rx_pos s1 i) \<and> frame_at s1 (rx_pos s1 i) = Some (fs ! i)"
  proof (intro allI impI conjI)
    fix i assume i: "i < length fs"
    then have "rx_pos s (Suc i) \<noteq> ?c" using rx_pos_other [OF Cons.prems(1), of "Suc i"] len by simp
    then show "rx_dd (nic_dev s1) (rx_pos s1 i)" using Cons.prems(3) i by (auto simp: dd)
    show "frame_at s1 (rx_pos s1 i) = Some (fs ! i)"
      using Cons.prems(3) i frame_at_step [OF Cons.prems(1) s1(3,4) rx_pos_lt] by (auto simp: pos)
  qed
  have stop: "length fs = E1000_NUM_RX_DESC \<or> \<not> rx_dd (nic_dev s1) (rx_pos s1 (length fs))"
    using Cons.prems(4) len rx_pos_full [of s] rx_pos_0 [OF Cons.prems(1)] unfolding dd by auto
  obtain s' where s': "rx_loop s1 = Some s'" "nic_net s' = n" "rx_ring_ok (nic_dev s')" "rx_pos s' 0 = rx_pos s1 (length fs)"
    "\<forall>j<E1000_NUM_RX_DESC. rx_dd (nic_dev s') j \<longleftrightarrow> rx_dd (nic_dev s1) j \<and> j \<notin> rx_pos s1 ` {..<length fs}"
    "fs \<noteq> [] \<longrightarrow> nic_regs s' E1000_REG_RDT = of_nat (rx_pos s1 (length fs)) - 1"
    using Cons.IH [OF ring(1) _ here stop] n1(2) s1(2) len by auto
  have "rx_loop s = Some s'"
    using f(1) s1(1) s'(1) Cons.prems(1) by (simp add: rx_loop.simps [of s] rx_ring_ok_def)
  moreover have "rx_dd (nic_dev s') j \<longleftrightarrow> rx_dd (nic_dev s) j \<and> j \<notin> rx_pos s ` {..<length (f # fs)}" if "j < E1000_NUM_RX_DESC" for j
  proof -
    have "rx_pos s ` {..<length (f # fs)} = insert ?c (rx_pos s1 ` {..<length fs})"
      by (simp add: lessThan_Suc_eq_insert_0 image_image pos rx_pos_0 [OF Cons.prems(1)])
    then show ?thesis using s'(5) ring(4) that by auto
  qed
  moreover have "nic_regs s' E1000_REG_RDT = of_nat (rx_pos s (length (f # fs))) - 1"
  proof (cases "fs = []")
    case True
    then have "s' = s1" using s'(1) stop ring(1) len by (auto simp: rx_loop.simps [of s1] rx_ring_ok_def rx_pos_0 split: if_splits)
    then show ?thesis using True s1(5) by (simp add: rx_pos_def)
  qed (use s'(6) pos in simp)
  ultimately show ?case using s'(2-4) pos by auto
qed


text \<open>When the current position wraps to the start of the ring the tail register gets -1 and not the last
  descriptor.\<close>

lemma tail_register_wraps:
  assumes "rx_ring_ok (nic_dev s)" "rx_cur (nic_dev s) = 31" "frame_at s 31 = Some f" "net_receive f (nic_net s) = Some n"
    "rx_step s = Some s'"
  shows "nic_regs s' E1000_REG_RDT = 0xFFFFFFFF"
proof -
  have c: "unat (rx_cur (nic_dev s)) = 31" by (simp add: assms(2))
  show ?thesis
    by (rule rx_step_run [OF assms(1) _ assms(4)]) (simp_all add: c assms(3,5) E1000_NUM_RX_DESC_def)
qed

subsection \<open>Sending fills the ring in order\<close>

definition tx_pos :: "nic \<Rightarrow> nat \<Rightarrow> nat" where
  "tx_pos s k = (unat (e1000_read_reg E1000_REG_TDT s) + k) mod E1000_NUM_TX_DESC"

definition tx_ring_ok :: "nic \<Rightarrow> bool" where
  "tx_ring_ok s \<longleftrightarrow> length (tx_descs (nic_dev s)) = E1000_NUM_TX_DESC \<and> length (tx_buffers (nic_dev s)) = E1000_NUM_TX_DESC
     \<and> distinct (tx_buffers (nic_dev s)) \<and> unat (e1000_read_reg E1000_REG_TDT s) < E1000_NUM_TX_DESC"

text \<open>What the descriptor at a position tells the card to send.\<close>

definition tx_holds :: "nic \<Rightarrow> nat \<Rightarrow> u8 list \<Rightarrow> bool" where
  "tx_holds s i frame \<longleftrightarrow>
     (let d = tx_descs (nic_dev s) ! i
      in tx_cmd d = TXD_CMD \<and> tx_status d = 0 \<and> take (unat (tx_length d)) (nic_mem s (tx_buffers (nic_dev s) ! i)) = frame)"

definition tx_free :: "nic \<Rightarrow> nat \<Rightarrow> bool" where
  "tx_free s i \<longleftrightarrow> tx_status (tx_descs (nic_dev s) ! i) AND 1 \<noteq> 0"

lemma tx_pos_lt: "tx_pos s k < E1000_NUM_TX_DESC"
  by (simp add: tx_pos_def E1000_NUM_TX_DESC_def)

lemma tx_pos_other:
  assumes "tx_ring_ok s" "0 < k" "k < E1000_NUM_TX_DESC" shows "tx_pos s k \<noteq> tx_pos s 0"
proof -
  have "c < 8 \<Longrightarrow> 0 < k \<Longrightarrow> k < 8 \<Longrightarrow> (c + k) mod 8 \<noteq> (c :: nat)" for c
    by (cases "c + k < 8") (simp_all add: not_less le_mod_geq)
  then show ?thesis using assms by (simp add: tx_pos_def tx_ring_ok_def E1000_NUM_TX_DESC_def)
qed

lemma send_step:
  assumes "tx_ring_ok s" "tx_free s (tx_pos s 0)" "length f \<le> 2048"
  obtains s' where "e1000_send_packet [] f s = Some s'" "tx_ring_ok s'" "\<And>k. tx_pos s' k = tx_pos s (Suc k)"
    "tx_holds s' (tx_pos s 0) f" "\<And>i g. i < E1000_NUM_TX_DESC \<Longrightarrow> i \<noteq> tx_pos s 0 \<Longrightarrow> tx_holds s' i g \<longleftrightarrow> tx_holds s i g"
    "\<And>i. i < E1000_NUM_TX_DESC \<Longrightarrow> i \<noteq> tx_pos s 0 \<Longrightarrow> tx_free s' i \<longleftrightarrow> tx_free s i" "nic_net s' = nic_net s"
proof -
  let ?c = "unat (e1000_read_reg E1000_REG_TDT s)" and ?s = "tx_fill (tx_pos s 0) f s"
  have c: "?c < 8" using assms(1) by (simp add: tx_ring_ok_def E1000_NUM_TX_DESC_def)
  have p0: "tx_pos s 0 = ?c" using c by (simp add: tx_pos_def E1000_NUM_TX_DESC_def)
  have u16: "unat (ucast (e1000_read_reg E1000_REG_TDT s) :: u16) = ?c" using c by (simp add: unsigned_ucast_eq take_bit_nat_eq_self)
  have tdt: "unat (e1000_read_reg E1000_REG_TDT ?s) = (?c + 1) mod E1000_NUM_TX_DESC"
    by (simp add: tx_fill_def Let_def e1000_write_reg_def e1000_read_reg_def p0 unat_of_nat E1000_NUM_TX_DESC_def) 
  have len: "unat (of_nat (length f) :: u16) = length f" using assms(3) by (simp add: unat_of_nat)
  have bufs: "tx_buffers (nic_dev s) ! i \<noteq> tx_buffers (nic_dev s) ! ?c" if "i < 8" "i \<noteq> ?c" for i
    using assms(1) that c by (simp add: tx_ring_ok_def E1000_NUM_TX_DESC_def nth_eq_iff_index_eq)
  have dev: "nic_dev ?s = (nic_dev s)\<lparr>tx_descs := (tx_descs (nic_dev s))[?c := (tx_descs (nic_dev s) ! ?c)\<lparr>tx_length := of_nat (length f), tx_cmd := TXD_CMD, tx_status := 0\<rparr>]\<rparr>"
    and mem: "nic_mem ?s = (nic_mem s)(tx_buffers (nic_dev s) ! ?c := f @ drop (length f) (nic_mem s (tx_buffers (nic_dev s) ! ?c)))"
    by (simp_all add: tx_fill_def Let_def e1000_write_reg_def p0)
  show thesis
  proof (rule that [of ?s])
    show "e1000_send_packet [] f s = Some ?s"
      using assms c by (simp add: e1000_send_packet_def u16 p0 tx_free_def tx_ring_ok_def E1000_NUM_TX_DESC_def)
    show "tx_ring_ok ?s" using assms(1) unfolding tx_ring_ok_def tdt dev by (simp add: E1000_NUM_TX_DESC_def)
    show "tx_pos ?s k = tx_pos s (Suc k)" for k
      unfolding tx_pos_def [of ?s] tx_pos_def [of s "Suc k"] tdt by (simp add: mod_simps)
    show "tx_holds ?s (tx_pos s 0) f" using assms(1) c len unfolding tx_holds_def dev mem
      by (simp add: Let_def p0 tx_ring_ok_def E1000_NUM_TX_DESC_def)
    show "tx_holds ?s i g \<longleftrightarrow> tx_holds s i g" "tx_free ?s i \<longleftrightarrow> tx_free s i" if "i < E1000_NUM_TX_DESC" "i \<noteq> tx_pos s 0" for i g
      using that bufs [of i] unfolding tx_holds_def tx_free_def dev mem by (simp_all add: Let_def p0 E1000_NUM_TX_DESC_def)
    show "nic_net ?s = nic_net s" by (simp add: tx_fill_def Let_def e1000_write_reg_def)
  qed
qed

text \<open>Frames sent one after the other while the ring has room lie in the ring in that order, each in the
  buffer of its own descriptor with its own length, ready for the card, and the tail register counts them:
  no frame overwrites another.\<close>

lemma sends_fill_ring:
  assumes "tx_ring_ok s" "length fs \<le> E1000_NUM_TX_DESC" "\<forall>f\<in>set fs. length f \<le> 2048" "\<forall>i<length fs. tx_free s (tx_pos s i)"
  shows "\<exists>s'. for_each (e1000_send_packet []) fs s = Some s' \<and> tx_ring_ok s' \<and> tx_pos s' 0 = tx_pos s (length fs)
    \<and> (\<forall>i<length fs. tx_holds s' (tx_pos s i) (fs ! i))"
proof -
  have "\<exists>s'. for_each (e1000_send_packet []) fs s = Some s' \<and> tx_ring_ok s' \<and> tx_pos s' 0 = tx_pos s (length fs)
    \<and> (\<forall>i<length fs. tx_holds s' (tx_pos s i) (fs ! i))
    \<and> (\<forall>j<E1000_NUM_TX_DESC. j \<notin> tx_pos s ` {..<length fs} \<longrightarrow> (\<forall>g. tx_holds s' j g \<longleftrightarrow> tx_holds s j g))"
    using assms
  proof (induction fs arbitrary: s)
    case (Cons f fs)
    obtain s1 where s1: "e1000_send_packet [] f s = Some s1" "tx_ring_ok s1" "\<And>k. tx_pos s1 k = tx_pos s (Suc k)"
      "tx_holds s1 (tx_pos s 0) f" "\<And>i g. i < E1000_NUM_TX_DESC \<Longrightarrow> i \<noteq> tx_pos s 0 \<Longrightarrow> tx_holds s1 i g \<longleftrightarrow> tx_holds s i g"
      "\<And>i. i < E1000_NUM_TX_DESC \<Longrightarrow> i \<noteq> tx_pos s 0 \<Longrightarrow> tx_free s1 i \<longleftrightarrow> tx_free s i"
      using send_step [OF Cons.prems(1), of f] Cons.prems(3,4) by (metis length_greater_0_conv list.set_intros(1) list.discI)
    have other: "tx_pos s (Suc i) \<noteq> tx_pos s 0" if "i < length fs" for i
      using tx_pos_other [OF Cons.prems(1), of "Suc i"] Cons.prems(2) that by simp
    have free: "\<forall>i<length fs. tx_free s1 (tx_pos s1 i)"
      using s1(6) [OF tx_pos_lt other] Cons.prems(4) by (auto simp: s1(3))
    obtain s' where s': "for_each (e1000_send_packet []) fs s1 = Some s'" "tx_ring_ok s'" "tx_pos s' 0 = tx_pos s1 (length fs)"
      "\<forall>i<length fs. tx_holds s' (tx_pos s1 i) (fs ! i)"
      "\<forall>j<E1000_NUM_TX_DESC. j \<notin> tx_pos s1 ` {..<length fs} \<longrightarrow> (\<forall>g. tx_holds s' j g \<longleftrightarrow> tx_holds s1 j g)"
      using Cons.IH [OF s1(2) _ _ free] Cons.prems(2,3) by auto
    have first: "tx_pos s 0 \<notin> tx_pos s1 ` {..<length fs}" using other by (auto simp: s1(3)) (metis)
    have img: "tx_pos s ` {..<length (f # fs)} = insert (tx_pos s 0) (tx_pos s1 ` {..<length fs})"
      by (simp add: lessThan_Suc_eq_insert_0 image_image s1(3))
    have "tx_holds s' (tx_pos s i) ((f # fs) ! i)" if "i < length (f # fs)" for i
      using that s'(4,5) s1(3,4) first tx_pos_lt [of s 0] by (cases i) auto
    moreover have "\<forall>j<E1000_NUM_TX_DESC. j \<notin> tx_pos s ` {..<length (f # fs)} \<longrightarrow> (\<forall>g. tx_holds s' j g \<longleftrightarrow> tx_holds s j g)"
      unfolding img using s'(5) s1(5) by auto
    ultimately show ?case using s'(1-3) s1(1,3) by auto
  qed simp
  then show ?thesis by blast
qed

subsection \<open>Attaching\<close>

lemma nic_page:
  assumes "pmm_ready p" "pmm_free_set p \<noteq> {}"
  obtains i p' where "pmm_alloc_page p = Some (of_nat (i * PAGE_SIZE), p')" "(of_nat (i * PAGE_SIZE) :: u64) \<noteq> 0" "i \<in> pmm_free_set p"
    "pmm_ready p'" "pmm_free_set p' = pmm_free_set p - {i}" "pmm_hhdm_offset p' = pmm_hhdm_offset p" "i < 2 ^ 52"
proof -
  have inv: "pmm_inv p" and z: "0 \<notin> pmm_free_set p" using assms(1) by (auto simp: pmm_ready_def)
  obtain i where i: "i \<in> pmm_free_set p" "pmm_alloc_page p = pmm_take_page p i" using alloc_page_cases [OF inv] assms(2) by auto
  obtain p' where p': "pmm_take_page p i = Some (of_nat (i * PAGE_SIZE), p')" "pmm_inv p'" "pmm_free_set p' = pmm_free_set p - {i}"
    "pmm_hhdm_offset p' = pmm_hhdm_offset p" using take_page_spec [OF inv i(1)] by metis
  have lt: "i < 2 ^ 52" using i(1) inv by (auto simp: pmm_free_set_def pmm_inv_def)
  have "(of_nat (i * PAGE_SIZE) :: u64) \<noteq> 0"
    using unat_page_addr [OF lt] i(1) z by (metis PAGE_SIZE_def mult_is_0 unat_0 zero_neq_numeral)
  then show thesis using i p' lt z by (intro that [of i p']) (auto simp: pmm_ready_def)
qed

definition page_addr :: "nat \<Rightarrow> u64" where
  "page_addr p = of_nat (p * PAGE_SIZE)"

definition setup_all :: "(nat \<Rightarrow> u64 \<Rightarrow> u64 \<Rightarrow> e1000_device \<Rightarrow> e1000_device) \<Rightarrow> u64 \<Rightarrow> nat list \<Rightarrow> nat list \<Rightarrow> e1000_device \<Rightarrow> e1000_device" where
  "setup_all setup off is ps d = fold (\<lambda>(i, p). setup i (page_addr p) (page_addr p + off)) (zip is ps) d"

lemma alloc_buffers_run:
  assumes "pmm_ready (nic_pmm s)" "finite (pmm_free_set (nic_pmm s))" "length is \<le> card (pmm_free_set (nic_pmm s))"
  shows "\<exists>ps pm. alloc_buffers setup is s = Some (True, s\<lparr>nic_pmm := pm, nic_dev := setup_all setup (pmm_hhdm_offset (nic_pmm s)) is ps (nic_dev s)\<rparr>)
    \<and> length ps = length is \<and> distinct ps \<and> set ps \<subseteq> pmm_free_set (nic_pmm s) \<and> pmm_ready pm
    \<and> pmm_free_set pm = pmm_free_set (nic_pmm s) - set ps \<and> pmm_hhdm_offset pm = pmm_hhdm_offset (nic_pmm s)"
  using assms
proof (induction "is" arbitrary: s)
  case Nil
  then show ?case by (intro exI [of _ "[]"] exI [of _ "nic_pmm s"]) (simp add: setup_all_def)
next
  case (Cons i "is")
  obtain p p' where p: "pmm_alloc_page (nic_pmm s) = Some (of_nat (p * PAGE_SIZE), p')" "(of_nat (p * PAGE_SIZE) :: u64) \<noteq> 0"
    "p \<in> pmm_free_set (nic_pmm s)" "pmm_ready p'" "pmm_free_set p' = pmm_free_set (nic_pmm s) - {p}"
    "pmm_hhdm_offset p' = pmm_hhdm_offset (nic_pmm s)"
    using nic_page [OF Cons.prems(1)] Cons.prems(3) by (metis card.empty length_Cons not_less_eq_eq zero_le)
  let ?s = "s\<lparr>nic_pmm := p', nic_dev := setup i (of_nat (p * PAGE_SIZE)) (p_to_v p' (of_nat (p * PAGE_SIZE))) (nic_dev s)\<rparr>"
  have "length is \<le> card (pmm_free_set p')" using Cons.prems p(3) by (simp add: p(5))
  then obtain ps pm where ps: "alloc_buffers setup is ?s = Some (True, ?s\<lparr>nic_pmm := pm, nic_dev := setup_all setup (pmm_hhdm_offset p') is ps (nic_dev ?s)\<rparr>)"
    "length ps = length is" "distinct ps" "set ps \<subseteq> pmm_free_set p'" "pmm_ready pm" "pmm_free_set pm = pmm_free_set p' - set ps"
    "pmm_hhdm_offset pm = pmm_hhdm_offset p'"
    using Cons.IH [of ?s] p(4,5) Cons.prems(2) by auto
  show ?case
    by (intro exI [of _ "p # ps"] exI [of _ pm]) (use ps p in \<open>auto simp: setup_all_def page_addr_def p_to_v_def\<close>)
qed

lemma fold_update_all:
  assumes "j + length ps \<le> length xs"
  shows "fold (\<lambda>(i, p) xs. xs[i := g p (xs ! i)]) (zip [j..<j + length ps] ps) xs
    = take j xs @ map2 g ps (take (length ps) (drop j xs)) @ drop (j + length ps) xs"
  using assms
proof (induction ps arbitrary: j xs)
  case (Cons p ps)
  let ?xs = "xs[j := g p (xs ! j)]"
  have j: "[j..<j + length (p # ps)] = j # [Suc j..<Suc j + length ps]"
    using upt_conv_Cons [of j "j + length (p # ps)"] by (simp del: upt_Suc)
  have t: "take (Suc j) ?xs = take j xs @ [g p (xs ! j)]" "drop (Suc j) ?xs = drop (Suc j) xs" "drop j xs = xs ! j # drop (Suc j) xs"
    using Cons.prems by (simp_all add: take_Suc_conv_app_nth Cons_nth_drop_Suc)
  have "drop (Suc j + length ps) ?xs = drop (Suc j + length ps) xs" by simp
  then show ?case using Cons.IH [of "Suc j" ?xs] Cons.prems t unfolding j by simp
qed simp

lemma setup_rx_all:
  "setup_all setup_rx off is ps d =
     d\<lparr>rx_buffers := fold (\<lambda>(i, p) xs. xs[i := page_addr p + off]) (zip is ps) (rx_buffers d),
       rx_descs := fold (\<lambda>(i, p) xs. xs[i := (xs ! i)\<lparr>rx_addr := page_addr p, rx_status := 0\<rparr>]) (zip is ps) (rx_descs d)\<rparr>"
proof -
  have "fold (\<lambda>(i, p). setup_rx i (page_addr p) (page_addr p + off)) qs d =
     d\<lparr>rx_buffers := fold (\<lambda>(i, p) xs. xs[i := page_addr p + off]) qs (rx_buffers d),
       rx_descs := fold (\<lambda>(i, p) xs. xs[i := (xs ! i)\<lparr>rx_addr := page_addr p, rx_status := 0\<rparr>]) qs (rx_descs d)\<rparr>" for qs
    by (induction qs arbitrary: d) (auto simp: setup_rx_def)
  then show ?thesis by (simp add: setup_all_def)
qed

lemma setup_tx_all:
  "setup_all setup_tx off is ps d =
     d\<lparr>tx_buffers := fold (\<lambda>(i, p) xs. xs[i := page_addr p + off]) (zip is ps) (tx_buffers d),
       tx_descs := fold (\<lambda>(i, p) xs. xs[i := (xs ! i)\<lparr>tx_addr := page_addr p, tx_cmd := TXD_CMD, tx_status := 1\<rparr>]) (zip is ps) (tx_descs d)\<rparr>"
proof -
  have "fold (\<lambda>(i, p). setup_tx i (page_addr p) (page_addr p + off)) qs d =
     d\<lparr>tx_buffers := fold (\<lambda>(i, p) xs. xs[i := page_addr p + off]) qs (tx_buffers d),
       tx_descs := fold (\<lambda>(i, p) xs. xs[i := (xs ! i)\<lparr>tx_addr := page_addr p, tx_cmd := TXD_CMD, tx_status := 1\<rparr>]) qs (tx_descs d)\<rparr>" for qs
    by (induction qs arbitrary: d) (auto simp: setup_tx_def)
  then show ?thesis by (simp add: setup_all_def)
qed

lemma update_all:
  assumes "length ps = n" shows "fold (\<lambda>(i, p) xs. xs[i := g p (xs ! i)]) (zip [0..<n] ps) (replicate n x) = map (\<lambda>p. g p x) ps"
proof -
  have "map2 g ps (replicate (length ps) x) = map (\<lambda>p. g p x) ps" by (induction ps) auto
  then show ?thesis using fold_update_all [of 0 ps "replicate n x" g] assms by simp
qed

lemma rx_ring_built:
  assumes "length ps = E1000_NUM_RX_DESC" "rx_buffers d = replicate E1000_NUM_RX_DESC b"
    "rx_descs d = replicate E1000_NUM_RX_DESC \<lparr>rx_addr = 0, rx_length = 0, rx_status = 0\<rparr>"
  shows "setup_all setup_rx off [0..<E1000_NUM_RX_DESC] ps d =
    d\<lparr>rx_buffers := map (\<lambda>p. page_addr p + off) ps, rx_descs := map (\<lambda>p. \<lparr>rx_addr = page_addr p, rx_length = 0, rx_status = 0\<rparr>) ps\<rparr>"
  unfolding setup_rx_all assms(2,3) using update_all [OF assms(1), of "\<lambda>p _. page_addr p + off" b]
    update_all [OF assms(1), of "\<lambda>p x. x\<lparr>rx_addr := page_addr p, rx_status := 0\<rparr>" "\<lparr>rx_addr = 0, rx_length = 0, rx_status = 0\<rparr>"] by simp

lemma tx_ring_built:
  assumes "length ps = E1000_NUM_TX_DESC" "tx_buffers d = replicate E1000_NUM_TX_DESC b"
    "tx_descs d = replicate E1000_NUM_TX_DESC \<lparr>tx_addr = 0, tx_length = 0, tx_cmd = 0, tx_status = 0\<rparr>"
  shows "setup_all setup_tx off [0..<E1000_NUM_TX_DESC] ps d =
    d\<lparr>tx_buffers := map (\<lambda>p. page_addr p + off) ps,
      tx_descs := map (\<lambda>p. \<lparr>tx_addr = page_addr p, tx_length = 0, tx_cmd = TXD_CMD, tx_status = 1\<rparr>) ps\<rparr>"
  unfolding setup_tx_all assms(2,3) using update_all [OF assms(1), of "\<lambda>p _. page_addr p + off" b]
    update_all [OF assms(1), of "\<lambda>p x. x\<lparr>tx_addr := page_addr p, tx_cmd := TXD_CMD, tx_status := 1\<rparr>"
      "\<lparr>tx_addr = 0, tx_length = 0, tx_cmd = 0, tx_status = 0\<rparr>"] by simp

definition mac_in_regs :: "nic \<Rightarrow> u8 list" where
  "mac_in_regs s = mac_addr (nic_dev (read_mac s))"

lemma enable_bus_master_keeps:
  "nic_regs (enable_bus_master dev s) = nic_regs s" "nic_pmm (enable_bus_master dev s) = nic_pmm s" "nic_net (enable_bus_master dev s) = nic_net s"
  "rx_buffers (nic_dev (enable_bus_master dev s)) = rx_buffers (nic_dev s)" "tx_buffers (nic_dev (enable_bus_master dev s)) = tx_buffers (nic_dev s)"
  by (simp_all add: enable_bus_master_def Let_def)

lemma map_registers_keeps:
  "nic_regs (map_registers dev s) = nic_regs s" "nic_pmm (map_registers dev s) = nic_pmm s" "nic_net (map_registers dev s) = nic_net s"
  "nic_config (map_registers dev s) = nic_config s"
  "rx_buffers (nic_dev (map_registers dev s)) = rx_buffers (nic_dev s)" "tx_buffers (nic_dev (map_registers dev s)) = tx_buffers (nic_dev s)"
  by (simp_all add: map_registers_def Let_def)

lemma read_mac_keeps:
  "nic_pmm (read_mac s) = nic_pmm s" "nic_net (read_mac s) = nic_net s" "nic_config (read_mac s) = nic_config s"
  "rx_buffers (nic_dev (read_mac s)) = rx_buffers (nic_dev s)" "tx_buffers (nic_dev (read_mac s)) = tx_buffers (nic_dev s)"
  by (simp_all add: read_mac_def Let_def)

lemma read_mac_regs: "nic_regs s = nic_regs t \<Longrightarrow> mac_addr (nic_dev (read_mac s)) = mac_in_regs t"
proof -
  have "mac_addr (nic_dev (s\<lparr>nic_dev := (nic_dev s)\<lparr>mac_addr := l\<rparr>\<rparr>)) = l" for s :: nic and l by simp
  then show "nic_regs s = nic_regs t \<Longrightarrow> ?thesis" unfolding mac_in_regs_def read_mac_def Let_def e1000_read_reg_def by (simp only:)
qed

lemma write_reg_keeps:
  "nic_pmm (e1000_write_reg a v s) = nic_pmm s" "nic_net (e1000_write_reg a v s) = nic_net s"
  "nic_config (e1000_write_reg a v s) = nic_config s" "nic_dev (e1000_write_reg a v s) = nic_dev s"
  by (simp_all add: e1000_write_reg_def)

lemma reset_run:
  assumes "\<exists>v\<in>set readings. v AND push_bit 26 1 = 0"
  obtains s1 where "reset_device readings (read_mac (map_registers dev (enable_bus_master dev (s\<lparr>nic_dev := e1000_zero\<rparr>)))) = Some s1"
    "nic_pmm s1 = nic_pmm s" "nic_net s1 = nic_net s"
    "rx_buffers (nic_dev s1) = replicate E1000_NUM_RX_DESC 0" "tx_buffers (nic_dev s1) = replicate E1000_NUM_TX_DESC 0"
    "mac_addr (nic_dev s1) = mac_in_regs s"
    "nic_config s1 = pci_write_config_word (d_bus dev) (d_device dev) (d_func dev) PCI_COMMAND
       (pci_read_config_word (d_bus dev) (d_device dev) (d_func dev) PCI_COMMAND (nic_config s) OR push_bit 2 1) (nic_config s)"
proof -
  obtain v where v: "List.find (\<lambda>v. v AND push_bit 26 1 = 0) readings = Some v"
    using assms by (cases "List.find (\<lambda>v. v AND push_bit 26 1 = 0) readings") (auto simp only: find_None_iff option.inject)
  let ?s0 = "map_registers dev (enable_bus_master dev (s\<lparr>nic_dev := e1000_zero\<rparr>))"
  let ?s = "read_mac ?s0"
  let ?w = "e1000_write_reg E1000_REG_CTRL (e1000_read_reg E1000_REG_CTRL ?s OR push_bit 26 1) (e1000_write_reg E1000_REG_IMC 0xFFFFFFFF ?s)"
  let ?s1 = "?w\<lparr>nic_regs := (nic_regs ?w)(E1000_REG_CTRL := v)\<rparr>"
  have m: "mac_addr (nic_dev ?s) = mac_in_regs s"
    by (rule read_mac_regs) (simp only: map_registers_keeps enable_bus_master_keeps, simp)
  have r: "reset_device readings ?s = Some ?s1"
    unfolding reset_device_def Let_def v option.case ..
  have c: "nic_config (enable_bus_master dev (s\<lparr>nic_dev := e1000_zero\<rparr>)) = pci_write_config_word (d_bus dev) (d_device dev) (d_func dev) PCI_COMMAND
       (pci_read_config_word (d_bus dev) (d_device dev) (d_func dev) PCI_COMMAND (nic_config s) OR push_bit 2 1) (nic_config s)"
    by (simp add: enable_bus_master_def Let_def)
  have u: "nic_pmm (t\<lparr>nic_regs := x\<rparr>) = nic_pmm t" "nic_net (t\<lparr>nic_regs := x\<rparr>) = nic_net t" "nic_config (t\<lparr>nic_regs := x\<rparr>) = nic_config t"
    "nic_dev (t\<lparr>nic_regs := x\<rparr>) = nic_dev t" for t x by simp_all
  have z: "rx_buffers e1000_zero = replicate E1000_NUM_RX_DESC 0" "tx_buffers e1000_zero = replicate E1000_NUM_TX_DESC 0"
    "nic_pmm (s\<lparr>nic_dev := e1000_zero\<rparr>) = nic_pmm s" "nic_net (s\<lparr>nic_dev := e1000_zero\<rparr>) = nic_net s" "nic_dev (s\<lparr>nic_dev := e1000_zero\<rparr>) = e1000_zero"
    by (simp_all add: e1000_zero_def)
  show thesis
    by (rule that [OF r]) (simp_all only: u write_reg_keeps m c z read_mac_keeps map_registers_keeps enable_bus_master_keeps)
qed

lemma write_regs_keeps:
  "nic_dev (write_regs ws s) = nic_dev s" "nic_net (write_regs ws s) = nic_net s" "nic_pmm (write_regs ws s) = nic_pmm s"
  "nic_config (write_regs ws s) = nic_config s"
  "nic_regs (write_regs ws s) r = (case map_of (rev ws) r of None \<Rightarrow> nic_regs s r | Some v \<Rightarrow> v)"
  unfolding write_regs_def
  by (induction ws arbitrary: s) (auto simp: e1000_write_reg_def map_of_append split: option.splits)

lemma dhcp_starts:
  assumes "dev_mac n = Some mac" "\<forall>k. kmalloc_ok n k"
  obtains n' where "dhcp_client_start n = Some n'" "dev_mac n' = Some mac"
  using dhcp_send_ok [OF assms]
  by (cases "dhcp_state n = DHCP_STATE_INIT") (auto simp: dhcp_client_start_def dhcp_send_discover_def assms)


lemma finite_free_pages: "finite (pmm_free_set p)"
  by (rule finite_subset [of _ "{..<pmm_total_pages p}"]) (auto simp: pmm_free_set_def)

lemma page_addr_inj:
  assumes "i < 2 ^ 52" "j < 2 ^ 52" "page_addr i = page_addr j" shows "i = j"
  using assms unat_page_addr [of i] unat_page_addr [of j] unfolding page_addr_def by (metis PAGE_SIZE_def mult_cancel2 zero_neq_numeral)

lemma ready_page_lt: "pmm_ready p \<Longrightarrow> i \<in> pmm_free_set p \<Longrightarrow> i < 2 ^ 52"
  by (auto simp: pmm_ready_def pmm_inv_def pmm_free_set_def)

text \<open>The four allocations one after the other.\<close>

lemma rings_alloc:
  assumes "pmm_ready (nic_pmm s)" "42 \<le> card (pmm_free_set (nic_pmm s))"
    "rx_buffers (nic_dev s) = replicate E1000_NUM_RX_DESC b" "tx_buffers (nic_dev s) = replicate E1000_NUM_TX_DESC b'"
  shows "\<exists>s2 s3 s4 s5 r rs t ts pm. alloc_rx_ring s = Some (True, s2) \<and> alloc_buffers setup_rx [0..<E1000_NUM_RX_DESC] s2 = Some (True, s3)
    \<and> alloc_tx_ring (s3\<lparr>nic_dev := (nic_dev s3)\<lparr>rx_cur := 0\<rparr>\<rparr>) = Some (True, s4) \<and> alloc_buffers setup_tx [0..<E1000_NUM_TX_DESC] s4 = Some (True, s5)
    \<and> length rs = E1000_NUM_RX_DESC \<and> length ts = E1000_NUM_TX_DESC \<and> distinct (r # rs @ t # ts) \<and> set (r # rs @ t # ts) \<subseteq> pmm_free_set (nic_pmm s)
    \<and> pmm_free_set pm = pmm_free_set (nic_pmm s) - set (r # rs @ t # ts)
    \<and> s5 = s\<lparr>nic_pmm := pm, nic_dev := (nic_dev s)\<lparr>rx_descs_phys := page_addr r, tx_descs_phys := page_addr t, rx_cur := 0,
        rx_buffers := map (\<lambda>p. page_addr p + pmm_hhdm_offset (nic_pmm s)) rs,
        rx_descs := map (\<lambda>p. \<lparr>rx_addr = page_addr p, rx_length = 0, rx_status = 0\<rparr>) rs,
        tx_buffers := map (\<lambda>p. page_addr p + pmm_hhdm_offset (nic_pmm s)) ts,
        tx_descs := map (\<lambda>p. \<lparr>tx_addr = page_addr p, tx_length = 0, tx_cmd = TXD_CMD, tx_status = 1\<rparr>) ts\<rparr>\<rparr>"
proof -
  let ?off = "pmm_hhdm_offset (nic_pmm s)"
  have card: "card (A - {x}) = card A - 1" if "x \<in> A" for x :: nat and A using that by simp
  have ne: "pmm_free_set (nic_pmm s) \<noteq> {}" using assms(2) by auto
  obtain r pm1 where r: "pmm_alloc_page (nic_pmm s) = Some (page_addr r, pm1)" "page_addr r \<noteq> 0" "r \<in> pmm_free_set (nic_pmm s)" "pmm_ready pm1"
    "pmm_free_set pm1 = pmm_free_set (nic_pmm s) - {r}" "pmm_hhdm_offset pm1 = ?off"
    using nic_page [OF assms(1) ne] unfolding page_addr_def by metis
  let ?s2 = "s\<lparr>nic_pmm := pm1, nic_dev := (nic_dev s)\<lparr>rx_descs_phys := page_addr r,
                           rx_descs := replicate E1000_NUM_RX_DESC \<lparr>rx_addr = 0, rx_length = 0, rx_status = 0\<rparr>\<rparr>\<rparr>"
  have a1: "alloc_rx_ring s = Some (True, ?s2)" using r(1,2) by (simp add: alloc_rx_ring_def)
  have c1: "41 \<le> card (pmm_free_set pm1)" using assms(2) by (simp add: r(5) card [OF r(3)])
  obtain rs pm2 where rs: "alloc_buffers setup_rx [0..<E1000_NUM_RX_DESC] ?s2 = Some (True, ?s2\<lparr>nic_pmm := pm2,
      nic_dev := setup_all setup_rx ?off [0..<E1000_NUM_RX_DESC] rs (nic_dev ?s2)\<rparr>)"
    "length rs = E1000_NUM_RX_DESC" "distinct rs" "set rs \<subseteq> pmm_free_set pm1" "pmm_ready pm2"
    "pmm_free_set pm2 = pmm_free_set pm1 - set rs" "pmm_hhdm_offset pm2 = ?off"
    using alloc_buffers_run [of ?s2 "[0..<E1000_NUM_RX_DESC]" setup_rx] r(4,6) c1 finite_free_pages by (auto simp: E1000_NUM_RX_DESC_def simp del: upt_rec_numeral upt_Suc)
  have c2: "9 \<le> card (pmm_free_set pm2)"
    using c1 card_Diff_subset [OF _ rs(4)] distinct_card [OF rs(3)] rs(2) by (simp add: rs(6) E1000_NUM_RX_DESC_def)
  let ?d2 = "(nic_dev s)\<lparr>rx_descs_phys := page_addr r, rx_buffers := map (\<lambda>p. page_addr p + ?off) rs,
        rx_descs := map (\<lambda>p. \<lparr>rx_addr = page_addr p, rx_length = 0, rx_status = 0\<rparr>) rs\<rparr>"
  have d2: "setup_all setup_rx ?off [0..<E1000_NUM_RX_DESC] rs (nic_dev ?s2) = ?d2"
    by (subst rx_ring_built [OF rs(2), of _ b]) (simp_all add: assms(3))
  let ?s3 = "s\<lparr>nic_pmm := pm2, nic_dev := ?d2\<rparr>"
  have a2: "alloc_buffers setup_rx [0..<E1000_NUM_RX_DESC] ?s2 = Some (True, ?s3)" unfolding rs(1) d2 by simp
  have ne2: "pmm_free_set pm2 \<noteq> {}" using c2 by auto
  obtain t pm3 where t: "pmm_alloc_page pm2 = Some (page_addr t, pm3)" "page_addr t \<noteq> 0" "t \<in> pmm_free_set pm2" "pmm_ready pm3"
    "pmm_free_set pm3 = pmm_free_set pm2 - {t}" "pmm_hhdm_offset pm3 = ?off"
    using nic_page [OF rs(5) ne2] rs(7) unfolding page_addr_def by metis
  let ?s4 = "?s3\<lparr>nic_pmm := pm3, nic_dev := ?d2\<lparr>rx_cur := 0, tx_descs_phys := page_addr t,
                   tx_descs := replicate E1000_NUM_TX_DESC \<lparr>tx_addr = 0, tx_length = 0, tx_cmd = 0, tx_status = 0\<rparr>\<rparr>\<rparr>"
  have a3: "alloc_tx_ring (?s3\<lparr>nic_dev := (nic_dev ?s3)\<lparr>rx_cur := 0\<rparr>\<rparr>) = Some (True, ?s4)" using t(1,2) by (simp add: alloc_tx_ring_def)
  have c3: "8 \<le> card (pmm_free_set pm3)" using c2 by (simp add: t(5) card [OF t(3)])
  obtain ts pm where ts: "alloc_buffers setup_tx [0..<E1000_NUM_TX_DESC] ?s4 = Some (True, ?s4\<lparr>nic_pmm := pm,
      nic_dev := setup_all setup_tx ?off [0..<E1000_NUM_TX_DESC] ts (nic_dev ?s4)\<rparr>)"
    "length ts = E1000_NUM_TX_DESC" "distinct ts" "set ts \<subseteq> pmm_free_set pm3" "pmm_free_set pm = pmm_free_set pm3 - set ts"
    using alloc_buffers_run [of ?s4 "[0..<E1000_NUM_TX_DESC]" setup_tx] t(4,6) c3 finite_free_pages by (auto simp: E1000_NUM_TX_DESC_def simp del: upt_rec_numeral upt_Suc)
  have d4: "setup_all setup_tx ?off [0..<E1000_NUM_TX_DESC] ts (nic_dev ?s4) = ?d2\<lparr>rx_cur := 0, tx_descs_phys := page_addr t,
     tx_buffers := map (\<lambda>p. page_addr p + ?off) ts,
     tx_descs := map (\<lambda>p. \<lparr>tx_addr = page_addr p, tx_length = 0, tx_cmd = TXD_CMD, tx_status = 1\<rparr>) ts\<rparr>"
    by (subst tx_ring_built [OF ts(2), of _ b']) (simp_all add: assms(4))
  have sets: "distinct (r # rs @ t # ts)" "set (r # rs @ t # ts) \<subseteq> pmm_free_set (nic_pmm s)"
    "pmm_free_set pm = pmm_free_set (nic_pmm s) - set (r # rs @ t # ts)"
    using r(3,5) rs(3,4,6) t(3,5) ts(3,4,5) by auto
  show ?thesis
    by (intro exI conjI, rule a1, rule a2, rule a3, rule ts(1), rule rs(2), rule ts(2), rule sets, rule sets, rule sets) (simp only: d4, simp)
qed

text \<open>Attaching a card, with the heap and 42 free pages at hand and a card that comes out of its reset: every
  descriptor of both rings gets a page of its own, the rings and their buffers are 42 distinct pages that
  were free and are not any more, and no other page is touched; the receive ring is empty and the transmit
  ring free, the card is told the addresses of the rings and is the device the network sends through, with the hardware address its registers hold.\<close>

lemma attach_builds_rings:
  assumes "nic_heap_ok s" "pmm_ready (nic_pmm s)" "42 \<le> card (pmm_free_set (nic_pmm s))"
    and "\<exists>v\<in>set readings. v AND push_bit 26 1 = 0" "\<forall>k. kmalloc_ok (nic_net s) k"
  shows "\<exists>s' r rs t ts. e1000_attach dev readings s = Some (0, s')
    \<and> length rs = 32 \<and> length ts = 8 \<and> distinct (r # rs @ t # ts) \<and> set (r # rs @ t # ts) \<subseteq> pmm_free_set (nic_pmm s)
    \<and> pmm_free_set (nic_pmm s') = pmm_free_set (nic_pmm s) - set (r # rs @ t # ts)
    \<and> map rx_addr (rx_descs (nic_dev s')) = map page_addr rs \<and> map tx_addr (tx_descs (nic_dev s')) = map page_addr ts
    \<and> rx_ring_ok (nic_dev s') \<and> (\<forall>i<32. \<not> rx_dd (nic_dev s') i) \<and> tx_ring_ok s' \<and> (\<forall>i<8. tx_free s' i)
    \<and> nic_regs s' E1000_REG_RDBAL = ucast (page_addr r) \<and> nic_regs s' (E1000_REG_RDBAL + 4) = ucast (drop_bit 32 (page_addr r))
    \<and> nic_regs s' E1000_REG_TDBAL = ucast (page_addr t) \<and> nic_regs s' (E1000_REG_TDBAL + 4) = ucast (drop_bit 32 (page_addr t))
    \<and> dev_mac (nic_net s') = Some (mac_in_regs s)"
proof -
  obtain s1 where s1: "reset_device readings (read_mac (map_registers dev (enable_bus_master dev (s\<lparr>nic_dev := e1000_zero\<rparr>)))) = Some s1"
    "nic_pmm s1 = nic_pmm s" "nic_net s1 = nic_net s"
    "rx_buffers (nic_dev s1) = replicate E1000_NUM_RX_DESC 0" "tx_buffers (nic_dev s1) = replicate E1000_NUM_TX_DESC 0"
    "mac_addr (nic_dev s1) = mac_in_regs s"
    using reset_run [OF assms(4), of dev s] by metis
  let ?off = "pmm_hhdm_offset (nic_pmm s)"
  have rdy: "pmm_ready (nic_pmm s1)" "42 \<le> card (pmm_free_set (nic_pmm s1))" using assms(2,3) s1(2) by simp_all
  obtain s2 s3 s4 s5 r rs t ts pm where a: "alloc_rx_ring s1 = Some (True, s2)"
    "alloc_buffers setup_rx [0..<E1000_NUM_RX_DESC] s2 = Some (True, s3)"
    "alloc_tx_ring (s3\<lparr>nic_dev := (nic_dev s3)\<lparr>rx_cur := 0\<rparr>\<rparr>) = Some (True, s4)"
    "alloc_buffers setup_tx [0..<E1000_NUM_TX_DESC] s4 = Some (True, s5)"
    "length rs = E1000_NUM_RX_DESC" "length ts = E1000_NUM_TX_DESC" "distinct (r # rs @ t # ts)" "set (r # rs @ t # ts) \<subseteq> pmm_free_set (nic_pmm s1)"
    "pmm_free_set pm = pmm_free_set (nic_pmm s1) - set (r # rs @ t # ts)"
    "s5 = s1\<lparr>nic_pmm := pm, nic_dev := (nic_dev s1)\<lparr>rx_descs_phys := page_addr r, tx_descs_phys := page_addr t, rx_cur := 0,
        rx_buffers := map (\<lambda>p. page_addr p + pmm_hhdm_offset (nic_pmm s1)) rs,
        rx_descs := map (\<lambda>p. \<lparr>rx_addr = page_addr p, rx_length = 0, rx_status = 0\<rparr>) rs,
        tx_buffers := map (\<lambda>p. page_addr p + pmm_hhdm_offset (nic_pmm s1)) ts,
        tx_descs := map (\<lambda>p. \<lparr>tx_addr = page_addr p, tx_length = 0, tx_cmd = TXD_CMD, tx_status = 1\<rparr>) ts\<rparr>\<rparr>"
    using rings_alloc [OF rdy s1(4,5)] by (elim exE conjE) (rule that; assumption)
  have dev5: "rx_descs (nic_dev s5) = map (\<lambda>p. \<lparr>rx_addr = page_addr p, rx_length = 0, rx_status = 0\<rparr>) rs"
    "tx_descs (nic_dev s5) = map (\<lambda>p. \<lparr>tx_addr = page_addr p, tx_length = 0, tx_cmd = TXD_CMD, tx_status = 1\<rparr>) ts"
    "tx_buffers (nic_dev s5) = map (\<lambda>p. page_addr p + ?off) ts" "rx_cur (nic_dev s5) = 0" "rx_descs_phys (nic_dev s5) = page_addr r"
    "tx_descs_phys (nic_dev s5) = page_addr t" "mac_addr (nic_dev s5) = mac_in_regs s" "nic_pmm s5 = pm" "nic_net s5 = nic_net s"
    by (simp_all add: a(10) s1(2,3,6))
  define s6 where "s6 = write_regs (ring_writes (nic_dev s5)) (s5\<lparr>nic_dev := (nic_dev s5)\<lparr>tx_cur := 0\<rparr>\<rparr>)"
  define s7 where "s7 = net_register_device (e1000_write_reg E1000_REG_IMS 0x1F6DC (install_handler dev s6))"
  have s6: "nic_dev s6 = (nic_dev s5)\<lparr>tx_cur := 0\<rparr>" "nic_net s6 = nic_net s" "nic_pmm s6 = pm" by (simp_all add: s6_def write_regs_keeps dev5)
  have s7: "nic_net s7 = (nic_net s)\<lparr>dev_mac := Some (mac_in_regs s)\<rparr>" "nic_pmm s7 = pm" "rx_descs (nic_dev s7) = rx_descs (nic_dev s5)"
    "tx_descs (nic_dev s7) = tx_descs (nic_dev s5)" "tx_buffers (nic_dev s7) = tx_buffers (nic_dev s5)" "rx_cur (nic_dev s7) = 0"
    "nic_regs s7 = (nic_regs s6)(E1000_REG_IMS := 0x1F6DC)"
    by (simp_all add: s7_def net_register_device_def install_handler_def e1000_write_reg_def Let_def s6 dev5)
  obtain n where n: "dhcp_client_start (nic_net s7) = Some n" "dev_mac n = Some (mac_in_regs s)"
    using dhcp_starts [of "nic_net s7" "mac_in_regs s"] assms(5) by (auto simp: s7(1))
  let ?s = "s7\<lparr>nic_net := n\<rparr>"
  have run: "e1000_attach dev readings s = Some (0, ?s)"
    unfolding e1000_attach_def using assms(1) s1(1) a(1-4) n(1)
    by (simp add: Let_def flip: s6_def s7_def)
  have regs: "nic_regs s7 E1000_REG_RDBAL = ucast (page_addr r)" "nic_regs s7 (E1000_REG_RDBAL + 4) = ucast (drop_bit 32 (page_addr r))"
    "nic_regs s7 E1000_REG_TDBAL = ucast (page_addr t)" "nic_regs s7 (E1000_REG_TDBAL + 4) = ucast (drop_bit 32 (page_addr t))"
    "nic_regs s7 E1000_REG_TDT = 0"
    unfolding s7(7) s6_def write_regs_keeps ring_writes_def dev5
    by (simp_all add: E1000_REG_RDBAL_def E1000_REG_RDLEN_def E1000_REG_RDH_def E1000_REG_RDT_def E1000_REG_TDBAL_def
        E1000_REG_TDLEN_def E1000_REG_TDH_def E1000_REG_TDT_def E1000_REG_RCTL_def E1000_REG_TCTL_def E1000_REG_IMS_def)
  have ts_dist: "distinct (map (\<lambda>p. page_addr p + ?off) ts)"
  proof -
    have sub: "set ts \<subseteq> pmm_free_set (nic_pmm s1)" using a(8) by simp
    have "inj_on (\<lambda>p. page_addr p + ?off) (set ts)"
    proof (rule inj_onI)
      fix x y assume xy: "x \<in> set ts" "y \<in> set ts" "page_addr x + ?off = page_addr y + ?off"
      show "x = y"
        by (rule page_addr_inj [OF ready_page_lt [OF rdy(1)] ready_page_lt [OF rdy(1)]]) (use xy sub in auto)
    qed
    then show ?thesis using a(7) by (simp add: distinct_map)
  qed
  show ?thesis
    using run a(5-9) s1(2) regs ts_dist
    by (intro exI [of _ ?s] exI [of _ r] exI [of _ rs] exI [of _ t] exI [of _ ts])
      (simp add: s7 dev5 n(2) rx_ring_ok_def rx_dd_def tx_ring_ok_def tx_free_def e1000_read_reg_def E1000_NUM_RX_DESC_def E1000_NUM_TX_DESC_def
        comp_def)
qed


definition pages_demo :: pmm_state where
  "pages_demo = pmm_boot\<lparr>pmm_bitmap := 1 # replicate 7 0, pmm_total_pages := 64, pmm_last_free_page := 0\<rparr>"

lemma pages_demo_free: "pmm_free_set pages_demo = {1..<64}"
proof -
  have "page_used (1 # replicate 7 0) i \<longleftrightarrow> i = 0" if "i < 64" for i
  proof (cases "i div 8")
    case 0
    then show ?thesis by (simp add: page_used_def bit_1_iff div_eq_0_iff)
  next
    case (Suc k)
    then have "k < 7" using that by simp
    moreover have "i \<noteq> 0" using Suc by (cases i) simp_all
    ultimately show ?thesis using Suc by (simp add: page_used_def)
  qed
  then show ?thesis by (auto simp: pmm_free_set_def pages_demo_def)
qed

lemma pages_demo_ready: "pmm_ready pages_demo"
  unfolding pmm_ready_def pages_demo_free by (simp add: pmm_inv_def pages_demo_def)

definition nic_demo :: nic where
  "nic_demo = \<lparr>nic_dev = e1000_zero\<lparr>rx_descs := \<lparr>rx_addr = 0, rx_length = 60, rx_status = 1\<rparr> # replicate 31 \<lparr>rx_addr = 0, rx_length = 0, rx_status = 0\<rparr>,
       tx_descs := replicate 8 \<lparr>tx_addr = 0, tx_length = 0, tx_cmd = 0, tx_status = 1\<rparr>, tx_buffers := map of_nat [0..<8]\<rparr>,
     nic_regs = (\<lambda>r. if r = E1000_REG_ICR then 0x80 else 0), nic_writes = [], nic_mem = (\<lambda>_. replicate 4096 0), nic_net = net_demo 1 0x0A000001,
     nic_config = (\<lambda>_. 0xFFFFFFFF), nic_pmm = pages_demo, nic_heap_ok = True, nic_irq_line = None\<rparr>"

lemma attach_builds_rings_witness:
  "\<exists>s'. e1000_attach \<lparr>d_bus = 0, d_device = 2, d_func = 0, d_vendor = 0x8086, d_id = 0x100e, d_driver = None, d_private = None\<rparr> [0x04000000, 0] nic_demo = Some (0, s')
     \<and> tx_ring_ok s' \<and> dev_mac (nic_net s') = Some [0, 0, 0, 0, 0, 0]"
proof -
  have "\<forall>k. kmalloc_ok (nic_net nic_demo) k" "nic_pmm nic_demo = pages_demo" "nic_heap_ok nic_demo"
    by (simp_all add: nic_demo_def net_demo_def)
  moreover have "mac_in_regs nic_demo = [0, 0, 0, 0, 0, 0]"
    by (simp add: mac_in_regs_def read_mac_def nic_demo_def e1000_read_reg_def Let_def E1000_REG_RA_def E1000_REG_ICR_def)
  ultimately show ?thesis
    using attach_builds_rings [of nic_demo "[0x04000000, 0]"] by (simp add: pages_demo_ready pages_demo_free) blast
qed


lemma sends_fill_ring_witness:
  "\<exists>s'. for_each (e1000_send_packet []) [[1, 2], [3]] nic_demo = Some s' \<and> tx_holds s' 0 [1, 2] \<and> tx_holds s' 1 [3]"
proof -
  have p: "tx_pos nic_demo k = k mod 8" for k by (simp add: tx_pos_def nic_demo_def E1000_NUM_TX_DESC_def e1000_read_reg_def E1000_REG_TDT_def E1000_REG_ICR_def)
  have ok: "tx_ring_ok nic_demo"
    by (simp add: tx_ring_ok_def nic_demo_def E1000_NUM_TX_DESC_def e1000_read_reg_def E1000_REG_TDT_def E1000_REG_ICR_def upt_rec)
  have free: "\<forall>i<length [[1, 2], [3 :: u8]]. tx_free nic_demo (tx_pos nic_demo i)"
    unfolding tx_free_def p by (simp add: nic_demo_def less_Suc_eq)
  obtain s' where "for_each (e1000_send_packet []) [[1, 2], [3]] nic_demo = Some s'"
    "\<forall>i<length [[1, 2], [3 :: u8]]. tx_holds s' (tx_pos nic_demo i) ([[1, 2], [3]] ! i)"
    using sends_fill_ring [OF ok _ _ free] by (auto simp: E1000_NUM_TX_DESC_def)
  then show ?thesis by (intro exI [of _ s']) (auto simp: p less_Suc_eq)
qed

text \<open>Two threads that read the tail register before one of them yields fill the same descriptor: the frame of
  the first is gone and the tail has moved by one.\<close>

lemma send_race:
  assumes "tx_ring_ok s" "length g \<le> 2048" "c < E1000_NUM_TX_DESC"
  shows "tx_holds (tx_fill c g (tx_fill c f s)) c g" "e1000_read_reg E1000_REG_TDT (tx_fill c g (tx_fill c f s)) = of_nat ((c + 1) mod E1000_NUM_TX_DESC)"
proof -
  have "unat (of_nat (length g) :: u16) = length g" using assms(2) by (simp add: unat_of_nat)
  then show "tx_holds (tx_fill c g (tx_fill c f s)) c g"
    using assms by (simp add: tx_holds_def tx_fill_def Let_def e1000_write_reg_def tx_ring_ok_def)
qed (simp add: tx_fill_def Let_def e1000_write_reg_def e1000_read_reg_def)

end
