(* ===== verification/Shell_Text.thy ===== *)
theory Shell_Text
  imports Kyro_Prelude
begin

section \<open>The messages of the shell (src/kernel/shell.c)\<close>

text \<open>The texts the commands print, line by line in the order of the code. The quotation mark and the newline are
  written as characters.\<close>

definition welcome_text :: "string list" where
  "welcome_text =
    [[CHR 0x0A] @ ''Welcome to KyroOS Shell!'' @ [CHR 0x0A],
     ''Type '' @ [CHR 0x27] @ ''help'' @ [CHR 0x27] @ '' to see available commands.'' @ [CHR 0x0A],
     ''Type '' @ [CHR 0x27] @ ''kyrofetch'' @ [CHR 0x27] @ '' for system info.'' @ [CHR 0x0A],
     ''Discord: https://discord.gg/nSgmyadnbn'' @ [CHR 0x0A] @ [CHR 0x0A],
     ''user@kyroos:/> '']"

definition help_text :: "string list" where
  "help_text =
    [''KyroOS Shell Built-in Commands:'' @ [CHR 0x0A],
     ''  ls [path]             - List directory contents.'' @ [CHR 0x0A],
     ''  cd [path]             - Change current directory.'' @ [CHR 0x0A],
     ''  pwd                   - Print current working directory.'' @ [CHR 0x0A],
     ''  cat <file>            - Concatenate and print files.'' @ [CHR 0x0A],
     ''  mkdir <path>          - Create a directory.'' @ [CHR 0x0A],
     ''  touch <file>          - Create an empty file.'' @ [CHR 0x0A],
     ''  rm <path>             - Remove files or empty directories.'' @ [CHR 0x0A],
     ''  edit <file>           - Simple text editor.'' @ [CHR 0x0A],
     ''  clear                 - Clear the terminal screen.'' @ [CHR 0x0A],
     ''  version / info        - Display KyroOS version information.'' @ [CHR 0x0A],
     ''  reboot                - Reboot the system.'' @ [CHR 0x0A],
     ''  kyrofetch             - Display system information.'' @ [CHR 0x0A],
     ''  install               - Run the system installer.'' @ [CHR 0x0A],
     ''  kpm <command> [args]  - KyroOS Package Manager (external).'' @ [CHR 0x0A],
     ''  game                  - Run the built-in game (external).'' @ [CHR 0x0A],
     ''  enable_debug          - Enable debug logging and features.'' @ [CHR 0x0A],
     ''  disable_debug         - Disable debug logging and features.'' @ [CHR 0x0A],
     ''  stat <path>           - Display file or directory status.'' @ [CHR 0x0A],
     ''  mount <point> <dev> <fs> - Mount a filesystem.'' @ [CHR 0x0A],
     ''  panic <reason>        - Trigger a kernel panic (debug mode only).'' @ [CHR 0x0A],
     [CHR 0x0A] @ ''Type '' @ [CHR 0x27] @ ''[command] --help'' @ [CHR 0x27] @ '' for more information on a specific command.'' @ [CHR 0x0A]]"

definition pwd_help :: "string list" where
  "pwd_help =
    [''Usage: pwd'' @ [CHR 0x0A],
     ''  Prints the current working directory.'' @ [CHR 0x0A]]"

definition cd_help :: "string list" where
  "cd_help =
    [''Usage: cd [path]'' @ [CHR 0x0A],
     ''  Changes the current working directory.'' @ [CHR 0x0A],
     ''  '' @ [CHR 0x27] @ ''cd'' @ [CHR 0x27] @ '' or '' @ [CHR 0x27] @ ''cd /'' @ [CHR 0x27] @ '' changes to the root directory.'' @ [CHR 0x0A],
     ''  '' @ [CHR 0x27] @ ''cd ..'' @ [CHR 0x27] @ '' moves to the parent directory.'' @ [CHR 0x0A]]"

definition ls_help :: "string list" where
  "ls_help =
    [''Usage: ls [path]'' @ [CHR 0x0A],
     ''  Lists the contents of a directory.'' @ [CHR 0x0A],
     ''  If no path is provided, it lists the current directory.'' @ [CHR 0x0A]]"

definition mkdir_help :: "string list" where
  "mkdir_help =
    [''Usage: mkdir <path>'' @ [CHR 0x0A],
     ''  Creates a new directory at the specified path.'' @ [CHR 0x0A]]"

definition cat_help :: "string list" where
  "cat_help =
    [''Usage: cat <file>'' @ [CHR 0x0A],
     ''  Concatenates file contents to standard output.'' @ [CHR 0x0A]]"

definition touch_help :: "string list" where
  "touch_help =
    [''Usage: touch <path>'' @ [CHR 0x0A],
     ''  Creates a new, empty file at the specified path.'' @ [CHR 0x0A],
     ''  If the file already exists, its timestamp might be updated (not fully implemented yet).'' @ [CHR 0x0A]]"

definition rm_help :: "string list" where
  "rm_help =
    [''Usage: rm <path>'' @ [CHR 0x0A],
     ''  Removes a file or an empty directory at the specified path.'' @ [CHR 0x0A]]"

definition stat_help :: "string list" where
  "stat_help =
    [''Usage: stat <path>'' @ [CHR 0x0A],
     ''  Displays status information about a file or directory.'' @ [CHR 0x0A]]"

definition mount_help :: "string list" where
  "mount_help =
    [''Usage: mount <mount_point> <device_path> <fs_type>'' @ [CHR 0x0A],
     ''  Mounts a filesystem from a device onto a mount point.'' @ [CHR 0x0A],
     ''  Example: mount /mnt /dev/sda1 fs_disk'' @ [CHR 0x0A]]"

definition enable_help :: "string list" where
  "enable_help =
    [''Usage: enable_debug'' @ [CHR 0x0A],
     ''  Enables debug logging level and activates debug-only features (like '' @ [CHR 0x27] @ ''panic'' @ [CHR 0x27] @ '' command).'' @ [CHR 0x0A]]"

definition disable_help :: "string list" where
  "disable_help =
    [''Usage: disable_debug'' @ [CHR 0x0A],
     ''  Disables debug logging level and deactivates debug-only features.'' @ [CHR 0x0A]]"

definition clear_help :: "string list" where
  "clear_help =
    [''Usage: clear'' @ [CHR 0x0A],
     ''  Clears the terminal screen.'' @ [CHR 0x0A]]"

definition reboot_help :: "string list" where
  "reboot_help =
    [''Usage: reboot'' @ [CHR 0x0A],
     ''  Reboots the system. WARNING: Unsaved data may be lost.'' @ [CHR 0x0A]]"

definition edit_help :: "string list" where
  "edit_help =
    [''Usage: edit <file>'' @ [CHR 0x0A],
     ''  Opens a simple text editor for the specified file.'' @ [CHR 0x0A],
     ''  Controls: Ctrl+S to Save, Ctrl+X to Exit.'' @ [CHR 0x0A]]"

definition kyrofetch_help :: "string list" where
  "kyrofetch_help =
    [''Usage: kyrofetch'' @ [CHR 0x0A],
     ''  Displays system information like OS version, CPU info, memory, and uptime.'' @ [CHR 0x0A]]"

definition version_help :: "string list" where
  "version_help =
    [''Usage: version / info'' @ [CHR 0x0A],
     ''  Displays the KyroOS version and build number.'' @ [CHR 0x0A]]"

definition panic_help :: "string list" where
  "panic_help =
    [''Usage: panic <reason>'' @ [CHR 0x0A],
     ''Triggers a kernel panic for testing purposes. Only available in debug mode.'' @ [CHR 0x0A],
     ''Available reasons:'' @ [CHR 0x0A],
     ''  generic                 - A generic, unspecified panic.'' @ [CHR 0x0A],
     ''  fb_init_fail            - Framebuffer Initialization Failure.'' @ [CHR 0x0A],
     ''  no_runnable_threads     - No Runnable Threads in Scheduler.'' @ [CHR 0x0A],
     ''  kpm_main_thread_alloc_fail - Failed to Allocate Main Kernel Thread (KPM related).'' @ [CHR 0x0A],
     ''  returned_to_dead_thread - Returned to a Dead Thread.'' @ [CHR 0x0A],
     ''  kmalloc_fail            - General Memory Allocation Failure (kmalloc).'' @ [CHR 0x0A]]"

definition logo_text :: "string list" where
  "logo_text =
    [[CHR 0x0A],
     ''   _  ___              ____  ____'' @ [CHR 0x0A],
     ''  | |/ /_ _________   / __ '' @ [CHR 0x5C] @ ''/ __/'' @ [CHR 0x0A],
     ''  | '' @ [CHR 0x27] @ '' / // / __/ _ '' @ [CHR 0x5C] @ '' / /_/ /'' @ [CHR 0x5C] @ '' '' @ [CHR 0x5C] @ ''  '' @ [CHR 0x0A],
     ''  |_|'' @ [CHR 0x5C] @ ''_'' @ [CHR 0x5C] @ ''_, /_/  '' @ [CHR 0x5C] @ ''___/ '' @ [CHR 0x5C] @ ''____/___/ '' @ [CHR 0x0A],
     ''      /___/                      '' @ [CHR 0x0A],
     [CHR 0x0A]]"

text \<open>The messages that are not ASCII, as the bytes of their UTF-8 encoding.\<close>

definition thanks_text :: "string list" where
  "thanks_text = map (map (char_of :: nat \<Rightarrow> char))
    [[209, 130, 209, 139, 32, 208, 189, 208, 176, 209, 136, 208, 181, 208, 187, 32, 209, 141, 209, 130, 209, 131, 32, 208, 186, 208, 190, 208, 188, 208, 188, 208, 176, 208, 189, 208, 180, 209, 131, 44, 32, 209, 133, 208, 183, 32, 208, 183, 208, 176, 209, 135, 208, 181, 208, 188, 44, 32, 208, 178, 208, 181, 209, 128, 208, 190, 209, 143, 209, 130, 208, 189, 208, 190, 32, 209, 130, 209, 139, 32, 208, 189, 208, 176, 209, 136, 209, 145, 208, 187, 32, 208, 181, 209, 145, 32, 208, 191, 209, 128, 208, 190, 209, 129, 209, 130, 208, 190, 32, 209, 129, 208, 188, 208, 190, 209, 130, 209, 128, 209, 143, 32, 208, 186, 208, 190, 208, 180, 10],
     [209, 129, 208, 191, 208, 176, 209, 129, 208, 184, 208, 177, 208, 190, 32, 209, 135, 209, 130, 208, 190, 32, 209, 142, 208, 183, 208, 176, 208, 181, 209, 130, 208, 181, 32, 209, 129, 208, 184, 209, 129, 209, 130, 208, 181, 208, 188, 209, 131, 44, 32, 208, 183, 208, 176, 209, 133, 208, 190, 208, 180, 208, 184, 209, 130, 208, 181, 32, 208, 178, 32, 208, 180, 208, 184, 209, 129, 208, 186, 208, 190, 209, 128, 208, 180, 32, 208, 184, 32, 208, 177, 209, 131, 208, 180, 209, 140, 209, 130, 208, 181, 32, 208, 186, 209, 128, 209, 131, 209, 130, 209, 139, 208, 188, 208, 184, 33, 10],
     [209, 143, 32, 209, 129, 208, 190, 208, 183, 208, 180, 208, 176, 208, 187, 32, 209, 141, 209, 130, 209, 131, 32, 209, 129, 208, 184, 209, 129, 209, 130, 208, 181, 208, 188, 209, 131, 32, 208, 191, 209, 128, 208, 190, 209, 129, 209, 130, 208, 190, 32, 208, 191, 208, 190, 209, 130, 208, 190, 208, 188, 209, 131, 32, 209, 135, 209, 130, 208, 190, 32, 208, 177, 209, 139, 208, 187, 208, 190, 32, 209, 129, 208, 186, 209, 131, 209, 135, 208, 189, 208, 190, 10],
     [208, 189, 208, 176, 209, 135, 208, 176, 208, 187, 32, 209, 143, 32, 208, 181, 209, 145, 32, 208, 180, 208, 181, 208, 187, 208, 176, 209, 130, 209, 140, 32, 208, 178, 32, 208, 189, 208, 176, 209, 135, 208, 176, 208, 187, 208, 181, 32, 50, 48, 50, 54, 32, 208, 179, 208, 190, 208, 180, 208, 176, 44, 32, 208, 191, 209, 128, 208, 184, 208, 188, 208, 181, 209, 128, 208, 189, 208, 190, 32, 208, 178, 32, 208, 191, 209, 128, 208, 190, 208, 188, 208, 181, 208, 182, 209, 131, 209, 130, 208, 186, 208, 181, 32, 209, 129, 32, 52, 208, 179, 208, 190, 32, 208, 191, 208, 190, 32, 54, 208, 190, 208, 181, 32, 209, 143, 208, 189, 208, 178, 208, 176, 209, 128, 209, 143, 10],
     [208, 188, 208, 189, 208, 181, 32, 208, 189, 209, 128, 208, 176, 208, 178, 208, 184, 209, 130, 209, 129, 209, 143, 32, 208, 181, 209, 145, 32, 208, 180, 208, 181, 208, 187, 208, 176, 209, 130, 209, 140, 10],
     [209, 143, 32, 209, 133, 208, 190, 209, 135, 209, 131, 32, 209, 129, 208, 180, 208, 181, 208, 187, 208, 176, 209, 130, 209, 140, 32, 209, 128, 208, 181, 208, 176, 208, 187, 209, 140, 208, 189, 208, 190, 32, 208, 186, 209, 128, 209, 131, 209, 130, 209, 131, 209, 142, 32, 209, 129, 208, 184, 209, 129, 209, 130, 208, 181, 208, 188, 209, 131, 10],
     [208, 181, 209, 129, 208, 187, 208, 184, 32, 208, 178, 209, 139, 32, 209, 133, 208, 181, 208, 185, 209, 130, 208, 181, 209, 128, 32, 208, 184, 208, 187, 208, 184, 32, 208, 178, 208, 176, 208, 188, 32, 208, 189, 208, 181, 208, 189, 209, 128, 208, 176, 208, 178, 209, 143, 209, 130, 209, 129, 209, 143, 32, 208, 177, 208, 181, 209, 129, 208, 186, 208, 190, 208, 189, 208, 181, 209, 135, 208, 189, 209, 139, 208, 181, 32, 208, 187, 208, 181, 209, 129, 208, 176, 32, 101, 108, 115, 101, 32, 105, 102, 44, 32, 209, 130, 208, 190, 32, 208, 176, 208, 189, 208, 187, 208, 176, 208, 186, 10],
     [208, 181, 209, 129, 208, 187, 208, 184, 32, 209, 131, 32, 208, 178, 208, 176, 209, 129, 32, 208, 181, 209, 129, 209, 130, 209, 140, 32, 208, 184, 208, 180, 208, 181, 208, 184, 32, 208, 191, 208, 190, 32, 209, 131, 208, 187, 209, 131, 209, 135, 209, 136, 208, 181, 208, 189, 208, 184, 209, 142, 32, 209, 129, 208, 184, 209, 129, 209, 130, 208, 181, 208, 188, 209, 139, 32, 208, 184, 208, 187, 208, 184, 32, 208, 186, 208, 176, 208, 186, 208, 184, 208, 181, 32, 209, 130, 208, 190, 32, 208, 191, 208, 190, 208, 187, 208, 181, 208, 183, 208, 189, 209, 139, 208, 181, 32, 208, 184, 208, 183, 208, 188, 208, 181, 208, 189, 208, 181, 208, 189, 208, 184, 209, 143, 10],
     [209, 130, 208, 190, 32, 209, 129, 208, 190, 208, 183, 208, 180, 208, 176, 208, 178, 208, 176, 208, 185, 209, 130, 208, 181, 32, 105, 115, 115, 117, 101, 115, 32, 208, 189, 208, 176, 32, 208, 179, 208, 184, 209, 130, 209, 133, 208, 176, 208, 177, 208, 181, 32, 208, 187, 208, 184, 208, 177, 208, 190, 32, 208, 191, 208, 184, 209, 136, 208, 184, 209, 130, 208, 181, 32, 208, 184, 208, 180, 208, 181, 208, 184, 32, 208, 178, 32, 208, 180, 208, 184, 209, 129, 208, 186, 208, 190, 209, 128, 208, 180, 10],
     [208, 191, 209, 128, 208, 181, 208, 180, 208, 187, 208, 176, 208, 179, 208, 176, 208, 185, 209, 130, 208, 181, 44, 32, 209, 135, 209, 130, 208, 190, 32, 208, 188, 208, 189, 208, 181, 32, 209, 129, 208, 180, 208, 181, 208, 187, 208, 176, 209, 130, 209, 140, 44, 32, 209, 135, 209, 130, 208, 190, 32, 209, 131, 208, 177, 209, 128, 208, 176, 209, 130, 209, 140, 32, 208, 184, 32, 209, 135, 209, 130, 208, 190, 32, 208, 186, 208, 176, 208, 186, 32, 208, 189, 208, 176, 208, 191, 208, 184, 209, 129, 208, 176, 209, 130, 209, 140, 10],
     [209, 129, 208, 191, 208, 176, 209, 129, 208, 184, 208, 177, 208, 190, 33, 10]]"

definition gemini_text :: string where
  "gemini_text = map (char_of :: nat \<Rightarrow> char) [208, 189, 208, 181, 10]"

end
