(* ===== verification/Shell.thy ===== *)
theory Shell
  imports Shell_Text Klog Kstring Event_Queue Syscall_Files
begin

section \<open>The kernel shell (src/kernel/shell.c)\<close>

text \<open>
  The command interpreter that runs in a kernel thread: splitting a line into words, the history, the working
  directory, the built-in commands over the VFS layer, and the editor. The file systems, the mount and the
  program loader enter through \<open>shell_env\<close>; the state is the file systems' state, the console and the statics
  of shell.c. A panic is recorded in the state. \<open>None\<close> is a call that does not return or writes past one of
  the buffers. What the editor waits for, its key presses, is an argument.
\<close>

definition BUFFER_SIZE :: nat where "BUFFER_SIZE = 256"
definition HISTORY_SIZE :: nat where "HISTORY_SIZE = 10"

datatype panic_reason_t = PANIC_GENERIC | PANIC_FB_INIT_FAIL | PANIC_NO_RUNNABLE_THREADS | PANIC_KPM_MAIN_THREAD_ALLOC_FAIL
  | PANIC_RETURNED_TO_DEAD_THREAD | PANIC_KMALLOC_FAIL

record 's shell =
  sh_fs :: 's
  sh_log :: log_state
  line_buffer :: string
  buffer_index :: nat
  history :: "string list"
  history_count :: nat
  history_index :: int
  current_history_view :: int
  cwd :: string
  debug_mode_enabled :: bool
  sh_ports :: "(u16 \<times> u8) list"
  sh_panic :: "panic_reason_t option"

text \<open>What the shell reads of the machine for \<open>kyrofetch\<close>.\<close>

record machine_info =
  ram_bytes :: u64
  ram_used :: u64
  up_ticks :: u64
  cpu_brand :: string
  display :: "(u32 \<times> u32 \<times> u32) option"

text \<open>\<open>sh_junk\<close> are the bytes of heap memory that was never written, \<open>sh_alloc\<close> whether the heap has 4096 bytes.\<close>

record ('s, 'n) shell_env =
  sh_ops :: "('s, 'n) vfs_ops"
  sh_root :: "'n option"
  node_len :: "'s \<Rightarrow> 'n \<Rightarrow> u32"
  node_addr :: "'n \<Rightarrow> u64"
  sh_junk :: "nat \<Rightarrow> u8"
  sh_alloc :: "'s \<Rightarrow> bool"
  sh_mount :: "'n option \<Rightarrow> 'n option \<Rightarrow> string \<Rightarrow> 's \<Rightarrow> (int \<times> 's) option"
  sh_exec :: "string \<Rightarrow> string list \<Rightarrow> 's \<Rightarrow> log_state \<Rightarrow> (int \<times> 's \<times> log_state) option"
  sh_machine :: "'s \<Rightarrow> machine_info"

abbreviation str_arg :: "string \<Rightarrow> va_slot" where "str_arg s \<equiv> Slot 1 (Some s)"
abbreviation num_arg :: "u64 \<Rightarrow> va_slot" where "num_arg v \<equiv> Slot v None"

subsection \<open>Output\<close>

definition say :: "string \<Rightarrow> 's shell \<Rightarrow> 's shell" where
  "say text st = st\<lparr>sh_log := klog_print_str text (sh_log st)\<rparr>"

definition say_char :: "char \<Rightarrow> 's shell \<Rightarrow> 's shell" where
  "say_char c st = st\<lparr>sh_log := klog_putchar c (sh_log st)\<rparr>"

definition say_all :: "string list \<Rightarrow> 's shell \<Rightarrow> 's shell" where
  "say_all lines st = fold say lines st"

definition log_fmt :: "log_level_t \<Rightarrow> string \<Rightarrow> va_slot list \<Rightarrow> 's shell \<Rightarrow> 's shell option" where
  "log_fmt level format args st = do {
     msg \<leftarrow> vksprintf format args;
     l \<leftarrow> klog level msg (sh_log st);
     Some (st\<lparr>sh_log := l\<rparr>) }"

text \<open>\<open>ksprintf\<close> into a buffer of \<open>n\<close> bytes, and the text printed.\<close>

definition fmt_in :: "nat \<Rightarrow> string \<Rightarrow> va_slot list \<Rightarrow> string option" where
  "fmt_in n format args = do { out \<leftarrow> vksprintf format args; if length out < n then Some out else None }"

definition say_fmt :: "string \<Rightarrow> va_slot list \<Rightarrow> 's shell \<Rightarrow> 's shell option" where
  "say_fmt format args st = do { out \<leftarrow> fmt_in 128 format args; Some (say out st) }"

subsection \<open>Words and history\<close>

definition shell_init :: "'s shell \<Rightarrow> 's shell" where
  "shell_init st = say_all welcome_text (st\<lparr>buffer_index := 0, line_buffer := []\<rparr>)"

definition add_to_history :: "string \<Rightarrow> 's shell \<Rightarrow> 's shell" where
  "add_to_history cmd st =
     (if cmd = [] then st
      else if history_count st > 0 \<and> history st ! nat (history_index st mod int HISTORY_SIZE) = cmd then st
      else let i = (history_index st + 1) mod int HISTORY_SIZE
           in st\<lparr>history_index := i, history := (history st)[nat i := cmd],
                 history_count := (if history_count st < HISTORY_SIZE then history_count st + 1 else history_count st),
                 current_history_view := -1\<rparr>)"

fun tokenize :: "string \<Rightarrow> nat \<Rightarrow> string list" where
  "tokenize line 0 = []"
| "tokenize line (Suc max_args) =
     (let p = dropWhile (\<lambda>c. c = CHR '' '') line
      in if p = [] then []
         else takeWhile (\<lambda>c. c \<noteq> CHR '' '') p # tokenize (tl (dropWhile (\<lambda>c. c \<noteq> CHR '' '') p)) max_args)"

definition clear_current_line :: "'s shell \<Rightarrow> 's shell" where
  "clear_current_line st = ((say [CHR 0x08, CHR '' '', CHR 0x08] ^^ buffer_index st) st)\<lparr>buffer_index := 0\<rparr>"

text \<open>The path of an argument: as given when it starts with a slash, else below the working directory.\<close>

definition arg_path :: "string \<Rightarrow> 's shell \<Rightarrow> string option" where
  "arg_path arg st =
     (if arg ! 0 = CHR ''/'' then (if length arg < BUFFER_SIZE then Some arg else None)
      else if cwd st = ''/'' then fmt_in BUFFER_SIZE ''/%s'' [str_arg arg]
      else fmt_in BUFFER_SIZE ''%s/%s'' [str_arg (cwd st), str_arg arg])"

definition resolve :: "('s, 'n) shell_env \<Rightarrow> string \<Rightarrow> 's shell \<Rightarrow> ('n option \<times> 's shell) option" where
  "resolve E path st = do {
     (n, s) \<leftarrow> vfs_resolve_path (sh_ops E) (sh_root E) (Some path) (sh_fs st);
     Some (n, st\<lparr>sh_fs := s\<rparr>) }"

definition node_flagged :: "('s, 'n) shell_env \<Rightarrow> 'n option \<Rightarrow> u32 \<Rightarrow> 's shell \<Rightarrow> bool" where
  "node_flagged E node flag st = (case node of None \<Rightarrow> False | Some n \<Rightarrow> op_flags (sh_ops E) (sh_fs st) n AND flag \<noteq> 0)"

definition flags_slot :: "('s, 'n) shell_env \<Rightarrow> 'n option \<Rightarrow> 's shell \<Rightarrow> va_slot" where
  "flags_slot E node st = num_arg (case node of None \<Rightarrow> 0 | Some n \<Rightarrow> ucast (op_flags (sh_ops E) (sh_fs st) n))"

definition addr_slot :: "('s, 'n) shell_env \<Rightarrow> 'n option \<Rightarrow> va_slot" where
  "addr_slot E node = num_arg (case node of None \<Rightarrow> 0 | Some n \<Rightarrow> node_addr E n)"

subsection \<open>The editor\<close>

text \<open>A key press and whether Ctrl was down. The text ends at the cursor, so the buffer is the text up to it. The
  result tells whether the editor was left.\<close>

definition ev_char :: "event \<Rightarrow> char" where
  "ev_char ev = char_of (unat (data1 ev))"

definition edit_key :: "('s, 'n) shell_env \<Rightarrow> 'n \<Rightarrow> event \<Rightarrow> bool \<Rightarrow> string \<Rightarrow> 's shell \<Rightarrow> (bool \<times> string \<times> 's shell) option" where
  "edit_key E file ev ctrl text st =
     (let c = ev_char ev; scancode = (ucast (data2 ev) :: u8)
      in if event_kind ev \<noteq> EVENT_KEY_DOWN then Some (False, text, st)
         else if ctrl \<and> scancode = 0x2D then Some (True, text, st)
         else if ctrl \<and> scancode = 0x1F
         then do {
           (w, s) \<leftarrow> vfs_write (sh_ops E) (Some file) 0 (of_nat (length text)) (map (of_nat \<circ> of_char) text) (sh_fs st);
           Some (False, text, st\<lparr>sh_fs := s\<rparr>) }
         else if c = CHR 0x0A
         then Some (if length text < 4095 then (False, text @ [CHR 0x0A], say_char (CHR 0x0A) st) else (False, text, st))
         else if c = CHR 0x08
         then Some (if text \<noteq> [] then (False, butlast text, say [CHR 0x08, CHR '' '', CHR 0x08] st) else (False, text, st))
         else if (32 :: nat) \<le> of_char c \<and> (of_char c :: nat) \<le> 126
         then Some (if length text < 4095 then (False, text @ [c], say_char c st) else (False, text, st))
         else Some (False, text, st))"

fun edit_loop :: "('s, 'n) shell_env \<Rightarrow> 'n \<Rightarrow> (event \<times> bool) list \<Rightarrow> string \<Rightarrow> 's shell \<Rightarrow> (bool \<times> string \<times> 's shell) option" where
  "edit_loop E file [] text st = Some (False, text, st)"
| "edit_loop E file ((ev, ctrl) # keys) text st = do {
     (left, text', st') \<leftarrow> edit_key E file ev ctrl text st;
     if left then Some (True, text', st') else edit_loop E file keys text' st' }"

text \<open>The bytes a read returned, with what the heap held where nothing was written.\<close>

definition cells_text :: "('s, 'n) shell_env \<Rightarrow> cell list \<Rightarrow> string" where
  "cells_text E cells = map (\<lambda>i. char_of (unat (case cells ! i of None \<Rightarrow> sh_junk E i | Some b \<Rightarrow> b))) [0..<length cells]"

text \<open>The file to edit, created when it does not exist: its parent and name are cut from the path at the last slash.\<close>

definition edit_target :: "('s, 'n) shell_env \<Rightarrow> string \<Rightarrow> 's shell \<Rightarrow> ('n option \<times> 's shell) option" where
  "edit_target E full_path st = do {
     (file, st1) \<leftarrow> resolve E full_path st;
     case file of
       Some n \<Rightarrow> Some (Some n, st1)
     | None \<Rightarrow>
         let ls = last_slash full_path;
             parent_path = (if ls = 0 then ''/'' else take (nat ls) full_path)
         in if ls = -1 then Some (None, st1)
            else do {
              (par, st2) \<leftarrow> resolve E parent_path st1;
              case par of
                None \<Rightarrow> Some (None, st2)
              | Some d \<Rightarrow> do {
                  (r, s) \<leftarrow> vfs_create (sh_ops E) (Some d) (Some (drop (nat ls + 1) full_path)) 0 (sh_fs st2);
                  if r = 0 then resolve E full_path (st2\<lparr>sh_fs := s\<rparr>) else Some (None, st2\<lparr>sh_fs := s\<rparr>) } } }"

definition say_clear :: "'s shell \<Rightarrow> 's shell" where
  "say_clear st = st\<lparr>sh_log := console_clear (sh_log st)\<rparr>"

text \<open>The file's first 4095 bytes are loaded and shown.\<close>

definition edit_load :: "('s, 'n) shell_env \<Rightarrow> 'n \<Rightarrow> 's shell \<Rightarrow> (string \<times> 's shell) option" where
  "edit_load E file st =
     (if node_len E (sh_fs st) file > 0
      then do {
        (r, cells, s) \<leftarrow> vfs_read (sh_ops E) (Some file) 0
           (if node_len E (sh_fs st) file < 4095 then node_len E (sh_fs st) file else 4095) (sh_fs st);
        if 4095 < unat r then None
        else let text = take (unat r) (cells_text E cells @ replicate (unat r) (CHR 0x00))
             in Some (text, say text (st\<lparr>sh_fs := s\<rparr>)) }
      else Some ([], st))"

definition shell_edit :: "('s, 'n) shell_env \<Rightarrow> (event \<times> bool) list \<Rightarrow> string \<Rightarrow> 's shell \<Rightarrow> 's shell option" where
  "shell_edit E keys arg st = do {
     full_path \<leftarrow> arg_path arg st;
     (target, st1) \<leftarrow> edit_target E full_path st;
     case target of
       None \<Rightarrow> Some (say (''Cannot edit this file.'' @ [CHR 0x0A]) st1)
     | Some file \<Rightarrow>
         if op_flags (sh_ops E) (sh_fs st1) file AND VFS_FILE = 0 then Some (say (''Cannot edit this file.'' @ [CHR 0x0A]) st1)
         else if \<not> sh_alloc E (sh_fs st1) then None
         else do {
           (text, st2) \<leftarrow> edit_load E file (say (''--- Kyro-Editor --- Ctrl+S to Save | Ctrl+X to Exit ---'' @ [CHR 0x0A]) (say_clear st1));
           (left, text', st3) \<leftarrow> edit_loop E file keys text st2;
           if left then Some (say_clear st3) else None } }"

subsection \<open>Commands\<close>

text \<open>A command called with \<open>--help\<close> prints its usage and nothing else.\<close>

definition or_help :: "string list \<Rightarrow> string list \<Rightarrow> 's shell \<Rightarrow> 's shell option \<Rightarrow> 's shell option" where
  "or_help argv help st body = (if 1 < length argv \<and> argv ! 1 = ''--help'' then Some (say_all help st) else body)"

definition cmd_pwd :: "'s shell \<Rightarrow> 's shell option" where
  "cmd_pwd st = Some (say_char (CHR 0x0A) (say (cwd st) st))"

definition cd_up :: "'s shell \<Rightarrow> 's shell" where
  "cd_up st =
     (if cwd st = ''/'' then st
      else let last = last_slash (cwd st)
           in if last = 0 then st\<lparr>cwd := take 1 (cwd st)\<rparr>
              else if last \<noteq> -1 then st\<lparr>cwd := take (nat last) (cwd st)\<rparr>
              else st)"

text \<open>One trailing slash is dropped, unless the path is the root.\<close>

definition trim_slash :: "string \<Rightarrow> string" where
  "trim_slash full = (if 1 < length full \<and> last full = CHR ''/'' then butlast full else full)"

definition cd_full :: "string \<Rightarrow> 's shell \<Rightarrow> string option" where
  "cd_full path st =
     (if path ! 0 = CHR ''/'' then (if length path < BUFFER_SIZE then Some path else None)
      else fmt_in BUFFER_SIZE ''%s%s%s'' [str_arg (cwd st), str_arg (if cwd st = ''/'' then [] else ''/''), str_arg path])"

definition cmd_cd :: "('s, 'n) shell_env \<Rightarrow> string list \<Rightarrow> 's shell \<Rightarrow> 's shell option" where
  "cmd_cd E argv st =
     (if length argv < 2 then Some (st\<lparr>cwd := ''/''\<rparr>)
      else if argv ! 1 = ''..'' then Some (cd_up st)
      else if argv ! 1 = ''.'' then Some st
      else do {
        full \<leftarrow> cd_full (argv ! 1) st;
        st1 \<leftarrow> log_fmt LOG_DEBUG ''CD: Attempting to resolve path: %s'' [str_arg full] st;
        (node, st2) \<leftarrow> resolve E full st1;
        if node_flagged E node VFS_DIRECTORY st2
        then log_fmt LOG_DEBUG ''CD: Changed directory to: %s'' [str_arg (trim_slash full)] (st2\<lparr>cwd := trim_slash full\<rparr>)
        else log_fmt LOG_DEBUG ''CD: Failed to change directory to %s (node: %p, flags: %x)''
               [str_arg full, addr_slot E node, flags_slot E node st2]
               (say (''No such directory'' @ [CHR 0x0A]) st2) })"

partial_function (option) ls_loop :: "('s, 'n) shell_env \<Rightarrow> 'n option \<Rightarrow> u32 \<Rightarrow> 's shell \<Rightarrow> 's shell option" where
  "ls_loop E dir i st = do {
     (de, s) \<leftarrow> vfs_readdir (sh_ops E) dir i (sh_fs st);
     case de of
       None \<Rightarrow> Some (st\<lparr>sh_fs := s\<rparr>)
     | Some d \<Rightarrow> ls_loop E dir (i + 1) (say ''  '' (say (d_name d) (st\<lparr>sh_fs := s\<rparr>))) }"

text \<open>\<open>ls\<close> resolves its argument from the root, not from the working directory.\<close>

definition cmd_ls :: "('s, 'n) shell_env \<Rightarrow> string list \<Rightarrow> 's shell \<Rightarrow> 's shell option" where
  "cmd_ls E argv st = do {
     (dir, st1) \<leftarrow> resolve E (if 1 < length argv then argv ! 1 else cwd st) st;
     if node_flagged E dir VFS_DIRECTORY st1
     then do { st2 \<leftarrow> ls_loop E dir 0 st1; Some (say_char (CHR 0x0A) st2) }
     else Some (say (''Directory not found'' @ [CHR 0x0A]) st1) }"

text \<open>\<open>mkdir\<close> below a working directory passes one argument to a format that takes two.\<close>

definition mkdir_path :: "string \<Rightarrow> 's shell \<Rightarrow> string option" where
  "mkdir_path arg st =
     (if arg ! 0 = CHR ''/'' then (if length arg < BUFFER_SIZE then Some arg else None)
      else if cwd st = ''/'' then fmt_in BUFFER_SIZE ''/%s'' [str_arg arg]
      else fmt_in BUFFER_SIZE ''%s/%s'' [str_arg arg])"

text \<open>The result of a call of the VFS layer: nothing is printed when it is 0.\<close>

definition report :: "string \<Rightarrow> 's shell \<Rightarrow> (int \<times> 's) option \<Rightarrow> 's shell option" where
  "report message st result = do {
     (r, s) \<leftarrow> result;
     Some (if r \<noteq> 0 then say message (st\<lparr>sh_fs := s\<rparr>) else st\<lparr>sh_fs := s\<rparr>) }"

definition cmd_mkdir :: "('s, 'n) shell_env \<Rightarrow> string list \<Rightarrow> 's shell \<Rightarrow> 's shell option" where
  "cmd_mkdir E argv st =
     (if length argv < 2 then Some (say (''Usage: mkdir <path>'' @ [CHR 0x0A]) st)
      else do {
        full_path \<leftarrow> mkdir_path (argv ! 1) st;
        report (''mkdir failed'' @ [CHR 0x0A]) st (vfs_mkdir (sh_ops E) (sh_root E) (Some full_path) 0 (sh_fs st)) })"

definition cmd_touch :: "('s, 'n) shell_env \<Rightarrow> string list \<Rightarrow> 's shell \<Rightarrow> 's shell option" where
  "cmd_touch E argv st =
     (if length argv < 2 then Some (say (''Usage: touch <path>'' @ [CHR 0x0A]) st)
      else do {
        full_path \<leftarrow> arg_path (argv ! 1) st;
        report (''touch failed'' @ [CHR 0x0A]) st (vfs_create (sh_ops E) (sh_root E) (Some full_path) 0 (sh_fs st)) })"

definition cmd_rm :: "('s, 'n) shell_env \<Rightarrow> string list \<Rightarrow> 's shell \<Rightarrow> 's shell option" where
  "cmd_rm E argv st =
     (if length argv < 2 then Some (say (''Usage: rm <path>'' @ [CHR 0x0A]) st)
      else do {
        full_path \<leftarrow> arg_path (argv ! 1) st;
        report (''rm failed'' @ [CHR 0x0A]) st (vfs_remove (sh_ops E) (sh_root E) (Some full_path) (sh_fs st)) })"

partial_function (option) cat_loop :: "('s, 'n) shell_env \<Rightarrow> 'n \<Rightarrow> u32 \<Rightarrow> 's shell \<Rightarrow> 's shell option" where
  "cat_loop E node offs st =
     (if offs < node_len E (sh_fs st) node
      then do {
        (r, cells, s) \<leftarrow> vfs_read (sh_ops E) (Some node) (ucast offs) 1023 (sh_fs st);
        st1 \<leftarrow> log_fmt LOG_DEBUG ''CAT: Read %u bytes at offset %u'' [num_arg (ucast r), num_arg (ucast offs)] (st\<lparr>sh_fs := s\<rparr>);
        if r = 0 then Some st1
        else if 1023 < r \<or> length cells < unat r then None
        else cat_loop E node (offs + r) (say (take (unat r) (cells_text E cells)) st1) }
      else Some st)"

definition cmd_cat :: "('s, 'n) shell_env \<Rightarrow> string list \<Rightarrow> 's shell \<Rightarrow> 's shell option" where
  "cmd_cat E argv st =
     (if length argv < 2 then Some (say (''Usage: cat <file>'' @ [CHR 0x0A]) st)
      else do {
        full_path \<leftarrow> arg_path (argv ! 1) st;
        st1 \<leftarrow> log_fmt LOG_DEBUG ''CAT: Attempting to open file: %s'' [str_arg full_path] st;
        (file, st2) \<leftarrow> resolve E full_path st1;
        case (if node_flagged E file VFS_FILE st2 then file else None) of
          Some node \<Rightarrow> do {
            st3 \<leftarrow> log_fmt LOG_DEBUG ''CAT: File found (node: %p, flags: %x, length: %u)''
                     [addr_slot E file, flags_slot E file st2, num_arg (ucast (node_len E (sh_fs st2) node))] st2;
            st4 \<leftarrow> cat_loop E node 0 st3;
            Some (say_char (CHR 0x0A) st4) }
        | None \<Rightarrow>
            log_fmt LOG_DEBUG ''CAT: Failed to open %s (node: %p, flags: %x)''
              [str_arg full_path, addr_slot E file, flags_slot E file st2]
              (say (''No such file or not a regular file'' @ [CHR 0x0A]) st2) })"

fun size_unit :: "nat \<Rightarrow> nat \<Rightarrow> nat \<times> nat" where
  "size_unit s 0 = (s, 0)"
| "size_unit s (Suc steps) = (if s \<ge> 1024 then (let (t, i) = size_unit (s div 1024) steps in (t, Suc i)) else (s, 0))"

definition format_size_human_readable :: "u32 \<Rightarrow> string option" where
  "format_size_human_readable n =
     (if n = 0 then Some ''0 B''
      else let (s, i) = size_unit (unat n) 3
           in fmt_in 32 ''%u %s'' [num_arg (of_nat s), str_arg ([''B'', ''KB'', ''MB'', ''GB''] ! i)])"

definition cmd_stat :: "('s, 'n) shell_env \<Rightarrow> string list \<Rightarrow> 's shell \<Rightarrow> 's shell option" where
  "cmd_stat E argv st =
     (if length argv < 2 then Some (say (''Usage: stat <path>'' @ [CHR 0x0A]) st)
      else do {
        full_path \<leftarrow> arg_path (argv ! 1) st;
        st1 \<leftarrow> say_fmt (''STAT_DEBUG: Attempting to stat path: %s'' @ [CHR 0x0A]) [str_arg full_path] st;
        (stat_ret, info, s) \<leftarrow> vfs_stat (sh_ops E) (sh_root E) (Some full_path) (sh_fs st1);
        st2 \<leftarrow> say_fmt (''STAT_DEBUG: vfs_stat returned: %d'' @ [CHR 0x0A]) [num_arg (of_int stat_ret)] (st1\<lparr>sh_fs := s\<rparr>);
        if stat_ret = 0
        then do {
          i \<leftarrow> info;
          st3 \<leftarrow> say_fmt (''STAT_DEBUG: Raw size: %u, Inode: %u, Mode: %x'' @ [CHR 0x0A])
                   [num_arg (ucast (st_size i)), num_arg (ucast (st_ino i)), num_arg (ucast (st_mode i))] st2;
          readable \<leftarrow> format_size_human_readable (st_size i);
          say_fmt (''Size: %s, Inode: %d, Mode: %x'' @ [CHR 0x0A])
                   [str_arg readable, num_arg (ucast (st_ino i)), num_arg (ucast (st_mode i))] st3 }
        else say_fmt (''STAT_DEBUG: vfs_stat failed for path: %s'' @ [CHR 0x0A]) [str_arg full_path]
               (say (''stat failed'' @ [CHR 0x0A]) st2) })"

text \<open>C leaves the order of the two lookups open, the model takes the mount point first.\<close>

definition cmd_mount :: "('s, 'n) shell_env \<Rightarrow> string list \<Rightarrow> 's shell \<Rightarrow> 's shell option" where
  "cmd_mount E argv st =
     (if length argv < 4 then Some (say (''Usage: mount <point> <device> <fs_type>'' @ [CHR 0x0A]) st)
      else do {
        (point, st1) \<leftarrow> resolve E (argv ! 1) st;
        (device, st2) \<leftarrow> resolve E (argv ! 2) st1;
        (r, s) \<leftarrow> sh_mount E point device (argv ! 3) (sh_fs st2);
        Some (say ((if r = 0 then ''Mounted successfully'' else ''Mount failed'') @ [CHR 0x0A]) (st2\<lparr>sh_fs := s\<rparr>)) })"

definition cmd_debug :: "bool \<Rightarrow> 's shell \<Rightarrow> 's shell option" where
  "cmd_debug on st =
     log_fmt LOG_INFO (if on then ''Debug logging enabled. Debug mode enabled.'' else ''Debug logging disabled. Debug mode disabled.'')
       [] (st\<lparr>debug_mode_enabled := on\<rparr>)"

definition cmd_clear :: "'s shell \<Rightarrow> 's shell option" where
  "cmd_clear st = Some (say_clear st)"

definition cmd_reboot :: "'s shell \<Rightarrow> 's shell option" where
  "cmd_reboot st =
     (let st1 = say_all [''Executing reboot command...'' @ [CHR 0x0A], ''Attempting to reboot...'' @ [CHR 0x0A]] st
      in Some (st1\<lparr>sh_ports := sh_ports st1 @ [(0x64, 0xFE)]\<rparr>))"

definition cmd_edit :: "('s, 'n) shell_env \<Rightarrow> (event \<times> bool) list \<Rightarrow> string list \<Rightarrow> 's shell \<Rightarrow> 's shell option" where
  "cmd_edit E keys argv st =
     (if 1 < length argv then shell_edit E keys (argv ! 1) st else Some (say (''Usage: edit <file>'' @ [CHR 0x0A]) st))"

text \<open>System information. The clock ticks a hundred times a second, sizes are cut to 32 bits.\<close>

definition uptime_text :: "u32 \<Rightarrow> string option" where
  "uptime_text total_sec =
     (let hrs = total_sec div 3600; mins = total_sec mod 3600 div 60; secs = total_sec mod 60
      in if hrs > 0 then fmt_in 128 '' Uptime:  %d hours, %d mins, %d secs'' [num_arg (ucast hrs), num_arg (ucast mins), num_arg (ucast secs)]
         else if mins > 0 then fmt_in 128 '' Uptime:  %d mins, %d secs'' [num_arg (ucast mins), num_arg (ucast secs)]
         else fmt_in 128 '' Uptime:  %d secs'' [num_arg (ucast secs)])"

definition memory_text :: "u64 \<Rightarrow> u64 \<Rightarrow> string option" where
  "memory_text used_bytes total_bytes =
     (let total_mb = (ucast (total_bytes div 1024 div 1024) :: u32);
          used_mb = (ucast (used_bytes div 1024 div 1024) :: u32);
          mem_percent = (if total_bytes > 0 then ucast (used_bytes * 100 div total_bytes) else 0 :: u32)
      in fmt_in 128 '' Memory:  %d MB / %d MB (%d%%)'' [num_arg (ucast used_mb), num_arg (ucast total_mb), num_arg (ucast mem_percent)])"

definition shell_kyrofetch :: "machine_info \<Rightarrow> 's shell \<Rightarrow> 's shell option" where
  "shell_kyrofetch M st = do {
     kernel \<leftarrow> fmt_in 128 '' Kernel:  KyroOS %d.%d.%d (Build %s)'' [num_arg 26, num_arg 1, num_arg 7, str_arg ''1270''];
     uptime \<leftarrow> uptime_text (ucast (up_ticks M div 100));
     cpu \<leftarrow> fmt_in 128 '' CPU:     %s'' [str_arg (cpu_brand M)];
     screen \<leftarrow> (case display M of
         None \<Rightarrow> Some []
       | Some (width, height, bpp) \<Rightarrow> do {
           t \<leftarrow> fmt_in 128 '' Display: %dx%d @ %dbpp'' [num_arg (ucast width), num_arg (ucast height), num_arg (ucast bpp)];
           Some [t, [CHR 0x0A]] });
     memory \<leftarrow> memory_text (ram_used M) (ram_bytes M);
     Some (say_all (logo_text @ ['' OS:      '', ''KyroOS 26.01.01 Helium'', [CHR 0x0A], kernel, [CHR 0x0A], uptime, [CHR 0x0A],
                      cpu, [CHR 0x0A]] @ screen @ [memory, [CHR 0x0A], '' Shell:   kyrooshell v0.3'' @ [CHR 0x0A, CHR 0x0A]]) st) }"

text \<open>The processor adds four pairs of floats. The first sum is 6.0, 0x40C00000 in the format of IEEE 754.\<close>

definition run_sse_test :: "'s shell \<Rightarrow> 's shell option" where
  "run_sse_test st = do {
     st1 \<leftarrow> log_fmt LOG_INFO ''Testing SSE operations...'' [] st;
     log_fmt LOG_INFO ''SSE Result (IEEE 754 bits): 0x%x'' [num_arg 0x40C00000] (say ''Testing SSE operations...'' st1) }"

definition cmd_version :: "'s shell \<Rightarrow> 's shell option" where
  "cmd_version st = Some (say_all [''KyroOS '', ''KyroOS 26.01.01 Helium'', '' (Build '', ''1270'', '')'' @ [CHR 0x0A]] st)"

definition panic_reason :: "string \<Rightarrow> panic_reason_t" where
  "panic_reason arg =
     (if arg = ''fb_init_fail'' then PANIC_FB_INIT_FAIL
      else if arg = ''no_runnable_threads'' then PANIC_NO_RUNNABLE_THREADS
      else if arg = ''kpm_main_thread_alloc_fail'' then PANIC_KPM_MAIN_THREAD_ALLOC_FAIL
      else if arg = ''returned_to_dead_thread'' then PANIC_RETURNED_TO_DEAD_THREAD
      else if arg = ''kmalloc_fail'' then PANIC_KMALLOC_FAIL
      else PANIC_GENERIC)"

definition cmd_panic :: "string list \<Rightarrow> 's shell \<Rightarrow> 's shell option" where
  "cmd_panic argv st =
     (if \<not> debug_mode_enabled st
      then Some (say (''Error: Debug mode is not enabled. Use '' @ [CHR 0x27] @ ''enable_debug'' @ [CHR 0x27] @ '' to activate.'' @ [CHR 0x0A]) st)
      else if length argv < 2 \<or> argv ! 1 = ''--help'' then Some (say_all panic_help st)
      else Some (st\<lparr>sh_panic := Some (panic_reason (argv ! 1))\<rparr>))"

definition cmd_dontrunthis :: "'s shell \<Rightarrow> 's shell option" where
  "cmd_dontrunthis st =
     (if debug_mode_enabled st then run_sse_test st
      else Some (say (''WHY DID YOU TRY TO RUN THIS???? DONT RUN THIS!!! IT WILL CRASH KERNEL OR EVEN FUCK YOUR CPU! (enable debug mode).'' @ [CHR 0x0A]) st))"

text \<open>Any other word is a program, below \<open>/bin\<close> or by its own path.\<close>

definition cmd_program :: "('s, 'n) shell_env \<Rightarrow> string list \<Rightarrow> 's shell \<Rightarrow> 's shell option" where
  "cmd_program E argv st = do {
     full_path \<leftarrow> fmt_in BUFFER_SIZE ''/bin/%s'' [str_arg (argv ! 0)];
     (r, s, l) \<leftarrow> sh_exec E full_path argv (sh_fs st) (sh_log st);
     let st1 = st\<lparr>sh_fs := s, sh_log := l\<rparr>;
     if r = 0 then Some st1
     else do {
       (r', s', l') \<leftarrow> sh_exec E (argv ! 0) argv (sh_fs st1) (sh_log st1);
       let st2 = st1\<lparr>sh_fs := s', sh_log := l'\<rparr>;
       if r' = 0 then Some st2 else Some (say_char (CHR 0x0A) (say (argv ! 0) (say ''Unknown command: '' st2))) } }"

text \<open>The chain of comparisons, in the order of the code.\<close>

definition run_command :: "('s, 'n) shell_env \<Rightarrow> (event \<times> bool) list \<Rightarrow> string list \<Rightarrow> 's shell \<Rightarrow> 's shell option" where
  "run_command E keys argv st =
     (let cmd = argv ! 0
      in if cmd = ''help'' then Some (say_all help_text st)
         else if cmd = ''pwd'' then or_help argv pwd_help st (cmd_pwd st)
         else if cmd = ''cd'' then or_help argv cd_help st (cmd_cd E argv st)
         else if cmd = ''ls'' then or_help argv ls_help st (cmd_ls E argv st)
         else if cmd = ''mkdir'' then or_help argv mkdir_help st (cmd_mkdir E argv st)
         else if cmd = ''cat'' then or_help argv cat_help st (cmd_cat E argv st)
         else if cmd = ''touch'' then or_help argv touch_help st (cmd_touch E argv st)
         else if cmd = ''rm'' then or_help argv rm_help st (cmd_rm E argv st)
         else if cmd = ''stat'' then or_help argv stat_help st (cmd_stat E argv st)
         else if cmd = ''mount'' then or_help argv mount_help st (cmd_mount E argv st)
         else if cmd = ''enable_debug'' then or_help argv enable_help st (cmd_debug True st)
         else if cmd = ''disable_debug'' then or_help argv disable_help st (cmd_debug False st)
         else if cmd = ''clear'' then or_help argv clear_help st (cmd_clear st)
         else if cmd = ''reboot'' then or_help argv reboot_help st (cmd_reboot st)
         else if cmd = ''edit'' then or_help argv edit_help st (cmd_edit E keys argv st)
         else if cmd = ''kyrofetch'' then or_help argv kyrofetch_help st (shell_kyrofetch (sh_machine E (sh_fs st)) st)
         else if cmd = ''version'' \<or> cmd = ''info'' then or_help argv version_help st (cmd_version st)
         else if cmd = ''panic'' then cmd_panic argv st
         else if cmd = ''iloveepsteinislanditsthebestislandindaworld'' then Some (say_all thanks_text st)
         else if cmd = ''DONTRUNTHIS'' then cmd_dontrunthis st
         else if cmd = ''gemini'' then Some (say gemini_text st)
         else cmd_program E argv st)"

text \<open>A line is a C string without its terminator; the copy that is split holds its first 255 bytes.\<close>

definition execute_command :: "('s, 'n) shell_env \<Rightarrow> (event \<times> bool) list \<Rightarrow> string \<Rightarrow> 's shell \<Rightarrow> 's shell option" where
  "execute_command E keys line st =
     (if line = [] then Some st
      else let st1 = add_to_history line st;
               argv = tokenize (take 255 line) 16
           in if argv = [] then Some st1 else run_command E keys argv st1)"

subsection \<open>The shell's thread\<close>

text \<open>The loop takes the events and leaves them: the key handling is a comment in the code.\<close>

definition shell_start :: "'s shell \<Rightarrow> 's shell" where
  "shell_start st = shell_init (say_clear st)"

definition shell_turn :: "event_state \<times> 's shell \<Rightarrow> event_state \<times> 's shell" where
  "shell_turn qs = (case event_pop (fst qs) of None \<Rightarrow> qs | Some (ev, q) \<Rightarrow> (q, snd qs))"

definition shell_main :: "nat \<Rightarrow> event_state \<Rightarrow> 's shell \<Rightarrow> event_state \<times> 's shell" where
  "shell_main turns q st = (shell_turn ^^ turns) (q, shell_start st)"

end
