(* ===== verification/Shell_Session.thy ===== *)
theory Shell_Session
  imports Shell
begin

section \<open>A session with the shell\<close>

text \<open>
  What a user of the shell's commands observes: the words of a line, what reaches the screen, and a text that is
  written with the editor and printed with \<open>cat\<close> on the in-memory file system.
\<close>

subsection \<open>Words\<close>

text \<open>\<open>tokenize\<close> against the words of a line.\<close>

lemma tokenize_word:
  assumes "w \<noteq> []" "CHR '' '' \<notin> set w"
  shows "tokenize (w @ CHR '' '' # rest) (Suc n) = w # tokenize rest n" "tokenize w (Suc n) = [w]"
proof -
  have d: "dropWhile (\<lambda>c. c = CHR '' '') (w @ v) = w @ v" for v using assms by (cases w) auto
  have t: "takeWhile (\<lambda>c. c \<noteq> CHR '' '') (w @ CHR '' '' # rest) = w" "dropWhile (\<lambda>c. c \<noteq> CHR '' '') (w @ CHR '' '' # rest) = CHR '' '' # rest"
    using assms(2) by (auto simp: takeWhile_append dropWhile_append)
  have t': "takeWhile (\<lambda>c. c \<noteq> CHR '' '') w = w" "dropWhile (\<lambda>c. c \<noteq> CHR '' '') w = []"
    using assms(2) by auto
  show "tokenize (w @ CHR '' '' # rest) (Suc n) = w # tokenize rest n"
    unfolding tokenize.simps d Let_def t using assms(1) by simp
  have "dropWhile (\<lambda>c. c = CHR '' '') w = w" using d [of "[]"] by simp
  then show "tokenize w (Suc n) = [w]"
    unfolding tokenize.simps Let_def using assms(1) by (cases n) (simp_all only: t', simp_all)
qed

lemma tokenize_words:
  assumes "\<forall>w\<in>set ws. w \<noteq> [] \<and> CHR '' '' \<notin> set w"
  shows "tokenize (concat (map (\<lambda>w. w @ '' '') ws)) n = take n ws"
  using assms
proof (induction ws arbitrary: n)
  case Nil
  then show ?case by (cases n) simp_all
next
  case (Cons w ws)
  then show ?case by (cases n) (simp_all add: tokenize_word del: tokenize.simps(2))
qed

subsection \<open>What reaches the screen\<close>

definition same_screen :: "log_state \<Rightarrow> log_state \<Rightarrow> bool" where
  "same_screen s t \<longleftrightarrow> fb_inf s = fb_inf t \<and> fb_calls s = fb_calls t \<and> console_x s = console_x t
     \<and> console_y s = console_y t \<and> console_log_level s = console_log_level t"

lemma same_screen_refl [simp]: "same_screen s s"
  by (simp add: same_screen_def)

lemma same_screen_trans: "same_screen s t \<Longrightarrow> same_screen t u \<Longrightarrow> same_screen s u"
  by (simp add: same_screen_def)

lemma same_screen_putchar: "same_screen s t \<Longrightarrow> same_screen (klog_putchar c s) (klog_putchar c t)"
  by (auto simp: same_screen_def klog_putchar_def fb_emit_def Let_def split: option.splits)

lemma same_screen_print: "same_screen s t \<Longrightarrow> same_screen (klog_print_str m s) (klog_print_str m t)"
  by (induction m arbitrary: s t) (auto intro: same_screen_putchar)

lemma same_screen_serial: "same_screen (serial_print m s) s"
  by (induction m s rule: serial_print.induct) (auto simp: same_screen_def serial_putchar_def)

lemma print_level: "console_log_level (klog_print_str m s) = console_log_level s"
proof -
  have "console_log_level (klog_putchar c s) = console_log_level s" for c s
    by (auto simp: klog_putchar_def fb_emit_def Let_def split: option.splits)
  then show ?thesis by (induction m s rule: klog_print_str.induct) auto
qed

lemma print_append: "c_string a \<Longrightarrow> klog_print_str (a @ b) s = klog_print_str b (klog_print_str a s)"
  by (induction a arbitrary: s) auto

text \<open>A debug message stays in the log and on the serial port.\<close>

lemma log_fmt_debug:
  assumes "vksprintf format args = Some msg" "length msg < 512" "LOG_DEBUG < console_log_level (sh_log st)"
  obtains l where "log_fmt LOG_DEBUG format args st = Some (st\<lparr>sh_log := l\<rparr>)" "same_screen l (sh_log st)"
proof -
  let ?s1 = "log_store msg (sh_log st)"
  let ?s2 = "if serial_log_level ?s1 \<le> LOG_DEBUG then serial_print [CHR 0x0A] (serial_print msg (serial_print ''] ''
               (serial_print (level_name LOG_DEBUG) (serial_print ''['' ?s1)))) else ?s1"
  have s1: "same_screen ?s1 (sh_log st)" by (simp add: log_store_def same_screen_def Let_def)
  have s2: "same_screen ?s2 (sh_log st)"
    using s1 by (auto simp del: serial_print.simps intro!: same_screen_trans [OF same_screen_serial])
  then have "klog LOG_DEBUG msg (sh_log st) = Some ?s2"
    using assms(2,3) unfolding klog_def Let_def
    by (auto simp: LOG_MESSAGE_MAX_LEN_def same_screen_def not_le)
  then show ?thesis using assms(1) s2 that [of ?s2] by (simp add: log_fmt_def)
qed

lemma num_digits_length: "1 < b \<Longrightarrow> v < b ^ k \<Longrightarrow> length (num_digits b v) \<le> k"
proof (induction k arbitrary: v)
  case 0
  then show ?case by (simp add: num_digits.simps)
next
  case (Suc k)
  have "v div b < b ^ k" using Suc.prems by (simp add: less_mult_imp_div_less mult.commute)
  from Suc.IH [OF Suc.prems(1) this] show ?case by (simp add: num_digits.simps [of b v])
qed

lemma put_num_short:
  assumes "1 < b" shows "length (put_num 0 c b (unat (v :: u64))) \<le> 64"
proof -
  have "(2 :: nat) ^ 64 \<le> b ^ 64" using assms by (intro power_mono) auto
  then have "unat v < b ^ 64" using unsigned_less [of v] by (auto intro: less_le_trans)
  from num_digits_length [OF assms this] show ?thesis by (simp add: put_num_def num_buf_def Let_def)
qed

text \<open>The messages of \<open>cat\<close> and the paths.\<close>

lemma takeWhile_c_string [simp]: "c_string s \<Longrightarrow> takeWhile (\<lambda>x. x \<noteq> NUL) s = s"
  by (auto simp: c_string_def)

lemma cat_messages:
  assumes "c_string p" "length p < 300"
  shows "\<exists>m. vksprintf ''CAT: Attempting to open file: %s'' [str_arg p] = Some m \<and> length m < 512"
    and "\<exists>m. vksprintf ''CAT: File found (node: %p, flags: %x, length: %u)'' [num_arg a, num_arg f, num_arg l] = Some m \<and> length m < 512"
    and "\<exists>m. vksprintf ''CAT: Read %u bytes at offset %u'' [num_arg a, num_arg l] = Some m \<and> length m < 512"
proof -
  have short: "length (put_num 0 c 16 (unat (v :: u64))) \<le> 64" "length (put_num 0 c 10 (unat v)) \<le> 64" for c v
    by (rule put_num_short, simp)+
  show "\<exists>m. vksprintf ''CAT: Attempting to open file: %s'' [str_arg p] = Some m \<and> length m < 512"
    using assms by (simp add: vksprintf.simps(2) fmt_arg_def)
  show "\<exists>m. vksprintf ''CAT: File found (node: %p, flags: %x, length: %u)'' [num_arg a, num_arg f, num_arg l] = Some m \<and> length m < 512"
    using short(1) [of " CHR '' ''" a] short(1) [of "CHR '' ''" "ucast (ucast f :: u32)"] short(2) [of "CHR '' ''" "scast (ucast l :: u32)"]
    by (simp add: vksprintf.simps(2) fmt_arg_def Let_def)
  show "\<exists>m. vksprintf ''CAT: Read %u bytes at offset %u'' [num_arg a, num_arg l] = Some m \<and> length m < 512"
    using short(2) [of "CHR '' ''" "scast (ucast a :: u32)"] short(2) [of "CHR '' ''" "scast (ucast l :: u32)"]
    by (simp add: vksprintf.simps(2) fmt_arg_def Let_def)
qed

lemma path_formats:
  assumes "c_string a" "length a < 255"
  shows "fmt_in BUFFER_SIZE ''/%s'' [str_arg a] = Some (CHR ''/'' # a)"
  using assms by (simp add: fmt_in_def vksprintf.simps(2) fmt_arg_def BUFFER_SIZE_def)

subsection \<open>Files of KyroFS in the shell\<close>

text \<open>A node that is a regular file with the given bytes, and its length field agrees.\<close>

definition shell_file :: "kyrofs \<Rightarrow> nat \<Rightarrow> u8 list \<Rightarrow> bool" where
  "shell_file fs n bytes \<longleftrightarrow> (\<exists>x c buf. nodes fs n = Some x \<and> node_flags x AND VFS_FILE \<noteq> 0 \<and> node_rw x = Rw_kyrofs
     \<and> node_content x = Some c \<and> fc_content c = Some buf \<and> node_length x = fc_size c
     \<and> unat (fc_size c) = length bytes \<and> take (length bytes) buf = map Some bytes)"

definition kyro_node_len :: "kyrofs \<Rightarrow> nat \<Rightarrow> u32" where
  "kyro_node_len fs n = (case nodes fs n of None \<Rightarrow> 0 | Some x \<Rightarrow> node_length x)"

lemma shell_file_fields:
  assumes "shell_file fs n bytes" "length bytes < 2 ^ 31"
  shows "kyro_node_len fs n = of_nat (length bytes)" "op_flags (kyrofs_ops tr tw) fs n AND VFS_FILE \<noteq> 0"
    "op_read (kyrofs_ops tr tw) fs n = Some (kyrofs_read fs n)" "op_write (kyrofs_ops tr tw) fs n = Some (kyrofs_write fs n)"
  using assms by (auto simp: shell_file_def kyro_node_len_def kyrofs_ops_def word_unat_eq_iff unat_of_nat)

text \<open>A read from the middle returns what is left, up to the count.\<close>

lemma read_middle:
  assumes f: "shell_file fs n bytes" and lt: "length bytes < 2 ^ 31" "offs < length bytes" "unat count < 2 ^ 31"
  shows "kyrofs_read fs n (of_nat offs) count
    = Some (of_nat (min (unat count) (length bytes - offs)), map Some (take (unat count) (drop offs bytes)), fs)"
proof -
  obtain x c buf where x: "nodes fs n = Some x" "node_content x = Some c" "fc_content c = Some buf"
    "unat (fc_size c) = length bytes" "take (length bytes) buf = map Some bytes"
    using f by (auto simp: shell_file_def)
  have len: "length bytes \<le> length buf" using x(5) by (metis length_map length_take min.cobounded1)
  have o: "unat (of_nat offs :: u64) = offs" "unat (of_nat offs :: u32) = offs" using lt by (simp_all add: unat_of_nat)
  have "unat (of_nat offs + ucast count :: u64) = offs + unat count"
    using lt o by (subst unat_plus_simple [THEN iffD1]) (simp_all add: unat_ucast_32_64 word_le_nat_alt unat_word_ariths)
  then have past: "of_nat offs + ucast count > (ucast (fc_size c) :: u64) \<longleftrightarrow> length bytes < offs + unat count"
    by (simp add: word_less_nat_alt unat_ucast_32_64 x(4))
  have part: "take k (drop offs buf) = map Some (take k (drop offs bytes))" if "offs + k \<le> length bytes" for k
  proof -
    have "take k (drop offs buf) = take k (drop offs (take (length bytes) buf))" using that by (simp add: drop_take)
    then show ?thesis by (simp add: x(5) take_map drop_map)
  qed
  have rest: "unat (fc_size c - of_nat offs) = length bytes - offs"
    using lt(2) o(2) x(4) by (subst unat_sub) (simp_all add: word_le_nat_alt)
  have small: "\<not> of_nat offs \<ge> (ucast (fc_size c) :: u64)"
    using lt(2) o(1) x(4) by (simp add: word_le_nat_alt unat_ucast_32_64)
  have down: "(ucast (of_nat offs :: u64) :: u32) = of_nat offs" using lt by (simp add: word_unat_eq_iff o unat_ucast_64_32)
  show ?thesis
  proof (cases "length bytes < offs + unat count")
    case True
    moreover have "fc_size c - of_nat offs = of_nat (length bytes - offs)" by (simp flip: rest)
    ultimately show ?thesis using x small past rest o len part [of "length bytes - offs"] lt(2)
      by (simp add: kyrofs_read_def read_at_def down del: of_nat_diff)
  next
    case False
    then show ?thesis using x small past o len part [of "unat count"] lt
      by (simp add: kyrofs_read_def read_at_def)
  qed
qed

lemma char_cast: "char_of (unat (of_nat (of_char c) :: u8)) = (c :: char)"
  by (simp add: unat_of_nat)

lemma cells_text_some: "cells_text E (map Some (map (of_nat \<circ> of_char) t)) = t"
  by (intro nth_equalityI) (simp_all add: cells_text_def char_cast)

abbreviation bytes_of :: "string \<Rightarrow> u8 list" where "bytes_of t \<equiv> map (of_nat \<circ> of_char) t"

text \<open>\<open>cat\<close> prints the rest of the file, piece by piece.\<close>

lemma cat_loop_prints:
  assumes "node_len E = kyro_node_len" "sh_ops E = kyrofs_ops tr tw" "shell_file (sh_fs st) n (bytes_of t)"
    and "length t < 2 ^ 31" "c_string t" "LOG_DEBUG < console_log_level (sh_log st)" "offs \<le> length t"
  shows "\<exists>l. cat_loop E n (of_nat offs) st = Some (st\<lparr>sh_log := l\<rparr>) \<and> same_screen l (klog_print_str (drop offs t) (sh_log st))"
  using assms
proof (induction "length t - offs" arbitrary: offs st rule: less_induct)
  case less
  note E = less.prems(1,2)
  have len: "kyro_node_len (sh_fs st) n = of_nat (length t)" "op_read (kyrofs_ops tr tw) (sh_fs st) n = Some (kyrofs_read (sh_fs st) n)"
    using shell_file_fields [OF less.prems(3)] less.prems(4) by simp_all
  have u: "unat (of_nat offs :: u32) = offs" "unat (of_nat (length t) :: u32) = length t"
    "unat (of_nat offs :: u64) = offs"
    using less.prems(4,7) by (simp_all add: unat_of_nat)
  show ?case
  proof (cases "offs = length t")
    case True
    then show ?thesis by (subst cat_loop.simps) (simp add: E len exI [of _ "sh_log st"])
  next
    case False
    then have lt: "offs < length t" using less.prems(7) by simp
    let ?k = "min 1023 (length t - offs)"
    have k: "0 < ?k" "?k \<le> 1023" "offs + ?k \<le> length t" using lt by auto
    have uk: "unat (of_nat ?k :: u32) = ?k" using k(2) by (simp add: unat_of_nat)
    have c: "ucast (of_nat offs :: u32) = (of_nat offs :: u64)" using u by (simp add: word_unat_eq_iff unat_ucast_32_64)
    have rd: "vfs_read (kyrofs_ops tr tw) (Some n) (of_nat offs) 1023 (sh_fs st)
        = Some (of_nat ?k, map Some (bytes_of (take 1023 (drop offs t))), sh_fs st)"
      using read_middle [OF less.prems(3), of offs 1023] less.prems(4) lt
      by (simp add: vfs_read_def len take_map drop_map del: of_nat_diff)
    obtain m where m: "vksprintf ''CAT: Read %u bytes at offset %u'' [num_arg (ucast (of_nat ?k :: u32)), num_arg (of_nat offs)] = Some m"
      "length m < 512" using cat_messages(3) [of "[]"] by auto
    obtain l where l: "log_fmt LOG_DEBUG ''CAT: Read %u bytes at offset %u'' [num_arg (ucast (of_nat ?k :: u32)), num_arg (of_nat offs)] st
        = Some (st\<lparr>sh_log := l\<rparr>)" "same_screen l (sh_log st)"
      by (rule log_fmt_debug [OF m less.prems(6)])
    let ?p = "take 1023 (drop offs t)"
    let ?st = "st\<lparr>sh_log := klog_print_str ?p l\<rparr>"
    have step: "cat_loop E n (of_nat offs) st = cat_loop E n (of_nat (offs + ?k)) ?st"
    proof -
      have "(of_nat offs :: u32) < of_nat (length t)" using lt u by (simp add: word_less_nat_alt)
      moreover have "(of_nat ?k :: u32) \<noteq> 0" "\<not> (1023 :: u32) < of_nat ?k" using uk k by (auto simp: word_less_nat_alt)
      moreover have "cells_text E (map Some (bytes_of ?p)) = ?p" by (rule cells_text_some)
      moreover have "length ?p = ?k" "take ?k (drop offs t) = ?p" by (simp_all add: min_def)
      ultimately show ?thesis
        using l(1) by (subst cat_loop.simps) (simp add: E len c rd uk say_def del: of_nat_diff, simp add: min_def)
    qed
    have lv: "LOG_DEBUG < console_log_level (sh_log ?st)" using l(2) less.prems(6) by (simp add: print_level same_screen_def)
    have smaller: "length t - (offs + ?k) < length t - offs" using lt k by simp
    obtain l' where l': "cat_loop E n (of_nat (offs + ?k)) ?st = Some (?st\<lparr>sh_log := l'\<rparr>)"
      "same_screen l' (klog_print_str (drop (offs + ?k) t) (sh_log ?st))"
      using less.hyps [OF smaller E _ less.prems(4,5) lv k(3)] less.prems(3) by auto
    have "drop (offs + ?k) t = drop 1023 (drop offs t)" by (auto simp: min_def add.commute)
    then have "?p @ drop (offs + ?k) t = drop offs t" by (simp only: append_take_drop_id)
    moreover have cs: "c_string ?p" using less.prems(5) by (auto simp: c_string_def dest: in_set_takeD in_set_dropD)
    ultimately have "klog_print_str (drop offs t) l = klog_print_str (drop (offs + ?k) t) (klog_print_str ?p l)"
      by (simp only: print_append [OF cs, symmetric])
    then have "same_screen l' (klog_print_str (drop offs t) (sh_log st))"
      using same_screen_trans [OF l'(2)] same_screen_print [OF l(2), of "drop offs t"] by simp
    then show ?thesis using step l'(1) by auto
  qed
qed

text \<open>Typing in the editor: the characters end up in the buffer and on the screen.\<close>

definition typed_char :: "event \<Rightarrow> bool" where
  "typed_char ev \<longleftrightarrow> event_kind ev = EVENT_KEY_DOWN
     \<and> (ev_char ev = CHR 0x0A \<or> (32 :: nat) \<le> of_char (ev_char ev) \<and> (of_char (ev_char ev) :: nat) \<le> 126)"

lemma edit_typing:
  assumes "\<forall>ev\<in>set evs. typed_char ev" "length t + length evs \<le> 4095"
  shows "edit_loop E node (map (\<lambda>ev. (ev, False)) evs @ keys) t st
    = edit_loop E node keys (t @ map ev_char evs) (st\<lparr>sh_log := klog_print_str (map ev_char evs) (sh_log st)\<rparr>)"
  using assms
proof (induction evs arbitrary: t st)
  case (Cons ev evs)
  let ?c = "ev_char ev"
  have c: "?c = CHR 0x0A \<or> (32 :: nat) \<le> of_char ?c \<and> (of_char ?c :: nat) \<le> 126" "event_kind ev = EVENT_KEY_DOWN"
    using Cons.prems(1) by (auto simp: typed_char_def)
  have "?c \<noteq> CHR 0x08" "?c \<noteq> CHR 0x00" using c(1) by auto
  moreover have "length t < 4095" using Cons.prems(2) by simp
  ultimately have "edit_key E node ev False t st = Some (False, t @ [?c], st\<lparr>sh_log := klog_putchar ?c (sh_log st)\<rparr>)"
    using c by (auto simp: edit_key_def Let_def say_char_def)
  then show ?case using Cons \<open>?c \<noteq> CHR 0x00\<close> by simp
qed simp

text \<open>Saving writes the buffer at offset 0 of the empty file.\<close>

lemma save_new:
  assumes "kyro_inv fs" "\<forall>k. heap_ok fs k" "nodes fs n = Some (new_dirent d name VFS_FILE)" "length data < 2 ^ 31"
  obtains fs' where "kyrofs_write fs n 0 (of_nat (length data)) data = Some (of_nat (length data), fs')" "kyro_inv fs'"
    "shell_file fs' n data" "same_names fs fs'"
proof -
  let ?x = "new_dirent d name VFS_FILE"
  have x: "node_content ?x = Some new_content" "fc_content new_content = Some (replicate 128 None)" "fc_size new_content = 0"
    "node_flags ?x AND VFS_FILE \<noteq> 0" "node_rw ?x = Rw_kyrofs"
    by (simp_all add: new_dirent_def new_content_def Let_def)
  have wf: "kyro_wf fs" using assms(1) by (simp add: kyro_inv_def)
  have lt: "unat (0 :: u64) + length data < 2 ^ 31" using assms(4) by simp
  obtain c' buf' where w: "kyrofs_write fs n 0 (of_nat (length data)) data
       = Some (of_nat (length data), set_node n (?x\<lparr>node_content := Some c', node_length := fc_size c'\<rparr>) fs)"
    "fc_content c' = Some buf'" "unat (fc_size c') = length data" "take (length data) buf' = map Some data"
    by (rule kyrofs_write_effect [OF wf assms(3) x(1,2) assms(2) lt]) (simp add: x(3))
  let ?fs = "set_node n (?x\<lparr>node_content := Some c', node_length := fc_size c'\<rparr>) fs"
  have "unat (0 + ucast (of_nat (length data) :: u32) :: u64) < 2 ^ 31" using end_pos_unat [OF lt] assms(4) by simp
  from kyrofs_write_wf [OF wf this w(1)] have "kyro_wf ?fs" .
  then have "kyro_inv ?fs" using assms(1,3) by (auto simp: kyro_inv_def set_node_def new_dirent_def Let_def)
  moreover have "shell_file ?fs n data" using x(4,5) w(2-4) by (simp add: shell_file_def set_node_def)
  ultimately show ?thesis using that [OF w(1)] set_content_names [OF assms(3)] by blast
qed

text \<open>A word that names an entry of the root and is no option.\<close>

definition shell_word :: "string \<Rightarrow> bool" where
  "shell_word name \<longleftrightarrow> entry_name name \<and> c_string name \<and> CHR '' '' \<notin> set name \<and> name \<noteq> ''--help'' \<and> length name < 200"

lemma command_words:
  assumes "shell_word name"
  shows "tokenize (take 255 (''edit '' @ name)) 16 = [''edit'', name]" "tokenize (take 255 (''cat '' @ name)) 16 = [''cat'', name]"
proof -
  have n: "name \<noteq> []" "CHR '' '' \<notin> set name" "length name < 200" using assms by (auto simp: shell_word_def entry_name_def)
  have k: "(16 :: nat) = Suc (Suc 14)" by simp
  have two: "tokenize (w @ CHR '' '' # name) 16 = [w, name]" if "w \<noteq> []" "CHR '' '' \<notin> set w" for w
    unfolding k by (simp only: tokenize_word(1) [OF that] tokenize_word(2) [OF n(1,2)])
  have "take 255 (''edit '' @ name) = ''edit'' @ CHR '' '' # name" "take 255 (''cat '' @ name) = ''cat'' @ CHR '' '' # name"
    using n(3) by simp_all
  then show "tokenize (take 255 (''edit '' @ name)) 16 = [''edit'', name]" "tokenize (take 255 (''cat '' @ name)) 16 = [''cat'', name]"
    using two [of "''edit''"] two [of "''cat''"] by (simp_all only:) simp_all
qed

lemma add_to_history_frame:
  "sh_fs (add_to_history c st) = sh_fs st" "sh_log (add_to_history c st) = sh_log st" "cwd (add_to_history c st) = cwd st"
  by (simp_all add: add_to_history_def Let_def)

lemma say_frame:
  "sh_fs (say t st) = sh_fs st" "cwd (say t st) = cwd st" "console_log_level (sh_log (say t st)) = console_log_level (sh_log st)"
  "sh_fs (say_clear st) = sh_fs st" "cwd (say_clear st) = cwd st"
  "console_log_level (sh_log (say_clear st)) = console_log_level (sh_log st)"
  by (simp_all add: say_def say_clear_def console_clear_def fb_emit_def print_level)

lemma shell_path:
  assumes "shell_word name" "cwd st = ''/''"
  shows "arg_path name st = Some (CHR ''/'' # name)"
proof -
  have "name \<noteq> []" "c_string name" "length name < 255" "CHR ''/'' \<notin> set name"
    using assms(1) by (auto simp: shell_word_def entry_name_def)
  moreover from this have "name ! 0 \<noteq> CHR ''/''" by (metis length_greater_0_conv nth_mem)
  ultimately show ?thesis using path_formats by (simp add: arg_path_def assms(2))
qed

lemma cat_prints:
  assumes E: "sh_ops E = kyrofs_ops tr tw" "sh_root E = Some r" "node_len E = kyro_node_len"
    and name: "shell_word name" "cwd st = ''/''"
    and path: "vfs_resolve_path (kyrofs_ops tr tw) (Some r) (Some (CHR ''/'' # name)) (sh_fs st) = Some (Some n, sh_fs st)"
    and f: "shell_file (sh_fs st) n (bytes_of t)" "length t < 2 ^ 31" "c_string t"
    and lv: "LOG_DEBUG < console_log_level (sh_log st)"
  shows "\<exists>st2. execute_command E keys (''cat '' @ name) st = Some st2
    \<and> same_screen (sh_log st2) (klog_putchar (CHR 0x0A) (klog_print_str t (sh_log st)))"
proof -
  let ?p = "CHR ''/'' # name"
  define st0 where "st0 = add_to_history (''cat '' @ name) st"
  have h: "sh_fs st0 = sh_fs st" "sh_log st0 = sh_log st" "cwd st0 = cwd st" by (simp_all add: st0_def add_to_history_frame)
  have w: "c_string ?p" "length ?p < 300" "name \<noteq> ''--help''" using name(1) by (auto simp: shell_word_def)
  obtain m1 where m1: "vksprintf ''CAT: Attempting to open file: %s'' [str_arg ?p] = Some m1" "length m1 < 512"
    using cat_messages(1) [OF w(1,2)] by blast
  have lv0: "LOG_DEBUG < console_log_level (sh_log st0)" using lv h by simp
  obtain l1 where l1: "log_fmt LOG_DEBUG ''CAT: Attempting to open file: %s'' [str_arg ?p] st0 = Some (st0\<lparr>sh_log := l1\<rparr>)"
    "same_screen l1 (sh_log st0)" by (rule log_fmt_debug [OF m1 lv0])
  let ?st1 = "st0\<lparr>sh_log := l1\<rparr>"
  have res: "resolve E ?p ?st1 = Some (Some n, ?st1)" using path by (simp add: resolve_def E flip: h(1))
  have len: "length (bytes_of t) < 2 ^ 31" using f(2) by simp
  have flag: "node_flagged E (Some n) VFS_FILE ?st1"
    using shell_file_fields(2) [OF f(1) len] by (simp add: node_flagged_def E h)
  let ?args = "[addr_slot E (Some n), flags_slot E (Some n) ?st1, num_arg (ucast (node_len E (sh_fs ?st1) n))]"
  obtain m2 where m2: "vksprintf ''CAT: File found (node: %p, flags: %x, length: %u)'' ?args = Some m2" "length m2 < 512"
    using cat_messages(2) [OF w(1,2)] unfolding addr_slot_def flags_slot_def by blast
  have lv1: "LOG_DEBUG < console_log_level (sh_log ?st1)" using lv0 l1(2) by (simp add: same_screen_def)
  obtain l2 where l2: "log_fmt LOG_DEBUG ''CAT: File found (node: %p, flags: %x, length: %u)'' ?args ?st1 = Some (?st1\<lparr>sh_log := l2\<rparr>)"
    "same_screen l2 (sh_log ?st1)" by (rule log_fmt_debug [OF m2 lv1])
  let ?st2 = "?st1\<lparr>sh_log := l2\<rparr>"
  have lv2: "LOG_DEBUG < console_log_level (sh_log ?st2)" using lv1 l2(2) by (simp add: same_screen_def)
  have f2: "shell_file (sh_fs ?st2) n (bytes_of t)" using f(1) h by simp
  obtain l3 where l3: "cat_loop E n 0 ?st2 = Some (?st2\<lparr>sh_log := l3\<rparr>)" "same_screen l3 (klog_print_str t l2)"
    using cat_loop_prints [OF E(3,1) f2 f(2,3) lv2, of 0] by auto
  have c: "cmd_cat E [''cat'', name] st0 = Some (say_char (CHR 0x0A) (?st2\<lparr>sh_log := l3\<rparr>))"
    using l1(1) res flag l2(1) l3(1) shell_path [OF name(1), of st0] name(2) h(3) by (simp add: cmd_cat_def)
  have "execute_command E keys (''cat '' @ name) st = cmd_cat E [''cat'', name] st0"
    using w(3) by (simp add: execute_command_def command_words(2) [OF name(1), simplified] run_command_def or_help_def Let_def st0_def)
  moreover have "same_screen l2 (sh_log st)" using l1(2) l2(2) h(2) same_screen_trans by fastforce
  then have "same_screen (klog_putchar (CHR 0x0A) l3) (klog_putchar (CHR 0x0A) (klog_print_str t (sh_log st)))"
    by (intro same_screen_putchar same_screen_trans [OF l3(2)] same_screen_print)
  ultimately show ?thesis using c by (simp add: say_char_def)
qed

lemma edit_saves:
  assumes E: "sh_ops E = kyrofs_ops tr tw" "sh_root E = Some r" "node_len E = kyro_node_len" "\<forall>s. sh_alloc E s"
    and fs: "kyro_inv (sh_fs st)" "\<forall>k. heap_ok (sh_fs st) k" "is_directory (kyrofs_ops tr tw) (sh_fs st) r"
    and name: "shell_word name" "cwd st = ''/''" "kyro_lookup (sh_fs st) r name = None"
    and keys: "\<forall>ev\<in>set evs. typed_char ev" "length evs \<le> 4095"
    and save: "event_kind save = EVENT_KEY_DOWN" "ucast (data2 save) = (0x1F :: u8)"
    and leave: "event_kind leave = EVENT_KEY_DOWN" "ucast (data2 leave) = (0x2D :: u8)"
  shows "\<exists>st1 n. execute_command E (map (\<lambda>ev. (ev, False)) evs @ [(save, True), (leave, True)]) (''edit '' @ name) st = Some st1
    \<and> cwd st1 = ''/'' \<and> console_log_level (sh_log st1) = console_log_level (sh_log st)
    \<and> vfs_resolve_path (kyrofs_ops tr tw) (Some r) (Some (CHR ''/'' # name)) (sh_fs st1) = Some (Some n, sh_fs st1)
    \<and> kyro_inv (sh_fs st1) \<and> shell_file (sh_fs st1) n (bytes_of (map ev_char evs))"
proof -
  let ?p = "CHR ''/'' # name" and ?t = "map ev_char evs"
  let ?ops = "kyrofs_ops tr tw" and ?keys = "map (\<lambda>ev. (ev, False)) evs @ [(save, True), (leave, True)]"
  define st0 where "st0 = add_to_history (''edit '' @ name) st"
  have h: "sh_fs st0 = sh_fs st" "sh_log st0 = sh_log st" "cwd st0 = cwd st" by (simp_all add: st0_def add_to_history_frame)
  have e: "entry_name name" "name \<noteq> ''--help''" "CHR ''/'' \<notin> set name" using name(1) by (auto simp: shell_word_def entry_name_def)
  have nil: "short_path []" "length ([] :: string) < MAX_FILENAME_LEN" by (simp_all add: short_path_def MAX_FILENAME_LEN_def)
  obtain fs1 n where c: "vfs_create ?ops (Some r) (Some name) 0 (sh_fs st) = Some (0, fs1)" "kyro_inv fs1"
    "nodes fs1 n = Some (new_dirent r name VFS_FILE)" "heap_ok fs1 = heap_ok (sh_fs st)"
    "vfs_resolve_path ?ops (Some r) (Some ?p) fs1 = Some (Some n, fs1)"
    using create_node_at [OF fs(1,2) e(1) nil resolve_root fs(3) name(3)] by auto
  have absent: "vfs_resolve_path ?ops (Some r) (Some ?p) (sh_fs st) = Some (None, sh_fs st)"
    using resolve_absent [OF fs(1) e(1) nil resolve_root fs(3) name(3)] by simp
  have root: "vfs_resolve_path ?ops (Some r) (Some ''/'') (sh_fs st) = Some (Some r, sh_fs st)"
    by (simp add: vfs_resolve_path_def resolve_loop.simps)
  have ls: "last_slash ?p = 0" using last_slash_append [OF e(3), of "[]"] by simp
  have target: "edit_target E ?p st0 = Some (Some n, st0\<lparr>sh_fs := fs1\<rparr>)"
    using absent root c(1,5) by (simp add: edit_target_def resolve_def E ls flip: h(1))
  let ?st1 = "say (''--- Kyro-Editor --- Ctrl+S to Save | Ctrl+X to Exit ---'' @ [CHR 0x0A]) (say_clear (st0\<lparr>sh_fs := fs1\<rparr>))"
  have fs1: "sh_fs ?st1 = fs1" "kyro_node_len fs1 n = 0" "op_flags ?ops fs1 n AND VFS_FILE \<noteq> 0"
    using c(3) by (simp_all add: say_def say_clear_def kyro_node_len_def kyrofs_ops_def new_dirent_def Let_def)
  have load: "edit_load E n ?st1 = Some ([], ?st1)" using fs1(1,2) by (simp add: edit_load_def E)
  have small: "length (bytes_of ?t) < 2 ^ 31" using keys(2) by simp
  have heap: "\<forall>k. heap_ok fs1 k" using fs(2) c(4) by simp
  obtain fs2 where w: "kyrofs_write fs1 n 0 (of_nat (length (bytes_of ?t))) (bytes_of ?t) = Some (of_nat (length (bytes_of ?t)), fs2)"
    "kyro_inv fs2" "shell_file fs2 n (bytes_of ?t)" "same_names fs1 fs2" by (rule save_new [OF c(2) heap c(3) small])
  have wr: "vfs_write ?ops (Some n) 0 (of_nat (length ?t)) (bytes_of ?t) fs1 = Some (of_nat (length ?t), fs2)"
    using w(1) c(3) by (simp add: vfs_write_def kyrofs_ops_def new_dirent_def Let_def)
  let ?st2 = "?st1\<lparr>sh_log := klog_print_str ?t (sh_log ?st1), sh_fs := fs2\<rparr>"
  have "edit_loop E n ?keys [] ?st1 = Some (True, ?t, ?st2)"
    using edit_typing [OF keys(1), where t = "[]" and E = E and node = n and st = ?st1] keys(2) wr fs1(1) save leave
    by (simp add: edit_key_def E Let_def)
  then have "shell_edit E ?keys name st0 = Some (say_clear ?st2)"
    using shell_path [OF name(1), of st0] name(2) h target fs1(3) load E by (simp add: shell_edit_def)
  then have ex: "execute_command E ?keys (''edit '' @ name) st = Some (say_clear ?st2)"
    using e(2) by (simp add: execute_command_def command_words(1) [OF name(1), simplified] run_command_def or_help_def cmd_edit_def Let_def st0_def)
  have sp: "short_path ?p" using kyro_files.components_dir_name [OF e(1), of "[]"] e(1) by (simp add: short_path_def entry_name_def)
  have "vfs_resolve_path ?ops (Some r) (Some ?p) fs2 = Some (Some n, fs2)"
    by (rule same_names_resolve [OF c(2) w(2) w(4) sp c(5)])
  then show ?thesis using ex w(2,3) name(2) h
    by (intro exI [of _ "say_clear ?st2"] exI [of _ n]) (simp add: say_frame print_level)
qed

text \<open>C37: Writing with the shell's editor and reading with \<open>cat\<close>: in the root of KyroFS, \<open>edit name\<close> for a name that
  does not exist, up to 4095 typed characters, Ctrl+S and Ctrl+X leave a file with exactly these characters, and
  \<open>cat name\<close> then puts on the screen these characters and a newline, whatever the number of reads it takes, and
  nothing else.\<close>

theorem edit_then_cat:
  assumes "sh_ops E = kyrofs_ops tr tw" "sh_root E = Some r" "node_len E = kyro_node_len" "\<forall>s. sh_alloc E s"
    and "kyro_inv (sh_fs st)" "\<forall>k. heap_ok (sh_fs st) k" "is_directory (kyrofs_ops tr tw) (sh_fs st) r"
    and "shell_word name" "cwd st = ''/''" "kyro_lookup (sh_fs st) r name = None"
    and "\<forall>ev\<in>set evs. typed_char ev" "length evs \<le> 4095"
    and "event_kind save = EVENT_KEY_DOWN" "ucast (data2 save) = (0x1F :: u8)"
    and "event_kind leave = EVENT_KEY_DOWN" "ucast (data2 leave) = (0x2D :: u8)"
    and "LOG_DEBUG < console_log_level (sh_log st)"
  shows "\<exists>st1 st2 n.
      execute_command E (map (\<lambda>ev. (ev, False)) evs @ [(save, True), (leave, True)]) (''edit '' @ name) st = Some st1
    \<and> vfs_resolve_path (kyrofs_ops tr tw) (Some r) (Some (CHR ''/'' # name)) (sh_fs st1) = Some (Some n, sh_fs st1)
    \<and> shell_file (sh_fs st1) n (bytes_of (map ev_char evs))
    \<and> execute_command E [] (''cat '' @ name) st1 = Some st2
    \<and> same_screen (sh_log st2) (klog_putchar (CHR 0x0A) (klog_print_str (map ev_char evs) (sh_log st1)))"
proof -
  obtain st1 n where e: "execute_command E (map (\<lambda>ev. (ev, False)) evs @ [(save, True), (leave, True)]) (''edit '' @ name) st = Some st1"
    "cwd st1 = ''/''" "console_log_level (sh_log st1) = console_log_level (sh_log st)"
    "vfs_resolve_path (kyrofs_ops tr tw) (Some r) (Some (CHR ''/'' # name)) (sh_fs st1) = Some (Some n, sh_fs st1)"
    "shell_file (sh_fs st1) n (bytes_of (map ev_char evs))"
    using edit_saves [OF assms(1-16)] by blast
  have "ev_char ev \<noteq> NUL" if "typed_char ev" for ev using that by (auto simp: typed_char_def)
  then have t: "length (map ev_char evs) < 2 ^ 31" "c_string (map ev_char evs)"
    using assms(11,12) by (auto simp: c_string_def) metis
  have "LOG_DEBUG < console_log_level (sh_log st1)" using assms(17) e(3) by simp
  from cat_prints [OF assms(1-3,8) e(2,4,5) t this] show ?thesis using e(1,4,5) by blast
qed

text \<open>A shell on the file system with an empty root, and the keys of the word Hi.\<close>

definition demo_shell :: "kyrofs shell" where
  "demo_shell = \<lparr>sh_fs = root_fs, sh_log = log_boot, line_buffer = [], buffer_index = 0, history = replicate 10 [],
     history_count = 0, history_index = -1, current_history_view = -1, cwd = ''/'', debug_mode_enabled = False,
     sh_ports = [], sh_panic = None\<rparr>"

definition demo_env :: "(kyrofs, nat) shell_env" where
  "demo_env = \<lparr>sh_ops = boot_ops, sh_root = Some 1, node_len = kyro_node_len, node_addr = of_nat, sh_junk = (\<lambda>_. 0),
     sh_alloc = (\<lambda>_. True), sh_mount = (\<lambda>a b c s. Some (-1, s)), sh_exec = (\<lambda>p args s l. Some (-1, s, l)),
     sh_machine = (\<lambda>s. \<lparr>ram_bytes = 0, ram_used = 0, up_ticks = 0, cpu_brand = [], display = None\<rparr>)\<rparr>"

abbreviation key_event :: "u32 \<Rightarrow> u32 \<Rightarrow> event" where
  "key_event c scancode \<equiv> \<lparr>event_kind = EVENT_KEY_DOWN, data1 = c, data2 = scancode, data3 = 0\<rparr>"

theorem edit_then_cat_witness:
  "\<exists>st1 st2 n. execute_command demo_env [(key_event 72 0x23, False), (key_event 105 0x17, False), (key_event 115 0x1F, True),
       (key_event 120 0x2D, True)] ''edit notes'' demo_shell = Some st1
    \<and> shell_file (sh_fs st1) n [72, 105]
    \<and> execute_command demo_env [] ''cat notes'' st1 = Some st2
    \<and> same_screen (sh_log st2) (klog_putchar (CHR 0x0A) (klog_print_str ''Hi'' (sh_log st1)))"
proof -
  have k: "ev_char (key_event 72 0x23) = CHR ''H''" "ev_char (key_event 105 0x17) = CHR ''i''"
    by (simp_all add: ev_char_def char_of_def bit_0)
  have E: "sh_ops demo_env = kyrofs_ops no_tty_read no_tty_write" "sh_root demo_env = Some 1" "node_len demo_env = kyro_node_len"
    "\<forall>s. sh_alloc demo_env s" by (simp_all add: demo_env_def boot_ops_def)
  have fs: "kyro_inv (sh_fs demo_shell)" "\<forall>k. heap_ok (sh_fs demo_shell) k"
    "is_directory (kyrofs_ops no_tty_read no_tty_write) (sh_fs demo_shell) 1" "shell_word ''notes''" "cwd demo_shell = ''/''"
    "kyro_lookup (sh_fs demo_shell) 1 ''notes'' = None"
    using root_fs_inv root_fs_facts(2,3) by (simp_all add: demo_shell_def boot_ops_def shell_word_def entry_name_def MAX_FILENAME_LEN_def root_fs_def)
  have "\<forall>ev\<in>set [key_event 72 0x23, key_event 105 0x17]. typed_char ev" by (simp add: typed_char_def k)
  moreover have "LOG_DEBUG < console_log_level (sh_log demo_shell)" by (simp add: demo_shell_def log_boot_def less_log_level_t_def less_eq_log_level_t_def)
  ultimately show ?thesis
    using edit_then_cat [OF E fs, where evs = "[key_event 72 0x23, key_event 105 0x17]" and save = "key_event 115 0x1F" and leave = "key_event 120 0x2D"]
    by (auto simp: k)
qed

text \<open>The thread of the shell drops what is typed and runs no command.\<close>

lemma shell_main_ignores_input: "snd (shell_main turns q st) = shell_start st"
proof -
  have "snd ((shell_turn ^^ turns) qs) = snd qs" for qs :: "event_state \<times> 'a shell"
    by (induction turns) (auto simp: shell_turn_def split: option.split)
  then show ?thesis by (simp add: shell_main_def)
qed

text \<open>\<open>mkdir\<close> with a relative path below a directory reads an argument that was not passed.\<close>

lemma mkdir_below_directory:
  assumes "arg ! 0 \<noteq> CHR ''/''" "cwd st \<noteq> ''/''" "1 < length argv" "argv ! 1 = arg"
  shows "cmd_mkdir E argv st = None"
proof -
  have "vksprintf ''%s/%s'' [str_arg arg] = None"
    by (simp add: vksprintf.simps(2) fmt_arg_def)
  then show ?thesis using assms by (simp add: cmd_mkdir_def mkdir_path_def fmt_in_def)
qed

end
