(* ===== verification/Devfs.thy ===== *)
theory Devfs
  imports Klog Kernel_Random Vfs
begin

section \<open>Device files (src/kernel/devfs.c)\<close>

text \<open>
  The device file system: the node it is mounted on, its own root node (kept, and never read again), the nodes
  of \<open>/dev/urandom\<close> and \<open>/dev/console\<close>, the console and the generator. The function pointers of a node are a
  value of \<open>dev_calls\<close>: all null, those of the root, of urandom or of the console. Whether the heap has memory
  for the k-th allocation is the function \<open>dv_heap\<close>.
\<close>

datatype dev_calls = Calls_null | Calls_root | Calls_urandom | Calls_console

record dev_node =
  dev_name :: string
  dev_flags :: u32
  dev_inode :: u32
  dev_length :: u32
  dev_calls :: dev_calls

datatype dev_id = Mount_point | Urandom | Console

record devfs =
  dv_mount :: dev_node
  devfs_root_node :: "dev_node option"
  global_urandom_node :: "dev_node option"
  global_console_node :: "dev_node option"
  dv_log :: log_state
  dv_rng :: rng
  dv_tsc :: "u64 \<times> u64 \<times> u64"
  dv_heap :: "nat \<Rightarrow> bool"
  dv_allocs :: nat

definition dev_alloc :: "devfs \<Rightarrow> bool \<times> devfs" where
  "dev_alloc d = (dv_heap d (dv_allocs d), d\<lparr>dv_allocs := dv_allocs d + 1\<rparr>)"

definition dev_klog :: "log_level_t \<Rightarrow> string \<Rightarrow> devfs \<Rightarrow> devfs option" where
  "dev_klog level msg d = do { l \<leftarrow> klog level msg (dv_log d); Some (d\<lparr>dv_log := l\<rparr>) }"

subsection \<open>The devices\<close>

text \<open>The copy of the buffer has room for \<open>count + 1\<close> bytes in 32 bits.\<close>

definition console_write :: "u64 \<Rightarrow> u32 \<Rightarrow> u8 list \<Rightarrow> devfs \<Rightarrow> (u32 \<times> devfs) option" where
  "console_write offset count buffer d =
     (let (ok, d1) = dev_alloc d
      in if \<not> ok then Some (0, d1)
         else if count = -1 \<or> length buffer < unat count then None
         else Some (count, d1\<lparr>dv_log := klog_print_str (map (char_of \<circ> unat) (take (unat count) buffer)) (dv_log d1)\<rparr>))"

definition console_read :: "u64 \<Rightarrow> u32 \<Rightarrow> devfs \<Rightarrow> (u32 \<times> cell list \<times> devfs) option" where
  "console_read offset count d = Some (0, [], d)"

definition urandom_read :: "u64 \<Rightarrow> u32 \<Rightarrow> devfs \<Rightarrow> (u32 \<times> cell list \<times> devfs) option" where
  "urandom_read offset count d =
     (case dv_tsc d of (t0, t1, t2) \<Rightarrow>
       let (bytes, r) = random_get_bytes t0 t1 t2 (unat count) (dv_rng d)
       in Some (count, map Some bytes, d\<lparr>dv_rng := r\<rparr>))"

subsection \<open>The directory\<close>

definition devfs_finddir :: "string \<Rightarrow> devfs \<Rightarrow> dev_id option" where
  "devfs_finddir name d =
     (if name = ''urandom'' then map_option (\<lambda>_. Urandom) (global_urandom_node d)
      else if name = ''console'' then map_option (\<lambda>_. Console) (global_console_node d)
      else None)"

definition devfs_readdir :: "u32 \<Rightarrow> devfs \<Rightarrow> dirent option" where
  "devfs_readdir index d =
     (let entry = map_option (\<lambda>n. \<lparr>d_name = dev_name n, d_ino = dev_inode n\<rparr>)
      in if index = 0 then entry (global_urandom_node d)
         else if index = 1 then entry (global_console_node d)
         else None)"

definition dev_at :: "devfs \<Rightarrow> dev_id \<Rightarrow> dev_node option" where
  "dev_at d n = (case n of Mount_point \<Rightarrow> Some (dv_mount d) | Urandom \<Rightarrow> global_urandom_node d | Console \<Rightarrow> global_console_node d)"

text \<open>The function pointers of a node, as the layer above sees them.\<close>

definition devfs_ops :: "(devfs, dev_id) vfs_ops" where
  "devfs_ops =
     (let calls = (\<lambda>d n. case dev_at d n of None \<Rightarrow> Calls_null | Some x \<Rightarrow> dev_calls x)
      in \<lparr>op_flags = (\<lambda>d n. case dev_at d n of None \<Rightarrow> 0 | Some x \<Rightarrow> dev_flags x),
          op_read = (\<lambda>d n. case calls d n of
              Calls_urandom \<Rightarrow> Some (\<lambda>off k. urandom_read off k d)
            | Calls_console \<Rightarrow> Some (\<lambda>off k. console_read off k d)
            | _ \<Rightarrow> None),
          op_write = (\<lambda>d n. if calls d n = Calls_console then Some (\<lambda>off k buf. console_write off k buf d) else None),
          op_open = (\<lambda>d n. None),
          op_finddir = (\<lambda>d n. if calls d n = Calls_root then Some (\<lambda>name. Some (devfs_finddir name d, d)) else None),
          op_readdir = (\<lambda>d n. if calls d n = Calls_root then Some (\<lambda>index. Some (devfs_readdir index d, d)) else None),
          op_mkdir = (\<lambda>d n. None), op_create = (\<lambda>d n. None), op_remove = (\<lambda>d n. None),
          op_rmdir = (\<lambda>d n. None), op_stat = (\<lambda>d n. None)\<rparr>)"

subsection \<open>Mounting\<close>

definition devfs_root :: dev_node where
  "devfs_root = \<lparr>dev_name = ''dev'', dev_flags = VFS_DIRECTORY, dev_inode = 0, dev_length = 0, dev_calls = Calls_root\<rparr>"

definition urandom_device :: dev_node where
  "urandom_device = \<lparr>dev_name = ''urandom'', dev_flags = VFS_CHARDEVICE, dev_inode = 1, dev_length = 0, dev_calls = Calls_urandom\<rparr>"

definition console_device :: dev_node where
  "console_device = \<lparr>dev_name = ''console'', dev_flags = VFS_CHARDEVICE, dev_inode = 2, dev_length = 0, dev_calls = Calls_console\<rparr>"

text \<open>The mount point takes every field of the root node. A failure after that leaves it changed.\<close>

definition devfs_mount :: "bool \<Rightarrow> devfs \<Rightarrow> (int \<times> devfs) option" where
  "devfs_mount mount_point d =
     (if \<not> mount_point then do { d1 \<leftarrow> dev_klog LOG_ERROR ''DevFS: Mount point cannot be NULL.'' d; Some (- EINVAL, d1) }
      else case dev_alloc d of (ok, d1) \<Rightarrow>
        if \<not> ok then do { d2 \<leftarrow> dev_klog LOG_ERROR ''DevFS: Failed to allocate root node.'' (d1\<lparr>devfs_root_node := None\<rparr>); Some (- ENOMEM, d2) }
        else let d2 = d1\<lparr>devfs_root_node := Some devfs_root\<rparr> in case dev_alloc d2 of (ok', d3) \<Rightarrow>
          if \<not> ok' then do { d4 \<leftarrow> dev_klog LOG_ERROR ''DevFS: Failed to allocate /dev/urandom node.'' d3; Some (- ENOMEM, d4) }
          else do {
            d4 \<leftarrow> dev_klog LOG_INFO ''DevFS: /dev/urandom node created.''
                    (d3\<lparr>global_urandom_node := Some urandom_device, dv_mount := devfs_root\<rparr>);
            case dev_alloc d4 of (ok'', d5) \<Rightarrow>
              if \<not> ok'' then do { d6 \<leftarrow> dev_klog LOG_ERROR ''DevFS: Failed to allocate /dev/console node.'' d5; Some (- ENOMEM, d6) }
              else do {
                d6 \<leftarrow> dev_klog LOG_INFO ''DevFS: /dev/console node created.'' (d5\<lparr>global_console_node := Some console_device\<rparr>);
                d7 \<leftarrow> dev_klog LOG_INFO ''DevFS: Mounted successfully.'' d6;
                Some (0, d7) } })"

text \<open>Registration puts the type in front of the list of names of file systems.\<close>

definition devfs_init :: "string list \<Rightarrow> devfs \<Rightarrow> (string list \<times> devfs) option" where
  "devfs_init types d =
     (case dev_alloc d of (ok, d1) \<Rightarrow>
       if \<not> ok then do { d2 \<leftarrow> dev_klog LOG_ERROR ''DevFS: Failed to allocate filesystem_type for devfs.'' d1; Some (types, d2) }
       else do { d2 \<leftarrow> dev_klog LOG_INFO (''DevFS: Filesystem '' @ [CHR 0x27] @ ''devfs'' @ [CHR 0x27] @ '' registered.'') d1;
                 Some (''devfs'' # types, d2) })"

subsection \<open>A mounted device file system\<close>

definition dev_mounted :: "devfs \<Rightarrow> bool" where
  "dev_mounted d \<longleftrightarrow> dv_mount d = devfs_root \<and> global_urandom_node d = Some urandom_device \<and> global_console_node d = Some console_device"

definition devfs_look :: "devfs \<Rightarrow> dev_id \<Rightarrow> string \<Rightarrow> dev_id option" where
  "devfs_look d n name = devfs_finddir name d"

lemmas dev_node_defs = devfs_root_def urandom_device_def console_device_def

lemma dev_at_mounted:
  assumes "dev_mounted d"
  shows "dev_at d n = Some (case n of Mount_point \<Rightarrow> devfs_root | Urandom \<Rightarrow> urandom_device | Console \<Rightarrow> console_device)"
  using assms by (cases n) (simp_all add: dev_at_def dev_mounted_def)

lemma devfs_directory: "dev_mounted d \<Longrightarrow> is_directory devfs_ops d n \<longleftrightarrow> n = Mount_point"
  by (cases n) (simp_all add: is_directory_def devfs_ops_def dev_at_mounted dev_node_defs vfs_flag_defs)

interpretation dev_tree: file_tree devfs_ops dev_mounted devfs_look
proof unfold_locales
  fix d n assume "dev_mounted d" "is_directory devfs_ops d n"
  then show "\<exists>f. op_finddir devfs_ops d n = Some f
      \<and> (\<forall>name. length name < MAX_FILENAME_LEN \<longrightarrow> f name = Some (devfs_look d n name, d))"
    by (simp add: devfs_directory) (simp add: devfs_ops_def dev_at_mounted devfs_root_def devfs_look_def)
qed

lemma dev_klog_frame:
  assumes "dev_klog level msg d = Some d'"
  shows "d' = d\<lparr>dv_log := dv_log d'\<rparr>"
  using assms by (auto simp: dev_klog_def split: Option.bind_splits)

lemma dev_klog_short:
  assumes "length msg < 512"
  obtains l where "dev_klog level msg d = Some (d\<lparr>dv_log := l\<rparr>)"
proof -
  have "\<exists>l. klog level msg (dv_log d) = Some l"
    using assms unfolding klog_def Let_def by (simp add: LOG_MESSAGE_MAX_LEN_def del: klog_print_str.simps serial_print.simps)
  then show ?thesis using that by (auto simp: dev_klog_def)
qed

lemma devfs_mount_mounts:
  assumes "\<forall>k. dv_heap d k"
  shows "\<exists>d'. devfs_mount True d = Some (0, d') \<and> dev_mounted d' \<and> dv_heap d' = dv_heap d \<and> dv_rng d' = dv_rng d \<and> dv_tsc d' = dv_tsc d"
proof -
  let ?d1 = "d\<lparr>dv_allocs := dv_allocs d + 1, devfs_root_node := Some devfs_root\<rparr>"
  let ?d2 = "?d1\<lparr>dv_allocs := dv_allocs d + 2, global_urandom_node := Some urandom_device, dv_mount := devfs_root\<rparr>"
  obtain l1 where l1: "dev_klog LOG_INFO ''DevFS: /dev/urandom node created.'' ?d2 = Some (?d2\<lparr>dv_log := l1\<rparr>)"
    by (rule dev_klog_short [of "''DevFS: /dev/urandom node created.''" LOG_INFO ?d2]) simp_all
  let ?d3 = "?d2\<lparr>dv_log := l1, dv_allocs := dv_allocs d + 3, global_console_node := Some console_device\<rparr>"
  obtain l2 where l2: "dev_klog LOG_INFO ''DevFS: /dev/console node created.'' ?d3 = Some (?d3\<lparr>dv_log := l2\<rparr>)"
    by (rule dev_klog_short [of "''DevFS: /dev/console node created.''" LOG_INFO ?d3]) simp_all
  obtain l3 where l3: "dev_klog LOG_INFO ''DevFS: Mounted successfully.'' (?d3\<lparr>dv_log := l2\<rparr>) = Some (?d3\<lparr>dv_log := l3\<rparr>)"
    by (rule dev_klog_short [of "''DevFS: Mounted successfully.''" LOG_INFO "?d3\<lparr>dv_log := l2\<rparr>"]) simp_all
  have "devfs_mount True d = Some (0, ?d3\<lparr>dv_log := l3\<rparr>)"
    using assms l1 l2 l3 by (simp add: devfs_mount_def dev_alloc_def numeral_2_eq_2 numeral_3_eq_3)
  then show ?thesis by (simp add: dev_mounted_def)
qed

text \<open>After a mount with memory for its nodes, the device directory serves its two devices: the names it lists
  are exactly the names it resolves, \<open>/urandom\<close> reads as many bytes as asked from the generator and advances it,
  \<open>/console\<close> prints what is written, reads as empty, and no other name resolves.\<close>

lemma devfs_serves:
  assumes "\<forall>k. dv_heap d k"
  shows "\<exists>d'. devfs_mount True d = Some (0, d')
    \<and> vfs_resolve_path devfs_ops (Some Mount_point) (Some ''/urandom'') d' = Some (Some Urandom, d')
    \<and> vfs_resolve_path devfs_ops (Some Mount_point) (Some ''/console'') d' = Some (Some Console, d')
    \<and> (\<forall>name. (\<exists>index e. vfs_readdir devfs_ops (Some Mount_point) index d' = Some (Some e, d') \<and> d_name e = name)
          \<longleftrightarrow> (\<exists>n. vfs_finddir devfs_ops (Some Mount_point) name d' = Some (Some n, d')))
    \<and> (\<forall>offset count t0 t1 t2. dv_tsc d = (t0, t1, t2) \<longrightarrow>
          vfs_read devfs_ops (Some Urandom) offset count d'
            = Some (count, map Some (fst (random_get_bytes t0 t1 t2 (unat count) (dv_rng d))),
                d'\<lparr>dv_rng := snd (random_get_bytes t0 t1 t2 (unat count) (dv_rng d))\<rparr>))
    \<and> (\<forall>offset cs. length cs < 2 ^ 32 - 1 \<longrightarrow> (\<exists>d''.
          vfs_write devfs_ops (Some Console) offset (of_nat (length cs)) (map (of_nat \<circ> of_char) cs) d' = Some (of_nat (length cs), d'')
          \<and> dv_log d'' = klog_print_str cs (dv_log d')))
    \<and> (\<forall>offset count. vfs_read devfs_ops (Some Console) offset count d' = Some (0, [], d'))"
proof -
  obtain d' where d': "devfs_mount True d = Some (0, d')" "dev_mounted d'" "dv_heap d' = dv_heap d" "dv_rng d' = dv_rng d"
    "dv_tsc d' = dv_tsc d" using devfs_mount_mounts [OF assms] by blast
  note at = dev_at_mounted [OF d'(2)]
  have g: "global_urandom_node d' = Some urandom_device" "global_console_node d' = Some console_device"
    using d'(2) by (simp_all add: dev_mounted_def)
  have res: "vfs_resolve_path devfs_ops (Some Mount_point) (Some (CHR ''/'' # name)) d' = Some (devfs_finddir name d', d')"
    if "name \<noteq> []" "CHR ''/'' \<notin> set name" "length name < MAX_FILENAME_LEN" for name
  proof -
    have c: "components name = [name]" using components_comp [of name] that by simp
    then have "short_path (CHR ''/'' # name)" using that by (simp add: short_path_def c)
    from dev_tree.resolve_path_walk [OF d'(2) this] show ?thesis
      by (simp add: c devfs_directory [OF d'(2)] devfs_look_def split: option.split)
  qed
  have dir: "is_directory devfs_ops d' Mount_point" by (simp add: devfs_directory [OF d'(2)])
  have list: "vfs_readdir devfs_ops (Some Mount_point) index d' = Some (devfs_readdir index d', d')" for index
    using dir by (simp add: vfs_readdir_def) (simp add: devfs_ops_def at devfs_root_def)
  have find: "vfs_finddir devfs_ops (Some Mount_point) name d' = Some (devfs_finddir name d', d')" for name
    using dir by (simp add: vfs_finddir_def) (simp add: devfs_ops_def at devfs_root_def)
  have same: "(\<exists>index e. devfs_readdir index d' = Some e \<and> d_name e = name) \<longleftrightarrow> (\<exists>n. devfs_finddir name d' = Some n)" for name
  proof
    assume "\<exists>n. devfs_finddir name d' = Some n"
    then have "name = ''urandom'' \<or> name = ''console''" by (auto simp: devfs_finddir_def split: if_splits)
    then have "devfs_readdir 0 d' = Some \<lparr>d_name = name, d_ino = 1\<rparr> \<or> devfs_readdir 1 d' = Some \<lparr>d_name = name, d_ino = 2\<rparr>"
      by (auto simp: devfs_readdir_def Let_def g dev_node_defs)
    then show "\<exists>index e. devfs_readdir index d' = Some e \<and> d_name e = name" by (metis dirent.select_convs(1))
  qed (auto simp: devfs_readdir_def devfs_finddir_def Let_def g dev_node_defs split: if_splits)
  have rd: "vfs_read devfs_ops (Some Urandom) offset count d' = urandom_read offset count d'"
    "vfs_read devfs_ops (Some Console) offset count d' = Some (0, [], d')" for offset count
    by (simp_all add: vfs_read_def devfs_ops_def at dev_node_defs console_read_def)
  have wr: "vfs_write devfs_ops (Some Console) offset (of_nat (length cs)) (map (of_nat \<circ> of_char) cs) d'
      = Some (of_nat (length cs), d'\<lparr>dv_allocs := dv_allocs d' + 1, dv_log := klog_print_str cs (dv_log d')\<rparr>)"
    if "length cs < 2 ^ 32 - 1" for offset cs
  proof -
    have u: "unat (of_nat (length cs) :: u32) = length cs" using that by (simp add: unat_of_nat)
    then have "(of_nat (length cs) :: u32) \<noteq> -1" using that by (auto simp: unsigned_minus_1_eq_mask mask_eq_exp_minus_1)
    moreover have "map (char_of \<circ> unat) (map (of_nat \<circ> of_char :: char \<Rightarrow> u8) cs) = cs"
      by (simp add: comp_def unat_of_nat)
    ultimately show ?thesis using d'(3) assms u
      by (simp add: vfs_write_def devfs_ops_def at dev_node_defs console_write_def dev_alloc_def Let_def)
  qed
  show ?thesis
    using d'(1,4,5) res [of "''urandom''"] res [of "''console''"] list find same rd wr
    by (intro exI [of _ d']) (auto simp: MAX_FILENAME_LEN_def urandom_read_def devfs_finddir_def g split_beta)
qed

end
