(* ===== verification/Tty.thy ===== *)
theory Tty
  imports Event_Queue Kyrofs Klog
begin

section \<open>The terminal (src/kernel/tty.c)\<close>

text \<open>
  \<open>/dev/tty\<close> reads the input event queue and writes to the console. What interrupts push while the processor is
  halted is an argument, one list of events for each interrupt.
\<close>

text \<open>The bytes a read consumes from the queue: after every event it does not take, the processor halts until the
  next interrupt, which pushes a list of events (none for the timer). No interrupt is left: the read has not
  returned.\<close>

definition tty_key :: "event \<Rightarrow> bool" where
  "tty_key ev \<longleftrightarrow> event_kind ev = EVENT_KEY_DOWN \<and> (ucast (data1 ev) :: u8) \<noteq> 0"

fun tty_wait :: "event list list \<Rightarrow> event_state \<Rightarrow> (u8 \<times> event list list \<times> event_state) option" where
  "tty_wait [] q = (case event_pop q of None \<Rightarrow> None | Some (ev, q1) \<Rightarrow> if tty_key ev then Some (ucast (data1 ev), [], q1) else None)"
| "tty_wait (arrived # interrupts) q =
     (case event_pop q of
        None \<Rightarrow> tty_wait interrupts (fold event_push arrived q)
      | Some (ev, q1) \<Rightarrow> if tty_key ev then Some (ucast (data1 ev), arrived # interrupts, q1)
                         else tty_wait interrupts (fold event_push arrived q1))"

definition tty_read :: "u64 \<Rightarrow> u32 \<Rightarrow> event list list \<Rightarrow> event_state \<Rightarrow> (u32 \<times> cell list \<times> event list list \<times> event_state) option" where
  "tty_read offset count interrupts q =
     (if count = 0 then Some (0, [], interrupts, q)
      else map_option (\<lambda>(c, interrupts', q'). (1, [Some c], interrupts', q')) (tty_wait interrupts q))"

text \<open>The copy is on the stack, as long as the caller says.\<close>

definition tty_write :: "nat \<Rightarrow> u64 \<Rightarrow> u32 \<Rightarrow> u8 list \<Rightarrow> log_state \<Rightarrow> (u32 \<times> log_state) option" where
  "tty_write stack_left offset count buffer l =
     (if count = -1 \<or> stack_left < unat count + 1 \<or> length buffer < unat count then None
      else Some (count, klog_print_str (map (char_of \<circ> unat) (take (unat count) buffer)) l))"

text \<open>\<open>/dev/tty\<close> gets the handlers of the terminal.\<close>

definition tty_init :: "(kyrofs, nat) vfs_ops \<Rightarrow> kyrofs \<Rightarrow> log_state \<Rightarrow> (kyrofs \<times> log_state) option" where
  "tty_init ops fs l = do {
     (tty, fs1) \<leftarrow> vfs_resolve_path ops (vfs_root fs) (Some ''/dev/tty'') fs;
     case tty of
       Some n \<Rightarrow> do {
         l1 \<leftarrow> klog LOG_INFO ''TTY: /dev/tty handlers registered.'' l;
         Some (fs1\<lparr>nodes := (nodes fs1)(n := map_option (\<lambda>x. x\<lparr>node_rw := Rw_tty\<rparr>) (nodes fs1 n))\<rparr>, l1) }
     | None \<Rightarrow> do {
         l1 \<leftarrow> klog LOG_ERROR ''TTY: Failed to resolve /dev/tty. This should have been created by KyroFS.'' l;
         Some (fs1, l1) } }"

subsection \<open>What a program reads\<close>

definition key_bytes :: "event list \<Rightarrow> u8 list" where
  "key_bytes es = map (\<lambda>ev. ucast (data1 ev)) (filter tty_key es)"

lemma key_bytes_simps [simp]:
  "key_bytes [] = []" "key_bytes (es @ fs) = key_bytes es @ key_bytes fs"
  "key_bytes (ev # es) = (if tty_key ev then ucast (data1 ev) # key_bytes es else key_bytes es)"
  by (simp_all add: key_bytes_def)

text \<open>The first key of the queue and of what arrives is the one a read returns, when the timer goes on.\<close>

lemma tty_wait_timer:
  assumes "event_inv q" "event_contents q = us @ ev # vs" "\<forall>u\<in>set us. \<not> tty_key u" "tty_key ev" "length us \<le> m"
  shows "\<exists>q'. tty_wait (replicate m []) q = Some (ucast (data1 ev), replicate (m - length us) [], q')
    \<and> event_inv q' \<and> event_contents q' = vs"
  using assms
proof (induction us arbitrary: q m)
  case Nil
  then obtain q' where "event_pop q = Some (ev, q')" "event_inv q'" "event_contents q' = vs"
    using pop_contents [of q] by auto
  then show ?case using Nil.prems(4) by (cases m) simp_all
next
  case (Cons u us)
  then obtain k where k: "m = Suc k" by (cases m) auto
  obtain q1 where q1: "event_pop q = Some (u, q1)" "event_inv q1" "event_contents q1 = us @ ev # vs"
    using pop_contents [of q] Cons.prems by auto
  then show ?case using Cons.IH [OF q1(2,3), of k] Cons.prems by (simp add: k)
qed

lemma tty_wait_first_key:
  assumes "event_inv q" "event_contents q @ concat ints = us @ ev # vs" "\<forall>u\<in>set us. \<not> tty_key u" "tty_key ev" "length us \<le> m"
    and "length (event_contents q @ concat ints) \<le> EVENT_QUEUE_SIZE"
  shows "\<exists>ints' m' q'. tty_wait (ints @ replicate m []) q = Some (ucast (data1 ev), ints' @ replicate m' [], q')
    \<and> event_inv q' \<and> event_contents q' @ concat ints' = vs \<and> m \<le> m' + length us"
  using assms
proof (induction ints arbitrary: q us m)
  case Nil
  have c: "event_contents q = us @ ev # vs" using Nil.prems(2) by simp
  obtain q' where "tty_wait (replicate m []) q = Some (ucast (data1 ev), replicate (m - length us) [], q')"
    "event_inv q'" "event_contents q' = vs" using tty_wait_timer [OF Nil.prems(1) c Nil.prems(3-5)] by blast
  then show ?case using Nil.prems(5) by (intro exI [of _ "[]"] exI [of _ "m - length us"] exI [of _ q']) simp
next
  case (Cons p ints)
  from pop_contents [OF Cons.prems(1)] show ?case
  proof (elim disjE exE conjE)
    assume 1: "event_contents q = []" "event_pop q = None"
    have f: "event_inv (fold event_push p q)" "event_contents (fold event_push p q) = p"
      using fold_push_contents [of q p] Cons.prems(1,6) 1(1) by simp_all
    have "event_contents (fold event_push p q) @ concat ints = us @ ev # vs"
      "length (event_contents (fold event_push p q) @ concat ints) \<le> EVENT_QUEUE_SIZE"
      using Cons.prems(2,6) 1(1) f(2) by simp_all
    from Cons.IH [OF f(1) this(1) Cons.prems(3-5) this(2)] show ?thesis using 1(2) by simp
  next
    fix e es q1
    assume 2: "event_contents q = e # es" "event_pop q = Some (e, q1)" "event_inv q1" "event_contents q1 = es"
    show ?thesis
    proof (cases us)
      case Nil
      then show ?thesis using Cons.prems 2 by (intro exI [of _ "p # ints"] exI [of _ m] exI [of _ q1]) simp
    next
      case u: (Cons u ws)
      then have e: "e = u" "\<not> tty_key e" using Cons.prems(2,3) 2(1) by auto
      have f: "event_inv (fold event_push p q1)" "event_contents (fold event_push p q1) = es @ p"
        using fold_push_contents [of q1 p] Cons.prems(6) 2 by simp_all
      have "event_contents (fold event_push p q1) @ concat ints = ws @ ev # vs" using Cons.prems(2) 2(1) u f(2) by simp
      moreover have "\<forall>w\<in>set ws. \<not> tty_key w" "length ws \<le> m" using Cons.prems(3,5) u by simp_all
      moreover have "length (event_contents (fold event_push p q1) @ concat ints) \<le> EVENT_QUEUE_SIZE" using Cons.prems(6) 2(1) f(2) by simp
      ultimately obtain ints' m' q' where r: "tty_wait (ints @ replicate m []) (fold event_push p q1) = Some (ucast (data1 ev), ints' @ replicate m' [], q')"
        "event_inv q'" "event_contents q' @ concat ints' = vs" "m \<le> m' + length ws"
        using Cons.IH [OF f(1) _ _ Cons.prems(4)] by blast
      have "tty_wait ((p # ints) @ replicate m []) q = tty_wait (ints @ replicate m []) (fold event_push p q1)"
        using 2(2) e(2) by simp
      then show ?thesis using r u by (intro exI [of _ ints'] exI [of _ m'] exI [of _ q']) simp
    qed
  qed
qed

text \<open>A program that reads \<open>n\<close> times.\<close>

fun tty_reads :: "nat \<Rightarrow> u32 \<Rightarrow> event list list \<Rightarrow> event_state \<Rightarrow> (cell list \<times> event list list \<times> event_state) option" where
  "tty_reads 0 count interrupts q = Some ([], interrupts, q)"
| "tty_reads (Suc n) count interrupts q = do {
     (k, bytes, interrupts1, q1) \<leftarrow> tty_read 0 count interrupts q;
     (rest, interrupts2, q2) \<leftarrow> tty_reads n count interrupts1 q1;
     Some (take (unat k) bytes @ rest, interrupts2, q2) }"

lemma split_first_key:
  assumes "key_bytes es \<noteq> []"
  obtains us ev vs where "es = us @ ev # vs" "\<forall>u\<in>set us. \<not> tty_key u" "tty_key ev" "key_bytes es = ucast (data1 ev) # key_bytes vs"
proof -
  have "\<exists>ev\<in>set es. tty_key ev" using assms by (auto simp: key_bytes_def filter_empty_conv)
  then obtain us ev vs where s: "es = us @ ev # vs" "tty_key ev" "\<forall>u\<in>set us. \<not> tty_key u"
    using split_list_first_prop [of es tty_key] by auto
  then have "key_bytes us = []" by (simp add: key_bytes_def)
  then show ?thesis using that [OF s(1,3,2)] s by simp
qed


text \<open>A mouse movement in the queue, then two keys, and a third that an interrupt brings.\<close>

abbreviation tty_demo :: "event list \<Rightarrow> event_state" where
  "tty_demo es \<equiv> fold event_push es event_boot"


end
