(* ===== verification/Libc.thy ===== *)
theory Libc
  imports Kstring Syscall_Files
begin

section \<open>The C library of programs (src/userspace/lib/libc, src/src/tools/kyroolib.h)\<close>

text \<open>
  Strings and buffers are lists of characters that run to the end of their object: \<open>None\<close> is an access outside it.
  A C string ends at its first terminator. Positions in a string stand for pointers into it. The library's copies
  of \<open>memcpy\<close>, \<open>strlen\<close>, \<open>strcmp\<close> and \<open>strncpy\<close> have names of their own here. The functions that call the kernel
  take the process state of the system call layer.
\<close>

subsection \<open>Memory and strings (string.c)\<close>

fun u_strlen :: "string \<Rightarrow> nat option" where
  "u_strlen [] = None"
| "u_strlen (c # cs) = (if c \<noteq> NUL then map_option Suc (u_strlen cs) else Some 0)"

fun u_strcmp :: "string \<Rightarrow> string \<Rightarrow> int option" where
  "u_strcmp (a # as) (b # bs) = (if a \<noteq> NUL \<and> a = b then u_strcmp as bs else Some (int (of_char a) - int (of_char b)))"
| "u_strcmp _ _ = None"

fun memcmp :: "string \<Rightarrow> string \<Rightarrow> nat \<Rightarrow> int option" where
  "memcmp p1 p2 0 = Some 0"
| "memcmp (a # as) (b # bs) (Suc n) = (if a \<noteq> b then Some (int (of_char a) - int (of_char b)) else memcmp as bs n)"
| "memcmp _ _ (Suc n) = None"

fun strcpy :: "string \<Rightarrow> string \<Rightarrow> string option" where
  "strcpy (d # ds) (c # cs) = (if c \<noteq> NUL then map_option (Cons c) (strcpy ds cs) else Some (NUL # ds))"
| "strcpy _ _ = None"

fun strcat :: "string \<Rightarrow> string \<Rightarrow> string option" where
  "strcat [] src = None"
| "strcat (d # ds) src = (if d \<noteq> NUL then map_option (Cons d) (strcat ds src) else strcpy (d # ds) src)"

fun u_strrchr_from :: "string \<Rightarrow> char \<Rightarrow> nat \<Rightarrow> nat option \<Rightarrow> nat option option" where
  "u_strrchr_from [] c i seen = None"
| "u_strrchr_from (x # xs) c i seen =
     (if x \<noteq> NUL then u_strrchr_from xs c (i + 1) (if x = c then Some i else seen)
      else if c = NUL then Some (Some i) else Some seen)"

definition u_strrchr :: "string \<Rightarrow> char \<Rightarrow> nat option option" where
  "u_strrchr s c = u_strrchr_from s c 0 None"

fun u_strchr :: "string \<Rightarrow> char \<Rightarrow> nat option option" where
  "u_strchr [] c = None"
| "u_strchr (x # xs) c =
     (if x \<noteq> NUL then if x = c then Some (Some 0) else map_option (map_option Suc) (u_strchr xs c)
      else if c = NUL then Some (Some 0) else Some None)"

text \<open>The inner loop of \<open>strstr\<close>: whether the needle was used up.\<close>

fun needle_here :: "string \<Rightarrow> string \<Rightarrow> bool option" where
  "needle_here (h # hs) (n # ns) = (if h \<noteq> NUL \<and> n \<noteq> NUL \<and> h = n then needle_here hs ns else Some (n = NUL))"
| "needle_here _ _ = None"

fun strstr_loop :: "string \<Rightarrow> string \<Rightarrow> nat option option" where
  "strstr_loop [] needle = None"
| "strstr_loop (h # hs) needle =
     (if h = NUL then Some None
      else do {
        found \<leftarrow> needle_here (h # hs) needle;
        if found then Some (Some 0) else map_option (map_option Suc) (strstr_loop hs needle) })"

definition strstr :: "string \<Rightarrow> string \<Rightarrow> nat option option" where
  "strstr haystack needle =
     (case needle of [] \<Rightarrow> None
      | n # ns \<Rightarrow> if n = NUL then Some (Some 0) else strstr_loop haystack needle)"

fun u_strncpy_chars :: "string \<Rightarrow> nat \<Rightarrow> string option" where
  "u_strncpy_chars src 0 = Some []"
| "u_strncpy_chars [] (Suc n) = None"
| "u_strncpy_chars (c # cs) (Suc n) =
     (if c \<noteq> NUL then map_option (Cons c) (u_strncpy_chars cs n) else Some (replicate (Suc n) NUL))"

definition u_strncpy :: "string \<Rightarrow> string \<Rightarrow> nat \<Rightarrow> string option" where
  "u_strncpy dest src n = do {
     cs \<leftarrow> u_strncpy_chars src n;
     if n \<le> length dest then Some (cs @ drop n dest) else None }"

text \<open>\<open>memcpy\<close> between different objects.\<close>

definition u_memcpy :: "'a list \<Rightarrow> 'a list \<Rightarrow> nat \<Rightarrow> 'a list option" where
  "u_memcpy dest src n = (if n \<le> length dest \<and> n \<le> length src then Some (take n src @ drop n dest) else None)"

definition u_memset :: "u8 list \<Rightarrow> int \<Rightarrow> nat \<Rightarrow> u8 list option" where
  "u_memset s c n = (if n \<le> length s then Some (replicate n (of_int c) @ drop n s) else None)"

subsection \<open>Checked variants (chk.c)\<close>

text \<open>A failed check prints and exits the program.\<close>

datatype 'a checked = Chk_exit | Chk_done 'a

definition strcpy_chk :: "string \<Rightarrow> string \<Rightarrow> nat \<Rightarrow> string checked option" where
  "strcpy_chk dest src dest_len = do {
     len \<leftarrow> u_strlen src;
     if len \<ge> dest_len then Some Chk_exit else map_option Chk_done (u_memcpy dest src (len + 1)) }"

definition u_memcpy_chk :: "string \<Rightarrow> string \<Rightarrow> nat \<Rightarrow> nat \<Rightarrow> string checked option" where
  "u_memcpy_chk dest src len dest_len =
     (if len > dest_len then Some Chk_exit else map_option Chk_done (u_memcpy dest src len))"

definition strcat_chk :: "string \<Rightarrow> string \<Rightarrow> nat \<Rightarrow> string checked option" where
  "strcat_chk dest src dest_len = do {
     cur_len \<leftarrow> u_strlen dest;
     src_len \<leftarrow> u_strlen src;
     if cur_len + src_len \<ge> dest_len then Some Chk_exit else map_option Chk_done (strcat dest src) }"

subsection \<open>Numbers and formats (stdlib.c, kyroolib.h)\<close>

definition skip_space :: "string \<Rightarrow> string" where
  "skip_space s = dropWhile (\<lambda>c. c = CHR '' '' \<or> c = CHR 0x09 \<or> c = CHR 0x0A) s"

text \<open>The result is an \<open>int\<close>: beyond its range the code has no defined result.\<close>

fun atoi_digits :: "string \<Rightarrow> int \<Rightarrow> int option" where
  "atoi_digits [] result = None"
| "atoi_digits (c # cs) result =
     (if is_digit c
      then let r = result * 10 + int (digit_val c) in if r < 2 ^ 31 then atoi_digits cs r else None
      else Some result)"

definition atoi :: "string \<Rightarrow> int option" where
  "atoi str =
     (case skip_space str of [] \<Rightarrow> None
      | c # cs \<Rightarrow>
          if c = CHR ''-'' then map_option uminus (atoi_digits cs 0)
          else if c = CHR ''+'' then atoi_digits cs 0
          else atoi_digits (c # cs) 0)"

text \<open>The formatter is the kernel's, line by line.\<close>

definition vsprintf :: "string \<Rightarrow> va_slot list \<Rightarrow> string option" where
  "vsprintf format args = vksprintf format args"

definition snprintf :: "string \<Rightarrow> nat \<Rightarrow> string \<Rightarrow> va_slot list \<Rightarrow> (nat \<times> string) option" where
  "snprintf buf n format args =
     (if n = 0 then Some (0, buf)
      else do {
        out \<leftarrow> vsprintf format args;
        let copy_len = (if length out < n - 1 then length out else n - 1);
        if 2048 \<le> length out \<or> length buf \<le> copy_len then None
        else Some (length out, take copy_len out @ [NUL] @ drop (copy_len + 1) buf) })"

subsection \<open>Errors (errno.c)\<close>

definition str_error :: "string list" where
  "str_error =
     [''Success'', ''Operation not permitted'', ''No such file or directory'', ''No such process'',
      ''Interrupted system call'', ''I/O error'', ''No such device or address'', ''Argument list too long'',
      ''Exec format error'', ''Bad file number'', ''No child processes'', ''Try again'', ''Out of memory'',
      ''Permission denied'', ''Bad address'', ''Block device required'', ''Device or resource busy'', ''File exists'',
      ''Cross-device link'', ''No such device'', ''Not a directory'', ''Is a directory'', ''Invalid argument'',
      ''File table overflow'', ''Too many open files'', ''Not a typewriter'', ''Text file busy'', ''File too large'',
      ''No space left on device'', ''Illegal seek'', ''Read-only file system'', ''Too many links'', ''Broken pipe'',
      ''Function not implemented'']"

definition MAX_ERROR_CODE :: int where "MAX_ERROR_CODE = 39"
definition ENOSYS :: int where "ENOSYS = 38"

text \<open>The table ends before the codes the test admits: an index past it is \<open>None\<close>.\<close>

definition error_text :: "int \<Rightarrow> string option" where
  "error_text errno =
     (if 0 < errno \<and> errno < MAX_ERROR_CODE
      then if nat errno < length str_error then Some (str_error ! nat errno) else None
      else if errno = ENOSYS then if nat ENOSYS < length str_error then Some (str_error ! nat ENOSYS) else None
      else Some ''Unknown error'')"

definition perror_text :: "string option \<Rightarrow> int \<Rightarrow> string option" where
  "perror_text s errno = do {
     err_str \<leftarrow> error_text errno;
     let out = (case s of Some p \<Rightarrow> if p \<noteq> [] then p @ '': '' @ err_str @ [CHR 0x0A] else err_str @ [CHR 0x0A]
                | None \<Rightarrow> err_str @ [CHR 0x0A]);
     if length out < 256 then Some out else None }"

subsection \<open>Calls (kyroolib.h)\<close>

text \<open>The instruction \<open>int 0x80\<close> with the call's number and three arguments.\<close>

definition u_syscall :: "('s, 'n) kernel_ops \<Rightarrow> nat \<Rightarrow> u64 \<Rightarrow> u64 \<Rightarrow> u64 \<Rightarrow> ('s, 'n) kstate \<Rightarrow> (outcome \<times> ('s, 'n) kstate) option" where
  "u_syscall K num a1 a2 a3 k = syscall_handler K \<lparr>rax = of_nat num, rdi = a1, rsi = a2, rdx = a3, r10 = 0\<rparr> k"

definition sbrk :: "('s, 'n) kernel_ops \<Rightarrow> u64 \<Rightarrow> ('s, 'n) kstate \<Rightarrow> (u64 \<times> ('s, 'n) kstate) option" where
  "sbrk K increment k = do {
     (out, k') \<leftarrow> u_syscall K SYS_SBRK increment 0 0 k;
     case out of Returned v \<Rightarrow> Some (v, k') | _ \<Rightarrow> None }"

text \<open>What \<open>print\<close> and \<open>puts\<close> hand to \<open>write\<close> on descriptor 1, for a string at an address of the program.\<close>

definition u_write :: "('s, 'n) kernel_ops \<Rightarrow> u64 \<Rightarrow> u64 \<Rightarrow> u64 \<Rightarrow> ('s, 'n) kstate \<Rightarrow> (int \<times> ('s, 'n) kstate) option" where
  "u_write K fd buf n k = do {
     (out, k') \<leftarrow> u_syscall K SYS_WRITE fd buf n k;
     case out of Returned v \<Rightarrow> Some (sint (ucast v :: u32), k') | _ \<Rightarrow> None }"

text \<open>The length of the string at an address, for a string of fewer than \<open>limit\<close> characters.\<close>

fun mem_strlen :: "memory \<Rightarrow> u64 \<Rightarrow> nat \<Rightarrow> nat option" where
  "mem_strlen mem a 0 = None"
| "mem_strlen mem a (Suc limit) = (if mem a = 0 then Some 0 else map_option Suc (mem_strlen mem (a + 1) limit))"

definition print :: "('s, 'n) kernel_ops \<Rightarrow> u64 \<Rightarrow> ('s, 'n) kstate \<Rightarrow> ('s, 'n) kstate option" where
  "print K s k =
     (if s = 0 then Some k
      else do {
        len \<leftarrow> mem_strlen (k_mem k) s (2 ^ 32);
        (r, k') \<leftarrow> u_write K 1 s (of_nat len) k;
        Some k' })"

text \<open>\<open>newline\<close> is the address of the constant string of one newline.\<close>

definition puts :: "('s, 'n) kernel_ops \<Rightarrow> u64 \<Rightarrow> u64 \<Rightarrow> ('s, 'n) kstate \<Rightarrow> (int \<times> ('s, 'n) kstate) option" where
  "puts K newline s k =
     (if s = 0 then u_write K 1 newline 1 k
      else do {
        len \<leftarrow> mem_strlen (k_mem k) s (2 ^ 32);
        (ret, k1) \<leftarrow> u_write K 1 s (of_nat len) k;
        if ret < 0 then Some (-1, k1)
        else do {
          (newline_ret, k2) \<leftarrow> u_write K 1 newline 1 k1;
          if newline_ret < 0 then Some (-1, k2) else Some (ret + newline_ret, k2) } })"

subsection \<open>The heap of a program (malloc.c)\<close>

record uheap =
  heap_start :: u64
  heap_end :: u64
  u_errno :: int

text \<open>The first result is the address of the block. A null pointer is 0. \<open>texts\<close> are the addresses of the messages.\<close>

definition align8 :: "u64 \<Rightarrow> u64" where
  "align8 n = (n + 7) AND NOT 7"

definition u_malloc :: "('s, 'n) kernel_ops \<Rightarrow> (nat \<Rightarrow> u64) \<Rightarrow> u64 \<Rightarrow> uheap \<Rightarrow> ('s, 'n) kstate \<Rightarrow> (u64 \<times> uheap \<times> ('s, 'n) kstate) option" where
  "u_malloc K texts n h k =
     (if n = 0 then Some (0, h, k)
      else do {
        (h1, k1) \<leftarrow> (if heap_start h = 0
           then do { (b, k1) \<leftarrow> sbrk K 0 k; Some (if b = -1 then h\<lparr>heap_start := b\<rparr> else h\<lparr>heap_start := b, heap_end := b\<rparr>, k1) }
           else Some (h, k));
        if heap_start h = 0 \<and> heap_start h1 = -1
        then do { k2 \<leftarrow> print K (texts 0) k1; Some (0, h1, k2) }
        else do {
          let m = align8 n;
          (actual_new_brk, k2) \<leftarrow> sbrk K m k1;
          if actual_new_brk = -1 then do { k3 \<leftarrow> print K (texts 1) k2; Some (0, h1, k3) }
          else if actual_new_brk = heap_end h1 then Some (heap_end h1, h1\<lparr>heap_end := heap_end h1 + m\<rparr>, k2)
          else do { k3 \<leftarrow> print K (texts 2) k2; Some (0, h1\<lparr>u_errno := EINVAL\<rparr>, k3) } } })"

definition u_free :: "u64 \<Rightarrow> uheap \<Rightarrow> uheap" where
  "u_free ptr h = h"

subsection \<open>Strings\<close>

lemma strcpy_c_string:
  "c_string a \<Longrightarrow> length a < length d \<Longrightarrow> strcpy d (a @ NUL # t) = Some (a @ NUL # drop (length a + 1) d)"
proof (induction a arbitrary: d)
  case Nil
  then show ?case by (cases d) auto
next
  case (Cons x a)
  then show ?case by (cases d) auto
qed

lemma strcpy_overflow: "c_string a \<Longrightarrow> length d \<le> length a \<Longrightarrow> strcpy d (a @ NUL # t) = None"
proof (induction a arbitrary: d)
  case (Cons x a)
  then show ?case by (cases d) auto
qed simp

lemma strcat_c_string:
  assumes "c_string a" "c_string b" "length a + length b < length d + length a + 1"
  shows "strcat (a @ NUL # d) (b @ NUL # t) = Some (a @ b @ NUL # drop (length b) d)"
  using assms
proof (induction a)
  case Nil
  then show ?case using strcpy_c_string [of b "NUL # d" t] by simp
qed simp

text \<open>\<open>strstr\<close> finds the first place where the needle stands.\<close>

definition stands_at :: "string \<Rightarrow> string \<Rightarrow> nat \<Rightarrow> bool" where
  "stands_at h n i \<longleftrightarrow> i + length n \<le> length h \<and> take (length n) (drop i h) = n"

lemma needle_here_iff:
  "c_string h \<Longrightarrow> c_string n \<Longrightarrow> needle_here (h @ NUL # t) (n @ NUL # u) = Some (stands_at h n 0)"
proof (induction h arbitrary: n)
  case Nil
  then show ?case by (cases n) (auto simp: stands_at_def)
next
  case (Cons x h)
  then show ?case by (cases n) (auto simp: stands_at_def)
qed

lemma stands_at_Suc: "stands_at (x # h) n (Suc i) \<longleftrightarrow> stands_at h n i"
  by (simp add: stands_at_def)

lemma strstr_loop_first:
  assumes "c_string h" "c_string n" "n \<noteq> []"
  shows "strstr_loop (h @ NUL # t) (n @ NUL # u) = Some (if \<exists>i. stands_at h n i then Some (LEAST i. stands_at h n i) else None)"
  using assms
proof (induction h)
  case Nil
  then show ?case by (simp add: stands_at_def)
next
  case (Cons x h)
  have x: "x \<noteq> NUL" "c_string h" using Cons.prems(1) by simp_all
  have here: "needle_here (x # h @ NUL # t) (n @ NUL # u) = Some (stands_at (x # h) n 0)"
    using needle_here_iff [OF Cons.prems(1,2)] by simp
  note IH = Cons.IH [OF x(2) Cons.prems(2,3)]
  show ?case
  proof (cases "stands_at (x # h) n 0")
    case True
    then have "(LEAST i. stands_at (x # h) n i) = 0" by (intro Least_equality) simp_all
    then show ?thesis using True x here by auto
  next
    case False
    then have ex: "(\<exists>i. stands_at (x # h) n i) \<longleftrightarrow> (\<exists>i. stands_at h n i)" by (metis not0_implies_Suc stands_at_Suc)
    have "(LEAST i. stands_at (x # h) n i) = Suc (LEAST i. stands_at h n i)" if "stands_at h n i" for i
      using Least_Suc [of "stands_at (x # h) n" "Suc i"] that False by (simp add: stands_at_Suc)
    then show ?thesis using False x here IH ex by auto
  qed
qed

lemma strstr_first:
  assumes "c_string h" "c_string n"
  shows "strstr (h @ NUL # t) (n @ NUL # u) = Some (if \<exists>i. stands_at h n i then Some (LEAST i. stands_at h n i) else None)"
proof (cases n)
  case Nil
  then have "stands_at h n i \<longleftrightarrow> i \<le> length h" for i by (auto simp: stands_at_def)
  then show ?thesis using Nil by (auto simp: strstr_def intro!: Least_equality [symmetric])
next
  case (Cons c cs)
  then show ?thesis using strstr_loop_first [OF assms] assms(2) by (simp add: strstr_def)
qed

subsection \<open>Numbers\<close>

lemma digits_value_ge: "a \<le> digits_value 10 a ds"
proof (induction ds arbitrary: a)
  case (Cons c ds)
  show ?case using Cons [of "10 * a + (if is_digit c then digit_val c else of_char c - 87)"] by simp
qed simp

lemma atoi_digits_value:
  assumes "\<forall>c\<in>set ds. is_digit c" "digits_value 10 a ds < 2 ^ 31" "\<not> is_digit e"
  shows "atoi_digits (ds @ e # t) (int a) = Some (int (digits_value 10 a ds))"
  using assms
proof (induction ds arbitrary: a)
  case (Cons c ds)
  let ?a = "10 * a + digit_val c"
  have e: "int a * 10 + int (digit_val c) = int ?a" by simp
  have "?a < 2 ^ 31" using digits_value_ge [of ?a ds] Cons.prems(1,2) by simp
  then have "int ?a < 2 ^ 31" by (metis of_nat_less_iff of_nat_numeral of_nat_power)
  then have "atoi_digits ((c # ds) @ e # t) (int a) = atoi_digits (ds @ e # t) (int ?a)"
    unfolding append_Cons atoi_digits.simps Let_def e using Cons.prems(1) by simp
  then show ?case using Cons.IH [of ?a] Cons.prems by simp
qed simp

lemma put_num_digits: "\<forall>c\<in>set (put_num 0 x 10 v). is_digit c" "put_num 0 x 10 v \<noteq> []"
proof -
  have d: "is_digit (hex_chars ! d)" if "d < 10" for d
  proof -
    have "\<forall>d<10. is_digit (hex_chars ! d)" by (simp add: hex_chars_def is_digit_def numeral_eq_Suc All_less_Suc)
    then show ?thesis using that by blast
  qed
  have "\<forall>c\<in>set (num_digits 10 v). is_digit c"
  proof (induction "10 :: nat" v rule: num_digits.induct)
    case (1 v)
    then show ?case by (subst num_digits.simps) (auto simp: d)
  qed
  moreover have "is_digit (CHR ''0'')" by (simp add: is_digit_def)
  ultimately show "\<forall>c\<in>set (put_num 0 x 10 v). is_digit c" by (auto simp: put_num_def num_buf_def Let_def)
  show "put_num 0 x 10 v \<noteq> []" by (simp add: put_num_def num_buf_def Let_def num_digits.simps [of 10 v])
qed

text \<open>\<open>atoi\<close> reads back what \<open>sprintf\<close> prints with \<open>%d\<close>: for every signed 32-bit number but the smallest, on the
  whole text and whatever follows its terminator.\<close>

lemma atoi_reads_sprintf:
  assumes "sint (ucast w :: u32) \<noteq> - (2 ^ 31)"
  shows "\<exists>out. vsprintf ''%d'' [Slot w p] = Some out \<and> atoi (out @ NUL # t) = Some (sint (ucast w :: u32))"
proof -
  let ?v = "ucast w :: u32" and ?n = "\<lambda>v :: u64. put_num 0 (CHR '' '') 10 (unat v)"
  have s: "sint (scast ?v :: u64) = sint ?v" by (rule scast_u32_sint)
  have r: "- (2 ^ 31) < sint ?v" "sint ?v < 2 ^ 31"
    using assms sint_greater_eq [of ?v] sint_less [of ?v] by simp_all
  have nul: "\<not> is_digit NUL" by (simp add: is_digit_def)
  have read: "atoi_digits (?n v @ NUL # t) 0 = Some (int (unat v))" if "unat v < 2 ^ 31" for v :: u64
    using atoi_digits_value [OF put_num_digits(1), of 0 "CHR '' ''" "unat v" NUL t] nul that by (simp add: put_num_value)
  show ?thesis
  proof (cases "sint ?v < 0")
    case True
    have u: "int (unat (- (scast ?v :: u64))) = - sint ?v" using unat_neg_sint [of "scast ?v"] True s by simp
    then have "int (unat (- (scast ?v :: u64))) < int (2 ^ 31)" using r by simp
    then have "unat (- (scast ?v :: u64)) < 2 ^ 31" by (simp only: of_nat_less_iff)
    from read [OF this] True u s show ?thesis
      by (simp add: vsprintf_def vksprintf_d Let_def atoi_def skip_space_def)
  next
    case False
    have u: "int (unat (scast ?v :: u64)) = sint ?v" using unat_nonneg_sint [of "scast ?v"] False s by simp
    then have "int (unat (scast ?v :: u64)) < int (2 ^ 31)" using r by simp
    then have "unat (scast ?v :: u64) < 2 ^ 31" by (simp only: of_nat_less_iff)
    note rd = read [OF this]
    obtain c cs where n: "?n (scast ?v) = c # cs" using put_num_digits(2) by (meson neq_Nil_conv)
    then have "is_digit c" using put_num_digits(1) [of "CHR '' ''" "unat (scast ?v :: u64)"] by simp
    then have "c \<noteq> CHR '' ''" "c \<noteq> CHR 0x09" "c \<noteq> CHR 0x0A" "c \<noteq> CHR ''-''" "c \<noteq> CHR ''+''" by (auto simp: is_digit_def)
    then have "atoi (?n (scast ?v) @ NUL # t) = Some (int (unat (scast ?v :: u64)))"
      using rd unfolding n by (simp add: atoi_def skip_space_def del: atoi_digits.simps)
    moreover have "vsprintf ''%d'' [Slot w p] = Some (?n (scast ?v))"
      unfolding vsprintf_def vksprintf_d s Let_def using False by simp
    ultimately show ?thesis unfolding u by blast
  qed
qed

subsection \<open>Blocks of a program's heap\<close>

lemma sbrk_kernel:
  "sbrk K 0 k = Some (program_break k, k)"
  "m \<noteq> 0 \<Longrightarrow> initial_program_break k \<le> program_break k + m \<Longrightarrow>
     sbrk K m k = Some (program_break k, k\<lparr>program_break := program_break k + m\<rparr>)"
proof -
  have u: "u_syscall K SYS_SBRK m 0 0 k = sys_sbrk K \<lparr>rax = of_nat SYS_SBRK, rdi = m, rsi = 0, rdx = 0, r10 = 0\<rparr> k" for m
    unfolding u_syscall_def by (rule handler_at) (simp add: syscall_numbers)
  show "sbrk K 0 k = Some (program_break k, k)" by (simp add: sbrk_def u sys_sbrk_def Let_def)
  show "sbrk K m k = Some (program_break k, k\<lparr>program_break := program_break k + m\<rparr>)"
    if "m \<noteq> 0" "initial_program_break k \<le> program_break k + m"
    using that leD [OF that(2)] by (simp add: sbrk_def u sys_sbrk_def Let_def)
qed

lemma unat_align8:
  assumes "unat n + 7 < 2 ^ 64"
  shows "unat (align8 n) = (unat n + 7) div 8 * 8"
proof -
  have "align8 n = push_bit 3 (drop_bit 3 (n + 7))"
  proof (rule bit_word_eqI)
    fix i
    have m: "(7 :: u64) = mask 3" by (simp add: mask_eq_exp_minus_1)
    assume "i < LENGTH(64)"
    then show "bit (align8 n) i = bit (push_bit 3 (drop_bit 3 (n + 7))) i"
      unfolding align8_def m by (auto simp: bit_simps)
  qed
  moreover have "unat (n + 7) = unat n + 7" using assms by (subst unat_plus_simple [THEN iffD1]) (simp_all add: word_le_nat_alt unat_word_ariths)
  ultimately show ?thesis using assms
    by (simp only: push_bit_eq_mult unat_word_ariths unat_drop_bit_eq) (simp add: drop_bit_eq_div)
qed

text \<open>The heap is untouched, or ends at the program break.\<close>

definition heap_at_break :: "uheap \<Rightarrow> ('s, 'n) kstate \<Rightarrow> bool" where
  "heap_at_break h k \<longleftrightarrow> (heap_start h = 0 \<or> heap_end h = program_break k)
     \<and> program_break k \<noteq> 0 \<and> initial_program_break k \<le> program_break k"

lemma malloc_step:
  assumes inv: "heap_at_break h k" and n: "n \<noteq> 0" and room: "unat (program_break k) + unat n + 8 < 2 ^ 64"
  shows "\<exists>h'. u_malloc K texts n h k = Some (program_break k, h', k\<lparr>program_break := program_break k + align8 n\<rparr>)
    \<and> heap_at_break h' (k\<lparr>program_break := program_break k + align8 n\<rparr>)
    \<and> unat (program_break k + align8 n) = unat (program_break k) + (unat n + 7) div 8 * 8"
proof -
  let ?b = "program_break k" and ?m = "align8 n"
  have m: "unat ?m = (unat n + 7) div 8 * 8" using room by (intro unat_align8) simp
  have pos: "0 < unat n" using n by (simp add: word_neq_0_conv word_less_nat_alt)
  have sum: "unat (?b + ?m) = unat ?b + unat ?m"
    using room m by (subst unat_plus_simple [THEN iffD1]) (simp_all add: word_le_nat_alt unat_word_ariths)
  have nz: "?m \<noteq> 0" using m pos by auto
  have le: "initial_program_break k \<le> ?b + ?m" using inv sum by (simp add: heap_at_break_def word_le_nat_alt)
  have b: "?b \<noteq> 0" "?b \<noteq> -1" using inv room by (auto simp: heap_at_break_def unsigned_minus_1_eq_mask mask_eq_exp_minus_1)
  have bm: "?b + ?m \<noteq> 0" using sum b(1) by (auto simp: unat_eq_0 simp flip: unat_eq_0)
  note sb = sbrk_kernel(1) [of K k] sbrk_kernel(2) [OF nz le, of K]
  show ?thesis
  proof (cases "heap_start h = 0")
    case True
    then show ?thesis using n b bm sb le sum m
      by (intro exI [of _ "h\<lparr>heap_start := ?b, heap_end := ?b + ?m\<rparr>"]) (simp add: u_malloc_def Let_def heap_at_break_def)
  next
    case False
    then have e: "heap_end h = ?b" using inv by (simp add: heap_at_break_def)
    show ?thesis using n b bm sb le sum m False e
      by (intro exI [of _ "h\<lparr>heap_end := ?b + ?m\<rparr>"]) (simp add: u_malloc_def Let_def heap_at_break_def)
  qed
qed

fun mallocs :: "('s, 'n) kernel_ops \<Rightarrow> (nat \<Rightarrow> u64) \<Rightarrow> u64 list \<Rightarrow> uheap \<Rightarrow> ('s, 'n) kstate \<Rightarrow> (u64 list \<times> uheap \<times> ('s, 'n) kstate) option" where
  "mallocs K texts [] h k = Some ([], h, k)"
| "mallocs K texts (n # ns) h k = do {
     (p, h1, k1) \<leftarrow> u_malloc K texts n h k;
     (ps, h2, k2) \<leftarrow> mallocs K texts ns h1 k1;
     Some (p # ps, h2, k2) }"

text \<open>C39: What a program gets from \<open>malloc\<close> over the kernel's \<open>sbrk\<close>: as long as the rounded sizes fit below the end of the
  address space, every call of a sequence succeeds, the blocks lie one after the other between the break before and the
  break after, so no two overlap, and they are multiples of eight bytes from the first.\<close>

theorem mallocs_disjoint:
  assumes "heap_at_break h k" "\<forall>n\<in>set ns. n \<noteq> 0" "unat (program_break k) + (\<Sum>n\<leftarrow>ns. unat n + 8) < 2 ^ 64"
  shows "\<exists>ps h' k'. mallocs K texts ns h k = Some (ps, h', k') \<and> length ps = length ns \<and> heap_at_break h' k'
    \<and> unat (program_break k) \<le> unat (program_break k')
    \<and> (\<forall>i<length ps. unat (program_break k) \<le> unat (ps ! i) \<and> unat (ps ! i) + unat (ns ! i) \<le> unat (program_break k')
          \<and> 8 dvd unat (ps ! i) - unat (program_break k))
    \<and> (\<forall>j<length ps. \<forall>i<j. unat (ps ! i) + unat (ns ! i) \<le> unat (ps ! j))"
  using assms
proof (induction ns arbitrary: h k)
  case (Cons n ns)
  let ?k = "k\<lparr>program_break := program_break k + align8 n\<rparr>"
  have room: "unat (program_break k) + unat n + 8 < 2 ^ 64" using Cons.prems(3) by simp
  obtain h1 where h1: "u_malloc K texts n h k = Some (program_break k, h1, ?k)" "heap_at_break h1 ?k"
    "unat (program_break ?k) = unat (program_break k) + (unat n + 7) div 8 * 8"
    using malloc_step [OF Cons.prems(1) _ room, where K = K and texts = texts] Cons.prems(2) by auto
  have "(unat n + 7) div 8 * 8 \<le> unat n + 7" by simp
  then have "unat (program_break ?k) + (\<Sum>n\<leftarrow>ns. unat n + 8) < 2 ^ 64" using h1(3) Cons.prems(3) by simp
  from Cons.IH [OF h1(2) _ this] Cons.prems(2)
  obtain ps h' k' where r: "mallocs K texts ns h1 ?k = Some (ps, h', k')" "length ps = length ns" "heap_at_break h' k'"
    "unat (program_break ?k) \<le> unat (program_break k')"
    "\<forall>i<length ps. unat (program_break ?k) \<le> unat (ps ! i) \<and> unat (ps ! i) + unat (ns ! i) \<le> unat (program_break k')
       \<and> 8 dvd unat (ps ! i) - unat (program_break ?k)"
    "\<forall>j<length ps. \<forall>i<j. unat (ps ! i) + unat (ns ! i) \<le> unat (ps ! j)" by (auto simp del: kstate.select_convs)
  have big: "unat n \<le> (unat n + 7) div 8 * 8" by simp
  have "unat (program_break k) \<le> unat ((program_break k # ps) ! i) \<and> unat ((program_break k # ps) ! i) + unat ((n # ns) ! i) \<le> unat (program_break k')
      \<and> 8 dvd unat ((program_break k # ps) ! i) - unat (program_break k)" if "i < Suc (length ps)" for i
  proof (cases i)
    case 0
    then show ?thesis using h1(3) r(4) big by simp
  next
    case (Suc j)
    then have j: "j < length ps" using that by simp
    then have l: "unat (program_break ?k) \<le> unat (ps ! j)" "unat (ps ! j) + unat (ns ! j) \<le> unat (program_break k')"
      "8 dvd unat (ps ! j) - unat (program_break ?k)" using r(5) by auto
    have "unat (ps ! j) - unat (program_break k) = (unat (ps ! j) - unat (program_break ?k)) + (unat n + 7) div 8 * 8"
      using l(1) h1(3) by simp
    moreover have "8 dvd (unat n + 7) div 8 * 8" by simp
    ultimately have "8 dvd unat (ps ! j) - unat (program_break k)" using l(3) by (metis dvd_add)
    then show ?thesis using l h1(3) Suc by simp
  qed
  moreover have "unat ((program_break k # ps) ! i) + unat ((n # ns) ! i) \<le> unat ((program_break k # ps) ! j)"
    if ji: "j < Suc (length ps)" "i < j" for i j
  proof -
    obtain j' where j: "j = Suc j'" "j' < length ps" using ji by (cases j) auto
    show ?thesis
    proof (cases i)
      case 0
      have "unat (program_break ?k) \<le> unat (ps ! j')" using r(5) j(2) by blast
      then show ?thesis using 0 j h1(3) big by simp
    next
      case (Suc i')
      then show ?thesis using r(6) j ji(2) by simp
    qed
  qed
  moreover have "unat (program_break k) \<le> unat (program_break k')" using h1(3) r(4) by simp
  ultimately show ?case using h1(1) r(1-3)
    by (intro exI [of _ "program_break k # ps"] exI [of _ h'] exI [of _ k']) simp
qed simp

lemma atoi_reads_sprintf_witness:
  "\<exists>out. vsprintf ''%d'' [Slot (-305) None] = Some out \<and> atoi (out @ NUL # ''junk'') = Some (-305)"
proof -
  have v: "sint (ucast (- 305 :: u64) :: u32) = -305" by simp
  have "sint (ucast (- 305 :: u64) :: u32) \<noteq> - (2 ^ 31)" unfolding v by simp
  from atoi_reads_sprintf [OF this] show ?thesis unfolding v .
qed

theorem mallocs_disjoint_witness:
  "\<exists>ps h' k'. mallocs (kyro_kernel 1) (\<lambda>_. 0) [5, 16, 1] \<lparr>heap_start = 0, heap_end = 0, u_errno = 0\<rparr> demo_process = Some (ps, h', k')
    \<and> length ps = 3 \<and> unat (ps ! 0) + 5 \<le> unat (ps ! 1) \<and> unat (ps ! 1) + 16 \<le> unat (ps ! 2)"
proof -
  have h: "heap_at_break \<lparr>heap_start = 0, heap_end = 0, u_errno = 0\<rparr> demo_process"
    by (simp add: heap_at_break_def demo_process_def)
  have "unat (program_break demo_process) + (\<Sum>n\<leftarrow>[5, 16, 1 :: u64]. unat n + 8) < 2 ^ 64" by (simp add: demo_process_def)
  from mallocs_disjoint [OF h _ this, of "kyro_kernel 1" "\<lambda>_. 0"]
  obtain ps h' k' where r: "mallocs (kyro_kernel 1) (\<lambda>_. 0) [5, 16, 1] \<lparr>heap_start = 0, heap_end = 0, u_errno = 0\<rparr> demo_process = Some (ps, h', k')"
    "length ps = 3" "\<forall>j<length ps. \<forall>i<j. unat (ps ! i) + unat ([5, 16, 1 :: u64] ! i) \<le> unat (ps ! j)" by auto
  have "unat (ps ! 0) + 5 \<le> unat (ps ! 1)" "unat (ps ! 1) + 16 \<le> unat (ps ! 2)"
    using r(3) [rule_format, of 1 0] r(3) [rule_format, of 2 1] r(2) by simp_all
  then show ?thesis using r(1,2) by blast
qed

text \<open>A size in the last seven bytes of the address space is rounded to nothing: the block has no room.\<close>

lemma malloc_huge_wraps: "align8 (- 1) = 0"
  by (simp add: align8_def)

text \<open>The error texts run out before the codes that are looked up, \<open>ENOSYS\<close> among them.\<close>

lemma perror_past_table: "error_text ENOSYS = None" "error_text 33 = Some ''Function not implemented''"
  by (simp_all add: error_text_def ENOSYS_def MAX_ERROR_CODE_def str_error_def)

end
