(* ===== verification/Coreutils.thy ===== *)
theory Coreutils
  imports Kstring Kyrofs Thread
begin

section \<open>File programs (src/src/tools/coreutils)\<close>

text \<open>
  The calls a program makes are the fields of \<open>file_calls\<close>: one per wrapper of kyroolib.h, on a state of the
  system. A path is a string without its terminator. A program returns its exit status; \<open>None\<close> is a program that
  does not return or writes past one of its buffers. The recursion of \<open>cp\<close> and \<open>mv\<close> over directories is bounded by
  \<open>MAX_DEPTH\<close>: every level makes the path at least two characters longer, and the buffer of 512 bytes is full
  before the bound is reached.
\<close>

record 's file_calls =
  c_open :: "string \<Rightarrow> u32 \<Rightarrow> 's \<Rightarrow> int \<times> 's"
  c_close :: "int \<Rightarrow> 's \<Rightarrow> int \<times> 's"
  c_read :: "int \<Rightarrow> nat \<Rightarrow> 's \<Rightarrow> int \<times> u8 list \<times> 's"
  c_write :: "int \<Rightarrow> u8 list \<Rightarrow> 's \<Rightarrow> int \<times> 's"
  c_mkdir :: "string \<Rightarrow> 's \<Rightarrow> int \<times> 's"
  c_stat :: "string \<Rightarrow> 's \<Rightarrow> int \<times> stat \<times> 's"
  c_unlink :: "string \<Rightarrow> 's \<Rightarrow> int \<times> 's"
  c_rmdir :: "string \<Rightarrow> 's \<Rightarrow> int \<times> 's"
  c_readdir :: "int \<Rightarrow> nat \<Rightarrow> 's \<Rightarrow> dirent option \<times> 's"

definition BUF_SIZE :: nat where "BUF_SIZE = 1024"
definition EEXIST :: int where "EEXIST = 17"
definition S_IFMT :: u32 where "S_IFMT = 0xF000"
definition MAX_DEPTH :: nat where "MAX_DEPTH = 257"

definition S_ISDIR :: "u32 \<Rightarrow> bool" where "S_ISDIR m \<longleftrightarrow> m AND S_IFMT = S_IFDIR"
definition S_ISREG :: "u32 \<Rightarrow> bool" where "S_ISREG m \<longleftrightarrow> m AND S_IFMT = S_IFREG"

text \<open>Messages go to descriptor 1, their result is ignored.\<close>

definition out :: "'s file_calls \<Rightarrow> string \<Rightarrow> 's \<Rightarrow> 's" where
  "out C s st = snd (c_write C 1 (map (of_nat \<circ> of_char) s) st)"

definition outs :: "'s file_calls \<Rightarrow> string list \<Rightarrow> 's \<Rightarrow> 's" where
  "outs C lines st = fold (out C) lines st"

abbreviation quoted :: "string \<Rightarrow> string \<Rightarrow> string list" where
  "quoted message path \<equiv> [message @ [CHR 0x27], path, [CHR 0x27] @ [CHR 0x0A]]"

subsection \<open>Single calls\<close>

definition mkdir_main :: "'s file_calls \<Rightarrow> string list \<Rightarrow> 's \<Rightarrow> int \<times> 's" where
  "mkdir_main C argv st =
     (if length argv < 2 then (1, out C (''mkdir: usage: mkdir <directory>'' @ [CHR 0x0A]) st)
      else let (r, st1) = c_mkdir C (argv ! 1) st
           in if r < 0 then (1, outs C (quoted ''mkdir: failed to create directory '' (argv ! 1)) st1) else (0, st1))"

definition rm_main :: "'s file_calls \<Rightarrow> string list \<Rightarrow> 's \<Rightarrow> int \<times> 's" where
  "rm_main C argv st =
     (if length argv < 2 then (1, out C (''rm: usage: rm <file>'' @ [CHR 0x0A]) st)
      else let (r, st1) = c_unlink C (argv ! 1) st
           in if r < 0 then (1, outs C (quoted ''rm: failed to remove '' (argv ! 1)) st1) else (0, st1))"

definition rmdir_main :: "'s file_calls \<Rightarrow> string list \<Rightarrow> 's \<Rightarrow> int \<times> 's" where
  "rmdir_main C argv st =
     (if length argv < 2 then (1, out C (''rmdir: usage: rmdir <directory>'' @ [CHR 0x0A]) st)
      else let (r, st1) = c_rmdir C (argv ! 1) st
           in if r \<noteq> 0
              then (1, outs C [''rmdir: failed to remove directory '' @ [CHR 0x27], argv ! 1,
                     [CHR 0x27] @ '' (it might not be empty or does not exist)'' @ [CHR 0x0A]] st1)
              else (0, st1))"

definition cd_main :: "'s file_calls \<Rightarrow> string list \<Rightarrow> 's \<Rightarrow> int \<times> 's" where
  "cd_main C argv st =
     (if length argv < 2 then (1, out C (''cd: usage: cd <directory>'' @ [CHR 0x0A]) st)
      else (0, outs C [''cd: Changing directory to '', argv ! 1, [CHR 0x0A],
              ''cd: (Changing current directory not yet implemented at syscall level)'' @ [CHR 0x0A]] st))"

definition pwd_main :: "'s file_calls \<Rightarrow> 's \<Rightarrow> int \<times> 's" where
  "pwd_main C st =
     (0, outs C [''/'' @ [CHR 0x0A], ''pwd: (Actual current working directory tracking not yet implemented)'' @ [CHR 0x0A]] st)"

subsection \<open>Reading to the end\<close>

text \<open>The loop of \<open>cat\<close>, and the one that copies from one descriptor to another: 0, or -1 when a write failed.\<close>

partial_function (option) cat_fd :: "'s file_calls \<Rightarrow> int \<Rightarrow> 's \<Rightarrow> 's option" where
  "cat_fd C fd st =
     (case c_read C fd BUF_SIZE st of (bytes_read, buffer, st1) \<Rightarrow>
       if bytes_read > 0 then cat_fd C fd (snd (c_write C 1 (take (nat bytes_read) buffer) st1)) else Some st1)"

definition cat_main :: "'s file_calls \<Rightarrow> string list \<Rightarrow> 's \<Rightarrow> (int \<times> 's) option" where
  "cat_main C argv st =
     (if length argv < 2 then Some (1, out C (''cat: usage: cat <file>'' @ [CHR 0x0A]) st)
      else let (fd, st1) = c_open C (argv ! 1) O_RDONLY st
           in if fd < 0 then Some (1, outs C (quoted ''cat: cannot open '' (argv ! 1)) st1)
              else do { st2 \<leftarrow> cat_fd C fd st1; Some (0, snd (c_close C fd st2)) })"

partial_function (option) copy_fd :: "'s file_calls \<Rightarrow> int \<Rightarrow> int \<Rightarrow> 's \<Rightarrow> (int \<times> 's) option" where
  "copy_fd C src_fd dest_fd st =
     (case c_read C src_fd BUF_SIZE st of (bytes_read, buffer, st1) \<Rightarrow>
       if bytes_read > 0
       then (case c_write C dest_fd (take (nat bytes_read) buffer) st1 of (r, st2) \<Rightarrow>
              if r < 0 then Some (-1, st2) else copy_fd C src_fd dest_fd st2)
       else Some (0, st1))"

subsection \<open>Directories\<close>

partial_function (option) ls_entries :: "'s file_calls \<Rightarrow> int \<Rightarrow> nat \<Rightarrow> 's \<Rightarrow> 's option" where
  "ls_entries C dir_fd index st =
     (case c_readdir C dir_fd index st of
        (None, st1) \<Rightarrow> Some st1
      | (Some de, st1) \<Rightarrow> ls_entries C dir_fd (index + 1) (outs C [d_name de, [CHR 0x0A]] st1))"

definition ls_main :: "'s file_calls \<Rightarrow> string list \<Rightarrow> 's \<Rightarrow> (int \<times> 's) option" where
  "ls_main C argv st =
     (let path = (if 1 < length argv then argv ! 1 else ''.'')
      in if MAX_FILENAME_LEN \<le> length path then None
         else let (dir_fd, st1) = c_open C path O_RDONLY st
              in if dir_fd < 0
                 then Some (1, outs C [''ls: cannot access '' @ [CHR 0x27], path, [CHR 0x27] @ '': No such file or directory'' @ [CHR 0x0A]] st1)
                 else do { st2 \<leftarrow> ls_entries C dir_fd 0 st1; Some (0, snd (c_close C dir_fd st2)) })"

text \<open>A function for every entry of an open directory but the two dots: at the first failure the directory is closed.\<close>

partial_function (option) each_entry :: "'s file_calls \<Rightarrow> int \<Rightarrow> (string \<Rightarrow> 's \<Rightarrow> (int \<times> 's) option) \<Rightarrow> nat \<Rightarrow> 's \<Rightarrow> (int \<times> 's) option" where
  "each_entry C dir_fd f index st =
     (case c_readdir C dir_fd index st of
        (None, st1) \<Rightarrow> Some (0, snd (c_close C dir_fd st1))
      | (Some de, st1) \<Rightarrow>
          if d_name de = ''.'' \<or> d_name de = ''..'' then each_entry C dir_fd f (index + 1) st1
          else do {
            (r, st2) \<leftarrow> f (d_name de) st1;
            if r \<noteq> 0 then Some (-1, snd (c_close C dir_fd st2)) else each_entry C dir_fd f (index + 1) st2 })"

text \<open>\<open>sprintf\<close> of a path and a name into a buffer of \<open>2 * MAX_FILENAME_LEN\<close> bytes.\<close>

definition entry_path :: "string \<Rightarrow> string \<Rightarrow> string option" where
  "entry_path dir name =
     (let p = dir @ ''/'' @ name in if length p < 2 * MAX_FILENAME_LEN then Some p else None)"

text \<open>Copying one file: both programs report with their own name.\<close>

definition copy_file :: "string \<Rightarrow> 's file_calls \<Rightarrow> string \<Rightarrow> string \<Rightarrow> 's \<Rightarrow> (int \<times> 's) option" where
  "copy_file prog C src dest st =
     (let (src_fd, st1) = c_open C src O_RDONLY st
      in if src_fd < 0 then Some (-1, outs C (quoted (prog @ '': cannot open source file '') src) st1)
         else let (dest_fd, st2) = c_open C dest (O_CREAT OR O_TRUNC OR O_WRONLY) st1
              in if dest_fd < 0
                 then Some (-1, snd (c_close C src_fd (outs C (quoted (prog @ '': cannot create destination file '') dest) st2)))
                 else do {
                   (r, st3) \<leftarrow> copy_fd C src_fd dest_fd st2;
                   let st4 = (if r < 0 then outs C (quoted (prog @ '': write error to '') dest) st3 else st3);
                   Some (r, snd (c_close C dest_fd (snd (c_close C src_fd st4)))) })"

fun copy_recursive :: "nat \<Rightarrow> 's file_calls \<Rightarrow> string \<Rightarrow> string \<Rightarrow> 's \<Rightarrow> (int \<times> 's) option" where
  "copy_recursive 0 C src dest st = None"
| "copy_recursive (Suc depth) C src dest st =
     (let (rc, info, st1) = c_stat C src st
      in if rc \<noteq> 0 then Some (-1, outs C (quoted ''cp: could not stat source '' src) st1)
         else if S_ISREG (st_mode info) then copy_file ''cp'' C src dest st1
         else if S_ISDIR (st_mode info)
         then (let (ret, st2) = c_mkdir C dest st1
               in if ret < 0 \<and> ret \<noteq> - EEXIST
                  then Some (-1, outs C (quoted ''cp: cannot create directory '' dest) st2)
                  else let (dir_fd, st3) = c_open C src O_RDONLY st2
                       in if dir_fd < 0 then Some (-1, outs C (quoted ''cp: cannot open source directory '' src) st3)
                          else each_entry C dir_fd (\<lambda>name st. do {
                                 s \<leftarrow> entry_path src name;
                                 d \<leftarrow> entry_path dest name;
                                 copy_recursive depth C s d st }) 0 st3)
         else Some (-1, outs C (quoted ''cp: unsupported source type '' src) st1))"

definition cp_main :: "'s file_calls \<Rightarrow> string list \<Rightarrow> 's \<Rightarrow> (int \<times> 's) option" where
  "cp_main C argv st =
     (if length argv < 3 then Some (1, out C (''cp: usage: cp <source> <destination>'' @ [CHR 0x0A]) st)
      else do { (r, st1) \<leftarrow> copy_recursive MAX_DEPTH C (argv ! 1) (argv ! 2) st; Some (if r \<noteq> 0 then 1 else 0, st1) })"

text \<open>\<open>mv\<close> copies and removes; a failed removal is only a warning.\<close>

fun move_recursive :: "nat \<Rightarrow> 's file_calls \<Rightarrow> string \<Rightarrow> string \<Rightarrow> 's \<Rightarrow> (int \<times> 's) option" where
  "move_recursive 0 C src dest st = None"
| "move_recursive (Suc depth) C src dest st =
     (let (rc, info, st1) = c_stat C src st
      in if rc \<noteq> 0 then Some (-1, outs C (quoted ''mv: could not stat source '' src) st1)
         else if S_ISREG (st_mode info)
         then do {
           (r, st2) \<leftarrow> copy_file ''mv'' C src dest st1;
           if r \<noteq> 0 then Some (r, st2)
           else let (u, st3) = c_unlink C src st2
                in Some (0, if u \<noteq> 0 then outs C (quoted ''mv: warning: failed to remove original file '' src) st3 else st3) }
         else if S_ISDIR (st_mode info)
         then (let (ret, st2) = c_mkdir C dest st1;
                   (there, st3) = (if ret = 0 then (True, st2)
                                   else let (rc', info', st') = c_stat C dest st2 in (rc' = 0 \<and> S_ISDIR (st_mode info'), st'))
               in if \<not> there then Some (-1, outs C (quoted ''mv: cannot create directory '' dest) st3)
                  else let (dir_fd, st4) = c_open C src O_RDONLY st3
                       in if dir_fd < 0 then Some (-1, outs C (quoted ''mv: cannot open source directory '' src) st4)
                          else do {
                            (r, st5) \<leftarrow> each_entry C dir_fd (\<lambda>name st. do {
                                 s \<leftarrow> entry_path src name;
                                 d \<leftarrow> entry_path dest name;
                                 move_recursive depth C s d st }) 0 st4;
                            if r \<noteq> 0 then Some (r, st5)
                            else let (d, st6) = c_rmdir C src st5
                                 in Some (0, if d \<noteq> 0 then outs C (quoted ''mv: warning: failed to remove source directory '' src) st6 else st6) })
         else Some (-1, outs C (quoted ''mv: unsupported source type '' src) st1))"

definition mv_main :: "'s file_calls \<Rightarrow> string list \<Rightarrow> 's \<Rightarrow> (int \<times> 's) option" where
  "mv_main C argv st =
     (if length argv < 3 then Some (1, out C (''mv: usage: mv <source> <destination>'' @ [CHR 0x0A]) st)
      else do { (r, st1) \<leftarrow> move_recursive MAX_DEPTH C (argv ! 1) (argv ! 2) st; Some (if r \<noteq> 0 then 1 else 0, st1) })"

subsection \<open>What the calls promise\<close>

text \<open>
  The view a program has of the files: the contents by path, for every descriptor open for reading the path and the bytes
  still to come, and for every descriptor open for writing the path. \<open>lawful\<close>: reads return what is left up to the
  count, writes append, a created file is empty, opening for reading starts at the first byte, and none of this touches
  other files or descriptors.
\<close>

record 's file_view =
  files :: "'s \<Rightarrow> string \<Rightarrow> u8 list option"
  left :: "'s \<Rightarrow> int \<Rightarrow> (string \<times> u8 list) option"
  target :: "'s \<Rightarrow> int \<Rightarrow> string option"

definition same_view :: "'s file_view \<Rightarrow> 's \<Rightarrow> 's \<Rightarrow> bool" where
  "same_view V s s' \<longleftrightarrow> files V s' = files V s \<and> left V s' = left V s \<and> target V s' = target V s"

definition others_left :: "'s file_view \<Rightarrow> string \<Rightarrow> 's \<Rightarrow> 's \<Rightarrow> bool" where
  "others_left V p s s' \<longleftrightarrow> (\<forall>fd q bs. left V s fd = Some (q, bs) \<and> q \<noteq> p \<longrightarrow> left V s' fd = Some (q, bs))"

definition read_law :: "'s file_calls \<Rightarrow> 's file_view \<Rightarrow> bool" where
  "read_law C V \<longleftrightarrow> (\<forall>s fd p bs n. left V s fd = Some (p, bs) \<longrightarrow>
     (\<exists>s'. c_read C fd n s = (int (min n (length bs)), take n bs, s') \<and> files V s' = files V s \<and> target V s' = target V s
        \<and> left V s' = (left V s)(fd \<mapsto> (p, drop n bs))))"

definition write_law :: "'s file_calls \<Rightarrow> 's file_view \<Rightarrow> bool" where
  "write_law C V \<longleftrightarrow>
     (\<forall>s bs. same_view V s (snd (c_write C 1 bs s)) \<and> target V s 1 = None \<and> left V s 1 = None)
   \<and> (\<forall>s fd p old bs. target V s fd = Some p \<and> files V s p = Some old \<longrightarrow>
        (\<exists>s'. c_write C fd bs s = (int (length bs), s') \<and> files V s' = (files V s)(p \<mapsto> old @ bs)
           \<and> target V s' = target V s \<and> others_left V p s s'))"

definition open_law :: "'s file_calls \<Rightarrow> 's file_view \<Rightarrow> bool" where
  "open_law C V \<longleftrightarrow>
     (\<forall>s p. \<exists>fd s'. c_open C p (O_CREAT OR O_TRUNC OR O_WRONLY) s = (fd, s') \<and> 1 < fd \<and> left V s fd = None \<and> target V s fd = None
        \<and> files V s' = (files V s)(p \<mapsto> []) \<and> target V s' = (target V s)(fd \<mapsto> p) \<and> others_left V p s s')
   \<and> (\<forall>s p c. files V s p = Some c \<longrightarrow>
        (\<exists>fd s'. c_open C p O_RDONLY s = (fd, s') \<and> 1 < fd \<and> left V s fd = None \<and> target V s fd = None
           \<and> files V s' = files V s \<and> target V s' = target V s \<and> left V s' = (left V s)(fd \<mapsto> (p, c))))
   \<and> (\<forall>s fd. files V (snd (c_close C fd s)) = files V s \<and> left V (snd (c_close C fd s)) = (left V s)(fd := None)
        \<and> target V (snd (c_close C fd s)) = (target V s)(fd := None))
   \<and> (\<forall>s p. same_view V s (snd (c_mkdir C p s)))"

text \<open>Opening for appending keeps what a file holds.\<close>

definition append_law :: "'s file_calls \<Rightarrow> 's file_view \<Rightarrow> bool" where
  "append_law C V \<longleftrightarrow> (\<forall>s p. \<exists>fd s'. c_open C p (O_WRONLY OR O_CREAT OR O_APPEND) s = (fd, s') \<and> 1 < fd
     \<and> files V s' = (files V s)(p \<mapsto> (case files V s p of None \<Rightarrow> [] | Some c \<Rightarrow> c)) \<and> target V s' = (target V s)(fd \<mapsto> p))"

definition lawful :: "'s file_calls \<Rightarrow> 's file_view \<Rightarrow> bool" where
  "lawful C V \<longleftrightarrow> read_law C V \<and> write_law C V \<and> open_law C V"

lemma lawful_read:
  assumes "lawful C V" "left V s fd = Some (p, bs)"
  obtains s' where "c_read C fd n s = (int (min n (length bs)), take n bs, s')" "files V s' = files V s" "target V s' = target V s"
    "left V s' = (left V s)(fd \<mapsto> (p, drop n bs))"
  using assms unfolding lawful_def read_law_def by meson

lemma lawful_write:
  assumes "lawful C V" "target V s fd = Some p" "files V s p = Some old"
  obtains s' where "c_write C fd bs s = (int (length bs), s')" "files V s' = (files V s)(p \<mapsto> old @ bs)"
    "target V s' = target V s" "others_left V p s s'"
  using assms unfolding lawful_def write_law_def by meson

lemma lawful_create:
  assumes "lawful C V"
  obtains fd s' where "c_open C p (O_CREAT OR O_TRUNC OR O_WRONLY) s = (fd, s')" "1 < fd" "left V s fd = None" "target V s fd = None"
    "files V s' = (files V s)(p \<mapsto> [])" "target V s' = (target V s)(fd \<mapsto> p)" "others_left V p s s'"
  using assms unfolding lawful_def open_law_def by meson

lemma lawful_open:
  assumes "lawful C V" "files V s p = Some c"
  obtains fd s' where "c_open C p O_RDONLY s = (fd, s')" "1 < fd" "left V s fd = None" "target V s fd = None"
    "files V s' = files V s" "target V s' = target V s" "left V s' = (left V s)(fd \<mapsto> (p, c))"
  using assms unfolding lawful_def open_law_def by meson

lemma lawful_close:
  assumes "lawful C V"
  shows "files V (snd (c_close C fd s)) = files V s" "left V (snd (c_close C fd s)) = (left V s)(fd := None)"
    "target V (snd (c_close C fd s)) = (target V s)(fd := None)"
  using assms unfolding lawful_def open_law_def by blast+

lemma lawful_out: "lawful C V \<Longrightarrow> same_view V s (out C t s)"
  unfolding lawful_def write_law_def out_def by blast

lemma same_view_trans: "same_view V s t \<Longrightarrow> same_view V t u \<Longrightarrow> same_view V s u"
  by (simp add: same_view_def)

lemma lawful_outs: "lawful C V \<Longrightarrow> same_view V s (outs C ts s)"
  unfolding outs_def
proof (induction ts arbitrary: s)
  case (Cons t ts)
  show ?case using same_view_trans [OF lawful_out [OF Cons.prems] Cons.IH [OF Cons.prems]] by simp
qed (simp add: same_view_def)

subsection \<open>Copying\<close>

lemma copy_fd_copies:
  assumes laws: "lawful C V" and ne: "p \<noteq> q"
    and "left V st sfd = Some (p, bs)" "target V st dfd = Some q" "files V st q = Some old"
  shows "\<exists>st'. copy_fd C sfd dfd st = Some (0, st') \<and> files V st' = (files V st)(q \<mapsto> old @ bs)"
  using assms(3-)
proof (induction "length bs" arbitrary: bs old st rule: less_induct)
  case less
  obtain st1 where r: "c_read C sfd BUF_SIZE st = (int (min BUF_SIZE (length bs)), take BUF_SIZE bs, st1)"
    "files V st1 = files V st" "target V st1 = target V st" "left V st1 = (left V st)(sfd \<mapsto> (p, drop BUF_SIZE bs))"
    by (rule lawful_read [OF laws less.prems(1)])
  show ?case
  proof (cases "bs = []")
    case True
    then show ?thesis using r less.prems by (subst copy_fd.simps) (auto simp: fun_upd_idem)
  next
    case False
    have t: "target V st1 dfd = Some q" "files V st1 q = Some old" using less.prems r by simp_all
    obtain st2 where w: "c_write C dfd (take BUF_SIZE bs) st1 = (int (length (take BUF_SIZE bs)), st2)"
      "files V st2 = (files V st1)(q \<mapsto> old @ take BUF_SIZE bs)" "target V st2 = target V st1" "others_left V q st1 st2"
      by (rule lawful_write [OF laws t])
    have l: "left V st2 sfd = Some (p, drop BUF_SIZE bs)" using w(4) r(4) ne by (simp add: others_left_def)
    have d: "target V st2 dfd = Some q" "files V st2 q = Some (old @ take BUF_SIZE bs)" using w t by simp_all
    have "length (drop BUF_SIZE bs) < length bs" using False by (simp add: BUF_SIZE_def)
    from less.hyps [OF this l d] obtain st' where e: "copy_fd C sfd dfd st2 = Some (0, st')"
      "files V st' = (files V st2)(q \<mapsto> (old @ take BUF_SIZE bs) @ drop BUF_SIZE bs)" by blast
    have "copy_fd C sfd dfd st = copy_fd C sfd dfd st2"
    proof -
      have "take (nat (int (min BUF_SIZE (length bs)))) (take BUF_SIZE bs) = take BUF_SIZE bs" by (simp add: min_def)
      moreover have "0 < int (min BUF_SIZE (length bs))" using False by (simp add: BUF_SIZE_def)
      ultimately show ?thesis using r(1) w(1) by (subst copy_fd.simps) (simp del: length_take)
    qed
    then show ?thesis using e w(2) r(2) by (intro exI [of _ st']) simp
  qed
qed

text \<open>\<open>cp\<close> of a regular file: over lawful calls it ends with status 0, the destination holds exactly the bytes of the
  source, whatever it held before, and no other file changes.\<close>

lemma cp_copies:
  assumes "lawful C V" "files V st src = Some bytes" "src \<noteq> dest"
    and "c_stat C src st = (0, info, st)" "S_ISREG (st_mode info)"
  shows "\<exists>st'. cp_main C [''cp'', src, dest] st = Some (0, st') \<and> files V st' = (files V st)(dest \<mapsto> bytes)"
proof -
  note laws = assms(1)
  obtain sfd st1 where o: "c_open C src O_RDONLY st = (sfd, st1)" "1 < sfd" "left V st sfd = None" "target V st sfd = None"
    "files V st1 = files V st" "target V st1 = target V st" "left V st1 = (left V st)(sfd \<mapsto> (src, bytes))"
    by (rule lawful_open [OF laws assms(2)])
  obtain dfd st2 where c: "c_open C dest (O_CREAT OR O_TRUNC OR O_WRONLY) st1 = (dfd, st2)" "1 < dfd" "left V st1 dfd = None"
    "target V st1 dfd = None" "files V st2 = (files V st1)(dest \<mapsto> [])" "target V st2 = (target V st1)(dfd \<mapsto> dest)"
    "others_left V dest st1 st2" by (rule lawful_create [OF laws])
  have l: "left V st2 sfd = Some (src, bytes)" using c(7) o(7) assms(3) by (simp add: others_left_def)
  have t: "target V st2 dfd = Some dest" "files V st2 dest = Some []" using c(5,6) by simp_all
  obtain st3 where e: "copy_fd C sfd dfd st2 = Some (0, st3)" "files V st3 = (files V st2)(dest \<mapsto> [] @ bytes)"
    using copy_fd_copies [OF laws assms(3) l t] by blast
  let ?fin = "snd (c_close C dfd (snd (c_close C sfd st3)))"
  have d: "MAX_DEPTH = Suc 256" by (simp add: MAX_DEPTH_def)
  have "copy_file ''cp'' C src dest st = Some (0, ?fin)"
    using o(1,2) c(1,2) e(1) by (simp add: copy_file_def)
  then have "cp_main C [''cp'', src, dest] st = Some (0, ?fin)"
    using assms(4,5) unfolding cp_main_def d copy_recursive.simps by simp
  moreover have "files V ?fin = (files V st)(dest \<mapsto> bytes)"
    using e(2) c(5) o(5) by (simp add: lawful_close [OF laws])
  ultimately show ?thesis by blast
qed

text \<open>A system with no directories: descriptors from 2 up, files by path.\<close>

record user_fs =
  uf_files :: "string \<Rightarrow> u8 list option"
  uf_left :: "int \<Rightarrow> (string \<times> u8 list) option"
  uf_target :: "int \<Rightarrow> string option"
  uf_next :: int

definition user_view :: "user_fs file_view" where
  "user_view = \<lparr>files = uf_files, left = (\<lambda>u fd. if 1 < fd \<and> fd < uf_next u then uf_left u fd else None),
     target = (\<lambda>u fd. if 1 < fd \<and> fd < uf_next u then uf_target u fd else None)\<rparr>"

definition user_open :: "string \<Rightarrow> u32 \<Rightarrow> user_fs \<Rightarrow> int \<times> user_fs" where
  "user_open p flags u =
     (let fd = max 2 (uf_next u); u' = u\<lparr>uf_next := fd + 1\<rparr>
      in if flags AND O_CREAT \<noteq> 0
         then (fd, u'\<lparr>uf_files := (uf_files u)(p \<mapsto> if flags AND O_TRUNC \<noteq> 0 \<or> uf_files u p = None then [] else the (uf_files u p)), uf_target := (uf_target u)(fd \<mapsto> p), uf_left := (uf_left u)(fd := None)\<rparr>)
         else case uf_files u p of
             None \<Rightarrow> (-1, u)
           | Some c \<Rightarrow> (fd, u'\<lparr>uf_left := (uf_left u)(fd \<mapsto> (p, c)), uf_target := (uf_target u)(fd := None)\<rparr>))"

definition user_calls :: "user_fs file_calls" where
  "user_calls = \<lparr>c_open = user_open,
     c_close = (\<lambda>fd u. (0, u\<lparr>uf_left := (uf_left u)(fd := None), uf_target := (uf_target u)(fd := None)\<rparr>)),
     c_read = (\<lambda>fd n u. case left user_view u fd of None \<Rightarrow> (-1, [], u)
        | Some (p, bs) \<Rightarrow> (int (min n (length bs)), take n bs, u\<lparr>uf_left := (uf_left u)(fd \<mapsto> (p, drop n bs))\<rparr>)),
     c_write = (\<lambda>fd bs u. case target user_view u fd of None \<Rightarrow> (-1, u)
        | Some p \<Rightarrow> (case uf_files u p of None \<Rightarrow> (-1, u) | Some old \<Rightarrow> (int (length bs), u\<lparr>uf_files := (uf_files u)(p \<mapsto> old @ bs)\<rparr>))),
     c_mkdir = (\<lambda>p u. (0, u)),
     c_stat = (\<lambda>p u. (if uf_files u p = None then -1 else 0, \<lparr>st_size = 0, st_mode = S_IFREG, st_ino = 0\<rparr>, u)),
     c_unlink = (\<lambda>p u. (0, u\<lparr>uf_files := (uf_files u)(p := None)\<rparr>)), c_rmdir = (\<lambda>p u. (-1, u)), c_readdir = (\<lambda>fd i u. (None, u))\<rparr>"

lemma user_calls_lawful: "lawful user_calls user_view"
proof -
  have "(O_CREAT OR O_TRUNC OR O_WRONLY) AND O_CREAT \<noteq> 0" "(O_CREAT OR O_TRUNC OR O_WRONLY) AND O_TRUNC \<noteq> 0" "O_RDONLY AND O_CREAT = 0"
    by (simp_all add: O_CREAT_def O_TRUNC_def O_WRONLY_def O_RDONLY_def)
  then show ?thesis
    unfolding lawful_def read_law_def write_law_def open_law_def same_view_def others_left_def
    by (intro conjI) (auto simp: user_calls_def user_view_def user_open_def Let_def fun_eq_iff split: if_splits)
qed

lemma user_calls_append: "append_law user_calls user_view"
proof -
  have "(O_WRONLY OR O_CREAT OR O_APPEND) AND O_CREAT \<noteq> 0" "(O_WRONLY OR O_CREAT OR O_APPEND) AND O_TRUNC = 0"
    by (simp_all add: O_CREAT_def O_TRUNC_def O_WRONLY_def O_APPEND_def)
  then show ?thesis
    unfolding append_law_def by (auto simp: user_calls_def user_view_def user_open_def Let_def fun_eq_iff split: option.split)
qed

definition user_demo :: user_fs where
  "user_demo = \<lparr>uf_files = [''/a'' \<mapsto> [1, 2, 3], ''/b'' \<mapsto> [9, 9, 9, 9]], uf_left = (\<lambda>_. None), uf_target = (\<lambda>_. None), uf_next = 2\<rparr>"

lemma cp_copies_witness:
  "\<exists>st'. cp_main user_calls [''cp'', ''/a'', ''/b''] user_demo = Some (0, st') \<and> uf_files st' ''/b'' = Some [1, 2, 3]"
proof -
  have f: "files user_view user_demo ''/a'' = Some [1, 2, 3]" by (simp add: user_view_def user_demo_def)
  have s: "c_stat user_calls ''/a'' user_demo = (0, \<lparr>st_size = 0, st_mode = S_IFREG, st_ino = 0\<rparr>, user_demo)"
    by (simp add: user_calls_def user_demo_def)
  have "S_ISREG (st_mode \<lparr>st_size = 0, st_mode = S_IFREG, st_ino = 0\<rparr>)" by (simp add: S_ISREG_def S_IFMT_def S_IFREG_def)
  from cp_copies [OF user_calls_lawful f _ s this, of "''/b''"] show ?thesis
    by (auto simp: user_view_def)
qed

end
