(* ===== verification/Kpm.thy ===== *)
theory Kpm
  imports Coreutils
begin

section \<open>The package manager (src/src/tools/kpm)\<close>

text \<open>
  An archive is a sequence of entries: a header of 264 bytes (a name of 256 bytes, a size, a flag and three bytes of
  padding), then as many bytes of data. Installing reads the archive twice through the calls of \<open>file_calls\<close>, removing
  rewrites the database. A key that \<open>meta/info.txt\<close> does not have leaves its buffer uninitialised: its value is \<open>None\<close>,
  and using it gives \<open>None\<close>, as does writing past a buffer.
\<close>

definition PKG_DB_PATH :: string where "PKG_DB_PATH = ''/var/lib/kpm/installed.txt''"
definition MAX_DB_SIZE :: nat where "MAX_DB_SIZE = 16384"

record kpkg_entry =
  filename :: string
  entry_size :: u32
  is_meta :: bool

definition KPKG_ENTRY_SIZE :: nat where "KPKG_ENTRY_SIZE = 264"

text \<open>What the fields of a header read from the archive hold. The name runs to the first zero byte.\<close>

definition parse_entry :: "u8 list \<Rightarrow> kpkg_entry" where
  "parse_entry bs =
     \<lparr>filename = map (char_of \<circ> unat) (takeWhile (\<lambda>b. b \<noteq> 0) bs), entry_size = of_le32 (take 4 (drop 256 bs)), is_meta = bs ! 260 \<noteq> 0\<rparr>"

subsection \<open>Installing (install.c)\<close>

definition line_end :: "char \<Rightarrow> bool" where "line_end c \<longleftrightarrow> c = CHR 0x0A \<or> c = CHR 0x0D"

text \<open>The line after: a carriage return and one more character are skipped.\<close>

definition next_line :: "string \<Rightarrow> string" where
  "next_line p =
     (let q = dropWhile (\<lambda>c. \<not> line_end c) p;
          r = (case q of c # cs \<Rightarrow> if c = CHR 0x0D then cs else q | [] \<Rightarrow> [])
      in tl r)"

lemma next_line_shorter: "p \<noteq> [] \<Longrightarrow> length (next_line p) < length p"
proof -
  obtain q where q: "dropWhile (\<lambda>c. \<not> line_end c) p = q" by simp
  then have "length q \<le> length p" using length_dropWhile_le by blast
  then show "length (next_line p) < length p" if "p \<noteq> []"
    using that unfolding next_line_def Let_def q by (cases q) auto
qed

function parse_info :: "string \<Rightarrow> string \<Rightarrow> string option" where
  "parse_info p key =
     (if p = [] then None
      else if take (length key) p = key \<and> length key < length p \<and> p ! length key = CHR ''=''
      then Some (takeWhile (\<lambda>c. \<not> line_end c) (drop (length key + 1) p))
      else parse_info (next_line p) key)"
  by pat_completeness auto
termination
  by (relation "measure (\<lambda>(p, key). length p)") (simp_all add: next_line_shorter)

declare parse_info.simps [simp del]

text \<open>The prefixes of a path that end before a slash, but a leading one.\<close>

fun dir_prefixes :: "string \<Rightarrow> string \<Rightarrow> string list" where
  "dir_prefixes done [] = []"
| "dir_prefixes done (c # cs) = (if c = CHR ''/'' then [done] else []) @ dir_prefixes (done @ [c]) cs"

fun mkdir_each :: "'s file_calls \<Rightarrow> string list \<Rightarrow> 's \<Rightarrow> int \<times> 's" where
  "mkdir_each C [] st = (0, st)"
| "mkdir_each C (p # ps) st =
     (let (ret, st1) = c_mkdir C p st in if ret < 0 \<and> ret \<noteq> - EEXIST then (ret, st1) else mkdir_each C ps st1)"

definition mkdir_p :: "'s file_calls \<Rightarrow> string \<Rightarrow> 's \<Rightarrow> int \<times> 's" where
  "mkdir_p C path st =
     (let prefixes = (if path \<noteq> [] \<and> hd path = CHR ''/'' then dir_prefixes ''/'' (tl path) else dir_prefixes [] path)
      in mkdir_each C (prefixes @ (if path \<noteq> [] then [path] else [])) st)"

text \<open>Skipping the data of an entry, in pieces of 1024 bytes. The size is read as a signed number.\<close>

partial_function (option) skip_data :: "'s file_calls \<Rightarrow> int \<Rightarrow> int \<Rightarrow> 's \<Rightarrow> 's option" where
  "skip_data C fd to_read st =
     (if to_read > 0
      then (case c_read C fd (if to_read > 1024 then 1024 else nat to_read) st of (n, bs, st1) \<Rightarrow>
             if n \<le> 0 then Some st1 else skip_data C fd (to_read - n) st1)
      else Some st)"

partial_function (option) extract_data :: "'s file_calls \<Rightarrow> int \<Rightarrow> int \<Rightarrow> int \<Rightarrow> 's \<Rightarrow> 's option" where
  "extract_data C fd out_fd to_read st =
     (if to_read > 0
      then (case c_read C fd (if to_read > 1024 then 1024 else nat to_read) st of (n, bs, st1) \<Rightarrow>
             if n \<le> 0 then Some st1
             else extract_data C fd out_fd (to_read - n) (snd (c_write C out_fd (take (nat n) bs) st1)))
      else Some st)"

text \<open>The first pass: the text of \<open>meta/info.txt\<close>, in a buffer of 512 bytes with its terminator.\<close>

partial_function (option) find_meta :: "'s file_calls \<Rightarrow> int \<Rightarrow> 's \<Rightarrow> (string option \<times> 's) option" where
  "find_meta C fd st =
     (case c_read C fd KPKG_ENTRY_SIZE st of (n, bs, st1) \<Rightarrow>
       if n \<noteq> int KPKG_ENTRY_SIZE then Some (None, st1)
       else if is_meta (parse_entry bs) \<and> filename (parse_entry bs) = ''meta/info.txt''
       then (case c_read C fd (unat (entry_size (parse_entry bs))) st1 of (k, text_bytes, st2) \<Rightarrow>
              if 512 < k then None
              else if k = sint (entry_size (parse_entry bs))
              then if k < 0 \<or> k = 512 then None
                   else Some (Some (takeWhile (\<lambda>c. c \<noteq> NUL) (map (char_of \<circ> unat) (take (nat k) text_bytes))), st2)
              else Some (None, st2))
       else do { st2 \<leftarrow> skip_data C fd (sint (entry_size (parse_entry bs))) st1; find_meta C fd st2 })"

definition full_path_of :: "string \<Rightarrow> string \<Rightarrow> string option" where
  "full_path_of install_path name =
     (let p = (if install_path = ''/'' then name else install_path @ ''/'' @ name)
      in if length p < 512 then Some p else None)"

text \<open>One data entry: a directory, or a file below the directories of its path.\<close>

definition extract_entry :: "'s file_calls \<Rightarrow> int \<Rightarrow> string \<Rightarrow> kpkg_entry \<Rightarrow> 's \<Rightarrow> 's option" where
  "extract_entry C fd full_path e st =
     (let to_read = sint (entry_size e)
      in if entry_size e \<noteq> 0 \<and> full_path = [] then None
         else if entry_size e = 0 \<or> last full_path = CHR ''/''
         then skip_data C fd to_read (snd (mkdir_p C full_path (outs C [''  Creating directory '', full_path, [CHR 0x0A]] st)))
         else let slash = last_slash full_path;
                  st1 = (if slash \<noteq> -1 then snd (mkdir_p C (take (nat slash) full_path) st) else st);
                  (out_fd, st2) = c_open C full_path (O_CREAT OR O_TRUNC OR O_WRONLY) (outs C [''  Extracting '', full_path, [CHR 0x0A]] st1)
              in if out_fd < 0
                 then skip_data C fd to_read (outs C (quoted ''kpm: failed to create file '' full_path) st2)
                 else do { st3 \<leftarrow> extract_data C fd out_fd to_read st2; Some (snd (c_close C out_fd st3)) })"

partial_function (option) extract_all :: "'s file_calls \<Rightarrow> int \<Rightarrow> string option \<Rightarrow> 's \<Rightarrow> 's option" where
  "extract_all C fd install_path st =
     (case c_read C fd KPKG_ENTRY_SIZE st of (n, bs, st1) \<Rightarrow>
       if n \<noteq> int KPKG_ENTRY_SIZE then Some st1
       else do {
         st2 \<leftarrow> (if is_meta (parse_entry bs) then skip_data C fd (sint (entry_size (parse_entry bs))) st1
                  else do {
                    ip \<leftarrow> install_path;
                    full_path \<leftarrow> full_path_of ip (filename (parse_entry bs));
                    extract_entry C fd full_path (parse_entry bs) st1 });
         extract_all C fd install_path st2 })"

definition db_line :: "string \<Rightarrow> string \<Rightarrow> string \<Rightarrow> string" where
  "db_line name version install_path = name @ ''|'' @ version @ ''|'' @ install_path @ [CHR 0x0A]"

text \<open>The values of the three keys, in buffers of 128, 32 and 256 bytes.\<close>

definition info_value :: "string \<Rightarrow> string \<Rightarrow> nat \<Rightarrow> string option option" where
  "info_value info key room =
     (case parse_info info key of None \<Rightarrow> Some None | Some v \<Rightarrow> if length v < room then Some (Some v) else None)"

definition register_package :: "'s file_calls \<Rightarrow> string option \<Rightarrow> string option \<Rightarrow> string option \<Rightarrow> 's \<Rightarrow> 's option" where
  "register_package C name version install_path st =
     (let (db_fd, st1) = c_open C PKG_DB_PATH (O_WRONLY OR O_CREAT OR O_APPEND) st
      in if db_fd > 0
         then do {
           nm \<leftarrow> name; v \<leftarrow> version; ip \<leftarrow> install_path;
           let line = db_line nm v ip;
           if length line < 512 then Some (snd (c_close C db_fd (snd (c_write C db_fd (map (of_nat \<circ> of_char) line) st1)))) else None }
         else Some (out C (''kpm: could not open package database to register package.'' @ [CHR 0x0A]) st1))"

definition pkg_install_file :: "'s file_calls \<Rightarrow> string \<Rightarrow> 's \<Rightarrow> (int \<times> 's) option" where
  "pkg_install_file C path st =
     (let (fd, st1) = c_open C path O_RDONLY st
      in if fd < 0 then Some (-1, out C (''kpm: could not open package file.'' @ [CHR 0x0A]) st1)
         else do {
           (meta, st2) \<leftarrow> find_meta C fd (outs C [''Installing from '', path, ''...'' @ [CHR 0x0A]] st1);
           case meta of
             None \<Rightarrow> Some (-1, snd (c_close C fd (out C (''kpm: could not find or read meta/info.txt in package.'' @ [CHR 0x0A]) st2)))
           | Some info \<Rightarrow> do {
               name \<leftarrow> info_value info ''name'' 128;
               version \<leftarrow> info_value info ''version'' 32;
               install_path \<leftarrow> info_value info ''install_path'' 256;
               let (fd2, st3) = c_open C path O_RDONLY (snd (c_close C fd st2));
               st4 \<leftarrow> extract_all C fd2 install_path st3;
               st5 \<leftarrow> register_package C name version install_path (snd (c_close C fd2 st4));
               Some (0, out C (''Package installation finished.'' @ [CHR 0x0A]) st5) } })"

subsection \<open>Listing and fetching (list.c, fetch.c)\<close>

partial_function (option) list_loop :: "'s file_calls \<Rightarrow> int \<Rightarrow> 's \<Rightarrow> 's option" where
  "list_loop C fd st =
     (case c_read C fd 1023 st of (n, bs, st1) \<Rightarrow>
       if n > 0 then list_loop C fd (out C (takeWhile (\<lambda>c. c \<noteq> NUL) (map (char_of \<circ> unat) (take (nat n) bs))) st1) else Some st1)"

definition pkg_list :: "'s file_calls \<Rightarrow> 's \<Rightarrow> (int \<times> 's) option" where
  "pkg_list C st =
     (let (fd, st1) = c_open C PKG_DB_PATH O_RDONLY st
      in if fd < 0 then Some (0, out C (''No packages installed.'' @ [CHR 0x0A]) st1)
         else do {
           st2 \<leftarrow> list_loop C fd (out C (''--- INSTALLED PACKAGES ---'' @ [CHR 0x0A]) st1);
           Some (0, snd (c_close C fd st2)) })"

definition pkg_fetch :: "'s file_calls \<Rightarrow> string \<Rightarrow> 's \<Rightarrow> int \<times> 's" where
  "pkg_fetch C name st =
     (-1, outs C [''kpm: Error: pkg_fetch is disabled.'' @ [CHR 0x0A],
            ''kpm: Secure package fetching (HTTPS/TLS) is not implemented.'' @ [CHR 0x0A],
            ''kpm: Please install packages locally using '' @ [CHR 0x27] @ ''kpm install <file.kpkg>'' @ [CHR 0x27] @ ''.'' @ [CHR 0x0A]] st)"

subsection \<open>Removing (remove.c)\<close>

text \<open>Entries are removed while the directory is read by index.\<close>

fun remove_recursive :: "nat \<Rightarrow> 's file_calls \<Rightarrow> string \<Rightarrow> 's \<Rightarrow> (int \<times> 's) option" where
  "remove_recursive 0 C path st = None"
| "remove_recursive (Suc depth) C path st =
     (let (rc, info, st1) = c_stat C path st
      in if rc \<noteq> 0 then Some (-1, outs C [''kpm: Failed to stat '', path, [CHR 0x0A]] st1)
         else if S_ISREG (st_mode info) then Some (c_unlink C path (outs C [''kpm: Unlinking file: '', path, [CHR 0x0A]] st1))
         else if S_ISDIR (st_mode info)
         then let (dir_fd, st2) = c_open C path O_RDONLY (outs C [''kpm: Entering directory: '', path, [CHR 0x0A]] st1)
              in if dir_fd < 0 then Some (-1, outs C [''kpm: Failed to open directory '', path, [CHR 0x0A]] st2)
                 else do {
                   (r, st3) \<leftarrow> each_entry C dir_fd (\<lambda>name st. do { p \<leftarrow> entry_path path name; remove_recursive depth C p st }) 0 st2;
                   if r \<noteq> 0 then Some (-1, st3)
                   else Some (c_rmdir C path (outs C [''kpm: Removing directory: '', path, [CHR 0x0A]] st3)) }
         else Some (-1, st1))"

text \<open>The package name of a line, in a buffer of 128 bytes, and its path after the second bar.\<close>

definition line_name :: "string \<Rightarrow> string option" where
  "line_name line =
     (if CHR ''|'' \<in> set line then Some (take 127 (takeWhile (\<lambda>c. c \<noteq> CHR ''|'') line))
      else if length line < 128 then Some line else None)"

definition line_path :: "string \<Rightarrow> string option" where
  "line_path line =
     (let after = (\<lambda>s. tl (dropWhile (\<lambda>c. c \<noteq> CHR ''|'') s))
      in if CHR ''|'' \<in> set line \<and> CHR ''|'' \<in> set (after line)
         then Some (take 255 (takeWhile (\<lambda>c. c \<noteq> CHR 0x0A) (after (after line)))) else None)"

record db_state =
  new_db :: string
  found :: bool
  deletion_successful :: bool

text \<open>\<open>strcat\<close> into the buffer of the new database.\<close>

definition db_append :: "string \<Rightarrow> db_state \<Rightarrow> db_state option" where
  "db_append s d = (if length (new_db d @ s) < MAX_DB_SIZE then Some (d\<lparr>new_db := new_db d @ s\<rparr>) else None)"

text \<open>One line of the database, at most 255 bytes of it.\<close>

definition remove_line :: "'s file_calls \<Rightarrow> string \<Rightarrow> string \<Rightarrow> db_state \<times> 's \<Rightarrow> (db_state \<times> 's) option" where
  "remove_line C name line ds =
     (let (d, st) = ds in do {
       nm \<leftarrow> line_name line;
       if nm \<noteq> name then do { d1 \<leftarrow> db_append (line @ [CHR 0x0A]) d; Some (d1, st) }
       else let d1 = d\<lparr>found := True\<rparr>;
                st1 = outs C [''  Package '' @ [CHR 0x27], name, [CHR 0x27] @ '' found in database.'' @ [CHR 0x0A]] st
            in case line_path line of
                 Some path \<Rightarrow> do {
                   (r, st2) \<leftarrow> remove_recursive MAX_DEPTH C path st1;
                   if r \<noteq> 0
                   then do {
                     d2 \<leftarrow> db_append (line @ [CHR 0x0A]) (d1\<lparr>deletion_successful := False\<rparr>);
                     Some (d2, outs C (quoted ''kpm: Failed to remove package files for '' name) st2) }
                   else Some (d1, outs C [''  Package '' @ [CHR 0x27], name, [CHR 0x27] @ '' files removed.'' @ [CHR 0x0A]] st2) }
               | None \<Rightarrow> Some (d1, outs C [''kpm: Warning: Malformed entry in DB, could not get install path for '', name, [CHR 0x0A]] st1) })"

text \<open>The loop over the database: a zero byte before its end is never passed.\<close>

partial_function (option) remove_lines :: "'s file_calls \<Rightarrow> string \<Rightarrow> string \<Rightarrow> db_state \<times> 's \<Rightarrow> (db_state \<times> 's) option" where
  "remove_lines C name db ds =
     (if db = [] then Some ds
      else do {
        let line = takeWhile (\<lambda>c. c \<noteq> CHR 0x0A \<and> c \<noteq> NUL) db;
        ds1 \<leftarrow> remove_line C name (take 255 line) ds;
        let rest = drop (length line) db;
        remove_lines C name (if rest \<noteq> [] \<and> hd rest = CHR 0x0A then tl rest else rest) ds1 })"

definition pkg_remove :: "'s file_calls \<Rightarrow> string \<Rightarrow> 's \<Rightarrow> (int \<times> 's) option" where
  "pkg_remove C name st =
     (let (fd, st1) = c_open C PKG_DB_PATH O_RDONLY (outs C [''Attempting to remove package: '', name, [CHR 0x0A]] st)
      in if fd < 0 then Some (0, out C (''kpm: No package database found. No packages installed.'' @ [CHR 0x0A]) st1)
         else case c_read C fd (MAX_DB_SIZE - 1) st1 of (bytes_read, bs, st2) \<Rightarrow>
           let st3 = snd (c_close C fd st2)
           in if bytes_read \<le> 0 then Some (0, out C (''kpm: Package database is empty or could not be read.'' @ [CHR 0x0A]) st3)
              else do {
                (d, st4) \<leftarrow> remove_lines C name (map (char_of \<circ> unat) (take (nat bytes_read) bs))
                              (\<lparr>new_db = [], found = False, deletion_successful = True\<rparr>, st3);
                if \<not> found d then Some (-1, outs C [''kpm: Package '' @ [CHR 0x27], name, [CHR 0x27] @ '' not found in database.'' @ [CHR 0x0A]] st4)
                else if \<not> deletion_successful d then Some (-1, st4)
                else let (fd2, st5) = c_open C PKG_DB_PATH (O_CREAT OR O_TRUNC OR O_WRONLY) st4
                     in if fd2 < 0 then Some (-1, out C (''kpm: Could not open package database for writing.'' @ [CHR 0x0A]) st5)
                        else Some (0, outs C [''Package '' @ [CHR 0x27], name, [CHR 0x27] @ '' removed from database.'' @ [CHR 0x0A]]
                               (snd (c_close C fd2 (snd (c_write C fd2 (map (of_nat \<circ> of_char) (new_db d)) st5))))) })"

subsection \<open>The command line (main.c)\<close>

definition usage_text :: "string list" where
  "usage_text = map (\<lambda>l. l @ [CHR 0x0A])
     [''KyroOOS Package Manager (kpm) v0.1'', ''Usage: kpm <command> [args]'', ''Commands:'',
      ''  install <file.kpkg>  - Install a local package'', ''  install <name>       - Install a package from repo'',
      ''  remove <name>        - Remove an installed package'', ''  list                 - List installed packages'']"

text \<open>The status is 1 after the usage text. A name shorter than the suffix is read before its start.\<close>

definition kpm_main :: "'s file_calls \<Rightarrow> string list \<Rightarrow> 's \<Rightarrow> (int \<times> 's) option" where
  "kpm_main C argv st =
     (let usage = Some (1, outs C usage_text st)
      in if length argv < 2
         then do { (r, st1) \<leftarrow> pkg_list C (out C (''No command specified, listing installed packages:'' @ [CHR 0x0A]) st); Some (0, st1) }
         else if argv ! 1 = ''install''
         then if length argv < 3 then usage
              else if length (argv ! 2) < 5 then None
              else if drop (length (argv ! 2) - 5) (argv ! 2) = ''.kpkg''
              then do { (r, st1) \<leftarrow> pkg_install_file C (argv ! 2) st; Some (0, st1) }
              else Some (0, snd (pkg_fetch C (argv ! 2) st))
         else if argv ! 1 = ''remove''
         then if length argv < 3 then usage else do { (r, st1) \<leftarrow> pkg_remove C (argv ! 2) st; Some (0, st1) }
         else if argv ! 1 = ''list'' then do { (r, st1) \<leftarrow> pkg_list C st; Some (0, st1) }
         else usage)"

subsection \<open>Archives\<close>

record pkg_item =
  it_name :: string
  it_data :: "u8 list"
  it_meta :: bool

definition header_bytes :: "pkg_item \<Rightarrow> u8 list" where
  "header_bytes e = map (of_nat \<circ> of_char) (it_name e) @ replicate (256 - length (it_name e)) 0
     @ le32 (of_nat (length (it_data e))) @ [if it_meta e then 1 else 0, 0, 0, 0]"

definition archive :: "pkg_item list \<Rightarrow> u8 list" where
  "archive es = concat (map (\<lambda>e. header_bytes e @ it_data e) es)"

definition item_ok :: "pkg_item \<Rightarrow> bool" where
  "item_ok e \<longleftrightarrow> c_string (it_name e) \<and> length (it_name e) < 256 \<and> length (it_data e) < 2 ^ 31"

lemma char_u8: "char_of (unat (of_nat (of_char c) :: u8)) = (c :: char)"
  by (simp add: unat_of_nat)

lemma of_char_u8_zero: "(of_nat (of_char c) :: u8) = 0 \<longleftrightarrow> c = NUL"
  using char_u8 [of c] char_u8 [of NUL] by fastforce

lemma takeWhile_stop: "\<forall>b\<in>set xs. P b \<Longrightarrow> \<not> P y \<Longrightarrow> takeWhile P (xs @ y # ys) = xs"
  by (simp add: takeWhile_append)

lemma drop_exact: "length xs = n \<Longrightarrow> drop n (xs @ ys) = ys"
  by simp

lemma header_layout:
  assumes "length xs = 256" "length l = 4"
  shows "take 4 (drop 256 (xs @ l @ m # zs)) = l" "(xs @ l @ m # zs) ! 260 = m"
  using assms by (simp_all add: drop_exact nth_append)

lemma name_field:
  assumes "c_string s" "length s < 256" "0 < k"
  shows "map (char_of \<circ> unat) (takeWhile (\<lambda>b. b \<noteq> 0) (map (of_nat \<circ> of_char) s @ replicate k (0 :: u8) @ ys)) = s"
proof -
  obtain m where m: "k = Suc m" using assms(3) by (cases k) simp_all
  have "\<forall>b\<in>set (map (of_nat \<circ> of_char) s :: u8 list). b \<noteq> 0"
    using assms(1) by (auto simp: c_string_def of_char_u8_zero)
  from takeWhile_stop [OF this, of 0] have "takeWhile (\<lambda>b. b \<noteq> 0) (map (of_nat \<circ> of_char) s @ replicate k (0 :: u8) @ ys) = map (of_nat \<circ> of_char) s"
    unfolding m by simp
  then show ?thesis by (simp add: comp_def char_u8)
qed

lemma parse_header:
  assumes "item_ok e"
  shows "length (header_bytes e) = KPKG_ENTRY_SIZE"
    and "parse_entry (header_bytes e) = \<lparr>filename = it_name e, entry_size = of_nat (length (it_data e)), is_meta = it_meta e\<rparr>"
proof -
  define xs where "xs = map (of_nat \<circ> of_char) (it_name e) @ replicate (256 - length (it_name e)) (0 :: u8)"
  define l where "l = le32 (of_nat (length (it_data e)))"
  define m where "m = (if it_meta e then 1 else 0 :: u8)"
  have h: "header_bytes e = xs @ l @ m # [0, 0, 0]" by (simp add: header_bytes_def xs_def l_def m_def)
  have len: "length xs = 256" "length l = 4" using assms by (simp_all add: item_ok_def xs_def l_def)
  show "length (header_bytes e) = KPKG_ENTRY_SIZE" by (simp add: h len KPKG_ENTRY_SIZE_def)
  have "map (char_of \<circ> unat) (takeWhile (\<lambda>b. b \<noteq> 0) (header_bytes e)) = it_name e"
    unfolding h xs_def append_assoc using assms by (intro name_field) (simp_all add: item_ok_def)
  moreover have "of_le32 l = of_nat (length (it_data e))" using of_le32_le32 [of _ "[]"] by (simp add: l_def)
  ultimately show "parse_entry (header_bytes e) = \<lparr>filename = it_name e, entry_size = of_nat (length (it_data e)), is_meta = it_meta e\<rparr>"
    using header_layout [OF len, of m "[0, 0, 0]"] by (simp add: parse_entry_def h m_def)
qed

end
