(* ===== verification/Kpm_Install.thy ===== *)
theory Kpm_Install
  imports Kpm
begin

section \<open>Installing an archive\<close>

text \<open>
  What \<open>pkg_install_file\<close> does over lawful calls to an archive of well-formed entries: the files below the install
  path, and one line more in the database.
\<close>

lemma map_bytes_text: "map (char_of \<circ> unat) (map (of_nat \<circ> of_char) s :: u8 list) = s"
  by (simp add: comp_def char_u8)

lemma sint_size: "n < 2 ^ 31 \<Longrightarrow> sint (of_nat n :: u32) = int n"
  by (simp add: signed_of_nat signed_take_bit_int_eq_self)

subsection \<open>Moving through the archive\<close>

text \<open>Descriptor \<open>fd\<close> has \<open>rest\<close> of the archive \<open>p\<close> to read, the files are \<open>F\<close>.\<close>

definition at :: "'s file_view \<Rightarrow> int \<Rightarrow> string \<Rightarrow> (string \<Rightarrow> u8 list option) \<Rightarrow> u8 list \<Rightarrow> 's \<Rightarrow> bool" where
  "at V fd p F rest s \<longleftrightarrow> files V s = F \<and> left V s fd = Some (p, rest)"

lemma at_same_view: "same_view V s s' \<Longrightarrow> at V fd p F rest s \<Longrightarrow> at V fd p F rest s'"
  by (simp add: at_def same_view_def)

lemma at_read:
  assumes "lawful C V" "at V fd p F rest s"
  obtains s' where "c_read C fd n s = (int (min n (length rest)), take n rest, s')" "at V fd p F (drop n rest) s'"
    "target V s' = target V s"
proof -
  have l: "left V s fd = Some (p, rest)" using assms(2) by (simp add: at_def)
  show thesis by (rule lawful_read [OF assms(1) l, of n]) (use assms(2) that in \<open>auto simp: at_def\<close>)
qed

lemma size_zero: "n < 2 ^ 31 \<Longrightarrow> (of_nat n :: u32) = 0 \<longleftrightarrow> n = 0"
  using sint_size [of n] by (auto simp del: signed_of_nat)

lemma skip_data_step:
  assumes "c_read C fd (if to_read > 1024 then 1024 else nat to_read) s = (n, bs, s1)" "0 < to_read" "0 < n"
  shows "skip_data C fd to_read s = skip_data C fd (to_read - n) s1"
  using assms by (subst skip_data.simps) simp

lemma extract_data_step:
  assumes "c_read C fd (if to_read > 1024 then 1024 else nat to_read) s = (n, bs, s1)" "0 < to_read" "0 < n"
  shows "extract_data C fd ofd to_read s = extract_data C fd ofd (to_read - n) (snd (c_write C ofd (take (nat n) bs) s1))"
  using assms by (subst extract_data.simps) simp

lemma skip_data_law:
  assumes laws: "lawful C V" and "at V fd p F (bs @ rest) s"
  shows "\<exists>s'. skip_data C fd (int (length bs)) s = Some s' \<and> at V fd p F rest s'"
  using assms(2)
proof (induction "length bs" arbitrary: bs s rule: less_induct)
  case less
  show ?case
  proof (cases "bs = []")
    case True
    then show ?thesis using less.prems by (subst skip_data.simps) simp
  next
    case False
    define n where "n = min 1024 (length bs)"
    have n: "n \<le> length bs" "0 < n" using False by (auto simp: n_def)
    obtain s1 where r: "c_read C fd n s = (int (min n (length (bs @ rest))), take n (bs @ rest), s1)" "at V fd p F (drop n (bs @ rest)) s1"
      by (rule at_read [OF laws less.prems])
    have a: "at V fd p F (drop n bs @ rest) s1" using r(2) n by simp
    have "length (drop n bs) < length bs" using n by simp
    from less.hyps [OF this a] obtain s' where e: "skip_data C fd (int (length (drop n bs))) s1 = Some s'" "at V fd p F rest s'" by blast
    have c: "(if int (length bs) > 1024 then 1024 else nat (int (length bs))) = n" by (simp add: n_def)
    have k: "min n (length (bs @ rest)) = n" using n by simp
    have "int (length bs) - int n = int (length (drop n bs))" using n by simp
    moreover have "skip_data C fd (int (length bs)) s = skip_data C fd (int (length bs) - int n) s1"
    proof -
      have "c_read C fd (if int (length bs) > 1024 then 1024 else nat (int (length bs))) s = (int n, take n (bs @ rest), s1)"
        using r(1) unfolding c k .
      from skip_data_step [OF this] show ?thesis using n False by simp
    qed
    ultimately have "skip_data C fd (int (length bs)) s = Some s'" using e(1) by metis
    then show ?thesis using e(2) by blast
  qed
qed

lemma extract_data_law:
  assumes laws: "lawful C V" and ne: "p \<noteq> q"
    and "at V fd p F (bs @ rest) s" "target V s ofd = Some q" "F q = Some old"
  shows "\<exists>s'. extract_data C fd ofd (int (length bs)) s = Some s' \<and> at V fd p (F(q \<mapsto> old @ bs)) rest s'"
  using assms(3-)
proof (induction "length bs" arbitrary: bs s F old rule: less_induct)
  case less
  show ?case
  proof (cases "bs = []")
    case True
    then show ?thesis using less.prems by (subst extract_data.simps) (auto simp: fun_upd_idem)
  next
    case False
    define n where "n = min 1024 (length bs)"
    have n: "n \<le> length bs" "0 < n" using False by (auto simp: n_def)
    obtain s1 where r: "c_read C fd n s = (int (min n (length (bs @ rest))), take n (bs @ rest), s1)"
      "at V fd p F (drop n (bs @ rest)) s1" "target V s1 = target V s" by (rule at_read [OF laws less.prems(1)])
    have t: "target V s1 ofd = Some q" "files V s1 q = Some old" using less.prems r by (simp_all add: at_def)
    obtain s2 where w: "c_write C ofd (take n bs) s1 = (int (length (take n bs)), s2)"
      "files V s2 = (files V s1)(q \<mapsto> old @ take n bs)" "target V s2 = target V s1" "others_left V q s1 s2"
      by (rule lawful_write [OF laws t])
    have a: "at V fd p (F(q \<mapsto> old @ take n bs)) (drop n bs @ rest) s2"
      using r(2) w(2,4) n ne by (simp add: at_def others_left_def)
    have t2: "target V s2 ofd = Some q" using t w by simp
    have "length (drop n bs) < length bs" using n by simp
    from less.hyps [OF this a t2, of "old @ take n bs"] obtain s' where
      e: "extract_data C fd ofd (int (length (drop n bs))) s2 = Some s'" "at V fd p (F(q \<mapsto> old @ bs)) rest s'" by auto
    have c: "(if int (length bs) > 1024 then 1024 else nat (int (length bs))) = n" by (simp add: n_def)
    have k: "min n (length (bs @ rest)) = n" "take n (take n (bs @ rest)) = take n bs" using n by simp_all
    have "int (length bs) - int n = int (length (drop n bs))" using n by simp
    moreover have "extract_data C fd ofd (int (length bs)) s = extract_data C fd ofd (int (length bs) - int n) s2"
    proof -
      have "c_read C fd (if int (length bs) > 1024 then 1024 else nat (int (length bs))) s = (int n, take n (bs @ rest), s1)"
        using r(1) unfolding c k(1) .
      from extract_data_step [OF this, of ofd] show ?thesis using n w(1) k(2) False by simp
    qed
    ultimately have "extract_data C fd ofd (int (length bs)) s = Some s'" using e(1) by metis
    then show ?thesis using e(2) by blast
  qed
qed


subsection \<open>One entry\<close>

lemma mkdir_p_same:
  assumes laws: "lawful C V"
  shows "same_view V s (snd (mkdir_p C path s))"
proof -
  have m: "same_view V s (snd (c_mkdir C p s))" for p s
    using laws unfolding lawful_def open_law_def by blast
  have "same_view V s (snd (mkdir_each C ps s))" for ps
  proof (induction ps arbitrary: s)
    case (Cons p ps)
    obtain r s1 where c: "c_mkdir C p s = (r, s1)" by force
    then have "same_view V s s1" using m [of s p] by simp
    then show ?case using same_view_trans [OF _ Cons.IH] c by simp
  qed (simp add: same_view_def)
  then show ?thesis by (simp add: mkdir_p_def Let_def)
qed

text \<open>Where an entry goes, and what its extraction does to the files.\<close>

definition entry_target :: "string \<Rightarrow> pkg_item \<Rightarrow> string" where
  "entry_target ip e = (if ip = ''/'' then it_name e else ip @ ''/'' @ it_name e)"

definition unpack :: "string \<Rightarrow> pkg_item \<Rightarrow> (string \<Rightarrow> u8 list option) \<Rightarrow> string \<Rightarrow> u8 list option" where
  "unpack ip e F =
     (if it_meta e \<or> it_data e = [] \<or> last (entry_target ip e) = CHR ''/'' then F else F(entry_target ip e \<mapsto> it_data e))"

definition target_ok :: "string \<Rightarrow> string \<Rightarrow> pkg_item \<Rightarrow> bool" where
  "target_ok p ip e \<longleftrightarrow> it_meta e \<or> (entry_target ip e \<noteq> [] \<and> length (entry_target ip e) < 512 \<and> entry_target ip e \<noteq> p)"

lemma extract_entry_law:
  assumes laws: "lawful C V" and ok: "item_ok e" "target_ok p ip e" "\<not> it_meta e"
    and a: "at V fd p F (it_data e @ rest) s"
  shows "\<exists>s'. extract_entry C fd (entry_target ip e) \<lparr>filename = it_name e, entry_size = of_nat (length (it_data e)), is_meta = False\<rparr> s = Some s'
    \<and> at V fd p (unpack ip e F) rest s'"
proof -
  let ?t = "entry_target ip e" and ?h = "\<lparr>filename = it_name e, entry_size = of_nat (length (it_data e)), is_meta = False\<rparr>"
  have size: "sint (of_nat (length (it_data e)) :: u32) = int (length (it_data e))" using ok(1) by (simp add: item_ok_def sint_size)
  then have zero: "(of_nat (length (it_data e)) :: u32) = 0 \<longleftrightarrow> it_data e = []" using ok(1) by (simp add: item_ok_def size_zero)
  have ne: "?t \<noteq> []" "?t \<noteq> p" using ok by (auto simp: target_ok_def)
  show ?thesis
  proof (cases "it_data e = [] \<or> last ?t = CHR ''/''")
    case True
    let ?s = "snd (mkdir_p C ?t (outs C [''  Creating directory '', ?t, [CHR 0x0A]] s))"
    have "at V fd p F (it_data e @ rest) ?s"
      by (rule at_same_view [OF mkdir_p_same [OF laws] at_same_view [OF lawful_outs [OF laws] a]])
    from skip_data_law [OF laws this] obtain s' where s': "skip_data C fd (int (length (it_data e))) ?s = Some s'" "at V fd p F rest s'" by blast
    moreover have "extract_entry C fd ?t ?h s = Some s'"
      unfolding extract_entry_def Let_def kpkg_entry.simps size using True zero ne s'(1) by simp
    ultimately show ?thesis using True by (auto simp: unpack_def)
  next
    case False
    define s1 where "s1 = (if last_slash ?t \<noteq> -1 then snd (mkdir_p C (take (nat (last_slash ?t)) ?t) s) else s)"
    define s2 where "s2 = outs C [''  Extracting '', ?t, [CHR 0x0A]] s1"
    have "at V fd p F (it_data e @ rest) s1"
      unfolding s1_def using at_same_view [OF mkdir_p_same [OF laws] a] a by simp
    then have a2: "at V fd p F (it_data e @ rest) s2" unfolding s2_def by (rule at_same_view [OF lawful_outs [OF laws]])
    obtain ofd s3 where c: "c_open C ?t (O_CREAT OR O_TRUNC OR O_WRONLY) s2 = (ofd, s3)" "1 < ofd" "left V s2 ofd = None"
      "target V s2 ofd = None" "files V s3 = (files V s2)(?t \<mapsto> [])" "target V s3 = (target V s2)(ofd \<mapsto> ?t)"
      "others_left V ?t s2 s3" by (rule lawful_create [OF laws])
    have a3: "at V fd p (F(?t \<mapsto> [])) (it_data e @ rest) s3" using a2 c(5,7) ne by (auto simp: at_def others_left_def)
    have t3: "target V s3 ofd = Some ?t" using c(6) by simp
    obtain s4 where x: "extract_data C fd ofd (int (length (it_data e))) s3 = Some s4" "at V fd p (F(?t \<mapsto> it_data e)) rest s4"
      using extract_data_law [OF laws ne(2) [symmetric] a3 t3, of "[]"] by auto
    have "ofd \<noteq> fd" using a2 c(3) by (auto simp: at_def)
    then have "at V fd p (F(?t \<mapsto> it_data e)) rest (snd (c_close C ofd s4))"
      using x(2) by (simp add: at_def lawful_close [OF laws])
    moreover have "extract_entry C fd ?t ?h s = Some (snd (c_close C ofd s4))"
      unfolding extract_entry_def Let_def kpkg_entry.simps size s1_def [symmetric] s2_def [symmetric] using False zero ne c(1,2) x(1) by simp
    ultimately show ?thesis using False ok(3) by (auto simp: unpack_def)
  qed
qed


subsection \<open>The keys of meta/info.txt\<close>

definition info_text :: "(string \<times> string) list \<Rightarrow> string" where
  "info_text kvs = concat (map (\<lambda>(k, v). k @ ''='' @ v @ [CHR 0x0A]) kvs)"

definition key_ok :: "string \<Rightarrow> bool" where
  "key_ok k \<longleftrightarrow> (\<forall>c\<in>set k. c \<noteq> NUL \<and> \<not> line_end c \<and> c \<noteq> CHR ''='')"

definition pairs_ok :: "(string \<times> string) list \<Rightarrow> bool" where
  "pairs_ok kvs \<longleftrightarrow> (\<forall>(k, v)\<in>set kvs. key_ok k \<and> (\<forall>c\<in>set v. c \<noteq> NUL \<and> \<not> line_end c))"

lemma info_text_c_string: "pairs_ok kvs \<Longrightarrow> c_string (info_text kvs)"
proof (induction kvs)
  case (Cons kv kvs)
  obtain k v where kv: "kv = (k, v)" by force
  have "c_string (info_text kvs)" using Cons by (simp add: pairs_ok_def)
  moreover have "NUL \<notin> set k" "NUL \<notin> set v" using Cons.prems by (auto simp: pairs_ok_def key_ok_def kv)
  ultimately show ?case by (simp add: c_string_def info_text_def kv)
qed (simp add: c_string_def info_text_def)

lemma next_line_text:
  assumes "\<forall>c\<in>set l. \<not> line_end c"
  shows "next_line (l @ CHR 0x0A # rest) = rest"
proof -
  have "dropWhile (\<lambda>c. \<not> line_end c) (l @ CHR 0x0A # rest) = CHR 0x0A # rest"
    using assms by (simp add: dropWhile_append line_end_def)
  then show ?thesis by (simp add: next_line_def)
qed

lemma key_prefix:
  assumes keys: "key_ok key" "key_ok k" and p: "p = k @ CHR ''='' # rest"
    and a: "take (length key) p = key" "length key < length p" "p ! length key = CHR ''=''"
  shows "k = key"
proof -
  have "p = take (length key) p @ p ! length key # drop (Suc (length key)) p" by (rule id_take_nth_drop [OF a(2)])
  then have "\<exists>r. p = key @ CHR ''='' # r" unfolding a(1,3) by (rule exI)
  then obtain r where r: "p = key @ CHR ''='' # r" by (rule exE)
  have "takeWhile (\<lambda>c. c \<noteq> CHR ''='') p = key"
    unfolding r by (rule takeWhile_stop) (use keys(1) in \<open>simp_all add: key_ok_def\<close>)
  moreover have "takeWhile (\<lambda>c. c \<noteq> CHR ''='') p = k"
    unfolding p by (rule takeWhile_stop) (use keys(2) in \<open>simp_all add: key_ok_def\<close>)
  ultimately show ?thesis by (rule trans [OF sym, rotated])
qed

lemma parse_info_text: "pairs_ok kvs \<Longrightarrow> key_ok key \<Longrightarrow> parse_info (info_text kvs) key = map_of kvs key"
proof (induction kvs)
  case Nil
  show ?case by (simp add: info_text_def parse_info.simps)
next
  case (Cons kv kvs)
  obtain k v where kv: "kv = (k, v)" by force
  have ok: "key_ok k" "\<forall>c\<in>set v. \<not> line_end c" "pairs_ok kvs" using Cons.prems(1) by (auto simp: pairs_ok_def kv)
  have p: "info_text (kv # kvs) = k @ CHR ''='' # (v @ CHR 0x0A # info_text kvs)" by (simp add: info_text_def kv)
  have "\<forall>c\<in>set (k @ CHR ''='' # v). \<not> line_end c" using ok by (auto simp: key_ok_def line_end_def)
  from next_line_text [OF this] have n: "next_line (info_text (kv # kvs)) = info_text kvs" by (simp add: p)
  have v: "takeWhile (\<lambda>c. \<not> line_end c) (v @ CHR 0x0A # info_text kvs) = v"
    using ok(2) by (intro takeWhile_stop) (simp_all add: line_end_def)
  show ?case
  proof (cases "k = key")
    case True
    then show ?thesis using v p by (subst parse_info.simps) (simp add: kv)
  next
    case False
    have "info_text (kv # kvs) \<noteq> []" by (simp add: p)
    moreover have "\<not> (take (length key) (info_text (kv # kvs)) = key \<and> length key < length (info_text (kv # kvs)) \<and> info_text (kv # kvs) ! length key = CHR ''='')"
      using key_prefix [OF Cons.prems(2) ok(1) p] False by blast
    ultimately have "parse_info (info_text (kv # kvs)) key = parse_info (info_text kvs) key"
      by (subst parse_info.simps) (auto simp: n)
    then show ?thesis using Cons.IH [OF ok(3) Cons.prems(2)] False by (simp add: kv)
  qed
qed

subsection \<open>The two passes\<close>

lemma archive_simps [simp]: "archive [] = []" "archive (e # es) = header_bytes e @ it_data e @ archive es"
  by (simp_all add: archive_def)

lemma read_header:
  assumes "lawful C V" "item_ok e" "at V fd p F (archive (e # es)) s"
  obtains s1 where "c_read C fd KPKG_ENTRY_SIZE s = (int KPKG_ENTRY_SIZE, header_bytes e, s1)" "at V fd p F (it_data e @ archive es) s1"
proof -
  obtain s1 where "c_read C fd KPKG_ENTRY_SIZE s = (int (min KPKG_ENTRY_SIZE (length (archive (e # es)))), take KPKG_ENTRY_SIZE (archive (e # es)), s1)"
    "at V fd p F (drop KPKG_ENTRY_SIZE (archive (e # es))) s1" by (rule at_read [OF assms(1,3)])
  then show thesis using parse_header(1) [OF assms(2)] by (intro that) simp_all
qed

lemma read_past_end:
  assumes "lawful C V" "at V fd p F (archive []) s"
  obtains s1 where "c_read C fd KPKG_ENTRY_SIZE s = (0, [], s1)" "at V fd p F (archive []) s1"
  using at_read [OF assms, of KPKG_ENTRY_SIZE] by auto

lemma extract_all_law:
  assumes laws: "lawful C V"
  shows "\<forall>e\<in>set es. item_ok e \<and> target_ok p ip e \<Longrightarrow> at V fd p F (archive es) s \<Longrightarrow>
    \<exists>s'. extract_all C fd (Some ip) s = Some s' \<and> files V s' = fold (unpack ip) es F"
proof (induction es arbitrary: F s)
  case Nil
  obtain s1 where "c_read C fd KPKG_ENTRY_SIZE s = (0, [], s1)" "at V fd p F (archive []) s1" by (rule read_past_end [OF laws Nil.prems(2)])
  then show ?case by (subst extract_all.simps) (simp add: KPKG_ENTRY_SIZE_def at_def)
next
  case (Cons e es)
  have ok: "item_ok e" "target_ok p ip e" using Cons.prems(1) by simp_all
  obtain s1 where r: "c_read C fd KPKG_ENTRY_SIZE s = (int KPKG_ENTRY_SIZE, header_bytes e, s1)" "at V fd p F (it_data e @ archive es) s1"
    by (rule read_header [OF laws ok(1) Cons.prems(2)])
  have h: "parse_entry (header_bytes e) = \<lparr>filename = it_name e, entry_size = of_nat (length (it_data e)), is_meta = it_meta e\<rparr>"
    using parse_header(2) [OF ok(1)] .
  have size: "sint (of_nat (length (it_data e)) :: u32) = int (length (it_data e))" using ok(1) by (simp add: item_ok_def sint_size)
  let ?step = "if it_meta e then skip_data C fd (int (length (it_data e))) s1
    else do { full_path \<leftarrow> full_path_of ip (it_name e);
              extract_entry C fd full_path \<lparr>filename = it_name e, entry_size = of_nat (length (it_data e)), is_meta = False\<rparr> s1 }"
  have "\<exists>s2. ?step = Some s2 \<and> at V fd p (unpack ip e F) (archive es) s2"
  proof (cases "it_meta e")
    case True
    then show ?thesis using skip_data_law [OF laws r(2)] by (simp add: unpack_def)
  next
    case False
    then have "full_path_of ip (it_name e) = Some (entry_target ip e)"
      using ok(2) by (simp add: full_path_of_def entry_target_def target_ok_def Let_def)
    then show ?thesis using extract_entry_law [OF laws ok False r(2)] False by simp
  qed
  then obtain s2 where s2: "?step = Some s2" "at V fd p (unpack ip e F) (archive es) s2" by blast
  obtain s' where e: "extract_all C fd (Some ip) s2 = Some s'" "files V s' = fold (unpack ip) es (unpack ip e F)"
    using Cons.IH [OF _ s2(2)] Cons.prems(1) by auto
  have "extract_all C fd (Some ip) s = do { s2 \<leftarrow> ?step; extract_all C fd (Some ip) s2 }"
    unfolding extract_all.simps [of C fd "Some ip" s] r(1) by (simp add: h size)
  then have "extract_all C fd (Some ip) s = Some s'" unfolding s2(1) using e(1) by simp
  then show ?case using e(2) by simp
qed


text \<open>The entry the first pass looks for.\<close>

definition text_bytes :: "string \<Rightarrow> u8 list" where "text_bytes s = map (of_nat \<circ> of_char) s"

definition info_item :: "pkg_item \<Rightarrow> bool" where "info_item e \<longleftrightarrow> it_meta e \<and> it_name e = ''meta/info.txt''"

lemma find_meta_skips:
  assumes laws: "lawful C V" and ok: "item_ok e" "\<not> info_item e" and a: "at V fd p F (archive (e # es)) s"
  shows "\<exists>s1. find_meta C fd s = find_meta C fd s1 \<and> at V fd p F (archive es) s1"
proof -
  obtain s1 where r: "c_read C fd KPKG_ENTRY_SIZE s = (int KPKG_ENTRY_SIZE, header_bytes e, s1)" "at V fd p F (it_data e @ archive es) s1"
    by (rule read_header [OF laws ok(1) a])
  obtain s2 where s2: "skip_data C fd (int (length (it_data e))) s1 = Some s2" "at V fd p F (archive es) s2"
    using skip_data_law [OF laws r(2)] by blast
  have size: "sint (of_nat (length (it_data e)) :: u32) = int (length (it_data e))" using ok(1) by (simp add: item_ok_def sint_size)
  have "find_meta C fd s = find_meta C fd s2"
    unfolding find_meta.simps [of C fd s] r(1)
    using ok(2) s2(1) by (auto simp: parse_header(2) [OF ok(1)] size info_item_def)
  then show ?thesis using s2(2) by blast
qed

lemma find_meta_law:
  assumes laws: "lawful C V" and i: "item_ok i" "info_item i" "it_data i = text_bytes info" "c_string info" "length info < 512"
  shows "\<forall>e\<in>set es. item_ok e \<and> \<not> info_item e \<Longrightarrow> at V fd p F (archive (es @ i # post)) s \<Longrightarrow>
    \<exists>s'. find_meta C fd s = Some (Some info, s') \<and> files V s' = F"
proof (induction es arbitrary: s)
  case Nil
  have a: "at V fd p F (archive (i # post)) s" using Nil.prems(2) by simp
  obtain s1 where r: "c_read C fd KPKG_ENTRY_SIZE s = (int KPKG_ENTRY_SIZE, header_bytes i, s1)" "at V fd p F (it_data i @ archive post) s1"
    by (rule read_header [OF laws i(1) a])
  define n where "n = length info"
  have n: "length (it_data i) = n" "n < 512" using i(3,5) by (simp_all add: text_bytes_def n_def)
  have size: "sint (of_nat n :: u32) = int n" "unat (of_nat n :: u32) = n"
    using n(2) by (simp_all add: sint_size unat_of_nat)
  obtain s2 where s2: "c_read C fd n s1 = (int n, it_data i, s2)" "at V fd p F (archive post) s2"
    using at_read [OF laws r(2), of n] n(1) by auto
  have "map (char_of \<circ> unat) (it_data i) = info" unfolding i(3) text_bytes_def by (rule map_bytes_text)
  moreover have "takeWhile (\<lambda>c. c \<noteq> NUL) info = info" using i(4) by (auto simp: c_string_def takeWhile_eq_all_conv)
  moreover have "take (nat (int n)) (it_data i) = it_data i" using n(1) by simp
  ultimately have "find_meta C fd s = Some (Some info, s2)"
    unfolding find_meta.simps [of C fd s] r(1) using i(2) n s2(1)
    by (simp add: parse_header(2) [OF i(1)] size info_item_def)
  then show ?case using s2(2) by (simp add: at_def)
next
  case (Cons e es)
  have "\<exists>s1. find_meta C fd s = find_meta C fd s1 \<and> at V fd p F (archive (es @ i # post)) s1"
    using Cons.prems by (intro find_meta_skips [OF laws]) simp_all
  then show ?case using Cons.IH Cons.prems(1) by auto
qed

lemma register_law:
  assumes laws: "lawful C V" "append_law C V" and line: "length (db_line nm v ip) < 512"
  shows "\<exists>s'. register_package C (Some nm) (Some v) (Some ip) s = Some s' \<and> files V s' = (files V s)(PKG_DB_PATH \<mapsto>
    (case files V s PKG_DB_PATH of None \<Rightarrow> [] | Some c \<Rightarrow> c) @ text_bytes (db_line nm v ip))"
proof -
  obtain fd s1 where o: "c_open C PKG_DB_PATH (O_WRONLY OR O_CREAT OR O_APPEND) s = (fd, s1)" "1 < fd"
    "files V s1 = (files V s)(PKG_DB_PATH \<mapsto> (case files V s PKG_DB_PATH of None \<Rightarrow> [] | Some c \<Rightarrow> c))" "target V s1 = (target V s)(fd \<mapsto> PKG_DB_PATH)"
    using laws(2) unfolding append_law_def by meson
  have t: "target V s1 fd = Some PKG_DB_PATH" "files V s1 PKG_DB_PATH = Some (case files V s PKG_DB_PATH of None \<Rightarrow> [] | Some c \<Rightarrow> c)"
    using o by simp_all
  obtain s2 where w: "c_write C fd (text_bytes (db_line nm v ip)) s1 = (int (length (text_bytes (db_line nm v ip))), s2)"
    "files V s2 = (files V s1)(PKG_DB_PATH \<mapsto> (case files V s PKG_DB_PATH of None \<Rightarrow> [] | Some c \<Rightarrow> c) @ text_bytes (db_line nm v ip))"
    by (rule lawful_write [OF laws(1) t])
  have "register_package C (Some nm) (Some v) (Some ip) s = Some (snd (c_close C fd s2))"
    using o(1,2) w(1) line by (simp add: register_package_def text_bytes_def)
  then show ?thesis using w(2) o(3) by (auto simp: lawful_close [OF laws(1)])
qed

subsection \<open>The whole installation\<close>

definition installed :: "string \<Rightarrow> pkg_item list \<Rightarrow> string \<Rightarrow> (string \<Rightarrow> u8 list option) \<Rightarrow> string \<Rightarrow> u8 list option" where
  "installed ip es line F =
     (let G = fold (unpack ip) es F
      in G(PKG_DB_PATH \<mapsto> (case G PKG_DB_PATH of None \<Rightarrow> [] | Some c \<Rightarrow> c) @ text_bytes line))"



definition demo_kvs :: "(string \<times> string) list" where
  "demo_kvs = [(''name'', ''x''), (''version'', ''1''), (''install_path'', ''/opt'')]"

definition demo_file :: pkg_item where "demo_file = \<lparr>it_name = ''a'', it_data = [7, 8], it_meta = False\<rparr>"
definition demo_info :: pkg_item where
  "demo_info = \<lparr>it_name = ''meta/info.txt'', it_data = text_bytes (info_text demo_kvs), it_meta = True\<rparr>"

definition demo_system :: user_fs where
  "demo_system = \<lparr>uf_files = [''/x.kpkg'' \<mapsto> archive [demo_file, demo_info]], uf_left = (\<lambda>_. None), uf_target = (\<lambda>_. None), uf_next = 2\<rparr>"

lemma demo_items: "item_ok demo_file" "item_ok demo_info" "info_item demo_info" "\<not> info_item demo_file" "target_ok ''/x.kpkg'' ''/opt'' demo_file"
    "target_ok ''/x.kpkg'' ''/opt'' demo_info" "pairs_ok demo_kvs" "length (info_text demo_kvs) < 512"
  by (simp_all add: demo_file_def demo_info_def demo_kvs_def item_ok_def info_item_def target_ok_def entry_target_def c_string_def
      text_bytes_def info_text_def pairs_ok_def key_ok_def line_end_def)


end
