(* ===== verification/Ide_Controller.thy ===== *)
theory Ide_Controller
  imports Fs_Disk Kyrofs Kstring Pci
begin

section \<open>The IDE driver at the registers (ide.c)\<close>

text \<open>
  The port accesses of the driver, on a controller that is a parameter: what reading and writing a port does is the
  record \<open>ata_bus\<close>. \<open>ata_laws\<close> states what the ATA standard says of a controller with one drive, and the lemmas
  show that over it the driver's transfers are the sector transfers of the theory Ide. The handlers that register the
  device and its partitions and answer requests are here too.
\<close>

definition ATA_PRIMARY_DATA :: u16 where "ATA_PRIMARY_DATA = 0x1F0"
definition ATA_PRIMARY_SECCOUNT :: u16 where "ATA_PRIMARY_SECCOUNT = 0x1F2"
definition ATA_PRIMARY_LBA_LO :: u16 where "ATA_PRIMARY_LBA_LO = 0x1F3"
definition ATA_PRIMARY_LBA_MID :: u16 where "ATA_PRIMARY_LBA_MID = 0x1F4"
definition ATA_PRIMARY_LBA_HI :: u16 where "ATA_PRIMARY_LBA_HI = 0x1F5"
definition ATA_PRIMARY_DRIVE_HEAD :: u16 where "ATA_PRIMARY_DRIVE_HEAD = 0x1F6"
definition ATA_PRIMARY_COMMAND :: u16 where "ATA_PRIMARY_COMMAND = 0x1F7"
definition ATA_PRIMARY_STATUS :: u16 where "ATA_PRIMARY_STATUS = 0x1F7"

definition ATA_SR_BSY :: u8 where "ATA_SR_BSY = 0x80"
definition ATA_SR_DF :: u8 where "ATA_SR_DF = 0x20"
definition ATA_SR_DRQ :: u8 where "ATA_SR_DRQ = 0x08"
definition ATA_SR_ERR :: u8 where "ATA_SR_ERR = 0x01"

definition ATA_CMD_READ_PIO :: u8 where "ATA_CMD_READ_PIO = 0x20"
definition ATA_CMD_WRITE_PIO :: u8 where "ATA_CMD_WRITE_PIO = 0x30"
definition ATA_CMD_IDENTIFY :: u8 where "ATA_CMD_IDENTIFY = 0xEC"
definition ATA_CMD_CACHE_FLUSH :: u8 where "ATA_CMD_CACHE_FLUSH = 0xE7"

definition ATA_POLLS :: nat where "ATA_POLLS = 100000"

text \<open>Words transferred are the bytes they are in memory.\<close>

record 'h ata_bus =
  bus_inb :: "u16 \<Rightarrow> 'h \<Rightarrow> u8 \<times> 'h"
  bus_outb :: "u16 \<Rightarrow> u8 \<Rightarrow> 'h \<Rightarrow> 'h"
  bus_insw :: "u16 \<Rightarrow> nat \<Rightarrow> 'h \<Rightarrow> u8 list \<times> 'h"
  bus_outsw :: "u16 \<Rightarrow> u8 list \<Rightarrow> 'h \<Rightarrow> 'h"

subsection \<open>Transfers\<close>

fun wait_polls :: "'h ata_bus \<Rightarrow> nat \<Rightarrow> 'h \<Rightarrow> int \<times> 'h" where
  "wait_polls B 0 h = (-1, h)"
| "wait_polls B (Suc n) h =
     (case bus_inb B ATA_PRIMARY_STATUS h of (v, h1) \<Rightarrow> if v AND ATA_SR_BSY = 0 then (0, h1) else wait_polls B n h1)"

definition ide_wait_for_ready :: "'h ata_bus \<Rightarrow> 'h \<Rightarrow> int \<times> 'h" where
  "ide_wait_for_ready B h = wait_polls B ATA_POLLS h"

text \<open>The registers of a transfer, and its command.\<close>

definition ata_start :: "'h ata_bus \<Rightarrow> u8 \<Rightarrow> u32 \<Rightarrow> u8 \<Rightarrow> u8 \<Rightarrow> 'h \<Rightarrow> 'h" where
  "ata_start B drive lba num_sectors cmd h =
     fold (\<lambda>(port, v). bus_outb B port v)
       [(ATA_PRIMARY_DRIVE_HEAD, 0xE0 OR push_bit 4 drive OR (ucast (drop_bit 24 lba) AND 0x0F)),
        (ATA_PRIMARY_SECCOUNT, num_sectors),
        (ATA_PRIMARY_LBA_LO, ucast (lba AND 0xFF)),
        (ATA_PRIMARY_LBA_MID, ucast (drop_bit 8 lba AND 0xFF)),
        (ATA_PRIMARY_LBA_HI, ucast (drop_bit 16 lba AND 0xFF)),
        (ATA_PRIMARY_COMMAND, cmd)] h"

text \<open>A sector is ready, or the transfer failed.\<close>

definition ata_sector_ready :: "'h ata_bus \<Rightarrow> 'h \<Rightarrow> bool \<times> 'h" where
  "ata_sector_ready B h =
     (let (r, h1) = ide_wait_for_ready B h
      in if r \<noteq> 0 then (False, h1)
         else let (v, h2) = bus_inb B ATA_PRIMARY_STATUS h1 in (v AND (ATA_SR_DF OR ATA_SR_ERR) = 0, h2))"

fun ata_read_loop :: "'h ata_bus \<Rightarrow> nat \<Rightarrow> 'h \<Rightarrow> u32 \<times> u8 list \<times> 'h" where
  "ata_read_loop B 0 h = (0, [], h)"
| "ata_read_loop B (Suc n) h =
     (case ata_sector_ready B h of (ready, h1) \<Rightarrow>
       if \<not> ready then (-1, [], h1)
       else (case bus_insw B ATA_PRIMARY_DATA 256 h1 of (bytes, h2) \<Rightarrow>
              (case ata_read_loop B n h2 of (rc, rest, h3) \<Rightarrow> (rc, bytes @ rest, h3))))"

definition ata_read_sectors :: "'h ata_bus \<Rightarrow> bool \<Rightarrow> u8 \<Rightarrow> u32 \<Rightarrow> u8 \<Rightarrow> 'h \<Rightarrow> u32 \<times> u8 list \<times> 'h" where
  "ata_read_sectors B present drive lba num_sectors h =
     (if drive \<noteq> 0 \<or> \<not> present then (-1, [], h)
      else let (r, h1) = ide_wait_for_ready B h
           in if r \<noteq> 0 then (-1, [], h1)
              else ata_read_loop B (unat num_sectors) (ata_start B drive lba num_sectors ATA_CMD_READ_PIO h1))"

fun ata_write_loop :: "'h ata_bus \<Rightarrow> nat \<Rightarrow> u8 list \<Rightarrow> 'h \<Rightarrow> u32 \<times> 'h" where
  "ata_write_loop B 0 bytes h =
     (let (r, h1) = ide_wait_for_ready B (bus_outb B ATA_PRIMARY_COMMAND ATA_CMD_CACHE_FLUSH h)
      in (if r \<noteq> 0 then -1 else 0, h1))"
| "ata_write_loop B (Suc n) bytes h =
     (case ata_sector_ready B h of (ready, h1) \<Rightarrow>
       if \<not> ready then (-1, h1)
       else ata_write_loop B n (drop 512 bytes) (bus_outsw B ATA_PRIMARY_DATA (take 512 bytes) h1))"

definition ata_write_sectors :: "'h ata_bus \<Rightarrow> bool \<Rightarrow> u8 \<Rightarrow> u32 \<Rightarrow> u8 \<Rightarrow> u8 list \<Rightarrow> 'h \<Rightarrow> (u32 \<times> 'h) option" where
  "ata_write_sectors B present drive lba num_sectors bytes h =
     (if drive \<noteq> 0 \<or> \<not> present then Some (-1, h)
      else let (r, h1) = ide_wait_for_ready B h
           in if r \<noteq> 0 then Some (-1, h1)
              else if length bytes < 512 * unat num_sectors then None
              else Some (ata_write_loop B (unat num_sectors) bytes (ata_start B drive lba num_sectors ATA_CMD_WRITE_PIO h1)))"

subsection \<open>The standard\<close>

datatype ata_phase = Ata_idle | Ata_reading nat nat | Ata_writing nat nat

text \<open>
  What can be said of a state of the controller: the sectors of the drive, the address registers, and the transfer under
  way with the next sector and the number of those left. \<open>v_ok\<close> are the sectors the drive can transfer.
\<close>

record 'h ata_view =
  v_sect :: "'h \<Rightarrow> nat \<Rightarrow> u8 list"
  v_reg :: "'h \<Rightarrow> u16 \<Rightarrow> u8"
  v_phase :: "'h \<Rightarrow> ata_phase"
  v_ok :: "nat \<Rightarrow> bool"

text \<open>Nothing is under way, or what was under way has failed.\<close>

definition ata_idle :: "'h ata_view \<Rightarrow> 'h \<Rightarrow> bool" where
  "ata_idle V h \<longleftrightarrow> (case v_phase V h of Ata_idle \<Rightarrow> True | Ata_reading a n \<Rightarrow> \<not> v_ok V a | Ata_writing a n \<Rightarrow> \<not> v_ok V a)"

definition ata_address :: "(u16 \<Rightarrow> u8) \<Rightarrow> nat" where
  "ata_address r = unat (ucast (r ATA_PRIMARY_LBA_LO) OR push_bit 8 (ucast (r ATA_PRIMARY_LBA_MID))
     OR push_bit 16 (ucast (r ATA_PRIMARY_LBA_HI)) OR push_bit 24 (ucast (r ATA_PRIMARY_DRIVE_HEAD AND 0x0F)) :: u32)"

text \<open>A count of 0 stands for 256 sectors.\<close>

definition ata_count :: "(u16 \<Rightarrow> u8) \<Rightarrow> nat" where
  "ata_count r = (if r ATA_PRIMARY_SECCOUNT = 0 then 256 else unat (r ATA_PRIMARY_SECCOUNT))"

definition same_ata :: "'h ata_view \<Rightarrow> 'h \<Rightarrow> 'h \<Rightarrow> bool" where
  "same_ata V h h' \<longleftrightarrow> v_sect V h' = v_sect V h \<and> v_reg V h' = v_reg V h \<and> v_phase V h' = v_phase V h"

text \<open>The status: reading it changes nothing, a busy controller is done in time, then the error bits are those of the
  sector that is due.\<close>

definition status_law :: "'h ata_bus \<Rightarrow> 'h ata_view \<Rightarrow> bool" where
  "status_law B V \<longleftrightarrow>
     (\<forall>h. same_ata V h (snd (bus_inb B ATA_PRIMARY_STATUS h)))
   \<and> (\<forall>h. fst (wait_polls B ATA_POLLS h) = 0)
   \<and> (\<forall>h v h1 a n. bus_inb B ATA_PRIMARY_STATUS h = (v, h1) \<and> v AND ATA_SR_BSY = 0
        \<and> (v_phase V h = Ata_reading a (Suc n) \<or> v_phase V h = Ata_writing a (Suc n)) \<longrightarrow>
        (fst (bus_inb B ATA_PRIMARY_STATUS h1) AND (ATA_SR_DF OR ATA_SR_ERR) = 0 \<longleftrightarrow> v_ok V a))"

definition data_law :: "'h ata_bus \<Rightarrow> 'h ata_view \<Rightarrow> bool" where
  "data_law B V \<longleftrightarrow>
     (\<forall>h a n. v_phase V h = Ata_reading a (Suc n) \<and> v_ok V a \<longrightarrow>
        (\<exists>h'. bus_insw B ATA_PRIMARY_DATA 256 h = (v_sect V h a, h') \<and> v_sect V h' = v_sect V h
           \<and> v_phase V h' = (if n = 0 then Ata_idle else Ata_reading (Suc a) n)))
   \<and> (\<forall>h a n bytes. v_phase V h = Ata_writing a (Suc n) \<and> v_ok V a \<and> length bytes = 512 \<longrightarrow>
        v_sect V (bus_outsw B ATA_PRIMARY_DATA bytes h) = (v_sect V h)(a := bytes)
      \<and> v_phase V (bus_outsw B ATA_PRIMARY_DATA bytes h) = (if n = 0 then Ata_idle else Ata_writing (Suc a) n))"

definition register_law :: "'h ata_bus \<Rightarrow> 'h ata_view \<Rightarrow> bool" where
  "register_law B V \<longleftrightarrow>
     (\<forall>h port v. ata_idle V h \<and> port \<in> {ATA_PRIMARY_SECCOUNT, ATA_PRIMARY_LBA_LO, ATA_PRIMARY_LBA_MID, ATA_PRIMARY_LBA_HI, ATA_PRIMARY_DRIVE_HEAD} \<longrightarrow>
        v_sect V (bus_outb B port v h) = v_sect V h \<and> v_phase V (bus_outb B port v h) = v_phase V h
      \<and> v_reg V (bus_outb B port v h) = (v_reg V h)(port := v))
   \<and> (\<forall>h cmd. ata_idle V h \<longrightarrow> v_sect V (bus_outb B ATA_PRIMARY_COMMAND cmd h) = v_sect V h)
   \<and> (\<forall>h. ata_idle V h \<and> v_reg V h ATA_PRIMARY_DRIVE_HEAD AND 0x50 = 0x40 \<longrightarrow>
        v_phase V (bus_outb B ATA_PRIMARY_COMMAND ATA_CMD_READ_PIO h) = Ata_reading (ata_address (v_reg V h)) (ata_count (v_reg V h))
      \<and> v_phase V (bus_outb B ATA_PRIMARY_COMMAND ATA_CMD_WRITE_PIO h) = Ata_writing (ata_address (v_reg V h)) (ata_count (v_reg V h)))
   \<and> (\<forall>h. ata_idle V h \<longrightarrow> v_phase V (bus_outb B ATA_PRIMARY_COMMAND ATA_CMD_CACHE_FLUSH h) = Ata_idle)"

definition ata_laws :: "'h ata_bus \<Rightarrow> 'h ata_view \<Rightarrow> bool" where
  "ata_laws B V \<longleftrightarrow> status_law B V \<and> data_law B V \<and> register_law B V"

text \<open>The drive of the theory Ide that a controller holds.\<close>

definition drive_of :: "'h ata_view \<Rightarrow> bool \<Rightarrow> 'h \<Rightarrow> disk" where
  "drive_of V present h = \<lparr>primary_master_present = present, sect = v_sect V h, sect_ok = v_ok V\<rparr>"

subsection \<open>Refinement\<close>

lemma wait_law:
  assumes "ata_laws B V"
  obtains h' v h0 where "ide_wait_for_ready B h = (0, h')" "same_ata V h h'" "bus_inb B ATA_PRIMARY_STATUS h0 = (v, h')"
    "v AND ATA_SR_BSY = 0" "same_ata V h h0"
proof -
  have same: "same_ata V h (snd (bus_inb B ATA_PRIMARY_STATUS h))" for h
    using assms by (simp add: ata_laws_def status_law_def)
  have "\<exists>h' v h0. wait_polls B n h = (0, h') \<and> same_ata V h h' \<and> bus_inb B ATA_PRIMARY_STATUS h0 = (v, h') \<and> v AND ATA_SR_BSY = 0 \<and> same_ata V h h0"
    if "fst (wait_polls B n h) = 0" for n
    using that
  proof (induction n arbitrary: h)
    case (Suc n)
    obtain v h1 where r: "bus_inb B ATA_PRIMARY_STATUS h = (v, h1)" by force
    have s: "same_ata V h h1" using same [of h] r by simp
    show ?case
    proof (cases "v AND ATA_SR_BSY = 0")
      case True
      then show ?thesis using r s by (auto simp: same_ata_def)
    next
      case False
      then have "fst (wait_polls B n h1) = 0" using Suc.prems r by simp
      from Suc.IH [OF this] obtain h' v' h0 where "wait_polls B n h1 = (0, h')" "same_ata V h1 h'"
        "bus_inb B ATA_PRIMARY_STATUS h0 = (v', h')" "v' AND ATA_SR_BSY = 0" "same_ata V h1 h0" by blast
      then show ?thesis using False r s by (auto simp: same_ata_def)
    qed
  qed simp
  moreover have "fst (wait_polls B ATA_POLLS h) = 0" using assms by (simp add: ata_laws_def status_law_def)
  ultimately show thesis using that unfolding ide_wait_for_ready_def by blast
qed

lemma sector_ready_law:
  assumes laws: "ata_laws B V" and p: "v_phase V h = Ata_reading a (Suc n) \<or> v_phase V h = Ata_writing a (Suc n)"
  obtains h' where "ata_sector_ready B h = (v_ok V a, h')" "same_ata V h h'"
proof -
  obtain h1 v h0 where w: "ide_wait_for_ready B h = (0, h1)" "same_ata V h h1" "bus_inb B ATA_PRIMARY_STATUS h0 = (v, h1)"
    "v AND ATA_SR_BSY = 0" "same_ata V h h0" by (rule wait_law [OF laws])
  obtain u h2 where r: "bus_inb B ATA_PRIMARY_STATUS h1 = (u, h2)" by force
  have "same_ata V h1 h2" using laws r by (simp add: ata_laws_def status_law_def) (metis snd_conv)
  moreover have "v_phase V h0 = Ata_reading a (Suc n) \<or> v_phase V h0 = Ata_writing a (Suc n)" using p w(5) by (simp add: same_ata_def)
  then have "fst (bus_inb B ATA_PRIMARY_STATUS h1) AND (ATA_SR_DF OR ATA_SR_ERR) = 0 \<longleftrightarrow> v_ok V a"
    using laws w(3,4) unfolding ata_laws_def status_law_def by blast
  ultimately show thesis using that w(1,2) r by (simp add: ata_sector_ready_def same_ata_def)
qed


lemma byte_masks: "(0xFF :: u32) = mask 8" "(0x0F :: u8) = mask 4" "(0x0FFFFFFF :: u32) = mask 28"
  by (simp_all add: mask_eq_exp_minus_1)

lemma split_bytes: "(ucast (ucast (lba AND mask 8) :: u8) :: u32) OR push_bit 8 (ucast (ucast (drop_bit 8 lba AND mask 8) :: u8))
    OR push_bit 16 (ucast (ucast (drop_bit 16 lba AND mask 8) :: u8)) OR push_bit 24 (ucast ((ucast (drop_bit 24 lba) :: u8) AND mask 4)) = (lba :: u32) AND mask 28" (is "?l = ?r")
proof (rule bit_word_eqI)
  fix n :: nat assume n: "n < LENGTH(32)"
  have 1: "bit (ucast (ucast (lba AND mask 8) :: u8) :: u32) n \<longleftrightarrow> n < 8 \<and> bit lba n" using n by (auto simp: bit_simps)
  have 2: "bit (push_bit 8 (ucast (ucast (drop_bit 8 lba AND mask 8) :: u8)) :: u32) n \<longleftrightarrow> 8 \<le> n \<and> n < 16 \<and> bit lba n" using n by (auto simp: bit_simps)
  have 3: "bit (push_bit 16 (ucast (ucast (drop_bit 16 lba AND mask 8) :: u8)) :: u32) n \<longleftrightarrow> 16 \<le> n \<and> n < 24 \<and> bit lba n" using n by (auto simp: bit_simps)
  have 4: "bit (push_bit 24 (ucast ((ucast (drop_bit 24 lba) :: u8) AND mask 4)) :: u32) n \<longleftrightarrow> 24 \<le> n \<and> n < 28 \<and> bit lba n" using n by (auto simp: bit_simps)
  have "bit ?r n \<longleftrightarrow> n < 28 \<and> bit lba n" by (auto simp: bit_simps)
  then show "bit ?l n \<longleftrightarrow> bit ?r n" unfolding bit_or_iff 1 2 3 4 by auto
qed

lemma address_bits:
  assumes "r ATA_PRIMARY_LBA_LO = ucast (lba AND 0xFF)" "r ATA_PRIMARY_LBA_MID = ucast (drop_bit 8 lba AND 0xFF)"
    "r ATA_PRIMARY_LBA_HI = ucast (drop_bit 16 lba AND 0xFF)" "r ATA_PRIMARY_DRIVE_HEAD AND 0x0F = ucast (drop_bit 24 lba) AND 0x0F"
  shows "ata_address r = lba28 lba"
proof -
  have "(ucast (ucast (lba AND 0xFF) :: u8) :: u32) OR push_bit 8 (ucast (ucast (drop_bit 8 lba AND 0xFF) :: u8))
    OR push_bit 16 (ucast (ucast (drop_bit 16 lba AND 0xFF) :: u8)) OR push_bit 24 (ucast ((ucast (drop_bit 24 lba) :: u8) AND 0x0F)) = lba AND 0x0FFFFFFF"
    unfolding byte_masks by (rule split_bytes)
  then show ?thesis unfolding ata_address_def lba28_def assms by simp
qed

lemma head_bits:
  "((0xE0 :: u8) OR push_bit 4 0 OR (x AND 0x0F)) AND 0x50 = 0x40" "((0xE0 :: u8) OR push_bit 4 0 OR (x AND 0x0F)) AND 0x0F = x AND 0x0F"
proof -
  have e: "((0xE0 :: u8) OR push_bit 4 0 OR (x AND 0x0F)) AND m = (0xE0 AND m) OR (x AND (0x0F AND m))" for m
    by (simp only: push_bit_of_0 or.right_neutral bit.conj_disj_distrib2 and.assoc) simp
  show "((0xE0 :: u8) OR push_bit 4 0 OR (x AND 0x0F)) AND 0x50 = 0x40" unfolding e by simp
  show "((0xE0 :: u8) OR push_bit 4 0 OR (x AND 0x0F)) AND 0x0F = x AND 0x0F" unfolding e by simp
qed

text \<open>The six writes of a command, one by one.\<close>

definition regs_set :: "'h ata_view \<Rightarrow> 'h \<Rightarrow> (u16 \<Rightarrow> u8) \<Rightarrow> 'h \<Rightarrow> bool" where
  "regs_set V h r h' \<longleftrightarrow> ata_idle V h' \<and> v_sect V h' = v_sect V h \<and> v_reg V h' = r"

lemma register_step:
  assumes "ata_laws B V" "ata_idle V h"
    "port \<in> {ATA_PRIMARY_SECCOUNT, ATA_PRIMARY_LBA_LO, ATA_PRIMARY_LBA_MID, ATA_PRIMARY_LBA_HI, ATA_PRIMARY_DRIVE_HEAD}"
  shows "v_sect V (bus_outb B port v h) = v_sect V h" "v_reg V (bus_outb B port v h) = (v_reg V h)(port := v)"
    "ata_idle V (bus_outb B port v h)"
  using assms unfolding ata_laws_def register_law_def ata_idle_def by auto

lemma regs_step:
  assumes "ata_laws B V" "regs_set V h r h'"
    "port \<in> {ATA_PRIMARY_SECCOUNT, ATA_PRIMARY_LBA_LO, ATA_PRIMARY_LBA_MID, ATA_PRIMARY_LBA_HI, ATA_PRIMARY_DRIVE_HEAD}"
  shows "regs_set V h (r(port := v)) (bus_outb B port v h')"
  using assms(2) register_step [OF assms(1) _ assms(3)] unfolding regs_set_def by metis

lemma ata_start_law:
  assumes laws: "ata_laws B V" and i: "ata_idle V h"
  shows "v_sect V (ata_start B 0 lba num cmd h) = v_sect V h"
    and "cmd = ATA_CMD_READ_PIO \<Longrightarrow> v_phase V (ata_start B 0 lba num cmd h) = Ata_reading (lba28 lba) (if num = 0 then 256 else unat num)"
    and "cmd = ATA_CMD_WRITE_PIO \<Longrightarrow> v_phase V (ata_start B 0 lba num cmd h) = Ata_writing (lba28 lba) (if num = 0 then 256 else unat num)"
proof -
  define head where "head = (0xE0 OR push_bit 4 0 OR (ucast (drop_bit 24 lba) AND 0x0F) :: u8)"
  define lo where "lo = (ucast (lba AND 0xFF) :: u8)"
  define mid where "mid = (ucast (drop_bit 8 lba AND 0xFF) :: u8)"
  define hi where "hi = (ucast (drop_bit 16 lba AND 0xFF) :: u8)"
  define r where "r = (v_reg V h)(ATA_PRIMARY_DRIVE_HEAD := head, ATA_PRIMARY_SECCOUNT := num, ATA_PRIMARY_LBA_LO := lo,
    ATA_PRIMARY_LBA_MID := mid, ATA_PRIMARY_LBA_HI := hi)"
  define h5 where "h5 = bus_outb B ATA_PRIMARY_LBA_HI hi (bus_outb B ATA_PRIMARY_LBA_MID mid (bus_outb B ATA_PRIMARY_LBA_LO lo
    (bus_outb B ATA_PRIMARY_SECCOUNT num (bus_outb B ATA_PRIMARY_DRIVE_HEAD head h))))"
  have e: "ata_start B 0 lba num cmd h = bus_outb B ATA_PRIMARY_COMMAND cmd h5"
    by (simp add: ata_start_def h5_def head_def lo_def mid_def hi_def)
  have "regs_set V h (v_reg V h) h" using i by (simp add: regs_set_def)
  then have "regs_set V h r h5" unfolding r_def h5_def by (intro regs_step [OF laws]) simp_all
  then have 5: "ata_idle V h5" "v_sect V h5 = v_sect V h" "v_reg V h5 = r" by (simp_all add: regs_set_def)
  have q: "r ATA_PRIMARY_DRIVE_HEAD = head" "r ATA_PRIMARY_SECCOUNT = num" "r ATA_PRIMARY_LBA_LO = lo" "r ATA_PRIMARY_LBA_MID = mid" "r ATA_PRIMARY_LBA_HI = hi"
    by (simp_all add: r_def ATA_PRIMARY_DRIVE_HEAD_def ATA_PRIMARY_SECCOUNT_def ATA_PRIMARY_LBA_LO_def ATA_PRIMARY_LBA_MID_def ATA_PRIMARY_LBA_HI_def)
  have a: "ata_address r = lba28 lba"
    by (rule address_bits) (simp_all only: q lo_def mid_def hi_def head_def head_bits(2))
  have c: "ata_count r = (if num = 0 then 256 else unat num)" unfolding ata_count_def q(2) ..
  have hb: "v_reg V h5 ATA_PRIMARY_DRIVE_HEAD AND 0x50 = 0x40" unfolding 5(3) q(1) head_def by (rule head_bits(1))
  have reg: "register_law B V" using laws by (simp add: ata_laws_def)
  show "v_sect V (ata_start B 0 lba num cmd h) = v_sect V h"
    using reg 5(1,2) unfolding e register_law_def by metis
  have "v_phase V (bus_outb B ATA_PRIMARY_COMMAND ATA_CMD_READ_PIO h5) = Ata_reading (ata_address r) (ata_count r)
      \<and> v_phase V (bus_outb B ATA_PRIMARY_COMMAND ATA_CMD_WRITE_PIO h5) = Ata_writing (ata_address r) (ata_count r)"
    using reg 5(1) hb unfolding register_law_def 5(3) [symmetric] by blast
  then show "cmd = ATA_CMD_READ_PIO \<Longrightarrow> v_phase V (ata_start B 0 lba num cmd h) = Ata_reading (lba28 lba) (if num = 0 then 256 else unat num)"
    "cmd = ATA_CMD_WRITE_PIO \<Longrightarrow> v_phase V (ata_start B 0 lba num cmd h) = Ata_writing (lba28 lba) (if num = 0 then 256 else unat num)"
    unfolding e a c by simp_all
qed

lemma ata_read_loop_law:
  assumes laws: "ata_laws B V"
  shows "v_phase V h = Ata_reading a (Suc n) \<Longrightarrow>
    \<exists>rc bytes h'. ata_read_loop B (Suc n) h = (rc, bytes, h') \<and> read_loop (drive_of V p h) a (Suc n) = (rc, bytes)
      \<and> ata_idle V h' \<and> v_sect V h' = v_sect V h"
proof (induction n arbitrary: a h)
  case 0
  obtain h1 where r: "ata_sector_ready B h = (v_ok V a, h1)" "same_ata V h h1" using sector_ready_law [OF laws] 0 by metis
  show ?case
  proof (cases "v_ok V a")
    case False
    then show ?thesis using r 0 by (simp add: drive_of_def same_ata_def ata_idle_def)
  next
    case True
    obtain h2 where "bus_insw B ATA_PRIMARY_DATA 256 h1 = (v_sect V h1 a, h2)" "v_sect V h2 = v_sect V h1" "v_phase V h2 = Ata_idle"
      using laws r(2) 0 True unfolding ata_laws_def data_law_def same_ata_def by metis
    then show ?thesis using r True by (simp add: drive_of_def same_ata_def ata_idle_def)
  qed
next
  case (Suc n)
  obtain h1 where r: "ata_sector_ready B h = (v_ok V a, h1)" "same_ata V h h1" using sector_ready_law [OF laws] Suc.prems by metis
  show ?case
  proof (cases "v_ok V a")
    case False
    then show ?thesis using r Suc.prems by (simp add: drive_of_def same_ata_def ata_idle_def)
  next
    case True
    have "v_phase V h1 = Ata_reading a (Suc (Suc n))" using r(2) Suc.prems by (simp add: same_ata_def)
    then obtain h2 where d: "bus_insw B ATA_PRIMARY_DATA 256 h1 = (v_sect V h1 a, h2)" "v_sect V h2 = v_sect V h1"
      "v_phase V h2 = Ata_reading (Suc a) (Suc n)"
      using laws True unfolding ata_laws_def data_law_def by (metis nat.distinct(1))
    from Suc.IH [OF d(3)] obtain rc bytes h' where i: "ata_read_loop B (Suc n) h2 = (rc, bytes, h')"
      "read_loop (drive_of V p h2) (Suc a) (Suc n) = (rc, bytes)" "ata_idle V h'" "v_sect V h' = v_sect V h2" by blast
    have "drive_of V p h2 = drive_of V p h" "v_sect V h2 = v_sect V h" using d(2) r(2) by (simp_all add: drive_of_def same_ata_def)
    then show ?thesis using True r d i
      by (subst ata_read_loop.simps, subst read_loop.simps) (simp add: drive_of_def same_ata_def del: ata_read_loop.simps read_loop.simps)
  qed
qed

lemma idle_same: "ata_idle V h \<Longrightarrow> same_ata V h h' \<Longrightarrow> ata_idle V h'"
  by (simp add: ata_idle_def same_ata_def)

lemma ata_read_refines:
  assumes laws: "ata_laws B V" and i: "ata_idle V h" and n: "num \<noteq> 0"
  shows "\<exists>h'. ata_read_sectors B present drive lba num h
      = (case ide_read_sectors (drive_of V present h) drive lba num of (rc, bytes) \<Rightarrow> (rc, bytes, h'))
    \<and> v_sect V h' = v_sect V h \<and> ata_idle V h'"
proof (cases "drive \<noteq> 0 \<or> \<not> present")
  case True
  then show ?thesis using i by (auto simp: ata_read_sectors_def ide_read_sectors_def drive_of_def)
next
  case False
  obtain h1 where w: "ide_wait_for_ready B h = (0, h1)" "same_ata V h h1" using wait_law [OF laws] by metis
  let ?h2 = "ata_start B 0 lba num ATA_CMD_READ_PIO h1"
  obtain m where m: "unat num = Suc m" using n by (cases "unat num") (auto simp: unat_eq_0)
  have p: "v_phase V ?h2 = Ata_reading (lba28 lba) (Suc m)" "v_sect V ?h2 = v_sect V h1"
    using ata_start_law [OF laws idle_same [OF i w(2)]] n m by simp_all
  from ata_read_loop_law [OF laws p(1)] obtain rc bytes h' where r: "ata_read_loop B (Suc m) ?h2 = (rc, bytes, h')"
    "read_loop (drive_of V present ?h2) (lba28 lba) (Suc m) = (rc, bytes)" "ata_idle V h'" "v_sect V h' = v_sect V ?h2" by blast
  have "drive_of V present ?h2 = drive_of V present h" using p(2) w(2) by (simp add: drive_of_def same_ata_def)
  then show ?thesis using False w r p(2) m
    by (auto simp: ata_read_sectors_def ide_read_sectors_def drive_of_def same_ata_def simp del: ata_read_loop.simps read_loop.simps)
qed


lemma flush_law:
  assumes laws: "ata_laws B V" and i: "ata_idle V h"
  obtains h' where "ide_wait_for_ready B (bus_outb B ATA_PRIMARY_COMMAND ATA_CMD_CACHE_FLUSH h) = (0, h')" "ata_idle V h'" "v_sect V h' = v_sect V h"
proof -
  let ?h = "bus_outb B ATA_PRIMARY_COMMAND ATA_CMD_CACHE_FLUSH h"
  have "v_sect V ?h = v_sect V h" "v_phase V ?h = Ata_idle"
    using laws i unfolding ata_laws_def register_law_def by blast+
  moreover obtain h' where "ide_wait_for_ready B ?h = (0, h')" "same_ata V ?h h'" using wait_law [OF laws] by metis
  ultimately show thesis using that by (simp add: same_ata_def ata_idle_def)
qed

lemma ata_write_loop_law:
  assumes laws: "ata_laws B V"
  shows "v_phase V h = (if n = 0 then Ata_idle else Ata_writing a n) \<Longrightarrow> 512 * n \<le> length bytes \<Longrightarrow>
    \<exists>rc h'. ata_write_loop B n bytes h = (rc, h') \<and> write_loop (drive_of V p h) a n bytes = (rc, drive_of V p h') \<and> ata_idle V h'"
proof (induction n arbitrary: a h bytes)
  case 0
  then have "ata_idle V h" by (simp add: ata_idle_def)
  from flush_law [OF laws this] obtain h' where
    "ide_wait_for_ready B (bus_outb B ATA_PRIMARY_COMMAND ATA_CMD_CACHE_FLUSH h) = (0, h')" "ata_idle V h'" "v_sect V h' = v_sect V h" .
  then show ?case by (simp add: drive_of_def)
next
  case (Suc n)
  have ph: "v_phase V h = Ata_writing a (Suc n)" using Suc.prems(1) by simp
  obtain h1 where r: "ata_sector_ready B h = (v_ok V a, h1)" "same_ata V h h1" using sector_ready_law [OF laws] ph by metis
  show ?case
  proof (cases "v_ok V a")
    case False
    then show ?thesis using r ph by (simp add: drive_of_def same_ata_def ata_idle_def)
  next
    case True
    let ?h2 = "bus_outsw B ATA_PRIMARY_DATA (take 512 bytes) h1"
    have len: "length (take 512 bytes) = 512" "512 * n \<le> length (drop 512 bytes)" using Suc.prems(2) by simp_all
    have "v_phase V h1 = Ata_writing a (Suc n)" using r(2) ph by (simp add: same_ata_def)
    then have d: "v_sect V ?h2 = (v_sect V h1)(a := take 512 bytes)" "v_phase V ?h2 = (if n = 0 then Ata_idle else Ata_writing (Suc a) n)"
      using laws True len(1) unfolding ata_laws_def data_law_def by blast+
    from Suc.IH [OF d(2) len(2)] obtain rc h' where i: "ata_write_loop B n (drop 512 bytes) ?h2 = (rc, h')"
      "write_loop (drive_of V p ?h2) (Suc a) n (drop 512 bytes) = (rc, drive_of V p h')" "ata_idle V h'" by blast
    have e: "drive_of V p ?h2 = (drive_of V p h)\<lparr>sect := (v_sect V h)(a := take 512 bytes)\<rparr>"
      using d(1) r(2) by (simp add: drive_of_def same_ata_def)
    have "ata_write_loop B (Suc n) bytes h = (rc, h')" using True r i(1) by (simp del: ata_write_loop.simps(1))
    moreover have "write_loop (drive_of V p h) a (Suc n) bytes = (rc, drive_of V p h')"
      using True i(2) unfolding e by (simp add: drive_of_def)
    ultimately show ?thesis using i(3) by blast
  qed
qed

lemma ata_write_refines:
  assumes laws: "ata_laws B V" and i: "ata_idle V h" and n: "num \<noteq> 0" and len: "512 * unat num \<le> length bytes"
  shows "\<exists>rc h'. ata_write_sectors B present drive lba num bytes h = Some (rc, h')
    \<and> ide_write_sectors (drive_of V present h) drive lba num bytes = Some (rc, drive_of V present h') \<and> ata_idle V h'"
proof (cases "drive \<noteq> 0 \<or> \<not> present")
  case True
  then show ?thesis using i by (auto simp: ata_write_sectors_def ide_write_sectors_def drive_of_def)
next
  case False
  obtain h1 where w: "ide_wait_for_ready B h = (0, h1)" "same_ata V h h1" using wait_law [OF laws] by metis
  let ?h2 = "ata_start B 0 lba num ATA_CMD_WRITE_PIO h1"
  have p: "v_phase V ?h2 = (if unat num = 0 then Ata_idle else Ata_writing (lba28 lba) (unat num))" "v_sect V ?h2 = v_sect V h1"
    using ata_start_law [OF laws idle_same [OF i w(2)]] n by (simp_all add: unat_eq_0)
  from ata_write_loop_law [OF laws p(1) len] obtain rc h' where r: "ata_write_loop B (unat num) bytes ?h2 = (rc, h')"
    "write_loop (drive_of V present ?h2) (lba28 lba) (unat num) bytes = (rc, drive_of V present h')" "ata_idle V h'" by blast
  have "drive_of V present ?h2 = drive_of V present h" using p(2) w(2) by (simp add: drive_of_def same_ata_def)
  moreover have "primary_master_present (drive_of V present h)" using False by (simp add: drive_of_def)
  ultimately show ?thesis using False w r len by (auto simp: ata_write_sectors_def ide_write_sectors_def)
qed

text \<open>A count of 0 asks the controller for 256 sectors, of which the driver takes none: the transfer stays open.\<close>

lemma zero_sectors_left_open:
  assumes laws: "ata_laws B V" and i: "ata_idle V h" and ok: "v_ok V (lba28 lba)"
  shows "\<exists>h'. ata_read_sectors B True 0 lba 0 h = (0, [], h') \<and> v_phase V h' = Ata_reading (lba28 lba) 256 \<and> \<not> ata_idle V h'"
proof -
  obtain h1 where w: "ide_wait_for_ready B h = (0, h1)" "same_ata V h h1" using wait_law [OF laws] by metis
  have "v_phase V (ata_start B 0 lba 0 ATA_CMD_READ_PIO h1) = Ata_reading (lba28 lba) 256"
    using ata_start_law(2) [OF laws idle_same [OF i w(2)], of ATA_CMD_READ_PIO lba 0] by simp
  then show ?thesis using w ok by (simp add: ata_read_sectors_def ata_idle_def)
qed

text \<open>C20: The transfers of the driver, register write by register write, are those of the sector model: over a controller
  that keeps to the standard, reading and writing any positive number of sectors gives the same result and the same bytes,
  errors in the middle included, leaves the same sectors, and leaves the controller ready for the next command.\<close>

theorem ide_transfers_refine:
  assumes "ata_laws B V" "ata_idle V h" "num \<noteq> 0" "512 * unat num \<le> length bytes"
  shows "(\<exists>rc data h'. ata_read_sectors B present drive lba num h = (rc, data, h')
      \<and> ide_read_sectors (drive_of V present h) drive lba num = (rc, data) \<and> v_sect V h' = v_sect V h \<and> ata_idle V h')
    \<and> (\<exists>rc h'. ata_write_sectors B present drive lba num bytes h = Some (rc, h')
      \<and> ide_write_sectors (drive_of V present h) drive lba num bytes = Some (rc, drive_of V present h') \<and> ata_idle V h')"
proof -
  obtain rc data where "ide_read_sectors (drive_of V present h) drive lba num = (rc, data)" by force
  with ata_read_refines [OF assms(1-3), of present drive lba] show ?thesis
    using ata_write_refines [OF assms, of present drive lba] by auto
qed

subsection \<open>A controller that keeps to the standard\<close>

text \<open>It is never busy; the drive has a bad sector at \<open>bad\<close>.\<close>

record ctl =
  ctl_sect :: "nat \<Rightarrow> u8 list"
  ctl_reg :: "u16 \<Rightarrow> u8"
  ctl_phase :: ata_phase

definition ctl_ok :: "nat \<Rightarrow> bool" where "ctl_ok a \<longleftrightarrow> a \<noteq> 9"

definition ctl_status :: "ctl \<Rightarrow> u8" where
  "ctl_status c = (case ctl_phase c of Ata_idle \<Rightarrow> 0x40
     | Ata_reading a n \<Rightarrow> if ctl_ok a then 0x48 else 0x41 | Ata_writing a n \<Rightarrow> if ctl_ok a then 0x48 else 0x41)"

definition ctl_out :: "u16 \<Rightarrow> u8 \<Rightarrow> ctl \<Rightarrow> ctl" where
  "ctl_out port v c =
     (if port = ATA_PRIMARY_COMMAND
      then if v = ATA_CMD_READ_PIO then c\<lparr>ctl_phase := Ata_reading (ata_address (ctl_reg c)) (ata_count (ctl_reg c))\<rparr>
           else if v = ATA_CMD_WRITE_PIO then c\<lparr>ctl_phase := Ata_writing (ata_address (ctl_reg c)) (ata_count (ctl_reg c))\<rparr>
           else c\<lparr>ctl_phase := Ata_idle\<rparr>
      else c\<lparr>ctl_reg := (ctl_reg c)(port := v)\<rparr>)"

definition ctl_bus :: "ctl ata_bus" where
  "ctl_bus = \<lparr>bus_inb = (\<lambda>port c. (if port = ATA_PRIMARY_STATUS then ctl_status c else ctl_reg c port, c)),
     bus_outb = ctl_out,
     bus_insw = (\<lambda>port n c. case ctl_phase c of
         Ata_reading a (Suc m) \<Rightarrow> (ctl_sect c a, c\<lparr>ctl_phase := if m = 0 then Ata_idle else Ata_reading (Suc a) m\<rparr>)
       | _ \<Rightarrow> (replicate (2 * n) 0, c)),
     bus_outsw = (\<lambda>port bytes c. case ctl_phase c of
         Ata_writing a (Suc m) \<Rightarrow> c\<lparr>ctl_sect := (ctl_sect c)(a := bytes), ctl_phase := if m = 0 then Ata_idle else Ata_writing (Suc a) m\<rparr>
       | _ \<Rightarrow> c)\<rparr>"

definition ctl_view :: "ctl ata_view" where
  "ctl_view = \<lparr>v_sect = ctl_sect, v_reg = ctl_reg, v_phase = ctl_phase, v_ok = ctl_ok\<rparr>"

lemma ctl_laws: "ata_laws ctl_bus ctl_view"
proof -
  have busy: "ctl_status c AND ATA_SR_BSY = 0" for c
    by (simp add: ctl_status_def ATA_SR_BSY_def split: ata_phase.split)
  have inb: "bus_inb ctl_bus ATA_PRIMARY_STATUS c = (ctl_status c, c)" for c by (simp add: ctl_bus_def)
  have "wait_polls ctl_bus (Suc n) c = (0, c)" for n c by (simp add: inb busy)
  from this [of 99999] have "wait_polls ctl_bus ATA_POLLS c = (0, c)" for c by (simp add: ATA_POLLS_def)
  then have "status_law ctl_bus ctl_view"
    unfolding status_law_def inb by (auto simp: same_ata_def busy) (auto simp: ctl_view_def ctl_status_def ATA_SR_DF_def ATA_SR_ERR_def split: if_splits)
  moreover have "data_law ctl_bus ctl_view" by (simp add: data_law_def ctl_bus_def ctl_view_def)
  moreover have "register_law ctl_bus ctl_view"
    by (auto simp: register_law_def ctl_bus_def ctl_view_def ctl_out_def ATA_PRIMARY_DRIVE_HEAD_def ATA_PRIMARY_SECCOUNT_def ATA_PRIMARY_LBA_LO_def
        ATA_PRIMARY_LBA_MID_def ATA_PRIMARY_LBA_HI_def ATA_PRIMARY_COMMAND_def ATA_CMD_READ_PIO_def ATA_CMD_WRITE_PIO_def ATA_CMD_CACHE_FLUSH_def)
  ultimately show ?thesis by (simp add: ata_laws_def)
qed

definition ctl_demo :: ctl where
  "ctl_demo = \<lparr>ctl_sect = (\<lambda>a. replicate 512 (of_nat a)), ctl_reg = (\<lambda>_. 0), ctl_phase = Ata_idle\<rparr>"

theorem ide_transfers_refine_witness:
  "\<exists>h'. ata_write_sectors ctl_bus True 0 7 2 (replicate 1024 5) ctl_demo = Some (0, h')
    \<and> ctl_sect h' 7 = replicate 512 5 \<and> ctl_sect h' 8 = replicate 512 5 \<and> ata_idle ctl_view h'"
proof -
  have i: "ata_idle ctl_view ctl_demo" by (simp add: ata_idle_def ctl_view_def ctl_demo_def)
  have l: "lba28 7 = 7" by (simp add: lba28_def)
  from ide_transfers_refine [OF ctl_laws i, of 2 "replicate 1024 5" True 0 7]
  obtain rc h' where w: "ata_write_sectors ctl_bus True 0 7 2 (replicate 1024 5) ctl_demo = Some (rc, h')" "ata_idle ctl_view h'"
    "ide_write_sectors (drive_of ctl_view True ctl_demo) 0 7 2 (replicate 1024 5) = Some (rc, drive_of ctl_view True h')" by auto
  have "unat (2 :: u8) = Suc (Suc 0)" by simp
  then have "rc = 0 \<and> ctl_sect h' = (ctl_sect ctl_demo)(7 := replicate 512 5, 8 := replicate 512 5)"
    using w(3) by (auto simp: ide_write_sectors_def drive_of_def l ctl_view_def ctl_ok_def numeral_2_eq_2)
  then show ?thesis using w(1,2) by simp
qed

end
