(* ===== verification/Ide_Driver.thy ===== *)
theory Ide_Driver
  imports Ide_Controller
begin

section \<open>Device nodes and requests of the IDE driver (ide.c)\<close>

text \<open>
  Finding the controller and the drive, the nodes \<open>/dev/sda\<close> and \<open>/dev/sda1\<close> to \<open>/dev/sda4\<close>, and the \<open>ioctl\<close> functions.
  \<open>block_node\<close> gives the device whose functions a node has, in place of those its file system gave it.
\<close>

definition ide_probe :: "config_space \<Rightarrow> pci_device \<Rightarrow> int" where
  "ide_probe cfg dev =
     (if d_vendor dev = 0 then 0
      else if pci_get_class (d_bus dev) (d_device dev) (d_func dev) cfg = 0x01
              \<and> pci_get_subclass (d_bus dev) (d_device dev) (d_func dev) cfg = 0x01 then 1 else 0)"

record 'h ide_state =
  ide_hw :: 'h
  ide_present :: bool
  ide_fs :: kyrofs
  block_node :: "nat \<Rightarrow> blockdev option"

text \<open>
  The steps the disk and the partitions share: a node is made below \<open>/dev\<close>, looked up, and gets the functions and the
  data of the device. The result says whether that was done.
\<close>

definition make_device_node :: "nat option \<Rightarrow> string \<Rightarrow> blockdev option \<Rightarrow> 'h ide_state \<Rightarrow> (bool \<times> 'h ide_state) option" where
  "make_device_node dev_dir name dev s = do {
     d \<leftarrow> dev_dir;
     (rc, fs1) \<leftarrow> kyrofs_create_node d name (VFS_FILE OR VFS_CHARDEVICE) (ide_fs s);
     if rc \<noteq> 0 then Some (False, s\<lparr>ide_fs := fs1\<rparr>)
     else do {
       node \<leftarrow> find_in (Some d) name fs1;
       case (node, dev) of
         (Some n, Some b) \<Rightarrow> do {
           x \<leftarrow> nodes fs1 n;
           Some (True, s\<lparr>ide_fs := set_node n (x\<lparr>node_flags := node_flags x OR VFS_CHARDEVICE, node_content := None\<rparr>) fs1,
                         block_node := (block_node s)(n \<mapsto> b)\<rparr>) }
       | _ \<Rightarrow> Some (False, s\<lparr>ide_fs := fs1\<rparr>) } }"

text \<open>\<open>part_data\<close> is the low half of the address of the block for the partition's data, if the heap has one.\<close>

definition ide_create_partition_node ::
  "nat option \<Rightarrow> nat \<Rightarrow> u32 \<Rightarrow> u32 \<Rightarrow> u8 \<Rightarrow> (nat \<Rightarrow> u32 option) \<Rightarrow> 'h ide_state \<Rightarrow> 'h ide_state option" where
  "ide_create_partition_node dev_dir partition_num lba_start len drive part_data s = do {
     name \<leftarrow> vksprintf ''sda%u'' [Slot (of_nat partition_num) None];
     map_option snd (make_device_node dev_dir name
       (map_option (Partition lba_start len drive) (part_data partition_num)) s) }"

fun create_partitions :: "nat option \<Rightarrow> (nat \<Rightarrow> u32 option) \<Rightarrow> (nat \<times> u32 \<times> u32) list \<Rightarrow> 'h ide_state \<Rightarrow> 'h ide_state option" where
  "create_partitions dev_dir part_data [] s = Some s"
| "create_partitions dev_dir part_data ((num, lba, len) # ps) s = do {
     s1 \<leftarrow> ide_create_partition_node dev_dir num lba len 0 part_data s;
     create_partitions dev_dir part_data ps s1 }"

text \<open>
  Reading the partition table: one sector through the read function of \<open>/dev/sda\<close>, whose success is 0. The message of
  the failed read reads it again.
\<close>

definition ide_scan_partitions :: "'h ata_bus \<Rightarrow> bool \<Rightarrow> (nat \<Rightarrow> u32 option) \<Rightarrow> 'h ide_state \<Rightarrow> 'h ide_state option" where
  "ide_scan_partitions B alloc part_data s =
     (if \<not> alloc then Some s
      else (case ata_read_sectors B (ide_present s) 0 0 1 (ide_hw s) of (rc, mbr, h1) \<Rightarrow>
        if rc \<noteq> 512 then Some (s\<lparr>ide_hw := snd (snd (ata_read_sectors B (ide_present s) 0 0 1 h1))\<rparr>)
        else if rd16 510 mbr \<noteq> Some 0xAA55 then Some (s\<lparr>ide_hw := h1\<rparr>)
        else do {
          dev_dir \<leftarrow> find_in (vfs_root (ide_fs s)) ''dev'' (ide_fs s);
          if dev_dir = None then Some (s\<lparr>ide_hw := h1\<rparr>)
          else create_partitions dev_dir part_data (part_entries mbr) (s\<lparr>ide_hw := h1\<rparr>) }))"

text \<open>The result is the status, the device and the state.\<close>

definition ide_attach :: "'h ata_bus \<Rightarrow> bool \<Rightarrow> (nat \<Rightarrow> u32 option) \<Rightarrow> pci_device \<Rightarrow> 'h ide_state \<Rightarrow> (int \<times> pci_device \<times> 'h ide_state) option" where
  "ide_attach B alloc part_data dev0 s =
     (let h1 = bus_outb B ATA_PRIMARY_COMMAND ATA_CMD_IDENTIFY (bus_outb B ATA_PRIMARY_DRIVE_HEAD 0xA0 (ide_hw s));
          (v, h2) = bus_inb B ATA_PRIMARY_STATUS h1;
          dev = dev0\<lparr>d_driver := Some ''IDE Controller Driver''\<rparr>;
          s2 = s\<lparr>ide_present := False, ide_hw := h2\<rparr>
      in if v = 0 then Some (0, dev, s2)
         else let (r, h3) = ide_wait_for_ready B h2
              in if r \<noteq> 0 then Some (0, dev, s2\<lparr>ide_hw := h3\<rparr>)
                 else let (u, h4) = bus_inb B ATA_PRIMARY_STATUS h3
                      in if u AND ATA_SR_DRQ = 0 then Some (0, dev, s2\<lparr>ide_hw := h4\<rparr>)
                         else let (identify, h5) = bus_insw B ATA_PRIMARY_DATA 256 h4;
                                  s5 = s2\<lparr>ide_present := True, ide_hw := h5\<rparr>
                              in do {
                                dev_dir \<leftarrow> find_in (vfs_root (ide_fs s)) ''dev'' (ide_fs s);
                                if dev_dir = None then Some (-1, dev, s5)
                                else do {
                                  (made, s6) \<leftarrow> make_device_node dev_dir ''sda'' (Some Whole_disk) s5;
                                  if \<not> made then Some (-1, dev, s6)
                                  else do { s7 \<leftarrow> ide_scan_partitions B alloc part_data s6; Some (0, dev, s7) } } })"

text \<open>The driver the device manager gets; it hands \<open>attach\<close> the device only, the other state is that of the call.\<close>

definition ide_driver :: "config_space \<Rightarrow> (pci_device \<Rightarrow> int \<times> pci_device) \<Rightarrow> driver" where
  "ide_driver cfg attach = \<lparr>drv_name = ''IDE Controller Driver'', drv_probe = ide_probe cfg, drv_attach = attach\<rparr>"

definition ide_driver_init :: "config_space \<Rightarrow> (pci_device \<Rightarrow> int \<times> pci_device) \<Rightarrow> device_lists \<Rightarrow> device_lists" where
  "ide_driver_init cfg attach = deviceman_register_driver (Some (ide_driver cfg attach))"

subsection \<open>Requests\<close>

text \<open>A request with its argument, \<open>None\<close> for a null pointer.\<close>

datatype ide_request =
  Get_disk_info bool
| Read_blocks "(u32 \<times> u32) option"
| Write_blocks "(u32 \<times> u32 \<times> u8 list) option"
| Format_disk "(u32 \<times> u32) option"
| Other_request nat

datatype ide_answer = Info_answer u64 u32 | Block_answer "u8 list" | No_answer

text \<open>What both functions do with a request, on the disk or a partition; the result is the 32-bit one of the transfer, as a
  signed number.\<close>

fun device_ioctl :: "blockdev \<Rightarrow> ide_request \<Rightarrow> disk \<Rightarrow> (int \<times> ide_answer \<times> disk) option" where
  "device_ioctl dev (Get_disk_info given) d =
     (if given then Some (0, case ioctl_disk_info dev of (n, b) \<Rightarrow> Info_answer n b, d) else Some (-1, No_answer, d))"
| "device_ioctl dev (Read_blocks arg) d =
     (case arg of None \<Rightarrow> Some (-1, No_answer, d)
      | Some (lba, count) \<Rightarrow> (case ioctl_read_blocks d dev lba count of (rc, bytes) \<Rightarrow> Some (sint rc, Block_answer bytes, d)))"
| "device_ioctl dev (Write_blocks arg) d =
     (case arg of None \<Rightarrow> Some (-1, No_answer, d)
      | Some (lba, count, bytes) \<Rightarrow> map_option (\<lambda>(rc, d'). (sint rc, No_answer, d')) (ioctl_write_blocks d dev lba count bytes))"
| "device_ioctl dev (Format_disk arg) d =
     (case arg of None \<Rightarrow> Some (-1, No_answer, d)
      | Some (lba, n) \<Rightarrow> map_option (\<lambda>(rc, d'). (rc, No_answer, d')) (ioctl_format dev lba n d))"
| "device_ioctl dev (Other_request r) d = Some (-1, No_answer, d)"

definition ide_ioctl :: "ide_request \<Rightarrow> disk \<Rightarrow> (int \<times> ide_answer \<times> disk) option" where
  "ide_ioctl req d = device_ioctl Whole_disk req d"

definition ide_partition_ioctl :: "blockdev option \<Rightarrow> ide_request \<Rightarrow> disk \<Rightarrow> (int \<times> ide_answer \<times> disk) option" where
  "ide_partition_ioctl part_data req d =
     (case part_data of None \<Rightarrow> Some (-1, No_answer, d) | Some dev \<Rightarrow> device_ioctl dev req d)"

text \<open>The lines of the test of the disk.\<close>

definition partition_line :: "nat \<Rightarrow> MBR_PartitionEntry \<Rightarrow> string option" where
  "partition_line i p = vksprintf ''  [%d] Type: 0x%x, Start LBA: %d, Size: %d sectors''
     [Slot (of_nat i) None, Slot (ucast (mbr_type p)) None, Slot (ucast (lba_first_sector p)) None, Slot (ucast (sector_count p)) None]"

fun partition_lines :: "u8 list \<Rightarrow> nat list \<Rightarrow> string list option" where
  "partition_lines mbr [] = Some []"
| "partition_lines mbr (i # is) = do {
     p \<leftarrow> mbr_partition mbr i;
     rest \<leftarrow> partition_lines mbr is;
     if mbr_type p = 0 then Some rest
     else do { line \<leftarrow> partition_line i p; if length line < 128 then Some (line # rest) else None } }"

definition ide_test_read :: "disk \<Rightarrow> bool \<Rightarrow> string list option" where
  "ide_test_read d alloc =
     (if \<not> primary_master_present d then Some [''IDE Test: Aborting, primary master not found.'']
      else if \<not> alloc then Some [''IDE Test: Failed to allocate buffer for MBR.'']
      else let started = [''IDE Test: Reading MBR from drive 0...'']; (rc, mbr) = ide_read_sectors d 0 0 1
           in if rc \<noteq> 0 then Some (started @ [''IDE Test: Failed to read MBR.''])
              else if rd16 510 mbr \<noteq> Some 0xAA55 then Some (started @ [''IDE Test: Invalid MBR signature.''])
              else do {
                parts \<leftarrow> partition_lines mbr [0..<4];
                Some (started @ [''IDE Test: MBR signature is valid. Partitions:''] @ parts) })"

subsection \<open>Attaching\<close>

text \<open>Over a controller that keeps to the standard the scan of the table makes no node, whatever is on the disk.\<close>

lemma scan_makes_no_node:
  assumes laws: "ata_laws B V" and i: "ata_idle V (ide_hw s)"
  shows "\<exists>h. ide_scan_partitions B alloc part_data s = Some (s\<lparr>ide_hw := h\<rparr>) \<and> v_sect V h = v_sect V (ide_hw s) \<and> ata_idle V h"
proof (cases alloc)
  case False
  then show ?thesis using i by (intro exI [of _ "ide_hw s"]) (simp add: ide_scan_partitions_def)
next
  case True
  have r': "\<exists>rc data h'. ata_read_sectors B p 0 0 1 h = (rc, data, h') \<and> ide_read_sectors (drive_of V p h) 0 0 1 = (rc, data)
      \<and> v_sect V h' = v_sect V h \<and> ata_idle V h'" if "ata_idle V h" for h p
    using ata_read_refines [OF laws that, of 1 p 0 0] by (cases "ide_read_sectors (drive_of V p h) 0 0 1") auto
  obtain rc data h1 where r: "ata_read_sectors B (ide_present s) 0 0 1 (ide_hw s) = (rc, data, h1)"
    "ide_read_sectors (drive_of V (ide_present s) (ide_hw s)) 0 0 1 = (rc, data)" "v_sect V h1 = v_sect V (ide_hw s)" "ata_idle V h1"
    using r' [OF i] by blast
  obtain rc2 data2 h2 where r2: "ata_read_sectors B (ide_present s) 0 0 1 h1 = (rc2, data2, h2)" "v_sect V h2 = v_sect V h1" "ata_idle V h2"
    using r' [OF r(4)] by blast
  have "rc = 0 \<or> rc = -1"
    using read_loop_rc [of "drive_of V (ide_present s) (ide_hw s)" "lba28 0" 1] r(2) by (auto simp: ide_read_sectors_def split: if_splits)
  then have "rc \<noteq> 512" by auto
  then show ?thesis using True r r2 by (intro exI [of _ h2]) (simp add: ide_scan_partitions_def)
qed

text \<open>A node made for a device is found under its name and has the functions of the device.\<close>

lemma made_node_found:
  assumes inv: "ide_fs s = fs" "nodes fs d = Some dir" "node_content dir = None" "node_dir_ops dir" "node_flags dir AND VFS_DIRECTORY \<noteq> 0"
    and heap: "heap_ok fs DIRENT_SIZE" "heap_ok fs CONTENT_SIZE" "heap_ok fs 128"
    and name: "length name < MAX_FILENAME_LEN" "name \<notin> {''.'', ''..''}" and fresh: "nodes fs (next_node fs) = None"
  shows "\<exists>s'. make_device_node (Some d) name (Some b) s = Some (True, s') \<and> block_node s' (next_node fs) = Some b
    \<and> find_in (Some d) name (ide_fs s') = Some (Some (next_node fs)) \<and> ide_hw s' = ide_hw s \<and> ide_present s' = ide_present s"
proof -
  let ?n = "next_node fs" and ?f = "VFS_FILE OR VFS_CHARDEVICE"
  define fs1 where "fs1 = fs\<lparr>nodes := (nodes fs)(?n \<mapsto> new_dirent d name ?f, d \<mapsto> dir\<lparr>node_dirents := ?n # node_dirents dir\<rparr>), next_node := Suc ?n\<rparr>"
  have ne: "d \<noteq> ?n" using inv(2) fresh by auto
  have c: "kyrofs_create_node d name ?f fs = Some (0, fs1)"
    using inv heap name(1) by (simp add: kyrofs_create_node_def fs1_def Let_def)
  have f: "find_in (Some d) name g = Some (Some ?n)"
    if "nodes g d = Some (dir\<lparr>node_dirents := ?n # node_dirents dir\<rparr>)" "nodes g ?n = Some y" "node_name y = name" for g y
    using that inv(4,5) name(2)
    by (simp add: find_in_def vfs_finddir_def is_directory_def boot_ops_def kyrofs_ops_def dir_op_def kyrofs_finddir_def)
  have n: "nodes fs1 ?n = Some (new_dirent d name ?f)" "nodes fs1 d = Some (dir\<lparr>node_dirents := ?n # node_dirents dir\<rparr>)"
    using ne by (simp_all add: fs1_def)
  have nm: "node_name (new_dirent d name ?f) = name" by (simp add: new_dirent_def Let_def)
  define s' where "s' = s\<lparr>ide_fs := set_node ?n ((new_dirent d name ?f)\<lparr>node_flags := node_flags (new_dirent d name ?f) OR VFS_CHARDEVICE, node_content := None\<rparr>) fs1,
    block_node := (block_node s)(?n \<mapsto> b)\<rparr>"
  have "make_device_node (Some d) name (Some b) s = Some (True, s')"
    using c f [OF n(2,1) nm] n(1) inv(1) by (simp add: make_device_node_def s'_def)
  moreover have "find_in (Some d) name (ide_fs s') = Some (Some ?n)"
    by (rule f [where y = "(new_dirent d name ?f)\<lparr>node_flags := node_flags (new_dirent d name ?f) OR VFS_CHARDEVICE, node_content := None\<rparr>"])
      (use n ne nm in \<open>simp_all add: s'_def set_node_def\<close>)
  ultimately show ?thesis by (auto simp: s'_def)
qed

end
