(* ===== verification/Tui.thy ===== *)
theory Tui
  imports Kyro_Prelude Event_Queue
begin

section \<open>Drawing from programs (src/userspace/lib/tui, src/userspace/lib/kyroos_gfx, src/userspace/installer)\<close>

text \<open>
  The two libraries draw into the memory of the display, which is a list of bytes: a store outside it is \<open>None\<close>.
  Offsets are computed in 32 bits. A text is the list of its bytes up to the end of the object it is in.
\<close>

subsection \<open>The font\<close>

text \<open>The glyphs of the source, in its order; the codes it leaves out have an empty glyph.\<close>

definition tui_symbols :: "(nat \<times> u8 list) list" where
  "tui_symbols =
    [(32, [0, 0, 0, 0, 0, 0, 0, 0, 0, 0, 0, 0, 0, 0, 0, 0]),
     (33, [0, 0, 0x18, 0x3C, 0x3C, 0x3C, 0x18, 0x18, 0, 0x18, 0, 0, 0, 0, 0, 0]),
     (34, [0, 0x66, 0x66, 0x24, 0, 0, 0, 0, 0, 0, 0, 0, 0, 0, 0, 0]),
     (35, [0, 0, 0x6C, 0x6C, 0xFE, 0x6C, 0x6C, 0x6C, 0xFE, 0x6C, 0x6C, 0, 0, 0, 0, 0]),
     (36, [0x18, 0x3C, 0x60, 0x60, 0x58, 0x3C, 0x18, 0x38, 0x1C, 6, 6, 0x3C, 0x18, 0, 0, 0]),
     (37, [0, 0, 0x60, 0x66, 0x0C, 0x18, 0x30, 0x60, 0x30, 0x18, 0x0C, 0x66, 6, 0, 0, 0]),
     (38, [0, 0, 0x38, 0x6C, 0x6C, 0x38, 0x60, 0x6E, 0x63, 0x63, 0x7F, 0, 0, 0, 0, 0]),
     (39, [0, 0x18, 0x38, 0x18, 0, 0, 0, 0, 0, 0, 0, 0, 0, 0, 0, 0]),
     (40, [0, 0, 0x0E, 0x1C, 0x30, 0x30, 0x30, 0x30, 0x30, 0x30, 0x30, 0x1C, 0x0E, 0, 0, 0]),
     (41, [0, 0, 0x70, 0x38, 0x0C, 0x0C, 0x0C, 0x0C, 0x0C, 0x0C, 0x0C, 0x38, 0x70, 0, 0, 0]),
     (42, [0, 0, 0, 0, 0x66, 0x3C, 0xFF, 0x3C, 0x66, 0, 0, 0, 0, 0, 0, 0]),
     (43, [0, 0, 0, 0x18, 0x18, 0x18, 0x7E, 0x18, 0x18, 0x18, 0, 0, 0, 0, 0, 0]),
     (44, [0, 0, 0, 0, 0, 0, 0, 0, 0, 0, 0, 0x1C, 0x0C, 0x0E, 0, 0]),
     (45, [0, 0, 0, 0, 0, 0, 0x7E, 0, 0, 0, 0, 0, 0, 0, 0, 0]),
     (46, [0, 0, 0, 0, 0, 0, 0, 0, 0, 0, 0, 0x18, 0x18, 0, 0, 0]),
     (47, [0, 0, 2, 6, 0x0C, 0x18, 0x30, 0x60, 0xC0, 0x80, 0, 0, 0, 0, 0, 0]),
     (48, [0, 0, 0x3C, 0x42, 0x42, 0x42, 0x42, 0x42, 0x42, 0x42, 0x3C, 0, 0, 0, 0, 0]),
     (49, [0, 0, 0x10, 0x30, 0x50, 0x10, 0x10, 0x10, 0x10, 0x10, 0x7C, 0, 0, 0, 0, 0]),
     (50, [0, 0, 0x3C, 0x42, 2, 4, 8, 0x10, 0x20, 0x40, 0x7E, 0, 0, 0, 0, 0]),
     (51, [0, 0, 0x3C, 0x42, 2, 0x1C, 2, 2, 2, 0x42, 0x3C, 0, 0, 0, 0, 0]),
     (52, [0, 0, 8, 0x18, 0x28, 0x48, 0x7E, 8, 8, 8, 8, 0, 0, 0, 0, 0]),
     (53, [0, 0, 0x7E, 0x40, 0x40, 0x7C, 2, 2, 2, 0x42, 0x3C, 0, 0, 0, 0, 0]),
     (54, [0, 0, 0x3C, 0x40, 0x40, 0x7C, 0x42, 0x42, 0x42, 0x42, 0x3C, 0, 0, 0, 0, 0]),
     (55, [0, 0, 0x7E, 2, 4, 8, 0x10, 0x20, 0x20, 0x20, 0x20, 0, 0, 0, 0, 0]),
     (56, [0, 0, 0x3C, 0x42, 0x42, 0x3C, 0x42, 0x42, 0x42, 0x42, 0x3C, 0, 0, 0, 0, 0]),
     (57, [0, 0, 0x3C, 0x42, 0x42, 0x42, 0x42, 0x3E, 2, 2, 0x3C, 0, 0, 0, 0, 0]),
     (58, [0, 0, 0, 0, 0x18, 0x18, 0, 0, 0, 0x18, 0x18, 0, 0, 0, 0, 0]),
     (59, [0, 0, 0, 0, 0x18, 0x18, 0, 0, 0, 0x18, 0x18, 8, 0x10, 0, 0, 0]),
     (60, [0, 0, 6, 0x18, 0x60, 0xC0, 0xC0, 0x60, 0x18, 6, 0, 0, 0, 0, 0, 0]),
     (61, [0, 0, 0, 0, 0x7E, 0, 0, 0x7E, 0, 0, 0, 0, 0, 0, 0, 0]),
     (62, [0, 0, 0x60, 0x18, 6, 3, 3, 6, 0x18, 0x60, 0, 0, 0, 0, 0, 0]),
     (63, [0, 0, 0x3C, 0x66, 0x66, 0x0C, 0x18, 0x18, 0, 0x18, 0x18, 0, 0, 0, 0, 0]),
     (64, [0, 0, 0x3C, 0x66, 0x6E, 0x6E, 0x6E, 0x60, 0x60, 0x3E, 0, 0, 0, 0, 0, 0])]"

definition tui_letters :: "(nat \<times> u8 list) list" where
  "tui_letters =
    [(65, [0, 0, 0x3C, 0x66, 0x66, 0x66, 0x7E, 0x66, 0x66, 0x66, 0x66, 0, 0, 0, 0, 0]),
     (66, [0, 0, 0x7C, 0x42, 0x42, 0x7C, 0x42, 0x42, 0x42, 0x7C, 0, 0, 0, 0, 0, 0]),
     (67, [0, 0, 0x3C, 0x42, 0x40, 0x40, 0x40, 0x40, 0x42, 0x3C, 0, 0, 0, 0, 0, 0]),
     (68, [0, 0, 0x78, 0x44, 0x42, 0x42, 0x42, 0x42, 0x44, 0x78, 0, 0, 0, 0, 0, 0]),
     (69, [0, 0, 0x7E, 0x40, 0x40, 0x7C, 0x40, 0x40, 0x40, 0x7E, 0, 0, 0, 0, 0, 0]),
     (70, [0, 0, 0x7E, 0x40, 0x40, 0x7C, 0x40, 0x40, 0x40, 0x40, 0, 0, 0, 0, 0, 0]),
     (71, [0, 0, 0x3C, 0x42, 0x40, 0x40, 0x4E, 0x42, 0x42, 0x3C, 0, 0, 0, 0, 0, 0]),
     (72, [0, 0, 0x66, 0x66, 0x66, 0x7E, 0x66, 0x66, 0x66, 0x66, 0, 0, 0, 0, 0, 0]),
     (73, [0, 0, 0x3C, 0x18, 0x18, 0x18, 0x18, 0x18, 0x18, 0x3C, 0, 0, 0, 0, 0, 0]),
     (74, [0, 0, 0x1E, 0x0C, 0x0C, 0x0C, 0x0C, 0x0C, 0xCC, 0x78, 0, 0, 0, 0, 0, 0]),
     (75, [0, 0, 0xE6, 0x66, 0x6C, 0x78, 0x6C, 0x66, 0x66, 0xE6, 0, 0, 0, 0, 0, 0]),
     (76, [0, 0, 0x40, 0x40, 0x40, 0x40, 0x40, 0x40, 0x40, 0x7E, 0, 0, 0, 0, 0, 0]),
     (77, [0, 0, 0xC6, 0xEE, 0xFE, 0xD6, 0xC6, 0xC6, 0xC6, 0xC6, 0, 0, 0, 0, 0, 0]),
     (78, [0, 0, 0xC6, 0xE6, 0xF6, 0xDE, 0xCE, 0xC6, 0xC6, 0xC6, 0, 0, 0, 0, 0, 0]),
     (79, [0, 0, 0x3C, 0x66, 0x66, 0x66, 0x66, 0x66, 0x66, 0x3C, 0, 0, 0, 0, 0, 0]),
     (80, [0, 0, 0x7C, 0x66, 0x66, 0x7C, 0x60, 0x60, 0x60, 0x60, 0, 0, 0, 0, 0, 0]),
     (81, [0, 0, 0x3C, 0x66, 0x66, 0x66, 0x66, 0x6C, 0x36, 0x3E, 0, 0, 0, 0, 0, 0]),
     (82, [0, 0, 0x7C, 0x66, 0x66, 0x7C, 0x6C, 0x66, 0x66, 0xE6, 0, 0, 0, 0, 0, 0]),
     (83, [0, 0, 0x3C, 0x66, 0x60, 0x3C, 6, 6, 0x66, 0x3C, 0, 0, 0, 0, 0, 0]),
     (84, [0, 0, 0x7E, 0x18, 0x18, 0x18, 0x18, 0x18, 0x18, 0x18, 0, 0, 0, 0, 0, 0]),
     (85, [0, 0, 0x66, 0x66, 0x66, 0x66, 0x66, 0x66, 0x66, 0x3C, 0, 0, 0, 0, 0, 0]),
     (86, [0, 0, 0x66, 0x66, 0x66, 0x66, 0x66, 0x3C, 0x18, 0x18, 0, 0, 0, 0, 0, 0]),
     (87, [0, 0, 0xC6, 0xC6, 0xC6, 0xD6, 0xFE, 0xEE, 0xC6, 0xC6, 0, 0, 0, 0, 0, 0]),
     (88, [0, 0, 0xC6, 0xC6, 0x6C, 0x38, 0x38, 0x6C, 0xC6, 0xC6, 0, 0, 0, 0, 0, 0]),
     (89, [0, 0, 0xC6, 0xC6, 0xC6, 0x6C, 0x38, 0x18, 0x18, 0x18, 0, 0, 0, 0, 0, 0]),
     (90, [0, 0, 0x7E, 6, 0x0C, 0x18, 0x30, 0x60, 0x40, 0x7E, 0, 0, 0, 0, 0, 0]),
     (91, [0, 0, 0x7E, 0x60, 0x60, 0x60, 0x60, 0x60, 0x60, 0x60, 0x60, 0x60, 0x60, 0x7E, 0, 0]),
     (92, [0, 0, 0x80, 0xC0, 0x60, 0x30, 0x18, 0x0C, 6, 2, 0, 0, 0, 0, 0, 0]),
     (93, [0, 0, 0x7E, 6, 6, 6, 6, 6, 6, 6, 6, 6, 6, 0x7E, 0, 0]),
     (94, [0, 0x10, 0x38, 0x6C, 0xC6, 0, 0, 0, 0, 0, 0, 0, 0, 0, 0, 0]),
     (95, [0, 0, 0, 0, 0, 0, 0, 0, 0, 0, 0, 0, 0xFF, 0, 0, 0]),
     (96, [0, 0x30, 0x18, 0x0C, 0, 0, 0, 0, 0, 0, 0, 0, 0, 0, 0, 0]),
     (97, [0, 0, 0, 0, 0, 0x78, 0x0C, 0x7C, 0xCC, 0xCC, 0xCC, 0x76, 0, 0, 0, 0]),
     (98, [0, 0, 0xE0, 0x60, 0x60, 0x7C, 0x66, 0x66, 0x66, 0x66, 0x66, 0x7C, 0, 0, 0, 0]),
     (99, [0, 0, 0, 0, 0, 0x7C, 0x66, 0x60, 0x60, 0x60, 0x66, 0x7C, 0, 0, 0, 0]),
     (100, [0, 0, 0x0E, 6, 6, 0x3E, 0x66, 0x66, 0x66, 0x66, 0x66, 0x3E, 0, 0, 0, 0]),
     (101, [0, 0, 0, 0, 0, 0x7C, 0x66, 0x66, 0x7E, 0x60, 0x66, 0x7C, 0, 0, 0, 0]),
     (102, [0, 0, 0x0E, 0x18, 0x3E, 0x18, 0x18, 0x18, 0x18, 0x18, 0x18, 0x18, 0, 0, 0, 0]),
     (103, [0, 0, 0, 0, 0, 0x7E, 0x66, 0x66, 0x66, 0x66, 0x3E, 6, 0x7C, 0, 0, 0]),
     (104, [0, 0, 0xE0, 0x60, 0x60, 0x6C, 0x76, 0x66, 0x66, 0x66, 0x66, 0x66, 0, 0, 0, 0]),
     (105, [0, 0, 0x18, 0x18, 0, 0x38, 0x18, 0x18, 0x18, 0x18, 0x18, 0x3C, 0, 0, 0, 0]),
     (106, [0, 0, 6, 6, 0, 0x0E, 6, 6, 6, 6, 6, 6, 0x66, 0x3C, 0, 0]),
     (107, [0, 0, 0xE0, 0x60, 0x60, 0x66, 0x6C, 0x78, 0x78, 0x6C, 0x66, 0xE6, 0, 0, 0, 0]),
     (108, [0, 0, 0x38, 0x18, 0x18, 0x18, 0x18, 0x18, 0x18, 0x18, 0x18, 0x3C, 0, 0, 0, 0]),
     (109, [0, 0, 0, 0, 0, 0xEC, 0xFE, 0xD6, 0xD6, 0xD6, 0xD6, 0xC6, 0, 0, 0, 0]),
     (110, [0, 0, 0, 0, 0, 0xDC, 0x66, 0x66, 0x66, 0x66, 0x66, 0x66, 0, 0, 0, 0]),
     (111, [0, 0, 0, 0, 0, 0x3C, 0x66, 0x66, 0x66, 0x66, 0x66, 0x3C, 0, 0, 0, 0]),
     (112, [0, 0, 0, 0, 0, 0xDC, 0x66, 0x66, 0x66, 0x66, 0x66, 0x7C, 0x60, 0x60, 0xF0, 0]),
     (113, [0, 0, 0, 0, 0, 0x76, 0xCC, 0xCC, 0xCC, 0xCC, 0xCC, 0x7C, 0x0C, 0x0C, 0x1E, 0]),
     (114, [0, 0, 0, 0, 0, 0xDC, 0x66, 0x62, 0x60, 0x60, 0x60, 0xF0, 0, 0, 0, 0]),
     (115, [0, 0, 0, 0, 0, 0x7C, 0xC6, 0x60, 0x3C, 6, 0xC6, 0x7C, 0, 0, 0, 0]),
     (116, [0, 0, 0x10, 0x30, 0x7E, 0x30, 0x30, 0x30, 0x30, 0x30, 0x30, 0x1E, 0, 0, 0, 0]),
     (117, [0, 0, 0, 0, 0, 0x66, 0x66, 0x66, 0x66, 0x66, 0x66, 0x3E, 0, 0, 0, 0]),
     (118, [0, 0, 0, 0, 0, 0x66, 0x66, 0x66, 0x66, 0x66, 0x3C, 0x18, 0, 0, 0, 0]),
     (119, [0, 0, 0, 0, 0, 0xC6, 0xC6, 0xD6, 0xFE, 0xEE, 0xC6, 0xC6, 0, 0, 0, 0]),
     (120, [0, 0, 0, 0, 0, 0xC6, 0x6C, 0x38, 0x38, 0x6C, 0xC6, 0xC6, 0, 0, 0, 0]),
     (121, [0, 0, 0, 0, 0, 0xC6, 0xC6, 0xC6, 0xC6, 0xC6, 0xC6, 0x7E, 6, 0x0C, 0xF8, 0]),
     (122, [0, 0, 0, 0, 0, 0xFE, 0xCC, 0x18, 0x30, 0x60, 0xC6, 0xFE, 0, 0, 0, 0]),
     (123, [0, 0, 0x0E, 0x18, 0x18, 0x18, 0x70, 0x18, 0x18, 0x18, 0x18, 0x0E, 0, 0, 0, 0]),
     (124, [0, 0, 0x18, 0x18, 0x18, 0x18, 0x18, 0x18, 0x18, 0x18, 0x18, 0x18, 0, 0, 0, 0]),
     (125, [0, 0, 0x70, 0x18, 0x18, 0x18, 0x0E, 0x18, 0x18, 0x18, 0x18, 0x70, 0, 0, 0, 0]),
     (126, [0, 0, 0x76, 0xDC, 0, 0, 0, 0, 0, 0, 0, 0, 0, 0, 0, 0])]"

type_synonym font = "nat \<Rightarrow> u8 list"

definition tui_font :: font where
  "tui_font c = (case map_of (tui_symbols @ tui_letters) c of None \<Rightarrow> replicate 16 0 | Some rows \<Rightarrow> rows)"

text \<open>The codes from 128 get copies of printable glyphs, with the first pixel set.\<close>

definition tui_font_init :: "font \<Rightarrow> font" where
  "tui_font_init font = fold (\<lambda>i f. f(i := (f (i mod 94 + 32))[0 := f (i mod 94 + 32) ! 0 OR 0x80])) [128..<256] font"

subsection \<open>The display\<close>

record fb_info =
  ui_width :: u32
  ui_height :: u32
  ui_pitch :: u32
  ui_bpp :: u32
  ui_buffer :: u64

text \<open>\<open>answer\<close> is the result of the call that fills in the description.\<close>

definition tui_init :: "int \<Rightarrow> fb_info \<Rightarrow> font \<Rightarrow> int \<times> font" where
  "tui_init answer info font =
     (if answer = 0 \<and> ui_buffer info \<noteq> 0 \<and> ui_bpp info = 32 then (0, tui_font_init font) else (-1, font))"

definition store_pixel :: "nat \<Rightarrow> u32 \<Rightarrow> u8 list \<Rightarrow> u8 list option" where
  "store_pixel offset color mem = write_at offset (le32 color) mem"

definition tui_clear_screen :: "fb_info \<Rightarrow> u32 \<Rightarrow> u8 list \<Rightarrow> u8 list option" where
  "tui_clear_screen info color mem =
     for_each (\<lambda>i. store_pixel (4 * i) color) [0..<unat (ui_width info * ui_height info)] mem"

definition tui_draw_pixel :: "fb_info \<Rightarrow> u32 \<Rightarrow> u32 \<Rightarrow> u32 \<Rightarrow> u8 list \<Rightarrow> u8 list option" where
  "tui_draw_pixel info x y color mem =
     (if x \<ge> ui_width info \<or> y \<ge> ui_height info then Some mem
      else store_pixel (unat (y * ui_pitch info + x * (ui_bpp info div 8))) color mem)"

text \<open>The numbers of a loop from \<open>a\<close> while below \<open>b\<close>.\<close>

definition u32_range :: "u32 \<Rightarrow> u32 \<Rightarrow> u32 list" where
  "u32_range a b = map of_nat [unat a..<unat b]"

definition tui_draw_box :: "fb_info \<Rightarrow> u32 \<Rightarrow> u32 \<Rightarrow> u32 \<Rightarrow> u32 \<Rightarrow> u32 \<Rightarrow> u8 list \<Rightarrow> u8 list option" where
  "tui_draw_box info x y width height color =
     for_each (\<lambda>j. for_each (\<lambda>i. tui_draw_pixel info i j color) (u32_range x (x + width))) (u32_range y (y + height))"

subsection \<open>Text\<close>

text \<open>One character of the encoding: what the lead byte says, with the code and the bytes it takes, or a byte to skip.\<close>

datatype utf8_char = Utf8_skip | Utf8_code u32 nat

fun utf8_next :: "u8 list \<Rightarrow> utf8_char option" where
  "utf8_next [] = None"
| "utf8_next (b # bs) =
     (if b < 0x80 then Some (Utf8_code (ucast b) 1)
      else if b AND 0xE0 = 0xC0
      then (case bs of b1 # _ \<Rightarrow> Some (Utf8_code (push_bit 6 (ucast (b AND 0x1F)) OR ucast (b1 AND 0x3F)) 2) | [] \<Rightarrow> None)
      else if b AND 0xF0 = 0xE0
      then (case bs of b1 # b2 # _ \<Rightarrow>
               Some (Utf8_code (push_bit 12 (ucast (b AND 0x0F)) OR push_bit 6 (ucast (b1 AND 0x3F)) OR ucast (b2 AND 0x3F)) 3)
             | _ \<Rightarrow> None)
      else Some Utf8_skip)"

definition glyph_index :: "u32 \<Rightarrow> u8" where
  "glyph_index codepoint =
     (if codepoint < 128 then ucast codepoint
      else if 0x0410 \<le> codepoint \<and> codepoint \<le> 0x044F then 128 + ucast (codepoint - 0x0410)
      else 63)"

definition draw_glyph :: "font \<Rightarrow> fb_info \<Rightarrow> u32 \<Rightarrow> u32 \<Rightarrow> u8 \<Rightarrow> u32 \<Rightarrow> u8 list \<Rightarrow> u8 list option" where
  "draw_glyph font info x y index color =
     for_each (\<lambda>row. for_each (\<lambda>col mem.
         if bit (font (unat index) ! row) (7 - col) then tui_draw_pixel info (x + of_nat col) (y + of_nat row) color mem
         else Some mem) [0..<8]) [0..<16]"

text \<open>The loop over the text, with the column of the line's start, the pen and the rest of the text.\<close>

function draw_chars :: "font \<Rightarrow> fb_info \<Rightarrow> u32 \<Rightarrow> u32 \<Rightarrow> u32 \<Rightarrow> u8 list \<Rightarrow> u32 \<Rightarrow> u8 list \<Rightarrow> u8 list option" where
  "draw_chars font info x current_x y p color mem =
     (case p of [] \<Rightarrow> None
      | b # bs \<Rightarrow>
          if b = 0 then Some mem
          else (case utf8_next p of
              None \<Rightarrow> None
            | Some Utf8_skip \<Rightarrow> draw_chars font info x current_x y bs color mem
            | Some (Utf8_code codepoint bytes) \<Rightarrow>
                if bytes = 0 \<or> length p < bytes then None
                else if codepoint = 10 then draw_chars font info x x (y + 16) (drop bytes p) color mem
                else do {
                  mem1 \<leftarrow> draw_glyph font info current_x y (glyph_index codepoint) color mem;
                  draw_chars font info x (current_x + 8) y (drop bytes p) color mem1 }))"
  by pat_completeness auto
termination
  by (relation "measure (\<lambda>(font, info, x, current_x, y, p, color, mem). length p)") auto

declare draw_chars.simps [simp del]

definition tui_draw_text :: "font \<Rightarrow> fb_info \<Rightarrow> u32 \<Rightarrow> u32 \<Rightarrow> u8 list \<Rightarrow> u32 \<Rightarrow> u8 list \<Rightarrow> u8 list option" where
  "tui_draw_text font info x y string color mem = draw_chars font info x x y string color mem"

subsection \<open>kyroos\_gfx\<close>

record gfx_info =
  gi_address :: u64
  gi_width :: u32
  gi_height :: u32
  gi_pitch :: u16
  gi_bpp :: u8

definition gfx_init :: "int \<Rightarrow> gfx_info \<Rightarrow> int" where
  "gfx_init answer info = (if answer = 0 \<and> gi_address info \<noteq> 0 \<and> gi_bpp info = 32 then 0 else -1)"

definition gfx_draw_pixel :: "gfx_info \<Rightarrow> u32 \<Rightarrow> u32 \<Rightarrow> u32 \<Rightarrow> u8 list \<Rightarrow> u8 list option" where
  "gfx_draw_pixel info x y color mem =
     (if x \<ge> gi_width info \<or> y \<ge> gi_height info then Some mem
      else store_pixel (unat (y * ucast (gi_pitch info) + x * (ucast (gi_bpp info) div 8))) color mem)"

definition gfx_draw_rect :: "gfx_info \<Rightarrow> u32 \<Rightarrow> u32 \<Rightarrow> u32 \<Rightarrow> u32 \<Rightarrow> u32 \<Rightarrow> u8 list \<Rightarrow> u8 list option" where
  "gfx_draw_rect info x y width height color =
     for_each (\<lambda>j. for_each (\<lambda>i. gfx_draw_pixel info (x + i) (y + j) color) (u32_range 0 width)) (u32_range 0 height)"

definition gfx_get_width :: "gfx_info \<Rightarrow> u32" where "gfx_get_width info = gi_width info"
definition gfx_get_height :: "gfx_info \<Rightarrow> u32" where "gfx_get_height info = gi_height info"

subsection \<open>The graphical installer\<close>

definition text_of :: "string \<Rightarrow> u8 list" where
  "text_of s = map (of_nat \<circ> of_char) s @ [0]"

definition installer_screen :: "font \<Rightarrow> fb_info \<Rightarrow> u8 list \<Rightarrow> u8 list option" where
  "installer_screen font info mem = do {
     let bg_color = 0x0000AA; let title_bg_color = 0xAAAAAA; let text_color = 0xFFFFFF; let title_text_color = 0;
     m1 \<leftarrow> tui_clear_screen info bg_color mem;
     m2 \<leftarrow> tui_draw_box info 0 0 (ui_width info) 24 title_bg_color m1;
     m3 \<leftarrow> tui_draw_text font info 5 4 (text_of ''KyroOS Installer'') title_text_color m2;
     let win_x = 50; let win_y = 50; let win_w = ui_width info - 100; let win_h = ui_height info - 100;
     m4 \<leftarrow> tui_draw_box info win_x win_y win_w win_h title_bg_color m3;
     m5 \<leftarrow> tui_draw_text font info (win_x + 10) (win_y + 10) (text_of ''Welcome to the KyroOS Installer!'') text_color m4;
     m6 \<leftarrow> tui_draw_text font info (win_x + 10) (win_y + 40)
       (text_of ''This utility will guide you through installing KyroOS on your machine.'') text_color m5;
     let btn_w = 100; let btn_h = 30; let btn_x = ui_width info div 2 - btn_w div 2; let btn_y = ui_height info - 70;
     m7 \<leftarrow> tui_draw_box info btn_x btn_y btn_w btn_h 0x00AA00 m6;
     tui_draw_text font info (btn_x + 25) (btn_y + 7) (text_of ''Next >'') text_color m7 }"

text \<open>The loop over the events polled, an empty poll being \<open>None\<close>: it ends with \<open>q\<close>, and \<open>None\<close> is that it goes on after them.\<close>

fun installer_events :: "event option list \<Rightarrow> int option" where
  "installer_events [] = None"
| "installer_events (e # es) =
     (case e of Some ev \<Rightarrow> if event_kind ev = EVENT_KEY_DOWN \<and> (ucast (data1 ev) :: u8) = 113 then Some 0 else installer_events es
      | None \<Rightarrow> installer_events es)"

definition tui_installer_main :: "int \<Rightarrow> fb_info \<Rightarrow> event option list \<Rightarrow> u8 list \<Rightarrow> (int \<times> u8 list) option" where
  "tui_installer_main answer info events mem =
     (case tui_init answer info tui_font of (rc, font) \<Rightarrow>
       if rc \<noteq> 0 then Some (-1, mem)
       else do { mem1 \<leftarrow> installer_screen font info mem; r \<leftarrow> installer_events events; Some (r, mem1) })"


subsection \<open>Encoded text is drawn as its characters\<close>

text \<open>The encoding of a code below 0x10000.\<close>

definition utf8_encode :: "u32 \<Rightarrow> u8 list" where
  "utf8_encode c =
     (if c < 0x80 then [ucast c]
      else if c < 0x800 then [0xC0 OR ucast (drop_bit 6 c), 0x80 OR (ucast c AND 0x3F)]
      else [0xE0 OR ucast (drop_bit 12 c), 0x80 OR (ucast (drop_bit 6 c) AND 0x3F), 0x80 OR (ucast c AND 0x3F)])"

text \<open>Where each character of a text goes: the pen moves 8 pixels, a line end goes to the column of the start, 16 lines down.\<close>

fun draw_layout :: "font \<Rightarrow> fb_info \<Rightarrow> u32 \<Rightarrow> u32 \<Rightarrow> u32 \<Rightarrow> u32 list \<Rightarrow> u32 \<Rightarrow> u8 list \<Rightarrow> u8 list option" where
  "draw_layout font info x pen y [] color mem = Some mem"
| "draw_layout font info x pen y (c # cs) color mem =
     (if c = 10 then draw_layout font info x x (y + 16) cs color mem
      else do { mem1 \<leftarrow> draw_glyph font info pen y (glyph_index c) color mem; draw_layout font info x (pen + 8) y cs color mem1 })"

lemma u8_masks: "(0x80 :: u8) = push_bit 7 1" "(0xC0 :: u8) = push_bit 6 (mask 2)" "(0xE0 :: u8) = push_bit 5 (mask 3)" "(0xF0 :: u8) = push_bit 4 (mask 4)"
  "(0x3F :: u8) = mask 6" "(0x1F :: u8) = mask 5" "(0x0F :: u8) = mask 4"
  by (simp_all add: mask_eq_exp_minus_1)

lemma below_bits: "unat (c :: 'a::len word) < 2 ^ k \<Longrightarrow> k \<le> n \<Longrightarrow> \<not> bit c n"
proof -
  assume c: "unat c < 2 ^ k" and n: "k \<le> n"
  have "take_bit k (unat c) = unat c" using c by (simp add: take_bit_nat_eq_self)
  moreover have "\<not> bit (take_bit k (unat c)) n" using n by (simp add: bit_take_bit_iff)
  ultimately have "\<not> bit (unat c) n" by simp
  then show "\<not> bit c n" by (auto simp: bit_unsigned_iff dest: bit_imp_le_length)
qed

lemma high_bit: "bit (b :: u8) 7 \<Longrightarrow> \<not> b < 0x80 \<and> b \<noteq> 0"
  using below_bits [of b 7 7] by (auto simp: word_less_nat_alt)

lemma decode_one:
  assumes "c < 0x80" "c \<noteq> 0"
  shows "utf8_next (utf8_encode c @ bs) = Some (Utf8_code c 1)" "hd (utf8_encode c @ bs) \<noteq> 0" "length (utf8_encode c) = 1"
proof -
  have c: "unat c < 128" using assms(1) by (simp add: word_less_nat_alt)
  have n: "n < 8" if "bit c n" for n using below_bits [of c 7 n] c that by force
  from c have u: "unat (ucast c :: u8) = unat c" by (simp add: unsigned_ucast_eq take_bit_nat_eq_self)
  have "(ucast c :: u8) < 0x80" using c by (simp add: word_less_nat_alt u)
  moreover have "(ucast c :: u8) \<noteq> 0" using assms(2) u by (metis unat_0 unat_eq_0)
  moreover have "(ucast (ucast c :: u8) :: u32) = c"
    by (rule bit_word_eqI) (auto simp: bit_simps dest: n)
  ultimately show "utf8_next (utf8_encode c @ bs) = Some (Utf8_code c 1)" "hd (utf8_encode c @ bs) \<noteq> 0" "length (utf8_encode c) = 1"
    using assms by (simp_all add: utf8_encode_def)
qed

lemma low_part: "(m OR x) AND k = (m AND k) OR (x AND (k :: u8))"
  by (rule bit.conj_disj_distrib2)

lemma tail_byte: "((0x80 :: u8) OR (x AND 0x3F)) AND 0x3F = x AND 0x3F"
  by (simp add: low_part and.assoc)

lemma decode_two:
  assumes "0x80 \<le> c" "c < 0x800"
  shows "utf8_next (utf8_encode c @ bs) = Some (Utf8_code c 2)" "hd (utf8_encode c @ bs) \<noteq> 0" "length (utf8_encode c) = 2"
proof -
  define b b1 where "b = (0xC0 OR ucast (drop_bit 6 c) :: u8)" and "b1 = (0x80 OR (ucast c AND 0x3F) :: u8)"
  have c: "unat c < 2 ^ 11" using assms(2) by (simp add: word_less_nat_alt)
  have n: "n < 11" if "bit c n" for n using below_bits [OF c, of n] that by force
  have e: "utf8_encode c = [b, b1]" using assms by (auto simp: utf8_encode_def b_def b1_def)
  have "bit b 7" by (simp add: b_def u8_masks bit_simps)
  note h = high_bit [OF this]
  have "(ucast (drop_bit 6 c) :: u8) AND 0xE0 = 0"
    unfolding u8_masks by (rule bit_word_eqI) (auto simp: bit_simps dest!: n)
  then have "b AND 0xE0 = 0xC0" unfolding b_def low_part by simp
  moreover have "b AND 0x1F = ucast (drop_bit 6 c) AND 0x1F" unfolding b_def low_part by simp
  moreover have "push_bit 6 (ucast ((ucast (drop_bit 6 c) :: u8) AND 0x1F)) OR ucast ((ucast c :: u8) AND 0x3F) = c"
    unfolding u8_masks by (rule bit_word_eqI) (auto simp: bit_simps not_less dest: n)
  ultimately show "utf8_next (utf8_encode c @ bs) = Some (Utf8_code c 2)" using h by (simp add: e b1_def tail_byte)
  show "hd (utf8_encode c @ bs) \<noteq> 0" "length (utf8_encode c) = 2" using h by (simp_all add: e)
qed

lemma decode_three:
  assumes "0x800 \<le> c" "c < 0x10000"
  shows "utf8_next (utf8_encode c @ bs) = Some (Utf8_code c 3)" "hd (utf8_encode c @ bs) \<noteq> 0" "length (utf8_encode c) = 3"
proof -
  define b b1 b2 where "b = (0xE0 OR ucast (drop_bit 12 c) :: u8)" and "b1 = (0x80 OR (ucast (drop_bit 6 c) AND 0x3F) :: u8)"
    and "b2 = (0x80 OR (ucast c AND 0x3F) :: u8)"
  have c: "unat c < 2 ^ 16" using assms(2) by (simp add: word_less_nat_alt)
  have n: "n < 16" if "bit c n" for n using below_bits [OF c, of n] that by force
  have "\<not> c < 0x80" using assms(1) by (simp add: word_less_nat_alt word_le_nat_alt)
  then have e: "utf8_encode c = [b, b1, b2]" using assms by (simp add: utf8_encode_def b_def b1_def b2_def)
  have "bit b 7" by (simp add: b_def u8_masks bit_simps)
  note h = high_bit [OF this]
  have "bit (b AND 0xE0) 5" by (simp add: b_def u8_masks bit_simps)
  moreover have "\<not> bit (0xC0 :: u8) 5" by (simp add: u8_masks bit_simps)
  ultimately have x: "b AND 0xE0 \<noteq> 0xC0" by metis
  have "(ucast (drop_bit 12 c) :: u8) AND 0xF0 = 0"
    unfolding u8_masks by (rule bit_word_eqI) (auto simp: bit_simps dest!: n)
  then have y: "b AND 0xF0 = 0xE0" unfolding b_def low_part by simp
  have z: "b AND 0x0F = ucast (drop_bit 12 c) AND 0x0F" unfolding b_def low_part by simp
  have "push_bit 12 (ucast ((ucast (drop_bit 12 c) :: u8) AND 0x0F)) OR push_bit 6 (ucast ((ucast (drop_bit 6 c) :: u8) AND 0x3F))
      OR ucast ((ucast c :: u8) AND 0x3F) = c" (is "?l = c")
    unfolding u8_masks
  proof (rule bit_word_eqI)
    fix i :: nat assume "i < LENGTH(32)"
    then show "bit (push_bit 12 (ucast ((ucast (drop_bit 12 c) :: u8) AND mask 4)) OR push_bit 6 (ucast ((ucast (drop_bit 6 c) :: u8) AND mask 6))
        OR ucast ((ucast c :: u8) AND mask 6) :: u32) i = bit c i"
      by (cases "i < 12") (auto simp: bit_simps not_less dest: n)
  qed
  then show "utf8_next (utf8_encode c @ bs) = Some (Utf8_code c 3)" using h x y z by (simp add: e b1_def b2_def tail_byte)
  show "hd (utf8_encode c @ bs) \<noteq> 0" "length (utf8_encode c) = 3" using h by (simp_all add: e)
qed

lemma decode_encoded:
  assumes "c < 0x10000" "c \<noteq> 0"
  shows "\<exists>k. utf8_next (utf8_encode c @ bs) = Some (Utf8_code c k) \<and> k = length (utf8_encode c) \<and> 0 < k \<and> hd (utf8_encode c @ bs) \<noteq> 0"
proof (cases "c < 0x80")
  case True
  then show ?thesis using decode_one [OF True assms(2)] by simp
next
  case a: False
  show ?thesis
  proof (cases "c < 0x800")
    case True
    then show ?thesis using decode_two [of c] a by simp
  next
    case False
    then show ?thesis using decode_three [of c] assms(1) by simp
  qed
qed

text \<open>A program's text appears on the display: \<open>tui_draw_text\<close> of the UTF-8 encoding of any characters below 0x10000
  draws exactly the glyphs of these characters, one after the other from the given position, with a new line at each line
  end, and reads nothing beyond the terminator.\<close>

lemma tui_draws_encoded:
  assumes "\<forall>c\<in>set cs. c < 0x10000 \<and> c \<noteq> 0"
  shows "tui_draw_text font info x y (concat (map utf8_encode cs) @ 0 # rest) color mem = draw_layout font info x x y cs color mem"
proof -
  have "draw_chars font info x pen y (concat (map utf8_encode cs) @ 0 # rest) color mem = draw_layout font info x pen y cs color mem" for pen
    using assms
  proof (induction cs arbitrary: pen y mem)
    case Nil
    show ?case by (simp add: draw_chars.simps)
  next
    case (Cons c cs)
    let ?bs = "concat (map utf8_encode cs) @ 0 # rest"
    obtain k where k: "utf8_next (utf8_encode c @ ?bs) = Some (Utf8_code c k)" "k = length (utf8_encode c)" "0 < k" "hd (utf8_encode c @ ?bs) \<noteq> 0"
      using decode_encoded [of c ?bs] Cons.prems by auto
    obtain b bs where b: "utf8_encode c @ ?bs = b # bs" using k(2,3) by (cases "utf8_encode c") auto
    have "drop k (utf8_encode c @ ?bs) = ?bs" "k \<le> length (utf8_encode c @ ?bs)" by (simp_all add: k(2))
    moreover have "b \<noteq> 0" using k(4) by (simp add: b)
    ultimately have "drop k (b # bs) = ?bs" "k \<le> length (b # bs)" "b \<noteq> 0" unfolding b by simp_all
    then have "draw_chars font info x pen y (b # bs) color mem =
      (if c = 10 then draw_chars font info x x (y + 16) ?bs color mem
       else do { mem1 \<leftarrow> draw_glyph font info pen y (glyph_index c) color mem; draw_chars font info x (pen + 8) y ?bs color mem1 })"
      using k(1,3) unfolding b by (subst draw_chars.simps) (simp add: not_less)
    moreover have "concat (map utf8_encode (c # cs)) @ 0 # rest = b # bs" using b by simp
    ultimately show ?case using Cons
      by (cases "draw_glyph font info pen y (glyph_index c) color mem") (simp_all del: concat.simps list.map)
  qed
  then show ?thesis by (simp add: tui_draw_text_def)
qed


text \<open>A display of 16 by 32 pixels.\<close>

definition small_display :: fb_info where
  "small_display = \<lparr>ui_width = 16, ui_height = 32, ui_pitch = 64, ui_bpp = 32, ui_buffer = 0x1000\<rparr>"

lemma tui_draws_encoded_witness:
  "tui_draw_text tui_font small_display 0 0 [0x41, 0x0A, 0xD0, 0x90, 0] 7 (replicate 2048 0)
    = draw_layout tui_font small_display 0 0 0 [0x41, 10, 0x410] 7 (replicate 2048 0)"
proof -
  have "\<forall>c\<in>set [0x41, 10, 0x410 :: u32]. c < 0x10000 \<and> c \<noteq> 0" by simp
  from tui_draws_encoded [OF this, of tui_font small_display 0 0 "[]" 7 "replicate 2048 0"]
  show ?thesis by (simp add: utf8_encode_def)
qed

end
