(* ===== verification/Installer.thy ===== *)
theory Installer
  imports Coreutils Event_Queue Ide Kstring
begin

section \<open>The installer and lsblk (src/src/tools/installer, src/userspace/lsblk)\<close>

text \<open>
  Over the calls of \<open>file_calls\<close> and those only these programs make. A partition table is the 512 bytes read from the
  disk. \<open>None\<close> is a program that does not return, or an access outside a buffer.
\<close>

record 's system_calls =
  sc_files :: "'s file_calls"
  sc_disk_info :: "int \<Rightarrow> 's \<Rightarrow> int \<times> (u64 \<times> u32) \<times> 's"
  sc_format :: "int \<Rightarrow> u32 \<Rightarrow> u32 \<Rightarrow> 's \<Rightarrow> int \<times> 's"
  sc_mount :: "string \<Rightarrow> string \<Rightarrow> string \<Rightarrow> 's \<Rightarrow> int \<times> 's"
  sc_malloc :: "u32 \<Rightarrow> 's \<Rightarrow> bool \<times> 's"
  sc_free :: "'s \<Rightarrow> 's"
  sc_fb_info :: "'s \<Rightarrow> int \<times> 's"
  sc_poll :: "'s \<Rightarrow> event option \<times> 's"

definition O_RDWR :: u32 where "O_RDWR = 0x0003"

definition tell :: "'s system_calls \<Rightarrow> string list \<Rightarrow> 's \<Rightarrow> 's" where
  "tell S lines st = outs (sc_files S) lines st"

abbreviation nl :: string where "nl \<equiv> [CHR 0x0A]"

definition disk_path :: string where "disk_path = ''/dev/sda''"

text \<open>\<open>sprintf\<close> into the buffer of 128 bytes.\<close>

definition tell_fmt :: "'s system_calls \<Rightarrow> string \<Rightarrow> va_slot list \<Rightarrow> 's \<Rightarrow> 's option" where
  "tell_fmt S format args st = do {
     s \<leftarrow> vksprintf format args;
     if length s < 128 then Some (tell S [s] st) else None }"

text \<open>One line for every used entry of the table; \<open>base\<close> is what the numbers start from.\<close>

fun tell_partitions :: "'s system_calls \<Rightarrow> nat \<Rightarrow> u8 list \<Rightarrow> nat list \<Rightarrow> 's \<Rightarrow> 's option" where
  "tell_partitions S base mbr [] st = Some st"
| "tell_partitions S base mbr (i # is) st = do {
     p \<leftarrow> mbr_partition mbr i;
     st1 \<leftarrow> (if mbr_type p = 0 then Some st
       else tell_fmt S (''  [%d] Type: 0x%02x, Start LBA: %u, Size: %u sectors'' @ nl)
         [Slot (of_nat (i + base)) None, Slot (ucast (mbr_type p)) None, Slot (ucast (lba_first_sector p)) None, Slot (ucast (sector_count p)) None] st);
     tell_partitions S base mbr is st1 }"

subsection \<open>Disks and partitions\<close>

definition installer_disk_detection :: "'s system_calls \<Rightarrow> 's \<Rightarrow> 's option" where
  "installer_disk_detection S st =
     (let (disk_fd, st1) = c_open (sc_files S) disk_path O_RDONLY (tell S [''Installer: Detecting disks...'' @ nl] st)
      in if disk_fd < 0 then Some (tell S [''INSTALLER: Error: Could not open disk device '', disk_path, nl] st1)
         else let (rc, (sectors, bytes), st2) = sc_disk_info S disk_fd st1
              in if rc \<noteq> 0
                 then Some (snd (c_close (sc_files S) disk_fd (tell S [''INSTALLER: Error: Could not get disk info for '', disk_path, nl] st2)))
                 else do {
                   st3 \<leftarrow> tell_fmt S (''INSTALLER: Found disk %s: Total sectors: %llu, Bytes per sector: %u'' @ nl)
                     [Slot 1 (Some disk_path), Slot sectors None, Slot (ucast bytes) None] st2;
                   case c_read (sc_files S) disk_fd 512 st3 of (n, mbr, st4) \<Rightarrow>
                     if n \<noteq> 512
                     then Some (snd (c_close (sc_files S) disk_fd (tell S [''INSTALLER: Error: Could not read MBR from '', disk_path, nl] st4)))
                     else do {
                       sig \<leftarrow> rd16 510 mbr;
                       let st5 = (if sig \<noteq> 0x55AA then tell S [''INSTALLER: Warning: Invalid MBR signature (0xAA55 not found).'' @ nl] st4 else st4);
                       st6 \<leftarrow> tell_partitions S 0 mbr [0..<4] (tell S [''INSTALLER: Detected Partitions:'' @ nl] st5);
                       Some (snd (c_close (sc_files S) disk_fd st6)) } })"

text \<open>The first entry with a type and a size, with its number.\<close>

fun first_partition :: "u8 list \<Rightarrow> nat list \<Rightarrow> (nat \<times> u32 \<times> u32) option option" where
  "first_partition mbr [] = Some None"
| "first_partition mbr (i # is) = do {
     p \<leftarrow> mbr_partition mbr i;
     if mbr_type p \<noteq> 0 \<and> 0 < sector_count p then Some (Some (i + 1, lba_first_sector p, sector_count p)) else first_partition mbr is }"

text \<open>\<open>selected_partition_lba\<close> and \<open>selected_partition_size\<close>.\<close>

type_synonym selection = "u32 \<times> u32"

definition installer_partition_selection :: "'s system_calls \<Rightarrow> selection \<times> 's \<Rightarrow> (selection \<times> 's) option" where
  "installer_partition_selection S ss =
     (let (sel, st) = ss;
          (disk_fd, st1) = c_open (sc_files S) disk_path O_RDONLY (tell S [''Installer: Selecting partitions...'' @ nl] st)
      in if disk_fd < 0 then Some (sel, tell S [''INSTALLER: Error: Could not open disk device '', disk_path, nl] st1)
         else case c_read (sc_files S) disk_fd 512 st1 of (n, mbr, st2) \<Rightarrow>
           if n \<noteq> 512
           then Some (sel, snd (c_close (sc_files S) disk_fd (tell S [''INSTALLER: Error: Could not read MBR from '', disk_path, nl] st2)))
           else do {
             st3 \<leftarrow> tell_partitions S 1 mbr [0..<4]
               (tell S [''INSTALLER: Please select a partition for installation:'' @ nl] (snd (c_close (sc_files S) disk_fd st2)));
             found \<leftarrow> first_partition mbr [0..<4];
             case found of
               Some (i, lba, len) \<Rightarrow> do {
                 st4 \<leftarrow> tell_fmt S (''INSTALLER: Auto-selected partition %d (LBA: %u, Size: %u sectors)'' @ nl)
                   [Slot (of_nat i) None, Slot (ucast lba) None, Slot (ucast len) None] st3;
                 Some ((lba, len), st4) }
             | None \<Rightarrow> Some ((0, snd sel), tell S [''INSTALLER: No suitable partition found for installation. Aborting.'' @ nl] st3) })"

definition installer_filesystem_formatting :: "'s system_calls \<Rightarrow> selection \<times> 's \<Rightarrow> (selection \<times> 's) option" where
  "installer_filesystem_formatting S ss =
     (let (sel, st) = ss; st0 = tell S [''Installer: Formatting filesystem...'' @ nl] st
      in if fst sel = 0 then Some (sel, tell S [''INSTALLER: No partition selected for formatting. Aborting.'' @ nl] st0)
         else let (disk_fd, st1) = c_open (sc_files S) disk_path O_RDWR st0
              in if disk_fd < 0
                 then Some (sel, tell S [''INSTALLER: Error: Could not open disk device for formatting '', disk_path, nl] st1)
                 else do {
                   st2 \<leftarrow> tell_fmt S (''INSTALLER: Formatting partition at LBA %u, size %u sectors...'' @ nl)
                     [Slot (ucast (fst sel)) None, Slot (ucast (snd sel)) None] st1;
                   let (rc, st3) = sc_format S disk_fd (fst sel) (snd sel) st2;
                   if rc \<noteq> 0
                   then Some (sel, snd (c_close (sc_files S) disk_fd (tell S [''INSTALLER: Error: Filesystem formatting failed.'' @ nl] st3)))
                   else let st4 = tell S [''INSTALLER: Filesystem formatted successfully. Attempting to mount...'' @ nl]
                              (snd (c_close (sc_files S) disk_fd st3));
                            (m, st5) = sc_mount S ''/mnt'' (disk_path @ ''1'') ''fs_disk'' st4
                        in if m \<noteq> 0 then Some (sel, tell S [''INSTALLER: Error: Failed to mount filesystem to /mnt.'' @ nl] st5)
                           else Some (sel, tell S [''INSTALLER: Filesystem mounted to /mnt successfully.'' @ nl] st5) })"

subsection \<open>The base system\<close>

definition copy_file_to_mounted_fs :: "'s system_calls \<Rightarrow> string \<Rightarrow> string \<Rightarrow> 's \<Rightarrow> int \<times> 's" where
  "copy_file_to_mounted_fs S src dest st =
     (let F = sc_files S; (src_fd, st1) = c_open F src O_RDONLY st
      in if src_fd < 0 then (-1, tell S [''INSTALLER: Error: Could not open source file for copy: '', src, nl] st1)
         else let (rc, info, st2) = c_stat F src st1
              in if rc \<noteq> 0 then (-1, snd (c_close F src_fd (tell S [''INSTALLER: Error: Could not stat source file: '', src, nl] st2)))
                 else let (room, st3) = sc_malloc S (st_size info) st2
                      in if \<not> room
                         then (-1, snd (c_close F src_fd (tell S [''INSTALLER: Error: Failed to allocate buffer for file copy.'' @ nl] st3)))
                         else let (n, buffer, st4) = c_read F src_fd (unat (st_size info)) st3
                              in if n \<noteq> sint (st_size info)
                                 then (-1, snd (c_close F src_fd (sc_free S (tell S [''INSTALLER: Error: Failed to read source file: '', src, nl] st4))))
                                 else let (dest_fd, st5) = c_open F dest (O_CREAT OR O_TRUNC OR O_WRONLY) (snd (c_close F src_fd st4))
                                      in if dest_fd < 0
                                         then (-1, sc_free S (tell S [''INSTALLER: Error: Could not create destination file: '', dest, nl] st5))
                                         else let (w, st6) = c_write F dest_fd buffer st5
                                              in if w \<noteq> sint (st_size info)
                                                 then (-1, snd (c_close F dest_fd (sc_free S
                                                        (tell S [''INSTALLER: Error: Failed to write to destination file: '', dest, nl] st6))))
                                                 else (0, tell S [''INSTALLER: Copied '', src, '' to '', dest, nl]
                                                        (sc_free S (snd (c_close F dest_fd st6)))))"

definition base_directories :: "string list" where
  "base_directories = [''/mnt/bin'', ''/mnt/etc'', ''/mnt/var'', ''/mnt/var/lib'', ''/mnt/var/lib/kpm'', ''/mnt/boot'']"

definition base_programs :: "string list" where
  "base_programs = map (\<lambda>p. ''/bin/'' @ p)
     [''shell'', ''kpm'', ''installer'', ''ls'', ''cat'', ''mkdir'', ''rm'', ''rmdir'', ''cp'', ''mv'', ''pwd'', ''cd'']"

definition mkdirs :: "'s system_calls \<Rightarrow> string list \<Rightarrow> 's \<Rightarrow> 's" where
  "mkdirs S = fold (\<lambda>p st. snd (c_mkdir (sc_files S) p st))"

text \<open>Copying stops at the first failure.\<close>

fun copy_programs :: "'s system_calls \<Rightarrow> string list \<Rightarrow> 's \<Rightarrow> int \<times> 's" where
  "copy_programs S [] st = (0, st)"
| "copy_programs S (p # ps) st =
     (case copy_file_to_mounted_fs S p (''/mnt'' @ p) st of (r, st1) \<Rightarrow> if r \<noteq> 0 then (r, st1) else copy_programs S ps st1)"

definition installer_base_system_installation :: "'s system_calls \<Rightarrow> 's \<Rightarrow> 's" where
  "installer_base_system_installation S st =
     (let st1 = mkdirs S base_directories (tell S [''Installer: Installing base system...'' @ nl, ''INSTALLER: Creating directories on /mnt...'' @ nl] st);
          (r, st2) = copy_programs S base_programs (tell S [''INSTALLER: Copying essential executables...'' @ nl] st1)
      in if r \<noteq> 0 then st2
         else tell S [''INSTALLER: Simulating kernel image copy...'' @ nl,
                ''  (Kernel copy simulated: ensure kernel module is available during installation.)'' @ nl,
                ''Installer: Base system installation complete.'' @ nl] st2)"

definition installer_install_initial_packages :: "'s system_calls \<Rightarrow> 's \<Rightarrow> 's" where
  "installer_install_initial_packages S = tell S
     [''Installer: Installing initial packages...'' @ nl,
      ''  (Note: kpm'' @ [CHR 0x27] @ ''s network fetch is currently disabled due to missing TLS support.)'' @ nl,
      ''  This would involve running '' @ [CHR 0x27] @ ''kpm install <local_package.kpkg>'' @ [CHR 0x27] @ '' for base packages.'' @ nl,
      ''  e.g., '' @ [CHR 0x27] @ ''kpm install /packages/coreutils.kpkg'' @ [CHR 0x27] @ '' (simulated)'' @ nl,
      ''Installer: Initial packages installation complete (simulated).'' @ nl]"

definition limine_cfg_content :: string where
  "limine_cfg_content = concat (map (\<lambda>l. l @ nl)
     [''TIMEOUT=3'', ''DEFAULT_ENTRY=1'', '''', '':KyroOS'', ''PROTOCOL=limine'', ''KASLR=no'', ''KERNEL_PATH=boot:///boot/kernel.elf''])"

text \<open>Making a file of a text: whether it could be opened.\<close>

definition write_text_file :: "'s system_calls \<Rightarrow> string \<Rightarrow> string \<Rightarrow> 's \<Rightarrow> bool \<times> 's" where
  "write_text_file S path content st =
     (let F = sc_files S; (fd, st1) = c_open F path (O_CREAT OR O_TRUNC OR O_WRONLY) st
      in if fd < 0 then (False, tell S [''INSTALLER: Error: Could not create '' @ path @ nl] st1)
         else (True, snd (c_close F fd (snd (c_write F fd (map (of_nat \<circ> of_char) content) st1)))))"

definition installer_install_bootloader :: "'s system_calls \<Rightarrow> 's \<Rightarrow> 's" where
  "installer_install_bootloader S st =
     (let (made, st1) = write_text_file S ''/mnt/boot/limine.cfg'' limine_cfg_content
            (tell S [''Installer: Installing bootloader...'' @ nl,
               ''  (This involves writing Limine bootloader stages to the disk and creating limine.cfg)'' @ nl,
               ''  Simulating Limine bootloader installation to MBR/ESP and /mnt/boot/limine.cfg.'' @ nl] st)
      in if \<not> made then st1
         else tell S [''INSTALLER: /mnt/boot/limine.cfg created.'' @ nl,
                ''INSTALLER: Simulating writing Limine stage1/stage2 to disk (requires raw disk access).'' @ nl,
                ''Installer: Bootloader installation complete (simulated).'' @ nl] st1)"

definition passwd_content :: string where
  "passwd_content = ''kyro:x:1000:1000:Kyro User,,,:/home/kyro:/bin/shell'' @ nl"

definition installer_create_initial_user :: "'s system_calls \<Rightarrow> 's \<Rightarrow> 's" where
  "installer_create_initial_user S st =
     (let (made, st1) = write_text_file S ''/mnt/etc/passwd'' passwd_content
            (tell S [''Installer: Creating initial user...'' @ nl,
               ''  (This involves creating an entry in /mnt/etc/passwd and a home directory)'' @ nl] st)
      in if \<not> made then st1
         else tell S [''INSTALLER: /mnt/home/kyro created.'' @ nl, ''Installer: Initial user creation complete.'' @ nl]
                (mkdirs S [''/mnt/home'', ''/mnt/home/kyro'']
                  (tell S [''INSTALLER: /mnt/etc/passwd created with user '' @ [CHR 0x27] @ ''kyro'' @ [CHR 0x27] @ ''.'' @ nl] st1)))"

definition installer_basic_configuration :: "'s system_calls \<Rightarrow> 's \<Rightarrow> 's" where
  "installer_basic_configuration S = tell S
     [''Installer: Performing basic configuration (timezone, keyboard)...'' @ nl,
      ''  (This involves writing configuration files to /mnt/etc/)'' @ nl,
      ''  Simulating '' @ [CHR 0x27] @ ''UTC'' @ [CHR 0x27] @ '' timezone and '' @ [CHR 0x27] @ ''US'' @ [CHR 0x27] @ '' keyboard layout configuration.'' @ nl,
      ''Installer: Basic configuration complete (simulated).'' @ nl]"

text \<open>The eight steps in order; none looks at whether the ones before worked, but for the selected partition.\<close>

definition installation :: "'s system_calls \<Rightarrow> selection \<times> 's \<Rightarrow> (selection \<times> 's) option" where
  "installation S ss = do {
     st1 \<leftarrow> installer_disk_detection S (snd ss);
     ss2 \<leftarrow> installer_partition_selection S (fst ss, st1);
     (sel, st3) \<leftarrow> installer_filesystem_formatting S ss2;
     Some (sel, installer_basic_configuration S (installer_create_initial_user S (installer_install_bootloader S
       (installer_install_initial_packages S (installer_base_system_installation S st3))))) }"

subsection \<open>The menu\<close>

partial_function (option) wait_any_event :: "'s system_calls \<Rightarrow> 's \<Rightarrow> 's option" where
  "wait_any_event S st = (case sc_poll S st of (Some ev, st1) \<Rightarrow> Some st1 | (None, st1) \<Rightarrow> wait_any_event S st1)"

partial_function (option) installer_menu :: "'s system_calls \<Rightarrow> selection \<times> 's \<Rightarrow> (selection \<times> 's) option" where
  "installer_menu S ss =
     (case sc_poll S (snd ss) of
        (Some ev, st1) \<Rightarrow>
          if event_kind ev = EVENT_KEY_DOWN \<and> (ucast (data1 ev) :: u8) = 0x31
          then do {
            (sel, st2) \<leftarrow> installation S (fst ss, tell S [''1'' @ nl @ ''Starting installation...'' @ nl] st1);
            st3 \<leftarrow> wait_any_event S (tell S [''--- Installation process finished (simulated) ---'' @ nl, ''Press any key to exit.'' @ nl] st2);
            Some (sel, st3) }
          else if event_kind ev = EVENT_KEY_DOWN \<and> (ucast (data1 ev) :: u8) = 0x32
          then Some (fst ss, tell S [''2'' @ nl @ ''Exiting installer.'' @ nl] st1)
          else installer_menu S (fst ss, st1)
      | (None, st1) \<Rightarrow> installer_menu S (fst ss, st1))"

definition installer_main :: "'s system_calls \<Rightarrow> selection \<times> 's \<Rightarrow> (int \<times> selection \<times> 's) option" where
  "installer_main S ss =
     (case sc_fb_info S (snd ss) of (rc, st1) \<Rightarrow>
       if rc \<noteq> 0 then Some (1, fst ss, tell S [''Installer: Failed to get framebuffer info.'' @ nl] st1)
       else do {
         ss1 \<leftarrow> installer_menu S (fst ss, tell S
           [concat (replicate 101 nl), replicate 41 (CHR ''='') @ nl, ''      KyroOS Graphical Installer'' @ nl,
            replicate 41 (CHR ''='') @ nl @ nl, ''1. Start Installation'' @ nl, ''2. Exit Installer'' @ nl @ nl, ''Enter your choice: ''] st1);
         Some (0, ss1) })"

subsection \<open>lsblk\<close>

text \<open>The name is at \<open>address\<close>.\<close>

definition lsblk_line :: "u64 \<Rightarrow> string \<Rightarrow> u64 \<Rightarrow> u32 \<Rightarrow> string option" where
  "lsblk_line address name sectors bytes = vksprintf (''%-9s %dM'' @ nl)
     [Slot address (Some name), Slot (sectors * ucast bytes div (1024 * 1024)) None]"

partial_function (option) lsblk_loop :: "'s system_calls \<Rightarrow> u64 \<Rightarrow> int \<Rightarrow> nat \<Rightarrow> 's \<Rightarrow> 's option" where
  "lsblk_loop S address dev_fd index st =
     (case c_readdir (sc_files S) dev_fd index st of
        (None, st1) \<Rightarrow> Some st1
      | (Some de, st1) \<Rightarrow>
          if 256 \<le> length (''/dev/'' @ d_name de) then None
          else (case c_open (sc_files S) (''/dev/'' @ d_name de) O_RDONLY st1 of (fd, st2) \<Rightarrow>
            if fd < 0 then lsblk_loop S address dev_fd (index + 1) st2
            else (case sc_disk_info S fd st2 of (rc, (sectors, bytes), st3) \<Rightarrow>
              do {
                st4 \<leftarrow> (if rc = 0
                  then do { s \<leftarrow> lsblk_line address (d_name de) sectors bytes; if length s < 256 then Some (tell S [s] st3) else None }
                  else Some st3);
                lsblk_loop S address dev_fd (index + 1) (snd (c_close (sc_files S) fd st4)) })))"

definition lsblk_main :: "'s system_calls \<Rightarrow> u64 \<Rightarrow> 's \<Rightarrow> 's option" where
  "lsblk_main S address st =
     (case c_open (sc_files S) ''/dev'' O_RDONLY st of (dev_fd, st1) \<Rightarrow>
       if dev_fd < 0 then Some (tell S [''lsblk: cannot open /dev'' @ nl] st1)
       else do {
         st2 \<leftarrow> lsblk_loop S address dev_fd 0 (tell S [''NAME      SIZE'' @ nl] st1);
         Some (snd (c_close (sc_files S) dev_fd st2)) })"

subsection \<open>What the programs do\<close>

text \<open>The width of the format is not one the formatter has: its letters are printed, and the number is the address of the
  name, not the size.\<close>

lemma lsblk_line_wrong:
  assumes "scast (ucast address :: u32) = address" "0 \<le> sint address"
  shows "lsblk_line address name sectors bytes = Some (''%-9s '' @ put_num 0 (CHR '' '') 10 (unat address) @ ''M'' @ nl)"
  using assms by (simp add: lsblk_line_def vksprintf.simps fmt_arg_def is_digit_def)

text \<open>When the disk does not give a whole table, as the kernel's disk node never does, nothing is selected and nothing formatted.\<close>

lemma no_table_no_format:
  assumes "\<And>fd s. fst (c_read (sc_files S) fd 512 s) \<noteq> 512"
  shows "\<exists>st1. installer_partition_selection S ((0, 0), st) = Some ((0, 0), st1)
    \<and> installer_filesystem_formatting S ((0, 0), st1) = Some ((0, 0), tell S [''INSTALLER: No partition selected for formatting. Aborting.'' @ nl]
          (tell S [''Installer: Formatting filesystem...'' @ nl] st1))"
proof -
  obtain fd st1 where o: "c_open (sc_files S) disk_path O_RDONLY (tell S [''Installer: Selecting partitions...'' @ nl] st) = (fd, st1)" by force
  obtain n mbr st2 where r: "c_read (sc_files S) fd 512 st1 = (n, mbr, st2)" using prod_cases3 by blast
  then have "n \<noteq> 512" using assms [of fd st1] by simp
  then have "\<exists>st3. installer_partition_selection S ((0, 0), st) = Some ((0, 0), st3)"
    using o r by (simp add: installer_partition_selection_def)
  then obtain st3 where "installer_partition_selection S ((0, 0), st) = Some ((0, 0), st3)" by blast
  then show ?thesis by (simp add: installer_filesystem_formatting_def)
qed

end
