(* ===== verification/Panic.thy ===== *)
theory Panic
  imports Framebuffer Shell
begin

section \<open>The panic screen (src/kernel/panic.c, src/kernel/panic_screen.c)\<close>

text \<open>
  What is drawn before the machine halts. Facts of the machine the screen shows (the brand of the processor, the memory in
  use, the saved registers, the stack) are arguments; \<open>None\<close> is an access outside a buffer or a page that is not there.
  The texts of the source are bytes, those that are not ASCII in UTF-8.
\<close>

definition bytes_text :: "nat list \<Rightarrow> string" where
  "bytes_text = map char_of"

definition panic_reasons_strings :: "string list" where
  "panic_reasons_strings =
    [''Generic, unspecified kernel panic.'',
     ''Framebuffer Initialization Failure: Bootloader did not provide a valid framebuffer.'',
     ''No Runnable Threads in Scheduler: The system has no tasks to execute.'',
     ''Failed to Allocate Main Kernel Thread: Insufficient memory at boot.'',
     ''Returned to a Dead Thread: Scheduler or context switching error.'',
     ''General Memory Allocation Failure (kmalloc): Kernel ran out of memory.'']"

definition panic_quotes_table :: "string list" where
  "panic_quotes_table =
    [''The cake is a lie.'',
     ''It was working yesterday.'',
     ''You had one job.'',
     ''Task failed successfully.'',
     ''42'',
     ''Well yes, but actually no.'',
     ''Nothing is under control.'',
     ''Congratulations, you broke it.'',
     ''Here we go again.'',
     ''Oops.'',
     ''Bruh.'',
     ''Skill issue.'',
     ''Just works'' @ bytes_text [0xE2, 0x84, 0xA2],
     ''Trust me bro.'',
     ''Everything is broken.'',
     ''Achievement unlocked.'',
     ''Welcome to the void.'',
     ''It'' @ bytes_text [0xE2, 0x80, 0x99] @ ''s not a bug, it'' @ bytes_text [0xE2, 0x80, 0x99] @ ''s a feature.'',
     ''Abandon hope.'',
     ''Hello darkness, my old friend.'',
     ''Guess I'' @ bytes_text [0xE2, 0x80, 0x99] @ ''ll die.'',
     ''Blue screen of happiness.'',
     ''Powered by spaghetti code.'',
     ''Have you tried turning it off and on again?'',
     ''Works on my machine.'',
     ''Mom, pick me up.'',
     ''use arch btw.'',
     ''bro wat de fak'',
     ''This is fine.'',
     ''Wait, that'' @ bytes_text [0x27] @ ''s illegal.'',
     ''Internal screaming intensifies.'',
     ''Whoopsie daisy.'',
     ''I have no idea what I'' @ bytes_text [0x27] @ ''m doing.'',
     ''Keyboard not found. Press F1 to continue.'',
     ''Error: Error occurred while handling the error.'',
     ''Don'' @ bytes_text [0x27] @ ''t panic.'',
     ''Maybe it'' @ bytes_text [0x27] @ ''s a hardware problem?'',
     ''Reality is often disappointing.'',
     ''You weren'' @ bytes_text [0x27] @ ''t supposed to see this.'',
     ''Look at me, I am the captain now.'',
     ''Houston, we have a problem.'',
     ''F in the chat.'',
     ''Windows is updating (0%).'',
     ''Segmented and lonely.'',
     ''Null pointer'' @ bytes_text [0x27] @ ''s revenge.'',
     ''A wild bug appeared!'',
     ''I think, therefore I crash.'',
     ''System.exit(0) was not enough.'',
     ''One does not simply run this code.'',
     ''To be or not to be... that is the'' @ bytes_text [0xE2, 0x80, 0x94] @ '' [SEGFAULT]'',
     ''Game over, man! Game over!'',
     ''Don'' @ bytes_text [0x27] @ ''t look back, the compiler is crying.'',
     ''Unexpected item in bagging area.'',
     ''I'' @ bytes_text [0x27] @ ''m sorry, Dave. I'' @ bytes_text [0x27] @ ''m afraid I can'' @ bytes_text [0x27] @ ''t do that.'',
     ''Error 404: Brain not found.'',
     ''Why are we still here? Just to suffer?'',
     ''It'' @ bytes_text [0x27] @ ''s evolving, just backwards.'',
     ''You should have gone for the head.'',
     ''This is why we can'' @ bytes_text [0x27] @ ''t have nice things.'',
     ''I'' @ bytes_text [0x27] @ ''ll be back.'',
     ''May the Force be with your debugger.'',
     ''To infinity and'' @ bytes_text [0xE2, 0x80, 0x94] @ '' [REBOOT]'',
     ''So long, and thanks for all the fish.'',
     ''The bits are escaping!'',
     ''Divide by zero? Don'' @ bytes_text [0x27] @ ''t mind if I do!'',
     ''Magic smoke detected.'',
     ''If you can read this, I failed.'',
     ''The technical term is: '' @ bytes_text [0x27] @ ''Oopsie Woopsie'' @ bytes_text [0x27] @ ''.'',
     ''Warning: Reality.sys is corrupted.'',
     ''Life is short, but this stack trace is long.'',
     ''I felt a great disturbance in the Source.'',
     ''It'' @ bytes_text [0x27] @ ''s dangerous to go alone! Take this.'',
     ''Peace was never an option.'',
     ''Critical failure of common sense.'',
     ''You'' @ bytes_text [0x27] @ ''ve met with a terrible fate, haven'' @ bytes_text [0x27] @ ''t you?'',
     ''Something happened.'',
     ''Basically, I am very smol.'',
     ''Goodbye, cruel world.'',
     ''PC LOAD LETTER'',
     ''Everything is awesome... except this.'',
     ''I'' @ bytes_text [0x27] @ ''m not lazy, I'' @ bytes_text [0x27] @ ''m just on energy saving mode.'',
     ''Let'' @ bytes_text [0x27] @ ''s just call it a '' @ bytes_text [0x27] @ ''surprise feature'' @ bytes_text [0x27] @ ''.'',
     ''My code works, I have no idea why.'',
     ''A massive error has occurred, but you probably knew that.'',
     ''Instructions unclear, got stuck in an infinite loop.'',
     ''Your computer has been haunted by a spooky ghost.'',
     ''The hamsters running the server have died.'',
     ''Please don'' @ bytes_text [0x27] @ ''t tell the boss.'',
     ''It'' @ bytes_text [0x27] @ ''s not me, it'' @ bytes_text [0x27] @ ''s you.'',
     ''RIP in peace.'',
     ''Press F to pay respects.'',
     ''I'' @ bytes_text [0x27] @ ''m doing my best, okay?'',
     ''This incident will be reported.'',
     ''Maybe the real code was the friends we made along the way.'',
     ''Keep calm and... oh, forget it.'',
     ''Everything is a file, except when it'' @ bytes_text [0x27] @ ''s a disaster.'',
     ''I can'' @ bytes_text [0x27] @ ''t believe you'' @ bytes_text [0x27] @ ''ve done this.'',
     ''Top 10 anime betrayals: This Error.'',
     ''You'' @ bytes_text [0x27] @ ''ve reached the end of the internet.'',
     ''Searching for a solution... 0 matches found.'',
     ''Gone reduced to atoms.'',
     ''I'' @ bytes_text [0x27] @ ''m in danger.'',
     ''Why is it always like this?'',
     ''It'' @ bytes_text [0x27] @ ''s a trap!'',
     ''I am inevitable.'',
     ''Delete System32 to continue.'',
     ''Your trial of existence has expired.'',
     ''Don'' @ bytes_text [0x27] @ ''t worry, it'' @ bytes_text [0x27] @ ''s just a flesh wound.'',
     ''The singularity is near, but not today.'',
     ''Out of memory, out of time, out of luck.'',
     ''The ghost in the machine is angry.'',
     ''You shouldn'' @ bytes_text [0x27] @ ''t have played God.'',
     ''Something'' @ bytes_text [0x27] @ ''s wrong, I can feel it.'',
     ''Look Ma, no hands!'',
     ''End of line.'',
     ''To be continued...'']"

definition PANIC_BG_COLOR :: u32 where "PANIC_BG_COLOR = 0xFFFF0000"
definition PANIC_FG_COLOR :: u32 where "PANIC_FG_COLOR = 0xFFFFFFFF"
definition INFO_TEXT_COLOR :: u32 where "INFO_TEXT_COLOR = 0xFFDDDDDD"

subsection \<open>Quotes from a file\<close>

text \<open>What the node of the file gives: its functions may be missing.\<close>

record panic_file =
  pf_stat :: "(int \<times> u32) option"
  pf_read :: "(u32 \<Rightarrow> u32 \<times> u8 list) option"

fun quote_lines :: "string \<Rightarrow> string list" where
  "quote_lines [] = []"
| "quote_lines (c # cs) =
     (let line = takeWhile (\<lambda>c. c \<noteq> CHR 0x0A) (c # cs)
      in line # quote_lines (drop (length line + 1) (c # cs)))"

text \<open>The table of quotes, \<open>None\<close> for a null pointer, keeps its old value when something is missing. Without a \<open>stat\<close>
  function the size is that of an uninitialised structure.\<close>

definition panic_screen_init :: "(nat \<Rightarrow> bool) \<Rightarrow> panic_file option \<Rightarrow> string list option \<Rightarrow> string list option option" where
  "panic_screen_init ok node quotes =
     (case node of None \<Rightarrow> Some quotes
      | Some file_node \<Rightarrow>
         (case pf_stat file_node of None \<Rightarrow> None
          | Some (rc, n) \<Rightarrow>
             if rc < 0 then Some quotes
             else if \<not> ok (unat (n + 1)) then Some quotes
             else (case pf_read file_node of None \<Rightarrow> None
               | Some rd \<Rightarrow>
                  (case rd n of (k, bytes) \<Rightarrow>
                     if k \<noteq> n then Some quotes
                     else if n + 1 = 0 \<or> length bytes < unat n then None
                     else let content = takeWhile (\<lambda>c. c \<noteq> NUL) (map (char_of \<circ> unat) (take (unat n) bytes));
                              lines = quote_lines content
                          in if lines = [] then Some quotes
                             else if \<not> ok (length lines * 8) then Some None
                             else Some (Some (takeWhile (\<lambda>line. ok (length line + 1)) lines))))))"

subsection \<open>Printing\<close>

text \<open>The processor's 48 bytes, when it has them.\<close>

definition panic_get_cpu_brand :: "u32 \<Rightarrow> string \<Rightarrow> string" where
  "panic_get_cpu_brand eax raw =
     (if eax < 0x80000004 then ''Generic x86_64''
      else dropWhile (\<lambda>c. c = CHR '' '') (takeWhile (\<lambda>c. c \<noteq> NUL) (take 47 raw)))"

definition panic_draw_char :: "int \<Rightarrow> int \<Rightarrow> char \<Rightarrow> u32 \<Rightarrow> u32 \<Rightarrow> fb_state \<Rightarrow> fb_state option" where
  "panic_draw_char x y c fg bg = fb_draw_char (of_nat (of_char c)) x y fg bg"

text \<open>The position and the display.\<close>

type_synonym pen = "int \<times> int \<times> fb_state"

fun print_chars :: "int \<Rightarrow> int \<Rightarrow> u32 \<Rightarrow> u32 \<Rightarrow> string \<Rightarrow> pen \<Rightarrow> pen option" where
  "print_chars start_x max_x fg bg [] p = Some p"
| "print_chars start_x max_x fg bg (c # s) (x, y, fb) =
     (if c = CHR 0x0A then print_chars start_x max_x fg bg s (start_x, y + uint FONT_HEIGHT, fb)
      else do {
        let (x1, y1) = (if x + uint FONT_WIDTH > max_x then (start_x, y + uint FONT_HEIGHT) else (x, y));
        fb1 \<leftarrow> panic_draw_char x1 y1 c fg bg fb;
        print_chars start_x max_x fg bg s (x1 + uint FONT_WIDTH, y1, fb1) })"

definition panic_print_str :: "string \<Rightarrow> u32 \<Rightarrow> u32 \<Rightarrow> pen \<Rightarrow> pen option" where
  "panic_print_str s fg bg p =
     (case fb_get_info (snd (snd p)) of
        None \<Rightarrow> Some p
      | Some f \<Rightarrow> print_chars (fst p) (c_int (f_width f)) fg bg s p)"

abbreviation put_text :: "string \<Rightarrow> pen \<Rightarrow> pen option" where
  "put_text s \<equiv> panic_print_str s PANIC_FG_COLOR PANIC_BG_COLOR"

abbreviation put_info :: "string \<Rightarrow> pen \<Rightarrow> pen option" where
  "put_info s \<equiv> panic_print_str s INFO_TEXT_COLOR PANIC_BG_COLOR"

text \<open>To the column \<open>col\<close>, \<open>n\<close> lines down.\<close>

definition down :: "int \<Rightarrow> int \<Rightarrow> pen \<Rightarrow> pen" where
  "down n col p = (case p of (x, y, fb) \<Rightarrow> (col, y + uint FONT_HEIGHT * n, fb))"

definition slot :: "u64 \<Rightarrow> va_slot" where "slot v = Slot v None"

text \<open>A formatted line, in a buffer of \<open>n\<close> bytes.\<close>

definition put_fmt :: "nat \<Rightarrow> string \<Rightarrow> va_slot list \<Rightarrow> pen \<Rightarrow> pen option" where
  "put_fmt n format args p = do { s \<leftarrow> fmt_in n format args; put_text s p }"

definition print_page_fault_error :: "u64 \<Rightarrow> pen \<Rightarrow> pen option" where
  "print_page_fault_error error_code p0 = do {
     p1 \<leftarrow> put_fmt 100 ''Page Fault Error Code: %016lx'' [slot error_code] p0;
     p2 \<leftarrow> put_text (if bit error_code 0 then ''  - Protection Violation (P)'' else ''  - Page Not Present (P)'') (down 1 20 p1);
     p3 \<leftarrow> put_text (if bit error_code 1 then ''  - Write Operation (W/R)'' else ''  - Read Operation (W/R)'') (down 1 20 p2);
     p4 \<leftarrow> put_text (if bit error_code 2 then ''  - User Mode (U/S)'' else ''  - Supervisor Mode (U/S)'') (down 1 20 p3);
     p5 \<leftarrow> (if bit error_code 3 then put_text ''  - Reserved Bit Set (RSVD)'' (down 1 20 p4) else Some (down 1 20 p4));
     p6 \<leftarrow> (if bit error_code 4 then put_text ''  - Instruction Fetch (I/D)'' (down 1 20 p5) else Some (down 1 20 p5));
     Some (down 1 20 p6) }"

text \<open>At most 10 frames of the stack; \<open>stack\<close> reads a word.\<close>

fun print_frames :: "(u64 \<Rightarrow> u64 option) \<Rightarrow> nat \<Rightarrow> u64 \<Rightarrow> pen \<Rightarrow> pen option" where
  "print_frames stack 0 frame p = Some p"
| "print_frames stack (Suc n) frame p =
     (if frame = 0 then Some p
      else do {
        rip \<leftarrow> stack (frame + 8);
        if rip = 0 then Some p
        else do {
          p1 \<leftarrow> put_fmt 30 ''  0x%016lx'' [slot rip] p;
          next_frame \<leftarrow> stack frame;
          print_frames stack n next_frame (down 1 20 p1) } })"

definition print_stack_trace :: "(u64 \<Rightarrow> u64 option) \<Rightarrow> u64 \<Rightarrow> pen \<Rightarrow> pen option" where
  "print_stack_trace stack rbp p = do {
     p1 \<leftarrow> put_text ''Stack Trace (RBP chain):'' (down 1 20 p);
     print_frames stack 10 rbp (down 1 20 p1) }"

subsection \<open>The screen\<close>

text \<open>The registers saved by the interrupt stub, in the order of its structure.\<close>

record saved_registers =
  sr_general :: "u64 list"
  sr_int_no :: u64
  sr_err_code :: u64
  sr_rip :: u64
  sr_cs :: u64
  sr_rflags :: u64
  sr_rsp :: u64
  sr_ss :: u64

text \<open>\<open>rax, rbx, rcx, rdx, rsi, rdi, rbp, r8\<close> to \<open>r15\<close>.\<close>

definition gpr :: "saved_registers \<Rightarrow> nat \<Rightarrow> u64" where "gpr r i = sr_general r ! i"

record panic_facts =
  pn_cpu_eax :: u32
  pn_cpu_raw :: string
  pn_total_mem :: u64
  pn_used_mem :: u64
  pn_random :: u64
  pn_cr2 :: u64
  pn_stack :: "u64 \<Rightarrow> u64 option"
  pn_logs :: "string list"

text \<open>Two values on a line, the second a column further.\<close>

definition register_pair :: "int \<Rightarrow> string \<Rightarrow> u64 \<Rightarrow> string \<Rightarrow> u64 \<Rightarrow> pen \<Rightarrow> pen option" where
  "register_pair width l1 v1 l2 v2 p = do {
     p1 \<leftarrow> put_fmt 128 (l1 @ ''%016lx'') [slot v1] p;
     p2 \<leftarrow> put_fmt 128 (l2 @ ''%016lx'') [slot v2] (down 0 (20 + width) p1);
     Some (down 1 20 p2) }"

definition show_registers :: "framebuffer \<Rightarrow> panic_facts \<Rightarrow> saved_registers \<Rightarrow> pen \<Rightarrow> pen option" where
  "show_registers f env r p0 = do {
     p1 \<leftarrow> (if sr_int_no r = 14
       then do {
         q \<leftarrow> put_fmt 128 ''Faulting Address (CR2): %016lx'' [slot (pn_cr2 env)] p0;
         print_page_fault_error (sr_err_code r) (down 1 20 q) }
       else Some p0);
     p2 \<leftarrow> put_info ''--- Registers ---'' p1;
     let w = c_int (f_width f div 2 - 40);
     p3 \<leftarrow> register_pair w ''RAX: '' (gpr r 0) ''RBX: '' (gpr r 1) (down 1 20 p2);
     p4 \<leftarrow> register_pair w ''RCX: '' (gpr r 2) ''RDX: '' (gpr r 3) p3;
     p5 \<leftarrow> register_pair w ''RSI: '' (gpr r 4) ''RDI: '' (gpr r 5) p4;
     p6 \<leftarrow> register_pair w ''RBP: '' (gpr r 6) ''RSP: '' (sr_rsp r) p5;
     p7 \<leftarrow> register_pair w ''R8:  '' (gpr r 7) ''R9:  '' (gpr r 8) p6;
     p8 \<leftarrow> register_pair w ''R10: '' (gpr r 9) ''R11: '' (gpr r 10) p7;
     p9 \<leftarrow> register_pair w ''R12: '' (gpr r 11) ''R13: '' (gpr r 12) p8;
     p10 \<leftarrow> register_pair w ''R14: '' (gpr r 13) ''R15: '' (gpr r 14) p9;
     p11 \<leftarrow> register_pair w ''RIP: '' (sr_rip r) ''RFL: '' (sr_rflags r) p10;
     p12 \<leftarrow> put_fmt 128 ''CS:  %04lx SS: %04lx'' [slot (sr_cs r), slot (sr_ss r)] p11;
     p13 \<leftarrow> put_fmt 128 ''INT: %02x, ERR: %04lx'' [slot (sr_int_no r), slot (sr_err_code r)] (down 1 20 p12);
     print_stack_trace (pn_stack env) (gpr r 6) (down 2 20 p13) }"

definition show_system_info :: "framebuffer \<Rightarrow> panic_facts \<Rightarrow> fb_state \<Rightarrow> fb_state option" where
  "show_system_info f env fb = do {
     let right_col_x = c_int (f_width f - 350);
     p1 \<leftarrow> put_info ''--- System Info ---'' (right_col_x, 20, fb);
     p2 \<leftarrow> put_fmt 128 ''KyroOS Version: %s (Build %s)'' [Slot 1 (Some ''KyroOS 26.01.01 Helium''), Slot 1 (Some ''1270'')] (down 1 right_col_x p1);
     p3 \<leftarrow> put_fmt 128 ''CPU: %s'' [Slot 1 (Some (panic_get_cpu_brand (pn_cpu_eax env) (pn_cpu_raw env)))] (down 1 right_col_x p2);
     p4 \<leftarrow> put_fmt 128 ''RAM: %d / %d MB used'' [slot (pn_used_mem env div 1024 div 1024), slot (pn_total_mem env div 1024 div 1024)] (down 1 right_col_x p3);
     p5 \<leftarrow> put_fmt 128 ''Display: %dx%d @ %dbpp'' [slot (f_width f), slot (f_height f), slot (ucast (f_bpp f))] (down 1 right_col_x p4);
     Some (snd (snd p5)) }"

fun put_log_lines :: "string list \<Rightarrow> pen \<Rightarrow> pen option" where
  "put_log_lines [] p = Some p"
| "put_log_lines (l # ls) p = do { p1 \<leftarrow> put_text l p; put_log_lines ls (down 1 20 p1) }"

definition show_quote :: "string list option \<Rightarrow> panic_facts \<Rightarrow> fb_state \<Rightarrow> fb_state option" where
  "show_quote quotes env fb =
     (case quotes of
        Some qs \<Rightarrow>
          if qs = [] then Some fb
          else do {
            p1 \<leftarrow> put_info ''Quote of the moment:'' (20, 20 + uint FONT_HEIGHT * 5, fb);
            p2 \<leftarrow> put_text (qs ! (unat (pn_random env) mod length qs)) (down 1 20 p1);
            Some (snd (snd p2)) }
      | None \<Rightarrow> Some fb)"

definition show_bottom :: "framebuffer \<Rightarrow> fb_state \<Rightarrow> fb_state option" where
  "show_bottom f fb = do {
     let x = c_int (f_width f - ucast (35 * FONT_WIDTH));
     p1 \<leftarrow> put_info (bytes_text [0xD0, 0xAD, 0xD1, 0x85, 0xD1, 0x85, 0xD1, 0x85] @ ''.. '' @ bytes_text [0xD0, 0xBD, 0xD0, 0xB5] @ '' ''
         @ bytes_text [0xD0, 0xBB, 0xD1, 0x8E, 0xD0, 0xB1, 0xD0, 0xBB, 0xD1, 0x8E] @ '' ''
         @ bytes_text [0xD0, 0xBA, 0xD0, 0xB5, 0xD1, 0x80, 0xD0, 0xBD, 0xD0, 0xB5, 0xD0, 0xBB] @ '' ''
         @ bytes_text [0xD0, 0xBF, 0xD0, 0xB0, 0xD0, 0xBD, 0xD0, 0xB8, 0xD0, 0xBA, 0xD0, 0xB8])
       (x, c_int (f_height f - ucast (3 * FONT_HEIGHT)), fb);
     p2 \<leftarrow> put_info (bytes_text [0xD0, 0x9D, 0xD0, 0xBE] @ '', '' @ bytes_text [0xD1, 0x87, 0xD1, 0x82, 0xD0, 0xBE] @ '' ''
         @ bytes_text [0xD0, 0xBF, 0xD0, 0xBE, 0xD0, 0xB4, 0xD0, 0xB5, 0xD0, 0xBB, 0xD0, 0xB0, 0xD1, 0x82, 0xD1, 0x8C] @ ''..'')
       (down 1 x p1);
     Some (snd (snd p2)) }"

text \<open>The display as it is when the machine halts.\<close>

definition panic_screen_show :: "string list option \<Rightarrow> panic_facts \<Rightarrow> string \<Rightarrow> saved_registers option \<Rightarrow> fb_state \<Rightarrow> fb_state option" where
  "panic_screen_show quotes env message regs fb0 = do {
     fb1 \<leftarrow> fb_clear PANIC_BG_COLOR fb0;
     case fb_get_info fb1 of
       None \<Rightarrow> Some fb1
     | Some f \<Rightarrow> do {
         p1 \<leftarrow> put_text ''!!! KERNEL PANIC !!!'' (20, 20, fb1);
         p2 \<leftarrow> put_text ''Message: '' (down 2 20 p1);
         (x, y, fb2) \<leftarrow> put_text message p2;
         fb3 \<leftarrow> show_system_info f env fb2;
         fb4 \<leftarrow> show_quote quotes env fb3;
         p3 \<leftarrow> put_info ''--- Last 5 Log Messages ---'' (20, 20 + uint FONT_HEIGHT * 5, fb4);
         p4 \<leftarrow> put_log_lines (pn_logs env) (down 1 20 p3);
         (x', y', fb5) \<leftarrow> (case regs of
             Some r \<Rightarrow> show_registers f env r (down 1 20 p4)
           | None \<Rightarrow> put_text ''No register state available.'' (down 1 20 p4));
         fb6 \<leftarrow> show_bottom f fb5;
         fb_flush fb6 } }"

definition reason_index :: "panic_reason_t \<Rightarrow> nat" where
  "reason_index reason = (case reason of PANIC_GENERIC \<Rightarrow> 0 | PANIC_FB_INIT_FAIL \<Rightarrow> 1 | PANIC_NO_RUNNABLE_THREADS \<Rightarrow> 2
     | PANIC_KPM_MAIN_THREAD_ALLOC_FAIL \<Rightarrow> 3 | PANIC_RETURNED_TO_DEAD_THREAD \<Rightarrow> 4 | PANIC_KMALLOC_FAIL \<Rightarrow> 5)"

definition panic_text :: "panic_reason_t \<Rightarrow> u64 \<Rightarrow> string option" where
  "panic_text reason ticks =
     (let reason_str = (if reason_index reason < length panic_reasons_strings then panic_reasons_strings ! reason_index reason
                        else ''Unknown or unhandled panic reason.'')
      in fmt_in 512 (''*** KERNEL PANIC ***'' @ [CHR 0x0A] @ ''Reason: %s'' @ [CHR 0x0A] @ ''Quote: '' @ [CHR 0x22] @ ''%s'' @ [CHR 0x22, CHR 0x0A, CHR 0x0A]
             @ ''System halted.'')
           [Slot 1 (Some reason_str), Slot 1 (Some (panic_quotes_table ! (unat ticks mod length panic_quotes_table)))])"

definition trigger_kernel_panic ::
  "(nat \<Rightarrow> bool) \<Rightarrow> panic_file option \<Rightarrow> string list option \<Rightarrow> panic_facts \<Rightarrow> panic_reason_t \<Rightarrow> u64 \<Rightarrow> fb_state \<Rightarrow> fb_state option" where
  "trigger_kernel_panic ok node quotes env reason ticks fb = do {
     qs \<leftarrow> panic_screen_init ok node quotes;
     message \<leftarrow> panic_text reason ticks;
     panic_screen_show qs env message None fb }"

subsection \<open>What is shown\<close>

text \<open>The quotes of a file are its lines.\<close>

lemma quote_lines_of_lines:
  "\<forall>l\<in>set ls. l \<noteq> [] \<and> CHR 0x0A \<notin> set l \<Longrightarrow> quote_lines (concat (map (\<lambda>l. l @ [CHR 0x0A]) ls)) = ls"
proof (induction ls)
  case (Cons l ls)
  obtain c cs where l: "l = c # cs" using Cons.prems by (cases l) auto
  have n: "CHR 0x0A \<notin> set l" using Cons.prems by simp
  have t: "takeWhile (\<lambda>c. c \<noteq> CHR 0x0A) (l @ CHR 0x0A # r) = l" for r
    using n by (subst takeWhile_append2) auto
  have e: "concat (map (\<lambda>l. l @ [CHR 0x0A]) (l # ls)) = c # (cs @ CHR 0x0A # concat (map (\<lambda>l. l @ [CHR 0x0A]) ls))" by (simp add: l)
  have "takeWhile (\<lambda>c. c \<noteq> CHR 0x0A) (c # (cs @ CHR 0x0A # concat (map (\<lambda>l. l @ [CHR 0x0A]) ls))) = c # cs"
    using t [of "concat (map (\<lambda>l. l @ [CHR 0x0A]) ls)"] by (simp add: l)
  then show ?case using Cons by (simp only: e quote_lines.simps Let_def) (simp add: l)
qed simp

text \<open>A text without line ends that fits its line is drawn character by character on that line.\<close>

fun draw_line :: "int \<Rightarrow> int \<Rightarrow> u32 \<Rightarrow> u32 \<Rightarrow> string \<Rightarrow> fb_state \<Rightarrow> fb_state option" where
  "draw_line x y fg bg [] fb = Some fb"
| "draw_line x y fg bg (c # s) fb = do { fb1 \<leftarrow> panic_draw_char x y c fg bg fb; draw_line (x + 8) y fg bg s fb1 }"

lemma print_chars_line:
  "\<forall>c\<in>set s. c \<noteq> CHR 0x0A \<Longrightarrow> x + 8 * int (length s) \<le> max_x \<Longrightarrow>
    print_chars start_x max_x fg bg s (x, y, fb) = map_option (\<lambda>fb'. (x + 8 * int (length s), y, fb')) (draw_line x y fg bg s fb)"
proof (induction s arbitrary: x fb)
  case (Cons c s)
  have w: "uint FONT_WIDTH = 8" by (simp add: FONT_WIDTH_def)
  have ih: "print_chars start_x max_x fg bg s (x + 8, y, fb1) = map_option (\<lambda>fb'. (x + 8 + 8 * int (length s), y, fb')) (draw_line (x + 8) y fg bg s fb1)" for fb1
    using Cons.prems by (intro Cons.IH) simp_all
  show ?case using Cons.prems by (cases "panic_draw_char x y c fg bg fb") (simp_all add: w ih algebra_simps)
qed simp

text \<open>Every panic message fits its buffer.\<close>

lemma panic_texts_short:
  "\<forall>s\<in>set panic_reasons_strings. length s \<le> 100" "\<forall>s\<in>set panic_quotes_table. length s \<le> 100" "panic_quotes_table \<noteq> []"
  by (simp_all add: panic_reasons_strings_def panic_quotes_table_def bytes_text_def)

lemma panic_format:
  "vksprintf (''*** KERNEL PANIC ***'' @ [CHR 0x0A] @ ''Reason: %s'' @ [CHR 0x0A] @ ''Quote: '' @ [CHR 0x22] @ ''%s'' @ [CHR 0x22, CHR 0x0A, CHR 0x0A]
      @ ''System halted.'') [Slot 1 (Some a), Slot 1 (Some b)]
    = Some (''*** KERNEL PANIC ***'' @ [CHR 0x0A] @ ''Reason: '' @ takeWhile (\<lambda>x. x \<noteq> NUL) a @ [CHR 0x0A] @ ''Quote: '' @ [CHR 0x22]
        @ takeWhile (\<lambda>x. x \<noteq> NUL) b @ [CHR 0x22, CHR 0x0A, CHR 0x0A] @ ''System halted.'')"
  by (simp add: vksprintf.simps fmt_arg_def)

lemma panic_text_fits: "panic_text reason ticks \<noteq> None"
proof -
  let ?a = "if reason_index reason < length panic_reasons_strings then panic_reasons_strings ! reason_index reason else ''Unknown or unhandled panic reason.''"
  let ?b = "panic_quotes_table ! (unat ticks mod length panic_quotes_table)"
  have "length ?a \<le> 100" using panic_texts_short(1) by auto
  moreover have "length ?b \<le> 100" using panic_texts_short(2,3) by (simp add: mod_less_divisor)
  ultimately have "length (takeWhile (\<lambda>x. x \<noteq> NUL) ?a) \<le> 100" "length (takeWhile (\<lambda>x. x \<noteq> NUL) ?b) \<le> 100"
    using length_takeWhile_le le_trans by blast+
  then show ?thesis unfolding panic_text_def Let_def fmt_in_def panic_format by simp
qed

end
