(* ===== verification/Spec2Isabelle.thy ===== *)
theory Spec2Isabelle
  imports Event_Queue Pmm Klog Kstring Ip_Input Sha256 Kernel_Random Uaccess Mutex Pipe Scheduler Fs_Disk_Vfs Kernel_Heap Elf Syscall_Files Thread Ps2 Framebuffer Gui Interrupts Pci E1000 Shell_Session Devfs Tty Libc Kpm_Install Ide_Driver Tui Installer Panic
begin

text \<open>
  A verification development for the KyroOS kernel (src/src/kernel, headers in src/src/include).

  \<^bold>\<open>The program and how its parts meet.\<close> The physical page allocator (pmm.c) hands out pages; the page
  tables (vmm.c) and the kernel heap (heap.c) take theirs from it. Threads are scheduled round robin
  (scheduler.c) and wait on queues, mutexes and pipes. Files live behind the VFS layer (vfs.c): in the
  in-memory tree (kyrofs.c) or on a disk (fs_disk.c behind fs_disk_vfs.c, over ide.c). The network stack
  (arp.c, ip.c, icmp.c, udp.c, socket.c, dhcp.c) answers packets and serves sockets. Programs are loaded
  by elf.c and reach all of this through the system calls (syscall.c).

  \<^bold>\<open>Theories and the code they model.\<close>
  \<^item> \<open>Kyro_Prelude\<close>: words, byte order, byte lists, lists: the lemmas and simp collections all others use.
  \<^item> \<open>Page_Allocator\<close>, \<open>Block_Allocator\<close>, \<open>Bounded_Fifo\<close>, \<open>Wait_Queue\<close>: the interfaces, as locales; each is
    interpreted where the code that implements it is modelled (\<open>Pmm\<close>, \<open>Kernel_Heap\<close>, \<open>Event_Queue\<close> and \<open>Pipe\<close>, \<open>Mutex\<close>).
  \<^item> \<open>Pmm\<close> (pmm.c): the bitmap as bytes; initialisation, single pages, runs of pages.
  \<^item> \<open>Kernel_Heap\<close> (heap.c): the free list as headers at addresses; kmalloc, kfree, krealloc, morecore.
  \<^item> \<open>Vmm\<close> (vmm.c): four levels of tables as a map from table and index to entry; mapping, unmapping,
    translation, address spaces.
  \<^item> \<open>Elf\<close> (elf.c): loading of segments through \<open>Vmm\<close>.
  \<^item> \<open>Scheduler\<close>, \<open>Mutex\<close>, \<open>Pipe\<close>, \<open>Event_Queue\<close> (scheduler.c, spinlock.c, waitqueue.c, mutex.c, pipe.c, event.c).
  \<^item> \<open>Kstring\<close>, \<open>Klog\<close> (string.c, log.c): the string library with the formatter, the log and its console.
  \<^item> \<open>Vfs\<close> (vfs.c) with the contract of a directory tree as the locales \<open>file_tree\<close> and \<open>growing_tree\<close>;
    \<open>Kyrofs\<close> (kyrofs.c), which implements it; \<open>Ide\<close> (ide.c), \<open>Fs_Disk\<close> (fs_disk.c, the disk layout as bytes),
    \<open>Fs_Disk_Vfs\<close> (fs_disk_vfs.c and mounting).
  \<^item> \<open>Net_State\<close>, \<open>Arp\<close>, \<open>Ip_Output\<close>, \<open>Ip_Input\<close>, \<open>Dhcp\<close>, \<open>Socket\<close> (arp.c, ip.c, icmp.c, udp.c, dhcp.c, socket.c).
  \<^item> \<open>Sha256\<close>, \<open>Kernel_Random\<close>, \<open>Uaccess\<close> (crypto.c, random.c, uaccess.c).
  \<^item> \<open>Syscall\<close> (syscall.c): every handler and the dispatcher, for any file system that has the operations of
    \<open>Vfs\<close>; \<open>Syscall_Files\<close>: the file calls on \<open>Kyrofs\<close>, from user memory to user memory.

  \<^bold>\<open>Conventions.\<close> Fixed-width integers are words; a \<open>nat\<close> stands for an integer only where a bound shown or
  stated rules out a wrap. A pointer to a C object is a \<open>nat\<close> identity or its address. \<open>None\<close> as the result
  of an operation is a panic, a wild access or, for the loops of the heap, a call that never returns; an
  error the code reports is an ordinary value. The answer of the heap to an allocation is a parameter
  (\<open>kmalloc_ok\<close>, \<open>heap_ok\<close>, \<open>fs_heap_ok\<close>) where a component does not depend on where the memory lies.

  \<^bold>\<open>Loops, fuel and bounds.\<close> No definition uses fuel. Recursions are structural or have a proved measure; the
  searches of the heap are \<open>partial_function (option)\<close> and \<open>kheap_calls_return\<close> proves that they end on every
  heap the calls can reach. The bounds in hypotheses are those of the machine: 2^40 pages (52 address
  bits), files below 2 GiB (the sizes are 32-bit), 512 entries per table.

  \<^bold>\<open>What the lemmas show.\<close> Each component has an invariant kept by every operation (\<open>pmm_inv\<close>, \<open>heap_inv\<close>,
  \<open>vmm_tree\<close>, \<open>kyro_inv\<close>, \<open>fs_inv\<close>, \<open>event_inv\<close>, \<open>process_wf\<close> and others), a functional description of its
  operations, and where it has a contract a refinement of an abstract state (an allocator of pages, a
  heap of blocks, a map from virtual pages to entries, a queue, a tree of names). Defects found are
  theorems too, stated as what the code does.

  \<^bold>\<open>Not modelled.\<close> Device registers and interrupt entry beyond what the drivers compute, boot and panic
  screens, drawing of fonts and images, the vendored boot protocol headers, userspace programs and host
  tools; they are listed with reasons in the manifest.
\<close>

end
